(* ===== verification/Lola_Prelude.thy ===== *)
theory Lola_Prelude
  imports Main "HOL-Library.Word" "HOL-Library.Monad_Syntax"
begin

text \<open>
  Shared vocabulary of the development.

  \<^item> machine integers as words of their width;
  \<^item> \<open>'a run\<close>: the outcome of a C++ function that may end the process.
    \<open>None\<close> stands for \<open>std::terminate\<close>, an AMP contract violation, or an exception that
    leaves a \<open>noexcept\<close> function; \<open>Some\<close> is a regular return;
  \<^item> \<open>ComErrc\<close>: the error codes of \<open>impl/com_error.h\<close>, and the result type built on it;
  \<^item> \<open>for_retry\<close>: the bounded \<open>for\<close> loop with an early exit in which all lock-free
    algorithms of the LoLa binding try their compare-and-exchange;
  \<^item> the interfaces \<open>packed_word\<close> / \<open>packed_bijection\<close> (several fields packed in one
    machine word) and \<open>bounded_retry\<close> (what a retry loop keeps and delivers).
\<close>

unbundle bit_operations_syntax

type_synonym u8 = "8 word"
type_synonym u16 = "16 word"
type_synonym u32 = "32 word"
type_synonym u64 = "64 word"

lemma u8_less: "unat (x :: u8) < 256"
  using unsigned_less [of x] by simp

lemma u16_less: "unat (x :: u16) < 65536"
  using unsigned_less [of x] by simp

named_theorems contract_simps \<open>unfolding of AMP contract checks in the option monad\<close>
named_theorems slot_simps \<open>facts about packed event slot words\<close>
named_theorems log_defs \<open>definitions of the transaction log operations\<close>

subsection \<open>Outcomes\<close>

type_synonym 'a run = "'a option"

definition amp_require :: "bool \<Rightarrow> unit run" where
  "amp_require c = (if c then Some () else None)"

lemma amp_require_bind [contract_simps]:
  "(amp_require c \<bind> f) = (if c then f () else None)"
  by (simp add: amp_require_def)

lemma amp_require_eq_Some [simp]: "amp_require c = Some u \<longleftrightarrow> c"
  by (simp add: amp_require_def)

definition vector_at :: "'a list \<Rightarrow> nat \<Rightarrow> 'a run" where
  "vector_at xs i = (if i < length xs then Some (xs ! i) else None)"

lemma vector_at_bind [contract_simps]:
  "(vector_at xs i \<bind> f) = (if i < length xs then f (xs ! i) else None)"
  by (simp add: vector_at_def)

lemma vector_at_eq_Some [simp]: "vector_at xs i = Some x \<longleftrightarrow> i < length xs \<and> x = xs ! i"
  by (auto simp: vector_at_def)

subsection \<open>Error codes\<close>

datatype ComErrc =
    kServiceNotAvailable | kMaxSamplesReached | kBindingFailure | kGrantEnforcementError
  | kPeerIsUnreachable | kFieldValueIsNotValid | kSetHandlerNotSet | kUnsetFailure
  | kSampleAllocationFailure | kIllegalUseOfAllocate | kServiceNotOffered
  | kCommunicationLinkError | kNoClients | kCommunicationStackError
  | kMaxSampleCountNotRealizable | kMaxSubscribersExceeded | kWrongMethodCallProcessingMode
  | kErroneousFileHandle | kCouldNotExecute | kInvalidInstanceIdentifierString
  | kInvalidBindingInformation | kEventNotExisting | kNotSubscribed | kInvalidConfiguration
  | kInvalidMetaModelShortname | kServiceInstanceAlreadyOffered | kCouldNotRestartProxy
  | kNotOffered | kInstanceIDCouldNotBeResolved | kFindServiceHandlerFailure | kInvalidHandle

type_synonym 'a result = "ComErrc + 'a"
type_synonym result_blank = "unit result"

text \<open>What a list keeps when one of its entries is taken out.\<close>

definition remove_at :: "nat \<Rightarrow> 'a list \<Rightarrow> 'a list" where
  "remove_at k xs = take k xs @ drop (Suc k) xs"

subsection \<open>Bounded loops with an early exit\<close>

text \<open>
  \<open>for_retry body n k s\<close> models \<open>for (; k < K; ++k) \<dots>\<close> with \<open>n = K - k\<close> iterations
  left. The body either leaves the loop with a value (\<open>Some r\<close>: a \<open>break\<close> or \<open>return\<close>)
  or goes on to the next iteration (\<open>None\<close>: \<open>continue\<close> or the end of the body). The result
  holds the value, if any, and the counter at the exit.
\<close>

fun for_retry :: "('s \<Rightarrow> ('r option \<times> 's) run) \<Rightarrow> nat \<Rightarrow> nat \<Rightarrow> 's \<Rightarrow> ('r option \<times> nat \<times> 's) run" where
  "for_retry body 0 k s = Some (None, k, s)"
| "for_retry body (Suc n) k s =
     (case body s of
        None \<Rightarrow> None
      | Some (Some r, s') \<Rightarrow> Some (Some r, k, s')
      | Some (None, s') \<Rightarrow> for_retry body n (Suc k) s')"

lemma for_retry_counter:
  "for_retry body n k s = Some (r, k', s') \<Longrightarrow>
     k \<le> k' \<and> k' \<le> k + n \<and> (r = None \<longleftrightarrow> k' = k + n)"
proof (induction n arbitrary: k s)
  case 0
  then show ?case by auto
next
  case (Suc n)
  then show ?case
    by (fastforce split: option.splits prod.splits)
qed

lemma for_retry_total:
  assumes "\<And>s. P s \<Longrightarrow> \<exists>r s'. body s = Some (r, s') \<and> P s'" and "P s"
  shows "\<exists>r k' s'. for_retry body n k s = Some (r, k', s') \<and> P s'"
  using assms(2)
proof (induction n arbitrary: k s)
  case 0
  then show ?case by simp
next
  case (Suc n)
  obtain r s1 where b: "body s = Some (r, s1)" and P1: "P s1"
    using assms(1) [OF Suc.prems] by blast
  show ?case
  proof (cases r)
    case None
    with b Suc.IH [OF P1] show ?thesis by simp
  next
    case (Some x)
    with b P1 show ?thesis by simp
  qed
qed

lemma for_retry_returns:
  assumes "\<And>s. \<exists>r s'. body s = Some (r, s')"
  shows "\<exists>r k' s'. for_retry body n k s = Some (r, k', s')"
  using for_retry_total [where P = "\<lambda>_. True" and body = body] assms by auto

text \<open>The same when only the iterations that go on have to keep \<open>P\<close>.\<close>

lemma for_retry_reaches:
  assumes "\<And>s. P s \<Longrightarrow> \<exists>r s'. body s = Some (r, s') \<and> (r = None \<longrightarrow> P s')" and "P s"
  shows "\<exists>r k' s'. for_retry body n k s = Some (r, k', s')"
  using assms(2)
proof (induction n arbitrary: k s)
  case 0
  then show ?case by simp
next
  case (Suc n)
  from assms(1) [OF Suc.prems] obtain r s1 where b: "body s = Some (r, s1)" "r = None \<longrightarrow> P s1"
    by blast
  with Suc.IH [of s1] show ?case by (cases r) auto
qed

lemma for_retry_stuck:
  "body s = Some (None, s) \<Longrightarrow> for_retry body n k s = Some (None, k + n, s)"
  by (induction n arbitrary: k) simp_all

lemma for_retry_first:
  "0 < n \<Longrightarrow> body s = Some (Some r, s') \<Longrightarrow> for_retry body n k s = Some (Some r, k, s')"
  by (cases n) simp_all

locale bounded_retry =
  fixes body :: "'s \<Rightarrow> ('r option \<times> 's) run"
    and inv :: "'s \<Rightarrow> bool"
    and post :: "'r \<Rightarrow> 's \<Rightarrow> bool"
  assumes retry_keeps: "inv s \<Longrightarrow> body s = Some (None, s') \<Longrightarrow> inv s'"
    and retry_delivers: "inv s \<Longrightarrow> body s = Some (Some r, s') \<Longrightarrow> post r s'"
begin

lemma loop_delivers:
  "inv s \<Longrightarrow> for_retry body n k s = Some (Some r, k', s') \<Longrightarrow> post r s'"
proof (induction n arbitrary: k s)
  case 0
  then show ?case by simp
next
  case (Suc n)
  then show ?case
    by (auto split: option.splits prod.splits intro: retry_delivers retry_keeps)
qed

lemma loop_exhausted:
  "inv s \<Longrightarrow> for_retry body n k s = Some (None, k', s') \<Longrightarrow> inv s'"
proof (induction n arbitrary: k s)
  case 0
  then show ?case by simp
next
  case (Suc n)
  then show ?case
    by (auto split: option.splits prod.splits intro: retry_keeps)
qed

end

subsection \<open>A sequence of calls that may end the process\<close>

fun fold_run :: "('a \<Rightarrow> 's \<Rightarrow> 's run) \<Rightarrow> 'a list \<Rightarrow> 's \<Rightarrow> 's run" where
  "fold_run f [] s = Some s"
| "fold_run f (x # xs) s = do { s' \<leftarrow> f x s; fold_run f xs s' }"

lemma fold_run_append: "fold_run f (xs @ ys) s = do { s' \<leftarrow> fold_run f xs s; fold_run f ys s' }"
  by (induction xs arbitrary: s) (auto split: Option.bind_splits)

lemma fold_run_total:
  assumes "\<And>x s. x \<in> set xs \<Longrightarrow> P s \<Longrightarrow> \<exists>s'. f x s = Some s' \<and> P s'" and "P s"
  shows "\<exists>s'. fold_run f xs s = Some s' \<and> P s'"
  using assms
proof (induction xs arbitrary: s)
  case Nil
  then show ?case by simp
next
  case (Cons x xs)
  obtain s1 where "f x s = Some s1" "P s1"
    using Cons.prems by (metis list.set_intros(1))
  with Cons.IH [of s1] Cons.prems(1) show ?case by auto
qed

subsection \<open>Fields packed into one machine word\<close>

locale packed_word =
  fixes pack :: "'f \<Rightarrow> 'w" and unpack :: "'w \<Rightarrow> 'f"
  assumes unpack_pack: "unpack (pack f) = f"
begin

lemma pack_inject: "pack f = pack g \<longleftrightarrow> f = g"
  by (metis unpack_pack)

lemma unpack_surj: "\<exists>w. unpack w = f"
  using unpack_pack by blast

end

locale packed_bijection = packed_word +
  assumes pack_unpack: "pack (unpack w) = w"
begin

lemma unpack_inject: "unpack v = unpack w \<longleftrightarrow> v = w"
  by (metis pack_unpack)

lemma unpack_eq_iff: "unpack w = f \<longleftrightarrow> w = pack f"
  by (auto simp: pack_unpack unpack_pack)

end

subsection \<open>List updates\<close>

lemma list_update_nth_change:
  "i < length xs \<Longrightarrow> xs[i := v] ! j = (if i = j then v else xs ! j)"
  by (cases "i = j") auto

subsection \<open>The first minimum\<close>

text \<open>
  The scan that several loops of the code make: remember the first index with the smallest key
  below a bound among those that qualify.
\<close>

fun scan_min :: "(nat \<Rightarrow> bool) \<Rightarrow> (nat \<Rightarrow> 'k :: linorder) \<Rightarrow> nat list \<Rightarrow> nat option \<times> 'k \<Rightarrow> nat option \<times> 'k" where
  "scan_min P f [] (sel, b) = (sel, b)"
| "scan_min P f (i # is) (sel, b) =
     (if P i \<and> f i < b then scan_min P f is (Some i, f i) else scan_min P f is (sel, b))"

definition first_minimal :: "(nat \<Rightarrow> bool) \<Rightarrow> (nat \<Rightarrow> 'k :: linorder) \<Rightarrow> nat \<Rightarrow> nat \<Rightarrow> bool" where
  "first_minimal P f n i \<longleftrightarrow>
     i < n \<and> P i \<and> (\<forall>j < n. P j \<longrightarrow> f i \<le> f j) \<and> (\<forall>j < i. P j \<longrightarrow> f i < f j)"

lemma scan_min_append: "scan_min P f (xs @ ys) s = scan_min P f ys (scan_min P f xs s)"
proof (induction xs arbitrary: s)
  case Nil
  then show ?case by (cases s) simp
next
  case (Cons x xs)
  then show ?case by (cases s) simp
qed

lemma scan_min_upt:
  "case scan_min P f [0..<n] (None, bound) of
     (None, b) \<Rightarrow> b = bound \<and> (\<forall>j < n. \<not> (P j \<and> f j < bound))
   | (Some i, b) \<Rightarrow> b = f i \<and> first_minimal (\<lambda>j. P j \<and> f j < bound) f n i"
proof (induction n)
  case 0
  then show ?case by simp
next
  case (Suc n)
  obtain sel b where s: "scan_min P f [0..<n] (None, bound) = (sel, b)" by fastforce
  have next': "scan_min P f [0..<Suc n] (None, bound) =
      (if P n \<and> f n < b then (Some n, f n) else (sel, b))"
    by (simp add: scan_min_append s)
  show ?case
  proof (cases sel)
    case None
    with Suc.IH s show ?thesis
      unfolding next' by (auto simp: first_minimal_def less_Suc_eq)
  next
    case (Some i)
    with Suc.IH s have i: "b = f i" "first_minimal (\<lambda>j. P j \<and> f j < bound) f n i" by auto
    show ?thesis
    proof (cases "P n \<and> f n < b")
      case True
      with i have "f n < bound" by (auto simp: first_minimal_def)
      with True i Some show ?thesis
        unfolding next' by (auto simp: first_minimal_def less_Suc_eq intro: less_le_trans)
    next
      case False
      with i Some show ?thesis
        unfolding next' by (auto simp: first_minimal_def less_Suc_eq)
    qed
  qed
qed

end
