(* ===== verification/Atomic_World.thy ===== *)
theory Atomic_World
  imports Lola_Prelude
begin

text \<open>
  Shared memory with interference. The LoLa binding keeps its control data in shared memory
  and changes it by \<open>std::atomic\<close> operations only, while other threads and processes do the
  same. A \<open>world\<close> holds the memory as the next atomic operation finds it but for the
  interference that still comes first, and a schedule: the \<open>n\<close>-th entry says what the other
  participants do to the memory right before the \<open>n\<close>-th atomic operation of the modelled
  code, and whether a \<open>compare_exchange_weak\<close> at that point fails spuriously. A theorem about
  all schedules is a theorem about all interleavings at the granularity of atomic operations
  (a schedule that is used up stands for no further interference). The model is sequentially
  consistent: the weaker orderings the code passes (acquire, release, relaxed) are not
  distinguished.

  \<open>rely R w\<close> bounds what the schedule may do; \<open>evolves R w w'\<close> says that the memory went
  from \<open>w\<close> to \<open>w'\<close> by steps of \<open>R\<close> only.
\<close>

datatype 'm tick = Tick (interfere: "'m \<Rightarrow> 'm") (spurious: bool)

record 'm world =
  mem :: 'm
  sched :: "'m tick list"

definition advance :: "('m, 'x) world_scheme \<Rightarrow> bool \<times> ('m, 'x) world_scheme" where
  "advance w =
     (case sched w of
        [] \<Rightarrow> (False, w)
      | t # ts \<Rightarrow> (spurious t, w\<lparr>mem := interfere t (mem w), sched := ts\<rparr>))"

definition atomic_load :: "('m \<Rightarrow> 'v) \<Rightarrow> ('m, 'x) world_scheme \<Rightarrow> 'v \<times> ('m, 'x) world_scheme" where
  "atomic_load get w = (let w1 = snd (advance w) in (get (mem w1), w1))"

definition atomic_store :: "('m \<Rightarrow> 'm) \<Rightarrow> ('m, 'x) world_scheme \<Rightarrow> ('m, 'x) world_scheme" where
  "atomic_store put w = (let w1 = snd (advance w) in w1\<lparr>mem := put (mem w1)\<rparr>)"

text \<open>The result of a compare-and-exchange holds the success flag and the updated \<open>expected\<close>.\<close>

definition compare_exchange_weak ::
    "('m \<Rightarrow> 'v) \<Rightarrow> ('v \<Rightarrow> 'm \<Rightarrow> 'm) \<Rightarrow> 'v \<Rightarrow> 'v \<Rightarrow> ('m, 'x) world_scheme \<Rightarrow>
     bool \<times> 'v \<times> ('m, 'x) world_scheme" where
  "compare_exchange_weak get put expected desired w =
     (let (fails, w1) = advance w; current = get (mem w1)
      in if \<not> fails \<and> current = expected
         then (True, expected, w1\<lparr>mem := put desired (mem w1)\<rparr>)
         else (False, current, w1))"

definition compare_exchange_strong ::
    "('m \<Rightarrow> 'v) \<Rightarrow> ('v \<Rightarrow> 'm \<Rightarrow> 'm) \<Rightarrow> 'v \<Rightarrow> 'v \<Rightarrow> ('m, 'x) world_scheme \<Rightarrow>
     bool \<times> 'v \<times> ('m, 'x) world_scheme" where
  "compare_exchange_strong get put expected desired w =
     (let w1 = snd (advance w); current = get (mem w1)
      in if current = expected
         then (True, expected, w1\<lparr>mem := put desired (mem w1)\<rparr>)
         else (False, current, w1))"

subsection \<open>Without interference\<close>

abbreviation quiet :: "('m, 'x) world_scheme \<Rightarrow> bool" where
  "quiet w \<equiv> sched w = []"

lemma advance_quiet [simp]: "quiet w \<Longrightarrow> advance w = (False, w)"
  by (simp add: advance_def)

lemma atomic_load_quiet [simp]: "quiet w \<Longrightarrow> atomic_load get w = (get (mem w), w)"
  by (simp add: atomic_load_def)

lemma atomic_store_quiet [simp]: "quiet w \<Longrightarrow> atomic_store put w = w\<lparr>mem := put (mem w)\<rparr>"
  by (simp add: atomic_store_def)

lemma compare_exchange_weak_quiet [simp]:
  "quiet w \<Longrightarrow> compare_exchange_weak get put e d w =
     (if get (mem w) = e then (True, e, w\<lparr>mem := put d (mem w)\<rparr>) else (False, get (mem w), w))"
  by (simp add: compare_exchange_weak_def)

lemma compare_exchange_strong_quiet [simp]:
  "quiet w \<Longrightarrow> compare_exchange_strong get put e d w =
     (if get (mem w) = e then (True, e, w\<lparr>mem := put d (mem w)\<rparr>) else (False, get (mem w), w))"
  by (simp add: compare_exchange_strong_def)

subsection \<open>Interference within a rely relation\<close>

definition rely :: "('m \<Rightarrow> 'm \<Rightarrow> bool) \<Rightarrow> ('m, 'x) world_scheme \<Rightarrow> bool" where
  "rely R w \<longleftrightarrow> (\<forall>t \<in> set (sched w). \<forall>m. R m (interfere t m))"

definition evolves :: "('m \<Rightarrow> 'm \<Rightarrow> bool) \<Rightarrow> ('m, 'x) world_scheme \<Rightarrow> ('m, 'x) world_scheme \<Rightarrow> bool" where
  "evolves R w w' \<longleftrightarrow> R\<^sup>*\<^sup>* (mem w) (mem w') \<and> rely R w'"

lemma rely_quiet [simp]: "quiet w \<Longrightarrow> rely R w"
  by (simp add: rely_def)

lemma rely_update_mem [simp]: "rely R (w\<lparr>mem := m\<rparr>) = rely R w"
  by (simp add: rely_def)

lemma evolves_refl: "rely R w \<Longrightarrow> evolves R w w"
  by (simp add: evolves_def)

lemma evolves_rely: "evolves R w w' \<Longrightarrow> rely R w'"
  by (simp add: evolves_def)

lemma evolves_trans: "evolves R w w' \<Longrightarrow> evolves R w' w'' \<Longrightarrow> evolves R w w''"
  by (auto simp: evolves_def)

lemma evolves_advance: "rely R w \<Longrightarrow> advance w = (b, w') \<Longrightarrow> evolves R w w'"
  by (auto simp: evolves_def advance_def rely_def split: list.splits)

lemma evolves_atomic_load: "rely R w \<Longrightarrow> atomic_load get w = (v, w') \<Longrightarrow> evolves R w w'"
  by (cases "advance w") (auto simp: atomic_load_def dest: evolves_advance)

lemma atomic_load_value: "atomic_load get w = (v, w') \<Longrightarrow> v = get (mem w')"
  by (auto simp: atomic_load_def Let_def)

lemma evolves_put:
  "evolves R w w1 \<Longrightarrow> R (mem w1) m \<Longrightarrow> evolves R w (w1\<lparr>mem := m\<rparr>)"
  by (auto simp: evolves_def)

lemma evolves_atomic_store:
  assumes "rely R w" and "\<And>m. R\<^sup>*\<^sup>* (mem w) m \<Longrightarrow> R m (put m)"
  shows "evolves R w (atomic_store put w)"
proof (cases "advance w")
  case (Pair b w1)
  with assms(1) have e: "evolves R w w1" by (rule evolves_advance)
  moreover from e have "R (mem w1) (put (mem w1))"
    by (intro assms(2)) (simp add: evolves_def)
  ultimately show ?thesis
    using Pair by (simp add: atomic_store_def evolves_put)
qed

text \<open>
  A compare-and-exchange is a step of the participant: from a memory whose cell holds the
  expected value, to the same memory with the desired value.
\<close>

lemma compare_exchange_weak_cases:
  assumes "compare_exchange_weak get put e d w = (ok, e', w')"
  obtains (success) b w1 where "ok" and "advance w = (b, w1)" and "get (mem w1) = e"
      and "w' = w1\<lparr>mem := put d (mem w1)\<rparr>" and "e' = e"
    | (failure) b where "\<not> ok" and "advance w = (b, w')" and "e' = get (mem w')"
proof -
  obtain b w1 where adv: "advance w = (b, w1)"
    by (cases "advance w")
  show thesis
  proof (cases "\<not> b \<and> get (mem w1) = e")
    case True
    with assms adv have "ok" "get (mem w1) = e" "w' = w1\<lparr>mem := put d (mem w1)\<rparr>" "e' = e"
      by (simp_all add: compare_exchange_weak_def)
    with adv show thesis by (intro success)
  next
    case False
    with assms adv have "\<not> ok" "advance w = (b, w')" "e' = get (mem w')"
      by (auto simp: compare_exchange_weak_def)
    then show thesis by (rule failure)
  qed
qed

lemma compare_exchange_strong_cases:
  assumes "compare_exchange_strong get put e d w = (ok, e', w')"
  obtains (success) b w1 where "ok" and "advance w = (b, w1)" and "get (mem w1) = e"
      and "w' = w1\<lparr>mem := put d (mem w1)\<rparr>" and "e' = e"
    | (failure) b where "\<not> ok" and "advance w = (b, w')" and "e' = get (mem w')"
proof -
  obtain b w1 where adv: "advance w = (b, w1)"
    by (cases "advance w")
  show thesis
  proof (cases "get (mem w1) = e")
    case True
    with assms adv have "ok" "get (mem w1) = e" "w' = w1\<lparr>mem := put d (mem w1)\<rparr>" "e' = e"
      by (simp_all add: compare_exchange_strong_def)
    with adv show thesis by (intro success)
  next
    case False
    with assms adv have "\<not> ok" "advance w = (b, w')" "e' = get (mem w')"
      by (auto simp: compare_exchange_strong_def)
    then show thesis by (rule failure)
  qed
qed

lemma evolves_compare_exchange_weak:
  assumes "rely R w" and "compare_exchange_weak get put e d w = (ok, e', w')"
    and "\<And>m. R\<^sup>*\<^sup>* (mem w) m \<Longrightarrow> get m = e \<Longrightarrow> R m (put d m)"
  shows "evolves R w w'"
  using assms(2)
proof (cases rule: compare_exchange_weak_cases)
  case (success b w1)
  from assms(1) success(2) have "evolves R w w1" by (rule evolves_advance)
  with success assms(3) show ?thesis
    by (auto intro!: evolves_put) (auto simp: evolves_def)
next
  case (failure b)
  with assms(1) show ?thesis by (blast intro: evolves_advance)
qed

lemma evolves_compare_exchange_strong:
  assumes "rely R w" and "compare_exchange_strong get put e d w = (ok, e', w')"
    and "\<And>m. R\<^sup>*\<^sup>* (mem w) m \<Longrightarrow> get m = e \<Longrightarrow> R m (put d m)"
  shows "evolves R w w'"
  using assms(2)
proof (cases rule: compare_exchange_strong_cases)
  case (success b w1)
  from assms(1) success(2) have "evolves R w w1" by (rule evolves_advance)
  with success assms(3) show ?thesis
    by (auto intro!: evolves_put) (auto simp: evolves_def)
next
  case (failure b)
  with assms(1) show ?thesis by (blast intro: evolves_advance)
qed

text \<open>
  The contract of a shared memory protocol: every participant only makes steps of \<open>step\<close>,
  and \<open>step\<close> keeps \<open>inv\<close>. Then the invariant survives any code that evolves by \<open>step\<close>.
\<close>

locale memory_protocol =
  fixes step :: "'m \<Rightarrow> 'm \<Rightarrow> bool" and inv :: "'m \<Rightarrow> bool"
  assumes step_keeps: "inv m \<Longrightarrow> step m m' \<Longrightarrow> inv m'"
begin

lemma steps_keep: "step\<^sup>*\<^sup>* m m' \<Longrightarrow> inv m \<Longrightarrow> inv m'"
  by (induction rule: rtranclp_induct) (auto intro: step_keeps)

lemma evolves_keeps: "evolves step w w' \<Longrightarrow> inv (mem w) \<Longrightarrow> inv (mem w')"
  by (auto simp: evolves_def intro: steps_keep)

end

end
