(* ===== verification/Event_Slot_Status.thy ===== *)
theory Event_Slot_Status
  imports Lola_Prelude
begin

text \<open>
  \<open>EventSlotStatus\<close> (event_slot_status.h/.cpp): the 64-bit word that controls one event slot.
  The upper half holds the timestamp of the sample, the lower half the number of its readers;
  \<open>0\<close> marks an invalid slot and \<open>2^32 - 1\<close> (timestamp 0, count all ones) a slot the skeleton
  is writing. The class is its only member \<open>data_\<close>, so a status is the word itself; the
  conversion operators of the class are the identity.

  The lemmas show that the word is a faithful pair of timestamp and count, and what the plain
  \<open>+1\<close> and \<open>-1\<close> of the lock-free algorithms do to that pair, including the carry.
\<close>

subsection \<open>Definitions\<close>

definition TIMESTAMP_MAX :: u32 where
  "TIMESTAMP_MAX = 0xFFFFFFFF"

definition INVALID :: u64 where
  "INVALID = 0"

definition IN_WRITING :: u64 where
  "IN_WRITING = 0xFFFFFFFF"

definition GetReferenceCount :: "u64 \<Rightarrow> u32" where
  "GetReferenceCount d = ucast (d AND 0x00000000FFFFFFFF)"

definition GetTimeStamp :: "u64 \<Rightarrow> u32" where
  "GetTimeStamp d = ucast (drop_bit 32 d)"

definition IsInvalid :: "u64 \<Rightarrow> bool" where
  "IsInvalid d \<longleftrightarrow> d = INVALID"

definition IsInWriting :: "u64 \<Rightarrow> bool" where
  "IsInWriting d \<longleftrightarrow> d = IN_WRITING"

definition MarkInWriting :: "u64 \<Rightarrow> u64" where
  "MarkInWriting d = IN_WRITING"

definition MarkInvalid :: "u64 \<Rightarrow> u64" where
  "MarkInvalid d = INVALID"

definition SetTimeStamp :: "u32 \<Rightarrow> u64 \<Rightarrow> u64" where
  "SetTimeStamp time_stamp d = push_bit 32 (ucast time_stamp)"

definition SetReferenceCount :: "u32 \<Rightarrow> u64 \<Rightarrow> u64" where
  "SetReferenceCount ref_count d = (d AND 0xFFFFFFFF00000000) OR ucast ref_count"

definition EventSlotStatus :: "u32 \<Rightarrow> u32 \<Rightarrow> u64" where
  "EventSlotStatus timestamp refcount =
     SetReferenceCount refcount (SetTimeStamp timestamp 0)"

definition IsTimeStampBetween :: "u64 \<Rightarrow> u32 \<Rightarrow> u32 \<Rightarrow> bool" where
  "IsTimeStampBetween d min_timestamp max_timestamp \<longleftrightarrow>
     \<not> IsInWriting d \<and> \<not> IsInvalid d \<and> GetTimeStamp d > min_timestamp \<and>
     GetTimeStamp d < max_timestamp"

definition IsUsed :: "u64 \<Rightarrow> bool" where
  "IsUsed d \<longleftrightarrow> GetReferenceCount d \<noteq> 0 \<or> IsInWriting d"

subsection \<open>The word as a pair\<close>

lemma low_half_mask: "(0x00000000FFFFFFFF :: u64) = mask 32"
  by (simp add: mask_eq_exp_minus_1)

lemma high_half_mask: "(0xFFFFFFFF00000000 :: u64) = push_bit 32 (mask 32)"
  by (simp add: mask_eq_exp_minus_1 push_bit_eq_mult)

lemmas half_defs = GetReferenceCount_def GetTimeStamp_def SetTimeStamp_def
  SetReferenceCount_def low_half_mask high_half_mask

lemma GetReferenceCount_SetReferenceCount [simp, slot_simps]:
  "GetReferenceCount (SetReferenceCount rc d) = rc"
  unfolding half_defs by (rule bit_eqI) (auto simp: bit_simps)

lemma GetTimeStamp_SetReferenceCount [simp, slot_simps]:
  "GetTimeStamp (SetReferenceCount rc d) = GetTimeStamp d"
  unfolding half_defs by (rule bit_eqI) (auto simp: bit_simps dest: bit_imp_le_length)

lemma GetTimeStamp_SetTimeStamp [simp, slot_simps]: "GetTimeStamp (SetTimeStamp ts d) = ts"
  unfolding half_defs by (rule bit_eqI) (auto simp: bit_simps)

text \<open>\<open>SetTimeStamp\<close> also clears the reference count, which its name does not say.\<close>

lemma GetReferenceCount_SetTimeStamp [simp, slot_simps]: "GetReferenceCount (SetTimeStamp ts d) = 0"
  unfolding half_defs by (rule bit_eqI) (auto simp: bit_simps)

lemma EventSlotStatus_halves [simp]:
  "GetTimeStamp (EventSlotStatus ts rc) = ts"
  "GetReferenceCount (EventSlotStatus ts rc) = rc"
  by (simp_all add: EventSlotStatus_def)

lemma EventSlotStatus_of_halves [simp]:
  "EventSlotStatus (GetTimeStamp d) (GetReferenceCount d) = d"
  unfolding EventSlotStatus_def half_defs by (rule bit_eqI) (auto simp: bit_simps)

interpretation slot: packed_bijection
  "\<lambda>(ts, rc). EventSlotStatus ts rc" "\<lambda>d. (GetTimeStamp d, GetReferenceCount d)"
  by unfold_locales (auto split: prod.splits)

lemma EventSlotStatus_inject [simp]:
  "EventSlotStatus ts rc = EventSlotStatus ts' rc' \<longleftrightarrow> ts = ts' \<and> rc = rc'"
  using slot.pack_inject [of "(ts, rc)" "(ts', rc')"] by simp

lemma slot_eq_iff: "d = e \<longleftrightarrow> GetTimeStamp d = GetTimeStamp e \<and> GetReferenceCount d = GetReferenceCount e"
  using slot.unpack_inject [of d e] by auto

lemma slot_cases:
  obtains ts rc where "d = EventSlotStatus ts rc"
  using EventSlotStatus_of_halves by metis

lemma INVALID_pair: "INVALID = EventSlotStatus 0 0"
  by (simp add: slot_eq_iff) (simp add: INVALID_def GetTimeStamp_def GetReferenceCount_def)

lemma IN_WRITING_pair: "IN_WRITING = EventSlotStatus 0 (- 1)"
  by (simp add: slot_eq_iff) (simp add: IN_WRITING_def GetTimeStamp_def GetReferenceCount_def)

lemma halves_of_markers [simp, slot_simps]:
  "GetTimeStamp INVALID = 0" "GetReferenceCount INVALID = 0"
  "GetTimeStamp IN_WRITING = 0" "GetReferenceCount IN_WRITING = - 1"
  by (simp_all add: INVALID_pair IN_WRITING_pair)

lemma marker_status [simp, slot_simps]:
  "IsInvalid INVALID" "IsInWriting IN_WRITING" "\<not> IsInvalid IN_WRITING" "\<not> IsInWriting INVALID"
  "IsUsed IN_WRITING" "\<not> IsUsed INVALID"
  by (simp_all add: IsInvalid_def IsInWriting_def IsUsed_def INVALID_def IN_WRITING_def GetReferenceCount_def)

lemma IsInvalid_iff: "IsInvalid d \<longleftrightarrow> GetTimeStamp d = 0 \<and> GetReferenceCount d = 0"
  by (simp add: IsInvalid_def slot_eq_iff)

lemma IsInWriting_iff: "IsInWriting d \<longleftrightarrow> GetTimeStamp d = 0 \<and> GetReferenceCount d = - 1"
  by (simp add: IsInWriting_def slot_eq_iff)

lemma not_IsUsed_iff: "\<not> IsUsed d \<longleftrightarrow> GetReferenceCount d = 0"
  by (auto simp: IsUsed_def IsInWriting_iff)

subsection \<open>The word as a number: what adding and subtracting one does\<close>

lemma unat_halves: "unat d = unat (GetTimeStamp d) * 2 ^ 32 + unat (GetReferenceCount d)"
proof -
  have "unat d < 2 ^ LENGTH(64)"
    by (rule unsigned_less)
  then have "unat d < 2 ^ 32 * 2 ^ 32"
    by simp
  then have lt: "unat d div 2 ^ 32 < 2 ^ 32"
    by (rule less_mult_imp_div_less)
  have "unat (GetTimeStamp d) = take_bit 32 (unat d div 2 ^ 32)"
    unfolding GetTimeStamp_def unsigned_ucast_eq unat_drop_bit_eq drop_bit_eq_div [where 'a = nat]
    by simp
  with lt have "unat (GetTimeStamp d) = unat d div 2 ^ 32"
    by (simp add: take_bit_nat_eq_self)
  moreover have "unat (GetReferenceCount d) = unat d mod 2 ^ 32"
    unfolding GetReferenceCount_def low_half_mask take_bit_eq_mask [symmetric] unsigned_ucast_eq
      unsigned_take_bit_eq take_bit_eq_mod [where 'a = nat] by simp
  ultimately show ?thesis
    by (simp add: div_mult_mod_eq)
qed

lemma unat_EventSlotStatus: "unat (EventSlotStatus ts rc) = unat ts * 2 ^ 32 + unat rc"
  by (simp add: unat_halves [of "EventSlotStatus ts rc"])

lemma u32_less: "unat (x :: u32) < 2 ^ 32"
  using unsigned_less [of x] by simp

lemma unat_u32_max: "unat (- 1 :: u32) = 2 ^ 32 - 1"
  by (simp add: unsigned_minus_1_eq_mask mask_eq_exp_minus_1)

lemma u32_max_or_less: "(rc :: u32) \<noteq> - 1 \<Longrightarrow> unat rc + 1 < 2 ^ 32"
proof -
  assume ne: "rc \<noteq> - 1"
  have "unat rc \<noteq> unat (- 1 :: u32)"
    using ne by (metis word_unat_eq_iff)
  moreover have "unat (- 1 :: u32) = 2 ^ 32 - 1"
    by (rule unat_u32_max)
  moreover have "unat rc < 2 ^ 32"
    by (rule u32_less)
  ultimately show ?thesis by simp
qed

lemma EventSlotStatus_plus_one:
  assumes "rc \<noteq> - 1"
  shows "EventSlotStatus ts rc + 1 = EventSlotStatus ts (rc + 1)"
proof (rule word_unat_eq_iff [THEN iffD2])
  have b: "unat rc + 1 < 2 ^ 32" by (rule u32_max_or_less [OF assms])
  have "unat ts < 2 ^ 32"
    by (rule u32_less)
  then have "unat ts * 2 ^ 32 + (unat rc + 1) < 2 ^ 64"
    using b by simp
  then show "unat (EventSlotStatus ts rc + 1) = unat (EventSlotStatus ts (rc + 1))"
    using b by (simp add: unat_word_ariths unat_EventSlotStatus)
qed

lemma EventSlotStatus_minus_one:
  assumes "rc \<noteq> 0"
  shows "EventSlotStatus ts rc - 1 = EventSlotStatus ts (rc - 1)"
proof -
  have "rc - 1 \<noteq> - 1" using assms by simp
  then have "EventSlotStatus ts (rc - 1) + 1 = EventSlotStatus ts rc"
    using EventSlotStatus_plus_one [of "rc - 1" ts] by simp
  then show ?thesis by (metis add_diff_cancel_right')
qed

lemma EventSlotStatus_carry: "EventSlotStatus ts (- 1) + 1 = EventSlotStatus (ts + 1) 0"
proof (cases "ts = - 1")
  case True
  have "unat (EventSlotStatus (- 1) (- 1)) = 2 ^ 64 - 1"
    unfolding unat_EventSlotStatus unat_u32_max by simp
  then have "EventSlotStatus (- 1) (- 1) = - 1"
    by (intro word_unat_eq_iff [THEN iffD2]) (simp add: unsigned_minus_1_eq_mask mask_eq_exp_minus_1)
  then show ?thesis using True by (simp flip: INVALID_pair) (simp add: INVALID_def)
next
  case False
  then have b: "unat ts + 1 < 2 ^ 32" by (rule u32_max_or_less)
  show ?thesis
    by (rule word_unat_eq_iff [THEN iffD2]) (use b in \<open>simp add: unat_word_ariths unat_EventSlotStatus unat_u32_max\<close>)
qed

lemma halves_plus_one:
  assumes "GetReferenceCount d \<noteq> - 1"
  shows "GetTimeStamp (d + 1) = GetTimeStamp d" "GetReferenceCount (d + 1) = GetReferenceCount d + 1"
proof -
  have "d + 1 = EventSlotStatus (GetTimeStamp d) (GetReferenceCount d + 1)"
    using EventSlotStatus_plus_one [OF assms, of "GetTimeStamp d"] by simp
  then show "GetTimeStamp (d + 1) = GetTimeStamp d" "GetReferenceCount (d + 1) = GetReferenceCount d + 1"
    by simp_all
qed

lemma halves_minus_one:
  assumes "GetReferenceCount d \<noteq> 0"
  shows "GetTimeStamp (d - 1) = GetTimeStamp d" "GetReferenceCount (d - 1) = GetReferenceCount d - 1"
proof -
  have "d - 1 = EventSlotStatus (GetTimeStamp d) (GetReferenceCount d - 1)"
    using EventSlotStatus_minus_one [OF assms, of "GetTimeStamp d"] by simp
  then show "GetTimeStamp (d - 1) = GetTimeStamp d" "GetReferenceCount (d - 1) = GetReferenceCount d - 1"
    by simp_all
qed

text \<open>
  The overflow test of \<open>ReferenceSpecificEvent\<close> looks at the word after the increment: the new
  count is 0 exactly when the old one was all ones.
\<close>

lemma GetReferenceCount_plus_one_eq_0:
  "GetReferenceCount (d + 1) = 0 \<longleftrightarrow> GetReferenceCount d = - 1"
proof (cases "GetReferenceCount d = - 1")
  case True
  have "d + 1 = EventSlotStatus (GetTimeStamp d + 1) 0"
    using EventSlotStatus_carry [of "GetTimeStamp d"] True by (metis EventSlotStatus_of_halves)
  with True show ?thesis by simp
next
  case False
  then show ?thesis
    by (simp add: halves_plus_one) (metis add_eq_0_iff2)
qed

end
