(* ===== verification/Transaction_Log.thy ===== *)
theory Transaction_Log
  imports Lola_Prelude
begin

text \<open>
  \<open>TransactionLogSlot\<close> and \<open>TransactionLog\<close> (transaction_log_slot.h, transaction_log.h/.cpp):
  the write-ahead record, in shared memory, of what one proxy service element has subscribed
  and of which event slots it has referenced, and the rollback that undoes the record after a
  crash of the proxy.

  The contract checks \<open>AMP_PRECONDITION\<close> are modelled as ending the process. The callbacks the
  rollback is given (dereference a slot, unsubscribe) are parameters: functions on an abstract
  state that may themselves end the process. \<open>phase_of\<close> reads the two bits of a slot as the
  four phases the protocol knows; the operations are then the edges of a small graph.
\<close>

subsection \<open>The two bits of a transaction\<close>

record transaction_log_slot =
  transaction_begin :: bool
  transaction_end :: bool

definition TransactionLogSlot :: transaction_log_slot where
  "TransactionLogSlot = \<lparr>transaction_begin = False, transaction_end = False\<rparr>"

definition SetTransactionBegin :: "bool \<Rightarrow> transaction_log_slot \<Rightarrow> transaction_log_slot" where
  "SetTransactionBegin new_value s = s\<lparr>transaction_begin := new_value\<rparr>"

definition SetTransactionEnd :: "bool \<Rightarrow> transaction_log_slot \<Rightarrow> transaction_log_slot" where
  "SetTransactionEnd new_value s = s\<lparr>transaction_end := new_value\<rparr>"

definition GetTransactionBegin :: "transaction_log_slot \<Rightarrow> bool" where
  "GetTransactionBegin s = transaction_begin s"

definition GetTransactionEnd :: "transaction_log_slot \<Rightarrow> bool" where
  "GetTransactionEnd s = transaction_end s"

subsection \<open>The log\<close>

record transaction_log =
  reference_count_slots :: "transaction_log_slot list"
  subscribe_transactions :: transaction_log_slot
  subscription_max_sample_count :: "u16 option"

definition TransactionLog :: "nat \<Rightarrow> transaction_log" where
  "TransactionLog number_of_slots =
     \<lparr>reference_count_slots = replicate number_of_slots TransactionLogSlot,
      subscribe_transactions = TransactionLogSlot,
      subscription_max_sample_count = None\<rparr>"

fun DoesLogContainIncrementOrDecrementTransactions :: "transaction_log_slot list \<Rightarrow> bool" where
  "DoesLogContainIncrementOrDecrementTransactions [] = False"
| "DoesLogContainIncrementOrDecrementTransactions (slot # slots) =
     (if GetTransactionBegin slot \<or> GetTransactionEnd slot then True
      else DoesLogContainIncrementOrDecrementTransactions slots)"

text \<open>The parameter is a \<open>std::size_t\<close>; storing it in a 16-bit optional drops the upper bits.\<close>

definition SubscribeTransactionBegin :: "u64 \<Rightarrow> transaction_log \<Rightarrow> transaction_log run" where
  "SubscribeTransactionBegin max_sample_count l = do {
     amp_require (\<not> GetTransactionBegin (subscribe_transactions l));
     amp_require (\<not> GetTransactionEnd (subscribe_transactions l));
     Some (l\<lparr>subscribe_transactions := SetTransactionBegin True (subscribe_transactions l),
             subscription_max_sample_count := Some (ucast max_sample_count)\<rparr>) }"

definition SubscribeTransactionCommit :: "transaction_log \<Rightarrow> transaction_log run" where
  "SubscribeTransactionCommit l = do {
     amp_require (GetTransactionBegin (subscribe_transactions l));
     amp_require (\<not> GetTransactionEnd (subscribe_transactions l));
     Some (l\<lparr>subscribe_transactions := SetTransactionEnd True (subscribe_transactions l)\<rparr>) }"

definition SubscribeTransactionAbort :: "transaction_log \<Rightarrow> transaction_log run" where
  "SubscribeTransactionAbort l = do {
     amp_require (GetTransactionBegin (subscribe_transactions l));
     amp_require (\<not> GetTransactionEnd (subscribe_transactions l));
     Some (l\<lparr>subscribe_transactions := SetTransactionBegin False (subscribe_transactions l)\<rparr>) }"

definition UnsubscribeTransactionBegin :: "transaction_log \<Rightarrow> transaction_log run" where
  "UnsubscribeTransactionBegin l = do {
     amp_require (GetTransactionBegin (subscribe_transactions l));
     amp_require (GetTransactionEnd (subscribe_transactions l));
     Some (l\<lparr>subscribe_transactions := SetTransactionEnd False (subscribe_transactions l)\<rparr>) }"

definition UnsubscribeTransactionCommit :: "transaction_log \<Rightarrow> transaction_log run" where
  "UnsubscribeTransactionCommit l = do {
     amp_require (GetTransactionBegin (subscribe_transactions l));
     amp_require (\<not> GetTransactionEnd (subscribe_transactions l));
     Some (l\<lparr>subscription_max_sample_count := None,
             subscribe_transactions := SetTransactionBegin False (subscribe_transactions l)\<rparr>) }"

definition ReferenceTransactionBegin :: "nat \<Rightarrow> transaction_log \<Rightarrow> transaction_log run" where
  "ReferenceTransactionBegin slot_index l = do {
     slot \<leftarrow> vector_at (reference_count_slots l) slot_index;
     amp_require (\<not> GetTransactionBegin slot);
     amp_require (\<not> GetTransactionEnd slot);
     Some (l\<lparr>reference_count_slots :=
       (reference_count_slots l)[slot_index := SetTransactionBegin True slot]\<rparr>) }"

definition ReferenceTransactionCommit :: "nat \<Rightarrow> transaction_log \<Rightarrow> transaction_log run" where
  "ReferenceTransactionCommit slot_index l = do {
     slot \<leftarrow> vector_at (reference_count_slots l) slot_index;
     amp_require (GetTransactionBegin slot);
     amp_require (\<not> GetTransactionEnd slot);
     Some (l\<lparr>reference_count_slots :=
       (reference_count_slots l)[slot_index := SetTransactionEnd True slot]\<rparr>) }"

definition ReferenceTransactionAbort :: "nat \<Rightarrow> transaction_log \<Rightarrow> transaction_log run" where
  "ReferenceTransactionAbort slot_index l = do {
     slot \<leftarrow> vector_at (reference_count_slots l) slot_index;
     amp_require (GetTransactionBegin slot);
     amp_require (\<not> GetTransactionEnd slot);
     Some (l\<lparr>reference_count_slots :=
       (reference_count_slots l)[slot_index := SetTransactionBegin False slot]\<rparr>) }"

definition DereferenceTransactionBegin :: "nat \<Rightarrow> transaction_log \<Rightarrow> transaction_log run" where
  "DereferenceTransactionBegin slot_index l = do {
     slot \<leftarrow> vector_at (reference_count_slots l) slot_index;
     amp_require (GetTransactionBegin slot);
     amp_require (GetTransactionEnd slot);
     Some (l\<lparr>reference_count_slots :=
       (reference_count_slots l)[slot_index := SetTransactionBegin False slot]\<rparr>) }"

definition DereferenceTransactionCommit :: "nat \<Rightarrow> transaction_log \<Rightarrow> transaction_log run" where
  "DereferenceTransactionCommit slot_index l = do {
     slot \<leftarrow> vector_at (reference_count_slots l) slot_index;
     amp_require (\<not> GetTransactionBegin slot);
     amp_require (GetTransactionEnd slot);
     Some (l\<lparr>reference_count_slots :=
       (reference_count_slots l)[slot_index := SetTransactionEnd False slot]\<rparr>) }"

definition ContainsTransactions :: "transaction_log \<Rightarrow> bool" where
  "ContainsTransactions l \<longleftrightarrow>
     (GetTransactionBegin (subscribe_transactions l) \<or> GetTransactionEnd (subscribe_transactions l)) \<or>
     DoesLogContainIncrementOrDecrementTransactions (reference_count_slots l)"

subsection \<open>Rollback\<close>

fun RollbackIncrementTransactions_loop ::
    "(nat \<Rightarrow> 's \<Rightarrow> 's run) \<Rightarrow> nat list \<Rightarrow> transaction_log \<Rightarrow> 's \<Rightarrow>
     (result_blank \<times> transaction_log \<times> 's) run" where
  "RollbackIncrementTransactions_loop dereference_slot_callback [] l s = Some (Inr (), l, s)"
| "RollbackIncrementTransactions_loop dereference_slot_callback (slot_idx # idxs) l s = do {
     slot \<leftarrow> vector_at (reference_count_slots l) slot_idx;
     if GetTransactionBegin slot \<and> GetTransactionEnd slot then do {
       l1 \<leftarrow> DereferenceTransactionBegin slot_idx l;
       s1 \<leftarrow> dereference_slot_callback slot_idx s;
       l2 \<leftarrow> DereferenceTransactionCommit slot_idx l1;
       RollbackIncrementTransactions_loop dereference_slot_callback idxs l2 s1 }
     else if GetTransactionBegin slot \<and> \<not> GetTransactionEnd slot then
       Some (Inl kCouldNotRestartProxy, l, s)
     else if \<not> GetTransactionBegin slot \<and> GetTransactionEnd slot then
       Some (Inl kCouldNotRestartProxy, l, s)
     else RollbackIncrementTransactions_loop dereference_slot_callback idxs l s }"

definition RollbackIncrementTransactions ::
    "(nat \<Rightarrow> 's \<Rightarrow> 's run) \<Rightarrow> transaction_log \<Rightarrow> 's \<Rightarrow> (result_blank \<times> transaction_log \<times> 's) run" where
  "RollbackIncrementTransactions dereference_slot_callback l s =
     RollbackIncrementTransactions_loop dereference_slot_callback
       [0..<length (reference_count_slots l)] l s"

definition RollbackSubscribeTransactions ::
    "(u16 \<Rightarrow> 's \<Rightarrow> 's run) \<Rightarrow> transaction_log \<Rightarrow> 's \<Rightarrow> (result_blank \<times> transaction_log \<times> 's) run" where
  "RollbackSubscribeTransactions unsubscribe_callback l s =
     (let began = GetTransactionBegin (subscribe_transactions l);
          ended = GetTransactionEnd (subscribe_transactions l)
      in if began \<and> ended then do {
           l1 \<leftarrow> UnsubscribeTransactionBegin l;
           count \<leftarrow> subscription_max_sample_count l1;
           s1 \<leftarrow> unsubscribe_callback count s;
           l2 \<leftarrow> UnsubscribeTransactionCommit l1;
           Some (Inr (), l2, s1) }
         else if began \<and> \<not> ended then Some (Inl kCouldNotRestartProxy, l, s)
         else if \<not> began \<and> ended then Some (Inl kCouldNotRestartProxy, l, s)
         else Some (Inr (), l, s))"

definition RollbackProxyElementLog ::
    "(nat \<Rightarrow> 's \<Rightarrow> 's run) \<Rightarrow> (u16 \<Rightarrow> 's \<Rightarrow> 's run) \<Rightarrow> transaction_log \<Rightarrow> 's \<Rightarrow>
     (result_blank \<times> transaction_log \<times> 's) run" where
  "RollbackProxyElementLog dereference_slot_callback unsubscribe_callback l s = do {
     amp_require
       (\<not> GetTransactionBegin (subscribe_transactions l) \<and>
        \<not> GetTransactionEnd (subscribe_transactions l) \<longrightarrow>
        \<not> DoesLogContainIncrementOrDecrementTransactions (reference_count_slots l));
     (r, l1, s1) \<leftarrow> RollbackIncrementTransactions dereference_slot_callback l s;
     (case r of
        Inl e \<Rightarrow> Some (Inl e, l1, s1)
      | Inr u \<Rightarrow> RollbackSubscribeTransactions unsubscribe_callback l1 s1) }"

definition RollbackSkeletonTracingElementLog ::
    "(nat \<Rightarrow> 's \<Rightarrow> 's run) \<Rightarrow> transaction_log \<Rightarrow> 's \<Rightarrow> (result_blank \<times> transaction_log \<times> 's) run" where
  "RollbackSkeletonTracingElementLog dereference_slot_callback l s =
     RollbackIncrementTransactions dereference_slot_callback l s"

subsection \<open>The phases behind the bits\<close>

datatype tx_phase = Free | Incrementing | Held | Decrementing

definition phase_of :: "transaction_log_slot \<Rightarrow> tx_phase" where
  "phase_of s =
     (if transaction_begin s then (if transaction_end s then Held else Incrementing)
      else if transaction_end s then Decrementing else Free)"

definition with_phase :: "tx_phase \<Rightarrow> transaction_log_slot" where
  "with_phase p =
     \<lparr>transaction_begin = (p = Incrementing \<or> p = Held),
      transaction_end = (p = Held \<or> p = Decrementing)\<rparr>"

lemma phase_of_with_phase [simp]: "phase_of (with_phase p) = p"
  by (cases p) (simp_all add: phase_of_def with_phase_def)

lemma with_phase_of [simp]: "with_phase (phase_of s) = s"
  by (cases s) (simp add: phase_of_def with_phase_def)

interpretation tx: packed_bijection with_phase phase_of
  by unfold_locales simp_all

lemma TransactionLogSlot_phase: "TransactionLogSlot = with_phase Free"
  by (simp add: TransactionLogSlot_def with_phase_def)

lemma phase_bits [simp]:
  "transaction_begin s \<longleftrightarrow> phase_of s = Incrementing \<or> phase_of s = Held"
  "transaction_end s \<longleftrightarrow> phase_of s = Held \<or> phase_of s = Decrementing"
  by (simp_all add: phase_of_def)

lemma set_bits_phase:
  "phase_of s = Free \<Longrightarrow> s\<lparr>transaction_begin := True\<rparr> = with_phase Incrementing"
  "phase_of s = Incrementing \<Longrightarrow> s\<lparr>transaction_end := True\<rparr> = with_phase Held"
  "phase_of s = Incrementing \<Longrightarrow> s\<lparr>transaction_begin := False\<rparr> = with_phase Free"
  "phase_of s = Held \<Longrightarrow> s\<lparr>transaction_begin := False\<rparr> = with_phase Decrementing"
  "phase_of s = Held \<Longrightarrow> s\<lparr>transaction_end := False\<rparr> = with_phase Incrementing"
  "phase_of s = Decrementing \<Longrightarrow> s\<lparr>transaction_end := False\<rparr> = with_phase Free"
  by (cases s; simp add: phase_of_def with_phase_def del: phase_bits split: if_splits)+

definition num_slots :: "transaction_log \<Rightarrow> nat" where
  "num_slots l = length (reference_count_slots l)"

definition slot_phase :: "transaction_log \<Rightarrow> nat \<Rightarrow> tx_phase" where
  "slot_phase l i = phase_of (reference_count_slots l ! i)"

definition subscribe_phase :: "transaction_log \<Rightarrow> tx_phase" where
  "subscribe_phase l = phase_of (subscribe_transactions l)"

definition set_phase :: "nat \<Rightarrow> tx_phase \<Rightarrow> transaction_log \<Rightarrow> transaction_log" where
  "set_phase i p l =
     l\<lparr>reference_count_slots := (reference_count_slots l)[i := with_phase p]\<rparr>"

lemma set_phase_frame [simp]:
  "num_slots (set_phase i p l) = num_slots l"
  "subscribe_phase (set_phase i p l) = subscribe_phase l"
  "subscription_max_sample_count (set_phase i p l) = subscription_max_sample_count l"
  "subscribe_transactions (set_phase i p l) = subscribe_transactions l"
  by (simp_all add: set_phase_def num_slots_def subscribe_phase_def)

lemma slot_phase_set_phase [simp]:
  "i < num_slots l \<Longrightarrow> slot_phase (set_phase i p l) j = (if i = j then p else slot_phase l j)"
  by (simp add: slot_phase_def set_phase_def num_slots_def list_update_nth_change)

lemma set_phase_twice [simp]: "set_phase i q (set_phase i p l) = set_phase i q l"
  by (simp add: set_phase_def)

lemma set_phase_same: "slot_phase l i = p \<Longrightarrow> set_phase i p l = l"
  by (auto simp: slot_phase_def set_phase_def)

lemmas tx_access_defs = GetTransactionBegin_def GetTransactionEnd_def
  SetTransactionBegin_def SetTransactionEnd_def

lemma slot_bits:
  "GetTransactionBegin (reference_count_slots l ! i) \<longleftrightarrow> slot_phase l i = Incrementing \<or> slot_phase l i = Held"
  "GetTransactionEnd (reference_count_slots l ! i) \<longleftrightarrow> slot_phase l i = Held \<or> slot_phase l i = Decrementing"
  by (simp_all add: tx_access_defs slot_phase_def)

lemma subscribe_bits:
  "GetTransactionBegin (subscribe_transactions l) \<longleftrightarrow> subscribe_phase l = Incrementing \<or> subscribe_phase l = Held"
  "GetTransactionEnd (subscribe_transactions l) \<longleftrightarrow> subscribe_phase l = Held \<or> subscribe_phase l = Decrementing"
  by (simp_all add: tx_access_defs subscribe_phase_def)

text \<open>Every operation is one edge of the phase graph; off the graph it ends the process.\<close>

lemma reference_operations [log_defs]:
  "ReferenceTransactionBegin i l =
     (if i < num_slots l \<and> slot_phase l i = Free then Some (set_phase i Incrementing l) else None)"
  "ReferenceTransactionCommit i l =
     (if i < num_slots l \<and> slot_phase l i = Incrementing then Some (set_phase i Held l) else None)"
  "ReferenceTransactionAbort i l =
     (if i < num_slots l \<and> slot_phase l i = Incrementing then Some (set_phase i Free l) else None)"
  "DereferenceTransactionBegin i l =
     (if i < num_slots l \<and> slot_phase l i = Held then Some (set_phase i Decrementing l) else None)"
  "DereferenceTransactionCommit i l =
     (if i < num_slots l \<and> slot_phase l i = Decrementing then Some (set_phase i Free l) else None)"
  by (cases "phase_of (reference_count_slots l ! i)";
      simp add: ReferenceTransactionBegin_def ReferenceTransactionCommit_def
        ReferenceTransactionAbort_def DereferenceTransactionBegin_def
        DereferenceTransactionCommit_def num_slots_def slot_phase_def set_phase_def
        contract_simps tx_access_defs set_bits_phase)+

text \<open>
  The subscribe record takes a shorter way back: \<open>UnsubscribeTransactionBegin\<close> clears the end
  bit, so a pending unsubscribe carries the same bits as a pending subscribe.
\<close>

definition set_subscribe :: "tx_phase \<Rightarrow> u16 option \<Rightarrow> transaction_log \<Rightarrow> transaction_log" where
  "set_subscribe p c l =
     l\<lparr>subscribe_transactions := with_phase p, subscription_max_sample_count := c\<rparr>"

lemma set_subscribe_frame [simp]:
  "num_slots (set_subscribe p c l) = num_slots l"
  "slot_phase (set_subscribe p c l) i = slot_phase l i"
  "subscribe_phase (set_subscribe p c l) = p"
  "subscription_max_sample_count (set_subscribe p c l) = c"
  "reference_count_slots (set_subscribe p c l) = reference_count_slots l"
  "set_subscribe p' c' (set_subscribe p c l) = set_subscribe p' c' l"
  by (simp_all add: set_subscribe_def num_slots_def slot_phase_def subscribe_phase_def)

lemma subscribe_operations [log_defs]:
  "SubscribeTransactionBegin n l =
     (if subscribe_phase l = Free then Some (set_subscribe Incrementing (Some (ucast n)) l) else None)"
  "SubscribeTransactionCommit l =
     (if subscribe_phase l = Incrementing
      then Some (set_subscribe Held (subscription_max_sample_count l) l) else None)"
  "SubscribeTransactionAbort l =
     (if subscribe_phase l = Incrementing
      then Some (set_subscribe Free (subscription_max_sample_count l) l) else None)"
  "UnsubscribeTransactionBegin l =
     (if subscribe_phase l = Held
      then Some (set_subscribe Incrementing (subscription_max_sample_count l) l) else None)"
  "UnsubscribeTransactionCommit l =
     (if subscribe_phase l = Incrementing then Some (set_subscribe Free None l) else None)"
  by (cases "phase_of (subscribe_transactions l)";
      simp add: SubscribeTransactionBegin_def SubscribeTransactionCommit_def
        SubscribeTransactionAbort_def UnsubscribeTransactionBegin_def
        UnsubscribeTransactionCommit_def subscribe_phase_def set_subscribe_def
        contract_simps tx_access_defs set_bits_phase)+

lemma DoesLogContain_iff:
  "DoesLogContainIncrementOrDecrementTransactions slots \<longleftrightarrow> (\<exists>s \<in> set slots. phase_of s \<noteq> Free)"
proof (induction slots)
  case Nil
  then show ?case by simp
next
  case (Cons s slots)
  then show ?case
    by (cases "phase_of s") (auto simp: tx_access_defs)
qed

lemma DoesLogContain_slot_phase:
  "DoesLogContainIncrementOrDecrementTransactions (reference_count_slots l) \<longleftrightarrow>
     (\<exists>i < num_slots l. slot_phase l i \<noteq> Free)"
  unfolding DoesLogContain_iff num_slots_def slot_phase_def by (metis in_set_conv_nth)

lemma ContainsTransactions_iff:
  "ContainsTransactions l \<longleftrightarrow>
     subscribe_phase l \<noteq> Free \<or> (\<exists>i < num_slots l. slot_phase l i \<noteq> Free)"
proof -
  have "GetTransactionBegin (subscribe_transactions l) \<or> GetTransactionEnd (subscribe_transactions l)
    \<longleftrightarrow> subscribe_phase l \<noteq> Free"
    by (cases "phase_of (subscribe_transactions l)") (auto simp: tx_access_defs subscribe_phase_def)
  then show ?thesis
    unfolding ContainsTransactions_def DoesLogContain_slot_phase by blast
qed

lemma TransactionLog_empty:
  "num_slots (TransactionLog n) = n"
  "i < n \<Longrightarrow> slot_phase (TransactionLog n) i = Free"
  "subscribe_phase (TransactionLog n) = Free"
  "\<not> ContainsTransactions (TransactionLog n)"
  by (auto simp: ContainsTransactions_iff)
    (simp_all add: TransactionLog_def num_slots_def slot_phase_def subscribe_phase_def
      TransactionLogSlot_phase)

subsection \<open>What the rollback does\<close>

text \<open>
  A slot in phase \<open>Incrementing\<close> or \<open>Decrementing\<close> is ambiguous: the proxy died between the log
  entry and its commit, and the log does not say whether the count in shared memory changed.
  The rollback releases the held slots in front of the first ambiguous one, in index order,
  and stops there.
\<close>

definition ambiguous :: "tx_phase \<Rightarrow> bool" where
  "ambiguous p \<longleftrightarrow> p = Incrementing \<or> p = Decrementing"

definition crash_free :: "transaction_log \<Rightarrow> bool" where
  "crash_free l \<longleftrightarrow> (\<forall>i < num_slots l. \<not> ambiguous (slot_phase l i))"

definition recoverable_from :: "transaction_log \<Rightarrow> nat list \<Rightarrow> nat list" where
  "recoverable_from l idxs =
     filter (\<lambda>i. slot_phase l i = Held) (takeWhile (\<lambda>i. \<not> ambiguous (slot_phase l i)) idxs)"

definition recoverable :: "transaction_log \<Rightarrow> nat list" where
  "recoverable l = recoverable_from l [0..<num_slots l]"

definition release :: "nat list \<Rightarrow> transaction_log \<Rightarrow> transaction_log" where
  "release idxs l = fold (\<lambda>i. set_phase i Free) idxs l"

lemma release_simps [simp]:
  "release [] l = l"
  "release (i # idxs) l = release idxs (set_phase i Free l)"
  by (simp_all add: release_def)

lemma release_frame [simp]:
  "num_slots (release idxs l) = num_slots l"
  "subscribe_phase (release idxs l) = subscribe_phase l"
  "subscription_max_sample_count (release idxs l) = subscription_max_sample_count l"
  by (induction idxs arbitrary: l) simp_all

lemma slot_phase_release:
  "set idxs \<subseteq> {..<num_slots l} \<Longrightarrow>
     slot_phase (release idxs l) j = (if j \<in> set idxs then Free else slot_phase l j)"
  by (induction idxs arbitrary: l) auto

lemma recoverable_from_cong:
  "(\<And>i. i \<in> set idxs \<Longrightarrow> slot_phase l i = slot_phase l' i) \<Longrightarrow>
     recoverable_from l idxs = recoverable_from l' idxs"
proof -
  assume eq: "\<And>i. i \<in> set idxs \<Longrightarrow> slot_phase l i = slot_phase l' i"
  then have "takeWhile (\<lambda>i. \<not> ambiguous (slot_phase l i)) idxs
      = takeWhile (\<lambda>i. \<not> ambiguous (slot_phase l' i)) idxs"
    by (intro takeWhile_cong) auto
  with eq show ?thesis
    unfolding recoverable_from_def by (intro filter_cong) (auto dest: set_takeWhileD)
qed

lemma recoverable_from_set: "set (recoverable_from l idxs) \<subseteq> set idxs"
  by (auto simp: recoverable_from_def dest: set_takeWhileD)

lemma rollback_loop:
  assumes "distinct idxs" and "set idxs \<subseteq> {..<num_slots l}"
  shows "RollbackIncrementTransactions_loop cb idxs l s =
     do { s' \<leftarrow> fold_run cb (recoverable_from l idxs) s;
          Some (if \<forall>i \<in> set idxs. \<not> ambiguous (slot_phase l i) then Inr ()
                else Inl kCouldNotRestartProxy,
                release (recoverable_from l idxs) l, s') }"
  using assms
proof (induction idxs arbitrary: l s)
  case Nil
  then show ?case by (simp add: recoverable_from_def)
next
  case (Cons i idxs)
  have i: "i < num_slots l" and d: "distinct idxs" "i \<notin> set idxs"
    and sub: "set idxs \<subseteq> {..<num_slots l}"
    using Cons.prems by auto
  have at: "i < length (reference_count_slots l)"
    using i by (simp add: num_slots_def)
  have freed: "slot_phase (set_phase i Free l) j = slot_phase l j" if "j \<in> set idxs" for j
    using i d(2) that by auto
  have rec: "recoverable_from (set_phase i Free l) idxs = recoverable_from l idxs"
    by (rule recoverable_from_cong) (rule freed)
  show ?case
  proof (cases "slot_phase l i")
    case Free
    then show ?thesis
      using Cons.IH [OF d(1) sub] at
      by (simp add: recoverable_from_def ambiguous_def contract_simps slot_bits)
  next
    case Held
    have IH: "RollbackIncrementTransactions_loop cb idxs (set_phase i Free l) s1 =
       do { s' \<leftarrow> fold_run cb (recoverable_from l idxs) s1;
            Some (if \<forall>i \<in> set idxs. \<not> ambiguous (slot_phase l i) then Inr ()
                  else Inl kCouldNotRestartProxy,
                  release (recoverable_from l idxs) (set_phase i Free l), s') }" for s1
      using Cons.IH [OF d(1), of "set_phase i Free l" s1] sub freed by (simp add: rec)
    have cons: "recoverable_from l (i # idxs) = i # recoverable_from l idxs"
      using Held by (simp add: recoverable_from_def ambiguous_def)
    from Held show ?thesis
      using at i by (simp add: cons log_defs IH ambiguous_def contract_simps slot_bits)
  next
    case Incrementing
    then show ?thesis
      using at by (simp add: recoverable_from_def ambiguous_def contract_simps slot_bits)
  next
    case Decrementing
    then show ?thesis
      using at by (simp add: recoverable_from_def ambiguous_def contract_simps slot_bits)
  qed
qed

lemma rollback_increment:
  "RollbackIncrementTransactions cb l s =
     do { s' \<leftarrow> fold_run cb (recoverable l) s;
          Some (if crash_free l then Inr () else Inl kCouldNotRestartProxy,
                release (recoverable l) l, s') }"
  unfolding RollbackIncrementTransactions_def recoverable_def num_slots_def [symmetric]
  by (subst rollback_loop) (auto simp: crash_free_def)

lemma recoverable_props:
  "distinct (recoverable l)" "set (recoverable l) \<subseteq> {i. i < num_slots l \<and> slot_phase l i = Held}"
  by (auto simp: recoverable_def recoverable_from_def dest: set_takeWhileD)

lemma recoverable_crash_free:
  "crash_free l \<Longrightarrow> set (recoverable l) = {i. i < num_slots l \<and> slot_phase l i = Held}"
proof -
  assume "crash_free l"
  then have eq: "takeWhile (\<lambda>i. \<not> ambiguous (slot_phase l i)) [0..<num_slots l] = [0..<num_slots l]"
    by (intro takeWhile_eq_all_conv [THEN iffD2]) (simp add: crash_free_def)
  show ?thesis unfolding recoverable_def recoverable_from_def eq by auto
qed

lemma released_phase:
  "slot_phase (release (recoverable l) l) i =
     (if i \<in> set (recoverable l) then Free else slot_phase l i)"
  using recoverable_props(2) by (intro slot_phase_release) auto

lemma released_crash_free: "crash_free (release (recoverable l) l) \<longleftrightarrow> crash_free l"
  using recoverable_props(2) [of l]
  by (auto simp: crash_free_def released_phase ambiguous_def)

lemma released_clean:
  assumes "crash_free l" and "i < num_slots l"
  shows "slot_phase (release (recoverable l) l) i = Free"
  using assms by (cases "slot_phase l i")
    (auto simp: released_phase recoverable_crash_free crash_free_def ambiguous_def)

lemma rollback_subscribe:
  "RollbackSubscribeTransactions cb l s =
     (case subscribe_phase l of
        Free \<Rightarrow> Some (Inr (), l, s)
      | Held \<Rightarrow> do { count \<leftarrow> subscription_max_sample_count l; s' \<leftarrow> cb count s;
                  Some (Inr (), set_subscribe Free None l, s') }
      | _ \<Rightarrow> Some (Inl kCouldNotRestartProxy, l, s))"
  by (cases "subscribe_phase l")
    (simp_all add: RollbackSubscribeTransactions_def log_defs subscribe_bits Let_def)

text \<open>
  The contract of a state the rollback is applied to: dereferencing a slot whose count is
  positive takes exactly one from that count.
\<close>

locale dereference_target =
  fixes dereference :: "nat \<Rightarrow> 's \<Rightarrow> 's run" and count :: "'s \<Rightarrow> nat \<Rightarrow> nat"
    and valid :: "'s \<Rightarrow> bool"
  assumes dereference_counts:
    "valid s \<Longrightarrow> 0 < count s i \<Longrightarrow>
       \<exists>s'. dereference i s = Some s' \<and> valid s' \<and> count s' = (count s)(i := count s i - 1)"
begin

lemma dereference_all:
  assumes "distinct idxs" and "\<forall>i \<in> set idxs. 0 < count s i" and "valid s"
  shows "\<exists>s'. fold_run dereference idxs s = Some s' \<and> valid s' \<and>
           (\<forall>j. count s' j = (if j \<in> set idxs then count s j - 1 else count s j))"
  using assms
proof (induction idxs arbitrary: s)
  case Nil
  then show ?case by simp
next
  case (Cons i idxs)
  from Cons.prems obtain s1 where s1: "dereference i s = Some s1" "valid s1"
    "count s1 = (count s)(i := count s i - 1)"
    using dereference_counts [of s i] by auto
  with Cons.prems have "\<forall>j \<in> set idxs. 0 < count s1 j" by auto
  then obtain s2 where s2: "fold_run dereference idxs s1 = Some s2" "valid s2"
    "\<forall>j. count s2 j = (if j \<in> set idxs then count s1 j - 1 else count s1 j)"
    using Cons.IH [of s1] Cons.prems s1 by auto
  from s1 s2 Cons.prems show ?case by auto
qed

lemma rollback_releases_references:
  assumes "valid s" and "crash_free l"
    and "\<forall>i < num_slots l. slot_phase l i = Held \<longrightarrow> 0 < count s i"
  shows "\<exists>s'. RollbackIncrementTransactions dereference l s =
                Some (Inr (), release (recoverable l) l, s') \<and> valid s' \<and>
              (\<forall>j. count s' j =
                 (if j < num_slots l \<and> slot_phase l j = Held then count s j - 1 else count s j))"
proof -
  have "\<forall>i \<in> set (recoverable l). 0 < count s i"
    using assms(3) recoverable_props(2) by blast
  from dereference_all [OF recoverable_props(1) this assms(1)]
  obtain s' where "fold_run dereference (recoverable l) s = Some s'" "valid s'"
    "\<forall>j. count s' j = (if j \<in> set (recoverable l) then count s j - 1 else count s j)"
    by blast
  then show ?thesis
    using assms(2) by (simp add: rollback_increment recoverable_crash_free)
qed

end

subsection \<open>Histories of a log\<close>

text \<open>
  The calls a proxy makes on its log, in any order and with any arguments. A call that breaks
  the protocol ends the process.
\<close>

datatype log_call =
    SubscribeBegin u64 | SubscribeCommit | SubscribeAbort | UnsubscribeBegin | UnsubscribeCommit
  | ReferenceBegin nat | ReferenceCommit nat | ReferenceAbort nat
  | DereferenceBegin nat | DereferenceCommit nat

fun log_call_run :: "log_call \<Rightarrow> transaction_log \<Rightarrow> transaction_log run" where
  "log_call_run (SubscribeBegin n) l = SubscribeTransactionBegin n l"
| "log_call_run SubscribeCommit l = SubscribeTransactionCommit l"
| "log_call_run SubscribeAbort l = SubscribeTransactionAbort l"
| "log_call_run UnsubscribeBegin l = UnsubscribeTransactionBegin l"
| "log_call_run UnsubscribeCommit l = UnsubscribeTransactionCommit l"
| "log_call_run (ReferenceBegin i) l = ReferenceTransactionBegin i l"
| "log_call_run (ReferenceCommit i) l = ReferenceTransactionCommit i l"
| "log_call_run (ReferenceAbort i) l = ReferenceTransactionAbort i l"
| "log_call_run (DereferenceBegin i) l = DereferenceTransactionBegin i l"
| "log_call_run (DereferenceCommit i) l = DereferenceTransactionCommit i l"

definition log_wf :: "transaction_log \<Rightarrow> bool" where
  "log_wf l \<longleftrightarrow>
     subscribe_phase l \<noteq> Decrementing \<and>
     (subscribe_phase l \<noteq> Free \<longrightarrow> subscription_max_sample_count l \<noteq> None)"

lemma log_call_run_wf: "log_wf l \<Longrightarrow> log_call_run c l = Some l' \<Longrightarrow> log_wf l'"
  by (cases c) (auto simp: log_wf_def log_defs split: if_splits)

lemma log_calls_wf: "log_wf l \<Longrightarrow> fold_run log_call_run cs l = Some l' \<Longrightarrow> log_wf l'"
proof (induction cs arbitrary: l)
  case Nil
  then show ?case by simp
next
  case (Cons c cs)
  then show ?case by (auto split: Option.bind_splits dest: log_call_run_wf)
qed

lemma TransactionLog_wf: "log_wf (TransactionLog n)"
  by (simp add: log_wf_def TransactionLog_empty)

text \<open>
  Property C20: after any history of calls on a new log, the subscribe record is never in the
  begin-clear/end-set state, and it carries a sample count whenever it is not free. So the
  rollback never reads an empty optional, and its branch for a crash while unsubscribing
  cannot be taken: such a crash leaves the bits of a crash while subscribing.
\<close>

theorem log_history_subscribe_record:
  assumes "fold_run log_call_run calls (TransactionLog n) = Some l"
  shows "\<not> (\<not> GetTransactionBegin (subscribe_transactions l) \<and> GetTransactionEnd (subscribe_transactions l)) \<and>
    (GetTransactionBegin (subscribe_transactions l) \<longrightarrow> subscription_max_sample_count l \<noteq> None)"
  using log_calls_wf [OF TransactionLog_wf assms] by (auto simp: log_wf_def subscribe_bits)

theorem log_history_subscribe_record_witness:
  "let l = TransactionLog 2; calls = [SubscribeBegin 3, SubscribeCommit, ReferenceBegin 1,
       ReferenceCommit 1, UnsubscribeBegin]
   in fold_run log_call_run calls l \<noteq> None \<and>
      subscription_max_sample_count (the (fold_run log_call_run calls l)) \<noteq> None"
proof -
  define l' where "l' = the (fold_run log_call_run [SubscribeBegin 3, SubscribeCommit, ReferenceBegin 1,
       ReferenceCommit 1, UnsubscribeBegin] (TransactionLog 2))"
  have run: "fold_run log_call_run [SubscribeBegin 3, SubscribeCommit, ReferenceBegin 1,
       ReferenceCommit 1, UnsubscribeBegin] (TransactionLog 2) = Some l'"
    by (simp add: l'_def log_defs TransactionLog_empty)
  have "GetTransactionBegin (subscribe_transactions l')"
    by (simp add: l'_def log_defs TransactionLog_empty subscribe_bits)
  with log_history_subscribe_record [OF run] run show ?thesis
    by (simp add: Let_def)
qed

subsection \<open>The outcome of a rollback\<close>

lemma rollback_proxy_log:
  "RollbackProxyElementLog dereference unsubscribe l s =
     (if subscribe_phase l = Free then
        (if \<forall>i < num_slots l. slot_phase l i = Free then Some (Inr (), l, s) else None)
      else do {
        s1 \<leftarrow> fold_run dereference (recoverable l) s;
        if \<not> crash_free l \<or> ambiguous (subscribe_phase l)
        then Some (Inl kCouldNotRestartProxy, release (recoverable l) l, s1)
        else do {
          count \<leftarrow> subscription_max_sample_count l;
          s2 \<leftarrow> unsubscribe count s1;
          Some (Inr (), set_subscribe Free None (release (recoverable l) l), s2) } })"
proof (cases "subscribe_phase l = Free")
  case True
  show ?thesis
  proof (cases "\<forall>i < num_slots l. slot_phase l i = Free")
    case all_free: True
    then have "\<forall>i. i \<notin> set (recoverable l)"
      using recoverable_props(2) [of l] by force
    then have "recoverable l = []" by (cases "recoverable l") auto
    moreover have "crash_free l"
      using all_free by (auto simp: crash_free_def ambiguous_def)
    ultimately show ?thesis
      using True all_free
      by (auto simp: RollbackProxyElementLog_def contract_simps subscribe_bits
          DoesLogContain_slot_phase rollback_increment rollback_subscribe)
  next
    case False
    with True show ?thesis
      by (auto simp: RollbackProxyElementLog_def contract_simps subscribe_bits
          DoesLogContain_slot_phase)
  qed
next
  case False
  have "subscribe_phase l = Incrementing \<or> subscribe_phase l = Held \<or> subscribe_phase l = Decrementing"
    using False by (cases "subscribe_phase l") auto
  then show ?thesis
    by (auto simp: RollbackProxyElementLog_def contract_simps subscribe_bits rollback_increment
        rollback_subscribe ambiguous_def)
qed

text \<open>
  The rollback of a proxy log, on every branch and for any callbacks. A log without
  a subscription must be empty (else the process ends). Otherwise the held slots in front of
  the first ambiguous one are dereferenced in index order; with an ambiguous slot or an
  unfinished subscribe the rollback then reports \<open>kCouldNotRestartProxy\<close> and never calls the
  unsubscribe callback; otherwise it unsubscribes the recorded count and the log is free.
\<close>

lemma proxy_rollback_outcome:
  "RollbackProxyElementLog dereference unsubscribe l s =
     (if subscribe_phase l = Free then
        (if \<exists>i < num_slots l. slot_phase l i \<noteq> Free then None else Some (Inr (), l, s))
      else do {
        s1 \<leftarrow> fold_run dereference (recoverable l) s;
        if crash_free l \<and> \<not> ambiguous (subscribe_phase l)
        then do {
          count \<leftarrow> subscription_max_sample_count l;
          s2 \<leftarrow> unsubscribe count s1;
          Some (Inr (), set_subscribe Free None (release (recoverable l) l), s2) }
        else Some (Inl kCouldNotRestartProxy, release (recoverable l) l, s1) })"
proof -
  have all: "(\<forall>i < num_slots l. slot_phase l i = Free) \<longleftrightarrow> \<not> (\<exists>i < num_slots l. slot_phase l i \<noteq> Free)"
    by blast
  show ?thesis
    unfolding rollback_proxy_log all
    by (cases "\<exists>i < num_slots l. slot_phase l i \<noteq> Free";
        cases "crash_free l"; cases "ambiguous (subscribe_phase l)")
      (simp_all only: simp_thms if_True if_False)
qed

lemma recoverable_released: "recoverable (release (recoverable l) l) = []"
proof -
  define l' where "l' = release (recoverable l) l"
  have phase: "slot_phase l' i = (if i \<in> set (recoverable l) then Free else slot_phase l i)" for i
    unfolding l'_def by (rule released_phase)
  have "takeWhile (\<lambda>i. \<not> ambiguous (slot_phase l' i)) [0..<num_slots l]
      = takeWhile (\<lambda>i. \<not> ambiguous (slot_phase l i)) [0..<num_slots l]"
    using recoverable_props(2) [of l]
    by (intro takeWhile_cong) (auto simp: phase ambiguous_def)
  moreover have "num_slots l' = num_slots l" by (simp add: l'_def)
  ultimately have "recoverable l' =
      filter (\<lambda>i. slot_phase l' i = Held) (takeWhile (\<lambda>i. \<not> ambiguous (slot_phase l i)) [0..<num_slots l])"
    by (simp add: recoverable_def recoverable_from_def)
  moreover have "slot_phase l' i \<noteq> Held"
    if "i \<in> set (takeWhile (\<lambda>i. \<not> ambiguous (slot_phase l i)) [0..<num_slots l])" for i
    using that by (auto simp: phase recoverable_def recoverable_from_def)
  ultimately show ?thesis
    unfolding l'_def [symmetric] by (simp add: filter_empty_conv)
qed

lemma rollback_proxy_log_final:
  assumes "RollbackProxyElementLog dereference unsubscribe l s = Some (r, l', s')"
  shows "(r = Inr () \<and> \<not> ContainsTransactions l') \<or>
    (r = Inl kCouldNotRestartProxy \<and> ContainsTransactions l' \<and>
     (\<forall>s2. RollbackProxyElementLog dereference unsubscribe l' s2 = Some (r, l', s2)))"
proof (cases "subscribe_phase l = Free")
  case True
  with assms show ?thesis
    by (auto simp: rollback_proxy_log ContainsTransactions_iff split: if_splits)
next
  case sub: False
  let ?l1 = "release (recoverable l) l"
  show ?thesis
  proof (cases "\<not> crash_free l \<or> ambiguous (subscribe_phase l)")
    case True
    with assms sub have "r = Inl kCouldNotRestartProxy" "l' = ?l1"
      by (auto simp: rollback_proxy_log split: Option.bind_splits)
    with True sub show ?thesis
      by (auto simp: rollback_proxy_log recoverable_released released_crash_free
          ContainsTransactions_iff)
  next
    case False
    with assms sub have "r = Inr ()" "l' = set_subscribe Free None ?l1"
      by (auto simp: rollback_proxy_log split: Option.bind_splits)
    with False show ?thesis
      by (auto simp: ContainsTransactions_iff released_clean)
  qed
qed

text \<open>
  Property C19: a rollback that reports success leaves a log without transactions. A rollback
  that reports an error reports \<open>kCouldNotRestartProxy\<close>, leaves the log with the transaction it
  could not resolve, and every later attempt on that log fails the same way and changes neither
  the log nor the state again, so no slot is ever dereferenced twice.
\<close>

theorem proxy_rollback_is_final:
  assumes "RollbackProxyElementLog dereference unsubscribe l s = Some (r, l', s')"
  shows "(r = Inr () \<and> \<not> ContainsTransactions l') \<or>
    (r = Inl kCouldNotRestartProxy \<and> ContainsTransactions l' \<and>
     (\<forall>s2. RollbackProxyElementLog dereference unsubscribe l' s2 = Some (r, l', s2)))"
  using assms by (rule rollback_proxy_log_final)

theorem proxy_rollback_is_final_witness:
  "\<exists>l'. RollbackProxyElementLog (\<lambda>i s. Some (i # s)) (\<lambda>n s. Some s)
     (set_phase 1 Incrementing (set_phase 0 Held (set_subscribe Held (Some 1) (TransactionLog 2)))) []
       = Some (Inl kCouldNotRestartProxy, l', [0]) \<and> ContainsTransactions l'"
proof -
  let ?l = "set_phase 1 Incrementing (set_phase 0 Held (set_subscribe Held (Some 1) (TransactionLog 2)))"
  have "recoverable ?l = [0]" and "\<not> crash_free ?l"
    by (auto simp: recoverable_def recoverable_from_def crash_free_def ambiguous_def
        TransactionLog_empty upt_rec numeral_2_eq_2)
  then have "RollbackProxyElementLog (\<lambda>i s. Some (i # s)) (\<lambda>n s. Some s) ?l []
      = Some (Inl kCouldNotRestartProxy, release [0] ?l, [0])"
    by (simp add: rollback_proxy_log)
  with proxy_rollback_is_final [OF this] show ?thesis by auto
qed

end
