(* ===== verification/Transaction_Log_Set.thy ===== *)
theory Transaction_Log_Set
  imports Transaction_Log
begin

text \<open>
  \<open>TransactionLogSet\<close> (transaction_log_set.h/.cpp) and \<open>TransactionLogRegistrationGuard\<close>: the
  fixed pool of transaction logs of one event, one per subscribed proxy, and the extra log of
  the skeleton's tracing. The mutex of the set is held by every operation that reads or writes
  more than one flag, so an operation is one step here. A \<open>TransactionLogId\<close> is the uid of the
  proxy's process. Indices are \<open>nat\<close>: the constructor takes the number of logs as a \<open>uint8_t\<close>
  below the sentinel 255, so every index fits.
\<close>

subsection \<open>Definitions\<close>

type_synonym TransactionLogId = u32

record transaction_log_node =
  is_active :: bool
  needs_rollback :: bool
  node_id :: TransactionLogId
  node_log :: transaction_log

definition TransactionLogNode :: "nat \<Rightarrow> transaction_log_node" where
  "TransactionLogNode number_of_slots =
     \<lparr>is_active = False, needs_rollback = False, node_id = 0,
      node_log = TransactionLog number_of_slots\<rparr>"

definition Reset :: "transaction_log_node \<Rightarrow> transaction_log_node run" where
  "Reset n = do {
     amp_require (\<not> ContainsTransactions (node_log n));
     Some (n\<lparr>is_active := False, needs_rollback := False\<rparr>) }"

record transaction_log_set =
  proxy_transaction_logs :: "transaction_log_node list"
  skeleton_tracing_transaction_log :: transaction_log_node

definition kSkeletonIndexSentinel :: nat where
  "kSkeletonIndexSentinel = 255"

definition TransactionLogSet :: "u8 \<Rightarrow> nat \<Rightarrow> transaction_log_set run" where
  "TransactionLogSet max_number_of_logs number_of_slots = do {
     amp_require (unat max_number_of_logs \<noteq> kSkeletonIndexSentinel);
     Some \<lparr>proxy_transaction_logs = replicate (unat max_number_of_logs) (TransactionLogNode number_of_slots),
           skeleton_tracing_transaction_log = TransactionLogNode number_of_slots\<rparr> }"

definition FindTransactionLogIndicesToBeRolledBack ::
    "transaction_log_node list \<Rightarrow> TransactionLogId \<Rightarrow> nat list" where
  "FindTransactionLogIndicesToBeRolledBack logs target_transaction_log_id =
     [i \<leftarrow> [0..<length logs].
        is_active (logs ! i) \<and> node_id (logs ! i) = target_transaction_log_id \<and>
        needs_rollback (logs ! i)]"

fun FindNextAvailableSlotIndex_from :: "nat \<Rightarrow> transaction_log_node list \<Rightarrow> nat option" where
  "FindNextAvailableSlotIndex_from i [] = None"
| "FindNextAvailableSlotIndex_from i (n # ns) =
     (if \<not> is_active n then Some i else FindNextAvailableSlotIndex_from (Suc i) ns)"

definition FindNextAvailableSlotIndex :: "transaction_log_node list \<Rightarrow> nat option" where
  "FindNextAvailableSlotIndex logs = FindNextAvailableSlotIndex_from 0 logs"

definition IsSkeletonElementTransactionLogIndex :: "nat \<Rightarrow> bool" where
  "IsSkeletonElementTransactionLogIndex transaction_log_index \<longleftrightarrow>
     transaction_log_index = kSkeletonIndexSentinel"

definition MarkTransactionLogsNeedRollback :: "TransactionLogId \<Rightarrow> transaction_log_set \<Rightarrow> transaction_log_set" where
  "MarkTransactionLogsNeedRollback transaction_log_id t =
     t\<lparr>proxy_transaction_logs :=
        map (\<lambda>n. if is_active n \<and> node_id n = transaction_log_id then n\<lparr>needs_rollback := True\<rparr> else n)
          (proxy_transaction_logs t)\<rparr>"

fun RollbackProxyTransactions_loop ::
    "(nat \<Rightarrow> 's \<Rightarrow> 's run) \<Rightarrow> (u16 \<Rightarrow> 's \<Rightarrow> 's run) \<Rightarrow> nat list \<Rightarrow> result_blank \<Rightarrow>
     transaction_log_set \<Rightarrow> 's \<Rightarrow> (result_blank \<times> transaction_log_set \<times> 's) run" where
  "RollbackProxyTransactions_loop dereference unsubscribe [] rollback_result t s =
     Some (rollback_result, t, s)"
| "RollbackProxyTransactions_loop dereference unsubscribe (i # idxs) rollback_result t s = do {
     node \<leftarrow> vector_at (proxy_transaction_logs t) i;
     (r, l, s1) \<leftarrow> RollbackProxyElementLog dereference unsubscribe (node_log node) s;
     (case r of
        Inr u \<Rightarrow> do {
          node1 \<leftarrow> Reset (node\<lparr>node_log := l\<rparr>);
          Some (Inr (), t\<lparr>proxy_transaction_logs := (proxy_transaction_logs t)[i := node1]\<rparr>, s1) }
      | Inl e \<Rightarrow>
          RollbackProxyTransactions_loop dereference unsubscribe idxs (Inl e)
            (t\<lparr>proxy_transaction_logs := (proxy_transaction_logs t)[i := node\<lparr>node_log := l\<rparr>]\<rparr>) s1) }"

definition RollbackProxyTransactions ::
    "(nat \<Rightarrow> 's \<Rightarrow> 's run) \<Rightarrow> (u16 \<Rightarrow> 's \<Rightarrow> 's run) \<Rightarrow> TransactionLogId \<Rightarrow> transaction_log_set \<Rightarrow> 's \<Rightarrow>
     (result_blank \<times> transaction_log_set \<times> 's) run" where
  "RollbackProxyTransactions dereference unsubscribe transaction_log_id t s =
     RollbackProxyTransactions_loop dereference unsubscribe
       (FindTransactionLogIndicesToBeRolledBack (proxy_transaction_logs t) transaction_log_id)
       (Inr ()) t s"

definition RollbackSkeletonTracingTransactions ::
    "(nat \<Rightarrow> 's \<Rightarrow> 's run) \<Rightarrow> transaction_log_set \<Rightarrow> 's \<Rightarrow> (result_blank \<times> transaction_log_set \<times> 's) run" where
  "RollbackSkeletonTracingTransactions dereference t s =
     (let node = skeleton_tracing_transaction_log t
      in if \<not> is_active node then Some (Inr (), t, s)
         else do {
           (r, l, s1) \<leftarrow> RollbackSkeletonTracingElementLog dereference (node_log node) s;
           (case r of
              Inl e \<Rightarrow> Some (Inl e, t\<lparr>skeleton_tracing_transaction_log := node\<lparr>node_log := l\<rparr>\<rparr>, s1)
            | Inr u \<Rightarrow> do {
                node1 \<leftarrow> Reset (node\<lparr>node_log := l\<rparr>);
                Some (Inr (), t\<lparr>skeleton_tracing_transaction_log := node1\<rparr>, s1) }) })"

definition RegisterProxyElement ::
    "TransactionLogId \<Rightarrow> transaction_log_set \<Rightarrow> (nat result \<times> transaction_log_set) run" where
  "RegisterProxyElement transaction_log_id t =
     (case FindNextAvailableSlotIndex (proxy_transaction_logs t) of
        None \<Rightarrow> Some (Inl kMaxSubscribersExceeded, t)
      | Some i \<Rightarrow> do {
          node \<leftarrow> vector_at (proxy_transaction_logs t) i;
          let node1 = node\<lparr>node_id := transaction_log_id, is_active := True, needs_rollback := False\<rparr>;
          amp_require (\<not> ContainsTransactions (node_log node1));
          Some (Inr i, t\<lparr>proxy_transaction_logs := (proxy_transaction_logs t)[i := node1]\<rparr>) })"

definition RegisterSkeletonTracingElement :: "transaction_log_set \<Rightarrow> (nat \<times> transaction_log_set) run" where
  "RegisterSkeletonTracingElement t = do {
     amp_require (\<not> is_active (skeleton_tracing_transaction_log t));
     Some (kSkeletonIndexSentinel,
           t\<lparr>skeleton_tracing_transaction_log :=
              (skeleton_tracing_transaction_log t)\<lparr>is_active := True\<rparr>\<rparr>) }"

definition Unregister :: "nat \<Rightarrow> transaction_log_set \<Rightarrow> transaction_log_set run" where
  "Unregister transaction_log_index t =
     (if IsSkeletonElementTransactionLogIndex transaction_log_index then do {
        node \<leftarrow> Reset (skeleton_tracing_transaction_log t);
        Some (t\<lparr>skeleton_tracing_transaction_log := node\<rparr>) }
      else do {
        node \<leftarrow> vector_at (proxy_transaction_logs t) transaction_log_index;
        node1 \<leftarrow> Reset node;
        Some (t\<lparr>proxy_transaction_logs :=
                 (proxy_transaction_logs t)[transaction_log_index := node1]\<rparr>) })"

text \<open>
  \<open>GetTransactionLog\<close> returns a reference; \<open>PutTransactionLog\<close> is the write through it.
\<close>

definition GetTransactionLog :: "nat \<Rightarrow> transaction_log_set \<Rightarrow> transaction_log run" where
  "GetTransactionLog transaction_log_index t =
     (if IsSkeletonElementTransactionLogIndex transaction_log_index then do {
        amp_require (is_active (skeleton_tracing_transaction_log t));
        Some (node_log (skeleton_tracing_transaction_log t)) }
      else do {
        node \<leftarrow> vector_at (proxy_transaction_logs t) transaction_log_index;
        amp_require (is_active node);
        Some (node_log node) })"

definition PutTransactionLog :: "nat \<Rightarrow> transaction_log \<Rightarrow> transaction_log_set \<Rightarrow> transaction_log_set" where
  "PutTransactionLog transaction_log_index l t =
     (if IsSkeletonElementTransactionLogIndex transaction_log_index
      then t\<lparr>skeleton_tracing_transaction_log := (skeleton_tracing_transaction_log t)\<lparr>node_log := l\<rparr>\<rparr>
      else t\<lparr>proxy_transaction_logs :=
        (proxy_transaction_logs t)[transaction_log_index :=
           (proxy_transaction_logs t ! transaction_log_index)\<lparr>node_log := l\<rparr>]\<rparr>)"

subsection \<open>The registration guard\<close>

text \<open>
  \<open>TransactionLogRegistrationGuard\<close> is an optional index into the set; its destructor
  unregisters, a moved-from guard is empty.
\<close>

type_synonym registration_guard = "nat option"

definition TransactionLogRegistrationGuard_Create ::
    "TransactionLogId \<Rightarrow> transaction_log_set \<Rightarrow> (registration_guard result \<times> transaction_log_set) run" where
  "TransactionLogRegistrationGuard_Create transaction_log_id t = do {
     (r, t1) \<leftarrow> RegisterProxyElement transaction_log_id t;
     (case r of
        Inl e \<Rightarrow> Some (Inl e, t1)
      | Inr i \<Rightarrow> Some (Inr (Some i), t1)) }"

definition TransactionLogRegistrationGuard_destroy ::
    "registration_guard \<Rightarrow> transaction_log_set \<Rightarrow> transaction_log_set run" where
  "TransactionLogRegistrationGuard_destroy g t =
     (case g of None \<Rightarrow> Some t | Some i \<Rightarrow> Unregister i t)"

definition TransactionLogRegistrationGuard_move ::
    "registration_guard \<Rightarrow> registration_guard \<times> registration_guard" where
  "TransactionLogRegistrationGuard_move other = (other, None)"

definition GetTransactionLogIndex :: "registration_guard \<Rightarrow> nat run" where
  "GetTransactionLogIndex g = do { amp_require (g \<noteq> None); g }"

subsection \<open>Access to one log\<close>

definition is_registered :: "transaction_log_set \<Rightarrow> nat \<Rightarrow> bool" where
  "is_registered t i \<longleftrightarrow> GetTransactionLog i t \<noteq> None"

lemma GetTransactionLog_proxy:
  "i \<noteq> kSkeletonIndexSentinel \<Longrightarrow>
     GetTransactionLog i t =
       (if i < length (proxy_transaction_logs t) \<and> is_active (proxy_transaction_logs t ! i)
        then Some (node_log (proxy_transaction_logs t ! i)) else None)"
  by (simp add: GetTransactionLog_def IsSkeletonElementTransactionLogIndex_def contract_simps)

lemma GetTransactionLog_skeleton:
  "GetTransactionLog kSkeletonIndexSentinel t =
     (if is_active (skeleton_tracing_transaction_log t)
      then Some (node_log (skeleton_tracing_transaction_log t)) else None)"
  by (simp add: GetTransactionLog_def IsSkeletonElementTransactionLogIndex_def contract_simps)

lemma GetTransactionLog_Put:
  "GetTransactionLog j (PutTransactionLog i l t) =
     (if j = i \<and> is_registered t i then Some l else GetTransactionLog j t)"
proof (cases "i = kSkeletonIndexSentinel")
  case True
  then show ?thesis
    by (cases "j = i") (auto simp: PutTransactionLog_def IsSkeletonElementTransactionLogIndex_def
        is_registered_def GetTransactionLog_skeleton GetTransactionLog_proxy)
next
  case False
  then show ?thesis
    by (cases "j = kSkeletonIndexSentinel"; cases "i < length (proxy_transaction_logs t)")
      (auto simp: PutTransactionLog_def IsSkeletonElementTransactionLogIndex_def
        is_registered_def GetTransactionLog_skeleton GetTransactionLog_proxy nth_list_update)
qed

text \<open>
  The interface the event control uses: a table of logs, read and written through an index.
\<close>

locale log_table =
  fixes get :: "'i \<Rightarrow> 't \<Rightarrow> 'l option" and put :: "'i \<Rightarrow> 'l \<Rightarrow> 't \<Rightarrow> 't"
  assumes get_put: "get j (put i l t) = (if j = i \<and> get i t \<noteq> None then Some l else get j t)"
begin

lemma get_put_same: "get i t = Some l0 \<Longrightarrow> get i (put i l t) = Some l"
  by (simp add: get_put)

lemma get_put_other: "j \<noteq> i \<Longrightarrow> get j (put i l t) = get j t"
  by (simp add: get_put)

lemma put_keeps_registered: "get j (put i l t) = None \<longleftrightarrow> get j t = None"
  by (auto simp: get_put)

end

interpretation logs: log_table GetTransactionLog PutTransactionLog
  by unfold_locales (simp add: GetTransactionLog_Put is_registered_def)

subsection \<open>Registration\<close>

text \<open>The invariant: a log that is not in use holds no transactions, so it can be handed out.\<close>

definition node_wf :: "transaction_log_node \<Rightarrow> bool" where
  "node_wf n \<longleftrightarrow> (\<not> is_active n \<longrightarrow> \<not> ContainsTransactions (node_log n))"

definition tls_wf :: "transaction_log_set \<Rightarrow> bool" where
  "tls_wf t \<longleftrightarrow>
     length (proxy_transaction_logs t) < kSkeletonIndexSentinel \<and>
     (\<forall>n \<in> set (proxy_transaction_logs t). node_wf n) \<and>
     node_wf (skeleton_tracing_transaction_log t)"

lemma FindNextAvailable_from:
  "FindNextAvailableSlotIndex_from k ns = None \<longleftrightarrow> (\<forall>n \<in> set ns. is_active n)"
  "FindNextAvailableSlotIndex_from k ns = Some i \<Longrightarrow>
     k \<le> i \<and> i - k < length ns \<and> \<not> is_active (ns ! (i - k)) \<and> (\<forall>j < i - k. is_active (ns ! j))"
proof (induction ns arbitrary: k)
  case Nil
  { case 1 show ?case by simp }
  { case 2 then show ?case by simp }
next
  case (Cons n ns)
  { case 1 show ?case using Cons.IH(1) by simp }
  { case 2
    show ?case
    proof (cases "is_active n")
      case False
      with 2 show ?thesis by simp
    next
      case True
      with 2 have "FindNextAvailableSlotIndex_from (Suc k) ns = Some i" by simp
      from Cons.IH(2) [OF this] have *: "Suc k \<le> i" "i - Suc k < length ns"
        "\<not> is_active (ns ! (i - Suc k))" "\<forall>j < i - Suc k. is_active (ns ! j)"
        by auto
      then have d: "i - k = Suc (i - Suc k)" by arith
      have "is_active ((n # ns) ! j)" if "j < i - k" for j
        using that True *(4) d by (cases j) auto
      with * d show ?thesis by auto
    qed }
qed

lemma FindNextAvailableSlotIndex_Some:
  "FindNextAvailableSlotIndex ns = Some i \<Longrightarrow>
     i < length ns \<and> \<not> is_active (ns ! i) \<and> (\<forall>j < i. is_active (ns ! j))"
  using FindNextAvailable_from(2) [of 0 ns i] by (simp add: FindNextAvailableSlotIndex_def)

lemma FindNextAvailableSlotIndex_None:
  "FindNextAvailableSlotIndex ns = None \<longleftrightarrow> (\<forall>n \<in> set ns. is_active n)"
  by (simp add: FindNextAvailableSlotIndex_def FindNextAvailable_from(1))

lemma tls_wf_update:
  "tls_wf t \<Longrightarrow> node_wf n \<Longrightarrow>
     tls_wf (t\<lparr>proxy_transaction_logs := (proxy_transaction_logs t)[i := n]\<rparr>)"
  by (auto simp: tls_wf_def dest: set_update_subset_insert [THEN subsetD])

lemma tls_wf_nth: "tls_wf t \<Longrightarrow> i < length (proxy_transaction_logs t) \<Longrightarrow> node_wf (proxy_transaction_logs t ! i)"
  by (simp add: tls_wf_def)

lemma TransactionLogSet_wf: "TransactionLogSet k n = Some t \<Longrightarrow> tls_wf t"
proof -
  assume new: "TransactionLogSet k n = Some t"
  have "unat k < 256" using unsigned_less [of k] by simp
  with new show ?thesis
    by (auto simp: TransactionLogSet_def contract_simps tls_wf_def node_wf_def
        TransactionLogNode_def TransactionLog_empty kSkeletonIndexSentinel_def split: if_splits)
qed

lemma RegisterProxyElement_cases:
  assumes "tls_wf t"
  shows "if \<forall>n \<in> set (proxy_transaction_logs t). is_active n
    then RegisterProxyElement uid t = Some (Inl kMaxSubscribersExceeded, t)
    else \<exists>i t'. RegisterProxyElement uid t = Some (Inr i, t') \<and> tls_wf t' \<and>
      i < length (proxy_transaction_logs t) \<and> \<not> is_active (proxy_transaction_logs t ! i) \<and>
      (\<forall>j < i. is_active (proxy_transaction_logs t ! j)) \<and>
      (\<exists>l. GetTransactionLog i t' = Some l \<and> \<not> ContainsTransactions l) \<and>
      node_id (proxy_transaction_logs t' ! i) = uid \<and>
      \<not> needs_rollback (proxy_transaction_logs t' ! i) \<and>
      (\<forall>j. j \<noteq> i \<longrightarrow> GetTransactionLog j t' = GetTransactionLog j t)"
proof (cases "FindNextAvailableSlotIndex (proxy_transaction_logs t)")
  case None
  then show ?thesis
    using FindNextAvailableSlotIndex_None [of "proxy_transaction_logs t"]
    by (simp add: RegisterProxyElement_def)
next
  case (Some i)
  note i = FindNextAvailableSlotIndex_Some [OF Some]
  let ?node = "(proxy_transaction_logs t ! i)\<lparr>node_id := uid, is_active := True, needs_rollback := False\<rparr>"
  let ?t = "t\<lparr>proxy_transaction_logs := (proxy_transaction_logs t)[i := ?node]\<rparr>"
  have empty: "\<not> ContainsTransactions (node_log (proxy_transaction_logs t ! i))"
    using tls_wf_nth [OF assms] i by (simp add: node_wf_def)
  have run: "RegisterProxyElement uid t = Some (Inr i, ?t)"
    using Some i empty by (simp add: RegisterProxyElement_def contract_simps)
  have ns: "i \<noteq> kSkeletonIndexSentinel"
    using assms i by (auto simp: tls_wf_def)
  have others: "GetTransactionLog j ?t = GetTransactionLog j t" if "j \<noteq> i" for j
    using that by (cases "j = kSkeletonIndexSentinel")
      (simp_all add: GetTransactionLog_skeleton GetTransactionLog_proxy)
  have not_all: "\<not> (\<forall>n \<in> set (proxy_transaction_logs t). is_active n)"
    using i nth_mem by blast
  have wf: "tls_wf ?t"
    using assms by (rule tls_wf_update) (simp add: node_wf_def)
  have got: "GetTransactionLog i ?t = Some (node_log (proxy_transaction_logs t ! i))"
    using ns i by (simp add: GetTransactionLog_proxy)
  show ?thesis
    unfolding if_not_P [OF not_all]
    by (intro exI [of _ i] exI [of _ ?t] conjI) (use run wf i got empty others in auto)
qed

text \<open>
  Registration never ends the process in a well-formed set. It is refused with
  \<open>kMaxSubscribersExceeded\<close> exactly when every log of the pool is in use, and then changes
  nothing. Otherwise it hands out the first unused log, which is empty, marks it active for
  the caller and not in need of a rollback, leaves every other log alone and keeps the set
  well-formed.
\<close>

lemma register_proxy_element_outcome:
  assumes "tls_wf t"
  shows "if \<forall>n \<in> set (proxy_transaction_logs t). is_active n
    then RegisterProxyElement uid t = Some (Inl kMaxSubscribersExceeded, t)
    else \<exists>i t'. RegisterProxyElement uid t = Some (Inr i, t') \<and> tls_wf t' \<and>
      i < length (proxy_transaction_logs t) \<and> \<not> is_active (proxy_transaction_logs t ! i) \<and>
      (\<forall>j < i. is_active (proxy_transaction_logs t ! j)) \<and>
      (\<exists>l. GetTransactionLog i t' = Some l \<and> \<not> ContainsTransactions l) \<and>
      node_id (proxy_transaction_logs t' ! i) = uid \<and>
      \<not> needs_rollback (proxy_transaction_logs t' ! i) \<and>
      (\<forall>j. j \<noteq> i \<longrightarrow> GetTransactionLog j t' = GetTransactionLog j t)"
  using assms by (rule RegisterProxyElement_cases)

lemma Reset_outcome:
  "Reset n = (if ContainsTransactions (node_log n) then None
              else Some (n\<lparr>is_active := False, needs_rollback := False\<rparr>))"
  by (simp add: Reset_def contract_simps)

lemma Unregister_wf: "tls_wf t \<Longrightarrow> Unregister i t = Some t' \<Longrightarrow> tls_wf t'"
  by (auto simp: Unregister_def contract_simps Reset_outcome node_wf_def intro!: tls_wf_update
      split: if_splits) (auto simp: tls_wf_def node_wf_def)

lemma Unregister_total:
  "GetTransactionLog i t = Some l \<Longrightarrow> \<not> ContainsTransactions l \<Longrightarrow> \<exists>t'. Unregister i t = Some t'"
  by (cases "i = kSkeletonIndexSentinel")
    (auto simp: Unregister_def IsSkeletonElementTransactionLogIndex_def contract_simps Reset_outcome
      GetTransactionLog_skeleton GetTransactionLog_proxy split: if_splits)

lemma Unregister_frees:
  assumes "Unregister i t = Some t'"
  shows "GetTransactionLog j t' = (if j = i then None else GetTransactionLog j t)"
proof (cases "i = kSkeletonIndexSentinel")
  case True
  with assms show ?thesis
    by (cases "j = i") (auto simp: Unregister_def IsSkeletonElementTransactionLogIndex_def
        contract_simps Reset_outcome GetTransactionLog_skeleton GetTransactionLog_proxy split: if_splits)
next
  case False
  with assms show ?thesis
    by (cases "j = kSkeletonIndexSentinel")
      (auto simp: Unregister_def IsSkeletonElementTransactionLogIndex_def contract_simps
        Reset_outcome GetTransactionLog_skeleton GetTransactionLog_proxy nth_list_update split: if_splits)
qed

subsection \<open>Rollback of a set\<close>

abbreviation pending :: "transaction_log_set \<Rightarrow> TransactionLogId \<Rightarrow> nat list" where
  "pending t uid \<equiv> FindTransactionLogIndicesToBeRolledBack (proxy_transaction_logs t) uid"

definition needs_rollback_of :: "TransactionLogId \<Rightarrow> transaction_log_node \<Rightarrow> bool" where
  "needs_rollback_of uid n \<longleftrightarrow> is_active n \<and> node_id n = uid \<and> needs_rollback n"

lemma pending_eq:
  "FindTransactionLogIndicesToBeRolledBack ns uid =
     filter (\<lambda>i. needs_rollback_of uid (ns ! i)) [0..<length ns]"
  by (simp add: FindTransactionLogIndicesToBeRolledBack_def needs_rollback_of_def Let_def)

lemma filter_upt_remove1:
  assumes "P i" "\<not> Q i" and same: "\<And>j. j \<noteq> i \<Longrightarrow> Q j = P j"
  shows "filter Q [0..<n] = remove1 i (filter P [0..<n])"
proof -
  have "Q = (\<lambda>j. j \<noteq> i \<and> P j)"
  proof
    show "Q j = (j \<noteq> i \<and> P j)" for j
      using assms by (cases "j = i") auto
  qed
  then show ?thesis
    by (auto simp: distinct_remove1_removeAll removeAll_filter_not_eq intro: filter_cong)
qed

lemma pending_set_log:
  "proxy_transaction_logs t' = (proxy_transaction_logs t)[i := (proxy_transaction_logs t ! i)\<lparr>node_log := l\<rparr>] \<Longrightarrow>
     pending t' uid = pending t uid"
  unfolding pending_eq
  by (cases "i < length (proxy_transaction_logs t)")
    (auto simp: needs_rollback_of_def nth_list_update intro!: filter_cong)

lemma pending_reset:
  assumes "i \<in> set (pending t uid)"
    and "proxy_transaction_logs t' = (proxy_transaction_logs t)[i := n]" and "\<not> is_active n"
  shows "pending t' uid = remove1 i (pending t uid)"
  unfolding pending_eq assms(2) length_list_update
  using assms(1,3) by (intro filter_upt_remove1) (auto simp: pending_eq needs_rollback_of_def nth_list_update)

text \<open>What one pass over the candidates leaves behind.\<close>

definition rolled_back_one ::
    "TransactionLogId \<Rightarrow> nat list \<Rightarrow> transaction_log_set \<Rightarrow> transaction_log_set \<Rightarrow> bool" where
  "rolled_back_one uid idxs t t' \<longleftrightarrow>
     (\<exists>i \<in> set idxs. pending t' uid = remove1 i (pending t uid) \<and>
        \<not> is_active (proxy_transaction_logs t' ! i) \<and>
        \<not> ContainsTransactions (node_log (proxy_transaction_logs t' ! i)))"

lemma rollback_set_loop:
  assumes "RollbackProxyTransactions_loop d u idxs r0 t s = Some (r, t', s')"
    and "set idxs \<subseteq> set (pending t uid)" and "idxs \<noteq> []"
  shows "(r = Inr () \<and> rolled_back_one uid idxs t t') \<or>
         (r = Inl kCouldNotRestartProxy \<and> pending t' uid = pending t uid)"
  using assms
proof (induction idxs arbitrary: r0 t s)
  case Nil
  then show ?case by simp
next
  case (Cons i idxs)
  let ?node = "proxy_transaction_logs t ! i"
  have i: "i < length (proxy_transaction_logs t)" "i \<in> set (pending t uid)"
    using Cons.prems(2) by (auto simp: pending_eq)
  from Cons.prems(1) i obtain r1 l s1 where
    roll: "RollbackProxyElementLog d u (node_log ?node) s = Some (r1, l, s1)"
    by (auto simp: contract_simps split: Option.bind_splits)
  from rollback_proxy_log_final [OF roll] show ?case
  proof (elim disjE conjE)
    assume ok: "r1 = Inr ()" and clean: "\<not> ContainsTransactions l"
    let ?n = "?node\<lparr>node_log := l, is_active := False, needs_rollback := False\<rparr>"
    have "r = Inr ()" and t': "t' = t\<lparr>proxy_transaction_logs := (proxy_transaction_logs t)[i := ?n]\<rparr>"
      using Cons.prems(1) i roll ok clean by (auto simp: contract_simps Reset_outcome)
    moreover have "pending t' uid = remove1 i (pending t uid)"
      by (rule pending_reset [OF i(2), where n = ?n]) (simp_all add: t')
    ultimately show ?thesis
      using i(1) clean by (auto simp: rolled_back_one_def)
  next
    assume err: "r1 = Inl kCouldNotRestartProxy"
    let ?t1 = "t\<lparr>proxy_transaction_logs := (proxy_transaction_logs t)[i := ?node\<lparr>node_log := l\<rparr>]\<rparr>"
    have rest: "RollbackProxyTransactions_loop d u idxs r1 ?t1 s1 = Some (r, t', s')"
      using Cons.prems(1) i roll err by (simp add: contract_simps)
    have same: "pending ?t1 uid = pending t uid"
      by (rule pending_set_log) simp
    show ?thesis
    proof (cases "idxs = []")
      case True
      with rest err same show ?thesis by simp
    next
      case False
      with Cons.IH [OF rest] Cons.prems(2) same show ?thesis
        by (auto simp: rolled_back_one_def)
    qed
  qed
qed

text \<open>
  One call of \<open>RollbackProxyTransactions\<close> resolves at most one log. With nothing
  pending for the uid it returns success and changes nothing. Otherwise it either succeeds,
  and then exactly one of the pending logs is freed, empty and no longer pending while the
  others stay pending; or it reports \<open>kCouldNotRestartProxy\<close> and all of them stay pending. (The
  comment at its declaration says that the first call rolls back all logs of the uid.)
\<close>

lemma rollback_resolves_one_log:
  assumes "RollbackProxyTransactions dereference unsubscribe uid t s = Some (r, t', s')"
  shows "if pending t uid = [] then r = Inr () \<and> t' = t \<and> s' = s
    else (r = Inr () \<and> length (pending t' uid) = length (pending t uid) - 1 \<and>
          rolled_back_one uid (pending t uid) t t') \<or>
         (r = Inl kCouldNotRestartProxy \<and> pending t' uid = pending t uid)"
proof (cases "pending t uid = []")
  case True
  with assms show ?thesis by (simp add: RollbackProxyTransactions_def)
next
  case False
  from rollback_set_loop [OF assms [unfolded RollbackProxyTransactions_def] _ False, of uid]
  have "(r = Inr () \<and> rolled_back_one uid (pending t uid) t t') \<or>
        (r = Inl kCouldNotRestartProxy \<and> pending t' uid = pending t uid)"
    by simp
  with False show ?thesis
    by (auto simp: rolled_back_one_def length_remove1)
qed

definition two_crashed_logs :: transaction_log_set where
  "two_crashed_logs =
     (let l = set_subscribe Held (Some 1) (TransactionLog 1);
          n = \<lparr>is_active = True, needs_rollback = True, node_id = 7, node_log = l\<rparr>
      in \<lparr>proxy_transaction_logs = [n, n], skeleton_tracing_transaction_log = TransactionLogNode 1\<rparr>)"

end
