(* ===== verification/Event_Data_Control.thy ===== *)
theory Event_Data_Control
  imports Atomic_World Event_Slot_Status Transaction_Log_Set
begin

text \<open>
  \<open>EventDataControl\<close> (event_data_control.h/.cpp): the lock-free control block of the slots of one
  event. The skeleton allocates slots for writing and marks them ready; proxies reference the
  newest samples and dereference them; each reference is also recorded in the transaction log
  of the proxy.

  The slot words live in a memory \<open>'c \<Rightarrow> u64 list\<close> that maps each control block to its
  \<open>state_slots_\<close> (two control blocks, QM and ASIL-B, share one address space in the composite);
  a control block is named by its address \<open>c :: 'c\<close>. All access is through the atomic operations
  of \<open>Atomic_World\<close>, so each operation runs under arbitrary interference. The performance
  counters of the class are static and atomic, and extend the world. A slot index is a \<open>nat\<close>:
  the constructor takes the number of slots as a \<open>uint16_t\<close>.
\<close>

subsection \<open>Memory\<close>

type_synonym 'c slot_memory = "'c \<Rightarrow> u64 list"

record 'c edc_world = "'c slot_memory world" +
  num_alloc_misses :: u64
  num_ref_misses :: u64
  num_alloc_retries :: u64
  num_ref_retries :: u64

definition get_slot :: "'c \<Rightarrow> nat \<Rightarrow> 'c slot_memory \<Rightarrow> u64" where
  "get_slot c i m = m c ! i"

definition put_slot :: "'c \<Rightarrow> nat \<Rightarrow> u64 \<Rightarrow> 'c slot_memory \<Rightarrow> 'c slot_memory" where
  "put_slot c i v m = m(c := (m c)[i := v])"

definition num_slots_of :: "'c \<Rightarrow> 'c edc_world \<Rightarrow> nat" where
  "num_slots_of c w = length (mem w c)"

definition load_slot :: "'c \<Rightarrow> nat \<Rightarrow> 'c edc_world \<Rightarrow> u64 \<times> 'c edc_world" where
  "load_slot c i w = atomic_load (get_slot c i) w"

definition store_slot :: "'c \<Rightarrow> nat \<Rightarrow> u64 \<Rightarrow> 'c edc_world \<Rightarrow> 'c edc_world" where
  "store_slot c i v w = atomic_store (put_slot c i v) w"

definition cas_slot :: "'c \<Rightarrow> nat \<Rightarrow> u64 \<Rightarrow> u64 \<Rightarrow> 'c edc_world \<Rightarrow> bool \<times> u64 \<times> 'c edc_world" where
  "cas_slot c i expected desired w =
     compare_exchange_weak (get_slot c i) (put_slot c i) expected desired w"

subsection \<open>Definitions\<close>

definition MAX_ALLOCATE_RETRIES :: nat where
  "MAX_ALLOCATE_RETRIES = 100"

definition MAX_REFERENCE_RETRIES :: nat where
  "MAX_REFERENCE_RETRIES = 100"

text \<open>The constructor: the slot words and the transaction logs of a new control block.\<close>

definition EventDataControl_slots :: "u16 \<Rightarrow> u64 list" where
  "EventDataControl_slots max_slots = replicate (unat max_slots) INVALID"

definition EventDataControl_logs :: "u16 \<Rightarrow> u8 \<Rightarrow> transaction_log_set run" where
  "EventDataControl_logs max_slots max_number_combined_subscribers =
     TransactionLogSet max_number_combined_subscribers (unat max_slots)"

fun FindOldestUnusedSlot_loop ::
    "'c \<Rightarrow> nat list \<Rightarrow> u32 \<Rightarrow> nat option \<Rightarrow> 'c edc_world \<Rightarrow> nat option \<times> 'c edc_world" where
  "FindOldestUnusedSlot_loop c [] oldest_time_stamp selected_index w = (selected_index, w)"
| "FindOldestUnusedSlot_loop c (current_index # idxs) oldest_time_stamp selected_index w =
     (let (status, w) = load_slot c current_index w
      in if IsInvalid status then (Some current_index, w)
         else if GetReferenceCount status = 0 \<and> \<not> IsInWriting status then
           (if GetTimeStamp status < oldest_time_stamp
            then FindOldestUnusedSlot_loop c idxs (GetTimeStamp status) (Some current_index) w
            else FindOldestUnusedSlot_loop c idxs oldest_time_stamp selected_index w)
         else FindOldestUnusedSlot_loop c idxs oldest_time_stamp selected_index w)"

definition FindOldestUnusedSlot :: "'c \<Rightarrow> 'c edc_world \<Rightarrow> nat option \<times> 'c edc_world" where
  "FindOldestUnusedSlot c w =
     FindOldestUnusedSlot_loop c [0..<num_slots_of c w] TIMESTAMP_MAX None w"

text \<open>One iteration of the retry loop; \<open>Some\<close> is the \<open>break\<close> after a successful exchange.\<close>

definition AllocateNextSlot_body :: "'c \<Rightarrow> 'c edc_world \<Rightarrow> (nat option \<times> 'c edc_world) run" where
  "AllocateNextSlot_body c w =
     (let (selected_index, w) = FindOldestUnusedSlot c w
      in case selected_index of
           None \<Rightarrow> Some (None, w)
         | Some i \<Rightarrow>
             (let (status, w) = load_slot c i w
              in if GetReferenceCount status \<noteq> 0 \<or> IsInWriting status then Some (None, w)
                 else let (ok, _, w) = cas_slot c i status (MarkInWriting 0) w
                      in if ok then Some (Some i, w) else Some (None, w)))"

definition AllocateNextSlot :: "'c \<Rightarrow> 'c edc_world \<Rightarrow> (nat option \<times> 'c edc_world) run" where
  "AllocateNextSlot c w = do {
     (selected_index, retry_counter, w) \<leftarrow>
       for_retry (AllocateNextSlot_body c) (MAX_ALLOCATE_RETRIES + 1) 0 w;
     let w = w\<lparr>num_alloc_retries := num_alloc_retries w + of_nat retry_counter\<rparr>;
     if retry_counter \<ge> MAX_ALLOCATE_RETRIES
     then Some (None, w\<lparr>num_alloc_misses := num_alloc_misses w + 1\<rparr>)
     else Some (selected_index, w) }"

definition EventReady :: "'c \<Rightarrow> nat \<Rightarrow> u32 \<Rightarrow> 'c edc_world \<Rightarrow> 'c edc_world" where
  "EventReady c slot_index time_stamp w =
     store_slot c slot_index (EventSlotStatus time_stamp 0) w"

definition Discard :: "'c \<Rightarrow> nat \<Rightarrow> 'c edc_world \<Rightarrow> 'c edc_world" where
  "Discard c slot_index w =
     (let (slot, w) = load_slot c slot_index w
      in if IsInWriting slot then store_slot c slot_index (MarkInvalid slot) w else w)"

definition ReferenceSpecificEvent_body ::
    "'c \<Rightarrow> nat \<Rightarrow> transaction_log \<times> 'c edc_world \<Rightarrow> (bool option \<times> transaction_log \<times> 'c edc_world) run" where
  "ReferenceSpecificEvent_body c slot_index = (\<lambda>(transaction_log, w).
     let (slot_current_status, w) = load_slot c slot_index w
     in if IsInWriting slot_current_status \<or> IsInvalid slot_current_status
        then Some (Some False, transaction_log, w)
        else let slot_new_status = slot_current_status + 1
             in if GetReferenceCount slot_new_status = 0
                then Some (Some False, transaction_log, w)
                else do {
                  transaction_log \<leftarrow> ReferenceTransactionBegin slot_index transaction_log;
                  let (ok, _, w) = cas_slot c slot_index slot_current_status slot_new_status w;
                  if ok then do {
                    transaction_log \<leftarrow> ReferenceTransactionCommit slot_index transaction_log;
                    Some (Some True, transaction_log, w) }
                  else do {
                    transaction_log \<leftarrow> ReferenceTransactionAbort slot_index transaction_log;
                    Some (None, transaction_log, w) } })"

definition ReferenceSpecificEvent ::
    "'c \<Rightarrow> nat \<Rightarrow> nat \<Rightarrow> transaction_log_set \<Rightarrow> 'c edc_world \<Rightarrow>
     (bool \<times> transaction_log_set \<times> 'c edc_world) run" where
  "ReferenceSpecificEvent c slot_index transaction_log_index t w = do {
     transaction_log \<leftarrow> GetTransactionLog transaction_log_index t;
     (r, _, transaction_log, w) \<leftarrow>
       for_retry (ReferenceSpecificEvent_body c slot_index) MAX_REFERENCE_RETRIES 0
         (transaction_log, w);
     Some (case r of None \<Rightarrow> False | Some b \<Rightarrow> b,
           PutTransactionLog transaction_log_index transaction_log t, w) }"

text \<open>
  The scan of \<open>ReferenceNextEvent\<close> keeps the newest slot seen so far as the candidate. The loop
  around it has two exits: \<open>return {}\<close> when no sample lies in the range, and \<open>break\<close> once the
  candidate's count has been raised.
\<close>

fun ReferenceNextEvent_scan ::
    "'c \<Rightarrow> nat list \<Rightarrow> u32 \<Rightarrow> nat option \<Rightarrow> u64 \<Rightarrow> 'c edc_world \<Rightarrow> nat option \<times> u64 \<times> 'c edc_world" where
  "ReferenceNextEvent_scan c [] upper_limit possible_index candidate w = (possible_index, candidate, w)"
| "ReferenceNextEvent_scan c (current_index # idxs) upper_limit possible_index candidate w =
     (let (slot_status, w) = load_slot c current_index w
      in if IsTimeStampBetween slot_status (GetTimeStamp candidate) upper_limit
         then ReferenceNextEvent_scan c idxs upper_limit (Some current_index) slot_status w
         else ReferenceNextEvent_scan c idxs upper_limit possible_index candidate w)"

datatype reference_exit = ReturnEmpty | BreakWith nat

definition ReferenceNextEvent_body ::
    "'c \<Rightarrow> u32 \<Rightarrow> u32 \<Rightarrow> transaction_log \<times> 'c edc_world \<Rightarrow>
     (reference_exit option \<times> transaction_log \<times> 'c edc_world) run" where
  "ReferenceNextEvent_body c last_search_time upper_limit = (\<lambda>(transaction_log, w).
     let (possible_index, candidate, w) =
       ReferenceNextEvent_scan c [0..<num_slots_of c w] upper_limit None
         (EventSlotStatus last_search_time 0) w
     in case possible_index of
          None \<Rightarrow> Some (Some ReturnEmpty, transaction_log, w)
        | Some i \<Rightarrow> do {
            transaction_log \<leftarrow> ReferenceTransactionBegin i transaction_log;
            let (ok, _, w) = cas_slot c i candidate (candidate + 1) w;
            if ok then do {
              transaction_log \<leftarrow> ReferenceTransactionCommit i transaction_log;
              Some (Some (BreakWith i), transaction_log, w) }
            else do {
              transaction_log \<leftarrow> ReferenceTransactionAbort i transaction_log;
              Some (None, transaction_log, w) } })"

definition ReferenceNextEvent ::
    "'c \<Rightarrow> u32 \<Rightarrow> nat \<Rightarrow> u32 \<Rightarrow> transaction_log_set \<Rightarrow> 'c edc_world \<Rightarrow>
     (nat option \<times> transaction_log_set \<times> 'c edc_world) run" where
  "ReferenceNextEvent c last_search_time transaction_log_index upper_limit t w = do {
     transaction_log \<leftarrow> GetTransactionLog transaction_log_index t;
     (exit, counter, transaction_log, w) \<leftarrow>
       for_retry (ReferenceNextEvent_body c last_search_time upper_limit) MAX_REFERENCE_RETRIES 0
         (transaction_log, w);
     let t = PutTransactionLog transaction_log_index transaction_log t;
     (case exit of
        Some ReturnEmpty \<Rightarrow> Some (None, t, w)
      | _ \<Rightarrow>
          let w = w\<lparr>num_ref_retries := num_ref_retries w + of_nat counter\<rparr>;
              possible_index = (case exit of Some (BreakWith i) \<Rightarrow> Some i | _ \<Rightarrow> None)
          in if counter < MAX_REFERENCE_RETRIES then Some (possible_index, t, w)
             else Some (None, t, w\<lparr>num_ref_misses := num_ref_misses w + 1\<rparr>)) }"

fun GetNumNewEvents_loop :: "'c \<Rightarrow> nat list \<Rightarrow> u32 \<Rightarrow> nat \<Rightarrow> 'c edc_world \<Rightarrow> nat \<times> 'c edc_world" where
  "GetNumNewEvents_loop c [] reference_time result w = (result, w)"
| "GetNumNewEvents_loop c (i # idxs) reference_time result w =
     (let (slot_status, w) = load_slot c i w
      in if IsTimeStampBetween slot_status reference_time TIMESTAMP_MAX
         then GetNumNewEvents_loop c idxs reference_time (result + 1) w
         else GetNumNewEvents_loop c idxs reference_time result w)"

definition GetNumNewEvents :: "'c \<Rightarrow> u32 \<Rightarrow> 'c edc_world \<Rightarrow> nat \<times> 'c edc_world" where
  "GetNumNewEvents c reference_time w =
     GetNumNewEvents_loop c [0..<num_slots_of c w] reference_time 0 w"

text \<open>\<open>fetch_sub(1)\<close> wraps around at 0, as the atomic does.\<close>

definition DereferenceEventWithoutTransactionLogging :: "'c \<Rightarrow> nat \<Rightarrow> 'c edc_world \<Rightarrow> 'c edc_world" where
  "DereferenceEventWithoutTransactionLogging c event_slot_index w =
     atomic_store (\<lambda>m. put_slot c event_slot_index (get_slot c event_slot_index m - 1) m) w"

definition DereferenceEvent ::
    "'c \<Rightarrow> nat \<Rightarrow> nat \<Rightarrow> transaction_log_set \<Rightarrow> 'c edc_world \<Rightarrow> (transaction_log_set \<times> 'c edc_world) run" where
  "DereferenceEvent c event_slot_index transaction_log_index t w = do {
     transaction_log \<leftarrow> GetTransactionLog transaction_log_index t;
     transaction_log \<leftarrow> DereferenceTransactionBegin event_slot_index transaction_log;
     let w = DereferenceEventWithoutTransactionLogging c event_slot_index w;
     transaction_log \<leftarrow> DereferenceTransactionCommit event_slot_index transaction_log;
     Some (PutTransactionLog transaction_log_index transaction_log t, w) }"

definition slot_at :: "'c \<Rightarrow> nat \<Rightarrow> 'c edc_world \<Rightarrow> u64 \<times> 'c edc_world" where
  "slot_at c slot_index w = load_slot c slot_index w"

fun RemoveAllocationsForWriting_loop :: "'c \<Rightarrow> nat list \<Rightarrow> 'c edc_world \<Rightarrow> 'c edc_world run" where
  "RemoveAllocationsForWriting_loop c [] w = Some w"
| "RemoveAllocationsForWriting_loop c (i # idxs) w =
     (let (status, w) = load_slot c i w
      in if IsInWriting status then
           (let (ok, _, w) = cas_slot c i status INVALID w
            in if \<not> ok then None else RemoveAllocationsForWriting_loop c idxs w)
         else RemoveAllocationsForWriting_loop c idxs w)"

definition RemoveAllocationsForWriting :: "'c \<Rightarrow> 'c edc_world \<Rightarrow> 'c edc_world run" where
  "RemoveAllocationsForWriting c w = RemoveAllocationsForWriting_loop c [0..<num_slots_of c w] w"

definition ResetPerformanceCounters :: "'c edc_world \<Rightarrow> 'c edc_world" where
  "ResetPerformanceCounters w =
     w\<lparr>num_alloc_misses := 0, num_ref_misses := 0, num_alloc_retries := 0, num_ref_retries := 0\<rparr>"

end
