(* ===== verification/Slot_Allocation.thy ===== *)
theory Slot_Allocation
  imports Event_Data_Control
begin

text \<open>
  The writer's side of \<open>EventDataControl\<close>: what \<open>FindOldestUnusedSlot\<close>, \<open>AllocateNextSlot\<close>,
  \<open>EventReady\<close>, \<open>Discard\<close> and \<open>RemoveAllocationsForWriting\<close> do, first under arbitrary
  interference (the environment acts within a relation \<open>R\<close>), then exactly when nothing
  interferes.
\<close>

subsection \<open>Memory access\<close>

lemma get_put_slot:
  "i < length (m c) \<Longrightarrow> get_slot c' j (put_slot c i v m) =
     (if c' = c \<and> j = i then v else get_slot c' j m)"
  by (auto simp: get_slot_def put_slot_def nth_list_update)

lemma length_put_slot [simp]: "length (put_slot c i v m c') = length (m c')"
  by (simp add: put_slot_def)

lemma num_slots_of_put [simp]: "num_slots_of c' (w\<lparr>mem := put_slot c i v (mem w)\<rparr>) = num_slots_of c' w"
  by (simp add: num_slots_of_def)

lemma put_slot_same: "i < length (m c) \<Longrightarrow> put_slot c i (m c ! i) m = m"
  by (simp add: put_slot_def)

lemma evolves_load_slot: "rely R w \<Longrightarrow> load_slot c i w = (v, w') \<Longrightarrow> evolves R w w'"
  unfolding load_slot_def by (rule evolves_atomic_load)

lemma load_slot_quiet [simp]: "quiet w \<Longrightarrow> load_slot c i w = (mem w c ! i, w)"
  by (simp add: load_slot_def get_slot_def)

lemma store_slot_quiet [simp]: "quiet w \<Longrightarrow> store_slot c i v w = w\<lparr>mem := put_slot c i v (mem w)\<rparr>"
  by (simp add: store_slot_def)

lemma cas_slot_quiet [simp]:
  "quiet w \<Longrightarrow> cas_slot c i e d w =
     (if mem w c ! i = e then (True, e, w\<lparr>mem := put_slot c i d (mem w)\<rparr>)
      else (False, mem w c ! i, w))"
  by (simp add: cas_slot_def get_slot_def)

text \<open>A slot operation either leaves the memory to the environment or is one put at one moment.\<close>

lemma cas_slot_cases:
  assumes "cas_slot c i e d w = (ok, e', w')" and "rely R w"
  obtains (success) m where "ok" and "R\<^sup>*\<^sup>* (mem w) m" and "m c ! i = e"
      and "mem w' = put_slot c i d m" and "rely R w'"
    | (failure) "\<not> ok" and "evolves R w w'"
  using assms(1) [unfolded cas_slot_def]
proof (cases rule: compare_exchange_weak_cases)
  case (success b w1)
  from assms(2) success(2) have "evolves R w w1" by (rule evolves_advance)
  with success show thesis
    by (intro that(1) [of "mem w1"]) (auto simp: evolves_def get_slot_def)
next
  case (failure b)
  with assms(2) show thesis by (intro that(2)) (auto intro: evolves_advance)
qed

definition keeps_size :: "'c \<Rightarrow> ('c slot_memory \<Rightarrow> 'c slot_memory \<Rightarrow> bool) \<Rightarrow> bool" where
  "keeps_size c R \<longleftrightarrow> (\<forall>m m'. R m m' \<longrightarrow> length (m' c) = length (m c))"

lemma keeps_size_steps: "R\<^sup>*\<^sup>* m m' \<Longrightarrow> keeps_size c R \<Longrightarrow> length (m' c) = length (m c)"
  by (induction rule: rtranclp_induct) (auto simp: keeps_size_def)

lemma keeps_size_evolves:
  "keeps_size c R \<Longrightarrow> evolves R w w' \<Longrightarrow> num_slots_of c w' = num_slots_of c w"
  by (auto simp: num_slots_of_def evolves_def dest: keeps_size_steps)

subsection \<open>Allocation under interference\<close>

lemma FindOldestUnusedSlot_loop_interference:
  "FindOldestUnusedSlot_loop c idxs ts sel w = (r, w') \<Longrightarrow> rely R w \<Longrightarrow>
     evolves R w w' \<and> (r = sel \<or> (\<exists>i \<in> set idxs. r = Some i))"
proof (induction idxs arbitrary: ts sel w)
  case Nil
  then show ?case by (auto intro: evolves_refl)
next
  case (Cons i idxs)
  obtain v w1 where ld: "load_slot c i w = (v, w1)" by (cases "load_slot c i w")
  have e1: "evolves R w w1" using Cons.prems(2) ld by (rule evolves_load_slot)
  have step: "evolves R w w' \<and> (r = sel' \<or> (\<exists>j \<in> set idxs. r = Some j))"
    if "FindOldestUnusedSlot_loop c idxs ts' sel' w1 = (r, w')" for ts' sel'
    using Cons.IH [OF that evolves_rely [OF e1]] e1 by (auto intro: evolves_trans)
  show ?case
    using Cons.prems(1) ld e1 by (auto split: if_splits dest: step)
qed

lemma FindOldestUnusedSlot_interference:
  assumes "FindOldestUnusedSlot c w = (r, w')" and "rely R w"
  shows "evolves R w w'" and "r = Some i \<Longrightarrow> i < num_slots_of c w"
  using FindOldestUnusedSlot_loop_interference [OF assms(1) [unfolded FindOldestUnusedSlot_def] assms(2)]
  by auto

text \<open>One iteration: either nothing but interference, or the exchange at the moment \<open>m\<close>.\<close>

lemma AllocateNextSlot_body_cases:
  assumes "AllocateNextSlot_body c w = Some (r, w')" and "rely R w"
  obtains (again) "r = None" and "evolves R w w'"
    | (taken) i m where "r = Some i" and "i < num_slots_of c w" and "R\<^sup>*\<^sup>* (mem w) m"
      and "\<not> IsUsed (m c ! i)" and "mem w' = put_slot c i IN_WRITING m" and "rely R w'"
proof -
  obtain sel w1 where f: "FindOldestUnusedSlot c w = (sel, w1)" by (cases "FindOldestUnusedSlot c w")
  note e1 = FindOldestUnusedSlot_interference(1) [OF f assms(2)]
  show thesis
  proof (cases sel)
    case None
    with assms(1) f e1 show thesis by (intro again) (auto simp: AllocateNextSlot_body_def)
  next
    case (Some i)
    obtain v w2 where ld: "load_slot c i w1 = (v, w2)" by (cases "load_slot c i w1")
    have e2: "evolves R w w2"
      using evolves_load_slot [OF evolves_rely [OF e1] ld] e1 by (auto intro: evolves_trans)
    show thesis
    proof (cases "GetReferenceCount v \<noteq> 0 \<or> IsInWriting v")
      case True
      with assms(1) f Some ld e2 show thesis by (intro again) (auto simp: AllocateNextSlot_body_def)
    next
      case unused: False
      obtain ok e w3 where cas: "cas_slot c i v (MarkInWriting 0) w2 = (ok, e, w3)"
        by (metis prod_cases3)
      from cas evolves_rely [OF e2] show thesis
      proof (cases rule: cas_slot_cases)
        case (success m)
        have "i < num_slots_of c w"
          using FindOldestUnusedSlot_interference(2) [OF f assms(2)] Some by simp
        moreover have "R\<^sup>*\<^sup>* (mem w) m"
          using e2 success(2) by (auto simp: evolves_def)
        moreover have "r = Some i" "w' = w3"
          using assms(1) f Some ld unused cas success(1) by (auto simp: AllocateNextSlot_body_def)
        moreover have "\<not> IsUsed (m c ! i)"
          using unused success(3) by (simp add: IsUsed_def)
        ultimately show thesis
          using success(4,5) by (intro taken) (simp_all add: MarkInWriting_def)
      next
        case failure
        with assms(1) f Some ld unused cas e2 show thesis
          by (intro again) (auto simp: AllocateNextSlot_body_def intro: evolves_trans)
      qed
    qed
  qed
qed

interpretation allocation: bounded_retry "AllocateNextSlot_body c"
  "\<lambda>w. evolves R w0 w \<and> rely R w0 \<and> keeps_size c R"
  "\<lambda>i w. i < num_slots_of c w0 \<and>
     (\<exists>m. R\<^sup>*\<^sup>* (mem w0) m \<and> \<not> IsUsed (m c ! i) \<and> mem w = put_slot c i IN_WRITING m)"
  for c :: 'c and R and w0 :: "'c edc_world"
proof unfold_locales
  fix w w' :: "'c edc_world"
  assume "evolves R w0 w \<and> rely R w0 \<and> keeps_size c R" "AllocateNextSlot_body c w = Some (None, w')"
  then show "evolves R w0 w' \<and> rely R w0 \<and> keeps_size c R"
    by (auto elim!: AllocateNextSlot_body_cases intro: evolves_rely evolves_trans)
next
  fix w w' :: "'c edc_world" and i
  assume inv: "evolves R w0 w \<and> rely R w0 \<and> keeps_size c R"
    and b: "AllocateNextSlot_body c w = Some (Some i, w')"
  from inv have "rely R w" by (auto intro: evolves_rely)
  with b show "i < num_slots_of c w0 \<and>
     (\<exists>m. R\<^sup>*\<^sup>* (mem w0) m \<and> \<not> IsUsed (m c ! i) \<and> mem w' = put_slot c i IN_WRITING m)"
  proof (cases rule: AllocateNextSlot_body_cases)
    case again
    then show ?thesis by simp
  next
    case (taken j m)
    then have "R\<^sup>*\<^sup>* (mem w0) m" using inv by (auto simp: evolves_def)
    with taken inv show ?thesis by (auto simp: keeps_size_evolves)
  qed
qed

lemma AllocateNextSlot_Some:
  assumes "AllocateNextSlot c w = Some (Some i, w')"
  obtains k w1 where "for_retry (AllocateNextSlot_body c) (MAX_ALLOCATE_RETRIES + 1) 0 w = Some (Some i, k, w1)"
    and "k < MAX_ALLOCATE_RETRIES" and "mem w' = mem w1"
  using assms by (auto simp: AllocateNextSlot_def Let_def split: Option.bind_splits if_splits)

lemma AllocateNextSlot_takes:
  assumes "rely R w" and "keeps_size c R" and "AllocateNextSlot c w = Some (Some i, w')"
  shows "i < num_slots_of c w \<and>
    (\<exists>m. R\<^sup>*\<^sup>* (mem w) m \<and> \<not> IsUsed (m c ! i) \<and> mem w' = put_slot c i IN_WRITING m)"
  using assms(3)
proof (rule AllocateNextSlot_Some)
  fix k w1
  assume loop: "for_retry (AllocateNextSlot_body c) (MAX_ALLOCATE_RETRIES + 1) 0 w = Some (Some i, k, w1)"
    and m: "mem w' = mem w1"
  show ?thesis
    using allocation.loop_delivers [OF _ loop, of R w] assms(1,2) m
    by (simp add: evolves_refl)
qed

text \<open>
  Property C9: whatever the other participants do, a slot that \<open>AllocateNextSlot\<close> returns was
  taken by one atomic exchange: at a moment \<open>m\<close> that the environment's steps alone lead to, the
  slot had no reader and no writer, and the memory after the call is \<open>m\<close> with that one slot
  marked as in writing. So no two calls ever return the same slot before it is released, and
  no slot with readers is taken.
\<close>

theorem allocate_takes_an_unused_slot:
  assumes "rely R w" and "keeps_size c R" and "AllocateNextSlot c w = Some (Some i, w')"
  shows "i < num_slots_of c w \<and>
    (\<exists>m. R\<^sup>*\<^sup>* (mem w) m \<and> \<not> IsUsed (m c ! i) \<and> mem w' = put_slot c i IN_WRITING m)"
  using assms by (rule AllocateNextSlot_takes)

lemma AllocateNextSlot_body_total: "\<exists>r w'. AllocateNextSlot_body c w = Some (r, w')"
  by (auto simp: AllocateNextSlot_body_def Let_def split: prod.splits option.splits if_splits)

text \<open>The call always returns: the loop is bounded and nothing in it ends the process.\<close>

lemma AllocateNextSlot_returns: "\<exists>r w'. AllocateNextSlot c w = Some (r, w')"
proof -
  obtain r k w' where "for_retry (AllocateNextSlot_body c) (MAX_ALLOCATE_RETRIES + 1) 0 w = Some (r, k, w')"
    using for_retry_returns [of "AllocateNextSlot_body c" "MAX_ALLOCATE_RETRIES + 1" 0 w]
      AllocateNextSlot_body_total by metis
  then show ?thesis by (simp add: AllocateNextSlot_def Let_def)
qed

text \<open>A skeleton that allocates while a reader takes and gives back a reference to slot 0.\<close>

definition busy_reader_world :: "unit edc_world" where
  "busy_reader_world =
     \<lparr>mem = (\<lambda>_. [EventSlotStatus 1 0, EventSlotStatus 2 0]),
      sched = [Tick (put_slot () 0 (EventSlotStatus 1 1)) False, Tick id False, Tick id False,
               Tick (put_slot () 0 (EventSlotStatus 1 0)) False],
      num_alloc_misses = 0, num_ref_misses = 0, num_alloc_retries = 0, num_ref_retries = 0\<rparr>"

lemma load_slot_tick:
  "sched w = t # ts \<Longrightarrow>
     load_slot c i w = (get_slot c i (interfere t (mem w)), w\<lparr>mem := interfere t (mem w), sched := ts\<rparr>)"
  by (simp add: load_slot_def atomic_load_def advance_def)

lemma cas_slot_tick:
  "sched w = t # ts \<Longrightarrow>
     cas_slot c i e d w =
       (if \<not> spurious t \<and> get_slot c i (interfere t (mem w)) = e
        then (True, e, w\<lparr>mem := put_slot c i d (interfere t (mem w)), sched := ts\<rparr>)
        else (False, get_slot c i (interfere t (mem w)), w\<lparr>mem := interfere t (mem w), sched := ts\<rparr>))"
  by (simp add: cas_slot_def compare_exchange_weak_def advance_def)

lemmas slot_tick = load_slot_tick cas_slot_tick

theorem allocate_takes_an_unused_slot_witness:
  "\<exists>w'. AllocateNextSlot () busy_reader_world = Some (Some 1, w') \<and>
     (\<exists>m. \<not> IsUsed (m () ! 1) \<and> mem w' = put_slot () 1 IN_WRITING m)"
proof -
  have "AllocateNextSlot_body () busy_reader_world =
      Some (Some 1, busy_reader_world\<lparr>sched := [],
        mem := put_slot () 1 IN_WRITING (put_slot () 0 (EventSlotStatus 1 0)
          (put_slot () 0 (EventSlotStatus 1 1) (mem busy_reader_world)))\<rparr>)"
    by (simp add: AllocateNextSlot_body_def FindOldestUnusedSlot_def num_slots_of_def
        busy_reader_world_def slot_tick get_slot_def put_slot_def IsInvalid_iff IsInWriting_iff
        TIMESTAMP_MAX_def MarkInWriting_def)
  then have run: "\<exists>w'. AllocateNextSlot () busy_reader_world = Some (Some 1, w')"
    by (simp add: AllocateNextSlot_def for_retry_first Let_def MAX_ALLOCATE_RETRIES_def)
  have "rely (\<lambda>m m'. length (m' ()) = length (m ())) busy_reader_world"
    by (simp add: rely_def busy_reader_world_def)
  with run allocate_takes_an_unused_slot [of "\<lambda>m m'. length (m' ()) = length (m ())" busy_reader_world "()" 1]
  show ?thesis by (fastforce simp: keeps_size_def)
qed

subsection \<open>A slot can be lost on the last retry\<close>

text \<open>
  The loop runs while \<open>retry_counter <= MAX_ALLOCATE_RETRIES\<close> but its result is thrown away for
  \<open>retry_counter >= MAX_ALLOCATE_RETRIES\<close>. A success in the last iteration has marked a slot
  as in writing and then reports that no slot was found.
\<close>

definition failing_round :: "unit slot_memory tick list" where
  "failing_round = [Tick id False, Tick id False, Tick id True]"

definition contended_world :: "nat \<Rightarrow> unit edc_world" where
  "contended_world n =
     \<lparr>mem = (\<lambda>_. [INVALID]), sched = concat (replicate n failing_round),
      num_alloc_misses = 0, num_ref_misses = 0, num_alloc_retries = 0, num_ref_retries = 0\<rparr>"

lemma contended_round:
  "AllocateNextSlot_body () (contended_world (Suc n)) = Some (None, contended_world n)"
  by (simp add: AllocateNextSlot_body_def FindOldestUnusedSlot_def num_slots_of_def
      contended_world_def failing_round_def slot_tick get_slot_def)

lemma contended_last:
  "AllocateNextSlot_body () (contended_world 0) =
     Some (Some 0, (contended_world 0)\<lparr>mem := (\<lambda>_. [IN_WRITING])\<rparr>)"
  by (simp add: AllocateNextSlot_body_def FindOldestUnusedSlot_def num_slots_of_def
      contended_world_def put_slot_def MarkInWriting_def fun_upd_def)

lemma contended_passive: "list_all (\<lambda>t. interfere t = id) (sched (contended_world n))"
  by (induction n) (simp_all add: contended_world_def failing_round_def id_def)

lemma contended_loop:
  "for_retry (AllocateNextSlot_body ()) (Suc n) k (contended_world n) =
     Some (Some 0, k + n, (contended_world 0)\<lparr>mem := (\<lambda>_. [IN_WRITING])\<rparr>)"
proof (induction n arbitrary: k)
  case 0
  show ?case by (simp add: contended_last)
next
  case (Suc n)
  show ?case
    unfolding for_retry.simps(2) [of _ "Suc n"] contended_round using Suc.IH [of "Suc k"] by simp
qed

text \<open>
  There is a run in which the other participants never change a slot (100
  exchanges fail spuriously), the only slot is free, and \<open>AllocateNextSlot\<close> returns no slot
  although it has marked that slot as in writing: nobody owns it, and nobody frees it.
\<close>

lemma allocate_loses_slot_on_last_retry:
  "\<exists>w w' :: unit edc_world. list_all (\<lambda>t. interfere t = id) (sched w) \<and>
     \<not> IsUsed (mem w () ! 0) \<and>
     AllocateNextSlot () w = Some (None, w') \<and> IsInWriting (mem w' () ! 0)"
proof -
  let ?w = "contended_world 100"
  have "for_retry (AllocateNextSlot_body ()) (MAX_ALLOCATE_RETRIES + 1) 0 ?w =
      Some (Some 0, 100, (contended_world 0)\<lparr>mem := (\<lambda>_. [IN_WRITING])\<rparr>)"
    using contended_loop [of 100 0] by (simp add: MAX_ALLOCATE_RETRIES_def)
  then obtain w' where w': "AllocateNextSlot () ?w = Some (None, w')" "mem w' = (\<lambda>_. [IN_WRITING])"
    by (simp add: AllocateNextSlot_def MAX_ALLOCATE_RETRIES_def)
  have free: "\<not> IsUsed (mem ?w () ! 0)"
    by (simp add: contended_world_def)
  show ?thesis
    by (intro exI [of _ ?w] exI [of _ w'] conjI contended_passive free w'(1)) (simp add: w'(2))
qed

subsection \<open>Without interference\<close>

text \<open>
  Which slot is taken: the oldest unused one, the first of them if several are equally old. An
  invalid slot has timestamp 0 and so is older than every sample. A slot whose timestamp is
  \<open>TIMESTAMP_MAX\<close> is never taken again.
\<close>

definition reusable :: "u64 \<Rightarrow> bool" where
  "reusable d \<longleftrightarrow> \<not> IsUsed d \<and> GetTimeStamp d < TIMESTAMP_MAX"

definition oldest_among :: "u64 list \<Rightarrow> nat \<Rightarrow> u32 \<Rightarrow> nat option \<Rightarrow> bool" where
  "oldest_among ss k ts sel \<longleftrightarrow>
     (case sel of
        None \<Rightarrow> ts = TIMESTAMP_MAX \<and> (\<forall>j < k. \<not> reusable (ss ! j))
      | Some i \<Rightarrow> i < k \<and> reusable (ss ! i) \<and> ts = GetTimeStamp (ss ! i) \<and>
          (\<forall>j < k. reusable (ss ! j) \<longrightarrow> ts \<le> GetTimeStamp (ss ! j)) \<and>
          (\<forall>j < i. reusable (ss ! j) \<longrightarrow> ts < GetTimeStamp (ss ! j)))"

definition oldest_unused :: "u64 list \<Rightarrow> nat \<Rightarrow> bool" where
  "oldest_unused ss i \<longleftrightarrow>
     i < length ss \<and> reusable (ss ! i) \<and>
     (\<forall>j < length ss. reusable (ss ! j) \<longrightarrow> GetTimeStamp (ss ! i) \<le> GetTimeStamp (ss ! j)) \<and>
     (\<forall>j < i. reusable (ss ! j) \<longrightarrow> GetTimeStamp (ss ! i) < GetTimeStamp (ss ! j))"

lemma reusable_invalid: "IsInvalid d \<Longrightarrow> reusable d \<and> GetTimeStamp d = 0"
  by (auto simp: IsInvalid_def reusable_def TIMESTAMP_MAX_def)

lemma reusable_valid: "reusable d \<Longrightarrow> \<not> IsInvalid d \<Longrightarrow> 0 < GetTimeStamp d"
  by (auto simp: reusable_def not_IsUsed_iff IsInvalid_iff word_gt_0)

lemma oldest_among_next:
  assumes "oldest_among ss k ts sel"
  shows "oldest_among ss (Suc k)
    (if \<not> IsUsed (ss ! k) \<and> GetTimeStamp (ss ! k) < ts then GetTimeStamp (ss ! k) else ts)
    (if \<not> IsUsed (ss ! k) \<and> GetTimeStamp (ss ! k) < ts then Some k else sel)"
proof (cases sel)
  case None
  with assms show ?thesis
    by (auto simp: oldest_among_def reusable_def less_Suc_eq)
next
  case (Some i)
  have up: "t < TIMESTAMP_MAX" if "t < GetTimeStamp (ss ! i)" for t
    using that assms Some by (auto simp: oldest_among_def reusable_def intro: less_trans)
  show ?thesis
  proof (cases "\<not> IsUsed (ss ! k) \<and> GetTimeStamp (ss ! k) < ts")
    case True
    with assms Some up show ?thesis
      by (auto simp: oldest_among_def reusable_def less_Suc_eq intro: less_le_trans less_imp_le)
  next
    case False
    with assms Some show ?thesis
      by (auto simp: oldest_among_def reusable_def less_Suc_eq)
  qed
qed

lemma oldest_among_invalid:
  assumes "k < length ss" and "IsInvalid (ss ! k)" and "\<forall>j < k. \<not> IsInvalid (ss ! j)"
  shows "oldest_among ss (length ss) 0 (Some k)"
  using assms reusable_invalid [OF assms(2)] reusable_valid
  by (auto simp: oldest_among_def)

lemma FindOldest_quiet_loop:
  assumes "quiet w" and "k \<le> length (mem w c)" and "oldest_among (mem w c) k ts sel"
    and "\<forall>j < k. \<not> IsInvalid (mem w c ! j)"
  shows "\<exists>ts' sel'. FindOldestUnusedSlot_loop c [k..<length (mem w c)] ts sel w = (sel', w) \<and>
    oldest_among (mem w c) (length (mem w c)) ts' sel'"
  using assms(2-4)
proof (induction "length (mem w c) - k" arbitrary: k ts sel)
  case 0
  then show ?case by auto
next
  case (Suc n)
  then have k: "k < length (mem w c)" and split: "[k..<length (mem w c)] = k # [Suc k..<length (mem w c)]"
    by (auto simp: upt_conv_Cons)
  show ?case
  proof (cases "IsInvalid (mem w c ! k)")
    case True
    then show ?thesis
      using oldest_among_invalid [OF k] Suc.prems(3) assms(1) split by auto
  next
    case False
    with Suc.prems(3) have ni: "\<forall>j < Suc k. \<not> IsInvalid (mem w c ! j)"
      by (auto simp: less_Suc_eq)
    have "n = length (mem w c) - Suc k" "Suc k \<le> length (mem w c)"
      using Suc.hyps(2) k by auto
    from Suc.hyps(1) [OF this oldest_among_next [OF Suc.prems(2)] ni] False assms(1) split
    show ?thesis
      by (auto simp: IsUsed_def split: if_splits)
  qed
qed

lemma FindOldestUnusedSlot_quiet:
  assumes "quiet w"
  shows "\<exists>sel. FindOldestUnusedSlot c w = (sel, w) \<and>
    (case sel of None \<Rightarrow> \<forall>j < length (mem w c). \<not> reusable (mem w c ! j)
     | Some i \<Rightarrow> oldest_unused (mem w c) i)"
proof -
  have "oldest_among (mem w c) 0 TIMESTAMP_MAX None"
    by (simp add: oldest_among_def)
  from FindOldest_quiet_loop [OF assms _ this]
  obtain ts sel where "FindOldestUnusedSlot c w = (sel, w)"
    and "oldest_among (mem w c) (length (mem w c)) ts sel"
    by (auto simp: FindOldestUnusedSlot_def num_slots_of_def)
  then show ?thesis
    by (auto simp: oldest_among_def oldest_unused_def split: option.splits)
qed

lemma AllocateNextSlot_quiet:
  assumes "quiet w"
  shows "\<exists>sel w'. AllocateNextSlot c w = Some (sel, w') \<and> quiet w' \<and>
    (case sel of
       None \<Rightarrow> (\<forall>j < length (mem w c). \<not> reusable (mem w c ! j)) \<and> mem w' = mem w \<and>
         num_alloc_misses w' = num_alloc_misses w + 1
     | Some i \<Rightarrow> oldest_unused (mem w c) i \<and> mem w' = put_slot c i IN_WRITING (mem w) \<and>
         num_alloc_misses w' = num_alloc_misses w)"
proof -
  obtain sel where find: "FindOldestUnusedSlot c w = (sel, w)"
    and sel: "case sel of None \<Rightarrow> \<forall>j < length (mem w c). \<not> reusable (mem w c ! j)
       | Some i \<Rightarrow> oldest_unused (mem w c) i"
    using FindOldestUnusedSlot_quiet [OF assms] by blast
  show ?thesis
  proof (cases sel)
    case None
    with find have "AllocateNextSlot_body c w = Some (None, w)"
      by (simp add: AllocateNextSlot_body_def)
    then have "for_retry (AllocateNextSlot_body c) (MAX_ALLOCATE_RETRIES + 1) 0 w =
        Some (None, MAX_ALLOCATE_RETRIES + 1, w)"
      using for_retry_stuck [of "AllocateNextSlot_body c" w "MAX_ALLOCATE_RETRIES + 1" 0] by (metis add_0)
    with None sel assms show ?thesis
      by (simp add: AllocateNextSlot_def del: for_retry.simps)
  next
    case (Some i)
    with sel have "\<not> IsUsed (mem w c ! i)"
      by (simp add: oldest_unused_def reusable_def)
    with find Some assms have "AllocateNextSlot_body c w =
        Some (Some i, w\<lparr>mem := put_slot c i IN_WRITING (mem w)\<rparr>)"
      by (simp add: AllocateNextSlot_body_def IsUsed_def MarkInWriting_def)
    then show ?thesis
      using Some sel assms by (simp add: AllocateNextSlot_def for_retry_first MAX_ALLOCATE_RETRIES_def)
  qed
qed

text \<open>
  When nothing interferes, \<open>AllocateNextSlot\<close> takes the oldest unused slot (an
  invalid slot counts as oldest), the first one if several are equally old, changes that slot
  only, and counts no miss. It finds none exactly when no slot is reusable, and then changes no
  slot and counts one miss. A slot with the timestamp \<open>TIMESTAMP_MAX\<close> is not reusable.
\<close>

lemma allocate_takes_the_oldest_slot:
  assumes "quiet w"
  shows "\<exists>sel w'. AllocateNextSlot c w = Some (sel, w') \<and>
    (case sel of
       None \<Rightarrow> (\<forall>j < length (mem w c). \<not> reusable (mem w c ! j)) \<and> mem w' = mem w \<and>
         num_alloc_misses w' = num_alloc_misses w + 1
     | Some i \<Rightarrow> oldest_unused (mem w c) i \<and> mem w' = put_slot c i IN_WRITING (mem w) \<and>
         num_alloc_misses w' = num_alloc_misses w)"
  using AllocateNextSlot_quiet [OF assms, of c] by blast

definition idle_world :: "u64 list \<Rightarrow> unit edc_world" where
  "idle_world ss = \<lparr>mem = (\<lambda>_. ss), sched = [], num_alloc_misses = 0, num_ref_misses = 0,
     num_alloc_retries = 0, num_ref_retries = 0\<rparr>"

text \<open>The end of a writer's turn: publishing the slot, or giving it back.\<close>

lemma EventReady_quiet:
  "quiet w \<Longrightarrow> EventReady c i ts w = w\<lparr>mem := put_slot c i (EventSlotStatus ts 0) (mem w)\<rparr>"
  by (simp add: EventReady_def)

lemma Discard_quiet:
  "quiet w \<Longrightarrow> Discard c i w =
     (if IsInWriting (mem w c ! i) then w\<lparr>mem := put_slot c i INVALID (mem w)\<rparr> else w)"
  by (simp add: Discard_def MarkInvalid_def)

subsection \<open>Cleaning up after a crashed skeleton\<close>

definition withdraw :: "u64 \<Rightarrow> u64" where
  "withdraw s = (if IsInWriting s then INVALID else s)"

lemma RemoveAllocations_quiet_loop:
  assumes "quiet w" and "k \<le> length (mem w c)"
  shows "RemoveAllocationsForWriting_loop c [k..<length (mem w c)] w =
    Some (w\<lparr>mem := (mem w)(c := take k (mem w c) @ map withdraw (drop k (mem w c)))\<rparr>)"
  using assms
proof (induction "length (mem w c) - k" arbitrary: k w)
  case 0
  then show ?case by simp
next
  case (Suc n)
  then have k: "k < length (mem w c)" and split: "[k..<length (mem w c)] = k # [Suc k..<length (mem w c)]"
    and drop: "drop k (mem w c) = mem w c ! k # drop (Suc k) (mem w c)"
    by (auto simp: upt_conv_Cons Cons_nth_drop_Suc)
  have n: "n = length (mem w c) - Suc k" "Suc k \<le> length (mem w c)"
    using Suc.hyps(2) k by auto
  show ?case
  proof (cases "IsInWriting (mem w c ! k)")
    case True
    let ?w = "w\<lparr>mem := put_slot c k INVALID (mem w)\<rparr>"
    have len: "length (mem ?w c) = length (mem w c)" by simp
    have "RemoveAllocationsForWriting_loop c [Suc k..<length (mem w c)] ?w =
        Some (?w\<lparr>mem := (mem ?w)(c := take (Suc k) (mem ?w c) @ map withdraw (drop (Suc k) (mem ?w c)))\<rparr>)"
      using Suc.hyps(1) [of ?w "Suc k", unfolded len] n Suc.prems(1) by simp
    moreover have "take (Suc k) (mem ?w c) @ map withdraw (drop (Suc k) (mem ?w c))
        = take k (mem w c) @ map withdraw (drop k (mem w c))"
      using k True by (simp add: put_slot_def drop take_Suc_conv_app_nth withdraw_def)
    ultimately show ?thesis
      using True split Suc.prems(1) by (simp add: put_slot_def)
  next
    case False
    then have "take (Suc k) (mem w c) @ map withdraw (drop (Suc k) (mem w c))
        = take k (mem w c) @ map withdraw (drop k (mem w c))"
      using k by (simp add: drop take_Suc_conv_app_nth withdraw_def)
    with Suc.hyps(1) [OF n(1) Suc.prems(1) n(2)] False split Suc.prems(1) show ?thesis
      by simp
  qed
qed

text \<open>
  When nothing interferes and no exchange fails spuriously,
  \<open>RemoveAllocationsForWriting\<close> returns, invalidates exactly the slots the dead skeleton was
  writing and leaves every other slot, and every other control block, as it is.
\<close>

lemma remove_allocations_withdraws_writers:
  assumes "quiet w"
  shows "RemoveAllocationsForWriting c w = Some (w\<lparr>mem := (mem w)(c := map withdraw (mem w c))\<rparr>)"
  using RemoveAllocations_quiet_loop [OF assms, of 0 c]
  by (simp add: RemoveAllocationsForWriting_def num_slots_of_def)

text \<open>
  \<open>RemoveAllocationsForWriting\<close> uses \<open>compare_exchange_weak\<close> without a loop. When that
  exchange fails spuriously the process is terminated, although no other participant has changed
  any slot.
\<close>

lemma remove_allocations_spurious_failure:
  "\<exists>w :: unit edc_world. list_all (\<lambda>t. interfere t = id) (sched w) \<and>
     RemoveAllocationsForWriting () w = None"
proof -
  define w where "w = (idle_world [IN_WRITING])\<lparr>sched := [Tick id False, Tick id True]\<rparr>"
  have "RemoveAllocationsForWriting () w = None"
    by (simp add: w_def idle_world_def RemoveAllocationsForWriting_def num_slots_of_def slot_tick
        get_slot_def)
  moreover have "list_all (\<lambda>t. interfere t = id) (sched w)"
    by (simp add: w_def idle_world_def)
  ultimately show ?thesis by blast
qed

end
