(* ===== verification/Slot_Reference.thy ===== *)
theory Slot_Reference
  imports Slot_Allocation
begin

text \<open>
  The reader's side of \<open>EventDataControl\<close>: \<open>ReferenceNextEvent\<close>, \<open>ReferenceSpecificEvent\<close>,
  \<open>GetNumNewEvents\<close> and \<open>DereferenceEvent\<close>, together with the transaction log each of them
  writes. First what a call does under arbitrary interference (one increment at one moment, and
  the log entry that goes with it), then exactly what it does when nothing interferes. The
  control block is a dereference target in the sense of the rollback, which gives the effect of
  a rollback on the reference counts.
\<close>

subsection \<open>The scan\<close>

lemma load_slot_reached:
  assumes "load_slot c i w = (v, w')" and "rely R w"
  shows "evolves R w w'" and "v = mem w' c ! i"
proof -
  show "evolves R w w'" using assms(2,1) by (rule evolves_load_slot)
  show "v = mem w' c ! i"
    using atomic_load_value [OF assms(1) [unfolded load_slot_def]] by (simp add: get_slot_def)
qed

lemma between_trans:
  "IsTimeStampBetween d (GetTimeStamp e) hi \<Longrightarrow> IsTimeStampBetween e lo hi \<Longrightarrow> IsTimeStampBetween d lo hi"
  by (auto simp: IsTimeStampBetween_def)

lemma scan_interference:
  "ReferenceNextEvent_scan c idxs hi sel cand w = (sel', cand', w') \<Longrightarrow> rely R w \<Longrightarrow>
     evolves R w w' \<and>
     ((sel' = sel \<and> cand' = cand) \<or>
      (\<exists>i \<in> set idxs. \<exists>m. sel' = Some i \<and> R\<^sup>*\<^sup>* (mem w) m \<and> cand' = m c ! i \<and>
         IsTimeStampBetween cand' (GetTimeStamp cand) hi))"
proof (induction idxs arbitrary: sel cand w)
  case Nil
  then show ?case by (auto intro: evolves_refl)
next
  case (Cons i idxs)
  obtain v w1 where ld: "load_slot c i w = (v, w1)" by (cases "load_slot c i w")
  note reached = load_slot_reached [OF ld Cons.prems(2)]
  have r1: "rely R w1" using reached(1) by (rule evolves_rely)
  have m1: "R\<^sup>*\<^sup>* (mem w) (mem w1)" using reached(1) by (simp add: evolves_def)
  show ?case
  proof (cases "IsTimeStampBetween v (GetTimeStamp cand) hi")
    case True
    with Cons.prems(1) ld have "ReferenceNextEvent_scan c idxs hi (Some i) v w1 = (sel', cand', w')"
      by simp
    from Cons.IH [OF this r1] show ?thesis
    proof (elim conjE disjE bexE exE)
      assume e: "evolves R w1 w'" and sel: "sel' = Some i" "cand' = v"
      have "evolves R w w'" using reached(1) e by (rule evolves_trans)
      with True reached(2) m1 sel show ?thesis by auto
    next
      fix j m
      assume e: "evolves R w1 w'" and j: "j \<in> set idxs" "sel' = Some j" and m: "R\<^sup>*\<^sup>* (mem w1) m"
        and v: "cand' = m c ! j" and b: "IsTimeStampBetween cand' (GetTimeStamp v) hi"
      have "evolves R w w'" using reached(1) e by (rule evolves_trans)
      moreover have "R\<^sup>*\<^sup>* (mem w) m" using m1 m by (rule rtranclp_trans)
      moreover have "IsTimeStampBetween cand' (GetTimeStamp cand) hi" using b True by (rule between_trans)
      ultimately show ?thesis using j v by auto
    qed
  next
    case False
    with Cons.prems(1) ld have "ReferenceNextEvent_scan c idxs hi sel cand w1 = (sel', cand', w')"
      by simp
    from Cons.IH [OF this r1] have e: "evolves R w1 w'"
      and out: "(sel' = sel \<and> cand' = cand) \<or>
        (\<exists>i \<in> set idxs. \<exists>m. sel' = Some i \<and> R\<^sup>*\<^sup>* (mem w1) m \<and> cand' = m c ! i \<and>
           IsTimeStampBetween cand' (GetTimeStamp cand) hi)"
      by simp_all
    have "evolves R w w'" using reached(1) e by (rule evolves_trans)
    moreover have "R\<^sup>*\<^sup>* (mem w) m" if "R\<^sup>*\<^sup>* (mem w1) m" for m
      using m1 that by (rule rtranclp_trans)
    ultimately show ?thesis using out by auto
  qed
qed

subsection \<open>One attempt to take a reference\<close>

text \<open>
  An attempt on slot \<open>i\<close>, seen with the word \<open>v\<close>: begin the log entry, exchange, then commit or
  abort. Both \<open>ReferenceNextEvent\<close> and \<open>ReferenceSpecificEvent\<close> do this; it ends the process
  when the log already holds the slot.
\<close>

lemma attempt_cases:
  assumes attempt: "do {
      l1 \<leftarrow> ReferenceTransactionBegin i l;
      let (ok, _, w1) = cas_slot c i v (v + 1) w;
      if ok then do { l2 \<leftarrow> ReferenceTransactionCommit i l1; Some (Some (yes i), l2, w1) }
      else do { l2 \<leftarrow> ReferenceTransactionAbort i l1; Some (None, l2, w1) } } = Some (r, l', w')"
    and "rely R w"
  obtains (again) "r = None" and "l' = l" and "evolves R w w'"
    | (taken) m where "r = Some (yes i)" and "R\<^sup>*\<^sup>* (mem w) m" and "m c ! i = v"
      and "mem w' = put_slot c i (v + 1) m" and "rely R w'"
      and "i < num_slots l" and "slot_phase l i = Free" and "l' = set_phase i Held l"
proof -
  obtain ok e w1 where cas: "cas_slot c i v (v + 1) w = (ok, e, w1)" by (metis prod_cases3)
  have free: "i < num_slots l" "slot_phase l i = Free"
    using attempt by (auto simp: log_defs split: Option.bind_splits if_splits)
  from cas assms(2) show thesis
  proof (cases rule: cas_slot_cases)
    case (success m)
    with attempt cas free show thesis
      by (intro taken [of m]) (simp_all add: log_defs)
  next
    case failure
    with attempt cas free show thesis
      by (intro again) (simp_all add: log_defs set_phase_same)
  qed
qed

lemma attempt_returns:
  assumes "i < num_slots l" and "slot_phase l i = Free"
  shows "\<exists>r l' w'. do {
      l1 \<leftarrow> ReferenceTransactionBegin i l;
      let (ok, _, w1) = cas_slot c i v (v + 1) w;
      if ok then do { l2 \<leftarrow> ReferenceTransactionCommit i l1; Some (Some (yes i), l2, w1) }
      else do { l2 \<leftarrow> ReferenceTransactionAbort i l1; Some (None, l2, w1) } } = Some (r, l', w')"
  using assms by (auto simp: log_defs split: prod.splits)

subsection \<open>ReferenceNextEvent under interference\<close>

lemma ReferenceNextEvent_body_cases:
  assumes "ReferenceNextEvent_body c lo hi (l, w) = Some (r, l', w')" and "rely R w"
  obtains (empty) "r = Some ReturnEmpty" and "l' = l" and "evolves R w w'"
    | (again) "r = None" and "l' = l" and "evolves R w w'"
    | (taken) i m where "r = Some (BreakWith i)" and "i < num_slots_of c w" and "R\<^sup>*\<^sup>* (mem w) m"
      and "IsTimeStampBetween (m c ! i) lo hi" and "mem w' = put_slot c i (m c ! i + 1) m"
      and "rely R w'" and "i < num_slots l" and "slot_phase l i = Free" and "l' = set_phase i Held l"
proof -
  obtain sel cand w1 where scan: "ReferenceNextEvent_scan c [0..<num_slots_of c w] hi None
      (EventSlotStatus lo 0) w = (sel, cand, w1)"
    by (metis prod_cases3)
  note scanned = scan_interference [OF scan assms(2)]
  show thesis
  proof (cases sel)
    case None
    with assms(1) scan scanned show thesis
      by (intro empty) (auto simp: ReferenceNextEvent_body_def)
  next
    case (Some i)
    with scanned have i: "i < num_slots_of c w" and between: "IsTimeStampBetween cand lo hi"
      and e1: "evolves R w w1"
      by auto
    have r1: "rely R w1" using e1 by (rule evolves_rely)
    have attempt: "do {
      l1 \<leftarrow> ReferenceTransactionBegin i l;
      let (ok, _, w1) = cas_slot c i cand (cand + 1) w1;
      if ok then do { l2 \<leftarrow> ReferenceTransactionCommit i l1; Some (Some (BreakWith i), l2, w1) }
      else do { l2 \<leftarrow> ReferenceTransactionAbort i l1; Some (None, l2, w1) } } = Some (r, l', w')"
      using assms(1) scan Some by (simp add: ReferenceNextEvent_body_def)
    from attempt r1 show thesis
    proof (cases rule: attempt_cases)
      case again
      with e1 show thesis by (intro that(2)) (auto intro: evolves_trans)
    next
      case (taken m)
      moreover from taken e1 have "R\<^sup>*\<^sup>* (mem w) m" by (auto simp: evolves_def)
      ultimately show thesis using i between by (intro that(3) [of i m]) simp_all
    qed
  qed
qed

text \<open>What one call took: slot \<open>i\<close>, at the moment \<open>m\<close>, with a sample in the range.\<close>

definition took_reference ::
    "'c \<Rightarrow> nat \<Rightarrow> 'c slot_memory \<Rightarrow> 'c edc_world \<Rightarrow> transaction_log \<Rightarrow> transaction_log \<Rightarrow> bool" where
  "took_reference c i m w' l l' \<longleftrightarrow>
     mem w' = put_slot c i (m c ! i + 1) m \<and> i < num_slots l \<and> slot_phase l i = Free \<and>
     l' = set_phase i Held l"

interpretation next_reference: bounded_retry "ReferenceNextEvent_body c lo hi"
  "\<lambda>(l, w). l = l0 \<and> evolves R w0 w \<and> rely R w0 \<and> keeps_size c R"
  "\<lambda>exit (l, w).
     case exit of
       ReturnEmpty \<Rightarrow> l = l0 \<and> evolves R w0 w
     | BreakWith i \<Rightarrow> rely R w \<and> i < num_slots_of c w0 \<and> (\<exists>m. R\<^sup>*\<^sup>* (mem w0) m \<and>
         IsTimeStampBetween (m c ! i) lo hi \<and> took_reference c i m w l0 l)"
  for c :: 'c and lo hi R and l0 :: transaction_log and w0 :: "'c edc_world"
proof unfold_locales
  fix s s' :: "transaction_log \<times> 'c edc_world"
  assume inv: "case s of (l, w) \<Rightarrow> l = l0 \<and> evolves R w0 w \<and> rely R w0 \<and> keeps_size c R"
    and b: "ReferenceNextEvent_body c lo hi s = Some (None, s')"
  obtain l w where s: "s = (l, w)" by (cases s)
  obtain l' w' where s': "s' = (l', w')" by (cases s')
  from inv s have r: "rely R w" by (auto intro: evolves_rely)
  from b [unfolded s s'] r show "case s' of (l, w) \<Rightarrow> l = l0 \<and> evolves R w0 w \<and> rely R w0 \<and> keeps_size c R"
    by (cases rule: ReferenceNextEvent_body_cases) (use inv s s' in \<open>auto intro: evolves_trans\<close>)
next
  fix s s' :: "transaction_log \<times> 'c edc_world" and exit
  assume inv: "case s of (l, w) \<Rightarrow> l = l0 \<and> evolves R w0 w \<and> rely R w0 \<and> keeps_size c R"
    and b: "ReferenceNextEvent_body c lo hi s = Some (Some exit, s')"
  obtain l w where s: "s = (l, w)" by (cases s)
  obtain l' w' where s': "s' = (l', w')" by (cases s')
  from inv s have inv': "l = l0" "evolves R w0 w" "rely R w" "keeps_size c R"
    by (auto intro: evolves_rely)
  from b [unfolded s s'] inv'(3) show "case s' of (l, w) \<Rightarrow>
     (case exit of
       ReturnEmpty \<Rightarrow> l = l0 \<and> evolves R w0 w
     | BreakWith i \<Rightarrow> rely R w \<and> i < num_slots_of c w0 \<and> (\<exists>m. R\<^sup>*\<^sup>* (mem w0) m \<and>
         IsTimeStampBetween (m c ! i) lo hi \<and> took_reference c i m w l0 l))"
  proof (cases rule: ReferenceNextEvent_body_cases)
    case empty
    with inv' s' show ?thesis by (auto intro: evolves_trans)
  next
    case again
    then show ?thesis by simp
  next
    case (taken i m)
    from inv' taken have "R\<^sup>*\<^sup>* (mem w0) m" by (auto simp: evolves_def)
    with inv' s' taken show ?thesis
      by (auto simp: took_reference_def keeps_size_evolves)
  qed
qed

definition reference_outcome ::
    "('c slot_memory \<Rightarrow> 'c slot_memory \<Rightarrow> bool) \<Rightarrow> 'c \<Rightarrow> u32 \<Rightarrow> u32 \<Rightarrow> nat \<Rightarrow> nat option \<Rightarrow>
     transaction_log_set \<Rightarrow> 'c edc_world \<Rightarrow> transaction_log_set \<Rightarrow> 'c edc_world \<Rightarrow> bool" where
  "reference_outcome R c lo hi k sel t w t' w' \<longleftrightarrow>
     rely R w' \<and> (\<forall>j. j \<noteq> k \<longrightarrow> GetTransactionLog j t' = GetTransactionLog j t) \<and>
     (case sel of
        None \<Rightarrow> GetTransactionLog k t' = GetTransactionLog k t \<and> R\<^sup>*\<^sup>* (mem w) (mem w')
      | Some i \<Rightarrow> i < num_slots_of c w \<and> (\<exists>m l l'. R\<^sup>*\<^sup>* (mem w) m \<and>
          IsTimeStampBetween (m c ! i) lo hi \<and> GetTransactionLog k t = Some l \<and>
          GetTransactionLog k t' = Some l' \<and> took_reference c i m w' l l'))"

lemma ReferenceNextEvent_outcome:
  assumes "rely R w" and "keeps_size c R" and "ReferenceNextEvent c lo k hi t w = Some (sel, t', w')"
  shows "reference_outcome R c lo hi k sel t w t' w'"
proof -
  obtain l where l: "GetTransactionLog k t = Some l"
    using assms(3) by (auto simp: ReferenceNextEvent_def split: Option.bind_splits)
  obtain exit n l' w1 where loop: "for_retry (ReferenceNextEvent_body c lo hi) MAX_REFERENCE_RETRIES 0 (l, w)
      = Some (exit, n, l', w1)"
    using assms(3) l by (auto simp: ReferenceNextEvent_def split: Option.bind_splits)
  have t': "t' = PutTransactionLog k l' t" and m': "mem w' = mem w1" "rely R w' = rely R w1"
    and sel: "sel = (case exit of Some (BreakWith i) \<Rightarrow> Some i | _ \<Rightarrow> None)"
    using assms(3) l loop for_retry_counter [OF loop]
    by (auto simp: ReferenceNextEvent_def Let_def rely_def split: option.splits reference_exit.splits if_splits)
  have logs: "GetTransactionLog k t' = Some l'" "j \<noteq> k \<Longrightarrow> GetTransactionLog j t' = GetTransactionLog j t" for j
    using l t' by (simp_all add: logs.get_put)
  have start: "case (l, w) of (l1, w1) \<Rightarrow> l1 = l \<and> evolves R w w1 \<and> rely R w \<and> keeps_size c R"
    using assms(1,2) by (simp add: evolves_refl)
  show ?thesis
  proof (cases exit)
    case None
    from next_reference.loop_exhausted [OF start loop [unfolded None]] None sel logs l m'
    show ?thesis by (auto simp: reference_outcome_def evolves_def)
  next
    case (Some e)
    from next_reference.loop_delivers [OF start loop [unfolded Some]] Some sel logs l m'
    show ?thesis
      by (cases e) (auto simp: reference_outcome_def evolves_def took_reference_def)
  qed
qed

text \<open>
  Property C10: whatever the other participants do, a call of \<open>ReferenceNextEvent\<close> that returns
  either changes neither a slot nor a log, or it has added exactly one to the count of the slot
  it returns, by one exchange at a moment when that slot held a sample of the searched time
  range, and the log of the caller (and no other log) went from free to held for that slot. So
  count and log never disagree after the call.
\<close>

theorem reference_next_event_is_logged:
  assumes "rely R w" and "keeps_size c R" and "ReferenceNextEvent c lo k hi t w = Some (sel, t', w')"
  shows "reference_outcome R c lo hi k sel t w t' w'"
  using assms by (rule ReferenceNextEvent_outcome)

text \<open>
  When the call returns: if no slot the log already records can show a sample of the searched
  range, the log's contracts hold on every iteration and the bounded loop ends.
\<close>

definition log_admits ::
    "('c slot_memory \<Rightarrow> 'c slot_memory \<Rightarrow> bool) \<Rightarrow> 'c \<Rightarrow> u32 \<Rightarrow> u32 \<Rightarrow> 'c edc_world \<Rightarrow> transaction_log \<Rightarrow> bool" where
  "log_admits R c lo hi w l \<longleftrightarrow>
     (\<forall>m i. R\<^sup>*\<^sup>* (mem w) m \<and> i < num_slots_of c w \<and> IsTimeStampBetween (m c ! i) lo hi \<longrightarrow>
        i < num_slots l \<and> slot_phase l i = Free)"

lemma log_admits_evolves:
  assumes "log_admits R c lo hi w l" and "evolves R w w'" and "keeps_size c R"
  shows "log_admits R c lo hi w' l"
proof -
  have "R\<^sup>*\<^sup>* (mem w) m" if "R\<^sup>*\<^sup>* (mem w') m" for m
    using assms(2) that unfolding evolves_def by (blast intro: rtranclp_trans)
  moreover have "num_slots_of c w' = num_slots_of c w"
    using assms(3,2) by (rule keeps_size_evolves)
  ultimately show ?thesis
    using assms(1) unfolding log_admits_def by (simp only:) blast
qed

lemma ReferenceNextEvent_body_returns:
  assumes "rely R w" and "log_admits R c lo hi w l"
  shows "\<exists>r l' w'. ReferenceNextEvent_body c lo hi (l, w) = Some (r, l', w')"
proof -
  obtain sel cand w1 where scan: "ReferenceNextEvent_scan c [0..<num_slots_of c w] hi None
      (EventSlotStatus lo 0) w = (sel, cand, w1)"
    by (metis prod_cases3)
  note scanned = scan_interference [OF scan assms(1)]
  show ?thesis
  proof (cases sel)
    case None
    with scan show ?thesis by (simp add: ReferenceNextEvent_body_def)
  next
    case (Some i)
    with scanned assms(2) have "i < num_slots l" "slot_phase l i = Free"
      by (auto simp: log_admits_def)
    from attempt_returns [OF this, of c cand w1 BreakWith] scan Some show ?thesis
      by (simp add: ReferenceNextEvent_body_def)
  qed
qed

lemma ReferenceNextEvent_returns:
  assumes "rely R w" and "keeps_size c R" and "GetTransactionLog k t = Some l"
    and "log_admits R c lo hi w l"
  shows "\<exists>sel t' w'. ReferenceNextEvent c lo k hi t w = Some (sel, t', w')"
proof -
  define P where "P = (\<lambda>(l1, w1). l1 = l \<and> evolves R w w1)"
  have body: "\<exists>r s'. ReferenceNextEvent_body c lo hi s = Some (r, s') \<and> (r = None \<longrightarrow> P s')"
    if "P s" for s
  proof -
    obtain l1 w1 where s1: "s = (l1, w1)" by (cases s)
    with that have s: "s = (l, w1)" "l1 = l" "evolves R w w1"
      by (simp_all add: P_def)
    have r1: "rely R w1" using s(3) by (rule evolves_rely)
    have "log_admits R c lo hi w1 l"
      using assms(4) s(3) assms(2) by (rule log_admits_evolves)
    from ReferenceNextEvent_body_returns [OF r1 this] obtain r l' w' where
      b: "ReferenceNextEvent_body c lo hi (l, w1) = Some (r, l', w')" by blast
    from b r1 have "r = None \<longrightarrow> P (l', w')"
      by (cases rule: ReferenceNextEvent_body_cases) (use s in \<open>auto simp: P_def intro: evolves_trans\<close>)
    with b s show ?thesis by auto
  qed
  have "\<exists>r n s'. for_retry (ReferenceNextEvent_body c lo hi) MAX_REFERENCE_RETRIES 0 (l, w) = Some (r, n, s')"
    using assms(1) by (intro for_retry_reaches [where P = P] body) (auto simp: P_def evolves_refl)
  then show ?thesis
    using assms(3) by (auto simp: ReferenceNextEvent_def Let_def split: option.splits reference_exit.splits)
qed

subsection \<open>Without interference\<close>

definition newest_among :: "u64 list \<Rightarrow> u32 \<Rightarrow> u32 \<Rightarrow> nat \<Rightarrow> u64 \<Rightarrow> nat option \<Rightarrow> bool" where
  "newest_among ss lo hi k cand sel \<longleftrightarrow>
     (case sel of
        None \<Rightarrow> GetTimeStamp cand = lo \<and> (\<forall>j < k. \<not> IsTimeStampBetween (ss ! j) lo hi)
      | Some i \<Rightarrow> i < k \<and> cand = ss ! i \<and> IsTimeStampBetween (ss ! i) lo hi \<and>
          (\<forall>j < k. IsTimeStampBetween (ss ! j) lo hi \<longrightarrow> GetTimeStamp (ss ! j) \<le> GetTimeStamp (ss ! i)))"

definition newest_between :: "u64 list \<Rightarrow> u32 \<Rightarrow> u32 \<Rightarrow> nat \<Rightarrow> bool" where
  "newest_between ss lo hi i \<longleftrightarrow>
     i < length ss \<and> IsTimeStampBetween (ss ! i) lo hi \<and>
     (\<forall>j < length ss. IsTimeStampBetween (ss ! j) lo hi \<longrightarrow> GetTimeStamp (ss ! j) \<le> GetTimeStamp (ss ! i))"

lemma newest_among_next:
  assumes "newest_among ss lo hi k cand sel"
  shows "newest_among ss lo hi (Suc k)
    (if IsTimeStampBetween (ss ! k) (GetTimeStamp cand) hi then ss ! k else cand)
    (if IsTimeStampBetween (ss ! k) (GetTimeStamp cand) hi then Some k else sel)"
proof (cases sel)
  case None
  with assms show ?thesis by (auto simp: newest_among_def less_Suc_eq)
next
  case (Some i)
  show ?thesis
  proof (cases "IsTimeStampBetween (ss ! k) (GetTimeStamp cand) hi")
    case True
    with assms Some have "IsTimeStampBetween (ss ! k) lo hi" "GetTimeStamp (ss ! i) < GetTimeStamp (ss ! k)"
      by (auto simp: newest_among_def intro: between_trans) (auto simp: IsTimeStampBetween_def)
    with assms Some True show ?thesis
      by (auto simp: newest_among_def less_Suc_eq intro: order_trans less_imp_le)
  next
    case False
    then have "IsTimeStampBetween (ss ! k) lo hi \<Longrightarrow> GetTimeStamp (ss ! k) \<le> GetTimeStamp cand"
      by (auto simp: IsTimeStampBetween_def)
    with assms Some False show ?thesis
      by (auto simp: newest_among_def less_Suc_eq)
  qed
qed

lemma scan_quiet_loop:
  assumes "quiet w" and "k \<le> length (mem w c)" and "newest_among (mem w c) lo hi k cand sel"
  shows "\<exists>sel' cand'. ReferenceNextEvent_scan c [k..<length (mem w c)] hi sel cand w = (sel', cand', w) \<and>
    newest_among (mem w c) lo hi (length (mem w c)) cand' sel'"
  using assms(2,3)
proof (induction "length (mem w c) - k" arbitrary: k cand sel)
  case 0
  then show ?case by auto
next
  case (Suc n)
  then have k: "k < length (mem w c)" and split: "[k..<length (mem w c)] = k # [Suc k..<length (mem w c)]"
    by (auto simp: upt_conv_Cons)
  have "n = length (mem w c) - Suc k" "Suc k \<le> length (mem w c)"
    using Suc.hyps(2) k by auto
  from Suc.hyps(1) [OF this newest_among_next [OF Suc.prems(2)]] split assms(1) show ?case
    by (auto split: if_splits)
qed

lemma scan_quiet:
  assumes "quiet w"
  shows "\<exists>sel cand. ReferenceNextEvent_scan c [0..<num_slots_of c w] hi None (EventSlotStatus lo 0) w
      = (sel, cand, w) \<and>
    (case sel of None \<Rightarrow> \<forall>j < length (mem w c). \<not> IsTimeStampBetween (mem w c ! j) lo hi
     | Some i \<Rightarrow> newest_between (mem w c) lo hi i \<and> cand = mem w c ! i)"
proof -
  have "newest_among (mem w c) lo hi 0 (EventSlotStatus lo 0) None"
    by (simp add: newest_among_def)
  from scan_quiet_loop [OF assms _ this]
  obtain sel cand where "ReferenceNextEvent_scan c [0..<num_slots_of c w] hi None (EventSlotStatus lo 0) w
      = (sel, cand, w)" and "newest_among (mem w c) lo hi (length (mem w c)) cand sel"
    by (auto simp: num_slots_of_def)
  then show ?thesis
    by (auto simp: newest_among_def newest_between_def split: option.splits)
qed

text \<open>The log of the caller holds no slot that shows a sample of the range.\<close>

definition unseen_between :: "u64 list \<Rightarrow> u32 \<Rightarrow> u32 \<Rightarrow> transaction_log \<Rightarrow> bool" where
  "unseen_between ss lo hi l \<longleftrightarrow>
     (\<forall>i < length ss. IsTimeStampBetween (ss ! i) lo hi \<longrightarrow> i < num_slots l \<and> slot_phase l i = Free)"

lemma PutTransactionLog_same: "GetTransactionLog k t = Some l \<Longrightarrow> PutTransactionLog k l t = t"
  by (cases t; cases "k = kSkeletonIndexSentinel")
    (auto simp: PutTransactionLog_def IsSkeletonElementTransactionLogIndex_def
      GetTransactionLog_skeleton GetTransactionLog_proxy list_update_same_conv split: if_splits)

lemma PutTransactionLog_twice [simp]:
  "PutTransactionLog k l' (PutTransactionLog k l t) = PutTransactionLog k l' t"
  by (cases "k < length (proxy_transaction_logs t)")
    (auto simp: PutTransactionLog_def IsSkeletonElementTransactionLogIndex_def list_update_beyond)

lemma ReferenceNextEvent_quiet:
  assumes "quiet w" and "GetTransactionLog k t = Some l" and "unseen_between (mem w c) lo hi l"
  shows "\<exists>sel t' w'. ReferenceNextEvent c lo k hi t w = Some (sel, t', w') \<and> quiet w' \<and>
    (case sel of
       None \<Rightarrow> (\<forall>j < length (mem w c). \<not> IsTimeStampBetween (mem w c ! j) lo hi) \<and>
         mem w' = mem w \<and> t' = t
     | Some i \<Rightarrow> newest_between (mem w c) lo hi i \<and>
         mem w' = put_slot c i (mem w c ! i + 1) (mem w) \<and>
         t' = PutTransactionLog k (set_phase i Held l) t)"
proof -
  obtain sel cand where scan: "ReferenceNextEvent_scan c [0..<num_slots_of c w] hi None
      (EventSlotStatus lo 0) w = (sel, cand, w)"
    and sel: "case sel of None \<Rightarrow> \<forall>j < length (mem w c). \<not> IsTimeStampBetween (mem w c ! j) lo hi
     | Some i \<Rightarrow> newest_between (mem w c) lo hi i \<and> cand = mem w c ! i"
    using scan_quiet [OF assms(1)] by blast
  show ?thesis
  proof (cases sel)
    case None
    with scan have "ReferenceNextEvent_body c lo hi (l, w) = Some (Some ReturnEmpty, l, w)"
      by (simp add: ReferenceNextEvent_body_def)
    then have "for_retry (ReferenceNextEvent_body c lo hi) MAX_REFERENCE_RETRIES 0 (l, w)
        = Some (Some ReturnEmpty, 0, l, w)"
      by (simp add: for_retry_first MAX_REFERENCE_RETRIES_def)
    with None sel assms show ?thesis
      by (simp add: ReferenceNextEvent_def PutTransactionLog_same)
  next
    case (Some i)
    with sel assms(3) have i: "i < num_slots l" "slot_phase l i = Free" "cand = mem w c ! i"
      by (auto simp: newest_between_def unseen_between_def)
    let ?w = "w\<lparr>mem := put_slot c i (mem w c ! i + 1) (mem w)\<rparr>"
    have "ReferenceNextEvent_body c lo hi (l, w) = Some (Some (BreakWith i), set_phase i Held l, ?w)"
      using scan Some i assms(1) by (simp add: ReferenceNextEvent_body_def log_defs)
    then have "for_retry (ReferenceNextEvent_body c lo hi) MAX_REFERENCE_RETRIES 0 (l, w)
        = Some (Some (BreakWith i), 0, set_phase i Held l, ?w)"
      by (simp add: for_retry_first MAX_REFERENCE_RETRIES_def)
    with Some sel assms show ?thesis
      by (simp add: ReferenceNextEvent_def MAX_REFERENCE_RETRIES_def)
  qed
qed

text \<open>
  When nothing interferes and the caller holds no sample of the searched range,
  \<open>ReferenceNextEvent\<close> returns the slot of the newest sample strictly between the two limits,
  raises the count of that slot by one and marks it as held in the caller's log; it returns no
  slot exactly when no sample lies in the range, and then changes nothing.
\<close>

lemma reference_next_event_finds_newest:
  assumes "quiet w" and "GetTransactionLog k t = Some l" and "unseen_between (mem w c) lo hi l"
  shows "\<exists>sel t' w'. ReferenceNextEvent c lo k hi t w = Some (sel, t', w') \<and>
    (case sel of
       None \<Rightarrow> (\<forall>j < length (mem w c). \<not> IsTimeStampBetween (mem w c ! j) lo hi) \<and>
         mem w' = mem w \<and> t' = t
     | Some i \<Rightarrow> newest_between (mem w c) lo hi i \<and>
         mem w' = put_slot c i (mem w c ! i + 1) (mem w) \<and>
         t' = PutTransactionLog k (set_phase i Held l) t)"
  using ReferenceNextEvent_quiet [OF assms] by blast

subsection \<open>Giving a reference back\<close>

lemma DereferenceEvent_quiet:
  "quiet w \<Longrightarrow> GetTransactionLog k t = Some l \<Longrightarrow> i < num_slots l \<Longrightarrow> slot_phase l i = Held \<Longrightarrow>
     DereferenceEvent c i k t w =
       Some (PutTransactionLog k (set_phase i Free l) t,
             w\<lparr>mem := put_slot c i (mem w c ! i - 1) (mem w)\<rparr>)"
  by (simp add: DereferenceEvent_def log_defs DereferenceEventWithoutTransactionLogging_def get_slot_def)

text \<open>
  Giving back the reference that \<open>ReferenceNextEvent\<close> took restores both the slots
  and the transaction logs exactly.
\<close>

lemma dereference_undoes_reference:
  assumes "quiet w" and "GetTransactionLog k t = Some l" and "unseen_between (mem w c) lo hi l"
    and "ReferenceNextEvent c lo k hi t w = Some (Some i, t', w')"
  shows "\<exists>w''. DereferenceEvent c i k t' w' = Some (t, w'') \<and> mem w'' = mem w"
proof -
  have new: "newest_between (mem w c) lo hi i" "quiet w'" "mem w' = put_slot c i (mem w c ! i + 1) (mem w)"
    and t': "t' = PutTransactionLog k (set_phase i Held l) t"
    using ReferenceNextEvent_quiet [OF assms(1-3)] assms(4) by auto
  then have i: "i < length (mem w c)" "i < num_slots l" "slot_phase l i = Free"
    using assms(3) by (auto simp: newest_between_def unseen_between_def)
  have l': "GetTransactionLog k t' = Some (set_phase i Held l)"
    using t' assms(2) by (simp add: logs.get_put_same)
  have "DereferenceEvent c i k t' w' =
      Some (PutTransactionLog k (set_phase i Free l) t', w'\<lparr>mem := put_slot c i (mem w' c ! i - 1) (mem w')\<rparr>)"
    using DereferenceEvent_quiet [OF new(2) l', of i] i by simp
  moreover have "PutTransactionLog k (set_phase i Free l) t' = t"
    using t' i(3) assms(2) by (simp add: set_phase_same PutTransactionLog_same)
  moreover have "put_slot c i (mem w' c ! i - 1) (mem w') = mem w"
    using new(3) i(1) by (simp add: put_slot_def)
  ultimately show ?thesis by simp
qed

subsection \<open>Instances\<close>

definition one_reader_logs :: transaction_log_set where
  "one_reader_logs =
     \<lparr>proxy_transaction_logs =
        [\<lparr>is_active = True, needs_rollback = False, node_id = 7, node_log = TransactionLog 2\<rparr>],
      skeleton_tracing_transaction_log = TransactionLogNode 2\<rparr>"

definition two_samples :: "u64 list" where
  "two_samples = [EventSlotStatus 5 0, EventSlotStatus 7 1]"

lemma one_reader_log: "GetTransactionLog 0 one_reader_logs = Some (TransactionLog 2)"
  by (simp add: GetTransactionLog_proxy kSkeletonIndexSentinel_def one_reader_logs_def)

lemma two_samples_between:
  "IsTimeStampBetween (two_samples ! 0) 4 TIMESTAMP_MAX" "IsTimeStampBetween (two_samples ! Suc 0) 4 TIMESTAMP_MAX"
  "length two_samples = 2"
  by (simp_all add: two_samples_def IsTimeStampBetween_def IsInWriting_iff IsInvalid_iff TIMESTAMP_MAX_def)

lemma two_samples_unseen: "unseen_between two_samples 4 TIMESTAMP_MAX (TransactionLog 2)"
  by (auto simp: unseen_between_def two_samples_between TransactionLog_empty)

lemma two_samples_newest:
  assumes "newest_between two_samples 4 TIMESTAMP_MAX i"
  shows "i = 1"
proof -
  from assms have i: "i < 2" and le: "GetTimeStamp (two_samples ! 1) \<le> GetTimeStamp (two_samples ! i)"
    using two_samples_between by (simp_all add: newest_between_def)
  have "i \<noteq> 0"
  proof
    assume "i = 0"
    with le show False by (simp add: two_samples_def)
  qed
  with i show ?thesis by arith
qed

text \<open>A proxy whose first attempt collides with another reader of the same slot.\<close>

definition colliding_world :: "unit edc_world" where
  "colliding_world = (idle_world two_samples)\<lparr>sched :=
     [Tick id False, Tick id False, Tick (put_slot () 1 (EventSlotStatus 7 2)) False]\<rparr>"

lemma colliding_rely:
  "rely (\<lambda>m m'. length (m' ()) = length (m ())) colliding_world"
  "keeps_size () (\<lambda>m m'. length (m' ()) = length (m ()))"
  by (simp_all add: rely_def colliding_world_def keeps_size_def)

lemma colliding_run:
  "\<exists>t' w'. ReferenceNextEvent () 4 0 TIMESTAMP_MAX one_reader_logs colliding_world = Some (Some 1, t', w')"
proof -
  define m1 where "m1 = put_slot () 1 (EventSlotStatus 7 2) (\<lambda>_. two_samples)"
  let ?w1 = "(idle_world two_samples)\<lparr>mem := m1\<rparr>"
  have first: "ReferenceNextEvent_body () 4 TIMESTAMP_MAX (TransactionLog 2, colliding_world)
      = Some (None, TransactionLog 2, ?w1)"
    using two_samples_between
    by (simp add: ReferenceNextEvent_body_def colliding_world_def idle_world_def num_slots_of_def
        slot_tick log_defs TransactionLog_empty set_phase_same get_slot_def put_slot_def m1_def
        two_samples_def IsTimeStampBetween_def IsInWriting_iff IsInvalid_iff TIMESTAMP_MAX_def)
  have second: "ReferenceNextEvent_body () 4 TIMESTAMP_MAX (TransactionLog 2, ?w1)
      = Some (Some (BreakWith 1), set_phase 1 Held (TransactionLog 2),
         ?w1\<lparr>mem := put_slot () 1 (m1 () ! 1 + 1) m1\<rparr>)"
    by (simp add: ReferenceNextEvent_body_def idle_world_def num_slots_of_def m1_def put_slot_def
        two_samples_def IsTimeStampBetween_def IsInWriting_iff IsInvalid_iff TIMESTAMP_MAX_def
        log_defs TransactionLog_empty get_slot_def)
  have two: "MAX_REFERENCE_RETRIES = Suc (Suc 98)" by (simp add: MAX_REFERENCE_RETRIES_def)
  have "for_retry (ReferenceNextEvent_body () 4 TIMESTAMP_MAX) MAX_REFERENCE_RETRIES 0
      (TransactionLog 2, colliding_world) = Some (Some (BreakWith 1), 1, set_phase 1 Held (TransactionLog 2),
         ?w1\<lparr>mem := put_slot () 1 (m1 () ! 1 + 1) m1\<rparr>)"
    unfolding two by (simp only: for_retry.simps first second option.case prod.case One_nat_def)
  then show ?thesis
    by (simp add: ReferenceNextEvent_def one_reader_log MAX_REFERENCE_RETRIES_def)
qed

theorem reference_next_event_is_logged_witness:
  "\<exists>t' w'. ReferenceNextEvent () 4 0 TIMESTAMP_MAX one_reader_logs colliding_world = Some (Some 1, t', w') \<and>
     (\<exists>m l'. IsTimeStampBetween (m () ! 1) 4 TIMESTAMP_MAX \<and> GetTransactionLog 0 t' = Some l' \<and>
        took_reference () 1 m w' (TransactionLog 2) l')"
proof -
  obtain t' w' where run: "ReferenceNextEvent () 4 0 TIMESTAMP_MAX one_reader_logs colliding_world = Some (Some 1, t', w')"
    using colliding_run by blast
  from reference_next_event_is_logged [OF colliding_rely run] run one_reader_log show ?thesis
    by (auto simp: reference_outcome_def)
qed

subsection \<open>From publication to reception\<close>

text \<open>
  A sample that is published in an allocated slot with a timestamp newer than every
  other slot's, newer than the last one the proxy has seen and below \<open>TIMESTAMP_MAX\<close>, is exactly
  what the next \<open>ReferenceNextEvent\<close> of that proxy returns, with one reader.
\<close>

lemma published_sample_is_received:
  assumes "quiet w" and "GetTransactionLog k t = Some l" and "i < length (mem w c)"
    and "\<forall>j < length (mem w c). j \<noteq> i \<longrightarrow> GetTimeStamp (mem w c ! j) < ts"
    and "prev < ts" and "ts < TIMESTAMP_MAX"
    and "length (mem w c) \<le> num_slots l" and "\<forall>j < num_slots l. slot_phase l j = Free"
  shows "\<exists>t' w'. ReferenceNextEvent c prev k TIMESTAMP_MAX t (EventReady c i ts w) = Some (Some i, t', w') \<and>
    mem w' c ! i = EventSlotStatus ts 1"
proof -
  let ?w = "EventReady c i ts w" and ?ss = "(mem w c)[i := EventSlotStatus ts 0]"
  have w: "quiet ?w" "mem ?w c = ?ss"
    using assms(1) by (simp_all add: EventReady_quiet put_slot_def)
  have "ts \<noteq> 0" using assms(5) by auto
  then have here: "IsTimeStampBetween (?ss ! i) prev TIMESTAMP_MAX"
    using assms(3,5,6) by (auto simp: IsTimeStampBetween_def IsInWriting_iff IsInvalid_iff)
  have "unseen_between (mem ?w c) prev TIMESTAMP_MAX l"
    using assms(7,8) w by (auto simp: unseen_between_def)
  from ReferenceNextEvent_quiet [OF w(1) assms(2) this] obtain sel t' w' where
    run: "ReferenceNextEvent c prev k TIMESTAMP_MAX t ?w = Some (sel, t', w')"
    and sel: "case sel of
       None \<Rightarrow> (\<forall>j < length ?ss. \<not> IsTimeStampBetween (?ss ! j) prev TIMESTAMP_MAX) \<and>
         mem w' = mem ?w \<and> t' = t
     | Some i \<Rightarrow> newest_between ?ss prev TIMESTAMP_MAX i \<and>
         mem w' = put_slot c i (?ss ! i + 1) (mem ?w) \<and>
         t' = PutTransactionLog k (set_phase i Held l) t"
    unfolding w(2) by blast
  have unique: "j = i" if "newest_between ?ss prev TIMESTAMP_MAX j" for j
  proof (rule ccontr)
    assume ne: "j \<noteq> i"
    from that here assms(3) have j: "j < length (mem w c)" "GetTimeStamp (?ss ! i) \<le> GetTimeStamp (?ss ! j)"
      by (auto simp: newest_between_def)
    with ne assms(3) have "ts \<le> GetTimeStamp (mem w c ! j)" by simp
    with assms(4) j(1) ne show False by (auto simp: not_less)
  qed
  have "sel = Some i"
    using sel unique here assms(3) by (cases sel) auto
  moreover have "EventSlotStatus ts 0 + 1 = EventSlotStatus ts 1"
    using EventSlotStatus_plus_one [of 0 ts] by simp
  ultimately show ?thesis
    using run sel w assms(3) by (simp add: put_slot_def)
qed

lemma published_sample_is_received_witness:
  "\<exists>t' w'. ReferenceNextEvent () 4 0 TIMESTAMP_MAX one_reader_logs
       (EventReady () 1 9 (idle_world [EventSlotStatus 5 0, IN_WRITING])) = Some (Some 1, t', w') \<and>
     mem w' () ! 1 = EventSlotStatus 9 1"
proof -
  let ?w = "idle_world [EventSlotStatus 5 0, IN_WRITING]"
  have "\<forall>j < length (mem ?w ()). j \<noteq> 1 \<longrightarrow> GetTimeStamp (mem ?w () ! j) < 9"
    by (auto simp: idle_world_def less_Suc_eq)
  then show ?thesis
    using one_reader_log by (intro published_sample_is_received [of ?w 0 _ "TransactionLog 2"])
      (auto simp: idle_world_def TIMESTAMP_MAX_def TransactionLog_empty)
qed

subsection \<open>Counting new samples\<close>

lemma GetNumNewEvents_quiet:
  "quiet w \<Longrightarrow> GetNumNewEvents c ts w =
     (length (filter (\<lambda>s. IsTimeStampBetween s ts TIMESTAMP_MAX) (mem w c)), w)"
proof -
  assume q: "quiet w"
  have "GetNumNewEvents_loop c idxs ts n w =
      (n + length (filter (\<lambda>i. IsTimeStampBetween (mem w c ! i) ts TIMESTAMP_MAX) idxs), w)" for idxs n
    using q by (induction idxs arbitrary: n) auto
  moreover have "length (filter (\<lambda>i. P (xs ! i)) [0..<length xs]) = length (filter P xs)"
    for P and xs :: "u64 list"
    using filter_map [of P "(!) xs" "[0..<length xs]"] by (simp add: map_nth comp_def)
  ultimately show ?thesis
    by (simp add: GetNumNewEvents_def num_slots_of_def)
qed

subsection \<open>ReferenceSpecificEvent\<close>

text \<open>
  The tracing skeleton references one given slot. Unlike \<open>ReferenceNextEvent\<close>, this operation
  refuses a slot whose count is all ones, so the increment never carries into the timestamp.
\<close>

lemma ReferenceSpecificEvent_body_cases:
  assumes "ReferenceSpecificEvent_body c i (l, w) = Some (r, l', w')" and "rely R w"
  obtains (refused) m where "r = Some False" and "l' = l" and "evolves R w w'" and "mem w' = m"
      and "IsInWriting (m c ! i) \<or> IsInvalid (m c ! i) \<or> GetReferenceCount (m c ! i) = - 1"
    | (again) "r = None" and "l' = l" and "evolves R w w'"
    | (taken) m where "r = Some True" and "R\<^sup>*\<^sup>* (mem w) m" and "took_reference c i m w' l l'"
      and "rely R w'" and "GetReferenceCount (m c ! i) \<noteq> - 1"
      and "\<not> IsInWriting (m c ! i)" and "\<not> IsInvalid (m c ! i)"
proof -
  obtain v w1 where ld: "load_slot c i w = (v, w1)" by (cases "load_slot c i w")
  note reached = load_slot_reached [OF ld assms(2)]
  have r1: "rely R w1" using reached(1) by (rule evolves_rely)
  show thesis
  proof (cases "IsInWriting v \<or> IsInvalid v \<or> GetReferenceCount v = - 1")
    case True
    then have "r = Some False" "l' = l" "w' = w1"
      using assms(1) ld
      by (auto simp: ReferenceSpecificEvent_body_def GetReferenceCount_plus_one_eq_0 Let_def split: if_splits)
    with True reached show thesis by (intro refused [of "mem w1"]) simp_all
  next
    case False
    have attempt: "do {
      l1 \<leftarrow> ReferenceTransactionBegin i l;
      let (ok, _, w1) = cas_slot c i v (v + 1) w1;
      if ok then do { l2 \<leftarrow> ReferenceTransactionCommit i l1; Some (Some ((\<lambda>_. True) i), l2, w1) }
      else do { l2 \<leftarrow> ReferenceTransactionAbort i l1; Some (None, l2, w1) } } = Some (r, l', w')"
      using assms(1) ld False
      by (simp add: ReferenceSpecificEvent_body_def GetReferenceCount_plus_one_eq_0 Let_def)
    from attempt r1 show thesis
    proof (cases rule: attempt_cases)
      case again
      with reached(1) show thesis by (intro that(2)) (auto intro: evolves_trans)
    next
      case (taken m)
      moreover from taken(2) reached(1) have "R\<^sup>*\<^sup>* (mem w) m" by (auto simp: evolves_def)
      ultimately show thesis using False
        by (intro that(3) [of m]) (simp_all add: took_reference_def)
    qed
  qed
qed

subsection \<open>Rollback of the references of a crashed proxy\<close>

text \<open>
  The callback that the rollback executor hands to the transaction log, and the number of readers
  of a slot. The control block meets the contract of a dereference target.
\<close>

definition dereference_slot_callback :: "'c \<Rightarrow> nat \<Rightarrow> 'c edc_world \<Rightarrow> 'c edc_world run" where
  "dereference_slot_callback c slot_index w =
     Some (DereferenceEventWithoutTransactionLogging c slot_index w)"

definition reader_count :: "'c \<Rightarrow> 'c edc_world \<Rightarrow> nat \<Rightarrow> nat" where
  "reader_count c w i =
     (if i < num_slots_of c w then unat (GetReferenceCount (mem w c ! i)) else 0)"

lemma GetReferenceCount_minus_one:
  "GetReferenceCount d \<noteq> 0 \<Longrightarrow> unat (GetReferenceCount (d - 1)) = unat (GetReferenceCount d) - 1"
  by (simp add: halves_minus_one unat_minus_one)

interpretation edc_target: dereference_target "dereference_slot_callback c" "reader_count c" "\<lambda>w. quiet w"
  for c :: 'c
proof unfold_locales
  fix w :: "'c edc_world" and i
  assume q: "quiet w" and pos: "0 < reader_count c w i"
  then have i: "i < num_slots_of c w" and nz: "GetReferenceCount (mem w c ! i) \<noteq> 0"
    by (auto simp: reader_count_def split: if_splits)
  let ?w = "w\<lparr>mem := put_slot c i (mem w c ! i - 1) (mem w)\<rparr>"
  have "dereference_slot_callback c i w = Some ?w"
    using q by (simp add: dereference_slot_callback_def DereferenceEventWithoutTransactionLogging_def get_slot_def)
  moreover have "reader_count c ?w = (reader_count c w)(i := reader_count c w i - 1)"
    using i nz by (auto simp: reader_count_def fun_eq_iff put_slot_def num_slots_of_def
        nth_list_update GetReferenceCount_minus_one)
  ultimately show "\<exists>w'. dereference_slot_callback c i w = Some w' \<and> quiet w' \<and>
      reader_count c w' = (reader_count c w)(i := reader_count c w i - 1)"
    using q by (intro exI [of _ ?w]) simp
qed

text \<open>
  Rolling back the log of a proxy that crashed outside every transaction takes away
  exactly its own references: every slot the log holds loses one reader, every other slot keeps
  its readers, and the log is empty afterwards.
\<close>

lemma rollback_gives_back_references:
  assumes "quiet w" and "crash_free l" and "subscribe_phase l = Held"
    and "subscription_max_sample_count l = Some n"
    and "\<forall>i < num_slots l. slot_phase l i = Held \<longrightarrow> 0 < reader_count c w i"
  shows "\<exists>l' w'. RollbackProxyElementLog (dereference_slot_callback c) (\<lambda>_ w. Some w) l w
      = Some (Inr (), l', w') \<and> \<not> ContainsTransactions l' \<and>
    (\<forall>i. reader_count c w' i =
       (if i < num_slots l \<and> slot_phase l i = Held then reader_count c w i - 1 else reader_count c w i))"
proof -
  obtain w' where run: "fold_run (dereference_slot_callback c) (recoverable l) w = Some w'"
    and count: "\<forall>j. reader_count c w' j =
      (if j \<in> set (recoverable l) then reader_count c w j - 1 else reader_count c w j)"
    using edc_target.dereference_all [OF recoverable_props(1), of l c w] recoverable_props(2) [of l] assms(1,5)
    by blast
  let ?l = "set_subscribe Free None (release (recoverable l) l)"
  have "RollbackProxyElementLog (dereference_slot_callback c) (\<lambda>_ w. Some w) l w = Some (Inr (), ?l, w')"
    using run assms(2-4) by (simp add: rollback_proxy_log ambiguous_def)
  moreover have "\<not> ContainsTransactions ?l"
    using assms(2) by (auto simp: ContainsTransactions_iff released_clean)
  ultimately show ?thesis
    using count assms(2) by (auto simp: recoverable_crash_free)
qed

subsection \<open>Giving a reference back under interference\<close>

lemma DereferenceEvent_outcome:
  assumes "rely R w" and "DereferenceEvent c i k t w = Some (t', w')"
  shows "\<exists>m l. R\<^sup>*\<^sup>* (mem w) m \<and> GetTransactionLog k t = Some l \<and> i < num_slots l \<and>
    slot_phase l i = Held \<and> mem w' = put_slot c i (m c ! i - 1) m \<and> rely R w' \<and>
    t' = PutTransactionLog k (set_phase i Free l) t"
proof -
  obtain l where l: "GetTransactionLog k t = Some l"
    using assms(2) by (auto simp: DereferenceEvent_def split: Option.bind_splits)
  obtain b w1 where adv: "advance w = (b, w1)" by (cases "advance w")
  have e: "evolves R w w1" using assms(1) adv by (rule evolves_advance)
  have "i < num_slots l" "slot_phase l i = Held"
    using assms(2) l by (auto simp: DereferenceEvent_def log_defs split: if_splits)
  then show ?thesis
    using assms(2) l adv e
    by (auto simp: DereferenceEvent_def log_defs DereferenceEventWithoutTransactionLogging_def
        atomic_store_def get_slot_def evolves_def intro!: exI [of _ "mem w1"])
qed

end
