(* ===== verification/Slot_Protocol.thy ===== *)
theory Slot_Protocol
  imports Slot_Reference
begin

text \<open>
  One event seen as a whole: the skeleton and up to \<open>N\<close> proxies act on the slots of one control
  block in any interleaving, a proxy may stop at any moment (a crash needs no step of its own)
  and may be rolled back later. The steps are the atomic effects that \<open>Slot_Allocation\<close> and
  \<open>Slot_Reference\<close> show for the operations of the code, and the transitions of the transaction
  logs; the last section shows that the operations are made of these steps.

  \<open>owners\<close> is a ghost: the pairs of log and slot whose increment is part of the slot's count. The
  invariant says that each count is the number of its owners, that a slot in writing has none,
  and that a log in phase free or held agrees with the ghost; in the two phases in between the
  log does not tell, which is why the rollback gives up there.
\<close>

subsection \<open>States and steps\<close>

record protocol_state =
  cells :: "u64 list"
  proxy_log :: "nat \<Rightarrow> transaction_log"
  owners :: "(nat \<times> nat) set"

definition set_cell :: "nat \<Rightarrow> u64 \<Rightarrow> protocol_state \<Rightarrow> protocol_state" where
  "set_cell i v s = s\<lparr>cells := (cells s)[i := v]\<rparr>"

definition set_log :: "nat \<Rightarrow> transaction_log \<Rightarrow> protocol_state \<Rightarrow> protocol_state" where
  "set_log k l s = s\<lparr>proxy_log := (proxy_log s)(k := l)\<rparr>"

inductive protocol_step :: "nat \<Rightarrow> protocol_state \<Rightarrow> protocol_state \<Rightarrow> bool" for N where
  allocate: "i < length (cells s) \<Longrightarrow> \<not> IsUsed (cells s ! i) \<Longrightarrow>
    protocol_step N s (set_cell i IN_WRITING s)"
| publish: "i < length (cells s) \<Longrightarrow> IsInWriting (cells s ! i) \<Longrightarrow> ts \<noteq> 0 \<Longrightarrow>
    protocol_step N s (set_cell i (EventSlotStatus ts 0) s)"
| withdrawn: "i < length (cells s) \<Longrightarrow> IsInWriting (cells s ! i) \<Longrightarrow>
    protocol_step N s (set_cell i INVALID s)"
| reference_begin: "k < N \<Longrightarrow> ReferenceTransactionBegin i (proxy_log s k) = Some l \<Longrightarrow>
    protocol_step N s (set_log k l s)"
| reference: "k < N \<Longrightarrow> i < length (cells s) \<Longrightarrow> slot_phase (proxy_log s k) i = Incrementing \<Longrightarrow>
    (k, i) \<notin> owners s \<Longrightarrow> \<not> IsInWriting (cells s ! i) \<Longrightarrow> \<not> IsInvalid (cells s ! i) \<Longrightarrow>
    protocol_step N s (set_cell i (cells s ! i + 1) (s\<lparr>owners := insert (k, i) (owners s)\<rparr>))"
| reference_commit: "k < N \<Longrightarrow> (k, i) \<in> owners s \<Longrightarrow>
    ReferenceTransactionCommit i (proxy_log s k) = Some l \<Longrightarrow> protocol_step N s (set_log k l s)"
| reference_abort: "k < N \<Longrightarrow> (k, i) \<notin> owners s \<Longrightarrow>
    ReferenceTransactionAbort i (proxy_log s k) = Some l \<Longrightarrow> protocol_step N s (set_log k l s)"
| dereference_begin: "k < N \<Longrightarrow> DereferenceTransactionBegin i (proxy_log s k) = Some l \<Longrightarrow>
    protocol_step N s (set_log k l s)"
| dereference: "k < N \<Longrightarrow> i < length (cells s) \<Longrightarrow> slot_phase (proxy_log s k) i = Decrementing \<Longrightarrow>
    (k, i) \<in> owners s \<Longrightarrow>
    protocol_step N s (set_cell i (cells s ! i - 1) (s\<lparr>owners := owners s - {(k, i)}\<rparr>))"
| dereference_commit: "k < N \<Longrightarrow> (k, i) \<notin> owners s \<Longrightarrow>
    DereferenceTransactionCommit i (proxy_log s k) = Some l \<Longrightarrow> protocol_step N s (set_log k l s)"

inductive_cases protocol_stepE: "protocol_step N s s'"

definition readers :: "protocol_state \<Rightarrow> nat \<Rightarrow> nat set" where
  "readers s i = {k. (k, i) \<in> owners s}"

definition cell_inv :: "protocol_state \<Rightarrow> nat \<Rightarrow> bool" where
  "cell_inv s i \<longleftrightarrow>
     (if IsInWriting (cells s ! i) then readers s i = {}
      else unat (GetReferenceCount (cells s ! i)) = card (readers s i)) \<and>
     (GetTimeStamp (cells s ! i) = 0 \<longrightarrow> IsInvalid (cells s ! i) \<or> IsInWriting (cells s ! i))"

definition log_inv :: "protocol_state \<Rightarrow> nat \<Rightarrow> bool" where
  "log_inv s k \<longleftrightarrow>
     num_slots (proxy_log s k) = length (cells s) \<and>
     (\<forall>i < length (cells s).
        (slot_phase (proxy_log s k) i = Free \<longrightarrow> (k, i) \<notin> owners s) \<and>
        (slot_phase (proxy_log s k) i = Held \<longrightarrow> (k, i) \<in> owners s))"

definition protocol_inv :: "nat \<Rightarrow> protocol_state \<Rightarrow> bool" where
  "protocol_inv N s \<longleftrightarrow>
     N < 2 ^ 32 - 1 \<and> owners s \<subseteq> {..<N} \<times> {..<length (cells s)} \<and>
     (\<forall>i < length (cells s). cell_inv s i) \<and> (\<forall>k < N. log_inv s k)"

subsection \<open>The invariant\<close>

lemma set_cell_simps [simp]:
  "length (cells (set_cell i v s)) = length (cells s)"
  "proxy_log (set_cell i v s) = proxy_log s"
  "owners (set_cell i v s) = owners s"
  "cells (set_log k l s) = cells s"
  "owners (set_log k l s) = owners s"
  "i < length (cells s) \<Longrightarrow> cells (set_cell i v s) ! j = (if j = i then v else cells s ! j)"
  "proxy_log (set_log k l s) j = (if j = k then l else proxy_log s j)"
  by (auto simp: set_cell_def set_log_def nth_list_update)

lemma readers_bound:
  assumes "protocol_inv N s"
  shows "readers s i \<subseteq> {..<N}" and "finite (readers s i)" and "card (readers s i) \<le> N"
proof -
  show sub: "readers s i \<subseteq> {..<N}"
    using assms by (auto simp: protocol_inv_def readers_def)
  show "finite (readers s i)" using sub finite_subset by blast
  show "card (readers s i) \<le> N" using card_mono [OF _ sub] by simp
qed

lemma initial_protocol_inv:
  "N < 2 ^ 32 - 1 \<Longrightarrow>
     protocol_inv N \<lparr>cells = replicate n INVALID, proxy_log = (\<lambda>_. TransactionLog n), owners = {}\<rparr>"
  by (auto simp: protocol_inv_def cell_inv_def log_inv_def readers_def TransactionLog_empty)

lemma cell_inv_cong:
  "cells s' ! i = cells s ! i \<Longrightarrow> readers s' i = readers s i \<Longrightarrow> cell_inv s' i = cell_inv s i"
  by (simp add: cell_inv_def)

lemma unused_no_readers:
  assumes "protocol_inv N s" and "i < length (cells s)" and "\<not> IsUsed (cells s ! i)"
  shows "readers s i = {}"
proof -
  have "cell_inv s i" using assms(1,2) by (simp add: protocol_inv_def)
  with assms(3) have "card (readers s i) = 0"
    by (auto simp: cell_inv_def IsUsed_def split: if_splits)
  with readers_bound(2) [OF assms(1)] show ?thesis by auto
qed

lemma log_agrees:
  assumes "protocol_inv N s" and "k < N" and "i < num_slots (proxy_log s k)"
  shows "i < length (cells s)"
    and "slot_phase (proxy_log s k) i = Free \<Longrightarrow> (k, i) \<notin> owners s"
    and "slot_phase (proxy_log s k) i = Held \<Longrightarrow> (k, i) \<in> owners s"
  using assms by (auto simp: protocol_inv_def log_inv_def)

text \<open>A step that only rewrites a cell without readers.\<close>

lemma rewrite_cell_inv:
  assumes "protocol_inv N s" and "i < length (cells s)" and "readers s i = {}"
    and "v = IN_WRITING \<or> v = INVALID \<or> (\<exists>ts. ts \<noteq> 0 \<and> v = EventSlotStatus ts 0)"
  shows "protocol_inv N (set_cell i v s)"
proof -
  have "cell_inv (set_cell i v s) i"
    using assms(2-4) by (auto simp: cell_inv_def readers_def IsInWriting_iff IsInvalid_iff)
  moreover have "cell_inv (set_cell i v s) j" if "j \<noteq> i" "j < length (cells s)" for j
    using that assms(1,2) by (subst cell_inv_cong [of _ _ s]) (auto simp: readers_def protocol_inv_def)
  ultimately show ?thesis
    using assms(1,2) by (auto simp: protocol_inv_def log_inv_def) (metis)
qed

text \<open>A step of one log: the phases free and held must still agree with the ghost.\<close>

lemma set_log_inv:
  assumes "protocol_inv N s" and "k < N" and "i < length (cells s)"
    and "p = Free \<Longrightarrow> (k, i) \<notin> owners s" and "p = Held \<Longrightarrow> (k, i) \<in> owners s"
  shows "protocol_inv N (set_log k (set_phase i p (proxy_log s k)) s)"
proof -
  have "log_inv s k" using assms(1,2) by (simp add: protocol_inv_def)
  then have "log_inv (set_log k (set_phase i p (proxy_log s k)) s) k"
    using assms(3-5) by (auto simp: log_inv_def)
  moreover have "log_inv (set_log k l s) j" if "j \<noteq> k" "j < N" for j l
    using that assms(1) by (simp add: protocol_inv_def log_inv_def)
  moreover have "cell_inv (set_log k l s) j = cell_inv s j" for l j
    by (rule cell_inv_cong) (simp_all add: readers_def)
  ultimately show ?thesis
    using assms(1) by (auto simp: protocol_inv_def) (metis)
qed

text \<open>A step that changes the count of one cell together with its owners.\<close>

lemma count_below_max:
  assumes "protocol_inv N s" and "i < length (cells s)" and "\<not> IsInWriting (cells s ! i)"
  shows "unat (GetReferenceCount (cells s ! i)) = card (readers s i)"
    and "GetReferenceCount (cells s ! i) \<noteq> - 1"
proof -
  have "cell_inv s i" using assms(1,2) by (simp add: protocol_inv_def)
  with assms(3) show eq: "unat (GetReferenceCount (cells s ! i)) = card (readers s i)"
    by (simp add: cell_inv_def)
  with readers_bound(3) [OF assms(1), of i] assms(1) show "GetReferenceCount (cells s ! i) \<noteq> - 1"
    unfolding protocol_inv_def by (auto simp: unat_u32_max)
qed

lemma change_owners_inv:
  assumes "protocol_inv N s" and "i < length (cells s)" and "k < N"
    and "slot_phase (proxy_log s k) i = Incrementing \<or> slot_phase (proxy_log s k) i = Decrementing"
    and "O' = insert (k, i) (owners s) \<or> O' = owners s - {(k, i)}"
    and "cell_inv (set_cell i v (s\<lparr>owners := O'\<rparr>)) i"
  shows "protocol_inv N (set_cell i v (s\<lparr>owners := O'\<rparr>))" (is "protocol_inv N ?s")
proof -
  have other: "(j, m) \<in> O' \<longleftrightarrow> (j, m) \<in> owners s" if "j \<noteq> k \<or> m \<noteq> i" for j m
    using assms(5) that by auto
  have "cell_inv ?s m" if "m < length (cells s)" for m
  proof (cases "m = i")
    case False
    have "cells ?s ! m = cells s ! m"
      using False assms(2) by (simp add: set_cell_def)
    moreover have "readers ?s m = readers s m"
      using other False by (simp add: readers_def)
    ultimately have "cell_inv ?s m = cell_inv s m" by (rule cell_inv_cong)
    with that assms(1) show ?thesis by (simp add: protocol_inv_def)
  qed (use assms(6) in simp)
  moreover have "log_inv ?s j" if "j < N" for j
  proof -
    have "log_inv s j" using that assms(1) by (simp add: protocol_inv_def)
    moreover have "(slot_phase (proxy_log s j) m = Free \<longrightarrow> (j, m) \<notin> O') \<and>
        (slot_phase (proxy_log s j) m = Held \<longrightarrow> (j, m) \<in> O')" if "m < length (cells s)" for m
    proof (cases "j = k \<and> m = i")
      case True
      with assms(4) show ?thesis by auto
    next
      case False
      with other [of j m] that \<open>log_inv s j\<close> show ?thesis by (simp add: log_inv_def)
    qed
    ultimately show ?thesis by (simp add: log_inv_def set_cell_def)
  qed
  moreover have "O' \<subseteq> {..<N} \<times> {..<length (cells s)}"
    using assms(1-3,5) by (auto simp: protocol_inv_def)
  ultimately show ?thesis
    using assms(1) by (simp add: protocol_inv_def set_cell_def)
qed

lemma reference_inv:
  assumes "protocol_inv N s" and "i < length (cells s)" and "k < N"
    and "slot_phase (proxy_log s k) i = Incrementing"
    and "(k, i) \<notin> owners s" and "\<not> IsInWriting (cells s ! i)" and "\<not> IsInvalid (cells s ! i)"
  shows "protocol_inv N (set_cell i (cells s ! i + 1) (s\<lparr>owners := insert (k, i) (owners s)\<rparr>))"
proof (rule change_owners_inv [OF assms(1-3)])
  let ?s = "set_cell i (cells s ! i + 1) (s\<lparr>owners := insert (k, i) (owners s)\<rparr>)"
  note count = count_below_max [OF assms(1,2,6)]
  have ts: "GetTimeStamp (cells s ! i) \<noteq> 0"
    using assms(1,2,6,7) by (auto simp: protocol_inv_def cell_inv_def)
  have "readers ?s i = insert k (readers s i)" by (auto simp: readers_def)
  moreover have "k \<notin> readers s i" using assms(5) by (simp add: readers_def)
  ultimately have card: "card (readers ?s i) = Suc (card (readers s i))"
    using readers_bound(2) [OF assms(1)] by simp
  have "unat (GetReferenceCount (cells s ! i) + 1) = Suc (unat (GetReferenceCount (cells s ! i)))"
    using u32_max_or_less [OF count(2)] by (simp add: unat_word_ariths)
  with ts count card assms(2) show "cell_inv ?s i"
    by (simp add: cell_inv_def set_cell_def halves_plus_one IsInWriting_iff)
qed (use assms(4) in simp_all)

lemma dereference_inv:
  assumes "protocol_inv N s" and "i < length (cells s)" and "k < N"
    and "slot_phase (proxy_log s k) i = Decrementing" and "(k, i) \<in> owners s"
  shows "protocol_inv N (set_cell i (cells s ! i - 1) (s\<lparr>owners := owners s - {(k, i)}\<rparr>))"
proof (rule change_owners_inv [OF assms(1-3)])
  let ?s = "set_cell i (cells s ! i - 1) (s\<lparr>owners := owners s - {(k, i)}\<rparr>)"
  have k: "k \<in> readers s i" using assms(5) by (simp add: readers_def)
  have cell: "cell_inv s i" using assms(1,2) by (simp add: protocol_inv_def)
  with k have nw: "\<not> IsInWriting (cells s ! i)" by (auto simp: cell_inv_def)
  note count = count_below_max [OF assms(1,2) nw]
  have nz: "GetReferenceCount (cells s ! i) \<noteq> 0"
    using count(1) k readers_bound(2) [OF assms(1), of i] by auto
  with cell nw have ts: "GetTimeStamp (cells s ! i) \<noteq> 0"
    by (auto simp: cell_inv_def IsInvalid_iff)
  have "readers ?s i = readers s i - {k}" by (auto simp: readers_def)
  then have "card (readers ?s i) = card (readers s i) - 1"
    using k readers_bound(2) [OF assms(1)] by simp
  with ts nz count(1) assms(2) show "cell_inv ?s i"
    by (simp add: cell_inv_def set_cell_def halves_minus_one IsInWriting_iff unat_minus_one)
qed (use assms(4) in simp_all)

lemma protocol_step_inv: "protocol_step N s s' \<Longrightarrow> protocol_inv N s \<Longrightarrow> protocol_inv N s'"
proof (induction rule: protocol_step.induct)
  case (allocate i s)
  then have "readers s i = {}" by (intro unused_no_readers)
  with allocate show ?case by (intro rewrite_cell_inv) auto
next
  case (publish i s ts)
  then have "readers s i = {}" by (auto simp: protocol_inv_def cell_inv_def)
  with publish show ?case by (intro rewrite_cell_inv) auto
next
  case (withdrawn i s)
  then have "readers s i = {}" by (auto simp: protocol_inv_def cell_inv_def)
  with withdrawn show ?case by (intro rewrite_cell_inv) auto
next
  case (reference_begin k i s l)
  then show ?case
    by (auto simp: log_defs log_agrees split: if_splits intro!: set_log_inv)
next
  case (reference k i s)
  then show ?case by (intro reference_inv) auto
next
  case (reference_commit k i s l)
  then show ?case
    by (auto simp: log_defs log_agrees split: if_splits intro!: set_log_inv)
next
  case (reference_abort k i s l)
  then show ?case
    by (auto simp: log_defs log_agrees split: if_splits intro!: set_log_inv)
next
  case (dereference_begin k i s l)
  then show ?case
    by (auto simp: log_defs log_agrees split: if_splits intro!: set_log_inv)
next
  case (dereference k i s)
  then show ?case by (intro dereference_inv) auto
next
  case (dereference_commit k i s l)
  then show ?case
    by (auto simp: log_defs log_agrees split: if_splits intro!: set_log_inv)
qed

interpretation protocol: memory_protocol "protocol_step N" "protocol_inv N" for N
  by unfold_locales (rule protocol_step_inv)

subsection \<open>Counts are exact in every reachable state\<close>

definition protocol_start :: "nat \<Rightarrow> protocol_state" where
  "protocol_start n = \<lparr>cells = replicate n INVALID, proxy_log = (\<lambda>_. TransactionLog n), owners = {}\<rparr>"

text \<open>
  Property C8: start with \<open>n\<close> invalid slots and empty logs of \<open>N\<close> participants, and let them act
  in any interleaving, with a stop of any of them at any point. Then the reference count of every
  slot is exactly the number of participants whose increment is pending, so at most \<open>N\<close>, and a
  slot in writing has no reader. So the increment of \<open>ReferenceNextEvent\<close>, which has no overflow
  test, never carries into the timestamp for fewer than \<open>2^32 - 1\<close> participants.
\<close>

theorem reference_counts_are_exact:
  assumes "(protocol_step N)\<^sup>*\<^sup>* (protocol_start n) s" and "N < 2 ^ 32 - 1" and "i < length (cells s)"
  shows "if IsInWriting (cells s ! i) then readers s i = {}
    else unat (GetReferenceCount (cells s ! i)) = card (readers s i) \<and> card (readers s i) \<le> N \<and>
      GetTimeStamp (cells s ! i + 1) = GetTimeStamp (cells s ! i)"
proof -
  have inv: "protocol_inv N s"
    using protocol.steps_keep [OF assms(1)] initial_protocol_inv [OF assms(2)]
    by (simp add: protocol_start_def)
  show ?thesis
  proof (cases "IsInWriting (cells s ! i)")
    case True
    with inv assms(3) show ?thesis by (simp add: protocol_inv_def cell_inv_def)
  next
    case False
    from count_below_max [OF inv assms(3) False] readers_bound(3) [OF inv, of i] False
    show ?thesis by (simp add: halves_plus_one)
  qed
qed

theorem reference_counts_are_exact_witness:
  "\<exists>s. (protocol_step 2)\<^sup>*\<^sup>* (protocol_start 1) s \<and> cells s = [EventSlotStatus 1 0] \<and> card (readers s 0) = 0"
proof -
  let ?s0 = "protocol_start 1" and ?s1 = "set_cell 0 IN_WRITING (protocol_start 1)"
  let ?s2 = "set_cell 0 (EventSlotStatus 1 0) ?s1"
  have "protocol_step 2 ?s0 ?s1"
    by (rule protocol_step.allocate) (simp_all add: protocol_start_def)
  moreover have "protocol_step 2 ?s1 ?s2"
    by (rule protocol_step.publish) (simp_all add: protocol_start_def set_cell_def)
  ultimately have run: "(protocol_step 2)\<^sup>*\<^sup>* ?s0 ?s2" by simp
  have cells: "cells ?s2 = [EventSlotStatus 1 0]" by (simp add: protocol_start_def set_cell_def)
  have "\<not> IsInWriting (EventSlotStatus 1 0)" by (simp add: IsInWriting_iff)
  moreover have "0 < length (cells ?s2)" using cells by simp
  ultimately have "card (readers ?s2 0) = 0"
    using reference_counts_are_exact [OF run, of 0] cells by (simp del: set_cell_simps)
  with run cells show ?thesis by blast
qed

subsection \<open>A held sample does not change\<close>

lemma held_step:
  assumes "protocol_inv N s" and "protocol_step N s s'" and "k < N" and "i < length (cells s)"
    and "slot_phase (proxy_log s k) i = Held"
  shows "GetTimeStamp (cells s' ! i) = GetTimeStamp (cells s ! i) \<and> length (cells s') = length (cells s)"
proof -
  have owner: "(k, i) \<in> owners s"
    using log_agrees(3) [OF assms(1,3), of i] assms by (simp add: protocol_inv_def log_inv_def)
  then have k: "k \<in> readers s i" by (simp add: readers_def)
  have cell: "cell_inv s i" using assms(1,4) by (simp add: protocol_inv_def)
  with k have nw: "\<not> IsInWriting (cells s ! i)" by (auto simp: cell_inv_def)
  note count = count_below_max [OF assms(1,4) nw]
  have nz: "GetReferenceCount (cells s ! i) \<noteq> 0"
    using count(1) k readers_bound(2) [OF assms(1), of i] by auto
  have used: "IsUsed (cells s ! i)" using nz by (simp add: IsUsed_def)
  from assms(2) show ?thesis
  proof (cases rule: protocol_step.cases)
    case (allocate j)
    with used show ?thesis by (cases "j = i") auto
  next
    case (publish j ts)
    with nw show ?thesis by (cases "j = i") auto
  next
    case (withdrawn j)
    with nw show ?thesis by (cases "j = i") auto
  next
    case (reference j m)
    with count(2) assms(4) show ?thesis
      by (cases "m = i") (auto simp: set_cell_def halves_plus_one nth_list_update)
  next
    case (dereference j m)
    with nz assms(4) show ?thesis
      by (cases "m = i") (auto simp: set_cell_def halves_minus_one nth_list_update)
  qed simp_all
qed

text \<open>Any number of steps of anybody, during which the log of \<open>k\<close> goes on holding slot \<open>i\<close>.\<close>

definition while_held :: "nat \<Rightarrow> nat \<Rightarrow> nat \<Rightarrow> protocol_state \<Rightarrow> protocol_state \<Rightarrow> bool" where
  "while_held N k i = (\<lambda>s s'. protocol_step N s s' \<and> slot_phase (proxy_log s' k) i = Held)\<^sup>*\<^sup>*"

lemma while_held_keeps:
  assumes "while_held N k i s s'" and "protocol_inv N s" and "k < N" and "i < length (cells s)"
    and "slot_phase (proxy_log s k) i = Held"
  shows "GetTimeStamp (cells s' ! i) = GetTimeStamp (cells s ! i) \<and> length (cells s') = length (cells s) \<and>
    protocol_inv N s' \<and> slot_phase (proxy_log s' k) i = Held"
  using assms(1) unfolding while_held_def
proof (induction rule: rtranclp_induct)
  case base
  with assms show ?case by simp
next
  case (step s1 s2)
  with held_step [of N s1 s2 k i] assms(3,4) protocol_step_inv [of N s1 s2] show ?case by auto
qed

text \<open>
  Property C7: while the log of a proxy holds a slot, nothing that the skeleton or the other
  proxies do in any interleaving makes that slot writable or changes its timestamp: the sample
  the proxy reads is not overwritten under its hands.
\<close>

theorem held_sample_is_stable:
  assumes "protocol_inv N s" and "k < N" and "i < length (cells s)"
    and "slot_phase (proxy_log s k) i = Held" and "while_held N k i s s'"
  shows "GetTimeStamp (cells s' ! i) = GetTimeStamp (cells s ! i) \<and> \<not> IsInWriting (cells s' ! i) \<and>
    IsUsed (cells s' ! i)"
proof -
  note kept = while_held_keeps [OF assms(5,1-4)]
  have i: "i < length (cells s')" using kept assms(3) by simp
  have "(k, i) \<in> owners s'"
    using kept assms(2) i by (simp add: protocol_inv_def log_inv_def)
  then have k: "k \<in> readers s' i" by (simp add: readers_def)
  then have nw: "\<not> IsInWriting (cells s' ! i)"
    using kept i by (auto simp: protocol_inv_def cell_inv_def)
  have inv: "protocol_inv N s'" using kept by simp
  have "GetReferenceCount (cells s' ! i) \<noteq> 0"
    using count_below_max(1) [OF inv i nw] k readers_bound(2) [OF inv, of i] by auto
  with kept nw show ?thesis by (simp add: IsUsed_def)
qed

definition one_held_state :: protocol_state where
  "one_held_state = \<lparr>cells = [EventSlotStatus 3 1, INVALID],
     proxy_log = (\<lambda>k. if k = 0 then set_phase 0 Held (TransactionLog 2) else TransactionLog 2),
     owners = {(0, 0)}\<rparr>"

lemma one_held_inv: "protocol_inv 2 one_held_state"
proof -
  have "readers one_held_state 0 = {0}" "readers one_held_state (Suc 0) = {}"
    by (auto simp: readers_def one_held_state_def)
  then have "cell_inv one_held_state 0" "cell_inv one_held_state (Suc 0)"
    by (simp_all add: cell_inv_def one_held_state_def IsInWriting_iff)
  then show ?thesis
    by (auto simp: protocol_inv_def log_inv_def one_held_state_def TransactionLog_empty less_Suc_eq)
qed

theorem held_sample_is_stable_witness:
  "while_held 2 0 0 one_held_state (set_cell 1 IN_WRITING one_held_state) \<and>
   GetTimeStamp (cells (set_cell 1 IN_WRITING one_held_state) ! 0) = 3"
proof -
  let ?s = "set_cell 1 IN_WRITING one_held_state"
  have "protocol_step 2 one_held_state ?s"
    by (rule protocol_step.allocate) (simp_all add: one_held_state_def)
  moreover have held: "slot_phase (proxy_log one_held_state 0) 0 = Held"
    by (simp add: one_held_state_def TransactionLog_empty)
  ultimately have run: "while_held 2 0 0 one_held_state ?s"
    by (auto simp: while_held_def)
  from held_sample_is_stable [OF one_held_inv _ _ held run] run show ?thesis
    by (simp add: one_held_state_def)
qed

subsection \<open>Enough slots\<close>

lemma some_slot_unread:
  assumes "protocol_inv N s" and "card (owners s) + card B < length (cells s)" and "finite B"
  shows "\<exists>i < length (cells s). i \<notin> B \<and> readers s i = {}"
proof (rule ccontr)
  assume "\<not> ?thesis"
  then have "{..<length (cells s)} \<subseteq> snd ` owners s \<union> B"
    by (force simp: readers_def)
  moreover have fin: "finite (owners s)"
    using assms(1) unfolding protocol_inv_def by (meson finite_SigmaI finite_lessThan finite_subset)
  ultimately have "length (cells s) \<le> card (snd ` owners s \<union> B)"
    using card_mono [of "snd ` owners s \<union> B" "{..<length (cells s)}"] assms(3) by simp
  also have "\<dots> \<le> card (snd ` owners s) + card B" by (rule card_Un_le)
  also have "\<dots> \<le> card (owners s) + card B" using card_image_le [OF fin, of snd] by simp
  finally show False using assms(2) by simp
qed

lemma owners_by_proxy:
  assumes "protocol_inv N s"
  shows "card (owners s) = (\<Sum>k<N. card {i. (k, i) \<in> owners s})"
proof -
  have sub: "owners s \<subseteq> {..<N} \<times> {..<length (cells s)}"
    using assms by (simp add: protocol_inv_def)
  then have "owners s = Sigma {..<N} (\<lambda>k. {i. (k, i) \<in> owners s})"
    by blast
  moreover have "finite {i. (k, i) \<in> owners s}" for k
    by (rule finite_subset [of _ "{..<length (cells s)}"]) (use sub in auto)
  ultimately show ?thesis
    using card_SigmaI [of "{..<N}" "\<lambda>k. {i. (k, i) \<in> owners s}"] by (metis finite_lessThan)
qed

text \<open>Slots that cannot be taken whoever reads them: those in writing, and those whose timestamp is used up.\<close>

definition blocked :: "u64 list \<Rightarrow> nat set" where
  "blocked ss = {i. i < length ss \<and> (IsInWriting (ss ! i) \<or> GetTimeStamp (ss ! i) = TIMESTAMP_MAX)}"

lemma not_blocked:
  assumes "i < length ss" and "i \<notin> blocked ss"
  shows "\<not> IsInWriting (ss ! i)" and "GetTimeStamp (ss ! i) < TIMESTAMP_MAX"
proof -
  have "(- 1 :: u32) = TIMESTAMP_MAX" by (simp add: TIMESTAMP_MAX_def)
  then show "\<not> IsInWriting (ss ! i)" "GetTimeStamp (ss ! i) < TIMESTAMP_MAX"
    using assms word_order.not_eq_extremum [of "GetTimeStamp (ss ! i)"] by (auto simp: blocked_def)
qed

text \<open>
  Property C14: the configuration rule of \<open>AllocateNextSlot\<close>. If every participant \<open>k\<close> uses at
  most \<open>quota k\<close> samples, and there are more slots than the quotas and the slots that cannot be taken
  at all (in writing, or with the maximal timestamp) add up to, then an \<open>AllocateNextSlot\<close> that
  nobody disturbs returns a slot, and no participant uses it. (Under contention this is not so: every
  attempt may lose its slot to a consumer.)
\<close>

theorem allocation_succeeds_with_enough_slots:
  assumes "protocol_inv N s" and "quiet w" and "mem w c = cells s"
    and "\<forall>k < N. card {i. (k, i) \<in> owners s} \<le> quota k"
    and "(\<Sum>k<N. quota k) + card (blocked (cells s)) < length (cells s)"
  shows "\<exists>i w'. AllocateNextSlot c w = Some (Some i, w') \<and> i < length (cells s) \<and> readers s i = {}"
proof -
  have "card (owners s) \<le> (\<Sum>k<N. quota k)"
    unfolding owners_by_proxy [OF assms(1)] using assms(4) by (intro sum_mono) simp
  then have "card (owners s) + card (blocked (cells s)) < length (cells s)"
    using assms(5) by simp
  moreover have "finite (blocked (cells s))" by (simp add: blocked_def)
  ultimately obtain j where j: "j < length (cells s)" "j \<notin> blocked (cells s)" "readers s j = {}"
    using some_slot_unread [OF assms(1)] by blast
  note free = not_blocked [OF j(1,2)]
  have "GetReferenceCount (cells s ! j) = 0"
    using count_below_max(1) [OF assms(1) j(1) free(1)] j(3) by (simp add: unat_eq_0)
  then have "reusable (cells s ! j)"
    using free by (simp add: reusable_def not_IsUsed_iff)
  then obtain i w' where "AllocateNextSlot c w = Some (Some i, w')" "oldest_unused (mem w c) i"
    using AllocateNextSlot_quiet [OF assms(2), of c] j(1) assms(3) by (auto split: option.splits)
  then show ?thesis
    using unused_no_readers [OF assms(1), of i] assms(3)
    by (auto simp: oldest_unused_def reusable_def)
qed

theorem allocation_succeeds_with_enough_slots_witness:
  "\<exists>i w'. AllocateNextSlot () (idle_world (cells one_held_state)) = Some (Some i, w') \<and>
     readers one_held_state i = {}"
proof -
  have q: "card {i. (k, i) \<in> owners one_held_state} \<le> (if k = 0 then 1 else 0)" for k
    by (simp add: one_held_state_def)
  have "\<forall>i < length (cells one_held_state). \<not> IsInWriting (cells one_held_state ! i) \<and>
      GetTimeStamp (cells one_held_state ! i) < TIMESTAMP_MAX"
    by (auto simp: one_held_state_def less_Suc_eq IsInWriting_iff TIMESTAMP_MAX_def)
  then have "blocked (cells one_held_state) = {}"
    by (auto simp: blocked_def)
  then have sum: "(\<Sum>k<(2 :: nat). if k = 0 then 1 else 0 :: nat) + card (blocked (cells one_held_state))
      < length (cells one_held_state)"
    by (simp add: one_held_state_def numeral_2_eq_2)
  have w: "quiet (idle_world (cells one_held_state))"
    "mem (idle_world (cells one_held_state)) () = cells one_held_state"
    by (simp_all add: idle_world_def)
  from allocation_succeeds_with_enough_slots [OF one_held_inv w, of "\<lambda>k. if k = 0 then 1 else 0"] q sum
  show ?thesis by blast
qed

subsection \<open>The operations of the code are made of these steps\<close>

text \<open>The control block \<open>c\<close> of a world, and the log of participant \<open>k\<close>, as a protocol state.\<close>

definition shows_state :: "'c \<Rightarrow> nat \<Rightarrow> 'c slot_memory \<Rightarrow> transaction_log \<Rightarrow> protocol_state \<Rightarrow> bool" where
  "shows_state c k m l s \<longleftrightarrow> cells s = m c \<and> proxy_log s k = l"

lemma allocation_is_a_step:
  assumes "\<not> IsUsed (m c ! i)" and "i < length (m c)" and "m' = put_slot c i IN_WRITING m"
    and "shows_state c k m l s"
  shows "\<exists>s'. protocol_step N s s' \<and> shows_state c k m' l s'"
proof -
  have "protocol_step N s (set_cell i IN_WRITING s)"
    using assms by (intro protocol_step.allocate) (auto simp: shows_state_def)
  moreover have "shows_state c k m' l (set_cell i IN_WRITING s)"
    using assms by (auto simp: shows_state_def set_cell_def put_slot_def)
  ultimately show ?thesis by blast
qed

lemma taking_a_reference_is_steps:
  assumes "took_reference c i m w' l l'" and "shows_state c k m l s" and "protocol_inv N s" and "k < N"
    and "\<not> IsInWriting (m c ! i)" and "\<not> IsInvalid (m c ! i)"
  shows "\<exists>s'. (protocol_step N)\<^sup>*\<^sup>* s s' \<and> shows_state c k (mem w') l' s' \<and>
    owners s' = insert (k, i) (owners s)"
proof -
  have i: "i < num_slots l" "slot_phase l i = Free" "proxy_log s k = l" "cells s = m c"
    and l': "l' = set_phase i Held l" and m': "mem w' = put_slot c i (m c ! i + 1) m"
    using assms(1,2) by (auto simp: took_reference_def shows_state_def)
  have len: "i < length (cells s)" and free: "(k, i) \<notin> owners s"
    using log_agrees [OF assms(3,4), of i] i by auto
  let ?s1 = "set_log k (set_phase i Incrementing l) s"
  let ?s2 = "set_cell i (cells ?s1 ! i + 1) (?s1\<lparr>owners := insert (k, i) (owners ?s1)\<rparr>)"
  let ?s3 = "set_log k (set_phase i Held l) ?s2"
  have "protocol_step N s ?s1"
    using assms(4) i by (intro protocol_step.reference_begin [of _ _ i]) (auto simp: log_defs)
  moreover have "protocol_step N ?s1 ?s2"
    using assms(4-6) i len free by (intro protocol_step.reference) auto
  moreover have "protocol_step N ?s2 ?s3"
    using assms(4) i by (intro protocol_step.reference_commit [of _ _ i]) (auto simp: log_defs set_log_def)
  ultimately have "(protocol_step N)\<^sup>*\<^sup>* s ?s3" by (meson converse_rtranclp_into_rtranclp rtranclp.rtrancl_refl)
  moreover have "shows_state c k (mem w') l' ?s3"
    using i l' m' by (simp add: shows_state_def set_cell_def set_log_def put_slot_def)
  moreover have "owners ?s3 = insert (k, i) (owners s)" by (simp add: set_cell_def set_log_def)
  ultimately show ?thesis by blast
qed

lemma giving_a_reference_back_is_steps:
  assumes "shows_state c k m l s" and "protocol_inv N s" and "k < N"
    and "i < num_slots l" and "slot_phase l i = Held" and "mem w' = put_slot c i (m c ! i - 1) m"
  shows "\<exists>s'. (protocol_step N)\<^sup>*\<^sup>* s s' \<and> shows_state c k (mem w') (set_phase i Free l) s' \<and>
    owners s' = owners s - {(k, i)}"
proof -
  have i: "proxy_log s k = l" "cells s = m c" using assms(1) by (auto simp: shows_state_def)
  have len: "i < length (cells s)" and own: "(k, i) \<in> owners s"
    using log_agrees [OF assms(2,3), of i] assms(4,5) i by auto
  let ?s1 = "set_log k (set_phase i Decrementing l) s"
  let ?s2 = "set_cell i (cells ?s1 ! i - 1) (?s1\<lparr>owners := owners ?s1 - {(k, i)}\<rparr>)"
  let ?s3 = "set_log k (set_phase i Free l) ?s2"
  have "protocol_step N s ?s1"
    using assms(3-5) i by (intro protocol_step.dereference_begin [of _ _ i]) (auto simp: log_defs)
  moreover have "protocol_step N ?s1 ?s2"
    using assms(3,4) i len own by (intro protocol_step.dereference) auto
  moreover have "protocol_step N ?s2 ?s3"
    using assms(3,4) i by (intro protocol_step.dereference_commit [of _ _ i]) (auto simp: log_defs set_log_def)
  ultimately have "(protocol_step N)\<^sup>*\<^sup>* s ?s3" by (meson converse_rtranclp_into_rtranclp rtranclp.rtrancl_refl)
  moreover have "shows_state c k (mem w') (set_phase i Free l) ?s3"
    using i assms(6) by (simp add: shows_state_def set_cell_def set_log_def put_slot_def)
  moreover have "owners ?s3 = owners s - {(k, i)}" by (simp add: set_cell_def set_log_def)
  ultimately show ?thesis by blast
qed

text \<open>
  Property C13: \<open>ReferenceNextEvent\<close> refines the protocol. At some moment \<open>m\<close> of the run, its whole
  effect on slots and log is a sequence of protocol steps of one participant \<open>p\<close>, at whose end
  this participant owns the returned slot.
\<close>

theorem reference_refines_protocol:
  assumes "rely R w" and "keeps_size c R" and "ReferenceNextEvent c lo k hi t w = Some (Some i, t', w')"
  shows "\<exists>m l l'. R\<^sup>*\<^sup>* (mem w) m \<and> GetTransactionLog k t = Some l \<and> GetTransactionLog k t' = Some l' \<and>
    (\<forall>N p s. shows_state c p m l s \<and> protocol_inv N s \<and> p < N \<longrightarrow>
       (\<exists>s'. (protocol_step N)\<^sup>*\<^sup>* s s' \<and> shows_state c p (mem w') l' s' \<and>
          owners s' = insert (p, i) (owners s)))"
proof -
  from ReferenceNextEvent_outcome [OF assms] obtain m l l' where
    m: "R\<^sup>*\<^sup>* (mem w) m" "GetTransactionLog k t = Some l" "GetTransactionLog k t' = Some l'"
    and took: "took_reference c i m w' l l'" and b: "IsTimeStampBetween (m c ! i) lo hi"
    by (auto simp: reference_outcome_def)
  have "\<not> IsInWriting (m c ! i)" "\<not> IsInvalid (m c ! i)"
    using b by (simp_all add: IsTimeStampBetween_def)
  with m taking_a_reference_is_steps [OF took] show ?thesis
    by (intro exI [of _ m] exI [of _ l] exI [of _ l']) blast
qed

theorem reference_refines_protocol_witness:
  "\<exists>t' w'. ReferenceNextEvent () 4 0 TIMESTAMP_MAX one_reader_logs colliding_world = Some (Some 1, t', w') \<and>
     (\<exists>m l l'. GetTransactionLog 0 one_reader_logs = Some l \<and> GetTransactionLog 0 t' = Some l' \<and>
       (\<forall>N p s. shows_state () p m l s \<and> protocol_inv N s \<and> p < N \<longrightarrow>
         (\<exists>s'. (protocol_step N)\<^sup>*\<^sup>* s s' \<and> shows_state () p (mem w') l' s')))"
proof -
  obtain t' w' where run: "ReferenceNextEvent () 4 0 TIMESTAMP_MAX one_reader_logs colliding_world = Some (Some 1, t', w')"
    using colliding_run by blast
  from reference_refines_protocol [OF colliding_rely run] obtain m l l' where
    logs: "GetTransactionLog 0 one_reader_logs = Some l" "GetTransactionLog 0 t' = Some l'"
    and steps: "\<forall>N p s. shows_state () p m l s \<and> protocol_inv N s \<and> p < N \<longrightarrow>
         (\<exists>s'. (protocol_step N)\<^sup>*\<^sup>* s s' \<and> shows_state () p (mem w') l' s' \<and>
            owners s' = insert (p, 1) (owners s))"
    by (elim exE conjE)
  from steps have "\<forall>N p s. shows_state () p m l s \<and> protocol_inv N s \<and> p < N \<longrightarrow>
         (\<exists>s'. (protocol_step N)\<^sup>*\<^sup>* s s' \<and> shows_state () p (mem w') l' s')"
    by (meson)
  with run logs show ?thesis by (intro exI conjI)
qed

text \<open>
  \<open>DereferenceEvent\<close> refines the protocol. A call that returns found the slot held in
  the caller's log, and its whole effect is a sequence of protocol steps of one participant, at
  whose end this participant no longer owns the slot.
\<close>

lemma dereference_refines_protocol:
  assumes "rely R w" and "DereferenceEvent c i k t w = Some (t', w')"
  shows "\<exists>m l l'. R\<^sup>*\<^sup>* (mem w) m \<and> GetTransactionLog k t = Some l \<and> GetTransactionLog k t' = Some l' \<and>
    slot_phase l i = Held \<and>
    (\<forall>N p s. shows_state c p m l s \<and> protocol_inv N s \<and> p < N \<longrightarrow>
       (\<exists>s'. (protocol_step N)\<^sup>*\<^sup>* s s' \<and> shows_state c p (mem w') l' s' \<and>
          owners s' = owners s - {(p, i)}))"
proof -
  from DereferenceEvent_outcome [OF assms] obtain m l where m: "R\<^sup>*\<^sup>* (mem w) m"
    "GetTransactionLog k t = Some l" "i < num_slots l" "slot_phase l i = Held"
    "mem w' = put_slot c i (m c ! i - 1) m" "t' = PutTransactionLog k (set_phase i Free l) t"
    by blast
  have "GetTransactionLog k t' = Some (set_phase i Free l)"
    using m(2,6) by (simp add: logs.get_put_same)
  with m giving_a_reference_back_is_steps [OF _ _ _ m(3,4,5)] show ?thesis
    by (intro exI [of _ m] exI [of _ l] exI [of _ "set_phase i Free l"]) blast
qed

end
