(* ===== verification/Event_Data_Control_Composite.thy ===== *)
theory Event_Data_Control_Composite
  imports Slot_Reference
begin

text \<open>
  \<open>EventDataControlComposite\<close> (event_data_control_composite.h/.cpp): a skeleton that serves QM and
  ASIL-B consumers keeps one control block for each and allocates a slot in both at once. When
  that fails, which by design only misbehaving QM consumers can cause, the QM block is given up
  for good and allocation goes on in the ASIL-B block alone.

  The two blocks are addresses in one memory. A pointer is an optional address; using a null
  pointer ends the process. Both blocks have the same number of slots in the code's use; the
  loops run over the slots of the ASIL-B block.
\<close>

subsection \<open>Definitions\<close>

definition MAX_MULTI_ALLOCATE_COUNT :: nat where
  "MAX_MULTI_ALLOCATE_COUNT = 100"

record 'c edc_composite =
  asil_qm_control :: "'c option"
  asil_b_control :: "'c option"
  ignore_qm_control :: bool

definition CheckForValidDataControls :: "'c edc_composite \<Rightarrow> unit run" where
  "CheckForValidDataControls cc = (if asil_qm_control cc = None then None else Some ())"

definition EventDataControlComposite_qm :: "'c option \<Rightarrow> 'c edc_composite run" where
  "EventDataControlComposite_qm qm = do {
     let cc = \<lparr>asil_qm_control = qm, asil_b_control = None, ignore_qm_control = False\<rparr>;
     CheckForValidDataControls cc;
     Some cc }"

definition EventDataControlComposite :: "'c option \<Rightarrow> 'c option \<Rightarrow> 'c edc_composite run" where
  "EventDataControlComposite qm b = do {
     let cc = \<lparr>asil_qm_control = qm, asil_b_control = b, ignore_qm_control = False\<rparr>;
     CheckForValidDataControls cc;
     Some cc }"

definition cas_slot_strong :: "'c \<Rightarrow> nat \<Rightarrow> u64 \<Rightarrow> u64 \<Rightarrow> 'c edc_world \<Rightarrow> bool \<times> u64 \<times> 'c edc_world" where
  "cas_slot_strong c i expected desired w =
     compare_exchange_strong (get_slot c i) (put_slot c i) expected desired w"

fun GetNextFreeMultiSlot_loop ::
    "'c \<Rightarrow> 'c \<Rightarrow> nat list \<Rightarrow> u32 \<Rightarrow> nat option \<Rightarrow> 'c edc_world \<Rightarrow> nat option \<times> u32 \<times> 'c edc_world" where
  "GetNextFreeMultiSlot_loop qm b [] oldest_time_stamp possible_index w = (possible_index, oldest_time_stamp, w)"
| "GetNextFreeMultiSlot_loop qm b (slot_index # idxs) oldest_time_stamp possible_index w =
     (let (slot_qm, w) = load_slot qm slot_index w;
          (slot_b, w) = load_slot b slot_index w
      in if IsInvalid slot_b \<or> (\<not> IsUsed slot_qm \<and> \<not> IsUsed slot_b) then
           (if GetTimeStamp slot_b < oldest_time_stamp
            then GetNextFreeMultiSlot_loop qm b idxs (GetTimeStamp slot_b) (Some slot_index) w
            else GetNextFreeMultiSlot_loop qm b idxs oldest_time_stamp possible_index w)
         else GetNextFreeMultiSlot_loop qm b idxs oldest_time_stamp possible_index w)"

definition GetNextFreeMultiSlot :: "'c \<Rightarrow> 'c \<Rightarrow> 'c edc_world \<Rightarrow> (nat \<times> u32) option \<times> 'c edc_world" where
  "GetNextFreeMultiSlot qm b w =
     (let (possible_index, oldest_time_stamp, w) =
        GetNextFreeMultiSlot_loop qm b [0..<num_slots_of b w] TIMESTAMP_MAX None w
      in (case possible_index of
            Some i \<Rightarrow> (Some (i, oldest_time_stamp), w)
          | None \<Rightarrow> (None, w)))"

definition TryLockSlot :: "'c \<Rightarrow> 'c \<Rightarrow> nat \<Rightarrow> u32 \<Rightarrow> 'c edc_world \<Rightarrow> bool \<times> 'c edc_world" where
  "TryLockSlot qm b slot expected_time_stamp w =
     (let (asil_qm_old, w) = load_slot qm slot w;
          (asil_b_old, w) = load_slot b slot w
      in if (IsUsed asil_qm_old \<or> GetTimeStamp asil_qm_old > expected_time_stamp) \<or>
            (IsUsed asil_b_old \<or> GetTimeStamp asil_b_old > expected_time_stamp)
         then (False, w)
         else let in_writing = MarkInWriting 0;
                  (ok_qm, _, w) = cas_slot_strong qm slot asil_qm_old in_writing w
              in if \<not> ok_qm then (False, w)
                 else let (ok_b, _, w) = cas_slot_strong b slot asil_b_old in_writing w
                      in if \<not> ok_b then (False, store_slot qm slot asil_qm_old w)
                         else (True, w))"

definition AllocateNextMultiSlot_body :: "'c \<Rightarrow> 'c \<Rightarrow> 'c edc_world \<Rightarrow> (nat option \<times> 'c edc_world) run" where
  "AllocateNextMultiSlot_body qm b w =
     (let (possible_slot, w) = GetNextFreeMultiSlot qm b w
      in case possible_slot of
           Some (slot_index, time_stamp) \<Rightarrow>
             (let (locked, w) = TryLockSlot qm b slot_index time_stamp w
              in if locked then Some (Some slot_index, w) else Some (None, w))
         | None \<Rightarrow> Some (None, w))"

definition AllocateNextMultiSlot :: "'c \<Rightarrow> 'c \<Rightarrow> 'c edc_world \<Rightarrow> (nat option \<times> 'c edc_world) run" where
  "AllocateNextMultiSlot qm b w = do {
     (slot, _, w) \<leftarrow> for_retry (AllocateNextMultiSlot_body qm b) MAX_MULTI_ALLOCATE_COUNT 0 w;
     Some (slot, w) }"

definition Composite_AllocateNextSlot ::
    "'c edc_composite \<Rightarrow> 'c edc_world \<Rightarrow> (nat option \<times> bool \<times> 'c edc_composite \<times> 'c edc_world) run" where
  "Composite_AllocateNextSlot cc w =
     (case asil_b_control cc of
        Some b \<Rightarrow>
          (if \<not> ignore_qm_control cc then do {
             qm \<leftarrow> asil_qm_control cc;
             (slot, w) \<leftarrow> AllocateNextMultiSlot qm b w;
             (if slot = None then do {
                let cc = cc\<lparr>ignore_qm_control := True\<rparr>;
                (slot, w) \<leftarrow> AllocateNextSlot b w;
                Some (slot, ignore_qm_control cc, cc, w) }
              else Some (slot, ignore_qm_control cc, cc, w)) }
           else do {
             (slot, w) \<leftarrow> AllocateNextSlot b w;
             Some (slot, True, cc, w) })
      | None \<Rightarrow> do {
          qm \<leftarrow> asil_qm_control cc;
          (slot, w) \<leftarrow> AllocateNextSlot qm w;
          Some (slot, False, cc, w) })"

definition on_control :: "'c option \<Rightarrow> ('c \<Rightarrow> 'c edc_world \<Rightarrow> 'c edc_world) \<Rightarrow> 'c edc_world \<Rightarrow> 'c edc_world" where
  "on_control p f w = (case p of Some c \<Rightarrow> f c w | None \<Rightarrow> w)"

definition Composite_EventReady ::
    "'c edc_composite \<Rightarrow> nat \<Rightarrow> u32 \<Rightarrow> 'c edc_world \<Rightarrow> 'c edc_world run" where
  "Composite_EventReady cc slot time_stamp w =
     (let w = on_control (asil_b_control cc) (\<lambda>b. EventReady b slot time_stamp) w
      in if \<not> ignore_qm_control cc
         then do { qm \<leftarrow> asil_qm_control cc; Some (EventReady qm slot time_stamp w) }
         else Some w)"

definition Composite_Discard :: "'c edc_composite \<Rightarrow> nat \<Rightarrow> 'c edc_world \<Rightarrow> 'c edc_world run" where
  "Composite_Discard cc slot w =
     (let w = on_control (asil_b_control cc) (\<lambda>b. Discard b slot) w
      in if \<not> ignore_qm_control cc
         then do { qm \<leftarrow> asil_qm_control cc; Some (Discard qm slot w) }
         else Some w)"

definition IsQmControlDisconnected :: "'c edc_composite \<Rightarrow> bool" where
  "IsQmControlDisconnected cc = ignore_qm_control cc"

definition GetQmEventDataControl :: "'c edc_composite \<Rightarrow> 'c run" where
  "GetQmEventDataControl cc = asil_qm_control cc"

definition GetAsilBEventDataControl :: "'c edc_composite \<Rightarrow> 'c option" where
  "GetAsilBEventDataControl cc = asil_b_control cc"

definition GetEventSlotTimestamp :: "'c edc_composite \<Rightarrow> nat \<Rightarrow> 'c edc_world \<Rightarrow> (u32 \<times> 'c edc_world) run" where
  "GetEventSlotTimestamp cc slot w =
     (case asil_b_control cc of
        Some b \<Rightarrow> (let (event_slot_status, w) = slot_at b slot w in Some (GetTimeStamp event_slot_status, w))
      | None \<Rightarrow> do {
          qm \<leftarrow> asil_qm_control cc;
          let (event_slot_status, w) = slot_at qm slot w;
          Some (GetTimeStamp event_slot_status, w) })"

fun GetLatestTimestamp_loop :: "'c \<Rightarrow> nat list \<Rightarrow> u32 \<Rightarrow> 'c edc_world \<Rightarrow> u32 \<times> 'c edc_world" where
  "GetLatestTimestamp_loop c [] latest_time_stamp w = (latest_time_stamp, w)"
| "GetLatestTimestamp_loop c (slot_index # idxs) latest_time_stamp w =
     (let (slot, w) = load_slot c slot_index w
      in if \<not> IsInvalid slot \<and> \<not> IsInWriting slot \<and> latest_time_stamp < GetTimeStamp slot
         then GetLatestTimestamp_loop c idxs (GetTimeStamp slot) w
         else GetLatestTimestamp_loop c idxs latest_time_stamp w)"

definition GetLatestTimestamp :: "'c edc_composite \<Rightarrow> 'c edc_world \<Rightarrow> (u32 \<times> 'c edc_world) run" where
  "GetLatestTimestamp cc w = do {
     control \<leftarrow> (case asil_b_control cc of Some b \<Rightarrow> Some b | None \<Rightarrow> asil_qm_control cc);
     Some (GetLatestTimestamp_loop control [0..<num_slots_of control w] 1 w) }"

subsection \<open>Which slot is free in both blocks\<close>

definition free_multi :: "u64 list \<Rightarrow> u64 list \<Rightarrow> nat \<Rightarrow> bool" where
  "free_multi qs bs i \<longleftrightarrow>
     (IsInvalid (bs ! i) \<or> (\<not> IsUsed (qs ! i) \<and> \<not> IsUsed (bs ! i))) \<and> GetTimeStamp (bs ! i) < TIMESTAMP_MAX"

lemma GetNextFreeMultiSlot_loop_quiet:
  "quiet w \<Longrightarrow> GetNextFreeMultiSlot_loop qm b idxs ts sel w =
     (let (sel', ts') = scan_min
        (\<lambda>i. IsInvalid (mem w b ! i) \<or> (\<not> IsUsed (mem w qm ! i) \<and> \<not> IsUsed (mem w b ! i)))
        (\<lambda>i. GetTimeStamp (mem w b ! i)) idxs (sel, ts)
      in (sel', ts', w))"
  by (induction idxs arbitrary: ts sel) auto

text \<open>A slot that \<open>TryLockSlot\<close> accepts in a quiet world.\<close>

definition lockable :: "u64 list \<Rightarrow> u64 list \<Rightarrow> nat \<Rightarrow> bool" where
  "lockable qs bs i \<longleftrightarrow>
     first_minimal (free_multi qs bs) (\<lambda>i. GetTimeStamp (bs ! i)) (length bs) i \<and>
     \<not> IsUsed (qs ! i) \<and> \<not> IsUsed (bs ! i) \<and> GetTimeStamp (qs ! i) \<le> GetTimeStamp (bs ! i)"

subsection \<open>Without interference\<close>

lemma GetNextFreeMultiSlot_quiet:
  assumes "quiet w"
  shows "\<exists>r. GetNextFreeMultiSlot qm b w = (r, w) \<and>
    (case r of
       None \<Rightarrow> \<forall>j < length (mem w b). \<not> free_multi (mem w qm) (mem w b) j
     | Some (i, ts) \<Rightarrow> ts = GetTimeStamp (mem w b ! i) \<and>
         first_minimal (free_multi (mem w qm) (mem w b)) (\<lambda>i. GetTimeStamp (mem w b ! i)) (length (mem w b)) i)"
proof -
  let ?P = "\<lambda>i. IsInvalid (mem w b ! i) \<or> (\<not> IsUsed (mem w qm ! i) \<and> \<not> IsUsed (mem w b ! i))"
  let ?f = "\<lambda>i. GetTimeStamp (mem w b ! i)"
  obtain sel ts where scan: "scan_min ?P ?f [0..<length (mem w b)] (None, TIMESTAMP_MAX) = (sel, ts)"
    by fastforce
  have free: "(\<lambda>j. ?P j \<and> ?f j < TIMESTAMP_MAX) = free_multi (mem w qm) (mem w b)"
    by (auto simp: free_multi_def fun_eq_iff)
  have loop: "GetNextFreeMultiSlot_loop qm b [0..<length (mem w b)] TIMESTAMP_MAX None w = (sel, ts, w)"
    using scan assms by (simp add: GetNextFreeMultiSlot_loop_quiet)
  show ?thesis
  proof (cases sel)
    case None
    with scan_min_upt [where P = ?P and f = ?f and n = "length (mem w b)" and bound = TIMESTAMP_MAX] scan
    have "\<forall>j < length (mem w b). \<not> free_multi (mem w qm) (mem w b) j"
      unfolding free_multi_def by simp
    with loop None show ?thesis
      by (auto simp: GetNextFreeMultiSlot_def num_slots_of_def)
  next
    case (Some i)
    with scan_min_upt [where P = ?P and f = ?f and n = "length (mem w b)" and bound = TIMESTAMP_MAX] scan free
    have "ts = ?f i" "first_minimal (free_multi (mem w qm) (mem w b)) ?f (length (mem w b)) i"
      by simp_all
    with loop Some show ?thesis
      by (auto simp: GetNextFreeMultiSlot_def num_slots_of_def)
  qed
qed

lemma cas_slot_strong_quiet [simp]:
  "quiet w \<Longrightarrow> cas_slot_strong c i e d w =
     (if mem w c ! i = e then (True, e, w\<lparr>mem := put_slot c i d (mem w)\<rparr>)
      else (False, mem w c ! i, w))"
  by (simp add: cas_slot_strong_def get_slot_def)

text \<open>The memory after both blocks have been locked.\<close>

definition lock_both :: "'c \<Rightarrow> 'c \<Rightarrow> nat \<Rightarrow> 'c slot_memory \<Rightarrow> 'c slot_memory" where
  "lock_both qm b i m = put_slot b i IN_WRITING (put_slot qm i IN_WRITING m)"

lemma TryLockSlot_quiet:
  assumes "quiet w" and "qm \<noteq> b"
  shows "TryLockSlot qm b i ts w =
    (if \<not> IsUsed (mem w qm ! i) \<and> GetTimeStamp (mem w qm ! i) \<le> ts \<and>
        \<not> IsUsed (mem w b ! i) \<and> GetTimeStamp (mem w b ! i) \<le> ts
     then (True, w\<lparr>mem := lock_both qm b i (mem w)\<rparr>) else (False, w))"
proof -
  have "put_slot qm i v (mem w) b = mem w b" for v
    using assms(2) by (simp add: put_slot_def)
  with assms(1) show ?thesis
    by (auto simp: TryLockSlot_def MarkInWriting_def lock_both_def not_le)
qed

lemma AllocateNextMultiSlot_body_quiet:
  assumes "quiet w" and "qm \<noteq> b"
  shows "if \<exists>i. lockable (mem w qm) (mem w b) i
    then \<exists>i. lockable (mem w qm) (mem w b) i \<and>
      AllocateNextMultiSlot_body qm b w = Some (Some i, w\<lparr>mem := lock_both qm b i (mem w)\<rparr>)
    else AllocateNextMultiSlot_body qm b w = Some (None, w)"
proof -
  let ?min = "first_minimal (free_multi (mem w qm) (mem w b)) (\<lambda>i. GetTimeStamp (mem w b ! i)) (length (mem w b))"
  obtain r where next': "GetNextFreeMultiSlot qm b w = (r, w)"
    and r: "case r of
       None \<Rightarrow> \<forall>j < length (mem w b). \<not> free_multi (mem w qm) (mem w b) j
     | Some (i, ts) \<Rightarrow> ts = GetTimeStamp (mem w b ! i) \<and> ?min i"
    using GetNextFreeMultiSlot_quiet [OF assms(1), of qm b] by blast
  show ?thesis
  proof (cases r)
    case None
    with r have "\<not> lockable (mem w qm) (mem w b) i" for i
      by (auto simp: lockable_def first_minimal_def)
    with next' None show ?thesis by (simp add: AllocateNextMultiSlot_body_def)
  next
    case (Some p)
    then obtain i where p: "r = Some (i, GetTimeStamp (mem w b ! i))" and min: "?min i"
      using r by (cases p) auto
    have unique: "j = i" if "?min j" for j
      using that min unfolding first_minimal_def by (metis leD linorder_neqE_nat)
    have "AllocateNextMultiSlot_body qm b w =
        (if lockable (mem w qm) (mem w b) i then Some (Some i, w\<lparr>mem := lock_both qm b i (mem w)\<rparr>)
         else Some (None, w))"
      using next' p min assms by (auto simp: AllocateNextMultiSlot_body_def TryLockSlot_quiet lockable_def)
    moreover have "(\<exists>j. lockable (mem w qm) (mem w b) j) \<longleftrightarrow> lockable (mem w qm) (mem w b) i"
      using unique by (auto simp: lockable_def)
    ultimately show ?thesis by auto
  qed
qed

lemma AllocateNextMultiSlot_quiet:
  assumes "quiet w" and "qm \<noteq> b"
  shows "if \<exists>i. lockable (mem w qm) (mem w b) i
    then \<exists>i. lockable (mem w qm) (mem w b) i \<and>
      AllocateNextMultiSlot qm b w = Some (Some i, w\<lparr>mem := lock_both qm b i (mem w)\<rparr>)
    else AllocateNextMultiSlot qm b w = Some (None, w)"
proof (cases "\<exists>i. lockable (mem w qm) (mem w b) i")
  case True
  with AllocateNextMultiSlot_body_quiet [OF assms] obtain i where
    i: "lockable (mem w qm) (mem w b) i"
      "AllocateNextMultiSlot_body qm b w = Some (Some i, w\<lparr>mem := lock_both qm b i (mem w)\<rparr>)"
    by auto
  have "for_retry (AllocateNextMultiSlot_body qm b) MAX_MULTI_ALLOCATE_COUNT 0 w =
      Some (Some i, 0, w\<lparr>mem := lock_both qm b i (mem w)\<rparr>)"
    by (rule for_retry_first) (simp_all add: i(2) MAX_MULTI_ALLOCATE_COUNT_def)
  with True i(1) show ?thesis by (auto simp: AllocateNextMultiSlot_def)
next
  case False
  with AllocateNextMultiSlot_body_quiet [OF assms]
  have "AllocateNextMultiSlot_body qm b w = Some (None, w)" by simp
  then have "for_retry (AllocateNextMultiSlot_body qm b) MAX_MULTI_ALLOCATE_COUNT 0 w =
      Some (None, 0 + MAX_MULTI_ALLOCATE_COUNT, w)"
    by (rule for_retry_stuck)
  with False show ?thesis by (simp add: AllocateNextMultiSlot_def)
qed

text \<open>
  In a quiet world a composite of two blocks takes the oldest slot that is free in
  both blocks, if the QM block shows no newer timestamp there, and marks that one slot as in
  writing in both blocks; the QM block stays in use. Otherwise the QM block is given up
  (\<open>ignore_qm_control_\<close> stays set), and the result is that of an allocation in the ASIL-B block
  alone.
\<close>

lemma composite_locks_both_or_gives_up_qm:
  assumes "quiet w" and "qm \<noteq> b"
    and "cc = \<lparr>asil_qm_control = Some qm, asil_b_control = Some b, ignore_qm_control = False\<rparr>"
  shows "if \<exists>i. lockable (mem w qm) (mem w b) i
    then \<exists>i. lockable (mem w qm) (mem w b) i \<and>
      Composite_AllocateNextSlot cc w = Some (Some i, False, cc, w\<lparr>mem := lock_both qm b i (mem w)\<rparr>)
    else \<exists>sel w'. AllocateNextSlot b w = Some (sel, w') \<and>
      Composite_AllocateNextSlot cc w = Some (sel, True, cc\<lparr>ignore_qm_control := True\<rparr>, w')"
proof (cases "\<exists>i. lockable (mem w qm) (mem w b) i")
  case True
  with AllocateNextMultiSlot_quiet [OF assms(1,2)] obtain i where "lockable (mem w qm) (mem w b) i"
    "AllocateNextMultiSlot qm b w = Some (Some i, w\<lparr>mem := lock_both qm b i (mem w)\<rparr>)"
    by auto
  with True assms(3) show ?thesis
    by (auto simp: Composite_AllocateNextSlot_def)
next
  case False
  with AllocateNextMultiSlot_quiet [OF assms(1,2)] have "AllocateNextMultiSlot qm b w = Some (None, w)"
    by simp
  moreover obtain sel w' where "AllocateNextSlot b w = Some (sel, w')"
    using AllocateNextSlot_returns [of b w] by blast
  ultimately show ?thesis
    using False assms(3) by (auto simp: Composite_AllocateNextSlot_def)
qed

text \<open>
  Property C21: freedom from interference. Whatever the QM block contains, an allocation in a quiet
  world succeeds as soon as the ASIL-B block has a reusable slot; the slot it returns was unused
  in the ASIL-B block and is marked as in writing there.
\<close>

theorem asil_b_allocation_survives_qm:
  assumes "quiet w" and "qm \<noteq> b" and "j < length (mem w b)" and "reusable (mem w b ! j)"
    and "asil_qm_control cc = Some qm" and "asil_b_control cc = Some b"
  shows "\<exists>i ign cc' w'. Composite_AllocateNextSlot cc w = Some (Some i, ign, cc', w') \<and>
    i < length (mem w b) \<and> \<not> IsUsed (mem w b ! i) \<and> IsInWriting (mem w' b ! i)"
proof -
  obtain sel w1 where alone: "AllocateNextSlot b w = Some (sel, w1)"
    and sel: "case sel of
       None \<Rightarrow> (\<forall>j < length (mem w b). \<not> reusable (mem w b ! j))
     | Some i \<Rightarrow> oldest_unused (mem w b) i \<and> mem w1 = put_slot b i IN_WRITING (mem w)"
    using AllocateNextSlot_quiet [OF assms(1), of b] by (auto split: option.splits)
  then obtain i where i: "sel = Some i" "i < length (mem w b)" "\<not> IsUsed (mem w b ! i)"
      "IsInWriting (mem w1 b ! i)"
    using assms(3,4) by (cases sel) (auto simp: oldest_unused_def reusable_def put_slot_def)
  show ?thesis
  proof (cases "\<not> ignore_qm_control cc \<and> (\<exists>i. lockable (mem w qm) (mem w b) i)")
    case True
    with AllocateNextMultiSlot_quiet [OF assms(1,2)] obtain m where
      m: "lockable (mem w qm) (mem w b) m"
        "AllocateNextMultiSlot qm b w = Some (Some m, w\<lparr>mem := lock_both qm b m (mem w)\<rparr>)"
      by auto
    moreover from m(1) have "m < length (mem w b)" "\<not> IsUsed (mem w b ! m)"
      by (auto simp: lockable_def first_minimal_def)
    ultimately show ?thesis
      using True assms(2,5,6)
      by (simp add: Composite_AllocateNextSlot_def lock_both_def put_slot_def) (rule exI [of _ False], simp)
  next
    case False
    with AllocateNextMultiSlot_quiet [OF assms(1,2)] alone i assms(5,6) show ?thesis
      by (auto simp: Composite_AllocateNextSlot_def)
  qed
qed

definition two_block_world :: "u64 list \<Rightarrow> u64 list \<Rightarrow> bool edc_world" where
  "two_block_world qs bs = \<lparr>mem = (\<lambda>b. if b then bs else qs), sched = [], num_alloc_misses = 0,
     num_ref_misses = 0, num_alloc_retries = 0, num_ref_retries = 0\<rparr>"

abbreviation qm_and_b :: "bool edc_composite" where
  "qm_and_b \<equiv> \<lparr>asil_qm_control = Some False, asil_b_control = Some True, ignore_qm_control = False\<rparr>"

theorem asil_b_allocation_survives_qm_witness:
  "\<exists>i ign cc' w'. Composite_AllocateNextSlot qm_and_b (two_block_world [IN_WRITING] [INVALID])
     = Some (Some i, ign, cc', w') \<and> IsInWriting (mem w' True ! i)"
  using asil_b_allocation_survives_qm [of "two_block_world [IN_WRITING] [INVALID]" False True 0 qm_and_b]
  by (auto simp: two_block_world_def reusable_invalid)

subsection \<open>Locking under interference\<close>

lemma cas_slot_strong_cases:
  assumes "cas_slot_strong c i e d w = (ok, e', w')" and "rely R w"
  obtains (success) m where "ok" and "R\<^sup>*\<^sup>* (mem w) m" and "m c ! i = e"
      and "mem w' = put_slot c i d m" and "rely R w'"
    | (failure) "\<not> ok" and "evolves R w w'"
  using assms(1) [unfolded cas_slot_strong_def]
proof (cases rule: compare_exchange_strong_cases)
  case (success b w1)
  from assms(2) success(2) have "evolves R w w1" by (rule evolves_advance)
  with success show thesis
    by (intro that(1) [of "mem w1"]) (auto simp: evolves_def get_slot_def)
next
  case (failure b)
  with assms(2) show thesis by (intro that(2)) (auto intro: evolves_advance)
qed

text \<open>The environment leaves a slot in writing to its writer.\<close>

definition respects_writer :: "'c \<Rightarrow> nat \<Rightarrow> ('c slot_memory \<Rightarrow> 'c slot_memory \<Rightarrow> bool) \<Rightarrow> bool" where
  "respects_writer c i R \<longleftrightarrow> (\<forall>m m'. R m m' \<and> m c ! i = IN_WRITING \<longrightarrow> m' c ! i = IN_WRITING)"

lemma respects_writer_steps:
  "R\<^sup>*\<^sup>* m m' \<Longrightarrow> respects_writer c i R \<Longrightarrow> m c ! i = IN_WRITING \<Longrightarrow> m' c ! i = IN_WRITING"
  by (induction rule: rtranclp_induct) (auto simp: respects_writer_def)

definition both_locked :: "'c \<Rightarrow> 'c \<Rightarrow> nat \<Rightarrow> ('c slot_memory \<Rightarrow> 'c slot_memory \<Rightarrow> bool) \<Rightarrow>
    'c slot_memory \<Rightarrow> 'c slot_memory \<Rightarrow> bool" where
  "both_locked qm b i R m0 m' \<longleftrightarrow>
     (\<exists>m1 m2. R\<^sup>*\<^sup>* m0 m1 \<and> \<not> IsUsed (m1 qm ! i) \<and>
        R\<^sup>*\<^sup>* (put_slot qm i IN_WRITING m1) m2 \<and> m2 qm ! i = IN_WRITING \<and> \<not> IsUsed (m2 b ! i) \<and>
        m' = put_slot b i IN_WRITING m2)"

definition qm_lock_taken_back :: "'c \<Rightarrow> nat \<Rightarrow> ('c slot_memory \<Rightarrow> 'c slot_memory \<Rightarrow> bool) \<Rightarrow>
    'c slot_memory \<Rightarrow> 'c slot_memory \<Rightarrow> bool" where
  "qm_lock_taken_back qm i R m0 m' \<longleftrightarrow>
     (\<exists>m1 m2. R\<^sup>*\<^sup>* m0 m1 \<and> \<not> IsUsed (m1 qm ! i) \<and>
        R\<^sup>*\<^sup>* (put_slot qm i IN_WRITING m1) m2 \<and> m2 qm ! i = IN_WRITING \<and>
        m' = put_slot qm i (m1 qm ! i) m2)"

text \<open>The second lock: either it succeeds, or the first one is written back.\<close>

lemma lock_second_block:
  assumes "rely R w" and "respects_writer qm i R" and "mem w qm ! i = IN_WRITING"
    and "cas_slot_strong b i v IN_WRITING w = (locked, x, w1)"
    and "(ok, w') = (if \<not> locked then (False, store_slot qm i q w1) else (True, w1))"
  shows "rely R w' \<and> (\<exists>m. R\<^sup>*\<^sup>* (mem w) m \<and> m qm ! i = IN_WRITING \<and>
    (if ok then m b ! i = v \<and> mem w' = put_slot b i IN_WRITING m else mem w' = put_slot qm i q m))"
  using assms(4,1)
proof (cases rule: cas_slot_strong_cases)
  case (success m)
  moreover from success(2) assms(2,3) have "m qm ! i = IN_WRITING" by (rule respects_writer_steps)
  ultimately show ?thesis using assms(5) by auto
next
  case failure
  obtain t w2 where adv: "advance w1 = (t, w2)" by (cases "advance w1")
  have "evolves R w1 w2" using evolves_rely [OF failure(2)] adv by (rule evolves_advance)
  with failure(2) have m: "R\<^sup>*\<^sup>* (mem w) (mem w2)" and r: "rely R w2" by (auto simp: evolves_def)
  from m assms(2,3) have "mem w2 qm ! i = IN_WRITING" by (rule respects_writer_steps)
  with m r failure(1) adv assms(5) show ?thesis
    by (auto simp: store_slot_def atomic_store_def)
qed

lemma TryLockSlot_outcome:
  assumes "rely R w" and "respects_writer qm i R" and "keeps_size qm R" and "i < length (mem w qm)"
    and "TryLockSlot qm b i ts w = (ok, w')"
  shows "rely R w' \<and> (if ok then both_locked qm b i R (mem w) (mem w')
    else R\<^sup>*\<^sup>* (mem w) (mem w') \<or> qm_lock_taken_back qm i R (mem w) (mem w'))"
proof -
  obtain q w1 where ld1: "load_slot qm i w = (q, w1)" by (cases "load_slot qm i w")
  obtain bo w2 where ld2: "load_slot b i w1 = (bo, w2)" by (cases "load_slot b i w1")
  note e1 = load_slot_reached(1) [OF ld1 assms(1)]
  note e2' = load_slot_reached(1) [OF ld2 evolves_rely [OF e1]]
  have e2: "evolves R w w2" using e1 e2' by (rule evolves_trans)
  then have m2: "R\<^sup>*\<^sup>* (mem w) (mem w2)" and r2: "rely R w2" by (simp_all add: evolves_def)
  show ?thesis
  proof (cases "(IsUsed q \<or> GetTimeStamp q > ts) \<or> (IsUsed bo \<or> GetTimeStamp bo > ts)")
    case True
    then have "\<not> ok" "w' = w2"
      using assms(5) ld1 ld2 by (simp_all add: TryLockSlot_def)
    with m2 r2 show ?thesis by simp
  next
    case unused: False
    obtain ok1 x w3 where cas1: "cas_slot_strong qm i q IN_WRITING w2 = (ok1, x, w3)" by (metis prod_cases3)
    obtain ok2 y w4 where cas2: "cas_slot_strong b i bo IN_WRITING w3 = (ok2, y, w4)" by (metis prod_cases3)
    from cas1 r2 show ?thesis
    proof (cases rule: cas_slot_strong_cases)
      case failure
      then have "\<not> ok" "w' = w3"
        using assms(5) ld1 ld2 unused cas1 by (simp_all add: TryLockSlot_def MarkInWriting_def)
      with m2 failure show ?thesis by (auto simp: evolves_def)
    next
      case (success m1)
      have m1: "R\<^sup>*\<^sup>* (mem w) m1" using m2 success(2) by (rule rtranclp_trans)
      have "i < length (m1 qm)" using keeps_size_steps [OF m1 assms(3)] assms(4) by simp
      then have locked: "mem w3 qm ! i = IN_WRITING" using success(4) by (simp add: put_slot_def)
      have "(ok, w') = (if \<not> ok2 then (False, store_slot qm i q w4) else (True, w4))"
        using assms(5) ld1 ld2 unused cas1 cas2 success(1) by (simp add: TryLockSlot_def MarkInWriting_def)
      from lock_second_block [OF success(5) assms(2) locked cas2 this] obtain m where
        r: "rely R w'" and m: "R\<^sup>*\<^sup>* (put_slot qm i IN_WRITING m1) m" "m qm ! i = IN_WRITING"
        and result: "if ok then m b ! i = bo \<and> mem w' = put_slot b i IN_WRITING m
          else mem w' = put_slot qm i (m1 qm ! i) m"
        unfolding success(3,4) by blast
      have "\<not> IsUsed (m1 qm ! i)" "\<not> IsUsed bo" using unused success(3) by auto
      with m1 m result have "if ok then both_locked qm b i R (mem w) (mem w')
          else qm_lock_taken_back qm i R (mem w) (mem w')"
        unfolding both_locked_def qm_lock_taken_back_def by (cases ok) auto
      with r show ?thesis by (cases ok) simp_all
    qed
  qed
qed

text \<open>
  Property C22: \<open>TryLockSlot\<close> under interference. When it succeeds, the slot was unused in the QM
  block at the moment it was locked there and unused in the ASIL-B block at the later moment it
  was locked there, and the QM lock was still in place. When it fails, either it has changed
  nothing, or it had locked the QM slot and has written back the word it found there, over its own
  lock: nothing stays locked.
\<close>

theorem try_lock_slot_is_all_or_nothing:
  assumes "rely R w" and "respects_writer qm i R" and "qm \<noteq> b"
    and "\<And>m m'. R m m' \<Longrightarrow> length (m' qm) = length (m qm)" and "i < length (mem w qm)"
    and "TryLockSlot qm b i ts w = (ok, w')"
  shows "if ok then both_locked qm b i R (mem w) (mem w')
    else R\<^sup>*\<^sup>* (mem w) (mem w') \<or> qm_lock_taken_back qm i R (mem w) (mem w')"
proof -
  have "keeps_size qm R" using assms(4) by (simp add: keeps_size_def)
  with TryLockSlot_outcome [OF assms(1,2) _ assms(5,6)] show ?thesis by simp
qed

text \<open>A reader that references the slot in the ASIL-B block between the two locks.\<close>

definition late_reader_world :: "bool edc_world" where
  "late_reader_world = (two_block_world [EventSlotStatus 5 0] [EventSlotStatus 5 0])\<lparr>sched :=
     [Tick id False, Tick id False, Tick id False, Tick (put_slot True 0 (EventSlotStatus 5 1)) False]\<rparr>"

theorem try_lock_slot_is_all_or_nothing_witness:
  "\<exists>w'. TryLockSlot False True 0 5 late_reader_world = (False, w') \<and> mem w' False = [EventSlotStatus 5 0]"
proof -
  let ?R = "\<lambda>m m' :: bool slot_memory. m' False = m False"
  have "rely ?R late_reader_world"
    by (simp add: rely_def late_reader_world_def two_block_world_def put_slot_def)
  moreover have "respects_writer False 0 ?R" by (simp add: respects_writer_def)
  moreover obtain w' where run: "TryLockSlot False True 0 5 late_reader_world = (False, w')"
    by (simp add: TryLockSlot_def late_reader_world_def two_block_world_def slot_tick get_slot_def put_slot_def
        IsUsed_def IsInWriting_iff cas_slot_strong_def compare_exchange_strong_def advance_def Let_def)
  ultimately have "?R\<^sup>*\<^sup>* (mem late_reader_world) (mem w') \<or>
      qm_lock_taken_back False 0 ?R (mem late_reader_world) (mem w')"
    using try_lock_slot_is_all_or_nothing [of ?R late_reader_world False 0 True 5 False w']
    by (simp add: late_reader_world_def two_block_world_def)
  moreover have same: "m' False = m False" if "?R\<^sup>*\<^sup>* m m'" for m m'
    using that by (induction rule: rtranclp_induct) auto
  ultimately have "mem w' False = mem late_reader_world False"
    by (auto simp: qm_lock_taken_back_def put_slot_def dest!: same)
  with run show ?thesis by (simp add: late_reader_world_def two_block_world_def)
qed

end
