(* ===== verification/Event_Subscription_Control.thy ===== *)
theory Event_Subscription_Control
  imports Atomic_World "HOL-Library.Multiset"
begin

text \<open>
  \<open>EventSubscriptionControl\<close> (event_subscription_control.h/.cpp): one atomic 32-bit word in shared
  memory that counts the subscribers of an event (upper half) and the sample slots they have
  subscribed to (lower half), changed by bounded compare-and-exchange loops.

  The memory of the world is that word; the constants of the object are a record. Every
  \<open>std::terminate\<close> is the outcome \<open>None\<close>. The log messages are not modelled. The contract is a
  multiset: the sample counts of the current subscribers.
\<close>

subsection \<open>Definitions\<close>

datatype SubscribeResult = kSuccess | kMaxSubscribersOverflow | kSlotOverflow | kUpdateRetryFailure

record subscription_control =
  max_subscribable_slots :: u16
  max_subscribers :: u8
  enforce_max_samples :: bool

definition EventSubscriptionControl :: "u16 \<Rightarrow> u8 \<Rightarrow> bool \<Rightarrow> subscription_control \<times> u32" where
  "EventSubscriptionControl max_slot_count max_subs enforce =
     (\<lparr>max_subscribable_slots = max_slot_count, max_subscribers = max_subs, enforce_max_samples = enforce\<rparr>, 0)"

definition GetSubscribersFromState :: "u32 \<Rightarrow> u8" where
  "GetSubscribersFromState subscription_state = ucast (drop_bit 16 subscription_state)"

definition GetSubscribedSamplesFromState :: "u32 \<Rightarrow> u16" where
  "GetSubscribedSamplesFromState subscription_state = ucast (subscription_state AND 0x0000FFFF)"

definition CreateState :: "u8 \<Rightarrow> u16 \<Rightarrow> u32" where
  "CreateState subscriber_count subscribed_slots =
     push_bit 16 (ucast subscriber_count) + ucast subscribed_slots"

text \<open>
  The sum in the test of \<open>Subscribe\<close> is computed as an \<open>int\<close> and does not wrap; the sum that is
  stored is cut to 16 bits.
\<close>

definition Subscribe_body ::
    "subscription_control \<Rightarrow> u16 \<Rightarrow> u32 world \<Rightarrow> (SubscribeResult option \<times> u32 world) run" where
  "Subscribe_body esc slot_count w =
     (let (current_state, w) = atomic_load id w;
          current_subscribers = GetSubscribersFromState current_state
      in if current_subscribers \<ge> max_subscribers esc then Some (Some kMaxSubscribersOverflow, w)
         else let current_subscribed_slots = GetSubscribedSamplesFromState current_state
              in if enforce_max_samples esc \<and>
                    unat current_subscribed_slots + unat slot_count > unat (max_subscribable_slots esc)
                 then Some (Some kSlotOverflow, w)
                 else let new_state = CreateState (current_subscribers + 1) (current_subscribed_slots + slot_count);
                          (success, _, w) = compare_exchange_weak id (\<lambda>v _. v) current_state new_state w
                      in if success then Some (Some kSuccess, w) else Some (None, w))"

definition Subscribe :: "subscription_control \<Rightarrow> u16 \<Rightarrow> u32 world \<Rightarrow> (SubscribeResult \<times> u32 world) run" where
  "Subscribe esc slot_count w = do {
     let max_retries = (2 * ucast (max_subscribers esc) :: u16);
     (r, _, w) \<leftarrow> for_retry (Subscribe_body esc slot_count) (unat max_retries) 0 w;
     Some (case r of Some x \<Rightarrow> x | None \<Rightarrow> kUpdateRetryFailure, w) }"

definition Unsubscribe_body ::
    "subscription_control \<Rightarrow> u16 \<Rightarrow> u32 world \<Rightarrow> (unit option \<times> u32 world) run" where
  "Unsubscribe_body esc slot_count w =
     (let (current_state, w) = atomic_load id w;
          current_subscribers = GetSubscribersFromState current_state
      in if current_subscribers = 0 then None
         else let current_subscribed_slots = GetSubscribedSamplesFromState current_state
              in if current_subscribed_slots < slot_count then None
                 else let new_state = CreateState (current_subscribers - 1) (current_subscribed_slots - slot_count);
                          (success, _, w) = compare_exchange_weak id (\<lambda>v _. v) current_state new_state w
                      in if success then Some (Some (), w) else Some (None, w))"

definition Unsubscribe :: "subscription_control \<Rightarrow> u16 \<Rightarrow> u32 world \<Rightarrow> u32 world run" where
  "Unsubscribe esc slot_count w = do {
     let max_retries = (3 * ucast (max_subscribers esc) :: u16);
     (r, _, w) \<leftarrow> for_retry (Unsubscribe_body esc slot_count) (unat max_retries) 0 w;
     (case r of Some _ \<Rightarrow> Some w | None \<Rightarrow> None) }"

definition ToString :: "SubscribeResult \<Rightarrow> string" where
  "ToString subscribe_result =
     (case subscribe_result of
        kSuccess \<Rightarrow> ''success''
      | kMaxSubscribersOverflow \<Rightarrow> ''Max subcribers overflow''
      | kSlotOverflow \<Rightarrow> ''Slot overflow''
      | kUpdateRetryFailure \<Rightarrow> ''Update retry failure'')"

subsection \<open>The word as a pair\<close>

lemma CreateState_or: "CreateState s n = push_bit 16 (ucast s) OR ucast n"
  unfolding CreateState_def
  by (rule disjunctive_add) (auto simp: bit_simps dest: bit_imp_le_length)

lemma state_halves [simp]:
  "GetSubscribersFromState (CreateState s n) = s"
  "GetSubscribedSamplesFromState (CreateState s n) = n"
proof -
  have m: "(0x0000FFFF :: u32) = mask 16" by (simp add: mask_eq_exp_minus_1)
  show "GetSubscribersFromState (CreateState s n) = s"
    unfolding GetSubscribersFromState_def CreateState_or
    by (rule bit_eqI) (auto simp: bit_simps dest: bit_imp_le_length)
  show "GetSubscribedSamplesFromState (CreateState s n) = n"
    unfolding GetSubscribedSamplesFromState_def CreateState_or m
    by (rule bit_eqI) (auto simp: bit_simps dest: bit_imp_le_length)
qed

interpretation subscription_word: packed_word
  "\<lambda>(s, n). CreateState s n" "\<lambda>st. (GetSubscribersFromState st, GetSubscribedSamplesFromState st)"
  by unfold_locales (auto split: prod.splits)

lemma CreateState_0: "CreateState 0 0 = 0"
  by (simp add: CreateState_def)

subsection \<open>Subscribing under interference\<close>

text \<open>What one call does to the word it finds, by result.\<close>

definition subscribe_effect :: "subscription_control \<Rightarrow> u16 \<Rightarrow> u32 \<Rightarrow> SubscribeResult \<Rightarrow> u32 \<Rightarrow> bool" where
  "subscribe_effect esc n st r st' \<longleftrightarrow>
     (case r of
        kSuccess \<Rightarrow> GetSubscribersFromState st < max_subscribers esc \<and>
          (enforce_max_samples esc \<longrightarrow>
             unat (GetSubscribedSamplesFromState st) + unat n \<le> unat (max_subscribable_slots esc)) \<and>
          st' = CreateState (GetSubscribersFromState st + 1) (GetSubscribedSamplesFromState st + n)
      | kMaxSubscribersOverflow \<Rightarrow> st' = st \<and> max_subscribers esc \<le> GetSubscribersFromState st
      | kSlotOverflow \<Rightarrow> st' = st \<and> enforce_max_samples esc \<and>
          unat (max_subscribable_slots esc) < unat (GetSubscribedSamplesFromState st) + unat n
      | kUpdateRetryFailure \<Rightarrow> st' = st)"

lemma Subscribe_body_cases:
  assumes "Subscribe_body esc n w = Some (r, w')" and "rely R w"
  obtains (again) "r = None" and "evolves R w w'"
    | (settled) x m where "r = Some x" and "x \<noteq> kUpdateRetryFailure" and "R\<^sup>*\<^sup>* (mem w) m"
      and "subscribe_effect esc n m x (mem w')"
proof -
  obtain st w1 where ld: "atomic_load id w = (st, w1)" by (cases "atomic_load id w")
  have e1: "evolves R w w1" using assms(2) ld by (rule evolves_atomic_load)
  have st: "st = mem w1" using atomic_load_value [OF ld] by simp
  have m1: "R\<^sup>*\<^sup>* (mem w) st" using e1 st by (simp add: evolves_def)
  show thesis
  proof (cases "max_subscribers esc \<le> GetSubscribersFromState st")
    case True
    with assms(1) ld have "r = Some kMaxSubscribersOverflow" "w' = w1"
      by (simp_all add: Subscribe_body_def)
    with True m1 st show thesis by (intro settled [of kMaxSubscribersOverflow st]) (simp_all add: subscribe_effect_def)
  next
    case subs: False
    show thesis
    proof (cases "enforce_max_samples esc \<and>
        unat (GetSubscribedSamplesFromState st) + unat n > unat (max_subscribable_slots esc)")
      case True
      with subs assms(1) ld have "r = Some kSlotOverflow" "w' = w1"
        by (simp_all add: Subscribe_body_def Let_def)
      with True m1 st show thesis by (intro settled [of kSlotOverflow st]) (simp_all add: subscribe_effect_def)
    next
      case False
      let ?new = "CreateState (GetSubscribersFromState st + 1) (GetSubscribedSamplesFromState st + n)"
      obtain ok x w2 where cas: "compare_exchange_weak id (\<lambda>v _. v) st ?new w1 = (ok, x, w2)"
        by (metis prod_cases3)
      have res: "r = (if ok then Some kSuccess else None)" "w' = w2"
        using assms(1) ld subs False cas by (auto simp: Subscribe_body_def Let_def split: if_splits)
      from cas show thesis
      proof (cases rule: compare_exchange_weak_cases)
        case (success b w3)
        have "evolves R w1 w3" using evolves_rely [OF e1] success(2) by (rule evolves_advance)
        with e1 have "evolves R w w3" by (rule evolves_trans)
        then have "R\<^sup>*\<^sup>* (mem w) st" using success(3) by (simp add: evolves_def)
        with success res subs False show thesis
          by (intro settled [of kSuccess st]) (auto simp: subscribe_effect_def)
      next
        case (failure b)
        have "evolves R w1 w2" using evolves_rely [OF e1] failure(2) by (rule evolves_advance)
        with e1 have "evolves R w w2" by (rule evolves_trans)
        with failure res show thesis by (intro again) simp_all
      qed
    qed
  qed
qed

interpretation subscribing: bounded_retry "Subscribe_body esc n" "\<lambda>w. evolves R w0 w"
  "\<lambda>x w. \<exists>m. R\<^sup>*\<^sup>* (mem w0) m \<and> subscribe_effect esc n m x (mem w)"
  for esc n R w0
proof unfold_locales
  fix w w' assume inv: "evolves R w0 w" and b: "Subscribe_body esc n w = Some (None, w')"
  from b evolves_rely [OF inv] show "evolves R w0 w'"
    by (cases rule: Subscribe_body_cases) (use inv in \<open>auto intro: evolves_trans\<close>)
next
  fix w w' x assume inv: "evolves R w0 w" and b: "Subscribe_body esc n w = Some (Some x, w')"
  from b evolves_rely [OF inv] show "\<exists>m. R\<^sup>*\<^sup>* (mem w0) m \<and> subscribe_effect esc n m x (mem w')"
  proof (cases rule: Subscribe_body_cases)
    case (settled y m)
    from inv settled(3) have "R\<^sup>*\<^sup>* (mem w0) m" by (auto simp: evolves_def)
    with settled show ?thesis by auto
  qed simp
qed

lemma Subscribe_body_total: "\<exists>r w'. Subscribe_body esc n w = Some (r, w')"
  by (auto simp: Subscribe_body_def Let_def split: prod.splits)

text \<open>
  \<open>Subscribe\<close> always returns, and its effect is one atomic transition at a moment
  \<open>m\<close> of the run, whatever the other participants do: success counts the subscriber and its
  samples on a word that had room for both, each refusal is justified by the word at that moment
  and changes nothing, and an exhausted retry budget changes nothing.
\<close>

lemma subscribe_is_atomic:
  assumes "rely R w"
  shows "\<exists>r w' m. Subscribe esc n w = Some (r, w') \<and> R\<^sup>*\<^sup>* (mem w) m \<and> subscribe_effect esc n m r (mem w')"
proof -
  let ?k = "unat (2 * ucast (max_subscribers esc) :: u16)"
  obtain r k w' where loop: "for_retry (Subscribe_body esc n) ?k 0 w = Some (r, k, w')"
    using for_retry_returns [of "Subscribe_body esc n" ?k 0 w] Subscribe_body_total by metis
  have run: "Subscribe esc n w = Some (case r of Some x \<Rightarrow> x | None \<Rightarrow> kUpdateRetryFailure, w')"
    using loop by (simp add: Subscribe_def)
  show ?thesis
  proof (cases r)
    case None
    from subscribing.loop_exhausted [OF evolves_refl [OF assms] loop [unfolded None]]
    have "R\<^sup>*\<^sup>* (mem w) (mem w')" by (simp add: evolves_def)
    with run None show ?thesis by (auto simp: subscribe_effect_def)
  next
    case (Some x)
    from subscribing.loop_delivers [OF evolves_refl [OF assms] loop [unfolded Some]] run Some
    show ?thesis by auto
  qed
qed

subsection \<open>Without interference\<close>

lemma retries_positive:
  fixes s :: u8
  assumes "s \<noteq> 0"
  shows "0 < unat (2 * ucast s :: u16)" and "0 < unat (3 * ucast s :: u16)"
proof -
  have lt: "unat s < 256" using u8_less [of s] by simp
  moreover have "unat (ucast s :: u16) = unat s"
    unfolding unsigned_ucast_eq using lt by (simp add: take_bit_nat_eq_self)
  moreover have "0 < unat s" using assms by (simp add: unat_gt_0)
  ultimately show "0 < unat (2 * ucast s :: u16)" "0 < unat (3 * ucast s :: u16)"
    by (simp_all add: unat_word_ariths)
qed

lemma Subscribe_quiet:
  assumes "quiet w" and "max_subscribers esc \<noteq> 0"
  shows "Subscribe esc n w =
    (if max_subscribers esc \<le> GetSubscribersFromState (mem w) then Some (kMaxSubscribersOverflow, w)
     else if enforce_max_samples esc \<and>
       unat (max_subscribable_slots esc) < unat (GetSubscribedSamplesFromState (mem w)) + unat n
     then Some (kSlotOverflow, w)
     else Some (kSuccess, w\<lparr>mem := CreateState (GetSubscribersFromState (mem w) + 1)
                 (GetSubscribedSamplesFromState (mem w) + n)\<rparr>))"
  using assms retries_positive(1) [OF assms(2)]
  by (cases "unat (2 * ucast (max_subscribers esc) :: u16)")
    (auto simp: Subscribe_def Subscribe_body_def Let_def)

lemma Unsubscribe_quiet:
  assumes "quiet w" and "max_subscribers esc \<noteq> 0"
  shows "Unsubscribe esc n w =
    (if GetSubscribersFromState (mem w) = 0 \<or> GetSubscribedSamplesFromState (mem w) < n then None
     else Some (w\<lparr>mem := CreateState (GetSubscribersFromState (mem w) - 1)
                 (GetSubscribedSamplesFromState (mem w) - n)\<rparr>))"
  using assms retries_positive(2) [OF assms(2)]
  by (cases "unat (3 * ucast (max_subscribers esc) :: u16)")
    (auto simp: Unsubscribe_def Unsubscribe_body_def Let_def)

subsection \<open>Histories of subscriptions\<close>

text \<open>
  The abstract contract: a multiset of the sample counts of the current subscribers. Calls on
  the abstract level, refused where the code refuses; unsubscribing a count that nobody has
  subscribed is outside the contract.
\<close>

datatype subscription_call = Sub u16 | Unsub u16

fun abstract_call :: "subscription_control \<Rightarrow> subscription_call \<Rightarrow> nat multiset \<Rightarrow> nat multiset run" where
  "abstract_call esc (Sub n) M =
     (if size M < unat (max_subscribers esc) \<and>
         (enforce_max_samples esc \<longrightarrow> sum_mset M + unat n \<le> unat (max_subscribable_slots esc))
      then Some (add_mset (unat n) M) else Some M)"
| "abstract_call esc (Unsub n) M = (if unat n \<in># M then Some (M - {#unat n#}) else None)"

fun concrete_call :: "subscription_control \<Rightarrow> subscription_call \<Rightarrow> u32 world \<Rightarrow> u32 world run" where
  "concrete_call esc (Sub n) w = do { (_, w) \<leftarrow> Subscribe esc n w; Some w }"
| "concrete_call esc (Unsub n) w = Unsubscribe esc n w"

fun small_call :: "subscription_call \<Rightarrow> bool" where
  "small_call (Sub n) \<longleftrightarrow> unat n \<le> 255"
| "small_call (Unsub n) \<longleftrightarrow> True"

definition represents :: "subscription_control \<Rightarrow> nat multiset \<Rightarrow> u32 \<Rightarrow> bool" where
  "represents esc M st \<longleftrightarrow>
     size M \<le> unat (max_subscribers esc) \<and> (\<forall>n \<in># M. n \<le> 255) \<and>
     unat (GetSubscribersFromState st) = size M \<and> unat (GetSubscribedSamplesFromState st) = sum_mset M"

lemma sum_mset_bound: "(\<forall>n \<in># M. n \<le> b) \<Longrightarrow> sum_mset M \<le> size M * (b :: nat)"
  by (induction M) auto

lemma represents_bounds:
  assumes "represents esc M st"
  shows "size M \<le> 255" and "sum_mset M \<le> 65025"
proof -
  show s: "size M \<le> 255"
    using assms u8_less [of "max_subscribers esc"] by (simp add: represents_def)
  have "sum_mset M \<le> size M * 255"
    using assms by (intro sum_mset_bound) (simp add: represents_def)
  with s show "sum_mset M \<le> 65025" by simp
qed

lemma subscription_step:
  assumes "represents esc M (mem w)" and "quiet w" and "max_subscribers esc \<noteq> 0" and "small_call c"
    and "abstract_call esc c M = Some M'"
  shows "\<exists>w'. concrete_call esc c w = Some w' \<and> quiet w' \<and> represents esc M' (mem w')"
proof -
  let ?s = "GetSubscribersFromState (mem w)" and ?k = "GetSubscribedSamplesFromState (mem w)"
  note bounds = represents_bounds [OF assms(1)]
  have rep: "unat ?s = size M" "unat ?k = sum_mset M" "size M \<le> unat (max_subscribers esc)" "\<forall>n \<in># M. n \<le> 255"
    using assms(1) by (simp_all add: represents_def)
  show ?thesis
  proof (cases c)
    case (Sub n)
    show ?thesis
    proof (cases "size M < unat (max_subscribers esc) \<and>
         (enforce_max_samples esc \<longrightarrow> sum_mset M + unat n \<le> unat (max_subscribable_slots esc))")
      case True
      have M': "M' = add_mset (unat n) M" using True assms(5) Sub by simp
      have n: "unat n \<le> 255" using assms(4) Sub by simp
      have lt: "\<not> max_subscribers esc \<le> ?s" using True rep by (simp add: word_le_nat_alt)
      have "unat (?s + 1) = size M + 1"
        using True rep u8_less [of "max_subscribers esc"] by (simp add: unat_word_ariths)
      moreover have "unat (?k + n) = sum_mset M + unat n"
        using rep bounds n by (simp add: unat_word_ariths)
      ultimately show ?thesis
        using True lt rep n M' Sub assms(2,3) by (auto simp: Subscribe_quiet represents_def)
    next
      case False
      have M': "M' = M" using False assms(5) Sub by auto
      have "max_subscribers esc \<le> ?s \<or> (enforce_max_samples esc \<and>
          unat (max_subscribable_slots esc) < unat ?k + unat n)"
        using False rep by (auto simp: word_le_nat_alt)
      with M' Sub assms(1-3) show ?thesis by (auto simp: Subscribe_quiet)
    qed
  next
    case (Unsub n)
    have n: "unat n \<in># M" and M': "M' = M - {#unat n#}"
      using assms(5) Unsub by (auto split: if_splits)
    then have M: "M = add_mset (unat n) M'" by simp
    have ok: "?s \<noteq> 0" "\<not> ?k < n"
      using rep(1,2) M by (auto simp: word_less_nat_alt unat_eq_0 [symmetric])
    have "unat (?s - 1) = size M'"
      using ok(1) rep(1) M by (simp add: unat_minus_one)
    moreover have "unat (?k - n) = sum_mset M'"
      using ok(2) rep(2) M by (simp add: unat_sub not_less)
    ultimately show ?thesis
      using ok rep M Unsub assms(2,3) by (auto simp: Unsubscribe_quiet represents_def)
  qed
qed

lemma subscription_history:
  assumes "represents esc M (mem w)" and "quiet w" and "max_subscribers esc \<noteq> 0"
    and "list_all small_call cs" and "fold_run (abstract_call esc) cs M = Some M'"
  shows "\<exists>w'. fold_run (concrete_call esc) cs w = Some w' \<and> quiet w' \<and> represents esc M' (mem w')"
  using assms(1,2,4,5)
proof (induction cs arbitrary: M w)
  case Nil
  then show ?case by simp
next
  case (Cons c cs)
  from Cons.prems obtain M1 where M1: "abstract_call esc c M = Some M1" "fold_run (abstract_call esc) cs M1 = Some M'"
    by (auto split: Option.bind_splits)
  from subscription_step [OF Cons.prems(1,2) assms(3) _ M1(1)] Cons.prems(3) obtain w1 where
    w1: "concrete_call esc c w = Some w1" "quiet w1" "represents esc M1 (mem w1)"
    by auto
  from Cons.IH [OF w1(3,2) _ M1(2)] Cons.prems(3) w1(1) show ?case by simp
qed

text \<open>
  Property C23: subscription control implements its abstract contract. Starting from a new
  object, any history of subscribe calls with at most 255 samples each, the limit of the proxy,
  and of unsubscribe calls of counts that are subscribed, never ends the process, and the word
  always holds the exact number of subscribers and the exact sum of their samples; 255
  subscribers with 255 samples never overflow it.
\<close>

theorem subscriptions_refine_multiset:
  assumes "EventSubscriptionControl slots subs enforce = (esc, st)" and "subs \<noteq> 0"
    and "list_all small_call cs" and "fold_run (abstract_call esc) cs {#} = Some M"
  shows "\<exists>w'. fold_run (concrete_call esc) cs \<lparr>mem = st, sched = []\<rparr> = Some w' \<and> represents esc M (mem w')"
proof -
  have "represents esc {#} st" and subs: "max_subscribers esc \<noteq> 0"
    using assms(1,2) state_halves [of 0 0]
    by (auto simp: represents_def EventSubscriptionControl_def CreateState_0)
  then have "represents esc {#} (mem \<lparr>mem = st, sched = []\<rparr>)" by simp
  from subscription_history [OF this _ subs assms(3,4)] show ?thesis by auto
qed

theorem subscriptions_refine_multiset_witness:
  "let (esc, st) = EventSubscriptionControl 10 2 True
   in \<exists>w'. fold_run (concrete_call esc) [Sub 4, Sub 8, Sub 6, Unsub 4] \<lparr>mem = st, sched = []\<rparr> = Some w' \<and>
     represents esc {#6#} (mem w')"
proof -
  obtain esc st where e: "EventSubscriptionControl 10 2 True = (esc, st)" by fastforce
  then have "fold_run (abstract_call esc) [Sub 4, Sub 8, Sub 6, Unsub 4] {#} = Some {#6#}"
    by (auto simp: EventSubscriptionControl_def)
  from subscriptions_refine_multiset [OF e _ _ this] e show ?thesis by simp
qed

text \<open>
  Without the enforcement of the sample limit, nothing keeps the sum of samples
  within its 16 bits: two subscriptions of 40000 samples both succeed, and the unsubscription of
  one of them then ends the process.
\<close>

lemma unenforced_samples_wrap:
  "let (esc, st) = EventSubscriptionControl 100 2 False
   in fold_run (concrete_call esc) [Sub 40000, Sub 40000] \<lparr>mem = st, sched = []\<rparr> \<noteq> None \<and>
      fold_run (concrete_call esc) [Sub 40000, Sub 40000, Unsub 40000] \<lparr>mem = st, sched = []\<rparr> = None"
proof -
  have z: "GetSubscribersFromState 0 = 0" "GetSubscribedSamplesFromState 0 = 0"
    using state_halves [of 0 0] by (simp_all add: CreateState_0)
  show ?thesis
    by (simp add: EventSubscriptionControl_def Subscribe_quiet Unsubscribe_quiet z word_le_nat_alt)
qed

end
