(* ===== verification/Uid_Pid_Mapping.thy ===== *)
theory Uid_Pid_Mapping
  imports Atomic_World
begin

text \<open>
  \<open>UidPidMapping\<close> (uid_pid_mapping.h/.cpp): a fixed array in shared memory in which each proxy
  process registers its pid under its uid, so that a restarted proxy learns its previous pid.
  The key of an entry is one atomic word of status and uid; the pid beside it is a plain field
  that only the owner of the entry writes.

  The memory is the list of entries. A status is the 16-bit value the code casts to its enum, so
  a damaged entry may hold a value that is none of the enumerators. A \<open>uid_t\<close> is unsigned (as on
  Linux), a \<open>pid_t\<close> is an \<open>int\<close>. The contract is a finite map from uids to pids of bounded size.
\<close>

subsection \<open>Definitions\<close>

type_synonym uid_t = u32
type_synonym pid_t = int
type_synonym MappingEntryStatus = u16

definition kUnused :: MappingEntryStatus where "kUnused = 0"
definition kUsed :: MappingEntryStatus where "kUsed = 1"
definition kUpdating :: MappingEntryStatus where "kUpdating = 2"
definition kInvalid :: MappingEntryStatus where "kInvalid = 3"

record mapping_entry =
  key_uid_status :: u64
  entry_pid :: pid_t

type_synonym mapping_world = "mapping_entry list world"

definition UidPidMapping :: "u16 \<Rightarrow> mapping_entry list" where
  "UidPidMapping max_mappings = replicate (unat max_mappings) \<lparr>key_uid_status = 0, entry_pid = 0\<rparr>"

definition CreateKey :: "MappingEntryStatus \<Rightarrow> uid_t \<Rightarrow> u64" where
  "CreateKey status uid = push_bit 32 (ucast status) OR ucast uid"

definition status_of_key :: "u64 \<Rightarrow> MappingEntryStatus" where
  "status_of_key k = ucast (ucast (drop_bit 32 k) :: u32)"

definition uid_of_key :: "u64 \<Rightarrow> uid_t" where
  "uid_of_key k = ucast (k AND 0x00000000FFFFFFFF)"

definition get_key :: "nat \<Rightarrow> mapping_entry list \<Rightarrow> u64" where
  "get_key i m = key_uid_status (m ! i)"

definition put_key :: "nat \<Rightarrow> u64 \<Rightarrow> mapping_entry list \<Rightarrow> mapping_entry list" where
  "put_key i k m = m[i := (m ! i)\<lparr>key_uid_status := k\<rparr>]"

definition GetStatusAndUidAtomic :: "nat \<Rightarrow> mapping_world \<Rightarrow> (MappingEntryStatus \<times> uid_t) \<times> mapping_world" where
  "GetStatusAndUidAtomic i w =
     (let (status_uid, w) = atomic_load (get_key i) w
      in ((status_of_key status_uid, uid_of_key status_uid), w))"

definition SetStatusAndUidAtomic :: "nat \<Rightarrow> MappingEntryStatus \<Rightarrow> uid_t \<Rightarrow> mapping_world \<Rightarrow> mapping_world" where
  "SetStatusAndUidAtomic i status uid w = atomic_store (put_key i (CreateKey status uid)) w"

text \<open>The plain field: read and written without an atomic operation.\<close>

definition read_pid :: "nat \<Rightarrow> mapping_world \<Rightarrow> pid_t" where
  "read_pid i w = entry_pid (mem w ! i)"

definition write_pid :: "nat \<Rightarrow> pid_t \<Rightarrow> mapping_world \<Rightarrow> mapping_world" where
  "write_pid i pid w = w\<lparr>mem := (mem w)[i := (mem w ! i)\<lparr>entry_pid := pid\<rparr>]\<rparr>"

fun TryUpdatePidForExistingUid_loop ::
    "nat list \<Rightarrow> uid_t \<Rightarrow> pid_t \<Rightarrow> mapping_world \<Rightarrow> pid_t option \<times> mapping_world" where
  "TryUpdatePidForExistingUid_loop [] uid pid w = (None, w)"
| "TryUpdatePidForExistingUid_loop (i # idxs) uid pid w =
     (let ((entry_status, entry_uid), w) = GetStatusAndUidAtomic i w
      in if entry_status = kUsed \<and> entry_uid = uid then
           (let old_pid = read_pid i w in (Some old_pid, write_pid i pid w))
         else if entry_status = kUpdating \<and> entry_uid = uid then
           (Some pid, SetStatusAndUidAtomic i kUsed uid (write_pid i pid w))
         else TryUpdatePidForExistingUid_loop idxs uid pid w)"

definition TryUpdatePidForExistingUid :: "uid_t \<Rightarrow> pid_t \<Rightarrow> mapping_world \<Rightarrow> pid_t option \<times> mapping_world" where
  "TryUpdatePidForExistingUid uid pid w =
     TryUpdatePidForExistingUid_loop [0..<length (mem w)] uid pid w"

fun RegisterPid_scan ::
    "nat list \<Rightarrow> uid_t \<Rightarrow> pid_t \<Rightarrow> mapping_world \<Rightarrow> pid_t option \<times> mapping_world" where
  "RegisterPid_scan [] uid pid w = (None, w)"
| "RegisterPid_scan (i # idxs) uid pid w =
     (let ((entry_status, entry_uid), w) = GetStatusAndUidAtomic i w
      in if entry_status = kUnused then
           (let current_entry_key = CreateKey entry_status entry_uid;
                new_entry_key = CreateKey kUpdating uid;
                (ok, _, w) = compare_exchange_weak (get_key i) (put_key i) current_entry_key new_entry_key w
            in if ok then (Some pid, SetStatusAndUidAtomic i kUsed uid (write_pid i pid w))
               else RegisterPid_scan idxs uid pid w)
         else RegisterPid_scan idxs uid pid w)"

definition kMaxRetries :: nat where
  "kMaxRetries = 50"

definition RegisterPid :: "uid_t \<Rightarrow> pid_t \<Rightarrow> mapping_world \<Rightarrow> (pid_t option \<times> mapping_world) run" where
  "RegisterPid uid pid w =
     (let (result_pid, w) = TryUpdatePidForExistingUid uid pid w
      in if result_pid \<noteq> None then Some (result_pid, w)
         else do {
           (r, _, w) \<leftarrow> for_retry (\<lambda>w. Some (RegisterPid_scan [0..<length (mem w)] uid pid w)) kMaxRetries 0 w;
           Some (r, w) })"

subsection \<open>The key as a pair\<close>

lemma key_halves [simp]:
  "status_of_key (CreateKey s u) = s" "uid_of_key (CreateKey s u) = u"
proof -
  have m: "(0x00000000FFFFFFFF :: u64) = mask 32" by (simp add: mask_eq_exp_minus_1)
  show "status_of_key (CreateKey s u) = s"
    unfolding status_of_key_def CreateKey_def
    by (rule bit_eqI) (auto simp: bit_simps dest: bit_imp_le_length)
  show "uid_of_key (CreateKey s u) = u"
    unfolding uid_of_key_def CreateKey_def m
    by (rule bit_eqI) (auto simp: bit_simps dest: bit_imp_le_length)
qed

interpretation mapping_key: packed_word "\<lambda>(s, u). CreateKey s u" "\<lambda>k. (status_of_key k, uid_of_key k)"
  by unfold_locales (auto split: prod.splits)

lemma distinct_statuses [simp]:
  "kUnused \<noteq> kUsed" "kUnused \<noteq> kUpdating" "kUsed \<noteq> kUpdating"
  "kUsed \<noteq> kUnused" "kUpdating \<noteq> kUnused" "kUpdating \<noteq> kUsed"
  by (simp_all add: kUnused_def kUsed_def kUpdating_def)

definition entry_status :: "mapping_entry \<Rightarrow> MappingEntryStatus" where
  "entry_status e = status_of_key (key_uid_status e)"

definition entry_uid :: "mapping_entry \<Rightarrow> uid_t" where
  "entry_uid e = uid_of_key (key_uid_status e)"

subsection \<open>Without interference\<close>

definition used_entry :: "uid_t \<Rightarrow> pid_t \<Rightarrow> mapping_entry" where
  "used_entry uid pid = \<lparr>key_uid_status = CreateKey kUsed uid, entry_pid = pid\<rparr>"

lemma used_entry_simps [simp]:
  "entry_status (used_entry uid pid) = kUsed" "entry_uid (used_entry uid pid) = uid"
  "entry_pid (used_entry uid pid) = pid"
  by (simp_all add: used_entry_def entry_status_def entry_uid_def)

lemma mapping_entry_write [simp]:
  "(e :: mapping_entry)\<lparr>entry_pid := p, key_uid_status := k\<rparr> = \<lparr>key_uid_status = k, entry_pid = p\<rparr>"
  by (cases e) simp

text \<open>
  An entry whose word the code itself has written: the status is one of the first three and the
  word is made of nothing else.
\<close>

definition proper_entry :: "mapping_entry \<Rightarrow> bool" where
  "proper_entry e \<longleftrightarrow>
     entry_status e \<in> {kUnused, kUsed, kUpdating} \<and>
     key_uid_status e = CreateKey (entry_status e) (entry_uid e)"

definition owned_by :: "uid_t \<Rightarrow> mapping_entry \<Rightarrow> bool" where
  "owned_by uid e \<longleftrightarrow> entry_uid e = uid \<and> (entry_status e = kUsed \<or> entry_status e = kUpdating)"

lemma GetStatusAndUid_quiet:
  "quiet w \<Longrightarrow> GetStatusAndUidAtomic i w = ((entry_status (mem w ! i), entry_uid (mem w ! i)), w)"
  by (simp add: GetStatusAndUidAtomic_def get_key_def entry_status_def entry_uid_def)

lemma TryUpdate_quiet:
  assumes "quiet w" and "list_all proper_entry (mem w)"
  shows "TryUpdatePidForExistingUid uid pid w =
    (case List.find (\<lambda>i. owned_by uid (mem w ! i)) [0..<length (mem w)] of
       None \<Rightarrow> (None, w)
     | Some i \<Rightarrow> (Some (if entry_status (mem w ! i) = kUsed then entry_pid (mem w ! i) else pid),
                 w\<lparr>mem := (mem w)[i := used_entry uid pid]\<rparr>))"
proof -
  have "TryUpdatePidForExistingUid_loop idxs uid pid w =
    (case List.find (\<lambda>i. owned_by uid (mem w ! i)) idxs of
       None \<Rightarrow> (None, w)
     | Some i \<Rightarrow> (Some (if entry_status (mem w ! i) = kUsed then entry_pid (mem w ! i) else pid),
                 w\<lparr>mem := (mem w)[i := used_entry uid pid]\<rparr>))"
    if "set idxs \<subseteq> {..<length (mem w)}" for idxs
    using that
  proof (induction idxs)
    case Nil
    then show ?case by simp
  next
    case (Cons i idxs)
    then have i: "i < length (mem w)" by simp
    then have "proper_entry (mem w ! i)" using assms(2) by (simp add: list_all_length)
    then have "entry_status (mem w ! i) = kUsed \<Longrightarrow> entry_uid (mem w ! i) = uid \<Longrightarrow>
        (mem w ! i)\<lparr>entry_pid := pid\<rparr> = used_entry uid pid"
      by (simp add: proper_entry_def used_entry_def)
    with Cons i assms(1) show ?case
      by (auto simp: GetStatusAndUid_quiet owned_by_def read_pid_def write_pid_def
          SetStatusAndUidAtomic_def put_key_def used_entry_def)
  qed
  from this [of "[0..<length (mem w)]"] show ?thesis
    by (simp add: TryUpdatePidForExistingUid_def lessThan_atLeast0)
qed

lemma RegisterPid_scan_quiet:
  assumes "quiet w" and "list_all proper_entry (mem w)" and "set idxs \<subseteq> {..<length (mem w)}"
  shows "RegisterPid_scan idxs uid pid w =
    (case List.find (\<lambda>i. entry_status (mem w ! i) = kUnused) idxs of
       None \<Rightarrow> (None, w)
     | Some i \<Rightarrow> (Some pid, w\<lparr>mem := (mem w)[i := used_entry uid pid]\<rparr>))"
  using assms(3)
proof (induction idxs)
  case Nil
  then show ?case by simp
next
  case (Cons i idxs)
  then have i: "i < length (mem w)" by simp
  then have "proper_entry (mem w ! i)" using assms(2) by (simp add: list_all_length)
  then have "get_key i (mem w) = CreateKey (entry_status (mem w ! i)) (entry_uid (mem w ! i))"
    by (simp add: proper_entry_def get_key_def)
  with Cons i assms(1) show ?case
    by (auto simp: GetStatusAndUid_quiet write_pid_def SetStatusAndUidAtomic_def put_key_def used_entry_def)
qed

lemma RegisterPid_quiet:
  assumes "quiet w" and "list_all proper_entry (mem w)"
  shows "RegisterPid uid pid w =
    (case List.find (\<lambda>i. owned_by uid (mem w ! i)) [0..<length (mem w)] of
       Some i \<Rightarrow> Some (Some (if entry_status (mem w ! i) = kUsed then entry_pid (mem w ! i) else pid),
                 w\<lparr>mem := (mem w)[i := used_entry uid pid]\<rparr>)
     | None \<Rightarrow>
         (case List.find (\<lambda>i. entry_status (mem w ! i) = kUnused) [0..<length (mem w)] of
            Some i \<Rightarrow> Some (Some pid, w\<lparr>mem := (mem w)[i := used_entry uid pid]\<rparr>)
          | None \<Rightarrow> Some (None, w)))"
proof -
  let ?body = "\<lambda>w. Some (RegisterPid_scan [0..<length (mem w)] uid pid w)"
  have scan: "RegisterPid_scan [0..<length (mem w)] uid pid w =
    (case List.find (\<lambda>i. entry_status (mem w ! i) = kUnused) [0..<length (mem w)] of
       None \<Rightarrow> (None, w)
     | Some i \<Rightarrow> (Some pid, w\<lparr>mem := (mem w)[i := used_entry uid pid]\<rparr>))"
    by (rule RegisterPid_scan_quiet [OF assms]) auto
  show ?thesis
  proof (cases "List.find (\<lambda>i. entry_status (mem w ! i) = kUnused) [0..<length (mem w)]")
    case None
    then have "for_retry ?body kMaxRetries 0 w = Some (None, 0 + kMaxRetries, w)"
      by (intro for_retry_stuck) (simp add: scan)
    with None show ?thesis
      by (simp add: RegisterPid_def TryUpdate_quiet [OF assms] split: option.split)
  next
    case (Some i)
    then have "for_retry ?body kMaxRetries 0 w = Some (Some pid, 0, w\<lparr>mem := (mem w)[i := used_entry uid pid]\<rparr>)"
      by (intro for_retry_first) (simp_all add: scan kMaxRetries_def)
    with Some show ?thesis
      by (simp add: RegisterPid_def TryUpdate_quiet [OF assms] split: option.split)
  qed
qed

subsection \<open>The mapping as a finite map\<close>

definition pid_mapping :: "mapping_entry list \<Rightarrow> uid_t \<Rightarrow> pid_t option" where
  "pid_mapping es uid =
     (case List.find (\<lambda>i. owned_by uid (es ! i)) [0..<length es] of
        None \<Rightarrow> None
      | Some i \<Rightarrow> Some (entry_pid (es ! i)))"

definition mapping_wf :: "mapping_entry list \<Rightarrow> bool" where
  "mapping_wf es \<longleftrightarrow>
     list_all (\<lambda>e. proper_entry e \<and> entry_status e \<noteq> kUpdating) es \<and>
     (\<forall>i < length es. \<forall>j < length es. \<forall>uid. owned_by uid (es ! i) \<and> owned_by uid (es ! j) \<longrightarrow> i = j)"

lemma mapping_wf_proper: "mapping_wf es \<Longrightarrow> list_all proper_entry es"
  by (auto simp: mapping_wf_def list_all_length)

lemma find_upt_SomeD: "List.find P [0..<n] = Some i \<Longrightarrow> i < n \<and> P i"
  by (auto simp: find_Some_iff)

lemma find_upt_None: "List.find P [0..<n] = None \<longleftrightarrow> (\<forall>i < n. \<not> P i)"
  by (auto simp: find_None_iff)

lemma pid_mapping_None_iff: "pid_mapping es uid = None \<longleftrightarrow> (\<forall>i < length es. \<not> owned_by uid (es ! i))"
  by (simp add: pid_mapping_def find_upt_None [symmetric] split: option.split)

lemma pid_mapping_Some_iff:
  assumes "mapping_wf es"
  shows "pid_mapping es uid = Some p \<longleftrightarrow> (\<exists>i < length es. owned_by uid (es ! i) \<and> entry_pid (es ! i) = p)"
proof (cases "List.find (\<lambda>i. owned_by uid (es ! i)) [0..<length es]")
  case None
  then have "\<forall>i < length es. \<not> owned_by uid (es ! i)" by (simp only: find_upt_None)
  with None show ?thesis by (auto simp: pid_mapping_def)
next
  case (Some i)
  from find_upt_SomeD [OF Some] have "j = i" if "j < length es" "owned_by uid (es ! j)" for j
    using assms that unfolding mapping_wf_def by blast
  with find_upt_SomeD [OF Some] Some show ?thesis by (auto simp: pid_mapping_def)
qed

lemma owned_by_used [simp]: "owned_by u (used_entry uid pid) \<longleftrightarrow> u = uid"
  by (auto simp: owned_by_def)

lemma proper_used [simp]: "proper_entry (used_entry uid pid)"
  by (simp add: proper_entry_def) (simp add: used_entry_def)

text \<open>Writing entry \<open>i\<close>, which is free or already owned by \<open>uid\<close>, while nobody else owns \<open>uid\<close>.\<close>

lemma write_entry_wf:
  assumes "mapping_wf es" and "i < length es"
    and "\<And>j. j < length es \<Longrightarrow> owned_by uid (es ! j) \<Longrightarrow> j = i"
  shows "mapping_wf (es[i := used_entry uid pid])"
  using assms unfolding mapping_wf_def
  by (auto simp: list_all_length nth_list_update)

lemma write_entry_map:
  assumes "mapping_wf es" and "i < length es"
    and "\<And>j. j < length es \<Longrightarrow> owned_by uid (es ! j) \<Longrightarrow> j = i"
    and "\<And>u. owned_by u (es ! i) \<Longrightarrow> u = uid"
  shows "pid_mapping (es[i := used_entry uid pid]) = (pid_mapping es)(uid \<mapsto> pid)"
proof
  fix u
  let ?es = "es[i := used_entry uid pid]"
  have wf: "mapping_wf ?es" using assms(1-3) by (rule write_entry_wf)
  have "pid_mapping ?es u = Some p \<longleftrightarrow> ((pid_mapping es)(uid \<mapsto> pid)) u = Some p" for p
  proof (cases "u = uid")
    case True
    have "(\<exists>j < length ?es. owned_by uid (?es ! j) \<and> entry_pid (?es ! j) = p) \<longleftrightarrow> p = pid"
      using assms(2,3) by (auto simp: nth_list_update)
    with True pid_mapping_Some_iff [OF wf, of uid p] show ?thesis by auto
  next
    case False
    have "(\<exists>j < length ?es. owned_by u (?es ! j) \<and> entry_pid (?es ! j) = p) \<longleftrightarrow>
        (\<exists>j < length es. owned_by u (es ! j) \<and> entry_pid (es ! j) = p)"
      using assms(2,4) False by (auto simp: nth_list_update) metis+
    with False pid_mapping_Some_iff [OF wf, of u p] pid_mapping_Some_iff [OF assms(1), of u p]
    show ?thesis by simp
  qed
  then show "pid_mapping ?es u = ((pid_mapping es)(uid \<mapsto> pid)) u"
    by (metis option.exhaust)
qed

lemma RegisterPid_refines:
  assumes "quiet w" and "mapping_wf (mem w)"
  shows "\<exists>r w'. RegisterPid uid pid w = Some (r, w') \<and> quiet w' \<and> mapping_wf (mem w') \<and>
    (if pid_mapping (mem w) uid \<noteq> None
     then r = pid_mapping (mem w) uid \<and> pid_mapping (mem w') = (pid_mapping (mem w))(uid \<mapsto> pid)
     else if \<exists>i < length (mem w). entry_status (mem w ! i) = kUnused
     then r = Some pid \<and> pid_mapping (mem w') = (pid_mapping (mem w))(uid \<mapsto> pid)
     else r = None \<and> w' = w)"
proof -
  let ?es = "mem w"
  note run = RegisterPid_quiet [OF assms(1) mapping_wf_proper [OF assms(2)], of uid pid]
  show ?thesis
  proof (cases "List.find (\<lambda>i. owned_by uid (?es ! i)) [0..<length ?es]")
    case (Some i)
    from find_upt_SomeD [OF Some] have i: "i < length ?es" "owned_by uid (?es ! i)" by auto
    then have st: "entry_status (?es ! i) = kUsed" and only: "owned_by u (?es ! i) \<Longrightarrow> u = uid" for u
      using assms(2) by (auto simp: mapping_wf_def list_all_length owned_by_def)
    have uniq: "j = i" if "j < length ?es" "owned_by uid (?es ! j)" for j
      using assms(2) i that unfolding mapping_wf_def by blast
    have "pid_mapping ?es uid = Some (entry_pid (?es ! i))" using Some by (simp add: pid_mapping_def)
    with run Some st write_entry_wf [OF assms(2) i(1) uniq] write_entry_map [OF assms(2) i(1) uniq only] assms(1)
    show ?thesis by simp
  next
    case None
    then have absent: "pid_mapping ?es uid = None" by (simp add: pid_mapping_def)
    show ?thesis
    proof (cases "List.find (\<lambda>i. entry_status (?es ! i) = kUnused) [0..<length ?es]")
      case None': None
      with run None absent assms show ?thesis by (auto simp: find_upt_None)
    next
      case (Some i)
      from find_upt_SomeD [OF Some] have i: "i < length ?es" "entry_status (?es ! i) = kUnused" by auto
      then have free: "\<not> owned_by u (?es ! i)" for u by (simp add: owned_by_def)
      have uniq: "j = i" if "j < length ?es" "owned_by uid (?es ! j)" for j
        using None that by (auto simp: find_upt_None)
      have only: "u = uid" if "owned_by u (?es ! i)" for u using that free by simp
      have ex: "\<exists>i < length ?es. entry_status (?es ! i) = kUnused" using i by blast
      show ?thesis
        using run None Some absent ex write_entry_wf [OF assms(2) i(1) uniq]
          write_entry_map [OF assms(2) i(1) uniq only] assms(1)
        by simp
    qed
  qed
qed

text \<open>
  Property C25: registration refines a finite map. In a quiet world with entries that no crash
  has left behind, registering a uid that is present returns its previous pid, and a new uid is
  entered, with its own pid as the result, exactly when some entry is unused; in both cases the
  map changes at that uid only. With no entry left nothing changes and there is no result.
\<close>

theorem register_pid_refines_map:
  assumes "quiet w" and "mapping_wf (mem w)"
  shows "\<exists>r w'. RegisterPid uid pid w = Some (r, w') \<and> quiet w' \<and> mapping_wf (mem w') \<and>
    (if pid_mapping (mem w) uid \<noteq> None
     then r = pid_mapping (mem w) uid \<and> pid_mapping (mem w') = (pid_mapping (mem w))(uid \<mapsto> pid)
     else if \<exists>i < length (mem w). entry_status (mem w ! i) = kUnused
     then r = Some pid \<and> pid_mapping (mem w') = (pid_mapping (mem w))(uid \<mapsto> pid)
     else r = None \<and> w' = w)"
  using assms by (rule RegisterPid_refines)

lemma new_mapping_wf: "mapping_wf (UidPidMapping n)"
  using key_halves [of 0 0]
  by (auto simp: mapping_wf_def UidPidMapping_def list_all_length proper_entry_def entry_status_def
      entry_uid_def owned_by_def CreateKey_def status_of_key_def uid_of_key_def kUnused_def kUsed_def
      kUpdating_def)

theorem register_pid_refines_map_witness:
  "\<exists>w1 w2. RegisterPid 7 100 \<lparr>mem = UidPidMapping 2, sched = []\<rparr> = Some (Some 100, w1) \<and>
     RegisterPid 7 200 w1 = Some (Some 100, w2) \<and> pid_mapping (mem w2) 7 = Some 200"
proof -
  let ?w = "\<lparr>mem = UidPidMapping 2, sched = []\<rparr> :: mapping_world"
  have z: "status_of_key 0 = kUnused" "uid_of_key 0 = 0"
    by (simp_all add: status_of_key_def uid_of_key_def kUnused_def)
  have "pid_mapping (UidPidMapping 2) 7 = None"
    by (auto simp: pid_mapping_None_iff UidPidMapping_def owned_by_def entry_status_def z)
  moreover have "\<exists>i < length (UidPidMapping 2). entry_status (UidPidMapping 2 ! i) = kUnused"
    by (auto simp: UidPidMapping_def entry_status_def z intro!: exI [of _ 0])
  ultimately obtain w1 where w1: "RegisterPid 7 100 ?w = Some (Some 100, w1)" "mapping_wf (mem w1)"
      "pid_mapping (mem w1) 7 = Some 100"
    using register_pid_refines_map [of ?w 7 100] new_mapping_wf [of 2] by auto
  have "quiet w1"
    using w1(1) RegisterPid_quiet [of ?w 7 100] mapping_wf_proper [OF new_mapping_wf [of 2]]
    by (auto split: option.splits)
  then obtain w2 where "RegisterPid 7 200 w1 = Some (Some 100, w2)" "pid_mapping (mem w2) 7 = Some 200"
    using register_pid_refines_map [of w1 7 200] w1 by auto
  with w1(1) show ?thesis by blast
qed

end
