(* ===== verification/Slot_Collector.thy ===== *)
theory Slot_Collector
  imports Slot_Reference
begin

text \<open>
  \<open>SlotCollector\<close> (slot_collector.h/.cpp) finds the samples a proxy has not seen yet and references
  them, newest first, and hands them to the user oldest first; \<open>SlotDecrementer\<close>
  (slot_decrementer.h/.cpp) gives a reference back when the user drops the sample.

  The pre-allocated vector \<open>collected_slots_\<close> keeps its length, which bounds the number of
  samples; the pair of reverse iterators the code returns is the reversed prefix of it. The
  logs of the control block and its memory are passed along.
\<close>

subsection \<open>Definitions\<close>

record slot_collector =
  last_ts :: u32
  collected_slots :: "nat list"
  transaction_log_index :: nat

definition SlotCollector :: "nat \<Rightarrow> nat \<Rightarrow> slot_collector" where
  "SlotCollector max_slots log_index =
     \<lparr>last_ts = 0, collected_slots = replicate max_slots 0, transaction_log_index = log_index\<rparr>"

definition GetNumNewSamplesAvailable :: "'c \<Rightarrow> slot_collector \<Rightarrow> 'c edc_world \<Rightarrow> nat \<times> 'c edc_world" where
  "GetNumNewSamplesAvailable c sc w = GetNumNewEvents c (last_ts sc) w"

text \<open>
  The loop of \<open>CollectSlots\<close>: \<open>n\<close> is the number of iterations that the count and the rest of the
  vector still admit, \<open>pos\<close> the position of the iterator \<open>collected_slot\<close>.
\<close>

fun CollectSlots_loop ::
    "'c \<Rightarrow> nat \<Rightarrow> u32 \<Rightarrow> nat \<Rightarrow> slot_collector \<Rightarrow> transaction_log_set \<Rightarrow> 'c edc_world \<Rightarrow>
     (nat \<times> slot_collector \<times> transaction_log_set \<times> 'c edc_world) run" where
  "CollectSlots_loop c 0 current_highest pos sc t w = Some (pos, sc, t, w)"
| "CollectSlots_loop c (Suc n) current_highest pos sc t w = do {
     (slot, t, w) \<leftarrow> ReferenceNextEvent c (last_ts sc) (transaction_log_index sc) current_highest t w;
     (case slot of
        Some i \<Rightarrow>
          (let (event_status, w) = slot_at c i w
           in CollectSlots_loop c n (GetTimeStamp event_status) (pos + 1)
                (sc\<lparr>collected_slots := (collected_slots sc)[pos := i]\<rparr>) t w)
      | None \<Rightarrow> Some (pos, sc, t, w)) }"

definition CollectSlots ::
    "'c \<Rightarrow> nat \<Rightarrow> slot_collector \<Rightarrow> transaction_log_set \<Rightarrow> 'c edc_world \<Rightarrow>
     (nat \<times> slot_collector \<times> transaction_log_set \<times> 'c edc_world) run" where
  "CollectSlots c max_count sc t w =
     CollectSlots_loop c (min max_count (length (collected_slots sc))) TIMESTAMP_MAX 0 sc t w"

fun highest_timestamp :: "'c \<Rightarrow> nat list \<Rightarrow> u32 \<Rightarrow> 'c edc_world \<Rightarrow> u32 \<times> 'c edc_world" where
  "highest_timestamp c [] highest_delivered w = (highest_delivered, w)"
| "highest_timestamp c (slot # slots) highest_delivered w =
     (let (slot_status, w) = slot_at c slot w
      in highest_timestamp c slots (max highest_delivered (GetTimeStamp slot_status)) w)"

definition GetNewSamplesSlotIndices ::
    "'c \<Rightarrow> nat \<Rightarrow> slot_collector \<Rightarrow> transaction_log_set \<Rightarrow> 'c edc_world \<Rightarrow>
     (nat list \<times> slot_collector \<times> transaction_log_set \<times> 'c edc_world) run" where
  "GetNewSamplesSlotIndices c max_count sc t w = do {
     (pos, sc, t, w) \<leftarrow> CollectSlots c max_count sc t w;
     let slots = rev (take pos (collected_slots sc));
     let (highest_delivered, w) = highest_timestamp c slots (last_ts sc) w;
     Some (slots, sc\<lparr>last_ts := highest_delivered\<rparr>, t, w) }"

subsection \<open>The decrementer\<close>

text \<open>A moved-from decrementer has a null pointer and does nothing when it is destroyed.\<close>

record 'c slot_decrementer =
  sd_control :: "'c option"
  sd_slot_index :: nat
  sd_log_index :: nat

definition SlotDecrementer :: "'c option \<Rightarrow> nat \<Rightarrow> nat \<Rightarrow> 'c slot_decrementer" where
  "SlotDecrementer control event_slot_index transaction_log_idx =
     \<lparr>sd_control = control, sd_slot_index = event_slot_index, sd_log_index = transaction_log_idx\<rparr>"

definition internal_delete ::
    "'c slot_decrementer \<Rightarrow> transaction_log_set \<Rightarrow> 'c edc_world \<Rightarrow> (transaction_log_set \<times> 'c edc_world) run" where
  "internal_delete d t w =
     (case sd_control d of
        None \<Rightarrow> Some (t, w)
      | Some c \<Rightarrow> DereferenceEvent c (sd_slot_index d) (sd_log_index d) t w)"

definition SlotDecrementer_destroy ::
    "'c slot_decrementer \<Rightarrow> transaction_log_set \<Rightarrow> 'c edc_world \<Rightarrow> (transaction_log_set \<times> 'c edc_world) run" where
  "SlotDecrementer_destroy d t w = internal_delete d t w"

definition SlotDecrementer_move :: "'c slot_decrementer \<Rightarrow> 'c slot_decrementer \<times> 'c slot_decrementer" where
  "SlotDecrementer_move other = (other, other\<lparr>sd_control := None\<rparr>)"

text \<open>Move assignment of two different objects; assigning an object to itself does nothing.\<close>

definition SlotDecrementer_assign ::
    "'c slot_decrementer \<Rightarrow> 'c slot_decrementer \<Rightarrow> transaction_log_set \<Rightarrow> 'c edc_world \<Rightarrow>
     ('c slot_decrementer \<times> 'c slot_decrementer \<times> transaction_log_set \<times> 'c edc_world) run" where
  "SlotDecrementer_assign this other t w = do {
     (t, w) \<leftarrow> internal_delete this t w;
     Some (other, other\<lparr>sd_control := None\<rparr>, t, w) }"

subsection \<open>What one collection takes\<close>

text \<open>Slots in the order they are taken: each the newest below the one before.\<close>

fun newest_first :: "u64 list \<Rightarrow> u32 \<Rightarrow> u32 \<Rightarrow> nat list \<Rightarrow> bool" where
  "newest_first ss lo hi [] \<longleftrightarrow> True"
| "newest_first ss lo hi (i # xs) \<longleftrightarrow>
     newest_between ss lo hi i \<and> newest_first ss lo (GetTimeStamp (ss ! i)) xs"

definition lowest_taken :: "u64 list \<Rightarrow> u32 \<Rightarrow> nat list \<Rightarrow> u32" where
  "lowest_taken ss hi xs = (if xs = [] then hi else GetTimeStamp (ss ! last xs))"

definition add_reader :: "nat set \<Rightarrow> u64 list \<Rightarrow> u64 list" where
  "add_reader A ss = map (\<lambda>i. if i \<in> A then ss ! i + 1 else ss ! i) [0..<length ss]"

definition hold_all :: "nat list \<Rightarrow> transaction_log \<Rightarrow> transaction_log" where
  "hold_all xs l = fold (\<lambda>i. set_phase i Held) xs l"

lemma add_reader_nth [simp]:
  "i < length ss \<Longrightarrow> add_reader A ss ! i = (if i \<in> A then ss ! i + 1 else ss ! i)"
  "length (add_reader A ss) = length ss"
  by (simp_all add: add_reader_def)

lemma add_reader_empty [simp]: "add_reader {} ss = ss"
  by (simp add: add_reader_def map_nth)

lemma hold_all_frame [simp]: "num_slots (hold_all xs l) = num_slots l"
  by (induction xs arbitrary: l) (simp_all add: hold_all_def)

lemma slot_phase_hold_all:
  "set xs \<subseteq> {..<num_slots l} \<Longrightarrow>
     slot_phase (hold_all xs l) j = (if j \<in> set xs then Held else slot_phase l j)"
  unfolding hold_all_def by (induction xs arbitrary: l) auto

text \<open>No count in the range is at its maximum, so that adding a reader keeps the timestamp.\<close>

definition counts_below_max :: "u64 list \<Rightarrow> u32 \<Rightarrow> u32 \<Rightarrow> bool" where
  "counts_below_max ss lo hi \<longleftrightarrow>
     (\<forall>i < length ss. IsTimeStampBetween (ss ! i) lo hi \<longrightarrow> GetReferenceCount (ss ! i) \<noteq> - 1)"

lemma newest_first_props:
  "newest_first ss lo hi xs \<Longrightarrow>
     distinct xs \<and> set xs \<subseteq> {..<length ss} \<and>
     (\<forall>i \<in> set xs. IsTimeStampBetween (ss ! i) lo hi) \<and>
     sorted_wrt (\<lambda>i j. GetTimeStamp (ss ! j) < GetTimeStamp (ss ! i)) xs"
proof (induction xs arbitrary: hi)
  case Nil
  then show ?case by simp
next
  case (Cons i xs)
  then have n: "newest_between ss lo hi i" by simp
  from Cons have IH: "distinct xs" "set xs \<subseteq> {..<length ss}"
    "\<forall>j \<in> set xs. IsTimeStampBetween (ss ! j) lo (GetTimeStamp (ss ! i))"
    "sorted_wrt (\<lambda>i j. GetTimeStamp (ss ! j) < GetTimeStamp (ss ! i)) xs"
    by auto
  from n IH show ?case
    by (auto simp: newest_between_def IsTimeStampBetween_def dest: less_trans)
qed

lemma between_plus_one:
  assumes "IsTimeStampBetween d lo hi" and "GetReferenceCount d \<noteq> - 1"
  shows "IsTimeStampBetween (d + 1) lo' hi' = IsTimeStampBetween d lo' hi'"
proof -
  have "GetTimeStamp d \<noteq> 0" using assms(1) by (auto simp: IsTimeStampBetween_def)
  with halves_plus_one [OF assms(2)] show ?thesis
    by (simp add: IsTimeStampBetween_def IsInWriting_iff IsInvalid_iff)
qed

lemma newest_first_cong:
  assumes "length ss' = length ss"
    and "\<And>j. j < length ss \<Longrightarrow> GetTimeStamp (ss' ! j) = GetTimeStamp (ss ! j)"
    and "\<And>j lo hi. j < length ss \<Longrightarrow> IsTimeStampBetween (ss' ! j) lo hi = IsTimeStampBetween (ss ! j) lo hi"
  shows "newest_first ss' lo hi xs = newest_first ss lo hi xs"
proof (induction xs arbitrary: hi)
  case Nil
  then show ?case by simp
next
  case (Cons i xs)
  have "newest_between ss' lo hi i = newest_between ss lo hi i"
    using assms by (auto simp: newest_between_def)
  with Cons assms show ?case by (auto simp: newest_between_def)
qed

definition collected :: "u64 list \<Rightarrow> u32 \<Rightarrow> u32 \<Rightarrow> nat \<Rightarrow> nat list \<Rightarrow> bool" where
  "collected ss lo hi n xs \<longleftrightarrow>
     newest_first ss lo hi xs \<and> length xs \<le> n \<and>
     (length xs < n \<longrightarrow> (\<forall>j < length ss. \<not> IsTimeStampBetween (ss ! j) lo (lowest_taken ss hi xs)))"

lemma CollectSlots_loop_quiet:
  assumes "quiet w" and "GetTransactionLog (transaction_log_index sc) t = Some l"
    and "unseen_between (mem w c) (last_ts sc) hi l" and "counts_below_max (mem w c) (last_ts sc) hi"
    and "pos + n \<le> length (collected_slots sc)"
  shows "\<exists>xs cs w'. CollectSlots_loop c n hi pos sc t w =
      Some (pos + length xs, sc\<lparr>collected_slots := cs\<rparr>,
            PutTransactionLog (transaction_log_index sc) (hold_all xs l) t, w') \<and>
    collected (mem w c) (last_ts sc) hi n xs \<and>
    length cs = length (collected_slots sc) \<and> take (pos + length xs) cs = take pos (collected_slots sc) @ xs \<and>
    quiet w' \<and> mem w' = (mem w)(c := add_reader (set xs) (mem w c))"
  using assms
proof (induction n arbitrary: w sc t l hi pos)
  case 0
  then show ?case
    by (intro exI [of _ "[]"] exI [of _ "collected_slots sc"] exI [of _ w])
      (simp add: collected_def hold_all_def PutTransactionLog_same)
next
  case (Suc n)
  let ?ss = "mem w c" and ?k = "transaction_log_index sc" and ?lo = "last_ts sc"
  obtain sel t1 w1 where run: "ReferenceNextEvent c ?lo ?k hi t w = Some (sel, t1, w1)" and q1: "quiet w1"
    and sel: "case sel of
       None \<Rightarrow> (\<forall>j < length ?ss. \<not> IsTimeStampBetween (?ss ! j) ?lo hi) \<and> mem w1 = mem w \<and> t1 = t
     | Some i \<Rightarrow> newest_between ?ss ?lo hi i \<and> mem w1 = put_slot c i (?ss ! i + 1) (mem w) \<and>
         t1 = PutTransactionLog ?k (set_phase i Held l) t"
    using ReferenceNextEvent_quiet [OF Suc.prems(1-3)] by blast
  show ?case
  proof (cases sel)
    case None
    with run sel q1 Suc.prems(2) show ?thesis
      by (intro exI [of _ "[]"] exI [of _ "collected_slots sc"] exI [of _ w1])
        (simp add: collected_def hold_all_def PutTransactionLog_same lowest_taken_def)
  next
    case (Some i)
    let ?l1 = "set_phase i Held l" and ?ss1 = "?ss[i := ?ss ! i + 1]" and ?hi1 = "GetTimeStamp (?ss ! i)"
    let ?sc1 = "sc\<lparr>collected_slots := (collected_slots sc)[pos := i]\<rparr>"
    from sel Some have new: "newest_between ?ss ?lo hi i" and m1: "mem w1 c = ?ss1"
      and t1: "t1 = PutTransactionLog ?k ?l1 t" and mem1: "mem w1 = (mem w)(c := ?ss1)"
      by (simp_all add: put_slot_def)
    then have i: "i < length ?ss" "IsTimeStampBetween (?ss ! i) ?lo hi" "?hi1 < hi"
      by (auto simp: newest_between_def IsTimeStampBetween_def)
    have rc: "GetReferenceCount (?ss ! i) \<noteq> - 1" using Suc.prems(4) i by (simp add: counts_below_max_def)
    have ts: "GetTimeStamp (?ss1 ! j) = GetTimeStamp (?ss ! j)" if "j < length ?ss" for j
      using halves_plus_one(1) [OF rc] that by (cases "j = i") auto
    have bt: "IsTimeStampBetween (?ss1 ! j) a b = IsTimeStampBetween (?ss ! j) a b" if "j < length ?ss" for j a b
      using between_plus_one [OF i(2) rc, of a b] that by (cases "j = i") auto
    have below: "j \<noteq> i" "IsTimeStampBetween (?ss ! j) ?lo hi"
      if "IsTimeStampBetween (?ss ! j) ?lo ?hi1" for j
      using that i(3) by (auto simp: IsTimeStampBetween_def dest: less_trans)
    have il: "i < num_slots l" using Suc.prems(3) i by (simp add: unseen_between_def)
    have l1: "GetTransactionLog (transaction_log_index ?sc1) t1 = Some ?l1"
      using t1 Suc.prems(2) by (simp add: logs.get_put_same)
    have u1: "unseen_between (mem w1 c) (last_ts ?sc1) ?hi1 ?l1"
      using Suc.prems(3) below il bt by (auto simp: unseen_between_def m1)
    have c1: "counts_below_max (mem w1 c) (last_ts ?sc1) ?hi1"
      unfolding counts_below_max_def m1
    proof (intro allI impI)
      fix j assume j: "j < length ?ss1" "IsTimeStampBetween (?ss1 ! j) (last_ts ?sc1) ?hi1"
      then have "IsTimeStampBetween (?ss ! j) ?lo ?hi1" using bt by simp
      from below [OF this] Suc.prems(4) j(1) show "GetReferenceCount (?ss1 ! j) \<noteq> - 1"
        by (simp add: counts_below_max_def)
    qed
    have room: "pos + 1 + n \<le> length (collected_slots ?sc1)" using Suc.prems(5) by simp
    from Suc.IH [OF q1 l1 u1 c1 room] obtain xs cs w' where
      rest': "CollectSlots_loop c n ?hi1 (pos + 1) ?sc1 t1 w1 = Some (pos + 1 + length xs,
        ?sc1\<lparr>collected_slots := cs\<rparr>,
        PutTransactionLog (transaction_log_index ?sc1) (hold_all xs ?l1) t1, w')"
      and xs': "collected (mem w1 c) (last_ts ?sc1) ?hi1 n xs"
      and cs': "length cs = length (collected_slots ?sc1)"
        "take (pos + 1 + length xs) cs = take (pos + 1) (collected_slots ?sc1) @ xs"
      and w': "quiet w'" "mem w' = (mem w1)(c := add_reader (set xs) (mem w1 c))"
      by (elim exE conjE)
    have rest: "CollectSlots_loop c n ?hi1 (pos + 1) ?sc1 t1 w1 = Some (pos + 1 + length xs,
        sc\<lparr>collected_slots := cs\<rparr>, PutTransactionLog ?k (hold_all xs ?l1) t1, w')"
      using rest' by simp
    have xs: "collected ?ss1 ?lo ?hi1 n xs" using xs' m1 by simp
    have cs: "length cs = length (collected_slots sc)"
        "take (pos + 1 + length xs) cs = take (pos + 1) ((collected_slots sc)[pos := i]) @ xs"
      using cs' by simp_all
    have nf: "newest_first ?ss ?lo ?hi1 xs"
      using xs newest_first_cong [of ?ss1 ?ss ?lo ?hi1 xs] ts bt by (simp add: collected_def)
    then have notin: "i \<notin> set xs"
      using newest_first_props below(1) by blast
    have low: "lowest_taken ?ss1 ?hi1 xs = lowest_taken ?ss hi (i # xs)"
    proof (cases "xs = []")
      case False
      then have "last xs < length ?ss" using newest_first_props [OF nf] last_in_set by blast
      with False ts show ?thesis by (simp add: lowest_taken_def)
    qed (simp add: lowest_taken_def)
    have "collected ?ss ?lo hi (Suc n) (i # xs)"
      using xs nf new bt low by (auto simp: collected_def)
    moreover have "CollectSlots_loop c (Suc n) hi pos sc t w = Some (pos + length (i # xs),
        sc\<lparr>collected_slots := cs\<rparr>, PutTransactionLog ?k (hold_all (i # xs) l) t, w')"
      using run Some q1 m1 i(1) rest t1 halves_plus_one(1) [OF rc]
      by (simp add: slot_at_def hold_all_def)
    moreover have "take (pos + length (i # xs)) cs = take pos (collected_slots sc) @ i # xs"
      using cs(2) Suc.prems(5) by (simp add: take_Suc_conv_app_nth)
    moreover have "add_reader (set xs) ?ss1 = add_reader (set (i # xs)) ?ss"
      using notin i(1) by (intro nth_equalityI) (auto simp: nth_list_update)
    ultimately show ?thesis
      using cs(1) w' mem1 m1 by (intro exI [of _ "i # xs"] exI [of _ cs] exI [of _ w']) simp
  qed
qed

lemma highest_timestamp_quiet:
  "quiet w \<Longrightarrow> highest_timestamp c slots h w =
     (fold (\<lambda>i h. max h (GetTimeStamp (mem w c ! i))) slots h, w)"
  by (induction slots arbitrary: h) (simp_all add: slot_at_def)

lemma fold_max_bound:
  "(\<forall>i \<in> set xs. f i \<le> b) \<Longrightarrow> h \<le> b \<Longrightarrow> (b = h \<or> b \<in> f ` set xs) \<Longrightarrow>
     fold (\<lambda>i h. max h (f i)) xs h = (b :: 'k :: linorder)"
proof (induction xs arbitrary: h)
  case Nil
  then show ?case by simp
next
  case (Cons x xs)
  then show ?case by (auto simp: max_def)
qed

lemma GetNewSamplesSlotIndices_quiet:
  assumes "quiet w" and "GetTransactionLog (transaction_log_index sc) t = Some l"
    and "unseen_between (mem w c) (last_ts sc) TIMESTAMP_MAX l"
    and "counts_below_max (mem w c) (last_ts sc) TIMESTAMP_MAX"
  shows "\<exists>xs sc' w'. GetNewSamplesSlotIndices c max_count sc t w =
      Some (rev xs, sc', PutTransactionLog (transaction_log_index sc) (hold_all xs l) t, w') \<and>
    collected (mem w c) (last_ts sc) TIMESTAMP_MAX (min max_count (length (collected_slots sc))) xs \<and>
    mem w' = (mem w)(c := add_reader (set xs) (mem w c)) \<and>
    last_ts sc' = (if xs = [] then last_ts sc else GetTimeStamp (mem w c ! hd xs)) \<and>
    length (collected_slots sc') = length (collected_slots sc)"
proof -
  let ?n = "min max_count (length (collected_slots sc))" and ?ss = "mem w c"
  have room: "0 + ?n \<le> length (collected_slots sc)" by simp
  obtain xs cs w' where
    run: "CollectSlots_loop c ?n TIMESTAMP_MAX 0 sc t w = Some (0 + length xs, sc\<lparr>collected_slots := cs\<rparr>,
            PutTransactionLog (transaction_log_index sc) (hold_all xs l) t, w')"
    and xs: "collected ?ss (last_ts sc) TIMESTAMP_MAX ?n xs"
    and cs: "length cs = length (collected_slots sc)" "take (0 + length xs) cs = take 0 (collected_slots sc) @ xs"
    and w': "quiet w'" "mem w' = (mem w)(c := add_reader (set xs) ?ss)"
    using CollectSlots_loop_quiet [OF assms room] by (elim exE conjE)
  from xs have nf: "newest_first ?ss (last_ts sc) TIMESTAMP_MAX xs" by (simp add: collected_def)
  note props = newest_first_props [OF nf]
  have ts: "GetTimeStamp (mem w' c ! i) = GetTimeStamp (?ss ! i)" if "i \<in> set xs" for i
  proof -
    from that props have "i < length ?ss" "IsTimeStampBetween (?ss ! i) (last_ts sc) TIMESTAMP_MAX" by auto
    with assms(4) that w'(2) show ?thesis by (auto simp: counts_below_max_def halves_plus_one)
  qed
  let ?top = "if xs = [] then last_ts sc else GetTimeStamp (?ss ! hd xs)"
  have top: "GetTimeStamp (?ss ! i) \<le> ?top" "last_ts sc < ?top" if "i \<in> set xs" for i
    using that props by (cases xs; auto simp: IsTimeStampBetween_def intro: less_imp_le)+
  have "fold (\<lambda>i h. max h (GetTimeStamp (mem w' c ! i))) (rev xs) (last_ts sc) = ?top"
  proof (rule fold_max_bound)
    show "\<forall>i \<in> set (rev xs). GetTimeStamp (mem w' c ! i) \<le> ?top" using ts top by simp
    show "last_ts sc \<le> ?top" using top by (cases xs) (auto intro: less_imp_le)
    show "?top = last_ts sc \<or> ?top \<in> (\<lambda>i. GetTimeStamp (mem w' c ! i)) ` set (rev xs)"
      using ts by (cases xs) auto
  qed
  then have "GetNewSamplesSlotIndices c max_count sc t w =
      Some (rev xs, sc\<lparr>collected_slots := cs, last_ts := ?top\<rparr>,
        PutTransactionLog (transaction_log_index sc) (hold_all xs l) t, w')"
    using run cs w' by (simp add: GetNewSamplesSlotIndices_def CollectSlots_def highest_timestamp_quiet)
  with xs cs w' show ?thesis
    by (intro exI [of _ xs] exI [of _ "sc\<lparr>collected_slots := cs, last_ts := ?top\<rparr>"] exI [of _ w'] conjI) simp_all
qed

text \<open>
  Property C24: reception. In a quiet world, for a proxy whose log holds no unseen sample, one
  call hands out the newest unseen samples, at most \<open>max_count\<close> and at most as many as the proxy
  subscribed, oldest first; fewer only if no older unseen sample is left. Each of them has one
  more reader and is held in the proxy's log, no other slot or log is touched, and the search
  limit moves to the newest sample handed out.
\<close>

theorem get_new_samples_newest_first:
  assumes "quiet w" and "GetTransactionLog (transaction_log_index sc) t = Some l"
    and "unseen_between (mem w c) (last_ts sc) TIMESTAMP_MAX l"
    and "counts_below_max (mem w c) (last_ts sc) TIMESTAMP_MAX"
  shows "\<exists>xs sc' w'. GetNewSamplesSlotIndices c max_count sc t w =
      Some (rev xs, sc', PutTransactionLog (transaction_log_index sc) (hold_all xs l) t, w') \<and>
    collected (mem w c) (last_ts sc) TIMESTAMP_MAX (min max_count (length (collected_slots sc))) xs \<and>
    mem w' = (mem w)(c := add_reader (set xs) (mem w c)) \<and>
    last_ts sc' = (if xs = [] then last_ts sc else GetTimeStamp (mem w c ! hd xs)) \<and>
    length (collected_slots sc') = length (collected_slots sc)"
  using assms by (rule GetNewSamplesSlotIndices_quiet)

theorem get_new_samples_newest_first_witness:
  "\<exists>xs sc' t' w'. GetNewSamplesSlotIndices () 5 (SlotCollector 2 0) one_reader_logs (idle_world two_samples)
      = Some (rev xs, sc', t', w') \<and>
    last_ts sc' = (if xs = [] then 0 else GetTimeStamp (two_samples ! hd xs))"
proof -
  let ?sc = "SlotCollector 2 0"
  have m: "mem (idle_world two_samples) () = two_samples" and q: "quiet (idle_world two_samples)"
    by (simp_all add: idle_world_def)
  have s: "last_ts ?sc = 0" "transaction_log_index ?sc = 0" by (simp_all add: SlotCollector_def)
  have l: "GetTransactionLog (transaction_log_index ?sc) one_reader_logs = Some (TransactionLog 2)"
    using one_reader_log s by simp
  have u: "unseen_between (mem (idle_world two_samples) ()) (last_ts ?sc) TIMESTAMP_MAX (TransactionLog 2)"
    by (simp add: m s unseen_between_def two_samples_between TransactionLog_empty)
  have c0: "counts_below_max two_samples 0 TIMESTAMP_MAX"
    unfolding counts_below_max_def two_samples_def by (auto simp: less_Suc_eq)
  have c: "counts_below_max (mem (idle_world two_samples) ()) (last_ts ?sc) TIMESTAMP_MAX"
    using c0 by (simp only: m s)
  from get_new_samples_newest_first [OF q l u c, of 5] obtain xs sc' w' where
    "GetNewSamplesSlotIndices () 5 ?sc one_reader_logs (idle_world two_samples)
      = Some (rev xs, sc', PutTransactionLog (transaction_log_index ?sc) (hold_all xs (TransactionLog 2)) one_reader_logs, w')"
    "last_ts sc' = (if xs = [] then last_ts ?sc else GetTimeStamp (mem (idle_world two_samples) () ! hd xs))"
    by (elim exE conjE)
  then show ?thesis unfolding m s by blast
qed

end
