(* ===== verification/Sample_Reference_Tracker.thy ===== *)
theory Sample_Reference_Tracker
  imports Atomic_World
begin

text \<open>
  \<open>SampleReferenceTracker\<close>, \<open>TrackerGuardFactory\<close> and \<open>SampleReferenceGuard\<close>
  (impl/sample_reference_tracker.h/.cpp): how many samples a user of an event may still hold.
  \<open>Allocate\<close> reserves a number of samples and hands them out as a factory of guards; each guard,
  and the factory for the guards it has left, gives its share back when it is destroyed.

  The loop of \<open>Allocate\<close> has no bound of its own: it ends because a schedule is finite, that is,
  because the other threads stop changing the counter at some point (the code is lock-free, not
  wait-free). The proof of conservation extends the memory by a ghost field that counts what the
  other threads hold; the operations work on every extension of the memory.
\<close>

subsection \<open>Definitions\<close>

record tracker_memory =
  available_samples :: u64
  max_num_samples :: u64

definition get_available :: "'x tracker_memory_scheme \<Rightarrow> u64" where
  "get_available m = available_samples m"

definition put_available :: "u64 \<Rightarrow> 'x tracker_memory_scheme \<Rightarrow> 'x tracker_memory_scheme" where
  "put_available v m = m\<lparr>available_samples := v\<rparr>"

definition SampleReferenceTracker :: "u64 \<Rightarrow> tracker_memory" where
  "SampleReferenceTracker max_samples = \<lparr>available_samples = max_samples, max_num_samples = max_samples\<rparr>"

definition GetNumAvailableSamples ::
    "'x tracker_memory_scheme world \<Rightarrow> u64 \<times> 'x tracker_memory_scheme world" where
  "GetNumAvailableSamples w = atomic_load get_available w"

definition IsUsed :: "'x tracker_memory_scheme world \<Rightarrow> bool \<times> 'x tracker_memory_scheme world" where
  "IsUsed w = (let (n, w) = GetNumAvailableSamples w in (n < max_num_samples (mem w), w))"

lemma allocation_progress: "0 < a \<Longrightarrow> 0 < n \<Longrightarrow> unat (n - min a n) < unat (n :: u64)"
  by (cases "a \<le> n") (auto simp: min_def unat_sub word_le_nat_alt word_less_nat_alt)

function Allocate_loop ::
    "u64 \<Rightarrow> u64 \<Rightarrow> u64 \<Rightarrow> 'x tracker_memory_scheme world \<Rightarrow> u64 \<times> 'x tracker_memory_scheme world" where
  "Allocate_loop num_allocated_samples num_samples num_samples_available w =
     (if num_samples > 0 then
        (if num_samples_available > 0 then
           (let num_samples_to_allocate = min num_samples_available num_samples;
                (ok, num_samples_available, w) =
                  compare_exchange_weak get_available put_available num_samples_available
                    (num_samples_available - num_samples_to_allocate) w
            in if ok
               then Allocate_loop (num_allocated_samples + num_samples_to_allocate)
                      (num_samples - num_samples_to_allocate) num_samples_available w
               else Allocate_loop num_allocated_samples num_samples num_samples_available w)
         else (num_allocated_samples, w))
      else (num_allocated_samples, w))"
  by pat_completeness auto

termination Allocate_loop
  by (relation "measures [\<lambda>(k, n, a, w). length (sched w), \<lambda>(k, n, a, w). unat n,
      \<lambda>(k, n, a, w). if a = get_available (mem w) then 0 else 1]")
    (auto simp: compare_exchange_weak_def advance_def allocation_progress Let_def put_available_def
      get_available_def split: list.splits if_splits)

declare Allocate_loop.simps [simp del]

text \<open>A factory is the number of guards it has left; a guard is whether its pointer is set.\<close>

record guard_factory = num_available_guards :: u64
record reference_guard = tracker_set :: bool

definition Allocate ::
    "u64 \<Rightarrow> 'x tracker_memory_scheme world \<Rightarrow> guard_factory \<times> 'x tracker_memory_scheme world" where
  "Allocate num_samples w =
     (let (num_samples_available, w) = GetNumAvailableSamples w;
          (num_allocated_samples, w) = Allocate_loop 0 num_samples num_samples_available w
      in (\<lparr>num_available_guards = num_allocated_samples\<rparr>, w))"

definition Reset :: "u64 \<Rightarrow> 'x tracker_memory_scheme world \<Rightarrow> 'x tracker_memory_scheme world" where
  "Reset max_samples w =
     (let w = atomic_store (put_available max_samples) w
      in w\<lparr>mem := (mem w)\<lparr>max_num_samples := max_samples\<rparr>\<rparr>)"

definition Deallocate :: "u64 \<Rightarrow> 'x tracker_memory_scheme world \<Rightarrow> 'x tracker_memory_scheme world run" where
  "Deallocate num_deallocations w = do {
     let w = atomic_store (\<lambda>m. put_available (get_available m + num_deallocations) m) w;
     let (available, w) = atomic_load get_available w;
     amp_require (available \<le> max_num_samples (mem w));
     Some w }"

definition GetNumAvailableGuards :: "guard_factory \<Rightarrow> u64" where
  "GetNumAvailableGuards f = num_available_guards f"

definition TakeGuard :: "guard_factory \<Rightarrow> reference_guard option \<times> guard_factory" where
  "TakeGuard f =
     (if num_available_guards f > 0
      then (Some \<lparr>tracker_set = True\<rparr>, f\<lparr>num_available_guards := num_available_guards f - 1\<rparr>)
      else (None, f))"

definition TrackerGuardFactory_move :: "guard_factory \<Rightarrow> guard_factory \<times> guard_factory" where
  "TrackerGuardFactory_move other = (other, other\<lparr>num_available_guards := 0\<rparr>)"

definition TrackerGuardFactory_destroy ::
    "guard_factory \<Rightarrow> 'x tracker_memory_scheme world \<Rightarrow> 'x tracker_memory_scheme world run" where
  "TrackerGuardFactory_destroy f w =
     (if num_available_guards f > 0 then Deallocate (num_available_guards f) w else Some w)"

definition SampleReferenceGuard_Deallocate ::
    "reference_guard \<Rightarrow> 'x tracker_memory_scheme world \<Rightarrow> (reference_guard \<times> 'x tracker_memory_scheme world) run" where
  "SampleReferenceGuard_Deallocate g w =
     (if tracker_set g then do {
        w \<leftarrow> Deallocate 1 w;
        Some (g\<lparr>tracker_set := False\<rparr>, w) }
      else Some (g, w))"

definition SampleReferenceGuard_destroy ::
    "reference_guard \<Rightarrow> 'x tracker_memory_scheme world \<Rightarrow> 'x tracker_memory_scheme world run" where
  "SampleReferenceGuard_destroy g w = do { (_, w) \<leftarrow> SampleReferenceGuard_Deallocate g w; Some w }"

definition SampleReferenceGuard_move :: "reference_guard \<Rightarrow> reference_guard \<times> reference_guard" where
  "SampleReferenceGuard_move other = (other, other\<lparr>tracker_set := False\<rparr>)"

text \<open>Move assignment of two different guards; assigning a guard to itself does nothing.\<close>

definition SampleReferenceGuard_assign ::
    "reference_guard \<Rightarrow> reference_guard \<Rightarrow> 'x tracker_memory_scheme world \<Rightarrow>
     (reference_guard \<times> reference_guard \<times> 'x tracker_memory_scheme world) run" where
  "SampleReferenceGuard_assign this other w = do {
     (_, w) \<leftarrow> (if tracker_set this then SampleReferenceGuard_Deallocate this w else Some (this, w));
     Some (other, other\<lparr>tracker_set := False\<rparr>, w) }"

subsection \<open>Conservation under interference\<close>

record shared_tracker = tracker_memory +
  others :: nat

definition tracker_step :: "shared_tracker \<Rightarrow> shared_tracker \<Rightarrow> bool" where
  "tracker_step m m' \<longleftrightarrow>
     max_num_samples m' = max_num_samples m \<and>
     unat (available_samples m') + others m' = unat (available_samples m) + others m"

definition conserves :: "nat \<Rightarrow> shared_tracker \<Rightarrow> bool" where
  "conserves mine m \<longleftrightarrow> unat (available_samples m) + others m + mine = unat (max_num_samples m)"

interpretation tracker: memory_protocol tracker_step "conserves mine" for mine
  by unfold_locales (simp add: tracker_step_def conserves_def)

lemma Allocate_loop_conserves:
  "Allocate_loop a n e w = (k, w') \<Longrightarrow> rely tracker_step w \<Longrightarrow> conserves (mine + unat a) (mem w) \<Longrightarrow>
     (e = 0 \<longrightarrow> available_samples (mem w) = 0) \<Longrightarrow> unat a + unat n < 2 ^ 64 \<Longrightarrow>
     rely tracker_step w' \<and> conserves (mine + unat k) (mem w') \<and> unat k \<le> unat a + unat n \<and>
     (unat k < unat a + unat n \<longrightarrow> available_samples (mem w') = 0)"
proof (induction a n e w rule: Allocate_loop.induct)
  case (1 a n e w)
  show ?case
  proof (cases "n > 0 \<and> e > 0")
    case False
    then have "k = a" "w' = w" "n = 0 \<or> e = 0"
      using "1.prems"(1) by (auto simp: Allocate_loop.simps [of a n e w] word_gt_0 split: if_splits)
    with "1.prems" show ?thesis by auto
  next
    case True
    let ?d = "min e n"
    obtain ok e' w1 where cas: "compare_exchange_weak get_available put_available e (e - ?d) w = (ok, e', w1)"
      by (metis prod_cases3)
    from cas show ?thesis
    proof (cases rule: compare_exchange_weak_cases)
      case (success b w2)
      have run: "Allocate_loop (a + ?d) (n - ?d) e w1 = (k, w')"
        using "1.prems"(1) True cas success by (simp add: Allocate_loop.simps [of a n e w] Let_def)
      have ev: "evolves tracker_step w w2" using "1.prems"(2) success(2) by (rule evolves_advance)
      have c2: "conserves (mine + unat a) (mem w2)" using ev "1.prems"(3) by (rule tracker.evolves_keeps)
      have le: "?d \<le> e" "?d \<le> n" by simp_all
      have d: "unat (e - ?d) = unat e - unat ?d" "unat (n - ?d) = unat n - unat ?d"
        "unat ?d \<le> unat e" "unat ?d \<le> unat n"
        using le by (simp_all add: unat_sub word_le_nat_alt)
      have ad: "unat (a + ?d) = unat a + unat ?d"
        using "1.prems"(5) d(4) by (simp add: unat_word_ariths)
      have "conserves (mine + unat (a + ?d)) (mem w1)"
        using c2 success(3,4) d(1,3) ad by (simp add: conserves_def put_available_def get_available_def)
      moreover have "rely tracker_step w1" using ev success(4) by (simp add: evolves_def)
      moreover have "unat (a + ?d) + unat (n - ?d) = unat a + unat n" using ad d by simp
      ultimately show ?thesis
        using "1.IH"(1) [of ?d "(ok, e', w1)" ok "(e', w1)" e' w1] run True cas success "1.prems"(5)
        by (auto simp: word_gt_0)
    next
      case (failure b)
      have run: "Allocate_loop a n e' w1 = (k, w')"
        using "1.prems"(1) True cas failure by (simp add: Allocate_loop.simps [of a n e w] Let_def)
      have ev: "evolves tracker_step w w1" using "1.prems"(2) failure(2) by (rule evolves_advance)
      have "conserves (mine + unat a) (mem w1)" using ev "1.prems"(3) by (rule tracker.evolves_keeps)
      moreover have "e' = 0 \<longrightarrow> available_samples (mem w1) = 0"
        using failure(3) by (simp add: get_available_def)
      ultimately show ?thesis
        using "1.IH"(2) [of ?d "(ok, e', w1)" ok "(e', w1)" e' w1] run True cas failure "1.prems"(5)
          evolves_rely [OF ev]
        by auto
    qed
  qed
qed

lemma Allocate_conserves:
  assumes "rely tracker_step w" and "conserves mine (mem w)"
    and "Allocate n w = (f, w')"
  shows "rely tracker_step w' \<and> conserves (mine + unat (num_available_guards f)) (mem w') \<and>
    num_available_guards f \<le> n \<and> (num_available_guards f < n \<longrightarrow> available_samples (mem w') = 0)"
proof -
  obtain v w1 where ld: "atomic_load get_available w = (v, w1)" by (cases "atomic_load get_available w")
  have ev: "evolves tracker_step w w1" using assms(1) ld by (rule evolves_atomic_load)
  obtain k w2 where loop: "Allocate_loop 0 n v w1 = (k, w2)" by fastforce
  have f: "num_available_guards f = k" "w' = w2"
    using assms(3) ld loop by (auto simp: Allocate_def GetNumAvailableSamples_def)
  have "conserves (mine + unat (0 :: u64)) (mem w1)" using tracker.evolves_keeps [OF ev assms(2)] by simp
  moreover have "v = 0 \<longrightarrow> available_samples (mem w1) = 0"
    using atomic_load_value [OF ld] by (simp add: get_available_def)
  moreover have "unat (0 :: u64) + unat n < 2 ^ 64"
    using unsigned_less [of n] by simp
  ultimately show ?thesis
    using Allocate_loop_conserves [OF loop evolves_rely [OF ev]] f
    by (auto simp: word_le_nat_alt word_less_nat_alt)
qed

text \<open>
  Property C26: \<open>Allocate\<close> conserves samples. While the other threads also take and give back
  samples in any interleaving, the number available, the numbers held by the others and by this
  thread always add up to the maximum; the factory never gets more than was asked for, and it
  gets less only if the pool was found empty.
\<close>

theorem allocate_conserves_samples:
  assumes "rely tracker_step w" and "conserves mine (mem w)"
    and "Allocate n w = (f, w')"
  shows "conserves (mine + unat (num_available_guards f)) (mem w') \<and> num_available_guards f \<le> n \<and>
    (num_available_guards f < n \<longrightarrow> available_samples (mem w') = 0)"
  using Allocate_conserves [OF assms] by simp

text \<open>Another thread that takes one sample if it can.\<close>

definition another_takes_one :: "shared_tracker \<Rightarrow> shared_tracker" where
  "another_takes_one m =
     (if available_samples m = 0 then m
      else m\<lparr>available_samples := available_samples m - 1, others := others m + 1\<rparr>)"

lemma another_takes_one_step: "tracker_step m (another_takes_one m)"
  by (simp add: tracker_step_def another_takes_one_def unat_minus_one unat_gt_0 Suc_leI)

theorem allocate_conserves_samples_witness:
  "\<exists>f w'. Allocate 4 \<lparr>mem = \<lparr>available_samples = 5, max_num_samples = 5, others = 0\<rparr>,
       sched = [Tick id False, Tick another_takes_one False]\<rparr> = (f, w') \<and>
     conserves (unat (num_available_guards f)) (mem w')"
proof -
  let ?w = "\<lparr>mem = \<lparr>available_samples = 5, max_num_samples = 5, others = 0\<rparr>,
       sched = [Tick id False, Tick another_takes_one False]\<rparr> :: shared_tracker world"
  obtain f w' where run: "Allocate 4 ?w = (f, w')" by fastforce
  have "rely tracker_step ?w"
    by (simp add: rely_def another_takes_one_step) (simp add: tracker_step_def)
  moreover have "conserves 0 (mem ?w)" by (simp add: conserves_def)
  ultimately show ?thesis
    using allocate_conserves_samples [OF _ _ run, of 0] run by auto
qed

lemma Deallocate_conserves:
  assumes "rely tracker_step w" and "conserves mine (mem w)" and "unat d \<le> mine"
  shows "\<exists>w'. Deallocate d w = Some w' \<and> rely tracker_step w' \<and> conserves (mine - unat d) (mem w')"
proof -
  obtain b w1 where adv: "advance w = (b, w1)" by (cases "advance w")
  have ev: "evolves tracker_step w w1" using assms(1) adv by (rule evolves_advance)
  have c1: "conserves mine (mem w1)" using ev assms(2) by (rule tracker.evolves_keeps)
  let ?w2 = "w1\<lparr>mem := put_available (get_available (mem w1) + d) (mem w1)\<rparr>"
  have "unat (available_samples (mem w1)) + unat d \<le> unat (max_num_samples (mem w1))"
    using c1 assms(3) by (simp add: conserves_def)
  moreover have "unat (max_num_samples (mem w1)) < 2 ^ 64"
    using unsigned_less [of "max_num_samples (mem w1)"] by simp
  ultimately have "unat (available_samples (mem w1) + d) = unat (available_samples (mem w1)) + unat d"
    by (simp add: unat_word_ariths)
  then have c2: "conserves (mine - unat d) (mem ?w2)"
    using c1 assms(3) by (simp add: conserves_def put_available_def get_available_def)
  have r2: "rely tracker_step ?w2" using ev by (simp add: evolves_def)
  obtain v w3 where ld: "atomic_load get_available ?w2 = (v, w3)" by (cases "atomic_load get_available ?w2")
  have e3: "evolves tracker_step ?w2 w3" using r2 ld by (rule evolves_atomic_load)
  then have c3: "conserves (mine - unat d) (mem w3)" using c2 by (rule tracker.evolves_keeps)
  then have "available_samples (mem w3) \<le> max_num_samples (mem w3)"
    by (simp add: conserves_def word_le_nat_alt)
  moreover have "v = available_samples (mem w3)"
    using atomic_load_value [OF ld] by (simp add: get_available_def)
  ultimately show ?thesis
    using adv ld c3 evolves_rely [OF e3] by (auto simp: Deallocate_def atomic_store_def contract_simps)
qed

text \<open>
  Giving back samples that this thread holds never trips the assertion of
  \<open>Deallocate\<close>, whatever the other threads do, and conserves the samples.
\<close>

lemma deallocate_conserves_samples:
  assumes "rely tracker_step w" and "conserves mine (mem w)" and "unat d \<le> mine"
  shows "\<exists>w'. Deallocate d w = Some w' \<and> conserves (mine - unat d) (mem w')"
  using Deallocate_conserves [OF assms] by blast

subsection \<open>Without interference\<close>

lemma undisturbed_allocation:
  assumes "quiet w" and "available_samples (mem w) \<noteq> 0" and "n \<noteq> 0" and "n \<le> available_samples (mem w)"
  shows "Allocate n w = (\<lparr>num_available_guards = n\<rparr>,
    w\<lparr>mem := (mem w)\<lparr>available_samples := available_samples (mem w) - n\<rparr>\<rparr>)"
  using assms
  by (simp add: Allocate_def GetNumAvailableSamples_def get_available_def put_available_def word_gt_0
      Allocate_loop.simps [of 0 n] Allocate_loop.simps [of n 0] min_absorb2)

end
