(* ===== verification/Element_Messages.thy ===== *)
theory Element_Messages
  imports Lola_Prelude
begin

text \<open>
  What LoLa processes tell each other beside the shared memory:

  \<^item> \<open>QualityType\<close> (configuration/quality_type.h/.cpp);
  \<^item> \<open>ElementFqId\<close> (element_fq_id.h/.cpp), the identification of a service element. The maps of the
    program are keyed by it up to its \<open>operator==\<close>, which ignores the element type: \<open>fq_key\<close>;
  \<^item> the messages of messaging/messages/ with their packing into the 64-bit payload of a
    \<open>ShortMessage\<close>;
  \<^item> the buffers of message_passing/serializer.cpp.

  \<open>pid_t\<close> is a signed 32-bit integer, modelled as \<open>int\<close>; it becomes a word where it is copied to
  memory. \<open>memcpy\<close> copies the bytes of an integer in the order of the host, modelled as little
  endian (the source does not consider the byte order either). Enum constructors that other enums
  of the program also have carry their enum's name as suffix.
\<close>

subsection \<open>Quality type\<close>

datatype QualityType = kInvalid | kASIL_QM | kASIL_B

definition QualityType_ToString :: "QualityType \<Rightarrow> string" where
  "QualityType_ToString quality_type =
     (case quality_type of
        kInvalid \<Rightarrow> ''kInvalid''
      | kASIL_QM \<Rightarrow> ''kASIL_QM''
      | kASIL_B \<Rightarrow> ''kASIL_B'')"

definition QualityType_FromString :: "string \<Rightarrow> QualityType run" where
  "QualityType_FromString quality_type =
     (if quality_type = ''kInvalid'' then Some kInvalid
      else if quality_type = ''kASIL_QM'' then Some kASIL_QM
      else if quality_type = ''kASIL_B'' then Some kASIL_B
      else None)"

definition areCompatible :: "QualityType \<Rightarrow> QualityType \<Rightarrow> bool" where
  "areCompatible lhs rhs \<longleftrightarrow> lhs = rhs"

subsection \<open>Element identification\<close>

datatype ElementType = INVALID_ELEMENT | EVENT | FIELD

definition element_type_value :: "ElementType \<Rightarrow> u8" where
  "element_type_value t = (case t of INVALID_ELEMENT \<Rightarrow> 0 | EVENT \<Rightarrow> 1 | FIELD \<Rightarrow> 2)"

record element_fq_id =
  service_id :: u16
  element_id :: u8
  instance_id :: u16
  element_type :: ElementType

definition ElementFqId_default :: element_fq_id where
  "ElementFqId_default =
     \<lparr>service_id = - 1, element_id = - 1, instance_id = - 1, element_type = INVALID_ELEMENT\<rparr>"

definition ElementFqId :: "u16 \<Rightarrow> u8 \<Rightarrow> u16 \<Rightarrow> u8 \<Rightarrow> element_fq_id run" where
  "ElementFqId service element instance_no type_value =
     (if type_value > 2 then None
      else Some \<lparr>service_id = service, element_id = element, instance_id = instance_no,
        element_type = (if type_value = 0 then INVALID_ELEMENT else if type_value = 1 then EVENT else FIELD)\<rparr>)"

definition IsElementEvent :: "element_fq_id \<Rightarrow> bool" where
  "IsElementEvent e \<longleftrightarrow> element_type e = EVENT"

definition IsElementField :: "element_fq_id \<Rightarrow> bool" where
  "IsElementField e \<longleftrightarrow> element_type e = FIELD"

definition ElementFqId_eq :: "element_fq_id \<Rightarrow> element_fq_id \<Rightarrow> bool" where
  "ElementFqId_eq lhs rhs \<longleftrightarrow>
     service_id lhs = service_id rhs \<and> element_id lhs = element_id rhs \<and> instance_id lhs = instance_id rhs"

definition ElementFqId_less :: "element_fq_id \<Rightarrow> element_fq_id \<Rightarrow> bool" where
  "ElementFqId_less lhs rhs \<longleftrightarrow>
     (if service_id lhs = service_id rhs
      then (if instance_id lhs = instance_id rhs
            then element_id lhs < element_id rhs
            else instance_id lhs < instance_id rhs)
      else service_id lhs < service_id rhs)"

definition ElementFqId_hash :: "element_fq_id \<Rightarrow> u64" where
  "ElementFqId_hash e =
     push_bit 24 (ucast (service_id e)) OR push_bit 16 (ucast (element_id e)) OR ucast (instance_id e)"

type_synonym fq_key = "u16 \<times> u8 \<times> u16"

definition fq_key :: "element_fq_id \<Rightarrow> fq_key" where
  "fq_key e = (service_id e, element_id e, instance_id e)"

subsection \<open>Messages\<close>

record short_message =
  msg_id :: u8
  msg_pid :: int
  msg_payload :: u64

record medium_message =
  medium_id :: u8
  medium_pid :: int
  medium_payload :: "u8 list"

datatype MessageType = kRegisterEventNotifier | kUnregisterEventNotifier | kNotifyEvent | kOutdatedNodeId

definition message_type_value :: "MessageType \<Rightarrow> u8" where
  "message_type_value t =
     (case t of kRegisterEventNotifier \<Rightarrow> 1 | kUnregisterEventNotifier \<Rightarrow> 2 | kNotifyEvent \<Rightarrow> 3 | kOutdatedNodeId \<Rightarrow> 4)"

definition ShortMsgPayloadToElementFqId :: "u64 \<Rightarrow> element_fq_id run" where
  "ShortMsgPayloadToElementFqId payload =
     ElementFqId (ucast (drop_bit (8 + 16 + 8) payload))
       (ucast (drop_bit (8 + 16) payload AND 0x000000FF))
       (ucast (drop_bit 8 payload AND 0x0000FFFF))
       (ucast (payload AND 0x000000FF))"

definition ElementFqIdToShortMsgPayload :: "element_fq_id \<Rightarrow> u64" where
  "ElementFqIdToShortMsgPayload e =
     push_bit (8 + 16 + 8) (ucast (service_id e)) OR push_bit (8 + 16) (ucast (element_id e)) OR
     push_bit 8 (ucast (instance_id e)) OR ucast (element_type_value (element_type e))"

text \<open>The template parameter of \<open>ElementFqIdMessage\<close> is an argument of the operations that use it.\<close>

record element_fq_id_message =
  element_fq_id :: element_fq_id
  sender_node_id :: int

definition DeserializeToElementFqIdMessage :: "u64 \<Rightarrow> int \<Rightarrow> element_fq_id_message run" where
  "DeserializeToElementFqIdMessage message_payload sender = do {
     e \<leftarrow> ShortMsgPayloadToElementFqId message_payload;
     Some \<lparr>element_fq_id = e, sender_node_id = sender\<rparr> }"

definition SerializeElementFqIdMessage :: "MessageType \<Rightarrow> element_fq_id_message \<Rightarrow> short_message" where
  "SerializeElementFqIdMessage id_of_message m =
     \<lparr>msg_id = message_type_value id_of_message, msg_pid = sender_node_id m,
      msg_payload = ElementFqIdToShortMsgPayload (element_fq_id m)\<rparr>"

definition ElementFqIdMessage_eq :: "element_fq_id_message \<Rightarrow> element_fq_id_message \<Rightarrow> bool" where
  "ElementFqIdMessage_eq lhs rhs \<longleftrightarrow>
     ElementFqId_eq (element_fq_id lhs) (element_fq_id rhs) \<and> sender_node_id lhs = sender_node_id lhs"

record outdated_node_id_message =
  pid_to_unregister :: int
  outdated_sender :: int

definition pid_bits :: "int \<Rightarrow> u32" where
  "pid_bits p = word_of_int p"

definition DeserializeToOutdatedNodeIdMessage :: "u64 \<Rightarrow> int \<Rightarrow> outdated_node_id_message" where
  "DeserializeToOutdatedNodeIdMessage message_payload sender =
     \<lparr>pid_to_unregister = sint (ucast message_payload :: u32), outdated_sender = sender\<rparr>"

definition SerializeOutdatedNodeIdMessage :: "outdated_node_id_message \<Rightarrow> short_message" where
  "SerializeOutdatedNodeIdMessage m =
     \<lparr>msg_id = message_type_value kOutdatedNodeId, msg_pid = outdated_sender m,
      msg_payload = ucast (pid_bits (pid_to_unregister m))\<rparr>"

definition OutdatedNodeIdMessage_eq :: "outdated_node_id_message \<Rightarrow> outdated_node_id_message \<Rightarrow> bool" where
  "OutdatedNodeIdMessage_eq lhs rhs \<longleftrightarrow>
     outdated_sender lhs = outdated_sender rhs \<and> pid_to_unregister lhs = pid_to_unregister rhs"

subsection \<open>Raw buffers\<close>

fun le_bytes :: "nat \<Rightarrow> 'a::len word \<Rightarrow> u8 list" where
  "le_bytes 0 x = []"
| "le_bytes (Suc n) x = ucast x # le_bytes n (drop_bit 8 x)"

fun of_le_bytes :: "u8 list \<Rightarrow> 'a::len word" where
  "of_le_bytes [] = 0"
| "of_le_bytes (b # bs) = ucast b OR push_bit 8 (of_le_bytes bs)"

definition write_bytes :: "nat \<Rightarrow> u8 list \<Rightarrow> u8 list \<Rightarrow> u8 list" where
  "write_bytes pos bs buffer = take pos buffer @ bs @ drop (pos + length bs) buffer"

definition read_bytes :: "nat \<Rightarrow> nat \<Rightarrow> u8 list \<Rightarrow> u8 list" where
  "read_bytes pos n buffer = take n (drop pos buffer)"

definition kShortMessage :: u8 where "kShortMessage = 0x42"
definition kMediumMessage :: u8 where "kMediumMessage = 0x43"

definition GetMaxMessageSize :: nat where "GetMaxMessageSize = 1 + 1 + 4 + 16"
definition GetMessageTypePosition :: nat where "GetMessageTypePosition = 0"
definition GetMessageIdPosition :: nat where "GetMessageIdPosition = 1"
definition GetMessagePidPosition :: nat where "GetMessagePidPosition = 2"
definition GetMessageStartPayload :: nat where "GetMessageStartPayload = GetMessagePidPosition + 4"

lemmas buffer_layout = GetMaxMessageSize_def GetMessageTypePosition_def GetMessageIdPosition_def
  GetMessagePidPosition_def GetMessageStartPayload_def

definition SerializeMessageId :: "u8 list \<Rightarrow> u8 \<Rightarrow> u8 list" where
  "SerializeMessageId buffer message_id = write_bytes GetMessageIdPosition (le_bytes 1 message_id) buffer"

definition DeserializeMessageId :: "u8 list \<Rightarrow> u8" where
  "DeserializeMessageId buffer = of_le_bytes (read_bytes GetMessageIdPosition 1 buffer)"

definition SerializeShortToRawMessage :: "short_message \<Rightarrow> u8 list" where
  "SerializeShortToRawMessage message =
     (let buffer = replicate GetMaxMessageSize 0;
          buffer = buffer[GetMessageTypePosition := kShortMessage];
          buffer = SerializeMessageId buffer (msg_id message);
          buffer = write_bytes GetMessagePidPosition (le_bytes 4 (pid_bits (msg_pid message))) buffer
      in write_bytes GetMessageStartPayload (le_bytes 8 (msg_payload message)) buffer)"

definition SerializeMediumToRawMessage :: "medium_message \<Rightarrow> u8 list" where
  "SerializeMediumToRawMessage message =
     (let buffer = replicate GetMaxMessageSize 0;
          buffer = buffer[GetMessageTypePosition := kMediumMessage];
          buffer = SerializeMessageId buffer (medium_id message);
          buffer = write_bytes GetMessagePidPosition (le_bytes 4 (pid_bits (medium_pid message))) buffer
      in write_bytes GetMessageStartPayload (medium_payload message) buffer)"

definition DeserializeToShortMessage :: "u8 list \<Rightarrow> short_message" where
  "DeserializeToShortMessage buffer =
     \<lparr>msg_id = DeserializeMessageId buffer,
      msg_pid = sint (of_le_bytes (read_bytes GetMessagePidPosition 4 buffer) :: u32),
      msg_payload = of_le_bytes (read_bytes GetMessageStartPayload 8 buffer)\<rparr>"

definition DeserializeToMediumMessage :: "u8 list \<Rightarrow> medium_message" where
  "DeserializeToMediumMessage buffer =
     \<lparr>medium_id = DeserializeMessageId buffer,
      medium_pid = sint (of_le_bytes (read_bytes GetMessagePidPosition 4 buffer) :: u32),
      medium_payload = read_bytes GetMessageStartPayload 16 buffer\<rparr>"

subsection \<open>Packing and unpacking\<close>

definition is_pid :: "int \<Rightarrow> bool" where
  "is_pid p \<longleftrightarrow> - (2 ^ 31) \<le> p \<and> p < 2 ^ 31"

lemma sint_pid_bits: "is_pid p \<Longrightarrow> sint (pid_bits p) = p"
  by (simp add: is_pid_def pid_bits_def int_word_sint)

lemma of_le_bytes_le_bytes: "of_le_bytes (le_bytes n x) = take_bit (8 * n) (x :: 'a::len word)"
proof (induction n arbitrary: x)
  case (Suc n)
  have "ucast (ucast x :: u8) OR push_bit 8 (take_bit (8 * n) (drop_bit 8 x)) = take_bit (8 * Suc n) x"
    by (rule bit_eqI) (auto simp: bit_simps dest: bit_imp_le_length)
  with Suc show ?case by simp
qed simp

lemma length_le_bytes [simp]: "length (le_bytes n x) = n"
  by (induction n arbitrary: x) auto

lemma le_bytes_word:
  "of_le_bytes (le_bytes 1 x) = (x :: u8)"
  "of_le_bytes (le_bytes 4 y) = (y :: u32)"
  "of_le_bytes (le_bytes 8 z) = (z :: u64)"
  by (simp_all only: of_le_bytes_le_bytes) (simp_all add: take_bit_word_eq_self)

lemma payload_roundtrip: "ShortMsgPayloadToElementFqId (ElementFqIdToShortMsgPayload e) = Some e"
proof -
  let ?p = "ElementFqIdToShortMsgPayload e"
  have m: "(0x000000FF :: u64) = mask 8" "(0x0000FFFF :: u64) = mask 16" by (simp_all add: mask_eq_exp_minus_1)
  have "ucast (drop_bit (8 + 16 + 8) ?p) = service_id e"
    unfolding ElementFqIdToShortMsgPayload_def
    by (rule bit_eqI) (auto simp: bit_simps dest: bit_imp_le_length)
  moreover have "ucast (drop_bit (8 + 16) ?p AND 0x000000FF) = element_id e"
    unfolding ElementFqIdToShortMsgPayload_def m
    by (rule bit_eqI) (auto simp: bit_simps dest: bit_imp_le_length)
  moreover have "ucast (drop_bit 8 ?p AND 0x0000FFFF) = instance_id e"
    unfolding ElementFqIdToShortMsgPayload_def m
    by (rule bit_eqI) (auto simp: bit_simps dest: bit_imp_le_length)
  moreover have "ucast (?p AND 0x000000FF) = element_type_value (element_type e)"
    unfolding ElementFqIdToShortMsgPayload_def m
    by (rule bit_eqI) (auto simp: bit_simps dest: bit_imp_le_length)
  ultimately show ?thesis
    by (cases "element_type e") (simp_all add: ShortMsgPayloadToElementFqId_def ElementFqId_def element_type_value_def)
qed

lemma fq_key_eq: "fq_key a = fq_key b \<longleftrightarrow> ElementFqId_eq a b"
  by (auto simp: fq_key_def ElementFqId_eq_def)

interpretation element_payload: packed_word ElementFqIdToShortMsgPayload
  "\<lambda>p. the (ShortMsgPayloadToElementFqId p)"
  by unfold_locales (simp add: payload_roundtrip)

subsection \<open>Messages survive the wire\<close>

lemma write_bytes_length [simp]: "pos + length bs \<le> length buf \<Longrightarrow> length (write_bytes pos bs buf) = length buf"
  by (simp add: write_bytes_def)

lemma read_write_same: "pos + length bs \<le> length buf \<Longrightarrow> n = length bs \<Longrightarrow> read_bytes pos n (write_bytes pos bs buf) = bs"
  by (simp add: read_bytes_def write_bytes_def)

lemma read_write_other:
  "p + n \<le> pos \<Longrightarrow> pos + length bs \<le> length buf \<Longrightarrow> read_bytes p n (write_bytes pos bs buf) = read_bytes p n buf"
  by (rule nth_equalityI) (auto simp: read_bytes_def write_bytes_def nth_append)

lemma nth_write_other: "i < pos \<Longrightarrow> pos + length bs \<le> length buf \<Longrightarrow> write_bytes pos bs buf ! i = buf ! i"
  by (simp add: write_bytes_def nth_append)

lemmas buffer_simps = buffer_layout SerializeMessageId_def DeserializeMessageId_def Let_def
  read_write_same read_write_other nth_write_other

lemma short_message_roundtrip:
  "is_pid (msg_pid m) \<Longrightarrow> DeserializeToShortMessage (SerializeShortToRawMessage m) = m"
  by (simp add: DeserializeToShortMessage_def SerializeShortToRawMessage_def buffer_simps le_bytes_word(2,3)
      le_bytes_word(1) [unfolded One_nat_def] sint_pid_bits del: le_bytes.simps of_le_bytes.simps)

lemma medium_message_roundtrip:
  "is_pid (medium_pid m) \<Longrightarrow> length (medium_payload m) = 16 \<Longrightarrow>
     DeserializeToMediumMessage (SerializeMediumToRawMessage m) = m"
  by (simp add: DeserializeToMediumMessage_def SerializeMediumToRawMessage_def buffer_simps le_bytes_word(2,3)
      le_bytes_word(1) [unfolded One_nat_def] sint_pid_bits del: le_bytes.simps of_le_bytes.simps)

text \<open>
  Property C18: an element message of any type that is packed into a short message and written to a
  raw buffer is read back as it was: the receiver gets the type of the message, the process that
  sent it and the same element. The buffer has the size of the largest message and starts with the
  type byte of a short message.
\<close>

theorem element_message_survives_wire:
  assumes "is_pid (sender_node_id m)"
  shows "let buffer = SerializeShortToRawMessage (SerializeElementFqIdMessage t m);
             received = DeserializeToShortMessage buffer
         in length buffer = GetMaxMessageSize \<and> buffer ! GetMessageTypePosition = kShortMessage \<and>
            msg_id received = message_type_value t \<and>
            DeserializeToElementFqIdMessage (msg_payload received) (msg_pid received) = Some m"
proof -
  have "DeserializeToShortMessage (SerializeShortToRawMessage (SerializeElementFqIdMessage t m)) =
      SerializeElementFqIdMessage t m"
    using assms by (intro short_message_roundtrip) (simp add: SerializeElementFqIdMessage_def)
  moreover have "length (SerializeShortToRawMessage x) = GetMaxMessageSize"
    and "SerializeShortToRawMessage x ! GetMessageTypePosition = kShortMessage" for x
    by (simp_all add: SerializeShortToRawMessage_def buffer_simps)
  ultimately show ?thesis
    by (simp add: Let_def SerializeElementFqIdMessage_def DeserializeToElementFqIdMessage_def payload_roundtrip)
qed

definition sample_element :: element_fq_id where
  "sample_element = \<lparr>service_id = 0x1234, element_id = 7, instance_id = 0xFFFF, element_type = FIELD\<rparr>"

theorem element_message_survives_wire_witness:
  "let buffer = SerializeShortToRawMessage (SerializeElementFqIdMessage kNotifyEvent
         \<lparr>element_fq_id = sample_element, sender_node_id = 4711\<rparr>);
       received = DeserializeToShortMessage buffer
   in msg_id received = 3 \<and>
      DeserializeToElementFqIdMessage (msg_payload received) (msg_pid received) =
        Some \<lparr>element_fq_id = sample_element, sender_node_id = 4711\<rparr>"
  using element_message_survives_wire [of "\<lparr>element_fq_id = sample_element, sender_node_id = 4711\<rparr>" kNotifyEvent]
  by (simp add: Let_def is_pid_def message_type_value_def)

text \<open>
  A payload is accepted exactly when its lowest byte is a valid element type; every
  other one ends the receiving process. The accepted payload holds the element in its lower 48 bits,
  the upper 16 bits are ignored.
\<close>

lemma payload_decoding:
  "case ShortMsgPayloadToElementFqId p of
     None \<Rightarrow> 2 < (ucast p :: u8)
   | Some e \<Rightarrow> (ucast p :: u8) \<le> 2 \<and> ElementFqIdToShortMsgPayload e = take_bit 48 p"
proof -
  have m: "(0x000000FF :: u64) = mask 8" "(0x0000FFFF :: u64) = mask 16" by (simp_all add: mask_eq_exp_minus_1)
  let ?t = "ucast (p AND 0x000000FF) :: u8"
  have t: "?t = ucast p"
    unfolding m by (rule bit_eqI) (auto simp: bit_simps dest: bit_imp_le_length)
  have pack: "push_bit 32 (ucast (ucast (drop_bit 32 p) :: u16)) OR
      push_bit 24 (ucast (ucast (drop_bit 24 p AND 0x000000FF) :: u8)) OR
      push_bit 8 (ucast (ucast (drop_bit 8 p AND 0x0000FFFF) :: u16)) OR ucast (ucast p :: u8) = take_bit 48 p"
    unfolding m
  proof (rule bit_eqI, goal_cases)
    case (1 n)
    have "24 + (n - 24) = n" if "24 \<le> n" using that by simp
    moreover have "32 + (n - 32) = n" if "32 \<le> n" using that by simp
    ultimately show ?case
      by (cases "n < 24"; cases "n < 32") (auto simp: bit_simps dest: bit_imp_le_length)
  qed
  show ?thesis
  proof (cases "2 < (ucast p :: u8)")
    case True
    then show ?thesis by (simp add: ShortMsgPayloadToElementFqId_def ElementFqId_def t)
  next
    case False
    have "(ucast p :: u8) = 0 \<or> (ucast p :: u8) = 1 \<or> (ucast p :: u8) = 2"
      using False by (simp add: word_less_nat_alt word_unat_eq_iff) arith
    with False pack show ?thesis
      by (auto simp: ShortMsgPayloadToElementFqId_def ElementFqId_def ElementFqIdToShortMsgPayload_def t
          element_type_value_def)
  qed
qed

end
