(* ===== verification/Decimal_Text.thy ===== *)
theory Decimal_Text
  imports Main "HOL-Library.Char_ord"
begin

text \<open>
  Decimal numbers as the standard library prints them (\<open>std::to_string\<close>, \<open>operator<<\<close> of an integer
  with the default flags of a stream): no leading zeros, a minus sign in front of a negative number.
  Printing is injective, so names that are built from numbers are different for different numbers.
\<close>

definition digit_char :: "nat \<Rightarrow> char" where
  "digit_char d = char_of (48 + d)"

fun show_nat :: "nat \<Rightarrow> string" where
  "show_nat n = (if n < 10 then [digit_char n] else show_nat (n div 10) @ [digit_char (n mod 10)])"

declare show_nat.simps [simp del]

definition show_int :: "int \<Rightarrow> string" where
  "show_int i = (if i < 0 then CHR ''-'' # show_nat (nat (- i)) else show_nat (nat i))"

definition is_digit :: "char \<Rightarrow> bool" where
  "is_digit c \<longleftrightarrow> 48 \<le> (of_char c :: nat) \<and> (of_char c :: nat) \<le> 57"

definition read_nat :: "string \<Rightarrow> nat" where
  "read_nat s = foldl (\<lambda>n c. 10 * n + (of_char c - 48)) 0 s"

lemma of_char_digit [simp]: "d < 10 \<Longrightarrow> of_char (digit_char d) = (48 + d :: nat)"
  by (simp add: digit_char_def)

lemma is_digit_digit_char [simp]: "d < 10 \<Longrightarrow> is_digit (digit_char d)"
  by (simp add: is_digit_def)

lemma show_nat_digits: "\<forall>c \<in> set (show_nat n). is_digit c"
proof (induction n rule: show_nat.induct)
  case (1 n)
  then show ?case by (subst show_nat.simps) (auto split: if_splits)
qed

lemma show_nat_not_Nil [simp]: "show_nat n \<noteq> []"
  by (subst show_nat.simps) simp

lemma read_show_nat [simp]: "read_nat (show_nat n) = n"
proof (induction n rule: show_nat.induct)
  case (1 n)
  then show ?case by (subst show_nat.simps) (auto simp: read_nat_def)
qed

lemma show_nat_inject [simp]: "show_nat m = show_nat n \<longleftrightarrow> m = n"
  by (metis read_show_nat)

lemma minus_not_digit [simp]: "\<not> is_digit (CHR ''-'')"
  by (simp add: is_digit_def)

lemma show_int_chars: "c \<in> set (show_int i) \<Longrightarrow> is_digit c \<or> c = CHR ''-''"
  using show_nat_digits by (auto simp: show_int_def split: if_splits)

lemma show_int_inject [simp]: "show_int i = show_int j \<longleftrightarrow> i = j"
proof -
  have "CHR ''-'' # s \<noteq> show_nat n" for s n
    using show_nat_digits [of n] by (metis list.set_intros(1) minus_not_digit)
  then show ?thesis by (auto simp: show_int_def simp flip: nat_eq_iff dest: sym)
qed

text \<open>A printed number ends where the first character follows that is neither a digit nor a sign.\<close>

lemma show_int_append_inject:
  assumes "\<not> is_digit c" and "c \<noteq> CHR ''-''" and "\<not> is_digit d" and "d \<noteq> CHR ''-''"
  shows "show_int i @ c # s = show_int j @ d # t \<longleftrightarrow> i = j \<and> c = d \<and> s = t"
proof
  let ?p = "\<lambda>x. is_digit x \<or> x = CHR ''-''"
  have tw: "takeWhile ?p (show_int k @ x # u) = show_int k" if "\<not> ?p x" for k x u
    using that by (subst takeWhile_append2) (auto dest: show_int_chars)
  assume eq: "show_int i @ c # s = show_int j @ d # t"
  have "show_int i = show_int j"
    using tw [of c i s] tw [of d j t] assms eq by simp
  with eq show "i = j \<and> c = d \<and> s = t" by simp
qed simp

end
