(* ===== verification/Message_Passing_Control.thy ===== *)
theory Message_Passing_Control
  imports Element_Messages Decimal_Text
begin

text \<open>
  \<open>MessagePassingControl\<close> (messaging/message_passing_control.h/.cpp): the node identifier of the
  process and one sender for each level and target node. A sender is created on first use; it stands
  for its channel name and for whether it is wrapped in a \<open>NonBlockingSender\<close>. Whether the senders
  of the operating system never block is a constant of the platform, here a field of the object.

  \<open>sent\<close> records the calls of \<open>ISender::Send\<close> in their order, with the level and the node of the
  sender. The result of \<open>Send\<close> comes from the operating system and is only logged by the callers.
  The mutexes make each call one step.
\<close>

record message_sender =
  sender_name :: string
  non_blocking_wrapper :: bool

record message_passing_control =
  mp_asil_b_capability :: bool
  sender_queue_size :: int
  node_identifier :: int
  senders_qm :: "int \<rightharpoonup> message_sender"
  senders_asil :: "int \<rightharpoonup> message_sender"
  non_blocking_sender_thread_pool :: "nat option"
  has_non_blocking_guarantee :: bool
  sent :: "(QualityType \<times> int \<times> short_message) list"

definition MessagePassingControl :: "bool \<Rightarrow> int \<Rightarrow> int \<Rightarrow> bool \<Rightarrow> message_passing_control" where
  "MessagePassingControl asil_b_capability queue_size pid guarantee =
     \<lparr>mp_asil_b_capability = asil_b_capability, sender_queue_size = queue_size, node_identifier = pid,
      senders_qm = Map.empty, senders_asil = Map.empty, non_blocking_sender_thread_pool = None,
      has_non_blocking_guarantee = guarantee, sent = []\<rparr>"

definition CreateMessagePassingName :: "QualityType \<Rightarrow> int \<Rightarrow> string" where
  "CreateMessagePassingName asil_level node =
     ''/LoLa_'' @ show_int node @ (if asil_level = kASIL_QM then ''_QM'' else ''_ASIL_B'')"

definition GetNonBlockingSenderThreadPool :: "message_passing_control \<Rightarrow> message_passing_control" where
  "GetNonBlockingSenderThreadPool c =
     (if non_blocking_sender_thread_pool c = None
      then c\<lparr>non_blocking_sender_thread_pool := Some 1\<rparr> else c)"

definition CreateNewSender ::
    "QualityType \<Rightarrow> int \<Rightarrow> message_passing_control \<Rightarrow> message_sender \<times> message_passing_control" where
  "CreateNewSender asil_level target_node c =
     (let name = CreateMessagePassingName asil_level target_node
      in if mp_asil_b_capability c \<and> \<not> has_non_blocking_guarantee c \<and> asil_level = kASIL_QM
         then (\<lparr>sender_name = name, non_blocking_wrapper = True\<rparr>, GetNonBlockingSenderThreadPool c)
         else (\<lparr>sender_name = name, non_blocking_wrapper = False\<rparr>, c))"

definition senders_of :: "QualityType \<Rightarrow> message_passing_control \<Rightarrow> int \<rightharpoonup> message_sender" where
  "senders_of asil_level c = (if asil_level = kASIL_QM then senders_qm c else senders_asil c)"

definition put_senders ::
    "QualityType \<Rightarrow> (int \<rightharpoonup> message_sender) \<Rightarrow> message_passing_control \<Rightarrow> message_passing_control" where
  "put_senders asil_level m c =
     (if asil_level = kASIL_QM then c\<lparr>senders_qm := m\<rparr> else c\<lparr>senders_asil := m\<rparr>)"

definition GetMessagePassingSender ::
    "QualityType \<Rightarrow> int \<Rightarrow> message_passing_control \<Rightarrow> (message_sender \<times> message_passing_control) run" where
  "GetMessagePassingSender asil_level target_node c = do {
     amp_require (asil_level = kASIL_QM \<or> (asil_level = kASIL_B \<and> mp_asil_b_capability c));
     (case senders_of asil_level c target_node of
        Some sender \<Rightarrow> Some (sender, c)
      | None \<Rightarrow>
          let (new_sender, c) = CreateNewSender asil_level target_node c
          in Some (new_sender, put_senders asil_level ((senders_of asil_level c)(target_node \<mapsto> new_sender)) c)) }"

definition RemoveMessagePassingSender ::
    "QualityType \<Rightarrow> int \<Rightarrow> message_passing_control \<Rightarrow> message_passing_control" where
  "RemoveMessagePassingSender asil_level target_node c =
     put_senders asil_level ((senders_of asil_level c)(target_node := None)) c"

text \<open>\<open>GetMessagePassingSender\<close> and \<open>Send\<close>, as every caller in the program does it.\<close>

definition send_to ::
    "QualityType \<Rightarrow> int \<Rightarrow> short_message \<Rightarrow> message_passing_control \<Rightarrow> message_passing_control run" where
  "send_to asil_level target_node message c = do {
     (sender, c) \<leftarrow> GetMessagePassingSender asil_level target_node c;
     Some (c\<lparr>sent := sent c @ [(asil_level, target_node, message)]\<rparr>) }"

subsection \<open>Properties\<close>

definition level_ok :: "QualityType \<Rightarrow> bool \<Rightarrow> bool" where
  "level_ok asil_level asil_b \<longleftrightarrow> asil_level = kASIL_QM \<or> (asil_level = kASIL_B \<and> asil_b)"

text \<open>Every sender of a level goes to the channel of its node, and is wrapped exactly if it has to be.\<close>

definition senders_wf :: "message_passing_control \<Rightarrow> bool" where
  "senders_wf c \<longleftrightarrow>
     (\<forall>l p s. level_ok l (mp_asil_b_capability c) \<longrightarrow> senders_of l c p = Some s \<longrightarrow>
        sender_name s = CreateMessagePassingName l p \<and>
        (non_blocking_wrapper s \<longleftrightarrow> mp_asil_b_capability c \<and> \<not> has_non_blocking_guarantee c \<and> l = kASIL_QM))"

lemma senders_of_put:
  "level_ok l b \<Longrightarrow> level_ok k b \<Longrightarrow>
     senders_of k (put_senders l m c) = (if k = l then m else senders_of k c)"
  by (auto simp: senders_of_def put_senders_def level_ok_def)

lemma put_senders_frame [simp]:
  "mp_asil_b_capability (put_senders l m c) = mp_asil_b_capability c"
  "has_non_blocking_guarantee (put_senders l m c) = has_non_blocking_guarantee c"
  "node_identifier (put_senders l m c) = node_identifier c"
  "sent (put_senders l m c) = sent c"
  by (simp_all add: put_senders_def)

lemma CreateNewSender_frame:
  assumes "CreateNewSender l p c = (s, c')"
  shows "mp_asil_b_capability c' = mp_asil_b_capability c" "has_non_blocking_guarantee c' = has_non_blocking_guarantee c"
    "node_identifier c' = node_identifier c" "sent c' = sent c" "senders_of k c' = senders_of k c"
    "sender_name s = CreateMessagePassingName l p"
    "non_blocking_wrapper s \<longleftrightarrow> mp_asil_b_capability c \<and> \<not> has_non_blocking_guarantee c \<and> l = kASIL_QM"
  using assms
  by (auto simp: CreateNewSender_def GetNonBlockingSenderThreadPool_def senders_of_def Let_def split: if_splits)

text \<open>
  Messages to different nodes, and messages of different levels to the same node, go
  over different channels: the names \<open>CreateMessagePassingName\<close> makes are different.
\<close>

lemma channel_names_distinct:
  assumes "level_ok l True" and "level_ok k True"
  shows "(CreateMessagePassingName l p = CreateMessagePassingName k q) = (l = k \<and> p = q)"
proof -
  have "\<not> is_digit (CHR ''_'')" by (simp add: is_digit_def)
  then have u: "show_int p @ CHR ''_'' # s = show_int q @ CHR ''_'' # t \<longleftrightarrow> p = q \<and> s = t" for s t
    by (subst show_int_append_inject) simp_all
  show ?thesis
    using assms by (auto simp: CreateMessagePassingName_def level_ok_def u)
qed

lemma channel_names_distinct_witness:
  "CreateMessagePassingName kASIL_QM 12 \<noteq> CreateMessagePassingName kASIL_B 12"
  using channel_names_distinct [of kASIL_QM kASIL_B 12 12] by (simp add: level_ok_def)

lemma GetMessagePassingSender_outcome:
  assumes "level_ok l (mp_asil_b_capability c)" and "senders_wf c"
  obtains s c' where "GetMessagePassingSender l p c = Some (s, c')" and "senders_wf c'"
    and "senders_of l c' p = Some s" and "sender_name s = CreateMessagePassingName l p"
    and "mp_asil_b_capability c' = mp_asil_b_capability c" and "node_identifier c' = node_identifier c"
    and "sent c' = sent c"
proof (cases "senders_of l c p")
  case (Some s)
  with assms have "GetMessagePassingSender l p c = Some (s, c)" and "sender_name s = CreateMessagePassingName l p"
    by (auto simp: GetMessagePassingSender_def level_ok_def senders_wf_def contract_simps)
  with Some assms that show thesis by blast
next
  case None
  obtain s c1 where new: "CreateNewSender l p c = (s, c1)" by fastforce
  note f = CreateNewSender_frame [OF new]
  let ?c = "put_senders l ((senders_of l c1)(p \<mapsto> s)) c1"
  have ok: "level_ok l (mp_asil_b_capability c1)" using assms(1) f(1) by simp
  have "GetMessagePassingSender l p c = Some (s, ?c)"
    using None assms(1) new by (simp add: GetMessagePassingSender_def level_ok_def contract_simps)
  moreover have "senders_wf ?c"
    using assms(2) ok f by (auto simp: senders_wf_def senders_of_put split: if_splits)
  ultimately show thesis
    using that f ok by (simp add: senders_of_put)
qed

lemma send_to_outcome:
  assumes "level_ok l (mp_asil_b_capability c)" and "senders_wf c"
  obtains c' where "send_to l p m c = Some c'" and "senders_wf c'" and "sent c' = sent c @ [(l, p, m)]"
    and "mp_asil_b_capability c' = mp_asil_b_capability c" and "node_identifier c' = node_identifier c"
proof -
  from assms obtain s c1 where g: "GetMessagePassingSender l p c = Some (s, c1)" "senders_wf c1"
      "mp_asil_b_capability c1 = mp_asil_b_capability c" "node_identifier c1 = node_identifier c" "sent c1 = sent c"
    by (rule GetMessagePassingSender_outcome [where p = p])
  moreover have "senders_wf (c1\<lparr>sent := x\<rparr>)" for x
    using g(2) by (simp add: senders_wf_def senders_of_def)
  ultimately show thesis
    by (intro that [of "c1\<lparr>sent := sent c1 @ [(l, p, m)]\<rparr>"]) (simp_all add: send_to_def)
qed

lemma MessagePassingControl_wf [simp]: "senders_wf (MessagePassingControl b q p g)"
  by (simp add: senders_wf_def MessagePassingControl_def senders_of_def)

lemma RemoveMessagePassingSender_wf:
  assumes "level_ok l (mp_asil_b_capability c)" and "senders_wf c"
  shows "senders_wf (RemoveMessagePassingSender l p c)"
  using assms by (auto simp: senders_wf_def RemoveMessagePassingSender_def senders_of_put split: if_splits)

lemma RemoveMessagePassingSender_frame [simp]:
  "mp_asil_b_capability (RemoveMessagePassingSender l p c) = mp_asil_b_capability c"
  "node_identifier (RemoveMessagePassingSender l p c) = node_identifier c"
  "sent (RemoveMessagePassingSender l p c) = sent c"
  by (simp_all add: RemoveMessagePassingSender_def)

end
