(* ===== verification/Notify_Event_Handler.thy ===== *)
theory Notify_Event_Handler
  imports Atomic_World Message_Passing_Control
begin

text \<open>
  \<open>NotifyEventHandler\<close> (messaging/notify_event_handler.h/.cpp, with \<open>CopyNodeIdentifiers\<close> of
  messaging/handler_base.h): who has to be told when an event is updated.

  One \<open>EventNotificationControlData\<close> per level holds the handlers that proxy events of this process
  registered, the remote nodes that want to be told about events of this process, and how many
  registrations this process has at the node that provides a remote event. Each of its maps is
  guarded by a mutex; a section of the code that holds one is a \<open>critical\<close> step of a world, before
  which the schedule lets other threads run. \<open>std::set<pid_t>\<close> is a sorted list, and
  \<open>std::lower_bound\<close>, \<open>std::upper_bound\<close> find the first element that is not ordered before, or is
  ordered after, the given one, as they do on the ordered lists they are called with.

  A handler is an abstract value; calling it is recorded in \<open>handler_calls\<close> with its registration
  number. A task that is posted to the thread pool is recorded in \<open>posted\<close>. Log messages are not
  modelled.
\<close>

subsection \<open>State\<close>

record node_counter =
  nc_node_id :: int
  counter :: u16

record 'h event_notification_control =
  event_update_handlers :: "fq_key \<rightharpoonup> (u32 \<times> 'h) list"
  event_update_interested_nodes :: "fq_key \<rightharpoonup> int list"
  event_update_remote_registrations :: "fq_key \<rightharpoonup> node_counter"
  cur_registration_no :: u32

record 'h notify_event_handler =
  control_data_qm :: "'h event_notification_control world"
  control_data_asil :: "'h event_notification_control world"
  asil_b_capability :: bool
  mp_control :: message_passing_control
  posted :: "(QualityType \<times> element_fq_id) list"
  handler_calls :: "(u32 \<times> 'h) list"

definition critical :: "('m \<Rightarrow> 'a \<times> 'm) \<Rightarrow> 'm world \<Rightarrow> 'a \<times> 'm world" where
  "critical section_of w = (let w1 = snd (advance w); (r, m) = section_of (mem w1) in (r, w1\<lparr>mem := m\<rparr>))"

definition EventNotificationControlData :: "'h event_notification_control" where
  "EventNotificationControlData =
     \<lparr>event_update_handlers = Map.empty, event_update_interested_nodes = Map.empty,
      event_update_remote_registrations = Map.empty, cur_registration_no = 0\<rparr>"

definition NotifyEventHandler :: "message_passing_control \<Rightarrow> bool \<Rightarrow> 'h notify_event_handler" where
  "NotifyEventHandler control asil_b =
     \<lparr>control_data_qm = \<lparr>mem = EventNotificationControlData, sched = []\<rparr>,
      control_data_asil = \<lparr>mem = EventNotificationControlData, sched = []\<rparr>,
      asil_b_capability = asil_b, mp_control = control, posted = [], handler_calls = []\<rparr>"

definition control_data :: "QualityType \<Rightarrow> 'h notify_event_handler \<Rightarrow> 'h event_notification_control world" where
  "control_data asil_level h = (if asil_level = kASIL_QM then control_data_qm h else control_data_asil h)"

definition put_control_data ::
    "QualityType \<Rightarrow> 'h event_notification_control world \<Rightarrow> 'h notify_event_handler \<Rightarrow> 'h notify_event_handler" where
  "put_control_data asil_level w h =
     (if asil_level = kASIL_QM then h\<lparr>control_data_qm := w\<rparr> else h\<lparr>control_data_asil := w\<rparr>)"

definition require_level :: "QualityType \<Rightarrow> 'h notify_event_handler \<Rightarrow> unit run" where
  "require_level asil_level h = amp_require (level_ok asil_level (asil_b_capability h))"

definition send_message ::
    "QualityType \<Rightarrow> int \<Rightarrow> short_message \<Rightarrow> 'h notify_event_handler \<Rightarrow> 'h notify_event_handler run" where
  "send_message asil_level target message h = do {
     c \<leftarrow> send_to asil_level target message (mp_control h);
     Some (h\<lparr>mp_control := c\<rparr>) }"

definition own_message :: "MessageType \<Rightarrow> element_fq_id \<Rightarrow> 'h notify_event_handler \<Rightarrow> short_message" where
  "own_message t event_id h =
     SerializeElementFqIdMessage t
       \<lparr>element_fq_id = event_id, sender_node_id = node_identifier (mp_control h)\<rparr>"

definition handlers_for :: "fq_key \<Rightarrow> 'h event_notification_control \<Rightarrow> (u32 \<times> 'h) list" where
  "handlers_for e m = (case event_update_handlers m e of None \<Rightarrow> [] | Some hs \<Rightarrow> hs)"

subsection \<open>Notifying other processes\<close>

definition NodeIdTmpBufferSize :: nat where "NodeIdTmpBufferSize = 20"

text \<open>The result: number of copied ids, whether there are more, and the buffer.\<close>

definition CopyNodeIdentifiers ::
    "fq_key \<Rightarrow> int list \<Rightarrow> int \<Rightarrow> 'h event_notification_control \<Rightarrow>
     (nat \<times> bool \<times> int list) \<times> 'h event_notification_control" where
  "CopyNodeIdentifiers event_id dest_buffer start m =
     ((case event_update_interested_nodes m event_id of
         None \<Rightarrow> (0, False, dest_buffer)
       | Some nodes \<Rightarrow>
           let found = dropWhile (\<lambda>p. p < start) nodes;
               copied = take (length dest_buffer) found
           in (length copied, length dest_buffer < length found,
               copied @ drop (length copied) dest_buffer)), m)"

fun send_to_nodes ::
    "QualityType \<Rightarrow> short_message \<Rightarrow> int list \<Rightarrow> message_passing_control \<Rightarrow> message_passing_control run" where
  "send_to_nodes asil_level message [] c = Some c"
| "send_to_nodes asil_level message (node # nodes) c = do {
     c \<leftarrow> send_to asil_level node message c;
     send_to_nodes asil_level message nodes c }"

text \<open>The first argument is the number of rounds that are left before \<open>loop_count\<close> reaches 255.\<close>

fun NotifyEventRemote_loop ::
    "nat \<Rightarrow> QualityType \<Rightarrow> fq_key \<Rightarrow> short_message \<Rightarrow> int list \<Rightarrow> int \<Rightarrow>
     'h event_notification_control world \<Rightarrow> message_passing_control \<Rightarrow>
     ('h event_notification_control world \<times> message_passing_control) run" where
  "NotifyEventRemote_loop 0 asil_level event_id message nodeIdentifiersTmp start_node_id w c = Some (w, c)"
| "NotifyEventRemote_loop (Suc n) asil_level event_id message nodeIdentifiersTmp start_node_id w c =
     (let ((num, further, nodeIdentifiersTmp), w) =
        critical (CopyNodeIdentifiers event_id nodeIdentifiersTmp start_node_id) w
      in do {
        c \<leftarrow> send_to_nodes asil_level message (take num nodeIdentifiersTmp) c;
        if further
        then NotifyEventRemote_loop n asil_level event_id message nodeIdentifiersTmp
               (last nodeIdentifiersTmp + 1) w c
        else Some (w, c) })"

definition NotifyEventRemote ::
    "QualityType \<Rightarrow> element_fq_id \<Rightarrow> 'h notify_event_handler \<Rightarrow> 'h notify_event_handler run" where
  "NotifyEventRemote asil_level event_id h = do {
     (w, c) \<leftarrow> NotifyEventRemote_loop 255 asil_level (fq_key event_id) (own_message kNotifyEvent event_id h)
       (replicate NodeIdTmpBufferSize 0) 0 (control_data asil_level h) (mp_control h);
     Some ((put_control_data asil_level w h)\<lparr>mp_control := c\<rparr>) }"

subsection \<open>Notifying proxies of this process\<close>

definition upper_bound :: "u32 \<Rightarrow> (u32 \<times> 'h) list \<Rightarrow> (u32 \<times> 'h) option" where
  "upper_bound value hs = find (\<lambda>r. value < fst r) hs"

lemma upper_bound_greater: "upper_bound v hs = Some (n, x) \<Longrightarrow> v < n"
  by (auto simp: upper_bound_def find_Some_iff dest: sym)

text \<open>\<open>stop k\<close> is the answer of the stop token when it is asked for the \<open>k\<close>-th time.\<close>

function NotifyEventLocally_loop ::
    "(nat \<Rightarrow> bool) \<Rightarrow> nat \<Rightarrow> fq_key \<Rightarrow> u32 \<Rightarrow> u32 \<Rightarrow> (u32 \<times> 'h) list \<Rightarrow> 'h event_notification_control world \<Rightarrow>
     u32 \<times> (u32 \<times> 'h) list \<times> 'h event_notification_control world" where
  "NotifyEventLocally_loop stop k event_id reg_no_start handlers_called called w =
     (let (found, w) = critical (\<lambda>m. (upper_bound reg_no_start (handlers_for event_id m), m)) w
      in case found of
           None \<Rightarrow> (handlers_called, called, w)
         | Some (register_no, handler) \<Rightarrow>
             if stop k then (handlers_called + 1, called @ [(register_no, handler)], w)
             else NotifyEventLocally_loop stop (Suc k) event_id register_no (handlers_called + 1)
                    (called @ [(register_no, handler)]) w)"
  by pat_completeness auto

termination NotifyEventLocally_loop
proof (relation "measure (\<lambda>(stop, k, e, r, n, c, w). 2 ^ 32 - unat r)", goal_cases)
  case (2 stop k e r n c w x found w' y no handler)
  then have "upper_bound r (handlers_for e (mem (snd (advance w)))) = Some (no, handler)"
    by (simp add: critical_def Let_def)
  then have "r < no" by (rule upper_bound_greater)
  moreover have "unat no < 2 ^ 32" using unsigned_less [of no] by simp
  ultimately show ?case by (simp add: word_less_nat_alt)
qed simp

declare NotifyEventLocally_loop.simps [simp del]

definition NotifyEventLocally ::
    "(nat \<Rightarrow> bool) \<Rightarrow> fq_key \<Rightarrow> 'h event_notification_control world \<Rightarrow>
     u32 \<times> (u32 \<times> 'h) list \<times> 'h event_notification_control world" where
  "NotifyEventLocally stop event_id w =
     (let (handlers_for_event, w) = critical (\<lambda>m. (handlers_for event_id m, m)) w
      in case handlers_for_event of
           [] \<Rightarrow> (0, [], w)
         | first # _ \<Rightarrow> NotifyEventLocally_loop stop 0 event_id (fst first) 1 [first] w)"

definition run_locally ::
    "(nat \<Rightarrow> bool) \<Rightarrow> QualityType \<Rightarrow> element_fq_id \<Rightarrow> 'h notify_event_handler \<Rightarrow> u32 \<times> 'h notify_event_handler" where
  "run_locally stop asil_level event_id h =
     (let (n, called, w) = NotifyEventLocally stop (fq_key event_id) (control_data asil_level h)
      in (n, (put_control_data asil_level w h)\<lparr>handler_calls := handler_calls h @ called\<rparr>))"

definition NotifyEvent ::
    "QualityType \<Rightarrow> element_fq_id \<Rightarrow> 'h notify_event_handler \<Rightarrow> 'h notify_event_handler run" where
  "NotifyEvent asil_level event_id h = do {
     require_level asil_level h;
     h \<leftarrow> NotifyEventRemote asil_level event_id h;
     let (found, w) = critical (\<lambda>m. (handlers_for (fq_key event_id) m \<noteq> [], m)) (control_data asil_level h);
     let h = put_control_data asil_level w h;
     Some (if found then h\<lparr>posted := posted h @ [(asil_level, event_id)]\<rparr> else h) }"

text \<open>A worker of the thread pool takes the next task.\<close>

definition run_posted :: "(nat \<Rightarrow> bool) \<Rightarrow> 'h notify_event_handler \<Rightarrow> 'h notify_event_handler" where
  "run_posted stop h =
     (case posted h of
        [] \<Rightarrow> h
      | (asil_level, event_id) # ts \<Rightarrow> snd (run_locally stop asil_level event_id (h\<lparr>posted := ts\<rparr>)))"

subsection \<open>Registration by local proxies\<close>

definition add_handler ::
    "fq_key \<Rightarrow> 'h \<Rightarrow> 'h event_notification_control \<Rightarrow> u32 \<times> 'h event_notification_control" where
  "add_handler event_id callback m =
     (let registration_no = cur_registration_no m
      in (registration_no,
          m\<lparr>cur_registration_no := registration_no + 1,
            event_update_handlers := (event_update_handlers m)
              (event_id \<mapsto> handlers_for event_id m @ [(registration_no, callback)])\<rparr>))"

definition SendRegisterEventNotificationMessage ::
    "QualityType \<Rightarrow> element_fq_id \<Rightarrow> int \<Rightarrow> 'h notify_event_handler \<Rightarrow> 'h notify_event_handler run" where
  "SendRegisterEventNotificationMessage asil_level event_id target_node_id h =
     send_message asil_level target_node_id (own_message kRegisterEventNotifier event_id h) h"

definition count_registration ::
    "fq_key \<Rightarrow> int \<Rightarrow> 'h event_notification_control \<Rightarrow> u16 \<times> 'h event_notification_control" where
  "count_registration event_id target_node_id m =
     (let reg = (case event_update_remote_registrations m event_id of
                   None \<Rightarrow> \<lparr>nc_node_id = target_node_id, counter = 1\<rparr>
                 | Some r \<Rightarrow> if nc_node_id r \<noteq> target_node_id
                            then \<lparr>nc_node_id = target_node_id, counter = 1\<rparr>
                            else r\<lparr>counter := counter r + 1\<rparr>)
      in (counter reg,
          m\<lparr>event_update_remote_registrations := (event_update_remote_registrations m)(event_id \<mapsto> reg)\<rparr>))"

definition RegisterEventNotificationRemote ::
    "QualityType \<Rightarrow> element_fq_id \<Rightarrow> int \<Rightarrow> 'h notify_event_handler \<Rightarrow> 'h notify_event_handler run" where
  "RegisterEventNotificationRemote asil_level event_id target_node_id h =
     (let (reg_counter, w) = critical (count_registration (fq_key event_id) target_node_id) (control_data asil_level h);
          h = put_control_data asil_level w h
      in if reg_counter = 1 then SendRegisterEventNotificationMessage asil_level event_id target_node_id h
         else Some h)"

definition RegisterEventNotification ::
    "QualityType \<Rightarrow> element_fq_id \<Rightarrow> 'h \<Rightarrow> int \<Rightarrow> 'h notify_event_handler \<Rightarrow> (u32 \<times> 'h notify_event_handler) run" where
  "RegisterEventNotification asil_level event_id callback target_node_id h = do {
     require_level asil_level h;
     let (registration_no, w) = critical (add_handler (fq_key event_id) callback) (control_data asil_level h);
     let h = put_control_data asil_level w h;
     h \<leftarrow> (if target_node_id \<noteq> node_identifier (mp_control h)
          then RegisterEventNotificationRemote asil_level event_id target_node_id h else Some h);
     Some (registration_no, h) }"

text \<open>Whether a message has to be sent, when the event has been provided by another node so far.\<close>

definition recount_registration ::
    "fq_key \<Rightarrow> int \<Rightarrow> 'h event_notification_control \<Rightarrow> bool \<times> 'h event_notification_control" where
  "recount_registration event_id target_node_id m =
     (case event_update_remote_registrations m event_id of
        None \<Rightarrow> (False, m)
      | Some r \<Rightarrow>
          if nc_node_id r = target_node_id
          then (False, m\<lparr>event_update_remote_registrations := (event_update_remote_registrations m)
                        (event_id \<mapsto> r\<lparr>counter := counter r + 1\<rparr>)\<rparr>)
          else (True, m\<lparr>event_update_remote_registrations := (event_update_remote_registrations m)
                        (event_id \<mapsto> \<lparr>nc_node_id = target_node_id, counter = 1\<rparr>)\<rparr>))"

definition ReregisterEventNotification ::
    "QualityType \<Rightarrow> element_fq_id \<Rightarrow> int \<Rightarrow> 'h notify_event_handler \<Rightarrow> 'h notify_event_handler run" where
  "ReregisterEventNotification asil_level event_id target_node_id h = do {
     require_level asil_level h;
     let (known, w) = critical (\<lambda>m. (event_update_handlers m (fq_key event_id) \<noteq> None, m)) (control_data asil_level h);
     let h = put_control_data asil_level w h;
     if \<not> known then Some h
     else if target_node_id \<noteq> node_identifier (mp_control h) then do {
       let (send, w) = critical (recount_registration (fq_key event_id) target_node_id) (control_data asil_level h);
       let h = put_control_data asil_level w h;
       if send then SendRegisterEventNotificationMessage asil_level event_id target_node_id h else Some h }
     else Some h }"

text \<open>
  \<open>std::lower_bound\<close>, and the erasure of the handler it finds if it has the number.
\<close>

fun erase_registration :: "u32 \<Rightarrow> (u32 \<times> 'h) list \<Rightarrow> bool \<times> (u32 \<times> 'h) list" where
  "erase_registration registration_no [] = (False, [])"
| "erase_registration registration_no (r # rs) =
     (if fst r < registration_no
      then (let (found, rs') = erase_registration registration_no rs in (found, r # rs'))
      else if fst r = registration_no then (True, rs) else (False, r # rs))"

definition remove_handler ::
    "fq_key \<Rightarrow> u32 \<Rightarrow> 'h event_notification_control \<Rightarrow> bool \<times> 'h event_notification_control" where
  "remove_handler event_id registration_no m =
     (case event_update_handlers m event_id of
        None \<Rightarrow> (False, m)
      | Some hs \<Rightarrow>
          let (found, hs') = erase_registration registration_no hs
          in (found, m\<lparr>event_update_handlers := (event_update_handlers m)(event_id \<mapsto> hs')\<rparr>))"

definition SearchHandlerForNotification ::
    "QualityType \<Rightarrow> element_fq_id \<Rightarrow> u32 \<Rightarrow> 'h notify_event_handler \<Rightarrow> (bool \<times> 'h notify_event_handler) run" where
  "SearchHandlerForNotification asil_level event_id registration_no h = do {
     require_level asil_level h;
     let (found, w) = critical (remove_handler (fq_key event_id) registration_no) (control_data asil_level h);
     Some (found, put_control_data asil_level w h) }"

text \<open>The result is \<open>None\<close> where the assertion on the counter fails, and else whether to send.\<close>

definition uncount_registration ::
    "fq_key \<Rightarrow> int \<Rightarrow> 'h event_notification_control \<Rightarrow> bool run \<times> 'h event_notification_control" where
  "uncount_registration event_id target_node_id m =
     (case event_update_remote_registrations m event_id of
        None \<Rightarrow> (Some False, m)
      | Some r \<Rightarrow>
          if counter r = 0 then (None, m)
          else if nc_node_id r \<noteq> target_node_id then (Some False, m)
          else if counter r - 1 = 0
          then (Some True, m\<lparr>event_update_remote_registrations :=
                  (event_update_remote_registrations m)(event_id := None)\<rparr>)
          else (Some False, m\<lparr>event_update_remote_registrations := (event_update_remote_registrations m)
                  (event_id \<mapsto> r\<lparr>counter := counter r - 1\<rparr>)\<rparr>))"

definition UnregisterEventNotificationRemote ::
    "QualityType \<Rightarrow> element_fq_id \<Rightarrow> int \<Rightarrow> 'h notify_event_handler \<Rightarrow> 'h notify_event_handler run" where
  "UnregisterEventNotificationRemote asil_level event_id target_node_id h = do {
     let (r, w) = critical (uncount_registration (fq_key event_id) target_node_id) (control_data asil_level h);
     send \<leftarrow> r;
     let h = put_control_data asil_level w h;
     if send then send_message asil_level target_node_id (own_message kUnregisterEventNotifier event_id h) h
     else Some h }"

definition UnregisterEventNotification ::
    "QualityType \<Rightarrow> element_fq_id \<Rightarrow> u32 \<Rightarrow> int \<Rightarrow> 'h notify_event_handler \<Rightarrow> 'h notify_event_handler run" where
  "UnregisterEventNotification asil_level event_id registration_no target_node_id h = do {
     (found, h) \<leftarrow> SearchHandlerForNotification asil_level event_id registration_no h;
     if \<not> found then Some h
     else if target_node_id \<noteq> node_identifier (mp_control h)
     then UnregisterEventNotificationRemote asil_level event_id target_node_id h
     else Some h }"

definition NotifyOutdatedNodeId ::
    "QualityType \<Rightarrow> int \<Rightarrow> int \<Rightarrow> 'h notify_event_handler \<Rightarrow> 'h notify_event_handler run" where
  "NotifyOutdatedNodeId asil_level outdated_node_id target_node_id h = do {
     require_level asil_level h;
     send_message asil_level target_node_id
       (SerializeOutdatedNodeIdMessage \<lparr>pid_to_unregister = outdated_node_id, outdated_sender = target_node_id\<rparr>) h }"

subsection \<open>Messages of other processes\<close>

definition HandleNotifyEventMsg ::
    "(nat \<Rightarrow> bool) \<Rightarrow> u64 \<Rightarrow> QualityType \<Rightarrow> int \<Rightarrow> 'h notify_event_handler \<Rightarrow> 'h notify_event_handler run" where
  "HandleNotifyEventMsg stop payload asil_level sender h = do {
     require_level asil_level h;
     message \<leftarrow> DeserializeToElementFqIdMessage payload sender;
     Some (snd (run_locally stop asil_level (element_fq_id message) h)) }"

definition add_node :: "fq_key \<Rightarrow> int \<Rightarrow> 'h event_notification_control \<Rightarrow> unit \<times> 'h event_notification_control" where
  "add_node event_id sender m =
     ((), m\<lparr>event_update_interested_nodes := (event_update_interested_nodes m)
        (event_id \<mapsto> (case event_update_interested_nodes m event_id of
                         Some nodes \<Rightarrow> insort_insert sender nodes
                       | None \<Rightarrow> insort_insert sender []))\<rparr>)"

definition remove_node :: "fq_key \<Rightarrow> int \<Rightarrow> 'h event_notification_control \<Rightarrow> unit \<times> 'h event_notification_control" where
  "remove_node event_id sender m =
     ((), case event_update_interested_nodes m event_id of
            None \<Rightarrow> m
          | Some nodes \<Rightarrow> m\<lparr>event_update_interested_nodes :=
              (event_update_interested_nodes m)(event_id \<mapsto> remove1 sender nodes)\<rparr>)"

definition remove_node_everywhere ::
    "int \<Rightarrow> 'h event_notification_control \<Rightarrow> unit \<times> 'h event_notification_control" where
  "remove_node_everywhere pid m =
     ((), m\<lparr>event_update_interested_nodes :=
              (\<lambda>e. map_option (remove1 pid) (event_update_interested_nodes m e))\<rparr>)"

definition HandleRegisterNotificationMsg ::
    "u64 \<Rightarrow> QualityType \<Rightarrow> int \<Rightarrow> 'h notify_event_handler \<Rightarrow> 'h notify_event_handler run" where
  "HandleRegisterNotificationMsg payload asil_level sender h = do {
     require_level asil_level h;
     message \<leftarrow> DeserializeToElementFqIdMessage payload sender;
     let (_, w) = critical (add_node (fq_key (element_fq_id message)) sender) (control_data asil_level h);
     Some (put_control_data asil_level w h) }"

definition HandleUnregisterNotificationMsg ::
    "u64 \<Rightarrow> QualityType \<Rightarrow> int \<Rightarrow> 'h notify_event_handler \<Rightarrow> 'h notify_event_handler run" where
  "HandleUnregisterNotificationMsg payload asil_level sender h = do {
     require_level asil_level h;
     message \<leftarrow> DeserializeToElementFqIdMessage payload sender;
     let (_, w) = critical (remove_node (fq_key (element_fq_id message)) sender) (control_data asil_level h);
     Some (put_control_data asil_level w h) }"

definition HandleOutdatedNodeIdMsg ::
    "u64 \<Rightarrow> QualityType \<Rightarrow> int \<Rightarrow> 'h notify_event_handler \<Rightarrow> 'h notify_event_handler run" where
  "HandleOutdatedNodeIdMsg payload asil_level sender h = do {
     require_level asil_level h;
     let message = DeserializeToOutdatedNodeIdMessage payload sender;
     let (_, w) = critical (remove_node_everywhere (pid_to_unregister message)) (control_data asil_level h);
     let h = put_control_data asil_level w h;
     Some (h\<lparr>mp_control := RemoveMessagePassingSender asil_level (pid_to_unregister message) (mp_control h)\<rparr>) }"

text \<open>
  The callbacks that \<open>RegisterMessageReceivedCallbacks\<close> registers at the receiver of a level: a
  message with a known id goes to its handler with the payload and the sender, any other is ignored
  by the receiver.
\<close>

definition RegisterMessageReceivedCallbacks ::
    "(nat \<Rightarrow> bool) \<Rightarrow> QualityType \<Rightarrow> u8 \<Rightarrow> u64 \<Rightarrow> int \<Rightarrow> 'h notify_event_handler \<Rightarrow> 'h notify_event_handler run" where
  "RegisterMessageReceivedCallbacks stop asil_level id_received payload sender h =
     (if id_received = message_type_value kRegisterEventNotifier
      then HandleRegisterNotificationMsg payload asil_level sender h
      else if id_received = message_type_value kUnregisterEventNotifier
      then HandleUnregisterNotificationMsg payload asil_level sender h
      else if id_received = message_type_value kNotifyEvent
      then HandleNotifyEventMsg stop payload asil_level sender h
      else if id_received = message_type_value kOutdatedNodeId
      then HandleOutdatedNodeIdMsg payload asil_level sender h
      else Some h)"

end
