(* ===== verification/Event_Notification.thy ===== *)
theory Event_Notification
  imports Notify_Event_Handler
begin

text \<open>
  What the notification of events guarantees while other threads register and unregister.

  \<^item> \<open>NotifyEventLocally\<close> gives up its lock between two handlers. The handlers it calls have
    ascending registration numbers, so none is called twice, and unless it is told to stop, every
    handler that stays registered is called.
  \<^item> \<open>NotifyEventRemote\<close> copies the interested nodes in chunks of 20 and sends without the lock.
    No node is told twice, at most 5100 are told (the loop ends after 255 rounds), and every node that
    stays interested is told unless 5100 smaller ones were.
\<close>

text \<open>A property of the memory that every step of the others keeps.\<close>

definition keeps :: "('m \<Rightarrow> bool) \<Rightarrow> 'm world \<Rightarrow> bool" where
  "keeps I w \<longleftrightarrow> I (mem w) \<and> rely (\<lambda>m m'. I m \<longrightarrow> I m') w"

lemma keeps_critical:
  assumes "keeps I w" and "critical f w = (r, w')" and "\<And>m. I m \<Longrightarrow> I (snd (f m))"
  obtains m where "I m" and "r = fst (f m)" and "mem w' = snd (f m)" and "keeps I w'"
proof -
  obtain b w1 where adv: "advance w = (b, w1)" by fastforce
  with assms(1) have k: "keeps I w1"
    by (auto simp: keeps_def rely_def advance_def split: list.splits)
  have "r = fst (f (mem w1))" "w' = w1\<lparr>mem := snd (f (mem w1))\<rparr>"
    using assms(2) adv by (auto simp: critical_def Let_def split: prod.splits)
  with k assms(3) show thesis
    by (intro that [of "mem w1"]) (auto simp: keeps_def rely_def)
qed

lemma critical_quiet [simp]:
  "quiet w \<Longrightarrow> critical f w = (fst (f (mem w)), w\<lparr>mem := snd (f (mem w))\<rparr>)"
  by (simp add: critical_def split: prod.splits)

subsection \<open>Local handlers\<close>

abbreviation ascending :: "(u32 \<times> 'h) list \<Rightarrow> bool" where
  "ascending hs \<equiv> sorted_wrt (\<lambda>a b. fst a < fst b) hs"

definition handlers_stay :: "fq_key \<Rightarrow> (u32 \<times> 'h) set \<Rightarrow> 'h event_notification_control \<Rightarrow> bool" where
  "handlers_stay e K m \<longleftrightarrow> ascending (handlers_for e m) \<and> K \<subseteq> set (handlers_for e m)"

lemma upper_bound_None: "upper_bound v hs = None \<longleftrightarrow> (\<forall>r \<in> set hs. fst r \<le> v)"
  by (auto simp: upper_bound_def find_None_iff not_less)

lemma upper_bound_next:
  assumes "ascending hs" and "upper_bound v hs = Some r" and "k \<in> set hs" and "v < fst k"
  shows "r = k \<or> fst r < fst k"
proof -
  from assms(2) obtain i where i: "i < length hs" "hs ! i = r" "\<forall>j<i. \<not> v < fst (hs ! j)"
    by (auto simp: upper_bound_def find_Some_iff)
  from assms(3) obtain j where j: "j < length hs" "hs ! j = k" by (auto simp: in_set_conv_nth)
  with i(3) assms(4) have "i \<le> j" by (meson not_less)
  with i j assms(1) show ?thesis
    by (cases "i = j") (auto simp: sorted_wrt_iff_nth_less)
qed

lemma ascending_snoc: "ascending (hs @ [r]) \<longleftrightarrow> ascending hs \<and> (\<forall>x \<in> set hs. fst x < fst r)"
  by (auto simp: sorted_wrt_append)

lemma NotifyEventLocally_loop_calls:
  assumes "keeps I w" and "\<And>m. I m \<Longrightarrow> handlers_stay e K m" and "ascending called" and "\<forall>x \<in> set called. fst x \<le> r"
    and "{k \<in> K. fst k \<le> r} \<subseteq> set called" and "n = of_nat (length called)"
    and "NotifyEventLocally_loop stop k e r n called w = (n', called', w')"
  shows "ascending called' \<and> n' = of_nat (length called') \<and> set called \<subseteq> set called' \<and>
    ((\<forall>j. \<not> stop j) \<longrightarrow> K \<subseteq> set called')"
  using assms
proof (induction stop k e r n called w arbitrary: n' called' w' rule: NotifyEventLocally_loop.induct)
  case (1 stop k e r n called w)
  obtain found w1 where crit: "critical (\<lambda>m. (upper_bound r (handlers_for e m), m)) w = (found, w1)"
    by fastforce
  from "1.prems"(1) crit obtain m where "I m" and found: "found = upper_bound r (handlers_for e m)"
      and k1: "keeps I w1"
    by (rule keeps_critical) simp_all
  with "1.prems"(2) have m: "handlers_stay e K m" "found = upper_bound r (handlers_for e m)" by simp_all
  show ?case
  proof (cases found)
    case None
    then have "called' = called" "n' = n"
      using "1.prems"(7) crit by (auto simp: NotifyEventLocally_loop.simps [of stop k])
    moreover have "K \<subseteq> set called"
      using None m "1.prems"(5) by (auto simp: upper_bound_None handlers_stay_def)
    ultimately show ?thesis using "1.prems"(3,6) by simp
  next
    case (Some x)
    obtain no h where x: "x = (no, h)" by fastforce
    from Some m(2) x have less: "r < no" by (auto dest: upper_bound_greater)
    let ?called = "called @ [(no, h)]"
    have asc: "ascending ?called" "\<forall>y \<in> set ?called. fst y \<le> no"
      using "1.prems"(3,4) less by (auto simp: ascending_snoc)
    have upto: "{k \<in> K. fst k \<le> no} \<subseteq> set ?called"
    proof
      fix y assume y: "y \<in> {k \<in> K. fst k \<le> no}"
      show "y \<in> set ?called"
      proof (cases "fst y \<le> r")
        case True
        with y "1.prems"(5) show ?thesis by auto
      next
        case False
        with y m Some x have "(no, h) = y \<or> no < fst y"
          using upper_bound_next [of "handlers_for e m" r "(no, h)" y] by (auto simp: handlers_stay_def)
        with y show ?thesis by auto
      qed
    qed
    have len: "n + 1 = of_nat (length ?called)" using "1.prems"(6) by simp
    show ?thesis
    proof (cases "stop k")
      case True
      then have "called' = ?called" "n' = n + 1"
        using "1.prems"(7) crit Some x by (auto simp: NotifyEventLocally_loop.simps [of stop k])
      with True asc len show ?thesis by auto
    next
      case False
      then have run: "NotifyEventLocally_loop stop (Suc k) e no (n + 1) ?called w1 = (n', called', w')"
        using "1.prems"(7) crit Some x by (simp add: NotifyEventLocally_loop.simps [of stop k])
      from "1.IH" [OF refl crit [symmetric] Some x [symmetric] False k1 "1.prems"(2) asc upto len run]
      show ?thesis by simp
    qed
  qed
qed

text \<open>
  Property C16: however other threads register and unregister handlers in between, as long as they
  keep the handlers of the event in the order of their registration, \<open>NotifyEventLocally\<close> returns,
  calls handlers in ascending order of registration (so none twice) and returns how many it called
  (as a 32-bit number). If it is not told to stop, it calls every handler that stays registered.
\<close>

theorem local_handlers_called_once:
  assumes "keeps I w" and "\<And>m. I m \<Longrightarrow> handlers_stay e K m" and "NotifyEventLocally stop e w = (n, called, w')"
  shows "ascending called \<and> n = of_nat (length called) \<and> ((\<forall>j. \<not> stop j) \<longrightarrow> K \<subseteq> set called)"
proof -
  obtain hs w1 where crit: "critical (\<lambda>m. (handlers_for e m, m)) w = (hs, w1)" by fastforce
  from assms(1) crit obtain m where "I m" and k1: "keeps I w1" and "hs = handlers_for e m"
    by (rule keeps_critical) simp_all
  with assms(2) have m: "handlers_stay e K m" "hs = handlers_for e m" by simp_all
  show ?thesis
  proof (cases hs)
    case Nil
    with assms(3) crit m show ?thesis by (auto simp: NotifyEventLocally_def handlers_stay_def)
  next
    case (Cons x xs)
    then have run: "NotifyEventLocally_loop stop 0 e (fst x) 1 [x] w1 = (n, called, w')"
      using assms(3) crit by (simp add: NotifyEventLocally_def)
    have "{k \<in> K. fst k \<le> fst x} \<subseteq> set [x]"
      using m(1,2) Cons by (fastforce simp: handlers_stay_def)
    then show ?thesis
      using NotifyEventLocally_loop_calls [OF k1 _ _ _ _ _ run] assms(2) by auto
  qed
qed

text \<open>The registrations of the program itself are such interference, until the numbers wrap around.\<close>

definition registrations_stay :: "fq_key \<Rightarrow> (u32 \<times> 'h) set \<Rightarrow> 'h event_notification_control \<Rightarrow> bool" where
  "registrations_stay e K m \<longleftrightarrow> handlers_stay e K m \<and> (\<forall>r \<in> set (handlers_for e m). fst r < cur_registration_no m)"

lemma add_handler_stays:
  assumes "registrations_stay e K m" and "cur_registration_no m \<noteq> - 1"
  shows "registrations_stay e K (snd (add_handler e' h m))"
proof -
  have "1 + cur_registration_no m \<noteq> 0"
    using assms(2) by (metis add.commute eq_neg_iff_add_eq_0)
  then have less: "cur_registration_no m < cur_registration_no m + 1"
    by (simp add: word_less_nat_alt unatSuc add.commute)
  have old: "\<forall>r \<in> set (handlers_for e m). fst r < cur_registration_no m + 1"
    using assms(1) less unfolding registrations_stay_def by (blast intro: less_trans)
  have hs: "handlers_for e (snd (add_handler e' h m)) =
      (if e = e' then handlers_for e m @ [(cur_registration_no m, h)] else handlers_for e m)"
    by (auto simp: add_handler_def handlers_for_def Let_def)
  have "cur_registration_no (snd (add_handler e' h m)) = cur_registration_no m + 1"
    by (simp add: add_handler_def Let_def)
  with assms(1) less old show ?thesis
    unfolding registrations_stay_def handlers_stay_def hs by (auto simp: ascending_snoc)
qed

lemma erase_registration_filter:
  "ascending hs \<Longrightarrow> erase_registration no hs = (no \<in> fst ` set hs, filter (\<lambda>r. fst r \<noteq> no) hs)"
proof (induction hs)
  case (Cons r rs)
  then have IH: "erase_registration no rs = (no \<in> fst ` set rs, filter (\<lambda>r. fst r \<noteq> no) rs)"
    and above: "\<forall>x \<in> set rs. fst r < fst x" by simp_all
  consider "fst r < no" | "fst r = no" | "no < fst r" by (rule linorder_cases)
  then show ?case
  proof cases
    case 1
    with IH show ?thesis by auto
  next
    case 2
    with above have "filter (\<lambda>r. fst r \<noteq> no) rs = rs" by (auto simp: filter_id_conv)
    with 2 show ?thesis by simp
  next
    case 3
    with above have "\<forall>x \<in> set rs. fst x \<noteq> no" by auto
    then have "filter (\<lambda>r. fst r \<noteq> no) rs = rs" "no \<notin> fst ` set rs" by (auto simp: filter_id_conv)
    with 3 show ?thesis by auto
  qed
qed simp

lemma remove_handler_stays:
  assumes "registrations_stay e K m" and "no \<notin> fst ` K"
  shows "registrations_stay e K (snd (remove_handler e' no m))"
proof -
  have "handlers_for e (snd (remove_handler e' no m)) = handlers_for e m \<or>
      handlers_for e (snd (remove_handler e' no m)) = filter (\<lambda>r. fst r \<noteq> no) (handlers_for e m)"
    using assms(1) erase_registration_filter [of "handlers_for e m" no]
    by (auto simp: registrations_stay_def handlers_stay_def remove_handler_def handlers_for_def Let_def
        split: option.splits prod.splits)
  moreover have "cur_registration_no (snd (remove_handler e' no m)) = cur_registration_no m"
    by (simp add: remove_handler_def split: option.splits prod.splits)
  moreover have "K \<subseteq> set (filter (\<lambda>r. fst r \<noteq> no) (handlers_for e m))"
    using assms by (force simp: registrations_stay_def handlers_stay_def)
  ultimately show ?thesis
    using assms(1) by (auto simp: registrations_stay_def handlers_stay_def sorted_wrt_filter)
qed

text \<open>A third handler is registered while the first one runs, and the second is taken away.\<close>

definition busy_control :: "nat event_notification_control" where
  "busy_control = EventNotificationControlData
     \<lparr>event_update_handlers := [fq_key sample_element \<mapsto> [(1, 10), (2, 20), (5, 50)]], cur_registration_no := 6\<rparr>"

definition busy_threads :: "nat event_notification_control \<Rightarrow> nat event_notification_control" where
  "busy_threads m =
     (let m = snd (remove_handler (fq_key sample_element) 2 m)
      in if cur_registration_no m = - 1 then m else snd (add_handler (fq_key sample_element) 60 m))"

definition busy_world :: "nat event_notification_control world" where
  "busy_world = \<lparr>mem = busy_control, sched = [Tick id False, Tick busy_threads False]\<rparr>"

theorem local_handlers_called_once_witness:
  "\<exists>called w'. NotifyEventLocally (\<lambda>_. False) (fq_key sample_element) busy_world = (3, called, w') \<and>
     ascending called \<and> {(1, 10), (5, 50)} \<subseteq> set called"
proof -
  let ?e = "fq_key sample_element" and ?K = "{(1, 10), (5, 50)} :: (u32 \<times> nat) set"
  let ?I = "registrations_stay ?e ?K"
  have "?I (busy_threads m)" if "?I m" for m
    using remove_handler_stays [OF that, of 2 ?e] add_handler_stays [of ?e ?K _ ?e 60]
    by (simp add: busy_threads_def Let_def)
  moreover have "?I busy_control"
    by (simp add: registrations_stay_def handlers_stay_def busy_control_def handlers_for_def
        EventNotificationControlData_def)
  ultimately have k: "keeps ?I busy_world"
    by (simp add: keeps_def rely_def busy_world_def)
  obtain w' where run:
      "NotifyEventLocally (\<lambda>_. False) ?e busy_world = (3, [(1, 10), (5, 50), (6, 60)], w')"
    by (simp add: NotifyEventLocally_def NotifyEventLocally_loop.simps critical_def advance_def busy_world_def
        busy_control_def busy_threads_def EventNotificationControlData_def handlers_for_def remove_handler_def
        add_handler_def upper_bound_def Let_def)
  from local_handlers_called_once [OF k _ run] run show ?thesis
    by (intro exI conjI) (auto simp: registrations_stay_def)
qed

subsection \<open>Remote nodes\<close>

definition nodes_for :: "fq_key \<Rightarrow> 'h event_notification_control \<Rightarrow> int list" where
  "nodes_for e m = (case event_update_interested_nodes m e of None \<Rightarrow> [] | Some ps \<Rightarrow> ps)"

definition nodes_stay :: "fq_key \<Rightarrow> int set \<Rightarrow> 'h event_notification_control \<Rightarrow> bool" where
  "nodes_stay e K m \<longleftrightarrow> sorted_wrt (<) (nodes_for e m) \<and> K \<subseteq> set (nodes_for e m)"

text \<open>The messages of one notification: the same to each of the given nodes.\<close>

definition told :: "QualityType \<Rightarrow> short_message \<Rightarrow> int list \<Rightarrow> (QualityType \<times> int \<times> short_message) list" where
  "told l msg ps = map (\<lambda>p. (l, p, msg)) ps"

lemma told_append: "told l msg (ps @ qs) = told l msg ps @ told l msg qs"
  by (simp add: told_def)

lemma dropWhile_sorted:
  "sorted_wrt (<) (ps :: int list) \<Longrightarrow> dropWhile (\<lambda>p. p < v) ps = filter (\<lambda>p. v \<le> p) ps"
proof (induction ps)
  case (Cons p ps)
  show ?case
  proof (cases "p < v")
    case False
    with Cons.prems have "\<forall>x \<in> set ps. v \<le> x" by auto
    with False show ?thesis by (simp add: filter_id_conv)
  qed (use Cons in simp)
qed simp

lemma send_to_nodes_outcome:
  assumes "level_ok l (mp_asil_b_capability c)" and "senders_wf c"
  obtains c' where "send_to_nodes l msg ps c = Some c'" and "senders_wf c'"
    and "sent c' = sent c @ told l msg ps" and "mp_asil_b_capability c' = mp_asil_b_capability c"
    and "node_identifier c' = node_identifier c"
  using assms
proof (induction ps arbitrary: c thesis)
  case Nil
  then show ?case by (simp add: told_def)
next
  case (Cons p ps)
  obtain c1 where c1: "send_to l p msg c = Some c1" "senders_wf c1" "sent c1 = sent c @ [(l, p, msg)]"
      "mp_asil_b_capability c1 = mp_asil_b_capability c" "node_identifier c1 = node_identifier c"
    using Cons.prems(2,3) by (rule send_to_outcome)
  with Cons.prems(2) have "level_ok l (mp_asil_b_capability c1)" by simp
  from Cons.IH [OF _ this c1(2)] obtain c' where "send_to_nodes l msg ps c1 = Some c'" "senders_wf c'"
      "sent c' = sent c1 @ told l msg ps" "mp_asil_b_capability c' = mp_asil_b_capability c1"
      "node_identifier c' = node_identifier c1"
    by metis
  with c1 show ?case by (intro Cons.prems(1) [of c']) (simp_all add: told_def)
qed

text \<open>One round: what is copied, and what is left for later rounds.\<close>

lemma CopyNodeIdentifiers_round:
  assumes "nodes_stay e K m" and "length buf = NodeIdTmpBufferSize"
    and "CopyNodeIdentifiers e buf start m = ((num, further, buf'), m')"
  obtains "m' = m" and "length buf' = NodeIdTmpBufferSize"
    and "sorted_wrt (<) (take num buf')" and "\<forall>p \<in> set (take num buf'). start \<le> p"
    and "length (take num buf') \<le> NodeIdTmpBufferSize" and "set (take num buf') \<subseteq> set (nodes_for e m)"
    and "if further then take num buf' = buf' \<and> {p \<in> K. start \<le> p \<and> p \<le> last buf'} \<subseteq> set buf'
         else {p \<in> K. start \<le> p} \<subseteq> set (take num buf')"
proof -
  let ?found = "filter (\<lambda>p. start \<le> p) (nodes_for e m)"
  have srt: "sorted_wrt (<) ?found" and K: "{p \<in> K. start \<le> p} \<subseteq> set ?found"
    using assms(1) by (auto simp: nodes_stay_def sorted_wrt_filter)
  have copy: "take num buf' = take (length buf) ?found" "further = (length buf < length ?found)"
      "buf' = take (length buf) ?found @ drop (length (take (length buf) ?found)) buf" "m' = m"
    using assms(1,3) dropWhile_sorted [of "nodes_for e m" start]
    by (auto simp: CopyNodeIdentifiers_def nodes_for_def nodes_stay_def Let_def split: option.splits)
  have "sorted_wrt (<) (take num buf')" "\<forall>p \<in> set (take num buf'). start \<le> p"
    unfolding copy(1) using srt by (auto dest: in_set_takeD)
  moreover have "if further then take num buf' = buf' \<and> {p \<in> K. start \<le> p \<and> p \<le> last buf'} \<subseteq> set buf'
         else {p \<in> K. start \<le> p} \<subseteq> set (take num buf')"
  proof (cases further)
    case True
    then have b: "buf' = take (length buf) ?found" using copy by simp
    have ne: "buf' \<noteq> []" using True copy(2) b assms(2) by (auto simp: NodeIdTmpBufferSize_def)
    have "p \<in> set buf'" if p: "p \<in> K" "start \<le> p" "p \<le> last buf'" for p
    proof -
      have split: "?found = buf' @ drop (length buf) ?found" unfolding b by simp
      then have "p \<in> set buf' \<union> set (drop (length buf) ?found)"
        using p K by (metis (no_types, lifting) mem_Collect_eq set_append subsetD)
      moreover have "sorted_wrt (<) (buf' @ drop (length buf) ?found)" using srt split by simp
      then have "\<forall>q \<in> set (drop (length buf) ?found). last buf' < q"
        using ne by (simp add: sorted_wrt_append)
      ultimately show ?thesis using p(3) by auto
    qed
    moreover have "take num buf' = buf'" using b copy(1) by simp
    ultimately show ?thesis using True by auto
  next
    case False
    then have "take num buf' = ?found" using copy(1,2) by simp
    with False K show ?thesis by simp
  qed
  moreover have "length buf' = NodeIdTmpBufferSize" using copy(3) assms(2) by simp
  moreover have "length (take num buf') \<le> NodeIdTmpBufferSize" using copy(1) assms(2) by simp
  moreover have "set (take num buf') \<subseteq> set (nodes_for e m)" unfolding copy(1) by (auto dest: in_set_takeD)
  ultimately show thesis using copy(4) that by simp
qed

text \<open>
  The nodes told: in ascending order, all of them among \<open>L\<close> if no other was ever registered, and all
  of \<open>K\<close>, or else as many as the rounds allow, and then those missed come after those told.
\<close>

definition nodes_told :: "nat \<Rightarrow> int \<Rightarrow> int set \<Rightarrow> int set \<Rightarrow> int list \<Rightarrow> bool" where
  "nodes_told n start K L ps \<longleftrightarrow> sorted_wrt (<) ps \<and> (\<forall>p \<in> set ps. start \<le> p) \<and> set ps \<subseteq> L \<and>
     length ps \<le> n * NodeIdTmpBufferSize \<and>
     (\<forall>p \<in> K. start \<le> p \<longrightarrow> p \<in> set ps \<or> length ps = n * NodeIdTmpBufferSize \<and> (\<forall>q \<in> set ps. q < p))"

lemma nodes_told_last:
  assumes "sorted_wrt (<) ps" and "\<forall>p \<in> set ps. start \<le> p" and "set ps \<subseteq> L" and "length ps \<le> NodeIdTmpBufferSize"
    and "{p \<in> K. start \<le> p} \<subseteq> set ps"
  shows "nodes_told (Suc n) start K L ps"
  using assms by (auto simp: nodes_told_def)

lemma nodes_told_further:
  assumes "sorted_wrt (<) buf" and "\<forall>p \<in> set buf. start \<le> p" and "set buf \<subseteq> L" and "length buf = NodeIdTmpBufferSize"
    and "{p \<in> K. start \<le> p \<and> p \<le> last buf} \<subseteq> set buf" and "nodes_told n (last buf + 1) K L ps"
  shows "nodes_told (Suc n) start K L (buf @ ps)"
proof -
  have ne: "buf \<noteq> []" using assms(4) by (auto simp: NodeIdTmpBufferSize_def)
  have upto: "\<forall>p \<in> set buf. p \<le> last buf"
    using assms(1) ne by (induction buf rule: rev_induct) (auto simp: sorted_wrt_append)
  have ps: "sorted_wrt (<) ps" "\<forall>p \<in> set ps. last buf + 1 \<le> p" "set ps \<subseteq> L" "length ps \<le> n * NodeIdTmpBufferSize"
    using assms(6) by (simp_all add: nodes_told_def)
  have missed: "p \<in> set ps \<or> length ps = n * NodeIdTmpBufferSize \<and> (\<forall>q \<in> set ps. q < p)"
    if "p \<in> K" "last buf < p" for p
    using assms(6) that by (auto simp: nodes_told_def)
  have "start \<le> last buf" using assms(2) ne by simp
  with ps(2) have low: "\<forall>p \<in> set (buf @ ps). start \<le> p" using assms(2) by fastforce
  have all: "p \<in> set (buf @ ps) \<or> length (buf @ ps) = Suc n * NodeIdTmpBufferSize \<and> (\<forall>q \<in> set (buf @ ps). q < p)"
    if p: "p \<in> K" "start \<le> p" for p
  proof (cases "p \<le> last buf")
    case True
    with p assms(5) show ?thesis by auto
  next
    case False
    with upto have "\<forall>q \<in> set buf. q < p" by force
    with False missed [OF p(1)] assms(4) show ?thesis by auto
  qed
  have "sorted_wrt (<) (buf @ ps)"
    using assms(1) ps(1,2) upto by (fastforce simp: sorted_wrt_append)
  with low all ps(3,4) assms(3,4) show ?thesis by (simp add: nodes_told_def)
qed

lemma NotifyEventRemote_loop_tells:
  assumes "keeps I w" and "\<forall>m. I m \<longrightarrow> nodes_stay e K m" and "length buf = NodeIdTmpBufferSize"
    and "level_ok l (mp_asil_b_capability c)" and "senders_wf c"
  shows "\<exists>w' c' ps. NotifyEventRemote_loop n l e msg buf start w c = Some (w', c') \<and>
    sent c' = sent c @ told l msg ps \<and> (\<forall>L. (\<forall>m. I m \<longrightarrow> set (nodes_for e m) \<subseteq> L) \<longrightarrow> nodes_told n start K L ps)"
  using assms
proof (induction n arbitrary: buf start w c)
  case 0
  have "sent c = sent c @ told l msg []" by (simp add: told_def)
  moreover have "nodes_told 0 start K L []" for L by (simp add: nodes_told_def)
  ultimately show ?case by (intro exI [of _ w] exI [of _ c] exI [of _ "[]"]) simp
next
  case (Suc n)
  obtain num further buf' w1 where
    crit: "critical (CopyNodeIdentifiers e buf start) w = ((num, further, buf'), w1)"
    by (metis prod_cases3 surj_pair)
  from Suc.prems(1) crit obtain m where m: "I m" "(num, further, buf') = fst (CopyNodeIdentifiers e buf start m)"
      "keeps I w1"
    by (rule keeps_critical) (simp_all add: CopyNodeIdentifiers_def)
  then obtain m' where "CopyNodeIdentifiers e buf start m = ((num, further, buf'), m')" by (metis prod.collapse)
  with Suc.prems(2) [rule_format, OF m(1)] Suc.prems(3) obtain
    "m' = m" and len: "length buf' = NodeIdTmpBufferSize" and srt: "sorted_wrt (<) (take num buf')"
    and low: "\<forall>p \<in> set (take num buf'). start \<le> p"
    and short: "length (take num buf') \<le> NodeIdTmpBufferSize" and known: "set (take num buf') \<subseteq> set (nodes_for e m)"
    and K: "if further then take num buf' = buf' \<and> {p \<in> K. start \<le> p \<and> p \<le> last buf'} \<subseteq> set buf'
         else {p \<in> K. start \<le> p} \<subseteq> set (take num buf')"
    by (rule CopyNodeIdentifiers_round)
  obtain c1 where c1: "send_to_nodes l msg (take num buf') c = Some c1" "senders_wf c1"
      "sent c1 = sent c @ told l msg (take num buf')" "mp_asil_b_capability c1 = mp_asil_b_capability c"
    using Suc.prems(4,5) by (rule send_to_nodes_outcome)
  have L: "set (take num buf') \<subseteq> L" if "\<forall>m. I m \<longrightarrow> set (nodes_for e m) \<subseteq> L" for L
    using that m(1) known by blast
  show ?case
  proof (cases further)
    case False
    with crit c1 have "NotifyEventRemote_loop (Suc n) l e msg buf start w c = Some (w1, c1)" by simp
    moreover have "nodes_told (Suc n) start K L (take num buf')" if "\<forall>m. I m \<longrightarrow> set (nodes_for e m) \<subseteq> L" for L
      using srt low L [OF that] short K False by (intro nodes_told_last) simp_all
    ultimately show ?thesis using c1(3) by (intro exI conjI allI impI)
  next
    case True
    have ok: "level_ok l (mp_asil_b_capability c1)" using Suc.prems(4) c1(4) by simp
    obtain w' c' ps where IH: "NotifyEventRemote_loop n l e msg buf' (last buf' + 1) w1 c1 = Some (w', c')"
        "sent c' = sent c1 @ told l msg ps"
        "\<forall>L. (\<forall>m. I m \<longrightarrow> set (nodes_for e m) \<subseteq> L) \<longrightarrow> nodes_told n (last buf' + 1) K L ps"
      using Suc.IH [OF m(3) Suc.prems(2) len ok c1(2), of "last buf' + 1"] by (elim exE conjE) (rule that)
    have b: "take num buf' = buf'" using K True by simp
    have "NotifyEventRemote_loop (Suc n) l e msg buf start w c = Some (w', c')"
      using crit c1(1) True IH(1) by simp
    moreover have "sent c' = sent c @ told l msg (buf' @ ps)"
      using IH(2) c1(3) b by (simp add: told_append)
    moreover have "nodes_told (Suc n) start K L (buf' @ ps)" if "\<forall>m. I m \<longrightarrow> set (nodes_for e m) \<subseteq> L" for L
      using srt low L [OF that] len K True IH(3) that unfolding b by (intro nodes_told_further) simp_all
    ultimately show ?thesis by (intro exI conjI allI impI)
  qed
qed

definition handler_wf :: "'h notify_event_handler \<Rightarrow> bool" where
  "handler_wf h \<longleftrightarrow> senders_wf (mp_control h) \<and> asil_b_capability h = mp_asil_b_capability (mp_control h)"

text \<open>
  Property C17: however other threads change the sets of interested nodes in between,
  \<open>NotifyEventRemote\<close> sends its message to nodes in ascending order (so to none twice), to none that
  never was interested, and to at most 5100 of them (255 rounds of 20). Every node that stays
  interested is told, unless 5100 others have been told that have smaller identifiers.
\<close>

theorem remote_nodes_told_once:
  assumes "keeps I (control_data l h)" and "\<And>m. I m \<Longrightarrow> nodes_stay (fq_key ev) K m" and "K \<subseteq> {0..}"
    and "\<And>m. I m \<Longrightarrow> set (nodes_for (fq_key ev) m) \<subseteq> L"
    and "level_ok l (asil_b_capability h)" and "handler_wf h"
  shows "\<exists>h' ps. NotifyEventRemote l ev h = Some h' \<and>
    sent (mp_control h') = sent (mp_control h) @ told l (own_message kNotifyEvent ev h) ps \<and>
    sorted_wrt (<) ps \<and> set ps \<subseteq> L \<and> length ps \<le> 5100 \<and>
    (\<forall>p \<in> K. p \<in> set ps \<or> length ps = 5100 \<and> (\<forall>q \<in> set ps. q < p))"
proof -
  have len: "length (replicate NodeIdTmpBufferSize (0 :: int)) = NodeIdTmpBufferSize" by simp
  have wf: "level_ok l (mp_asil_b_capability (mp_control h))" "senders_wf (mp_control h)"
    using assms(5,6) by (simp_all add: handler_wf_def)
  have stay: "\<forall>m. I m \<longrightarrow> nodes_stay (fq_key ev) K m" using assms(2) by simp
  obtain w c ps where run: "NotifyEventRemote_loop 255 l (fq_key ev) (own_message kNotifyEvent ev h)
       (replicate NodeIdTmpBufferSize 0) 0 (control_data l h) (mp_control h) = Some (w, c)"
    and ps: "sent c = sent (mp_control h) @ told l (own_message kNotifyEvent ev h) ps"
    and all: "\<forall>L. (\<forall>m. I m \<longrightarrow> set (nodes_for (fq_key ev) m) \<subseteq> L) \<longrightarrow> nodes_told 255 0 K L ps"
    using NotifyEventRemote_loop_tells [OF assms(1) stay len wf, of 255 "own_message kNotifyEvent ev h" 0]
    by (elim exE conjE) (rule that)
  from all [rule_format, of L] have "nodes_told 255 0 K L ps" using assms(4) by simp
  then have told: "sorted_wrt (<) ps" "set ps \<subseteq> L" "length ps \<le> 5100"
    "\<forall>p \<in> K. 0 \<le> p \<longrightarrow> p \<in> set ps \<or> length ps = 5100 \<and> (\<forall>q \<in> set ps. q < p)"
    by (simp_all add: nodes_told_def NodeIdTmpBufferSize_def)
  then have "\<forall>p \<in> K. p \<in> set ps \<or> length ps = 5100 \<and> (\<forall>q \<in> set ps. q < p)"
    using assms(3) by auto
  with run ps told(1-3) show ?thesis
    by (intro exI [of _ "(put_control_data l w h)\<lparr>mp_control := c\<rparr>"] exI [of _ ps])
      (simp add: NotifyEventRemote_def)
qed

text \<open>A node leaves while the copy is made; the two others are told.\<close>

definition three_nodes :: "nat notify_event_handler" where
  "three_nodes = (NotifyEventHandler (MessagePassingControl False 0 1 True) False)
     \<lparr>control_data_qm := \<lparr>mem = EventNotificationControlData
          \<lparr>event_update_interested_nodes := [fq_key sample_element \<mapsto> [5, 6, 7]]\<rparr>,
        sched = [Tick (\<lambda>m. snd (remove_node (fq_key sample_element) 6 m)) False]\<rparr>\<rparr>"

lemma remove_node_stays: "nodes_stay e K m \<Longrightarrow> p \<notin> K \<Longrightarrow> nodes_stay e K (snd (remove_node e p m))"
proof -
  assume a: "nodes_stay e K m" "p \<notin> K"
  then have "nodes_for e (snd (remove_node e p m)) = filter (\<lambda>x. x \<noteq> p) (nodes_for e m)"
    by (auto simp: nodes_stay_def nodes_for_def remove_node_def distinct_remove1_removeAll
        removeAll_filter_not_eq strict_sorted_iff split: option.splits intro!: filter_cong)
  with a show ?thesis by (auto simp: nodes_stay_def sorted_wrt_filter)
qed

lemma remove_node_subset: "set (nodes_for e (snd (remove_node e p m))) \<subseteq> set (nodes_for e m)"
  by (auto simp: nodes_for_def remove_node_def split: option.splits dest: set_remove1_subset [THEN subsetD])

theorem remote_nodes_told_once_witness:
  "\<exists>h' ps. NotifyEventRemote kASIL_QM sample_element three_nodes = Some h' \<and>
     sent (mp_control h') = told kASIL_QM (own_message kNotifyEvent sample_element three_nodes) ps \<and>
     sorted_wrt (<) ps \<and> set ps = {5, 7}"
proof -
  let ?e = "fq_key sample_element"
  let ?I = "\<lambda>m :: nat event_notification_control. nodes_stay ?e {5, 7} m \<and> set (nodes_for ?e m) \<subseteq> {5, 6, 7}"
  have "nodes_stay ?e {5, 7} (snd (remove_node ?e 6 m)) \<and> set (nodes_for ?e (snd (remove_node ?e 6 m))) \<subseteq> {5, 6, 7}"
    if "?I m" for m
    using that remove_node_stays [of ?e "{5, 7}" m 6] remove_node_subset [of ?e 6 m] by auto
  then have "keeps ?I (control_data kASIL_QM three_nodes)"
    by (simp add: keeps_def rely_def control_data_def three_nodes_def)
      (simp add: nodes_stay_def nodes_for_def)
  moreover have "handler_wf three_nodes" "sent (mp_control three_nodes) = []"
    by (simp_all add: handler_wf_def three_nodes_def NotifyEventHandler_def)
      (simp_all add: MessagePassingControl_def)
  ultimately obtain h' ps where run: "NotifyEventRemote kASIL_QM sample_element three_nodes = Some h'"
    and ps: "sent (mp_control h') = told kASIL_QM (own_message kNotifyEvent sample_element three_nodes) ps"
      "sorted_wrt (<) ps" "set ps \<subseteq> {5, 6, 7}"
      "\<forall>p \<in> {5, 7}. p \<in> set ps \<or> length ps = 5100 \<and> (\<forall>q \<in> set ps. q < p)"
    using remote_nodes_told_once [of ?I kASIL_QM three_nodes sample_element "{5, 7}" "{5, 6, 7}"]
    by (auto simp: level_ok_def)
  obtain h'' where "NotifyEventRemote kASIL_QM sample_element three_nodes = Some h''"
      "length (sent (mp_control h'')) = 2"
  proof -
    note first_round = NotifyEventRemote_loop.simps(2) [where n = 254, simplified Suc_numeral Num.add_num_simps]
    show thesis
      using that
      by (simp add: first_round NotifyEventRemote_def three_nodes_def NotifyEventHandler_def control_data_def critical_def
          advance_def CopyNodeIdentifiers_def remove_node_def MessagePassingControl_def send_to_def
          GetMessagePassingSender_def CreateNewSender_def senders_of_def put_senders_def contract_simps
          NodeIdTmpBufferSize_def put_control_data_def Let_def)
  qed
  with run ps(1) have "length ps = 2" by (simp add: told_def)
  moreover from this ps(4) have "5 \<in> set ps" "7 \<in> set ps" by auto
  ultimately have "set ps = {5, 7}" by (auto simp: numeral_2_eq_2 length_Suc_conv)
  with run ps(1,2) show ?thesis by blast
qed

end
