(* ===== verification/Notification_Protocol.thy ===== *)
theory Notification_Protocol
  imports Event_Notification
begin

text \<open>
  Two processes: the proxies of one register and unregister handlers for an event that the other
  provides. The messages the first one sends are delivered in their order to the second one, through
  the serialisation of the payload. For any history of calls the provider is to notify the first
  process exactly while it has a handler registered: the counting of registrations, which saves
  messages, cannot be seen from outside. A re-registration at an unchanged node breaks the counting.
\<close>

subsection \<open>Histories and delivery\<close>

datatype 'h proxy_call = Call_Register 'h | Call_Unregister u32

fun run_call ::
    "QualityType \<Rightarrow> element_fq_id \<Rightarrow> int \<Rightarrow> 'h proxy_call \<Rightarrow> 'h notify_event_handler \<Rightarrow> 'h notify_event_handler run" where
  "run_call l ev target (Call_Register f) h = map_option snd (RegisterEventNotification l ev f target h)"
| "run_call l ev target (Call_Unregister n) h = UnregisterEventNotification l ev n target h"

definition receive_message ::
    "QualityType \<times> int \<times> short_message \<Rightarrow> 'h notify_event_handler \<Rightarrow> 'h notify_event_handler run" where
  "receive_message = (\<lambda>(l, target, msg) h.
     RegisterMessageReceivedCallbacks (\<lambda>_. False) l (msg_id msg) (msg_payload msg) (msg_pid msg) h)"

definition deliver ::
    "(QualityType \<times> int \<times> short_message) list \<Rightarrow> 'h notify_event_handler \<Rightarrow> 'h notify_event_handler run" where
  "deliver msgs h = fold_run receive_message msgs h"

definition new_handler :: "bool \<Rightarrow> int \<Rightarrow> 'h notify_event_handler" where
  "new_handler asil_b pid = NotifyEventHandler (MessagePassingControl asil_b 0 pid True) asil_b"

subsection \<open>What the messages do at the provider\<close>

lemma control_data_put [simp]:
  "level_ok l b \<Longrightarrow> control_data l (put_control_data l w h) = w"
  by (simp add: control_data_def put_control_data_def)

lemma put_control_data_frame [simp]:
  "mp_control (put_control_data l w h) = mp_control h"
  "asil_b_capability (put_control_data l w h) = asil_b_capability h"
  "control_data l (put_control_data l w h) = w"
  by (simp_all add: put_control_data_def control_data_def)

lemma put_control_data_twice [simp]:
  "put_control_data l w (put_control_data l v h) = put_control_data l w h"
  by (simp add: put_control_data_def)

lemma control_data_update [simp]:
  "control_data l (h\<lparr>mp_control := c\<rparr>) = control_data l h"
  by (simp add: control_data_def)

lemma message_parts [simp]:
  "msg_id (own_message t ev h) = message_type_value t"
  "msg_pid (own_message t ev h) = node_identifier (mp_control h)"
  "DeserializeToElementFqIdMessage (msg_payload (own_message t ev h)) p =
     Some \<lparr>element_fq_id = ev, sender_node_id = p\<rparr>"
  by (simp_all add: own_message_def SerializeElementFqIdMessage_def DeserializeToElementFqIdMessage_def
      payload_roundtrip)

text \<open>The provider is quiet and knows exactly the node \<open>p\<close> as interested, or none.\<close>

definition interest :: "QualityType \<Rightarrow> element_fq_id \<Rightarrow> int list \<Rightarrow> 'h notify_event_handler \<Rightarrow> bool" where
  "interest l ev ps h \<longleftrightarrow> quiet (control_data l h) \<and> level_ok l (asil_b_capability h) \<and>
     nodes_for (fq_key ev) (mem (control_data l h)) = ps"

lemma interest_quiet: "interest l ev ps h \<Longrightarrow> quiet (control_data l h)"
  by (simp add: interest_def)

lemma receive_register:
  assumes "interest l ev [] hp" and "p = node_identifier (mp_control h)"
  shows "\<exists>hp'. receive_message (l, t, own_message kRegisterEventNotifier ev h) hp = Some hp' \<and> interest l ev [p] hp'"
  using assms
  by (auto simp: receive_message_def RegisterMessageReceivedCallbacks_def HandleRegisterNotificationMsg_def
      interest_def require_level_def contract_simps add_node_def nodes_for_def Let_def insort_insert_key_def
      split: option.splits)

lemma receive_unregister:
  assumes "interest l ev [p] hp" and "p = node_identifier (mp_control h)"
  shows "\<exists>hp'. receive_message (l, t, own_message kUnregisterEventNotifier ev h) hp = Some hp' \<and> interest l ev [] hp'"
  using assms
  by (auto simp: receive_message_def RegisterMessageReceivedCallbacks_def HandleUnregisterNotificationMsg_def
      interest_def require_level_def contract_simps remove_node_def nodes_for_def Let_def message_type_value_def
      split: option.splits)

lemma deliver_append: "deliver (xs @ ys) h = do { h' \<leftarrow> deliver xs h; deliver ys h' }"
  by (simp add: deliver_def fold_run_append)

lemma deliver_one: "deliver [x] h = receive_message x h"
  by (cases "receive_message x h") (simp_all add: deliver_def)

subsection \<open>The invariant of both sides\<close>

definition counted :: "int \<Rightarrow> (u32 \<times> 'h) list \<Rightarrow> node_counter option" where
  "counted target hs =
     (if hs = [] then None else Some \<lparr>nc_node_id = target, counter = of_nat (length hs)\<rparr>)"

text \<open>\<open>k\<close> bounds the number of calls so far.\<close>

definition registered ::
    "QualityType \<Rightarrow> element_fq_id \<Rightarrow> int \<Rightarrow> nat \<Rightarrow> (u32 \<times> 'h) list \<Rightarrow> 'h notify_event_handler \<Rightarrow> bool" where
  "registered l ev target k hs h \<longleftrightarrow>
     (let m = mem (control_data l h)
      in quiet (control_data l h) \<and> handler_wf h \<and> level_ok l (asil_b_capability h) \<and>
         handlers_for (fq_key ev) m = hs \<and> ascending hs \<and>
         (\<forall>r \<in> set hs. fst r < cur_registration_no m) \<and> unat (cur_registration_no m) \<le> k \<and> length hs \<le> k \<and>
         event_update_remote_registrations m (fq_key ev) = counted target hs)"

text \<open>The message that tells the provider about the change of the handlers from \<open>hs\<close> to \<open>hs'\<close>.\<close>

definition announcement ::
    "QualityType \<Rightarrow> element_fq_id \<Rightarrow> int \<Rightarrow> 'h notify_event_handler \<Rightarrow> (u32 \<times> 'h) list \<Rightarrow> (u32 \<times> 'h) list \<Rightarrow>
     (QualityType \<times> int \<times> short_message) list" where
  "announcement l ev target h hs hs' =
     (if hs = [] \<and> hs' \<noteq> [] then [(l, target, own_message kRegisterEventNotifier ev h)]
      else if hs \<noteq> [] \<and> hs' = [] then [(l, target, own_message kUnregisterEventNotifier ev h)] else [])"

definition call_done ::
    "QualityType \<Rightarrow> element_fq_id \<Rightarrow> int \<Rightarrow> nat \<Rightarrow> (u32 \<times> 'h) list \<Rightarrow> 'h notify_event_handler \<Rightarrow>
     (u32 \<times> 'h) list \<Rightarrow> 'h notify_event_handler \<Rightarrow> bool" where
  "call_done l ev target k hs h hs' h' \<longleftrightarrow>
     registered l ev target (Suc k) hs' h' \<and> node_identifier (mp_control h') = node_identifier (mp_control h) \<and>
     sent (mp_control h') = sent (mp_control h) @ announcement l ev target h hs hs'"

lemma send_message_outcome:
  assumes "handler_wf h" and "level_ok l (asil_b_capability h)"
  obtains h' where "send_message l p msg h = Some h'" and "handler_wf h'" and "control_data l h' = control_data l h"
    and "asil_b_capability h' = asil_b_capability h"
    and "node_identifier (mp_control h') = node_identifier (mp_control h)"
    and "sent (mp_control h') = sent (mp_control h) @ [(l, p, msg)]"
proof -
  from assms have "level_ok l (mp_asil_b_capability (mp_control h))" "senders_wf (mp_control h)"
    by (simp_all add: handler_wf_def)
  then obtain c where c: "send_to l p msg (mp_control h) = Some c" "senders_wf c"
      "sent c = sent (mp_control h) @ [(l, p, msg)]"
      "mp_asil_b_capability c = mp_asil_b_capability (mp_control h)"
      "node_identifier c = node_identifier (mp_control h)"
    by (rule send_to_outcome)
  with assms(1) show thesis
    by (intro that [of "h\<lparr>mp_control := c\<rparr>"]) (simp_all add: send_message_def handler_wf_def)
qed

text \<open>Changing the control data and then sending, or not, is all that the calls do.\<close>

lemma handler_wf_put [simp]: "handler_wf (put_control_data l w h) = handler_wf h"
  by (simp add: handler_wf_def)

lemma own_message_put [simp]: "own_message t ev (put_control_data l w h) = own_message t ev h"
  by (simp add: own_message_def)

lemma update_and_send:
  assumes "registered l ev target k hs h"
    and "registered l ev target (Suc k) hs' (put_control_data l w h)"
    and "t = (if hs = [] then kRegisterEventNotifier else kUnregisterEventNotifier)"
    and "send \<longleftrightarrow> (hs = []) \<noteq> (hs' = [])"
  shows "\<exists>h'. (if send then send_message l target (own_message t ev h) (put_control_data l w h)
            else Some (put_control_data l w h)) = Some h' \<and> call_done l ev target k hs h hs' h'"
proof (cases send)
  case True
  have wf: "handler_wf (put_control_data l w h)" "level_ok l (asil_b_capability (put_control_data l w h))"
    using assms(2) by (simp_all add: registered_def Let_def)
  obtain h' where h': "send_message l target (own_message t ev h) (put_control_data l w h) = Some h'"
      "handler_wf h'" "control_data l h' = w" "asil_b_capability h' = asil_b_capability h"
      "node_identifier (mp_control h') = node_identifier (mp_control h)"
      "sent (mp_control h') = sent (mp_control h) @ [(l, target, own_message t ev h)]"
    by (rule send_message_outcome [OF wf, of target "own_message t ev h"]) simp
  with assms True show ?thesis
    by (auto simp: call_done_def announcement_def registered_def Let_def)
next
  case False
  with assms show ?thesis by (auto simp: call_done_def announcement_def)
qed

lemma of_nat_u16_less: "n < 65536 \<Longrightarrow> unat (of_nat n :: u16) = n"
  by (simp add: unat_of_nat)

lemma run_register:
  assumes reg: "registered l ev target k hs h" and "k < 65535" and "target \<noteq> node_identifier (mp_control h)"
  shows "\<exists>h' no. RegisterEventNotification l ev f target h = Some (no, h') \<and>
    call_done l ev target k hs h (hs @ [(no, f)]) h'"
proof -
  define m where "m = mem (control_data l h)"
  define no where "no = cur_registration_no m"
  let ?e = "fq_key ev" and ?hs = "hs @ [(no, f)]"
  have r: "quiet (control_data l h)" "handler_wf h" "level_ok l (asil_b_capability h)" "handlers_for ?e m = hs"
      "ascending hs" "\<forall>r \<in> set hs. fst r < no" "unat no \<le> k" "length hs \<le> k"
      "event_update_remote_registrations m ?e = counted target hs"
    using reg by (simp_all add: registered_def m_def no_def Let_def)
  have next_no: "unat (no + 1) = Suc (unat no)"
  proof -
    have "unat no + 1 < 2 ^ 32" using r(7) assms(2) by simp
    then show ?thesis by (simp add: unat_word_ariths)
  qed
  have ab: "add_handler ?e f m = (no, m\<lparr>cur_registration_no := no + 1,
      event_update_handlers := (event_update_handlers m)(?e \<mapsto> ?hs)\<rparr>)"
    by (simp add: add_handler_def no_def r(4) Let_def)
  let ?m1 = "snd (add_handler ?e f m)"
  let ?m2 = "?m1\<lparr>event_update_remote_registrations := (event_update_remote_registrations m)(?e \<mapsto> the (counted target ?hs))\<rparr>"
  have u: "unat (of_nat (length hs) :: u16) = length hs" using r(8) assms(2) by (simp add: of_nat_u16_less)
  have cnt: "(1 + of_nat (length hs) :: u16) = 1 \<longleftrightarrow> hs = []"
  proof -
    have "(1 + of_nat (length hs) :: u16) = 1 \<longleftrightarrow> (of_nat (length hs) :: u16) = 0" by simp
    also have "\<dots> \<longleftrightarrow> unat (of_nat (length hs) :: u16) = 0" by (rule unat_eq_0 [symmetric])
    finally show ?thesis unfolding u by simp
  qed
  have c2: "count_registration ?e target ?m1 = (of_nat (length ?hs), ?m2)"
    using r(9) by (cases "hs = []") (simp_all add: count_registration_def ab counted_def add.commute)
  let ?w = "(control_data l h)\<lparr>mem := ?m2\<rparr>"
  have "fst r < no + 1" if "r \<in> set ?hs" for r
    using that r(6) next_no by (auto simp: word_less_nat_alt less_Suc_eq)
  then have "registered l ev target (Suc k) ?hs (put_control_data l ?w h)"
    using r next_no unfolding registered_def Let_def
    by (simp add: ab handlers_for_def ascending_snoc counted_def)
  from update_and_send [OF reg this refl refl] obtain h'
    where h': "(if (hs = []) \<noteq> (?hs = []) then send_message l target
        (own_message (if hs = [] then kRegisterEventNotifier else kUnregisterEventNotifier) ev h)
        (put_control_data l ?w h) else Some (put_control_data l ?w h)) = Some h'"
      "call_done l ev target k hs h ?hs h'" by blast
  have "RegisterEventNotification l ev f target h = Some (no, h')"
    using h'(1) r(1,3) assms(3) c2 cnt
    by (simp add: RegisterEventNotification_def require_level_def contract_simps m_def [symmetric] ab
        RegisterEventNotificationRemote_def SendRegisterEventNotificationMessage_def Let_def
        cnt split: if_splits)
  with h'(2) show ?thesis by blast
qed

text \<open>Removing a handler that is not there, and one that is.\<close>

lemma remove_handler_missing:
  assumes "handlers_for e m = hs" and "ascending hs" and "n \<notin> fst ` set hs"
  shows "remove_handler e n m = (False, m)"
proof (cases "event_update_handlers m e")
  case (Some hs')
  with assms(1) have stored: "event_update_handlers m e = Some hs" by (simp add: handlers_for_def)
  moreover have "(event_update_handlers m)(e \<mapsto> hs) = event_update_handlers m"
    using stored by (simp add: fun_upd_idem)
  moreover have "filter (\<lambda>r. fst r \<noteq> n) hs = hs" using assms(3) by (auto simp: filter_id_conv)
  ultimately show ?thesis
    using assms(2,3) by (simp add: remove_handler_def erase_registration_filter)
qed (simp add: remove_handler_def)

lemma remove_handler_found:
  assumes "handlers_for e m = hs" and "ascending hs" and "n \<in> fst ` set hs"
  shows "remove_handler e n m = (True, m\<lparr>event_update_handlers := (event_update_handlers m)
      (e \<mapsto> filter (\<lambda>r. fst r \<noteq> n) hs)\<rparr>)"
    and "length hs = Suc (length (filter (\<lambda>r. fst r \<noteq> n) hs))"
proof -
  have "hs \<noteq> []" using assms(3) by auto
  then have stored: "event_update_handlers m e = Some hs"
    using assms(1) by (auto simp: handlers_for_def split: option.splits)
  show "remove_handler e n m = (True, m\<lparr>event_update_handlers := (event_update_handlers m)
      (e \<mapsto> filter (\<lambda>r. fst r \<noteq> n) hs)\<rparr>)"
    using assms(2,3) by (simp add: remove_handler_def stored erase_registration_filter)
  obtain y where y: "y \<in> set hs" "fst y = n" using assms(3) by auto
  from split_list [OF y(1)] obtain xs zs where hs: "hs = xs @ y # zs" by blast
  then have "\<forall>x \<in> set xs \<union> set zs. fst x \<noteq> n"
    using assms(2) y(2) by (auto simp: sorted_wrt_append)
  then show "length hs = Suc (length (filter (\<lambda>r. fst r \<noteq> n) hs))" using y(2) by (simp add: hs filter_id_conv)
qed

lemma run_unregister:
  assumes reg: "registered l ev target k hs h" and "k < 65535" and "target \<noteq> node_identifier (mp_control h)"
  shows "\<exists>h'. UnregisterEventNotification l ev n target h = Some h' \<and>
    call_done l ev target k hs h (filter (\<lambda>r. fst r \<noteq> n) hs) h'"
proof -
  define m where "m = mem (control_data l h)"
  let ?e = "fq_key ev" and ?hs = "filter (\<lambda>r. fst r \<noteq> n) hs" and ?w = "control_data l h"
  have r: "quiet ?w" "handler_wf h" "level_ok l (asil_b_capability h)" "handlers_for ?e m = hs"
      "ascending hs" "\<forall>r \<in> set hs. fst r < cur_registration_no m" "unat (cur_registration_no m) \<le> k" "length hs \<le> k"
      "event_update_remote_registrations m ?e = counted target hs"
    using reg by (simp_all add: registered_def m_def Let_def)
  have mem: "?w\<lparr>mem := m\<rparr> = ?w" by (simp add: m_def)
  show ?thesis
  proof (cases "n \<in> fst ` set hs")
    case False
    then have same: "?hs = hs" by (auto simp: filter_id_conv)
    have "remove_handler ?e n m = (False, m)" using r(4,5) False by (rule remove_handler_missing)
    then have "UnregisterEventNotification l ev n target h = Some (put_control_data l ?w h)"
      using r(1,3) by (simp add: UnregisterEventNotification_def SearchHandlerForNotification_def
          require_level_def contract_simps m_def)
    moreover have "put_control_data l ?w h = h" by (simp add: put_control_data_def control_data_def)
    moreover have "registered l ev target (Suc k) hs h"
      using reg by (auto simp: registered_def Let_def)
    ultimately show ?thesis by (simp add: same call_done_def announcement_def)
  next
    case True
    then have ne: "hs \<noteq> []" by auto
    have one: "length ?hs + 1 = length hs" using remove_handler_found(2) [OF r(4,5) True] by simp
    let ?m1 = "m\<lparr>event_update_handlers := (event_update_handlers m)(?e \<mapsto> ?hs)\<rparr>"
    let ?m2 = "?m1\<lparr>event_update_remote_registrations := (event_update_remote_registrations m)(?e := counted target ?hs)\<rparr>"
    have rm: "remove_handler ?e n m = (True, ?m1)"
      using r(4,5) True by (rule remove_handler_found)
    have cnt: "counted target hs = Some \<lparr>nc_node_id = target, counter = of_nat (length ?hs) + 1\<rparr>"
      using ne by (simp add: counted_def one [symmetric])
    have u: "unat (of_nat (length ?hs) + 1 :: u16) = length hs" "unat (of_nat (length ?hs) :: u16) = length ?hs"
      using r(8) assms(2) one by (simp_all add: of_nat_u16_less unat_word_ariths)
    then have nz: "(of_nat (length ?hs) + 1 :: u16) \<noteq> 0" "(of_nat (length ?hs) :: u16) = 0 \<longleftrightarrow> ?hs = []"
      using ne unat_eq_0 [of "of_nat (length ?hs) :: u16"] by auto
    have uc: "uncount_registration ?e target ?m1 = (Some (?hs = []), ?m2)"
      using r(9) cnt nz by (cases "?hs = []") (simp_all add: uncount_registration_def counted_def)
    let ?w2 = "?w\<lparr>mem := ?m2\<rparr>"
    have "registered l ev target (Suc k) ?hs (put_control_data l ?w2 h)"
      using r one unfolding registered_def Let_def
      by (auto simp: handlers_for_def sorted_wrt_filter)
    from update_and_send [OF reg this refl refl] obtain h'
      where h': "(if (hs = []) \<noteq> (?hs = []) then send_message l target
          (own_message (if hs = [] then kRegisterEventNotifier else kUnregisterEventNotifier) ev h)
          (put_control_data l ?w2 h) else Some (put_control_data l ?w2 h)) = Some h'"
        "call_done l ev target k hs h ?hs h'" by blast
    have "UnregisterEventNotification l ev n target h = Some h'"
      using h'(1) ne r(1,3) assms(3) uc
      by (simp add: UnregisterEventNotification_def SearchHandlerForNotification_def require_level_def
          contract_simps m_def [symmetric] rm UnregisterEventNotificationRemote_def split: if_splits)
    with h'(2) show ?thesis by blast
  qed
qed

lemma run_call_done:
  assumes "registered l ev target k hs h" and "k < 65535" and "target \<noteq> node_identifier (mp_control h)"
  shows "\<exists>h' hs'. run_call l ev target c h = Some h' \<and> call_done l ev target k hs h hs' h'"
proof (cases c)
  case (Call_Register f)
  with run_register [OF assms, of f] show ?thesis by fastforce
next
  case (Call_Unregister n)
  with run_unregister [OF assms, of n] show ?thesis by auto
qed

lemma receive_announcement:
  assumes "interest l ev (if hs = [] then [] else [node_identifier (mp_control h)]) hp"
  shows "\<exists>hp'. deliver (announcement l ev target h hs hs') hp = Some hp' \<and>
    interest l ev (if hs' = [] then [] else [node_identifier (mp_control h)]) hp'"
proof -
  consider "hs = []" "hs' \<noteq> []" | "hs \<noteq> []" "hs' = []" | "(hs = []) = (hs' = [])" by blast
  then show ?thesis
  proof cases
    case 1
    with assms receive_register [of l ev hp _ h target] show ?thesis
      by (simp add: announcement_def deliver_one)
  next
    case 2
    with assms receive_unregister [of l ev _ hp h target] show ?thesis
      by (simp add: announcement_def deliver_one)
  next
    case 3
    with assms show ?thesis by (auto simp: announcement_def deliver_def)
  qed
qed

lemma history_announced:
  assumes "registered l ev target k hs h" and "k + length cs < 65536" and "target \<noteq> p"
    and "node_identifier (mp_control h) = p" and "interest l ev (if hs = [] then [] else [p]) hp"
    and "deliver (sent (mp_control h)) hp0 = Some hp"
  shows "\<exists>h' hs' hp'. fold_run (run_call l ev target) cs h = Some h' \<and>
    registered l ev target (k + length cs) hs' h' \<and> node_identifier (mp_control h') = p \<and>
    deliver (sent (mp_control h')) hp0 = Some hp' \<and> interest l ev (if hs' = [] then [] else [p]) hp'"
  using assms
proof (induction cs arbitrary: k hs h hp)
  case Nil
  from Nil.prems(1,4,5,6) show ?case
    by (intro exI [of _ h] exI [of _ hs] exI [of _ hp]) simp
next
  case (Cons c cs)
  have "k < 65535" "target \<noteq> node_identifier (mp_control h)"
    using Cons.prems(2) Cons.prems(3) unfolding Cons.prems(4) by simp_all
  from run_call_done [OF Cons.prems(1) this, of c] obtain h1 hs1
    where h1: "run_call l ev target c h = Some h1" "call_done l ev target k hs h hs1 h1" by (elim exE conjE)
  have "interest l ev (if hs = [] then [] else [node_identifier (mp_control h)]) hp"
    unfolding Cons.prems(4) by (rule Cons.prems(5))
  from receive_announcement [OF this, of target hs1, unfolded Cons.prems(4)] obtain hp1 where hp1: "deliver (announcement l ev target h hs hs1) hp = Some hp1"
      "interest l ev (if hs1 = [] then [] else [p]) hp1"
    by (elim exE conjE)
  have del: "deliver (sent (mp_control h1)) hp0 = Some hp1"
    using h1(2) hp1(1) Cons.prems(6) by (simp add: call_done_def deliver_append)
  have done1: "registered l ev target (Suc k) hs1 h1" "node_identifier (mp_control h1) = p"
    using h1(2) Cons.prems(4) by (simp_all add: call_done_def)
  have len: "Suc k + length cs < 65536" using Cons.prems(2) by simp
  from Cons.IH [OF done1(1) len Cons.prems(3) done1(2) hp1(2) del] obtain h' hs' hp'
    where fin: "fold_run (run_call l ev target) cs h1 = Some h'"
      "registered l ev target (Suc k + length cs) hs' h'" "node_identifier (mp_control h') = p"
      "deliver (sent (mp_control h')) hp0 = Some hp'" "interest l ev (if hs' = [] then [] else [p]) hp'"
    by (elim exE conjE)
  have "fold_run (run_call l ev target) (c # cs) h = Some h'" using fin(1) h1(1) by simp
  moreover have "registered l ev target (k + length (c # cs)) hs' h'" using fin(2) by simp
  ultimately show ?case using fin(3-5) by (intro exI conjI)
qed

lemma history_from_start:
  assumes "length cs < 65536" and "target \<noteq> p" and "level_ok l client_b" and "level_ok l provider_b"
  shows "\<exists>h hs hp. fold_run (run_call l ev target) cs (new_handler client_b p) = Some h \<and>
    registered l ev target (length cs) hs h \<and> node_identifier (mp_control h) = p \<and>
    deliver (sent (mp_control h)) (new_handler provider_b target :: 'c notify_event_handler) = Some hp \<and>
    interest l ev (if hs = [] then [] else [p]) hp"
proof -
  let ?h = "new_handler client_b p" and ?hp = "new_handler provider_b target :: 'c notify_event_handler"
  have "registered l ev target 0 [] ?h"
    using assms(3)
    by (auto simp: registered_def new_handler_def NotifyEventHandler_def control_data_def handler_wf_def
        EventNotificationControlData_def handlers_for_def counted_def Let_def)
      (simp_all add: MessagePassingControl_def)
  moreover have "interest l ev [] ?hp"
    using assms(4)
    by (auto simp: interest_def new_handler_def NotifyEventHandler_def control_data_def nodes_for_def
        EventNotificationControlData_def)
  moreover have "deliver (sent (mp_control ?h)) ?hp = Some ?hp" "node_identifier (mp_control ?h) = p"
    by (simp_all add: new_handler_def NotifyEventHandler_def MessagePassingControl_def deliver_def)
  ultimately obtain h hs hp where "fold_run (run_call l ev target) cs ?h = Some h"
      "registered l ev target (length cs) hs h" "node_identifier (mp_control h) = p"
      "deliver (sent (mp_control h)) ?hp = Some hp" "interest l ev (if hs = [] then [] else [p]) hp"
    using history_announced [of l ev target 0 "[]" ?h cs p ?hp ?hp] assms(1,2) by auto
  then show ?thesis by blast
qed

text \<open>
  Property C12: after any history of up to 65535 registrations and unregistrations for an event of
  another node (also of unknown numbers), and after the delivery of all messages that were sent, the
  provider is to notify this process exactly if it has a handler registered; neither process ends.
\<close>

theorem remote_interest_follows_registrations:
  assumes "length cs < 65536" and "target \<noteq> p" and "level_ok l client_b" and "level_ok l provider_b"
  shows "\<exists>h hp. fold_run (run_call l ev target) cs (new_handler client_b p) = Some h \<and>
    deliver (sent (mp_control h)) (new_handler provider_b target :: 'c notify_event_handler) = Some hp \<and>
    nodes_for (fq_key ev) (mem (control_data l hp)) =
      (if handlers_for (fq_key ev) (mem (control_data l h)) = [] then [] else [p])"
proof -
  obtain h hs hp where "fold_run (run_call l ev target) cs (new_handler client_b p) = Some h"
      "registered l ev target (length cs) hs h"
      "deliver (sent (mp_control h)) (new_handler provider_b target :: 'c notify_event_handler) = Some hp"
      "interest l ev (if hs = [] then [] else [p]) hp"
    using history_from_start [OF assms, of ev] by blast
  then show ?thesis by (auto simp: registered_def interest_def Let_def)
qed

theorem remote_interest_follows_registrations_witness:
  "\<exists>h hp. fold_run (run_call kASIL_QM sample_element 2) [Call_Register ''a'', Call_Register ''b'', Call_Unregister 0]
       (new_handler False 1) = Some h \<and>
     deliver (sent (mp_control h)) (new_handler False 2 :: string notify_event_handler) = Some hp \<and>
     nodes_for (fq_key sample_element) (mem (control_data kASIL_QM hp)) =
      (if handlers_for (fq_key sample_element) (mem (control_data kASIL_QM h)) = [] then [] else [1])"
  by (rule remote_interest_follows_registrations) (simp_all add: level_ok_def)

subsection \<open>Counting one registration too many\<close>

text \<open>The state after a re-registration at the same node: there is one registration that no handler has.\<close>

definition overcounted ::
    "QualityType \<Rightarrow> element_fq_id \<Rightarrow> int \<Rightarrow> (u32 \<times> 'h) list \<Rightarrow> 'h notify_event_handler \<Rightarrow> bool" where
  "overcounted l ev target hs h \<longleftrightarrow>
     (let m = mem (control_data l h)
      in quiet (control_data l h) \<and> level_ok l (asil_b_capability h) \<and> target \<noteq> node_identifier (mp_control h) \<and>
         handlers_for (fq_key ev) m = hs \<and> ascending hs \<and> length hs < 65535 \<and>
         event_update_remote_registrations m (fq_key ev) =
           Some \<lparr>nc_node_id = target, counter = of_nat (length hs) + 1\<rparr>)"

lemma reregister_overcounts:
  assumes "registered l ev target k hs h" and "hs \<noteq> []" and "k < 65535" and "target \<noteq> node_identifier (mp_control h)"
  shows "\<exists>h'. ReregisterEventNotification l ev target h = Some h' \<and> overcounted l ev target hs h' \<and>
    mp_control h' = mp_control h"
proof -
  have r: "quiet (control_data l h)" "level_ok l (asil_b_capability h)"
      "handlers_for (fq_key ev) (mem (control_data l h)) = hs" "ascending hs" "length hs \<le> k"
      "event_update_remote_registrations (mem (control_data l h)) (fq_key ev) = counted target hs"
    using assms(1) by (simp_all add: registered_def Let_def)
  have known: "event_update_handlers (mem (control_data l h)) (fq_key ev) \<noteq> None"
    using r(3) assms(2) by (cases "event_update_handlers (mem (control_data l h)) (fq_key ev)") (auto simp: handlers_for_def)
  have cnt: "counted target hs = Some \<lparr>nc_node_id = target, counter = of_nat (length hs)\<rparr>"
    using assms(2) by (simp add: counted_def)
  have len: "length hs < 65535" using r(5) assms(3) by simp
  show ?thesis
    using r(1-4,6) known cnt len assms(4)
    by (auto simp: ReregisterEventNotification_def require_level_def contract_simps recount_registration_def
        overcounted_def handlers_for_def Let_def)
qed

lemma overcounted_unregister:
  assumes "overcounted l ev target hs h"
  shows "\<exists>h'. UnregisterEventNotification l ev n target h = Some h' \<and>
    overcounted l ev target (filter (\<lambda>r. fst r \<noteq> n) hs) h' \<and> mp_control h' = mp_control h"
proof -
  define m where "m = mem (control_data l h)"
  let ?e = "fq_key ev" and ?hs = "filter (\<lambda>r. fst r \<noteq> n) hs" and ?w = "control_data l h"
  have r: "quiet ?w" "level_ok l (asil_b_capability h)" "target \<noteq> node_identifier (mp_control h)"
      "handlers_for ?e m = hs" "ascending hs" "length hs < 65535"
      "event_update_remote_registrations m ?e = Some \<lparr>nc_node_id = target, counter = of_nat (length hs) + 1\<rparr>"
    using assms by (simp_all add: overcounted_def m_def Let_def)
  show ?thesis
  proof (cases "n \<in> fst ` set hs")
    case False
    then have same: "?hs = hs" by (auto simp: filter_id_conv)
    have "remove_handler ?e n m = (False, m)" using r(4,5) False by (rule remove_handler_missing)
    then have "UnregisterEventNotification l ev n target h = Some (put_control_data l ?w h)"
      using r(1,2) by (simp add: UnregisterEventNotification_def SearchHandlerForNotification_def
          require_level_def contract_simps m_def)
    moreover have "put_control_data l ?w h = h" by (simp add: put_control_data_def control_data_def)
    ultimately show ?thesis using assms by (simp add: same)
  next
    case True
    note found = remove_handler_found [OF r(4,5) True]
    have "unat (of_nat (length hs) :: u16) = length hs" using r(6) by (simp add: of_nat_u16_less)
    then have u: "unat (of_nat (length hs) :: u16) = length hs" "unat (of_nat (length hs) + 1 :: u16) = Suc (length hs)"
      using r(6) by (simp_all add: unat_word_ariths)
    then have nz: "(of_nat (length hs) + 1 :: u16) \<noteq> 0" "(of_nat (length hs) :: u16) \<noteq> 0"
      using found(2) by (metis Zero_not_Suc unat_0)+
    let ?m1 = "m\<lparr>event_update_handlers := (event_update_handlers m)(?e \<mapsto> ?hs)\<rparr>"
    let ?m2 = "?m1\<lparr>event_update_remote_registrations := (event_update_remote_registrations m)
        (?e \<mapsto> \<lparr>nc_node_id = target, counter = of_nat (length hs)\<rparr>)\<rparr>"
    have uc: "uncount_registration ?e target ?m1 = (Some False, ?m2)"
      using r(7) nz by (simp add: uncount_registration_def)
    have "UnregisterEventNotification l ev n target h = Some (put_control_data l (?w\<lparr>mem := ?m2\<rparr>) h)"
      using r(1-3) found(1) uc
      by (simp add: UnregisterEventNotification_def SearchHandlerForNotification_def require_level_def
          contract_simps m_def [symmetric] UnregisterEventNotificationRemote_def)
    moreover have "overcounted l ev target ?hs (put_control_data l (?w\<lparr>mem := ?m2\<rparr>) h)"
      using r found(2) by (simp add: overcounted_def handlers_for_def sorted_wrt_filter Let_def)
    ultimately show ?thesis by simp
  qed
qed

lemma overcounted_unregister_all:
  "overcounted l ev target hs h \<Longrightarrow>
     \<exists>h'. fold_run (run_call l ev target) (map Call_Unregister ns) h = Some h' \<and>
       overcounted l ev target (filter (\<lambda>r. fst r \<notin> set ns) hs) h' \<and> mp_control h' = mp_control h"
proof (induction ns arbitrary: h hs)
  case (Cons n ns)
  from overcounted_unregister [OF Cons.prems, of n] obtain h1
    where h1: "UnregisterEventNotification l ev n target h = Some h1"
      "overcounted l ev target (filter (\<lambda>r. fst r \<noteq> n) hs) h1" "mp_control h1 = mp_control h" by blast
  from Cons.IH [OF h1(2)] obtain h2
    where h2: "fold_run (run_call l ev target) (map Call_Unregister ns) h1 = Some h2"
      "overcounted l ev target (filter (\<lambda>r. fst r \<notin> set ns) (filter (\<lambda>r. fst r \<noteq> n) hs)) h2"
      "mp_control h2 = mp_control h1" by blast
  have "filter (\<lambda>r. fst r \<notin> set ns) (filter (\<lambda>r. fst r \<noteq> n) hs) = filter (\<lambda>r. fst r \<notin> set (n # ns)) hs"
    by (simp add: conj_commute)
  with h1 h2 show ?case by simp
qed simp

text \<open>
  Property C27: registrations are lost track of when an event is re-registered at the node where it
  already is, which happens when the provider stops and restarts its offer without a restart of its
  process: \<open>ReregisterEventNotification\<close> counts a registration that no handler has. So after any
  history of calls that leaves a handler registered, such a re-registration, and the unregistration
  of all handlers, there is no handler left, but the provider has not been told, and for good is to
  notify this process.
\<close>

theorem reregistration_leaks_interest:
  assumes "length cs < 65535" and "target \<noteq> p" and "level_ok l client_b" and "level_ok l provider_b"
    and "fold_run (run_call l ev target) cs (new_handler client_b p) = Some h"
    and "handlers_for (fq_key ev) (mem (control_data l h)) \<noteq> []"
    and "fst ` set (handlers_for (fq_key ev) (mem (control_data l h))) \<subseteq> set ns"
  shows "\<exists>h1 h2 hp. ReregisterEventNotification l ev target h = Some h1 \<and>
    fold_run (run_call l ev target) (map Call_Unregister ns) h1 = Some h2 \<and>
    handlers_for (fq_key ev) (mem (control_data l h2)) = [] \<and>
    sent (mp_control h2) = sent (mp_control h) \<and>
    deliver (sent (mp_control h2)) (new_handler provider_b target :: 'c notify_event_handler) = Some hp \<and>
    nodes_for (fq_key ev) (mem (control_data l hp)) = [p]"
proof -
  let ?hp = "new_handler provider_b target :: 'c notify_event_handler"
  obtain hs hp where run: "registered l ev target (length cs) hs h" "node_identifier (mp_control h) = p"
      "deliver (sent (mp_control h)) ?hp = Some hp" "interest l ev (if hs = [] then [] else [p]) hp"
    using history_from_start [of cs target p l client_b provider_b ev] assms(1-5) by auto
  then have hs: "hs = handlers_for (fq_key ev) (mem (control_data l h))" "hs \<noteq> []"
    using assms(6) by (auto simp: registered_def Let_def)
  from reregister_overcounts [OF run(1) hs(2) assms(1)] obtain h1
    where h1: "ReregisterEventNotification l ev target h = Some h1" "overcounted l ev target hs h1"
      "mp_control h1 = mp_control h" using assms(2) run(2) by auto
  from overcounted_unregister_all [OF h1(2), of ns] obtain h2
    where h2: "fold_run (run_call l ev target) (map Call_Unregister ns) h1 = Some h2"
      "overcounted l ev target (filter (\<lambda>r. fst r \<notin> set ns) hs) h2" "mp_control h2 = mp_control h1" by blast
  have "filter (\<lambda>r. fst r \<notin> set ns) hs = []" using assms(7) by (auto simp: filter_empty_conv hs(1))
  then have "handlers_for (fq_key ev) (mem (control_data l h2)) = []"
    using h2(2) by (simp add: overcounted_def Let_def)
  moreover have "nodes_for (fq_key ev) (mem (control_data l hp)) = [p]" using run(4) hs(2) by (simp add: interest_def)
  ultimately show ?thesis using h1 h2 run(3) by auto
qed

theorem reregistration_leaks_interest_witness:
  "\<exists>h h1 h2 hp. fold_run (run_call kASIL_QM sample_element 2) [Call_Register ''a'', Call_Register ''b''] (new_handler False 1) = Some h \<and>
    ReregisterEventNotification kASIL_QM sample_element 2 h = Some h1 \<and>
    fold_run (run_call kASIL_QM sample_element 2) (map Call_Unregister [0, 1]) h1 = Some h2 \<and>
    handlers_for (fq_key sample_element) (mem (control_data kASIL_QM h2)) = [] \<and>
    deliver (sent (mp_control h2)) (new_handler False 2 :: string notify_event_handler) = Some hp \<and>
    nodes_for (fq_key sample_element) (mem (control_data kASIL_QM hp)) = [1]"
proof -
  obtain h :: "string notify_event_handler" where
    run: "fold_run (run_call kASIL_QM sample_element 2) [Call_Register ''a'', Call_Register ''b''] (new_handler False 1) = Some h"
    and hs: "handlers_for (fq_key sample_element) (mem (control_data kASIL_QM h)) = [(0, ''a''), (1, ''b'')]"
    by (simp add: new_handler_def NotifyEventHandler_def MessagePassingControl_def EventNotificationControlData_def
        control_data_def put_control_data_def require_level_def level_ok_def contract_simps Let_def
        RegisterEventNotification_def add_handler_def RegisterEventNotificationRemote_def
        count_registration_def SendRegisterEventNotificationMessage_def send_message_def send_to_def
        GetMessagePassingSender_def CreateNewSender_def senders_of_def put_senders_def handlers_for_def)
  show ?thesis
    using reregistration_leaks_interest [OF _ _ _ _ run, of False "[0, 1]"] run by (auto simp: hs level_ok_def)
qed

end
