(* ===== verification/Messaging_Service.thy ===== *)
theory Messaging_Service
  imports Notification_Protocol
begin

text \<open>
  \<open>IMessagePassingService\<close> (messaging/i_message_passing_service.h), the interface through which the
  proxies and skeletons of a process use the messages, and \<open>MessagePassingFacade\<close>
  (messaging/message_passing_facade.h/.cpp), its implementation, which forwards every call to the
  \<open>NotifyEventHandler\<close>. The threads and the receivers that the facade creates are not modelled.

  The locale \<open>event_messaging\<close> states what a client relies on for one event: a registration returns a
  fresh number and makes the handler live, an unregistration makes it not live any more, a
  re-registration keeps the live handlers; none of them ends the process within the first 32766
  calls, after which a counter may wrap around.
\<close>

subsection \<open>Definitions\<close>

record ('h, 's) messaging_service =
  ms_RegisterEventNotification :: "QualityType \<Rightarrow> element_fq_id \<Rightarrow> 'h \<Rightarrow> int \<Rightarrow> 's \<Rightarrow> (u32 \<times> 's) run"
  ms_ReregisterEventNotification :: "QualityType \<Rightarrow> element_fq_id \<Rightarrow> int \<Rightarrow> 's \<Rightarrow> 's run"
  ms_UnregisterEventNotification :: "QualityType \<Rightarrow> element_fq_id \<Rightarrow> u32 \<Rightarrow> int \<Rightarrow> 's \<Rightarrow> 's run"

record 'h message_passing_facade =
  notify_event_handler :: "'h notify_event_handler"

definition on_handler ::
    "('h notify_event_handler \<Rightarrow> ('a \<times> 'h notify_event_handler) run) \<Rightarrow>
     'h message_passing_facade \<Rightarrow> ('a \<times> 'h message_passing_facade) run" where
  "on_handler f s = do {
     (r, h) \<leftarrow> f (notify_event_handler s);
     Some (r, s\<lparr>notify_event_handler := h\<rparr>) }"

definition Facade_NotifyEvent ::
    "QualityType \<Rightarrow> element_fq_id \<Rightarrow> 'h message_passing_facade \<Rightarrow> 'h message_passing_facade run" where
  "Facade_NotifyEvent l ev s =
     map_option snd (on_handler (\<lambda>h. map_option (Pair ()) (NotifyEvent l ev h)) s)"

definition Facade_RegisterEventNotification ::
    "QualityType \<Rightarrow> element_fq_id \<Rightarrow> 'h \<Rightarrow> int \<Rightarrow> 'h message_passing_facade \<Rightarrow> (u32 \<times> 'h message_passing_facade) run" where
  "Facade_RegisterEventNotification l ev f target s = on_handler (RegisterEventNotification l ev f target) s"

definition Facade_ReregisterEventNotification ::
    "QualityType \<Rightarrow> element_fq_id \<Rightarrow> int \<Rightarrow> 'h message_passing_facade \<Rightarrow> 'h message_passing_facade run" where
  "Facade_ReregisterEventNotification l ev target s =
     map_option snd (on_handler (\<lambda>h. map_option (Pair ()) (ReregisterEventNotification l ev target h)) s)"

definition Facade_UnregisterEventNotification ::
    "QualityType \<Rightarrow> element_fq_id \<Rightarrow> u32 \<Rightarrow> int \<Rightarrow> 'h message_passing_facade \<Rightarrow> 'h message_passing_facade run" where
  "Facade_UnregisterEventNotification l ev n target s =
     map_option snd (on_handler (\<lambda>h. map_option (Pair ()) (UnregisterEventNotification l ev n target h)) s)"

definition Facade_NotifyOutdatedNodeId ::
    "QualityType \<Rightarrow> int \<Rightarrow> int \<Rightarrow> 'h message_passing_facade \<Rightarrow> 'h message_passing_facade run" where
  "Facade_NotifyOutdatedNodeId l outdated target s =
     map_option snd (on_handler (\<lambda>h. map_option (Pair ()) (NotifyOutdatedNodeId l outdated target h)) s)"

definition lola_messaging :: "('h, 'h message_passing_facade) messaging_service" where
  "lola_messaging =
     \<lparr>ms_RegisterEventNotification = Facade_RegisterEventNotification,
      ms_ReregisterEventNotification = Facade_ReregisterEventNotification,
      ms_UnregisterEventNotification = Facade_UnregisterEventNotification\<rparr>"

lemma facade_calls:
  "Facade_RegisterEventNotification l ev f t s =
     map_option (\<lambda>(n, h). (n, s\<lparr>notify_event_handler := h\<rparr>)) (RegisterEventNotification l ev f t (notify_event_handler s))"
  "Facade_ReregisterEventNotification l ev t s =
     map_option (\<lambda>h. s\<lparr>notify_event_handler := h\<rparr>) (ReregisterEventNotification l ev t (notify_event_handler s))"
  "Facade_UnregisterEventNotification l ev n t s =
     map_option (\<lambda>h. s\<lparr>notify_event_handler := h\<rparr>) (UnregisterEventNotification l ev n t (notify_event_handler s))"
  by (auto simp: Facade_RegisterEventNotification_def Facade_ReregisterEventNotification_def
      Facade_UnregisterEventNotification_def on_handler_def map_option_case split: option.splits)

subsection \<open>The contract\<close>

locale event_messaging =
  fixes reg :: "'h \<Rightarrow> int \<Rightarrow> 's \<Rightarrow> (u32 \<times> 's) run"
    and rereg :: "int \<Rightarrow> 's \<Rightarrow> 's run"
    and unreg :: "u32 \<Rightarrow> int \<Rightarrow> 's \<Rightarrow> 's run"
    and inv :: "nat \<Rightarrow> 's \<Rightarrow> bool"
    and live :: "'s \<Rightarrow> (u32 \<times> 'h) set"
  assumes register_law: "inv k s \<Longrightarrow> k < 65533 \<Longrightarrow>
      \<exists>n s'. reg f t s = Some (n, s') \<and> inv (k + 2) s' \<and> n \<notin> fst ` live s \<and> live s' = insert (n, f) (live s)"
    and reregister_law: "inv k s \<Longrightarrow> k < 65533 \<Longrightarrow>
      \<exists>s'. rereg t s = Some s' \<and> inv (k + 2) s' \<and> live s' = live s"
    and unregister_law: "inv k s \<Longrightarrow> k < 65533 \<Longrightarrow>
      \<exists>s'. unreg n t s = Some s' \<and> inv (k + 2) s' \<and> live s' = {r \<in> live s. fst r \<noteq> n}"
    and inv_mono: "inv k s \<Longrightarrow> k \<le> k' \<Longrightarrow> inv k' s"

subsection \<open>The notification handler fulfils it\<close>

definition handlers_inv :: "QualityType \<Rightarrow> element_fq_id \<Rightarrow> nat \<Rightarrow> 'h notify_event_handler \<Rightarrow> bool" where
  "handlers_inv l ev k h \<longleftrightarrow>
     (let m = mem (control_data l h)
      in quiet (control_data l h) \<and> handler_wf h \<and> level_ok l (asil_b_capability h) \<and>
         registrations_stay (fq_key ev) {} m \<and> unat (cur_registration_no m) \<le> k \<and>
         (\<forall>r. event_update_remote_registrations m (fq_key ev) = Some r \<longrightarrow>
            0 < unat (counter r) \<and> unat (counter r) \<le> k))"

definition live_handlers :: "QualityType \<Rightarrow> element_fq_id \<Rightarrow> 'h notify_event_handler \<Rightarrow> (u32 \<times> 'h) set" where
  "live_handlers l ev h = set (handlers_for (fq_key ev) (mem (control_data l h)))"

definition control_ok :: "element_fq_id \<Rightarrow> nat \<Rightarrow> 'h event_notification_control \<Rightarrow> bool" where
  "control_ok ev k m \<longleftrightarrow>
     registrations_stay (fq_key ev) {} m \<and> unat (cur_registration_no m) \<le> k \<and>
     (\<forall>r. event_update_remote_registrations m (fq_key ev) = Some r \<longrightarrow>
        0 < unat (counter r) \<and> unat (counter r) \<le> k)"

definition plain :: "QualityType \<Rightarrow> 'h notify_event_handler \<Rightarrow> bool" where
  "plain l h \<longleftrightarrow> quiet (control_data l h) \<and> handler_wf h \<and> level_ok l (asil_b_capability h)"

lemma handlers_inv_split:
  "handlers_inv l ev k h \<longleftrightarrow> plain l h \<and> control_ok ev k (mem (control_data l h))"
  by (auto simp: handlers_inv_def control_ok_def plain_def Let_def)

text \<open>One critical section, then a message or none.\<close>

definition store :: "QualityType \<Rightarrow> 'h event_notification_control \<Rightarrow> 'h notify_event_handler \<Rightarrow> 'h notify_event_handler" where
  "store l m h = put_control_data l ((control_data l h)\<lparr>mem := m\<rparr>) h"

lemma store_frame [simp]:
  "plain l (store l m h) = plain l h"
  "mem (control_data l (store l m h)) = m"
  "mp_control (store l m h) = mp_control h"
  "store l m2 (store l m h) = store l m2 h"
  "store l (mem (control_data l h)) h = h"
  by (simp_all add: plain_def store_def)
    (simp add: put_control_data_def control_data_def)

lemma critical_plain:
  "plain l h \<Longrightarrow> critical f (control_data l h) = (r, w) \<longleftrightarrow>
     r = fst (f (mem (control_data l h))) \<and> w = (control_data l h)\<lparr>mem := snd (f (mem (control_data l h)))\<rparr>"
  by (auto simp: plain_def)

lemma send_plain:
  assumes "plain l h"
  shows "\<exists>h'. send_message l p msg h = Some h' \<and> plain l h' \<and> mem (control_data l h') = mem (control_data l h)"
proof -
  from assms have "handler_wf h" "level_ok l (asil_b_capability h)" by (simp_all add: plain_def)
  then obtain h' where "send_message l p msg h = Some h'" "handler_wf h'" "control_data l h' = control_data l h"
      "asil_b_capability h' = asil_b_capability h"
    by (rule send_message_outcome)
  with assms show ?thesis by (auto simp: plain_def)
qed

text \<open>The sections keep the control data in order.\<close>

lemma next_number:
  assumes "control_ok ev k m" and "k < 65535"
  shows "cur_registration_no m \<noteq> - 1" and "unat (cur_registration_no m + 1) = Suc (unat (cur_registration_no m))"
proof -
  have "unat (cur_registration_no m) + 1 < 2 ^ 32" using assms by (simp add: control_ok_def)
  then show u: "unat (cur_registration_no m + 1) = Suc (unat (cur_registration_no m))"
    by (simp add: unat_word_ariths)
  show "cur_registration_no m \<noteq> - 1" using u by auto
qed

lemma next_count:
  "unat (c :: u16) \<le> k \<Longrightarrow> k < 65535 \<Longrightarrow> unat (c + 1) = Suc (unat c)"
  by (simp add: unat_word_ariths)

lemma add_handler_ok:
  assumes "control_ok ev k m" and "k < 65535"
  shows "control_ok ev (Suc k) (snd (add_handler (fq_key ev) f m))"
    and "fst (add_handler (fq_key ev) f m) \<notin> fst ` set (handlers_for (fq_key ev) m)"
    and "set (handlers_for (fq_key ev) (snd (add_handler (fq_key ev) f m))) =
      insert (fst (add_handler (fq_key ev) f m), f) (set (handlers_for (fq_key ev) m))"
proof -
  note n = next_number [OF assms]
  have "registrations_stay (fq_key ev) {} (snd (add_handler (fq_key ev) f m))"
    using assms(1) n(1) by (intro add_handler_stays) (simp_all add: control_ok_def)
  with assms(1) n(2) show "control_ok ev (Suc k) (snd (add_handler (fq_key ev) f m))"
    by (auto simp: control_ok_def add_handler_def Let_def)
  show "fst (add_handler (fq_key ev) f m) \<notin> fst ` set (handlers_for (fq_key ev) m)"
    using assms(1) by (auto simp: control_ok_def registrations_stay_def add_handler_def Let_def)
  show "set (handlers_for (fq_key ev) (snd (add_handler (fq_key ev) f m))) =
      insert (fst (add_handler (fq_key ev) f m), f) (set (handlers_for (fq_key ev) m))"
    by (auto simp: add_handler_def handlers_for_def Let_def)
qed

lemma registrations_stay_frame:
  "registrations_stay e K (m\<lparr>event_update_remote_registrations := x\<rparr>) = registrations_stay e K m"
  by (simp add: registrations_stay_def handlers_stay_def handlers_for_def)

lemma control_ok_mono: "control_ok ev k m \<Longrightarrow> k \<le> k' \<Longrightarrow> control_ok ev k' m"
  by (auto simp: control_ok_def)

lemma remote_sections_ok:
  assumes "control_ok ev k m" and "k < 65535"
  shows "control_ok ev (Suc k) (snd (count_registration (fq_key ev) t m))"
    and "handlers_for e (snd (count_registration (fq_key ev) t m)) = handlers_for e m"
    and "control_ok ev (Suc k) (snd (recount_registration (fq_key ev) t m))"
    and "handlers_for e (snd (recount_registration (fq_key ev) t m)) = handlers_for e m"
    and "control_ok ev (Suc k) (snd (uncount_registration (fq_key ev) t m))"
    and "handlers_for e (snd (uncount_registration (fq_key ev) t m)) = handlers_for e m"
    and "fst (uncount_registration (fq_key ev) t m) \<noteq> None"
proof -
  have less: "unat (c - 1) \<le> k \<and> 0 < unat (c - 1)"
    if "unat c \<le> k" "0 < unat c" "c - 1 \<noteq> 0" for c :: u16
    using that unat_minus_one [of c] word_unat_eq_iff [of c 1] word_unat_eq_iff [of c 0] by auto
  show "control_ok ev (Suc k) (snd (count_registration (fq_key ev) t m))"
    using assms by (auto simp: control_ok_def count_registration_def registrations_stay_frame Let_def next_count
        split: option.splits)
  show "control_ok ev (Suc k) (snd (recount_registration (fq_key ev) t m))"
    using assms by (auto simp: control_ok_def recount_registration_def registrations_stay_frame next_count
        split: option.splits)
  show "control_ok ev (Suc k) (snd (uncount_registration (fq_key ev) t m))"
    using assms less by (fastforce simp: control_ok_def uncount_registration_def registrations_stay_frame
        split: option.splits)
  show "fst (uncount_registration (fq_key ev) t m) \<noteq> None"
    using assms by (auto simp: control_ok_def uncount_registration_def split: option.splits)
qed (auto simp: count_registration_def recount_registration_def uncount_registration_def handlers_for_def Let_def
    split: option.splits)

lemma remove_handler_ok:
  assumes "control_ok ev k m"
  shows "control_ok ev k (snd (remove_handler (fq_key ev) n m))"
    and "set (handlers_for (fq_key ev) (snd (remove_handler (fq_key ev) n m))) =
      {r \<in> set (handlers_for (fq_key ev) m). fst r \<noteq> n}"
proof -
  have "registrations_stay (fq_key ev) {} (snd (remove_handler (fq_key ev) n m))"
    using assms by (intro remove_handler_stays) (simp_all add: control_ok_def)
  with assms show "control_ok ev k (snd (remove_handler (fq_key ev) n m))"
    by (auto simp: control_ok_def remove_handler_def split: option.splits prod.splits)
  have "ascending (handlers_for (fq_key ev) m)"
    using assms by (simp add: control_ok_def registrations_stay_def handlers_stay_def)
  then show "set (handlers_for (fq_key ev) (snd (remove_handler (fq_key ev) n m))) =
      {r \<in> set (handlers_for (fq_key ev) m). fst r \<noteq> n}"
    by (auto simp: remove_handler_def handlers_for_def erase_registration_filter split: option.splits)
qed

text \<open>A remote section with its message.\<close>

lemma store_and_send:
  assumes "plain l h"
  shows "\<exists>h'. (if c then send_message l t msg (store l m h) else Some (store l m h)) = Some h' \<and>
    plain l h' \<and> mem (control_data l h') = m"
  using assms send_plain [of l "store l m h" t msg] by auto

lemma remote_calls:
  assumes "plain l h" and "control_ok ev k (mem (control_data l h))" and "k < 65535"
  shows "\<exists>h'. RegisterEventNotificationRemote l ev t h = Some h' \<and> handlers_inv l ev (Suc k) h' \<and>
      live_handlers l ev h' = live_handlers l ev h"
    and "\<exists>h'. UnregisterEventNotificationRemote l ev t h = Some h' \<and> handlers_inv l ev (Suc k) h' \<and>
      live_handlers l ev h' = live_handlers l ev h"
proof -
  let ?m = "mem (control_data l h)"
  note ok = remote_sections_ok [OF assms(2,3)] and q = assms(1) [unfolded plain_def]
  have "RegisterEventNotificationRemote l ev t h =
      (if fst (count_registration (fq_key ev) t ?m) = 1
       then send_message l t (own_message kRegisterEventNotifier ev h) (store l (snd (count_registration (fq_key ev) t ?m)) h)
       else Some (store l (snd (count_registration (fq_key ev) t ?m)) h))"
    using q by (simp add: RegisterEventNotificationRemote_def SendRegisterEventNotificationMessage_def
        store_def)
  then show "\<exists>h'. RegisterEventNotificationRemote l ev t h = Some h' \<and> handlers_inv l ev (Suc k) h' \<and>
      live_handlers l ev h' = live_handlers l ev h"
    using store_and_send [OF assms(1), of "fst (count_registration (fq_key ev) t ?m) = 1" t
        "own_message kRegisterEventNotifier ev h" "snd (count_registration (fq_key ev) t ?m)"] ok(1,2)
    by (elim exE conjE) (simp add: handlers_inv_split live_handlers_def)
  obtain send where send: "fst (uncount_registration (fq_key ev) t ?m) = Some send"
    using ok(7) by blast
  then have "UnregisterEventNotificationRemote l ev t h =
      (if send then send_message l t (own_message kUnregisterEventNotifier ev h)
          (store l (snd (uncount_registration (fq_key ev) t ?m)) h)
       else Some (store l (snd (uncount_registration (fq_key ev) t ?m)) h))"
    using q by (simp add: UnregisterEventNotificationRemote_def store_def)
  then show "\<exists>h'. UnregisterEventNotificationRemote l ev t h = Some h' \<and> handlers_inv l ev (Suc k) h' \<and>
      live_handlers l ev h' = live_handlers l ev h"
    using store_and_send [OF assms(1), of send t "own_message kUnregisterEventNotifier ev h"
        "snd (uncount_registration (fq_key ev) t ?m)"] ok(5,6)
    by (elim exE conjE) (simp add: handlers_inv_split live_handlers_def)
qed

lemma handlers_inv_mono: "handlers_inv l ev k h \<Longrightarrow> k \<le> k' \<Longrightarrow> handlers_inv l ev k' h"
  by (auto simp: handlers_inv_split intro: control_ok_mono)

lemma require_plain: "plain l h \<Longrightarrow> require_level l h = Some ()"
  by (simp add: require_level_def plain_def amp_require_def)

lemma register_contract:
  assumes "handlers_inv l ev k h" and "k < 65533"
  shows "\<exists>n h'. RegisterEventNotification l ev f t h = Some (n, h') \<and> handlers_inv l ev (k + 2) h' \<and>
    n \<notin> fst ` live_handlers l ev h \<and> live_handlers l ev h' = insert (n, f) (live_handlers l ev h)"
proof -
  let ?m = "mem (control_data l h)"
  have pl: "plain l h" and ok: "control_ok ev k ?m" using assms(1) by (simp_all add: handlers_inv_split)
  let ?n = "fst (add_handler (fq_key ev) f ?m)" and ?h1 = "store l (snd (add_handler (fq_key ev) f ?m)) h"
  have k: "k < 65535" "Suc k < 65535" using assms(2) by simp_all
  note a = add_handler_ok [OF ok k(1), of f]
  have call: "RegisterEventNotification l ev f t h =
      map_option (Pair ?n) (if t \<noteq> node_identifier (mp_control h) then RegisterEventNotificationRemote l ev t ?h1 else Some ?h1)"
    using pl by (simp add: RegisterEventNotification_def require_plain plain_def store_def map_conv_bind_option comp_def)
  have live1: "live_handlers l ev ?h1 = insert (?n, f) (live_handlers l ev h)" "?n \<notin> fst ` live_handlers l ev h"
    using a(2,3) by (simp_all add: live_handlers_def)
  have "\<exists>h'. (if t \<noteq> node_identifier (mp_control h) then RegisterEventNotificationRemote l ev t ?h1 else Some ?h1) = Some h' \<and>
      handlers_inv l ev (k + 2) h' \<and> live_handlers l ev h' = live_handlers l ev ?h1"
    using remote_calls(1) [of l ?h1 ev "Suc k" t] pl a(1) k(2)
    by (auto simp: handlers_inv_split intro: control_ok_mono)
  with call live1 show ?thesis by auto
qed

lemma reregister_contract:
  assumes "handlers_inv l ev k h" and "k < 65533"
  shows "\<exists>h'. ReregisterEventNotification l ev t h = Some h' \<and> handlers_inv l ev (k + 2) h' \<and>
    live_handlers l ev h' = live_handlers l ev h"
proof -
  let ?m = "mem (control_data l h)" and ?r = "recount_registration (fq_key ev) t (mem (control_data l h))"
  have pl: "plain l h" and ok: "control_ok ev k ?m" using assms(1) by (simp_all add: handlers_inv_split)
  have k: "k < 65535" using assms(2) by simp
  have "ReregisterEventNotification l ev t h =
      (if event_update_handlers ?m (fq_key ev) = None \<or> t = node_identifier (mp_control h) then Some h
       else if fst ?r then send_message l t (own_message kRegisterEventNotifier ev h) (store l (snd ?r) h)
       else Some (store l (snd ?r) h))"
  proof -
    have "put_control_data l (control_data l h) h = h" by (simp add: put_control_data_def control_data_def)
    with pl show ?thesis
      by (simp add: ReregisterEventNotification_def require_plain plain_def store_def
          SendRegisterEventNotificationMessage_def)
  qed
  moreover have "control_ok ev (k + 2) (snd ?r)" "control_ok ev (k + 2) ?m"
    by (rule control_ok_mono [OF remote_sections_ok(3) [OF ok k]], simp)
      (rule control_ok_mono [OF ok], simp)
  ultimately show ?thesis
    using store_and_send [OF pl, of "fst ?r" t "own_message kRegisterEventNotifier ev h" "snd ?r"] pl
      remote_sections_ok(4) [OF ok k, of "fq_key ev" t]
    by (auto simp: handlers_inv_split live_handlers_def)
qed

lemma unregister_contract:
  assumes "handlers_inv l ev k h" and "k < 65533"
  shows "\<exists>h'. UnregisterEventNotification l ev n t h = Some h' \<and> handlers_inv l ev (k + 2) h' \<and>
    live_handlers l ev h' = {r \<in> live_handlers l ev h. fst r \<noteq> n}"
proof -
  let ?m = "mem (control_data l h)" and ?r = "remove_handler (fq_key ev) n (mem (control_data l h))"
  let ?h1 = "store l (snd ?r) h"
  have pl: "plain l h" and ok: "control_ok ev k ?m" using assms(1) by (simp_all add: handlers_inv_split)
  have k: "k < 65535" using assms(2) by simp
  note rm = remove_handler_ok [OF ok, of n]
  have call: "UnregisterEventNotification l ev n t h =
      (if fst ?r \<and> t \<noteq> node_identifier (mp_control h) then UnregisterEventNotificationRemote l ev t ?h1 else Some ?h1)"
    using pl by (simp add: UnregisterEventNotification_def SearchHandlerForNotification_def require_plain plain_def store_def)
  have "\<exists>h'. UnregisterEventNotification l ev n t h = Some h' \<and> handlers_inv l ev (k + 2) h' \<and>
      live_handlers l ev h' = live_handlers l ev ?h1"
    unfolding call using remote_calls(2) [of l ?h1 ev k t] pl rm(1) k handlers_inv_mono [of l ev "Suc k" _ "k + 2"]
    by (auto simp: handlers_inv_split intro: control_ok_mono)
  then show ?thesis using rm(2) by (simp add: live_handlers_def)
qed

interpretation facade: event_messaging "Facade_RegisterEventNotification l ev" "Facade_ReregisterEventNotification l ev"
    "Facade_UnregisterEventNotification l ev" "\<lambda>k s. handlers_inv l ev k (notify_event_handler s)"
    "\<lambda>s. live_handlers l ev (notify_event_handler s)"
  for l :: QualityType and ev :: element_fq_id
proof unfold_locales
  fix k and s :: "'a message_passing_facade" and f :: 'a and t :: int and n :: u32
  let ?h = "notify_event_handler s"
  { assume "handlers_inv l ev k ?h" "k < 65533"
    note a = this
    show "\<exists>n s'. Facade_RegisterEventNotification l ev f t s = Some (n, s') \<and>
        handlers_inv l ev (k + 2) (notify_event_handler s') \<and> n \<notin> fst ` live_handlers l ev ?h \<and>
        live_handlers l ev (notify_event_handler s') = insert (n, f) (live_handlers l ev ?h)"
      using register_contract [OF a, of f t] by (auto simp: facade_calls)
    show "\<exists>s'. Facade_ReregisterEventNotification l ev t s = Some s' \<and>
        handlers_inv l ev (k + 2) (notify_event_handler s') \<and>
        live_handlers l ev (notify_event_handler s') = live_handlers l ev ?h"
      using reregister_contract [OF a, of t] by (auto simp: facade_calls)
    show "\<exists>s'. Facade_UnregisterEventNotification l ev n t s = Some s' \<and>
        handlers_inv l ev (k + 2) (notify_event_handler s') \<and>
        live_handlers l ev (notify_event_handler s') = {r \<in> live_handlers l ev ?h. fst r \<noteq> n}"
      using unregister_contract [OF a, of n t] by (auto simp: facade_calls)
  }
qed (rule handlers_inv_mono)

end
