(* ===== verification/Subscription_State_Machine.thy ===== *)
theory Subscription_State_Machine
  imports Messaging_Service Slot_Collector Event_Subscription_Control
begin

text \<open>
  The subscription of one proxy event:

  \<^item> \<open>EventReceiveHandlerManager\<close> and \<open>SubscriptionData\<close> (subscription_helpers.h/.cpp);
  \<^item> \<open>SubscriptionStateMachine\<close> (subscription_state_machine.h/.cpp) and its three states
    (subscription_not_subscribed_states, subscription_subscription_pending_states,
    subscription_subscribed_states, .h/.cpp each);
  \<^item> \<open>ProxyEventCommon\<close> (proxy_event_common.h/.cpp), which forwards the calls of the user to it.

  The machine keeps its own data in \<open>machine\<close>; what it shares with other processes, the
  \<open>EventControl\<close> with the transaction logs and the subscription word, is in \<open>event_control\<close> (the slots
  are only used by the collector and are passed to its operations); the state of the messaging service
  of the process is in \<open>messaging\<close>, and the service itself, an abstract class in the code, is an
  argument. The mutex of the machine makes each event one step. The virtual functions of a state are
  definitions with its name in front, and the virtual call is a case on the current state; log messages are not modelled. The injected collector of the tests is left
  out.
\<close>

subsection \<open>The receive handler of an event\<close>

record receive_handler_manager =
  registration_number :: "u32 option"
  manager_asil_level :: QualityType
  manager_element :: element_fq_id
  event_source_pid :: int

definition Manager_Unregister ::
    "('h, 's) messaging_service \<Rightarrow> receive_handler_manager \<Rightarrow> 's \<Rightarrow> (receive_handler_manager \<times> 's) run" where
  "Manager_Unregister ms m s =
     (case registration_number m of
        None \<Rightarrow> Some (m, s)
      | Some n \<Rightarrow> do {
          s \<leftarrow> ms_UnregisterEventNotification ms (manager_asil_level m) (manager_element m) n (event_source_pid m) s;
          Some (m\<lparr>registration_number := None\<rparr>, s) })"

definition Manager_Register ::
    "('h, 's) messaging_service \<Rightarrow> 'h \<Rightarrow> receive_handler_manager \<Rightarrow> 's \<Rightarrow> (receive_handler_manager \<times> 's) run" where
  "Manager_Register ms handler m s = do {
     (m, s) \<leftarrow> Manager_Unregister ms m s;
     (n, s) \<leftarrow> ms_RegisterEventNotification ms (manager_asil_level m) (manager_element m) handler (event_source_pid m) s;
     Some (m\<lparr>registration_number := Some n\<rparr>, s) }"

definition Manager_Reregister ::
    "('h, 's) messaging_service \<Rightarrow> 'h option \<Rightarrow> receive_handler_manager \<Rightarrow> 's \<Rightarrow> (receive_handler_manager \<times> 's) run" where
  "Manager_Reregister ms new_receiver m s =
     (case new_receiver of
        Some handler \<Rightarrow> Manager_Register ms handler m s
      | None \<Rightarrow>
          if registration_number m \<noteq> None then do {
            s \<leftarrow> ms_ReregisterEventNotification ms (manager_asil_level m) (manager_element m) (event_source_pid m) s;
            Some (m, s) }
          else Some (m, s))"

definition Manager_UpdatePid :: "int \<Rightarrow> receive_handler_manager \<Rightarrow> receive_handler_manager" where
  "Manager_UpdatePid new_event_source_pid m = m\<lparr>event_source_pid := new_event_source_pid\<rparr>"

subsection \<open>The machine\<close>

datatype SubscriptionStateMachineState = NOT_SUBSCRIBED_STATE | SUBSCRIPTION_PENDING_STATE | SUBSCRIBED_STATE

definition MessageForSubscriptionState :: "SubscriptionStateMachineState \<Rightarrow> string" where
  "MessageForSubscriptionState state =
     (case state of
        NOT_SUBSCRIBED_STATE \<Rightarrow> ''Not Subscribed State.''
      | SUBSCRIPTION_PENDING_STATE \<Rightarrow> ''Subscription Pending State.''
      | SUBSCRIBED_STATE \<Rightarrow> ''Subscribed State.'')"

record subscription_data =
  sd_max_sample_count :: "u16 option"
  sd_slot_collector :: "slot_collector option"

definition SubscriptionData :: subscription_data where
  "SubscriptionData = \<lparr>sd_max_sample_count = None, sd_slot_collector = None\<rparr>"

definition SubscriptionData_Clear :: "subscription_data \<Rightarrow> subscription_data" where
  "SubscriptionData_Clear d = d\<lparr>sd_max_sample_count := None, sd_slot_collector := None\<rparr>"

record 'h subscription_machine =
  current_state :: SubscriptionStateMachineState
  subscription_data :: subscription_data
  event_receiver_handler :: "'h option"
  handler_manager :: receive_handler_manager
  provider_available :: bool
  machine_log_id :: TransactionLogId
  registration_guard :: "registration_guard option"

record event_control =
  ec_logs :: transaction_log_set
  ec_subscription :: subscription_control
  ec_subscribers :: "u32 world"

record ('h, 's) machine_world =
  machine :: "'h subscription_machine"
  event_control :: event_control
  messaging :: 's

definition EventControl :: "u16 \<Rightarrow> u8 \<Rightarrow> bool \<Rightarrow> event_control run" where
  "EventControl number_of_slots max_subs enforce = do {
     t \<leftarrow> EventDataControl_logs number_of_slots max_subs;
     let (esc, word) = EventSubscriptionControl number_of_slots max_subs enforce;
     Some \<lparr>ec_logs = t, ec_subscription = esc, ec_subscribers = \<lparr>mem = word, sched = []\<rparr>\<rparr> }"

definition SubscriptionStateMachine ::
    "QualityType \<Rightarrow> element_fq_id \<Rightarrow> int \<Rightarrow> TransactionLogId \<Rightarrow> 'h subscription_machine" where
  "SubscriptionStateMachine quality_type ev source_pid log_id =
     \<lparr>current_state = NOT_SUBSCRIBED_STATE, subscription_data = SubscriptionData, event_receiver_handler = None,
      handler_manager = \<lparr>registration_number = None, manager_asil_level = quality_type, manager_element = ev,
        event_source_pid = source_pid\<rparr>,
      provider_available = True, machine_log_id = log_id, registration_guard = None\<rparr>"

text \<open>Access to the parts, and the operations of the parts on the whole.\<close>

definition upd_machine ::
    "('h subscription_machine \<Rightarrow> 'h subscription_machine) \<Rightarrow> ('h, 's) machine_world \<Rightarrow> ('h, 's) machine_world" where
  "upd_machine f w = w\<lparr>machine := f (machine w)\<rparr>"

definition on_manager ::
    "(receive_handler_manager \<Rightarrow> 's \<Rightarrow> (receive_handler_manager \<times> 's) run) \<Rightarrow>
     ('h, 's) machine_world \<Rightarrow> ('h, 's) machine_world run" where
  "on_manager f w = do {
     (m, s) \<leftarrow> f (handler_manager (machine w)) (messaging w);
     Some (w\<lparr>machine := (machine w)\<lparr>handler_manager := m\<rparr>, messaging := s\<rparr>) }"

definition on_log ::
    "nat \<Rightarrow> (transaction_log \<Rightarrow> transaction_log run) \<Rightarrow> ('h, 's) machine_world \<Rightarrow> ('h, 's) machine_world run" where
  "on_log i f w = do {
     let ec = event_control w;
     l \<leftarrow> GetTransactionLog i (ec_logs ec);
     l \<leftarrow> f l;
     Some (w\<lparr>event_control := ec\<lparr>ec_logs := PutTransactionLog i l (ec_logs ec)\<rparr>\<rparr>) }"

definition reset_guard :: "('h, 's) machine_world \<Rightarrow> ('h, 's) machine_world run" where
  "reset_guard w =
     (case registration_guard (machine w) of
        None \<Rightarrow> Some w
      | Some g \<Rightarrow> do {
          t \<leftarrow> TransactionLogRegistrationGuard_destroy g (ec_logs (event_control w));
          Some (w\<lparr>event_control := (event_control w)\<lparr>ec_logs := t\<rparr>,
                  machine := (machine w)\<lparr>registration_guard := None\<rparr>\<rparr>) })"

definition NotSubscribed_OnEntry ::
    "('h, 's) messaging_service \<Rightarrow> ('h, 's) machine_world \<Rightarrow> ('h, 's) machine_world run" where
  "NotSubscribed_OnEntry ms w = do {
     g \<leftarrow> registration_guard (machine w);
     i \<leftarrow> GetTransactionLogIndex g;
     w \<leftarrow> on_log i UnsubscribeTransactionBegin w;
     count \<leftarrow> sd_max_sample_count (subscription_data (machine w));
     let ec = event_control w;
     word \<leftarrow> Unsubscribe (ec_subscription ec) count (ec_subscribers ec);
     let w = w\<lparr>event_control := ec\<lparr>ec_subscribers := word\<rparr>\<rparr>;
     w \<leftarrow> on_log i UnsubscribeTransactionCommit w;
     w \<leftarrow> on_manager (Manager_Unregister ms) w;
     let w = upd_machine (\<lambda>m. m\<lparr>subscription_data := SubscriptionData_Clear (subscription_data m)\<rparr>) w;
     reset_guard w }"

text \<open>Leaving a state, and entering one of the other two, does nothing.\<close>

definition TransitionToState ::
    "('h, 's) messaging_service \<Rightarrow> SubscriptionStateMachineState \<Rightarrow> ('h, 's) machine_world \<Rightarrow> ('h, 's) machine_world run" where
  "TransitionToState ms newState w =
     (let w = upd_machine (\<lambda>m. m\<lparr>current_state := newState\<rparr>) w
      in if newState = NOT_SUBSCRIBED_STATE then NotSubscribed_OnEntry ms w else Some w)"

definition NotSubscribed_SubscribeEvent ::
    "('h, 's) messaging_service \<Rightarrow> u64 \<Rightarrow> ('h, 's) machine_world \<Rightarrow> (result_blank \<times> ('h, 's) machine_world) run" where
  "NotSubscribed_SubscribeEvent ms max_sample_count w = do {
     (guard_result, t) \<leftarrow> TransactionLogRegistrationGuard_Create (machine_log_id (machine w)) (ec_logs (event_control w));
     let w = w\<lparr>event_control := (event_control w)\<lparr>ec_logs := t\<rparr>\<rparr>;
     (case guard_result of
        Inl _ \<Rightarrow> Some (Inl kMaxSubscribersExceeded, w)
      | Inr g \<Rightarrow> do {
          let w = upd_machine (\<lambda>m. m\<lparr>registration_guard := Some g\<rparr>) w;
          i \<leftarrow> GetTransactionLogIndex g;
          w \<leftarrow> on_log i (SubscribeTransactionBegin max_sample_count) w;
          let ec = event_control w;
          (subscription_result, word) \<leftarrow> Subscribe (ec_subscription ec) (ucast max_sample_count) (ec_subscribers ec);
          let w = w\<lparr>event_control := ec\<lparr>ec_subscribers := word\<rparr>\<rparr>;
          if subscription_result \<noteq> kSuccess then do {
            amp_require (subscription_result \<noteq> kMaxSubscribersOverflow);
            w \<leftarrow> on_log i SubscribeTransactionAbort w;
            w \<leftarrow> reset_guard w;
            Some (Inl kMaxSampleCountNotRealizable, w) }
          else do {
            w \<leftarrow> on_log i SubscribeTransactionCommit w;
            w \<leftarrow> (case event_receiver_handler (machine w) of
                   Some handler \<Rightarrow> do {
                     w \<leftarrow> on_manager (Manager_Register ms handler) w;
                     Some (upd_machine (\<lambda>m. m\<lparr>event_receiver_handler := None\<rparr>) w) }
                 | None \<Rightarrow> Some w);
            let w = upd_machine (\<lambda>m. m\<lparr>subscription_data :=
                      \<lparr>sd_max_sample_count = Some (ucast max_sample_count),
                       sd_slot_collector = Some (SlotCollector (unat max_sample_count) i)\<rparr>\<rparr>) w;
            w \<leftarrow> TransitionToState ms
                  (if provider_available (machine w) then SUBSCRIBED_STATE else SUBSCRIPTION_PENDING_STATE) w;
            Some (Inr (), w) } }) }"

text \<open>In the pending state the count is cut to 8 bits before it is compared, when subscribed to 16.\<close>

definition SubscriptionPending_SubscribeEvent ::
    "u64 \<Rightarrow> ('h, 's) machine_world \<Rightarrow> (result_blank \<times> ('h, 's) machine_world) run" where
  "SubscriptionPending_SubscribeEvent max_sample_count w = do {
     count \<leftarrow> sd_max_sample_count (subscription_data (machine w));
     Some (if count = ucast (ucast max_sample_count :: u8) then Inr () else Inl kMaxSampleCountNotRealizable, w) }"

definition Subscribed_SubscribeEvent ::
    "u64 \<Rightarrow> ('h, 's) machine_world \<Rightarrow> (result_blank \<times> ('h, 's) machine_world) run" where
  "Subscribed_SubscribeEvent max_sample_count w = do {
     count \<leftarrow> sd_max_sample_count (subscription_data (machine w));
     Some (if count = ucast max_sample_count then Inr () else Inl kMaxSampleCountNotRealizable, w) }"

text \<open>What each state does on each event, and the virtual call of the machine.\<close>

definition SubscribeEvent ::
    "('h, 's) messaging_service \<Rightarrow> u64 \<Rightarrow> ('h, 's) machine_world \<Rightarrow> (result_blank \<times> ('h, 's) machine_world) run" where
  "SubscribeEvent ms max_sample_count w =
     (case current_state (machine w) of
        NOT_SUBSCRIBED_STATE \<Rightarrow> NotSubscribed_SubscribeEvent ms max_sample_count w
      | SUBSCRIPTION_PENDING_STATE \<Rightarrow> SubscriptionPending_SubscribeEvent max_sample_count w
      | SUBSCRIBED_STATE \<Rightarrow> Subscribed_SubscribeEvent max_sample_count w)"

definition NotSubscribed_UnsubscribeEvent :: "('h, 's) machine_world \<Rightarrow> ('h, 's) machine_world run" where
  "NotSubscribed_UnsubscribeEvent w = Some w"

definition SubscriptionPending_UnsubscribeEvent ::
    "('h, 's) messaging_service \<Rightarrow> ('h, 's) machine_world \<Rightarrow> ('h, 's) machine_world run" where
  "SubscriptionPending_UnsubscribeEvent ms w = TransitionToState ms NOT_SUBSCRIBED_STATE w"

definition Subscribed_UnsubscribeEvent ::
    "('h, 's) messaging_service \<Rightarrow> ('h, 's) machine_world \<Rightarrow> ('h, 's) machine_world run" where
  "Subscribed_UnsubscribeEvent ms w = TransitionToState ms NOT_SUBSCRIBED_STATE w"

definition UnsubscribeEvent ::
    "('h, 's) messaging_service \<Rightarrow> ('h, 's) machine_world \<Rightarrow> ('h, 's) machine_world run" where
  "UnsubscribeEvent ms w =
     (case current_state (machine w) of
        NOT_SUBSCRIBED_STATE \<Rightarrow> NotSubscribed_UnsubscribeEvent w
      | SUBSCRIPTION_PENDING_STATE \<Rightarrow> SubscriptionPending_UnsubscribeEvent ms w
      | SUBSCRIBED_STATE \<Rightarrow> Subscribed_UnsubscribeEvent ms w)"

definition NotSubscribed_StopOfferEvent :: "('h, 's) machine_world \<Rightarrow> ('h, 's) machine_world run" where
  "NotSubscribed_StopOfferEvent w = Some (upd_machine (\<lambda>m. m\<lparr>provider_available := False\<rparr>) w)"

definition SubscriptionPending_StopOfferEvent :: "('h, 's) machine_world \<Rightarrow> ('h, 's) machine_world run" where
  "SubscriptionPending_StopOfferEvent w = None"

definition Subscribed_StopOfferEvent ::
    "('h, 's) messaging_service \<Rightarrow> ('h, 's) machine_world \<Rightarrow> ('h, 's) machine_world run" where
  "Subscribed_StopOfferEvent ms w =
     (let w = upd_machine (\<lambda>m. m\<lparr>provider_available := False\<rparr>) w
      in TransitionToState ms SUBSCRIPTION_PENDING_STATE w)"

definition StopOfferEvent ::
    "('h, 's) messaging_service \<Rightarrow> ('h, 's) machine_world \<Rightarrow> ('h, 's) machine_world run" where
  "StopOfferEvent ms w =
     (case current_state (machine w) of
        NOT_SUBSCRIBED_STATE \<Rightarrow> NotSubscribed_StopOfferEvent w
      | SUBSCRIPTION_PENDING_STATE \<Rightarrow> SubscriptionPending_StopOfferEvent w
      | SUBSCRIBED_STATE \<Rightarrow> Subscribed_StopOfferEvent ms w)"

definition NotSubscribed_ReOfferEvent :: "int \<Rightarrow> ('h, 's) machine_world \<Rightarrow> ('h, 's) machine_world run" where
  "NotSubscribed_ReOfferEvent new_pid w =
     Some (upd_machine (\<lambda>m. m\<lparr>handler_manager := Manager_UpdatePid new_pid (handler_manager m),
                              provider_available := True\<rparr>) w)"

definition SubscriptionPending_ReOfferEvent ::
    "('h, 's) messaging_service \<Rightarrow> int \<Rightarrow> ('h, 's) machine_world \<Rightarrow> ('h, 's) machine_world run" where
  "SubscriptionPending_ReOfferEvent ms new_pid w = do {
     let w = upd_machine (\<lambda>m. m\<lparr>provider_available := True,
               handler_manager := Manager_UpdatePid new_pid (handler_manager m)\<rparr>) w;
     w \<leftarrow> on_manager (Manager_Reregister ms (event_receiver_handler (machine w))) w;
     let w = upd_machine (\<lambda>m. m\<lparr>event_receiver_handler := None\<rparr>) w;
     TransitionToState ms SUBSCRIBED_STATE w }"

definition Subscribed_ReOfferEvent :: "int \<Rightarrow> ('h, 's) machine_world \<Rightarrow> ('h, 's) machine_world run" where
  "Subscribed_ReOfferEvent new_pid w = Some w"

definition ReOfferEvent ::
    "('h, 's) messaging_service \<Rightarrow> int \<Rightarrow> ('h, 's) machine_world \<Rightarrow> ('h, 's) machine_world run" where
  "ReOfferEvent ms new_pid w =
     (case current_state (machine w) of
        NOT_SUBSCRIBED_STATE \<Rightarrow> NotSubscribed_ReOfferEvent new_pid w
      | SUBSCRIPTION_PENDING_STATE \<Rightarrow> SubscriptionPending_ReOfferEvent ms new_pid w
      | SUBSCRIBED_STATE \<Rightarrow> Subscribed_ReOfferEvent new_pid w)"

definition NotSubscribed_SetReceiveHandler :: "'h \<Rightarrow> ('h, 's) machine_world \<Rightarrow> ('h, 's) machine_world run" where
  "NotSubscribed_SetReceiveHandler handler w =
     Some (upd_machine (\<lambda>m. m\<lparr>event_receiver_handler := Some handler\<rparr>) w)"

definition SubscriptionPending_SetReceiveHandler :: "'h \<Rightarrow> ('h, 's) machine_world \<Rightarrow> ('h, 's) machine_world run" where
  "SubscriptionPending_SetReceiveHandler handler w =
     Some (upd_machine (\<lambda>m. m\<lparr>event_receiver_handler := Some handler\<rparr>) w)"

definition Subscribed_SetReceiveHandler ::
    "('h, 's) messaging_service \<Rightarrow> 'h \<Rightarrow> ('h, 's) machine_world \<Rightarrow> ('h, 's) machine_world run" where
  "Subscribed_SetReceiveHandler ms handler w = on_manager (Manager_Register ms handler) w"

definition SetReceiveHandler ::
    "('h, 's) messaging_service \<Rightarrow> 'h \<Rightarrow> ('h, 's) machine_world \<Rightarrow> ('h, 's) machine_world run" where
  "SetReceiveHandler ms handler w =
     (case current_state (machine w) of
        NOT_SUBSCRIBED_STATE \<Rightarrow> NotSubscribed_SetReceiveHandler handler w
      | SUBSCRIPTION_PENDING_STATE \<Rightarrow> SubscriptionPending_SetReceiveHandler handler w
      | SUBSCRIBED_STATE \<Rightarrow> Subscribed_SetReceiveHandler ms handler w)"

definition NotSubscribed_UnsetReceiveHandler :: "('h, 's) machine_world \<Rightarrow> ('h, 's) machine_world run" where
  "NotSubscribed_UnsetReceiveHandler w = Some (upd_machine (\<lambda>m. m\<lparr>event_receiver_handler := None\<rparr>) w)"

definition SubscriptionPending_UnsetReceiveHandler :: "('h, 's) machine_world \<Rightarrow> ('h, 's) machine_world run" where
  "SubscriptionPending_UnsetReceiveHandler w = Some (upd_machine (\<lambda>m. m\<lparr>event_receiver_handler := None\<rparr>) w)"

definition Subscribed_UnsetReceiveHandler ::
    "('h, 's) messaging_service \<Rightarrow> ('h, 's) machine_world \<Rightarrow> ('h, 's) machine_world run" where
  "Subscribed_UnsetReceiveHandler ms w = on_manager (Manager_Unregister ms) w"

definition UnsetReceiveHandler ::
    "('h, 's) messaging_service \<Rightarrow> ('h, 's) machine_world \<Rightarrow> ('h, 's) machine_world run" where
  "UnsetReceiveHandler ms w =
     (case current_state (machine w) of
        NOT_SUBSCRIBED_STATE \<Rightarrow> NotSubscribed_UnsetReceiveHandler w
      | SUBSCRIPTION_PENDING_STATE \<Rightarrow> SubscriptionPending_UnsetReceiveHandler w
      | SUBSCRIBED_STATE \<Rightarrow> Subscribed_UnsetReceiveHandler ms w)"

text \<open>In the subscribed state the assertion tests the count itself, and not whether there is one.\<close>

definition NotSubscribed_GetMaxSampleCount :: "'h subscription_machine \<Rightarrow> u16 option run" where
  "NotSubscribed_GetMaxSampleCount m = do {
     amp_require (sd_max_sample_count (subscription_data m) = None);
     Some None }"

definition SubscriptionPending_GetMaxSampleCount :: "'h subscription_machine \<Rightarrow> u16 option run" where
  "SubscriptionPending_GetMaxSampleCount m = do {
     amp_require (sd_max_sample_count (subscription_data m) \<noteq> None);
     n \<leftarrow> sd_max_sample_count (subscription_data m);
     Some (Some n) }"

definition Subscribed_GetMaxSampleCount :: "'h subscription_machine \<Rightarrow> u16 option run" where
  "Subscribed_GetMaxSampleCount m = do {
     n \<leftarrow> sd_max_sample_count (subscription_data m);
     amp_require (n \<noteq> 0);
     Some (Some n) }"

definition GetMaxSampleCount :: "'h subscription_machine \<Rightarrow> u16 option run" where
  "GetMaxSampleCount m =
     (case current_state m of
        NOT_SUBSCRIBED_STATE \<Rightarrow> NotSubscribed_GetMaxSampleCount m
      | SUBSCRIPTION_PENDING_STATE \<Rightarrow> SubscriptionPending_GetMaxSampleCount m
      | SUBSCRIBED_STATE \<Rightarrow> Subscribed_GetMaxSampleCount m)"

definition NotSubscribed_GetSlotCollector :: "'h subscription_machine \<Rightarrow> slot_collector option run" where
  "NotSubscribed_GetSlotCollector m = do {
     amp_require (sd_slot_collector (subscription_data m) = None);
     Some (sd_slot_collector (subscription_data m)) }"

definition SubscriptionPending_GetSlotCollector :: "'h subscription_machine \<Rightarrow> slot_collector option run" where
  "SubscriptionPending_GetSlotCollector m = do {
     amp_require (sd_max_sample_count (subscription_data m) \<noteq> None);
     Some (sd_slot_collector (subscription_data m)) }"

definition Subscribed_GetSlotCollector :: "'h subscription_machine \<Rightarrow> slot_collector option run" where
  "Subscribed_GetSlotCollector m = do {
     amp_require (sd_max_sample_count (subscription_data m) \<noteq> None);
     Some (sd_slot_collector (subscription_data m)) }"

definition GetSlotCollectorLockFree :: "'h subscription_machine \<Rightarrow> slot_collector option run" where
  "GetSlotCollectorLockFree m =
     (case current_state m of
        NOT_SUBSCRIBED_STATE \<Rightarrow> NotSubscribed_GetSlotCollector m
      | SUBSCRIPTION_PENDING_STATE \<Rightarrow> SubscriptionPending_GetSlotCollector m
      | SUBSCRIBED_STATE \<Rightarrow> Subscribed_GetSlotCollector m)"

definition NotSubscribed_GetTransactionLogIndex :: "'h subscription_machine \<Rightarrow> nat option run" where
  "NotSubscribed_GetTransactionLogIndex m = do { amp_require (registration_guard m = None); Some None }"

definition SubscriptionPending_GetTransactionLogIndex :: "'h subscription_machine \<Rightarrow> nat option run" where
  "SubscriptionPending_GetTransactionLogIndex m = do {
     g \<leftarrow> registration_guard m;
     i \<leftarrow> GetTransactionLogIndex g;
     Some (Some i) }"

definition Subscribed_GetTransactionLogIndex :: "'h subscription_machine \<Rightarrow> nat option run" where
  "Subscribed_GetTransactionLogIndex m = do {
     g \<leftarrow> registration_guard m;
     i \<leftarrow> GetTransactionLogIndex g;
     Some (Some i) }"

definition Machine_GetTransactionLogIndex :: "'h subscription_machine \<Rightarrow> nat option run" where
  "Machine_GetTransactionLogIndex m =
     (case current_state m of
        NOT_SUBSCRIBED_STATE \<Rightarrow> NotSubscribed_GetTransactionLogIndex m
      | SUBSCRIPTION_PENDING_STATE \<Rightarrow> SubscriptionPending_GetTransactionLogIndex m
      | SUBSCRIBED_STATE \<Rightarrow> Subscribed_GetTransactionLogIndex m)"

lemmas event_defs =
  UnsubscribeEvent_def NotSubscribed_UnsubscribeEvent_def SubscriptionPending_UnsubscribeEvent_def
  Subscribed_UnsubscribeEvent_def StopOfferEvent_def NotSubscribed_StopOfferEvent_def
  SubscriptionPending_StopOfferEvent_def Subscribed_StopOfferEvent_def ReOfferEvent_def
  NotSubscribed_ReOfferEvent_def Subscribed_ReOfferEvent_def

lemmas handler_defs =
  SetReceiveHandler_def NotSubscribed_SetReceiveHandler_def SubscriptionPending_SetReceiveHandler_def
  Subscribed_SetReceiveHandler_def UnsetReceiveHandler_def NotSubscribed_UnsetReceiveHandler_def
  SubscriptionPending_UnsetReceiveHandler_def Subscribed_UnsetReceiveHandler_def

subsection \<open>The proxy event\<close>

datatype SubscriptionState = kSubscribed | kNotSubscribedState | kSubscriptionPending

definition Proxy_Subscribe ::
    "('h, 's) messaging_service \<Rightarrow> u64 \<Rightarrow> ('h, 's) machine_world \<Rightarrow> (result_blank \<times> ('h, 's) machine_world) run" where
  "Proxy_Subscribe ms max_sample_count w = do {
     amp_require (max_sample_count \<le> 255);
     SubscribeEvent ms max_sample_count w }"

definition Proxy_Unsubscribe ::
    "('h, 's) messaging_service \<Rightarrow> ('h, 's) machine_world \<Rightarrow> ('h, 's) machine_world run" where
  "Proxy_Unsubscribe ms w = UnsubscribeEvent ms w"

definition GetSubscriptionState :: "'h subscription_machine \<Rightarrow> SubscriptionState" where
  "GetSubscriptionState m =
     (case current_state m of
        NOT_SUBSCRIBED_STATE \<Rightarrow> kNotSubscribedState
      | SUBSCRIPTION_PENDING_STATE \<Rightarrow> kSubscriptionPending
      | SUBSCRIBED_STATE \<Rightarrow> kSubscribed)"

definition Proxy_GetNumNewSamplesAvailable ::
    "'c \<Rightarrow> 'h subscription_machine \<Rightarrow> 'c edc_world \<Rightarrow> (nat \<times> 'c edc_world) run" where
  "Proxy_GetNumNewSamplesAvailable c m slots = do {
     collector \<leftarrow> GetSlotCollectorLockFree m;
     sc \<leftarrow> collector;
     Some (GetNumNewSamplesAvailable c sc slots) }"

definition Proxy_GetNewSamplesSlotIndices ::
    "'c \<Rightarrow> nat \<Rightarrow> ('h, 's) machine_world \<Rightarrow> 'c edc_world \<Rightarrow> (nat list \<times> ('h, 's) machine_world \<times> 'c edc_world) run" where
  "Proxy_GetNewSamplesSlotIndices c max_count w slots = do {
     collector \<leftarrow> GetSlotCollectorLockFree (machine w);
     sc \<leftarrow> collector;
     (found, sc, t, slots) \<leftarrow> GetNewSamplesSlotIndices c max_count sc (ec_logs (event_control w)) slots;
     let w = upd_machine (\<lambda>m. m\<lparr>subscription_data := (subscription_data m)\<lparr>sd_slot_collector := Some sc\<rparr>\<rparr>) w;
     Some (found, w\<lparr>event_control := (event_control w)\<lparr>ec_logs := t\<rparr>\<rparr>, slots) }"

definition NotifyServiceInstanceChangedAvailability ::
    "('h, 's) messaging_service \<Rightarrow> bool \<Rightarrow> int \<Rightarrow> ('h, 's) machine_world \<Rightarrow> ('h, 's) machine_world run" where
  "NotifyServiceInstanceChangedAvailability ms is_available new_event_source_pid w =
     (if is_available then ReOfferEvent ms new_event_source_pid w else StopOfferEvent ms w)"

end
