(* ===== verification/Subscription_Protocol.thy ===== *)
theory Subscription_Protocol
  imports Subscription_State_Machine
begin

text \<open>
  What the subscription state machine guarantees for any history of calls of the user and of changes
  of the availability of the service.
\<close>

subsection \<open>The receive handler\<close>

text \<open>
  The live handlers of the event, relative to those that others have registered: the manager owns one
  if it has a registration number, and none otherwise.
\<close>

definition owns :: "(u32 \<times> 'h) set \<Rightarrow> u32 option \<Rightarrow> (u32 \<times> 'h) set \<Rightarrow> bool" where
  "owns others registration all \<longleftrightarrow>
     (case registration of
        None \<Rightarrow> all = others
      | Some n \<Rightarrow> n \<notin> fst ` others \<and> (\<exists>f. all = insert (n, f) others))"

locale messaging_client = event_messaging reg rereg unreg inv live
  for reg :: "'h \<Rightarrow> int \<Rightarrow> 's \<Rightarrow> (u32 \<times> 's) run"
    and rereg :: "int \<Rightarrow> 's \<Rightarrow> 's run"
    and unreg :: "u32 \<Rightarrow> int \<Rightarrow> 's \<Rightarrow> 's run"
    and inv :: "nat \<Rightarrow> 's \<Rightarrow> bool"
    and live :: "'s \<Rightarrow> (u32 \<times> 'h) set" +
  fixes ms :: "('h, 's) messaging_service" and l :: QualityType and ev :: element_fq_id
  assumes serves:
    "ms_RegisterEventNotification ms l ev = reg"
    "ms_ReregisterEventNotification ms l ev = rereg"
    "ms_UnregisterEventNotification ms l ev = unreg"
begin

lemma manager_unregister:
  assumes "inv k s" and "k < 65533" and "manager_asil_level m = l" and "manager_element m = ev"
    and "owns others (registration_number m) (live s)"
  shows "\<exists>s'. Manager_Unregister ms m s = Some (m\<lparr>registration_number := None\<rparr>, s') \<and> inv (k + 2) s' \<and>
    owns others None (live s')"
proof (cases "registration_number m")
  case None
  then have "m\<lparr>registration_number := None\<rparr> = m" by simp
  with None assms inv_mono [OF assms(1), of "k + 2"] show ?thesis
    by (simp add: Manager_Unregister_def)
next
  case (Some n)
  obtain s' where s': "unreg n (event_source_pid m) s = Some s'" "inv (k + 2) s'"
      "live s' = {r \<in> live s. fst r \<noteq> n}"
    using unregister_law [OF assms(1,2)] by blast
  have "{r \<in> live s. fst r \<noteq> n} = others"
    using assms(5) Some by (auto simp: owns_def)
  with s' Some assms show ?thesis
    by (simp add: Manager_Unregister_def serves owns_def)
qed

lemma manager_register:
  assumes "inv k s" and "k < 65531" and "manager_asil_level m = l" and "manager_element m = ev"
    and "owns others (registration_number m) (live s)"
  shows "\<exists>n s'. Manager_Register ms f m s = Some (m\<lparr>registration_number := Some n\<rparr>, s') \<and> inv (k + 4) s' \<and>
    owns others (Some n) (live s')"
proof -
  have k: "k < 65533" "k + 2 < 65533" using assms(2) by simp_all
  obtain s1 where s1: "Manager_Unregister ms m s = Some (m\<lparr>registration_number := None\<rparr>, s1)"
      "inv (k + 2) s1" "owns others None (live s1)"
    using manager_unregister [OF assms(1) k(1) assms(3-5)] by blast
  obtain n s2 where s2: "reg f (event_source_pid m) s1 = Some (n, s2)" "inv (k + 2 + 2) s2" "n \<notin> fst ` live s1"
      "live s2 = insert (n, f) (live s1)"
    using register_law [OF s1(2) k(2)] by blast
  with s1 assms(3,4) show ?thesis
    by (auto simp: Manager_Register_def serves owns_def numeral_eq_Suc)
qed

lemma manager_reregister:
  assumes "inv k s" and "k < 65531" and "manager_asil_level m = l" and "manager_element m = ev"
    and "owns others (registration_number m) (live s)"
  shows "\<exists>r s'. Manager_Reregister ms f m s = Some (m\<lparr>registration_number := r\<rparr>, s') \<and> inv (k + 4) s' \<and>
    owns others r (live s')"
proof (cases f)
  case (Some g)
  with manager_register [OF assms, of g] show ?thesis by (auto simp: Manager_Reregister_def)
next
  case None
  show ?thesis
  proof (cases "registration_number m")
    case none: None
    then have m: "m = m\<lparr>registration_number := None\<rparr>" by simp
    have "Manager_Reregister ms f m s = Some (m, s)" using none None by (simp add: Manager_Reregister_def)
    with none assms m inv_mono [OF assms(1), of "k + 4"] show ?thesis
      by (intro exI [of _ None] exI [of _ s]) simp
  next
    case (Some n)
    then have m: "m = m\<lparr>registration_number := Some n\<rparr>" by simp
    have "k < 65533" using assms(2) by simp
    then obtain s' where s': "rereg (event_source_pid m) s = Some s'" "inv (k + 2) s'" "live s' = live s"
      using reregister_law [OF assms(1)] by blast
    have "Manager_Reregister ms f m s = Some (m, s')"
      using None Some s'(1) assms(3,4) by (simp add: Manager_Reregister_def serves)
    with Some s' m assms(5) inv_mono [OF s'(2), of "k + 4"] show ?thesis
      by (intro exI [of _ "Some n"] exI [of _ s']) simp
  qed
qed

end

interpretation facade_client: messaging_client "Facade_RegisterEventNotification l ev"
    "Facade_ReregisterEventNotification l ev" "Facade_UnregisterEventNotification l ev"
    "\<lambda>k s. handlers_inv l ev k (notify_event_handler s)" "\<lambda>s. live_handlers l ev (notify_event_handler s)"
    lola_messaging l ev
  for l :: QualityType and ev :: element_fq_id
  by unfold_locales (simp_all add: lola_messaging_def)

subsection \<open>The logs in use\<close>

definition log_users :: "transaction_log_set \<Rightarrow> nat set" where
  "log_users t = {j. j \<noteq> kSkeletonIndexSentinel \<and> GetTransactionLog j t \<noteq> None}"

lemma log_users_subset: "log_users t \<subseteq> {..<length (proxy_transaction_logs t)}"
  by (auto simp: log_users_def GetTransactionLog_proxy split: if_splits)

lemma finite_log_users [simp]: "finite (log_users t)"
  using log_users_subset finite_subset by blast

lemma log_users_put [simp]: "log_users (PutTransactionLog i l t) = log_users t"
  by (simp add: log_users_def logs.put_keeps_registered)

lemma logs_length [simp]: "length (proxy_transaction_logs (PutTransactionLog i l t)) = length (proxy_transaction_logs t)"
  by (simp add: PutTransactionLog_def)

lemma Unregister_length:
  "Unregister i t = Some t' \<Longrightarrow> length (proxy_transaction_logs t') = length (proxy_transaction_logs t)"
  by (auto simp: Unregister_def contract_simps Reset_outcome split: if_splits)

lemma Unregister_users: "Unregister i t = Some t' \<Longrightarrow> log_users t' = log_users t - {i}"
  by (auto simp: log_users_def Unregister_frees)

lemma tls_wf_Put:
  assumes "tls_wf t" and "GetTransactionLog i t = Some l0"
  shows "tls_wf (PutTransactionLog i l t)"
proof (cases "i = kSkeletonIndexSentinel")
  case True
  with assms show ?thesis
    by (auto simp: PutTransactionLog_def IsSkeletonElementTransactionLogIndex_def tls_wf_def node_wf_def
        GetTransactionLog_skeleton split: if_splits)
next
  case False
  with assms show ?thesis
    by (auto simp: PutTransactionLog_def IsSkeletonElementTransactionLogIndex_def GetTransactionLog_proxy node_wf_def
        split: if_splits intro!: tls_wf_update)
qed

text \<open>Creating a guard: refused when all logs are in use, else one more log is, and it is empty.\<close>

lemma Create_guard_cases:
  assumes "tls_wf t"
  obtains (refused) "TransactionLogRegistrationGuard_Create uid t = Some (Inl kMaxSubscribersExceeded, t)"
      and "card (log_users t) = length (proxy_transaction_logs t)"
    | (created) i t' log where "TransactionLogRegistrationGuard_Create uid t = Some (Inr (Some i), t')"
      and "tls_wf t'" and "length (proxy_transaction_logs t') = length (proxy_transaction_logs t)"
      and "GetTransactionLog i t' = Some log" and "\<not> ContainsTransactions log"
      and "i \<in> log_users t'" and "log_users t' - {i} = log_users t" and "i \<notin> log_users t"
      and "card (log_users t) < length (proxy_transaction_logs t)"
proof (cases "\<forall>n \<in> set (proxy_transaction_logs t). is_active n")
  case True
  have "j \<noteq> kSkeletonIndexSentinel" if "j < length (proxy_transaction_logs t)" for j
    using assms that by (auto simp: tls_wf_def)
  with True have "log_users t = {..<length (proxy_transaction_logs t)}"
    by (auto simp: log_users_def GetTransactionLog_proxy split: if_splits)
  with True RegisterProxyElement_cases [OF assms, of uid] show thesis
    by (intro refused) (simp_all add: TransactionLogRegistrationGuard_Create_def)
next
  case False
  then obtain i t' where r: "RegisterProxyElement uid t = Some (Inr i, t')" "tls_wf t'"
      "i < length (proxy_transaction_logs t)" "\<not> is_active (proxy_transaction_logs t ! i)"
      "\<exists>l. GetTransactionLog i t' = Some l \<and> \<not> ContainsTransactions l"
      "\<forall>j. j \<noteq> i \<longrightarrow> GetTransactionLog j t' = GetTransactionLog j t"
    using RegisterProxyElement_cases [OF assms, of uid] unfolding if_not_P [OF False] by (elim exE conjE) (rule that, auto)
  have ns: "i \<noteq> kSkeletonIndexSentinel" using assms r(3) by (auto simp: tls_wf_def)
  have free: "i \<notin> log_users t" using r(4) ns by (simp add: log_users_def GetTransactionLog_proxy)
  have len: "length (proxy_transaction_logs t') = length (proxy_transaction_logs t)"
    using r(1) by (auto simp: RegisterProxyElement_def contract_simps split: option.splits if_splits)
  have "log_users t \<subseteq> {..<length (proxy_transaction_logs t)} - {i}" using log_users_subset free by blast
  then have "card (log_users t) \<le> card ({..<length (proxy_transaction_logs t)} - {i})" by (intro card_mono) auto
  then have card: "card (log_users t) < length (proxy_transaction_logs t)" using r(3) by simp
  obtain log where log: "GetTransactionLog i t' = Some log" "\<not> ContainsTransactions log" using r(5) by blast
  have "log_users t' - {i} = log_users t" 
  proof (rule set_eqI)
    fix j
    show "j \<in> log_users t' - {i} \<longleftrightarrow> j \<in> log_users t"
      using r(6) free by (cases "j = i") (simp_all add: log_users_def)
  qed
  moreover have "i \<in> log_users t'" using log ns by (simp add: log_users_def)
  moreover have "TransactionLogRegistrationGuard_Create uid t = Some (Inr (Some i), t')"
    using r(1) by (simp add: TransactionLogRegistrationGuard_Create_def)
  ultimately show thesis using r(2) len log free card by (intro created)
qed

subsection \<open>The invariant\<close>

text \<open>
  \<open>b\<close> is the part of the subscription word that belongs to the other subscribers of the event.
\<close>

definition room_for_others :: "u32 \<Rightarrow> bool" where
  "room_for_others b \<longleftrightarrow> unat (GetSubscribedSamplesFromState b) \<le> 255 * unat (GetSubscribersFromState b) \<and>
     b = CreateState (GetSubscribersFromState b) (GetSubscribedSamplesFromState b)"

definition control_wf :: "u32 \<Rightarrow> event_control \<Rightarrow> bool" where
  "control_wf b ec \<longleftrightarrow>
     quiet (ec_subscribers ec) \<and> max_subscribers (ec_subscription ec) \<noteq> 0 \<and> tls_wf (ec_logs ec) \<and>
     length (proxy_transaction_logs (ec_logs ec)) = unat (max_subscribers (ec_subscription ec)) \<and> room_for_others b"

definition unsubscribed :: "u32 \<Rightarrow> event_control \<Rightarrow> bool" where
  "unsubscribed b ec \<longleftrightarrow> control_wf b ec \<and> mem (ec_subscribers ec) = b \<and>
     unat (GetSubscribersFromState b) \<le> card (log_users (ec_logs ec))"

definition subscribed :: "u32 \<Rightarrow> nat \<Rightarrow> u16 \<Rightarrow> event_control \<Rightarrow> bool" where
  "subscribed b i n ec \<longleftrightarrow> control_wf b ec \<and>
     mem (ec_subscribers ec) = CreateState (GetSubscribersFromState b + 1) (GetSubscribedSamplesFromState b + n) \<and>
     i \<in> log_users (ec_logs ec) \<and> unat (GetSubscribersFromState b) \<le> card (log_users (ec_logs ec) - {i}) \<and>
     unat (GetSubscribersFromState b) < unat (max_subscribers (ec_subscription ec)) \<and> unat n \<le> 255 \<and>
     (\<exists>log. GetTransactionLog i (ec_logs ec) = Some log \<and> subscribe_phase log = Held \<and>
        subscription_max_sample_count log = Some n \<and> (\<forall>j < num_slots log. slot_phase log j = Free))"

definition machine_local :: "QualityType \<Rightarrow> element_fq_id \<Rightarrow> bool \<Rightarrow> 'h subscription_machine \<Rightarrow> bool" where
  "machine_local l ev available m \<longleftrightarrow>
     manager_asil_level (handler_manager m) = l \<and> manager_element (handler_manager m) = ev \<and>
     provider_available m = available \<and>
     (current_state m = SUBSCRIBED_STATE \<longrightarrow> available) \<and> (current_state m = SUBSCRIPTION_PENDING_STATE \<longrightarrow> \<not> available)"

definition linked :: "u32 \<Rightarrow> 'h subscription_machine \<Rightarrow> event_control \<Rightarrow> bool" where
  "linked b m ec \<longleftrightarrow>
     (if current_state m = NOT_SUBSCRIBED_STATE
      then unsubscribed b ec \<and> subscription_data m = SubscriptionData \<and> registration_guard m = None
      else \<exists>i n. subscribed b i n ec \<and> registration_guard m = Some (Some i) \<and>
        subscription_data m = \<lparr>sd_max_sample_count = Some n, sd_slot_collector = Some (SlotCollector (unat n) i)\<rparr>)"

lemma on_log_eq:
  "GetTransactionLog i (ec_logs (event_control w)) = Some l \<Longrightarrow> f l = Some l' \<Longrightarrow>
     on_log i f w = Some (w\<lparr>event_control := (event_control w)\<lparr>ec_logs := PutTransactionLog i l' (ec_logs (event_control w))\<rparr>\<rparr>)"
  by (simp add: on_log_def Let_def)

lemma put_twice [simp]: "PutTransactionLog i l (PutTransactionLog i l0 t) = PutTransactionLog i l t"
proof (cases "i = kSkeletonIndexSentinel")
  case False
  then show ?thesis
    by (cases "i < length (proxy_transaction_logs t)")
      (simp_all add: PutTransactionLog_def IsSkeletonElementTransactionLogIndex_def list_update_beyond)
qed (simp add: PutTransactionLog_def IsSkeletonElementTransactionLogIndex_def)

lemma small_sum:
  assumes "room_for_others b" and "unat (GetSubscribersFromState b) < 255" and "unat (n :: u16) \<le> 255"
  shows "unat (GetSubscribedSamplesFromState b + n) = unat (GetSubscribedSamplesFromState b) + unat n"
    and "unat (GetSubscribersFromState b + 1) = unat (GetSubscribersFromState b) + 1"
proof -
  have "unat (GetSubscribedSamplesFromState b) + unat n < 2 ^ 16"
    using assms by (simp add: room_for_others_def)
  then show "unat (GetSubscribedSamplesFromState b + n) = unat (GetSubscribedSamplesFromState b) + unat n"
    by (simp add: unat_word_ariths)
  have "unat (GetSubscribersFromState b) + 1 < 2 ^ 8" using assms(2) by simp
  then show "unat (GetSubscribersFromState b + 1) = unat (GetSubscribersFromState b) + 1"
    by (simp add: unat_word_ariths)
qed

text \<open>Unsubscribing gives back exactly the own part.\<close>

lemma Unsubscribe_own:
  assumes "subscribed b i n ec"
  shows "Unsubscribe (ec_subscription ec) n (ec_subscribers ec) = Some ((ec_subscribers ec)\<lparr>mem := b\<rparr>)"
proof -
  have c: "control_wf b ec" "mem (ec_subscribers ec) = CreateState (GetSubscribersFromState b + 1) (GetSubscribedSamplesFromState b + n)"
      "unat (GetSubscribersFromState b) < unat (max_subscribers (ec_subscription ec))" "unat n \<le> 255"
    using assms by (simp_all add: subscribed_def)
  have lt: "unat (GetSubscribersFromState b) < 255"
    using c(3) u8_less [of "max_subscribers (ec_subscription ec)"] by simp
  have r: "room_for_others b" using c(1) by (simp add: control_wf_def)
  note s = small_sum [OF r lt c(4)]
  have "GetSubscribersFromState b + 1 \<noteq> 0" using s(2) by auto
  moreover have "\<not> GetSubscribedSamplesFromState b + n < n" using s(1) by (simp add: word_less_nat_alt)
  moreover have "CreateState (GetSubscribersFromState b) (GetSubscribedSamplesFromState b) = b"
    using r by (simp add: room_for_others_def)
  ultimately show ?thesis
    using c(1,2) by (simp add: Unsubscribe_quiet control_wf_def)
qed

subsection \<open>Leaving a subscription\<close>

lemma reset_guard_eq:
  assumes "registration_guard (machine w) = Some (Some i)" and "Unregister i (ec_logs (event_control w)) = Some t"
  shows "reset_guard w = Some (w\<lparr>event_control := (event_control w)\<lparr>ec_logs := t\<rparr>,
    machine := (machine w)\<lparr>registration_guard := None\<rparr>\<rparr>)"
  using assms by (simp add: reset_guard_def TransactionLogRegistrationGuard_destroy_def)

text \<open>A log that is put back empty can be unregistered.\<close>

lemma unregister_empty:
  assumes "GetTransactionLog i t = Some log0" and "\<not> ContainsTransactions log" and "tls_wf t"
  obtains t' where "Unregister i (PutTransactionLog i log t) = Some t'" and "tls_wf t'"
    and "length (proxy_transaction_logs t') = length (proxy_transaction_logs t)" and "log_users t' = log_users t - {i}"
proof -
  have "GetTransactionLog i (PutTransactionLog i log t) = Some log"
    using assms(1) by (rule logs.get_put_same)
  then obtain t' where t': "Unregister i (PutTransactionLog i log t) = Some t'"
    using Unregister_total assms(2) by blast
  show thesis
    using t' tls_wf_Put [OF assms(3,1), of log] Unregister_length [OF t'] Unregister_users [OF t']
    by (intro that) (auto intro: Unregister_wf)
qed

lemma control_wf_update:
  assumes "control_wf b ec" and "tls_wf t" and "length (proxy_transaction_logs t) = length (proxy_transaction_logs (ec_logs ec))"
  shows "control_wf b (ec\<lparr>ec_logs := t, ec_subscribers := (ec_subscribers ec)\<lparr>mem := x\<rparr>\<rparr>)"
  using assms by (simp add: control_wf_def)

context messaging_client
begin

lemma leave_subscription:
  assumes "inv k (messaging w)" and "k < 65531" and "machine_local l ev available (machine w)"
    and "linked b (machine w) (event_control w)" and "current_state (machine w) \<noteq> NOT_SUBSCRIBED_STATE"
    and "owns others (registration_number (handler_manager (machine w))) (live (messaging w))"
  shows "\<exists>w'. TransitionToState ms NOT_SUBSCRIBED_STATE w = Some w' \<and> inv (k + 4) (messaging w') \<and>
    machine_local l ev available (machine w') \<and> linked b (machine w') (event_control w') \<and>
    current_state (machine w') = NOT_SUBSCRIBED_STATE \<and>
    owns others (registration_number (handler_manager (machine w'))) (live (messaging w'))"
proof -
  obtain i n where sub: "subscribed b i n (event_control w)" and g: "registration_guard (machine w) = Some (Some i)"
    and d: "subscription_data (machine w) =
      \<lparr>sd_max_sample_count = Some n, sd_slot_collector = Some (SlotCollector (unat n) i)\<rparr>"
    using assms(4,5) by (auto simp: linked_def)
  let ?ec = "event_control w" and ?t = "ec_logs (event_control w)"
  obtain log where log: "GetTransactionLog i ?t = Some log" "subscribe_phase log = Held"
      "\<forall>j < num_slots log. slot_phase log j = Free" and wf: "control_wf b ?ec" "tls_wf ?t"
    using sub by (auto simp: subscribed_def control_wf_def)
  let ?l1 = "set_subscribe Incrementing (subscription_max_sample_count log) log"
  let ?l2 = "set_subscribe Free None log"
  have empty: "\<not> ContainsTransactions ?l2" using log(3) by (simp add: ContainsTransactions_iff)
  obtain t' where t': "Unregister i (PutTransactionLog i ?l2 ?t) = Some t'" "tls_wf t'"
      "length (proxy_transaction_logs t') = length (proxy_transaction_logs ?t)" "log_users t' = log_users ?t - {i}"
    by (rule unregister_empty [OF log(1) empty wf(2)])
  let ?m = "(machine w)\<lparr>current_state := NOT_SUBSCRIBED_STATE\<rparr>"
  have "k < 65533" using assms(2) by simp
  then obtain s' where s': "Manager_Unregister ms (handler_manager (machine w)) (messaging w) =
        Some ((handler_manager (machine w))\<lparr>registration_number := None\<rparr>, s')"
      "inv (k + 2) s'" "owns others None (live s')"
    using manager_unregister [OF assms(1), of "handler_manager (machine w)" others] assms(3,6)
    by (auto simp: machine_local_def)
  let ?ec' = "?ec\<lparr>ec_logs := t', ec_subscribers := (ec_subscribers ?ec)\<lparr>mem := b\<rparr>\<rparr>"
  let ?m' = "?m\<lparr>handler_manager := (handler_manager (machine w))\<lparr>registration_number := None\<rparr>,
      subscription_data := SubscriptionData, registration_guard := None\<rparr>"
  have run: "TransitionToState ms NOT_SUBSCRIBED_STATE w =
      Some (w\<lparr>machine := ?m', event_control := ?ec', messaging := s'\<rparr>)"
    using log t'(1) s'(1) d g Unsubscribe_own [OF sub] logs.get_put_same [OF log(1)]
    by (simp add: TransitionToState_def NotSubscribed_OnEntry_def upd_machine_def GetTransactionLogIndex_def
        on_log_eq log_defs on_manager_def reset_guard_eq SubscriptionData_Clear_def SubscriptionData_def
        contract_simps Let_def)
  have "control_wf b ?ec'"
    using wf(1) t'(2,3) by (rule control_wf_update)
  moreover have "unat (GetSubscribersFromState b) \<le> card (log_users t')"
    using sub unfolding t'(4) subscribed_def by blast
  ultimately have "unsubscribed b ?ec'" by (simp add: unsubscribed_def)
  with run s' assms(3) inv_mono [OF s'(2), of "k + 4"] show ?thesis
    by (auto simp: linked_def machine_local_def)
qed

end

subsection \<open>Entering a subscription\<close>

lemma Subscribe_own:
  assumes "control_wf b ec" and "mem (ec_subscribers ec) = b"
    and "unat (GetSubscribersFromState b) < unat (max_subscribers (ec_subscription ec))"
  shows "Subscribe (ec_subscription ec) n (ec_subscribers ec) =
    (if enforce_max_samples (ec_subscription ec) \<and>
        unat (max_subscribable_slots (ec_subscription ec)) < unat (GetSubscribedSamplesFromState b) + unat n
     then Some (kSlotOverflow, ec_subscribers ec)
     else Some (kSuccess, (ec_subscribers ec)\<lparr>mem :=
       CreateState (GetSubscribersFromState b + 1) (GetSubscribedSamplesFromState b + n)\<rparr>))"
  using assms by (simp add: Subscribe_quiet control_wf_def word_le_nat_alt)

lemma ucast_small: "(n :: u64) \<le> 255 \<Longrightarrow> unat (ucast n :: u16) = unat n"
proof -
  assume "n \<le> 255"
  then have "unat n < 2 ^ 16" by (simp add: word_le_nat_alt)
  then show ?thesis by (simp add: unsigned_ucast_eq take_bit_nat_eq_self)
qed

text \<open>What a subscription of \<open>n\<close> samples from the unsubscribed state has to return.\<close>

definition no_log_left :: "event_control \<Rightarrow> bool" where
  "no_log_left ec \<longleftrightarrow> card (log_users (ec_logs ec)) = length (proxy_transaction_logs (ec_logs ec))"

definition too_many_samples :: "u32 \<Rightarrow> u64 \<Rightarrow> event_control \<Rightarrow> bool" where
  "too_many_samples b n ec \<longleftrightarrow> enforce_max_samples (ec_subscription ec) \<and>
     unat (max_subscribable_slots (ec_subscription ec)) < unat (GetSubscribedSamplesFromState b) + unat n"

definition subscribe_result :: "u32 \<Rightarrow> u64 \<Rightarrow> event_control \<Rightarrow> result_blank" where
  "subscribe_result b n ec =
     (if no_log_left ec then Inl kMaxSubscribersExceeded
      else if too_many_samples b n ec then Inl kMaxSampleCountNotRealizable
      else Inr ())"

definition next_state :: "bool \<Rightarrow> result_blank \<Rightarrow> SubscriptionStateMachineState" where
  "next_state available r =
     (case r of Inl _ \<Rightarrow> NOT_SUBSCRIBED_STATE
      | Inr _ \<Rightarrow> if available then SUBSCRIBED_STATE else SUBSCRIPTION_PENDING_STATE)"

context messaging_client
begin

lemma enter_subscription:
  assumes "inv k (messaging w)" and "k < 65531" and "machine_local l ev available (machine w)"
    and "linked b (machine w) (event_control w)" and "current_state (machine w) = NOT_SUBSCRIBED_STATE"
    and "owns others (registration_number (handler_manager (machine w))) (live (messaging w))" and "n \<le> 255"
  shows "\<exists>w'. NotSubscribed_SubscribeEvent ms n w = Some (subscribe_result b n (event_control w), w') \<and>
    inv (k + 4) (messaging w') \<and> machine_local l ev available (machine w') \<and>
    linked b (machine w') (event_control w') \<and>
    current_state (machine w') = next_state available (subscribe_result b n (event_control w)) \<and>
    owns others (registration_number (handler_manager (machine w'))) (live (messaging w'))"
proof -
  let ?ec = "event_control w" and ?t = "ec_logs (event_control w)" and ?m = "machine w" and ?n = "ucast n :: u16"
  have un: "unsubscribed b ?ec" "subscription_data ?m = SubscriptionData" "registration_guard ?m = None"
    using assms(4,5) by (simp_all add: linked_def)
  have wf: "control_wf b ?ec" "tls_wf ?t" "mem (ec_subscribers ?ec) = b"
      "length (proxy_transaction_logs ?t) = unat (max_subscribers (ec_subscription ?ec))"
      "unat (GetSubscribersFromState b) \<le> card (log_users ?t)"
    using un(1) by (simp_all add: unsubscribed_def control_wf_def)
  have inv4: "inv (k + 4) (messaging w)" using assms(1) by (rule inv_mono) simp
  from wf(2) show ?thesis
  proof (cases rule: Create_guard_cases [where uid = "machine_log_id ?m"])
    case refused
    then have "subscribe_result b n ?ec = Inl kMaxSubscribersExceeded"
      by (simp add: subscribe_result_def no_log_left_def)
    moreover have "NotSubscribed_SubscribeEvent ms n w = Some (Inl kMaxSubscribersExceeded, w)"
      using refused by (simp add: NotSubscribed_SubscribeEvent_def)
    ultimately show ?thesis
      using assms inv4 by (auto simp: next_state_def)
  next
    case (created i t log)
    then have left: "\<not> no_log_left ?ec" by (simp add: no_log_left_def)
    have log: "subscribe_phase log = Free" "\<forall>j < num_slots log. slot_phase log j = Free"
      using created(5) by (auto simp: ContainsTransactions_iff)
    let ?l1 = "set_subscribe Incrementing (Some ?n) log"
    have some: "max_subscribers (ec_subscription ?ec) \<noteq> 0" and room: "unat (GetSubscribersFromState b) <
        unat (max_subscribers (ec_subscription ?ec))"
      using created(9) wf(1,4,5) by (simp_all add: control_wf_def)
    note sub = Subscribe_own [OF wf(1,3) room, of ?n, unfolded ucast_small [OF assms(7)]]
    have got1: "GetTransactionLog i (PutTransactionLog i x t) = Some x" for x
      using created(4) by (rule logs.get_put_same)
    show ?thesis
    proof (cases "too_many_samples b n ?ec")
      case True
      then have res: "subscribe_result b n ?ec = Inl kMaxSampleCountNotRealizable"
        using left by (simp add: subscribe_result_def)
      let ?l2 = "set_subscribe Free (Some ?n) log"
      have empty: "\<not> ContainsTransactions ?l2" using log by (simp add: ContainsTransactions_iff)
      obtain t' where t': "Unregister i (PutTransactionLog i ?l2 t) = Some t'" "tls_wf t'"
          "length (proxy_transaction_logs t') = length (proxy_transaction_logs t)" "log_users t' = log_users t - {i}"
        by (rule unregister_empty [OF created(4) empty created(2)])
      let ?w' = "w\<lparr>event_control := ?ec\<lparr>ec_logs := t'\<rparr>, machine := ?m\<lparr>registration_guard := None\<rparr>\<rparr>"
      have "NotSubscribed_SubscribeEvent ms n w = Some (Inl kMaxSampleCountNotRealizable, ?w')"
        using created(1) log sub True t'(1) got1 created(4)
        by (simp add: NotSubscribed_SubscribeEvent_def upd_machine_def GetTransactionLogIndex_def on_log_eq
            log_defs too_many_samples_def reset_guard_eq contract_simps Let_def)
      moreover have "unsubscribed b (?ec\<lparr>ec_logs := t'\<rparr>)"
        using un(1) created t' by (simp add: unsubscribed_def control_wf_def)
      ultimately show ?thesis
        using assms inv4 un res by (auto simp: linked_def machine_local_def next_state_def)
    next
      case False
      then have res: "subscribe_result b n ?ec = Inr ()" using left by (simp add: subscribe_result_def)
      let ?l2 = "set_subscribe Held (Some ?n) log"
      let ?t' = "PutTransactionLog i ?l2 t"
      let ?ec' = "?ec\<lparr>ec_logs := ?t', ec_subscribers := (ec_subscribers ?ec)\<lparr>mem :=
          CreateState (GetSubscribersFromState b + 1) (GetSubscribedSamplesFromState b + ?n)\<rparr>\<rparr>"
      let ?st = "if available then SUBSCRIBED_STATE else SUBSCRIPTION_PENDING_STATE"
      have sub_ok: "Subscribe (ec_subscription ?ec) ?n (ec_subscribers ?ec) = Some (kSuccess,
          (ec_subscribers ?ec)\<lparr>mem := CreateState (GetSubscribersFromState b + 1) (GetSubscribedSamplesFromState b + ?n)\<rparr>)"
        using False unfolding sub too_many_samples_def by (rule if_not_P)
      have sub': "subscribed b i ?n ?ec'"
        using un(1) wf created room assms(7) log got1 tls_wf_Put [OF created(2,4), of ?l2] ucast_small [OF assms(7)]
        by (simp add: subscribed_def control_wf_def word_le_nat_alt)
      have "\<exists>h s'. (case event_receiver_handler ?m of None \<Rightarrow> Some (handler_manager ?m, messaging w)
            | Some f \<Rightarrow> Manager_Register ms f (handler_manager ?m) (messaging w)) = Some (h, s') \<and>
          inv (k + 4) s' \<and> manager_asil_level h = l \<and> manager_element h = ev \<and>
          owns others (registration_number h) (live s')"
        using manager_register [OF assms(1,2), of "handler_manager ?m" others] assms(3,6) inv4
        by (cases "event_receiver_handler ?m") (fastforce simp: machine_local_def)+
      then obtain h s' where h: "(case event_receiver_handler ?m of None \<Rightarrow> Some (handler_manager ?m, messaging w)
            | Some f \<Rightarrow> Manager_Register ms f (handler_manager ?m) (messaging w)) = Some (h, s')"
          "inv (k + 4) s'" "manager_asil_level h = l" "manager_element h = ev"
          "owns others (registration_number h) (live s')" by (elim exE conjE)
      define m0 where "m0 = (if event_receiver_handler ?m = None
        then ?m\<lparr>registration_guard := Some (Some i), handler_manager := h\<rparr>
        else ?m\<lparr>registration_guard := Some (Some i), handler_manager := h, event_receiver_handler := None\<rparr>)"
      have m0: "handler_manager m0 = h" "provider_available m0 = provider_available ?m"
          "registration_guard m0 = Some (Some i)"
        by (simp_all add: m0_def)
      let ?m' = "m0\<lparr>
          subscription_data := \<lparr>sd_max_sample_count = Some ?n, sd_slot_collector = Some (SlotCollector (unat n) i)\<rparr>,
          current_state := ?st\<rparr>"
      have "NotSubscribed_SubscribeEvent ms n w =
          Some (Inr (), w\<lparr>machine := ?m', event_control := ?ec', messaging := s'\<rparr>)"
        using created(1) log sub_ok got1 created(4) h(1) assms(3)
        by (cases "event_receiver_handler ?m")
          (simp_all add: m0_def NotSubscribed_SubscribeEvent_def upd_machine_def GetTransactionLogIndex_def on_log_eq
            log_defs TransitionToState_def on_manager_def machine_local_def contract_simps Let_def)
      with m0 h sub' res assms(3) ucast_small [OF assms(7)] show ?thesis
        by (auto simp: linked_def machine_local_def next_state_def)
    qed
  qed
qed

end

subsection \<open>Histories\<close>

datatype 'h proxy_event_call =
    Do_Subscribe u64 | Do_Unsubscribe | Do_Availability bool int | Do_SetHandler 'h | Do_UnsetHandler

fun run_event ::
    "('h, 's) messaging_service \<Rightarrow> 'h proxy_event_call \<Rightarrow> ('h, 's) machine_world \<Rightarrow> ('h, 's) machine_world run" where
  "run_event ms (Do_Subscribe n) w = map_option snd (Proxy_Subscribe ms n w)"
| "run_event ms Do_Unsubscribe w = Proxy_Unsubscribe ms w"
| "run_event ms (Do_Availability a p) w = NotifyServiceInstanceChangedAvailability ms a p w"
| "run_event ms (Do_SetHandler f) w = SetReceiveHandler ms f w"
| "run_event ms Do_UnsetHandler w = UnsetReceiveHandler ms w"

text \<open>
  The service disappears only when it was there, and nobody asks for more than 255 samples; any other
  order of calls is allowed.
\<close>

fun possible_history :: "bool \<Rightarrow> 'h proxy_event_call list \<Rightarrow> bool" where
  "possible_history available [] \<longleftrightarrow> True"
| "possible_history available (c # cs) \<longleftrightarrow>
     (case c of
        Do_Subscribe n \<Rightarrow> n \<le> 255 \<and> possible_history available cs
      | Do_Availability a p \<Rightarrow> (a \<or> available) \<and> possible_history a cs
      | _ \<Rightarrow> possible_history available cs)"

definition machine_ok ::
    "(nat \<Rightarrow> 's \<Rightarrow> bool) \<Rightarrow> ('s \<Rightarrow> (u32 \<times> 'h) set) \<Rightarrow> QualityType \<Rightarrow> element_fq_id \<Rightarrow> (u32 \<times> 'h) set \<Rightarrow> u32 \<Rightarrow>
     bool \<Rightarrow> nat \<Rightarrow> ('h, 's) machine_world \<Rightarrow> bool" where
  "machine_ok ok_service live l ev others b available k w \<longleftrightarrow>
     ok_service k (messaging w) \<and> machine_local l ev available (machine w) \<and> linked b (machine w) (event_control w) \<and>
     owns others (registration_number (handler_manager (machine w))) (live (messaging w))"

lemma linked_frame:
  "linked b (m\<lparr>handler_manager := h\<rparr>) ec = linked b m ec"
  "linked b (m\<lparr>event_receiver_handler := f\<rparr>) ec = linked b m ec"
  "linked b (m\<lparr>provider_available := a\<rparr>) ec = linked b m ec"
  by (simp_all add: linked_def)

lemma linked_state:
  "s \<noteq> NOT_SUBSCRIBED_STATE \<Longrightarrow> current_state m \<noteq> NOT_SUBSCRIBED_STATE \<Longrightarrow> linked b m ec \<Longrightarrow>
     linked b (m\<lparr>current_state := s\<rparr>) ec"
  by (simp add: linked_def)

fun available_after :: "'h proxy_event_call \<Rightarrow> bool \<Rightarrow> bool" where
  "available_after (Do_Availability a p) available = a"
| "available_after _ available = available"

context messaging_client
begin

lemma subscribe_event_ok:
  assumes "machine_ok inv live l ev others b available k w" and "k < 65531" and "n \<le> 255"
  shows "\<exists>r w'. Proxy_Subscribe ms n w = Some (r, w') \<and> machine_ok inv live l ev others b available (k + 4) w' \<and>
    (if current_state (machine w) = NOT_SUBSCRIBED_STATE
     then r = subscribe_result b n (event_control w) \<and> current_state (machine w') = next_state available r
     else w' = w \<and> r = (if sd_max_sample_count (subscription_data (machine w)) = Some (ucast n) then Inr ()
                        else Inl kMaxSampleCountNotRealizable))"
proof (cases "current_state (machine w) = NOT_SUBSCRIBED_STATE")
  case True
  with assms enter_subscription [of k w available b others n] show ?thesis
    by (fastforce simp: machine_ok_def Proxy_Subscribe_def SubscribeEvent_def contract_simps)
next
  case False
  obtain c where c: "sd_max_sample_count (subscription_data (machine w)) = Some c"
    using assms(1) False by (auto simp: machine_ok_def linked_def)
  have "ucast (ucast n :: u8) = (ucast n :: u16)"
  proof -
    have "unat n < 2 ^ 8" using assms(3) by (simp add: word_le_nat_alt)
    then have "unat (ucast n :: u8) = unat n" by (simp add: unsigned_ucast_eq take_bit_nat_eq_self)
    moreover have "unat (ucast x :: u16) = unat x" for x :: u8
      using u8_less [of x] by (simp add: unsigned_ucast_eq take_bit_nat_eq_self)
    from this [of "ucast n"] have "unat (ucast (ucast n :: u8) :: u16) = unat (ucast n :: u8)" .
    ultimately have "unat (ucast (ucast n :: u8) :: u16) = unat n" by (rule trans [rotated])
    with ucast_small [OF assms(3)] show ?thesis by (simp only: word_unat_eq_iff)
  qed
  with False c assms inv_mono [of k "messaging w" "k + 4"] show ?thesis
    by (cases "current_state (machine w)")
      (auto simp: machine_ok_def Proxy_Subscribe_def SubscribeEvent_def contract_simps
        SubscriptionPending_SubscribeEvent_def Subscribed_SubscribeEvent_def)
qed

lemma machine_step_ok:
  assumes ok: "machine_ok inv live l ev others b available k w" and "k < 65531"
    and "possible_history available [c]"
  shows "\<exists>w'. run_event ms c w = Some w' \<and>
    machine_ok inv live l ev others b (available_after c available) (k + 4) w'"
proof -
  have parts: "inv k (messaging w)" "machine_local l ev available (machine w)" "linked b (machine w) (event_control w)"
      "owns others (registration_number (handler_manager (machine w))) (live (messaging w))"
      "manager_asil_level (handler_manager (machine w)) = l" "manager_element (handler_manager (machine w)) = ev"
    using ok by (simp_all add: machine_ok_def machine_local_def)
  have k2: "k < 65533" using assms(2) by simp
  note mono = inv_mono [of k _ "k + 4"] inv_mono [of "k + 2" _ "k + 4"]
  show ?thesis
  proof (cases c)
    case (Do_Subscribe n)
    with assms subscribe_event_ok [OF ok assms(2), of n] show ?thesis by auto
  next
    case Do_Unsubscribe
    with parts assms(2) leave_subscription [of k w available b others] ok mono show ?thesis
      by (cases "current_state (machine w)")
        (auto simp: Proxy_Unsubscribe_def event_defs machine_ok_def)
  next
    case (Do_SetHandler f)
    with parts manager_register [OF parts(1) assms(2), of "handler_manager (machine w)" others f] ok mono
    show ?thesis
      by (cases "current_state (machine w)")
        (auto simp: handler_defs machine_ok_def on_manager_def machine_local_def linked_frame upd_machine_def)
  next
    case Do_UnsetHandler
    with parts manager_unregister [OF parts(1) k2, of "handler_manager (machine w)" others] ok mono
    show ?thesis
      by (cases "current_state (machine w)")
        (auto simp: handler_defs machine_ok_def on_manager_def machine_local_def linked_frame upd_machine_def)
  next
    case (Do_Availability a p)
    let ?h = "(handler_manager (machine w))\<lparr>event_source_pid := p\<rparr>"
    have rereg: "\<exists>r s'. Manager_Reregister ms f ?h (messaging w) = Some (?h\<lparr>registration_number := r\<rparr>, s') \<and>
        inv (k + 4) s' \<and> owns others r (live s')" for f
      using manager_reregister [OF parts(1) assms(2), of ?h others f] parts by simp
    show ?thesis
    proof (cases "current_state (machine w)")
      case NOT_SUBSCRIBED_STATE
      with Do_Availability parts ok mono show ?thesis
        by (auto simp: NotifyServiceInstanceChangedAvailability_def event_defs
            machine_ok_def machine_local_def upd_machine_def linked_frame Manager_UpdatePid_def)
    next
      case SUBSCRIPTION_PENDING_STATE
      then have "\<not> available" using parts(2) by (simp add: machine_local_def)
      then have a: a using Do_Availability assms(3) by simp
      from SUBSCRIPTION_PENDING_STATE Do_Availability a parts rereg [of "event_receiver_handler (machine w)"]
      show ?thesis
        by (auto simp: NotifyServiceInstanceChangedAvailability_def event_defs upd_machine_def
            SubscriptionPending_ReOfferEvent_def on_manager_def Manager_UpdatePid_def TransitionToState_def
            machine_ok_def machine_local_def linked_frame Let_def intro!: linked_state)
    next
      case SUBSCRIBED_STATE
      with Do_Availability parts ok mono show ?thesis
        by (cases a) (auto simp: NotifyServiceInstanceChangedAvailability_def event_defs
            machine_ok_def machine_local_def upd_machine_def linked_frame TransitionToState_def intro!: linked_state)
    qed
  qed
qed

lemma machine_history_ok:
  assumes "machine_ok inv live l ev others b available k w" and "k + 4 * length cs < 65535"
    and "possible_history available cs"
  shows "\<exists>w' available'. fold_run (run_event ms) cs w = Some w' \<and>
    machine_ok inv live l ev others b available' (k + 4 * length cs) w'"
  using assms
proof (induction cs arbitrary: available k w)
  case Nil
  then show ?case by auto
next
  case (Cons c cs)
  have "possible_history available [c]" "possible_history (available_after c available) cs" "k < 65531"
    using Cons.prems(2,3) by (cases c; simp)+
  with machine_step_ok [OF Cons.prems(1), of c] obtain w1 where "run_event ms c w = Some w1"
      "machine_ok inv live l ev others b (available_after c available) (k + 4) w1" by blast
  with Cons.IH [of "available_after c available" "k + 4" w1] Cons.prems(2)
    \<open>possible_history (available_after c available) cs\<close>
  show ?case by (auto simp: algebra_simps)
qed

end

subsection \<open>On the messaging of the process\<close>

abbreviation proxy_event_ok ::
    "QualityType \<Rightarrow> element_fq_id \<Rightarrow> (u32 \<times> 'h) set \<Rightarrow> u32 \<Rightarrow> bool \<Rightarrow> nat \<Rightarrow>
     ('h, 'h message_passing_facade) machine_world \<Rightarrow> bool" where
  "proxy_event_ok l ev \<equiv> machine_ok (\<lambda>k s. handlers_inv l ev k (notify_event_handler s))
     (\<lambda>s. live_handlers l ev (notify_event_handler s)) l ev"

text \<open>A new proxy event at a new event control.\<close>

definition new_proxy_event ::
    "QualityType \<Rightarrow> element_fq_id \<Rightarrow> int \<Rightarrow> bool \<Rightarrow> int \<Rightarrow> event_control \<Rightarrow>
     ('h, 'h message_passing_facade) machine_world" where
  "new_proxy_event l ev source asil_b node ec =
     \<lparr>machine = SubscriptionStateMachine l ev source 1, event_control = ec,
      messaging = \<lparr>notify_event_handler = new_handler asil_b node\<rparr>\<rparr>"

lemma new_handler_inv: "level_ok l asil_b \<Longrightarrow> handlers_inv l ev 0 (new_handler asil_b node)"
  by (auto simp: handlers_inv_def new_handler_def NotifyEventHandler_def control_data_def handler_wf_def
      registrations_stay_def handlers_stay_def handlers_for_def EventNotificationControlData_def Let_def)
    (simp_all add: MessagePassingControl_def)

lemma new_event_control:
  assumes "EventControl slots subs enforce = Some ec" and "subs \<noteq> 0"
  shows "unsubscribed 0 ec" and "ec_subscription ec =
    \<lparr>max_subscribable_slots = slots, max_subscribers = subs, enforce_max_samples = enforce\<rparr>"
    and "log_users (ec_logs ec) = {}" and "length (proxy_transaction_logs (ec_logs ec)) = unat subs"
proof -
  obtain t where t: "TransactionLogSet subs (unat slots) = Some t" and ec: "ec =
      \<lparr>ec_logs = t, ec_subscription = \<lparr>max_subscribable_slots = slots, max_subscribers = subs, enforce_max_samples = enforce\<rparr>,
       ec_subscribers = \<lparr>mem = 0, sched = []\<rparr>\<rparr>"
    using assms(1)
    by (auto simp: EventControl_def EventDataControl_logs_def EventSubscriptionControl_def split: Option.bind_splits)
  have logs: "proxy_transaction_logs t = replicate (unat subs) (TransactionLogNode (unat slots))"
    using t by (auto simp: TransactionLogSet_def contract_simps split: if_splits)
  have "\<forall>j. j \<noteq> kSkeletonIndexSentinel \<longrightarrow> GetTransactionLog j t = None"
  proof (intro allI impI)
    fix j assume "j \<noteq> kSkeletonIndexSentinel"
    then show "GetTransactionLog j t = None"
      by (cases "j < unat subs") (simp_all add: GetTransactionLog_proxy logs TransactionLogNode_def)
  qed
  then have "log_users t = {}" by (intro equals0I) (auto simp: log_users_def)
  moreover have "room_for_others 0"
    by (simp add: room_for_others_def GetSubscribedSamplesFromState_def GetSubscribersFromState_def CreateState_def)
  ultimately show "unsubscribed 0 ec" "ec_subscription ec =
      \<lparr>max_subscribable_slots = slots, max_subscribers = subs, enforce_max_samples = enforce\<rparr>"
      "log_users (ec_logs ec) = {}" "length (proxy_transaction_logs (ec_logs ec)) = unat subs"
    using TransactionLogSet_wf [OF t] assms(2)
    by (simp_all add: ec logs unsubscribed_def control_wf_def GetSubscribersFromState_def)
qed

lemma new_proxy_event_ok:
  assumes "EventControl slots subs enforce = Some ec" and "subs \<noteq> 0" and "level_ok l asil_b"
  shows "proxy_event_ok l ev {} 0 True 0 (new_proxy_event l ev source asil_b node ec)"
proof -
  have "live_handlers l ev (new_handler asil_b node) = {}"
    by (simp add: live_handlers_def new_handler_def NotifyEventHandler_def control_data_def handlers_for_def
        EventNotificationControlData_def)
  with new_event_control(1) [OF assms(1,2)] new_handler_inv [OF assms(3), of ev node] show ?thesis
    by (simp add: machine_ok_def new_proxy_event_def SubscriptionStateMachine_def machine_local_def linked_def owns_def)
qed

text \<open>
  Property C11: no history of subscribing (up to 255 samples), unsubscribing, setting and unsetting
  the receive handler, and appearing and disappearing of the service ends the process, as long as the
  service disappears only when it was there. After every history the machine, the transaction log, the
  subscription word and the registered handlers agree: an unsubscribed machine has no log, adds nothing
  to the word and leaves no handler behind; a subscribed or pending one has exactly one log, whose
  record carries the count it has added to the word, and at most one handler of its own.
\<close>

theorem proxy_event_history_safe:
  assumes "proxy_event_ok l ev others b available 0 w" and "4 * length cs < 65535" and "possible_history available cs"
  shows "\<exists>w' available'. fold_run (run_event lola_messaging) cs w = Some w' \<and>
    proxy_event_ok l ev others b available' (4 * length cs) w'"
  using facade_client.machine_history_ok [OF assms(1)] assms(2,3) by simp

theorem proxy_event_history_safe_witness:
  "\<exists>ec w available. EventControl 10 3 True = Some ec \<and>
     fold_run (run_event lola_messaging)
       [Do_SetHandler ''f'', Do_Subscribe 4, Do_Availability False 0, Do_SetHandler ''g'', Do_Availability True 7,
        Do_Subscribe 4, Do_Unsubscribe] (new_proxy_event kASIL_QM sample_element 2 False 1 ec) = Some w \<and>
     proxy_event_ok kASIL_QM sample_element {} 0 available 28 w"
proof -
  obtain ec where ec: "EventControl 10 3 True = Some ec"
    by (simp add: EventControl_def EventDataControl_logs_def EventSubscriptionControl_def TransactionLogSet_def
        contract_simps kSkeletonIndexSentinel_def)
  have ok: "proxy_event_ok kASIL_QM sample_element {} 0 True 0 (new_proxy_event kASIL_QM sample_element 2 False 1 ec)"
    by (rule new_proxy_event_ok [OF ec]) (simp_all add: level_ok_def)
  from proxy_event_history_safe [OF ok, of "[Do_SetHandler ''f'', Do_Subscribe 4, Do_Availability False 0,
      Do_SetHandler ''g'', Do_Availability True 7, Do_Subscribe 4, Do_Unsubscribe]"] ec
  show ?thesis by auto
qed

text \<open>
  Property C15: a subscription from the unsubscribed state is refused with
  \<open>kMaxSubscribersExceeded\<close> exactly when all transaction logs are in use, else with
  \<open>kMaxSampleCountNotRealizable\<close> exactly when the event enforces its number of samples and they do
  not suffice, and leaves the machine unsubscribed; otherwise it succeeds and the machine is
  subscribed, or pending if the service is not there. In the other states nothing changes and the call
  succeeds exactly for the count that is already subscribed.
\<close>

theorem subscribe_event_outcome:
  assumes "proxy_event_ok l ev others b available k w" and "k < 65531" and "n \<le> 255"
  shows "\<exists>r w'. Proxy_Subscribe lola_messaging n w = Some (r, w') \<and>
    (if current_state (machine w) = NOT_SUBSCRIBED_STATE
     then r = subscribe_result b n (event_control w) \<and> current_state (machine w') = next_state available r
     else w' = w \<and> r = (if sd_max_sample_count (subscription_data (machine w)) = Some (ucast n) then Inr ()
                        else Inl kMaxSampleCountNotRealizable))"
  using facade_client.subscribe_event_ok [OF assms] by blast

theorem subscribe_event_outcome_witness:
  "\<exists>ec w. EventControl 10 3 True = Some ec \<and>
     Proxy_Subscribe lola_messaging 11 (new_proxy_event kASIL_QM sample_element 2 False 1 ec :: (string, _) machine_world) =
       Some (Inl kMaxSampleCountNotRealizable, w) \<and> current_state (machine w) = NOT_SUBSCRIBED_STATE"
proof -
  obtain ec where ec: "EventControl 10 3 True = Some ec"
    by (simp add: EventControl_def EventDataControl_logs_def EventSubscriptionControl_def TransactionLogSet_def
        contract_simps kSkeletonIndexSentinel_def)
  let ?w = "new_proxy_event kASIL_QM sample_element 2 False 1 ec :: (string, _) machine_world"
  have three: "(3 :: u8) \<noteq> 0" by simp
  note e = new_event_control [OF ec three]
  have "subscribe_result 0 11 (event_control ?w) = Inl kMaxSampleCountNotRealizable"
    using e(2,3,4) by (simp add: subscribe_result_def no_log_left_def too_many_samples_def new_proxy_event_def)
  moreover have "current_state (machine ?w) = NOT_SUBSCRIBED_STATE"
    by (simp add: new_proxy_event_def SubscriptionStateMachine_def)
  moreover have "proxy_event_ok kASIL_QM sample_element {} 0 True 0 ?w"
    by (rule new_proxy_event_ok [OF ec]) (simp_all add: level_ok_def)
  ultimately show ?thesis
    using subscribe_event_outcome [of kASIL_QM sample_element "{}" 0 True 0 ?w 11] ec
    by (auto simp: next_state_def)
qed

text \<open>
  A subscription to zero samples succeeds, but asking the subscribed machine for the
  number of its samples then ends the process: the assertion of \<open>SubscribedState::GetMaxSampleCount\<close>
  tests the count in place of its presence. A proxy that subscribes to zero samples a second time asks.
\<close>

lemma zero_subscription_ends_process:
  "\<exists>ec w. EventControl 10 3 True = Some ec \<and>
     Proxy_Subscribe lola_messaging 0 (new_proxy_event kASIL_QM sample_element 2 False 1 ec :: (string, _) machine_world) =
       Some (Inr (), w) \<and>
     current_state (machine w) = SUBSCRIBED_STATE \<and> GetMaxSampleCount (machine w) = None"
proof -
  obtain ec where ec: "EventControl 10 3 True = Some ec"
    by (simp add: EventControl_def EventDataControl_logs_def EventSubscriptionControl_def TransactionLogSet_def
        contract_simps kSkeletonIndexSentinel_def)
  let ?w = "new_proxy_event kASIL_QM sample_element 2 False 1 ec :: (string, _) machine_world"
  have three: "(3 :: u8) \<noteq> 0" by simp
  note e = new_event_control [OF ec three]
  have st: "current_state (machine ?w) = NOT_SUBSCRIBED_STATE"
    by (simp add: new_proxy_event_def SubscriptionStateMachine_def)
  have res: "subscribe_result 0 0 (event_control ?w) = Inr ()"
    using e(2,3,4) by (simp add: subscribe_result_def no_log_left_def too_many_samples_def new_proxy_event_def
        GetSubscribedSamplesFromState_def)
  have "proxy_event_ok kASIL_QM sample_element {} 0 True 0 ?w"
    by (rule new_proxy_event_ok [OF ec]) (simp_all add: level_ok_def)
  from facade_client.subscribe_event_ok [OF this, of 0] st res obtain w where
    w: "Proxy_Subscribe lola_messaging 0 ?w = Some (Inr (), w)" "current_state (machine w) = SUBSCRIBED_STATE"
      "proxy_event_ok kASIL_QM sample_element {} 0 True 4 w"
    by (auto simp: next_state_def)
  then have run: "NotSubscribed_SubscribeEvent lola_messaging 0 ?w = Some (Inr (), w)"
    using st by (simp add: Proxy_Subscribe_def SubscribeEvent_def contract_simps)
  have "sd_max_sample_count (subscription_data (machine w)) = Some 0"
    using run w(2)
    by (auto simp: NotSubscribed_SubscribeEvent_def TransitionToState_def upd_machine_def Let_def contract_simps
        split: Option.bind_splits sum.splits if_splits option.splits)
  with w ec show ?thesis by (auto simp: GetMaxSampleCount_def Subscribed_GetMaxSampleCount_def contract_simps)
qed

text \<open>
  Two proxy events of a process are notified about an event of node 2, which is then
  re-offered by node 3. The first machine re-registers; the second has got a new receive handler in the
  meantime and registers it in place of the old one, which unregisters with the new node. When it then
  unsubscribes, node 3 has been told that this process is not interested any more, although the
  handler of the first proxy is still registered.
\<close>

lemma reoffer_loses_registration:
  "\<exists>s. do {
       let new_manager = \<lparr>registration_number = None, manager_asil_level = kASIL_QM,
             manager_element = sample_element, event_source_pid = 2\<rparr>;
       (a, s) \<leftarrow> Manager_Register lola_messaging ''f'' new_manager
                 \<lparr>notify_event_handler = new_handler False 1\<rparr>;
       (b, s) \<leftarrow> Manager_Register lola_messaging ''g'' new_manager s;
       (a, s) \<leftarrow> Manager_Reregister lola_messaging None (Manager_UpdatePid 3 a) s;
       (b, s) \<leftarrow> Manager_Reregister lola_messaging (Some ''h'') (Manager_UpdatePid 3 b) s;
       (b, s) \<leftarrow> Manager_Unregister lola_messaging b s;
       Some s } = Some s \<and>
     live_handlers kASIL_QM sample_element (notify_event_handler s) = {(0, ''f'')} \<and>
     map_option (\<lambda>hp. nodes_for (fq_key sample_element) (mem (control_data kASIL_QM hp)))
       (deliver (filter (\<lambda>(_, target, _). target = 3) (sent (mp_control (notify_event_handler s))))
          (new_handler False 3 :: string notify_event_handler)) = Some []"
proof -
  note defs = new_handler_def NotifyEventHandler_def MessagePassingControl_def EventNotificationControlData_def
    control_data_def put_control_data_def require_level_def level_ok_def contract_simps Let_def
  note calls = RegisterEventNotification_def add_handler_def RegisterEventNotificationRemote_def
    count_registration_def SendRegisterEventNotificationMessage_def send_message_def send_to_def
    GetMessagePassingSender_def CreateNewSender_def senders_of_def put_senders_def
    ReregisterEventNotification_def recount_registration_def UnregisterEventNotification_def
    SearchHandlerForNotification_def remove_handler_def UnregisterEventNotificationRemote_def
    uncount_registration_def handlers_for_def
  note provider = RegisterMessageReceivedCallbacks_def HandleRegisterNotificationMsg_def
    HandleUnregisterNotificationMsg_def add_node_def remove_node_def message_type_value_def
  have serialized: "msg_id (SerializeElementFqIdMessage t m) = message_type_value t"
      "msg_pid (SerializeElementFqIdMessage t m) = sender_node_id m"
      "DeserializeToElementFqIdMessage (msg_payload (SerializeElementFqIdMessage t m)) p =
        Some \<lparr>element_fq_id = element_fq_id m, sender_node_id = p\<rparr>" for t m p
    by (simp_all add: SerializeElementFqIdMessage_def DeserializeToElementFqIdMessage_def payload_roundtrip)
  note client = lola_messaging_def facade_calls Manager_Register_def Manager_Unregister_def Manager_Reregister_def
    Manager_UpdatePid_def
  show ?thesis
    by (simp add: client calls defs live_handlers_def own_message_def deliver_def receive_message_def provider
        serialized nodes_for_def insort_insert_key_def)
qed

end
