(* ===== verification/Skeleton_Event.thy ===== *)
theory Skeleton_Event
  imports Event_Data_Control_Composite Messaging_Service
begin

text \<open>
  The producer of an event: \<open>SkeletonEvent\<close> (skeleton_event.h), the pointer to an allocated sample
  that it hands to the user, \<open>SampleAllocateePtr\<close> (sample_allocatee_ptr.h), and
  \<open>Skeleton::DisconnectQmConsumers\<close> (skeleton.cpp).

  The object of the event is a \<open>skeleton_event\<close>; what it works on is a \<open>producer_world\<close>: the slots of
  both control blocks (under interference, as in \<open>Atomic_World\<close>), the samples in shared memory,
  the state of the messaging service, and how often the offer for QM consumers was stopped. The call
  that notifies is an argument, as \<open>IMessagePassingService\<close> is abstract. A pointer to a sample is its
  index in the storage. \<open>Register\<close> of the parent, which opens the shared memory, gives its result as
  an argument of \<open>PrepareOffer\<close>. Trace callbacks and log messages are not modelled.
\<close>

subsection \<open>The pointer to an allocated sample\<close>

record 'c sample_allocatee_ptr =
  managed_object :: "nat option"
  event_slot_index :: nat
  ptr_control :: "'c edc_composite option"

definition invalid_slot :: nat where "invalid_slot = 65535"

definition SampleAllocateePtr_null :: "'c sample_allocatee_ptr" where
  "SampleAllocateePtr_null = \<lparr>managed_object = None, event_slot_index = invalid_slot, ptr_control = None\<rparr>"

definition SampleAllocateePtr :: "nat \<Rightarrow> 'c edc_composite \<Rightarrow> nat \<Rightarrow> 'c sample_allocatee_ptr" where
  "SampleAllocateePtr object control slot_index =
     \<lparr>managed_object = Some object, event_slot_index = slot_index, ptr_control = Some control\<rparr>"

definition Ptr_internal_delete ::
    "'c sample_allocatee_ptr \<Rightarrow> 'c edc_world \<Rightarrow> ('c sample_allocatee_ptr \<times> 'c edc_world) run" where
  "Ptr_internal_delete p w =
     (let p = p\<lparr>managed_object := None\<rparr>
      in if event_slot_index p < invalid_slot then do {
           w \<leftarrow> (case ptr_control p of
                 Some control \<Rightarrow> Composite_Discard control (event_slot_index p) w
               | None \<Rightarrow> Some w);
           Some (p\<lparr>event_slot_index := invalid_slot\<rparr>, w) }
         else Some (p, w))"

definition Ptr_destroy :: "'c sample_allocatee_ptr \<Rightarrow> 'c edc_world \<Rightarrow> 'c edc_world run" where
  "Ptr_destroy p w = map_option snd (Ptr_internal_delete p w)"

definition Ptr_swap :: "'c sample_allocatee_ptr \<Rightarrow> 'c sample_allocatee_ptr \<Rightarrow>
    'c sample_allocatee_ptr \<times> 'c sample_allocatee_ptr" where
  "Ptr_swap this other = (other, this)"

text \<open>The new object of a move, and what is left in the old one.\<close>

definition Ptr_move :: "'c sample_allocatee_ptr \<Rightarrow> 'c sample_allocatee_ptr \<times> 'c sample_allocatee_ptr" where
  "Ptr_move other = Ptr_swap SampleAllocateePtr_null other"

definition GetReferencedSlot :: "'c sample_allocatee_ptr \<Rightarrow> nat" where
  "GetReferencedSlot p = event_slot_index p"

subsection \<open>The event\<close>

record 'c skeleton_event =
  event_fqn :: element_fq_id
  data_control_composite :: "'c edc_composite option"
  current_timestamp :: u32
  qm_disconnect :: bool
  instance_quality :: QualityType

record ('c, 'v, 's) producer_world =
  slots :: "'c edc_world"
  storage :: "'v list"
  service :: 's
  qm_stop_offers :: nat

definition SkeletonEvent :: "element_fq_id \<Rightarrow> QualityType \<Rightarrow> 'c skeleton_event" where
  "SkeletonEvent ev quality =
     \<lparr>event_fqn = ev, data_control_composite = None, current_timestamp = 1, qm_disconnect = False,
      instance_quality = quality\<rparr>"

definition DisconnectQmConsumers ::
    "'c skeleton_event \<Rightarrow> ('c, 'v, 's) producer_world \<Rightarrow> ('c, 'v, 's) producer_world run" where
  "DisconnectQmConsumers se w = do {
     amp_require (instance_quality se = kASIL_B);
     Some (w\<lparr>qm_stop_offers := qm_stop_offers w + 1\<rparr>) }"

definition Allocate ::
    "'c skeleton_event \<Rightarrow> ('c, 'v, 's) producer_world \<Rightarrow>
     ('c sample_allocatee_ptr result \<times> 'c skeleton_event \<times> ('c, 'v, 's) producer_world) run" where
  "Allocate se w =
     (case data_control_composite se of
        None \<Rightarrow> Some (Inl kBindingFailure, se, w)
      | Some cc \<Rightarrow> do {
          (slot, gave_up, cc, sw) \<leftarrow> Composite_AllocateNextSlot cc (slots w);
          let se = se\<lparr>data_control_composite := Some cc\<rparr>;
          let w = w\<lparr>slots := sw\<rparr>;
          (se, w) \<leftarrow> (if \<not> qm_disconnect se \<and> gave_up then do {
                      let se = se\<lparr>qm_disconnect := True\<rparr>;
                      w \<leftarrow> DisconnectQmConsumers se w;
                      Some (se, w) }
                    else Some (se, w));
          (case slot of
             Some i \<Rightarrow> do {
               _ \<leftarrow> vector_at (storage w) i;
               Some (Inr (SampleAllocateePtr i cc i), se, w) }
           | None \<Rightarrow> Some (Inl kBindingFailure, se, w)) })"

text \<open>The user writes through the pointer; writing through a null pointer ends the process.\<close>

definition write_sample ::
    "'c sample_allocatee_ptr \<Rightarrow> 'v \<Rightarrow> ('c, 'v, 's) producer_world \<Rightarrow> ('c, 'v, 's) producer_world run" where
  "write_sample p v w = do {
     i \<leftarrow> managed_object p;
     Some (w\<lparr>storage := (storage w)[i := v]\<rparr>) }"

text \<open>
  \<open>Send\<close> of an allocated sample: the argument is destroyed when the call returns. A sample that is
  not of this binding ends the process, as does a missing control.
\<close>

definition notify_if ::
    "bool \<Rightarrow> (QualityType \<Rightarrow> element_fq_id \<Rightarrow> 's \<Rightarrow> 's run) \<Rightarrow> QualityType \<Rightarrow> element_fq_id \<Rightarrow>
     ('c, 'v, 's) producer_world \<Rightarrow> ('c, 'v, 's) producer_world run" where
  "notify_if wanted notify l ev w =
     (if wanted then do { s \<leftarrow> notify l ev (service w); Some (w\<lparr>service := s\<rparr>) } else Some w)"

definition Send_sample ::
    "(QualityType \<Rightarrow> element_fq_id \<Rightarrow> 's \<Rightarrow> 's run) \<Rightarrow> 'c sample_allocatee_ptr option \<Rightarrow>
     'c skeleton_event \<Rightarrow> ('c, 'v, 's) producer_world \<Rightarrow>
     (result_blank \<times> 'c skeleton_event \<times> ('c, 'v, 's) producer_world) run" where
  "Send_sample notify sample se w = do {
     p \<leftarrow> sample;
     let slot = GetReferencedSlot p;
     let se = se\<lparr>current_timestamp := current_timestamp se + 1\<rparr>;
     cc \<leftarrow> data_control_composite se;
     sw \<leftarrow> Composite_EventReady cc slot (current_timestamp se) (slots w);
     let w = w\<lparr>slots := sw\<rparr>;
     w \<leftarrow> notify_if (\<not> qm_disconnect se) notify kASIL_QM (event_fqn se) w;
     w \<leftarrow> notify_if (instance_quality se = kASIL_B) notify kASIL_B (event_fqn se) w;
     sw \<leftarrow> Ptr_destroy p (slots w);
     Some (Inr (), se, w\<lparr>slots := sw\<rparr>) }"

definition Send_value ::
    "(QualityType \<Rightarrow> element_fq_id \<Rightarrow> 's \<Rightarrow> 's run) \<Rightarrow> 'v \<Rightarrow>
     'c skeleton_event \<Rightarrow> ('c, 'v, 's) producer_world \<Rightarrow>
     (result_blank \<times> 'c skeleton_event \<times> ('c, 'v, 's) producer_world) run" where
  "Send_value notify value se w = do {
     (allocated_slot_result, se, w) \<leftarrow> Allocate se w;
     (case allocated_slot_result of
        Inl _ \<Rightarrow> Some (Inl kSampleAllocationFailure, se, w)
      | Inr allocated_slot \<Rightarrow> do {
          w \<leftarrow> write_sample allocated_slot value w;
          Send_sample notify (Some allocated_slot) se w }) }"

definition PrepareOffer ::
    "'c edc_composite \<Rightarrow> 'c skeleton_event \<Rightarrow> ('c, 'v, 's) producer_world \<Rightarrow>
     (result_blank \<times> 'c skeleton_event \<times> ('c, 'v, 's) producer_world) run" where
  "PrepareOffer composite se w = do {
     let se = se\<lparr>data_control_composite := Some composite\<rparr>;
     (latest, sw) \<leftarrow> GetLatestTimestamp composite (slots w);
     Some (Inr (), se\<lparr>current_timestamp := latest\<rparr>, w\<lparr>slots := sw\<rparr>) }"

end
