(* ===== verification/Producer_Safety.thy ===== *)
theory Producer_Safety
  imports Skeleton_Event
begin

text \<open>
  What the producer of an event does to the samples that consumers hold, for every history of its
  calls and under every interference by consumers: it never touches the slot or the value of a held
  sample, as long as the control block that holds it is in use.

  Consumers come and go between any two atomic operations of the producer, so what they hold is a
  function of the shared memory: \<open>H m\<close> says for every place which sample, known by its timestamp, a
  consumer claims to hold when the memory is \<open>m\<close> (their handles live in memory of their own, which
  the producer does not write: \<open>unaffected\<close>). \<open>guarded\<close> is the invariant of the slot memory: the
  slots in \<open>W\<close> belong to the writer, and every claim is true. So each operation is a matter of the
  places it writes to, and of what holds of them at the very moment of the write.
\<close>

subsection \<open>The slots of the writer and of the readers\<close>

type_synonym 'c place = "'c \<times> nat"
type_synonym 'c claims = "'c slot_memory \<Rightarrow> ('c place \<rightharpoonup> u32)"

definition held_at :: "'c claims \<Rightarrow> 'c slot_memory \<Rightarrow> 'c place \<Rightarrow> bool" where
  "held_at H m p \<longleftrightarrow> H m p \<noteq> None"

definition unaffected :: "'c claims \<Rightarrow> 'c \<Rightarrow> bool" where
  "unaffected H c \<longleftrightarrow> (\<forall>i v m. H (put_slot c i v m) = H m)"

definition true_claims :: "'c claims \<Rightarrow> 'c slot_memory \<Rightarrow> bool" where
  "true_claims H m \<longleftrightarrow>
     (\<forall>c j ts. H m (c, j) = Some ts \<longrightarrow> j < length (m c) \<and> \<not> IsInWriting (m c ! j) \<and>
        GetReferenceCount (m c ! j) \<noteq> 0 \<and> GetTimeStamp (m c ! j) = ts)"

text \<open>
  What consumers do in one step: they leave slots in writing alone, never touch a timestamp and never
  mark a slot as in writing; and from a memory in which their claims are true they come to one in
  which they are: they claim new samples only after they have counted themselves in, and the readers
  of a place do not all leave while it is claimed.
\<close>

definition consumer_step :: "'c claims \<Rightarrow> 'c slot_memory \<Rightarrow> 'c slot_memory \<Rightarrow> bool" where
  "consumer_step H m m' \<longleftrightarrow>
     (\<forall>c. length (m' c) = length (m c) \<and>
        (\<forall>j < length (m c).
           if IsInWriting (m c ! j) then m' c ! j = m c ! j
           else \<not> IsInWriting (m' c ! j) \<and> GetTimeStamp (m' c ! j) = GetTimeStamp (m c ! j))) \<and>
     (true_claims H m \<longrightarrow> true_claims H m')"

definition guarded :: "('c \<Rightarrow> nat) \<Rightarrow> 'c place set \<Rightarrow> 'c claims \<Rightarrow> 'c slot_memory \<Rightarrow> bool" where
  "guarded n W H m \<longleftrightarrow>
     (\<forall>c. length (m c) = n c) \<and> (\<forall>(c, j) \<in> W. j < n c \<and> IsInWriting (m c ! j)) \<and> true_claims H m"

lemma guarded_size: "guarded n W H m \<Longrightarrow> length (m c) = n c"
  by (simp add: guarded_def)

lemma guarded_writer: "guarded n W H m \<Longrightarrow> (c, j) \<in> W \<Longrightarrow> j < n c \<and> IsInWriting (m c ! j)"
  by (auto simp: guarded_def)

lemma guarded_held:
  "guarded n W H m \<Longrightarrow> H m (c, j) = Some ts \<Longrightarrow>
     j < n c \<and> \<not> IsInWriting (m c ! j) \<and> GetReferenceCount (m c ! j) \<noteq> 0 \<and> GetTimeStamp (m c ! j) = ts"
  by (fastforce simp: guarded_def true_claims_def)

lemma guardedI:
  assumes "\<And>c. length (m c) = n c" and "\<And>c j. (c, j) \<in> W \<Longrightarrow> j < n c \<and> IsInWriting (m c ! j)"
    and "\<And>c j ts. H m (c, j) = Some ts \<Longrightarrow>
       j < n c \<and> \<not> IsInWriting (m c ! j) \<and> GetReferenceCount (m c ! j) \<noteq> 0 \<and> GetTimeStamp (m c ! j) = ts"
  shows "guarded n W H m"
  using assms by (auto simp: guarded_def true_claims_def)

lemma guarded_mono: "guarded n W H m \<Longrightarrow> W' \<subseteq> W \<Longrightarrow> guarded n W' H m"
  by (auto simp: guarded_def)

lemma consumer_stepD:
  assumes "consumer_step H m m'"
  shows "length (m' c) = length (m c)"
    and "j < length (m c) \<Longrightarrow> IsInWriting (m c ! j) \<Longrightarrow> m' c ! j = m c ! j"
    and "j < length (m c) \<Longrightarrow> \<not> IsInWriting (m c ! j) \<Longrightarrow>
       \<not> IsInWriting (m' c ! j) \<and> GetTimeStamp (m' c ! j) = GetTimeStamp (m c ! j)"
    and "true_claims H m \<Longrightarrow> true_claims H m'"
  using assms by (auto simp: consumer_step_def)

lemma guarded_consumer:
  assumes "guarded n W H m" and "consumer_step H m m'"
  shows "guarded n W H m'"
  unfolding guarded_def
proof (intro conjI allI ballI)
  note size = guarded_size [OF assms(1)]
  show "length (m' c) = n c" for c using consumer_stepD(1) [OF assms(2)] size by simp
  show "case p of (c, j) \<Rightarrow> j < n c \<and> IsInWriting (m' c ! j)" if "p \<in> W" for p
    using guarded_writer [OF assms(1), of "fst p" "snd p"] that
      consumer_stepD(2) [OF assms(2), of "snd p" "fst p"] size by (simp add: case_prod_beta)
  show "true_claims H m'" using assms(1) consumer_stepD(4) [OF assms(2)] by (simp add: guarded_def)
qed

text \<open>Which slots are in writing is not for the consumers to change.\<close>

lemma consumer_steps_writing:
  "(consumer_step H)\<^sup>*\<^sup>* m m' \<Longrightarrow> i < length (m c) \<Longrightarrow>
     length (m' c) = length (m c) \<and> IsInWriting (m' c ! i) = IsInWriting (m c ! i)"
proof (induction rule: rtranclp_induct)
  case (step m1 m2)
  then have "i < length (m1 c)" by simp
  with consumer_stepD(1-3) [OF step.hyps(2)] step.IH [OF step.prems] show ?case by metis
qed simp

interpretation consumers: memory_protocol "consumer_step H" "guarded n W H" for H n W
  by unfold_locales (rule guarded_consumer)

lemma guarded_put:
  assumes "guarded n W H m" and "(c, j) \<notin> W" and "\<not> held_at H m (c, j)" and "unaffected H c"
  shows "guarded n W H (put_slot c j v m)"
proof -
  have same: "H (put_slot c j v m) = H m" using assms(4) by (simp add: unaffected_def)
  have "put_slot c j v m d ! i = m d ! i" if "(d, i) \<noteq> (c, j)" for d i
    using that by (cases "d = c") (simp_all add: put_slot_def)
  moreover have "(d, i) \<noteq> (c, j)" if "(d, i) \<in> W \<or> H m (d, i) \<noteq> None" for d i
    using that assms(2,3) unfolding held_at_def by blast
  ultimately have "put_slot c j v m d ! i = m d ! i" if "(d, i) \<in> W \<or> H m (d, i) \<noteq> None" for d i
    using that by blast
  with guarded_size [OF assms(1)] guarded_writer [OF assms(1)] guarded_held [OF assms(1)]
  show ?thesis by (intro guardedI) (simp_all add: same)
qed

lemma guarded_lock:
  assumes "guarded n W H m" and "j < n c" and "(c, j) \<notin> W" and "\<not> held_at H m (c, j)" and "unaffected H c"
  shows "guarded n (insert (c, j) W) H (put_slot c j IN_WRITING m)"
  using guarded_put [OF assms(1,3-5), of IN_WRITING] assms(1,2) by (auto simp: guarded_def put_slot_def)

lemma unused_is_free:
  assumes "guarded n W H m" and "\<not> IsUsed (m c ! j)"
  shows "(c, j) \<notin> W" and "\<not> held_at H m (c, j)"
  using guarded_writer [OF assms(1), of c j] guarded_held [OF assms(1), of c j] assms(2)
  by (auto simp: IsUsed_def held_at_def) (cases "H m (c, j)"; simp)

lemma writer_slot_not_held: "guarded n W H m \<Longrightarrow> (c, j) \<in> W \<Longrightarrow> \<not> held_at H m (c, j)"
  using guarded_writer [of n W H m c j] guarded_held [of n W H m c j]
  by (cases "H m (c, j)") (simp_all add: held_at_def)

lemma guarded_release:
  assumes "guarded n (insert (c, j) W) H m" and "(c, j) \<notin> W" and "unaffected H c"
  shows "guarded n W H (put_slot c j v m)"
proof -
  have "\<not> held_at H m (c, j)" using assms(1) by (rule writer_slot_not_held) simp
  moreover have "guarded n W H m" using assms(1) by (rule guarded_mono) auto
  ultimately show ?thesis using assms(2,3) by (intro guarded_put)
qed

lemma consumer_step_contract:
  shows "keeps_size c (consumer_step H)" and "respects_writer c i (consumer_step H)"
proof -
  show "keeps_size c (consumer_step H)" by (auto simp: keeps_size_def consumer_step_def)
  have "m' c ! i = m c ! i" if "consumer_step H m m'" "m c ! i = IN_WRITING" for m m' :: "'a slot_memory"
  proof (cases "i < length (m c)")
    case True
    with consumer_stepD(2) [OF that(1), of i c] that(2) show ?thesis by simp
  next
    case False
    have beyond: "xs ! i = [] ! (i - length xs)" if "\<not> i < length xs" for xs :: "u64 list"
      using that nth_append [of xs "[]" i] by simp
    from False consumer_stepD(1) [OF that(1), of c] show ?thesis
      by (simp add: beyond)
  qed
  then show "respects_writer c i (consumer_step H)" by (auto simp: respects_writer_def)
qed

subsection \<open>The operations on the slots\<close>

definition safe :: "('c \<Rightarrow> nat) \<Rightarrow> 'c place set \<Rightarrow> 'c claims \<Rightarrow> 'c edc_world \<Rightarrow> bool" where
  "safe n W H w \<longleftrightarrow> rely (consumer_step H) w \<and> guarded n W H (mem w)"

definition locked_by :: "('c \<Rightarrow> nat) \<Rightarrow> 'c place set \<Rightarrow> 'c claims \<Rightarrow> 'c place \<Rightarrow> 'c edc_world \<Rightarrow> bool" where
  "locked_by n W H p w \<longleftrightarrow> safe n (insert p W) H w \<and> p \<notin> W \<and> snd p < n (fst p)"

lemma safe_evolves: "safe n W H w \<Longrightarrow> evolves (consumer_step H) w w' \<Longrightarrow> safe n W H w'"
  by (auto simp: safe_def dest: evolves_rely consumers.evolves_keeps)

lemma safe_mono: "safe n W H w \<Longrightarrow> W' \<subseteq> W \<Longrightarrow> safe n W' H w"
  by (auto simp: safe_def intro: guarded_mono)

lemma safe_mem: "mem w' = mem w \<Longrightarrow> sched w' = sched w \<Longrightarrow> safe n W H w' = safe n W H w"
  by (simp add: safe_def rely_def)

lemma locked_by_safe: "locked_by n W H p w \<Longrightarrow> safe n W H w"
  by (auto simp: locked_by_def intro: safe_mono)

lemma guarded_steps: "(consumer_step H)\<^sup>*\<^sup>* m m' \<Longrightarrow> guarded n W H m \<Longrightarrow> guarded n W H m'"
  by (rule consumers.steps_keep)

text \<open>Taking an unused slot.\<close>

lemma take_unused:
  assumes "guarded n W H m" and "\<not> IsUsed (m c ! i)" and "i < n c" and "mem w = put_slot c i IN_WRITING m"
    and "rely (consumer_step H) w" and "unaffected H c"
  shows "locked_by n W H (c, i) w"
  using unused_is_free [OF assms(1,2)] guarded_lock [OF assms(1,3)] assms(3-6)
  by (simp add: locked_by_def safe_def)

interpretation safe_allocation: bounded_retry "AllocateNextSlot_body c" "\<lambda>w. safe n W H w \<and> unaffected H c"
  "\<lambda>i w. locked_by n W H (c, i) w" for c :: 'c and n W H
proof unfold_locales
  fix w w' :: "'c edc_world"
  assume "safe n W H w \<and> unaffected H c" "AllocateNextSlot_body c w = Some (None, w')"
  then show "safe n W H w' \<and> unaffected H c"
    by (auto simp: safe_def dest: consumers.evolves_keeps evolves_rely elim!: AllocateNextSlot_body_cases)
next
  fix w w' :: "'c edc_world" and i
  assume su: "safe n W H w \<and> unaffected H c" and b: "AllocateNextSlot_body c w = Some (Some i, w')"
  then have s: "safe n W H w" by simp
  then have r: "rely (consumer_step H) w" by (simp add: safe_def)
  from b r show "locked_by n W H (c, i) w'"
  proof (cases rule: AllocateNextSlot_body_cases)
    case again
    then show ?thesis by simp
  next
    case (taken j m)
    with s have "guarded n W H m" by (auto simp: safe_def intro: guarded_steps)
    moreover have "j < n c" using taken(2) s guarded_size [of n W H "mem w" c] by (simp add: safe_def num_slots_of_def)
    ultimately show ?thesis using taken su take_unused by auto
  qed
qed

lemma AllocateNextSlot_safe:
  assumes "safe n W H w" and "AllocateNextSlot c w = Some (r, w')" and "unaffected H c"
  shows "case r of None \<Rightarrow> safe n W H w' | Some i \<Rightarrow> locked_by n W H (c, i) w'"
proof -
  obtain sel k w1 where loop: "for_retry (AllocateNextSlot_body c) (MAX_ALLOCATE_RETRIES + 1) 0 w = Some (sel, k, w1)"
    using assms(2) by (auto simp: AllocateNextSlot_def split: Option.bind_splits)
  have "case sel of None \<Rightarrow> safe n W H w1 | Some i \<Rightarrow> locked_by n W H (c, i) w1"
  proof (cases sel)
    case None
    with safe_allocation.loop_exhausted [OF _ loop [unfolded None]] assms(1,3) show ?thesis by simp
  next
    case (Some i)
    with safe_allocation.loop_delivers [OF _ loop [unfolded Some]] assms(1,3) show ?thesis by simp
  qed
  moreover have w': "mem w' = mem w1" "sched w' = sched w1" "r = sel \<or> r = None"
    using assms(2) unfolding AllocateNextSlot_def loop by (auto simp: Let_def split: if_splits)
  from safe_mem [OF w'(1,2)] have "locked_by n W H p w' = locked_by n W H p w1" for p
    by (simp add: locked_by_def)
  ultimately show ?thesis
    using w'(3) safe_mem [OF w'(1,2), of n W H] locked_by_safe [of n W H _ w1]
    by (cases sel; cases r) simp_all
qed

text \<open>Locking a slot in both blocks, or giving it back.\<close>

lemma TryLockSlot_safe:
  assumes "safe n W H w" and "TryLockSlot qm b i ts w = (ok, w')" and "i < n qm" and "n b = n qm" and "qm \<noteq> b"
    and "unaffected H qm" and "unaffected H b"
  shows "if ok then locked_by n W H (b, i) w' \<and> locked_by n (insert (b, i) W) H (qm, i) w' else safe n W H w'"
proof -
  let ?R = "consumer_step H"
  have r: "rely ?R w" and g: "guarded n W H (mem w)" using assms(1) by (simp_all add: safe_def)
  have i: "i < length (mem w qm)" using guarded_size [OF g] assms(3) by simp
  note out = TryLockSlot_outcome [OF r consumer_step_contract(2,1) i assms(2)]
  show ?thesis
  proof (cases ok)
    case True
    with out obtain m1 m2 where m: "?R\<^sup>*\<^sup>* (mem w) m1" "\<not> IsUsed (m1 qm ! i)"
        "?R\<^sup>*\<^sup>* (put_slot qm i IN_WRITING m1) m2" "\<not> IsUsed (m2 b ! i)" "mem w' = put_slot b i IN_WRITING m2"
      by (auto simp: both_locked_def)
    have g1: "guarded n W H m1" using m(1) g by (rule guarded_steps)
    note free1 = unused_is_free [OF g1 m(2)]
    have "guarded n (insert (qm, i) W) H (put_slot qm i IN_WRITING m1)"
      by (rule guarded_lock [OF g1 assms(3) free1 assms(6)])
    with m(3) have g2: "guarded n (insert (qm, i) W) H m2" by (rule guarded_steps)
    have "locked_by n (insert (qm, i) W) H (b, i) w'"
      using out m(5) assms(3,4,7) by (intro take_unused [OF g2 m(4)]) simp_all
    with free1 assms(3,5) show ?thesis using True
      by (auto simp: locked_by_def insert_commute intro: safe_mono)
  next
    case False
    consider "?R\<^sup>*\<^sup>* (mem w) (mem w')" | "qm_lock_taken_back qm i ?R (mem w) (mem w')" using out False by auto
    then have "guarded n W H (mem w')"
    proof cases
      case 1
      then show ?thesis using g by (rule guarded_steps)
    next
      case 2
      then obtain m1 m2 where m: "?R\<^sup>*\<^sup>* (mem w) m1" "\<not> IsUsed (m1 qm ! i)"
          "?R\<^sup>*\<^sup>* (put_slot qm i IN_WRITING m1) m2" "mem w' = put_slot qm i (m1 qm ! i) m2"
        by (auto simp: qm_lock_taken_back_def)
      have g1: "guarded n W H m1" using m(1) g by (rule guarded_steps)
      note free1 = unused_is_free [OF g1 m(2)]
      from m(3) have "guarded n (insert (qm, i) W) H m2"
        by (rule guarded_steps) (rule guarded_lock [OF g1 assms(3) free1 assms(6)])
      from guarded_release [OF this free1(1) assms(6)] m(4) show ?thesis by simp
    qed
    with False out show ?thesis by (simp add: safe_def)
  qed
qed

lemma GetNextFreeMultiSlot_loop_evolves:
  "GetNextFreeMultiSlot_loop qm b idxs ts sel w = (r, ts', w') \<Longrightarrow> rely R w \<Longrightarrow>
     evolves R w w' \<and> (r = sel \<or> (\<exists>i \<in> set idxs. r = Some i))"
proof (induction idxs arbitrary: ts sel w)
  case Nil
  then show ?case by (auto intro: evolves_refl)
next
  case (Cons i idxs)
  obtain q w1 where ld1: "load_slot qm i w = (q, w1)" by (cases "load_slot qm i w")
  obtain v w2 where ld2: "load_slot b i w1 = (v, w2)" by (cases "load_slot b i w1")
  have e1: "evolves R w w1" using Cons.prems(2) ld1 by (rule evolves_load_slot)
  have e2: "evolves R w w2" using evolves_load_slot [OF evolves_rely [OF e1] ld2] e1 by (blast intro: evolves_trans)
  have step: "evolves R w w' \<and> (r = sel' \<or> (\<exists>j \<in> set idxs. r = Some j))"
    if "GetNextFreeMultiSlot_loop qm b idxs ts1 sel' w2 = (r, ts', w')" for ts1 sel'
    using Cons.IH [OF that evolves_rely [OF e2]] e2 by (blast intro: evolves_trans)
  show ?case
    using Cons.prems(1) ld1 ld2 by (auto split: if_splits dest: step)
qed

definition locked_in_both :: "('c \<Rightarrow> nat) \<Rightarrow> 'c place set \<Rightarrow> 'c claims \<Rightarrow> 'c \<Rightarrow> 'c \<Rightarrow> nat \<Rightarrow> 'c edc_world \<Rightarrow> bool" where
  "locked_in_both n W H qm b i w \<longleftrightarrow>
     locked_by n W H (b, i) w \<and> locked_by n (insert (b, i) W) H (qm, i) w"

lemma AllocateNextMultiSlot_body_safe:
  assumes "safe n W H w" and "n b = n qm" and "qm \<noteq> b" and "AllocateNextMultiSlot_body qm b w = Some (r, w')"
    and "unaffected H qm" and "unaffected H b"
  shows "case r of None \<Rightarrow> safe n W H w' | Some i \<Rightarrow> locked_in_both n W H qm b i w'"
proof -
  obtain sel ts w1 where scan: "GetNextFreeMultiSlot_loop qm b [0..<num_slots_of b w] TIMESTAMP_MAX None w = (sel, ts, w1)"
    by (metis prod_cases3)
  have "rely (consumer_step H) w" using assms(1) by (simp add: safe_def)
  note ev = GetNextFreeMultiSlot_loop_evolves [OF scan this]
  have s1: "safe n W H w1" using assms(1) ev by (blast intro: safe_evolves)
  have "num_slots_of b w = n qm"
    using assms(1,2) guarded_size [of n W H "mem w" b] by (simp add: safe_def num_slots_of_def)
  with ev have i: "sel = Some i \<Longrightarrow> i < n qm" for i by auto
  show ?thesis
  proof (cases sel)
    case None
    with assms(4) scan s1 show ?thesis by (simp add: AllocateNextMultiSlot_body_def GetNextFreeMultiSlot_def)
  next
    case (Some i)
    obtain ok w2 where lock: "TryLockSlot qm b i ts w1 = (ok, w2)" by (cases "TryLockSlot qm b i ts w1")
    note TryLockSlot_safe [OF s1 lock i [OF Some] assms(2,3,5,6)]
    with assms(4) scan Some lock show ?thesis
      by (cases ok) (auto simp: AllocateNextMultiSlot_body_def GetNextFreeMultiSlot_def locked_in_both_def)
  qed
qed

interpretation safe_multi_allocation: bounded_retry "AllocateNextMultiSlot_body qm b"
  "\<lambda>w. safe n W H w \<and> n b = n qm \<and> qm \<noteq> b \<and> unaffected H qm \<and> unaffected H b" "\<lambda>i w. locked_in_both n W H qm b i w" for qm b :: 'c and n W H
proof unfold_locales
  fix w w' :: "'c edc_world" and i
  assume s: "safe n W H w \<and> n b = n qm \<and> qm \<noteq> b \<and> unaffected H qm \<and> unaffected H b"
  show "safe n W H w' \<and> n b = n qm \<and> qm \<noteq> b \<and> unaffected H qm \<and> unaffected H b" if "AllocateNextMultiSlot_body qm b w = Some (None, w')"
    using AllocateNextMultiSlot_body_safe [of n W H w b qm None w'] s that by simp
  show "locked_in_both n W H qm b i w'" if "AllocateNextMultiSlot_body qm b w = Some (Some i, w')"
    using AllocateNextMultiSlot_body_safe [of n W H w b qm "Some i" w'] s that by simp
qed

lemma AllocateNextMultiSlot_safe:
  assumes "safe n W H w" and "n b = n qm" and "qm \<noteq> b" and "AllocateNextMultiSlot qm b w = Some (r, w')"
    and "unaffected H qm" and "unaffected H b"
  shows "case r of None \<Rightarrow> safe n W H w' | Some i \<Rightarrow> locked_in_both n W H qm b i w'"
proof -
  obtain k where loop: "for_retry (AllocateNextMultiSlot_body qm b) MAX_MULTI_ALLOCATE_COUNT 0 w = Some (r, k, w')"
    using assms(4) by (auto simp: AllocateNextMultiSlot_def split: Option.bind_splits)
  show ?thesis
  proof (cases r)
    case None
    with safe_multi_allocation.loop_exhausted [OF _ loop [unfolded None]] assms(1-3,5,6) show ?thesis by simp
  next
    case (Some i)
    with safe_multi_allocation.loop_delivers [OF _ loop [unfolded Some]] assms(1-3,5,6) show ?thesis by simp
  qed
qed

lemma AllocateNextMultiSlot_body_total: "\<exists>r w'. AllocateNextMultiSlot_body qm b w = Some (r, w')"
  by (auto simp: AllocateNextMultiSlot_body_def Let_def split: prod.splits option.splits if_splits)

lemma AllocateNextMultiSlot_returns: "\<exists>r w'. AllocateNextMultiSlot qm b w = Some (r, w')"
proof -
  obtain r k w' where "for_retry (AllocateNextMultiSlot_body qm b) MAX_MULTI_ALLOCATE_COUNT 0 w = Some (r, k, w')"
    using for_retry_returns [of "AllocateNextMultiSlot_body qm b" MAX_MULTI_ALLOCATE_COUNT 0 w]
      AllocateNextMultiSlot_body_total by metis
  then show ?thesis by (simp add: AllocateNextMultiSlot_def)
qed

text \<open>
  Giving slots back. \<open>settled\<close> is the state of the slot \<open>i\<close> of the blocks \<open>C\<close> between the first and
  the last write of a pointer: where it is still in writing it is the writer's, where it is not the
  consumers may have it already.
\<close>

definition releasable :: "'c place set \<Rightarrow> 'c set \<Rightarrow> nat \<Rightarrow> bool" where
  "releasable W C i \<longleftrightarrow> (\<forall>c \<in> C. (c, i) \<notin> W)"

definition in_writing_of :: "'c set \<Rightarrow> nat \<Rightarrow> 'c slot_memory \<Rightarrow> 'c place set" where
  "in_writing_of C i m = {(c, j). c \<in> C \<and> j = i \<and> IsInWriting (m c ! i)}"

definition settled :: "('c \<Rightarrow> nat) \<Rightarrow> 'c place set \<Rightarrow> 'c claims \<Rightarrow> 'c set \<Rightarrow> nat \<Rightarrow> 'c edc_world \<Rightarrow> bool" where
  "settled n W H C i w \<longleftrightarrow>
     safe n (in_writing_of C i (mem w) \<union> W) H w \<and> releasable W C i \<and> (\<forall>c \<in> C. i < n c \<and> unaffected H c)"

lemma settled_start:
  assumes "safe n (C \<times> {i} \<union> W) H w" and "releasable W C i" and "\<forall>c \<in> C. unaffected H c"
  shows "settled n W H C i w" and "c \<in> C \<Longrightarrow> IsInWriting (mem w c ! i)"
proof -
  have g: "i < n c \<and> IsInWriting (mem w c ! i)" if "c \<in> C" for c
    using assms(1) that guarded_writer [of n "C \<times> {i} \<union> W" H "mem w" c i] by (simp add: safe_def)
  then have "in_writing_of C i (mem w) = C \<times> {i}" by (auto simp: in_writing_of_def)
  with assms g show "settled n W H C i w" by (simp add: settled_def)
  show "c \<in> C \<Longrightarrow> IsInWriting (mem w c ! i)" using g by simp
qed

lemma settled_safe: "settled n W H C i w \<Longrightarrow> safe n W H w"
  by (auto simp: settled_def intro: safe_mono)

lemma settled_evolves:
  assumes "settled n W H C i w" and "evolves (consumer_step H) w w'"
  shows "settled n W H C i w'" and "c \<in> C \<Longrightarrow> IsInWriting (mem w' c ! i) = IsInWriting (mem w c ! i)"
proof -
  have same: "IsInWriting (mem w' c ! i) = IsInWriting (mem w c ! i)" if "c \<in> C" for c
    using consumer_steps_writing [of H "mem w" "mem w'" i c] assms that
      guarded_size [of n "in_writing_of C i (mem w) \<union> W" H "mem w" c]
    by (simp add: settled_def safe_def evolves_def)
  then have "in_writing_of C i (mem w') = in_writing_of C i (mem w)" by (auto simp: in_writing_of_def)
  with assms show "settled n W H C i w'" by (auto simp: settled_def intro: safe_evolves)
  show "c \<in> C \<Longrightarrow> IsInWriting (mem w' c ! i) = IsInWriting (mem w c ! i)" by (rule same)
qed

lemma settled_store:
  assumes "settled n W H C i w" and "c \<in> C" and "IsInWriting (mem w c ! i)" and "\<not> IsInWriting v"
  shows "settled n W H C i (store_slot c i v w)"
    and "d \<in> C \<Longrightarrow> d \<noteq> c \<Longrightarrow> IsInWriting (mem (store_slot c i v w) d ! i) = IsInWriting (mem w d ! i)"
proof -
  obtain t w1 where adv: "advance w = (t, w1)" by (cases "advance w")
  have "evolves (consumer_step H) w w1" using assms(1) adv by (auto simp: settled_def safe_def intro: evolves_advance)
  note s1 = settled_evolves [OF assms(1) this]
  let ?m = "put_slot c i v (mem w1)"
  have st: "store_slot c i v w = w1\<lparr>mem := ?m\<rparr>" using adv by (simp add: store_slot_def atomic_store_def)
  from s1(1) have g: "guarded n (in_writing_of C i (mem w1) \<union> W) H (mem w1)" and r: "rely (consumer_step H) w1"
    and rel: "releasable W C i" and n: "i < n d \<and> unaffected H d" if "d \<in> C" for d
    using that by (simp_all add: settled_def safe_def)
  have len: "i < length (mem w1 c)" using guarded_size [OF g [OF assms(2)]] n [OF assms(2)] by simp
  have m: "?m d ! i = (if d = c then v else mem w1 d ! i)" for d using len by (simp add: put_slot_def)
  have split: "in_writing_of C i (mem w1) = insert (c, i) (in_writing_of C i ?m)"
    using assms(2-4) s1(2) [OF assms(2)] by (auto simp: in_writing_of_def m split: if_splits)
  have "guarded n (in_writing_of C i ?m \<union> W) H ?m"
  proof (rule guarded_release)
    show "guarded n (insert (c, i) (in_writing_of C i ?m \<union> W)) H (mem w1)" using g [OF assms(2)] split by simp
    show "(c, i) \<notin> in_writing_of C i ?m \<union> W"
      using rel [OF assms(2)] assms(2,4) by (auto simp: in_writing_of_def m releasable_def)
    show "unaffected H c" using n [OF assms(2)] by simp
  qed
  with s1(1) show "settled n W H C i (store_slot c i v w)" by (simp add: st settled_def safe_def)
  show "IsInWriting (mem (store_slot c i v w) d ! i) = IsInWriting (mem w d ! i)" if "d \<in> C" "d \<noteq> c"
    using s1(2) [OF that(1)] that(2) by (simp add: st m)
qed

lemma ready_word: "\<not> IsInWriting (EventSlotStatus ts 0)" "\<not> IsInWriting (MarkInvalid v)"
  by (simp_all add: IsInWriting_iff MarkInvalid_def)

lemma EventReady_settled:
  assumes "settled n W H C i w" and "c \<in> C" and "IsInWriting (mem w c ! i)"
  shows "settled n W H C i (EventReady c i ts w)"
    and "d \<in> C \<Longrightarrow> d \<noteq> c \<Longrightarrow> IsInWriting (mem (EventReady c i ts w) d ! i) = IsInWriting (mem w d ! i)"
  unfolding EventReady_def Let_def using settled_store [OF assms ready_word(1)] by blast+

text \<open>\<open>Discard\<close> looks again, and leaves alone what the consumers can already see.\<close>

lemma Discard_settled:
  assumes "settled n W H C i w" and "c \<in> C"
  shows "settled n W H C i (Discard c i w)"
proof -
  obtain v w1 where ld: "load_slot c i w = (v, w1)" by (cases "load_slot c i w")
  have "evolves (consumer_step H) w w1" using assms(1) ld by (auto simp: settled_def safe_def intro: evolves_load_slot)
  with assms(1) have s1: "settled n W H C i w1" by (rule settled_evolves)
  have "v = mem w1 c ! i" using ld by (auto simp: load_slot_def get_slot_def dest: atomic_load_value)
  with ld s1 settled_store [OF s1 assms(2) _ ready_word(2)] show ?thesis by (simp add: Discard_def)
qed

subsection \<open>The composite\<close>

text \<open>The blocks that are in use, and what is known of a composite.\<close>

definition controls_of :: "'c edc_composite \<Rightarrow> 'c set" where
  "controls_of cc = {c. asil_b_control cc = Some c \<or> (\<not> ignore_qm_control cc \<and> asil_qm_control cc = Some c)}"

definition composite_ok :: "('c \<Rightarrow> nat) \<Rightarrow> nat \<Rightarrow> 'c edc_composite \<Rightarrow> bool" where
  "composite_ok n num cc \<longleftrightarrow>
     (\<exists>q. asil_qm_control cc = Some q \<and> n q = num \<and>
        (case asil_b_control cc of None \<Rightarrow> \<not> ignore_qm_control cc | Some b \<Rightarrow> b \<noteq> q \<and> n b = num))"

abbreviation same_blocks :: "'c edc_composite \<Rightarrow> 'c edc_composite \<Rightarrow> bool" where
  "same_blocks cc cc' \<equiv> asil_qm_control cc' = asil_qm_control cc \<and> asil_b_control cc' = asil_b_control cc"

definition blocks_of :: "'c edc_composite \<Rightarrow> 'c set" where
  "blocks_of cc = set_option (asil_qm_control cc) \<union> set_option (asil_b_control cc)"

lemma controls_are_blocks: "controls_of cc \<subseteq> blocks_of cc"
  by (auto simp: controls_of_def blocks_of_def)

lemma locked_by_places:
  "locked_by n W H (c, i) w \<Longrightarrow> safe n ({c} \<times> {i} \<union> W) H w \<and> releasable W {c} i \<and> i < n c"
  by (simp add: locked_by_def releasable_def)

lemma locked_in_both_places:
  assumes "locked_in_both n W H qm b i w"
  shows "safe n ({qm, b} \<times> {i} \<union> W) H w \<and> releasable W {qm, b} i \<and> i < n b"
proof -
  have "{qm, b} \<times> {i} \<union> W = insert (qm, i) (insert (b, i) W)" by auto
  with assms show ?thesis by (auto simp: locked_in_both_def locked_by_def releasable_def)
qed

lemma Composite_AllocateNextSlot_safe:
  assumes "safe n W H w" and "composite_ok n num cc" and "\<forall>c \<in> blocks_of cc. unaffected H c"
  obtains (allocated) r cc' w' where "Composite_AllocateNextSlot cc w = Some (r, ignore_qm_control cc', cc', w')"
    and "same_blocks cc cc'" and "ignore_qm_control cc \<longrightarrow> ignore_qm_control cc'" and "composite_ok n num cc'"
    and "ignore_qm_control cc' \<longrightarrow> asil_b_control cc \<noteq> None"
    and "case r of None \<Rightarrow> safe n W H w'
         | Some i \<Rightarrow> safe n (controls_of cc' \<times> {i} \<union> W) H w' \<and> releasable W (controls_of cc') i \<and> i < num"
proof -
  obtain q where q: "asil_qm_control cc = Some q" "n q = num"
    and blocks: "case asil_b_control cc of None \<Rightarrow> \<not> ignore_qm_control cc | Some b \<Rightarrow> b \<noteq> q \<and> n b = num"
    using assms(2) by (auto simp: composite_ok_def)
  have alone: thesis if c: "controls_of cc' = {c}" "n c = num" "unaffected H c" and cc': "same_blocks cc cc'"
      "ignore_qm_control cc \<longrightarrow> ignore_qm_control cc'" "composite_ok n num cc'"
      "ignore_qm_control cc' \<longrightarrow> asil_b_control cc \<noteq> None"
    and start: "safe n W H w1"
    and run: "\<And>r w'. AllocateNextSlot c w1 = Some (r, w') \<Longrightarrow>
      Composite_AllocateNextSlot cc w = Some (r, ignore_qm_control cc', cc', w')" for c cc' w1
  proof -
    obtain r w' where r: "AllocateNextSlot c w1 = Some (r, w')" using AllocateNextSlot_returns [of c w1] by blast
    show thesis
    proof (rule allocated [OF run [OF r] cc'])
      show "case r of None \<Rightarrow> safe n W H w'
         | Some i \<Rightarrow> safe n (controls_of cc' \<times> {i} \<union> W) H w' \<and> releasable W (controls_of cc') i \<and> i < num"
        using AllocateNextSlot_safe [OF start r c(3)] c(1,2) by (auto split: option.splits dest: locked_by_places)
    qed
  qed
  show thesis
  proof (cases "asil_b_control cc")
    case None
    with blocks q assms show thesis
      by (intro alone [of cc q w]) (auto simp: controls_of_def blocks_of_def Composite_AllocateNextSlot_def)
  next
    case (Some b)
    with blocks have b: "b \<noteq> q" "n b = num" by simp_all
    show thesis
    proof (cases "ignore_qm_control cc")
      case True
      with Some b q assms show thesis
        by (intro alone [of cc b w]) (auto simp: controls_of_def blocks_of_def Composite_AllocateNextSlot_def)
    next
      case False
      obtain r w1 where multi: "AllocateNextMultiSlot q b w = Some (r, w1)"
        using AllocateNextMultiSlot_returns [of q b w] by blast
      have "n b = n q" "q \<noteq> b" using b q by auto
      moreover have u: "unaffected H q" "unaffected H b" using assms(3) q Some by (auto simp: blocks_of_def)
      ultimately have locked: "case r of None \<Rightarrow> safe n W H w1 | Some i \<Rightarrow> locked_in_both n W H q b i w1"
        using multi by (intro AllocateNextMultiSlot_safe [OF assms(1)])
      show thesis
      proof (cases r)
        case None
        with locked have "safe n W H w1" by simp
        with None multi False Some b q assms show thesis
          by (intro alone [of "cc\<lparr>ignore_qm_control := True\<rparr>" b w1])
            (auto simp: controls_of_def blocks_of_def Composite_AllocateNextSlot_def composite_ok_def)
      next
        case (Some i)
        have "controls_of cc = {q, b}" using False \<open>asil_b_control cc = Some b\<close> q by (auto simp: controls_of_def)
        moreover have "Composite_AllocateNextSlot cc w = Some (Some i, ignore_qm_control cc, cc, w1)"
          using multi Some False \<open>asil_b_control cc = Some b\<close> q by (simp add: Composite_AllocateNextSlot_def)
        ultimately show thesis
          using allocated [of "Some i" cc w1] locked Some assms(2) b \<open>asil_b_control cc = Some b\<close>
            locked_in_both_places [of n W H q b i w1] by simp
      qed
    qed
  qed
qed

lemma Composite_EventReady_settled:
  assumes "settled n W H C i w" and "\<forall>c \<in> C. IsInWriting (mem w c ! i)" and "controls_of cc \<subseteq> C"
    and "asil_qm_control cc = Some q" and "asil_b_control cc \<noteq> Some q"
  obtains w' where "Composite_EventReady cc i ts w = Some w'" and "settled n W H C i w'"
proof -
  let ?w = "on_control (asil_b_control cc) (\<lambda>b. EventReady b i ts) w"
  have s: "settled n W H C i ?w \<and> (\<forall>c \<in> C. asil_b_control cc \<noteq> Some c \<longrightarrow> IsInWriting (mem ?w c ! i))"
  proof (cases "asil_b_control cc")
    case (Some b)
    then have "b \<in> C" using assms(3) by (auto simp: controls_of_def)
    with EventReady_settled [OF assms(1) this] assms(2) Some show ?thesis by (simp add: on_control_def)
  qed (use assms(1,2) in \<open>simp add: on_control_def\<close>)
  show thesis
  proof (cases "ignore_qm_control cc")
    case True
    with s show thesis by (intro that [of ?w]) (simp_all add: Composite_EventReady_def Let_def)
  next
    case False
    then have "q \<in> C" using assms(3,4) by (auto simp: controls_of_def)
    with s assms(4,5) False EventReady_settled(1) [of n W H C i ?w q ts] show thesis
      by (intro that [of "EventReady q i ts ?w"]) (simp_all add: Composite_EventReady_def Let_def)
  qed
qed

lemma Composite_Discard_settled:
  assumes "settled n W H C i w" and "controls_of cc \<subseteq> C" and "asil_qm_control cc \<noteq> None"
  obtains w' where "Composite_Discard cc i w = Some w'" and "settled n W H C i w'"
proof -
  let ?w = "on_control (asil_b_control cc) (\<lambda>b. Discard b i) w"
  have s: "settled n W H C i ?w"
    using assms(1,2) by (cases "asil_b_control cc") (auto simp: on_control_def controls_of_def intro!: Discard_settled)
  with assms(2,3) show thesis
    by (cases "ignore_qm_control cc")
      (auto simp: Composite_Discard_def Let_def controls_of_def intro!: that Discard_settled)
qed

subsection \<open>The producer\<close>

definition writer_slots :: "'c sample_allocatee_ptr list \<Rightarrow> 'c place set" where
  "writer_slots ps =
     {(c, i). \<exists>p \<in> set ps. \<exists>cp. ptr_control p = Some cp \<and> c \<in> controls_of cp \<and> i = event_slot_index p}"

text \<open>A pointer of the user to a slot of this event, made under an earlier or the present composite.\<close>

definition ptr_ok :: "'c edc_composite \<Rightarrow> nat \<Rightarrow> 'c sample_allocatee_ptr \<Rightarrow> bool" where
  "ptr_ok cc num p \<longleftrightarrow>
     (\<exists>cp. p = SampleAllocateePtr (event_slot_index p) cp (event_slot_index p) \<and> same_blocks cc cp \<and>
        (ignore_qm_control cp \<longrightarrow> ignore_qm_control cc)) \<and> event_slot_index p < num"

locale notifier =
  fixes notify :: "QualityType \<Rightarrow> element_fq_id \<Rightarrow> 's \<Rightarrow> 's run" and usable :: "QualityType \<Rightarrow> 's \<Rightarrow> bool"
  assumes notify_returns: "usable l s \<Longrightarrow> \<exists>s'. notify l ev s = Some s' \<and> (\<forall>k. usable k s \<longrightarrow> usable k s')"

definition producer_ok ::
    "(QualityType \<Rightarrow> 's \<Rightarrow> bool) \<Rightarrow> ('c \<Rightarrow> nat) \<Rightarrow> 'c claims \<Rightarrow>
     'c skeleton_event \<Rightarrow> 'c sample_allocatee_ptr list \<Rightarrow> ('c, 'v, 's) producer_world \<Rightarrow> bool" where
  "producer_ok usable n H se ps w \<longleftrightarrow>
     (\<exists>cc. data_control_composite se = Some cc \<and> composite_ok n (length (storage w)) cc \<and>
        (asil_b_control cc \<noteq> None \<longrightarrow> instance_quality se = kASIL_B) \<and>
        (qm_disconnect se \<longleftrightarrow> ignore_qm_control cc) \<and>
        (\<forall>p \<in> set ps. ptr_ok cc (length (storage w)) p)) \<and>
     (\<forall>cc. data_control_composite se = Some cc \<longrightarrow> (\<forall>c \<in> blocks_of cc. unaffected H c)) \<and>
     length (storage w) \<le> invalid_slot \<and> distinct (map event_slot_index ps) \<and>
     usable kASIL_QM (service w) \<and> (instance_quality se = kASIL_B \<longrightarrow> usable kASIL_B (service w)) \<and>
     safe n (writer_slots ps) H (slots w)"

definition controls_in_use :: "'c skeleton_event \<Rightarrow> 'c set" where
  "controls_in_use se = (case data_control_composite se of None \<Rightarrow> {} | Some cc \<Rightarrow> controls_of cc)"

text \<open>Every pointer owns its slot in all blocks in use.\<close>

lemma ptr_ok_controls:
  assumes "ptr_ok cc num p"
  obtains cp where "ptr_control p = Some cp" and "managed_object p = Some (event_slot_index p)"
    and "controls_of cc \<subseteq> controls_of cp" and "same_blocks cc cp"
proof -
  obtain cp where p: "p = SampleAllocateePtr (event_slot_index p) cp (event_slot_index p)"
    and cp: "same_blocks cc cp" "ignore_qm_control cp \<longrightarrow> ignore_qm_control cc"
    using assms unfolding ptr_ok_def by blast
  have "ptr_control p = Some cp" "managed_object p = Some (event_slot_index p)"
    using arg_cong [OF p, of ptr_control] arg_cong [OF p, of managed_object] by (simp_all add: SampleAllocateePtr_def)
  with cp show thesis by (intro that [of cp]) (auto simp: controls_of_def)
qed

lemma writer_slots_member:
  "p \<in> set ps \<Longrightarrow> ptr_control p = Some cp \<Longrightarrow> controls_of cp \<times> {event_slot_index p} \<subseteq> writer_slots ps"
  by (auto simp: writer_slots_def)

lemma writer_slots_append [simp]: "writer_slots (ps @ qs) = writer_slots ps \<union> writer_slots qs"
  by (auto simp: writer_slots_def)

lemma writer_slots_simps [simp]:
  "writer_slots [] = {}"
  "writer_slots (SampleAllocateePtr i cp i # ps) = controls_of cp \<times> {i} \<union> writer_slots ps"
  by (auto simp: writer_slots_def SampleAllocateePtr_def)

text \<open>A slot of the list belongs to one pointer only.\<close>

lemma own_slot_releasable:
  assumes "distinct (map event_slot_index (ps @ p # qs))" and "ptr_control p = Some cp"
  shows "releasable (writer_slots (ps @ qs)) (controls_of cp) (event_slot_index p)"
    and "writer_slots (ps @ p # qs) = controls_of cp \<times> {event_slot_index p} \<union> writer_slots (ps @ qs)"
  using assms by (auto simp: writer_slots_def releasable_def)

text \<open>The calls of a user, in any order; \<open>k\<close> names one of the pointers he holds.\<close>

datatype 'v producer_call =
    Call_Allocate | Call_Write nat 'v | Call_SendPtr nat | Call_Send 'v | Call_Drop nat

type_synonym ('c, 'v, 's) producer_state =
  "'c skeleton_event \<times> 'c sample_allocatee_ptr list \<times> ('c, 'v, 's) producer_world"

fun run_producer ::
    "(QualityType \<Rightarrow> element_fq_id \<Rightarrow> 's \<Rightarrow> 's run) \<Rightarrow> 'v producer_call \<Rightarrow>
     ('c, 'v, 's) producer_state \<Rightarrow> ('c, 'v, 's) producer_state run" where
  "run_producer notify Call_Allocate (se, ps, w) = do {
     (r, se, w) \<leftarrow> Allocate se w;
     Some (se, (case r of Inl _ \<Rightarrow> ps | Inr p \<Rightarrow> ps @ [p]), w) }"
| "run_producer notify (Call_Write k v) (se, ps, w) =
     (if k < length ps then map_option (\<lambda>w. (se, ps, w)) (write_sample (ps ! k) v w) else Some (se, ps, w))"
| "run_producer notify (Call_SendPtr k) (se, ps, w) =
     (if k < length ps
      then map_option (\<lambda>(r, se, w). (se, remove_at k ps, w)) (Send_sample notify (Some (ps ! k)) se w)
      else Some (se, ps, w))"
| "run_producer notify (Call_Send v) (se, ps, w) =
     map_option (\<lambda>(r, se, w). (se, ps, w)) (Send_value notify v se w)"
| "run_producer notify (Call_Drop k) (se, ps, w) =
     (if k < length ps
      then map_option (\<lambda>sw. (se, remove_at k ps, w\<lparr>slots := sw\<rparr>)) (Ptr_destroy (ps ! k) (slots w))
      else Some (se, ps, w))"

text \<open>
  What every call keeps, beside the invariant: the values of the samples that are held whatever the
  memory, and the block that is never given up.
\<close>

definition main_control :: "'c edc_composite \<Rightarrow> 'c option" where
  "main_control cc = (case asil_b_control cc of Some b \<Rightarrow> Some b | None \<Rightarrow> asil_qm_control cc)"

definition main_block :: "'c skeleton_event \<Rightarrow> 'c option" where
  "main_block se = (case data_control_composite se of None \<Rightarrow> None | Some cc \<Rightarrow> main_control cc)"

definition always_held :: "'c claims \<Rightarrow> 'c place \<Rightarrow> bool" where
  "always_held H p \<longleftrightarrow> (\<forall>m. held_at H m p)"

definition values_kept ::
    "'c claims \<Rightarrow> 'c skeleton_event \<Rightarrow> ('c, 'v, 's) producer_world \<Rightarrow>
     'c skeleton_event \<Rightarrow> ('c, 'v, 's) producer_world \<Rightarrow> bool" where
  "values_kept H se w se' w' \<longleftrightarrow>
     controls_in_use se' \<subseteq> controls_in_use se \<and> main_block se' = main_block se \<and>
     length (storage w') = length (storage w) \<and>
     (\<forall>c i. c \<in> controls_in_use se' \<and> always_held H (c, i) \<longrightarrow> storage w' ! i = storage w ! i)"

lemma values_kept_trans:
  "values_kept H se w se1 w1 \<Longrightarrow> values_kept H se1 w1 se2 w2 \<Longrightarrow> values_kept H se w se2 w2"
  unfolding values_kept_def by (metis subsetD subset_trans)

lemma values_kept_refl: "values_kept H se w se w"
  by (simp add: values_kept_def)

lemma main_control_in_use:
  assumes "composite_ok n num cc"
  obtains c where "c \<in> controls_of cc" and "n c = num" and "main_control cc = Some c"
  using assms by (cases "asil_b_control cc") (auto simp: composite_ok_def controls_of_def main_control_def)

lemma same_main: "same_blocks cc cc' \<Longrightarrow> main_control cc' = main_control cc"
  by (simp add: main_control_def split: option.split)

lemma main_block_in_use:
  assumes "producer_ok usable n H se ps w"
  shows "\<exists>c \<in> controls_in_use se. main_block se = Some c"
proof -
  obtain cc where "data_control_composite se = Some cc" "composite_ok n (length (storage w)) cc"
    using assms by (auto simp: producer_ok_def)
  then show ?thesis
    by (auto simp: controls_in_use_def main_block_def elim!: main_control_in_use [of n "length (storage w)" cc])
qed

context notifier
begin

lemma notify_if_ok:
  assumes "wanted \<longrightarrow> usable l (service w)"
  shows "\<exists>s'. notify_if wanted notify l ev w = Some (w\<lparr>service := s'\<rparr>) \<and> (\<forall>k. usable k (service w) \<longrightarrow> usable k s')"
proof (cases wanted)
  case True
  with assms notify_returns [of l "service w" ev] show ?thesis by (auto simp: notify_if_def)
next
  case False
  then have "notify_if wanted notify l ev w = Some (w\<lparr>service := service w\<rparr>)" by (simp add: notify_if_def)
  then show ?thesis by blast
qed

lemma Allocate_ok:
  assumes "producer_ok usable n H se ps w"
  obtains r se' w' where "Allocate se w = Some (r, se', w')"
    and "producer_ok usable n H se' (case r of Inl _ \<Rightarrow> ps | Inr p \<Rightarrow> ps @ [p]) w'"
    and "values_kept H se w se' w'" and "storage w' = storage w"
proof -
  obtain cc where cc: "data_control_composite se = Some cc" "composite_ok n (length (storage w)) cc"
      "asil_b_control cc \<noteq> None \<longrightarrow> instance_quality se = kASIL_B" "qm_disconnect se \<longleftrightarrow> ignore_qm_control cc"
      "\<forall>p \<in> set ps. ptr_ok cc (length (storage w)) p"
    and rest: "length (storage w) \<le> invalid_slot" "distinct (map event_slot_index ps)" "usable kASIL_QM (service w)"
      "instance_quality se = kASIL_B \<longrightarrow> usable kASIL_B (service w)" "safe n (writer_slots ps) H (slots w)"
      "\<forall>c \<in> blocks_of cc. unaffected H c"
    using assms by (auto simp: producer_ok_def)
  from rest(5) cc(2) rest(6) show thesis
  proof (cases rule: Composite_AllocateNextSlot_safe)
    case (allocated r cc' sw)
    let ?se = "se\<lparr>data_control_composite := Some cc', qm_disconnect := ignore_qm_control cc'\<rparr>"
    obtain offers where run: "Allocate se w =
        Some (case r of None \<Rightarrow> Inl kBindingFailure | Some i \<Rightarrow> Inr (SampleAllocateePtr i cc' i), ?se,
          w\<lparr>slots := sw, qm_stop_offers := offers\<rparr>)"
    proof (cases "\<not> qm_disconnect se \<and> ignore_qm_control cc'")
      case True
      with cc allocated(1,5,6) show thesis
        by (intro that [of "qm_stop_offers w + 1"])
          (auto simp: Allocate_def DisconnectQmConsumers_def contract_simps Let_def split: option.splits)
    next
      case False
      with cc(4) allocated(3) have "qm_disconnect se = ignore_qm_control cc'" by auto
      then have "?se = se\<lparr>data_control_composite := Some cc'\<rparr>" by simp
      with False cc allocated(1,6) show thesis
        by (intro that [of "qm_stop_offers w"])
          (auto simp: Allocate_def contract_simps Let_def split: option.splits)
    qed
    have ptrs: "\<forall>p \<in> set ps. ptr_ok cc' (length (storage w)) p"
      using cc(5) allocated(2,3) by (auto simp: ptr_ok_def)
    have use: "controls_of cc' \<subseteq> controls_of cc"
      using allocated(2,3) by (auto simp: controls_of_def)
    show thesis
    proof (rule that [OF run])
      show "values_kept H se w ?se (w\<lparr>slots := sw, qm_stop_offers := offers\<rparr>)"
        using use cc(1) same_main [OF allocated(2)] by (simp add: values_kept_def controls_in_use_def main_block_def)
      have u: "\<forall>c \<in> blocks_of cc'. unaffected H c" using rest(6) allocated(2) by (simp add: blocks_of_def)
      show "producer_ok usable n H ?se
         (case (case r of None \<Rightarrow> Inl kBindingFailure | Some i \<Rightarrow> Inr (SampleAllocateePtr i cc' i)) of
            Inl _ \<Rightarrow> ps | Inr p \<Rightarrow> ps @ [p]) (w\<lparr>slots := sw, qm_stop_offers := offers\<rparr>)"
      proof (cases r)
        case None
        with cc(3) rest(1-5) u allocated(2,4-6) ptrs show ?thesis by (simp add: producer_ok_def)
      next
        case (Some i)
        with allocated(6) have i: "safe n (controls_of cc' \<times> {i} \<union> writer_slots ps) H sw"
          "releasable (writer_slots ps) (controls_of cc') i" "i < length (storage w)" by simp_all
        have "event_slot_index p \<noteq> i" if "p \<in> set ps" for p
        proof
          assume pi: "event_slot_index p = i"
          obtain c where c: "c \<in> controls_of cc'" using allocated(4) by (rule main_control_in_use)
          have "ptr_ok cc' (length (storage w)) p" using ptrs that by simp
          then obtain cp where "ptr_control p = Some cp" "controls_of cc' \<subseteq> controls_of cp"
            by (rule ptr_ok_controls)
          with writer_slots_member [OF that] pi c have "(c, i) \<in> writer_slots ps" by blast
          with i(2) c show False by (simp add: releasable_def)
        qed
        moreover have "ptr_ok cc' (length (storage w)) (SampleAllocateePtr i cc' i)"
          using i(3) by (simp add: ptr_ok_def SampleAllocateePtr_def)
        moreover have "event_slot_index (SampleAllocateePtr i cc' i) = i" by (simp add: SampleAllocateePtr_def)
        ultimately show ?thesis
          using Some cc(3) rest(1-5) u allocated(2,4,5) ptrs i by (auto simp: producer_ok_def Un_commute)
      qed
    qed simp
  qed
qed


text \<open>A pointer that leaves the list gives its slots back.\<close>

lemma Ptr_destroy_ok:
  assumes "settled n W H (controls_of cp) (event_slot_index p) sw" and "ptr_ok cc num p" and "num \<le> invalid_slot"
    and "asil_qm_control cc \<noteq> None" and "ptr_control p = Some cp"
  obtains sw' where "Ptr_destroy p sw = Some sw'" and "safe n W H sw'"
proof -
  have cp: "asil_qm_control cp \<noteq> None"
    using assms(2,4,5) by (auto elim!: ptr_ok_controls)
  have idx: "event_slot_index p < invalid_slot" using assms(2,3) by (simp add: ptr_ok_def)
  from assms(1) subset_refl cp obtain sw' where "Composite_Discard cp (event_slot_index p) sw = Some sw'"
      "settled n W H (controls_of cp) (event_slot_index p) sw'"
    by (rule Composite_Discard_settled)
  with assms(5) idx show thesis
    by (intro that [of sw']) (simp_all add: Ptr_destroy_def Ptr_internal_delete_def Let_def settled_safe)
qed

text \<open>The slots of a pointer before its first write.\<close>

lemma own_slot_settled:
  assumes "safe n (writer_slots (ps @ p # qs)) H sw" and "distinct (map event_slot_index (ps @ p # qs))"
    and "ptr_control p = Some cp" and "\<forall>c \<in> blocks_of cp. unaffected H c"
  shows "settled n (writer_slots (ps @ qs)) H (controls_of cp) (event_slot_index p) sw"
    and "\<forall>c \<in> controls_of cp. IsInWriting (mem sw c ! event_slot_index p)"
proof -
  note own = own_slot_releasable [OF assms(2,3)]
  have "\<forall>c \<in> controls_of cp. unaffected H c" using assms(4) controls_are_blocks [of cp] by auto
  note start = settled_start [OF assms(1) [unfolded own(2)] own(1) this]
  show "settled n (writer_slots (ps @ qs)) H (controls_of cp) (event_slot_index p) sw" by (rule start(1))
  show "\<forall>c \<in> controls_of cp. IsInWriting (mem sw c ! event_slot_index p)" using start(2) by auto
qed

lemma Send_sample_ok:
  assumes "producer_ok usable n H se (ps @ p # qs) w"
  obtains se' w' where "Send_sample notify (Some p) se w = Some (Inr (), se', w')"
    and "producer_ok usable n H se' (ps @ qs) w'" and "values_kept H se w se' w'"
proof -
  let ?num = "length (storage w)" and ?i = "event_slot_index p" and ?W = "writer_slots (ps @ qs)"
  obtain cc where cc: "data_control_composite se = Some cc" "composite_ok n ?num cc"
      "asil_b_control cc \<noteq> None \<longrightarrow> instance_quality se = kASIL_B" "qm_disconnect se \<longleftrightarrow> ignore_qm_control cc"
      "\<forall>p \<in> set (ps @ p # qs). ptr_ok cc ?num p"
    and rest: "?num \<le> invalid_slot" "distinct (map event_slot_index (ps @ p # qs))" "usable kASIL_QM (service w)"
      "instance_quality se = kASIL_B \<longrightarrow> usable kASIL_B (service w)"
      "safe n (writer_slots (ps @ p # qs)) H (slots w)" "\<forall>c \<in> blocks_of cc. unaffected H c"
    using assms by (auto simp: producer_ok_def)
  have p: "ptr_ok cc ?num p" using cc(5) by simp
  then obtain cp where cp: "ptr_control p = Some cp" "controls_of cc \<subseteq> controls_of cp" "same_blocks cc cp"
    by (rule ptr_ok_controls)
  have "\<forall>c \<in> blocks_of cp. unaffected H c" using rest(6) cp(3) by (simp add: blocks_of_def)
  note own = own_slot_settled [OF rest(5,2) cp(1) this]
  obtain q where q: "asil_qm_control cc = Some q" "asil_b_control cc \<noteq> Some q"
    using cc(2) by (auto simp: composite_ok_def split: option.splits)
  then have qm: "asil_qm_control cc \<noteq> None" by simp
  from own cp(2) q obtain sw1 where
    ready: "Composite_EventReady cc ?i (current_timestamp se + 1) (slots w) = Some sw1"
    and s1: "settled n ?W H (controls_of cp) ?i sw1"
    by (rule Composite_EventReady_settled)
  let ?se = "se\<lparr>current_timestamp := current_timestamp se + 1\<rparr>" and ?w1 = "w\<lparr>slots := sw1\<rparr>"
  obtain s2 where n1: "notify_if (\<not> qm_disconnect se) notify kASIL_QM (event_fqn se) ?w1 = Some (?w1\<lparr>service := s2\<rparr>)"
    and u1: "\<forall>k. usable k (service w) \<longrightarrow> usable k s2"
  proof -
    have "\<not> qm_disconnect se \<longrightarrow> usable kASIL_QM (service ?w1)" using rest(3) by simp
    from notify_if_ok [OF this, of "event_fqn se"] that show thesis by auto
  qed
  obtain s3 where n2: "notify_if (instance_quality se = kASIL_B) notify kASIL_B (event_fqn se) (?w1\<lparr>service := s2\<rparr>) =
      Some (?w1\<lparr>service := s3\<rparr>)" and u2: "\<forall>k. usable k s2 \<longrightarrow> usable k s3"
  proof -
    have "instance_quality se = kASIL_B \<longrightarrow> usable kASIL_B (service (?w1\<lparr>service := s2\<rparr>))" using rest(4) u1 by simp
    from notify_if_ok [OF this, of "event_fqn se"] that show thesis by auto
  qed
  obtain sw2 where drop: "Ptr_destroy p sw1 = Some sw2" and s2: "safe n ?W H sw2"
    using s1 p rest(1) qm cp(1) by (rule Ptr_destroy_ok)
  show thesis
  proof (rule that)
    show "Send_sample notify (Some p) se w = Some (Inr (), ?se, w\<lparr>slots := sw2, service := s3\<rparr>)"
      using cc(1) ready n1 n2 drop by (simp add: Send_sample_def GetReferencedSlot_def Let_def)
    show "producer_ok usable n H ?se (ps @ qs) (w\<lparr>slots := sw2, service := s3\<rparr>)"
      using cc rest(1-4,6) s2 u1 u2 by (auto simp: producer_ok_def)
    show "values_kept H se w ?se (w\<lparr>slots := sw2, service := s3\<rparr>)"
      by (simp add: values_kept_def controls_in_use_def main_block_def)
  qed
qed

lemma write_sample_ok:
  assumes "producer_ok usable n H se ps w" and "p \<in> set ps"
  obtains w' where "write_sample p v w = Some w'" and "producer_ok usable n H se ps w'" and "values_kept H se w se w'"
proof -
  obtain cc where cc: "data_control_composite se = Some cc" "ptr_ok cc (length (storage w)) p"
    and s: "guarded n (writer_slots ps) H (mem (slots w))"
    using assms by (auto simp: producer_ok_def safe_def)
  from cc(2) obtain cp where cp: "ptr_control p = Some cp" "managed_object p = Some (event_slot_index p)"
      "controls_of cc \<subseteq> controls_of cp"
    by (rule ptr_ok_controls)
  have "event_slot_index p \<noteq> i" if "c \<in> controls_of cc" "always_held H (c, i)" for c i
    using writer_slot_not_held [OF s, of c i] writer_slots_member [OF assms(2) cp(1)] cp(3) that
    unfolding always_held_def by blast
  then have "values_kept H se w se (w\<lparr>storage := (storage w)[event_slot_index p := v]\<rparr>)"
    using cc(1) by (auto simp: values_kept_def controls_in_use_def)
  moreover have "producer_ok usable n H se ps (w\<lparr>storage := (storage w)[event_slot_index p := v]\<rparr>)"
    using assms(1) by (simp add: producer_ok_def)
  ultimately show thesis using cp(2) that by (simp add: write_sample_def)
qed


lemma Send_value_ok:
  assumes "producer_ok usable n H se ps w"
  obtains r se' w' where "Send_value notify v se w = Some (r, se', w')"
    and "producer_ok usable n H se' ps w'" and "values_kept H se w se' w'"
  using assms
proof (rule Allocate_ok)
  fix r se1 w1
  assume run: "Allocate se w = Some (r, se1, w1)" and kept1: "values_kept H se w se1 w1"
    and ok1: "producer_ok usable n H se1 (case r of Inl _ \<Rightarrow> ps | Inr p \<Rightarrow> ps @ [p]) w1"
  show thesis
  proof (cases r)
    case (Inl e)
    with run ok1 kept1 that [of "Inl kSampleAllocationFailure" se1 w1] show thesis by (simp add: Send_value_def)
  next
    case (Inr p)
    with ok1 have ok: "producer_ok usable n H se1 (ps @ [p]) w1" by simp
    obtain w2 where w2: "write_sample p v w1 = Some w2" "producer_ok usable n H se1 (ps @ [p]) w2"
        "values_kept H se1 w1 se1 w2"
      by (rule write_sample_ok [OF ok, of p v]) simp_all
    obtain se3 w3 where w3: "Send_sample notify (Some p) se1 w2 = Some (Inr (), se3, w3)"
        "producer_ok usable n H se3 (ps @ []) w3" "values_kept H se1 w2 se3 w3"
      using w2(2) by (rule Send_sample_ok)
    have "values_kept H se w se3 w3" using kept1 w2(3) w3(3) by (blast intro: values_kept_trans)
    with run Inr w2(1) w3 show thesis by (intro that) (simp_all add: Send_value_def)
  qed
qed

lemma drop_ok:
  assumes "producer_ok usable n H se (ps @ p # qs) w"
  obtains sw where "Ptr_destroy p (slots w) = Some sw" and "producer_ok usable n H se (ps @ qs) (w\<lparr>slots := sw\<rparr>)"
proof -
  let ?num = "length (storage w)" and ?W = "writer_slots (ps @ qs)"
  obtain cc where cc: "data_control_composite se = Some cc" "composite_ok n ?num cc"
      "\<forall>p \<in> set (ps @ p # qs). ptr_ok cc ?num p"
    and rest: "?num \<le> invalid_slot" "distinct (map event_slot_index (ps @ p # qs))"
      "safe n (writer_slots (ps @ p # qs)) H (slots w)" "\<forall>c \<in> blocks_of cc. unaffected H c"
    using assms by (auto simp: producer_ok_def)
  have p: "ptr_ok cc ?num p" using cc(3) by simp
  then obtain cp where cp: "ptr_control p = Some cp" "same_blocks cc cp" by (rule ptr_ok_controls)
  have "\<forall>c \<in> blocks_of cp. unaffected H c" using rest(4) cp(2) by (simp add: blocks_of_def)
  note own = own_slot_settled [OF rest(3,2) cp(1) this]
  have qm: "asil_qm_control cc \<noteq> None" using cc(2) by (auto simp: composite_ok_def)
  obtain sw where sw: "Ptr_destroy p (slots w) = Some sw" "safe n ?W H sw"
    using own(1) p rest(1) qm cp(1) by (rule Ptr_destroy_ok)
  with assms show thesis by (intro that) (auto simp: producer_ok_def)
qed

lemma producer_step_ok:
  assumes "producer_ok usable n H se ps w"
  obtains se' ps' w' where "run_producer notify c (se, ps, w) = Some (se', ps', w')"
    and "producer_ok usable n H se' ps' w'" and "values_kept H se w se' w'"
proof (cases c)
  case Call_Allocate
  from assms show thesis
    by (rule Allocate_ok) (use Call_Allocate in \<open>auto intro: that\<close>)
next
  case (Call_Write k v)
  show thesis
  proof (cases "k < length ps")
    case True
    then have "ps ! k \<in> set ps" by simp
    with assms obtain w' where "write_sample (ps ! k) v w = Some w'" "producer_ok usable n H se ps w'"
        "values_kept H se w se w'"
      by (rule write_sample_ok)
    with True Call_Write that show thesis by simp
  qed (use assms Call_Write that values_kept_refl in auto)
next
  case (Call_SendPtr k)
  show thesis
  proof (cases "k < length ps")
    case True
    with assms have "producer_ok usable n H se (take k ps @ ps ! k # drop (Suc k) ps) w"
      by (simp add: id_take_nth_drop [symmetric])
    then obtain se' w' where "Send_sample notify (Some (ps ! k)) se w = Some (Inr (), se', w')"
        "producer_ok usable n H se' (take k ps @ drop (Suc k) ps) w'" "values_kept H se w se' w'"
      by (rule Send_sample_ok)
    with True Call_SendPtr that show thesis by (simp add: remove_at_def)
  qed (use assms Call_SendPtr that values_kept_refl in auto)
next
  case (Call_Send v)
  from assms obtain r se' w' where "Send_value notify v se w = Some (r, se', w')" "producer_ok usable n H se' ps w'"
      "values_kept H se w se' w'"
    by (rule Send_value_ok)
  with Call_Send that show thesis by simp
next
  case (Call_Drop k)
  show thesis
  proof (cases "k < length ps")
    case True
    with assms have "producer_ok usable n H se (take k ps @ ps ! k # drop (Suc k) ps) w"
      by (simp add: id_take_nth_drop [symmetric])
    then obtain sw where "Ptr_destroy (ps ! k) (slots w) = Some sw"
        "producer_ok usable n H se (take k ps @ drop (Suc k) ps) (w\<lparr>slots := sw\<rparr>)"
      by (rule drop_ok)
    with True Call_Drop that show thesis
      by (simp add: remove_at_def values_kept_def)
  qed (use assms Call_Drop that values_kept_refl in auto)
qed

lemma producer_history_ok:
  assumes "producer_ok usable n H se ps w"
  shows "\<exists>se' ps' w'. fold_run (run_producer notify) cs (se, ps, w) = Some (se', ps', w') \<and>
    producer_ok usable n H se' ps' w' \<and> values_kept H se w se' w'"
  using assms
proof (induction cs arbitrary: se ps w)
  case Nil
  then show ?case using values_kept_refl by auto
next
  case (Cons c cs)
  from Cons.prems obtain se1 ps1 w1 where s1: "run_producer notify c (se, ps, w) = Some (se1, ps1, w1)"
      "producer_ok usable n H se1 ps1 w1" "values_kept H se w se1 w1"
    by (rule producer_step_ok)
  from Cons.IH [OF s1(2)] obtain se2 ps2 w2 where "fold_run (run_producer notify) cs (se1, ps1, w1) = Some (se2, ps2, w2)"
      "producer_ok usable n H se2 ps2 w2" "values_kept H se1 w1 se2 w2" by blast
  with s1 show ?case by (auto intro: values_kept_trans)
qed

end

subsection \<open>The messaging of the process as the notifier\<close>

lemma NotifyEventRemote_loop_total:
  assumes "level_ok l (mp_asil_b_capability c)" and "senders_wf c"
  shows "\<exists>w' c'. NotifyEventRemote_loop n l e msg buf start w c = Some (w', c') \<and> senders_wf c' \<and>
    mp_asil_b_capability c' = mp_asil_b_capability c"
  using assms
proof (induction n arbitrary: buf start w c)
  case 0
  then show ?case by simp
next
  case (Suc n)
  obtain num further buf' w1 where copy: "critical (CopyNodeIdentifiers e buf start) w = ((num, further, buf'), w1)"
    by (metis prod_cases3 surj_pair)
  obtain c1 where c1: "send_to_nodes l msg (take num buf') c = Some c1" "senders_wf c1"
      "mp_asil_b_capability c1 = mp_asil_b_capability c"
    using Suc.prems by (rule send_to_nodes_outcome)
  with Suc.IH [of c1 buf' "last buf' + 1" w1] Suc.prems copy show ?case by (cases further) auto
qed

definition facade_usable :: "QualityType \<Rightarrow> 'h message_passing_facade \<Rightarrow> bool" where
  "facade_usable l s \<longleftrightarrow>
     handler_wf (notify_event_handler s) \<and> level_ok l (asil_b_capability (notify_event_handler s))"

lemma NotifyEvent_returns:
  assumes "handler_wf h" and "level_ok l (asil_b_capability h)"
  obtains h' where "NotifyEvent l ev h = Some h'" and "handler_wf h'" and "asil_b_capability h' = asil_b_capability h"
proof -
  obtain w c where loop: "NotifyEventRemote_loop 255 l (fq_key ev) (own_message kNotifyEvent ev h)
       (replicate NodeIdTmpBufferSize 0) 0 (control_data l h) (mp_control h) = Some (w, c)"
    and c: "senders_wf c" "mp_asil_b_capability c = mp_asil_b_capability (mp_control h)"
    using NotifyEventRemote_loop_total [of l "mp_control h"] assms by (fastforce simp: handler_wf_def)
  let ?h = "(put_control_data l w h)\<lparr>mp_control := c\<rparr>"
  have remote: "NotifyEventRemote l ev h = Some ?h" using loop by (simp add: NotifyEventRemote_def)
  have wf: "handler_wf ?h" "asil_b_capability ?h = asil_b_capability h"
    using c assms(1) by (simp_all add: handler_wf_def put_control_data_def)
  obtain found w' where f: "critical (\<lambda>m. (handlers_for (fq_key ev) m \<noteq> [], m)) (control_data l ?h) = (found, w')"
    by (cases "critical (\<lambda>m. (handlers_for (fq_key ev) m \<noteq> [], m)) (control_data l ?h)")
  let ?h2 = "put_control_data l w' ?h"
  have "NotifyEvent l ev h = Some (if found then ?h2\<lparr>posted := posted ?h2 @ [(l, ev)]\<rparr> else ?h2)"
    using assms(2) remote f by (simp add: NotifyEvent_def require_level_def contract_simps Let_def)
  with wf show thesis
    by (intro that [of "if found then ?h2\<lparr>posted := posted ?h2 @ [(l, ev)]\<rparr> else ?h2"])
      (auto simp: handler_wf_def put_control_data_def)
qed

interpretation facade_notifier: notifier "Facade_NotifyEvent :: _ \<Rightarrow> _ \<Rightarrow> 'h message_passing_facade \<Rightarrow> _" facade_usable
proof unfold_locales
  fix l ev and s :: "'h message_passing_facade"
  assume "facade_usable l s"
  then have "handler_wf (notify_event_handler s)" "level_ok l (asil_b_capability (notify_event_handler s))"
    by (simp_all add: facade_usable_def)
  then obtain h' where "NotifyEvent l ev (notify_event_handler s) = Some h'" "handler_wf h'"
      "asil_b_capability h' = asil_b_capability (notify_event_handler s)"
    by (rule NotifyEvent_returns)
  then show "\<exists>s'. Facade_NotifyEvent l ev s = Some s' \<and> (\<forall>k. facade_usable k s \<longrightarrow> facade_usable k s')"
    by (auto simp: Facade_NotifyEvent_def on_handler_def facade_usable_def)
qed

subsection \<open>From the offer on\<close>

lemma GetLatestTimestamp_loop_evolves:
  "GetLatestTimestamp_loop c idxs ts w = (r, w') \<Longrightarrow> rely R w \<Longrightarrow> evolves R w w'"
proof (induction idxs arbitrary: ts w)
  case Nil
  then show ?case by (auto intro: evolves_refl)
next
  case (Cons i idxs)
  obtain v w1 where ld: "load_slot c i w = (v, w1)" by (cases "load_slot c i w")
  have e: "evolves R w w1" using Cons.prems(2) ld by (rule evolves_load_slot)
  have step: "evolves R w w'" if "GetLatestTimestamp_loop c idxs ts' w1 = (r, w')" for ts'
    using e Cons.IH [OF that evolves_rely [OF e]] by (rule evolves_trans)
  show ?case using Cons.prems(1) ld by (auto split: if_splits intro: step)
qed

lemma PrepareOffer_ok:
  assumes "composite_ok n (length (storage w)) cc" and "\<not> ignore_qm_control cc"
    and "asil_b_control cc \<noteq> None \<longrightarrow> quality = kASIL_B" and "length (storage w) \<le> invalid_slot"
    and "usable kASIL_QM (service w)" and "quality = kASIL_B \<longrightarrow> usable kASIL_B (service w)"
    and "safe n {} H (slots w)" and "\<forall>c \<in> blocks_of cc. unaffected H c"
  obtains se w' where "PrepareOffer cc (SkeletonEvent ev quality) w = Some (Inr (), se, w')"
    and "producer_ok usable n H se [] w'" and "main_block se = main_control cc"
proof -
  obtain control where control: "(case asil_b_control cc of Some b \<Rightarrow> Some b | None \<Rightarrow> asil_qm_control cc) = Some control"
    using assms(1) by (cases "asil_b_control cc") (auto simp: composite_ok_def)
  obtain ts sw where latest: "GetLatestTimestamp_loop control [0..<num_slots_of control (slots w)] 1 (slots w) = (ts, sw)"
    by (cases "GetLatestTimestamp_loop control [0..<num_slots_of control (slots w)] 1 (slots w)")
  have "rely (consumer_step H) (slots w)" using assms(7) by (simp add: safe_def)
  with latest have "evolves (consumer_step H) (slots w) sw" by (rule GetLatestTimestamp_loop_evolves)
  with assms(7) have "safe n {} H sw" by (rule safe_evolves)
  with assms control latest show thesis
    by (intro that [of "(SkeletonEvent ev quality)\<lparr>data_control_composite := Some cc, current_timestamp := ts\<rparr>"
          "w\<lparr>slots := sw\<rparr>"])
      (simp_all add: PrepareOffer_def GetLatestTimestamp_def SkeletonEvent_def producer_ok_def main_block_def)
qed

text \<open>Samples that are claimed now and kept from now on are claims that do not depend on the memory.\<close>

lemma producer_ok_from_now_on:
  assumes "producer_ok usable n H se ps w" and "K \<subseteq>\<^sub>m H (mem (slots w))" and "rely (consumer_step (\<lambda>_. K)) (slots w)"
  shows "producer_ok usable n (\<lambda>_. K) se ps w"
proof -
  have g: "guarded n (writer_slots ps) H (mem (slots w))" using assms(1) by (simp add: producer_ok_def safe_def)
  have "H (mem (slots w)) p = Some ts" if "K p = Some ts" for p ts
    using assms(2) that by (metis domI map_le_def)
  with g have "guarded n (writer_slots ps) (\<lambda>_. K) (mem (slots w))"
    unfolding guarded_def true_claims_def by blast
  moreover have "unaffected (\<lambda>_. K) c" for c by (simp add: unaffected_def)
  ultimately show ?thesis using assms(1,3) unfolding producer_ok_def safe_def by blast
qed

text \<open>
  A \<open>Send\<close> of a value is a history of the other calls, and a call either writes a value and leaves
  the slots alone, or acts on the slots and leaves the values alone. So the moments between two
  calls are all there are at which the values change.
\<close>

lemma send_is_a_history:
  assumes "Allocate se w = Some (r, se1, w1)"
  shows "run_producer notify (Call_Send v) (se, ps, w) =
    fold_run (run_producer notify)
      (case r of Inl _ \<Rightarrow> [Call_Allocate]
       | Inr _ \<Rightarrow> [Call_Allocate, Call_Write (length ps) v, Call_SendPtr (length ps)]) (se, ps, w)"
proof (cases r)
  case (Inr p)
  have "run_producer notify (Call_Send v) (se, ps, w) = do {
      w2 \<leftarrow> write_sample p v w1; (r, se3, w3) \<leftarrow> Send_sample notify (Some p) se1 w2; Some (se3, ps, w3) }"
    using assms Inr by (auto simp: Send_value_def split: Option.bind_splits)
  with assms Inr show ?thesis
    by (auto simp: remove_at_def bind_map_option comp_def map_conv_bind_option split: Option.bind_splits)
qed (use assms in \<open>simp add: Send_value_def\<close>)

lemma call_writes_or_acts:
  assumes "run_producer notify call (se, ps, w) = Some (se', ps', w')"
  shows "case call of Call_Write k v \<Rightarrow> slots w' = slots w | Call_Send v \<Rightarrow> True | _ \<Rightarrow> storage w' = storage w"
proof (cases call)
  case Call_Allocate
  with assms obtain r where "Allocate se w = Some (r, se', w')" by (auto simp: bind_eq_Some_conv)
  then have "storage w' = storage w"
    by (auto simp: Allocate_def DisconnectQmConsumers_def contract_simps Let_def split: Option.bind_splits option.splits if_splits)
  with Call_Allocate show ?thesis by simp
next
  case (Call_Write k v)
  with assms show ?thesis by (auto simp: write_sample_def bind_eq_Some_conv split: if_splits)
next
  case (Call_SendPtr k)
  with assms have "storage w' = storage w"
    by (auto simp: Send_sample_def notify_if_def GetReferencedSlot_def Let_def contract_simps bind_eq_Some_conv
        split: if_splits option.splits Option.bind_splits)
  with Call_SendPtr show ?thesis by simp
qed (use assms in \<open>auto split: if_splits\<close>)

text \<open>
  Property C1: whatever a producer does after its offer - allocate, write through the pointers it
  holds, send, drop, in any order and number - and however consumers take, keep and drop samples
  before, between and during its calls, the process does not end, and whatever a consumer claims to
  hold is there: its slot is not in writing, has a reader, and has the timestamp the consumer
  knows, whether the sample was taken before the offer or while a call was under way. The sample of
  a consumer that holds on to it from some point of the history on keeps its slot and its timestamp
  up to the end; and its value is not overwritten either as long as the control block of the
  consumer is in use: the one that is never given up (that of the ASIL-B consumers if there is one)
  is in use at every time, that of the QM consumers beside it until the event is disconnected from
  them. The consumers are assumed to do what \<open>consumer_step\<close> says.
\<close>

theorem held_samples_are_never_overwritten:
  fixes w :: "('c, 'v, 'h message_passing_facade) producer_world"
  assumes "composite_ok n (length (storage w)) cc" and "\<not> ignore_qm_control cc"
    and "asil_b_control cc \<noteq> None \<longrightarrow> quality = kASIL_B" and "length (storage w) \<le> 65535"
    and "facade_usable kASIL_QM (service w)" and "quality = kASIL_B \<longrightarrow> facade_usable kASIL_B (service w)"
    and "safe n {} H (slots w)" and "\<forall>c \<in> blocks_of cc. unaffected H c"
  shows "\<exists>se w0 se1 ps1 w1 se2 ps2 w2.
    PrepareOffer cc (SkeletonEvent ev quality) w = Some (Inr (), se, w0) \<and>
    fold_run (run_producer Facade_NotifyEvent) calls (se, [], w0) = Some (se1, ps1, w1) \<and>
    fold_run (run_producer Facade_NotifyEvent) more_calls (se1, ps1, w1) = Some (se2, ps2, w2) \<and>
    (\<forall>c i ts. H (mem (slots w1)) (c, i) = Some ts \<longrightarrow>
       \<not> IsInWriting (mem (slots w1) c ! i) \<and> GetReferenceCount (mem (slots w1) c ! i) \<noteq> 0 \<and>
       GetTimeStamp (mem (slots w1) c ! i) = ts) \<and>
    (\<forall>K. K \<subseteq>\<^sub>m H (mem (slots w1)) \<and> rely (consumer_step (\<lambda>_. K)) (slots w1) \<longrightarrow>
       (\<forall>c i ts. K (c, i) = Some ts \<longrightarrow>
          \<not> IsInWriting (mem (slots w2) c ! i) \<and> GetReferenceCount (mem (slots w2) c ! i) \<noteq> 0 \<and>
          GetTimeStamp (mem (slots w2) c ! i) = ts \<and>
          (c \<in> controls_in_use se2 \<longrightarrow> storage w2 ! i = storage w1 ! i))) \<and>
    (\<exists>c \<in> controls_in_use se2. main_control cc = Some c)"
proof -
  obtain se w0 where offer: "PrepareOffer cc (SkeletonEvent ev quality) w = Some (Inr (), se, w0)"
    and ok: "producer_ok facade_usable n H se [] w0" and main: "main_block se = main_control cc"
    using assms(1-3) assms(4) [folded invalid_slot_def] assms(5-8) by (rule PrepareOffer_ok)
  obtain se1 ps1 w1 where run1: "fold_run (run_producer Facade_NotifyEvent) calls (se, [], w0) = Some (se1, ps1, w1)"
    and ok1: "producer_ok facade_usable n H se1 ps1 w1" and kept1: "values_kept H se w0 se1 w1"
    using facade_notifier.producer_history_ok [OF ok] by blast
  obtain se2 ps2 w2 where run2: "fold_run (run_producer Facade_NotifyEvent) more_calls (se1, ps1, w1) = Some (se2, ps2, w2)"
    and ok2: "producer_ok facade_usable n H se2 ps2 w2" and kept2: "values_kept H se1 w1 se2 w2"
    using facade_notifier.producer_history_ok [OF ok1] by blast
  have claims: "guarded n (writer_slots ps1) H (mem (slots w1))" using ok1 by (simp add: producer_ok_def safe_def)
  have "\<exists>c \<in> controls_in_use se2. main_control cc = Some c"
    using main_block_in_use [OF ok2] kept1 kept2 main by (simp add: values_kept_def)
  moreover have "\<not> IsInWriting (mem (slots w2) c ! i) \<and> GetReferenceCount (mem (slots w2) c ! i) \<noteq> 0 \<and>
      GetTimeStamp (mem (slots w2) c ! i) = ts \<and> (c \<in> controls_in_use se2 \<longrightarrow> storage w2 ! i = storage w1 ! i)"
    if K: "K \<subseteq>\<^sub>m H (mem (slots w1))" "rely (consumer_step (\<lambda>_. K)) (slots w1)" and held: "K (c, i) = Some ts" for K c i ts
  proof -
    obtain ps' where "producer_ok facade_usable n (\<lambda>_. K) se2 ps' w2" "values_kept (\<lambda>_. K) se1 w1 se2 w2"
      using facade_notifier.producer_history_ok [OF producer_ok_from_now_on [OF ok1 K], of more_calls] run2 by auto
    moreover from this have "guarded n (writer_slots ps') (\<lambda>_. K) (mem (slots w2))" by (simp add: producer_ok_def safe_def)
    ultimately show ?thesis
      using guarded_held [of n "writer_slots ps'" "\<lambda>_. K" "mem (slots w2)" c i ts] held
      by (auto simp: values_kept_def always_held_def held_at_def)
  qed
  ultimately show ?thesis using offer run1 run2 guarded_held [OF claims] by blast
qed

text \<open>
  A consumer that holds nothing when the offer begins takes an old sample while the offer is under
  way, and keeps it. It notes in a block of its own that it holds the sample.
\<close>

definition noted_claim :: "bool claims" where
  "noted_claim m = (if m False = [EventSlotStatus 0 1] then [(True, 0) \<mapsto> 1] else Map.empty)"

definition late_reader :: "bool slot_memory \<Rightarrow> bool slot_memory" where
  "late_reader m =
     (if m False = [INVALID] \<and> m True = [EventSlotStatus 1 0, INVALID]
      then (\<lambda>c. if c then [EventSlotStatus 1 1, INVALID] else [EventSlotStatus 0 1]) else m)"

definition late_reader_world :: "(bool, string, string message_passing_facade) producer_world" where
  "late_reader_world =
     \<lparr>slots = \<lparr>mem = (\<lambda>c. if c then [EventSlotStatus 1 0, INVALID] else [INVALID]), sched = [Tick late_reader False],
        num_alloc_misses = 0, num_ref_misses = 0, num_alloc_retries = 0, num_ref_retries = 0\<rparr>,
      storage = [''old'', ''unused''], service = \<lparr>notify_event_handler = new_handler False 1\<rparr>, qm_stop_offers = 0\<rparr>"

definition late_reader_composite :: "bool edc_composite" where
  "late_reader_composite = \<lparr>asil_qm_control = Some True, asil_b_control = None, ignore_qm_control = False\<rparr>"

lemma late_reader_cases:
  obtains "late_reader m = m"
    | "m = (\<lambda>c. if c then [EventSlotStatus 1 0, INVALID] else [INVALID])"
      and "late_reader m = (\<lambda>c. if c then [EventSlotStatus 1 1, INVALID] else [EventSlotStatus 0 1])"
  by (cases "m False = [INVALID] \<and> m True = [EventSlotStatus 1 0, INVALID]") (auto simp: late_reader_def fun_eq_iff)

lemma late_reader_step: "consumer_step noted_claim m (late_reader m)"
  by (cases m rule: late_reader_cases)
    (auto simp: consumer_step_def less_Suc_eq IsInWriting_iff true_claims_def noted_claim_def split: if_splits)

lemma late_reader_start:
  "safe (\<lambda>c. if c then 2 else 1) {} noted_claim (slots late_reader_world)"
  "\<forall>c \<in> blocks_of late_reader_composite. unaffected noted_claim c"
  "noted_claim (mem (slots late_reader_world)) = Map.empty"
proof -
  have "INVALID \<noteq> EventSlotStatus 0 1" by code_simp
  then show "safe (\<lambda>c. if c then 2 else 1) {} noted_claim (slots late_reader_world)"
    and "noted_claim (mem (slots late_reader_world)) = Map.empty"
    using late_reader_step
    by (auto simp: safe_def rely_def late_reader_world_def guarded_def true_claims_def noted_claim_def)
  show "\<forall>c \<in> blocks_of late_reader_composite. unaffected noted_claim c"
    by (simp add: late_reader_composite_def blocks_of_def unaffected_def noted_claim_def put_slot_def)
qed

lemma late_reader_offer:
  assumes "PrepareOffer late_reader_composite (SkeletonEvent sample_element kASIL_QM) late_reader_world = Some (r, se, w)"
  shows "mem (slots w) = (\<lambda>c. if c then [EventSlotStatus 1 1, INVALID] else [EventSlotStatus 0 1])"
    and "quiet (slots w)" and "storage w = [''old'', ''unused'']"
  using assms
  by (auto simp: PrepareOffer_def GetLatestTimestamp_def late_reader_composite_def late_reader_world_def Let_def
      num_slots_of_def load_slot_def atomic_load_def advance_def get_slot_def late_reader_def upt_rec
      split: if_splits prod.splits)

theorem held_samples_are_never_overwritten_witness:
  "noted_claim (mem (slots late_reader_world)) = Map.empty \<and>
   (\<exists>se w0 se2 ps2 w2.
      PrepareOffer late_reader_composite (SkeletonEvent sample_element kASIL_QM) late_reader_world = Some (Inr (), se, w0) \<and>
      noted_claim (mem (slots w0)) = [(True, 0) \<mapsto> 1] \<and>
      fold_run (run_producer Facade_NotifyEvent) [Call_Send ''new'', Call_Allocate, Call_Send ''newer''] (se, [], w0) =
        Some (se2, ps2, w2) \<and>
      GetTimeStamp (mem (slots w2) True ! 0) = 1 \<and> storage w2 ! 0 = ''old'')"
proof -
  let ?cc = late_reader_composite and ?calls = "[Call_Send ''new'', Call_Allocate, Call_Send ''newer'']"
    and ?K = "[(True, 0 :: nat) \<mapsto> 1]"
  have service: "facade_usable kASIL_QM (service late_reader_world)"
    by (simp add: facade_usable_def late_reader_world_def new_handler_def NotifyEventHandler_def handler_wf_def level_ok_def)
      (simp add: MessagePassingControl_def)
  have cc: "composite_ok (\<lambda>c. if c then 2 else 1) (length (storage late_reader_world)) ?cc" "\<not> ignore_qm_control ?cc"
    "asil_b_control ?cc \<noteq> None \<longrightarrow> kASIL_QM = kASIL_B" "length (storage late_reader_world) \<le> 65535"
    "kASIL_QM = kASIL_B \<longrightarrow> facade_usable kASIL_B (service late_reader_world)"
    by (auto simp: composite_ok_def late_reader_world_def late_reader_composite_def)
  obtain se w0 se1 ps1 w1 se2 ps2 w2 where
      offer: "PrepareOffer ?cc (SkeletonEvent sample_element kASIL_QM) late_reader_world = Some (Inr (), se, w0)"
    and start: "fold_run (run_producer Facade_NotifyEvent) [] (se, [], w0) = Some (se1, ps1, w1)"
    and run: "fold_run (run_producer Facade_NotifyEvent) ?calls (se1, ps1, w1) = Some (se2, ps2, w2)"
    and kept: "\<forall>K. K \<subseteq>\<^sub>m noted_claim (mem (slots w1)) \<and> rely (consumer_step (\<lambda>_. K)) (slots w1) \<longrightarrow>
       (\<forall>c i ts. K (c, i) = Some ts \<longrightarrow>
          \<not> IsInWriting (mem (slots w2) c ! i) \<and> GetReferenceCount (mem (slots w2) c ! i) \<noteq> 0 \<and>
          GetTimeStamp (mem (slots w2) c ! i) = ts \<and>
          (c \<in> controls_in_use se2 \<longrightarrow> storage w2 ! i = storage w1 ! i))"
    and main: "\<exists>c \<in> controls_in_use se2. main_control ?cc = Some c"
    using held_samples_are_never_overwritten [OF cc(1-4) service cc(5) late_reader_start(1,2), of sample_element "[]" ?calls]
    by blast
  have w1: "se1 = se" "ps1 = []" "w1 = w0" using start by simp_all
  note w0 = late_reader_offer [OF offer]
  have claim: "noted_claim (mem (slots w0)) = ?K" by (simp add: noted_claim_def w0(1))
  with kept w0(2) have "GetTimeStamp (mem (slots w2) True ! 0) = 1 \<and>
      (True \<in> controls_in_use se2 \<longrightarrow> storage w2 ! 0 = storage w0 ! 0)"
    by (simp add: w1) (metis fun_upd_same map_le_refl)
  moreover have "True \<in> controls_in_use se2" using main by (auto simp: main_control_def late_reader_composite_def)
  ultimately show ?thesis using offer run claim w0(3) late_reader_start(3) w1 by auto
qed

end
