(* ===== verification/Proxy_Event.thy ===== *)
theory Proxy_Event
  imports Subscription_State_Machine Sample_Reference_Tracker
begin

text \<open>
  The consumer of an event:

  \<^item> \<open>ProxyEvent\<close> of the binding (lola/proxy_event.h), which collects the new samples;
  \<^item> the pointers to a received sample, \<open>lola::SamplePtr\<close> (lola/sample_ptr.h) and \<open>impl::SamplePtr\<close>
    (plumbing/sample_ptr.h), which adds the guard of the tracker;
  \<^item> \<open>ProxyEventBase\<close> (proxy_event_base.h/.cpp) and \<open>ProxyEvent\<close> (impl/proxy_event.h), which the user
    calls.

  What they work on is a \<open>consumer_world\<close>: the subscription machine with the event control, the slots
  of the control block \<open>c\<close> (under interference), the samples, and the tracker of this event (under
  interference by the threads of the user). A pointer to a sample is its index in the storage. The
  user's callback is an argument: it gets the pointer, the timestamp and the world, for it may drop
  the pointer at once. Tracing and log messages are not modelled, nor is the scope of the receive
  handler, which is a class of another repository.
\<close>

subsection \<open>The world of a consumer\<close>

record ('c, 'v, 'h, 's, 't) consumer_world =
  proxy :: "('h, 's) machine_world"
  data_slots :: "'c edc_world"
  data_storage :: "'v list option"
  sample_tracker :: "'t world"

definition put_logs :: "transaction_log_set \<Rightarrow> ('h, 's) machine_world \<Rightarrow> ('h, 's) machine_world" where
  "put_logs t w = w\<lparr>event_control := (event_control w)\<lparr>ec_logs := t\<rparr>\<rparr>"

definition on_tracker ::
    "('t world \<Rightarrow> 't world run) \<Rightarrow> ('c, 'v, 'h, 's, 't) consumer_world \<Rightarrow> ('c, 'v, 'h, 's, 't) consumer_world run" where
  "on_tracker f w = do { tr \<leftarrow> f (sample_tracker w); Some (w\<lparr>sample_tracker := tr\<rparr>) }"

definition on_slots ::
    "(transaction_log_set \<Rightarrow> 'c edc_world \<Rightarrow> (transaction_log_set \<times> 'c edc_world) run) \<Rightarrow>
     ('c, 'v, 'h, 's, 't) consumer_world \<Rightarrow> ('c, 'v, 'h, 's, 't) consumer_world run" where
  "on_slots f w = do {
     (t, sw) \<leftarrow> f (ec_logs (event_control (proxy w))) (data_slots w);
     Some (w\<lparr>proxy := put_logs t (proxy w), data_slots := sw\<rparr>) }"

subsection \<open>The pointer of the binding\<close>

record 'c lola_sample_ptr =
  lola_object :: "nat option"
  slot_decrementer :: "'c slot_decrementer option"

definition LolaPtr_null :: "'c lola_sample_ptr" where
  "LolaPtr_null = \<lparr>lola_object = None, slot_decrementer = None\<rparr>"

definition LolaPtr :: "nat \<Rightarrow> 'c \<Rightarrow> nat \<Rightarrow> nat \<Rightarrow> 'c lola_sample_ptr" where
  "LolaPtr ptr event_data_ctrl slot_index transaction_log_idx =
     \<lparr>lola_object = Some ptr,
      slot_decrementer = Some (SlotDecrementer (Some event_data_ctrl) slot_index transaction_log_idx)\<rparr>"

definition decrementer_reset ::
    "'c slot_decrementer option \<Rightarrow> ('c, 'v, 'h, 's, 't) consumer_world \<Rightarrow> ('c, 'v, 'h, 's, 't) consumer_world run" where
  "decrementer_reset sd w =
     (case sd of None \<Rightarrow> Some w | Some d \<Rightarrow> on_slots (SlotDecrementer_destroy d) w)"

definition LolaPtr_destroy ::
    "'c lola_sample_ptr \<Rightarrow> ('c, 'v, 'h, 's, 't) consumer_world \<Rightarrow> ('c, 'v, 'h, 's, 't) consumer_world run" where
  "LolaPtr_destroy p w = decrementer_reset (slot_decrementer p) w"

definition LolaPtr_assign_null ::
    "'c lola_sample_ptr \<Rightarrow> ('c, 'v, 'h, 's, 't) consumer_world \<Rightarrow>
     ('c lola_sample_ptr \<times> ('c, 'v, 'h, 's, 't) consumer_world) run" where
  "LolaPtr_assign_null p w = do {
     w \<leftarrow> decrementer_reset (slot_decrementer p) w;
     Some (p\<lparr>lola_object := None, slot_decrementer := None\<rparr>, w) }"

text \<open>
  The defaulted moves: the raw pointer is copied, and a moved-from optional keeps its (moved-from)
  value. The result is the new object and what is left in the old one.
\<close>

definition LolaPtr_move :: "'c lola_sample_ptr \<Rightarrow> 'c lola_sample_ptr \<times> 'c lola_sample_ptr" where
  "LolaPtr_move other =
     (case slot_decrementer other of
        None \<Rightarrow> (other, other)
      | Some d \<Rightarrow> let (d_new, d_old) = SlotDecrementer_move d
                 in (other\<lparr>slot_decrementer := Some d_new\<rparr>, other\<lparr>slot_decrementer := Some d_old\<rparr>))"

definition LolaPtr_assign ::
    "'c lola_sample_ptr \<Rightarrow> 'c lola_sample_ptr \<Rightarrow> ('c, 'v, 'h, 's, 't) consumer_world \<Rightarrow>
     ('c lola_sample_ptr \<times> 'c lola_sample_ptr \<times> ('c, 'v, 'h, 's, 't) consumer_world) run" where
  "LolaPtr_assign this other w = do {
     w \<leftarrow> decrementer_reset (slot_decrementer this) w;
     let (new, old) = LolaPtr_move other;
     Some (new, old, w) }"

definition LolaPtr_get :: "'c lola_sample_ptr \<Rightarrow> nat option" where
  "LolaPtr_get p = lola_object p"

subsection \<open>The pointer of the user\<close>

text \<open>The alternative of the mock binding is left out.\<close>

datatype 'c binding_ptr = Blank | Lola "'c lola_sample_ptr"

record 'c sample_ptr =
  binding_sample_ptr :: "'c binding_ptr"
  sample_guard :: reference_guard

definition SamplePtr :: "'c binding_ptr \<Rightarrow> reference_guard \<Rightarrow> 'c sample_ptr" where
  "SamplePtr p g = \<lparr>binding_sample_ptr = p, sample_guard = g\<rparr>"

definition SamplePtr_null :: "'c sample_ptr" where
  "SamplePtr_null = SamplePtr Blank \<lparr>tracker_set = False\<rparr>"

definition binding_ptr_destroy ::
    "'c binding_ptr \<Rightarrow> ('c, 'v, 'h, 's, 't) consumer_world \<Rightarrow> ('c, 'v, 'h, 's, 't) consumer_world run" where
  "binding_ptr_destroy p w = (case p of Blank \<Rightarrow> Some w | Lola q \<Rightarrow> LolaPtr_destroy q w)"

text \<open>The members are destroyed in the reverse order of their declaration: the guard goes first.\<close>

definition SamplePtr_destroy ::
    "'c sample_ptr \<Rightarrow> ('c, 'v, 'h, 's, 'x tracker_memory_scheme) consumer_world \<Rightarrow>
     ('c, 'v, 'h, 's, 'x tracker_memory_scheme) consumer_world run" where
  "SamplePtr_destroy p w = do {
     w \<leftarrow> on_tracker (SampleReferenceGuard_destroy (sample_guard p)) w;
     binding_ptr_destroy (binding_sample_ptr p) w }"

definition binding_ptr_move :: "'c binding_ptr \<Rightarrow> 'c binding_ptr \<times> 'c binding_ptr" where
  "binding_ptr_move other =
     (case other of
        Blank \<Rightarrow> (Blank, Blank)
      | Lola q \<Rightarrow> let (new, old) = LolaPtr_move q in (Lola new, Lola old))"

text \<open>The move constructor sets the old pointer to blank.\<close>

definition SamplePtr_move ::
    "'c sample_ptr \<Rightarrow> ('c, 'v, 'h, 's, 't) consumer_world \<Rightarrow>
     ('c sample_ptr \<times> 'c sample_ptr \<times> ('c, 'v, 'h, 's, 't) consumer_world) run" where
  "SamplePtr_move other w =
     (let (new, old) = binding_ptr_move (binding_sample_ptr other);
          (g_new, g_old) = SampleReferenceGuard_move (sample_guard other)
      in do {
        w \<leftarrow> binding_ptr_destroy old w;
        Some (SamplePtr new g_new, SamplePtr Blank g_old, w) })"

text \<open>
  The defaulted move assignment of two different pointers does not: a variant that holds the same
  alternative is assigned, else the old value is destroyed and the new one constructed.
\<close>

definition SamplePtr_assign ::
    "'c sample_ptr \<Rightarrow> 'c sample_ptr \<Rightarrow> ('c, 'v, 'h, 's, 'x tracker_memory_scheme) consumer_world \<Rightarrow>
     ('c sample_ptr \<times> 'c sample_ptr \<times> ('c, 'v, 'h, 's, 'x tracker_memory_scheme) consumer_world) run" where
  "SamplePtr_assign this other w = do {
     (new, old, w) \<leftarrow>
       (case (binding_sample_ptr this, binding_sample_ptr other) of
          (Lola p, Lola q) \<Rightarrow> do { (new, old, w) \<leftarrow> LolaPtr_assign p q w; Some (Lola new, Lola old, w) }
        | (p, q) \<Rightarrow> do {
            w \<leftarrow> binding_ptr_destroy p w;
            let (new, old) = binding_ptr_move q;
            Some (new, old, w) });
     (g_new, g_old, tr) \<leftarrow> SampleReferenceGuard_assign (sample_guard this) (sample_guard other) (sample_tracker w);
     Some (SamplePtr new g_new, SamplePtr old g_old, w\<lparr>sample_tracker := tr\<rparr>) }"

definition SamplePtr_get :: "'c sample_ptr \<Rightarrow> nat option" where
  "SamplePtr_get p = (case binding_sample_ptr p of Blank \<Rightarrow> None | Lola q \<Rightarrow> LolaPtr_get q)"

definition SamplePtr_bool :: "'c sample_ptr \<Rightarrow> bool" where
  "SamplePtr_bool p = (case binding_sample_ptr p of Blank \<Rightarrow> False | Lola _ \<Rightarrow> True)"

definition SamplePtr_Swap :: "'c sample_ptr \<Rightarrow> 'c sample_ptr \<Rightarrow> 'c sample_ptr \<times> 'c sample_ptr" where
  "SamplePtr_Swap this other = (other, this)"

text \<open>The argument of \<open>Reset\<close> is destroyed when the call returns.\<close>

definition SamplePtr_Reset ::
    "'c sample_ptr \<Rightarrow> 'c sample_ptr \<Rightarrow> ('c, 'v, 'h, 's, 'x tracker_memory_scheme) consumer_world \<Rightarrow>
     ('c sample_ptr \<times> ('c, 'v, 'h, 's, 'x tracker_memory_scheme) consumer_world) run" where
  "SamplePtr_Reset this other w = do {
     let (this, other) = SamplePtr_Swap this other;
     w \<leftarrow> SamplePtr_destroy other w;
     Some (this, w) }"

subsection \<open>The event of the binding\<close>

type_synonym ('c, 'u, 'w) receiver = "'c sample_ptr \<Rightarrow> u32 \<Rightarrow> 'u \<Rightarrow> 'w \<Rightarrow> ('u \<times> 'w) run"

text \<open>
  One iteration per collected slot. The pointer of the binding and the guard are moved into the
  pointer that the callback gets; what is left of them does nothing when it is destroyed. Taking a
  guard from an empty factory dereferences an empty optional.
\<close>

fun GetNewSamplesImpl_loop ::
    "('c, 'u, ('c, 'v, 'h, 's, 't) consumer_world) receiver \<Rightarrow> 'c \<Rightarrow> nat \<Rightarrow> nat list \<Rightarrow> guard_factory \<Rightarrow>
     'u \<Rightarrow> ('c, 'v, 'h, 's, 't) consumer_world \<Rightarrow> (guard_factory \<times> 'u \<times> ('c, 'v, 'h, 's, 't) consumer_world) run" where
  "GetNewSamplesImpl_loop receiver c log_index [] factory u w = Some (factory, u, w)"
| "GetNewSamplesImpl_loop receiver c log_index (slot # slots) factory u w = do {
     samples \<leftarrow> data_storage w;
     sample_data \<leftarrow> (if slot < length samples then Some slot else None);
     let (event_slot_status, sw) = slot_at c slot (data_slots w);
     let w = w\<lparr>data_slots := sw\<rparr>;
     let sample_timestamp = GetTimeStamp event_slot_status;
     let (sample, _) = LolaPtr_move (LolaPtr sample_data c slot log_index);
     let (taken, factory) = TakeGuard factory;
     guard \<leftarrow> taken;
     let (guard, _) = SampleReferenceGuard_move guard;
     (u, w) \<leftarrow> receiver (SamplePtr (Lola sample) guard) sample_timestamp u w;
     GetNewSamplesImpl_loop receiver c log_index slots factory u w }"

definition GetNewSamplesImpl ::
    "('c, 'u, ('c, 'v, 'h, 's, 't) consumer_world) receiver \<Rightarrow> 'c \<Rightarrow> guard_factory \<Rightarrow>
     'u \<Rightarrow> ('c, 'v, 'h, 's, 't) consumer_world \<Rightarrow> (nat result \<times> guard_factory \<times> 'u \<times> ('c, 'v, 'h, 's, 't) consumer_world) run" where
  "GetNewSamplesImpl receiver c factory u w = do {
     let max_sample_count = GetNumAvailableGuards factory;
     (slot_indices, m, sw) \<leftarrow> Proxy_GetNewSamplesSlotIndices c (unat max_sample_count) (proxy w) (data_slots w);
     let w = w\<lparr>proxy := m, data_slots := sw\<rparr>;
     amp_require (data_storage w \<noteq> None);
     transaction_log_index \<leftarrow> Machine_GetTransactionLogIndex (machine (proxy w));
     log_index \<leftarrow> transaction_log_index;
     (factory, u, w) \<leftarrow> GetNewSamplesImpl_loop receiver c log_index slot_indices factory u w;
     Some (Inr (length slot_indices), factory, u, w) }"

definition Binding_GetNewSamples ::
    "('c, 'u, ('c, 'v, 'h, 's, 't) consumer_world) receiver \<Rightarrow> 'c \<Rightarrow> guard_factory \<Rightarrow>
     'u \<Rightarrow> ('c, 'v, 'h, 's, 't) consumer_world \<Rightarrow> (nat result \<times> guard_factory \<times> 'u \<times> ('c, 'v, 'h, 's, 't) consumer_world) run" where
  "Binding_GetNewSamples receiver c factory u w =
     (if GetSubscriptionState (machine (proxy w)) = kSubscribed
      then GetNewSamplesImpl receiver c factory u w
      else Some (Inl kNotSubscribed, factory, u, w))"

definition Binding_GetNumNewSamplesAvailable ::
    "'c \<Rightarrow> ('c, 'v, 'h, 's, 't) consumer_world \<Rightarrow> (nat result \<times> ('c, 'v, 'h, 's, 't) consumer_world) run" where
  "Binding_GetNumNewSamplesAvailable c w =
     (if GetSubscriptionState (machine (proxy w)) = kSubscribed
      then do {
        (n, sw) \<leftarrow> Proxy_GetNumNewSamplesAvailable c (machine (proxy w)) (data_slots w);
        Some (Inr n, w\<lparr>data_slots := sw\<rparr>) }
      else Some (Inl kNotSubscribed, w))"

subsection \<open>The event of the user\<close>

definition only_not_subscribed :: "'a result \<Rightarrow> 'a result" where
  "only_not_subscribed r =
     (case r of Inl e \<Rightarrow> if e = kNotSubscribed then r else Inl kBindingFailure | Inr _ \<Rightarrow> r)"

definition Event_Subscribe ::
    "('h, 's) messaging_service \<Rightarrow> u64 \<Rightarrow> ('c, 'v, 'h, 's, 'x tracker_memory_scheme) consumer_world \<Rightarrow>
     (result_blank \<times> ('c, 'v, 'h, 's, 'x tracker_memory_scheme) consumer_world) run" where
  "Event_Subscribe ms max_sample_count w =
     (case GetSubscriptionState (machine (proxy w)) of
        kNotSubscribedState \<Rightarrow> do {
          let w = w\<lparr>sample_tracker := Reset max_sample_count (sample_tracker w)\<rparr>;
          (subscribe_result, m) \<leftarrow> Proxy_Subscribe ms max_sample_count (proxy w);
          let w = w\<lparr>proxy := m\<rparr>;
          Some (case subscribe_result of Inl _ \<Rightarrow> Inl kBindingFailure | Inr _ \<Rightarrow> Inr (), w) }
      | _ \<Rightarrow> do {
          current_max_sample_count \<leftarrow> GetMaxSampleCount (machine (proxy w));
          count \<leftarrow> current_max_sample_count;
          Some (if max_sample_count \<noteq> ucast count then Inl kMaxSampleCountNotRealizable else Inr (), w) })"

definition Event_Unsubscribe ::
    "('h, 's) messaging_service \<Rightarrow> ('c, 'v, 'h, 's, 'x tracker_memory_scheme) consumer_world \<Rightarrow>
     ('c, 'v, 'h, 's, 'x tracker_memory_scheme) consumer_world run" where
  "Event_Unsubscribe ms w =
     (if GetSubscriptionState (machine (proxy w)) \<noteq> kNotSubscribedState then do {
        m \<leftarrow> Proxy_Unsubscribe ms (proxy w);
        let (used, tr) = Sample_Reference_Tracker.IsUsed (sample_tracker w);
        amp_require (\<not> used);
        Some (w\<lparr>proxy := m, sample_tracker := tr\<rparr>) }
      else Some w)"

definition Event_GetFreeSampleCount ::
    "('c, 'v, 'h, 's, 'x tracker_memory_scheme) consumer_world \<Rightarrow>
     u64 \<times> ('c, 'v, 'h, 's, 'x tracker_memory_scheme) consumer_world" where
  "Event_GetFreeSampleCount w =
     (let (n, tr) = GetNumAvailableSamples (sample_tracker w) in (n, w\<lparr>sample_tracker := tr\<rparr>))"

definition Event_GetNumNewSamplesAvailable ::
    "'c \<Rightarrow> ('c, 'v, 'h, 's, 't) consumer_world \<Rightarrow> (nat result \<times> ('c, 'v, 'h, 's, 't) consumer_world) run" where
  "Event_GetNumNewSamplesAvailable c w = do {
     (r, w) \<leftarrow> Binding_GetNumNewSamplesAvailable c w;
     Some (only_not_subscribed r, w) }"

text \<open>The destructor of an event that was not moved away.\<close>

definition Event_destroy ::
    "('c, 'v, 'h, 's, 'x tracker_memory_scheme) consumer_world \<Rightarrow>
     ('c, 'v, 'h, 's, 'x tracker_memory_scheme) consumer_world run" where
  "Event_destroy w =
     (let (used, tr) = Sample_Reference_Tracker.IsUsed (sample_tracker w)
      in do { amp_require (\<not> used); Some (w\<lparr>sample_tracker := tr\<rparr>) })"

text \<open>The factory is destroyed on every path out of \<open>GetNewSamples\<close>.\<close>

definition Event_GetNewSamples ::
    "('c, 'u, ('c, 'v, 'h, 's, 'x tracker_memory_scheme) consumer_world) receiver \<Rightarrow> 'c \<Rightarrow> u64 \<Rightarrow>
     'u \<Rightarrow> ('c, 'v, 'h, 's, 'x tracker_memory_scheme) consumer_world \<Rightarrow>
     (nat result \<times> 'u \<times> ('c, 'v, 'h, 's, 'x tracker_memory_scheme) consumer_world) run" where
  "Event_GetNewSamples receiver c max_samples u w = do {
     let (guard_factory, tr) = Allocate max_samples (sample_tracker w);
     let w = w\<lparr>sample_tracker := tr\<rparr>;
     if GetNumAvailableGuards guard_factory = 0 then do {
       w \<leftarrow> on_tracker (TrackerGuardFactory_destroy guard_factory) w;
       Some (Inl kMaxSamplesReached, u, w) }
     else do {
       (r, guard_factory, u, w) \<leftarrow> Binding_GetNewSamples receiver c guard_factory u w;
       w \<leftarrow> on_tracker (TrackerGuardFactory_destroy guard_factory) w;
       Some (only_not_subscribed r, u, w) } }"

end
