(* ===== verification/Consumer_Safety.thy ===== *)
theory Consumer_Safety
  imports Proxy_Event Subscription_Protocol
begin

text \<open>
  What a consumer may rely on, and what it keeps, while it takes and drops samples in any order and
  the producer and the other consumers act in between.

  The others' share in a reference count is not stored anywhere. It is kept here in a control block
  \<open>g\<close> of its own that no code touches: its slot \<open>i\<close> holds how many readers of slot \<open>i\<close> of the block
  \<open>c\<close> are others. So a step of the others can be described without saying what this consumer holds.
\<close>

subsection \<open>The others\<close>

definition live_readers :: "u64 \<Rightarrow> nat" where
  "live_readers d = (if IsInWriting d then 0 else unat (GetReferenceCount d))"

definition other_readers :: "'c \<Rightarrow> 'c slot_memory \<Rightarrow> nat \<Rightarrow> nat" where
  "other_readers g m i = unat (m g ! i)"

definition max_readers :: nat where "max_readers = 2 ^ 32 - 2"

text \<open>
  The others change a count together with their own share of it, and while someone else holds a
  slot, they do not write to it.
\<close>

definition others_step :: "'c \<Rightarrow> 'c \<Rightarrow> 'c slot_memory \<Rightarrow> 'c slot_memory \<Rightarrow> bool" where
  "others_step c g m m' \<longleftrightarrow> length (m' c) = length (m c) \<and>
     (\<forall>i < length (m c).
        live_readers (m' c ! i) + other_readers g m i = live_readers (m c ! i) + other_readers g m' i \<and>
        (other_readers g m i < live_readers (m c ! i) \<longrightarrow>
           \<not> IsInWriting (m' c ! i) \<and> GetTimeStamp (m' c ! i) = GetTimeStamp (m c ! i)) \<and>
        (other_readers g m i < max_readers \<longrightarrow> other_readers g m' i < max_readers))"

text \<open>What this consumer holds: the slots and the timestamps of their samples.\<close>

type_synonym holdings = "nat \<rightharpoonup> u32"

definition holds :: "'c \<Rightarrow> 'c \<Rightarrow> holdings \<Rightarrow> 'c slot_memory \<Rightarrow> bool" where
  "holds c g T m \<longleftrightarrow> dom T \<subseteq> {..<length (m c)} \<and>
     (\<forall>i < length (m c). other_readers g m i < max_readers \<and>
        live_readers (m c ! i) = other_readers g m i + (if T i = None then 0 else 1)) \<and>
     (\<forall>i ts. T i = Some ts \<longrightarrow> GetTimeStamp (m c ! i) = ts)"

lemma holdsD:
  assumes "holds c g T m" and "i < length (m c)"
  shows "other_readers g m i < max_readers"
    and "live_readers (m c ! i) = other_readers g m i + (if T i = None then 0 else 1)"
  using assms by (simp_all add: holds_def)

lemma holds_slot:
  assumes "holds c g T m" and "T i = Some ts"
  shows "i < length (m c)" and "GetTimeStamp (m c ! i) = ts" and "\<not> IsInWriting (m c ! i)"
    and "0 < live_readers (m c ! i)"
proof -
  show i: "i < length (m c)" using assms by (auto simp: holds_def)
  show "GetTimeStamp (m c ! i) = ts" using assms by (simp add: holds_def)
  have "live_readers (m c ! i) = Suc (other_readers g m i)" using holdsD(2) [OF assms(1) i] assms(2) by simp
  then show "\<not> IsInWriting (m c ! i)" "0 < live_readers (m c ! i)" by (auto simp: live_readers_def)
qed

lemma holds_step: "others_step c g m m' \<Longrightarrow> holds c g T m \<Longrightarrow> holds c g T m'"
  unfolding holds_def
proof (intro conjI; (elim conjE)?)
  assume s: "others_step c g m m'" and d: "dom T \<subseteq> {..<length (m c)}"
    and h: "\<forall>i < length (m c). other_readers g m i < max_readers \<and>
        live_readers (m c ! i) = other_readers g m i + (if T i = None then 0 else 1)"
    and ts: "\<forall>i ts. T i = Some ts \<longrightarrow> GetTimeStamp (m c ! i) = ts"
  show "dom T \<subseteq> {..<length (m' c)}" using s d by (simp add: others_step_def)
  show "\<forall>i < length (m' c). other_readers g m' i < max_readers \<and>
        live_readers (m' c ! i) = other_readers g m' i + (if T i = None then 0 else 1)"
    using s h by (fastforce simp: others_step_def)
  show "\<forall>i ts. T i = Some ts \<longrightarrow> GetTimeStamp (m' c ! i) = ts"
  proof (intro allI impI)
    fix i t assume t: "T i = Some t"
    then have i: "i < length (m c)" using d by auto
    then have "other_readers g m i < live_readers (m c ! i)" using h t by simp
    with s i have "GetTimeStamp (m' c ! i) = GetTimeStamp (m c ! i)" by (simp add: others_step_def)
    then show "GetTimeStamp (m' c ! i) = t" using ts t by simp
  qed
qed

interpretation held: memory_protocol "others_step c g" "holds c g T" for c g T
  by unfold_locales (rule holds_step)

lemma keeps_size_others: "keeps_size c (others_step c g)"
  by (simp add: keeps_size_def others_step_def)

lemma others_steps_size: "(others_step c g)\<^sup>*\<^sup>* m m' \<Longrightarrow> length (m' c) = length (m c)"
  by (induction rule: rtranclp_induct) (simp_all add: others_step_def)

lemma max_readers_not_all_ones:
  assumes "unat (rc :: u32) < max_readers"
  shows "rc \<noteq> - 1" and "rc + 1 \<noteq> - 1" and "unat (rc + 1) = Suc (unat rc)"
proof -
  have "unat rc + 1 < 2 ^ 32 - 1" using assms by (simp add: max_readers_def)
  then show s: "unat (rc + 1) = Suc (unat rc)" by (simp add: unat_word_ariths)
  show "rc \<noteq> - 1" using assms unat_u32_max by (auto simp: max_readers_def)
  show "rc + 1 \<noteq> - 1"
  proof
    assume "rc + 1 = - 1"
    then have "unat (rc + 1) = 2 ^ 32 - 1" by (simp only: unat_u32_max)
    with s assms show False by (simp add: max_readers_def)
  qed
qed

lemma live_readers_take:
  assumes "\<not> IsInWriting d" and "live_readers d < max_readers"
  shows "live_readers (d + 1) = Suc (live_readers d)" and "GetTimeStamp (d + 1) = GetTimeStamp d"
proof -
  have rc: "unat (GetReferenceCount d) < max_readers" using assms by (simp add: live_readers_def)
  note n = max_readers_not_all_ones [OF rc]
  note h = halves_plus_one [OF n(1)]
  show "GetTimeStamp (d + 1) = GetTimeStamp d" by (rule h(1))
  show "live_readers (d + 1) = Suc (live_readers d)"
    using assms(1) h n by (simp add: live_readers_def IsInWriting_iff)
qed

lemma live_readers_drop:
  assumes "0 < live_readers d" and "live_readers d \<le> max_readers"
  shows "live_readers (d - 1) = live_readers d - 1" and "GetTimeStamp (d - 1) = GetTimeStamp d"
proof -
  have w: "\<not> IsInWriting d" and nz: "GetReferenceCount d \<noteq> 0"
    using assms(1) by (auto simp: live_readers_def split: if_splits)
  note h = halves_minus_one [OF nz]
  show "GetTimeStamp (d - 1) = GetTimeStamp d" by (rule h(1))
  have u: "unat (GetReferenceCount d - 1) = unat (GetReferenceCount d) - 1"
    using nz by (simp add: unat_minus_one)
  have "GetReferenceCount d - 1 \<noteq> - 1" using nz by simp
  then show "live_readers (d - 1) = live_readers d - 1"
    using w u h by (auto simp: live_readers_def IsInWriting_iff)
qed

text \<open>Taking and giving back a reference.\<close>

lemma other_readers_put: "c \<noteq> g \<Longrightarrow> other_readers g (put_slot c i v m) = other_readers g m"
  by (auto simp: other_readers_def put_slot_def fun_eq_iff)

lemma holds_take:
  assumes "holds c g T m" and "i < length (m c)" and "T i = None" and "\<not> IsInWriting (m c ! i)" and "c \<noteq> g"
  shows "holds c g (T(i \<mapsto> GetTimeStamp (m c ! i))) (put_slot c i (m c ! i + 1) m)"
proof -
  have "live_readers (m c ! i) < max_readers" using holdsD [OF assms(1,2)] assms(3) by simp
  note t = live_readers_take [OF assms(4) this]
  have "dom T \<subseteq> {..<length (m c)}" "\<forall>j ts. T j = Some ts \<longrightarrow> GetTimeStamp (m c ! j) = ts"
    using assms(1) by (simp_all add: holds_def)
  moreover have "other_readers g m j < max_readers \<and>
      live_readers ((m c)[i := m c ! i + 1] ! j) = other_readers g m j + (if (T(i \<mapsto> GetTimeStamp (m c ! i))) j = None then 0 else 1)"
    if "j < length (m c)" for j
    using holdsD [OF assms(1) that] t assms(3) that by (auto simp: nth_list_update)
  ultimately show ?thesis
    unfolding holds_def other_readers_put [OF assms(5)]
    using t assms(2,3) by (auto simp: put_slot_def nth_list_update)
qed

lemma holds_drop:
  assumes "holds c g T m" and "T i = Some ts" and "c \<noteq> g"
  shows "holds c g (T(i := None)) (put_slot c i (m c ! i - 1) m)"
proof -
  note i = holds_slot [OF assms(1,2)]
  have "live_readers (m c ! i) \<le> max_readers" using holdsD [OF assms(1) i(1)] assms(2) by simp
  note t = live_readers_drop [OF i(4) this]
  have "dom T \<subseteq> {..<length (m c)}" "\<forall>j ts. T j = Some ts \<longrightarrow> GetTimeStamp (m c ! j) = ts"
    using assms(1) by (simp_all add: holds_def)
  moreover have "other_readers g m j < max_readers \<and>
      live_readers ((m c)[i := m c ! i - 1] ! j) = other_readers g m j + (if (T(i := None)) j = None then 0 else 1)"
    if "j < length (m c)" for j
    using holdsD [OF assms(1) that] t assms(2) that by (auto simp: nth_list_update)
  ultimately show ?thesis
    unfolding holds_def other_readers_put [OF assms(3)] by (auto simp: put_slot_def nth_list_update)
qed

lemma holds_frame:
  assumes "(others_step c g)\<^sup>*\<^sup>* m m'" and "holds c g T m"
  shows "holds c g T m'"
  using held.steps_keep [OF assms] .

subsection \<open>Taking one reference\<close>

text \<open>The log of the consumer agrees with what it holds.\<close>

definition log_agrees_with :: "holdings \<Rightarrow> transaction_log \<Rightarrow> bool" where
  "log_agrees_with T l \<longleftrightarrow> dom T \<subseteq> {..<num_slots l} \<and>
     (\<forall>i < num_slots l. slot_phase l i = (if T i = None then Free else Held))"

lemma log_agrees_take:
  "log_agrees_with T l \<Longrightarrow> i < num_slots l \<Longrightarrow> log_agrees_with (T(i \<mapsto> ts)) (set_phase i Held l)"
  by (auto simp: log_agrees_with_def)

lemma log_agrees_drop:
  "log_agrees_with T l \<Longrightarrow> i < num_slots l \<Longrightarrow> log_agrees_with (T(i := None)) (set_phase i Free l)"
  by (auto simp: log_agrees_with_def)

text \<open>No sample that is held lies in the searched range.\<close>

definition outside :: "holdings \<Rightarrow> u32 \<Rightarrow> u32 \<Rightarrow> bool" where
  "outside T lo hi \<longleftrightarrow> (\<forall>i ts. T i = Some ts \<longrightarrow> ts \<le> lo \<or> hi \<le> ts)"

text \<open>The state between two calls: the world, the log at index \<open>k\<close> and the holdings.\<close>

definition consumer_slots ::
    "'c \<Rightarrow> 'c \<Rightarrow> nat \<Rightarrow> nat \<Rightarrow> holdings \<Rightarrow> transaction_log_set \<Rightarrow> 'c edc_world \<Rightarrow> bool" where
  "consumer_slots c g k width T t w \<longleftrightarrow>
     c \<noteq> g \<and> rely (others_step c g) w \<and> holds c g T (mem w) \<and> num_slots_of c w = width \<and>
     (\<exists>l. GetTransactionLog k t = Some l \<and> width \<le> num_slots l \<and> log_agrees_with T l)"

lemma consumer_admits:
  assumes "holds c g T (mem w)" and "log_agrees_with T l" and "outside T lo hi" and "num_slots_of c w \<le> num_slots l"
  shows "log_admits (others_step c g) c lo hi w l"
  unfolding log_admits_def
proof (intro allI impI, elim conjE)
  fix m i
  assume m: "(others_step c g)\<^sup>*\<^sup>* (mem w) m" and i: "i < num_slots_of c w"
    and b: "IsTimeStampBetween (m c ! i) lo hi"
  have h: "holds c g T m" using m assms(1) by (rule holds_frame)
  have "T i = None"
  proof (rule ccontr)
    assume "T i \<noteq> None"
    then obtain ts where ts: "T i = Some ts" by blast
    with assms(3) have "ts \<le> lo \<or> hi \<le> ts" by (simp add: outside_def)
    with holds_slot(2) [OF h ts] b show False by (auto simp: IsTimeStampBetween_def)
  qed
  with i assms(2,4) show "i < num_slots l \<and> slot_phase l i = Free" by (simp add: log_agrees_with_def)
qed

lemma ReferenceNextEvent_consumer:
  assumes "consumer_slots c g k width T t w" and "outside T lo hi"
  obtains (nothing) t' w' where "ReferenceNextEvent c lo k hi t w = Some (None, t', w')"
      and "consumer_slots c g k width T t' w'"
    | (taken) i ts t' w' where "ReferenceNextEvent c lo k hi t w = Some (Some i, t', w')"
      and "lo < ts" and "ts < hi" and "T i = None" and "i < width" and "consumer_slots c g k width (T(i \<mapsto> ts)) t' w'"
proof -
  let ?R = "others_step c g"
  from assms(1) obtain l where cg: "c \<noteq> g" and r: "rely ?R w" and h: "holds c g T (mem w)"
    and width: "num_slots_of c w = width" and l: "GetTransactionLog k t = Some l" "width \<le> num_slots l" "log_agrees_with T l"
    by (auto simp: consumer_slots_def)
  have adm: "log_admits ?R c lo hi w l" using h l(3) assms(2) l(2) width by (intro consumer_admits) simp_all
  obtain sel t' w' where run: "ReferenceNextEvent c lo k hi t w = Some (sel, t', w')"
    using ReferenceNextEvent_returns [OF r keeps_size_others l(1) adm] by blast
  have o: "reference_outcome ?R c lo hi k sel t w t' w'"
    using r keeps_size_others run by (rule ReferenceNextEvent_outcome)
  then have r': "rely ?R w'" by (simp add: reference_outcome_def)
  show thesis
  proof (cases sel)
    case None
    with o have m': "?R\<^sup>*\<^sup>* (mem w) (mem w')" and l': "GetTransactionLog k t' = Some l"
      using l by (simp_all add: reference_outcome_def)
    have "consumer_slots c g k width T t' w'"
      using cg r' holds_frame [OF m' h] others_steps_size [OF m'] width l' l
      by (simp add: consumer_slots_def num_slots_of_def)
    with run None show thesis by (intro that(1) [of t' w']) simp_all
  next
    case (Some i)
    with o l obtain m l' where i: "i < width" and m: "?R\<^sup>*\<^sup>* (mem w) m" and b: "IsTimeStampBetween (m c ! i) lo hi"
      and l': "GetTransactionLog k t' = Some l'" and took: "took_reference c i m w' l l'"
      using width by (auto simp: reference_outcome_def)
    let ?ts = "GetTimeStamp (m c ! i)"
    have hm: "holds c g T m" using m h by (rule holds_frame)
    have len: "length (m c) = width" using others_steps_size [OF m] width by (simp add: num_slots_of_def)
    from took have m': "mem w' = put_slot c i (m c ! i + 1) m" and free: "i < num_slots l" "slot_phase l i = Free"
      and l'_eq: "l' = set_phase i Held l" by (simp_all add: took_reference_def)
    have none: "T i = None" using free l(3) by (auto simp: log_agrees_with_def split: if_splits)
    have ts: "lo < ?ts" "?ts < hi" "\<not> IsInWriting (m c ! i)" using b by (auto simp: IsTimeStampBetween_def)
    have "holds c g (T(i \<mapsto> ?ts)) (mem w')"
      using holds_take [OF hm _ none ts(3) cg] i len m' by simp
    moreover have "num_slots_of c w' = width" using len m' by (simp add: num_slots_of_def put_slot_def)
    ultimately have "consumer_slots c g k width (T(i \<mapsto> ?ts)) t' w'"
      using cg r' l' l(2) log_agrees_take [OF l(3) free(1)] l'_eq by (simp add: consumer_slots_def)
    with run Some ts none i show thesis by (intro that(2) [of i t' w' ?ts]) simp_all
  qed
qed

text \<open>A read of a slot that is held finds the timestamp of its sample.\<close>

lemma slot_at_consumer:
  assumes "consumer_slots c g k width T t w"
  shows "\<exists>v w'. slot_at c i w = (v, w') \<and> consumer_slots c g k width T t w' \<and>
    (\<forall>ts. T i = Some ts \<longrightarrow> GetTimeStamp v = ts)"
proof -
  obtain v w' where ld: "load_slot c i w = (v, w')" by (cases "load_slot c i w")
  have r: "rely (others_step c g) w" using assms by (simp add: consumer_slots_def)
  note e = load_slot_reached [OF ld r]
  have h: "holds c g T (mem w')"
    using held.evolves_keeps [OF e(1)] assms by (simp add: consumer_slots_def)
  have "length (mem w' c) = length (mem w c)"
    using e(1) others_steps_size by (auto simp: evolves_def)
  then have "consumer_slots c g k width T t w'"
    using assms h e(1) by (simp add: consumer_slots_def evolves_def num_slots_of_def)
  with ld e(2) h holds_slot(2) [OF h] show ?thesis by (auto simp: slot_at_def)
qed

lemma DereferenceEvent_consumer:
  assumes "consumer_slots c g k width T t w" and "T i = Some ts"
  shows "\<exists>t' w'. DereferenceEvent c i k t w = Some (t', w') \<and> consumer_slots c g k width (T(i := None)) t' w'"
proof -
  let ?R = "others_step c g"
  from assms(1) obtain l where cg: "c \<noteq> g" and r: "rely ?R w" and h: "holds c g T (mem w)"
    and width: "num_slots_of c w = width" and l: "GetTransactionLog k t = Some l" "width \<le> num_slots l" "log_agrees_with T l"
    by (auto simp: consumer_slots_def)
  have i: "i < num_slots l" "slot_phase l i = Held"
    using l(3) assms(2) by (auto simp: log_agrees_with_def dom_def)
  have run: "\<exists>t' w'. DereferenceEvent c i k t w = Some (t', w')"
    using l(1) i by (simp add: DereferenceEvent_def log_defs)
  then obtain t' w' where run: "DereferenceEvent c i k t w = Some (t', w')" by blast
  obtain m where m: "?R\<^sup>*\<^sup>* (mem w) m" and m': "mem w' = put_slot c i (m c ! i - 1) m" and r': "rely ?R w'"
    and t': "t' = PutTransactionLog k (set_phase i Free l) t"
    using DereferenceEvent_outcome [OF r run] l(1) by auto
  have hm: "holds c g T m" using m h by (rule holds_frame)
  have len: "length (m c) = width" using others_steps_size [OF m] width by (simp add: num_slots_of_def)
  have "holds c g (T(i := None)) (mem w')" using holds_drop [OF hm assms(2) cg] m' by simp
  moreover have "num_slots_of c w' = width" using len m' by (simp add: num_slots_of_def put_slot_def)
  moreover have "GetTransactionLog k t' = Some (set_phase i Free l)"
    using l(1) t' by (simp add: logs.get_put_same)
  ultimately have "consumer_slots c g k width (T(i := None)) t' w'"
    using cg r' l log_agrees_drop [OF l(3) i(1)] by (simp add: consumer_slots_def)
  with run show ?thesis by blast
qed

subsection \<open>Collecting\<close>

text \<open>What one collection takes, newest first: slots that were not held, with falling timestamps.\<close>

definition fresh_holdings :: "nat \<Rightarrow> holdings \<Rightarrow> u32 \<Rightarrow> u32 \<Rightarrow> (nat \<times> u32) list \<Rightarrow> bool" where
  "fresh_holdings width T lo hi hs \<longleftrightarrow>
     distinct (map fst hs) \<and> (\<forall>h \<in> set hs. T (fst h) = None \<and> fst h < width \<and> lo < snd h \<and> snd h < hi) \<and>
     sorted_wrt (\<lambda>a b. snd b < snd a) hs"

lemma fresh_holdings_Cons:
  assumes "fresh_holdings width (T(i \<mapsto> ts)) lo ts hs" and "T i = None" and "i < width" and "lo < ts" and "ts < hi"
  shows "fresh_holdings width T lo hi ((i, ts) # hs)"
  using assms by (fastforce simp: fresh_holdings_def split: if_splits)

lemma add_holding:
  "i \<notin> fst ` set hs \<Longrightarrow> T ++ map_of ((i, ts) # hs) = T(i \<mapsto> ts) ++ map_of hs"
proof -
  assume "i \<notin> fst ` set hs"
  then have "map_of hs i = None" by (simp add: map_of_eq_None_iff)
  then show ?thesis by (intro ext) (auto simp: map_add_def split: option.splits)
qed

lemma outside_take:
  assumes "outside T lo hi" and "ts < hi"
  shows "outside (T(i \<mapsto> ts)) lo ts"
proof -
  have "t \<le> lo \<or> ts \<le> t" if "T j = Some t" for j t
    using assms that by (meson less_imp_le order_trans outside_def)
  then show ?thesis by (simp add: outside_def)
qed

lemma CollectSlots_loop_consumer:
  assumes "consumer_slots c g k width T t w" and "outside T (last_ts sc) hi" and "transaction_log_index sc = k"
    and "pos + n \<le> length (collected_slots sc)"
  shows "\<exists>hs cs t' w'. CollectSlots_loop c n hi pos sc t w = Some (pos + length hs, sc\<lparr>collected_slots := cs\<rparr>, t', w') \<and>
    length cs = length (collected_slots sc) \<and>
    take (pos + length hs) cs = take pos (collected_slots sc) @ map fst hs \<and> length hs \<le> n \<and>
    fresh_holdings width T (last_ts sc) hi hs \<and> consumer_slots c g k width (T ++ map_of hs) t' w'"
  using assms
proof (induction n arbitrary: w sc t T hi pos)
  case 0
  then show ?case
    by (intro exI [of _ "[]"] exI [of _ "collected_slots sc"] exI [of _ t] exI [of _ w]) (simp add: fresh_holdings_def)
next
  case (Suc n)
  from Suc.prems(1,2) show ?case
  proof (cases rule: ReferenceNextEvent_consumer)
    case (nothing t' w')
    then show ?thesis
      using Suc.prems(3) by (intro exI [of _ "[]"] exI [of _ "collected_slots sc"] exI [of _ t'] exI [of _ w'])
        (simp add: fresh_holdings_def)
  next
    case (taken i ts t1 w1)
    obtain v w2 where sl: "slot_at c i w1 = (v, w2)" and ok: "consumer_slots c g k width (T(i \<mapsto> ts)) t1 w2"
      and v: "GetTimeStamp v = ts"
      using slot_at_consumer [OF taken(6), of i] by auto
    let ?sc = "sc\<lparr>collected_slots := (collected_slots sc)[pos := i]\<rparr>"
    have out: "outside (T(i \<mapsto> ts)) (last_ts ?sc) ts"
      using outside_take [OF Suc.prems(2)] taken(3) by simp
    have index: "transaction_log_index ?sc = k" and room: "pos + 1 + n \<le> length (collected_slots ?sc)"
      using Suc.prems(3,4) by simp_all
    obtain hs cs t' w' where
      run': "CollectSlots_loop c n ts (pos + 1) ?sc t1 w2 = Some (pos + 1 + length hs, ?sc\<lparr>collected_slots := cs\<rparr>, t', w')"
      and cs: "length cs = length (collected_slots ?sc)"
        "take (pos + 1 + length hs) cs = take (pos + 1) (collected_slots ?sc) @ map fst hs"
      and n: "length hs \<le> n" and fresh: "fresh_holdings width (T(i \<mapsto> ts)) (last_ts ?sc) ts hs"
      and ok': "consumer_slots c g k width (T(i \<mapsto> ts) ++ map_of hs) t' w'"
      using Suc.IH [OF ok out index room] by (elim exE conjE)
    have "i \<notin> fst ` set hs" using fresh by (auto simp: fresh_holdings_def split: if_splits)
    then have "consumer_slots c g k width (T ++ map_of ((i, ts) # hs)) t' w'"
      using ok' add_holding by metis
    moreover have "fresh_holdings width T (last_ts sc) hi ((i, ts) # hs)"
      using fresh taken by (intro fresh_holdings_Cons) simp_all
    moreover have "CollectSlots_loop c (Suc n) hi pos sc t w =
        Some (pos + length ((i, ts) # hs), sc\<lparr>collected_slots := cs\<rparr>, t', w')"
      using Suc.prems(3) taken(1) sl v run' by simp
    moreover have "take (pos + length ((i, ts) # hs)) cs = take pos (collected_slots sc) @ map fst ((i, ts) # hs)"
      using cs(2) Suc.prems(4) by (simp add: take_Suc_conv_app_nth)
    moreover have "length cs = length (collected_slots sc)" "length ((i, ts) # hs) \<le> Suc n"
      using cs(1) n by simp_all
    ultimately show ?thesis by blast
  qed
qed

lemma highest_timestamp_consumer:
  assumes "consumer_slots c g k width T t w" and "\<forall>h \<in> set hs. T (fst h) = Some (snd h)"
  shows "\<exists>w'. highest_timestamp c (map fst hs) b w = (fold (\<lambda>h b. max b (snd h)) hs b, w') \<and>
    consumer_slots c g k width T t w'"
  using assms
proof (induction hs arbitrary: b w)
  case Nil
  then show ?case by simp
next
  case (Cons h hs)
  obtain v w1 where sl: "slot_at c (fst h) w = (v, w1)" and ok: "consumer_slots c g k width T t w1"
    and v: "GetTimeStamp v = snd h"
    using slot_at_consumer [OF Cons.prems(1), of "fst h"] Cons.prems(2) by auto
  from Cons.IH [OF ok, of "max b (snd h)"] Cons.prems(2) sl v show ?case by simp
qed

text \<open>The slots a call hands out, oldest first.\<close>

lemma GetNewSamplesSlotIndices_consumer:
  assumes "consumer_slots c g k width T t w" and "transaction_log_index sc = k"
    and "\<forall>i ts. T i = Some ts \<longrightarrow> ts \<le> last_ts sc"
  shows "\<exists>hs sc' t' w'. GetNewSamplesSlotIndices c n sc t w = Some (map fst hs, sc', t', w') \<and>
    length hs \<le> n \<and> fresh_holdings width T (last_ts sc) TIMESTAMP_MAX (rev hs) \<and>
    last_ts sc' = last (last_ts sc # map snd hs) \<and> transaction_log_index sc' = k \<and>
    consumer_slots c g k width (T ++ map_of hs) t' w'"
proof -
  let ?n = "min n (length (collected_slots sc))"
  have out: "outside T (last_ts sc) TIMESTAMP_MAX" using assms(3) by (simp add: outside_def)
  obtain hs cs t' w1 where
    run: "CollectSlots_loop c ?n TIMESTAMP_MAX 0 sc t w = Some (length hs, sc\<lparr>collected_slots := cs\<rparr>, t', w1)"
    and cs: "take (length hs) cs = map fst hs" and n: "length hs \<le> ?n"
    and fresh: "fresh_holdings width T (last_ts sc) TIMESTAMP_MAX hs"
    and ok: "consumer_slots c g k width (T ++ map_of hs) t' w1"
    using CollectSlots_loop_consumer [OF assms(1) out assms(2), of 0 ?n] by auto
  have d: "distinct (map fst hs)" using fresh by (simp add: fresh_holdings_def)
  have m: "map_of (rev hs) = map_of hs"
    using d by (subst map_of_inject_set) (simp_all add: rev_map [symmetric])
  have held: "\<forall>h \<in> set (rev hs). (T ++ map_of hs) (fst h) = Some (snd h)"
    using d by (auto simp: map_add_def)
  obtain w' where top: "highest_timestamp c (map fst (rev hs)) (last_ts sc) w1 =
      (fold (\<lambda>h b. max b (snd h)) (rev hs) (last_ts sc), w')" and ok': "consumer_slots c g k width (T ++ map_of hs) t' w'"
    using highest_timestamp_consumer [OF ok held] by blast
  have high: "fold (\<lambda>h b. max b (snd h)) (rev hs) (last_ts sc) = last (last_ts sc # map snd (rev hs))"
  proof (cases hs)
    case (Cons h hs')
    have "last_ts sc \<le> snd h" "\<forall>x \<in> set hs. snd x \<le> snd h"
      using fresh Cons by (auto simp: fresh_holdings_def intro: less_imp_le)
    then show ?thesis using Cons by (intro fold_max_bound) auto
  qed simp
  have "GetNewSamplesSlotIndices c n sc t w = Some (map fst (rev hs),
      sc\<lparr>collected_slots := cs, last_ts := last (last_ts sc # map snd (rev hs))\<rparr>, t', w')"
    using run cs top high
    by (simp add: GetNewSamplesSlotIndices_def CollectSlots_def rev_map)
  with n fresh ok' m assms(2) show ?thesis
    by (intro exI [of _ "rev hs"] exI [of _ "sc\<lparr>collected_slots := cs, last_ts := last (last_ts sc # map snd (rev hs))\<rparr>"]
        exI [of _ t'] exI [of _ w']) simp
qed

subsection \<open>Receiving\<close>

definition collecting :: "nat \<Rightarrow> u32 \<Rightarrow> 'h subscription_machine \<Rightarrow> bool" where
  "collecting k newest m \<longleftrightarrow>
     current_state m = SUBSCRIBED_STATE \<and> registration_guard m = Some (Some k) \<and>
     sd_max_sample_count (subscription_data m) \<noteq> None \<and>
     (\<exists>sc. sd_slot_collector (subscription_data m) = Some sc \<and> transaction_log_index sc = k \<and> last_ts sc = newest)"

text \<open>\<open>mine\<close> counts the guards of this thread: those of the pointers it holds and those of a factory.\<close>

definition consumer_inv ::
    "'c \<Rightarrow> 'c \<Rightarrow> nat \<Rightarrow> nat \<Rightarrow> holdings \<Rightarrow> u32 \<Rightarrow> ('c, 'v, 'h, 's, shared_tracker) consumer_world \<Rightarrow> bool" where
  "consumer_inv c g k mine T newest w \<longleftrightarrow>
     (\<exists>xs. data_storage w = Some xs \<and>
        consumer_slots c g k (length xs) T (ec_logs (event_control (proxy w))) (data_slots w)) \<and>
     rely tracker_step (sample_tracker w) \<and> conserves mine (mem (sample_tracker w)) \<and>
     collecting k newest (machine (proxy w))"

definition received_ptr :: "'c \<Rightarrow> nat \<Rightarrow> nat \<Rightarrow> 'c sample_ptr" where
  "received_ptr c k i = SamplePtr (Lola (LolaPtr i c i k)) \<lparr>tracker_set = True\<rparr>"

lemma fst_LolaPtr_move: "fst (LolaPtr_move p) = p"
  by (cases "slot_decrementer p") (simp_all add: LolaPtr_move_def SlotDecrementer_move_def)

lemma snd_LolaPtr_move: "LolaPtr_destroy (snd (LolaPtr_move p)) w = Some w"
  by (cases "slot_decrementer p")
    (simp_all add: LolaPtr_move_def SlotDecrementer_move_def LolaPtr_destroy_def decrementer_reset_def
      on_slots_def SlotDecrementer_destroy_def internal_delete_def put_logs_def)

text \<open>Dropping a pointer gives back the guard and the reference.\<close>

lemma SamplePtr_destroy_consumer:
  assumes "consumer_inv c g k (Suc mine) T newest w" and "T i = Some ts"
  shows "\<exists>w'. SamplePtr_destroy (received_ptr c k i) w = Some w' \<and> consumer_inv c g k mine (T(i := None)) newest w'"
proof -
  from assms(1) obtain xs where xs: "data_storage w = Some xs"
    and sl: "consumer_slots c g k (length xs) T (ec_logs (event_control (proxy w))) (data_slots w)"
    and tr: "rely tracker_step (sample_tracker w)" "conserves (Suc mine) (mem (sample_tracker w))"
    and m: "collecting k newest (machine (proxy w))" by (auto simp: consumer_inv_def)
  obtain tr' where d: "Deallocate 1 (sample_tracker w) = Some tr'" "rely tracker_step tr'" "conserves mine (mem tr')"
    using Deallocate_conserves [OF tr, of 1] by auto
  obtain t' sw' where e: "DereferenceEvent c i k (ec_logs (event_control (proxy w))) (data_slots w) = Some (t', sw')"
      "consumer_slots c g k (length xs) (T(i := None)) t' sw'"
    using DereferenceEvent_consumer [OF sl assms(2)] by blast
  let ?w = "w\<lparr>sample_tracker := tr', proxy := put_logs t' (proxy w), data_slots := sw'\<rparr>"
  have "SamplePtr_destroy (received_ptr c k i) w = Some ?w"
    using d(1) e(1)
    by (simp add: SamplePtr_destroy_def received_ptr_def SamplePtr_def on_tracker_def SampleReferenceGuard_destroy_def
        SampleReferenceGuard_Deallocate_def binding_ptr_destroy_def LolaPtr_destroy_def LolaPtr_def
        decrementer_reset_def on_slots_def SlotDecrementer_destroy_def SlotDecrementer_def internal_delete_def)
  moreover have "consumer_inv c g k mine (T(i := None)) newest ?w"
    using xs e(2) d m by (simp add: consumer_inv_def put_logs_def)
  ultimately show ?thesis by blast
qed

lemma map_of_middle:
  assumes "distinct (map fst (xs @ (i, ts) # ys))"
  shows "map_of (xs @ (i, ts) # ys) i = Some ts" and "(map_of (xs @ (i, ts) # ys))(i := None) = map_of (xs @ ys)"
proof -
  have "i \<notin> fst ` set xs" "i \<notin> fst ` set ys" using assms by auto
  then have n: "map_of xs i = None" "map_of ys i = None" by (simp_all only: map_of_eq_None_iff not_False_eq_True)
  then show "map_of (xs @ (i, ts) # ys) i = Some ts" by (simp add: map_add_def)
  show "(map_of (xs @ (i, ts) # ys))(i := None) = map_of (xs @ ys)"
    using n by (intro ext) (simp add: map_add_def split: option.splits)
qed

text \<open>
  The contract of a callback: what it was given it either keeps, as \<open>keeps\<close> says for its timestamp, or
  drops at once. \<open>held_by\<close> are the slots of the pointers it keeps, \<open>seen\<close> the timestamps it was called with; \<open>user_ok\<close> is what it keeps
  of its own state.
\<close>

locale sample_receiver =
  fixes c g :: 'c and k :: nat
    and receiver :: "('c, 'u, ('c, 'v, 'h, 's, shared_tracker) consumer_world) receiver"
    and held_by :: "'u \<Rightarrow> (nat \<times> u32) list" and seen :: "'u \<Rightarrow> u32 list" and user_ok :: "'u \<Rightarrow> bool" and keeps :: "u32 \<Rightarrow> bool"
  assumes receives: "user_ok u \<Longrightarrow> consumer_inv c g k (Suc mine) T newest w \<Longrightarrow> T i = Some ts \<Longrightarrow>
    \<exists>u' w'. receiver (received_ptr c k i) ts u w = Some (u', w') \<and> user_ok u' \<and> seen u' = seen u @ [ts] \<and>
      held_by u' = held_by u @ (if keeps ts then [(i, ts)] else []) \<and>
      (if keeps ts then consumer_inv c g k (Suc mine) T newest w' else consumer_inv c g k mine (T(i := None)) newest w')"
begin

definition kept_of :: "(nat \<times> u32) list \<Rightarrow> (nat \<times> u32) list" where
  "kept_of hs = filter (\<lambda>h. keeps (snd h)) hs"

lemma GetNewSamplesImpl_loop_consumer:
  assumes "user_ok u" and "distinct (map fst (held_by u @ hs))" and "length hs \<le> unat (num_available_guards f)"
    and "consumer_inv c g k (length (held_by u) + unat (num_available_guards f)) (map_of (held_by u @ hs)) newest w"
  shows "\<exists>f' u' w'. GetNewSamplesImpl_loop receiver c k (map fst hs) f u w = Some (f', u', w') \<and>
    user_ok u' \<and> seen u' = seen u @ map snd hs \<and> held_by u' = held_by u @ kept_of hs \<and>
    distinct (map fst (held_by u')) \<and>
    unat (num_available_guards f') = unat (num_available_guards f) - length hs \<and>
    consumer_inv c g k (length (held_by u') + unat (num_available_guards f')) (map_of (held_by u')) newest w'"
  using assms
proof (induction hs arbitrary: f u w)
  case Nil
  then show ?case by (intro exI [of _ f] exI [of _ u] exI [of _ w]) (simp add: kept_of_def)
next
  case (Cons h hs)
  obtain i ts where h: "h = (i, ts)" by (cases h)
  let ?n = "num_available_guards f"
  define T where "T = map_of (held_by u @ h # hs)"
  have T: "T i = Some ts" and T_drop: "T(i := None) = map_of (held_by u @ hs)"
    using map_of_middle [of "held_by u" i ts hs] Cons.prems(2) unfolding T_def h by simp_all
  have inv0: "consumer_inv c g k (length (held_by u) + unat ?n) T newest w"
    using Cons.prems(4) unfolding T_def .
  have n0: "0 < ?n" using Cons.prems(3) by (cases "?n = 0") (auto simp: word_gt_0)
  then have n1: "unat (?n - 1) = unat ?n - 1" "0 < unat ?n" by (simp_all add: unat_minus_one unat_gt_0 word_gt_0)
  let ?f = "f\<lparr>num_available_guards := ?n - 1\<rparr>"
  from inv0 obtain xs where xs: "data_storage w = Some xs"
    and sl: "consumer_slots c g k (length xs) T (ec_logs (event_control (proxy w))) (data_slots w)"
    by (auto simp: consumer_inv_def)
  have i: "i < length xs"
    using sl holds_slot(1) [of c g T "mem (data_slots w)" i ts] T by (auto simp: consumer_slots_def num_slots_of_def)
  obtain v sw where at: "slot_at c i (data_slots w) = (v, sw)" and v: "GetTimeStamp v = ts"
    and sl': "consumer_slots c g k (length xs) T (ec_logs (event_control (proxy w))) sw"
    using slot_at_consumer [OF sl, of i] T by auto
  let ?w = "w\<lparr>data_slots := sw\<rparr>" and ?mine = "length (held_by u) + unat ?n - 1"
  have inv: "consumer_inv c g k (Suc ?mine) T newest ?w"
    using inv0 xs sl' n1(2) by (simp add: consumer_inv_def)
  obtain u1 w1 where run: "receiver (received_ptr c k i) ts u ?w = Some (u1, w1)"
    and ok1: "user_ok u1" and u1: "seen u1 = seen u @ [ts]" "held_by u1 = held_by u @ (if keeps ts then [(i, ts)] else [])"
    and w1: "if keeps ts then consumer_inv c g k (Suc ?mine) T newest w1
             else consumer_inv c g k ?mine (T(i := None)) newest w1"
    using receives [OF Cons.prems(1) inv T] by blast
  obtain rest where moved: "LolaPtr_move (LolaPtr i c i k) = (LolaPtr i c i k, rest)"
    using fst_LolaPtr_move prod.collapse by metis
  have step: "GetNewSamplesImpl_loop receiver c k (map fst (h # hs)) f u w =
      GetNewSamplesImpl_loop receiver c k (map fst hs) ?f u1 w1"
    using xs i at v run n0 h moved by (simp add: received_ptr_def TakeGuard_def SampleReferenceGuard_move_def)
  have inv1: "consumer_inv c g k (length (held_by u1) + unat (num_available_guards ?f)) (map_of (held_by u1 @ hs)) newest w1"
  proof (cases "keeps ts")
    case True
    with w1 u1 h n1 show ?thesis by (simp add: T_def)
  next
    case False
    with w1 u1 n1 show ?thesis by (simp add: T_drop)
  qed
  have d1: "distinct (map fst (held_by u1 @ hs))" using Cons.prems(2) u1 h by auto
  have l1: "length hs \<le> unat (num_available_guards ?f)" using Cons.prems(3) n1 by simp
  obtain f' u' w' where r: "GetNewSamplesImpl_loop receiver c k (map fst hs) ?f u1 w1 = Some (f', u', w')"
    and ok': "user_ok u'" and s: "seen u' = seen u1 @ map snd hs" "held_by u' = held_by u1 @ kept_of hs"
      "distinct (map fst (held_by u'))" "unat (num_available_guards f') = unat (num_available_guards ?f) - length hs"
      "consumer_inv c g k (length (held_by u') + unat (num_available_guards f')) (map_of (held_by u')) newest w'"
    using Cons.IH [OF ok1 d1 l1 inv1] by (elim exE conjE)
  have "held_by u' = held_by u @ kept_of (h # hs)" "seen u' = seen u @ map snd (h # hs)"
    using s(1,2) u1 h by (auto simp: kept_of_def)
  moreover have "unat (num_available_guards f') = unat ?n - length (h # hs)" using s(4) n1 by simp
  ultimately show ?case using r step ok' s(3,5) by metis
qed

end

subsection \<open>A call of the user\<close>

text \<open>Between two calls: the pointers that are held, as slots and timestamps, and the newest sample seen.\<close>

definition consumer_ok ::
    "'c \<Rightarrow> 'c \<Rightarrow> nat \<Rightarrow> (nat \<times> u32) list \<Rightarrow> u32 \<Rightarrow> ('c, 'v, 'h, 's, shared_tracker) consumer_world \<Rightarrow> bool" where
  "consumer_ok c g k hs newest w \<longleftrightarrow>
     distinct (map fst hs) \<and> (\<forall>h \<in> set hs. snd h \<le> newest) \<and> consumer_inv c g k (length hs) (map_of hs) newest w"

lemma collecting_access:
  assumes "collecting k newest m"
  obtains sc where "GetSubscriptionState m = kSubscribed" and "GetSlotCollectorLockFree m = Some (Some sc)"
    and "Machine_GetTransactionLogIndex m = Some (Some k)" and "transaction_log_index sc = k" and "last_ts sc = newest"
    and "\<And>sc'. transaction_log_index sc' = k \<Longrightarrow>
      collecting k (last_ts sc') (m\<lparr>subscription_data := (subscription_data m)\<lparr>sd_slot_collector := Some sc'\<rparr>\<rparr>)"
proof -
  from assms obtain sc where sc: "current_state m = SUBSCRIBED_STATE" "registration_guard m = Some (Some k)"
    "sd_max_sample_count (subscription_data m) \<noteq> None" "sd_slot_collector (subscription_data m) = Some sc"
    "transaction_log_index sc = k" "last_ts sc = newest" by (auto simp: collecting_def)
  show thesis
  proof (rule that [of sc])
    show "GetSubscriptionState m = kSubscribed" using sc by (simp add: GetSubscriptionState_def)
    show "GetSlotCollectorLockFree m = Some (Some sc)"
      using sc by (simp add: GetSlotCollectorLockFree_def Subscribed_GetSlotCollector_def contract_simps)
    show "Machine_GetTransactionLogIndex m = Some (Some k)"
      using sc by (simp add: Machine_GetTransactionLogIndex_def Subscribed_GetTransactionLogIndex_def GetTransactionLogIndex_def
          contract_simps)
    fix sc' :: slot_collector assume "transaction_log_index sc' = k"
    then show "collecting k (last_ts sc') (m\<lparr>subscription_data := (subscription_data m)\<lparr>sd_slot_collector := Some sc'\<rparr>\<rparr>)"
      using sc by (simp add: collecting_def)
  qed (use sc in simp_all)
qed

lemma Proxy_GetNewSamplesSlotIndices_consumer:
  assumes "consumer_inv c g k mine T newest w" and "\<forall>i ts. T i = Some ts \<longrightarrow> ts \<le> newest"
  shows "\<exists>hs m sw. Proxy_GetNewSamplesSlotIndices c n (proxy w) (data_slots w) = Some (map fst hs, m, sw) \<and>
    length hs \<le> n \<and> (\<exists>b. fresh_holdings b T newest TIMESTAMP_MAX (rev hs)) \<and>
    consumer_inv c g k mine (T ++ map_of hs) (last (newest # map snd hs)) (w\<lparr>proxy := m, data_slots := sw\<rparr>)"
proof -
  from assms(1) obtain xs where xs: "data_storage w = Some xs"
    and sl: "consumer_slots c g k (length xs) T (ec_logs (event_control (proxy w))) (data_slots w)"
    and tr: "rely tracker_step (sample_tracker w)" "conserves mine (mem (sample_tracker w))"
    and m: "collecting k newest (machine (proxy w))" by (auto simp: consumer_inv_def)
  from m obtain sc where sc: "GetSlotCollectorLockFree (machine (proxy w)) = Some (Some sc)"
    "transaction_log_index sc = k" "last_ts sc = newest"
    and keep: "\<And>sc'. transaction_log_index sc' = k \<Longrightarrow> collecting k (last_ts sc') ((machine (proxy w))\<lparr>subscription_data :=
        (subscription_data (machine (proxy w)))\<lparr>sd_slot_collector := Some sc'\<rparr>\<rparr>)"
    by (rule collecting_access) blast
  have old: "\<forall>i ts. T i = Some ts \<longrightarrow> ts \<le> last_ts sc" using assms(2) sc(3) by simp
  obtain hs sc' t' sw where
    run: "GetNewSamplesSlotIndices c n sc (ec_logs (event_control (proxy w))) (data_slots w) = Some (map fst hs, sc', t', sw)"
    and hs: "length hs \<le> n" "fresh_holdings (length xs) T (last_ts sc) TIMESTAMP_MAX (rev hs)"
    and sc': "last_ts sc' = last (last_ts sc # map snd hs)" "transaction_log_index sc' = k"
    and ok: "consumer_slots c g k (length xs) (T ++ map_of hs) t' sw"
    using GetNewSamplesSlotIndices_consumer [OF sl sc(2) old, of n] by blast
  let ?m = "(upd_machine (\<lambda>m. m\<lparr>subscription_data := (subscription_data m)\<lparr>sd_slot_collector := Some sc'\<rparr>\<rparr>) (proxy w))
      \<lparr>event_control := (event_control (proxy w))\<lparr>ec_logs := t'\<rparr>\<rparr>"
  have "Proxy_GetNewSamplesSlotIndices c n (proxy w) (data_slots w) = Some (map fst hs, ?m, sw)"
    using sc(1) run by (simp add: Proxy_GetNewSamplesSlotIndices_def Let_def upd_machine_def)
  moreover have "consumer_inv c g k mine (T ++ map_of hs) (last (newest # map snd hs)) (w\<lparr>proxy := ?m, data_slots := sw\<rparr>)"
    using xs ok tr keep [OF sc'(2)] sc'(1) sc(3) by (simp add: consumer_inv_def upd_machine_def)
  ultimately show ?thesis using hs sc(3) by blast
qed

text \<open>What one call hands to the callback, in this order.\<close>

definition handed_out :: "u32 \<Rightarrow> u32 \<Rightarrow> u32 list \<Rightarrow> bool" where
  "handed_out newest newest' tss \<longleftrightarrow> sorted_wrt (<) (newest # tss) \<and> newest' = last (newest # tss)"

lemma handed_out_top:
  assumes "handed_out newest newest' tss"
  shows "newest \<le> newest' \<and> (\<forall>t \<in> set tss. t \<le> newest')"
proof (cases tss rule: rev_cases)
  case Nil
  with assms show ?thesis by (simp add: handed_out_def)
next
  case (snoc ts t)
  with assms show ?thesis by (auto simp: handed_out_def sorted_wrt_append intro: less_imp_le)
qed

context sample_receiver
begin

lemma GetNewSamplesImpl_consumer:
  assumes "distinct (map fst (held_by u))" and "\<forall>h \<in> set (held_by u). snd h \<le> newest" and "user_ok u"
    and "consumer_inv c g k (length (held_by u) + unat (num_available_guards f)) (map_of (held_by u)) newest w"
  shows "\<exists>hs f' u' w' m sw. GetNewSamplesImpl receiver c f u w = Some (Inr (length hs), f', u', w') \<and>
    Proxy_GetNewSamplesSlotIndices c (unat (num_available_guards f)) (proxy w) (data_slots w) = Some (map fst hs, m, sw) \<and>
    holds c g (map_of (held_by u @ hs)) (mem sw) \<and>
    length hs \<le> unat (num_available_guards f) \<and> handed_out newest (last (newest # map snd hs)) (map snd hs) \<and>
    user_ok u' \<and> seen u' = seen u @ map snd hs \<and> held_by u' = held_by u @ kept_of hs \<and>
    distinct (map fst (held_by u')) \<and>
    consumer_inv c g k (length (held_by u') + unat (num_available_guards f')) (map_of (held_by u'))
      (last (newest # map snd hs)) w'"
proof -
  let ?T = "map_of (held_by u)" and ?n = "unat (num_available_guards f)"
  have old: "\<forall>i ts. ?T i = Some ts \<longrightarrow> ts \<le> newest" using assms(2) by (auto dest!: map_of_SomeD)
  obtain hs m sw where run: "Proxy_GetNewSamplesSlotIndices c ?n (proxy w) (data_slots w) = Some (map fst hs, m, sw)"
    and n: "length hs \<le> ?n" and fresh: "\<exists>b. fresh_holdings b ?T newest TIMESTAMP_MAX (rev hs)"
    and inv: "consumer_inv c g k (length (held_by u) + ?n) (?T ++ map_of hs) (last (newest # map snd hs))
        (w\<lparr>proxy := m, data_slots := sw\<rparr>)"
    using Proxy_GetNewSamplesSlotIndices_consumer [OF assms(4) old, of ?n] by blast
  let ?w = "w\<lparr>proxy := m, data_slots := sw\<rparr>"
  have fresh: "distinct (map fst hs)" "\<forall>h \<in> set hs. ?T (fst h) = None \<and> newest < snd h"
      "sorted_wrt (\<lambda>a b. snd a < snd b) hs"
    using fresh by (auto simp: fresh_holdings_def rev_map [symmetric] sorted_wrt_rev)
  have "\<forall>h \<in> set hs. fst h \<notin> fst ` set (held_by u)" using fresh(2) by (metis map_of_eq_None_iff)
  then have disj: "fst ` set (held_by u) \<inter> fst ` set hs = {}" by (simp add: disjoint_iff image_iff) metis
  have T: "?T ++ map_of hs = map_of (held_by u @ hs)"
    using disj by (simp add: map_add_comm dom_map_of_conv_image_fst)
  have dist: "distinct (map fst (held_by u @ hs))" using assms(1) fresh(1) disj by simp
  obtain f' u' w' where loop: "GetNewSamplesImpl_loop receiver c k (map fst hs) f u ?w = Some (f', u', w')"
    and res: "user_ok u'" "seen u' = seen u @ map snd hs" "held_by u' = held_by u @ kept_of hs" "distinct (map fst (held_by u'))"
      "consumer_inv c g k (length (held_by u') + unat (num_available_guards f')) (map_of (held_by u'))
        (last (newest # map snd hs)) w'"
    using GetNewSamplesImpl_loop_consumer [OF assms(3) dist n inv [unfolded T]] by (elim exE conjE)
  have storage: "data_storage w \<noteq> None" using assms(4) by (auto simp: consumer_inv_def)
  have log: "Machine_GetTransactionLogIndex (machine m) = Some (Some k)"
    using inv by (auto simp: consumer_inv_def elim: collecting_access)
  have "GetNewSamplesImpl receiver c f u w = Some (Inr (length hs), f', u', w')"
    using run storage log loop
    by (simp add: GetNewSamplesImpl_def GetNumAvailableGuards_def contract_simps)
  moreover have "handed_out newest (last (newest # map snd hs)) (map snd hs)"
    using fresh by (simp add: handed_out_def sorted_wrt_map)
  moreover have "holds c g (map_of (held_by u @ hs)) (mem sw)"
    using inv unfolding T by (auto simp: consumer_inv_def consumer_slots_def)
  ultimately show ?thesis using n res run by metis
qed

lemma Event_GetNewSamples_consumer:
  assumes "consumer_ok c g k (held_by u) newest w" and "user_ok u"
  shows "\<exists>r hs newest' u' w'. Event_GetNewSamples receiver c n u w = Some (r, u', w') \<and> user_ok u' \<and>
    consumer_ok c g k (held_by u') newest' w' \<and> handed_out newest newest' (map snd hs) \<and>
    seen u' = seen u @ map snd hs \<and> held_by u' = held_by u @ kept_of hs \<and> length hs \<le> unat n \<and>
    (let n' = num_available_guards (fst (Allocate n (sample_tracker w)))
     in if n' = 0 then r = Inl kMaxSamplesReached \<and> hs = []
        else r = Inr (length hs) \<and>
          (\<exists>m sw. Proxy_GetNewSamplesSlotIndices c (unat n') (proxy w) (data_slots w) = Some (map fst hs, m, sw) \<and>
            holds c g (map_of (held_by u @ hs)) (mem sw)))"
proof -
  let ?hs = "held_by u"
  from assms(1) have d: "distinct (map fst ?hs)" and old: "\<forall>h \<in> set ?hs. snd h \<le> newest"
    and inv: "consumer_inv c g k (length ?hs) (map_of ?hs) newest w" by (simp_all add: consumer_ok_def)
  then have tr: "rely tracker_step (sample_tracker w)" "conserves (length ?hs) (mem (sample_tracker w))"
    by (simp_all add: consumer_inv_def)
  obtain f tr1 where al: "Allocate n (sample_tracker w) = (f, tr1)" by (cases "Allocate n (sample_tracker w)")
  note c1 = Allocate_conserves [OF tr al]
  let ?w = "w\<lparr>sample_tracker := tr1\<rparr>" and ?F = "unat (num_available_guards f)"
  have inv1: "consumer_inv c g k (length ?hs + ?F) (map_of ?hs) newest ?w"
    using inv c1 by (simp add: consumer_inv_def)
  show ?thesis
  proof (cases "num_available_guards f = 0")
    case True
    then have "Event_GetNewSamples receiver c n u w = Some (Inl kMaxSamplesReached, u, ?w)"
      using al by (simp add: Event_GetNewSamples_def GetNumAvailableGuards_def on_tracker_def TrackerGuardFactory_destroy_def)
    moreover have "consumer_ok c g k ?hs newest ?w" using True d old inv1 by (simp add: consumer_ok_def)
    ultimately show ?thesis 
      using True al assms(2)
      by (intro exI [of _ "Inl kMaxSamplesReached"] exI [of _ "[]"] exI [of _ newest] exI [of _ u] exI [of _ ?w])
        (simp add: handed_out_def kept_of_def)
  next
    case False
    obtain hs f' u' w1 m sw where run: "GetNewSamplesImpl receiver c f u ?w = Some (Inr (length hs), f', u', w1)"
      and found: "Proxy_GetNewSamplesSlotIndices c ?F (proxy w) (data_slots w) = Some (map fst hs, m, sw)"
        "holds c g (map_of (?hs @ hs)) (mem sw)"
      and n: "length hs \<le> ?F" and h: "handed_out newest (last (newest # map snd hs)) (map snd hs)"
      and ok': "user_ok u'" and res: "seen u' = seen u @ map snd hs" "held_by u' = ?hs @ kept_of hs" "distinct (map fst (held_by u'))"
      and inv2: "consumer_inv c g k (length (held_by u') + unat (num_available_guards f')) (map_of (held_by u'))
        (last (newest # map snd hs)) w1"
      using GetNewSamplesImpl_consumer [OF d old assms(2) inv1] by (auto simp del: map_of_append)
    let ?newest = "last (newest # map snd hs)"
    have tr2: "rely tracker_step (sample_tracker w1)"
      "conserves (length (held_by u') + unat (num_available_guards f')) (mem (sample_tracker w1))"
      using inv2 by (simp_all add: consumer_inv_def)
    obtain tr3 where d3: "TrackerGuardFactory_destroy f' (sample_tracker w1) = Some tr3" and
        "rely tracker_step tr3" "conserves (length (held_by u')) (mem tr3)"
    proof (cases "num_available_guards f' = 0")
      case True
      with tr2 that [of "sample_tracker w1"] show thesis by (simp add: TrackerGuardFactory_destroy_def)
    next
      case False
      with Deallocate_conserves [OF tr2, of "num_available_guards f'"] that show thesis
        by (auto simp: TrackerGuardFactory_destroy_def word_gt_0)
    qed
    then have inv3: "consumer_inv c g k (length (held_by u')) (map_of (held_by u')) ?newest (w1\<lparr>sample_tracker := tr3\<rparr>)"
      using inv2 by (simp add: consumer_inv_def)
    have sub: "GetSubscriptionState (machine (proxy ?w)) = kSubscribed"
      using inv by (auto simp: consumer_inv_def elim: collecting_access)
    have "Event_GetNewSamples receiver c n u w = Some (Inr (length hs), u', w1\<lparr>sample_tracker := tr3\<rparr>)"
      using al False run d3 sub
      by (simp add: Event_GetNewSamples_def GetNumAvailableGuards_def Binding_GetNewSamples_def on_tracker_def
          only_not_subscribed_def)
    moreover have "\<forall>x \<in> set (held_by u'). snd x \<le> ?newest"
    proof -
      have top: "newest \<le> ?newest" "\<forall>x \<in> set hs. snd x \<le> ?newest"
        using h handed_out_top [of newest "?newest" "map snd hs"] by auto
      show ?thesis
      proof
        fix x assume "x \<in> set (held_by u')"
        then have "x \<in> set ?hs \<or> x \<in> set hs" using res(2) by (auto simp: kept_of_def)
        then show "snd x \<le> ?newest" using top old order_trans by blast
      qed
    qed
    moreover have "length hs \<le> unat n" using n c1 by (simp add: word_le_nat_alt)
    ultimately show ?thesis using ok' res inv3 h al False found
      by (intro exI [of _ "Inr (length hs)"] exI [of _ hs] exI [of _ ?newest] exI [of _ u'] exI [of _ "w1\<lparr>sample_tracker := tr3\<rparr>"])
        (auto simp: consumer_ok_def)
  qed
qed

end

subsection \<open>Histories\<close>

text \<open>A user that stores some of the pointers, by their timestamps, and drops the others at once.\<close>

record 'c sample_user =
  held_ptrs :: "('c sample_ptr \<times> u32) list"
  seen_stamps :: "u32 list"

definition collect ::
    "(u32 \<Rightarrow> bool) \<Rightarrow> ('c, 'c sample_user, ('c, 'v, 'h, 's, 'x tracker_memory_scheme) consumer_world) receiver" where
  "collect keep p ts u w =
     (let u = u\<lparr>seen_stamps := seen_stamps u @ [ts]\<rparr>
      in if keep ts then Some (u\<lparr>held_ptrs := held_ptrs u @ [(p, ts)]\<rparr>, w)
         else do { w \<leftarrow> SamplePtr_destroy p w; Some (u, w) })"

definition held_slots :: "'c sample_user \<Rightarrow> (nat \<times> u32) list" where
  "held_slots u = map (\<lambda>(p, ts). (the (SamplePtr_get p), ts)) (held_ptrs u)"

definition holds_received :: "'c \<Rightarrow> nat \<Rightarrow> 'c sample_user \<Rightarrow> bool" where
  "holds_received c k u \<longleftrightarrow> (\<forall>(p, ts) \<in> set (held_ptrs u). p = received_ptr c k (the (SamplePtr_get p)))"

lemma get_received [simp]: "SamplePtr_get (received_ptr c k i) = Some i"
  by (simp add: SamplePtr_get_def received_ptr_def SamplePtr_def LolaPtr_get_def LolaPtr_def)

interpretation collector: sample_receiver c g k "collect keep" held_slots seen_stamps "holds_received c k" keep
  for c g :: 'c and k :: nat and keep :: "u32 \<Rightarrow> bool"
proof
  fix u :: "'c sample_user" and mine T newest and w :: "('c, 'v, 'h, 's, shared_tracker) consumer_world" and i ts
  assume u: "holds_received c k u" and inv: "consumer_inv c g k (Suc mine) T newest w" and T: "T i = Some ts"
  show "\<exists>u' w'. collect keep (received_ptr c k i) ts u w = Some (u', w') \<and> holds_received c k u' \<and>
      seen_stamps u' = seen_stamps u @ [ts] \<and>
      held_slots u' = held_slots u @ (if keep ts then [(i, ts)] else []) \<and>
      (if keep ts then consumer_inv c g k (Suc mine) T newest w' else consumer_inv c g k mine (T(i := None)) newest w')"
  proof (cases "keep ts")
    case True
    with u inv show ?thesis by (auto simp: collect_def holds_received_def held_slots_def)
  next
    case False
    obtain w' where "SamplePtr_destroy (received_ptr c k i) w = Some w'" "consumer_inv c g k mine (T(i := None)) newest w'"
      using SamplePtr_destroy_consumer [OF inv T] by blast
    with False u show ?thesis by (simp add: collect_def holds_received_def held_slots_def)
  qed
qed

text \<open>The calls of the user; \<open>Drop_ptr n\<close> drops one of the pointers he holds.\<close>

datatype consumer_call = Get_samples u64 "u32 \<Rightarrow> bool" | Drop_ptr nat | Free_count

type_synonym ('c, 'v, 'h, 's, 'x) consumer_state =
  "'c sample_user \<times> ('c, 'v, 'h, 's, 'x tracker_memory_scheme) consumer_world"

fun run_consumer ::
    "'c \<Rightarrow> consumer_call \<Rightarrow> ('c, 'v, 'h, 's, 'x) consumer_state \<Rightarrow> ('c, 'v, 'h, 's, 'x) consumer_state run" where
  "run_consumer c (Get_samples n keep) (u, w) = map_option snd (Event_GetNewSamples (collect keep) c n u w)"
| "run_consumer c (Drop_ptr n) (u, w) =
     (if n < length (held_ptrs u)
      then map_option (\<lambda>w. (u\<lparr>held_ptrs := remove_at n (held_ptrs u)\<rparr>, w)) (SamplePtr_destroy (fst (held_ptrs u ! n)) w)
      else Some (u, w))"
| "run_consumer c Free_count (u, w) = Some (u, snd (Event_GetFreeSampleCount w))"

definition consumer_state_ok :: "'c \<Rightarrow> 'c \<Rightarrow> nat \<Rightarrow> u32 \<Rightarrow> ('c, 'v, 'h, 's, shared_tracker) consumer_world \<Rightarrow> 'c sample_user \<Rightarrow> bool" where
  "consumer_state_ok c g k newest w u \<longleftrightarrow>
     holds_received c k u \<and> consumer_ok c g k (held_slots u) newest w \<and>
     sorted_wrt (<) (seen_stamps u) \<and> (\<forall>ts \<in> set (seen_stamps u). ts \<le> newest)"

lemma holds_received_mono:
  "holds_received c k u \<Longrightarrow> set (held_ptrs u') \<subseteq> set (held_ptrs u) \<Longrightarrow> holds_received c k u'"
  unfolding holds_received_def by blast

lemma drop_one:
  assumes "consumer_state_ok c g k newest w u" and "n < length (held_ptrs u)"
  shows "\<exists>w'. SamplePtr_destroy (fst (held_ptrs u ! n)) w = Some w' \<and>
    consumer_state_ok c g k newest w' (u\<lparr>held_ptrs := remove_at n (held_ptrs u)\<rparr>)"
proof -
  define i ts where "i = the (SamplePtr_get (fst (held_ptrs u ! n)))" and "ts = snd (held_ptrs u ! n)"
  define xs ys where "xs = take n (held_slots u)" and "ys = drop (Suc n) (held_slots u)"
  let ?u = "u\<lparr>held_ptrs := remove_at n (held_ptrs u)\<rparr>"
  have n: "n < length (held_slots u)" "held_slots u ! n = (i, ts)"
    using assms(2) by (simp_all add: held_slots_def i_def ts_def split: prod.splits)
  have split: "held_slots u = xs @ (i, ts) # ys" using id_take_nth_drop [OF n(1)] unfolding n(2) xs_def ys_def .
  have p: "fst (held_ptrs u ! n) = received_ptr c k i"
  proof -
    have "\<forall>x \<in> set (held_ptrs u). fst x = received_ptr c k (the (SamplePtr_get (fst x)))"
      using assms(1) unfolding consumer_state_ok_def holds_received_def case_prod_unfold by (rule conjunct1)
    with nth_mem [OF assms(2)] show ?thesis unfolding i_def by blast
  qed
  have rest: "held_slots ?u = xs @ ys"
    by (simp add: held_slots_def remove_at_def take_map drop_map xs_def ys_def)
  from assms(1) have d: "distinct (map fst (held_slots u))" and old: "\<forall>h \<in> set (held_slots u). snd h \<le> newest"
    and inv: "consumer_inv c g k (length (held_slots u)) (map_of (held_slots u)) newest w"
    by (simp_all add: consumer_state_ok_def consumer_ok_def)
  have len: "length (held_slots u) = Suc (length (xs @ ys))" using split by simp
  note m = map_of_middle [OF d [unfolded split]]
  have inv': "consumer_inv c g k (Suc (length (xs @ ys))) (map_of (xs @ (i, ts) # ys)) newest w"
    using inv len split by simp
  obtain w' where w': "SamplePtr_destroy (received_ptr c k i) w = Some w'"
      "consumer_inv c g k (length (xs @ ys)) (map_of (xs @ ys)) newest w'"
    using SamplePtr_destroy_consumer [OF inv' m(1)] unfolding m(2) by blast
  have "distinct (map fst (xs @ ys))" "\<forall>h \<in> set (xs @ ys). snd h \<le> newest"
    using d old unfolding split by auto
  then have "consumer_ok c g k (held_slots ?u) newest w'"
    using w'(2) by (simp only: consumer_ok_def rest simp_thms)
  moreover have "holds_received c k ?u"
  proof (rule holds_received_mono)
    show "holds_received c k u" using assms(1) unfolding consumer_state_ok_def by (rule conjunct1)
    show "set (held_ptrs ?u) \<subseteq> set (held_ptrs u)" by (auto simp: remove_at_def dest: in_set_takeD in_set_dropD)
  qed
  moreover have "sorted_wrt (<) (seen_stamps ?u)" "\<forall>ts \<in> set (seen_stamps ?u). ts \<le> newest"
    using assms(1) by (simp_all add: consumer_state_ok_def)
  ultimately have "consumer_state_ok c g k newest w' ?u" unfolding consumer_state_ok_def by (intro conjI)
  with w'(1) p show ?thesis by auto
qed

lemma consumer_step:
  assumes "consumer_state_ok c g k newest w u"
  shows "\<exists>u' w' newest'. run_consumer c call (u, w) = Some (u', w') \<and> consumer_state_ok c g k newest' w' u'"
proof (cases call)
  case (Get_samples n keep)
  have ok: "consumer_ok c g k (held_slots u) newest w" "holds_received c k u" "sorted_wrt (<) (seen_stamps u)"
    "\<forall>ts \<in> set (seen_stamps u). ts \<le> newest" using assms by (simp_all add: consumer_state_ok_def)
  obtain r and hs :: "(nat \<times> u32) list" and newest' u' w' where run: "Event_GetNewSamples (collect keep) c n u w = Some (r, u', w')"
    and ok': "holds_received c k u'" "consumer_ok c g k (held_slots u') newest' w'"
    and h: "handed_out newest newest' (map snd hs)" and seen: "seen_stamps u' = seen_stamps u @ map snd hs"
    using collector.Event_GetNewSamples_consumer [OF ok(1,2), where n = n and keep = keep] by (elim exE conjE)
  have "\<forall>t \<in> set (map snd hs). newest < t" using h by (simp add: handed_out_def)
  then have "sorted_wrt (<) (seen_stamps u')"
    using ok(3,4) h seen by (auto simp: sorted_wrt_append handed_out_def intro: le_less_trans)
  moreover have "\<forall>ts \<in> set (seen_stamps u'). ts \<le> newest'"
    using handed_out_top [OF h] ok(4) seen by auto
  ultimately have "consumer_state_ok c g k newest' w' u'" using ok' by (simp add: consumer_state_ok_def)
  with run Get_samples show ?thesis by auto
next
  case (Drop_ptr n)
  show ?thesis
  proof (cases "n < length (held_ptrs u)")
    case True
    from drop_one [OF assms True] Drop_ptr True show ?thesis by auto
  qed (use Drop_ptr assms in auto)
next
  case Free_count
  obtain v tr where ld: "atomic_load get_available (sample_tracker w) = (v, tr)"
    by (cases "atomic_load get_available (sample_tracker w)")
  have "rely tracker_step (sample_tracker w)" using assms by (simp add: consumer_state_ok_def consumer_ok_def consumer_inv_def)
  from evolves_atomic_load [OF this ld] have e: "evolves tracker_step (sample_tracker w) tr" .
  have "consumer_state_ok c g k newest (w\<lparr>sample_tracker := tr\<rparr>) u"
    using assms e tracker.evolves_keeps [OF e]
    by (simp add: consumer_state_ok_def consumer_ok_def consumer_inv_def evolves_rely)
  with Free_count ld show ?thesis by (auto simp: Event_GetFreeSampleCount_def GetNumAvailableSamples_def)
qed

lemma consumer_history:
  assumes "consumer_state_ok c g k newest w u"
  shows "\<exists>u' w' newest'. fold_run (run_consumer c) calls (u, w) = Some (u', w') \<and> consumer_state_ok c g k newest' w' u'"
  using assms
proof (induction calls arbitrary: u w newest)
  case Nil
  then show ?case by auto
next
  case (Cons call calls)
  obtain u1 w1 n1 where "run_consumer c call (u, w) = Some (u1, w1)" "consumer_state_ok c g k n1 w1 u1"
    using consumer_step [OF Cons.prems] by blast
  with Cons.IH show ?case by fastforce
qed

definition no_samples :: "'c sample_user" where
  "no_samples = \<lparr>held_ptrs = [], seen_stamps = []\<rparr>"

text \<open>A pointer that refers to the sample it was handed out for.\<close>

definition refers_to :: "'c \<Rightarrow> nat \<Rightarrow> 'c slot_memory \<Rightarrow> 'c sample_ptr \<Rightarrow> u32 \<Rightarrow> bool" where
  "refers_to c k m p ts \<longleftrightarrow>
     (\<exists>i. p = received_ptr c k i \<and> \<not> IsInWriting (m c ! i) \<and> GetTimeStamp (m c ! i) = ts)"

definition log_holds_exactly :: "nat set \<Rightarrow> transaction_log \<Rightarrow> bool" where
  "log_holds_exactly A l \<longleftrightarrow> {i. i < num_slots l \<and> slot_phase l i = Held} = A \<and> crash_free l"

lemma log_agrees_exactly:
  assumes "log_agrees_with (map_of (held_slots u)) l"
  shows "log_holds_exactly (set (map (\<lambda>(p, ts). the (SamplePtr_get p)) (held_ptrs u))) l"
proof -
  have "i < num_slots l \<and> slot_phase l i = Held \<longleftrightarrow> i \<in> dom (map_of (held_slots u))" for i
    using assms by (cases "map_of (held_slots u) i") (auto simp: log_agrees_with_def)
  then have "{i. i < num_slots l \<and> slot_phase l i = Held} = dom (map_of (held_slots u))" by blast
  also have "\<dots> = set (map (\<lambda>(p, ts). the (SamplePtr_get p)) (held_ptrs u))"
    by (force simp: dom_map_of_conv_image_fst held_slots_def)
  finally show ?thesis
    using assms by (simp add: log_holds_exactly_def log_agrees_with_def crash_free_def ambiguous_def)
qed

lemma held_ptr_slot:
  assumes "consumer_state_ok c g k newest w u" and "(p, ts) \<in> set (held_ptrs u)"
  shows "refers_to c k (mem (data_slots w)) p ts"
proof -
  have p: "p = received_ptr c k (the (SamplePtr_get p))"
    using assms unfolding consumer_state_ok_def holds_received_def by blast
  have "(the (SamplePtr_get p), ts) \<in> set (held_slots u)" using assms(2) by (force simp: held_slots_def)
  moreover have "distinct (map fst (held_slots u))" and h: "holds c g (map_of (held_slots u)) (mem (data_slots w))"
    using assms(1) by (auto simp: consumer_state_ok_def consumer_ok_def consumer_inv_def consumer_slots_def)
  ultimately have "map_of (held_slots u) (the (SamplePtr_get p)) = Some ts" by simp
  from p holds_slot [OF h this] show ?thesis unfolding refers_to_def by blast
qed

text \<open>
  Property C2: whatever a consumer does after its subscription - ask for any number of samples, keep
  some and drop others in the callback, drop pointers later, in any order - and however the producer,
  the other consumers and the other threads of its process act in between, the process does not end;
  no sample is handed out twice or out of order; each pointer that is held still refers to its
  sample; the transaction log holds exactly the slots of these pointers; and they, the free
  samples and the shares of the other threads always add up to the subscribed maximum.
\<close>

theorem consumer_history_safe:
  fixes w :: "('c, 'v, 'h, 's, shared_tracker) consumer_world"
  assumes "consumer_ok c g k [] newest w"
  shows "\<exists>u w' l. fold_run (run_consumer c) calls (no_samples, w) = Some (u, w') \<and>
    sorted_wrt (<) (seen_stamps u) \<and>
    list_all (\<lambda>(p, ts). refers_to c k (mem (data_slots w')) p ts) (held_ptrs u) \<and>
    GetTransactionLog k (ec_logs (event_control (proxy w'))) = Some l \<and>
    log_holds_exactly (set (map (\<lambda>(p, ts). the (SamplePtr_get p)) (held_ptrs u))) l \<and>
    conserves (length (held_ptrs u)) (mem (sample_tracker w'))"
proof -
  have start: "consumer_state_ok c g k newest w no_samples"
    using assms by (simp add: consumer_state_ok_def no_samples_def holds_received_def held_slots_def)
  obtain u w' newest' where run: "fold_run (run_consumer c) calls (no_samples, w) = Some (u, w')"
    and ok: "consumer_state_ok c g k newest' w' u"
    using consumer_history [OF start] by blast
  have ptrs: "list_all (\<lambda>(p, ts). refers_to c k (mem (data_slots w')) p ts) (held_ptrs u)"
    using held_ptr_slot [OF ok] by (auto simp: list_all_iff)
  obtain l where l: "GetTransactionLog k (ec_logs (event_control (proxy w'))) = Some l"
    and agrees: "log_agrees_with (map_of (held_slots u)) l"
    using ok by (auto simp: consumer_state_ok_def consumer_ok_def consumer_inv_def consumer_slots_def)
  have "length (held_slots u) = length (held_ptrs u)" by (simp add: held_slots_def)
  then have "conserves (length (held_ptrs u)) (mem (sample_tracker w'))" "sorted_wrt (<) (seen_stamps u)"
    using ok by (simp_all add: consumer_state_ok_def consumer_ok_def consumer_inv_def)
  with run ptrs l log_agrees_exactly [OF agrees] show ?thesis by blast
qed

text \<open>
  Another consumer takes both samples while this one looks for them; the block \<open>False\<close> counts the
  others' shares.
\<close>

definition another_reader :: "bool slot_memory \<Rightarrow> bool slot_memory" where
  "another_reader m =
     (if m = (\<lambda>b. if b then two_samples else [0, 1])
      then (\<lambda>b. if b then [EventSlotStatus 5 1, EventSlotStatus 7 2] else [1, 2]) else m)"

definition two_sample_consumer :: "(bool, string, unit, unit, shared_tracker) consumer_world" where
  "two_sample_consumer =
     \<lparr>proxy = \<lparr>machine = (SubscriptionStateMachine kASIL_QM sample_element 2 7)\<lparr>current_state := SUBSCRIBED_STATE,
         registration_guard := Some (Some 0),
         subscription_data := \<lparr>sd_max_sample_count = Some 2, sd_slot_collector = Some (SlotCollector 2 0)\<rparr>\<rparr>,
        event_control = \<lparr>ec_logs = one_reader_logs, ec_subscription =
          \<lparr>max_subscribable_slots = 2, max_subscribers = 1, enforce_max_samples = True\<rparr>,
          ec_subscribers = \<lparr>mem = CreateState 1 2, sched = []\<rparr>\<rparr>,
        messaging = ()\<rparr>,
      data_slots = \<lparr>mem = (\<lambda>b. if b then two_samples else [0, 1]), sched = [Tick id False, Tick another_reader False],
        num_alloc_misses = 0, num_ref_misses = 0, num_alloc_retries = 0, num_ref_retries = 0\<rparr>,
      data_storage = Some [''old'', ''new''],
      sample_tracker = \<lparr>mem = \<lparr>available_samples = 2, max_num_samples = 2, others = 0\<rparr>, sched = []\<rparr>\<rparr>"

lemma others_step_refl: "others_step c g m m"
  by (auto simp: others_step_def live_readers_def)

lemma EventSlotStatus_live:
  "ts \<noteq> 0 \<Longrightarrow> live_readers (EventSlotStatus ts rc) = unat rc"
  by (simp add: live_readers_def IsInWriting_iff)

lemma another_reader_step: "others_step True False m (another_reader m)"
proof (cases "m = (\<lambda>b. if b then two_samples else [0, 1])")
  case True
  then show ?thesis
    by (auto simp: others_step_def another_reader_def two_samples_def other_readers_def EventSlotStatus_live less_Suc_eq
        max_readers_def IsInWriting_iff)
next
  case False
  then show ?thesis by (simp add: another_reader_def others_step_refl)
qed

lemma two_sample_consumer_ok: "consumer_ok True False 0 [] 0 two_sample_consumer"
proof -
  have "holds True False Map.empty (\<lambda>b. if b then two_samples else [0, 1])"
    by (auto simp: holds_def two_samples_def other_readers_def EventSlotStatus_live less_Suc_eq max_readers_def)
  moreover have "rely (others_step True False) (data_slots two_sample_consumer)"
    by (simp add: rely_def two_sample_consumer_def another_reader_step others_step_refl)
  moreover have "log_agrees_with Map.empty (TransactionLog 2)" "num_slots (TransactionLog 2) = 2"
    by (simp_all add: log_agrees_with_def TransactionLog_empty)
  ultimately have "consumer_slots True False 0 (Suc (Suc 0)) Map.empty one_reader_logs (data_slots two_sample_consumer)"
    by (auto simp: consumer_slots_def two_sample_consumer_def num_slots_of_def one_reader_log two_samples_def)
  then show ?thesis
    by (simp add: consumer_ok_def consumer_inv_def two_sample_consumer_def conserves_def collecting_def SlotCollector_def)
qed

theorem consumer_history_safe_witness:
  "\<exists>u w. fold_run (run_consumer True) [Get_samples 2 (\<lambda>_. True), Drop_ptr 0, Get_samples 1 (\<lambda>_. False), Free_count]
      (no_samples, two_sample_consumer) = Some (u, w) \<and>
    sorted_wrt (<) (seen_stamps u) \<and> conserves (length (held_ptrs u)) (mem (sample_tracker w))"
  using consumer_history_safe [OF two_sample_consumer_ok,
      of "[Get_samples 2 (\<lambda>_. True), Drop_ptr 0, Get_samples 1 (\<lambda>_. False), Free_count]"]
  by blast

text \<open>How a consumer gets there: a subscription to an available provider.\<close>

lemma subscription_makes_ready:
  assumes "linked b (machine m) (event_control m)" and "current_state (machine m) = SUBSCRIBED_STATE"
    and "c \<noteq> g" and "rely (others_step c g) sw" and "holds c g Map.empty (mem sw)"
    and "\<And>i l. GetTransactionLog i (ec_logs (event_control m)) = Some l \<Longrightarrow> num_slots_of c sw \<le> num_slots l"
    and "num_slots_of c sw = length xs" and "rely tracker_step tr" and "conserves 0 (mem tr)"
  shows "\<exists>k. consumer_ok c g k [] 0 \<lparr>proxy = m, data_slots = sw, data_storage = Some xs, sample_tracker = tr\<rparr>"
proof -
  from assms(1,2) obtain i n where sub: "subscribed b i n (event_control m)" and
    g: "registration_guard (machine m) = Some (Some i)" "subscription_data (machine m) =
      \<lparr>sd_max_sample_count = Some n, sd_slot_collector = Some (SlotCollector (unat n) i)\<rparr>"
    by (auto simp: linked_def)
  from sub obtain l where l: "GetTransactionLog i (ec_logs (event_control m)) = Some l"
    "\<forall>j < num_slots l. slot_phase l j = Free" by (auto simp: subscribed_def)
  have "consumer_slots c g i (length xs) Map.empty (ec_logs (event_control m)) sw"
    using assms(3-7) l assms(6) [OF l(1)] by (auto simp: consumer_slots_def log_agrees_with_def)
  moreover have "collecting i 0 (machine m)" using assms(2) g by (simp add: collecting_def SlotCollector_def)
  ultimately have "consumer_ok c g i [] 0 \<lparr>proxy = m, data_slots = sw, data_storage = Some xs, sample_tracker = tr\<rparr>"
    using assms(8,9) by (simp add: consumer_ok_def consumer_inv_def)
  then show ?thesis by blast
qed

end
