(* ===== verification/End_To_End.thy ===== *)
theory End_To_End
  imports Producer_Safety Consumer_Safety
begin

text \<open>
  The composition of producer and consumer: what \<open>SkeletonEvent::Send\<close> publishes is what the next
  \<open>ProxyEvent::GetNewSamples\<close> hands out last, when nobody interferes between the two calls. Under
  interference the promises are those of \<open>Producer_Safety\<close> and \<open>Consumer_Safety\<close>.
\<close>

subsection \<open>Sending in a quiet world\<close>

text \<open>One slot in every block that is in use.\<close>

definition put_all :: "'c edc_composite \<Rightarrow> nat \<Rightarrow> u64 \<Rightarrow> 'c slot_memory \<Rightarrow> 'c slot_memory" where
  "put_all cc i v m = (\<lambda>c. if c \<in> controls_of cc then (m c)[i := v] else m c)"

lemma put_all_twice: "put_all cc i v (put_all cc i u m) = put_all cc i v m"
  by (simp add: put_all_def fun_eq_iff)

lemma put_all_one: "controls_of cc = {c} \<Longrightarrow> put_all cc i v m = put_slot c i v m"
  by (simp add: put_all_def put_slot_def fun_eq_iff)

lemma put_all_two: "controls_of cc = {q, b} \<Longrightarrow> q \<noteq> b \<Longrightarrow> put_all cc i v m = put_slot q i v (put_slot b i v m)"
  by (simp add: put_all_def put_slot_def fun_eq_iff)

lemma lock_both_swap: "q \<noteq> b \<Longrightarrow> lock_both q b i m = put_slot q i IN_WRITING (put_slot b i IN_WRITING m)"
  by (simp add: lock_both_def put_slot_def fun_upd_twist)

lemma composite_cases:
  assumes "composite_ok n num cc"
  obtains (qm_only) q where "asil_qm_control cc = Some q" and "asil_b_control cc = None" and "\<not> ignore_qm_control cc"
      and "controls_of cc = {q}" and "main_control cc = Some q"
    | (both) q b where "asil_qm_control cc = Some q" and "asil_b_control cc = Some b" and "\<not> ignore_qm_control cc"
      and "q \<noteq> b" and "controls_of cc = {q, b}" and "main_control cc = Some b"
    | (b_only) q b where "asil_qm_control cc = Some q" and "asil_b_control cc = Some b" and "ignore_qm_control cc"
      and "q \<noteq> b" and "controls_of cc = {b}" and "main_control cc = Some b"
proof -
  obtain q where q: "asil_qm_control cc = Some q"
    and blocks: "case asil_b_control cc of None \<Rightarrow> \<not> ignore_qm_control cc | Some b \<Rightarrow> b \<noteq> q \<and> n b = num"
    using assms by (auto simp: composite_ok_def)
  show thesis
  proof (cases "asil_b_control cc")
    case None
    with q blocks show thesis by (intro qm_only [of q]) (auto simp: controls_of_def main_control_def)
  next
    case (Some b)
    then have main: "main_control cc = Some b" by (simp add: main_control_def)
    show thesis
    proof (cases "ignore_qm_control cc")
      case True
      with q Some blocks main show thesis by (intro b_only [of q b]) (auto simp: controls_of_def)
    next
      case False
      with q Some blocks main show thesis by (intro both [of q b]) (auto simp: controls_of_def)
    qed
  qed
qed

lemma main_in_use:
  assumes "composite_ok n num cc'" and "same_blocks cc cc'" and "main_control cc = Some mc"
  shows "mc \<in> controls_of cc'"
  using assms(1) by (cases rule: composite_cases) (use assms(2,3) in \<open>auto simp: main_control_def split: option.splits\<close>)

lemma Composite_EventReady_quiet:
  assumes "composite_ok n num cc" and "quiet w"
  shows "\<exists>w'. Composite_EventReady cc i ts w = Some w' \<and> quiet w' \<and> mem w' = put_all cc i (EventSlotStatus ts 0) (mem w)"
  using assms(1)
proof (cases rule: composite_cases)
  case (qm_only q)
  with assms(2) show ?thesis
    by (simp add: Composite_EventReady_def on_control_def EventReady_quiet put_all_one put_all_two)
next
  case (both q b)
  with assms(2) show ?thesis
    by (simp add: Composite_EventReady_def on_control_def EventReady_quiet put_all_one put_all_two)
next
  case (b_only q b)
  with assms(2) show ?thesis
    by (simp add: Composite_EventReady_def on_control_def EventReady_quiet put_all_one put_all_two)
qed

lemma Composite_Discard_quiet:
  assumes "composite_ok n num cc" and "quiet w" and "\<forall>c \<in> controls_of cc. \<not> IsInWriting (mem w c ! i)"
  shows "Composite_Discard cc i w = Some w"
  using assms(1)
proof (cases rule: composite_cases)
  case (qm_only q)
  with assms(2,3) show ?thesis by (simp add: Composite_Discard_def on_control_def Discard_def)
next
  case (both q b)
  with assms(2,3) show ?thesis by (simp add: Composite_Discard_def on_control_def Discard_def)
next
  case (b_only q b)
  with assms(2,3) show ?thesis by (simp add: Composite_Discard_def on_control_def Discard_def)
qed

text \<open>An allocation that has a reusable slot in the block it must not give up.\<close>

lemma AllocateNextSlot_quiet_some:
  assumes "quiet w" and "j < length (mem w c)" and "reusable (mem w c ! j)"
  obtains i w' where "AllocateNextSlot c w = Some (Some i, w')" and "quiet w'" and "i < length (mem w c)"
    and "\<not> Event_Slot_Status.IsUsed (mem w c ! i)" and "mem w' = put_slot c i IN_WRITING (mem w)"
proof -
  obtain sel w' where run: "AllocateNextSlot c w = Some (sel, w')" and q: "quiet w'"
    and sel: "case sel of None \<Rightarrow> (\<forall>j < length (mem w c). \<not> reusable (mem w c ! j))
      | Some i \<Rightarrow> oldest_unused (mem w c) i \<and> mem w' = put_slot c i IN_WRITING (mem w)"
    using AllocateNextSlot_quiet [OF assms(1), of c] by (auto split: option.splits)
  from sel assms(2,3) obtain i where "sel = Some i" "oldest_unused (mem w c) i" "mem w' = put_slot c i IN_WRITING (mem w)"
    by (cases sel) auto
  with run q show thesis by (intro that [of i w']) (simp_all add: oldest_unused_def reusable_def)
qed

lemma Composite_AllocateNextSlot_quiet:
  assumes "composite_ok n num cc" and "quiet w" and "main_control cc = Some mc" and "j < length (mem w mc)"
    and "reusable (mem w mc ! j)"
  obtains i cc' w' where "Composite_AllocateNextSlot cc w = Some (Some i, ignore_qm_control cc', cc', w')"
    and "quiet w'" and "composite_ok n num cc'" and "same_blocks cc cc'" and "controls_of cc' \<subseteq> controls_of cc"
    and "\<forall>c \<in> controls_of cc'. \<not> Event_Slot_Status.IsUsed (mem w c ! i)" and "i < length (mem w mc)"
    and "mem w' = put_all cc' i IN_WRITING (mem w)"
  using assms(1)
proof (cases rule: composite_cases)
  case (qm_only q)
  then have [simp]: "mc = q" using assms(3) by simp
  obtain i w' where "AllocateNextSlot mc w = Some (Some i, w')" "quiet w'" "i < length (mem w mc)"
      "\<not> Event_Slot_Status.IsUsed (mem w mc ! i)" "mem w' = put_slot mc i IN_WRITING (mem w)"
    using assms(2,4,5) by (rule AllocateNextSlot_quiet_some)
  with qm_only assms(1) show thesis
    by (intro that [of i cc w']) (simp_all add: Composite_AllocateNextSlot_def put_all_one)
next
  case (b_only q b)
  then have [simp]: "mc = b" using assms(3) by simp
  obtain i w' where "AllocateNextSlot mc w = Some (Some i, w')" "quiet w'" "i < length (mem w mc)"
      "\<not> Event_Slot_Status.IsUsed (mem w mc ! i)" "mem w' = put_slot mc i IN_WRITING (mem w)"
    using assms(2,4,5) by (rule AllocateNextSlot_quiet_some)
  with b_only assms(1) show thesis
    by (intro that [of i cc w']) (simp_all add: Composite_AllocateNextSlot_def put_all_one)
next
  case (both q b)
  then have [simp]: "mc = b" using assms(3) by simp
  show thesis
  proof (cases "\<exists>i. lockable (mem w q) (mem w b) i")
    case True
    then obtain i where i: "lockable (mem w q) (mem w b) i"
      and run: "AllocateNextMultiSlot q b w = Some (Some i, w\<lparr>mem := lock_both q b i (mem w)\<rparr>)"
      using AllocateNextMultiSlot_quiet [OF assms(2) both(4)] by auto
    from i have "i < length (mem w b)" "\<not> Event_Slot_Status.IsUsed (mem w q ! i)" "\<not> Event_Slot_Status.IsUsed (mem w b ! i)"
      by (auto simp: lockable_def first_minimal_def)
    with run both assms(1,2) show thesis
      by (intro that [of i cc "w\<lparr>mem := lock_both q b i (mem w)\<rparr>"])
        (simp_all add: Composite_AllocateNextSlot_def put_all_two lock_both_swap)
  next
    case False
    then have none: "AllocateNextMultiSlot q b w = Some (None, w)"
      using AllocateNextMultiSlot_quiet [OF assms(2) both(4)] by auto
    obtain i w' where "AllocateNextSlot mc w = Some (Some i, w')" "quiet w'" "i < length (mem w mc)"
        "\<not> Event_Slot_Status.IsUsed (mem w mc ! i)" "mem w' = put_slot mc i IN_WRITING (mem w)"
      using assms(2,4,5) by (rule AllocateNextSlot_quiet_some)
    moreover have "controls_of (cc\<lparr>ignore_qm_control := True\<rparr>) = {b}" using both by (auto simp: controls_of_def)
    moreover have "composite_ok n num (cc\<lparr>ignore_qm_control := True\<rparr>)"
      using assms(1) both by (simp add: composite_ok_def)
    ultimately show thesis using both none
      by (intro that [of i "cc\<lparr>ignore_qm_control := True\<rparr>" w']) (simp_all add: Composite_AllocateNextSlot_def put_all_one)
  qed
qed

text \<open>A sample that is sent: where it is afterwards.\<close>

definition published :: "'c skeleton_event \<Rightarrow> 'v \<Rightarrow> ('c, 'v, 's) producer_world \<Rightarrow> nat \<Rightarrow> 'c skeleton_event \<Rightarrow>
    ('c, 'v, 's) producer_world \<Rightarrow> bool" where
  "published se v w i se' w' \<longleftrightarrow>
     (\<exists>cc cc'. data_control_composite se = Some cc \<and> data_control_composite se' = Some cc' \<and>
        controls_of cc' \<subseteq> controls_of cc \<and> set_option (main_control cc) \<subseteq> controls_of cc' \<and>
        (\<forall>c \<in> controls_of cc'. \<not> Event_Slot_Status.IsUsed (mem (slots w) c ! i)) \<and>
        mem (slots w') = put_all cc' i (EventSlotStatus (current_timestamp se') 0) (mem (slots w))) \<and>
     current_timestamp se' = current_timestamp se + 1 \<and> quiet (slots w') \<and> i < length (storage w) \<and>
     storage w' = (storage w)[i := v]"

context notifier
begin

lemma Allocate_quiet:
  assumes "data_control_composite se = Some cc" and "composite_ok n (length (storage w)) cc" and "quiet (slots w)"
    and "main_control cc = Some mc" and "j < length (mem (slots w) mc)" and "reusable (mem (slots w) mc ! j)"
    and "length (mem (slots w) mc) = length (storage w)" and "asil_b_control cc \<noteq> None \<longrightarrow> instance_quality se = kASIL_B"
  obtains i cc' se' sw d where "Skeleton_Event.Allocate se w = Some (Inr (SampleAllocateePtr i cc' i), se',
      w\<lparr>slots := sw, qm_stop_offers := d\<rparr>)"
    and "data_control_composite se' = Some cc'" and "current_timestamp se' = current_timestamp se"
    and "instance_quality se' = instance_quality se" and "event_fqn se' = event_fqn se"
    and "quiet sw" and "composite_ok n (length (storage w)) cc'" and "same_blocks cc cc'" and "controls_of cc' \<subseteq> controls_of cc"
    and "\<forall>c \<in> controls_of cc'. \<not> Event_Slot_Status.IsUsed (mem (slots w) c ! i)" and "i < length (storage w)"
    and "mem sw = put_all cc' i IN_WRITING (mem (slots w))"
proof -
  obtain i cc' sw where run: "Composite_AllocateNextSlot cc (slots w) = Some (Some i, ignore_qm_control cc', cc', sw)"
    and q: "quiet sw" and ok: "composite_ok n (length (storage w)) cc'" and same: "same_blocks cc cc'"
    and res: "controls_of cc' \<subseteq> controls_of cc" "\<forall>c \<in> controls_of cc'. \<not> Event_Slot_Status.IsUsed (mem (slots w) c ! i)"
      "i < length (mem (slots w) mc)" "mem sw = put_all cc' i IN_WRITING (mem (slots w))"
    using Composite_AllocateNextSlot_quiet [OF assms(2-6)] by metis
  have b: "instance_quality se = kASIL_B" if "ignore_qm_control cc'"
    using that ok same assms(8) by (auto simp: composite_ok_def split: option.splits)
  let ?cut = "\<not> qm_disconnect se \<and> ignore_qm_control cc'"
  let ?se = "se\<lparr>data_control_composite := Some cc', qm_disconnect := qm_disconnect se \<or> ?cut\<rparr>"
  let ?d = "qm_stop_offers w + (if ?cut then 1 else 0)"
  have "Skeleton_Event.Allocate se w = Some (Inr (SampleAllocateePtr i cc' i), ?se, w\<lparr>slots := sw, qm_stop_offers := ?d\<rparr>)"
    using assms(1,7) run res(3) b
    by (cases ?cut) (auto simp: Skeleton_Event.Allocate_def DisconnectQmConsumers_def contract_simps)
  from that [OF this] q ok same res assms(7) show thesis by simp
qed

lemma Send_value_quiet:
  assumes "data_control_composite se = Some cc" and "composite_ok n (length (storage w)) cc" and "quiet (slots w)"
    and "main_control cc = Some mc" and "j < length (mem (slots w) mc)" and "reusable (mem (slots w) mc ! j)"
    and "length (mem (slots w) mc) = length (storage w)" and "asil_b_control cc \<noteq> None \<longrightarrow> instance_quality se = kASIL_B"
    and "\<forall>c \<in> controls_of cc. length (mem (slots w) c) = length (storage w)"
    and "usable kASIL_QM (service w)" and "instance_quality se = kASIL_B \<longrightarrow> usable kASIL_B (service w)"
  shows "\<exists>i se' w'. Send_value notify v se w = Some (Inr (), se', w') \<and> published se v w i se' w'"
proof -
  obtain i cc' se1 sw d where alloc: "Skeleton_Event.Allocate se w = Some (Inr (SampleAllocateePtr i cc' i), se1,
      w\<lparr>slots := sw, qm_stop_offers := d\<rparr>)"
    and se1: "data_control_composite se1 = Some cc'" "current_timestamp se1 = current_timestamp se"
      "instance_quality se1 = instance_quality se" "event_fqn se1 = event_fqn se"
    and sw: "quiet sw" "mem sw = put_all cc' i IN_WRITING (mem (slots w))"
    and cc': "composite_ok n (length (storage w)) cc'" "same_blocks cc cc'" "controls_of cc' \<subseteq> controls_of cc"
    and i: "\<forall>c \<in> controls_of cc'. \<not> Event_Slot_Status.IsUsed (mem (slots w) c ! i)" "i < length (storage w)"
    using assms(1-8) by (rule Allocate_quiet)
  let ?ts = "current_timestamp se + 1"
  let ?se = "se1\<lparr>current_timestamp := ?ts\<rparr>" and ?st = "(storage w)[i := v]"
  obtain sw2 where ready: "Composite_EventReady cc' i ?ts sw = Some sw2" and q2: "quiet sw2"
    and m2: "mem sw2 = put_all cc' i (EventSlotStatus ?ts 0) (mem (slots w))"
    using Composite_EventReady_quiet [OF cc'(1) sw(1), of i ?ts] sw(2) by (auto simp: put_all_twice)
  let ?w2 = "w\<lparr>qm_stop_offers := d, storage := ?st, slots := sw2\<rparr>"
  obtain s3 where n3: "notify_if (\<not> qm_disconnect ?se) notify kASIL_QM (event_fqn ?se) ?w2 = Some (?w2\<lparr>service := s3\<rparr>)"
    and u3: "\<forall>k. usable k (service w) \<longrightarrow> usable k s3"
    using notify_if_ok [of "\<not> qm_disconnect ?se" kASIL_QM ?w2 "event_fqn ?se"] assms(10) by auto
  obtain s4 where n4: "notify_if (instance_quality ?se = kASIL_B) notify kASIL_B (event_fqn ?se) (?w2\<lparr>service := s3\<rparr>) =
      Some (?w2\<lparr>service := s4\<rparr>)"
    using notify_if_ok [of "instance_quality ?se = kASIL_B" kASIL_B "?w2\<lparr>service := s3\<rparr>" "event_fqn ?se"] assms(11) u3 se1
    by auto
  have "\<not> IsInWriting (mem sw2 c ! i)" if "c \<in> controls_of cc'" for c
    using that m2 assms(9) i(2) cc'(3) by (auto simp: put_all_def IsInWriting_iff)
  then have drop: "Composite_Discard cc' i sw2 = Some sw2"
    using Composite_Discard_quiet [OF cc'(1) q2] by blast
  have destroy: "Ptr_destroy (SampleAllocateePtr i cc' i) sw2 = Some sw2"
    using drop by (cases "i < invalid_slot") (simp_all add: Ptr_destroy_def Ptr_internal_delete_def SampleAllocateePtr_def Let_def)
  have "Send_value notify v se w = Some (Inr (), ?se, ?w2\<lparr>service := s4, slots := sw2\<rparr>)"
    using alloc se1 ready n3 n4 destroy
    by (simp add: Send_value_def write_sample_def Send_sample_def SampleAllocateePtr_def GetReferencedSlot_def Let_def)
  moreover have "published se v w i ?se (?w2\<lparr>service := s4, slots := sw2\<rparr>)"
    using assms(1) se1 cc'(3) main_in_use [OF cc'(1,2) assms(4)] assms(4) i m2 q2 by (auto simp: published_def)
  ultimately show ?thesis by blast
qed

end

subsection \<open>Receiving in a quiet world\<close>

text \<open>The newest sample of a block: later than all others, and not seen yet.\<close>

definition newest_sample :: "u64 list \<Rightarrow> u32 \<Rightarrow> nat \<Rightarrow> u32 \<Rightarrow> bool" where
  "newest_sample ss seen i ts \<longleftrightarrow>
     i < length ss \<and> IsTimeStampBetween (ss ! i) seen TIMESTAMP_MAX \<and> GetTimeStamp (ss ! i) = ts \<and>
     (\<forall>j < length ss. j \<noteq> i \<longrightarrow> GetTimeStamp (ss ! j) < ts)"

lemma newest_sample_first:
  assumes "newest_sample ss seen i ts" and "collected ss seen TIMESTAMP_MAX n xs" and "0 < n"
  shows "xs \<noteq> []" and "hd xs = i"
proof -
  show ne: "xs \<noteq> []"
  proof
    assume "xs = []"
    with assms show False by (auto simp: newest_sample_def collected_def lowest_taken_def)
  qed
  then obtain y ys where xs: "xs = y # ys" by (cases xs) auto
  with assms(2) have y: "y < length ss" "GetTimeStamp (ss ! i) \<le> GetTimeStamp (ss ! y)"
    using assms(1) by (auto simp: collected_def newest_between_def newest_sample_def)
  with assms(1) have "y = i" by (fastforce simp: newest_sample_def)
  with xs show "hd xs = i" by simp
qed

lemma holds_nothing_below_max:
  assumes "holds c g Map.empty m"
  shows "counts_below_max (m c) lo hi"
  unfolding counts_below_max_def
proof (intro allI impI)
  fix j assume j: "j < length (m c)" "IsTimeStampBetween (m c ! j) lo hi"
  then have "unat (GetReferenceCount (m c ! j)) < max_readers"
    using holdsD [OF assms j(1)] by (auto simp: live_readers_def IsTimeStampBetween_def)
  then show "GetReferenceCount (m c ! j) \<noteq> - 1" by (rule max_readers_not_all_ones)
qed

lemma Proxy_GetNewSamplesSlotIndices_newest:
  assumes "consumer_ok c g k [] newest cw" and "quiet (data_slots cw)"
    and "sd_slot_collector (subscription_data (machine (proxy cw))) = Some sc" and "collected_slots sc \<noteq> []" and "0 < n"
    and "newest_sample (mem (data_slots cw) c) newest i ts"
    and "Proxy_GetNewSamplesSlotIndices c n (proxy cw) (data_slots cw) = Some (slots', m, sw)"
  shows "slots' \<noteq> []" and "last slots' = i" and "GetTimeStamp (mem sw c ! i) = ts"
proof -
  let ?ss = "mem (data_slots cw) c"
  from assms(1) obtain width where sl: "consumer_slots c g k width Map.empty (ec_logs (event_control (proxy cw))) (data_slots cw)"
    and col: "collecting k newest (machine (proxy cw))" by (auto simp: consumer_ok_def consumer_inv_def)
  from sl obtain l where h: "holds c g Map.empty (mem (data_slots cw))" and l: "GetTransactionLog k (ec_logs (event_control (proxy cw))) = Some l"
    "num_slots_of c (data_slots cw) \<le> num_slots l" "log_agrees_with Map.empty l" by (auto simp: consumer_slots_def)
  have sc: "transaction_log_index sc = k" "last_ts sc = newest" "GetSlotCollectorLockFree (machine (proxy cw)) = Some (Some sc)"
    using col assms(3) by (auto simp: collecting_def GetSlotCollectorLockFree_def Subscribed_GetSlotCollector_def contract_simps)
  have log: "GetTransactionLog (transaction_log_index sc) (ec_logs (event_control (proxy cw))) = Some l" using l(1) sc(1) by simp
  have unseen: "unseen_between ?ss (last_ts sc) TIMESTAMP_MAX l"
    using l(2,3) by (auto simp: unseen_between_def log_agrees_with_def num_slots_of_def)
  note quiet = GetNewSamplesSlotIndices_quiet [OF assms(2) log unseen holds_nothing_below_max [OF h], of n]
  obtain ys sc' w' where run: "GetNewSamplesSlotIndices c n sc (ec_logs (event_control (proxy cw))) (data_slots cw) =
      Some (rev ys, sc', PutTransactionLog (transaction_log_index sc) (hold_all ys l) (ec_logs (event_control (proxy cw))), w')"
    and ys: "collected ?ss (last_ts sc) TIMESTAMP_MAX (min n (length (collected_slots sc))) ys"
    and w': "mem w' = (mem (data_slots cw))(c := add_reader (set ys) ?ss)"
    using quiet by (elim exE conjE)
  have res: "slots' = rev ys" "sw = w'"
    using assms(7) sc(3) run by (auto simp: Proxy_GetNewSamplesSlotIndices_def Let_def)
  have "0 < min n (length (collected_slots sc))" using assms(4,5) by simp
  note first = newest_sample_first [OF assms(6) ys [unfolded sc(2)] this]
  from first res show "slots' \<noteq> []" "last slots' = i" by (simp_all add: last_rev)
  have i: "i < length ?ss" "IsTimeStampBetween (?ss ! i) newest TIMESTAMP_MAX" "GetTimeStamp (?ss ! i) = ts"
    using assms(6) by (simp_all add: newest_sample_def)
  have "GetReferenceCount (?ss ! i) \<noteq> - 1"
    using holds_nothing_below_max [OF h, of newest TIMESTAMP_MAX] i by (simp add: counts_below_max_def)
  then show "GetTimeStamp (mem sw c ! i) = ts" using res w' i halves_plus_one by simp
qed

lemma newest_sample_is_received:
  fixes c g :: 'c
  assumes ok: "consumer_ok c g k [] newest cw" and "quiet (data_slots cw)"
    and "sd_slot_collector (subscription_data (machine (proxy cw))) = Some sc" and "collected_slots sc \<noteq> []"
    and "quiet (sample_tracker cw)" and "0 < n" and "n \<le> available_samples (mem (sample_tracker cw))"
    and "newest_sample (mem (data_slots cw) c) newest i ts"
  shows "\<exists>j u cw'. Event_GetNewSamples (collect (\<lambda>_. True)) c n no_samples cw = Some (Inr (Suc j), u, cw') \<and>
    held_ptrs u \<noteq> [] \<and> last (held_ptrs u) = (received_ptr c k i, ts)"
proof -
  let ?keep = "\<lambda>_ :: u32. True" and ?none = "no_samples :: 'c sample_user"
  have start: "consumer_ok c g k (held_slots ?none) newest cw" "holds_received c k no_samples"
    using ok by (simp_all add: held_slots_def no_samples_def holds_received_def)
  obtain r and hs :: "(nat \<times> u32) list" and newest' u cw' where
    run: "Event_GetNewSamples (collect ?keep) c n no_samples cw = Some (r, u, cw')" and recv: "holds_received c k u"
    and held: "held_slots u = held_slots ?none @ collector.kept_of ?keep hs"
    and rest: "let n' = num_available_guards (fst (Sample_Reference_Tracker.Allocate n (sample_tracker cw)))
     in if n' = 0 then r = Inl kMaxSamplesReached \<and> hs = []
        else r = Inr (length hs) \<and>
          (\<exists>m sw. Proxy_GetNewSamplesSlotIndices c (unat n') (proxy cw) (data_slots cw) = Some (map fst hs, m, sw) \<and>
            holds c g (map_of (held_slots ?none @ hs)) (mem sw))"
    and after: "consumer_ok c g k (held_slots u) newest' cw'"
    using collector.Event_GetNewSamples_consumer [OF start, where n = n and keep = ?keep] by (elim exE conjE)
  have "available_samples (mem (sample_tracker cw)) \<noteq> 0" "n \<noteq> 0" using assms(6,7) by (metis leD, simp add: word_gt_0)
  then have n: "num_available_guards (fst (Sample_Reference_Tracker.Allocate n (sample_tracker cw))) = n" "n \<noteq> 0" "0 < unat n"
    using undisturbed_allocation [of "sample_tracker cw" n] assms(5,7) by (simp_all add: unat_gt_0)
  obtain m sw where r: "r = Inr (length hs)"
    and found: "Proxy_GetNewSamplesSlotIndices c (unat n) (proxy cw) (data_slots cw) = Some (map fst hs, m, sw)"
    and h: "holds c g (map_of hs) (mem sw)"
    using rest n by (auto simp: Let_def held_slots_def no_samples_def)
  note new = Proxy_GetNewSamplesSlotIndices_newest [OF ok assms(2-4) n(3) assms(8) found]
  have u: "held_slots u = hs" using held by (simp add: collector.kept_of_def held_slots_def no_samples_def)
  obtain t where last: "last hs = (i, t)" using new(1,2) by (cases "last hs") (auto simp: last_map)
  have ne: "hs \<noteq> []" "held_ptrs u \<noteq> []" using new(1) u by (auto simp: held_slots_def)
  obtain p where p: "last (held_ptrs u) = (p, t)" "the (SamplePtr_get p) = i"
    using u ne last by (cases "last (held_ptrs u)") (auto simp: held_slots_def last_map)
  have "(p, t) \<in> set (held_ptrs u)" using p(1) ne(2) last_in_set by metis
  then have ptr: "p = received_ptr c k i" using recv p(2) unfolding holds_received_def by blast
  have "distinct (map fst hs)"
    using after u by (simp add: consumer_ok_def)
  then have "map_of hs i = Some t" using last ne(1) last_in_set by force
  then have "t = ts" using holds_slot(2) [OF h] new(3) by simp
  with run r ne p ptr show ?thesis by (cases hs) auto
qed

subsection \<open>From the producer to the consumer\<close>

lemma next_timestamp:
  "(t :: u32) < TIMESTAMP_MAX - 1 \<Longrightarrow> t < t + 1 \<and> t + 1 < TIMESTAMP_MAX"
  by (simp add: TIMESTAMP_MAX_def word_less_nat_alt unat_word_ariths)

lemma unused_is_unread: "\<not> Event_Slot_Status.IsUsed d \<Longrightarrow> live_readers d = 0"
  by (simp add: not_IsUsed_iff live_readers_def)

lemma published_not_in_writing: "\<not> IsInWriting (EventSlotStatus ts 0)" "live_readers (EventSlotStatus ts 0) = 0"
  by (simp_all add: IsInWriting_iff live_readers_def)

lemma holds_published:
  assumes "holds c g Map.empty m" and "\<not> Event_Slot_Status.IsUsed (m c ! i)" and "m' c = (m c)[i := EventSlotStatus ts 0]"
    and "m' g = m g"
  shows "holds c g Map.empty m'"
proof -
  have "other_readers g m i = 0" if "i < length (m c)"
    using holdsD(2) [OF assms(1) that] unused_is_unread [OF assms(2)] by simp
  then have "live_readers ((m c)[i := EventSlotStatus ts 0] ! j) = other_readers g m j" if "j < length (m c)" for j
    using holdsD(2) [OF assms(1) that] that by (cases "j = i") (simp_all add: published_not_in_writing)
  moreover have "other_readers g m' = other_readers g m" by (simp add: other_readers_def assms(4) fun_eq_iff)
  ultimately show ?thesis using assms(1) by (simp add: holds_def assms(3))
qed

lemma consumer_ok_published:
  assumes "published se v w i se' w'" and "consumer_ok c g k [] newest cw" and "data_slots cw = slots w"
    and "data_storage cw = Some (storage w)" and "c \<in> controls_in_use se'" and "g \<notin> controls_in_use se"
  shows "consumer_ok c g k [] newest (cw\<lparr>data_slots := slots w', data_storage := Some (storage w')\<rparr>)"
proof -
  obtain cc cc' where cc: "data_control_composite se = Some cc" "data_control_composite se' = Some cc'"
      "controls_of cc' \<subseteq> controls_of cc" "\<forall>c \<in> controls_of cc'. \<not> Event_Slot_Status.IsUsed (mem (slots w) c ! i)"
      "mem (slots w') = put_all cc' i (EventSlotStatus (current_timestamp se') 0) (mem (slots w))"
    and st: "quiet (slots w')" "storage w' = (storage w)[i := v]"
    using assms(1) by (auto simp: published_def)
  have c: "c \<in> controls_of cc'" "g \<notin> controls_of cc'" using assms(5,6) cc(1-3) by (auto simp: controls_in_use_def)
  from assms(2) have sl: "consumer_slots c g k (length (storage w)) Map.empty (ec_logs (event_control (proxy cw))) (slots w)"
    and rest: "rely tracker_step (sample_tracker cw)" "conserves 0 (mem (sample_tracker cw))" "collecting k newest (machine (proxy cw))"
    using assms(3,4) by (simp_all add: consumer_ok_def consumer_inv_def)
  have m': "mem (slots w') c = (mem (slots w) c)[i := EventSlotStatus (current_timestamp se') 0]"
    "mem (slots w') g = mem (slots w) g" using c cc(5) by (simp_all add: put_all_def)
  have "holds c g Map.empty (mem (slots w'))"
    using holds_published [OF _ _ m'] sl cc(4) c(1) by (simp add: consumer_slots_def)
  then have "consumer_slots c g k (length (storage w)) Map.empty (ec_logs (event_control (proxy cw))) (slots w')"
    using sl st(1) m'(1) by (simp add: consumer_slots_def num_slots_of_def)
  then show ?thesis using rest st(2) by (simp add: consumer_ok_def consumer_inv_def)
qed

lemma published_is_newest:
  assumes "published se v w i se' w'" and "c \<in> controls_in_use se'" and "newest \<le> current_timestamp se"
    and "current_timestamp se < TIMESTAMP_MAX - 1" and "i < length (mem (slots w) c)"
    and "\<forall>d \<in> controls_in_use se. \<forall>j < length (mem (slots w) d). GetTimeStamp (mem (slots w) d ! j) \<le> current_timestamp se"
  shows "newest_sample (mem (slots w') c) newest i (current_timestamp se')"
proof -
  obtain cc cc' where cc: "data_control_composite se = Some cc" "data_control_composite se' = Some cc'"
      "controls_of cc' \<subseteq> controls_of cc"
      "mem (slots w') = put_all cc' i (EventSlotStatus (current_timestamp se') 0) (mem (slots w))"
    and ts: "current_timestamp se' = current_timestamp se + 1"
    using assms(1) by (auto simp: published_def)
  note t = next_timestamp [OF assms(4)]
  have m': "mem (slots w') c = (mem (slots w) c)[i := EventSlotStatus (current_timestamp se + 1) 0]"
    using assms(2) cc ts by (simp add: put_all_def controls_in_use_def)
  have low: "newest < current_timestamp se + 1" using assms(3) t by (meson le_less_trans)
  then have "current_timestamp se + 1 \<noteq> 0" by auto
  then have "IsTimeStampBetween (EventSlotStatus (current_timestamp se + 1) 0) newest TIMESTAMP_MAX"
    using low t by (simp add: IsTimeStampBetween_def published_not_in_writing IsInvalid_iff)
  moreover have "GetTimeStamp (mem (slots w) c ! j) < current_timestamp se + 1" if "j < length (mem (slots w) c)" for j
  proof -
    have "c \<in> controls_in_use se" using assms(2) cc by (auto simp: controls_in_use_def)
    with assms(6) that have "GetTimeStamp (mem (slots w) c ! j) \<le> current_timestamp se" by blast
    with t show ?thesis by (meson le_less_trans)
  qed
  ultimately show ?thesis using assms(5) ts by (simp add: newest_sample_def m')
qed

text \<open>The producer can send: the block it must not give up has a slot that nobody uses.\<close>

definition has_reusable_slot :: "'c skeleton_event \<Rightarrow> 'c slot_memory \<Rightarrow> bool" where
  "has_reusable_slot se m \<longleftrightarrow>
     (\<exists>mc j. main_block se = Some mc \<and> j < length (m mc) \<and> reusable (m mc ! j))"

definition can_receive :: "u64 \<Rightarrow> ('c, 'v, 'h, 's, shared_tracker) consumer_world \<Rightarrow> bool" where
  "can_receive n cw \<longleftrightarrow> quiet (sample_tracker cw) \<and> 0 < n \<and> n \<le> available_samples (mem (sample_tracker cw)) \<and>
     (\<exists>sc. sd_slot_collector (subscription_data (machine (proxy cw))) = Some sc \<and> collected_slots sc \<noteq> [])"

lemma Send_value_publishes:
  fixes w :: "('c, 'v, 'h message_passing_facade) producer_world"
  assumes "producer_ok facade_usable n H se [] w" and "quiet (slots w)" and "has_reusable_slot se (mem (slots w))"
  shows "\<exists>i se' w'. Send_value Facade_NotifyEvent v se w = Some (Inr (), se', w') \<and> published se v w i se' w'"
proof -
  obtain cc where cc: "data_control_composite se = Some cc" "composite_ok n (length (storage w)) cc"
      "asil_b_control cc \<noteq> None \<longrightarrow> instance_quality se = kASIL_B"
    and us: "facade_usable kASIL_QM (service w)" "instance_quality se = kASIL_B \<longrightarrow> facade_usable kASIL_B (service w)"
    and safe: "safe n (writer_slots []) H (slots w)"
    using assms(1) by (auto simp: producer_ok_def)
  obtain mc j where mc: "main_control cc = Some mc" "j < length (mem (slots w) mc)" "reusable (mem (slots w) mc ! j)"
    using assms(3) cc(1) by (auto simp: has_reusable_slot_def main_block_def)
  have len: "length (mem (slots w) c) = n c" for c using safe guarded_size [of n "writer_slots []" H] by (simp add: safe_def)
  have n: "n mc = length (storage w)" "\<forall>c \<in> controls_of cc. n c = length (storage w)"
    using cc(2) mc(1) by (auto simp: composite_ok_def main_control_def controls_of_def split: option.splits)
  show ?thesis
    using facade_notifier.Send_value_quiet [OF cc(1,2) assms(2) mc _ cc(3) _ us] len n by simp
qed

text \<open>
  Property C3: end to end. In a quiet world a producer that finds a reusable slot sends a value, and
  then every consumer that may receive and holds nothing gets this value as the last of its new
  samples, with the timestamp of the send: always if it uses the block that is never given up (that
  of the ASIL-B consumers if there is one), and otherwise unless the send gave up its block. Neither
  process ends.
\<close>

theorem sent_value_is_received:
  fixes w :: "('c, 'v, 'h message_passing_facade) producer_world"
  assumes "producer_ok facade_usable n H se [] w" and "quiet (slots w)" and "has_reusable_slot se (mem (slots w))"
    and "\<forall>d \<in> controls_in_use se. \<forall>j < length (mem (slots w) d). GetTimeStamp (mem (slots w) d ! j) \<le> current_timestamp se"
    and "current_timestamp se < TIMESTAMP_MAX - 1"
    and "consumer_ok c g k [] newest cw" and "data_slots cw = slots w" and "data_storage cw = Some (storage w)"
    and "newest \<le> current_timestamp se" and "g \<notin> controls_in_use se" and "can_receive m cw"
  shows "\<exists>se' w'. Send_value Facade_NotifyEvent v se w = Some (Inr (), se', w') \<and>
    (main_block se = Some c \<or> c \<in> controls_in_use se' \<longrightarrow>
      (\<exists>j u cw' p i. Event_GetNewSamples (collect (\<lambda>_. True)) c m no_samples
          (cw\<lparr>data_slots := slots w', data_storage := Some (storage w')\<rparr>) = Some (Inr (Suc j), u, cw') \<and>
        held_ptrs u \<noteq> [] \<and> last (held_ptrs u) = (p, current_timestamp se + 1) \<and>
        SamplePtr_get p = Some i \<and> i < length (storage w') \<and> storage w' ! i = v))"
proof -
  obtain i se' w' where send: "Send_value Facade_NotifyEvent v se w = Some (Inr (), se', w')"
    and pub: "published se v w i se' w'"
    using Send_value_publishes [OF assms(1-3)] by blast
  have now: "current_timestamp se' = current_timestamp se + 1" "quiet (slots w')" "i < length (storage w')" "storage w' ! i = v"
    using pub by (auto simp: published_def)
  have "\<exists>j u cw' p i. Event_GetNewSamples (collect (\<lambda>_. True)) c m no_samples
        (cw\<lparr>data_slots := slots w', data_storage := Some (storage w')\<rparr>) = Some (Inr (Suc j), u, cw') \<and>
      held_ptrs u \<noteq> [] \<and> last (held_ptrs u) = (p, current_timestamp se + 1) \<and>
      SamplePtr_get p = Some i \<and> i < length (storage w') \<and> storage w' ! i = v" if "main_block se = Some c \<or> c \<in> controls_in_use se'"
  proof -
    have c: "c \<in> controls_in_use se'"
      using that pub by (auto simp: published_def main_block_def controls_in_use_def)
    let ?cw = "cw\<lparr>data_slots := slots w', data_storage := Some (storage w')\<rparr>"
    have ok: "consumer_ok c g k [] newest ?cw"
      using pub assms(6-8) c assms(10) by (rule consumer_ok_published)
    have "length (mem (slots w) c) = length (storage w)"
      using assms(6-8) by (auto simp: consumer_ok_def consumer_inv_def consumer_slots_def num_slots_of_def)
    then have "i < length (mem (slots w) c)" using pub by (auto simp: published_def)
    then have new: "newest_sample (mem (data_slots ?cw) c) newest i (current_timestamp se + 1)"
      using published_is_newest [OF pub c assms(9,5) _ assms(4)] now(1) by simp
    from assms(11) obtain sc where sc: "sd_slot_collector (subscription_data (machine (proxy ?cw))) = Some sc" "collected_slots sc \<noteq> []"
      and tr: "quiet (sample_tracker ?cw)" "0 < m" "m \<le> available_samples (mem (sample_tracker ?cw))"
      by (auto simp: can_receive_def)
    have q: "quiet (data_slots ?cw)" using now(2) by simp
    obtain j u cw' where "Event_GetNewSamples (collect (\<lambda>_. True)) c m no_samples ?cw = Some (Inr (Suc j), u, cw')"
        "held_ptrs u \<noteq> []" "last (held_ptrs u) = (received_ptr c k i, current_timestamp se + 1)"
      using newest_sample_is_received [OF ok q sc tr new] by blast
    with now show ?thesis by (metis get_received)
  qed
  with send show ?thesis by blast
qed

text \<open>A new event with two slots, and a consumer that has subscribed to both.\<close>

definition empty_slots :: "bool edc_world" where
  "empty_slots = \<lparr>mem = (\<lambda>b. if b then [INVALID, INVALID] else [0, 0]), sched = [],
     num_alloc_misses = 0, num_ref_misses = 0, num_alloc_retries = 0, num_ref_retries = 0\<rparr>"

definition new_event :: "bool skeleton_event" where
  "new_event = (SkeletonEvent sample_element kASIL_QM)\<lparr>data_control_composite :=
     Some \<lparr>asil_qm_control = Some True, asil_b_control = None, ignore_qm_control = False\<rparr>\<rparr>"

definition new_event_world :: "(bool, string, string message_passing_facade) producer_world" where
  "new_event_world = \<lparr>slots = empty_slots, storage = [''a'', ''b''],
     service = \<lparr>notify_event_handler = new_handler False 1\<rparr>, qm_stop_offers = 0\<rparr>"

definition new_event_consumer :: "(bool, string, unit, unit, shared_tracker) consumer_world" where
  "new_event_consumer = two_sample_consumer\<lparr>data_slots := empty_slots, data_storage := Some [''a'', ''b'']\<rparr>"

lemma new_event_producer_ok: "producer_ok facade_usable (\<lambda>_. 2) (\<lambda>_. Map.empty) new_event [] new_event_world"
proof -
  have "facade_usable kASIL_QM (service new_event_world)"
    by (simp add: facade_usable_def new_event_world_def new_handler_def NotifyEventHandler_def handler_wf_def level_ok_def)
      (simp add: MessagePassingControl_def)
  moreover have "safe (\<lambda>_. 2) {} (\<lambda>_. Map.empty) (slots new_event_world)"
    by (simp add: safe_def guarded_def true_claims_def new_event_world_def empty_slots_def)
  ultimately show ?thesis
    by (simp add: producer_ok_def new_event_def SkeletonEvent_def new_event_world_def composite_ok_def invalid_slot_def
        writer_slots_def)
      (auto simp: unaffected_def)
qed

lemma new_event_consumer_ok: "consumer_ok True False 0 [] 0 new_event_consumer"
proof -
  have "holds True False Map.empty (mem empty_slots)"
    by (auto simp: holds_def empty_slots_def other_readers_def live_readers_def less_Suc_eq max_readers_def)
  moreover have "log_agrees_with Map.empty (TransactionLog 2)" "num_slots (TransactionLog 2) = 2"
    by (simp_all add: log_agrees_with_def TransactionLog_empty)
  ultimately have "consumer_slots True False 0 (Suc (Suc 0)) Map.empty one_reader_logs empty_slots"
    by (auto simp: consumer_slots_def num_slots_of_def one_reader_log empty_slots_def)
  then show ?thesis
    using two_sample_consumer_ok by (simp add: consumer_ok_def consumer_inv_def new_event_consumer_def two_sample_consumer_def)
qed

theorem sent_value_is_received_witness:
  "\<exists>se w j u cw p i. Send_value Facade_NotifyEvent ''hello'' new_event new_event_world = Some (Inr (), se, w) \<and>
     Event_GetNewSamples (collect (\<lambda>_. True)) True 2 no_samples
       (new_event_consumer\<lparr>data_slots := slots w, data_storage := Some (storage w)\<rparr>) = Some (Inr (Suc j), u, cw) \<and>
     last (held_ptrs u) = (p, 2) \<and> SamplePtr_get p = Some i \<and> storage w ! i = ''hello''"
proof -
  have m: "mem (slots new_event_world) = (\<lambda>b. if b then [INVALID, INVALID] else [0, 0])"
    by (simp add: new_event_world_def empty_slots_def)
  have cc: "data_control_composite new_event = Some \<lparr>asil_qm_control = Some True, asil_b_control = None, ignore_qm_control = False\<rparr>"
    "current_timestamp new_event = 1" by (simp_all add: new_event_def SkeletonEvent_def)
  have use: "controls_in_use new_event = {True}" by (auto simp: controls_in_use_def cc controls_of_def)
  have "has_reusable_slot new_event (mem (slots new_event_world))"
    unfolding has_reusable_slot_def m by (intro exI [of _ True] exI [of _ "0 :: nat"]) (simp add: main_block_def cc main_control_def reusable_invalid)
  moreover have "\<forall>d \<in> controls_in_use new_event. \<forall>j < length (mem (slots new_event_world) d).
      GetTimeStamp (mem (slots new_event_world) d ! j) \<le> current_timestamp new_event"
    by (auto simp: use m less_Suc_eq)
  moreover have "can_receive 2 new_event_consumer"
    by (simp add: can_receive_def new_event_consumer_def two_sample_consumer_def SlotCollector_def)
  moreover have "data_slots new_event_consumer = slots new_event_world" "data_storage new_event_consumer = Some (storage new_event_world)"
    "quiet (slots new_event_world)" by (simp_all add: new_event_consumer_def new_event_world_def empty_slots_def)
  moreover have "current_timestamp new_event < TIMESTAMP_MAX - 1" "0 \<le> current_timestamp new_event" "False \<notin> controls_in_use new_event"
    by (simp_all add: cc use TIMESTAMP_MAX_def)
  ultimately obtain se w where send: "Send_value Facade_NotifyEvent ''hello'' new_event new_event_world = Some (Inr (), se, w)"
    and get: "main_block new_event = Some True \<or> True \<in> controls_in_use se \<longrightarrow>
      (\<exists>j u cw' p i. Event_GetNewSamples (collect (\<lambda>_. True)) True 2 no_samples
          (new_event_consumer\<lparr>data_slots := slots w, data_storage := Some (storage w)\<rparr>) = Some (Inr (Suc j), u, cw') \<and>
        held_ptrs u \<noteq> [] \<and> last (held_ptrs u) = (p, current_timestamp new_event + 1) \<and>
        SamplePtr_get p = Some i \<and> i < length (storage w) \<and> storage w ! i = ''hello'')"
    using sent_value_is_received [OF new_event_producer_ok _ _ _ _ new_event_consumer_ok, of 2 "''hello''"] by blast
  have "main_block new_event = Some True" by (simp add: main_block_def cc main_control_def)
  with send get show ?thesis unfolding cc by auto
qed

end
