(* ===== verification/Rollback_Executor.thy ===== *)
theory Rollback_Executor
  imports Slot_Reference Uid_Pid_Mapping Messaging_Service Subscription_State_Machine
begin

text \<open>
  The restart of a crashed consumer: \<open>TransactionLogRollbackExecutor\<close>
  (transaction_log_rollback_executor.h/.cpp) and the function \<open>ExecutePartialRestartLogic\<close> of
  proxy.cpp that runs it while a proxy is created.

  \<^item> \<open>ServiceDataControl\<close> (service_data_control.h), the control data of a service instance in
    shared memory, is the list of its event controls in the order of the map and the uid to pid
    mapping. An event control is extended by the address of its slots.
  \<^item> \<open>RollbackData\<close> (rollback_data.h) of the process is the set of the addresses of the service
    instances that are prepared; the mutex makes \<open>PrepareRollback\<close> one step of this process.
  \<^item> The runtime is its pid, its uid and its messaging; \<open>notify\<close> is \<open>NotifyOutdatedNodeId\<close> of the
    messaging, which \<open>Messaging_Service\<close> models.
  \<^item> The lambdas that are handed to the rollback of a log act on the slots and on the
    subscription word of one event.

  The lemmas follow one event through the rollback; the properties say what a restart gives back,
  one log per event with each proxy that is created, and what it leaves alone.
\<close>

subsection \<open>Definitions\<close>

record 'c service_event_control = event_control +
  data_control :: 'c

record 'c service_data_control =
  event_controls :: "(element_fq_id \<times> 'c service_event_control) list"
  uid_pid_mapping :: mapping_world

record ('a, 'c, 's) restart_world =
  service_controls :: "'a \<Rightarrow> 'c service_data_control"
  slot_world :: "'c edc_world"
  synchronisation_data_set :: "'a set"
  runtime_messaging :: 's

definition kMaxUidPidMappings :: u16 where
  "kMaxUidPidMappings = 50"

definition ServiceDataControl :: "'c service_data_control" where
  "ServiceDataControl =
     \<lparr>event_controls = [], uid_pid_mapping = \<lparr>mem = UidPidMapping kMaxUidPidMappings, sched = []\<rparr>\<rparr>"

record 'a rollback_executor =
  service_data_control :: 'a
  executor_asil_level :: QualityType
  provider_pid :: pid_t
  executor_log_id :: TransactionLogId

definition TransactionLogRollbackExecutor ::
    "'a \<Rightarrow> QualityType \<Rightarrow> pid_t \<Rightarrow> TransactionLogId \<Rightarrow> 'a rollback_executor" where
  "TransactionLogRollbackExecutor address asil_level provider transaction_log_id =
     \<lparr>service_data_control = address, executor_asil_level = asil_level, provider_pid = provider,
      executor_log_id = transaction_log_id\<rparr>"

definition mark_event :: "TransactionLogId \<Rightarrow> 'c service_event_control \<Rightarrow> 'c service_event_control" where
  "mark_event transaction_log_id ec =
     ec\<lparr>ec_logs := MarkTransactionLogsNeedRollback transaction_log_id (ec_logs ec)\<rparr>"

definition MarkServiceLogsNeedRollback ::
    "'a \<Rightarrow> TransactionLogId \<Rightarrow> ('a, 'c, 's) restart_world \<Rightarrow> ('a, 'c, 's) restart_world run" where
  "MarkServiceLogsNeedRollback address transaction_log_id w = do {
     let sdc = service_controls w address;
     let sdc = sdc\<lparr>event_controls := map (\<lambda>(e, ec). (e, mark_event transaction_log_id ec)) (event_controls sdc)\<rparr>;
     amp_require (address \<notin> synchronisation_data_set w);
     Some (w\<lparr>service_controls := (service_controls w)(address := sdc),
             synchronisation_data_set := insert address (synchronisation_data_set w)\<rparr>) }"

definition PrepareRollback ::
    "(QualityType \<Rightarrow> pid_t \<Rightarrow> pid_t \<Rightarrow> 's \<Rightarrow> 's run) \<Rightarrow> pid_t \<Rightarrow> 'a rollback_executor \<Rightarrow>
     ('a, 'c, 's) restart_world \<Rightarrow> ('a, 'c, 's) restart_world run" where
  "PrepareRollback notify current_pid ex w =
     (let address = service_data_control ex
      in if address \<in> synchronisation_data_set w then Some w
         else do {
           let sdc = service_controls w address;
           (previous_pid, m) \<leftarrow> RegisterPid (executor_log_id ex) current_pid (uid_pid_mapping sdc);
           amp_require (previous_pid \<noteq> None);
           s \<leftarrow> (if the previous_pid \<noteq> current_pid
                 then notify (executor_asil_level ex) (the previous_pid) (provider_pid ex) (runtime_messaging w)
                 else Some (runtime_messaging w));
           MarkServiceLogsNeedRollback address (executor_log_id ex)
             (w\<lparr>service_controls := (service_controls w)(address := sdc\<lparr>uid_pid_mapping := m\<rparr>),
                runtime_messaging := s\<rparr>) })"

text \<open>The two lambdas, on the slots and the subscription word of one event.\<close>

definition restart_dereference ::
    "'c \<Rightarrow> nat \<Rightarrow> 'c edc_world \<times> u32 world \<Rightarrow> ('c edc_world \<times> u32 world) run" where
  "restart_dereference c slot_index = (\<lambda>(slots, subscribers).
     Some (DereferenceEventWithoutTransactionLogging c slot_index slots, subscribers))"

definition restart_unsubscribe ::
    "subscription_control \<Rightarrow> u16 \<Rightarrow> 'c edc_world \<times> u32 world \<Rightarrow> ('c edc_world \<times> u32 world) run" where
  "restart_unsubscribe esc max_sample_count = (\<lambda>(slots, subscribers). do {
     subscribers \<leftarrow> Unsubscribe esc max_sample_count subscribers;
     Some (slots, subscribers) })"

definition rollback_event ::
    "TransactionLogId \<Rightarrow> 'c service_event_control \<Rightarrow> 'c edc_world \<Rightarrow>
     (result_blank \<times> 'c service_event_control \<times> 'c edc_world) run" where
  "rollback_event transaction_log_id ec slots = do {
     (rollback_result, t, slots, subscribers) \<leftarrow>
       RollbackProxyTransactions (restart_dereference (data_control ec)) (restart_unsubscribe (ec_subscription ec))
         transaction_log_id (ec_logs ec) (slots, ec_subscribers ec);
     Some (rollback_result, ec\<lparr>ec_logs := t, ec_subscribers := subscribers\<rparr>, slots) }"

fun RollbackTransactionLogs_loop ::
    "TransactionLogId \<Rightarrow> (element_fq_id \<times> 'c service_event_control) list \<Rightarrow> 'c edc_world \<Rightarrow>
     (result_blank \<times> (element_fq_id \<times> 'c service_event_control) list \<times> 'c edc_world) run" where
  "RollbackTransactionLogs_loop transaction_log_id [] slots = Some (Inr (), [], slots)"
| "RollbackTransactionLogs_loop transaction_log_id ((e, ec) # ecs) slots = do {
     (rollback_result, ec, slots) \<leftarrow> rollback_event transaction_log_id ec slots;
     (case rollback_result of
        Inl err \<Rightarrow> Some (rollback_result, (e, ec) # ecs, slots)
      | Inr _ \<Rightarrow> do {
          (result, ecs, slots) \<leftarrow> RollbackTransactionLogs_loop transaction_log_id ecs slots;
          Some (result, (e, ec) # ecs, slots) }) }"

definition RollbackTransactionLogs ::
    "(QualityType \<Rightarrow> pid_t \<Rightarrow> pid_t \<Rightarrow> 's \<Rightarrow> 's run) \<Rightarrow> pid_t \<Rightarrow> 'a rollback_executor \<Rightarrow>
     ('a, 'c, 's) restart_world \<Rightarrow> (result_blank \<times> ('a, 'c, 's) restart_world) run" where
  "RollbackTransactionLogs notify current_pid ex w = do {
     w \<leftarrow> PrepareRollback notify current_pid ex w;
     let address = service_data_control ex;
     let sdc = service_controls w address;
     (result, ecs, slots) \<leftarrow>
       RollbackTransactionLogs_loop (executor_log_id ex) (event_controls sdc) (slot_world w);
     Some (result, w\<lparr>service_controls := (service_controls w)(address := sdc\<lparr>event_controls := ecs\<rparr>),
                     slot_world := slots\<rparr>) }"

text \<open>
  \<open>ExecutePartialRestartLogic\<close> of proxy.cpp, with the address of the control data, the pid of the
  provider that the data section holds, and the uid and the pid of the process.
\<close>

definition ExecutePartialRestartLogic ::
    "(QualityType \<Rightarrow> pid_t \<Rightarrow> pid_t \<Rightarrow> 's \<Rightarrow> 's run) \<Rightarrow> uid_t \<Rightarrow> pid_t \<Rightarrow> QualityType \<Rightarrow> 'a \<Rightarrow> pid_t \<Rightarrow>
     ('a, 'c, 's) restart_world \<Rightarrow> (result_blank \<times> ('a, 'c, 's) restart_world) run" where
  "ExecutePartialRestartLogic notify uid pid quality_type address skeleton_pid w = do {
     let ex = TransactionLogRollbackExecutor address quality_type skeleton_pid uid;
     (rollback_result, w) \<leftarrow> RollbackTransactionLogs notify pid ex w;
     (case rollback_result of
        Inl err \<Rightarrow> Some (Inl kBindingFailure, w)
      | Inr _ \<Rightarrow> do {
          let sdc = service_controls w address;
          (previous_pid, m) \<leftarrow> RegisterPid uid pid (uid_pid_mapping sdc);
          amp_require (previous_pid \<noteq> None);
          s \<leftarrow> (if the previous_pid \<noteq> pid
                then notify quality_type (the previous_pid) skeleton_pid (runtime_messaging w)
                else Some (runtime_messaging w));
          Some (Inr (), w\<lparr>service_controls := (service_controls w)(address := sdc\<lparr>uid_pid_mapping := m\<rparr>),
                          runtime_messaging := s\<rparr>) }) }"

subsection \<open>The logs of a uid\<close>

definition logs_of :: "TransactionLogId \<Rightarrow> transaction_log_set \<Rightarrow> nat list" where
  "logs_of uid t =
     [i \<leftarrow> [0..<length (proxy_transaction_logs t)].
        is_active (proxy_transaction_logs t ! i) \<and> node_id (proxy_transaction_logs t ! i) = uid]"

lemma marked_logs:
  "proxy_transaction_logs (MarkTransactionLogsNeedRollback uid t) =
     map (\<lambda>n. if is_active n \<and> node_id n = uid then n\<lparr>needs_rollback := True\<rparr> else n) (proxy_transaction_logs t)"
  by (simp add: MarkTransactionLogsNeedRollback_def)

lemma pending_marked: "pending (MarkTransactionLogsNeedRollback uid t) uid = logs_of uid t"
  unfolding FindTransactionLogIndicesToBeRolledBack_def logs_of_def marked_logs
  by (auto split: if_splits intro!: filter_cong)

text \<open>One pending log that can be resolved: it is the only one that the call touches.\<close>

lemma RollbackProxyTransactions_first:
  assumes "pending t uid = i # idxs"
    and "RollbackProxyElementLog d u (node_log (proxy_transaction_logs t ! i)) s = Some (Inr (), l, s1)"
    and "\<not> ContainsTransactions l"
  shows "RollbackProxyTransactions d u uid t s =
    Some (Inr (), t\<lparr>proxy_transaction_logs := (proxy_transaction_logs t)
      [i := (proxy_transaction_logs t ! i)\<lparr>node_log := l, is_active := False, needs_rollback := False\<rparr>]\<rparr>, s1)"
proof -
  have "i \<in> set (pending t uid)" using assms(1) by simp
  then have "i < length (proxy_transaction_logs t)" by (simp add: pending_eq)
  with assms show ?thesis
    by (simp add: RollbackProxyTransactions_def Reset_def contract_simps)
qed

subsection \<open>The lambdas of one event\<close>

lemma restart_dereference_all:
  "fold_run (restart_dereference c) idxs (slots, subs) =
     map_option (\<lambda>slots. (slots, subs)) (fold_run (dereference_slot_callback c) idxs slots)"
  by (induction idxs arbitrary: slots)
    (simp_all add: restart_dereference_def dereference_slot_callback_def)

lemma dereference_keeps_others:
  "quiet w \<Longrightarrow> fold_run (dereference_slot_callback c) idxs w = Some w' \<Longrightarrow> c' \<noteq> c \<Longrightarrow> mem w' c' = mem w c'"
proof (induction idxs arbitrary: w)
  case Nil
  then show ?case by simp
next
  case (Cons i idxs)
  let ?w = "w\<lparr>mem := put_slot c i (get_slot c i (mem w) - 1) (mem w)\<rparr>"
  have "dereference_slot_callback c i w = Some ?w"
    using Cons.prems(1) by (simp add: dereference_slot_callback_def DereferenceEventWithoutTransactionLogging_def)
  with Cons.prems(2) have "fold_run (dereference_slot_callback c) idxs ?w = Some w'" by simp
  from Cons.IH [OF _ this Cons.prems(3)] Cons.prems(1,3) show ?case
    by (simp add: put_slot_def)
qed

lemma reader_count_cong: "mem w' c = mem w c \<Longrightarrow> reader_count c w' = reader_count c w"
  by (simp add: reader_count_def fun_eq_iff num_slots_of_def)

text \<open>
  What a crashed proxy leaves of a log that the rollback can resolve: nothing at all, or a
  subscription that the subscription word contains, and references that the slots contain, with
  no transaction under way.
\<close>

definition resolvable :: "'c edc_world \<Rightarrow> 'c service_event_control \<Rightarrow> transaction_log \<Rightarrow> bool" where
  "resolvable slots ec l \<longleftrightarrow>
     (subscribe_phase l = Free \<and> (\<forall>j < num_slots l. slot_phase l j = Free)) \<or>
     (subscribe_phase l = Held \<and> crash_free l \<and>
      0 < GetSubscribersFromState (mem (ec_subscribers ec)) \<and>
      (\<exists>n. subscription_max_sample_count l = Some n \<and>
         n \<le> GetSubscribedSamplesFromState (mem (ec_subscribers ec))) \<and>
      (\<forall>j < num_slots l. slot_phase l j = Held \<longrightarrow> 0 < reader_count (data_control ec) slots j))"

definition given_back :: "transaction_log \<Rightarrow> u32 \<Rightarrow> u32" where
  "given_back l word =
     (if subscribe_phase l = Held
      then CreateState (GetSubscribersFromState word - 1)
             (GetSubscribedSamplesFromState word - the (subscription_max_sample_count l))
      else word)"

lemma resolvable_log:
  fixes slots :: "'c edc_world"
  assumes "quiet slots" and "quiet (ec_subscribers ec)" and "max_subscribers (ec_subscription ec) \<noteq> 0"
    and "resolvable slots ec l"
  shows "\<exists>l' slots'. RollbackProxyElementLog (restart_dereference (data_control ec))
      (restart_unsubscribe (ec_subscription ec)) l (slots, ec_subscribers ec)
        = Some (Inr (), l', slots', (ec_subscribers ec)\<lparr>mem := given_back l (mem (ec_subscribers ec))\<rparr>) \<and>
    \<not> ContainsTransactions l' \<and> quiet slots' \<and> (\<forall>c. c \<noteq> data_control ec \<longrightarrow> mem slots' c = mem slots c) \<and>
    (\<forall>j. reader_count (data_control ec) slots' j =
       (if j < num_slots l \<and> slot_phase l j = Held then reader_count (data_control ec) slots j - 1
        else reader_count (data_control ec) slots j))"
  using assms(4) unfolding resolvable_def
proof (elim disjE conjE exE)
  assume "subscribe_phase l = Free" "\<forall>j < num_slots l. slot_phase l j = Free"
  then show ?thesis
    using assms(1) by (auto simp: rollback_proxy_log given_back_def ContainsTransactions_iff)
next
  fix n
  assume l: "subscribe_phase l = Held" "crash_free l" "subscription_max_sample_count l = Some n"
    and word: "0 < GetSubscribersFromState (mem (ec_subscribers ec))"
      "n \<le> GetSubscribedSamplesFromState (mem (ec_subscribers ec))"
    and held: "\<forall>j < num_slots l. slot_phase l j = Held \<longrightarrow> 0 < reader_count (data_control ec) slots j"
  have "\<forall>i \<in> set (recoverable l). 0 < reader_count (data_control ec) slots i"
    using held recoverable_props(2) [of l] by blast
  from edc_target.dereference_all [OF recoverable_props(1) this assms(1)]
  obtain slots' where run: "fold_run (dereference_slot_callback (data_control ec)) (recoverable l) slots = Some slots'"
    "quiet slots'" and count: "\<forall>j. reader_count (data_control ec) slots' j =
      (if j \<in> set (recoverable l) then reader_count (data_control ec) slots j - 1
       else reader_count (data_control ec) slots j)"
    by blast
  let ?l = "set_subscribe Free None (release (recoverable l) l)"
  have "RollbackProxyElementLog (restart_dereference (data_control ec)) (restart_unsubscribe (ec_subscription ec)) l
      (slots, ec_subscribers ec)
        = Some (Inr (), ?l, slots', (ec_subscribers ec)\<lparr>mem := given_back l (mem (ec_subscribers ec))\<rparr>)"
    using l word run(1) assms(2,3)
    by (simp add: rollback_proxy_log restart_dereference_all ambiguous_def restart_unsubscribe_def
        Unsubscribe_quiet given_back_def not_less)
  moreover have "\<not> ContainsTransactions ?l"
    using l(2) by (auto simp: ContainsTransactions_iff released_clean)
  ultimately show ?thesis
    using dereference_keeps_others [OF assms(1) run(1)] run(2) count recoverable_crash_free [OF l(2)] by auto
qed

subsection \<open>The logs that are left behind in one event\<close>

text \<open>
  What a list of logs holds together: subscriptions, samples subscribed to, and readers of a slot.
  The event can be restored if no log has a transaction under way and the words in shared memory
  contain all of that.
\<close>

definition logs_at :: "transaction_log_set \<Rightarrow> nat list \<Rightarrow> transaction_log list" where
  "logs_at t idxs = map (\<lambda>i. node_log (proxy_transaction_logs t ! i)) idxs"

definition subscribed :: "transaction_log list \<Rightarrow> transaction_log list" where
  "subscribed ls = filter (\<lambda>l. subscribe_phase l = Held) ls"

definition subscribed_samples :: "transaction_log list \<Rightarrow> nat" where
  "subscribed_samples ls = (\<Sum>l\<leftarrow>subscribed ls. unat (the (subscription_max_sample_count l)))"

definition holding :: "transaction_log list \<Rightarrow> nat \<Rightarrow> nat" where
  "holding ls j = length (filter (\<lambda>l. j < num_slots l \<and> slot_phase l j = Held) ls)"

definition restorable :: "u32 \<Rightarrow> (nat \<Rightarrow> nat) \<Rightarrow> transaction_log list \<Rightarrow> bool" where
  "restorable word readers ls \<longleftrightarrow>
     (\<forall>l \<in> set ls. (subscribe_phase l = Free \<and> (\<forall>j < num_slots l. slot_phase l j = Free)) \<or>
        (subscribe_phase l = Held \<and> crash_free l \<and> subscription_max_sample_count l \<noteq> None)) \<and>
     length (subscribed ls) \<le> unat (GetSubscribersFromState word) \<and>
     subscribed_samples ls \<le> unat (GetSubscribedSamplesFromState word) \<and>
     (\<forall>j. holding ls j \<le> readers j)"

lemma held_simps [simp]:
  "subscribed [] = []" "subscribed (l # ls) = (if subscribe_phase l = Held then l # subscribed ls else subscribed ls)"
  "subscribed_samples [] = 0"
  "subscribed_samples (l # ls) = (if subscribe_phase l = Held then unat (the (subscription_max_sample_count l)) else 0)
     + subscribed_samples ls"
  "holding [] j = 0"
  "holding (l # ls) j = (if j < num_slots l \<and> slot_phase l j = Held then 1 else 0) + holding ls j"
  by (simp_all add: subscribed_def subscribed_samples_def holding_def)

lemma held_append:
  "length (subscribed (ls @ ms)) = length (subscribed ls) + length (subscribed ms)"
  "subscribed_samples (ls @ ms) = subscribed_samples ls + subscribed_samples ms"
  "holding (ls @ ms) j = holding ls j + holding ms j"
  by (simp_all add: subscribed_def subscribed_samples_def holding_def)

text \<open>What is given back for a list of logs: all they hold, and nothing else.\<close>

definition taken_out :: "transaction_log list \<Rightarrow> u32 \<Rightarrow> (nat \<Rightarrow> nat) \<Rightarrow> u32 \<Rightarrow> (nat \<Rightarrow> nat) \<Rightarrow> bool" where
  "taken_out ls word readers word' readers' \<longleftrightarrow>
     unat (GetSubscribersFromState word') = unat (GetSubscribersFromState word) - length (subscribed ls) \<and>
     unat (GetSubscribedSamplesFromState word') = unat (GetSubscribedSamplesFromState word) - subscribed_samples ls \<and>
     (\<forall>j. readers' j = readers j - holding ls j)"

lemma taken_out_append:
  "taken_out ls word readers word1 readers1 \<Longrightarrow> taken_out ms word1 readers1 word2 readers2 \<Longrightarrow>
     taken_out (ls @ ms) word readers word2 readers2"
  by (simp add: taken_out_def held_append)

lemma restorable_first:
  assumes "restorable (mem (ec_subscribers ec)) (reader_count (data_control ec) slots) (l # ls)"
  shows "resolvable slots ec l"
proof (cases "subscribe_phase l = Held")
  case True
  have held: "0 < reader_count (data_control ec) slots j" if "j < num_slots l" "slot_phase l j = Held" for j
  proof -
    have "holding (l # ls) j \<le> reader_count (data_control ec) slots j"
      using assms unfolding restorable_def by blast
    with that show ?thesis by simp
  qed
  obtain n where n: "subscription_max_sample_count l = Some n" and l: "crash_free l"
    using assms True by (auto simp: restorable_def)
  have "Suc (length (subscribed ls)) \<le> unat (GetSubscribersFromState (mem (ec_subscribers ec)))"
    "unat n \<le> unat (GetSubscribedSamplesFromState (mem (ec_subscribers ec)))"
    using assms True n by (simp_all add: restorable_def)
  then have "0 < GetSubscribersFromState (mem (ec_subscribers ec))" "n \<le> GetSubscribedSamplesFromState (mem (ec_subscribers ec))"
    by (simp_all add: word_less_nat_alt word_le_nat_alt)
  with True n l held show ?thesis by (simp add: resolvable_def)
qed (use assms in \<open>auto simp: restorable_def resolvable_def\<close>)

lemma give_back_first:
  assumes "restorable word readers (l # ls)"
    and "\<forall>j. readers' j = (if j < num_slots l \<and> slot_phase l j = Held then readers j - 1 else readers j)"
  shows "taken_out [l] word readers (given_back l word) readers'" and "restorable (given_back l word) readers' ls"
proof -
  show out: "taken_out [l] word readers (given_back l word) readers'"
  proof (cases "subscribe_phase l = Held")
    case True
    let ?n = "the (subscription_max_sample_count l)"
    have "0 < unat (GetSubscribersFromState word)" "unat ?n \<le> unat (GetSubscribedSamplesFromState word)"
      using assms(1) True by (simp_all add: restorable_def)
    then have "unat (GetSubscribersFromState word - 1) = unat (GetSubscribersFromState word) - 1"
      "unat (GetSubscribedSamplesFromState word - ?n) = unat (GetSubscribedSamplesFromState word) - unat ?n"
      by (auto simp: unat_minus_one unat_gt_0 unat_sub word_le_nat_alt)
    with True assms(2) show ?thesis by (simp add: taken_out_def given_back_def)
  qed (use assms(2) in \<open>simp add: taken_out_def given_back_def\<close>)
  have "holding ls j \<le> readers' j" for j
  proof -
    have "holding (l # ls) j \<le> readers j" using assms(1) unfolding restorable_def by blast
    with assms(2) show ?thesis by (cases "j < num_slots l \<and> slot_phase l j = Held") auto
  qed
  moreover have "length (subscribed (l # ls)) \<le> unat (GetSubscribersFromState word)"
    "subscribed_samples (l # ls) \<le> unat (GetSubscribedSamplesFromState word)"
    using assms(1) unfolding restorable_def by blast+
  ultimately show "restorable (given_back l word) readers' ls"
    using assms(1) out by (auto simp: restorable_def taken_out_def split: if_splits)
qed

text \<open>What rollbacks have done to one event, for the logs \<open>idxs\<close>.\<close>

definition event_readers :: "'c service_event_control \<Rightarrow> 'c edc_world \<Rightarrow> nat \<Rightarrow> nat" where
  "event_readers ec slots = reader_count (data_control ec) slots"

definition gave_back ::
    "nat list \<Rightarrow> 'c edc_world \<Rightarrow> 'c edc_world \<Rightarrow> 'c service_event_control \<Rightarrow> 'c service_event_control \<Rightarrow> bool" where
  "gave_back idxs slots slots' ec ec' \<longleftrightarrow>
     data_control ec' = data_control ec \<and> ec_subscription ec' = ec_subscription ec \<and>
     length (proxy_transaction_logs (ec_logs ec')) = length (proxy_transaction_logs (ec_logs ec)) \<and>
     (\<forall>j < length (proxy_transaction_logs (ec_logs ec)).
        if j \<in> set idxs
        then \<not> is_active (proxy_transaction_logs (ec_logs ec') ! j) \<and>
          \<not> ContainsTransactions (node_log (proxy_transaction_logs (ec_logs ec') ! j))
        else proxy_transaction_logs (ec_logs ec') ! j = proxy_transaction_logs (ec_logs ec) ! j) \<and>
     taken_out (logs_at (ec_logs ec) idxs) (mem (ec_subscribers ec)) (event_readers ec slots)
       (mem (ec_subscribers ec')) (event_readers ec slots')"

lemma gave_back_nothing: "gave_back [] slots slots ec ec"
  by (simp add: gave_back_def taken_out_def logs_at_def)

lemma gave_back_append:
  assumes "gave_back idxs slots slots1 ec ec1" and "gave_back jdxs slots1 slots2 ec1 ec2"
    and "set idxs \<inter> set jdxs = {}" and "set jdxs \<subseteq> {..<length (proxy_transaction_logs (ec_logs ec))}"
  shows "gave_back (idxs @ jdxs) slots slots2 ec ec2"
proof -
  have same: "proxy_transaction_logs (ec_logs ec1) ! j = proxy_transaction_logs (ec_logs ec) ! j" if "j \<in> set jdxs" for j
  proof -
    have "j < length (proxy_transaction_logs (ec_logs ec))" "j \<notin> set idxs" using assms(3,4) that by auto
    with assms(1) show ?thesis by (simp add: gave_back_def)
  qed
  then have logs: "logs_at (ec_logs ec1) jdxs = logs_at (ec_logs ec) jdxs" by (simp add: logs_at_def)
  have "logs_at (ec_logs ec) (idxs @ jdxs) = logs_at (ec_logs ec) idxs @ logs_at (ec_logs ec) jdxs" by (simp add: logs_at_def)
  moreover have "event_readers ec1 = event_readers ec" using assms(1) by (simp add: gave_back_def event_readers_def fun_eq_iff)
  ultimately have "taken_out (logs_at (ec_logs ec) (idxs @ jdxs)) (mem (ec_subscribers ec)) (event_readers ec slots)
      (mem (ec_subscribers ec2)) (event_readers ec slots2)"
    using assms(1,2) logs by (auto simp: gave_back_def intro: taken_out_append)
  moreover have "if j \<in> set (idxs @ jdxs)
      then \<not> is_active (proxy_transaction_logs (ec_logs ec2) ! j) \<and>
        \<not> ContainsTransactions (node_log (proxy_transaction_logs (ec_logs ec2) ! j))
      else proxy_transaction_logs (ec_logs ec2) ! j = proxy_transaction_logs (ec_logs ec) ! j"
    if "j < length (proxy_transaction_logs (ec_logs ec))" for j
    using assms(1,2) that by (auto simp: gave_back_def split: if_splits)
  ultimately show ?thesis using assms(1,2) by (simp add: gave_back_def)
qed

lemma gave_back_cong:
  assumes "mem s1 (data_control ec) = mem s2 (data_control ec)"
    and "mem s1' (data_control ec) = mem s2' (data_control ec)"
  shows "gave_back idxs s1 s1' ec ec' = gave_back idxs s2 s2' ec ec'"
  unfolding gave_back_def event_readers_def reader_count_cong [OF assms(1)] reader_count_cong [OF assms(2)] by (rule refl)

lemma pending_in_range: "set (pending t uid) \<subseteq> {..<length (proxy_transaction_logs t)}"
  by (auto simp: pending_eq)

lemma distinct_pending: "distinct (pending t uid)"
  by (simp add: pending_eq)

lemma gave_back_pending:
  assumes "gave_back idxs slots slots' ec ec'" and "pending (ec_logs ec) uid = idxs @ rest"
  shows "pending (ec_logs ec') uid = rest"
proof -
  let ?ns = "proxy_transaction_logs (ec_logs ec)" and ?ns' = "proxy_transaction_logs (ec_logs ec')"
  have len: "length ?ns' = length ?ns" using assms(1) by (simp add: gave_back_def)
  have "needs_rollback_of uid (?ns' ! j) = (j \<notin> set idxs \<and> needs_rollback_of uid (?ns ! j))" if "j < length ?ns" for j
    using assms(1) that by (auto simp: gave_back_def needs_rollback_of_def split: if_splits)
  then have "pending (ec_logs ec') uid = filter (\<lambda>j. j \<notin> set idxs) (pending (ec_logs ec) uid)"
    unfolding pending_eq len filter_filter by (intro filter_cong) auto
  also have "\<dots> = rest"
  proof -
    have "set idxs \<inter> set rest = {}" using distinct_pending [of "ec_logs ec" uid] assms(2) by simp
    then show ?thesis unfolding assms(2) by (auto simp: filter_empty_conv filter_id_conv)
  qed
  finally show ?thesis .
qed

subsection \<open>One rollback of every event\<close>

definition ready_event :: "TransactionLogId \<Rightarrow> 'c edc_world \<Rightarrow> 'c service_event_control \<Rightarrow> bool" where
  "ready_event uid slots ec \<longleftrightarrow>
     quiet (ec_subscribers ec) \<and> max_subscribers (ec_subscription ec) \<noteq> 0 \<and>
     restorable (mem (ec_subscribers ec)) (event_readers ec slots) (logs_at (ec_logs ec) (pending (ec_logs ec) uid))"

lemma ready_event_cong:
  assumes "mem slots' (data_control ec) = mem slots (data_control ec)"
  shows "ready_event uid slots' ec = ready_event uid slots ec"
  unfolding ready_event_def event_readers_def reader_count_cong [OF assms] by (rule refl)

lemma rollback_event_outcome:
  fixes slots :: "'c edc_world"
  assumes "quiet slots" and "ready_event uid slots ec"
  shows "\<exists>ec' slots'. rollback_event uid ec slots = Some (Inr (), ec', slots') \<and> quiet slots' \<and>
    gave_back (take 1 (pending (ec_logs ec) uid)) slots slots' ec ec' \<and> ready_event uid slots' ec' \<and>
    (\<forall>c. c \<noteq> data_control ec \<longrightarrow> mem slots' c = mem slots c)"
proof (cases "pending (ec_logs ec) uid")
  case Nil
  then have "rollback_event uid ec slots = Some (Inr (), ec, slots)"
    by (simp add: rollback_event_def RollbackProxyTransactions_def)
  with Nil assms gave_back_nothing show ?thesis by auto
next
  case (Cons i idxs)
  let ?t = "ec_logs ec" and ?word = "mem (ec_subscribers ec)"
  let ?l = "node_log (proxy_transaction_logs ?t ! i)"
  have i: "i < length (proxy_transaction_logs ?t)" using pending_in_range [of ?t uid] Cons by auto
  have rest: "restorable ?word (reader_count (data_control ec) slots) (?l # logs_at ?t idxs)"
    using assms(2) Cons by (simp add: ready_event_def event_readers_def logs_at_def)
  have ok: "quiet (ec_subscribers ec)" "max_subscribers (ec_subscription ec) \<noteq> 0" "resolvable slots ec ?l"
    using assms(2) restorable_first [OF rest] by (simp_all add: ready_event_def)
  from resolvable_log [OF assms(1) ok] obtain l' slots' where
    run: "RollbackProxyElementLog (restart_dereference (data_control ec)) (restart_unsubscribe (ec_subscription ec))
      ?l (slots, ec_subscribers ec) = Some (Inr (), l', slots', (ec_subscribers ec)\<lparr>mem := given_back ?l ?word\<rparr>)"
    and clean: "\<not> ContainsTransactions l'" and slots': "quiet slots'"
      "\<forall>c. c \<noteq> data_control ec \<longrightarrow> mem slots' c = mem slots c"
      "\<forall>j. reader_count (data_control ec) slots' j =
         (if j < num_slots ?l \<and> slot_phase ?l j = Held then reader_count (data_control ec) slots j - 1
          else reader_count (data_control ec) slots j)"
    by blast
  let ?t' = "?t\<lparr>proxy_transaction_logs := (proxy_transaction_logs ?t)
    [i := (proxy_transaction_logs ?t ! i)\<lparr>node_log := l', is_active := False, needs_rollback := False\<rparr>]\<rparr>"
  let ?ec' = "ec\<lparr>ec_logs := ?t', ec_subscribers := (ec_subscribers ec)\<lparr>mem := given_back ?l ?word\<rparr>\<rparr>"
  note give = give_back_first [OF rest slots'(3)]
  have step: "rollback_event uid ec slots = Some (Inr (), ?ec', slots')"
    using RollbackProxyTransactions_first [OF Cons run clean] by (simp add: rollback_event_def)
  have gave: "gave_back [i] slots slots' ec ?ec'"
    using i clean give(1) by (simp add: gave_back_def event_readers_def logs_at_def nth_list_update)
  have pend: "pending ?t' uid = idxs" using gave_back_pending [OF gave, of uid idxs] Cons by simp
  have "i \<notin> set idxs" using distinct_pending [of ?t uid] Cons by simp
  then have "proxy_transaction_logs ?t' ! x = proxy_transaction_logs ?t ! x" if "x \<in> set idxs" for x
    using that by (cases "x = i") simp_all
  then have "logs_at ?t' idxs = logs_at ?t idxs" by (simp add: logs_at_def)
  with pend give(2) ok have "ready_event uid slots' ?ec'" by (simp add: ready_event_def event_readers_def)
  with step gave slots' Cons show ?thesis by auto
qed

lemma RollbackTransactionLogs_loop_outcome:
  fixes slots :: "'c edc_world"
  assumes "quiet slots" and "distinct (map (\<lambda>(e, ec). data_control ec) ecs)"
    and "\<forall>(e, ec) \<in> set ecs. ready_event uid slots ec"
  shows "\<exists>ecs' slots'. RollbackTransactionLogs_loop uid ecs slots = Some (Inr (), ecs', slots') \<and> quiet slots' \<and>
    list_all2 (\<lambda>(e, ec) (e', ec'). e' = e \<and> gave_back (take 1 (pending (ec_logs ec) uid)) slots slots' ec ec' \<and>
      ready_event uid slots' ec') ecs ecs' \<and>
    (\<forall>c. c \<notin> (\<lambda>(e, ec). data_control ec) ` set ecs \<longrightarrow> mem slots' c = mem slots c)"
  using assms
proof (induction ecs arbitrary: slots)
  case Nil
  then show ?case by simp
next
  case (Cons x ecs)
  obtain e ec where x: "x = (e, ec)" by (cases x)
  have rec: "ready_event uid slots ec" using Cons.prems(3) by (auto simp: x)
  from rollback_event_outcome [OF Cons.prems(1) rec] obtain ec' slots1 where
    one: "rollback_event uid ec slots = Some (Inr (), ec', slots1)" "quiet slots1"
      "gave_back (take 1 (pending (ec_logs ec) uid)) slots slots1 ec ec'" "ready_event uid slots1 ec'"
      "\<forall>c. c \<noteq> data_control ec \<longrightarrow> mem slots1 c = mem slots c"
    by blast
  have apart: "data_control ec \<notin> (\<lambda>(e, ec). data_control ec) ` set ecs"
    using Cons.prems(2) by (simp add: x)
  have same: "mem slots1 (data_control ec2) = mem slots (data_control ec2)" if "(e2, ec2) \<in> set ecs" for e2 ec2
    using apart that by (intro one(5) [rule_format]) force
  have "\<forall>(e, ec) \<in> set ecs. ready_event uid slots1 ec"
    using Cons.prems(3) same ready_event_cong by (fastforce simp: x)
  with Cons.IH [OF one(2)] Cons.prems(2) obtain ecs' slots2 where
    rest: "RollbackTransactionLogs_loop uid ecs slots1 = Some (Inr (), ecs', slots2)" "quiet slots2"
      "list_all2 (\<lambda>(e, ec) (e', ec'). e' = e \<and> gave_back (take 1 (pending (ec_logs ec) uid)) slots1 slots2 ec ec' \<and>
        ready_event uid slots2 ec') ecs ecs'"
      "\<forall>c. c \<notin> (\<lambda>(e, ec). data_control ec) ` set ecs \<longrightarrow> mem slots2 c = mem slots1 c"
    by (auto simp: x)
  have ctrl: "data_control ec' = data_control ec" using one(3) by (simp add: gave_back_def)
  have last: "mem slots2 (data_control ec) = mem slots1 (data_control ec)" using rest(4) apart by simp
  have "gave_back (take 1 (pending (ec_logs ec) uid)) slots slots2 ec ec'"
    using one(3) last gave_back_cong [of slots ec slots slots1 slots2] by simp
  moreover have "ready_event uid slots2 ec'"
    using one(4) last ctrl ready_event_cong [of slots2 ec' slots1 uid] by simp
  moreover have "list_all2 (\<lambda>(e, ec) (e', ec'). e' = e \<and> gave_back (take 1 (pending (ec_logs ec) uid)) slots slots2 ec ec' \<and>
        ready_event uid slots2 ec') ecs ecs'"
    using rest(3)
    by (rule list.rel_mono_strong)
      (use same gave_back_cong [of slots1 _ slots slots2 slots2] in \<open>auto split: prod.splits\<close>)
  ultimately show ?case
    using one rest by (auto simp: x)
qed

subsection \<open>A consumer restarts\<close>

text \<open>The registration of the pid in the control data, with what its return value tells the messaging.\<close>

definition notify_previous ::
    "(QualityType \<Rightarrow> pid_t \<Rightarrow> pid_t \<Rightarrow> 's \<Rightarrow> 's run) \<Rightarrow> QualityType \<Rightarrow> pid_t option \<Rightarrow> pid_t \<Rightarrow> pid_t \<Rightarrow> 's \<Rightarrow> 's run" where
  "notify_previous notify quality_type previous pid provider s =
     (case previous of
        None \<Rightarrow> Some s
      | Some p \<Rightarrow> if p \<noteq> pid then notify quality_type p provider s else Some s)"

definition room_for_uid :: "mapping_entry list \<Rightarrow> uid_t \<Rightarrow> bool" where
  "room_for_uid es uid \<longleftrightarrow> mapping_wf es \<and>
     (pid_mapping es uid \<noteq> None \<or> (\<exists>i < length es. entry_status (es ! i) = kUnused))"

lemma RegisterPid_room:
  assumes "quiet m" and "room_for_uid (mem m) uid"
  shows "\<exists>p m'. RegisterPid uid pid m = Some (Some p, m') \<and> quiet m' \<and> room_for_uid (mem m') uid \<and>
    p = (case pid_mapping (mem m) uid of None \<Rightarrow> pid | Some p \<Rightarrow> p) \<and>
    pid_mapping (mem m') = (pid_mapping (mem m))(uid \<mapsto> pid)"
  using RegisterPid_refines [OF assms(1), of uid pid] assms(2)
  by (auto simp: room_for_uid_def split: if_splits)

lemma PrepareRollback_outcome:
  fixes w :: "('a, 'c, 's) restart_world"
  assumes "address \<notin> synchronisation_data_set w"
    and "quiet (uid_pid_mapping (service_controls w address))"
    and "room_for_uid (mem (uid_pid_mapping (service_controls w address))) uid"
    and "notify_previous notify q (pid_mapping (mem (uid_pid_mapping (service_controls w address))) uid) pid provider
           (runtime_messaging w) = Some s"
  shows "\<exists>w1. PrepareRollback notify pid (TransactionLogRollbackExecutor address q provider uid) w = Some w1 \<and>
    event_controls (service_controls w1 address) =
      map (\<lambda>(e, ec). (e, mark_event uid ec)) (event_controls (service_controls w address)) \<and>
    slot_world w1 = slot_world w \<and> runtime_messaging w1 = s \<and>
    quiet (uid_pid_mapping (service_controls w1 address)) \<and>
    room_for_uid (mem (uid_pid_mapping (service_controls w1 address))) uid \<and>
    pid_mapping (mem (uid_pid_mapping (service_controls w1 address))) =
      (pid_mapping (mem (uid_pid_mapping (service_controls w address))))(uid \<mapsto> pid)"
proof -
  from RegisterPid_room [OF assms(2,3), of pid] obtain p m' where
    reg: "RegisterPid uid pid (uid_pid_mapping (service_controls w address)) = Some (Some p, m')"
    and m': "quiet m'" "room_for_uid (mem m') uid"
      "p = (case pid_mapping (mem (uid_pid_mapping (service_controls w address))) uid of None \<Rightarrow> pid | Some p \<Rightarrow> p)"
      "pid_mapping (mem m') = (pid_mapping (mem (uid_pid_mapping (service_controls w address))))(uid \<mapsto> pid)"
    by blast
  have "(if p \<noteq> pid then notify q p provider (runtime_messaging w) else Some (runtime_messaging w)) = Some s"
    using assms(4) m'(3) by (auto simp: notify_previous_def split: option.splits if_splits)
  with reg m' assms(1) show ?thesis
    by (auto simp: PrepareRollback_def TransactionLogRollbackExecutor_def MarkServiceLogsNeedRollback_def
        contract_simps Let_def split: if_splits)
qed

text \<open>The worlds before and after the service instance has been prepared by this process.\<close>

definition instance_ready ::
    "TransactionLogId \<Rightarrow> 'a \<Rightarrow> ('a, 'c, 's) restart_world \<Rightarrow> bool" where
  "instance_ready uid address w \<longleftrightarrow>
     (let sdc = service_controls w address
      in quiet (slot_world w) \<and> quiet (uid_pid_mapping sdc) \<and> room_for_uid (mem (uid_pid_mapping sdc)) uid \<and>
         distinct (map (\<lambda>(e, ec). data_control ec) (event_controls sdc)))"

definition restart_ready ::
    "TransactionLogId \<Rightarrow> 'a \<Rightarrow> ('a, 'c, 's) restart_world \<Rightarrow> bool" where
  "restart_ready uid address w \<longleftrightarrow> instance_ready uid address w \<and> address \<notin> synchronisation_data_set w \<and>
     (\<forall>(e, ec) \<in> set (event_controls (service_controls w address)). ready_event uid (slot_world w) (mark_event uid ec))"

definition prepared_world ::
    "pid_t \<Rightarrow> TransactionLogId \<Rightarrow> 'a \<Rightarrow> ('a, 'c, 's) restart_world \<Rightarrow> bool" where
  "prepared_world pid uid address w \<longleftrightarrow> instance_ready uid address w \<and> address \<in> synchronisation_data_set w \<and>
     pid_mapping (mem (uid_pid_mapping (service_controls w address))) uid = Some pid \<and>
     (\<forall>(e, ec) \<in> set (event_controls (service_controls w address)). ready_event uid (slot_world w) ec)"

lemma Prepare_restart_ready:
  assumes "restart_ready uid address w"
    and "notify_previous notify q (pid_mapping (mem (uid_pid_mapping (service_controls w address))) uid) pid provider
           (runtime_messaging w) = Some s"
  shows "\<exists>w1. PrepareRollback notify pid (TransactionLogRollbackExecutor address q provider uid) w = Some w1 \<and>
    prepared_world pid uid address w1 \<and> runtime_messaging w1 = s \<and> slot_world w1 = slot_world w \<and>
    event_controls (service_controls w1 address) =
      map (\<lambda>(e, ec). (e, mark_event uid ec)) (event_controls (service_controls w address)) \<and>
    pid_mapping (mem (uid_pid_mapping (service_controls w1 address))) =
      (pid_mapping (mem (uid_pid_mapping (service_controls w address))))(uid \<mapsto> pid)"
proof -
  let ?sdc = "service_controls w address" and ?ex = "TransactionLogRollbackExecutor address q provider uid"
  have ready: "address \<notin> synchronisation_data_set w" "quiet (uid_pid_mapping ?sdc)"
    "room_for_uid (mem (uid_pid_mapping ?sdc)) uid" "quiet (slot_world w)"
    "distinct (map (\<lambda>(e, ec). data_control ec) (event_controls ?sdc))"
    "\<forall>(e, ec) \<in> set (event_controls ?sdc). ready_event uid (slot_world w) (mark_event uid ec)"
    using assms(1) by (simp_all add: restart_ready_def instance_ready_def Let_def)
  from PrepareRollback_outcome [OF ready(1-3) assms(2)] obtain w1 where
    prep: "PrepareRollback notify pid ?ex w = Some w1"
    and w1: "event_controls (service_controls w1 address) = map (\<lambda>(e, ec). (e, mark_event uid ec)) (event_controls ?sdc)"
      "slot_world w1 = slot_world w" "runtime_messaging w1 = s"
      "quiet (uid_pid_mapping (service_controls w1 address))"
      "room_for_uid (mem (uid_pid_mapping (service_controls w1 address))) uid"
      "pid_mapping (mem (uid_pid_mapping (service_controls w1 address))) = (pid_mapping (mem (uid_pid_mapping ?sdc)))(uid \<mapsto> pid)"
    by blast
  have "address \<in> synchronisation_data_set w1"
    using prep by (auto simp: PrepareRollback_def TransactionLogRollbackExecutor_def MarkServiceLogsNeedRollback_def
        contract_simps Let_def split: if_splits Option.bind_splits)
  moreover have "map (\<lambda>(e, ec). data_control ec) (event_controls (service_controls w1 address)) =
      map (\<lambda>(e, ec). data_control ec) (event_controls ?sdc)"
    by (simp add: w1(1) mark_event_def case_prod_unfold)
  then have "distinct (map (\<lambda>(e, ec). data_control ec) (event_controls (service_controls w1 address)))"
    using ready(5) by simp
  moreover have "\<forall>(e, ec) \<in> set (event_controls (service_controls w1 address)). ready_event uid (slot_world w1) ec"
    using ready(6) by (auto simp: w1(1,2))
  ultimately have "prepared_world pid uid address w1"
    using ready(4) w1(2-6) by (simp add: prepared_world_def instance_ready_def Let_def)
  with prep w1 show ?thesis by blast
qed

lemma restart_prepared_again:
  assumes "PrepareRollback notify pid (TransactionLogRollbackExecutor address q provider uid) w = Some w1"
    and "address \<in> synchronisation_data_set w1"
  shows "ExecutePartialRestartLogic notify uid pid q address provider w =
    ExecutePartialRestartLogic notify uid pid q address provider w1"
proof -
  have "PrepareRollback notify pid (TransactionLogRollbackExecutor address q provider uid) w1 = Some w1"
    using assms(2) by (simp add: PrepareRollback_def TransactionLogRollbackExecutor_def)
  with assms(1) show ?thesis by (simp add: ExecutePartialRestartLogic_def RollbackTransactionLogs_def)
qed

text \<open>One proxy more in a process that has prepared the service instance.\<close>

lemma restart_of_prepared:
  fixes w :: "('a, 'c, 's) restart_world"
  assumes "prepared_world pid uid address w"
  shows "\<exists>w'. ExecutePartialRestartLogic notify uid pid q address provider w = Some (Inr (), w') \<and>
    prepared_world pid uid address w' \<and> runtime_messaging w' = runtime_messaging w \<and>
    pid_mapping (mem (uid_pid_mapping (service_controls w' address))) =
      pid_mapping (mem (uid_pid_mapping (service_controls w address))) \<and>
    list_all2 (\<lambda>(e, ec) (e', ec'). e' = e \<and>
        gave_back (take 1 (pending (ec_logs ec) uid)) (slot_world w) (slot_world w') ec ec')
      (event_controls (service_controls w address)) (event_controls (service_controls w' address))"
proof -
  let ?sdc = "service_controls w address" and ?ex = "TransactionLogRollbackExecutor address q provider uid"
  have ready: "address \<in> synchronisation_data_set w" "quiet (slot_world w)" "quiet (uid_pid_mapping ?sdc)"
    "room_for_uid (mem (uid_pid_mapping ?sdc)) uid"
    "distinct (map (\<lambda>(e, ec). data_control ec) (event_controls ?sdc))"
    "\<forall>(e, ec) \<in> set (event_controls ?sdc). ready_event uid (slot_world w) ec"
    "pid_mapping (mem (uid_pid_mapping ?sdc)) uid = Some pid"
    using assms by (simp_all add: prepared_world_def instance_ready_def Let_def)
  have ex: "service_data_control ?ex = address" "executor_log_id ?ex = uid"
    by (simp_all add: TransactionLogRollbackExecutor_def)
  have prep: "PrepareRollback notify pid ?ex w = Some w" using ready(1) by (simp add: PrepareRollback_def ex)
  from RollbackTransactionLogs_loop_outcome [OF ready(2,5,6)] obtain ecs' slots' where
    loop: "RollbackTransactionLogs_loop uid (event_controls ?sdc) (slot_world w) = Some (Inr (), ecs', slots')" "quiet slots'"
    and ecs': "list_all2 (\<lambda>(e, ec) (e', ec'). e' = e \<and>
        gave_back (take 1 (pending (ec_logs ec) uid)) (slot_world w) slots' ec ec' \<and> ready_event uid slots' ec')
      (event_controls ?sdc) ecs'"
    by blast
  from RegisterPid_room [OF ready(3,4), of pid] ready(7) obtain m where
    again: "RegisterPid uid pid (uid_pid_mapping ?sdc) = Some (Some pid, m)" "quiet m" "room_for_uid (mem m) uid"
      "pid_mapping (mem m) = pid_mapping (mem (uid_pid_mapping ?sdc))"
    by (auto simp: fun_upd_idem)
  let ?w' = "w\<lparr>service_controls := (service_controls w)
      (address := ?sdc\<lparr>event_controls := ecs', uid_pid_mapping := m\<rparr>), slot_world := slots'\<rparr>"
  have run: "ExecutePartialRestartLogic notify uid pid q address provider w = Some (Inr (), ?w')"
    using loop again by (simp add: ExecutePartialRestartLogic_def RollbackTransactionLogs_def prep ex contract_simps Let_def)
  have gave: "list_all2 (\<lambda>(e, ec) (e', ec'). e' = e \<and>
        gave_back (take 1 (pending (ec_logs ec) uid)) (slot_world w) slots' ec ec') (event_controls ?sdc) ecs'"
    using ecs' by (rule list.rel_mono_strong) auto
  have still: "\<forall>(e, ec) \<in> set ecs'. ready_event uid slots' ec"
    using ecs' by (induction rule: list_all2_induct) auto
  have "list_all2 (\<lambda>(e, ec) (e', ec'). data_control ec' = data_control ec) (event_controls ?sdc) ecs'"
    using gave by (rule list.rel_mono_strong) (auto simp: gave_back_def)
  then have "map (\<lambda>(e, ec). data_control ec) ecs' = map (\<lambda>(e, ec). data_control ec) (event_controls ?sdc)"
    by (induction rule: list_all2_induct) auto
  with still ready loop(2) again have "prepared_world pid uid address ?w'"
    by (simp add: prepared_world_def instance_ready_def Let_def)
  with run gave again(4) show ?thesis by auto
qed

text \<open>A process creates proxies one after the other; the first error ends it.\<close>

fun create_proxies :: "nat \<Rightarrow> ('w \<Rightarrow> (result_blank \<times> 'w) run) \<Rightarrow> 'w \<Rightarrow> (result_blank \<times> 'w) run" where
  "create_proxies 0 f w = Some (Inr (), w)"
| "create_proxies (Suc k) f w = do {
     (r, w) \<leftarrow> f w;
     (case r of Inl err \<Rightarrow> Some (Inl err, w) | Inr _ \<Rightarrow> create_proxies k f w) }"

lemma gave_back_next:
  assumes "gave_back (take 1 (pending (ec_logs ec) uid)) slots slots1 ec ec1"
    and "gave_back (take k (pending (ec_logs ec1) uid)) slots1 slots2 ec1 ec2"
  shows "gave_back (take (Suc k) (pending (ec_logs ec) uid)) slots slots2 ec ec2"
proof -
  let ?p = "pending (ec_logs ec) uid"
  have pend: "pending (ec_logs ec1) uid = drop 1 ?p" using gave_back_pending [OF assms(1), of uid "drop 1 ?p"] by simp
  have "set (take 1 ?p) \<inter> set (take k (drop 1 ?p)) = {}"
    using distinct_pending [of "ec_logs ec" uid] by (cases ?p) (auto dest: in_set_takeD)
  moreover have "set (take k (drop 1 ?p)) \<subseteq> {..<length (proxy_transaction_logs (ec_logs ec))}"
    using pending_in_range [of "ec_logs ec" uid] by (blast dest: in_set_takeD in_set_dropD)
  ultimately have "gave_back (take 1 ?p @ take k (drop 1 ?p)) slots slots2 ec ec2"
    by (rule gave_back_append [OF assms(1) assms(2) [unfolded pend]])
  then show ?thesis by (cases ?p) simp_all
qed

lemma create_proxies_prepared:
  fixes w :: "('a, 'c, 's) restart_world"
  assumes "prepared_world pid uid address w"
  shows "\<exists>w'. create_proxies k (ExecutePartialRestartLogic notify uid pid q address provider) w = Some (Inr (), w') \<and>
    runtime_messaging w' = runtime_messaging w \<and>
    pid_mapping (mem (uid_pid_mapping (service_controls w' address))) =
      pid_mapping (mem (uid_pid_mapping (service_controls w address))) \<and>
    list_all2 (\<lambda>(e, ec) (e', ec'). e' = e \<and>
        gave_back (take k (pending (ec_logs ec) uid)) (slot_world w) (slot_world w') ec ec')
      (event_controls (service_controls w address)) (event_controls (service_controls w' address))"
  using assms
proof (induction k arbitrary: w)
  case 0
  have "list_all2 (\<lambda>(e, ec) (e', ec'). e' = e \<and> gave_back [] (slot_world w) (slot_world w) ec ec')
      (event_controls (service_controls w address)) (event_controls (service_controls w address))"
    by (rule list.rel_refl) (auto simp: gave_back_nothing)
  then show ?case by simp
next
  case (Suc k)
  from restart_of_prepared [OF Suc.prems] obtain w1 where
    one: "ExecutePartialRestartLogic notify uid pid q address provider w = Some (Inr (), w1)" "prepared_world pid uid address w1"
      "runtime_messaging w1 = runtime_messaging w"
      "pid_mapping (mem (uid_pid_mapping (service_controls w1 address))) =
        pid_mapping (mem (uid_pid_mapping (service_controls w address)))"
      "list_all2 (\<lambda>(e, ec) (e', ec'). e' = e \<and>
          gave_back (take 1 (pending (ec_logs ec) uid)) (slot_world w) (slot_world w1) ec ec')
        (event_controls (service_controls w address)) (event_controls (service_controls w1 address))"
    by blast
  from Suc.IH [OF one(2)] obtain w2 where
    rest: "create_proxies k (ExecutePartialRestartLogic notify uid pid q address provider) w1 = Some (Inr (), w2)"
      "runtime_messaging w2 = runtime_messaging w1"
      "pid_mapping (mem (uid_pid_mapping (service_controls w2 address))) =
        pid_mapping (mem (uid_pid_mapping (service_controls w1 address)))"
      "list_all2 (\<lambda>(e, ec) (e', ec'). e' = e \<and>
          gave_back (take k (pending (ec_logs ec) uid)) (slot_world w1) (slot_world w2) ec ec')
        (event_controls (service_controls w1 address)) (event_controls (service_controls w2 address))"
    by blast
  have "list_all2 (\<lambda>(e, ec) (e', ec'). e' = e \<and>
      gave_back (take (Suc k) (pending (ec_logs ec) uid)) (slot_world w) (slot_world w2) ec ec')
    (event_controls (service_controls w address)) (event_controls (service_controls w2 address))"
    by (rule list_all2_trans [OF _ one(5) rest(4)]) (auto intro: gave_back_next)
  with one rest show ?case by simp
qed

text \<open>
  What a restart with \<open>k\<close> proxies has done to one event: the first \<open>k\<close> logs of the uid are free and
  empty; the subscriptions and the samples they hold are taken out of the subscription word, and
  their references out of the slots; no other log has changed.
\<close>

definition same_log :: "transaction_log_node \<Rightarrow> transaction_log_node \<Rightarrow> bool" where
  "same_log n n' \<longleftrightarrow> is_active n' = is_active n \<and> node_id n' = node_id n \<and> node_log n' = node_log n"

definition restarted_event ::
    "nat \<Rightarrow> TransactionLogId \<Rightarrow> 'c edc_world \<Rightarrow> 'c edc_world \<Rightarrow> 'c service_event_control \<Rightarrow> 'c service_event_control \<Rightarrow> bool" where
  "restarted_event k uid slots slots' ec ec' \<longleftrightarrow>
     data_control ec' = data_control ec \<and> ec_subscription ec' = ec_subscription ec \<and>
     length (proxy_transaction_logs (ec_logs ec')) = length (proxy_transaction_logs (ec_logs ec)) \<and>
     (\<forall>j < length (proxy_transaction_logs (ec_logs ec)).
        if j \<in> set (take k (logs_of uid (ec_logs ec)))
        then \<not> is_active (proxy_transaction_logs (ec_logs ec') ! j) \<and>
          \<not> ContainsTransactions (node_log (proxy_transaction_logs (ec_logs ec') ! j))
        else same_log (proxy_transaction_logs (ec_logs ec) ! j) (proxy_transaction_logs (ec_logs ec') ! j)) \<and>
     taken_out (logs_at (ec_logs ec) (take k (logs_of uid (ec_logs ec)))) (mem (ec_subscribers ec)) (event_readers ec slots)
       (mem (ec_subscribers ec')) (event_readers ec slots')"

lemma marked_facts:
  "data_control (mark_event uid ec) = data_control ec" "ec_subscription (mark_event uid ec) = ec_subscription ec"
  "ec_subscribers (mark_event uid ec) = ec_subscribers ec" "pending (ec_logs (mark_event uid ec)) uid = logs_of uid (ec_logs ec)"
  "length (proxy_transaction_logs (ec_logs (mark_event uid ec))) = length (proxy_transaction_logs (ec_logs ec))"
  "j < length (proxy_transaction_logs (ec_logs ec)) \<Longrightarrow>
     same_log (proxy_transaction_logs (ec_logs ec) ! j) (proxy_transaction_logs (ec_logs (mark_event uid ec)) ! j)"
  "event_readers (mark_event uid ec) slots = event_readers ec slots"
  unfolding mark_event_def event_readers_def
  by (simp_all add: pending_marked) (simp_all add: marked_logs same_log_def)

lemma logs_of_members: "set (logs_of uid t) \<subseteq> {..<length (proxy_transaction_logs t)}"
  by (auto simp: logs_of_def)

lemma marked_logs_at:
  "set idxs \<subseteq> {..<length (proxy_transaction_logs (ec_logs ec))} \<Longrightarrow>
     logs_at (ec_logs (mark_event uid ec)) idxs = logs_at (ec_logs ec) idxs"
  using marked_facts(6) [of _ ec uid] by (auto simp: logs_at_def same_log_def)

lemma restarted_event_marked:
  assumes "gave_back (take k (pending (ec_logs (mark_event uid ec)) uid)) slots slots' (mark_event uid ec) ec'"
  shows "restarted_event k uid slots slots' ec ec'"
proof -
  have "set (take k (logs_of uid (ec_logs ec))) \<subseteq> {..<length (proxy_transaction_logs (ec_logs ec))}"
    using logs_of_members by (blast dest: in_set_takeD)
  note logs = marked_logs_at [OF this, of uid]
  show ?thesis
    using assms marked_facts(6) [of _ ec uid] unfolding gave_back_def restarted_event_def marked_facts(1-5,7) logs
    by (auto split: if_splits)
qed

text \<open>The uid has no log left once there are as many proxies as there were logs.\<close>

lemma restarted_completely:
  assumes "restarted_event k uid slots slots' ec ec'" and "length (logs_of uid (ec_logs ec)) \<le> k"
  shows "logs_of uid (ec_logs ec') = []"
  using assms by (auto simp: restarted_event_def logs_of_def filter_empty_conv same_log_def split: if_splits)

text \<open>
  Property C28: a consumer that restarts gets back what its crashed predecessor held. While nobody
  else acts, and when no log that the predecessor has left behind has a transaction under way and
  the slots and the subscription words contain what the logs hold, the restart logic succeeds each
  time the process creates a proxy for the service instance. After \<open>k\<close> proxies (and before any of
  them has subscribed) the first \<open>k\<close> logs of the uid are free and empty in every event, the slots
  have exactly the readers less that these logs recorded, and the subscription word exactly the
  subscribers and samples less; no other log has changed. So nothing is left where the predecessor
  had at most \<open>k\<close> logs. The uid is registered with the new pid; and the provider is told once that
  the previous pid is outdated, exactly if there was another one.
\<close>

theorem restart_gives_back_everything:
  fixes w :: "('a, 'c, 's) restart_world"
  assumes "restart_ready uid address w"
    and "notify_previous notify q (pid_mapping (mem (uid_pid_mapping (service_controls w address))) uid) pid provider
           (runtime_messaging w) = Some s"
    and "0 < k"
  shows "\<exists>w'. create_proxies k (ExecutePartialRestartLogic notify uid pid q address provider) w = Some (Inr (), w') \<and>
    runtime_messaging w' = s \<and>
    pid_mapping (mem (uid_pid_mapping (service_controls w' address))) =
      (pid_mapping (mem (uid_pid_mapping (service_controls w address))))(uid \<mapsto> pid) \<and>
    list_all2 (\<lambda>(e, ec) (e', ec'). e' = e \<and> restarted_event k uid (slot_world w) (slot_world w') ec ec' \<and>
        (length (logs_of uid (ec_logs ec)) \<le> k \<longrightarrow> logs_of uid (ec_logs ec') = []))
      (event_controls (service_controls w address)) (event_controls (service_controls w' address))"
proof -
  let ?f = "ExecutePartialRestartLogic notify uid pid q address provider"
  from Prepare_restart_ready [OF assms(1,2)] obtain w1 where
    prep: "PrepareRollback notify pid (TransactionLogRollbackExecutor address q provider uid) w = Some w1"
    and w1: "prepared_world pid uid address w1" "runtime_messaging w1 = s" "slot_world w1 = slot_world w"
      "event_controls (service_controls w1 address) =
        map (\<lambda>(e, ec). (e, mark_event uid ec)) (event_controls (service_controls w address))"
      "pid_mapping (mem (uid_pid_mapping (service_controls w1 address))) =
        (pid_mapping (mem (uid_pid_mapping (service_controls w address))))(uid \<mapsto> pid)"
    by blast
  have "address \<in> synchronisation_data_set w1" using w1(1) by (simp add: prepared_world_def)
  with prep have "?f w = ?f w1" by (rule restart_prepared_again)
  then have same: "create_proxies k ?f w = create_proxies k ?f w1" using assms(3) by (cases k) simp_all
  from create_proxies_prepared [OF w1(1), of k notify q provider] obtain w' where
    w': "create_proxies k ?f w1 = Some (Inr (), w')" "runtime_messaging w' = runtime_messaging w1"
      "pid_mapping (mem (uid_pid_mapping (service_controls w' address))) =
        pid_mapping (mem (uid_pid_mapping (service_controls w1 address)))"
      "list_all2 (\<lambda>(e, ec) (e', ec'). e' = e \<and>
          gave_back (take k (pending (ec_logs ec) uid)) (slot_world w1) (slot_world w') ec ec')
        (event_controls (service_controls w1 address)) (event_controls (service_controls w' address))"
    by blast
  from w'(4) have "list_all2 (\<lambda>(e, ec) (e', ec'). e' = e \<and>
      gave_back (take k (pending (ec_logs (mark_event uid ec)) uid)) (slot_world w) (slot_world w') (mark_event uid ec) ec')
    (event_controls (service_controls w address)) (event_controls (service_controls w' address))"
    unfolding w1(3,4) by (simp add: list_all2_map1 case_prod_unfold)
  then have "list_all2 (\<lambda>(e, ec) (e', ec'). e' = e \<and> restarted_event k uid (slot_world w) (slot_world w') ec ec' \<and>
      (length (logs_of uid (ec_logs ec)) \<le> k \<longrightarrow> logs_of uid (ec_logs ec') = []))
    (event_controls (service_controls w address)) (event_controls (service_controls w' address))"
    by (rule list.rel_mono_strong) (auto dest: restarted_event_marked intro: restarted_completely)
  with same w' w1 show ?thesis by auto
qed

definition crashed_log :: transaction_log where
  "crashed_log = set_phase 1 Held (set_subscribe Held (Some 1) (TransactionLog 2))"

definition crashed_event :: "unit service_event_control" where
  "crashed_event =
     \<lparr>ec_logs = \<lparr>proxy_transaction_logs =
          [\<lparr>is_active = True, needs_rollback = False, node_id = 7, node_log = crashed_log\<rparr>],
        skeleton_tracing_transaction_log = TransactionLogNode 2\<rparr>,
      ec_subscription = \<lparr>max_subscribable_slots = 2, max_subscribers = 1, enforce_max_samples = True\<rparr>,
      ec_subscribers = \<lparr>mem = CreateState 1 1, sched = []\<rparr>, data_control = ()\<rparr>"

definition crashed_world :: "(unit, unit, (QualityType \<times> pid_t \<times> pid_t) list) restart_world" where
  "crashed_world =
     \<lparr>service_controls = (\<lambda>_. \<lparr>event_controls = [(ElementFqId_default, crashed_event)],
        uid_pid_mapping = \<lparr>mem = [used_entry 7 100], sched = []\<rparr>\<rparr>),
      slot_world = idle_world two_samples, synchronisation_data_set = {}, runtime_messaging = []\<rparr>"

definition record_outdated ::
    "QualityType \<Rightarrow> pid_t \<Rightarrow> pid_t \<Rightarrow> (QualityType \<times> pid_t \<times> pid_t) list \<Rightarrow> (QualityType \<times> pid_t \<times> pid_t) list run" where
  "record_outdated q outdated provider s = Some (s @ [(q, outdated, provider)])"

lemma one_used_entry: "mapping_wf [used_entry uid pid]" "pid_mapping [used_entry uid pid] uid = Some pid"
proof -
  show wf: "mapping_wf [used_entry uid pid]" by (simp add: mapping_wf_def)
  show "pid_mapping [used_entry uid pid] uid = Some pid"
    using pid_mapping_Some_iff [OF wf, of uid pid] by simp
qed

lemma crashed_log_facts:
  "subscribe_phase crashed_log = Held" "crash_free crashed_log" "num_slots crashed_log = 2"
  "subscription_max_sample_count crashed_log = Some 1"
  "slot_phase crashed_log j = (if j = 1 then Held else Free) \<or> 2 \<le> j"
  by (auto simp: crashed_log_def crash_free_def ambiguous_def TransactionLog_empty)

lemma two_samples_readers:
  "reader_count () (idle_world two_samples) 1 = 1" "reader_count () (idle_world two_samples) 0 = 0"
  by (simp_all add: reader_count_def num_slots_of_def idle_world_def two_samples_def)

lemma crashed_event_facts:
  "logs_of 7 (ec_logs crashed_event) = [0]" "data_control crashed_event = ()"
  "logs_at (ec_logs crashed_event) [0] = [crashed_log]" "mem (ec_subscribers crashed_event) = CreateState 1 1"
  "length (proxy_transaction_logs (ec_logs crashed_event)) = 1"
  by (simp_all add: crashed_event_def logs_of_def logs_at_def)

lemma crashed_world_ready: "restart_ready 7 () crashed_world"
proof -
  have "holding [crashed_log] j \<le> reader_count () (idle_world two_samples) j" for j
    using crashed_log_facts(3) crashed_log_facts(5) [of j] two_samples_readers by (auto split: if_splits)
  then have "restorable (CreateState 1 1) (reader_count () (idle_world two_samples)) [crashed_log]"
    using crashed_log_facts by (simp add: restorable_def del: held_simps(6))
  moreover have "logs_at (ec_logs (mark_event 7 crashed_event)) [0] = [crashed_log]"
    using marked_logs_at [of "[0]" crashed_event 7] crashed_event_facts by simp
  ultimately have "ready_event 7 (idle_world two_samples) (mark_event 7 crashed_event)"
    using crashed_event_facts
    by (simp add: ready_event_def event_readers_def marked_facts) (simp add: crashed_event_def)
  then show ?thesis
    by (simp add: restart_ready_def instance_ready_def crashed_world_def room_for_uid_def one_used_entry Let_def)
      (simp add: idle_world_def)
qed

theorem restart_gives_back_everything_witness:
  "\<exists>w' ec'. create_proxies 2 (ExecutePartialRestartLogic record_outdated 7 200 kASIL_QM () 55) crashed_world = Some (Inr (), w') \<and>
     runtime_messaging w' = [(kASIL_QM, 100, 55)] \<and> reader_count () (slot_world w') 1 = 0 \<and>
     event_controls (service_controls w' ()) = [(ElementFqId_default, ec')] \<and> logs_of 7 (ec_logs ec') = [] \<and>
     GetSubscribersFromState (mem (ec_subscribers ec')) = 0"
proof -
  have n: "notify_previous record_outdated kASIL_QM
      (pid_mapping (mem (uid_pid_mapping (service_controls crashed_world ()))) 7) 200 55
      (runtime_messaging crashed_world) = Some [(kASIL_QM, 100, 55)]"
    by (simp add: notify_previous_def crashed_world_def one_used_entry record_outdated_def)
  have "event_controls (service_controls crashed_world ()) = [(ElementFqId_default, crashed_event)]"
    "slot_world crashed_world = idle_world two_samples"
    by (simp_all add: crashed_world_def)
  with restart_gives_back_everything [OF crashed_world_ready n, of 2] obtain w' ec' where
    w': "create_proxies 2 (ExecutePartialRestartLogic record_outdated 7 200 kASIL_QM () 55) crashed_world = Some (Inr (), w')"
      "runtime_messaging w' = [(kASIL_QM, 100, 55)]" "event_controls (service_controls w' ()) = [(ElementFqId_default, ec')]"
      "restarted_event 2 7 (idle_world two_samples) (slot_world w') crashed_event ec'" "logs_of 7 (ec_logs ec') = []"
    by (auto simp: list_all2_Cons1 crashed_event_facts)
  have out: "taken_out [crashed_log] (CreateState 1 1) (reader_count () (idle_world two_samples))
      (mem (ec_subscribers ec')) (reader_count () (slot_world w'))"
    using w'(4) by (simp add: restarted_event_def crashed_event_facts event_readers_def)
  have "reader_count () (slot_world w') 1 = reader_count () (idle_world two_samples) 1 - 1"
    using out crashed_log_facts crashed_log_facts(5) [of 1] by (simp add: taken_out_def)
  moreover have "GetSubscribersFromState (mem (ec_subscribers ec')) = 0"
    using out crashed_log_facts by (simp add: taken_out_def unat_eq_0)
  ultimately show ?thesis using w' two_samples_readers by auto
qed

subsection \<open>What a restart leaves alone\<close>

lemma rollback_loop_touches:
  "RollbackProxyTransactions_loop d u idxs r0 t s = Some (r, t', s') \<Longrightarrow>
     length (proxy_transaction_logs t') = length (proxy_transaction_logs t) \<and>
     (\<forall>j. j \<notin> set idxs \<longrightarrow> proxy_transaction_logs t' ! j = proxy_transaction_logs t ! j)"
proof (induction idxs arbitrary: r0 t s)
  case Nil
  then show ?case by simp
next
  case (Cons i idxs)
  show ?case
  proof (cases "RollbackProxyElementLog d u (node_log (proxy_transaction_logs t ! i)) s")
    case None
    with Cons.prems show ?thesis by (auto simp: contract_simps split: if_splits)
  next
    case (Some x)
    obtain r1 l s1 where x: "x = (r1, l, s1)" by (cases x)
    show ?thesis
    proof (cases r1)
      case (Inl e)
      with Cons.prems Some x have "RollbackProxyTransactions_loop d u idxs (Inl e)
          (t\<lparr>proxy_transaction_logs := (proxy_transaction_logs t)
            [i := (proxy_transaction_logs t ! i)\<lparr>node_log := l\<rparr>]\<rparr>) s1 = Some (r, t', s')"
        by (auto simp: contract_simps split: if_splits)
      from Cons.IH [OF this] show ?thesis by auto
    next
      case (Inr b)
      with Cons.prems Some x show ?thesis
        by (auto simp: contract_simps split: if_splits Option.bind_splits)
    qed
  qed
qed

text \<open>A log that the restart may touch: it is in use under the uid, and it was left behind before
  this process has prepared the service instance.\<close>

definition left_behind :: "bool \<Rightarrow> TransactionLogId \<Rightarrow> transaction_log_node \<Rightarrow> bool" where
  "left_behind prepared uid n \<longleftrightarrow> is_active n \<and> node_id n = uid \<and> (prepared \<longrightarrow> needs_rollback n)"

definition spares :: "bool \<Rightarrow> TransactionLogId \<Rightarrow> 'c service_event_control \<Rightarrow> 'c service_event_control \<Rightarrow> bool" where
  "spares prepared uid ec ec' \<longleftrightarrow>
     length (proxy_transaction_logs (ec_logs ec')) = length (proxy_transaction_logs (ec_logs ec)) \<and>
     (\<forall>j < length (proxy_transaction_logs (ec_logs ec)).
        \<not> left_behind prepared uid (proxy_transaction_logs (ec_logs ec) ! j) \<longrightarrow>
        proxy_transaction_logs (ec_logs ec') ! j = proxy_transaction_logs (ec_logs ec) ! j)"

lemma spares_refl: "spares prepared uid ec ec"
  by (simp add: spares_def)

lemma rollback_event_spares:
  assumes "rollback_event uid ec slots = Some (r, ec', slots')"
  shows "spares True uid ec ec'"
proof -
  from assms obtain t subs where
    "RollbackProxyTransactions (restart_dereference (data_control ec)) (restart_unsubscribe (ec_subscription ec))
       uid (ec_logs ec) (slots, ec_subscribers ec) = Some (r, t, slots', subs)"
    and ec': "ec' = ec\<lparr>ec_logs := t, ec_subscribers := subs\<rparr>"
    by (auto simp: rollback_event_def split: Option.bind_splits)
  from rollback_loop_touches [OF this(1) [unfolded RollbackProxyTransactions_def]] show ?thesis
    by (auto simp: spares_def ec' left_behind_def pending_eq needs_rollback_of_def)
qed

lemma RollbackTransactionLogs_loop_spares:
  "RollbackTransactionLogs_loop uid ecs slots = Some (r, ecs', slots') \<Longrightarrow>
     list_all2 (\<lambda>(e, ec) (e', ec'). e' = e \<and> spares True uid ec ec') ecs ecs'"
proof (induction ecs arbitrary: slots ecs')
  case Nil
  then show ?case by simp
next
  case (Cons x ecs)
  obtain e ec where x: "x = (e, ec)" by (cases x)
  have refl: "list_all2 (\<lambda>(e, ec) (e', ec'). e' = e \<and> spares True uid ec ec') ecs ecs"
    by (rule list.rel_refl) (auto simp: spares_refl)
  from Cons.prems obtain r1 ec1 slots1 where one: "rollback_event uid ec slots = Some (r1, ec1, slots1)"
    by (auto simp: x split: Option.bind_splits)
  with Cons.prems refl Cons.IH rollback_event_spares [OF one] show ?case
    by (auto simp: x split: Option.bind_splits sum.splits)
qed

lemma mark_event_spares:
  assumes "spares True uid (mark_event uid ec) ec'"
  shows "spares False uid ec ec'"
  using assms by (auto simp: spares_def left_behind_def mark_event_def marked_logs)

text \<open>
  Property C29: a restart touches only what was left behind. Whatever other processes do in
  between, and whether or not the restart succeeds, no log of another uid, no free log and,
  once this process has prepared the service instance, no log that a proxy of this process has
  registered since then is changed in any event.
\<close>

theorem restart_spares_live_logs:
  assumes "RollbackTransactionLogs notify pid ex w = Some (r, w')"
  shows "list_all2 (\<lambda>(e, ec) (e', ec'). e' = e \<and>
      spares (service_data_control ex \<in> synchronisation_data_set w) (executor_log_id ex) ec ec')
    (event_controls (service_controls w (service_data_control ex)))
    (event_controls (service_controls w' (service_data_control ex)))"
proof -
  let ?a = "service_data_control ex" and ?uid = "executor_log_id ex"
  from assms obtain w1 ecs' slots' where prep: "PrepareRollback notify pid ex w = Some w1"
    and loop: "RollbackTransactionLogs_loop ?uid (event_controls (service_controls w1 ?a)) (slot_world w1)
      = Some (r, ecs', slots')"
    and ecs': "event_controls (service_controls w' ?a) = ecs'"
    by (auto simp: RollbackTransactionLogs_def Let_def split: Option.bind_splits)
  note spared = RollbackTransactionLogs_loop_spares [OF loop]
  show ?thesis
  proof (cases "?a \<in> synchronisation_data_set w")
    case True
    with prep have "w1 = w" by (simp add: PrepareRollback_def)
    with spared True ecs' show ?thesis by simp
  next
    case False
    with prep have "event_controls (service_controls w1 ?a) =
        map (\<lambda>(e, ec). (e, mark_event ?uid ec)) (event_controls (service_controls w ?a))"
      by (auto simp: PrepareRollback_def MarkServiceLogsNeedRollback_def Let_def contract_simps
          split: Option.bind_splits if_splits)
    with spared have "list_all2 (\<lambda>(e, ec) (e', ec'). e' = e \<and> spares True ?uid (mark_event ?uid ec) ec')
        (event_controls (service_controls w ?a)) ecs'"
      by (simp add: list_all2_map1 case_prod_unfold)
    then have "list_all2 (\<lambda>(e, ec) (e', ec'). e' = e \<and> spares False ?uid ec ec')
        (event_controls (service_controls w ?a)) ecs'"
      by (rule list.rel_mono_strong) (auto simp: mark_event_spares)
    with False ecs' show ?thesis by simp
  qed
qed

theorem restart_spares_live_logs_witness:
  "\<exists>w'. RollbackTransactionLogs record_outdated 200 (TransactionLogRollbackExecutor () kASIL_QM 55 7)
       (crashed_world\<lparr>synchronisation_data_set := {()}\<rparr>) = Some (Inr (), w') \<and>
     (\<exists>ec'. event_controls (service_controls w' ()) = [(ElementFqId_default, ec')] \<and>
        proxy_transaction_logs (ec_logs ec') ! 0 = proxy_transaction_logs (ec_logs crashed_event) ! 0)"
proof -
  let ?w = "crashed_world\<lparr>synchronisation_data_set := {()}\<rparr>"
  let ?ex = "TransactionLogRollbackExecutor () kASIL_QM 55 7"
  have none: "pending (ec_logs crashed_event) 7 = []"
    by (simp add: pending_eq needs_rollback_of_def crashed_event_def)
  have ev: "event_controls (service_controls ?w ()) = [(ElementFqId_default, crashed_event)]"
    by (simp add: crashed_world_def)
  have ex: "service_data_control ?ex = ()" "executor_log_id ?ex = 7"
    by (simp_all add: TransactionLogRollbackExecutor_def)
  have "\<exists>w'. RollbackTransactionLogs record_outdated 200 ?ex ?w = Some (Inr (), w')"
    using ev none by (simp add: RollbackTransactionLogs_def PrepareRollback_def ex rollback_event_def
        RollbackProxyTransactions_def Let_def)
  then obtain w' where w': "RollbackTransactionLogs record_outdated 200 ?ex ?w = Some (Inr (), w')" by blast
  obtain ec' where ec': "event_controls (service_controls w' ()) = [(ElementFqId_default, ec')]"
      "spares True 7 crashed_event ec'"
    using restart_spares_live_logs [OF w'] ev ex by (auto simp: list_all2_Cons1)
  have "\<not> left_behind True 7 (proxy_transaction_logs (ec_logs crashed_event) ! 0)"
    "length (proxy_transaction_logs (ec_logs crashed_event)) = 1"
    by (simp_all add: left_behind_def crashed_event_def)
  with ec' have "proxy_transaction_logs (ec_logs ec') ! 0 = proxy_transaction_logs (ec_logs crashed_event) ! 0"
    by (simp add: spares_def)
  with w' ec' show ?thesis by blast
qed

end
