(* ===== verification/Service_Instances.thy ===== *)
theory Service_Instances
  imports Element_Messages
begin

text \<open>
  The identification of service instances in the service discovery, and the cache of the instances
  that are known to be offered:

  \<^item> \<open>InstanceIdentifier\<close> (instance_identifier.h), of which the discovery uses the ids and the
    quality of the deployment; everything else that tells two identifiers apart is the text
    \<open>deployment\<close>. All identifiers are identifiers of the LoLa binding, so the id of the service is
    always there.
  \<^item> \<open>EnrichedInstanceIdentifier\<close> (enriched_instance_identifier.h), \<open>HandleType\<close> (handle_type.h/.cpp)
    and \<open>LolaServiceInstanceIdentifier\<close> (lola_service_instance_identifier.h/.cpp).
  \<^item> \<open>KnownInstancesContainer\<close> (known_instances_container.h/.cpp): a map from services to sets of
    instances. The order of an unordered set is not specified; where the code copies one to a
    vector, the model takes ascending order.
  \<^item> \<open>QualityAwareContainer\<close> (quality_aware_container.h).

  The contract of the cache is a set of pairs of service and instance.
\<close>

subsection \<open>Identifiers and handles\<close>

record instance_identifier =
  deployment :: string
  deployed_service_id :: u16
  deployed_instance_id :: "u16 option"
  asilLevel :: QualityType

record enriched_instance_identifier =
  GetInstanceIdentifier :: instance_identifier
  GetInstanceId :: "u16 option"
  GetQualityType :: QualityType

record handle_type =
  handle_identifier :: instance_identifier
  handle_instance_id :: u16

definition EnrichedInstanceIdentifier :: "instance_identifier \<Rightarrow> enriched_instance_identifier" where
  "EnrichedInstanceIdentifier instance_identifier =
     \<lparr>GetInstanceIdentifier = instance_identifier, GetInstanceId = deployed_instance_id instance_identifier,
      GetQualityType = asilLevel instance_identifier\<rparr>"

definition EnrichedInstanceIdentifier_with_id ::
    "instance_identifier \<Rightarrow> u16 \<Rightarrow> enriched_instance_identifier run" where
  "EnrichedInstanceIdentifier_with_id instance_identifier found_id = do {
     amp_require (deployed_instance_id instance_identifier = None);
     Some \<lparr>GetInstanceIdentifier = instance_identifier, GetInstanceId = Some found_id,
           GetQualityType = asilLevel instance_identifier\<rparr> }"

definition EnrichedInstanceIdentifier_with_quality ::
    "enriched_instance_identifier \<Rightarrow> QualityType \<Rightarrow> enriched_instance_identifier" where
  "EnrichedInstanceIdentifier_with_quality e quality_type =
     \<lparr>GetInstanceIdentifier = GetInstanceIdentifier e, GetInstanceId = GetInstanceId e, GetQualityType = quality_type\<rparr>"

definition EnrichedInstanceIdentifier_of_handle :: "handle_type \<Rightarrow> enriched_instance_identifier" where
  "EnrichedInstanceIdentifier_of_handle handle =
     \<lparr>GetInstanceIdentifier = handle_identifier handle, GetInstanceId = Some (handle_instance_id handle),
      GetQualityType = asilLevel (handle_identifier handle)\<rparr>"

definition GetBindingSpecificServiceId :: "enriched_instance_identifier \<Rightarrow> u16" where
  "GetBindingSpecificServiceId e = deployed_service_id (GetInstanceIdentifier e)"

definition GetBindingSpecificInstanceId :: "enriched_instance_identifier \<Rightarrow> u16 option" where
  "GetBindingSpecificInstanceId e = GetInstanceId e"

definition ExtractInstanceId :: "u16 option \<Rightarrow> instance_identifier \<Rightarrow> u16 run" where
  "ExtractInstanceId given identifier =
     (case given of Some i \<Rightarrow> Some i | None \<Rightarrow> deployed_instance_id identifier)"

definition make_HandleType :: "instance_identifier \<Rightarrow> u16 option \<Rightarrow> handle_type run" where
  "make_HandleType identifier given = do {
     i \<leftarrow> ExtractInstanceId given identifier;
     Some \<lparr>handle_identifier = identifier, handle_instance_id = i\<rparr> }"

type_synonym lola_service_instance_identifier = "u16 \<times> u16 option"

definition LolaServiceInstanceIdentifier_any :: "u16 \<Rightarrow> lola_service_instance_identifier" where
  "LolaServiceInstanceIdentifier_any service = (service, None)"

definition LolaServiceInstanceIdentifier :: "enriched_instance_identifier \<Rightarrow> lola_service_instance_identifier" where
  "LolaServiceInstanceIdentifier e = (GetBindingSpecificServiceId e, GetBindingSpecificInstanceId e)"

definition LolaServiceInstanceIdentifier_hash :: "lola_service_instance_identifier \<Rightarrow> u64" where
  "LolaServiceInstanceIdentifier_hash identifier =
     (let result = push_bit 32 (ucast (fst identifier))
      in case snd identifier of
           None \<Rightarrow> result
         | Some i \<Rightarrow> result + push_bit 16 (ucast i) + 1)"

subsection \<open>The cache of known instances\<close>

type_synonym known_instances_container = "u16 \<rightharpoonup> u16 set"

definition Insert ::
    "enriched_instance_identifier \<Rightarrow> known_instances_container \<Rightarrow> bool \<times> known_instances_container" where
  "Insert e known =
     (case GetBindingSpecificInstanceId e of
        None \<Rightarrow> (False, known)
      | Some i \<Rightarrow>
          (case known (GetBindingSpecificServiceId e) of
             None \<Rightarrow> (True, known(GetBindingSpecificServiceId e \<mapsto> {i}))
           | Some existing_instance_ids \<Rightarrow>
               if i \<in> existing_instance_ids then (False, known)
               else (True, known(GetBindingSpecificServiceId e \<mapsto> insert i existing_instance_ids))))"

definition Remove ::
    "enriched_instance_identifier \<Rightarrow> known_instances_container \<Rightarrow> known_instances_container" where
  "Remove e known =
     (case GetBindingSpecificInstanceId e of
        None \<Rightarrow> known
      | Some i \<Rightarrow>
          (case known (GetBindingSpecificServiceId e) of
             None \<Rightarrow> known
           | Some ids \<Rightarrow> known(GetBindingSpecificServiceId e \<mapsto> ids - {i})))"

definition GetKnownHandles ::
    "enriched_instance_identifier \<Rightarrow> known_instances_container \<Rightarrow> handle_type list" where
  "GetKnownHandles e known =
     (case known (GetBindingSpecificServiceId e) of
        None \<Rightarrow> []
      | Some known_service_instances \<Rightarrow>
          (case GetBindingSpecificInstanceId e of
             Some i \<Rightarrow>
               if i \<in> known_service_instances
               then [\<lparr>handle_identifier = GetInstanceIdentifier e, handle_instance_id = i\<rparr>] else []
           | None \<Rightarrow>
               map (\<lambda>i. \<lparr>handle_identifier = GetInstanceIdentifier e, handle_instance_id = i\<rparr>)
                 (sorted_list_of_set known_service_instances)))"

text \<open>Merging moves every entry of the other container, which is empty afterwards.\<close>

definition Merge :: "known_instances_container \<Rightarrow> known_instances_container \<Rightarrow> known_instances_container" where
  "Merge known merged =
     (\<lambda>s. case merged s of
            None \<Rightarrow> known s
          | Some ids \<Rightarrow> (case known s of None \<Rightarrow> Some ids | Some base \<Rightarrow> Some (base \<union> ids)))"

definition Empty :: "known_instances_container \<Rightarrow> bool" where
  "Empty known \<longleftrightarrow> known = Map.empty"

record 'a quality_aware_container =
  asil_b :: 'a
  asil_qm :: 'a

definition no_instances :: "known_instances_container quality_aware_container" where
  "no_instances = \<lparr>asil_b = Map.empty, asil_qm = Map.empty\<rparr>"

definition of_quality :: "QualityType \<Rightarrow> 'a quality_aware_container \<Rightarrow> 'a run" where
  "of_quality quality_type container =
     (case quality_type of kASIL_B \<Rightarrow> Some (asil_b container) | kASIL_QM \<Rightarrow> Some (asil_qm container) | kInvalid \<Rightarrow> None)"

definition at_quality :: "QualityType \<Rightarrow> ('a \<Rightarrow> 'a) \<Rightarrow> 'a quality_aware_container \<Rightarrow> 'a quality_aware_container" where
  "at_quality quality_type f container =
     (case quality_type of
        kASIL_B \<Rightarrow> container\<lparr>asil_b := f (asil_b container)\<rparr>
      | kASIL_QM \<Rightarrow> container\<lparr>asil_qm := f (asil_qm container)\<rparr>
      | kInvalid \<Rightarrow> container)"

definition merge_instances ::
    "known_instances_container quality_aware_container \<Rightarrow> known_instances_container quality_aware_container \<Rightarrow>
     known_instances_container quality_aware_container" where
  "merge_instances known found =
     \<lparr>asil_b = Merge (asil_b known) (asil_b found), asil_qm = Merge (asil_qm known) (asil_qm found)\<rparr>"

text \<open>\<open>GetKnownHandles\<close> of service_discovery_client.cpp: the handles of the quality of the identifier.\<close>

definition GetKnownHandles_of_quality ::
    "enriched_instance_identifier \<Rightarrow> known_instances_container quality_aware_container \<Rightarrow> handle_type list run" where
  "GetKnownHandles_of_quality e known = do {
     container \<leftarrow> of_quality (GetQualityType e) known;
     Some (GetKnownHandles e container) }"

subsection \<open>The cache as a set\<close>

definition instances :: "known_instances_container \<Rightarrow> (u16 \<times> u16) set" where
  "instances known = {(s, i). \<exists>ids. known s = Some ids \<and> i \<in> ids}"

lemma instances_empty [simp]: "instances Map.empty = {}"
  by (simp add: instances_def)

lemma instances_Insert:
  "instances (snd (Insert e known)) =
     (case GetInstanceId e of None \<Rightarrow> instances known
      | Some i \<Rightarrow> insert (GetBindingSpecificServiceId e, i) (instances known))"
  by (auto simp: instances_def Insert_def GetBindingSpecificInstanceId_def split: option.splits if_splits)

lemma Insert_new:
  "fst (Insert e known) \<longleftrightarrow> (\<exists>i. GetInstanceId e = Some i \<and> (GetBindingSpecificServiceId e, i) \<notin> instances known)"
  by (auto simp: instances_def Insert_def GetBindingSpecificInstanceId_def split: option.splits if_splits)

lemma instances_Remove:
  "instances (Remove e known) =
     (case GetInstanceId e of None \<Rightarrow> instances known
      | Some i \<Rightarrow> instances known - {(GetBindingSpecificServiceId e, i)})"
  by (auto simp: instances_def Remove_def GetBindingSpecificInstanceId_def split: option.splits if_splits)

lemma instances_Merge [simp]: "instances (Merge known merged) = instances known \<union> instances merged"
  by (auto simp: instances_def Merge_def split: option.splits)

text \<open>A handle that a search for \<open>e\<close> may report.\<close>

definition handles_for :: "enriched_instance_identifier \<Rightarrow> (u16 \<times> u16) set \<Rightarrow> handle_type set" where
  "handles_for e known =
     {h. handle_identifier h = GetInstanceIdentifier e \<and>
         (GetBindingSpecificServiceId e, handle_instance_id h) \<in> known \<and>
         (GetInstanceId e = None \<or> GetInstanceId e = Some (handle_instance_id h))}"

lemma set_GetKnownHandles: "set (GetKnownHandles e known) = handles_for e (instances known)"
proof (cases "known (GetBindingSpecificServiceId e)")
  case None
  then show ?thesis by (auto simp: GetKnownHandles_def handles_for_def instances_def)
next
  case (Some ids)
  have "h \<in> set (GetKnownHandles e known) \<longleftrightarrow> h \<in> handles_for e (instances known)" for h
    using Some by (cases h) (auto simp: GetKnownHandles_def handles_for_def instances_def
        GetBindingSpecificInstanceId_def split: option.splits)
  then show ?thesis by blast
qed

lemma distinct_GetKnownHandles: "distinct (GetKnownHandles e known)"
  by (auto simp: GetKnownHandles_def distinct_map inj_on_def split: option.splits)

definition known_of :: "QualityType \<Rightarrow> known_instances_container quality_aware_container \<Rightarrow> (u16 \<times> u16) set" where
  "known_of q known = (case q of kASIL_B \<Rightarrow> instances (asil_b known) | kASIL_QM \<Rightarrow> instances (asil_qm known) | kInvalid \<Rightarrow> {})"

lemma known_of_merge [simp]: "known_of q (merge_instances known found) = known_of q known \<union> known_of q found"
  by (cases q) (simp_all add: known_of_def merge_instances_def)

lemma known_of_none [simp]: "known_of q no_instances = {}"
  by (cases q) (simp_all add: known_of_def no_instances_def)

lemma GetKnownHandles_of_quality_set:
  "GetKnownHandles_of_quality e known = Some hs \<Longrightarrow>
     set hs = handles_for e (known_of (GetQualityType e) known) \<and> distinct hs"
  by (cases "GetQualityType e")
    (auto simp: GetKnownHandles_of_quality_def of_quality_def known_of_def set_GetKnownHandles distinct_GetKnownHandles)

lemma GetKnownHandles_of_quality_total:
  "GetQualityType e \<noteq> kInvalid \<Longrightarrow> \<exists>hs. GetKnownHandles_of_quality e known = Some hs"
  by (cases "GetQualityType e") (auto simp: GetKnownHandles_of_quality_def of_quality_def)

end
