(* ===== verification/Flag_Files.thy ===== *)
theory Flag_Files
  imports Service_Instances Decimal_Text "HOL-Library.Sublist"
begin

text \<open>
  How offered service instances are announced in the file system: \<open>FlagFile\<close>
  (service_discovery/flag_file.h/.cpp) and \<open>FlagFileCrawler\<close> (flag_file_crawler.h/.cpp).

  A service instance is offered with a quality exactly if the directory of the instance holds a
  flag file whose name contains the text of the quality.

  The file system library and inotify are not part of the repository. They are a parameter: a
  record of the operations that the code calls, over a state \<open>'w\<close> of the system. An operation says
  whether it succeeds. A path is its text. The entries of a directory are the file names with what
  the status of each tells (\<open>None\<close> if the status cannot be read); a directory that does not exist
  has no entries. Waiting between attempts is not modelled.
\<close>

datatype file_type = kRegular | kDirectory | kOtherFile

record 'w discovery_os =
  os_create_directories :: "string \<Rightarrow> 'w \<Rightarrow> bool \<times> 'w"
  os_status :: "string \<Rightarrow> 'w \<Rightarrow> (file_type \<times> bool) option"
  os_entries :: "string \<Rightarrow> 'w \<Rightarrow> (string \<times> file_type option) list"
  os_remove :: "string \<Rightarrow> 'w \<Rightarrow> bool \<times> 'w"
  os_open_out :: "string \<Rightarrow> 'w \<Rightarrow> bool \<times> 'w"
  os_permissions :: "string \<Rightarrow> 'w \<Rightarrow> bool \<times> 'w"
  os_add_watch :: "string \<Rightarrow> 'w \<Rightarrow> int option \<times> 'w"
  os_remove_watch :: "int \<Rightarrow> 'w \<Rightarrow> 'w"
  os_getpid :: int

subsection \<open>Names\<close>

definition TMP_PATH :: string where
  "TMP_PATH = ''/tmp/mw_com_lola/service_discovery''"

definition path_append :: "string \<Rightarrow> string \<Rightarrow> string" where
  "path_append p s = p @ ''/'' @ s"

definition GetQualityTypeString :: "QualityType \<Rightarrow> string" where
  "GetQualityTypeString quality_type =
     (case quality_type of kASIL_B \<Rightarrow> ''asil-b'' | kASIL_QM \<Rightarrow> ''asil-qm'' | kInvalid \<Rightarrow> ''invalid'')"

definition GetSearchPathForIdentifier :: "enriched_instance_identifier \<Rightarrow> string" where
  "GetSearchPathForIdentifier e =
     (let search_path = path_append TMP_PATH (show_nat (unat (GetBindingSpecificServiceId e)))
      in case GetBindingSpecificInstanceId e of
           None \<Rightarrow> search_path
         | Some i \<Rightarrow> path_append search_path (show_nat (unat i)))"

definition flag_file_name :: "int \<Rightarrow> QualityType \<Rightarrow> int \<Rightarrow> string" where
  "flag_file_name pid quality_type disambiguator =
     show_int pid @ ''_'' @ GetQualityTypeString quality_type @ ''_'' @ show_int disambiguator"

definition CreateFlagFilePath :: "'w discovery_os \<Rightarrow> enriched_instance_identifier \<Rightarrow> int \<Rightarrow> string" where
  "CreateFlagFilePath os e disambiguator =
     path_append (GetSearchPathForIdentifier e) (flag_file_name (os_getpid os) (GetQualityType e) disambiguator)"

definition ParseQualityTypeFromString :: "string \<Rightarrow> QualityType" where
  "ParseQualityTypeFromString filename =
     (if sublist (GetQualityTypeString kASIL_B) filename then kASIL_B
      else if sublist (GetQualityTypeString kASIL_QM) filename then kASIL_QM
      else kInvalid)"

text \<open>\<open>std::from_chars\<close> reads the longest prefix of digits, and fails without one or out of range.\<close>

definition from_chars_u16 :: "string \<Rightarrow> u16 option" where
  "from_chars_u16 s =
     (let digits = takeWhile is_digit s
      in if digits = [] \<or> int (read_nat digits) > 65535 then None else Some (of_nat (read_nat digits)))"

definition ConvertFromStringToInstanceId :: "string \<Rightarrow> u16 result" where
  "ConvertFromStringToInstanceId view =
     (case from_chars_u16 view of None \<Rightarrow> Inl kBindingFailure | Some i \<Rightarrow> Inr i)"

subsection \<open>Flag files\<close>

record flag_file =
  ff_identifier :: enriched_instance_identifier
  ff_disambiguator :: int
  is_offered :: bool

definition GetMatchingFlagFilePaths ::
    "'w discovery_os \<Rightarrow> enriched_instance_identifier \<Rightarrow> 'w \<Rightarrow> string list" where
  "GetMatchingFlagFilePaths os e w =
     (let search_path = GetSearchPathForIdentifier e
      in map (\<lambda>(name, t). path_append search_path name)
           (filter (\<lambda>(name, t). t = Some kRegular \<and>
                sublist (GetQualityTypeString (GetQualityType e)) (path_append search_path name))
             (os_entries os search_path w)))"

fun remove_paths :: "'w discovery_os \<Rightarrow> string list \<Rightarrow> result_blank \<Rightarrow> 'w \<Rightarrow> result_blank \<times> 'w" where
  "remove_paths os [] result w = (result, w)"
| "remove_paths os (p # ps) result w =
     (let (ok, w) = os_remove os p w
      in remove_paths os ps (if ok then result else Inl kBindingFailure) w)"

definition RemoveMatchingFlagFiles ::
    "'w discovery_os \<Rightarrow> enriched_instance_identifier \<Rightarrow> 'w \<Rightarrow> result_blank \<times> 'w" where
  "RemoveMatchingFlagFiles os e w = remove_paths os (GetMatchingFlagFilePaths os e w) (Inr ()) w"

fun CreateSearchPath_loop :: "'w discovery_os \<Rightarrow> string \<Rightarrow> nat \<Rightarrow> 'w \<Rightarrow> bool \<times> 'w" where
  "CreateSearchPath_loop os path 0 w = (False, w)"
| "CreateSearchPath_loop os path (Suc n) w =
     (let (ok, w) = os_create_directories os path w
      in if ok then (True, w)
         else if os_status os path w = Some (kDirectory, True) then (True, w)
         else CreateSearchPath_loop os path n w)"

definition CreateSearchPath :: "'w discovery_os \<Rightarrow> enriched_instance_identifier \<Rightarrow> 'w \<Rightarrow> string result \<times> 'w" where
  "CreateSearchPath os e w =
     (let path = GetSearchPathForIdentifier e;
          (ok, w) = CreateSearchPath_loop os path 3 w
      in if ok then (Inr path, w) else (Inl kBindingFailure, w))"

definition FlagFile_Make ::
    "'w discovery_os \<Rightarrow> enriched_instance_identifier \<Rightarrow> int \<Rightarrow> 'w \<Rightarrow> flag_file result \<times> 'w" where
  "FlagFile_Make os e disambiguator w =
     (let (clearing_result, w) = RemoveMatchingFlagFiles os e w
      in case clearing_result of
           Inl _ \<Rightarrow> (Inl kBindingFailure, w)
         | Inr _ \<Rightarrow>
             (let flag_file_path = CreateFlagFilePath os e disambiguator;
                  (path_result, w) = CreateSearchPath os e w
              in case path_result of
                   Inl _ \<Rightarrow> (Inl kBindingFailure, w)
                 | Inr _ \<Rightarrow>
                     (let (opened, w) = os_open_out os flag_file_path w
                      in if \<not> opened then (Inl kBindingFailure, w)
                         else let (permitted, w) = os_permissions os flag_file_path w
                              in if \<not> permitted then (Inl kBindingFailure, w)
                                 else (Inr \<lparr>ff_identifier = e, ff_disambiguator = disambiguator, is_offered = True\<rparr>, w))))"

definition FlagFile_move :: "flag_file \<Rightarrow> flag_file \<times> flag_file" where
  "FlagFile_move other = (other, other\<lparr>is_offered := False\<rparr>)"

definition FlagFile_destroy :: "'w discovery_os \<Rightarrow> flag_file \<Rightarrow> 'w \<Rightarrow> 'w run" where
  "FlagFile_destroy os f w =
     (if is_offered f then
        (let (ok, w) = os_remove os (CreateFlagFilePath os (ff_identifier f) (ff_disambiguator f)) w
         in if ok then Some w else None)
      else Some w)"

definition FlagFile_Exists :: "'w discovery_os \<Rightarrow> enriched_instance_identifier \<Rightarrow> 'w \<Rightarrow> bool" where
  "FlagFile_Exists os e w \<longleftrightarrow> GetMatchingFlagFilePaths os e w \<noteq> []"

subsection \<open>The crawler\<close>

definition map_instance ::
    "'w discovery_os \<Rightarrow> 'w \<Rightarrow> enriched_instance_identifier \<Rightarrow> QualityType \<Rightarrow>
     known_instances_container quality_aware_container \<Rightarrow> known_instances_container quality_aware_container" where
  "map_instance os w e quality_type known =
     (let quality_aware = EnrichedInstanceIdentifier_with_quality e quality_type
      in if FlagFile_Exists os quality_aware w
         then at_quality quality_type (\<lambda>k. snd (Insert quality_aware k)) known
         else known)"

definition MapInstancesToQualityTypes ::
    "'w discovery_os \<Rightarrow> 'w \<Rightarrow> enriched_instance_identifier list \<Rightarrow>
     known_instances_container quality_aware_container \<Rightarrow> known_instances_container quality_aware_container" where
  "MapInstancesToQualityTypes os w es known =
     fold (\<lambda>e known. fold (map_instance os w e) [kASIL_B, kASIL_QM] known) es known"

fun GatherExistingInstanceDirectories_loop ::
    "instance_identifier \<Rightarrow> (string \<times> file_type option) list \<Rightarrow> enriched_instance_identifier list \<Rightarrow>
     enriched_instance_identifier list result run" where
  "GatherExistingInstanceDirectories_loop identifier [] found = Some (Inr found)"
| "GatherExistingInstanceDirectories_loop identifier ((filename, status) # entries) found =
     (case status of
        None \<Rightarrow> Some (Inl kBindingFailure)
      | Some t \<Rightarrow>
          if t \<noteq> kDirectory then GatherExistingInstanceDirectories_loop identifier entries found
          else (case ConvertFromStringToInstanceId filename of
                 Inl _ \<Rightarrow> GatherExistingInstanceDirectories_loop identifier entries found
               | Inr i \<Rightarrow> do {
                   e \<leftarrow> EnrichedInstanceIdentifier_with_id identifier i;
                   GatherExistingInstanceDirectories_loop identifier entries
                     (found @ [EnrichedInstanceIdentifier_with_quality e (ParseQualityTypeFromString filename)]) }))"

definition GatherExistingInstanceDirectories ::
    "'w discovery_os \<Rightarrow> enriched_instance_identifier \<Rightarrow> 'w \<Rightarrow> enriched_instance_identifier list result run" where
  "GatherExistingInstanceDirectories os e w = do {
     amp_require (GetBindingSpecificInstanceId e = None);
     GatherExistingInstanceDirectories_loop (GetInstanceIdentifier e)
       (os_entries os (GetSearchPathForIdentifier e) w) [] }"

definition AddWatchToInotifyInstance ::
    "'w discovery_os \<Rightarrow> enriched_instance_identifier \<Rightarrow> 'w \<Rightarrow> int result \<times> 'w" where
  "AddWatchToInotifyInstance os e w =
     (let (directory_creation_result, w) = CreateSearchPath os e w
      in case directory_creation_result of
           Inl _ \<Rightarrow> (Inl kBindingFailure, w)
         | Inr search_path \<Rightarrow>
             (case os_add_watch os search_path w of
                (None, w) \<Rightarrow> (Inl kBindingFailure, w)
              | (Some watch_descriptor, w) \<Rightarrow> (Inr watch_descriptor, w)))"

text \<open>
  The map of watch descriptors is the list of its pairs. The code iterates over it in the order of
  a hash map, which is not specified; the model takes the order of insertion.
\<close>

type_synonym watch_descriptors = "(int \<times> enriched_instance_identifier) list"

definition emplace_watch :: "int \<Rightarrow> enriched_instance_identifier \<Rightarrow> watch_descriptors \<Rightarrow> watch_descriptors" where
  "emplace_watch wd e ws = (if wd \<in> fst ` set ws then ws else ws @ [(wd, e)])"

fun watch_instances ::
    "'w discovery_os \<Rightarrow> bool \<Rightarrow> enriched_instance_identifier list \<Rightarrow> watch_descriptors \<Rightarrow> 'w \<Rightarrow>
     watch_descriptors result \<times> 'w" where
  "watch_instances os add_watch [] ws w = (Inr ws, w)"
| "watch_instances os add_watch (e # es) ws w =
     (if add_watch then
        (case AddWatchToInotifyInstance os e w of
           (Inl _, w) \<Rightarrow> (Inl kBindingFailure, w)
         | (Inr wd, w) \<Rightarrow> watch_instances os add_watch es (emplace_watch wd e ws) w)
      else watch_instances os add_watch es ws w)"

definition CrawlAndWatch ::
    "'w discovery_os \<Rightarrow> bool \<Rightarrow> enriched_instance_identifier \<Rightarrow> 'w \<Rightarrow>
     ((watch_descriptors \<times> known_instances_container quality_aware_container) result \<times> 'w) run" where
  "CrawlAndWatch os add_watch e w =
     (let unaware = EnrichedInstanceIdentifier_with_quality e kInvalid;
          (main, w) = (if add_watch then
                         (case AddWatchToInotifyInstance os unaware w of
                            (Inl _, w) \<Rightarrow> (Inl kBindingFailure, w)
                          | (Inr wd, w) \<Rightarrow> (Inr (emplace_watch wd unaware []), w))
                       else (Inr [], w))
      in case main of
           Inl err \<Rightarrow> Some (Inl err, w)
         | Inr ws \<Rightarrow>
             if GetBindingSpecificInstanceId e \<noteq> None
             then Some (Inr (ws, MapInstancesToQualityTypes os w [unaware] no_instances), w)
             else do {
               found \<leftarrow> GatherExistingInstanceDirectories os unaware w;
               (case found of
                  Inl _ \<Rightarrow> Some (Inl kBindingFailure, w)
                | Inr es \<Rightarrow>
                    (case watch_instances os add_watch es ws w of
                       (Inl err, w) \<Rightarrow> Some (Inl err, w)
                     | (Inr ws, w) \<Rightarrow>
                         Some (Inr (ws, MapInstancesToQualityTypes os w es no_instances), w))) })"

definition Crawl ::
    "'w discovery_os \<Rightarrow> enriched_instance_identifier \<Rightarrow> 'w \<Rightarrow>
     (known_instances_container quality_aware_container result \<times> 'w) run" where
  "Crawl os e w = do {
     (result, w) \<leftarrow> CrawlAndWatch os False e w;
     Some (case result of Inl err \<Rightarrow> Inl err | Inr (ws, known) \<Rightarrow> Inr known, w) }"

subsection \<open>Reading names back\<close>

lemma sublist_set: "sublist xs ys \<Longrightarrow> set xs \<subseteq> set ys"
  by (auto simp: sublist_def)

text \<open>A text without the separator occurs on one side of it or on the other.\<close>

lemma sublist_split_at:
  assumes "x \<notin> set needle"
  shows "sublist needle (p @ x # s) \<longleftrightarrow> sublist needle p \<or> sublist needle s"
proof
  assume "sublist needle (p @ x # s)"
  then obtain ps ss where eq: "p @ x # s = ps @ needle @ ss" by (auto simp: sublist_def)
  show "sublist needle p \<or> sublist needle s"
  proof (cases "length ps \<le> length p")
    case True
    define q where "q = drop (length ps) p"
    have p: "p = ps @ q"
      using arg_cong [OF eq, of "take (length ps)"] True by (simp add: q_def) (metis append_take_drop_id)
    with eq have e2: "q @ x # s = needle @ ss" by simp
    have "length needle \<le> length q"
    proof (rule ccontr)
      assume "\<not> length needle \<le> length q"
      then have "length q < length needle" by simp
      moreover have "(q @ x # s) ! length q = x" by simp
      ultimately have "x \<in> set needle" unfolding e2 by (simp add: nth_append) (metis nth_mem)
      with assms show False by simp
    qed
    then have "needle = take (length needle) q"
      using arg_cong [OF e2, of "take (length needle)"] by simp
    then have "q = needle @ drop (length needle) q" by (metis append_take_drop_id)
    with p show ?thesis by (metis sublist_appendI)
  next
    case False
    define q where "q = drop (Suc (length p)) ps"
    have "ps = take (Suc (length p)) ps @ q" by (simp add: q_def)
    moreover have "drop (Suc (length p)) (p @ x # s) = drop (Suc (length p)) (ps @ needle @ ss)" by (simp only: eq)
    ultimately have "s = q @ needle @ ss" using False by (simp add: q_def)
    then show ?thesis by (auto simp: sublist_def)
  qed
next
  assume "sublist needle p \<or> sublist needle s"
  then show "sublist needle (p @ x # s)"
  proof
    assume "sublist needle p"
    then obtain ps ss where "p = ps @ needle @ ss" by (auto simp: sublist_def)
    then have "p @ x # s = ps @ needle @ ss @ x # s" by simp
    then show ?thesis unfolding sublist_def by blast
  next
    assume "sublist needle s"
    then obtain ps ss where "s = ps @ needle @ ss" by (auto simp: sublist_def)
    then have "p @ x # s = (p @ x # ps) @ needle @ ss" by simp
    then show ?thesis unfolding sublist_def by blast
  qed
qed

lemma show_nat_chars: "c \<in> set (show_nat n) \<Longrightarrow> is_digit c"
  using show_nat_digits by blast

lemma letters_not_digits [simp]:
  "\<not> is_digit CHR ''_''" "\<not> is_digit CHR ''/''" "\<not> is_digit CHR ''a''" "\<not> is_digit CHR ''b''"
  "\<not> is_digit CHR ''s''" "\<not> is_digit CHR ''q''"
  by (simp_all add: is_digit_def)

lemma ParseQualityTypeFromString_name: "ParseQualityTypeFromString (flag_file_name pid q d) = q"
proof -
  have no: "\<not> sublist needle (flag_file_name pid q d)"
    if "c \<in> set needle" "\<not> is_digit c" "c \<noteq> CHR ''-''" "c \<noteq> CHR ''_''" "c \<notin> set (GetQualityTypeString q)" for c needle
  proof
    assume "sublist needle (flag_file_name pid q d)"
    then have "c \<in> set (flag_file_name pid q d)" using that(1) by (auto dest: sublist_set)
    with that(2-) show False by (auto simp: flag_file_name_def dest: show_int_chars)
  qed
  have yes: "sublist (GetQualityTypeString q) (flag_file_name pid q d)"
    unfolding flag_file_name_def sublist_def
    by (intro exI [of _ "show_int pid @ ''_''"] exI [of _ "''_'' @ show_int d"]) simp
  show ?thesis
  proof (cases q)
    case kASIL_B
    with yes show ?thesis by (simp add: ParseQualityTypeFromString_def)
  next
    case kASIL_QM
    with yes no [of "CHR ''b''" "GetQualityTypeString kASIL_B"] show ?thesis
      by (simp add: ParseQualityTypeFromString_def GetQualityTypeString_def)
  next
    case kInvalid
    with no [of "CHR ''s''" "GetQualityTypeString kASIL_B"] no [of "CHR ''s''" "GetQualityTypeString kASIL_QM"]
    show ?thesis by (simp add: ParseQualityTypeFromString_def GetQualityTypeString_def)
  qed
qed

lemma ConvertFromString_name: "ConvertFromStringToInstanceId (show_nat (unat i)) = Inr i"
proof -
  have "takeWhile is_digit (show_nat (unat i)) = show_nat (unat i)"
    using show_nat_digits [of "unat i"] by simp
  moreover have "\<not> uint i > 65535" using uint_range_size [of i] by (simp add: word_size)
  ultimately show ?thesis
    unfolding ConvertFromStringToInstanceId_def from_chars_u16_def Let_def
    by (simp del: takeWhile_eq_all_conv)
qed

lemma search_path_chars: "CHR ''-'' \<notin> set (GetSearchPathForIdentifier e)"
  by (auto simp: GetSearchPathForIdentifier_def path_append_def TMP_PATH_def Let_def split: option.splits
      dest!: show_nat_chars)

text \<open>The quality is looked for in the whole path, but it can only be found in the file name.\<close>

lemma quality_in_path:
  assumes "q \<noteq> kInvalid"
  shows "sublist (GetQualityTypeString q) (path_append (GetSearchPathForIdentifier e) name) \<longleftrightarrow>
    sublist (GetQualityTypeString q) name"
proof -
  have "CHR ''/'' \<notin> set (GetQualityTypeString q)" and dash: "CHR ''-'' \<in> set (GetQualityTypeString q)"
    using assms by (cases q; simp add: GetQualityTypeString_def)+
  moreover have "\<not> sublist (GetQualityTypeString q) (GetSearchPathForIdentifier e)"
    using dash search_path_chars [of e] by (auto dest: sublist_set)
  ultimately show ?thesis by (simp add: path_append_def sublist_split_at)
qed

lemma digits_then_slash:
  assumes "show_nat m @ s = show_nat n @ t" and "s = [] \<or> hd s = CHR ''/''" and "t = [] \<or> hd t = CHR ''/''"
  shows "m = n \<and> s = t"
proof -
  have tw: "takeWhile is_digit (show_nat k @ u) = show_nat k" if "u = [] \<or> hd u = CHR ''/''" for k u
    using that show_nat_digits [of k] by (cases u) auto
  from tw [OF assms(2), of m] tw [OF assms(3), of n] assms(1) have "show_nat m = show_nat n" by simp
  with assms(1) show ?thesis by simp
qed

lemma search_path_inject:
  "GetSearchPathForIdentifier e = GetSearchPathForIdentifier e' \<longleftrightarrow>
     GetBindingSpecificServiceId e = GetBindingSpecificServiceId e' \<and> GetInstanceId e = GetInstanceId e'"
proof
  let ?tail = "\<lambda>e. case GetInstanceId e of None \<Rightarrow> [] | Some i \<Rightarrow> CHR ''/'' # show_nat (unat i)"
  have path: "GetSearchPathForIdentifier x =
      TMP_PATH @ CHR ''/'' # show_nat (unat (GetBindingSpecificServiceId x)) @ ?tail x" for x
    by (simp add: GetSearchPathForIdentifier_def path_append_def Let_def GetBindingSpecificInstanceId_def split: option.split)
  assume "GetSearchPathForIdentifier e = GetSearchPathForIdentifier e'"
  then have "show_nat (unat (GetBindingSpecificServiceId e)) @ ?tail e =
      show_nat (unat (GetBindingSpecificServiceId e')) @ ?tail e'"
    by (simp add: path)
  then have "unat (GetBindingSpecificServiceId e) = unat (GetBindingSpecificServiceId e') \<and> ?tail e = ?tail e'"
    by (rule digits_then_slash) (auto split: option.split)
  then show "GetBindingSpecificServiceId e = GetBindingSpecificServiceId e' \<and> GetInstanceId e = GetInstanceId e'"
    by (auto simp: word_unat_eq_iff split: option.splits)
qed (simp add: GetSearchPathForIdentifier_def GetBindingSpecificInstanceId_def)

subsection \<open>What the crawler finds\<close>

text \<open>An instance is offered with a quality if its directory holds a regular file whose name has the
  text of the quality.\<close>

definition offered_in :: "'w discovery_os \<Rightarrow> 'w \<Rightarrow> enriched_instance_identifier \<Rightarrow> QualityType \<Rightarrow> bool" where
  "offered_in os w e q \<longleftrightarrow>
     (\<exists>name. (name, Some kRegular) \<in> set (os_entries os (GetSearchPathForIdentifier e) w) \<and>
        sublist (GetQualityTypeString q) name)"

lemma with_quality_simps [simp]:
  "GetQualityType (EnrichedInstanceIdentifier_with_quality e q) = q"
  "GetInstanceId (EnrichedInstanceIdentifier_with_quality e q) = GetInstanceId e"
  "GetInstanceIdentifier (EnrichedInstanceIdentifier_with_quality e q) = GetInstanceIdentifier e"
  "GetBindingSpecificServiceId (EnrichedInstanceIdentifier_with_quality e q) = GetBindingSpecificServiceId e"
  "GetBindingSpecificInstanceId (EnrichedInstanceIdentifier_with_quality e q) = GetBindingSpecificInstanceId e"
  "GetSearchPathForIdentifier (EnrichedInstanceIdentifier_with_quality e q) = GetSearchPathForIdentifier e"
  by (simp_all add: EnrichedInstanceIdentifier_with_quality_def GetBindingSpecificServiceId_def
      GetBindingSpecificInstanceId_def GetSearchPathForIdentifier_def)

lemma FlagFile_Exists_iff:
  "GetQualityType e \<noteq> kInvalid \<Longrightarrow> FlagFile_Exists os e w \<longleftrightarrow> offered_in os w e (GetQualityType e)"
  by (force simp: FlagFile_Exists_def GetMatchingFlagFilePaths_def Let_def filter_empty_conv offered_in_def
      quality_in_path)

lemma offered_in_quality [simp]: "offered_in os w (EnrichedInstanceIdentifier_with_quality e q) = offered_in os w e"
  by (simp add: offered_in_def fun_eq_iff)

lemma known_of_map_instance:
  assumes "r \<noteq> kInvalid"
  shows "known_of q (map_instance os w e r known) = known_of q known \<union>
    {(s, i). q = r \<and> s = GetBindingSpecificServiceId e \<and> GetInstanceId e = Some i \<and> offered_in os w e r}"
  using assms by (cases r; cases q)
    (auto simp: map_instance_def Let_def FlagFile_Exists_iff at_quality_def known_of_def instances_Insert
      split: option.splits)

lemma known_of_MapInstances:
  assumes "q \<noteq> kInvalid"
  shows "known_of q (MapInstancesToQualityTypes os w es known) = known_of q known \<union>
    {(s, i). \<exists>e \<in> set es. s = GetBindingSpecificServiceId e \<and> GetInstanceId e = Some i \<and> offered_in os w e q}"
proof (induction es arbitrary: known)
  case Nil
  then show ?case by (simp add: MapInstancesToQualityTypes_def)
next
  case (Cons e es)
  have one: "known_of q (fold (map_instance os w e) [kASIL_B, kASIL_QM] known) = known_of q known \<union>
      {(s, i). s = GetBindingSpecificServiceId e \<and> GetInstanceId e = Some i \<and> offered_in os w e q}"
    using assms by (cases q) (auto simp: known_of_map_instance)
  have "MapInstancesToQualityTypes os w (e # es) known =
      MapInstancesToQualityTypes os w es (fold (map_instance os w e) [kASIL_B, kASIL_QM] known)"
    by (simp add: MapInstancesToQualityTypes_def)
  then have "known_of q (MapInstancesToQualityTypes os w (e # es) known) =
      (known_of q known \<union> {(s, i). s = GetBindingSpecificServiceId e \<and> GetInstanceId e = Some i \<and> offered_in os w e q}) \<union>
      {(s, i). \<exists>e \<in> set es. s = GetBindingSpecificServiceId e \<and> GetInstanceId e = Some i \<and> offered_in os w e q}"
    unfolding one [symmetric] by (simp only: Cons.IH)
  then show ?case by auto
qed

text \<open>The instance directories: every entry that is a directory with a readable number as its name.\<close>

definition instance_directories :: "(string \<times> file_type option) list \<Rightarrow> u16 set" where
  "instance_directories entries =
     {i. \<exists>name. (name, Some kDirectory) \<in> set entries \<and> from_chars_u16 name = Some i}"

lemma instance_directories_Cons:
  "instance_directories ((name, t) # entries) =
     (if t = Some kDirectory then set_option (from_chars_u16 name) else {}) \<union> instance_directories entries"
  by (auto simp: instance_directories_def)

definition found_instance :: "instance_identifier \<Rightarrow> u16 \<Rightarrow> enriched_instance_identifier \<Rightarrow> bool" where
  "found_instance identifier i e \<longleftrightarrow> GetInstanceIdentifier e = identifier \<and> GetInstanceId e = Some i"

lemma Gather_loop:
  assumes "deployed_instance_id identifier = None"
  shows "\<exists>r. GatherExistingInstanceDirectories_loop identifier entries found = Some r \<and>
    (case r of
       Inl err \<Rightarrow> err = kBindingFailure \<and> None \<in> snd ` set entries
     | Inr es \<Rightarrow> None \<notin> snd ` set entries \<and>
         (\<exists>new. es = found @ new \<and> (\<forall>e \<in> set new. \<exists>i \<in> instance_directories entries. found_instance identifier i e) \<and>
            (\<forall>i \<in> instance_directories entries. \<exists>e \<in> set new. found_instance identifier i e)))"
proof (induction entries arbitrary: found)
  case Nil
  then show ?case by (simp add: instance_directories_def)
next
  case (Cons x entries)
  obtain name t where x: "x = (name, t)" by (cases x)
  show ?case
  proof (cases "t = Some kDirectory \<and> from_chars_u16 name \<noteq> None")
    case False
    show ?thesis
    proof (cases t)
      case None
      then show ?thesis by (simp add: x)
    next
      case (Some u)
      with False Cons.IH [of found] show ?thesis
        by (auto simp: x ConvertFromStringToInstanceId_def instance_directories_Cons split: sum.splits option.splits)
    qed
  next
    case True
    then obtain i where i: "t = Some kDirectory" "from_chars_u16 name = Some i" by auto
    define e where "e = EnrichedInstanceIdentifier_with_quality
      \<lparr>GetInstanceIdentifier = identifier, GetInstanceId = Some i, GetQualityType = asilLevel identifier\<rparr>
      (ParseQualityTypeFromString name)"
    have e: "found_instance identifier i e" by (simp add: e_def found_instance_def)
    have run: "GatherExistingInstanceDirectories_loop identifier (x # entries) found =
        GatherExistingInstanceDirectories_loop identifier entries (found @ [e])"
      using i assms by (simp add: x ConvertFromStringToInstanceId_def EnrichedInstanceIdentifier_with_id_def
          contract_simps e_def)
    from Cons.IH [of "found @ [e]"] obtain r where
      r: "GatherExistingInstanceDirectories_loop identifier entries (found @ [e]) = Some r"
      "case r of
         Inl err \<Rightarrow> err = kBindingFailure \<and> None \<in> snd ` set entries
       | Inr es \<Rightarrow> None \<notin> snd ` set entries \<and>
           (\<exists>new. es = (found @ [e]) @ new \<and>
              (\<forall>e \<in> set new. \<exists>i \<in> instance_directories entries. found_instance identifier i e) \<and>
              (\<forall>i \<in> instance_directories entries. \<exists>e \<in> set new. found_instance identifier i e))"
      by blast
    show ?thesis
    proof (cases r)
      case (Inl err)
      with r run show ?thesis by simp
    next
      case (Inr es)
      with r(2) obtain new where new: "None \<notin> snd ` set entries" "es = found @ (e # new)"
        "\<forall>e \<in> set new. \<exists>i \<in> instance_directories entries. found_instance identifier i e"
        "\<forall>i \<in> instance_directories entries. \<exists>e \<in> set new. found_instance identifier i e"
        by auto
      have dirs: "instance_directories (x # entries) = insert i (instance_directories entries)"
        using i by (simp add: x instance_directories_Cons)
      have "(\<forall>e \<in> set (e # new). \<exists>i \<in> instance_directories (x # entries). found_instance identifier i e) \<and>
          (\<forall>i \<in> instance_directories (x # entries). \<exists>e \<in> set (e # new). found_instance identifier i e)"
        using new(3,4) e unfolding dirs by auto
      with new(1,2) i(1) r(1) Inr run show ?thesis by (auto simp: x)
    qed
  qed
qed

lemma Gather_outcome:
  assumes "GetInstanceId e = None" and "deployed_instance_id (GetInstanceIdentifier e) = None"
  shows "\<exists>r. GatherExistingInstanceDirectories os e w = Some r \<and>
    (\<forall>err. r = Inl err \<longrightarrow> err = kBindingFailure \<and>
       None \<in> snd ` set (os_entries os (GetSearchPathForIdentifier e) w)) \<and>
    (\<forall>es. r = Inr es \<longrightarrow> None \<notin> snd ` set (os_entries os (GetSearchPathForIdentifier e) w) \<and>
       (\<forall>x \<in> set es. \<exists>i \<in> instance_directories (os_entries os (GetSearchPathForIdentifier e) w).
          found_instance (GetInstanceIdentifier e) i x) \<and>
       (\<forall>i \<in> instance_directories (os_entries os (GetSearchPathForIdentifier e) w).
          \<exists>x \<in> set es. found_instance (GetInstanceIdentifier e) i x))"
proof -
  let ?entries = "os_entries os (GetSearchPathForIdentifier e) w"
  have run: "GatherExistingInstanceDirectories os e w =
      GatherExistingInstanceDirectories_loop (GetInstanceIdentifier e) ?entries []"
    using assms(1) by (simp add: GatherExistingInstanceDirectories_def GetBindingSpecificInstanceId_def contract_simps)
  show ?thesis
    unfolding run using Gather_loop [OF assms(2), of ?entries "[]"] by (elim exE conjE) (auto split: sum.splits)
qed

lemma found_instance_ids: "found_instance identifier i e \<Longrightarrow> GetBindingSpecificServiceId e = deployed_service_id identifier"
  by (simp add: found_instance_def GetBindingSpecificServiceId_def)

text \<open>The identifier of one instance of the service that \<open>e\<close> searches for.\<close>

definition instance_of :: "enriched_instance_identifier \<Rightarrow> u16 \<Rightarrow> enriched_instance_identifier" where
  "instance_of e i = e\<lparr>GetInstanceId := Some i\<rparr>"

lemma offered_in_cong:
  assumes "GetBindingSpecificServiceId e = GetBindingSpecificServiceId e'" and "GetInstanceId e = GetInstanceId e'"
  shows "offered_in os w e = offered_in os w e'"
proof -
  have "GetSearchPathForIdentifier e = GetSearchPathForIdentifier e'"
    using assms by (simp add: search_path_inject)
  then show ?thesis by (simp add: offered_in_def fun_eq_iff)
qed

text \<open>The instances that a search for \<open>e\<close> can meet.\<close>

definition candidates :: "'w discovery_os \<Rightarrow> 'w \<Rightarrow> enriched_instance_identifier \<Rightarrow> u16 set" where
  "candidates os w e =
     (case GetInstanceId e of
        Some i \<Rightarrow> {i}
      | None \<Rightarrow> instance_directories (os_entries os (GetSearchPathForIdentifier e) w))"

definition offers :: "'w discovery_os \<Rightarrow> 'w \<Rightarrow> enriched_instance_identifier \<Rightarrow> QualityType \<Rightarrow> (u16 \<times> u16) set" where
  "offers os w e q =
     {(s, i). s = GetBindingSpecificServiceId e \<and> i \<in> candidates os w e \<and> offered_in os w (instance_of e i) q}"

lemma watch_instances_none [simp]: "watch_instances os False es ws w = (Inr ws, w)"
  by (induction es) simp_all

lemma Crawl_outcome:
  assumes "GetInstanceId e = None \<longrightarrow> deployed_instance_id (GetInstanceIdentifier e) = None"
  shows "\<exists>r. Crawl os e w = Some (r, w) \<and>
    (case r of
       Inl err \<Rightarrow> err = kBindingFailure \<and> GetInstanceId e = None \<and>
         None \<in> snd ` set (os_entries os (GetSearchPathForIdentifier e) w)
     | Inr known \<Rightarrow>
         (GetInstanceId e = None \<longrightarrow> None \<notin> snd ` set (os_entries os (GetSearchPathForIdentifier e) w)) \<and>
         (\<forall>q. q \<noteq> kInvalid \<longrightarrow> known_of q known = offers os w e q))"
proof (cases "GetInstanceId e")
  case (Some i)
  then have b: "GetBindingSpecificInstanceId e = Some i" by (simp add: GetBindingSpecificInstanceId_def)
  have same: "offered_in os w (instance_of e i) = offered_in os w e"
    using Some by (intro offered_in_cong) (simp_all add: instance_of_def GetBindingSpecificServiceId_def)
  have "known_of q (MapInstancesToQualityTypes os w [EnrichedInstanceIdentifier_with_quality e kInvalid] no_instances)
      = offers os w e q" if "q \<noteq> kInvalid" for q
    using that Some by (auto simp: known_of_MapInstances offers_def candidates_def same)
  with Some b show ?thesis by (simp add: Crawl_def CrawlAndWatch_def Let_def)
next
  case None
  let ?entries = "os_entries os (GetSearchPathForIdentifier e) w"
  have b: "GetBindingSpecificInstanceId e = None" using None by (simp add: GetBindingSpecificInstanceId_def)
  let ?u = "EnrichedInstanceIdentifier_with_quality e kInvalid"
  from Gather_outcome [of ?u os w] assms None obtain r where
    gather: "GatherExistingInstanceDirectories os ?u w = Some r"
    and err: "\<And>err. r = Inl err \<Longrightarrow> err = kBindingFailure \<and> None \<in> snd ` set ?entries"
    and es: "\<And>es. r = Inr es \<Longrightarrow> None \<notin> snd ` set ?entries \<and>
       (\<forall>x \<in> set es. \<exists>i \<in> instance_directories ?entries. found_instance (GetInstanceIdentifier e) i x) \<and>
       (\<forall>i \<in> instance_directories ?entries. \<exists>x \<in> set es. found_instance (GetInstanceIdentifier e) i x)"
    by auto
  show ?thesis
  proof (cases r)
    case (Inl err)
    with gather err b None show ?thesis by (simp add: Crawl_def CrawlAndWatch_def Let_def)
  next
    case (Inr es)
    have same: "offered_in os w x = offered_in os w (instance_of e i) \<and>
        GetBindingSpecificServiceId x = GetBindingSpecificServiceId e \<and> GetInstanceId x = Some i"
      if "found_instance (GetInstanceIdentifier e) i x" for x i
      using that offered_in_cong [of x "instance_of e i"]
      by (auto simp: found_instance_def instance_of_def GetBindingSpecificServiceId_def)
    have "known_of q (MapInstancesToQualityTypes os w es no_instances) = offers os w e q" if "q \<noteq> kInvalid" for q
      using that es [OF Inr] same None by (fastforce simp: known_of_MapInstances offers_def candidates_def)
    with Inr gather b None es [OF Inr] show ?thesis by (simp add: Crawl_def CrawlAndWatch_def Let_def)
  qed
qed

end
