(* ===== verification/Service_Discovery_Client.thy ===== *)
theory Service_Discovery_Client
  imports Flag_Files
begin

text \<open>
  \<open>ServiceDiscoveryClient\<close> (service_discovery_client.h/.cpp): offering services by flag files, and
  searching for services by crawling and watching the directories of flag files.

  \<^item> A search request has the watches it is linked with, its handler, the identifier it searches
    for and the handles that its handler was told last. A watch has the identifier of its directory
    and the searches it is linked with. \<open>watched_identifiers\<close> finds the watch of an identifier.
  \<^item> Maps are maps; an unordered set is the list of its members in the order of insertion.
  \<^item> The worker thread and the calling threads exclude each other by one recursive mutex, so an
    operation is one step. \<open>HandleEvents\<close> is the body of the loop of the worker thread, applied to
    the result of one \<open>Read()\<close>; \<open>None\<close> is an error of \<open>Read()\<close>.
  \<^item> \<open>find_calls\<close> records the calls of the handlers. A handler runs while the mutex is held and may
    call back: \<open>stops\<close> says which searches it stops by \<open>StopFindService\<close>. That a handler starts
    another search is not modelled.
  \<^item> \<open>system\<close> is the state of the file system and of inotify, behind the operations of
    \<open>discovery_os\<close>.
\<close>

record 'h search_request =
  sr_watches :: "int list"
  sr_handler :: 'h
  sr_identifier :: enriched_instance_identifier
  previous_handles :: "handle_type set"

record watch =
  watch_identifier :: enriched_instance_identifier
  find_service_handles :: "u64 list"

record identifier_watches =
  main_watch :: "int option"
  child_watches :: "int list"

record ('h, 'w) discovery_client =
  offer_disambiguator :: int
  flag_files :: "instance_identifier \<rightharpoonup> flag_file option quality_aware_container"
  search_requests :: "u64 \<rightharpoonup> 'h search_request"
  obsolete_search_requests :: "u64 list"
  watches :: "int \<rightharpoonup> watch"
  watched_identifiers :: "lola_service_instance_identifier \<rightharpoonup> identifier_watches"
  known_instances :: "known_instances_container quality_aware_container"
  find_calls :: "('h \<times> handle_type list \<times> u64) list"
  system :: 'w

record inotify_event =
  event_watch :: int
  in_q_overflow :: bool
  in_ignored :: bool
  in_delete :: bool
  in_create :: bool
  event_name :: string

definition ServiceDiscoveryClient :: "int \<Rightarrow> 'w \<Rightarrow> ('h, 'w) discovery_client" where
  "ServiceDiscoveryClient time_since_epoch w =
     \<lparr>offer_disambiguator = time_since_epoch, flag_files = Map.empty, search_requests = Map.empty,
      obsolete_search_requests = [], watches = Map.empty, watched_identifiers = Map.empty,
      known_instances = no_instances, find_calls = [], system = w\<rparr>"

definition set_insert :: "'a \<Rightarrow> 'a list \<Rightarrow> 'a list" where
  "set_insert x xs = (if x \<in> set xs then xs else xs @ [x])"

subsection \<open>Offering\<close>

definition no_flag_files :: "flag_file option quality_aware_container" where
  "no_flag_files = \<lparr>asil_b = None, asil_qm = None\<rparr>"

definition destroy_flag_file :: "'w discovery_os \<Rightarrow> flag_file option \<Rightarrow> 'w \<Rightarrow> 'w run" where
  "destroy_flag_file os f w = (case f of None \<Rightarrow> Some w | Some f \<Rightarrow> FlagFile_destroy os f w)"

definition destroy_flag_files :: "'w discovery_os \<Rightarrow> flag_file option quality_aware_container \<Rightarrow> 'w \<Rightarrow> 'w run" where
  "destroy_flag_files os fs w = do {
     w \<leftarrow> destroy_flag_file os (asil_qm fs) w;
     destroy_flag_file os (asil_b fs) w }"

text \<open>The case for QM, which the case for ASIL-B falls through to with its own flag file in \<open>fs\<close>.\<close>

definition offer_qm ::
    "'w discovery_os \<Rightarrow> enriched_instance_identifier \<Rightarrow> int \<Rightarrow> flag_file option quality_aware_container \<Rightarrow> 'w \<Rightarrow>
     (flag_file option quality_aware_container result \<times> 'w) run" where
  "offer_qm os e disambiguator fs w =
     (let (made, w) = FlagFile_Make os (EnrichedInstanceIdentifier_with_quality e kASIL_QM) disambiguator w
      in case made of
           Inl _ \<Rightarrow> do { w \<leftarrow> destroy_flag_files os fs w; Some (Inl kServiceNotOffered, w) }
         | Inr f \<Rightarrow> Some (Inr (fs\<lparr>asil_qm := Some f\<rparr>), w))"

definition OfferService ::
    "'w discovery_os \<Rightarrow> instance_identifier \<Rightarrow> ('h, 'w) discovery_client \<Rightarrow>
     (result_blank \<times> ('h, 'w) discovery_client) run" where
  "OfferService os instance_identifier c = do {
     let e = EnrichedInstanceIdentifier instance_identifier;
     amp_require (GetBindingSpecificInstanceId e \<noteq> None);
     let disambiguator = offer_disambiguator c + 1;
     let c = c\<lparr>offer_disambiguator := disambiguator\<rparr>;
     if flag_files c instance_identifier \<noteq> None then Some (Inl kBindingFailure, c)
     else do {
       (offered, w) \<leftarrow>
         (case GetQualityType e of
            kASIL_B \<Rightarrow>
              (let (made, w) = FlagFile_Make os (EnrichedInstanceIdentifier_with_quality e kASIL_B) disambiguator (system c)
               in case made of
                    Inl _ \<Rightarrow> Some (Inl kServiceNotOffered, w)
                  | Inr f \<Rightarrow> offer_qm os e disambiguator (no_flag_files\<lparr>asil_b := Some f\<rparr>) w)
          | kASIL_QM \<Rightarrow> offer_qm os e disambiguator no_flag_files (system c)
          | kInvalid \<Rightarrow> Some (Inl kBindingFailure, system c));
       let c = c\<lparr>system := w\<rparr>;
       (case offered of
          Inl err \<Rightarrow> Some (Inl err, c)
        | Inr fs \<Rightarrow> Some (Inr (), c\<lparr>flag_files := (flag_files c)(instance_identifier \<mapsto> fs)\<rparr>)) } }"

datatype QualityTypeSelector = kBoth | kAsilQm

definition StopOfferService ::
    "'w discovery_os \<Rightarrow> instance_identifier \<Rightarrow> QualityTypeSelector \<Rightarrow> ('h, 'w) discovery_client \<Rightarrow>
     (result_blank \<times> ('h, 'w) discovery_client) run" where
  "StopOfferService os instance_identifier quality_type_selector c = do {
     amp_require (GetBindingSpecificInstanceId (EnrichedInstanceIdentifier instance_identifier) \<noteq> None);
     (case flag_files c instance_identifier of
        None \<Rightarrow> Some (Inl kBindingFailure, c)
      | Some fs \<Rightarrow>
          (case quality_type_selector of
             kBoth \<Rightarrow> do {
               w \<leftarrow> destroy_flag_files os fs (system c);
               Some (Inr (), c\<lparr>flag_files := (flag_files c)(instance_identifier := None), system := w\<rparr>) }
           | kAsilQm \<Rightarrow> do {
               w \<leftarrow> destroy_flag_file os (asil_qm fs) (system c);
               Some (Inr (), c\<lparr>flag_files := (flag_files c)(instance_identifier \<mapsto> fs\<lparr>asil_qm := None\<rparr>),
                               system := w\<rparr>) })) }"

subsection \<open>Watches and their links\<close>

definition StoreWatch ::
    "int \<Rightarrow> enriched_instance_identifier \<Rightarrow> ('h, 'w) discovery_client \<Rightarrow> ('h, 'w) discovery_client" where
  "StoreWatch watch_descriptor e c =
     (let identifier = LolaServiceInstanceIdentifier e;
          c = (if watches c watch_descriptor = None
               then c\<lparr>watches := (watches c)(watch_descriptor \<mapsto>
                        \<lparr>watch_identifier = e, find_service_handles = []\<rparr>)\<rparr>
               else c);
          c = (if watched_identifiers c identifier = None
               then c\<lparr>watched_identifiers := (watched_identifiers c)(identifier \<mapsto>
                        \<lparr>main_watch = Some watch_descriptor, child_watches = []\<rparr>)\<rparr>
               else c)
      in if snd identifier = None then c
         else let any_identifier = LolaServiceInstanceIdentifier_any (fst identifier)
              in c\<lparr>watched_identifiers := (watched_identifiers c)(any_identifier \<mapsto>
                     (case watched_identifiers c any_identifier of
                        None \<Rightarrow> \<lparr>main_watch = None, child_watches = [watch_descriptor]\<rparr>
                      | Some iw \<Rightarrow> iw\<lparr>child_watches := set_insert watch_descriptor (child_watches iw)\<rparr>))\<rparr>)"

definition EraseWatch :: "int \<Rightarrow> ('h, 'w) discovery_client \<Rightarrow> ('h, 'w) discovery_client run" where
  "EraseWatch watch_descriptor c = do {
     entry \<leftarrow> watches c watch_descriptor;
     amp_require (find_service_handles entry = []);
     let identifier = LolaServiceInstanceIdentifier (watch_identifier entry);
     let wi = watched_identifiers c;
     let wi = (if snd identifier \<noteq> None then
                 (let wi = wi(identifier := None);
                      any_identifier = LolaServiceInstanceIdentifier_any (fst identifier)
                  in case wi any_identifier of
                       None \<Rightarrow> wi
                     | Some iw \<Rightarrow> wi(any_identifier \<mapsto> iw\<lparr>child_watches := removeAll watch_descriptor (child_watches iw)\<rparr>))
               else (case wi identifier of
                       None \<Rightarrow> wi
                     | Some iw \<Rightarrow> wi(identifier \<mapsto> iw\<lparr>main_watch := None\<rparr>)));
     Some (c\<lparr>watched_identifiers := wi, watches := (watches c)(watch_descriptor := None)\<rparr>) }"

definition LinkWatchWithSearchRequest ::
    "int \<Rightarrow> u64 \<Rightarrow> ('h, 'w) discovery_client \<Rightarrow> ('h, 'w) discovery_client run" where
  "LinkWatchWithSearchRequest watch_descriptor search_key c = do {
     entry \<leftarrow> watches c watch_descriptor;
     request \<leftarrow> search_requests c search_key;
     amp_require (search_key \<notin> set (find_service_handles entry));
     amp_require (watch_descriptor \<notin> set (sr_watches request));
     Some (c\<lparr>watches := (watches c)(watch_descriptor \<mapsto>
               entry\<lparr>find_service_handles := find_service_handles entry @ [search_key]\<rparr>),
             search_requests := (search_requests c)(search_key \<mapsto>
               request\<lparr>sr_watches := sr_watches request @ [watch_descriptor]\<rparr>)\<rparr>) }"

definition UnlinkWatchWithSearchRequest ::
    "int \<Rightarrow> u64 \<Rightarrow> ('h, 'w) discovery_client \<Rightarrow> ('h, 'w) discovery_client run" where
  "UnlinkWatchWithSearchRequest watch_descriptor search_key c = do {
     entry \<leftarrow> watches c watch_descriptor;
     request \<leftarrow> search_requests c search_key;
     amp_require (search_key \<in> set (find_service_handles entry));
     amp_require (watch_descriptor \<in> set (sr_watches request));
     Some (c\<lparr>watches := (watches c)(watch_descriptor \<mapsto>
               entry\<lparr>find_service_handles := removeAll search_key (find_service_handles entry)\<rparr>),
             search_requests := (search_requests c)(search_key \<mapsto>
               request\<lparr>sr_watches := removeAll watch_descriptor (sr_watches request)\<rparr>)\<rparr>) }"

definition remove_known :: "enriched_instance_identifier \<Rightarrow> ('h, 'w) discovery_client \<Rightarrow> ('h, 'w) discovery_client" where
  "remove_known e c =
     c\<lparr>known_instances := \<lparr>asil_b = Remove e (asil_b (known_instances c)),
                         asil_qm = Remove e (asil_qm (known_instances c))\<rparr>\<rparr>"

definition merge_known ::
    "known_instances_container quality_aware_container \<Rightarrow> ('h, 'w) discovery_client \<Rightarrow> ('h, 'w) discovery_client" where
  "merge_known found c = c\<lparr>known_instances := merge_instances (known_instances c) found\<rparr>"

subsection \<open>Starting and stopping a search\<close>

definition StopFindService :: "u64 \<Rightarrow> ('h, 'w) discovery_client \<Rightarrow> result_blank \<times> ('h, 'w) discovery_client" where
  "StopFindService find_service_handle c =
     (Inr (), c\<lparr>obsolete_search_requests := set_insert find_service_handle (obsolete_search_requests c)\<rparr>)"

fun link_watches ::
    "u64 \<Rightarrow> watch_descriptors \<Rightarrow> ('h, 'w) discovery_client \<Rightarrow> ('h, 'w) discovery_client run" where
  "link_watches search_key [] c = Some c"
| "link_watches search_key ((wd, e) # ws) c = do {
     c \<leftarrow> LinkWatchWithSearchRequest wd search_key (StoreWatch wd e c);
     link_watches search_key ws c }"

definition TransferNewSearchRequest ::
    "u64 \<Rightarrow> enriched_instance_identifier \<Rightarrow> watch_descriptors \<Rightarrow> 'h \<Rightarrow>
     known_instances_container quality_aware_container \<Rightarrow> handle_type set \<Rightarrow>
     ('h, 'w) discovery_client \<Rightarrow> ('h, 'w) discovery_client run" where
  "TransferNewSearchRequest find_service_handle e ws handler found handles c = do {
     amp_require (search_requests c find_service_handle = None);
     let c = c\<lparr>search_requests := (search_requests c)(find_service_handle \<mapsto>
               \<lparr>sr_watches = [], sr_handler = handler, sr_identifier = e, previous_handles = handles\<rparr>)\<rparr>;
     c \<leftarrow> link_watches find_service_handle ws c;
     Some (merge_known found c) }"

definition call_handler ::
    "('h \<Rightarrow> handle_type list \<Rightarrow> u64 \<Rightarrow> u64 list) \<Rightarrow> 'h \<Rightarrow> handle_type list \<Rightarrow> u64 \<Rightarrow>
     ('h, 'w) discovery_client \<Rightarrow> ('h, 'w) discovery_client" where
  "call_handler stops handler handles find_service_handle c =
     fold (\<lambda>k c. snd (StopFindService k c)) (stops handler handles find_service_handle)
       (c\<lparr>find_calls := find_calls c @ [(handler, handles, find_service_handle)]\<rparr>)"

text \<open>The watches of a search that is in progress already, by the lambda \<open>add_watch\<close>.\<close>

fun reuse_watches :: "int list \<Rightarrow> watch_descriptors \<Rightarrow> ('h, 'w) discovery_client \<Rightarrow> watch_descriptors run" where
  "reuse_watches [] ws c = Some ws"
| "reuse_watches (wd # wds) ws c = do {
     entry \<leftarrow> watches c wd;
     reuse_watches wds (emplace_watch wd (watch_identifier entry) ws) c }"

definition main_watch_of ::
    "enriched_instance_identifier \<Rightarrow> ('h, 'w) discovery_client \<Rightarrow> (int \<times> int list) option" where
  "main_watch_of e c =
     (case watched_identifiers c (LolaServiceInstanceIdentifier e) of
        None \<Rightarrow> None
      | Some iw \<Rightarrow> (case main_watch iw of None \<Rightarrow> None | Some wd \<Rightarrow> Some (wd, child_watches iw)))"

definition StartFindService ::
    "'w discovery_os \<Rightarrow> ('h \<Rightarrow> handle_type list \<Rightarrow> u64 \<Rightarrow> u64 list) \<Rightarrow> u64 \<Rightarrow> 'h \<Rightarrow> enriched_instance_identifier \<Rightarrow>
     ('h, 'w) discovery_client \<Rightarrow> (result_blank \<times> ('h, 'w) discovery_client) run" where
  "StartFindService os stops find_service_handle handler e c = do {
     (found, c) \<leftarrow>
       (case main_watch_of e c of
          Some (wd, children) \<Rightarrow> do {
            known_handles \<leftarrow> GetKnownHandles_of_quality e (known_instances c);
            ws \<leftarrow> reuse_watches (wd # children) [] c;
            Some (Inr (known_handles, ws, no_instances), c) }
        | None \<Rightarrow> do {
            (crawler_result, w) \<leftarrow> CrawlAndWatch os True e (system c);
            let c = c\<lparr>system := w\<rparr>;
            (case crawler_result of
               Inl _ \<Rightarrow> Some (Inl kBindingFailure, c)
             | Inr (ws, found_known_instances) \<Rightarrow> do {
                 known_handles \<leftarrow> GetKnownHandles_of_quality e found_known_instances;
                 Some (Inr (known_handles, ws, found_known_instances), c) }) });
     (case found of
        Inl err \<Rightarrow> Some (Inl err, c)
      | Inr (known_handles, ws, found_known) \<Rightarrow> do {
          c \<leftarrow> TransferNewSearchRequest find_service_handle e ws handler found_known (set known_handles) c;
          Some (Inr (), if known_handles \<noteq> [] then call_handler stops handler known_handles find_service_handle c
                        else c) }) }"

definition FindService ::
    "'w discovery_os \<Rightarrow> enriched_instance_identifier \<Rightarrow> ('h, 'w) discovery_client \<Rightarrow>
     (handle_type list result \<times> ('h, 'w) discovery_client) run" where
  "FindService os e c = do {
     (crawler_result, w) \<leftarrow> Crawl os e (system c);
     let c = c\<lparr>system := w\<rparr>;
     (case crawler_result of
        Inl _ \<Rightarrow> Some (Inl kBindingFailure, c)
      | Inr known \<Rightarrow> do {
          handles \<leftarrow> GetKnownHandles_of_quality e known;
          Some (Inr handles, c) }) }"

subsection \<open>The worker thread\<close>

fun TransferObsoleteSearchRequest_loop ::
    "'w discovery_os \<Rightarrow> u64 \<Rightarrow> int list \<Rightarrow> ('h, 'w) discovery_client \<Rightarrow> ('h, 'w) discovery_client run" where
  "TransferObsoleteSearchRequest_loop os search_key [] c = Some c"
| "TransferObsoleteSearchRequest_loop os search_key (wd # wds) c =
     (if watches c wd = None then TransferObsoleteSearchRequest_loop os search_key wds c
      else do {
        c \<leftarrow> UnlinkWatchWithSearchRequest wd search_key c;
        entry \<leftarrow> watches c wd;
        c \<leftarrow> (if find_service_handles entry = [] then
                (let c = remove_known (watch_identifier entry) c;
                     c = c\<lparr>system := os_remove_watch os wd (system c)\<rparr>
                 in EraseWatch wd c)
              else Some c);
        TransferObsoleteSearchRequest_loop os search_key wds c })"

definition TransferObsoleteSearchRequest ::
    "'w discovery_os \<Rightarrow> u64 \<Rightarrow> ('h, 'w) discovery_client \<Rightarrow> ('h, 'w) discovery_client run" where
  "TransferObsoleteSearchRequest os find_service_handle c =
     (case search_requests c find_service_handle of
        None \<Rightarrow> Some c
      | Some request \<Rightarrow> do {
          c \<leftarrow> TransferObsoleteSearchRequest_loop os find_service_handle (sr_watches request) c;
          Some (c\<lparr>search_requests := (search_requests c)(find_service_handle := None)\<rparr>) })"

definition TransferObsoleteSearchRequests ::
    "'w discovery_os \<Rightarrow> ('h, 'w) discovery_client \<Rightarrow> ('h, 'w) discovery_client run" where
  "TransferObsoleteSearchRequests os c = do {
     c \<leftarrow> fold_run (TransferObsoleteSearchRequest os) (obsolete_search_requests c) c;
     Some (c\<lparr>obsolete_search_requests := []\<rparr>) }"

fun CallHandlers ::
    "('h \<Rightarrow> handle_type list \<Rightarrow> u64 \<Rightarrow> u64 list) \<Rightarrow> u64 list \<Rightarrow> ('h, 'w) discovery_client \<Rightarrow>
     ('h, 'w) discovery_client run" where
  "CallHandlers stops [] c = Some c"
| "CallHandlers stops (search_key # keys) c =
     (case search_requests c search_key of
        None \<Rightarrow> CallHandlers stops keys c
      | Some request \<Rightarrow>
          if search_key \<in> set (obsolete_search_requests c) then CallHandlers stops keys c
          else do {
            known_handles \<leftarrow> GetKnownHandles_of_quality (sr_identifier request) (known_instances c);
            if previous_handles request = set known_handles then CallHandlers stops keys c
            else do {
              let c = c\<lparr>search_requests := (search_requests c)(search_key \<mapsto>
                        request\<lparr>previous_handles := set known_handles\<rparr>)\<rparr>;
              CallHandlers stops keys (call_handler stops (sr_handler request) known_handles search_key c) } })"

definition OnInstanceFlagFileCreated ::
    "enriched_instance_identifier \<Rightarrow> string \<Rightarrow> ('h, 'w) discovery_client \<Rightarrow> ('h, 'w) discovery_client" where
  "OnInstanceFlagFileCreated e name c =
     c\<lparr>known_instances := at_quality (ParseQualityTypeFromString name) (\<lambda>k. snd (Insert e k)) (known_instances c)\<rparr>"

definition OnInstanceFlagFileRemoved ::
    "enriched_instance_identifier \<Rightarrow> string \<Rightarrow> ('h, 'w) discovery_client \<Rightarrow> ('h, 'w) discovery_client" where
  "OnInstanceFlagFileRemoved e name c =
     c\<lparr>known_instances := at_quality (ParseQualityTypeFromString name) (Remove e) (known_instances c)\<rparr>"

definition OnInstanceDirectoryCreated ::
    "'w discovery_os \<Rightarrow> watch \<Rightarrow> string \<Rightarrow> ('h, 'w) discovery_client \<Rightarrow> ('h, 'w) discovery_client run" where
  "OnInstanceDirectoryCreated os entry name c =
     (case ConvertFromStringToInstanceId name of
        Inl _ \<Rightarrow> Some c
      | Inr i \<Rightarrow> do {
          e \<leftarrow> EnrichedInstanceIdentifier_with_id (GetInstanceIdentifier (watch_identifier entry)) i;
          (crawler_result, w) \<leftarrow> CrawlAndWatch os True e (system c);
          let c = c\<lparr>system := w\<rparr>;
          (case crawler_result of
             Inl _ \<Rightarrow> None
           | Inr (ws, found_known) \<Rightarrow> do {
               amp_require (length ws = 1);
               let (wd, e) = hd ws;
               c \<leftarrow> fold_run (LinkWatchWithSearchRequest wd) (find_service_handles entry) (StoreWatch wd e c);
               Some (merge_known found_known c) }) })"

definition insert_all :: "u64 list \<Rightarrow> u64 list \<Rightarrow> u64 list" where
  "insert_all new impacted = fold set_insert new impacted"

fun HandleDeletionEvents_loop ::
    "inotify_event list \<Rightarrow> u64 list \<Rightarrow> ('h, 'w) discovery_client \<Rightarrow> (u64 list \<times> ('h, 'w) discovery_client) run" where
  "HandleDeletionEvents_loop [] impacted c = Some (impacted, c)"
| "HandleDeletionEvents_loop (ev # evs) impacted c =
     (case watches c (event_watch ev) of
        None \<Rightarrow> HandleDeletionEvents_loop evs impacted c
      | Some entry \<Rightarrow>
          if in_delete ev then
            (if GetBindingSpecificInstanceId (watch_identifier entry) \<noteq> None
             then HandleDeletionEvents_loop evs (insert_all (find_service_handles entry) impacted)
                    (OnInstanceFlagFileRemoved (watch_identifier entry) (event_name ev) c)
             else None)
          else HandleDeletionEvents_loop evs impacted c)"

definition HandleDeletionEvents ::
    "('h \<Rightarrow> handle_type list \<Rightarrow> u64 \<Rightarrow> u64 list) \<Rightarrow> inotify_event list \<Rightarrow> ('h, 'w) discovery_client \<Rightarrow>
     ('h, 'w) discovery_client run" where
  "HandleDeletionEvents stops evs c = do {
     (impacted, c) \<leftarrow> HandleDeletionEvents_loop evs [] c;
     CallHandlers stops impacted c }"

text \<open>The searches of a watch are inserted after the event was handled, through a reference.\<close>

fun HandleCreationEvents_loop ::
    "'w discovery_os \<Rightarrow> inotify_event list \<Rightarrow> u64 list \<Rightarrow> ('h, 'w) discovery_client \<Rightarrow>
     (u64 list \<times> ('h, 'w) discovery_client) run" where
  "HandleCreationEvents_loop os [] impacted c = Some (impacted, c)"
| "HandleCreationEvents_loop os (ev # evs) impacted c =
     (case watches c (event_watch ev) of
        None \<Rightarrow> HandleCreationEvents_loop os evs impacted c
      | Some entry \<Rightarrow> do {
          c \<leftarrow> (if GetBindingSpecificInstanceId (watch_identifier entry) \<noteq> None
                then Some (OnInstanceFlagFileCreated (watch_identifier entry) (event_name ev) c)
                else OnInstanceDirectoryCreated os entry (event_name ev) c);
          HandleCreationEvents_loop os evs (insert_all (find_service_handles entry) impacted) c })"

definition HandleCreationEvents ::
    "'w discovery_os \<Rightarrow> ('h \<Rightarrow> handle_type list \<Rightarrow> u64 \<Rightarrow> u64 list) \<Rightarrow> inotify_event list \<Rightarrow>
     ('h, 'w) discovery_client \<Rightarrow> ('h, 'w) discovery_client run" where
  "HandleCreationEvents os stops evs c = do {
     (impacted, c) \<leftarrow> HandleCreationEvents_loop os evs [] c;
     CallHandlers stops impacted c }"

definition inode_was_removed :: "inotify_event \<Rightarrow> bool" where
  "inode_was_removed ev \<longleftrightarrow> in_ignored ev \<or> in_delete ev"

definition HandleEvents ::
    "'w discovery_os \<Rightarrow> ('h \<Rightarrow> handle_type list \<Rightarrow> u64 \<Rightarrow> u64 list) \<Rightarrow> inotify_event list option \<Rightarrow>
     ('h, 'w) discovery_client \<Rightarrow> ('h, 'w) discovery_client run" where
  "HandleEvents os stops expected_events c = do {
     c \<leftarrow> TransferObsoleteSearchRequests os c;
     (case expected_events of
        None \<Rightarrow> Some c
      | Some evs \<Rightarrow> do {
          amp_require (\<not> list_ex in_q_overflow evs);
          let deletion_events = filter inode_was_removed evs;
          let creation_events = filter (\<lambda>ev. \<not> inode_was_removed ev \<and> in_create ev) evs;
          c \<leftarrow> HandleDeletionEvents stops deletion_events c;
          HandleCreationEvents os stops creation_events c }) }"

end
