(* ===== verification/Service_Discovery_Safety.thy ===== *)
theory Service_Discovery_Safety
  imports Service_Discovery_Client
begin

text \<open>
  The search side of the service discovery client. The lemmas follow the links between searches and
  watches, the cache of known instances and the calls of the handlers through every operation; the
  properties say that the links stay consistent, when an event ends the process, what a batch of
  events makes of the cache, whom the handlers are called for, and that a stopped search is silent.
\<close>

subsection \<open>The cache after a batch of events\<close>

text \<open>An event on the directory of instance \<open>i\<close> of service \<open>s\<close> that names a flag file of quality \<open>q\<close>.\<close>

definition flag_event ::
    "(int \<rightharpoonup> watch) \<Rightarrow> inotify_event \<Rightarrow> u16 \<times> u16 \<Rightarrow> QualityType \<Rightarrow> bool" where
  "flag_event ws ev si q \<longleftrightarrow>
     (\<exists>entry. ws (event_watch ev) = Some entry \<and>
        LolaServiceInstanceIdentifier (watch_identifier entry) = (fst si, Some (snd si)) \<and>
        ParseQualityTypeFromString (event_name ev) = q)"

text \<open>An event on the directory of a whole service.\<close>

definition directory_event :: "(int \<rightharpoonup> watch) \<Rightarrow> inotify_event \<Rightarrow> bool" where
  "directory_event ws ev \<longleftrightarrow>
     (\<exists>entry. ws (event_watch ev) = Some entry \<and> GetInstanceId (watch_identifier entry) = None)"

lemma known_of_at_quality_Insert:
  assumes "LolaServiceInstanceIdentifier e = (s, Some i)"
  shows "known_of q (at_quality r (\<lambda>k. snd (Insert e k)) known) =
    (if q = r \<and> r \<noteq> kInvalid then insert (s, i) (known_of q known) else known_of q known)"
  using assms by (cases r; cases q)
    (auto simp: at_quality_def known_of_def instances_Insert LolaServiceInstanceIdentifier_def
      GetBindingSpecificInstanceId_def)

lemma known_of_at_quality_Remove:
  assumes "LolaServiceInstanceIdentifier e = (s, Some i)"
  shows "known_of q (at_quality r (Remove e) known) =
    (if q = r \<and> r \<noteq> kInvalid then known_of q known - {(s, i)} else known_of q known)"
  using assms by (cases r; cases q)
    (auto simp: at_quality_def known_of_def instances_Remove LolaServiceInstanceIdentifier_def
      GetBindingSpecificInstanceId_def)

lemma instance_watch:
  "GetBindingSpecificInstanceId e \<noteq> None \<Longrightarrow> \<exists>s i. LolaServiceInstanceIdentifier e = (s, Some i)"
  by (auto simp: LolaServiceInstanceIdentifier_def)

text \<open>What the events leave alone: everything but the cache.\<close>

definition same_but_known :: "('h, 'w) discovery_client \<Rightarrow> ('h, 'w) discovery_client \<Rightarrow> bool" where
  "same_but_known c c' \<longleftrightarrow> (\<exists>k. c' = c\<lparr>known_instances := k\<rparr>)"

lemma same_but_known_refl [simp]: "same_but_known c c"
  unfolding same_but_known_def by (rule exI [of _ "known_instances c"]) simp

lemma same_but_known_trans: "same_but_known a b \<Longrightarrow> same_but_known b c \<Longrightarrow> same_but_known a c"
  by (auto simp: same_but_known_def)

lemma same_but_known_fields:
  assumes "same_but_known c c'"
  shows "watches c' = watches c" "search_requests c' = search_requests c" "watched_identifiers c' = watched_identifiers c"
    "obsolete_search_requests c' = obsolete_search_requests c" "find_calls c' = find_calls c" "system c' = system c"
    "flag_files c' = flag_files c" "offer_disambiguator c' = offer_disambiguator c"
  using assms by (auto simp: same_but_known_def)

text \<open>The searches that a list of events concerns, in the order in which they are met.\<close>

definition impacted_by :: "(int \<rightharpoonup> watch) \<Rightarrow> inotify_event list \<Rightarrow> u64 set" where
  "impacted_by ws evs =
     {h. \<exists>ev \<in> set evs. \<exists>entry. ws (event_watch ev) = Some entry \<and> h \<in> set (find_service_handles entry)}"

lemma impacted_by_Nil [simp]: "impacted_by ws [] = {}"
  by (simp add: impacted_by_def)

lemma impacted_by_Cons:
  "impacted_by ws (ev # evs) =
     (case ws (event_watch ev) of None \<Rightarrow> {} | Some entry \<Rightarrow> set (find_service_handles entry)) \<union> impacted_by ws evs"
  by (auto simp: impacted_by_def split: option.splits)

lemma set_insert_simps [simp]:
  "set (set_insert x xs) = insert x (set xs)" "distinct (set_insert x xs) \<longleftrightarrow> distinct xs"
  by (auto simp: set_insert_def)

lemma insert_all_simps [simp]:
  "set (insert_all new impacted) = set new \<union> set impacted" "distinct (insert_all new impacted) \<longleftrightarrow> distinct impacted"
  by (induction new arbitrary: impacted) (simp_all add: insert_all_def)

lemma HandleDeletionEvents_loop_outcome:
  assumes "\<forall>ev \<in> set evs. in_delete ev \<longrightarrow> \<not> directory_event (watches c) ev"
  shows "\<exists>imp' c'. HandleDeletionEvents_loop evs imp c = Some (imp', c') \<and> same_but_known c c' \<and>
    set imp' = set imp \<union> impacted_by (watches c) (filter in_delete evs) \<and> (distinct imp \<longrightarrow> distinct imp') \<and>
    (\<forall>q. q \<noteq> kInvalid \<longrightarrow> known_of q (known_instances c') =
       {si \<in> known_of q (known_instances c). \<not> (\<exists>ev \<in> set evs. in_delete ev \<and> flag_event (watches c) ev si q)})"
  using assms
proof (induction evs arbitrary: imp c)
  case Nil
  then show ?case by simp
next
  case (Cons ev evs)
  show ?case
  proof (cases "watches c (event_watch ev)")
    case None
    then have "\<not> flag_event (watches c) ev si q" for si q by (simp add: flag_event_def)
    with None Cons.IH [of c imp] Cons.prems show ?thesis by (simp add: impacted_by_Cons)
  next
    case (Some entry)
    show ?thesis
    proof (cases "in_delete ev")
      case False
      with Some Cons.IH [of c imp] Cons.prems show ?thesis by simp
    next
      case True
      with Cons.prems Some have inst: "GetBindingSpecificInstanceId (watch_identifier entry) \<noteq> None"
        by (auto simp: directory_event_def GetBindingSpecificInstanceId_def)
      from instance_watch [OF inst] obtain s i where si: "LolaServiceInstanceIdentifier (watch_identifier entry) = (s, Some i)"
        by blast
      let ?c = "OnInstanceFlagFileRemoved (watch_identifier entry) (event_name ev) c"
      have same: "same_but_known c ?c"
        by (auto simp: same_but_known_def OnInstanceFlagFileRemoved_def)
      note w = same_but_known_fields(1) [OF same]
      have "\<forall>ev \<in> set evs. in_delete ev \<longrightarrow> \<not> directory_event (watches ?c) ev"
        using Cons.prems by (simp add: w)
      from Cons.IH [OF this, of "insert_all (find_service_handles entry) imp"] obtain imp' c' where
        rest: "HandleDeletionEvents_loop evs (insert_all (find_service_handles entry) imp) ?c = Some (imp', c')"
          "same_but_known ?c c'"
          "set imp' = set (find_service_handles entry) \<union> set imp \<union> impacted_by (watches c) (filter in_delete evs)"
          "distinct imp \<longrightarrow> distinct imp'"
          "\<And>q. q \<noteq> kInvalid \<Longrightarrow> known_of q (known_instances c') = {si \<in> known_of q (known_instances ?c).
             \<not> (\<exists>ev \<in> set evs. in_delete ev \<and> flag_event (watches c) ev si q)}"
        unfolding w by auto
      have "known_of q (known_instances ?c) = {si \<in> known_of q (known_instances c). \<not> flag_event (watches c) ev si q}"
        if "q \<noteq> kInvalid" for q
        using si Some that by (auto simp: OnInstanceFlagFileRemoved_def known_of_at_quality_Remove [OF si] flag_event_def)
      with rest True Some inst same_but_known_trans [OF same rest(2)] show ?thesis
        by (auto simp: impacted_by_Cons)
    qed
  qed
qed

lemma HandleCreationEvents_loop_outcome:
  assumes "\<forall>ev \<in> set evs. \<not> directory_event (watches c) ev"
  shows "\<exists>imp' c'. HandleCreationEvents_loop os evs imp c = Some (imp', c') \<and> same_but_known c c' \<and>
    set imp' = set imp \<union> impacted_by (watches c) evs \<and> (distinct imp \<longrightarrow> distinct imp') \<and>
    (\<forall>q. q \<noteq> kInvalid \<longrightarrow> known_of q (known_instances c') =
       known_of q (known_instances c) \<union> {si. \<exists>ev \<in> set evs. flag_event (watches c) ev si q})"
  using assms
proof (induction evs arbitrary: imp c)
  case Nil
  then show ?case by simp
next
  case (Cons ev evs)
  show ?case
  proof (cases "watches c (event_watch ev)")
    case None
    then have "\<not> flag_event (watches c) ev si q" for si q by (simp add: flag_event_def)
    with None Cons.IH [of c imp] Cons.prems show ?thesis by (simp add: impacted_by_Cons)
  next
    case (Some entry)
    with Cons.prems have inst: "GetBindingSpecificInstanceId (watch_identifier entry) \<noteq> None"
      by (auto simp: directory_event_def GetBindingSpecificInstanceId_def)
    from instance_watch [OF inst] obtain s i where si: "LolaServiceInstanceIdentifier (watch_identifier entry) = (s, Some i)"
      by blast
    let ?c = "OnInstanceFlagFileCreated (watch_identifier entry) (event_name ev) c"
    have same: "same_but_known c ?c"
      by (auto simp: same_but_known_def OnInstanceFlagFileCreated_def)
    note w = same_but_known_fields(1) [OF same]
    have "\<forall>ev \<in> set evs. \<not> directory_event (watches ?c) ev"
      using Cons.prems by (simp add: w)
    from Cons.IH [OF this, of "insert_all (find_service_handles entry) imp"] obtain imp' c' where
      rest: "HandleCreationEvents_loop os evs (insert_all (find_service_handles entry) imp) ?c = Some (imp', c')"
        "same_but_known ?c c'"
        "set imp' = set (find_service_handles entry) \<union> set imp \<union> impacted_by (watches c) evs"
        "distinct imp \<longrightarrow> distinct imp'"
        "\<And>q. q \<noteq> kInvalid \<Longrightarrow> known_of q (known_instances c') = known_of q (known_instances ?c) \<union>
           {si. \<exists>ev \<in> set evs. flag_event (watches c) ev si q}"
      unfolding w by auto
    have "known_of q (known_instances ?c) = known_of q (known_instances c) \<union> {si. flag_event (watches c) ev si q}"
      if "q \<noteq> kInvalid" for q
      using si Some that by (auto simp: OnInstanceFlagFileCreated_def known_of_at_quality_Insert [OF si] flag_event_def)
    with rest Some inst same_but_known_trans [OF same rest(2)] show ?thesis
      by (auto simp: impacted_by_Cons)
  qed
qed

subsection \<open>The calls of the handlers\<close>

definition in_sync :: "('h, 'w) discovery_client \<Rightarrow> 'h search_request \<Rightarrow> bool" where
  "in_sync c r \<longleftrightarrow>
     previous_handles r = handles_for (sr_identifier r) (known_of (GetQualityType (sr_identifier r)) (known_instances c))"

text \<open>The requests before and after some handlers were called: they differ in the handles told.\<close>

definition told_more :: "(u64 \<rightharpoonup> 'h search_request) \<Rightarrow> (u64 \<rightharpoonup> 'h search_request) \<Rightarrow> bool" where
  "told_more rs rs' \<longleftrightarrow>
     (\<forall>h. map_option (\<lambda>r. r\<lparr>previous_handles := {}\<rparr>) (rs' h) = map_option (\<lambda>r. r\<lparr>previous_handles := {}\<rparr>) (rs h))"

lemma told_more_refl [simp]: "told_more rs rs"
  by (simp add: told_more_def)

lemma told_more_trans: "told_more a b \<Longrightarrow> told_more b c \<Longrightarrow> told_more a c"
  by (simp add: told_more_def)

lemma told_more_upd: "rs h = Some r \<Longrightarrow> told_more rs (rs(h \<mapsto> r\<lparr>previous_handles := p\<rparr>))"
  by (simp add: told_more_def)

lemma told_more_None: "told_more rs rs' \<Longrightarrow> rs' h = None \<longleftrightarrow> rs h = None"
  unfolding told_more_def by (metis map_option_is_None)

lemma told_more_Some:
  assumes "told_more rs rs'" and "rs' h = Some r'"
  shows "\<exists>r. rs h = Some r \<and> sr_handler r' = sr_handler r \<and> sr_identifier r' = sr_identifier r \<and> sr_watches r' = sr_watches r"
proof -
  obtain r where r: "rs h = Some r" using told_more_None [OF assms(1), of h] assms(2) by (cases "rs h") auto
  have "r'\<lparr>previous_handles := {}\<rparr> = r\<lparr>previous_handles := {}\<rparr>"
    using assms r unfolding told_more_def by (metis option.simps(9) option.inject)
  then show ?thesis using r by (cases r; cases r') simp
qed

lemma stop_all_frame:
  "watches (fold (\<lambda>k c. snd (StopFindService k c)) ks c) = watches c"
  "search_requests (fold (\<lambda>k c. snd (StopFindService k c)) ks c) = search_requests c"
  "watched_identifiers (fold (\<lambda>k c. snd (StopFindService k c)) ks c) = watched_identifiers c"
  "known_instances (fold (\<lambda>k c. snd (StopFindService k c)) ks c) = known_instances c"
  "find_calls (fold (\<lambda>k c. snd (StopFindService k c)) ks c) = find_calls c"
  "system (fold (\<lambda>k c. snd (StopFindService k c)) ks c) = system c"
  "set (obsolete_search_requests (fold (\<lambda>k c. snd (StopFindService k c)) ks c)) = set ks \<union> set (obsolete_search_requests c)"
  by (induction ks arbitrary: c) (simp_all add: StopFindService_def)

lemma call_handler_frame [simp]:
  "watches (call_handler stops f hs h c) = watches c"
  "search_requests (call_handler stops f hs h c) = search_requests c"
  "watched_identifiers (call_handler stops f hs h c) = watched_identifiers c"
  "known_instances (call_handler stops f hs h c) = known_instances c"
  "find_calls (call_handler stops f hs h c) = find_calls c @ [(f, hs, h)]"
  "system (call_handler stops f hs h c) = system c"
  "set (obsolete_search_requests (call_handler stops f hs h c)) =
     set (stops f hs h) \<union> set (obsolete_search_requests c)"
  by (simp_all add: call_handler_def stop_all_frame)

text \<open>A call that is due: the search is active and was told other handles than are known now.\<close>

definition due_call :: "('h, 'w) discovery_client \<Rightarrow> 'h \<times> handle_type list \<times> u64 \<Rightarrow> bool" where
  "due_call c = (\<lambda>(f, hs, h). h \<notin> set (obsolete_search_requests c) \<and>
     (\<exists>r. search_requests c h = Some r \<and> f = sr_handler r \<and> \<not> in_sync c r \<and> distinct hs \<and>
        set hs = handles_for (sr_identifier r) (known_of (GetQualityType (sr_identifier r)) (known_instances c))))"

text \<open>No search is called after an earlier call has stopped it.\<close>

fun obeys_stops :: "('h \<Rightarrow> handle_type list \<Rightarrow> u64 \<Rightarrow> u64 list) \<Rightarrow> u64 set \<Rightarrow> ('h \<times> handle_type list \<times> u64) list \<Rightarrow> bool" where
  "obeys_stops stops stopped [] \<longleftrightarrow> True"
| "obeys_stops stops stopped ((f, hs, h) # calls) \<longleftrightarrow>
     h \<notin> stopped \<and> obeys_stops stops (set (stops f hs h) \<union> stopped) calls"

definition valid_requests :: "(u64 \<rightharpoonup> 'h search_request) \<Rightarrow> bool" where
  "valid_requests rs \<longleftrightarrow> (\<forall>h r. rs h = Some r \<longrightarrow> GetQualityType (sr_identifier r) \<noteq> kInvalid)"

definition called :: "('h \<times> handle_type list \<times> u64) list \<Rightarrow> u64 set" where
  "called calls = (\<lambda>(f, hs, h). h) ` set calls"

lemma called_simps [simp]: "called [] = {}" "called ((f, hs, h) # calls) = insert h (called calls)"
  by (simp_all add: called_def)

text \<open>What a round of calls over \<open>keys\<close> has done, with the calls it made.\<close>

definition handlers_told ::
    "('h \<Rightarrow> handle_type list \<Rightarrow> u64 \<Rightarrow> u64 list) \<Rightarrow> u64 list \<Rightarrow> ('h, 'w) discovery_client \<Rightarrow>
     ('h \<times> handle_type list \<times> u64) list \<Rightarrow> ('h, 'w) discovery_client \<Rightarrow> bool" where
  "handlers_told stops keys c calls c' \<longleftrightarrow>
     find_calls c' = find_calls c @ calls \<and>
     watches c' = watches c \<and> watched_identifiers c' = watched_identifiers c \<and>
     known_instances c' = known_instances c \<and> system c' = system c \<and>
     told_more (search_requests c) (search_requests c') \<and>
     set (obsolete_search_requests c') = set (obsolete_search_requests c) \<union> (\<Union>(f, hs, h) \<in> set calls. set (stops f hs h)) \<and>
     obeys_stops stops (set (obsolete_search_requests c)) calls \<and>
     called calls \<subseteq> set keys \<and> distinct (map (\<lambda>(f, hs, h). h) calls) \<and>
     (\<forall>x \<in> set calls. due_call c x) \<and>
     (\<forall>h. h \<notin> called calls \<longrightarrow> search_requests c' h = search_requests c h) \<and>
     (\<forall>h r. h \<in> set keys \<and> (h \<notin> set (obsolete_search_requests c') \<or> h \<in> called calls) \<and>
        search_requests c' h = Some r \<longrightarrow> in_sync c r)"

lemma handlers_told_skip:
  assumes "handlers_told stops keys c calls c'" and "key \<notin> set keys"
    and "key \<in> set (obsolete_search_requests c) \<or> (\<forall>r. search_requests c key = Some r \<longrightarrow> in_sync c r)"
  shows "handlers_told stops (key # keys) c calls c'"
proof -
  have sub: "called calls \<subseteq> set keys" and "\<forall>h. h \<notin> called calls \<longrightarrow> search_requests c' h = search_requests c h"
    and obs: "set (obsolete_search_requests c) \<subseteq> set (obsolete_search_requests c')"
    and old: "\<And>h r. h \<in> set keys \<Longrightarrow> h \<notin> set (obsolete_search_requests c') \<or> h \<in> called calls \<Longrightarrow>
        search_requests c' h = Some r \<Longrightarrow> in_sync c r"
    using assms(1) unfolding handlers_told_def by blast+
  moreover from this assms(2) have "search_requests c' key = search_requests c key" "key \<notin> called calls" by auto
  ultimately have "in_sync c r"
    if "h \<in> set (key # keys)" "h \<notin> set (obsolete_search_requests c') \<or> h \<in> called calls"
      "search_requests c' h = Some r" for h r
    using that assms(3) by (cases "h = key") auto
  with assms(1) sub show ?thesis unfolding handlers_told_def by auto
qed

lemma handlers_told_call:
  assumes "handlers_told stops keys (call_handler stops (sr_handler r) hs key
      (c\<lparr>search_requests := (search_requests c)(key \<mapsto> r\<lparr>previous_handles := set hs\<rparr>)\<rparr>)) calls c'"
    (is "handlers_told stops keys ?c1 calls c'")
    and "key \<notin> set keys" and "search_requests c key = Some r" and "due_call c (sr_handler r, hs, key)"
  shows "handlers_told stops (key # keys) c ((sr_handler r, hs, key) # calls) c'"
proof -
  note told = assms(1) [unfolded handlers_told_def]
  have sub: "called calls \<subseteq> set keys" using told by blast
  with assms(2) have fresh: "key \<notin> called calls" by blast
  have sync: "in_sync ?c1 x = in_sync c x" for x by (simp add: in_sync_def)
  have due: "due_call c x" if "x \<in> set calls" for x
  proof -
    obtain f hs' h where x: "x = (f, hs', h)" by (cases x)
    with that sub assms(2) have "h \<noteq> key" by (force simp: called_def)
    moreover have "due_call ?c1 x" using told that by blast
    ultimately show ?thesis by (auto simp: due_call_def x sync)
  qed
  have kept: "told_more (search_requests c) (search_requests c')"
    using told told_more_upd [of "search_requests c" key r "set hs"] assms(3)
    by (auto intro: told_more_trans)
  have now: "search_requests c' key = Some (r\<lparr>previous_handles := set hs\<rparr>)"
    using told fresh by simp
  have "in_sync c (r\<lparr>previous_handles := set hs\<rparr>)"
    using assms(3,4) by (simp add: due_call_def in_sync_def)
  then have now_sync: "in_sync c (r\<lparr>previous_handles := set hs\<rparr>)" .
  have later: "in_sync ?c1 x" if "h \<in> set keys" "h \<notin> set (obsolete_search_requests c') \<or> h \<in> called calls"
      "search_requests c' h = Some x" for h x
    using told that by blast
  have last_clause: "in_sync c x"
    if "h \<in> set (key # keys)" "h \<notin> set (obsolete_search_requests c') \<or> h \<in> called ((sr_handler r, hs, key) # calls)"
      "search_requests c' h = Some x" for h x
  proof (cases "h = key")
    case True
    with that(3) now now_sync show ?thesis by simp
  next
    case False
    with that(1,2) have "h \<in> set keys" "h \<notin> set (obsolete_search_requests c') \<or> h \<in> called calls"
      by auto
    from later [OF this that(3)] show ?thesis by (simp add: sync)
  qed
  have order: "key \<notin> set (obsolete_search_requests c)" using assms(4) by (simp add: due_call_def)
  have unch: "search_requests c' h = search_requests c h" if "h \<notin> called ((sr_handler r, hs, key) # calls)" for h
    using told that by simp
  have fields: "find_calls c' = find_calls c @ (sr_handler r, hs, key) # calls"
    "watches c' = watches c" "watched_identifiers c' = watched_identifiers c"
    "known_instances c' = known_instances c" "system c' = system c"
    "set (obsolete_search_requests c') = set (obsolete_search_requests c) \<union>
       (\<Union>(f, hs, h) \<in> set ((sr_handler r, hs, key) # calls). set (stops f hs h))"
    "obeys_stops stops (set (obsolete_search_requests c)) ((sr_handler r, hs, key) # calls)"
    using told order by (auto simp: Un_assoc)
  have "called ((sr_handler r, hs, key) # calls) \<subseteq> set (key # keys)"
    "distinct (map (\<lambda>(f, hs, h). h) ((sr_handler r, hs, key) # calls))"
    using told sub fresh by (auto simp: called_def)
  moreover have "\<forall>x \<in> set ((sr_handler r, hs, key) # calls). due_call c x"
    using due assms(4) by simp
  moreover have "\<forall>h. h \<notin> called ((sr_handler r, hs, key) # calls) \<longrightarrow> search_requests c' h = search_requests c h"
    using unch by blast
  moreover have "\<forall>h x. h \<in> set (key # keys) \<and>
      (h \<notin> set (obsolete_search_requests c') \<or> h \<in> called ((sr_handler r, hs, key) # calls)) \<and>
      search_requests c' h = Some x \<longrightarrow> in_sync c x"
    using last_clause by blast
  ultimately show ?thesis
    using fields kept unfolding handlers_told_def by (intro conjI) assumption+
qed

lemma CallHandlers_outcome:
  assumes "distinct keys" and "valid_requests (search_requests c)"
  shows "\<exists>c' calls. CallHandlers stops keys c = Some c' \<and> handlers_told stops keys c calls c'"
  using assms
proof (induction keys arbitrary: c)
  case Nil
  have "handlers_told stops [] c [] c" by (simp add: handlers_told_def)
  then show ?case by auto
next
  case (Cons key keys)
  have dist: "key \<notin> set keys" "distinct keys" using Cons.prems(1) by auto
  show ?case
  proof (cases "search_requests c key")
    case None
    with Cons.IH [OF dist(2) Cons.prems(2)] handlers_told_skip [OF _ dist(1)] show ?thesis by fastforce
  next
    case (Some r)
    show ?thesis
    proof (cases "key \<in> set (obsolete_search_requests c)")
      case True
      with Some Cons.IH [OF dist(2) Cons.prems(2)] handlers_told_skip [OF _ dist(1)] show ?thesis by fastforce
    next
      case False
      have "GetQualityType (sr_identifier r) \<noteq> kInvalid"
        using Cons.prems(2) Some by (auto simp: valid_requests_def)
      then obtain hs where hs: "GetKnownHandles_of_quality (sr_identifier r) (known_instances c) = Some hs"
        using GetKnownHandles_of_quality_total by blast
      note hs_set = GetKnownHandles_of_quality_set [OF hs]
      show ?thesis
      proof (cases "previous_handles r = set hs")
        case True
        then have "in_sync c r" using hs_set by (simp add: in_sync_def)
        with Some False True hs Cons.IH [OF dist(2) Cons.prems(2)] handlers_told_skip [OF _ dist(1)] show ?thesis
          by fastforce
      next
        case changed: False
        let ?c1 = "call_handler stops (sr_handler r) hs key
          (c\<lparr>search_requests := (search_requests c)(key \<mapsto> r\<lparr>previous_handles := set hs\<rparr>)\<rparr>)"
        have "due_call c (sr_handler r, hs, key)"
          using Some False changed hs_set by (auto simp: due_call_def in_sync_def)
        moreover have "valid_requests (search_requests ?c1)"
          using Cons.prems(2) Some by (auto simp: valid_requests_def)
        then obtain c' calls where rest: "CallHandlers stops keys ?c1 = Some c'" "handlers_told stops keys ?c1 calls c'"
          using Cons.IH [OF dist(2)] by blast
        moreover have "CallHandlers stops (key # keys) c = Some c'"
          using Some False hs changed rest(1) by (simp add: Let_def)
        ultimately show ?thesis
          using handlers_told_call [OF rest(2) dist(1) Some] by blast
      qed
    qed
  qed
qed

subsection \<open>inotify\<close>

text \<open>
  The documented behaviour of inotify, for a table that says which directory a watch descriptor
  watches: adding a watch returns the descriptor of the directory, the one it has already or a free
  one; nothing but the calls for watches changes the table.
\<close>

definition inotify_laws :: "'w discovery_os \<Rightarrow> ('w \<Rightarrow> int \<rightharpoonup> string) \<Rightarrow> bool" where
  "inotify_laws os table \<longleftrightarrow>
     (\<forall>p w wd w'. os_add_watch os p w = (Some wd, w') \<longrightarrow>
        (table w wd = None \<or> table w wd = Some p) \<and> table w' = (table w)(wd \<mapsto> p)) \<and>
     (\<forall>p w w'. os_add_watch os p w = (None, w') \<longrightarrow> table w' = table w) \<and>
     (\<forall>p w. table (snd (os_create_directories os p w)) = table w) \<and>
     (\<forall>wd w. table (os_remove_watch os wd w) = (table w)(wd := None))"

lemma inotify_lawsD:
  assumes "inotify_laws os table"
  shows "os_add_watch os p w = (Some wd, w') \<Longrightarrow>
      (table w wd = None \<or> table w wd = Some p) \<and> table w' = (table w)(wd \<mapsto> p)"
    and "os_add_watch os p w = (None, w') \<Longrightarrow> table w' = table w"
    and "os_create_directories os p w = (ok, w') \<Longrightarrow> table w' = table w"
    and "table (os_remove_watch os wd w) = (table w)(wd := None)"
  using assms unfolding inotify_laws_def by (blast, blast, metis snd_conv, blast)

definition proper_identifier :: "enriched_instance_identifier \<Rightarrow> bool" where
  "proper_identifier e \<longleftrightarrow> (GetInstanceId e = None \<longrightarrow> deployed_instance_id (GetInstanceIdentifier e) = None)"

lemma proper_quality [simp]: "proper_identifier (EnrichedInstanceIdentifier_with_quality e q) = proper_identifier e"
  by (simp add: proper_identifier_def)

lemma proper_found: "found_instance identifier i e \<Longrightarrow> proper_identifier e"
  by (simp add: found_instance_def proper_identifier_def)

definition watched_at :: "('w \<Rightarrow> int \<rightharpoonup> string) \<Rightarrow> 'w \<Rightarrow> int \<times> enriched_instance_identifier \<Rightarrow> bool" where
  "watched_at table w = (\<lambda>(wd, e). table w wd = Some (GetSearchPathForIdentifier e) \<and> proper_identifier e)"

lemma CreateSearchPath_table:
  assumes "inotify_laws os table" and "CreateSearchPath os e w = (r, w')"
  shows "table w' = table w"
proof -
  have loop: "CreateSearchPath_loop os p n w = (ok, w2) \<Longrightarrow> table w2 = table w" for p n ok w2 and w
  proof (induction n arbitrary: w)
    case 0
    then show ?case by simp
  next
    case (Suc n)
    obtain b w1 where b: "os_create_directories os p w = (b, w1)" by (cases "os_create_directories os p w")
    from inotify_lawsD(3) [OF assms(1) b] Suc.prems Suc.IH [of w1] b show ?case
      by (auto split: if_splits)
  qed
  from assms(2) show ?thesis
    by (auto simp: CreateSearchPath_def Let_def split: prod.splits if_splits dest: loop)
qed

text \<open>The table after a crawl: it has grown by watches of the directories that were added.\<close>

definition grows :: "('w \<Rightarrow> int \<rightharpoonup> string) \<Rightarrow> 'w \<Rightarrow> 'w \<Rightarrow> bool" where
  "grows table w w' \<longleftrightarrow> (\<forall>wd p. table w wd = Some p \<longrightarrow> table w' wd = Some p)"

lemma grows_trans: "grows table a b \<Longrightarrow> grows table b c \<Longrightarrow> grows table a c"
  by (simp add: grows_def)

lemma grows_same: "table w' = table w \<Longrightarrow> grows table w w'"
  by (simp add: grows_def)

lemma AddWatch_table:
  assumes "inotify_laws os table" and "AddWatchToInotifyInstance os e w = (r, w')"
  shows "grows table w w' \<and> (\<forall>wd. r = Inr wd \<longrightarrow> table w' wd = Some (GetSearchPathForIdentifier e))"
proof -
  obtain created w1 where c: "CreateSearchPath os e w = (created, w1)" by (cases "CreateSearchPath os e w")
  note t = CreateSearchPath_table [OF assms(1) c]
  show ?thesis
  proof (cases created)
    case (Inl err)
    with assms(2) c t show ?thesis by (auto simp: AddWatchToInotifyInstance_def grows_same)
  next
    case (Inr path)
    with c have path: "path = GetSearchPathForIdentifier e"
      by (auto simp: CreateSearchPath_def Let_def split: prod.splits if_splits)
    obtain added w2 where a: "os_add_watch os path w1 = (added, w2)" by (cases "os_add_watch os path w1")
    show ?thesis
    proof (cases added)
      case None
      with a have "table w2 = table w1" using inotify_lawsD(2) [OF assms(1)] by blast
      with assms(2) c t Inr a None show ?thesis by (auto simp: AddWatchToInotifyInstance_def grows_same)
    next
      case (Some wd)
      with a have "(table w1 wd = None \<or> table w1 wd = Some path) \<and> table w2 = (table w1)(wd \<mapsto> path)"
        using inotify_lawsD(1) [OF assms(1)] by blast
      with assms(2) c t Inr a Some path show ?thesis by (auto simp: AddWatchToInotifyInstance_def grows_def)
    qed
  qed
qed

lemma watched_at_grows: "grows table w w' \<Longrightarrow> watched_at table w x \<Longrightarrow> watched_at table w' x"
  by (auto simp: watched_at_def grows_def split: prod.splits)

lemma emplace_watch_props:
  assumes "distinct (map fst ws)" and "\<forall>x \<in> set ws. P x" and "P (wd, e)"
  shows "distinct (map fst (emplace_watch wd e ws))" "\<forall>x \<in> set (emplace_watch wd e ws). P x"
  using assms by (auto simp: emplace_watch_def)

lemma watch_instances_table:
  assumes "inotify_laws os table" and "watch_instances os True es ws w = (r, w')"
    and "distinct (map fst ws)" and "\<forall>x \<in> set ws. watched_at table w x" and "\<forall>e \<in> set es. proper_identifier e"
  shows "grows table w w' \<and>
    (\<forall>ws'. r = Inr ws' \<longrightarrow> distinct (map fst ws') \<and> (\<forall>x \<in> set ws'. watched_at table w' x))"
  using assms(2-)
proof (induction es arbitrary: ws w)
  case Nil
  then have "r = Inr ws" "w' = w" by auto
  with Nil.prems(2,3) show ?case by (simp add: grows_same)
next
  case (Cons e es)
  obtain added w1 where a: "AddWatchToInotifyInstance os e w = (added, w1)" by (cases "AddWatchToInotifyInstance os e w")
  note t = AddWatch_table [OF assms(1) a]
  show ?case
  proof (cases added)
    case (Inl err)
    with Cons.prems(1) a have "r = Inl kBindingFailure" "w' = w1" by auto
    with t show ?thesis by simp
  next
    case (Inr wd)
    have rest: "watch_instances os True es (emplace_watch wd e ws) w1 = (r, w')"
      using Cons.prems(1) a Inr by simp
    have here: "watched_at table w1 (wd, e)" using t Inr Cons.prems(4) by (simp add: watched_at_def)
    have before: "\<forall>x \<in> set ws. watched_at table w1 x"
      using Cons.prems(3) watched_at_grows [OF conjunct1 [OF t]] by blast
    note more = emplace_watch_props [where P = "watched_at table w1", OF Cons.prems(2) before here]
    have es: "\<forall>e \<in> set es. proper_identifier e" using Cons.prems(4) by simp
    from Cons.IH [OF rest more es] conjunct1 [OF t] show ?thesis
      by (blast intro: grows_trans)
  qed
qed

lemma CrawlAndWatch_outcome:
  assumes "inotify_laws os table" and "proper_identifier e"
  shows "\<exists>r w'. CrawlAndWatch os True e w = Some (r, w') \<and> grows table w w' \<and>
    (\<forall>ws known. r = Inr (ws, known) \<longrightarrow> distinct (map fst ws) \<and> (\<forall>x \<in> set ws. watched_at table w' x) \<and>
       (\<exists>wd rest. ws = (wd, EnrichedInstanceIdentifier_with_quality e kInvalid) # rest \<and>
          (GetInstanceId e \<noteq> None \<longrightarrow> rest = [])))"
proof -
  let ?u = "EnrichedInstanceIdentifier_with_quality e kInvalid"
  obtain added w1 where a: "AddWatchToInotifyInstance os ?u w = (added, w1)" by (cases "AddWatchToInotifyInstance os ?u w")
  note t = AddWatch_table [OF assms(1) a]
  show ?thesis
  proof (cases added)
    case (Inl err)
    with a t show ?thesis by (simp add: CrawlAndWatch_def Let_def)
  next
    case (Inr wd)
    have main: "watched_at table w1 (wd, ?u)" using t Inr assms(2) by (simp add: watched_at_def)
    show ?thesis
    proof (cases "GetInstanceId e")
      case (Some i)
      then have "GetBindingSpecificInstanceId e \<noteq> None" by (simp add: GetBindingSpecificInstanceId_def)
      with a Inr t main Some show ?thesis by (auto simp: CrawlAndWatch_def Let_def emplace_watch_def)
    next
      case None
      then have b: "GetBindingSpecificInstanceId e = None" by (simp add: GetBindingSpecificInstanceId_def)
      from Gather_outcome [of ?u os w1] assms(2) None obtain g where
        gather: "GatherExistingInstanceDirectories os ?u w1 = Some g"
        and g: "\<And>es. g = Inr es \<Longrightarrow> \<forall>x \<in> set es. \<exists>i. found_instance (GetInstanceIdentifier e) i x"
        by (fastforce simp: proper_identifier_def)
      show ?thesis
      proof (cases g)
        case (Inl err)
        with a Inr t gather b show ?thesis by (simp add: CrawlAndWatch_def Let_def)
      next
        case (Inr es)
        then have es: "\<forall>x \<in> set es. proper_identifier x" using g proper_found by blast
        obtain r2 w2 where wi: "watch_instances os True es [(wd, ?u)] w1 = (r2, w2)"
          by (cases "watch_instances os True es [(wd, ?u)] w1")
        have first: "r2 = Inr ws \<Longrightarrow> \<exists>rest. ws = (wd, ?u) # rest" for ws
        proof -
          have "watch_instances os True es ((wd, ?u) # ws0) w3 = (Inr ws, w4) \<Longrightarrow> \<exists>rest. ws = (wd, ?u) # rest" for ws0 w3 w4
            by (induction es arbitrary: ws0 w3) (auto simp: emplace_watch_def split: prod.splits sum.splits if_splits)
          with wi show "r2 = Inr ws \<Longrightarrow> \<exists>rest. ws = (wd, ?u) # rest" by blast
        qed
        from watch_instances_table [OF assms(1) wi _ _ es] main have t2: "grows table w1 w2"
          "\<And>ws'. r2 = Inr ws' \<Longrightarrow> distinct (map fst ws') \<and> (\<forall>x \<in> set ws'. watched_at table w2 x)"
          by auto
        show ?thesis
        proof (cases r2)
          case (Inl err)
          with a \<open>added = Inr wd\<close> t gather \<open>g = Inr es\<close> b wi t2(1) grows_trans show ?thesis
            by (auto simp: CrawlAndWatch_def Let_def emplace_watch_def)
        next
          case (Inr ws)
          with a \<open>added = Inr wd\<close> t gather \<open>g = Inr es\<close> b wi t2(1) t2(2) [OF Inr] first [OF Inr] None grows_trans
          show ?thesis by (auto simp: CrawlAndWatch_def Let_def emplace_watch_def)
        qed
      qed
    qed
  qed
qed

end
