(* ===== verification/Service_Discovery_Links.thy ===== *)
theory Service_Discovery_Links
  imports Service_Discovery_Safety
begin

text \<open>
  The links between searches, watches and watched identifiers in the service discovery client: every
  operation keeps them consistent, so the checks on them hold, and what is left is one kind of event
  that can end the process.
\<close>

subsection \<open>The invariant\<close>

definition watch_ok ::
    "('w \<Rightarrow> int \<rightharpoonup> string) \<Rightarrow> ('h, 'w) discovery_client \<Rightarrow> int \<Rightarrow> watch \<Rightarrow> bool" where
  "watch_ok table c wd entry \<longleftrightarrow>
     watched_at table (system c) (wd, watch_identifier entry) \<and> distinct (find_service_handles entry) \<and>
     (\<forall>h \<in> set (find_service_handles entry). \<exists>r. search_requests c h = Some r \<and> wd \<in> set (sr_watches r))"

definition request_ok :: "('h, 'w) discovery_client \<Rightarrow> u64 \<Rightarrow> 'h search_request \<Rightarrow> bool" where
  "request_ok c h r \<longleftrightarrow>
     GetQualityType (sr_identifier r) \<noteq> kInvalid \<and> distinct (sr_watches r) \<and>
     (\<forall>wd \<in> set (sr_watches r). \<exists>entry. watches c wd = Some entry \<and> h \<in> set (find_service_handles entry))"

definition identifier_of :: "('h, 'w) discovery_client \<Rightarrow> int \<Rightarrow> lola_service_instance_identifier option" where
  "identifier_of c wd = map_option (\<lambda>entry. LolaServiceInstanceIdentifier (watch_identifier entry)) (watches c wd)"

definition identifier_ok ::
    "('h, 'w) discovery_client \<Rightarrow> lola_service_instance_identifier \<Rightarrow> identifier_watches \<Rightarrow> bool" where
  "identifier_ok c identifier iw \<longleftrightarrow>
     (\<forall>wd. main_watch iw = Some wd \<longrightarrow> identifier_of c wd = Some identifier) \<and>
     (\<forall>wd \<in> set (child_watches iw). snd identifier = None \<and> (\<exists>i. identifier_of c wd = Some (fst identifier, Some i)))"

definition links_ok :: "('w \<Rightarrow> int \<rightharpoonup> string) \<Rightarrow> ('h, 'w) discovery_client \<Rightarrow> bool" where
  "links_ok table c \<longleftrightarrow>
     (\<forall>wd entry. watches c wd = Some entry \<longrightarrow> watch_ok table c wd entry) \<and>
     (\<forall>h r. search_requests c h = Some r \<longrightarrow> request_ok c h r) \<and>
     (\<forall>identifier iw. watched_identifiers c identifier = Some iw \<longrightarrow> identifier_ok c identifier iw)"

lemma links_okI:
  assumes "\<And>wd entry. watches c wd = Some entry \<Longrightarrow> watch_ok table c wd entry"
    and "\<And>h r. search_requests c h = Some r \<Longrightarrow> request_ok c h r"
    and "\<And>identifier iw. watched_identifiers c identifier = Some iw \<Longrightarrow> identifier_ok c identifier iw"
  shows "links_ok table c"
  using assms unfolding links_ok_def by blast

lemma links_okD:
  assumes "links_ok table c"
  shows "watches c wd = Some entry \<Longrightarrow> watch_ok table c wd entry"
    and "search_requests c h = Some r \<Longrightarrow> request_ok c h r"
    and "watched_identifiers c identifier = Some iw \<Longrightarrow> identifier_ok c identifier iw"
  using assms unfolding links_ok_def by blast+

lemma links_ok_valid: "links_ok table c \<Longrightarrow> valid_requests (search_requests c)"
  by (auto simp: valid_requests_def request_ok_def dest: links_okD(2))

lemma links_ok_frame:
  assumes "links_ok table c" and "watches c' = watches c" and "search_requests c' = search_requests c"
    and "watched_identifiers c' = watched_identifiers c" and "grows table (system c) (system c')"
  shows "links_ok table c'"
proof (rule links_okI)
  show "watch_ok table c' wd entry" if "watches c' wd = Some entry" for wd entry
    using links_okD(1) [OF assms(1), of wd entry] that assms(2,3) watched_at_grows [OF assms(5)]
    by (auto simp: watch_ok_def)
  show "request_ok c' h r" if "search_requests c' h = Some r" for h r
    using links_okD(2) [OF assms(1), of h r] that assms(2,3) by (simp add: request_ok_def)
  show "identifier_ok c' idf iw" if "watched_identifiers c' idf = Some iw" for idf iw
    using links_okD(3) [OF assms(1), of idf iw] that assms(2,4) by (simp add: identifier_ok_def identifier_of_def)
qed

text \<open>Telling handlers does not touch the links.\<close>

lemma links_ok_told:
  assumes "links_ok table c" and "watches c' = watches c" and "told_more (search_requests c) (search_requests c')"
    and "watched_identifiers c' = watched_identifiers c" and "system c' = system c"
  shows "links_ok table c'"
proof (rule links_okI)
  have there: "\<exists>r'. search_requests c' h = Some r' \<and> sr_watches r' = sr_watches r" if "search_requests c h = Some r" for h r
    using told_more_Some [OF assms(3), of h] told_more_None [OF assms(3), of h] that
    by (cases "search_requests c' h") auto
  show "watch_ok table c' wd entry" if "watches c' wd = Some entry" for wd entry
    using links_okD(1) [OF assms(1), of wd entry] that assms(2,5) there by (fastforce simp: watch_ok_def)
  show "request_ok c' h r" if "search_requests c' h = Some r" for h r
    using told_more_Some [OF assms(3) that] links_okD(2) [OF assms(1), of h] assms(2) by (auto simp: request_ok_def)
  show "identifier_ok c' idf iw" if "watched_identifiers c' idf = Some iw" for idf iw
    using links_okD(3) [OF assms(1), of idf iw] that assms(2,4) by (simp add: identifier_ok_def identifier_of_def)
qed

subsection \<open>Storing, linking, unlinking and erasing a watch\<close>

text \<open>inotify gives one directory one descriptor, so a descriptor that is known has the same identifier.\<close>

lemma same_directory:
  assumes "links_ok table c" and "watches c wd = Some entry" and "watched_at table (system c) (wd, e)"
  shows "LolaServiceInstanceIdentifier (watch_identifier entry) = LolaServiceInstanceIdentifier e"
proof -
  have "GetSearchPathForIdentifier (watch_identifier entry) = GetSearchPathForIdentifier e"
    using links_okD(1) [OF assms(1,2)] assms(3) by (simp add: watch_ok_def watched_at_def)
  then show ?thesis
    by (simp add: search_path_inject LolaServiceInstanceIdentifier_def GetBindingSpecificInstanceId_def)
qed

definition stored_entry :: "enriched_instance_identifier \<Rightarrow> watch option \<Rightarrow> watch" where
  "stored_entry e known = (case known of Some entry \<Rightarrow> entry | None \<Rightarrow> \<lparr>watch_identifier = e, find_service_handles = []\<rparr>)"

lemma StoreWatch_frame:
  "watches (StoreWatch wd e c) = (watches c)(wd \<mapsto> stored_entry e (watches c wd))"
  "search_requests (StoreWatch wd e c) = search_requests c"
  "system (StoreWatch wd e c) = system c" "known_instances (StoreWatch wd e c) = known_instances c"
  "find_calls (StoreWatch wd e c) = find_calls c"
  "obsolete_search_requests (StoreWatch wd e c) = obsolete_search_requests c"
  by (auto simp: StoreWatch_def Let_def stored_entry_def split: option.split)

lemma StoreWatch_identifiers:
  "watched_identifiers (StoreWatch wd e c) =
     (let id = LolaServiceInstanceIdentifier e;
          wi = (if watched_identifiers c id = None
                then (watched_identifiers c)(id \<mapsto> \<lparr>main_watch = Some wd, child_watches = []\<rparr>) else watched_identifiers c)
      in if snd id = None then wi
         else wi((fst id, None) \<mapsto>
           (case wi (fst id, None) of None \<Rightarrow> \<lparr>main_watch = None, child_watches = [wd]\<rparr>
            | Some iw \<Rightarrow> iw\<lparr>child_watches := set_insert wd (child_watches iw)\<rparr>)))"
proof -
  obtain s io where id: "LolaServiceInstanceIdentifier e = (s, io)" by (cases "LolaServiceInstanceIdentifier e")
  show ?thesis
    unfolding StoreWatch_def id LolaServiceInstanceIdentifier_any_def Let_def
    by (cases "watches c wd"; cases "watched_identifiers c (s, io)"; cases io) simp_all
qed

lemma StoreWatch_ok:
  assumes "links_ok table c" and "watched_at table (system c) (wd, e)"
  shows "links_ok table (StoreWatch wd e c)"
proof (rule links_okI)
  let ?c = "StoreWatch wd e c" and ?id = "LolaServiceInstanceIdentifier e"
  have id: "identifier_of ?c wd = Some ?id"
    using same_directory [OF assms(1) _ assms(2)]
    by (auto simp: identifier_of_def StoreWatch_frame stored_entry_def split: option.split)
  have ids: "identifier_of ?c x = Some y" if "identifier_of c x = Some y" for x y
    using that id same_directory [OF assms(1) _ assms(2)] by (cases "x = wd") (auto simp: identifier_of_def StoreWatch_frame)
  show "watch_ok table ?c x entry" if "watches ?c x = Some entry" for x entry
    using that links_okD(1) [OF assms(1), of x entry] assms(2)
    by (cases "x = wd"; cases "watches c wd") (auto simp: StoreWatch_frame stored_entry_def watch_ok_def)
  show "request_ok ?c h r" if "search_requests ?c h = Some r" for h r
  proof -
    have ok: "request_ok c h r" using that links_okD(2) [OF assms(1)] by (simp add: StoreWatch_frame)
    have "\<exists>entry. watches ?c x = Some entry \<and> h \<in> set (find_service_handles entry)" if "x \<in> set (sr_watches r)" for x
      using ok that by (auto simp: request_ok_def StoreWatch_frame stored_entry_def split: option.splits)
    with ok show ?thesis by (simp add: request_ok_def)
  qed
  show "identifier_ok ?c idf iw" if iw: "watched_identifiers ?c idf = Some iw" for idf iw
  proof -
    define wi where "wi = (if watched_identifiers c ?id = None
      then (watched_identifiers c)(?id \<mapsto> \<lparr>main_watch = Some wd, child_watches = []\<rparr>) else watched_identifiers c)"
    have step: "identifier_ok ?c x y" if "wi x = Some y" for x y
    proof (cases "watched_identifiers c ?id = None \<and> x = ?id")
      case True
      with that id show ?thesis by (auto simp: wi_def identifier_ok_def)
    next
      case False
      with that have "watched_identifiers c x = Some y" by (auto simp: wi_def split: if_splits)
      from links_okD(3) [OF assms(1) this] ids show ?thesis unfolding identifier_ok_def by blast
    qed
    show ?thesis
    proof (cases "snd ?id = None \<or> idf \<noteq> (fst ?id, None)")
      case True
      with iw have "wi idf = Some iw"
        by (auto simp: StoreWatch_identifiers wi_def [symmetric] Let_def split: if_splits)
      then show ?thesis by (rule step)
    next
      case False
      with iw have iw': "iw = (case wi (fst ?id, None) of None \<Rightarrow> \<lparr>main_watch = None, child_watches = [wd]\<rparr>
            | Some iw \<Rightarrow> iw\<lparr>child_watches := set_insert wd (child_watches iw)\<rparr>)"
        by (auto simp: StoreWatch_identifiers wi_def [symmetric] Let_def)
      obtain i where "?id = (fst ?id, Some i)" using False by (cases ?id) auto
      then have child: "identifier_of ?c wd = Some (fst ?id, Some i)" using id by metis
      show ?thesis
        using False child step [of "(fst ?id, None)"]
        by (cases "wi (fst ?id, None)") (auto simp: iw' identifier_ok_def)
    qed
  qed
qed

lemma Link_ok:
  assumes "links_ok table c" and "LinkWatchWithSearchRequest wd h c = Some c'"
  shows "links_ok table c'"
proof -
  from assms(2) obtain entry r where e: "watches c wd = Some entry" and r: "search_requests c h = Some r"
    and new: "h \<notin> set (find_service_handles entry)" "wd \<notin> set (sr_watches r)"
    and c': "c' = c\<lparr>watches := (watches c)(wd \<mapsto> entry\<lparr>find_service_handles := find_service_handles entry @ [h]\<rparr>),
             search_requests := (search_requests c)(h \<mapsto> r\<lparr>sr_watches := sr_watches r @ [wd]\<rparr>)\<rparr>"
    by (auto simp: LinkWatchWithSearchRequest_def contract_simps split: Option.bind_splits if_splits)
  note oke = links_okD(1) [OF assms(1) e] and okr = links_okD(2) [OF assms(1) r]
  show ?thesis
  proof (rule links_okI)
    show "watch_ok table c' x y" if "watches c' x = Some y" for x y
    proof (cases "x = wd")
      case True
      with that have "y = entry\<lparr>find_service_handles := find_service_handles entry @ [h]\<rparr>" by (simp add: c')
      with True oke new r show ?thesis by (auto simp: watch_ok_def c')
    next
      case False
      with that have "watches c x = Some y" by (simp add: c')
      from links_okD(1) [OF assms(1) this] r show ?thesis by (fastforce simp: watch_ok_def c')
    qed
    show "request_ok c' k y" if "search_requests c' k = Some y" for k y
    proof (cases "k = h")
      case True
      with that have "y = r\<lparr>sr_watches := sr_watches r @ [wd]\<rparr>" by (simp add: c')
      with True okr new e show ?thesis by (auto simp: request_ok_def c')
    next
      case False
      with that have "search_requests c k = Some y" by (simp add: c')
      from links_okD(2) [OF assms(1) this] e show ?thesis by (fastforce simp: request_ok_def c')
    qed
    have "identifier_of c' = identifier_of c" using e by (auto simp: identifier_of_def c')
    then show "identifier_ok c' idf iw" if "watched_identifiers c' idf = Some iw" for idf iw
      using links_okD(3) [OF assms(1), of idf iw] that by (simp add: identifier_ok_def c')
  qed
qed

lemma Link_total:
  assumes "links_ok table c" and "watches c wd = Some entry" and "search_requests c h = Some r"
  shows "LinkWatchWithSearchRequest wd h c =
    (if h \<in> set (find_service_handles entry) then None
     else Some (c\<lparr>watches := (watches c)(wd \<mapsto> entry\<lparr>find_service_handles := find_service_handles entry @ [h]\<rparr>),
             search_requests := (search_requests c)(h \<mapsto> r\<lparr>sr_watches := sr_watches r @ [wd]\<rparr>)\<rparr>))"
proof -
  have "wd \<in> set (sr_watches r) \<Longrightarrow> h \<in> set (find_service_handles entry)"
    using links_okD(2) [OF assms(1,3)] assms(2) by (auto simp: request_ok_def)
  with assms(2,3) show ?thesis by (auto simp: LinkWatchWithSearchRequest_def contract_simps)
qed

text \<open>No watch is kept without a search that needs it.\<close>

definition no_idle_watch :: "('h, 'w) discovery_client \<Rightarrow> bool" where
  "no_idle_watch c \<longleftrightarrow> (\<forall>wd entry. watches c wd = Some entry \<longrightarrow> find_service_handles entry \<noteq> [])"

lemma link_watches_ok:
  assumes "links_ok table c" and "no_idle_watch c" and "search_requests c h = Some r" and "distinct (map fst ws)"
    and "\<forall>x \<in> set ws. watched_at table (system c) x" and "set (sr_watches r) \<inter> fst ` set ws = {}"
  shows "\<exists>c' r'. link_watches h ws c = Some c' \<and> links_ok table c' \<and> no_idle_watch c' \<and>
    search_requests c' = (search_requests c)(h \<mapsto> r') \<and> r'\<lparr>sr_watches := []\<rparr> = r\<lparr>sr_watches := []\<rparr> \<and>
    system c' = system c \<and> known_instances c' = known_instances c \<and> find_calls c' = find_calls c \<and>
    obsolete_search_requests c' = obsolete_search_requests c"
  using assms
proof (induction ws arbitrary: c r)
  case Nil
  then show ?case by (intro exI [of _ c] exI [of _ r]) auto
next
  case (Cons x ws)
  obtain wd e where x: "x = (wd, e)" by (cases x)
  let ?c = "StoreWatch wd e c"
  let ?entry = "stored_entry e (watches c wd)"
  have ok: "links_ok table ?c" using Cons.prems(1,5) by (intro StoreWatch_ok) (auto simp: x)
  have entry: "watches ?c wd = Some ?entry" and req: "search_requests ?c h = Some r"
    using Cons.prems(3) by (simp_all add: StoreWatch_frame)
  have "h \<notin> set (find_service_handles ?entry)"
  proof
    assume "h \<in> set (find_service_handles ?entry)"
    with links_okD(1) [OF ok entry] req have "wd \<in> set (sr_watches r)" by (auto simp: watch_ok_def)
    with Cons.prems(6) show False by (auto simp: x)
  qed
  with Link_total [OF ok entry req] obtain c1 where c1: "LinkWatchWithSearchRequest wd h ?c = Some c1"
    "c1 = ?c\<lparr>watches := (watches ?c)(wd \<mapsto> ?entry\<lparr>find_service_handles := find_service_handles ?entry @ [h]\<rparr>),
             search_requests := (search_requests ?c)(h \<mapsto> r\<lparr>sr_watches := sr_watches r @ [wd]\<rparr>)\<rparr>"
    by auto
  have idle: "no_idle_watch c1"
    using Cons.prems(2) by (auto simp: no_idle_watch_def c1(2) StoreWatch_frame)
  have req1: "search_requests c1 h = Some (r\<lparr>sr_watches := sr_watches r @ [wd]\<rparr>)" and sys: "system c1 = system c"
    by (simp_all add: c1(2) StoreWatch_frame)
  have sep: "set (sr_watches (r\<lparr>sr_watches := sr_watches r @ [wd]\<rparr>)) \<inter> fst ` set ws = {}"
    using Cons.prems(4,6) by (auto simp: x image_iff)
  have dist: "distinct (map fst ws)" and at: "\<forall>x \<in> set ws. watched_at table (system c1) x"
    using Cons.prems(4,5) sys by simp_all
  from Cons.IH [OF Link_ok [OF ok c1(1)] idle req1 dist at sep] obtain c' r' where
    rest: "link_watches h ws c1 = Some c'" "links_ok table c'" "no_idle_watch c'"
      "search_requests c' = (search_requests c1)(h \<mapsto> r')"
      "r'\<lparr>sr_watches := []\<rparr> = (r\<lparr>sr_watches := sr_watches r @ [wd]\<rparr>)\<lparr>sr_watches := []\<rparr>"
      "system c' = system c1" "known_instances c' = known_instances c1" "find_calls c' = find_calls c1"
      "obsolete_search_requests c' = obsolete_search_requests c1"
    by blast
  have "search_requests c' = (search_requests c)(h \<mapsto> r')"
    unfolding rest(4) by (simp add: c1(2) StoreWatch_frame)
  with rest c1 show ?case by (intro exI [of _ c'] exI [of _ r']) (simp add: x StoreWatch_frame)
qed

lemma Unlink_ok:
  assumes "links_ok table c" and "search_requests c h = Some r" and "wd \<in> set (sr_watches r)"
  shows "\<exists>entry. watches c wd = Some entry \<and> h \<in> set (find_service_handles entry) \<and>
    UnlinkWatchWithSearchRequest wd h c = Some (c\<lparr>watches := (watches c)(wd \<mapsto>
               entry\<lparr>find_service_handles := removeAll h (find_service_handles entry)\<rparr>),
             search_requests := (search_requests c)(h \<mapsto>
               r\<lparr>sr_watches := removeAll wd (sr_watches r)\<rparr>)\<rparr>)"
proof -
  from links_okD(2) [OF assms(1,2)] assms(3) obtain entry where
    "watches c wd = Some entry" "h \<in> set (find_service_handles entry)"
    by (auto simp: request_ok_def)
  with assms(2,3) show ?thesis by (simp add: UnlinkWatchWithSearchRequest_def contract_simps)
qed

lemma Unlink_keeps:
  assumes "links_ok table c" and "search_requests c h = Some r" and "watches c wd = Some entry"
  shows "links_ok table (c\<lparr>watches := (watches c)(wd \<mapsto>
               entry\<lparr>find_service_handles := removeAll h (find_service_handles entry)\<rparr>),
             search_requests := (search_requests c)(h \<mapsto>
               r\<lparr>sr_watches := removeAll wd (sr_watches r)\<rparr>)\<rparr>)"
    (is "links_ok table ?c")
proof (rule links_okI)
  note okw = links_okD(1) [OF assms(1)] and okr = links_okD(2) [OF assms(1)]
  show "watch_ok table ?c x y" if "watches ?c x = Some y" for x y
  proof (cases "x = wd")
    case True
    with that have y: "y = entry\<lparr>find_service_handles := removeAll h (find_service_handles entry)\<rparr>" by simp
    have "\<exists>q. search_requests ?c k = Some q \<and> wd \<in> set (sr_watches q)" if "k \<in> set (find_service_handles y)" for k
      using okw [OF assms(3)] that by (auto simp: y watch_ok_def)
    with True okw [OF assms(3)] show ?thesis by (auto simp: y watch_ok_def distinct_removeAll)
  next
    case False
    with that have w: "watches c x = Some y" by simp
    have "\<exists>q. search_requests ?c k = Some q \<and> x \<in> set (sr_watches q)" if "k \<in> set (find_service_handles y)" for k
      using okw [OF w] that False assms(2) by (auto simp: watch_ok_def)
    with okw [OF w] show ?thesis by (simp add: watch_ok_def)
  qed
  show "request_ok ?c k q" if "search_requests ?c k = Some q" for k q
  proof (cases "k = h")
    case True
    with that have q: "q = r\<lparr>sr_watches := removeAll wd (sr_watches r)\<rparr>" by simp
    have "\<exists>y. watches ?c x = Some y \<and> h \<in> set (find_service_handles y)" if "x \<in> set (sr_watches q)" for x
      using okr [OF assms(2)] that by (auto simp: q request_ok_def)
    with True okr [OF assms(2)] show ?thesis by (auto simp: q request_ok_def distinct_removeAll)
  next
    case False
    with that have r': "search_requests c k = Some q" by simp
    have "\<exists>y. watches ?c x = Some y \<and> k \<in> set (find_service_handles y)" if "x \<in> set (sr_watches q)" for x
      using okr [OF r'] that False assms(3) by (auto simp: request_ok_def)
    with okr [OF r'] show ?thesis by (simp add: request_ok_def)
  qed
  have "identifier_of ?c = identifier_of c" using assms(3) by (auto simp: identifier_of_def)
  then show "identifier_ok ?c idf iw" if "watched_identifiers ?c idf = Some iw" for idf iw
    using links_okD(3) [OF assms(1), of idf iw] that by (simp add: identifier_ok_def)
qed

lemma Erase_ok:
  fixes c :: "('h, 'w) discovery_client"
  assumes "inotify_laws os table" and "links_ok table c" and "watches c wd = Some entry"
    and "find_service_handles entry = []"
  defines "c1 \<equiv> (remove_known (watch_identifier entry) c)\<lparr>system := os_remove_watch os wd (system c)\<rparr>"
  shows "\<exists>c'. EraseWatch wd c1 = Some c' \<and> links_ok table c' \<and> watches c' = (watches c)(wd := None) \<and>
    search_requests c' = search_requests c \<and> find_calls c' = find_calls c \<and>
    obsolete_search_requests c' = obsolete_search_requests c"
proof -
  let ?id = "LolaServiceInstanceIdentifier (watch_identifier entry)"
  obtain s io where id: "?id = (s, io)" by (cases ?id)
  have c1: "watches c1 = watches c" "search_requests c1 = search_requests c"
    "watched_identifiers c1 = watched_identifiers c" "find_calls c1 = find_calls c"
    "obsolete_search_requests c1 = obsolete_search_requests c" "system c1 = os_remove_watch os wd (system c)"
    by (simp_all add: c1_def remove_known_def)
  define wi where "wi = (if io \<noteq> None then
       (case ((watched_identifiers c)((s, io) := None)) (s, None) of
          None \<Rightarrow> (watched_identifiers c)((s, io) := None)
        | Some iw \<Rightarrow> ((watched_identifiers c)((s, io) := None))((s, None) \<mapsto>
            iw\<lparr>child_watches := removeAll wd (child_watches iw)\<rparr>))
     else (case watched_identifiers c (s, io) of
             None \<Rightarrow> watched_identifiers c
           | Some iw \<Rightarrow> (watched_identifiers c)((s, io) \<mapsto> iw\<lparr>main_watch := None\<rparr>)))"
  let ?c = "c1\<lparr>watched_identifiers := wi, watches := (watches c)(wd := None)\<rparr>"
  have run: "EraseWatch wd c1 = Some ?c"
    using assms(3,4) by (cases io) (simp_all add: EraseWatch_def c1 id contract_simps wi_def
        LolaServiceInstanceIdentifier_any_def Let_def split: option.splits)
  have table: "table (system ?c) x = table (system c) x" if "x \<noteq> wd" for x
    using inotify_lawsD(4) [OF assms(1)] that by (simp add: c1)
  have this_id: "identifier_of c wd = Some (s, io)" using assms(3) id by (simp add: identifier_of_def)
  have other_id: "identifier_of ?c x = identifier_of c x" if "x \<noteq> wd" for x
    using that by (simp add: identifier_of_def)
  have "links_ok table ?c"
  proof (rule links_okI)
    show "watch_ok table ?c x y" if "watches ?c x = Some y" for x y
    proof -
      have "x \<noteq> wd" "watches c x = Some y" using that by (auto split: if_splits)
      with links_okD(1) [OF assms(2), of x y] table [of x] show ?thesis
        by (auto simp: watch_ok_def watched_at_def c1)
    qed
    show "request_ok ?c h r" if "search_requests ?c h = Some r" for h r
    proof -
      have r: "search_requests c h = Some r" using that by (simp add: c1)
      have "x \<noteq> wd" if "x \<in> set (sr_watches r)" for x
        using links_okD(2) [OF assms(2) r] that assms(3,4) by (auto simp: request_ok_def)
      with links_okD(2) [OF assms(2) r] show ?thesis by (auto simp: request_ok_def)
    qed
    show "identifier_ok ?c idf iw" if "watched_identifiers ?c idf = Some iw" for idf iw
    proof -
      from that have iw: "wi idf = Some iw" by simp
      have "\<exists>iw0. watched_identifiers c idf = Some iw0 \<and> set (child_watches iw) \<subseteq> set (child_watches iw0) \<and>
          (main_watch iw = main_watch iw0 \<or> main_watch iw = None) \<and>
          (io \<noteq> None \<longrightarrow> idf \<noteq> (s, io) \<and> (idf = (s, None) \<longrightarrow> wd \<notin> set (child_watches iw))) \<and>
          (io = None \<longrightarrow> idf = (s, None) \<longrightarrow> main_watch iw = None)"
        using iw unfolding wi_def by (cases io) (auto split: if_splits option.splits)
      then obtain iw0 where iw0: "watched_identifiers c idf = Some iw0" "set (child_watches iw) \<subseteq> set (child_watches iw0)"
        "main_watch iw = main_watch iw0 \<or> main_watch iw = None"
        "io \<noteq> None \<longrightarrow> idf \<noteq> (s, io) \<and> (idf = (s, None) \<longrightarrow> wd \<notin> set (child_watches iw))"
        "io = None \<longrightarrow> idf = (s, None) \<longrightarrow> main_watch iw = None"
        by blast
      note ok0 = links_okD(3) [OF assms(2) iw0(1), unfolded identifier_ok_def]
      have main: "identifier_of ?c x = Some idf" if "main_watch iw = Some x" for x
      proof -
        have x: "identifier_of c x = Some idf" using ok0 iw0(3) that by auto
        have "x \<noteq> wd"
        proof
          assume "x = wd"
          with x this_id have "idf = (s, io)" by simp
          with iw0(4,5) that show False by (cases io) auto
        qed
        with x other_id show ?thesis by simp
      qed
      have child: "snd idf = None \<and> (\<exists>i. identifier_of ?c x = Some (fst idf, Some i))" if "x \<in> set (child_watches iw)" for x
      proof -
        have x: "snd idf = None" "\<exists>i. identifier_of c x = Some (fst idf, Some i)" using ok0 iw0(2) that by auto
        have "x \<noteq> wd"
        proof
          assume "x = wd"
          with x(2) this_id have "fst idf = s" "io \<noteq> None" by auto
          with x(1) have "idf = (s, None)" by (cases idf) simp
          with iw0(4) that \<open>io \<noteq> None\<close> \<open>x = wd\<close> show False by simp
        qed
        with x other_id show ?thesis by simp
      qed
      from main child show ?thesis by (simp add: identifier_ok_def)
    qed
  qed
  with run show ?thesis by (auto simp: c1)
qed

subsection \<open>Removing a search\<close>

lemma TransferObsolete_loop_ok:
  assumes "inotify_laws os table" and "links_ok table c" and "no_idle_watch c"
    and "search_requests c h = Some r" and "sr_watches r = wds"
  shows "\<exists>c'. TransferObsoleteSearchRequest_loop os h wds c = Some c' \<and> links_ok table c' \<and> no_idle_watch c' \<and>
    search_requests c' = (search_requests c)(h \<mapsto> r\<lparr>sr_watches := []\<rparr>) \<and> find_calls c' = find_calls c \<and>
    obsolete_search_requests c' = obsolete_search_requests c"
  using assms(2-)
proof (induction wds arbitrary: c r)
  case Nil
  then show ?case by (intro exI [of _ c]) auto
next
  case (Cons wd wds)
  have wd: "wd \<in> set (sr_watches r)" using Cons.prems(4) by simp
  from Unlink_ok [OF Cons.prems(1,3) wd] obtain entry where entry: "watches c wd = Some entry"
    and "h \<in> set (find_service_handles entry)" and
    run: "UnlinkWatchWithSearchRequest wd h c = Some (c\<lparr>watches := (watches c)(wd \<mapsto>
               entry\<lparr>find_service_handles := removeAll h (find_service_handles entry)\<rparr>),
             search_requests := (search_requests c)(h \<mapsto>
               r\<lparr>sr_watches := removeAll wd (sr_watches r)\<rparr>)\<rparr>)" (is "_ = Some ?c1")
    by blast
  have ok1: "links_ok table ?c1" using Unlink_keeps [OF Cons.prems(1,3) entry] .
  let ?entry = "entry\<lparr>find_service_handles := removeAll h (find_service_handles entry)\<rparr>"
  let ?r = "r\<lparr>sr_watches := removeAll wd (sr_watches r)\<rparr>"
  have "distinct (wd # wds)" using links_okD(2) [OF Cons.prems(1,3)] Cons.prems(4) by (simp add: request_ok_def)
  then have left: "sr_watches ?r = wds" using Cons.prems(4) by simp
  have w1: "watches ?c1 wd = Some ?entry" and req1: "search_requests ?c1 h = Some ?r" by simp_all
  obtain c2 where c2: "(if find_service_handles ?entry = [] then
       (let c = remove_known (watch_identifier ?entry) ?c1; c = c\<lparr>system := os_remove_watch os wd (system c)\<rparr>
        in EraseWatch wd c) else Some ?c1) = Some c2"
    "links_ok table c2" "no_idle_watch c2" "search_requests c2 = search_requests ?c1"
    "find_calls c2 = find_calls c" "obsolete_search_requests c2 = obsolete_search_requests c"
  proof (cases "find_service_handles ?entry = []")
    case True
    from Erase_ok [OF assms(1) ok1 w1 True] obtain c2 where e: "EraseWatch wd
        ((remove_known (watch_identifier ?entry) ?c1)\<lparr>system := os_remove_watch os wd (system ?c1)\<rparr>) = Some c2"
      "links_ok table c2" "watches c2 = (watches ?c1)(wd := None)" "search_requests c2 = search_requests ?c1"
      "find_calls c2 = find_calls ?c1" "obsolete_search_requests c2 = obsolete_search_requests ?c1"
      by blast
    have sys: "system (remove_known (watch_identifier ?entry) ?c1) = system ?c1" by (simp add: remove_known_def)
    have "no_idle_watch c2"
      using Cons.prems(2) by (auto simp: no_idle_watch_def e(3) split: if_splits)
    with e True sys show ?thesis by (intro that [of c2]) (simp_all add: Let_def)
  next
    case False
    have "no_idle_watch ?c1"
      using Cons.prems(2) False by (auto simp: no_idle_watch_def split: if_splits)
    with False ok1 show ?thesis by (intro that [of ?c1]) auto
  qed
  have req2: "search_requests c2 h = Some ?r" using c2(4) by simp
  from Cons.IH [OF c2(2,3) req2 left] obtain c' where
    rest: "TransferObsoleteSearchRequest_loop os h wds c2 = Some c'" "links_ok table c'" "no_idle_watch c'"
      "search_requests c' = (search_requests c2)(h \<mapsto> ?r\<lparr>sr_watches := []\<rparr>)" "find_calls c' = find_calls c2"
      "obsolete_search_requests c' = obsolete_search_requests c2"
    by blast
  have "TransferObsoleteSearchRequest_loop os h (wd # wds) c = Some c'"
    using entry run c2(1) rest(1) w1 by (simp add: Let_def split del: if_split)
  moreover have "search_requests c' = (search_requests c)(h \<mapsto> r\<lparr>sr_watches := []\<rparr>)"
    unfolding rest(4) c2(4) by simp
  ultimately show ?case using rest(2,3,5,6) c2(5,6) by (intro exI [of _ c']) simp
qed

lemma drop_request_ok:
  assumes "links_ok table c" and "search_requests c h = Some r" and "sr_watches r = []"
  shows "links_ok table (c\<lparr>search_requests := (search_requests c)(h := None)\<rparr>)" (is "links_ok table ?c")
proof (rule links_okI)
  show "watch_ok table ?c x y" if "watches ?c x = Some y" for x y
  proof -
    from that have ok: "watch_ok table c x y" using links_okD(1) [OF assms(1)] by simp
    then have "h \<notin> set (find_service_handles y)" using assms(2,3) by (auto simp: watch_ok_def)
    with ok show ?thesis by (auto simp: watch_ok_def)
  qed
  show "request_ok ?c k q" if "search_requests ?c k = Some q" for k q
    using that links_okD(2) [OF assms(1), of k q] by (auto simp: request_ok_def split: if_splits)
  show "identifier_ok ?c idf iw" if "watched_identifiers ?c idf = Some iw" for idf iw
    using that links_okD(3) [OF assms(1), of idf iw] by (simp add: identifier_ok_def identifier_of_def)
qed

definition discovery_ok :: "('w \<Rightarrow> int \<rightharpoonup> string) \<Rightarrow> ('h, 'w) discovery_client \<Rightarrow> bool" where
  "discovery_ok table c \<longleftrightarrow> links_ok table c \<and> no_idle_watch c"

lemma TransferObsoleteSearchRequest_ok:
  assumes "inotify_laws os table" and "discovery_ok table c"
  shows "\<exists>c'. TransferObsoleteSearchRequest os h c = Some c' \<and> discovery_ok table c' \<and>
    search_requests c' = (search_requests c)(h := None) \<and> find_calls c' = find_calls c \<and>
    obsolete_search_requests c' = obsolete_search_requests c"
proof (cases "search_requests c h")
  case None
  then have "(search_requests c)(h := None) = search_requests c" by auto
  with None assms(2) show ?thesis by (simp add: TransferObsoleteSearchRequest_def)
next
  case (Some r)
  from assms(2) have ok: "links_ok table c" "no_idle_watch c" by (simp_all add: discovery_ok_def)
  from TransferObsolete_loop_ok [OF assms(1) ok Some refl] obtain c' where
    c': "TransferObsoleteSearchRequest_loop os h (sr_watches r) c = Some c'" "links_ok table c'" "no_idle_watch c'"
      "search_requests c' = (search_requests c)(h \<mapsto> r\<lparr>sr_watches := []\<rparr>)" "find_calls c' = find_calls c"
      "obsolete_search_requests c' = obsolete_search_requests c"
    by blast
  have "links_ok table (c'\<lparr>search_requests := (search_requests c')(h := None)\<rparr>)"
    using c'(2,4) by (intro drop_request_ok [where r = "r\<lparr>sr_watches := []\<rparr>"]) simp_all
  with c' Some show ?thesis
    by (simp add: TransferObsoleteSearchRequest_def discovery_ok_def no_idle_watch_def)
qed

lemma TransferObsolete_fold_ok:
  assumes "inotify_laws os table" and "discovery_ok table c"
  shows "\<exists>c'. fold_run (TransferObsoleteSearchRequest os) hs c = Some c' \<and> discovery_ok table c' \<and>
    search_requests c' = (search_requests c) |` (- set hs) \<and> find_calls c' = find_calls c"
  using assms(2)
proof (induction hs arbitrary: c)
  case Nil
  then show ?case by (simp add: restrict_map_def)
next
  case (Cons h hs)
  from TransferObsoleteSearchRequest_ok [OF assms(1) Cons.prems, of h] obtain c1 where
    c1: "TransferObsoleteSearchRequest os h c = Some c1" "discovery_ok table c1"
      "search_requests c1 = (search_requests c)(h := None)" "find_calls c1 = find_calls c"
    by blast
  have both: "((search_requests c)(h := None)) |` (- set hs) = (search_requests c) |` (- set (h # hs))"
    by (rule ext) (simp add: restrict_map_def)
  from Cons.IH [OF c1(2)] obtain c' where
    "fold_run (TransferObsoleteSearchRequest os) hs c1 = Some c'" "discovery_ok table c'"
    "search_requests c' = (search_requests c1) |` (- set hs)" "find_calls c' = find_calls c1"
    by blast
  then show ?case unfolding both [symmetric] by (intro exI [of _ c']) (simp add: c1)
qed

lemma TransferObsoleteSearchRequests_ok:
  assumes "inotify_laws os table" and "discovery_ok table c"
  shows "\<exists>c'. TransferObsoleteSearchRequests os c = Some c' \<and> discovery_ok table c' \<and>
    search_requests c' = (search_requests c) |` (- set (obsolete_search_requests c)) \<and> find_calls c' = find_calls c \<and>
    obsolete_search_requests c' = []"
proof -
  from TransferObsolete_fold_ok [OF assms, of "obsolete_search_requests c"] obtain c1 where
    c1: "fold_run (TransferObsoleteSearchRequest os) (obsolete_search_requests c) c = Some c1"
      "discovery_ok table c1" "search_requests c1 = (search_requests c) |` (- set (obsolete_search_requests c))"
      "find_calls c1 = find_calls c"
    by blast
  let ?c = "c1\<lparr>obsolete_search_requests := []\<rparr>"
  have "links_ok table ?c"
    by (rule links_ok_frame [where c = c1]) (use c1(2) in \<open>simp_all add: discovery_ok_def grows_def\<close>)
  moreover have "no_idle_watch ?c" using c1(2) by (simp add: discovery_ok_def no_idle_watch_def)
  moreover have "TransferObsoleteSearchRequests os c = Some ?c"
    unfolding TransferObsoleteSearchRequests_def c1(1) by simp
  moreover have "search_requests ?c = (search_requests c) |` (- set (obsolete_search_requests c))"
    "find_calls ?c = find_calls c" "obsolete_search_requests ?c = []"
    using c1(3,4) by simp_all
  ultimately show ?thesis unfolding discovery_ok_def by blast
qed

subsection \<open>A new search\<close>

lemma add_request_ok:
  assumes "links_ok table c" and "search_requests c h = None" and "sr_watches r = []"
    and "GetQualityType (sr_identifier r) \<noteq> kInvalid"
  shows "links_ok table (c\<lparr>search_requests := (search_requests c)(h \<mapsto> r)\<rparr>)" (is "links_ok table ?c")
proof (rule links_okI)
  show "watch_ok table ?c x y" if "watches ?c x = Some y" for x y
    using that links_okD(1) [OF assms(1), of x y] assms(2) by (fastforce simp: watch_ok_def)
  show "request_ok ?c k q" if "search_requests ?c k = Some q" for k q
    using that links_okD(2) [OF assms(1), of k q] assms(3,4) by (auto simp: request_ok_def split: if_splits)
  show "identifier_ok ?c idf iw" if "watched_identifiers ?c idf = Some iw" for idf iw
    using that links_okD(3) [OF assms(1), of idf iw] by (simp add: identifier_ok_def identifier_of_def)
qed

lemma TransferNewSearchRequest_ok:
  assumes "discovery_ok table c" and "search_requests c h = None" and "GetQualityType e \<noteq> kInvalid"
    and "distinct (map fst ws)" and "\<forall>x \<in> set ws. watched_at table (system c) x"
  shows "\<exists>c' r. TransferNewSearchRequest h e ws handler found handles c = Some c' \<and> discovery_ok table c' \<and>
    search_requests c' = (search_requests c)(h \<mapsto> r) \<and> sr_identifier r = e \<and> sr_handler r = handler \<and>
    previous_handles r = handles \<and> find_calls c' = find_calls c \<and>
    obsolete_search_requests c' = obsolete_search_requests c \<and>
    known_instances c' = merge_instances (known_instances c) found \<and> system c' = system c"
proof -
  let ?r = "\<lparr>sr_watches = [], sr_handler = handler, sr_identifier = e, previous_handles = handles\<rparr>"
  let ?c = "c\<lparr>search_requests := (search_requests c)(h \<mapsto> ?r)\<rparr>"
  have ok: "links_ok table ?c" using assms(1-3) by (intro add_request_ok) (simp_all add: discovery_ok_def)
  have idle: "no_idle_watch ?c" using assms(1) by (simp add: discovery_ok_def no_idle_watch_def)
  have "search_requests ?c h = Some ?r" "\<forall>x \<in> set ws. watched_at table (system ?c) x"
    "set (sr_watches ?r) \<inter> fst ` set ws = {}"
    using assms(5) by simp_all
  from link_watches_ok [OF ok idle this(1) assms(4) this(2,3)] obtain c1 r where
    c1: "link_watches h ws ?c = Some c1" "links_ok table c1" "no_idle_watch c1"
      "search_requests c1 = (search_requests ?c)(h \<mapsto> r)" "r\<lparr>sr_watches := []\<rparr> = ?r\<lparr>sr_watches := []\<rparr>"
      "system c1 = system ?c" "known_instances c1 = known_instances ?c" "find_calls c1 = find_calls ?c"
      "obsolete_search_requests c1 = obsolete_search_requests ?c"
    by blast
  have r: "sr_identifier r = e" "sr_handler r = handler" "previous_handles r = handles"
    using c1(5) by (cases r; simp)+
  have "links_ok table (merge_known found c1)"
    by (rule links_ok_frame [where c = c1]) (use c1(2) in \<open>simp_all add: merge_known_def grows_def\<close>)
  moreover have "no_idle_watch (merge_known found c1)" using c1(3) by (simp add: merge_known_def no_idle_watch_def)
  moreover have "TransferNewSearchRequest h e ws handler found handles c = Some (merge_known found c1)"
    using assms(2) c1(1) by (simp add: TransferNewSearchRequest_def contract_simps Let_def)
  ultimately show ?thesis
    using c1 r by (intro exI [of _ "merge_known found c1"] exI [of _ r]) (simp add: discovery_ok_def merge_known_def)
qed

lemma reuse_watches_ok:
  assumes "links_ok table c" and "\<forall>wd \<in> set wds. watches c wd \<noteq> None"
    and "distinct (map fst ws)" and "\<forall>x \<in> set ws. watched_at table (system c) x"
  shows "\<exists>ws'. reuse_watches wds ws c = Some ws' \<and> distinct (map fst ws') \<and>
    (\<forall>x \<in> set ws'. watched_at table (system c) x)"
  using assms(2-)
proof (induction wds arbitrary: ws)
  case Nil
  then show ?case by simp
next
  case (Cons wd wds)
  then obtain entry where entry: "watches c wd = Some entry" by auto
  have at: "watched_at table (system c) (wd, watch_identifier entry)"
    using links_okD(1) [OF assms(1) entry] by (simp add: watch_ok_def)
  note more = emplace_watch_props [where P = "watched_at table (system c)", OF Cons.prems(2,3) at]
  have "\<forall>wd \<in> set wds. watches c wd \<noteq> None" using Cons.prems(1) by simp
  from Cons.IH [OF this more] entry show ?case by simp
qed

text \<open>What is watched and known for a search that starts, or the failure of the crawl.\<close>

lemma main_watch_of_ok:
  assumes "links_ok table c" and "main_watch_of e c = Some (wd, children)"
  shows "\<forall>x \<in> set (wd # children). watches c x \<noteq> None"
proof -
  from assms(2) obtain iw where iw: "watched_identifiers c (LolaServiceInstanceIdentifier e) = Some iw"
    "main_watch iw = Some wd" "child_watches iw = children"
    by (auto simp: main_watch_of_def split: option.splits)
  from links_okD(3) [OF assms(1) iw(1)] iw(2,3) show ?thesis
    by (auto simp: identifier_ok_def identifier_of_def)
qed

lemma call_handler_ok: "discovery_ok table (call_handler stops f hs h c) = discovery_ok table c"
proof -
  have same: "watch_ok table (call_handler stops f hs h c) = watch_ok table c"
    "request_ok (call_handler stops f hs h c) = request_ok c"
    "identifier_ok (call_handler stops f hs h c) = identifier_ok c"
    by (simp_all add: watch_ok_def request_ok_def identifier_ok_def identifier_of_def fun_eq_iff)
  show ?thesis by (simp add: discovery_ok_def links_ok_def no_idle_watch_def same)
qed

lemma discovery_ok_system:
  assumes "discovery_ok table c" and "grows table (system c) w"
  shows "discovery_ok table (c\<lparr>system := w\<rparr>)"
proof -
  have "links_ok table (c\<lparr>system := w\<rparr>)"
    by (rule links_ok_frame [where c = c]) (use assms in \<open>simp_all add: discovery_ok_def\<close>)
  then show ?thesis using assms(1) by (simp add: discovery_ok_def no_idle_watch_def)
qed

lemma StartFindService_ok:
  assumes "inotify_laws os table" and "discovery_ok table c" and "search_requests c h = None"
    and "GetQualityType e \<noteq> kInvalid" and "proper_identifier e"
  shows "\<exists>r c'. StartFindService os stops h handler e c = Some (r, c') \<and> discovery_ok table c' \<and>
    (\<forall>k. k \<noteq> h \<longrightarrow> search_requests c' k = search_requests c k) \<and>
    (r \<noteq> Inr () \<longrightarrow> search_requests c' h = None \<and> find_calls c' = find_calls c)"
proof -
  from assms(2) have ok: "links_ok table c" by (simp add: discovery_ok_def)
  show ?thesis
  proof (cases "main_watch_of e c")
    case (Some x)
    obtain wd children where x: "x = (wd, children)" by (cases x)
    from reuse_watches_ok [OF ok main_watch_of_ok [OF ok Some [unfolded x]], of "[]"] obtain ws where
      ws: "reuse_watches (wd # children) [] c = Some ws" "distinct (map fst ws)"
        "\<forall>y \<in> set ws. watched_at table (system c) y"
      by auto
    obtain hs where hs: "GetKnownHandles_of_quality e (known_instances c) = Some hs"
      using GetKnownHandles_of_quality_total [OF assms(4)] by blast
    from TransferNewSearchRequest_ok [OF assms(2,3,4) ws(2,3)] obtain c' r where
      c': "TransferNewSearchRequest h e ws handler no_instances (set hs) c = Some c'" "discovery_ok table c'"
        "search_requests c' = (search_requests c)(h \<mapsto> r)"
      by blast
    have "StartFindService os stops h handler e c =
        Some (Inr (), if hs \<noteq> [] then call_handler stops handler hs h c' else c')"
      unfolding StartFindService_def using Some ws(1) hs c'(1) by (simp add: x del: reuse_watches.simps)
    then show ?thesis using c'(2,3) by (simp add: call_handler_ok)
  next
    case None
    from CrawlAndWatch_outcome [OF assms(1,5), of "system c"] obtain res w where
      crawl: "CrawlAndWatch os True e (system c) = Some (res, w)" and grown: "grows table (system c) w"
      and found: "\<And>ws known. res = Inr (ws, known) \<Longrightarrow> distinct (map fst ws) \<and> (\<forall>x \<in> set ws. watched_at table w x)"
      by blast
    let ?c = "c\<lparr>system := w\<rparr>"
    note ok1 = discovery_ok_system [OF assms(2) grown]
    show ?thesis
    proof (cases res)
      case (Inl err)
      with None crawl have "StartFindService os stops h handler e c = Some (Inl kBindingFailure, ?c)"
        by (simp add: StartFindService_def Let_def)
      with ok1 assms(3) show ?thesis by simp
    next
      case (Inr y)
      obtain ws known where y: "y = (ws, known)" by (cases y)
      obtain hs where hs: "GetKnownHandles_of_quality e known = Some hs"
        using GetKnownHandles_of_quality_total [OF assms(4)] by blast
      have "search_requests ?c h = None" using assms(3) by simp
      moreover have "distinct (map fst ws)" "\<forall>x \<in> set ws. watched_at table (system ?c) x"
        using found [of ws known] Inr y by simp_all
      ultimately obtain c' r where
        c': "TransferNewSearchRequest h e ws handler known (set hs) ?c = Some c'" "discovery_ok table c'"
          "search_requests c' = (search_requests ?c)(h \<mapsto> r)"
        using TransferNewSearchRequest_ok [OF ok1 _ assms(4)] by blast
      have "StartFindService os stops h handler e c =
          Some (Inr (), if hs \<noteq> [] then call_handler stops handler hs h c' else c')"
        unfolding StartFindService_def using None crawl Inr y hs c'(1) by (simp add: Let_def)
      then show ?thesis using c'(2,3) by (simp add: call_handler_ok)
    qed
  qed
qed

subsection \<open>A batch of events\<close>

text \<open>A batch without an overflow and without events on the directory of a whole service.\<close>

definition calm_events :: "(int \<rightharpoonup> watch) \<Rightarrow> inotify_event list \<Rightarrow> bool" where
  "calm_events ws evs \<longleftrightarrow>
     (\<forall>ev \<in> set evs. \<not> in_q_overflow ev \<and> (in_delete ev \<or> in_create ev \<longrightarrow> \<not> directory_event ws ev))"

definition created :: "inotify_event \<Rightarrow> bool" where
  "created ev \<longleftrightarrow> in_create ev \<and> \<not> inode_was_removed ev"

text \<open>What a calm batch makes of a client that has dropped its obsolete searches.\<close>

definition batch_handled ::
    "('h \<Rightarrow> handle_type list \<Rightarrow> u64 \<Rightarrow> u64 list) \<Rightarrow> inotify_event list \<Rightarrow> ('h, 'w) discovery_client \<Rightarrow>
     ('h \<times> handle_type list \<times> u64) list \<Rightarrow> ('h, 'w) discovery_client \<Rightarrow> bool" where
  "batch_handled stops evs c calls c' \<longleftrightarrow>
     watches c' = watches c \<and> watched_identifiers c' = watched_identifiers c \<and> system c' = system c \<and>
     told_more (search_requests c) (search_requests c') \<and> find_calls c' = find_calls c @ calls \<and>
     obeys_stops stops (set (obsolete_search_requests c)) calls \<and>
     (\<forall>q. q \<noteq> kInvalid \<longrightarrow> known_of q (known_instances c') =
        {si \<in> known_of q (known_instances c). \<not> (\<exists>ev \<in> set evs. in_delete ev \<and> flag_event (watches c) ev si q)} \<union>
        {si. \<exists>ev \<in> set evs. created ev \<and> flag_event (watches c) ev si q}) \<and>
     (\<forall>h r. h \<in> impacted_by (watches c) (filter (if Bex (set evs) created then created else in_delete) evs) \<and>
        h \<notin> set (obsolete_search_requests c') \<and> search_requests c' h = Some r \<longrightarrow> in_sync c' r)"

lemma obeys_stops_append:
  "obeys_stops stops stopped (a @ b) \<longleftrightarrow>
     obeys_stops stops stopped a \<and> obeys_stops stops (stopped \<union> (\<Union>(f, hs, h) \<in> set a. set (stops f hs h))) b"
  by (induction a arbitrary: stopped) (auto simp: Un_ac)

lemma told_valid: "told_more rs rs' \<Longrightarrow> valid_requests rs \<Longrightarrow> valid_requests rs'"
  unfolding valid_requests_def by (metis told_more_Some)

lemma in_sync_cong: "known_instances c' = known_instances c \<Longrightarrow> in_sync c' r = in_sync c r"
  by (simp add: in_sync_def)

lemma HandleDeletionEvents_outcome:
  assumes "\<forall>ev \<in> set evs. in_delete ev \<longrightarrow> \<not> directory_event (watches c) ev" and "valid_requests (search_requests c)"
  shows "\<exists>c1 keys c' calls. HandleDeletionEvents stops evs c = Some c' \<and> same_but_known c c1 \<and>
    set keys = impacted_by (watches c) (filter in_delete evs) \<and> handlers_told stops keys c1 calls c' \<and>
    (\<forall>q. q \<noteq> kInvalid \<longrightarrow> known_of q (known_instances c1) =
       {si \<in> known_of q (known_instances c). \<not> (\<exists>ev \<in> set evs. in_delete ev \<and> flag_event (watches c) ev si q)})"
proof -
  from HandleDeletionEvents_loop_outcome [OF assms(1), of "[]"] obtain keys c1 where
    loop: "HandleDeletionEvents_loop evs [] c = Some (keys, c1)" "same_but_known c c1"
      "set keys = impacted_by (watches c) (filter in_delete evs)" "distinct keys" and
    known: "\<forall>q. q \<noteq> kInvalid \<longrightarrow> known_of q (known_instances c1) =
       {si \<in> known_of q (known_instances c). \<not> (\<exists>ev \<in> set evs. in_delete ev \<and> flag_event (watches c) ev si q)}"
    by auto
  have "valid_requests (search_requests c1)" using assms(2) same_but_known_fields(2) [OF loop(2)] by simp
  from CallHandlers_outcome [OF loop(4) this] obtain c' calls where
    "CallHandlers stops keys c1 = Some c'" "handlers_told stops keys c1 calls c'"
    by blast
  with loop known show ?thesis
    by (intro exI [of _ c1] exI [of _ keys] exI [of _ c'] exI [of _ calls]) (simp add: HandleDeletionEvents_def)
qed

lemma HandleCreationEvents_outcome:
  assumes "\<forall>ev \<in> set evs. \<not> directory_event (watches c) ev" and "valid_requests (search_requests c)"
  shows "\<exists>c1 keys c' calls. HandleCreationEvents os stops evs c = Some c' \<and> same_but_known c c1 \<and>
    set keys = impacted_by (watches c) evs \<and> handlers_told stops keys c1 calls c' \<and>
    (\<forall>q. q \<noteq> kInvalid \<longrightarrow> known_of q (known_instances c1) =
       known_of q (known_instances c) \<union> {si. \<exists>ev \<in> set evs. flag_event (watches c) ev si q})"
proof -
  from HandleCreationEvents_loop_outcome [OF assms(1), of os "[]"] obtain keys c1 where
    loop: "HandleCreationEvents_loop os evs [] c = Some (keys, c1)" "same_but_known c c1"
      "set keys = impacted_by (watches c) evs" "distinct keys" and
    known: "\<forall>q. q \<noteq> kInvalid \<longrightarrow> known_of q (known_instances c1) =
       known_of q (known_instances c) \<union> {si. \<exists>ev \<in> set evs. flag_event (watches c) ev si q}"
    by auto
  have "valid_requests (search_requests c1)" using assms(2) same_but_known_fields(2) [OF loop(2)] by simp
  from CallHandlers_outcome [OF loop(4) this] obtain c' calls where
    "CallHandlers stops keys c1 = Some c'" "handlers_told stops keys c1 calls c'"
    by blast
  with loop known show ?thesis
    by (intro exI [of _ c1] exI [of _ keys] exI [of _ c'] exI [of _ calls]) (simp add: HandleCreationEvents_def)
qed

lemma handlers_toldD:
  assumes "handlers_told stops keys c calls c'"
  shows "find_calls c' = find_calls c @ calls" "watches c' = watches c" "watched_identifiers c' = watched_identifiers c"
    "known_instances c' = known_instances c" "system c' = system c" "told_more (search_requests c) (search_requests c')"
    "set (obsolete_search_requests c') = set (obsolete_search_requests c) \<union> (\<Union>(f, hs, h) \<in> set calls. set (stops f hs h))"
    "obeys_stops stops (set (obsolete_search_requests c)) calls"
    "h \<in> set keys \<Longrightarrow> h \<notin> set (obsolete_search_requests c') \<Longrightarrow> search_requests c' h = Some r \<Longrightarrow> in_sync c r"
    "h \<notin> called calls \<Longrightarrow> search_requests c' h = search_requests c h" "called calls \<subseteq> set keys"
  using assms unfolding handlers_told_def by blast+

text \<open>
  One round of calls, for the searches \<open>I\<close> that some events concern: every search that is called was
  active and had been told other handles than are known, and is called once, by its own handler, with
  exactly the handles that are known, which it then counts as told; and every such search is called,
  unless a call of this round stops it before.
\<close>

definition calls_round ::
    "('h \<Rightarrow> handle_type list \<Rightarrow> u64 \<Rightarrow> u64 list) \<Rightarrow> u64 set \<Rightarrow> ('h, 'w) discovery_client \<Rightarrow>
     ('h \<times> handle_type list \<times> u64) list \<Rightarrow> ('h, 'w) discovery_client \<Rightarrow> bool" where
  "calls_round stops I d calls d' \<longleftrightarrow>
     find_calls d' = find_calls d @ calls \<and> distinct (map (\<lambda>(f, hs, h). h) calls) \<and>
     obeys_stops stops (set (obsolete_search_requests d)) calls \<and>
     set (obsolete_search_requests d') = set (obsolete_search_requests d) \<union> (\<Union>(f, hs, h) \<in> set calls. set (stops f hs h)) \<and>
     (\<forall>(f, hs, h) \<in> set calls. h \<in> I \<and> due_call d (f, hs, h) \<and>
        (\<exists>r. search_requests d h = Some r \<and> search_requests d' h = Some (r\<lparr>previous_handles := set hs\<rparr>))) \<and>
     (\<forall>h. h \<notin> called calls \<longrightarrow> search_requests d' h = search_requests d h) \<and>
     (\<forall>f hs h. h \<in> I \<and> due_call d (f, hs, h) \<longrightarrow>
        h \<in> called calls \<or> (\<exists>(f', hs', h') \<in> set calls. h \<in> set (stops f' hs' h')))"

lemma told_more_previous:
  assumes "told_more rs rs'" and "rs h = Some r"
  shows "\<exists>p. rs' h = Some (r\<lparr>previous_handles := p\<rparr>)"
proof -
  obtain r' where r': "rs' h = Some r'" using told_more_None [OF assms(1), of h] assms(2) by (cases "rs' h") auto
  have "r'\<lparr>previous_handles := {}\<rparr> = r\<lparr>previous_handles := {}\<rparr>"
    using assms r' unfolding told_more_def by (metis option.simps(9) option.inject)
  then have "r' = r\<lparr>previous_handles := previous_handles r'\<rparr>" by (cases r; cases r') simp
  with r' show ?thesis by metis
qed

lemma handlers_told_round:
  assumes "handlers_told stops keys d calls d'"
  shows "calls_round stops (set keys) d calls d'"
proof -
  note told = assms [unfolded handlers_told_def]
  have each: "h \<in> set keys \<and> due_call d (f, hs, h) \<and>
      (\<exists>r. search_requests d h = Some r \<and> search_requests d' h = Some (r\<lparr>previous_handles := set hs\<rparr>))"
    if call: "(f, hs, h) \<in> set calls" for f hs h
  proof -
    have h: "h \<in> called calls" using call by (force simp: called_def)
    then have key: "h \<in> set keys" using told by blast
    have due: "due_call d (f, hs, h)" using told call by blast
    then obtain r where r: "search_requests d h = Some r"
        "set hs = handles_for (sr_identifier r) (known_of (GetQualityType (sr_identifier r)) (known_instances d))"
      by (auto simp: due_call_def)
    from told obtain p where p: "search_requests d' h = Some (r\<lparr>previous_handles := p\<rparr>)"
      using told_more_previous [of "search_requests d" "search_requests d'" h r] r(1) by blast
    have "in_sync d (r\<lparr>previous_handles := p\<rparr>)" using told key h p by blast
    then have "p = set hs" using r(2) by (simp add: in_sync_def)
    with key due r(1) p show ?thesis by blast
  qed
  have all: "h \<in> called calls \<or> (\<exists>(f', hs', h') \<in> set calls. h \<in> set (stops f' hs' h'))"
    if key: "h \<in> set keys" and due: "due_call d (f, hs, h)" for f hs h
  proof (rule ccontr)
    assume none: "\<not> ?thesis"
    have "h \<notin> set (obsolete_search_requests d)" using due by (simp add: due_call_def)
    with none told have "h \<notin> set (obsolete_search_requests d')" by auto
    moreover have "search_requests d' h = search_requests d h" using none told by blast
    moreover obtain r where "search_requests d h = Some r" "\<not> in_sync d r" using due by (auto simp: due_call_def)
    ultimately show False using told key by metis
  qed
  have "find_calls d' = find_calls d @ calls" "distinct (map (\<lambda>(f, hs, h). h) calls)"
    "obeys_stops stops (set (obsolete_search_requests d)) calls"
    "set (obsolete_search_requests d') = set (obsolete_search_requests d) \<union> (\<Union>(f, hs, h) \<in> set calls. set (stops f hs h))"
    "\<forall>h. h \<notin> called calls \<longrightarrow> search_requests d' h = search_requests d h"
    using told by blast+
  moreover have "\<forall>(f, hs, h) \<in> set calls. h \<in> set keys \<and> due_call d (f, hs, h) \<and>
      (\<exists>r. search_requests d h = Some r \<and> search_requests d' h = Some (r\<lparr>previous_handles := set hs\<rparr>))"
    using each by blast
  moreover have "\<forall>f hs h. h \<in> set keys \<and> due_call d (f, hs, h) \<longrightarrow>
      h \<in> called calls \<or> (\<exists>(f', hs', h') \<in> set calls. h \<in> set (stops f' hs' h'))"
    by (intro allI impI, elim conjE) (rule all)
  ultimately show ?thesis unfolding calls_round_def by (intro conjI)
qed

text \<open>The two rounds of a batch: after the deletions, and after the creations.\<close>

definition two_rounds ::
    "('h \<Rightarrow> handle_type list \<Rightarrow> u64 \<Rightarrow> u64 list) \<Rightarrow> inotify_event list \<Rightarrow> ('h, 'w) discovery_client \<Rightarrow>
     ('h \<times> handle_type list \<times> u64) list \<Rightarrow> ('h, 'w) discovery_client \<Rightarrow> bool" where
  "two_rounds stops evs c calls c' \<longleftrightarrow>
     (\<exists>d1 c1 d2 calls1 calls2. calls = calls1 @ calls2 \<and>
        same_but_known c d1 \<and>
        (\<forall>q. q \<noteq> kInvalid \<longrightarrow> known_of q (known_instances d1) =
           {si \<in> known_of q (known_instances c). \<not> (\<exists>ev \<in> set evs. in_delete ev \<and> flag_event (watches c) ev si q)}) \<and>
        calls_round stops (impacted_by (watches c) (filter in_delete evs)) d1 calls1 c1 \<and>
        same_but_known c1 d2 \<and>
        (\<forall>q. q \<noteq> kInvalid \<longrightarrow> known_of q (known_instances d2) =
           known_of q (known_instances d1) \<union> {si. \<exists>ev \<in> set evs. created ev \<and> flag_event (watches c) ev si q}) \<and>
        calls_round stops (impacted_by (watches c) (filter created evs)) d2 calls2 c')"

lemma batch_outcome:
  assumes "calm_events (watches c) evs" and "valid_requests (search_requests c)"
  shows "\<exists>c1 c' calls. HandleDeletionEvents stops (filter inode_was_removed evs) c = Some c1 \<and>
    HandleCreationEvents os stops (filter (\<lambda>ev. \<not> inode_was_removed ev \<and> in_create ev) evs) c1 = Some c' \<and>
    batch_handled stops evs c calls c' \<and> two_rounds stops evs c calls c'"
proof -
  let ?del = "filter inode_was_removed evs" and ?cre = "filter (\<lambda>ev. \<not> inode_was_removed ev \<and> in_create ev) evs"
  have "\<forall>ev \<in> set ?del. in_delete ev \<longrightarrow> \<not> directory_event (watches c) ev"
    using assms(1) by (auto simp: calm_events_def)
  from HandleDeletionEvents_outcome [OF this assms(2), of stops] obtain d1 keys c1 calls1 where
    d: "HandleDeletionEvents stops ?del c = Some c1" "same_but_known c d1"
      "set keys = impacted_by (watches c) (filter in_delete ?del)" "handlers_told stops keys d1 calls1 c1"
      "\<forall>q. q \<noteq> kInvalid \<longrightarrow> known_of q (known_instances d1) =
        {si \<in> known_of q (known_instances c). \<not> (\<exists>ev \<in> set ?del. in_delete ev \<and> flag_event (watches c) ev si q)}"
    by blast
  note same1 = same_but_known_fields [OF d(2)] and told1 = handlers_toldD [OF d(4)]
  have w1: "watches c1 = watches c" using same1 told1 by simp
  have "\<forall>ev \<in> set ?cre. \<not> directory_event (watches c1) ev" "valid_requests (search_requests c1)"
    using assms w1 told_valid [OF told1(6)] same1 by (auto simp: calm_events_def)
  from HandleCreationEvents_outcome [OF this, of os stops] obtain d2 keys2 c' calls2 where
    e: "HandleCreationEvents os stops ?cre c1 = Some c'" "same_but_known c1 d2"
      "set keys2 = impacted_by (watches c1) ?cre" "handlers_told stops keys2 d2 calls2 c'"
      "\<forall>q. q \<noteq> kInvalid \<longrightarrow> known_of q (known_instances d2) =
        known_of q (known_instances c1) \<union> {si. \<exists>ev \<in> set ?cre. flag_event (watches c1) ev si q}"
    by blast
  note same2 = same_but_known_fields [OF e(2)] and told2 = handlers_toldD [OF e(4)]
  have del: "(\<exists>ev \<in> set ?del. in_delete ev \<and> P ev) \<longleftrightarrow> (\<exists>ev \<in> set evs. in_delete ev \<and> P ev)" for P
    by (auto simp: inode_was_removed_def)
  have cre: "(\<exists>ev \<in> set ?cre. P ev) \<longleftrightarrow> (\<exists>ev \<in> set evs. created ev \<and> P ev)" for P
    by (auto simp: created_def)
  have known: "known_of q (known_instances c') =
        {si \<in> known_of q (known_instances c). \<not> (\<exists>ev \<in> set evs. in_delete ev \<and> flag_event (watches c) ev si q)} \<union>
        {si. \<exists>ev \<in> set evs. created ev \<and> flag_event (watches c) ev si q}" if "q \<noteq> kInvalid" for q
    unfolding told2(4) e(5) [rule_format, OF that] told1(4) d(5) [rule_format, OF that] w1 del cre ..
  have sync: "in_sync c' r" if h: "h \<in> impacted_by (watches c) (filter (if Bex (set evs) created then created else in_delete) evs)"
    "h \<notin> set (obsolete_search_requests c')" "search_requests c' h = Some r" for h r
  proof (cases "Bex (set evs) created")
    case True
    have cre: "?cre = filter created evs" by (rule filter_cong) (auto simp: created_def)
    with h True have "h \<in> set keys2" by (simp add: e(3) w1)
    from told2(9) [OF this h(2,3)] show ?thesis by (simp add: in_sync_def told2)
  next
    case False
    then have none: "?cre = []" by (auto simp: created_def filter_empty_conv)
    have "filter in_delete ?del = filter in_delete evs"
      unfolding filter_filter by (rule filter_cong) (auto simp: inode_was_removed_def)
    with h False have key: "h \<in> set keys" by (simp add: d(3))
    have c': "c' = c1" using e(1) none by (simp add: HandleCreationEvents_def)
    from told1(9) [OF key] h(2,3) show ?thesis by (simp add: c' in_sync_def told1)
  qed
  have told: "told_more (search_requests c) (search_requests c')"
    using told_more_trans [OF told1(6)] told2(6) same1 same2 by metis
  have stop: "obeys_stops stops (set (obsolete_search_requests c)) (calls1 @ calls2)"
    using told1(7,8) told2(8) same1 same2 by (simp add: obeys_stops_append)
  have calls: "find_calls c' = find_calls c @ calls1 @ calls2" using told1 told2 same1 same2 by simp
  have frame: "watches c' = watches c" "watched_identifiers c' = watched_identifiers c" "system c' = system c"
    using told1 told2 same1 same2 by simp_all
  have "batch_handled stops evs c (calls1 @ calls2) c'"
    unfolding batch_handled_def using frame told calls stop known sync by blast
  moreover have "two_rounds stops evs c (calls1 @ calls2) c'"
  proof -
    have evs: "filter in_delete ?del = filter in_delete evs" "?cre = filter created evs"
      unfolding filter_filter by (rule filter_cong; auto simp: inode_was_removed_def created_def)+
    have "calls_round stops (impacted_by (watches c) (filter in_delete evs)) d1 calls1 c1"
      using handlers_told_round [OF d(4)] unfolding d(3) evs(1) .
    moreover have "calls_round stops (impacted_by (watches c) (filter created evs)) d2 calls2 c'"
      using handlers_told_round [OF e(4)] unfolding e(3) w1 evs(2) .
    moreover have "known_of q (known_instances d2) =
        known_of q (known_instances d1) \<union> {si. \<exists>ev \<in> set evs. created ev \<and> flag_event (watches c) ev si q}"
      if "q \<noteq> kInvalid" for q
      unfolding e(5) [rule_format, OF that] told1(4) w1 cre ..
    ultimately show ?thesis
      unfolding two_rounds_def using d(2) d(5) [unfolded del] e(2) by blast
  qed
  ultimately show ?thesis using d(1) e(1) by blast
qed

lemma HandleEvents_outcome:
  assumes "TransferObsoleteSearchRequests os c = Some c1" and "calm_events (watches c1) evs"
    and "valid_requests (search_requests c1)"
  shows "\<exists>c' calls. HandleEvents os stops (Some evs) c = Some c' \<and> batch_handled stops evs c1 calls c' \<and>
    two_rounds stops evs c1 calls c'"
proof -
  from batch_outcome [OF assms(2,3), of stops os] obtain c2 c' calls where
    "HandleDeletionEvents stops (filter inode_was_removed evs) c1 = Some c2"
    "HandleCreationEvents os stops (filter (\<lambda>ev. \<not> inode_was_removed ev \<and> in_create ev) evs) c2 = Some c'"
    "batch_handled stops evs c1 calls c'" "two_rounds stops evs c1 calls c'"
    by blast
  moreover have "\<not> list_ex in_q_overflow evs" using assms(2) by (auto simp: calm_events_def list_ex_iff)
  ultimately show ?thesis
    using assms(1) by (intro exI [of _ c'] exI [of _ calls]) (simp add: HandleEvents_def contract_simps Let_def)
qed

lemma batch_handled_ok:
  assumes "discovery_ok table c" and "batch_handled stops evs c calls c'"
  shows "discovery_ok table c'"
proof -
  have "watches c' = watches c" "watched_identifiers c' = watched_identifiers c" "system c' = system c"
    "told_more (search_requests c) (search_requests c')"
    using assms(2) unfolding batch_handled_def by blast+
  with assms(1) show ?thesis unfolding discovery_ok_def no_idle_watch_def by (metis links_ok_told)
qed

end
