(* ===== verification/Memory_File_System.thy ===== *)
theory Memory_File_System
  imports Service_Discovery_Safety
begin

text \<open>
  A small file system with inotify, held in memory: an instance of the operations that the service
  discovery uses, for which the laws it relies on hold. Every operation succeeds, but removing a
  file that is not there.
\<close>

record memory =
  directories :: "string list"
  regular_files :: "(string \<times> string) list"
  watch_table :: "(int \<times> string) list"

definition split_path :: "string \<Rightarrow> string \<times> string" where
  "split_path p =
     (let name = rev (takeWhile (\<lambda>c. c \<noteq> CHR ''/'') (rev p)) in (take (length p - length name - 1) p, name))"

definition memory_entries :: "string \<Rightarrow> memory \<Rightarrow> (string \<times> file_type option) list" where
  "memory_entries p w =
     map (\<lambda>(d, name). (name, Some kRegular)) (filter (\<lambda>(d, name). d = p \<and> CHR ''/'' \<notin> set name) (regular_files w)) @
     map (\<lambda>(d, name). (name, Some kDirectory)) (filter (\<lambda>(d, name). d = p) (map split_path (directories w)))"

definition watch_of :: "string \<Rightarrow> (int \<times> string) list \<Rightarrow> int option" where
  "watch_of p t = map_of (map (\<lambda>(wd, q). (q, wd)) (filter (\<lambda>(wd, q). map_of t wd = Some q) t)) p"

definition fresh_watch :: "(int \<times> string) list \<Rightarrow> int" where
  "fresh_watch t = foldr max (map fst t) 0 + 1"

definition memory_add_watch :: "string \<Rightarrow> memory \<Rightarrow> int option \<times> memory" where
  "memory_add_watch p w =
     (case watch_of p (watch_table w) of
        Some wd \<Rightarrow> (Some wd, w)
      | None \<Rightarrow> (Some (fresh_watch (watch_table w)),
                 w\<lparr>watch_table := (fresh_watch (watch_table w), p) # watch_table w\<rparr>))"

definition memory_os :: "memory discovery_os" where
  "memory_os =
     \<lparr>os_create_directories = (\<lambda>p w. (True, if p \<in> set (directories w) then w else w\<lparr>directories := p # directories w\<rparr>)),
      os_status = (\<lambda>p w. if p \<in> set (directories w) then Some (kDirectory, True) else None),
      os_entries = memory_entries,
      os_remove = (\<lambda>p w. (split_path p \<in> set (regular_files w), w\<lparr>regular_files := removeAll (split_path p) (regular_files w)\<rparr>)),
      os_open_out = (\<lambda>p w. (True, w\<lparr>regular_files := split_path p # removeAll (split_path p) (regular_files w)\<rparr>)),
      os_permissions = (\<lambda>p w. (True, w)),
      os_add_watch = memory_add_watch,
      os_remove_watch = (\<lambda>wd w. w\<lparr>watch_table := filter (\<lambda>(k, p). k \<noteq> wd) (watch_table w)\<rparr>),
      os_getpid = 7\<rparr>"

definition memory_table :: "memory \<Rightarrow> int \<rightharpoonup> string" where
  "memory_table w = map_of (watch_table w)"

definition empty_memory :: memory where
  "empty_memory = \<lparr>directories = [], regular_files = [], watch_table = []\<rparr>"

lemma fresh_watch: "wd \<in> fst ` set t \<Longrightarrow> wd < fresh_watch t"
  by (induction t) (auto simp: fresh_watch_def le_max_iff_disj)

lemma map_of_fresh: "map_of t (fresh_watch t) = None"
  using fresh_watch [of "fresh_watch t" t] by (auto simp: map_of_eq_None_iff)

lemma watch_of_Some: "watch_of p t = Some wd \<Longrightarrow> map_of t wd = Some p"
  by (auto simp: watch_of_def dest!: map_of_SomeD)

lemma map_of_remove: "map_of (filter (\<lambda>(k, p). k \<noteq> wd) t) = (map_of t)(wd := None)"
  by (induction t) auto

lemma memory_inotify_laws: "inotify_laws memory_os memory_table"
  unfolding inotify_laws_def
proof (intro conjI allI impI)
  fix p w wd w' assume "os_add_watch memory_os p w = (Some wd, w')"
  then show "memory_table w wd = None \<or> memory_table w wd = Some p" "memory_table w' = (memory_table w)(wd \<mapsto> p)"
    by (auto simp: memory_os_def memory_add_watch_def memory_table_def map_of_fresh fun_upd_idem
        split: option.splits dest!: watch_of_Some)
next
  fix p w w' assume "os_add_watch memory_os p w = (None, w')"
  then show "memory_table w' = memory_table w"
    by (auto simp: memory_os_def memory_add_watch_def split: option.splits)
qed (auto simp: memory_os_def memory_table_def map_of_remove)

lemma split_path_append: "CHR ''/'' \<notin> set name \<Longrightarrow> split_path (path_append d name) = (d, name)"
proof -
  assume "CHR ''/'' \<notin> set name"
  then have "takeWhile (\<lambda>c. c \<noteq> CHR ''/'') (rev name @ CHR ''/'' # rev d) = rev name"
    by (subst takeWhile_append2) auto
  then have "takeWhile (\<lambda>c. c \<noteq> CHR ''/'') (rev (path_append d name)) = rev name"
    by (simp add: path_append_def)
  then show ?thesis by (simp add: split_path_def path_append_def)
qed

end
