(* ===== verification/Service_Discovery_History.thy ===== *)
theory Service_Discovery_History
  imports Service_Discovery_Links Memory_File_System
begin

text \<open>
  Histories of the service discovery client: searches are started and stopped, batches of inotify
  events arrive, and the system changes in between. Offering a service changes no part of the search
  side but the system, so it is one of the changes of the system here. The properties say that a
  history in which every batch is calm runs to its end with consistent links, that a stopped search
  is silent, and what a batch of events does.
\<close>

datatype ('h, 'w) discovery_step =
    StartSearch u64 'h enriched_instance_identifier
  | StopSearch u64
  | FindOnce enriched_instance_identifier
  | Events "inotify_event list option"
  | Outside "'w \<Rightarrow> 'w"

definition discovery_step ::
    "'w discovery_os \<Rightarrow> ('h \<Rightarrow> handle_type list \<Rightarrow> u64 \<Rightarrow> u64 list) \<Rightarrow> ('h, 'w) discovery_step \<Rightarrow>
     ('h, 'w) discovery_client \<Rightarrow> ('h, 'w) discovery_client run" where
  "discovery_step os stops st c =
     (case st of
        StartSearch h handler e \<Rightarrow> map_option snd (StartFindService os stops h handler e c)
      | StopSearch h \<Rightarrow> Some (snd (StopFindService h c))
      | FindOnce e \<Rightarrow> map_option snd (FindService os e c)
      | Events evs \<Rightarrow> HandleEvents os stops evs c
      | Outside f \<Rightarrow> Some (c\<lparr>system := f (system c)\<rparr>))"

subsection \<open>Silence\<close>

text \<open>What no operation but a start, a stop and a call of a handler changes.\<close>

definition same_calls :: "('h, 'w) discovery_client \<Rightarrow> ('h, 'w) discovery_client \<Rightarrow> bool" where
  "same_calls c c' \<longleftrightarrow> find_calls c' = find_calls c \<and> obsolete_search_requests c' = obsolete_search_requests c \<and>
     dom (search_requests c') = dom (search_requests c)"

lemma same_calls_refl [simp]: "same_calls c c"
  by (simp add: same_calls_def)

lemma same_calls_trans: "same_calls a b \<Longrightarrow> same_calls b c \<Longrightarrow> same_calls a c"
  by (simp add: same_calls_def)

lemma same_calls_simps [simp]:
  "same_calls c (StoreWatch wd e c)" "same_calls c (remove_known e c)" "same_calls c (merge_known k c)"
  "same_calls c (c\<lparr>system := w\<rparr>)" "same_calls c (c\<lparr>known_instances := kk\<rparr>)"
  by (simp_all add: same_calls_def StoreWatch_frame remove_known_def merge_known_def)

lemma Link_calls: "LinkWatchWithSearchRequest wd h c = Some c' \<Longrightarrow> same_calls c c'"
  by (auto simp: LinkWatchWithSearchRequest_def contract_simps same_calls_def split: Option.bind_splits if_splits)

lemma Unlink_calls: "UnlinkWatchWithSearchRequest wd h c = Some c' \<Longrightarrow> same_calls c c'"
  by (auto simp: UnlinkWatchWithSearchRequest_def contract_simps same_calls_def split: Option.bind_splits if_splits)

lemma Erase_calls: "EraseWatch wd c = Some c' \<Longrightarrow> same_calls c c'"
  by (auto simp: EraseWatch_def contract_simps same_calls_def Let_def split: Option.bind_splits if_splits)

lemma Link_all_calls: "fold_run (LinkWatchWithSearchRequest wd) hs c = Some c' \<Longrightarrow> same_calls c c'"
  by (induction hs arbitrary: c) (auto split: Option.bind_splits dest: Link_calls intro: same_calls_trans)

lemma link_watches_calls: "link_watches h ws c = Some c' \<Longrightarrow> same_calls c c'"
proof (induction ws arbitrary: c)
  case Nil
  then show ?case by simp
next
  case (Cons x ws)
  obtain wd e where x: "x = (wd, e)" by (cases x)
  with Cons.prems obtain c1 where c1: "LinkWatchWithSearchRequest wd h (StoreWatch wd e c) = Some c1"
    "link_watches h ws c1 = Some c'"
    by (auto split: Option.bind_splits)
  have "same_calls c (StoreWatch wd e c)" by simp
  from same_calls_trans [OF same_calls_trans [OF this Link_calls [OF c1(1)]] Cons.IH [OF c1(2)]] show ?case .
qed

lemma obsolete_loop_calls:
  "TransferObsoleteSearchRequest_loop os h wds c = Some c' \<Longrightarrow> same_calls c c'"
proof (induction wds arbitrary: c)
  case Nil
  then show ?case by simp
next
  case (Cons wd wds)
  show ?case
  proof (cases "watches c wd")
    case None
    with Cons show ?thesis by simp
  next
    case (Some x)
    with Cons.prems obtain c1 c2 and entry :: watch where c1: "UnlinkWatchWithSearchRequest wd h c = Some c1"
      and c2: "(if find_service_handles entry = [] then
                (let c = remove_known (watch_identifier entry) c1;
                     c = c\<lparr>system := os_remove_watch os wd (system c)\<rparr>
                 in EraseWatch wd c) else Some c1) = Some c2"
      and rest: "TransferObsoleteSearchRequest_loop os h wds c2 = Some c'"
      by (auto split: Option.bind_splits split del: if_split)
    have "same_calls c1 c2"
    proof (cases "find_service_handles entry = []")
      case True
      let ?d = "remove_known (watch_identifier entry) c1"
      let ?e = "?d\<lparr>system := os_remove_watch os wd (system ?d)\<rparr>"
      have "EraseWatch wd ?e = Some c2" using c2 True by (simp add: Let_def)
      moreover have "same_calls c1 ?e" by (rule same_calls_trans [of _ ?d]) simp_all
      ultimately show ?thesis by (blast intro: same_calls_trans Erase_calls)
    next
      case False
      with c2 show ?thesis by simp
    qed
    with Unlink_calls [OF c1] Cons.IH [OF rest] show ?thesis by (blast intro: same_calls_trans)
  qed
qed

text \<open>A search is silenced when it is stopped or does not exist.\<close>

definition silenced :: "u64 \<Rightarrow> ('h, 'w) discovery_client \<Rightarrow> bool" where
  "silenced h c \<longleftrightarrow> h \<in> set (obsolete_search_requests c) \<or> search_requests c h = None"

lemma silenced_same: "same_calls c c' \<Longrightarrow> silenced h c \<Longrightarrow> silenced h c'"
  unfolding same_calls_def silenced_def by (metis domIff)

definition silent_to :: "u64 \<Rightarrow> ('h, 'w) discovery_client \<Rightarrow> ('h, 'w) discovery_client \<Rightarrow> bool" where
  "silent_to h c c' \<longleftrightarrow> silenced h c' \<and> (\<exists>calls. find_calls c' = find_calls c @ calls \<and> h \<notin> called calls)"

lemma called_append: "called (a @ b) = called a \<union> called b"
  by (simp add: called_def image_Un)

lemma silent_to_same: "same_calls c c' \<Longrightarrow> silenced h c \<Longrightarrow> silent_to h c c'"
  by (auto simp: silent_to_def silenced_same) (auto simp: same_calls_def)

lemma silent_to_trans:
  assumes "silent_to h a b" and "silent_to h b c"
  shows "silent_to h a c"
proof -
  from assms obtain x y where "silenced h c" "find_calls b = find_calls a @ x" "h \<notin> called x"
    "find_calls c = find_calls b @ y" "h \<notin> called y"
    by (auto simp: silent_to_def)
  then show ?thesis unfolding silent_to_def by (intro conjI exI [of _ "x @ y"]) (simp_all add: called_append)
qed

lemma silent_toD: "silent_to h c c' \<Longrightarrow> silenced h c'"
  by (simp add: silent_to_def)

lemma call_handler_silent:
  "silenced h c \<Longrightarrow> k \<noteq> h \<Longrightarrow> silent_to h c (call_handler stops f hs k c)"
  by (auto simp: silent_to_def silenced_def)

lemma CallHandlers_silent:
  assumes "CallHandlers stops keys c = Some c'" and "silenced h c"
  shows "silent_to h c c'"
  using assms
proof (induction keys arbitrary: c)
  case Nil
  then show ?case by (simp add: silent_to_same)
next
  case (Cons key keys)
  show ?case
  proof (cases "search_requests c key")
    case None
    with Cons show ?thesis by simp
  next
    case (Some r)
    show ?thesis
    proof (cases "key \<in> set (obsolete_search_requests c)")
      case True
      with Cons Some show ?thesis by simp
    next
      case False
      with Some Cons.prems obtain hs where hs: "GetKnownHandles_of_quality (sr_identifier r) (known_instances c) = Some hs"
        by (auto split: Option.bind_splits)
      show ?thesis
      proof (cases "previous_handles r = set hs")
        case True
        with Cons Some False hs show ?thesis by simp
      next
        case changed: False
        have "key \<noteq> h" using Cons.prems(2) Some False by (auto simp: silenced_def)
        let ?c = "c\<lparr>search_requests := (search_requests c)(key \<mapsto> r\<lparr>previous_handles := set hs\<rparr>)\<rparr>"
        have same: "same_calls c ?c" using Some by (auto simp: same_calls_def)
        note s1 = silent_to_same [OF same Cons.prems(2)]
        note s2 = silent_to_trans [OF s1 call_handler_silent [OF silent_toD [OF s1] \<open>key \<noteq> h\<close>]]
        have "CallHandlers stops keys (call_handler stops (sr_handler r) hs key ?c) = Some c'"
          using Cons.prems(1) Some False hs changed by (simp add: Let_def)
        from silent_to_trans [OF s2 Cons.IH [OF this silent_toD [OF s2]]] show ?thesis .
      qed
    qed
  qed
qed

lemma OnInstanceDirectoryCreated_calls:
  assumes "OnInstanceDirectoryCreated os entry name c = Some c'"
  shows "same_calls c c'"
proof (cases "ConvertFromStringToInstanceId name")
  case (Inl err)
  with assms show ?thesis by (simp add: OnInstanceDirectoryCreated_def)
next
  case (Inr i)
  with assms obtain e ws known w where
    "CrawlAndWatch os True e (system c) = Some (Inr (ws, known), w)" and
    rest: "(case hd ws of (wd, e) \<Rightarrow> fold_run (LinkWatchWithSearchRequest wd) (find_service_handles entry)
      (StoreWatch wd e (c\<lparr>system := w\<rparr>))) \<bind> (\<lambda>c. Some (merge_known known c)) = Some c'"
    by (auto simp: OnInstanceDirectoryCreated_def contract_simps Let_def case_prod_beta
        split: Option.bind_splits sum.splits if_splits)
  obtain wd e' where "hd ws = (wd, e')" by (cases "hd ws")
  with rest obtain c1 where
    c1: "fold_run (LinkWatchWithSearchRequest wd) (find_service_handles entry) (StoreWatch wd e' (c\<lparr>system := w\<rparr>)) = Some c1"
      "c' = merge_known known c1"
    by (auto split: Option.bind_splits)
  have "same_calls c (StoreWatch wd e' (c\<lparr>system := w\<rparr>))"
    by (rule same_calls_trans [of _ "c\<lparr>system := w\<rparr>"]) simp_all
  from same_calls_trans [OF this Link_all_calls [OF c1(1)]] show ?thesis
    unfolding c1(2) by (rule same_calls_trans) simp
qed

lemma HandleDeletionEvents_loop_calls:
  "HandleDeletionEvents_loop evs imp c = Some (keys, c') \<Longrightarrow> same_calls c c'"
proof (induction evs arbitrary: imp c)
  case Nil
  then show ?case by simp
next
  case (Cons ev evs)
  have step: "same_calls c (OnInstanceFlagFileRemoved e n c)" for e n by (simp add: OnInstanceFlagFileRemoved_def)
  from Cons show ?case by (auto split: option.splits if_splits intro: same_calls_trans [OF step])
qed

lemma HandleCreationEvents_loop_calls:
  "HandleCreationEvents_loop os evs imp c = Some (keys, c') \<Longrightarrow> same_calls c c'"
proof (induction evs arbitrary: imp c)
  case Nil
  then show ?case by simp
next
  case (Cons ev evs)
  have step: "same_calls c (OnInstanceFlagFileCreated e n c)" for e n by (simp add: OnInstanceFlagFileCreated_def)
  from Cons show ?case
    by (auto split: option.splits if_splits Option.bind_splits
        intro: same_calls_trans [OF step] same_calls_trans [OF OnInstanceDirectoryCreated_calls])
qed

lemma obsolete_search_gone:
  assumes "TransferObsoleteSearchRequest os k c = Some c'"
  shows "find_calls c' = find_calls c \<and> obsolete_search_requests c' = obsolete_search_requests c \<and>
    dom (search_requests c') = dom (search_requests c) - {k}"
proof (cases "search_requests c k")
  case None
  with assms show ?thesis by (auto simp: TransferObsoleteSearchRequest_def)
next
  case (Some r)
  with assms obtain c1 where c1: "TransferObsoleteSearchRequest_loop os k (sr_watches r) c = Some c1"
    "c' = c1\<lparr>search_requests := (search_requests c1)(k := None)\<rparr>"
    by (auto simp: TransferObsoleteSearchRequest_def split: Option.bind_splits)
  from obsolete_loop_calls [OF c1(1)] show ?thesis by (simp add: same_calls_def c1(2))
qed

lemma obsolete_searches_gone:
  assumes "fold_run (TransferObsoleteSearchRequest os) ks c = Some c'"
  shows "find_calls c' = find_calls c \<and> dom (search_requests c') = dom (search_requests c) - set ks"
  using assms
proof (induction ks arbitrary: c)
  case Nil
  then show ?case by simp
next
  case (Cons k ks)
  then obtain c1 where "TransferObsoleteSearchRequest os k c = Some c1" "fold_run (TransferObsoleteSearchRequest os) ks c1 = Some c'"
    by (auto split: Option.bind_splits)
  with obsolete_search_gone [OF this(1)] Cons.IH [OF this(2)] show ?case by auto
qed

lemma TransferObsoleteSearchRequests_silent:
  assumes "TransferObsoleteSearchRequests os c = Some c'" and "silenced h c"
  shows "silent_to h c c'"
proof -
  from assms(1) obtain c1 where "fold_run (TransferObsoleteSearchRequest os) (obsolete_search_requests c) c = Some c1"
    "c' = c1\<lparr>obsolete_search_requests := []\<rparr>"
    by (auto simp: TransferObsoleteSearchRequests_def split: Option.bind_splits)
  with obsolete_searches_gone [OF this(1)] assms(2) have "find_calls c' = find_calls c" "h \<notin> dom (search_requests c')"
    by (auto simp: silenced_def)
  then show ?thesis by (auto simp: silent_to_def silenced_def)
qed

lemma HandleEvents_silent:
  assumes "HandleEvents os stops evs c = Some c'" and "silenced h c"
  shows "silent_to h c c'"
proof -
  from assms(1) obtain c1 where c1: "TransferObsoleteSearchRequests os c = Some c1"
    by (auto simp: HandleEvents_def split: Option.bind_splits)
  note s1 = TransferObsoleteSearchRequests_silent [OF c1 assms(2)]
  show ?thesis
  proof (cases evs)
    case None
    with assms(1) c1 s1 show ?thesis by (simp add: HandleEvents_def)
  next
    case (Some es)
    let ?del = "filter inode_was_removed es" and ?cre = "filter (\<lambda>ev. \<not> inode_was_removed ev \<and> in_create ev) es"
    from assms(1) c1 Some obtain c2 where c2: "HandleDeletionEvents stops ?del c1 = Some c2"
      "HandleCreationEvents os stops ?cre c2 = Some c'"
      by (auto simp: HandleEvents_def contract_simps Let_def split: Option.bind_splits if_splits)
    from c2(1) obtain k1 d1 where d1: "HandleDeletionEvents_loop ?del [] c1 = Some (k1, d1)" "CallHandlers stops k1 d1 = Some c2"
      by (auto simp: HandleDeletionEvents_def split: Option.bind_splits)
    from c2(2) obtain k2 d2 where d2: "HandleCreationEvents_loop os ?cre [] c2 = Some (k2, d2)" "CallHandlers stops k2 d2 = Some c'"
      by (auto simp: HandleCreationEvents_def split: Option.bind_splits)
    note s2 = silent_to_trans [OF s1 silent_to_same [OF HandleDeletionEvents_loop_calls [OF d1(1)] silent_toD [OF s1]]]
    note s3 = silent_to_trans [OF s2 CallHandlers_silent [OF d1(2) silent_toD [OF s2]]]
    note s4 = silent_to_trans [OF s3 silent_to_same [OF HandleCreationEvents_loop_calls [OF d2(1)] silent_toD [OF s3]]]
    show ?thesis using silent_to_trans [OF s4 CallHandlers_silent [OF d2(2) silent_toD [OF s4]]] .
  qed
qed


lemma StartFindService_silent:
  fixes c :: "('a, 'b) discovery_client"
  assumes "StartFindService os stops k handler e c = Some (r, c')" and "silenced h c" and "k \<noteq> h"
  shows "silent_to h c c'"
proof -
  have new: "silent_to h c0 c2" if "TransferNewSearchRequest k e ws handler found handles c0 = Some c2" "silenced h c0"
    for ws found handles and c0 c2 :: "('a, 'b) discovery_client"
  proof -
    let ?c = "c0\<lparr>search_requests := (search_requests c0)(k \<mapsto>
      \<lparr>sr_watches = [], sr_handler = handler, sr_identifier = e, previous_handles = handles\<rparr>)\<rparr>"
    from that(1) obtain c1 where c1: "link_watches k ws ?c = Some c1" "c2 = merge_known found c1"
      by (auto simp: TransferNewSearchRequest_def contract_simps Let_def split: Option.bind_splits if_splits)
    have "same_calls ?c c2" unfolding c1(2) by (rule same_calls_trans [OF link_watches_calls [OF c1(1)]]) simp
    moreover have "silent_to h c0 ?c" using that(2) assms(3) by (auto simp: silent_to_def silenced_def)
    ultimately show ?thesis by (blast intro: silent_to_trans silent_to_same silent_toD)
  qed
  have finish: "silent_to h c0 (if hs \<noteq> [] then call_handler stops handler hs k c2 else c2)"
    if "silent_to h c0 c2" for hs and c0 c2 :: "('a, 'b) discovery_client"
    using that silent_to_trans [OF that call_handler_silent [OF silent_toD [OF that] assms(3)]] by simp
  show ?thesis
  proof (cases "main_watch_of e c")
    case (Some x)
    with assms(1) obtain hs ws c2 where "TransferNewSearchRequest k e ws handler no_instances (set hs) c = Some c2"
      "c' = (if hs \<noteq> [] then call_handler stops handler hs k c2 else c2)"
      by (cases x) (auto simp: StartFindService_def split: Option.bind_splits simp del: reuse_watches.simps)
    with finish [OF new [OF _ assms(2)]] show ?thesis by blast
  next
    case None
    with assms(1) obtain res w where crawl: "CrawlAndWatch os True e (system c) = Some (res, w)"
      by (auto simp: StartFindService_def split: Option.bind_splits)
    have quiet: "silent_to h c (c\<lparr>system := w\<rparr>)" using assms(2) by (intro silent_to_same) simp_all
    show ?thesis
    proof (cases res)
      case (Inl err)
      with None crawl assms(1) quiet show ?thesis by (simp add: StartFindService_def Let_def)
    next
      case (Inr y)
      with None crawl assms(1) obtain hs ws known c2 where
        "TransferNewSearchRequest k e ws handler known (set hs) (c\<lparr>system := w\<rparr>) = Some c2"
        "c' = (if hs \<noteq> [] then call_handler stops handler hs k c2 else c2)"
        by (cases y) (auto simp: StartFindService_def Let_def split: Option.bind_splits)
      with finish [OF silent_to_trans [OF quiet new [OF _ silent_toD [OF quiet]]]] show ?thesis by blast
    qed
  qed
qed

lemma FindService_calls: "FindService os e c = Some (r, c') \<Longrightarrow> same_calls c c'"
  by (auto simp: FindService_def Let_def split: Option.bind_splits sum.splits)

definition starts :: "u64 \<Rightarrow> ('h, 'w) discovery_step \<Rightarrow> bool" where
  "starts h st \<longleftrightarrow> (\<exists>handler e. st = StartSearch h handler e)"

lemma discovery_step_silent:
  assumes "discovery_step os stops st c = Some c'" and "silenced h c" and "\<not> starts h st"
  shows "silent_to h c c'"
proof (cases st)
  case (StartSearch k handler e)
  with assms show ?thesis by (auto simp: discovery_step_def starts_def intro: StartFindService_silent)
next
  case (StopSearch k)
  with assms have "c' = c\<lparr>obsolete_search_requests := set_insert k (obsolete_search_requests c)\<rparr>"
    by (simp add: discovery_step_def StopFindService_def)
  with assms(2) show ?thesis by (auto simp: silent_to_def silenced_def)
next
  case (FindOnce e)
  with assms(1) obtain r where "FindService os e c = Some (r, c')" by (auto simp: discovery_step_def)
  from silent_to_same [OF FindService_calls [OF this] assms(2)] show ?thesis .
next
  case (Events evs)
  with assms(1) HandleEvents_silent [OF _ assms(2)] show ?thesis by (simp add: discovery_step_def)
next
  case (Outside f)
  with assms(1) silent_to_same [OF _ assms(2)] show ?thesis by (auto simp: discovery_step_def)
qed

lemma history_silent:
  assumes "fold_run (discovery_step os stops) sts c = Some c'" and "silenced h c" and "\<forall>st \<in> set sts. \<not> starts h st"
  shows "silent_to h c c'"
  using assms
proof (induction sts arbitrary: c)
  case Nil
  then show ?case by (simp add: silent_to_same)
next
  case (Cons st sts)
  from Cons.prems(1) obtain c1 where c1: "discovery_step os stops st c = Some c1" "fold_run (discovery_step os stops) sts c1 = Some c'"
    by (auto split: Option.bind_splits)
  from Cons.prems(3) have "silent_to h c c1" by (intro discovery_step_silent [OF c1(1) Cons.prems(2)]) simp
  from silent_to_trans [OF this Cons.IH [OF c1(2) silent_toD [OF this]]] Cons.prems(3) show ?case by simp
qed

subsection \<open>Histories run\<close>

definition proper_step :: "('w \<Rightarrow> int \<rightharpoonup> string) \<Rightarrow> ('h, 'w) discovery_step \<Rightarrow> bool" where
  "proper_step table st \<longleftrightarrow>
     (case st of
        StartSearch h handler e \<Rightarrow> GetQualityType e \<noteq> kInvalid \<and> proper_identifier e
      | FindOnce e \<Rightarrow> GetQualityType e \<noteq> kInvalid \<and> proper_identifier e
      | Outside f \<Rightarrow> (\<forall>w. table (f w) = table w)
      | _ \<Rightarrow> True)"

definition started :: "('h, 'w) discovery_step list \<Rightarrow> u64 list" where
  "started sts = concat (map (\<lambda>st. case st of StartSearch h handler e \<Rightarrow> [h] | _ \<Rightarrow> []) sts)"

text \<open>Every batch is calm when it is handled.\<close>

fun calm_history ::
    "'w discovery_os \<Rightarrow> ('h \<Rightarrow> handle_type list \<Rightarrow> u64 \<Rightarrow> u64 list) \<Rightarrow> ('h, 'w) discovery_step list \<Rightarrow>
     ('h, 'w) discovery_client \<Rightarrow> bool" where
  "calm_history os stops [] c \<longleftrightarrow> True"
| "calm_history os stops (st # sts) c \<longleftrightarrow>
     (case st of
        Events (Some evs) \<Rightarrow>
          (case TransferObsoleteSearchRequests os c of None \<Rightarrow> True | Some c1 \<Rightarrow> calm_events (watches c1) evs)
      | _ \<Rightarrow> True) \<and>
     (case discovery_step os stops st c of None \<Rightarrow> True | Some c' \<Rightarrow> calm_history os stops sts c')"

lemma FindService_outcome:
  assumes "GetQualityType e \<noteq> kInvalid" and "proper_identifier e"
  shows "\<exists>r. FindService os e c = Some (r, c) \<and>
    (case r of
       Inl err \<Rightarrow> err = kBindingFailure \<and> GetInstanceId e = None \<and>
         None \<in> snd ` set (os_entries os (GetSearchPathForIdentifier e) (system c))
     | Inr hs \<Rightarrow> set hs = handles_for e (offers os (system c) e (GetQualityType e)) \<and> distinct hs)"
proof -
  from Crawl_outcome [of e os "system c"] assms(2) obtain r where crawl: "Crawl os e (system c) = Some (r, system c)"
    and r: "case r of Inl err \<Rightarrow> err = kBindingFailure \<and> GetInstanceId e = None \<and>
         None \<in> snd ` set (os_entries os (GetSearchPathForIdentifier e) (system c))
     | Inr known \<Rightarrow>
         (GetInstanceId e = None \<longrightarrow> None \<notin> snd ` set (os_entries os (GetSearchPathForIdentifier e) (system c))) \<and>
         (\<forall>q. q \<noteq> kInvalid \<longrightarrow> known_of q known = offers os (system c) e q)"
    unfolding proper_identifier_def by blast
  show ?thesis
  proof (cases r)
    case (Inl err)
    with crawl r show ?thesis by (simp add: FindService_def Let_def)
  next
    case (Inr known)
    obtain hs where hs: "GetKnownHandles_of_quality e known = Some hs"
      using GetKnownHandles_of_quality_total [OF assms(1)] by blast
    with GetKnownHandles_of_quality_set [OF hs] crawl r Inr assms(1) show ?thesis
      by (simp add: FindService_def Let_def)
  qed
qed

lemma discovery_step_ok:
  assumes "inotify_laws os table" and "discovery_ok table c" and "proper_step table st"
    and "\<forall>h handler e. st = StartSearch h handler e \<longrightarrow> search_requests c h = None"
    and "calm_history os stops [st] c"
  shows "\<exists>c'. discovery_step os stops st c = Some c' \<and> discovery_ok table c' \<and>
    dom (search_requests c') \<subseteq> dom (search_requests c) \<union> set (started [st])"
proof (cases st)
  case (StartSearch h handler e)
  with assms(3,4) have "search_requests c h = None" "GetQualityType e \<noteq> kInvalid" "proper_identifier e"
    by (simp_all add: proper_step_def)
  from StartFindService_ok [OF assms(1,2) this, of stops handler] obtain r c' where
    "StartFindService os stops h handler e c = Some (r, c')" "discovery_ok table c'"
    "\<forall>k. k \<noteq> h \<longrightarrow> search_requests c' k = search_requests c k"
    by blast
  with StartSearch show ?thesis by (auto simp: discovery_step_def started_def dom_def)
next
  case (StopSearch h)
  let ?c = "snd (StopFindService h c)"
  have "links_ok table ?c" 
    by (rule links_ok_frame [where c = c]) (use assms(2) in \<open>simp_all add: discovery_ok_def StopFindService_def grows_def\<close>)
  with assms(2) have "discovery_ok table ?c" by (simp add: discovery_ok_def no_idle_watch_def StopFindService_def)
  with StopSearch show ?thesis by (simp add: discovery_step_def StopFindService_def)
next
  case (FindOnce e)
  with assms(3) have "GetQualityType e \<noteq> kInvalid" "proper_identifier e" by (simp_all add: proper_step_def)
  from FindService_outcome [OF this, of os c] obtain r where "FindService os e c = Some (r, c)" by blast
  with FindOnce assms(2) show ?thesis by (simp add: discovery_step_def)
next
  case (Events evs)
  from TransferObsoleteSearchRequests_ok [OF assms(1,2)] obtain c1 where
    c1: "TransferObsoleteSearchRequests os c = Some c1" "discovery_ok table c1"
      "search_requests c1 = (search_requests c) |` (- set (obsolete_search_requests c))"
    by blast
  have dom1: "dom (search_requests c1) \<subseteq> dom (search_requests c) \<union> set (started [st])" by (auto simp: c1(3))
  show ?thesis
  proof (cases evs)
    case None
    with Events c1(1,2) dom1 show ?thesis by (simp add: discovery_step_def HandleEvents_def)
  next
    case (Some es)
    with Events assms(5) c1(1) have "calm_events (watches c1) es" by simp
    moreover have "valid_requests (search_requests c1)" using c1(2) unfolding discovery_ok_def by (blast intro: links_ok_valid)
    ultimately obtain c' calls where c': "HandleEvents os stops (Some es) c = Some c'" "batch_handled stops es c1 calls c'"
      using HandleEvents_outcome [OF c1(1)] by blast
    then have "told_more (search_requests c1) (search_requests c')" by (simp add: batch_handled_def)
    then have "dom (search_requests c') = dom (search_requests c1)"
      unfolding dom_def by (simp add: told_more_None)
    with Events Some c' dom1 batch_handled_ok [OF c1(2) c'(2)] show ?thesis by (simp add: discovery_step_def)
  qed
next
  case (Outside f)
  with assms(3) have "table (f (system c)) = table (system c)" by (simp add: proper_step_def)
  from discovery_ok_system [OF assms(2) grows_same [OF this]] Outside show ?thesis by (simp add: discovery_step_def)
qed

lemma history_ok:
  assumes "inotify_laws os table" and "discovery_ok table c" and "\<forall>st \<in> set sts. proper_step table st"
    and "distinct (started sts)" and "dom (search_requests c) \<inter> set (started sts) = {}"
    and "calm_history os stops sts c"
  shows "\<exists>c'. fold_run (discovery_step os stops) sts c = Some c' \<and> discovery_ok table c' \<and>
    dom (search_requests c') \<subseteq> dom (search_requests c) \<union> set (started sts)"
  using assms(2-)
proof (induction sts arbitrary: c)
  case Nil
  then show ?case by simp
next
  case (Cons st sts)
  have split: "started (st # sts) = started [st] @ started sts" by (simp add: started_def)
  have "\<forall>h handler e. st = StartSearch h handler e \<longrightarrow> search_requests c h = None"
    using Cons.prems(4) by (auto simp: started_def)
  moreover have "calm_history os stops [st] c"
    using Cons.prems(5) by (simp split: option.splits)
  ultimately obtain c1 where c1: "discovery_step os stops st c = Some c1" "discovery_ok table c1"
    "dom (search_requests c1) \<subseteq> dom (search_requests c) \<union> set (started [st])"
    using discovery_step_ok [OF assms(1) Cons.prems(1)] Cons.prems(2) by force
  have rest: "distinct (started sts)" "set (started [st]) \<inter> set (started sts) = {}"
    using Cons.prems(3) unfolding split by simp_all
  have "dom (search_requests c1) \<inter> set (started sts) = {}"
    using c1(3) rest(2) Cons.prems(4) unfolding split set_append by blast
  with rest(1) have "distinct (started sts)" "dom (search_requests c1) \<inter> set (started sts) = {}" "calm_history os stops sts c1"
    using Cons.prems(5) c1(1) by simp_all
  with Cons.IH [OF c1(2) _ this] Cons.prems(2) obtain c' where c':
    "fold_run (discovery_step os stops) sts c1 = Some c'" "discovery_ok table c'"
    "dom (search_requests c') \<subseteq> dom (search_requests c1) \<union> set (started sts)"
    by auto
  have "dom (search_requests c') \<subseteq> dom (search_requests c) \<union> set (started (st # sts))"
    using c1(3) c'(3) unfolding split set_append by blast
  with c1(1) c'(1,2) show ?case by simp
qed

lemma discovery_ok_start: "discovery_ok table (ServiceDiscoveryClient t w)"
  by (simp add: discovery_ok_def links_ok_def no_idle_watch_def ServiceDiscoveryClient_def)

subsection \<open>The creation of the directory of an instance\<close>

lemma Link_all_outcome:
  assumes "links_ok table c" and "watches c wd = Some entry" and "\<forall>h \<in> set hs. search_requests c h \<noteq> None" and "distinct hs"
  shows "(fold_run (LinkWatchWithSearchRequest wd) hs c = None) \<longleftrightarrow> set hs \<inter> set (find_service_handles entry) \<noteq> {}"
  using assms
proof (induction hs arbitrary: c entry)
  case Nil
  then show ?case by simp
next
  case (Cons h hs)
  from Cons.prems(3) obtain r where r: "search_requests c h = Some r" by auto
  show ?case
  proof (cases "h \<in> set (find_service_handles entry)")
    case True
    with Link_total [OF Cons.prems(1,2) r] show ?thesis by simp
  next
    case False
    with Link_total [OF Cons.prems(1,2) r] obtain c1 where link: "LinkWatchWithSearchRequest wd h c = Some c1"
      and c1: "c1 = c\<lparr>watches := (watches c)(wd \<mapsto> entry\<lparr>find_service_handles := find_service_handles entry @ [h]\<rparr>),
             search_requests := (search_requests c)(h \<mapsto> r\<lparr>sr_watches := sr_watches r @ [wd]\<rparr>)\<rparr>"
      by auto
    have "watches c1 wd = Some (entry\<lparr>find_service_handles := find_service_handles entry @ [h]\<rparr>)"
      "\<forall>h \<in> set hs. search_requests c1 h \<noteq> None" "distinct hs"
      using Cons.prems(3,4) by (simp_all add: c1)
    from Cons.IH [OF Link_ok [OF Cons.prems(1) link] this] Cons.prems(4) link False show ?thesis by auto
  qed
qed

definition handles_at :: "('h, 'w) discovery_client \<Rightarrow> int \<Rightarrow> u64 set" where
  "handles_at c wd = (case watches c wd of None \<Rightarrow> {} | Some entry \<Rightarrow> set (find_service_handles entry))"

lemma directory_created_outcome:
  assumes "inotify_laws os table" and "discovery_ok table c" and "watches c wd = Some entry"
    and "GetInstanceId (watch_identifier entry) = None" and "ConvertFromStringToInstanceId name = Inr i"
  defines "e \<equiv> \<lparr>GetInstanceIdentifier = GetInstanceIdentifier (watch_identifier entry), GetInstanceId = Some i,
    GetQualityType = asilLevel (GetInstanceIdentifier (watch_identifier entry))\<rparr>"
  shows "OnInstanceDirectoryCreated os entry name c = None \<longleftrightarrow>
    (case fst (the (CrawlAndWatch os True e (system c))) of
       Inl _ \<Rightarrow> True
     | Inr (ws, known) \<Rightarrow> handles_at c wd \<inter> handles_at c (fst (hd ws)) \<noteq> {})"
proof -
  from assms(2) have ok: "links_ok table c" by (simp add: discovery_ok_def)
  note here = links_okD(1) [OF ok assms(3)]
  then have "deployed_instance_id (GetInstanceIdentifier (watch_identifier entry)) = None"
    using assms(4) by (simp add: watch_ok_def watched_at_def proper_identifier_def)
  then have made: "EnrichedInstanceIdentifier_with_id (GetInstanceIdentifier (watch_identifier entry)) i = Some e"
    by (simp add: EnrichedInstanceIdentifier_with_id_def contract_simps e_def)
  have "proper_identifier e" by (simp add: proper_identifier_def e_def)
  from CrawlAndWatch_outcome [OF assms(1) this, of "system c"] obtain r w where
    crawl: "CrawlAndWatch os True e (system c) = Some (r, w)" and grown: "grows table (system c) w"
    and found: "\<And>ws known. r = Inr (ws, known) \<Longrightarrow> (\<forall>x \<in> set ws. watched_at table w x) \<and>
      (\<exists>x rest. ws = (x, EnrichedInstanceIdentifier_with_quality e kInvalid) # rest \<and> (GetInstanceId e \<noteq> None \<longrightarrow> rest = []))"
    by blast
  show ?thesis
  proof (cases r)
    case (Inl err)
    with crawl made assms(5) show ?thesis by (simp add: OnInstanceDirectoryCreated_def Let_def)
  next
    case (Inr y)
    obtain ws known where y: "y = (ws, known)" by (cases y)
    let ?u = "EnrichedInstanceIdentifier_with_quality e kInvalid"
    from found [of ws known] Inr y obtain x where x: "ws = [(x, ?u)]" "watched_at table w (x, ?u)"
      by (auto simp: e_def)
    let ?c = "StoreWatch x ?u (c\<lparr>system := w\<rparr>)"
    have ok1: "links_ok table ?c"
      using discovery_ok_system [OF assms(2) grown] x(2) by (intro StoreWatch_ok) (simp_all add: discovery_ok_def)
    have at: "watches ?c x = Some (stored_entry ?u (watches c x))" by (simp add: StoreWatch_frame)
    have linked: "\<forall>h \<in> set (find_service_handles entry). search_requests ?c h \<noteq> None"
      using here by (auto simp: watch_ok_def StoreWatch_frame)
    have dist: "distinct (find_service_handles entry)" using here by (simp add: watch_ok_def)
    have "set (find_service_handles (stored_entry ?u (watches c x))) = handles_at c x"
      by (cases "watches c x") (simp_all add: stored_entry_def handles_at_def)
    with Link_all_outcome [OF ok1 at linked dist] assms(3)
    have "fold_run (LinkWatchWithSearchRequest x) (find_service_handles entry) ?c = None \<longleftrightarrow>
        handles_at c wd \<inter> handles_at c x \<noteq> {}"
      by (simp add: handles_at_def)
    moreover have "OnInstanceDirectoryCreated os entry name c =
        (fold_run (LinkWatchWithSearchRequest x) (find_service_handles entry) ?c \<bind> (\<lambda>c. Some (merge_known known c)))"
      using crawl made assms(5) Inr y x(1) by (simp add: OnInstanceDirectoryCreated_def contract_simps Let_def)
    ultimately show ?thesis
      using crawl Inr y x(1) by (auto split: Option.bind_splits)
  qed
qed

lemma directory_event_code [code]:
  "directory_event ws ev \<longleftrightarrow>
     (case ws (event_watch ev) of None \<Rightarrow> False | Some entry \<Rightarrow> GetInstanceId (watch_identifier entry) = None)"
  by (auto simp: directory_event_def split: option.split)

lemma flag_event_code [code]:
  "flag_event ws ev si q \<longleftrightarrow>
     (case ws (event_watch ev) of None \<Rightarrow> False | Some entry \<Rightarrow>
        LolaServiceInstanceIdentifier (watch_identifier entry) = (fst si, Some (snd si)) \<and>
        ParseQualityTypeFromString (event_name ev) = q)"
  by (auto simp: flag_event_def split: option.split)

subsection \<open>A concrete history\<close>

definition any_instance :: enriched_instance_identifier where
  "any_instance = EnrichedInstanceIdentifier
     \<lparr>deployment = ''any'', deployed_service_id = 1, deployed_instance_id = None, asilLevel = kASIL_QM\<rparr>"

definition one_instance :: enriched_instance_identifier where
  "one_instance = EnrichedInstanceIdentifier
     \<lparr>deployment = ''one'', deployed_service_id = 1, deployed_instance_id = Some 3, asilLevel = kASIL_QM\<rparr>"

definition directory_of_5 :: string where
  "directory_of_5 = path_append (GetSearchPathForIdentifier any_instance) ''5''"

definition create_event :: "int \<Rightarrow> string \<Rightarrow> inotify_event" where
  "create_event wd name =
     \<lparr>event_watch = wd, in_q_overflow = False, in_ignored = False, in_delete = False, in_create = True, event_name = name\<rparr>"

definition delete_event :: "int \<Rightarrow> string \<Rightarrow> inotify_event" where
  "delete_event wd name =
     \<lparr>event_watch = wd, in_q_overflow = False, in_ignored = False, in_delete = True, in_create = False, event_name = name\<rparr>"

definition no_stops :: "string \<Rightarrow> handle_type list \<Rightarrow> u64 \<Rightarrow> u64 list" where
  "no_stops f hs h = []"

definition two_searches :: "(string, memory) discovery_step list" where
  "two_searches = [StartSearch 1 ''f'' one_instance, StartSearch 2 ''g'' any_instance]"

definition offered_and_stopped :: "(string, memory) discovery_step list" where
  "offered_and_stopped =
     [Events (Some [create_event 1 ''12_asil-qm_5'']), StopSearch 2, Events (Some [delete_event 1 ''12_asil-qm_5''])]"

lemma two_searches_proper:
  "proper_step memory_table (StartSearch h f any_instance)" "proper_step memory_table (StartSearch h f one_instance)"
  by (simp_all add: proper_step_def any_instance_def one_instance_def EnrichedInstanceIdentifier_def proper_identifier_def)

lemma two_searches_calm:
  "calm_history memory_os no_stops (two_searches @ offered_and_stopped) (ServiceDiscoveryClient 0 empty_memory)"
  by code_simp

lemma two_searches_run:
  "\<exists>c. fold_run (discovery_step memory_os no_stops) two_searches (ServiceDiscoveryClient 0 empty_memory) = Some c \<and>
     discovery_ok memory_table c"
proof -
  have "\<forall>st \<in> set two_searches. proper_step memory_table st" "distinct (started two_searches)"
    "dom (search_requests (ServiceDiscoveryClient 0 empty_memory)) \<inter> set (started two_searches) = {}"
    by (simp_all add: two_searches_def started_def ServiceDiscoveryClient_def two_searches_proper)
  moreover have "calm_history memory_os no_stops two_searches (ServiceDiscoveryClient 0 empty_memory)" by code_simp
  ultimately show ?thesis
    using history_ok [OF memory_inotify_laws discovery_ok_start [of memory_table 0 empty_memory]] by blast
qed

subsection \<open>Properties\<close>

text \<open>
  Property C30: a history of the search side of the service discovery client runs to its end. If
  inotify keeps its documented laws, every search is started with a handle of its own and with a
  proper identifier, and every batch of events that is handled is calm (no overflow, no event on the
  directory of a whole service), then no check of the code ends the process, whatever the order of
  starts, stops, batches and changes of the file system; and at the end the links between searches,
  watches and watched identifiers agree, every watch has the descriptor of its own directory, and no
  watch is left without a search.
\<close>

theorem discovery_history_runs:
  assumes "inotify_laws os table" and "\<forall>st \<in> set sts. proper_step table st" and "distinct (started sts)"
    and "calm_history os stops sts (ServiceDiscoveryClient t w)"
  shows "\<exists>c. fold_run (discovery_step os stops) sts (ServiceDiscoveryClient t w) = Some c \<and>
    discovery_ok table c \<and> dom (search_requests c) \<subseteq> set (started sts)"
proof -
  have none: "dom (search_requests (ServiceDiscoveryClient t w)) = {}" by (simp add: ServiceDiscoveryClient_def)
  then have "dom (search_requests (ServiceDiscoveryClient t w)) \<inter> set (started sts) = {}" by blast
  from history_ok [OF assms(1) discovery_ok_start assms(2,3) this assms(4)] show ?thesis unfolding none by blast
qed

theorem discovery_history_runs_witness:
  "\<exists>c. fold_run (discovery_step memory_os no_stops) (two_searches @ offered_and_stopped)
        (ServiceDiscoveryClient 0 empty_memory) = Some c \<and>
    discovery_ok memory_table c \<and> dom (search_requests c) \<subseteq> {1, 2}"
proof -
  have "\<forall>st \<in> set (two_searches @ offered_and_stopped). proper_step memory_table st"
    "distinct (started (two_searches @ offered_and_stopped))" "set (started (two_searches @ offered_and_stopped)) = {1, 2}"
    by (auto simp: two_searches_def offered_and_stopped_def started_def two_searches_proper)
      (simp_all add: proper_step_def)
  with discovery_history_runs [OF memory_inotify_laws _ _ two_searches_calm] show ?thesis by metis
qed

text \<open>
  Property C31: a stopped search is silent. After \<open>StopFindService\<close> for a handle, no later operation
  calls the handler of that search, be it a batch of events of any kind or another search that
  starts, until a search is started with the same handle again.
\<close>

theorem stopped_search_is_silent:
  assumes "fold_run (discovery_step os stops) sts (snd (StopFindService h c)) = Some c'"
    and "\<forall>st \<in> set sts. \<not> starts h st"
  shows "\<exists>calls. find_calls c' = find_calls c @ calls \<and> h \<notin> called calls"
proof -
  have "silenced h (snd (StopFindService h c))" "find_calls (snd (StopFindService h c)) = find_calls c"
    by (simp_all add: silenced_def StopFindService_def)
  with history_silent [OF assms(1) _ assms(2)] show ?thesis by (simp add: silent_to_def)
qed

theorem stopped_search_is_silent_witness:
  "\<exists>c c'. fold_run (discovery_step memory_os no_stops) two_searches (ServiceDiscoveryClient 0 empty_memory) = Some c \<and>
     fold_run (discovery_step memory_os no_stops) [Events (Some [create_event 1 ''12_asil-qm_5''])]
       (snd (StopFindService 2 c)) = Some c' \<and>
     (\<exists>calls. find_calls c' = find_calls c @ calls \<and> 2 \<notin> called calls)"
proof -
  have runs: "fold_run (discovery_step memory_os no_stops)
      (two_searches @ [StopSearch 2, Events (Some [create_event 1 ''12_asil-qm_5''])])
      (ServiceDiscoveryClient 0 empty_memory) \<noteq> None" by code_simp
  then obtain c where c: "fold_run (discovery_step memory_os no_stops) two_searches (ServiceDiscoveryClient 0 empty_memory) = Some c"
    by (auto simp: fold_run_append split: Option.bind_splits)
  with runs obtain c' where c': "fold_run (discovery_step memory_os no_stops) [Events (Some [create_event 1 ''12_asil-qm_5''])]
      (snd (StopFindService 2 c)) = Some c'"
    by (auto simp: fold_run_append discovery_step_def split: Option.bind_splits)
  have "\<forall>st \<in> set [Events (Some [create_event 1 ''12_asil-qm_5''])]. \<not> starts 2 st" by (simp add: starts_def)
  from stopped_search_is_silent [OF c' this] c c' show ?thesis by blast
qed

text \<open>
  Property C32: what a batch of inotify events does, for a client with consistent links and a batch
  that is calm: the searches that were stopped are dropped; then, for each quality, exactly the
  instances whose flag files were deleted leave the cache of known instances and exactly those whose
  flag files were created enter it, the deletions first whatever their order in the batch. The
  handlers are called in two rounds, after the deletions and after the creations: in each round
  exactly those searches that the events of the round concern, that are not stopped and that were
  told other handles than are known then are called, each once, by its own handler and with exactly
  the handles that are known then; a search that an earlier call stops is not called any more. So at
  the end every search that the created files concern (the deleted files, if none was created) and
  that is not stopped was told exactly the handles that are known.
\<close>

theorem batch_of_flag_events:
  assumes "inotify_laws os table" and "discovery_ok table c"
    and "\<And>c1. TransferObsoleteSearchRequests os c = Some c1 \<Longrightarrow> calm_events (watches c1) evs"
  shows "\<exists>c1 c' calls. TransferObsoleteSearchRequests os c = Some c1 \<and>
    search_requests c1 = (search_requests c) |` (- set (obsolete_search_requests c)) \<and>
    HandleEvents os stops (Some evs) c = Some c' \<and> discovery_ok table c' \<and>
    find_calls c' = find_calls c @ calls \<and> obeys_stops stops {} calls \<and> two_rounds stops evs c1 calls c' \<and>
    (\<forall>q. q \<noteq> kInvalid \<longrightarrow> known_of q (known_instances c') =
       {si \<in> known_of q (known_instances c1). \<not> (\<exists>ev \<in> set evs. in_delete ev \<and> flag_event (watches c1) ev si q)} \<union>
       {si. \<exists>ev \<in> set evs. created ev \<and> flag_event (watches c1) ev si q}) \<and>
    (\<forall>h r. h \<in> impacted_by (watches c1) (filter (if Bex (set evs) created then created else in_delete) evs) \<and>
       h \<notin> set (obsolete_search_requests c') \<and> search_requests c' h = Some r \<longrightarrow> in_sync c' r)"
proof -
  from TransferObsoleteSearchRequests_ok [OF assms(1,2)] obtain c1 where
    c1: "TransferObsoleteSearchRequests os c = Some c1" "discovery_ok table c1"
      "search_requests c1 = (search_requests c) |` (- set (obsolete_search_requests c))"
      "find_calls c1 = find_calls c" "obsolete_search_requests c1 = []"
    by blast
  have "valid_requests (search_requests c1)" using c1(2) unfolding discovery_ok_def by (blast intro: links_ok_valid)
  from HandleEvents_outcome [OF c1(1) assms(3) [OF c1(1)] this, of stops] obtain c' calls where
    c': "HandleEvents os stops (Some evs) c = Some c'" "batch_handled stops evs c1 calls c'"
      "two_rounds stops evs c1 calls c'"
    by blast
  note ok = batch_handled_ok [OF c1(2) c'(2)]
  show ?thesis
    by (rule exI [of _ c1], rule exI [of _ c'], rule exI [of _ calls])
      (use c1 c' ok in \<open>unfold batch_handled_def, auto\<close>)
qed

lemma two_searches_then:
  assumes "\<And>c. fold_run (discovery_step memory_os no_stops) two_searches (ServiceDiscoveryClient 0 empty_memory) = Some c \<Longrightarrow>
    discovery_ok memory_table c \<Longrightarrow> P c"
  shows "\<exists>c. fold_run (discovery_step memory_os no_stops) two_searches (ServiceDiscoveryClient 0 empty_memory) = Some c \<and> P c"
  using two_searches_run assms by blast

text \<open>After the two searches there are the watch 1 of instance 3 and the watch 2 of the service.\<close>

lemma two_searches_state:
  "map_option (\<lambda>c. (obsolete_search_requests c, map (watches c) [1, 2]))
     (fold_run (discovery_step memory_os no_stops) two_searches (ServiceDiscoveryClient 0 empty_memory)) =
   Some ([], [Some \<lparr>watch_identifier = EnrichedInstanceIdentifier_with_quality one_instance kInvalid, find_service_handles = [1, 2]\<rparr>,
              Some \<lparr>watch_identifier = EnrichedInstanceIdentifier_with_quality any_instance kInvalid, find_service_handles = [2]\<rparr>])"
  by code_simp

lemma no_obsolete: "obsolete_search_requests c = [] \<Longrightarrow> TransferObsoleteSearchRequests os c = Some c"
  by (simp add: TransferObsoleteSearchRequests_def)

lemma flag_names:
  "ParseQualityTypeFromString ''12_asil-qm_5'' = kASIL_QM"
  by code_simp

theorem batch_of_flag_events_witness:
  "\<exists>c. fold_run (discovery_step memory_os no_stops) two_searches (ServiceDiscoveryClient 0 empty_memory) = Some c \<and>
   (\<exists>c1 c' calls. TransferObsoleteSearchRequests memory_os c = Some c1 \<and>
    HandleEvents memory_os no_stops (Some [create_event 1 ''12_asil-qm_5'']) c = Some c' \<and>
    find_calls c' = find_calls c @ calls \<and>
    known_of kASIL_QM (known_instances c') =
       {si \<in> known_of kASIL_QM (known_instances c1).
          \<not> (\<exists>ev \<in> set [create_event 1 ''12_asil-qm_5'']. in_delete ev \<and> flag_event (watches c1) ev si kASIL_QM)} \<union>
       {si. \<exists>ev \<in> set [create_event 1 ''12_asil-qm_5'']. created ev \<and> flag_event (watches c1) ev si kASIL_QM})"
proof (rule two_searches_then)
  fix c assume run: "fold_run (discovery_step memory_os no_stops) two_searches (ServiceDiscoveryClient 0 empty_memory) = Some c"
    and ok: "discovery_ok memory_table c"
  have none: "TransferObsoleteSearchRequests memory_os c = Some c" and
    w: "watches c 1 = Some \<lparr>watch_identifier = EnrichedInstanceIdentifier_with_quality one_instance kInvalid, find_service_handles = [1, 2]\<rparr>"
    using two_searches_state run by (simp_all add: no_obsolete)
  have "calm_events (watches c1) [create_event 1 ''12_asil-qm_5'']"
    if "TransferObsoleteSearchRequests memory_os c = Some c1" for c1
    using that none w
    by (simp add: calm_events_def create_event_def directory_event_def one_instance_def EnrichedInstanceIdentifier_def)
  from batch_of_flag_events [OF memory_inotify_laws ok this, of no_stops] show
   "\<exists>c1 c' calls. TransferObsoleteSearchRequests memory_os c = Some c1 \<and>
    HandleEvents memory_os no_stops (Some [create_event 1 ''12_asil-qm_5'']) c = Some c' \<and>
    find_calls c' = find_calls c @ calls \<and>
    known_of kASIL_QM (known_instances c') =
       {si \<in> known_of kASIL_QM (known_instances c1).
          \<not> (\<exists>ev \<in> set [create_event 1 ''12_asil-qm_5'']. in_delete ev \<and> flag_event (watches c1) ev si kASIL_QM)} \<union>
       {si. \<exists>ev \<in> set [create_event 1 ''12_asil-qm_5'']. created ev \<and> flag_event (watches c1) ev si kASIL_QM}"
    by fastforce
qed

text \<open>
  An offer that is withdrawn before its creation was handled stays known. If one batch
  holds the creation and then the deletion of a flag file of an instance, the deletion is handled
  first, so the instance is known after the batch although its flag file is gone; its searches that
  were not stopped are told so.
\<close>

lemma withdrawn_offer_stays_known:
  assumes "inotify_laws os table" and "discovery_ok table c" and "obsolete_search_requests c = []"
    and "flag_event (watches c) up si q" and "flag_event (watches c) down si q" and "q \<noteq> kInvalid"
    and "created up" and "in_delete down" and "\<not> in_q_overflow up" and "\<not> in_q_overflow down"
  shows "\<exists>c'. HandleEvents os stops (Some [up, down]) c = Some c' \<and> si \<in> known_of q (known_instances c')"
proof -
  have calm: "calm_events (watches c) [up, down]"
    using assms(4,5,9,10)
    by (auto simp: calm_events_def flag_event_def directory_event_def LolaServiceInstanceIdentifier_def GetBindingSpecificInstanceId_def)
  have "valid_requests (search_requests c)" using assms(2) unfolding discovery_ok_def by (blast intro: links_ok_valid)
  from HandleEvents_outcome [OF no_obsolete [OF assms(3)] calm this, of os stops] obtain c' calls where
    "HandleEvents os stops (Some [up, down]) c = Some c'" "batch_handled stops [up, down] c calls c'"
    by blast
  then show ?thesis using assms(4,6,7) by (auto simp: batch_handled_def)
qed

text \<open>
  A second search can end the process. A search for one instance of a service, a search
  for any instance, the directory of another instance appears, and before its event is handled a
  second search for any instance starts: the first search has left the main watch of the service
  unset, so the last search crawls again, finds the new directory and links it; the pending event
  then links it a second time and ends the process (\<open>directory_created_outcome\<close> says exactly when).
\<close>

lemma second_search_ends_process:
  "fold_run (discovery_step memory_os no_stops)
     (two_searches @ [Outside (\<lambda>w. w\<lparr>directories := directory_of_5 # directories w\<rparr>), StartSearch 3 ''g'' any_instance,
        Events (Some [create_event 2 ''5''])])
     (ServiceDiscoveryClient 0 empty_memory) = None"
  by code_simp

text \<open>
  Property C35: \<open>FindService\<close> finds the offers. It changes nothing; it fails exactly in the way of an
  entry of the service's directory whose status cannot be read; otherwise it returns, without
  duplicates, exactly the handles of the instances whose directory holds a flag file of the quality
  that is searched for.
\<close>

theorem find_service_finds_the_offers:
  assumes "GetQualityType e \<noteq> kInvalid" and "proper_identifier e"
  shows "\<exists>r. FindService os e c = Some (r, c) \<and>
    (case r of
       Inl err \<Rightarrow> err = kBindingFailure \<and> GetInstanceId e = None \<and>
         None \<in> snd ` set (os_entries os (GetSearchPathForIdentifier e) (system c))
     | Inr hs \<Rightarrow> set hs = handles_for e (offers os (system c) e (GetQualityType e)) \<and> distinct hs)"
  using assms by (rule FindService_outcome)

theorem find_service_finds_the_offers_witness:
  "\<exists>r. FindService memory_os any_instance (ServiceDiscoveryClient 0 empty_memory :: (string, memory) discovery_client) =
      Some (r, ServiceDiscoveryClient 0 empty_memory) \<and>
    (case r of
       Inl err \<Rightarrow> err = kBindingFailure \<and> GetInstanceId any_instance = None \<and>
         None \<in> snd ` set (os_entries memory_os (GetSearchPathForIdentifier any_instance) empty_memory)
     | Inr hs \<Rightarrow> set hs = handles_for any_instance (offers memory_os empty_memory any_instance kASIL_QM) \<and> distinct hs)"
proof -
  have q: "GetQualityType any_instance = kASIL_QM" and p: "proper_identifier any_instance"
    by (simp_all add: any_instance_def EnrichedInstanceIdentifier_def proper_identifier_def)
  have s: "system (ServiceDiscoveryClient 0 empty_memory :: (string, memory) discovery_client) = empty_memory"
    by (simp add: ServiceDiscoveryClient_def)
  have "GetQualityType any_instance \<noteq> kInvalid" by (simp add: q)
  from find_service_finds_the_offers
    [OF this p, of memory_os "ServiceDiscoveryClient 0 empty_memory :: (string, memory) discovery_client"]
  show ?thesis unfolding q s .
qed

end
