(* ===== verification/Service_Offers.thy ===== *)
theory Service_Offers
  imports Service_Discovery_History
begin

text \<open>
  The offering side of the service discovery client: flag files that \<open>OfferService\<close> makes are found
  by \<open>FindService\<close>, and the ones that \<open>StopOfferService\<close> destroys are not. The file system is used
  through its documented behaviour, the laws \<open>file_system_laws\<close> on the regular files of a directory.
\<close>

definition regular :: "'w discovery_os \<Rightarrow> string \<Rightarrow> 'w \<Rightarrow> string set" where
  "regular os d w = {name. (name, Some kRegular) \<in> set (os_entries os d w)}"

definition file_system_laws :: "'w discovery_os \<Rightarrow> bool" where
  "file_system_laws os \<longleftrightarrow>
     (\<forall>d n w w'. CHR ''/'' \<notin> set n \<longrightarrow> os_remove os (path_append d n) w = (True, w') \<longrightarrow>
        regular os d w' = regular os d w - {n} \<and> (\<forall>d'. d' \<noteq> d \<longrightarrow> regular os d' w' = regular os d' w)) \<and>
     (\<forall>d n w w'. CHR ''/'' \<notin> set n \<longrightarrow> os_open_out os (path_append d n) w = (True, w') \<longrightarrow>
        regular os d w' = insert n (regular os d w) \<and> (\<forall>d'. d' \<noteq> d \<longrightarrow> regular os d' w' = regular os d' w)) \<and>
     (\<forall>p w d. regular os d (snd (os_permissions os p w)) = regular os d w) \<and>
     (\<forall>p w d. regular os d (snd (os_create_directories os p w)) = regular os d w) \<and>
     (\<forall>d w n. n \<in> regular os d w \<longrightarrow> CHR ''/'' \<notin> set n)"

lemma file_system_lawsD:
  assumes "file_system_laws os"
  shows "CHR ''/'' \<notin> set n \<Longrightarrow> os_remove os (path_append d n) w = (True, w') \<Longrightarrow> regular os d w' = regular os d w - {n}"
    and "CHR ''/'' \<notin> set n \<Longrightarrow> os_open_out os (path_append d n) w = (True, w') \<Longrightarrow> regular os d w' = insert n (regular os d w)"
    and "os_permissions os p w = (ok, w') \<Longrightarrow> regular os d w' = regular os d w"
    and "os_create_directories os p w = (ok, w') \<Longrightarrow> regular os d w' = regular os d w"
    and "n \<in> regular os d w \<Longrightarrow> CHR ''/'' \<notin> set n"
proof -
  note laws = assms [unfolded file_system_laws_def]
  note l1 = conjunct1 [OF laws] and l2 = conjunct1 [OF conjunct2 [OF laws]] and
    l3 = conjunct1 [OF conjunct2 [OF conjunct2 [OF laws]]] and
    l4 = conjunct1 [OF conjunct2 [OF conjunct2 [OF conjunct2 [OF laws]]]] and
    l5 = conjunct2 [OF conjunct2 [OF conjunct2 [OF conjunct2 [OF laws]]]]
  show "CHR ''/'' \<notin> set n \<Longrightarrow> os_remove os (path_append d n) w = (True, w') \<Longrightarrow> regular os d w' = regular os d w - {n}"
    by (rule l1 [rule_format, THEN conjunct1])
  show "CHR ''/'' \<notin> set n \<Longrightarrow> os_open_out os (path_append d n) w = (True, w') \<Longrightarrow> regular os d w' = insert n (regular os d w)"
    by (rule l2 [rule_format, THEN conjunct1])
  show "os_permissions os p w = (ok, w') \<Longrightarrow> regular os d w' = regular os d w"
    using l3 [rule_format, of d p w] by simp
  show "os_create_directories os p w = (ok, w') \<Longrightarrow> regular os d w' = regular os d w"
    using l4 [rule_format, of d p w] by simp
  show "n \<in> regular os d w \<Longrightarrow> CHR ''/'' \<notin> set n"
    by (rule l5 [rule_format])
qed

lemma offered_in_regular:
  "offered_in os w e q \<longleftrightarrow> (\<exists>n \<in> regular os (GetSearchPathForIdentifier e) w. sublist (GetQualityTypeString q) n)"
  by (auto simp: offered_in_def regular_def)

lemma flag_file_name_no_slash: "CHR ''/'' \<notin> set (flag_file_name pid q d)"
  by (auto simp: flag_file_name_def GetQualityTypeString_def dest: show_int_chars split: QualityType.splits)

lemma flag_file_name_quality:
  assumes "q' \<noteq> kInvalid"
  shows "sublist (GetQualityTypeString q') (flag_file_name pid q d) \<longleftrightarrow> q = q'"
proof
  assume s: "sublist (GetQualityTypeString q') (flag_file_name pid q d)"
  have parsed: "ParseQualityTypeFromString (flag_file_name pid q d) = q" by (rule ParseQualityTypeFromString_name)
  show "q = q'"
  proof (cases q')
    case kASIL_B
    with s parsed show ?thesis by (simp add: ParseQualityTypeFromString_def)
  next
    case kASIL_QM
    have "CHR ''m'' \<in> set (flag_file_name pid q d)"
      using s kASIL_QM by (auto simp: GetQualityTypeString_def dest!: sublist_set)
    moreover have "CHR ''m'' \<notin> set (flag_file_name pid kASIL_B d)"
      by (auto simp: flag_file_name_def GetQualityTypeString_def is_digit_def dest: show_int_chars)
    ultimately have "q \<noteq> kASIL_B" by auto
    with s parsed kASIL_QM show ?thesis by (auto simp: ParseQualityTypeFromString_def split: if_splits)
  qed (use assms in simp)
next
  assume "q = q'"
  then show "sublist (GetQualityTypeString q') (flag_file_name pid q d)"
    unfolding flag_file_name_def sublist_def
    by (intro exI [of _ "show_int pid @ ''_''"] exI [of _ "''_'' @ show_int d"]) simp
qed

text \<open>A flag file that \<open>FlagFile_Make\<close> has made is the only one of its quality.\<close>

lemma remove_paths_outcome:
  assumes "file_system_laws os" and "\<forall>n \<in> set ns. CHR ''/'' \<notin> set n"
    and "remove_paths os (map (path_append d) ns) (Inr ()) w = (Inr (), w')"
  shows "regular os d w' = regular os d w - set ns"
  using assms(2,3)
proof (induction ns arbitrary: w)
  case Nil
  then show ?case by simp
next
  case (Cons n ns)
  have failed: "remove_paths os ps (Inl err) v = (Inr u, v') \<Longrightarrow> False" for ps err v u v'
    by (induction ps arbitrary: err v) (auto simp: Let_def split: prod.splits if_splits)
  obtain ok w1 where r: "os_remove os (path_append d n) w = (ok, w1)" by (cases "os_remove os (path_append d n) w")
  with Cons.prems(2) failed have ok: "ok" and rest: "remove_paths os (map (path_append d) ns) (Inr ()) w1 = (Inr (), w')"
    by (cases ok; fastforce)+
  from Cons.IH [OF _ rest] Cons.prems(1) file_system_lawsD(1) [OF assms(1), of n d w w1] r ok show ?case by auto
qed

lemma RemoveMatching_outcome:
  assumes "file_system_laws os" and "RemoveMatchingFlagFiles os e w = (Inr (), w')" and "GetQualityType e \<noteq> kInvalid"
  defines "d \<equiv> GetSearchPathForIdentifier e"
  shows "regular os d w' = {n \<in> regular os d w. \<not> sublist (GetQualityTypeString (GetQualityType e)) n}"
proof -
  let ?match = "\<lambda>n. sublist (GetQualityTypeString (GetQualityType e)) (path_append d n)"
  let ?ns = "map fst (filter (\<lambda>(name, t). t = Some kRegular \<and> ?match name) (os_entries os d w))"
  have match: "?match n \<longleftrightarrow> sublist (GetQualityTypeString (GetQualityType e)) n" for n
    unfolding d_def by (rule quality_in_path [OF assms(3)])
  have paths: "GetMatchingFlagFilePaths os e w = map (path_append d) ?ns"
    by (simp add: GetMatchingFlagFilePaths_def Let_def d_def case_prod_beta)
  have set: "set ?ns = {n \<in> regular os d w. sublist (GetQualityTypeString (GetQualityType e)) n}"
    unfolding match regular_def by force
  have "\<forall>n \<in> set ?ns. CHR ''/'' \<notin> set n" using set file_system_lawsD(5) [OF assms(1)] by blast
  from remove_paths_outcome [OF assms(1) this assms(2) [unfolded RemoveMatchingFlagFiles_def paths]]
  have "regular os d w' = regular os d w - set ?ns" .
  then show ?thesis unfolding set by blast
qed

lemma CreateSearchPath_regular:
  assumes "file_system_laws os" and "CreateSearchPath os e w = (r, w')"
  shows "regular os d w' = regular os d w"
proof -
  have loop: "CreateSearchPath_loop os p n w = (ok, w2) \<Longrightarrow> regular os d w2 = regular os d w" for p n ok w2 and w
  proof (induction n arbitrary: w)
    case 0
    then show ?case by simp
  next
    case (Suc n)
    obtain b w1 where b: "os_create_directories os p w = (b, w1)" by (cases "os_create_directories os p w")
    from file_system_lawsD(4) [OF assms(1) b] Suc.prems Suc.IH [of w1] b show ?case
      by (auto split: if_splits)
  qed
  from assms(2) show ?thesis
    by (auto simp: CreateSearchPath_def Let_def split: prod.splits if_splits dest: loop)
qed

definition own_flag_name :: "'w discovery_os \<Rightarrow> enriched_instance_identifier \<Rightarrow> int \<Rightarrow> string" where
  "own_flag_name os e disambiguator = flag_file_name (os_getpid os) (GetQualityType e) disambiguator"

lemma FlagFile_Make_outcome:
  assumes "file_system_laws os" and "FlagFile_Make os e k w = (Inr f, w')" and "GetQualityType e \<noteq> kInvalid"
  defines "d \<equiv> GetSearchPathForIdentifier e"
  shows "f = \<lparr>ff_identifier = e, ff_disambiguator = k, is_offered = True\<rparr>"
    and "regular os d w' = insert (own_flag_name os e k)
      {n \<in> regular os d w. \<not> sublist (GetQualityTypeString (GetQualityType e)) n}"
proof -
  obtain cleared w1 where c: "RemoveMatchingFlagFiles os e w = (cleared, w1)" by (cases "RemoveMatchingFlagFiles os e w")
  with assms(2) have cl: "cleared = Inr ()" by (cases cleared) (auto simp: FlagFile_Make_def Let_def)
  obtain p w2 where p: "CreateSearchPath os e w1 = (p, w2)" by (cases "CreateSearchPath os e w1")
  with assms(2) c cl obtain s where ps: "p = Inr s" by (cases p) (auto simp: FlagFile_Make_def Let_def)
  obtain o3 w3 where o: "os_open_out os (CreateFlagFilePath os e k) w2 = (o3, w3)" by (cases "os_open_out os (CreateFlagFilePath os e k) w2")
  obtain o4 w4 where q: "os_permissions os (CreateFlagFilePath os e k) w3 = (o4, w4)" by (cases "os_permissions os (CreateFlagFilePath os e k) w3")
  from assms(2) c cl p ps o q have "o3" and w': "w' = w4"
    and "f = \<lparr>ff_identifier = e, ff_disambiguator = k, is_offered = True\<rparr>"
    by (auto simp: FlagFile_Make_def Let_def split: if_splits)
  then show "f = \<lparr>ff_identifier = e, ff_disambiguator = k, is_offered = True\<rparr>" by simp
  have path: "CreateFlagFilePath os e k = path_append d (own_flag_name os e k)"
    by (simp add: CreateFlagFilePath_def own_flag_name_def d_def)
  have "CHR ''/'' \<notin> set (own_flag_name os e k)" by (simp add: own_flag_name_def flag_file_name_no_slash)
  from file_system_lawsD(2) [OF assms(1) this, of d w2 w3] o \<open>o3\<close>
  have "regular os d w3 = insert (own_flag_name os e k) (regular os d w2)" by (simp add: path)
  with RemoveMatching_outcome [OF assms(1) c [unfolded cl] assms(3)] CreateSearchPath_regular [OF assms(1) p]
    file_system_lawsD(3) [OF assms(1) q]
  show "regular os d w' = insert (own_flag_name os e k)
      {n \<in> regular os d w. \<not> sublist (GetQualityTypeString (GetQualityType e)) n}"
    by (simp add: w' d_def)
qed

subsection \<open>Offering and withdrawing\<close>

definition flag_file_of :: "enriched_instance_identifier \<Rightarrow> QualityType \<Rightarrow> int \<Rightarrow> flag_file" where
  "flag_file_of e q k = \<lparr>ff_identifier = EnrichedInstanceIdentifier_with_quality e q, ff_disambiguator = k, is_offered = True\<rparr>"

definition name_of :: "'w discovery_os \<Rightarrow> QualityType \<Rightarrow> int \<Rightarrow> string" where
  "name_of os q k = flag_file_name (os_getpid os) q k"

definition others_than :: "QualityType set \<Rightarrow> string set \<Rightarrow> string set" where
  "others_than qs ns = {n \<in> ns. \<forall>q \<in> qs. \<not> sublist (GetQualityTypeString q) n}"

lemma Make_of_quality:
  assumes "file_system_laws os" and "q \<noteq> kInvalid"
    and "FlagFile_Make os (EnrichedInstanceIdentifier_with_quality e q) k w = (Inr f, w')"
  shows "f = flag_file_of e q k \<and> regular os (GetSearchPathForIdentifier e) w' =
    insert (name_of os q k) (others_than {q} (regular os (GetSearchPathForIdentifier e) w))"
  using FlagFile_Make_outcome [OF assms(1,3)] assms(2)
  by (simp add: flag_file_of_def own_flag_name_def name_of_def others_than_def)

lemma OfferService_outcome:
  assumes "file_system_laws os" and "OfferService os iid c = Some (Inr (), c')"
  defines "e \<equiv> EnrichedInstanceIdentifier iid" and "k \<equiv> offer_disambiguator c + 1"
  defines "d \<equiv> GetSearchPathForIdentifier e"
  shows "(asilLevel iid = kASIL_QM \<and>
      flag_files c' iid = Some \<lparr>asil_b = None, asil_qm = Some (flag_file_of e kASIL_QM k)\<rparr> \<and>
      regular os d (system c') = insert (name_of os kASIL_QM k) (others_than {kASIL_QM} (regular os d (system c)))) \<or>
    (asilLevel iid = kASIL_B \<and>
      flag_files c' iid = Some \<lparr>asil_b = Some (flag_file_of e kASIL_B k), asil_qm = Some (flag_file_of e kASIL_QM k)\<rparr> \<and>
      regular os d (system c') = {name_of os kASIL_QM k, name_of os kASIL_B k} \<union>
        others_than {kASIL_B, kASIL_QM} (regular os d (system c)))"
proof -
  have q: "GetQualityType (EnrichedInstanceIdentifier iid) = asilLevel iid" by (simp add: EnrichedInstanceIdentifier_def)
  have qm: "fs' = fs\<lparr>asil_qm := Some (flag_file_of e kASIL_QM k)\<rparr> \<and>
      regular os d w' = insert (name_of os kASIL_QM k) (others_than {kASIL_QM} (regular os d w))"
    if "offer_qm os e k fs w = Some (Inr fs', w')" for fs fs' w w'
  proof -
    obtain made w1 where m: "FlagFile_Make os (EnrichedInstanceIdentifier_with_quality e kASIL_QM) k w = (made, w1)"
      by (cases "FlagFile_Make os (EnrichedInstanceIdentifier_with_quality e kASIL_QM) k w")
    with that obtain f where f: "made = Inr f"
      by (cases made) (auto simp: offer_qm_def split: Option.bind_splits)
    with that m have "fs' = fs\<lparr>asil_qm := Some f\<rparr>" "w' = w1" by (simp_all add: offer_qm_def)
    with Make_of_quality [OF assms(1) _ m [unfolded f]] show ?thesis by (simp add: d_def)
  qed
  show ?thesis
  proof (cases "asilLevel iid")
    case kASIL_QM
    with assms(2) q obtain fs w where fs: "offer_qm os e k no_flag_files (system c) = Some (Inr fs, w)"
      "c' = c\<lparr>offer_disambiguator := k, system := w, flag_files := (flag_files c)(iid \<mapsto> fs)\<rparr>"
      by (auto simp: OfferService_def contract_simps Let_def e_def k_def split: Option.bind_splits if_splits sum.splits)
    with qm [OF fs(1)] kASIL_QM show ?thesis by (simp add: no_flag_files_def)
  next
    case kASIL_B
    obtain made w1 where m: "FlagFile_Make os (EnrichedInstanceIdentifier_with_quality e kASIL_B) k (system c) = (made, w1)"
      by (cases "FlagFile_Make os (EnrichedInstanceIdentifier_with_quality e kASIL_B) k (system c)")
    with assms(2) q kASIL_B obtain f where f: "made = Inr f"
      by (cases made) (auto simp: OfferService_def contract_simps Let_def e_def k_def split: Option.bind_splits if_splits)
    from assms(2) q kASIL_B m f obtain fs w where
      fs: "offer_qm os e k (no_flag_files\<lparr>asil_b := Some f\<rparr>) w1 = Some (Inr fs, w)"
      "c' = c\<lparr>offer_disambiguator := k, system := w, flag_files := (flag_files c)(iid \<mapsto> fs)\<rparr>"
      by (auto simp: OfferService_def contract_simps Let_def e_def k_def split: Option.bind_splits if_splits sum.splits)
    have b: "f = flag_file_of e kASIL_B k" "regular os d w1 = insert (name_of os kASIL_B k) (others_than {kASIL_B} (regular os d (system c)))"
      using Make_of_quality [OF assms(1) _ m [unfolded f]] by (simp_all add: d_def)
    have "\<not> sublist (GetQualityTypeString kASIL_QM) (name_of os kASIL_B k)"
      by (simp add: name_of_def flag_file_name_quality)
    with qm [OF fs(1)] b kASIL_B fs(2) show ?thesis by (auto simp: no_flag_files_def others_than_def)
  next
    case kInvalid
    with assms(2) q show ?thesis
      by (auto simp: OfferService_def contract_simps Let_def split: Option.bind_splits if_splits)
  qed
qed

lemma destroy_outcome:
  assumes "file_system_laws os" and "destroy_flag_file os (Some (flag_file_of e q k)) w = Some w'"
  shows "regular os (GetSearchPathForIdentifier e) w' = regular os (GetSearchPathForIdentifier e) w - {name_of os q k}"
proof -
  let ?d = "GetSearchPathForIdentifier e"
  from assms(2) have "os_remove os (path_append ?d (name_of os q k)) w = (True, w')"
    by (auto simp: destroy_flag_file_def FlagFile_destroy_def flag_file_of_def CreateFlagFilePath_def name_of_def
        split: prod.splits if_splits)
  from file_system_lawsD(1) [OF assms(1) _ this] show ?thesis by (simp add: name_of_def flag_file_name_no_slash)
qed

text \<open>A search for one instance finds it or not, as its directory says.\<close>

lemma FindService_instance:
  assumes "GetQualityType e \<noteq> kInvalid" and "GetInstanceId e = Some i"
  shows "FindService os e c = Some (Inr (if offered_in os (system c) e (GetQualityType e)
    then [\<lparr>handle_identifier = GetInstanceIdentifier e, handle_instance_id = i\<rparr>] else []), c)"
proof -
  have "proper_identifier e" using assms(2) by (simp add: proper_identifier_def)
  from FindService_outcome [OF assms(1) this, of os c] obtain r where r: "FindService os e c = Some (r, c)"
    "case r of
       Inl err \<Rightarrow> err = kBindingFailure \<and> GetInstanceId e = None \<and>
         None \<in> snd ` set (os_entries os (GetSearchPathForIdentifier e) (system c))
     | Inr hs \<Rightarrow> set hs = handles_for e (offers os (system c) e (GetQualityType e)) \<and> distinct hs"
    by blast
  then obtain hs where
    hs: "FindService os e c = Some (Inr hs, c)" "set hs = handles_for e (offers os (system c) e (GetQualityType e))" "distinct hs"
    using assms(2) by (cases r) auto
  have "instance_of e i = e" using assms(2) by (simp add: instance_of_def)
  then have "set hs = (if offered_in os (system c) e (GetQualityType e)
      then {\<lparr>handle_identifier = GetInstanceIdentifier e, handle_instance_id = i\<rparr>} else {})"
    unfolding hs(2) using assms(2)
    by (auto simp: handles_for_def offers_def candidates_def intro: handle_type.equality)
  moreover have "xs = [x]" if "set xs = {x}" "distinct xs" for xs and x :: handle_type
    using that by (cases xs) (auto simp: subset_singleton_iff)
  ultimately show ?thesis using hs(1,3) by (auto split: if_splits)
qed

text \<open>An identifier that searches for the instance that \<open>iid\<close> offers.\<close>

definition searches_for :: "enriched_instance_identifier \<Rightarrow> instance_identifier \<Rightarrow> u16 \<Rightarrow> bool" where
  "searches_for e iid i \<longleftrightarrow> deployed_instance_id iid = Some i \<and> GetInstanceId e = Some i \<and>
     GetBindingSpecificServiceId e = deployed_service_id iid"

lemma searches_for_path:
  "searches_for e iid i \<Longrightarrow> GetSearchPathForIdentifier e = GetSearchPathForIdentifier (EnrichedInstanceIdentifier iid)"
  by (simp add: search_path_inject searches_for_def EnrichedInstanceIdentifier_def GetBindingSpecificServiceId_def)

subsection \<open>The laws hold for the file system in memory\<close>

lemma memory_regular: "regular memory_os d w = {n. (d, n) \<in> set (regular_files w) \<and> CHR ''/'' \<notin> set n}"
  by (force simp: regular_def memory_os_def memory_entries_def)

lemma memory_file_system_laws: "file_system_laws memory_os"
  unfolding file_system_laws_def memory_regular
  by (auto simp: memory_os_def split_path_append split: if_splits)

definition instance_3 :: "QualityType \<Rightarrow> instance_identifier" where
  "instance_3 q = \<lparr>deployment = ''three'', deployed_service_id = 1, deployed_instance_id = Some 3, asilLevel = q\<rparr>"

definition first_client :: "(string, memory) discovery_client" where
  "first_client = ServiceDiscoveryClient 0 empty_memory"

definition no_permissions_os :: "memory discovery_os" where
  "no_permissions_os = memory_os\<lparr>os_permissions := (\<lambda>p w. (False, w))\<rparr>"

lemma offers_run:
  "case OfferService memory_os (instance_3 kASIL_B) first_client of
     Some (Inr u, c) \<Rightarrow> (case StopOfferService memory_os (instance_3 kASIL_B) kAsilQm c of Some (Inr v, c') \<Rightarrow> True | _ \<Rightarrow> False)
   | _ \<Rightarrow> False"
  by code_simp

lemma offer_then_stop:
  obtains c1 c2 where "OfferService memory_os (instance_3 kASIL_B) first_client = Some (Inr (), c1)"
    "StopOfferService memory_os (instance_3 kASIL_B) kAsilQm c1 = Some (Inr (), c2)"
  using offers_run by (auto split: option.splits prod.splits sum.splits)

lemma instance_3_searches:
  "searches_for (EnrichedInstanceIdentifier (instance_3 q)) (instance_3 q) 3"
  "GetQualityType (EnrichedInstanceIdentifier (instance_3 q)) = q" "asilLevel (instance_3 q) = q"
  by (simp_all add: searches_for_def instance_3_def EnrichedInstanceIdentifier_def GetBindingSpecificServiceId_def)

subsection \<open>Properties\<close>

text \<open>
  Property C34: an offered service is found. After a successful \<open>OfferService\<close>, a search for that
  instance with the quality QM, and one with the quality of the offer, returns exactly its handle.
\<close>

theorem offered_service_is_found:
  assumes "file_system_laws os" and "OfferService os iid c = Some (Inr (), c')"
    and "searches_for e iid i" and "GetQualityType e = kASIL_QM \<or> GetQualityType e = asilLevel iid"
  shows "FindService os e c' =
    Some (Inr [\<lparr>handle_identifier = GetInstanceIdentifier e, handle_instance_id = i\<rparr>], c')"
proof -
  have own: "sublist (GetQualityTypeString q) (name_of os q k)" if "q \<noteq> kInvalid" for q k
    using that by (simp add: name_of_def flag_file_name_quality)
  have "GetQualityType e \<noteq> kInvalid \<and> offered_in os (system c') e (GetQualityType e)"
    using OfferService_outcome [OF assms(1,2)] assms(4) own
    unfolding offered_in_regular searches_for_path [OF assms(3)] by auto
  with FindService_instance [of e i os c'] assms(3) show ?thesis by (simp add: searches_for_def)
qed

theorem offered_service_is_found_witness:
  "\<exists>c1. OfferService memory_os (instance_3 kASIL_B) first_client = Some (Inr (), c1) \<and>
    FindService memory_os (EnrichedInstanceIdentifier (instance_3 kASIL_B)) c1 =
      Some (Inr [\<lparr>handle_identifier = instance_3 kASIL_B, handle_instance_id = 3\<rparr>], c1)"
proof -
  obtain c1 c2 where c1: "OfferService memory_os (instance_3 kASIL_B) first_client = Some (Inr (), c1)"
    "StopOfferService memory_os (instance_3 kASIL_B) kAsilQm c1 = Some (Inr (), c2)"
    by (rule offer_then_stop)
  have "GetInstanceIdentifier (EnrichedInstanceIdentifier (instance_3 kASIL_B)) = instance_3 kASIL_B"
    by (simp add: EnrichedInstanceIdentifier_def)
  with offered_service_is_found [OF memory_file_system_laws c1(1) instance_3_searches(1)] c1(1) show ?thesis
    by (simp add: instance_3_searches)
qed

text \<open>
  Property C33: offering and withdrawing is a round trip. If a successful \<open>OfferService\<close> is followed by
  a \<open>StopOfferService\<close> that returns, a search for the instance finds nothing, with QM or with the
  quality of the offer; if only QM was withdrawn, a search with ASIL-B still finds an ASIL-B offer.
\<close>

theorem offer_round_trip:
  assumes "file_system_laws os" and "OfferService os iid c = Some (Inr (), c1)"
    and "StopOfferService os iid selector c1 = Some (r, c2)"
    and "searches_for e iid i" and "GetQualityType e = kASIL_QM \<or> GetQualityType e = asilLevel iid"
  shows "r = Inr () \<and> FindService os e c2 = Some (Inr (if selector = kAsilQm \<and> GetQualityType e = kASIL_B
    then [\<lparr>handle_identifier = GetInstanceIdentifier e, handle_instance_id = i\<rparr>] else []), c2)"
proof -
  let ?E = "EnrichedInstanceIdentifier iid" and ?k = "offer_disambiguator c + 1"
  let ?d = "GetSearchPathForIdentifier ?E"
  let ?qm = "name_of os kASIL_QM ?k" and ?b = "name_of os kASIL_B ?k"
  have names: "sublist (GetQualityTypeString kASIL_QM) ?qm" "sublist (GetQualityTypeString kASIL_B) ?b"
    "\<not> sublist (GetQualityTypeString kASIL_QM) ?b" "\<not> sublist (GetQualityTypeString kASIL_B) ?qm"
    by (simp_all add: name_of_def flag_file_name_quality)
  note offered = OfferService_outcome [OF assms(1,2)]
  have "r = Inr () \<and> GetQualityType e \<noteq> kInvalid \<and>
    (offered_in os (system c2) e (GetQualityType e) \<longleftrightarrow> selector = kAsilQm \<and> GetQualityType e = kASIL_B)"
  proof (cases "asilLevel iid")
    case kASIL_QM
    with offered have fs: "flag_files c1 iid = Some \<lparr>asil_b = None, asil_qm = Some (flag_file_of ?E kASIL_QM ?k)\<rparr>"
      and reg: "regular os ?d (system c1) = insert ?qm (others_than {kASIL_QM} (regular os ?d (system c)))" by auto
    from assms(3) fs obtain w where w: "destroy_flag_file os (Some (flag_file_of ?E kASIL_QM ?k)) (system c1) = Some w"
      "system c2 = w" "r = Inr ()"
      by (cases selector) (auto simp: StopOfferService_def contract_simps destroy_flag_files_def destroy_flag_file_def
          split: Option.bind_splits if_splits)
    have "regular os ?d (system c2) = others_than {kASIL_QM} (regular os ?d (system c)) - {?qm}"
      using destroy_outcome [OF assms(1) w(1)] reg w(2) by auto
    with kASIL_QM assms(5) w(3) show ?thesis
      unfolding offered_in_regular searches_for_path [OF assms(4)] by (auto simp: others_than_def)
  next
    case kASIL_B
    with offered have fs: "flag_files c1 iid =
        Some \<lparr>asil_b = Some (flag_file_of ?E kASIL_B ?k), asil_qm = Some (flag_file_of ?E kASIL_QM ?k)\<rparr>"
      and reg: "regular os ?d (system c1) = {?qm, ?b} \<union> others_than {kASIL_B, kASIL_QM} (regular os ?d (system c))" by auto
    show ?thesis
    proof (cases selector)
      case kBoth
      with assms(3) fs obtain w where w: "destroy_flag_file os (Some (flag_file_of ?E kASIL_QM ?k)) (system c1) = Some w"
        "destroy_flag_file os (Some (flag_file_of ?E kASIL_B ?k)) w = Some (system c2)" "r = Inr ()"
        by (auto simp: StopOfferService_def contract_simps destroy_flag_files_def split: Option.bind_splits if_splits)
      have "regular os ?d (system c2) \<subseteq> others_than {kASIL_B, kASIL_QM} (regular os ?d (system c))"
        using destroy_outcome [OF assms(1) w(1)] destroy_outcome [OF assms(1) w(2)] reg by auto
      with kBoth kASIL_B assms(5) w(3) show ?thesis
        unfolding offered_in_regular searches_for_path [OF assms(4)] by (auto simp: others_than_def)
    next
      case kAsilQm
      with assms(3) fs have w: "destroy_flag_file os (Some (flag_file_of ?E kASIL_QM ?k)) (system c1) = Some (system c2)"
        "r = Inr ()"
        by (auto simp: StopOfferService_def contract_simps split: Option.bind_splits if_splits)
      have reg2: "regular os ?d (system c2) = {?qm, ?b} \<union> others_than {kASIL_B, kASIL_QM} (regular os ?d (system c)) - {?qm}"
        using destroy_outcome [OF assms(1) w(1)] reg by simp
      have "?b \<in> regular os ?d (system c2)" using reg2 names by auto
      with reg2 names kAsilQm kASIL_B assms(5) w(2) show ?thesis
        unfolding offered_in_regular searches_for_path [OF assms(4)] by (auto simp: others_than_def)
    qed
  next
    case kInvalid
    with offered show ?thesis by simp
  qed
  with FindService_instance [of e i os c2] assms(4) show ?thesis by (auto simp: searches_for_def)
qed

theorem offer_round_trip_witness:
  "\<exists>c1 c2. OfferService memory_os (instance_3 kASIL_B) first_client = Some (Inr (), c1) \<and>
    StopOfferService memory_os (instance_3 kASIL_B) kAsilQm c1 = Some (Inr (), c2) \<and>
    FindService memory_os (EnrichedInstanceIdentifier (instance_3 kASIL_B)) c2 =
      Some (Inr [\<lparr>handle_identifier = instance_3 kASIL_B, handle_instance_id = 3\<rparr>], c2)"
proof -
  obtain c1 c2 where c: "OfferService memory_os (instance_3 kASIL_B) first_client = Some (Inr (), c1)"
    "StopOfferService memory_os (instance_3 kASIL_B) kAsilQm c1 = Some (Inr (), c2)"
    by (rule offer_then_stop)
  have "GetInstanceIdentifier (EnrichedInstanceIdentifier (instance_3 kASIL_B)) = instance_3 kASIL_B"
    by (simp add: EnrichedInstanceIdentifier_def)
  with offer_round_trip [OF memory_file_system_laws c instance_3_searches(1)] c show ?thesis
    by (simp add: instance_3_searches)
qed

text \<open>
  An offer that failed is found all the same. When the permissions of a flag file cannot
  be set, \<open>OfferService\<close> reports that the service is not offered, but the file that it has opened
  stays, and a search finds the instance.
\<close>

lemma failed_offer_is_found:
  "case OfferService no_permissions_os (instance_3 kASIL_QM) first_client of
     Some (Inl err, c) \<Rightarrow> err = kServiceNotOffered \<and>
       map_option fst (FindService no_permissions_os (EnrichedInstanceIdentifier (instance_3 kASIL_QM)) c) =
         Some (Inr [\<lparr>handle_identifier = instance_3 kASIL_QM, handle_instance_id = 3\<rparr>])
   | _ \<Rightarrow> False"
  by code_simp

end
