(* ===== verification/Json_Objects.thy ===== *)
theory Json_Objects
  imports Lola_Prelude "HOL-Library.Char_ord" "HOL-Library.List_Lexorder"
begin

text \<open>
  JSON values as the configuration uses them. The JSON library (\<open>lib/json\<close>) is not part of the
  repository: its type of values is the parameter \<open>'j\<close>, and the record \<open>json_api\<close> holds the
  conversions that the code calls, \<open>As<T>()\<close> (\<open>None\<close> where the value is no \<open>T\<close>) and the constructors
  of \<open>Any\<close>. \<open>json_laws\<close> is what the round trips need of it: an \<open>Any\<close> gives back what was put in.

  Objects and the maps of the deployments are tables, that is lists of keys with their values in
  ascending order, one for each key. A table is the map it stands for and nothing else, so two
  tables with the same entries are equal; where the code goes through an unordered map, the model
  takes ascending order.

  The templates of configuration_common_resources.h are the functions at the end.
\<close>

subsection \<open>Tables\<close>

type_synonym ('k, 'v) table = "('k \<times> 'v) list"

definition is_table :: "('k :: linorder, 'v) table \<Rightarrow> bool" where
  "is_table t = sorted_wrt (<) (map fst t)"

fun table_put :: "'k :: linorder \<Rightarrow> 'v \<Rightarrow> ('k, 'v) table \<Rightarrow> ('k, 'v) table" where
  "table_put k v [] = [(k, v)]"
| "table_put k v ((k', v') # t) =
     (if k < k' then (k, v) # (k', v') # t
      else if k = k' then (k, v) # t
      else (k', v') # table_put k v t)"

text \<open>\<open>emplace\<close> and \<open>insert\<close> do not overwrite; \<open>None\<close> is the failed insertion that the callers end at.\<close>

definition table_insert :: "'k :: linorder \<Rightarrow> 'v \<Rightarrow> ('k, 'v) table \<Rightarrow> ('k, 'v) table option" where
  "table_insert k v t = (case map_of t k of None \<Rightarrow> Some (table_put k v t) | Some _ \<Rightarrow> None)"

definition table_of :: "('k :: linorder \<times> 'v) list \<Rightarrow> ('k, 'v) table" where
  "table_of kvs = foldr (\<lambda>(k, v). table_put k v) kvs []"

lemma is_table_Nil [simp]: "is_table []"
  by (simp add: is_table_def)

lemma is_table_Cons: "is_table ((k, v) # t) \<longleftrightarrow> (\<forall>x \<in> set t. k < fst x) \<and> is_table t"
  by (auto simp: is_table_def)

lemma is_table_distinct: "is_table t \<Longrightarrow> distinct (map fst t)"
  unfolding is_table_def using strict_sorted_iff by blast

lemma set_table_put: "fst ` set (table_put k v t) = insert k (fst ` set t)"
  by (induction k v t rule: table_put.induct) auto

lemma is_table_put [simp]: "is_table t \<Longrightarrow> is_table (table_put k v t)"
proof (induction k v t rule: table_put.induct)
  case (2 k v k' v' t)
  have "k' < fst x" if "x \<in> set (table_put k v t)" "\<not> k < k'" "k \<noteq> k'" for x
  proof -
    from that(1) have "fst x = k \<or> fst x \<in> fst ` set t"
      using set_table_put [of k v t] by (metis imageI insertE)
    with that 2(2) show ?thesis by (auto simp: is_table_Cons)
  qed
  with 2 show ?case by (auto simp: is_table_Cons dest: less_trans)
qed (simp add: is_table_Cons)

lemma map_of_table_put [simp]: "is_table t \<Longrightarrow> map_of (table_put k v t) = (map_of t)(k \<mapsto> v)"
proof (induction k v t rule: table_put.induct)
  case (2 k v k' v' t)
  then show ?case by (auto simp: is_table_Cons fun_upd_twist fun_eq_iff)
qed simp

lemma is_table_table_of [simp]: "is_table (table_of kvs)"
  by (induction kvs) (auto simp: table_of_def)

lemma map_of_table_of [simp]: "map_of (table_of kvs) = map_of kvs"
  by (induction kvs) (auto simp: table_of_def fun_eq_iff is_table_table_of [unfolded table_of_def])

lemma table_ext:
  assumes t: "is_table t" and u: "is_table u" and same: "map_of t = map_of u"
  shows "t = u"
proof -
  have set: "set t = set u"
    using same map_of_inject_set [of t u] is_table_distinct [OF t] is_table_distinct [OF u] by blast
  have "inj_on fst (set t \<union> set u)"
    using is_table_distinct [OF t] unfolding set [symmetric] by (simp add: distinct_map)
  then show ?thesis
    using set t u is_table_distinct strict_sorted_imp_sorted
    unfolding is_table_def by (metis map_sorted_distinct_set_unique)
qed

lemma table_insert_Some:
  "table_insert k v t = Some u \<longleftrightarrow> map_of t k = None \<and> u = table_put k v t"
  by (auto simp: table_insert_def split: option.splits)

subsection \<open>Loops over containers\<close>

primrec for_each :: "('a \<Rightarrow> 's \<Rightarrow> 's run) \<Rightarrow> 'a list \<Rightarrow> 's \<Rightarrow> 's run" where
  "for_each body [] s = Some s"
| "for_each body (x # xs) s = body x s \<bind> for_each body xs"

lemma for_each_append: "for_each body (xs @ ys) s = for_each body xs s \<bind> for_each body ys"
proof (induction xs arbitrary: s)
  case (Cons x xs)
  then show ?case by (cases "body x s") auto
qed simp

lemma for_each_invariant:
  assumes "for_each body xs s = Some s'" "P s"
    and "\<And>x s s'. x \<in> set xs \<Longrightarrow> P s \<Longrightarrow> body x s = Some s' \<Longrightarrow> P s'"
  shows "P s'"
  using assms
proof (induction xs arbitrary: s)
  case (Cons x xs)
  then show ?case by (auto simp: bind_eq_Some_conv)
qed simp

lemma for_each_inserts_all:
  assumes "\<And>x m. x \<in> set xs \<Longrightarrow> body x m = table_insert (key x) (val x) m" "distinct (map key xs)"
  shows "for_each body xs [] = Some (table_of (map (\<lambda>x. (key x, val x)) xs))"
  using assms
proof (induction xs rule: rev_induct)
  case (snoc x xs)
  have IH: "for_each body xs [] = Some (table_of (map (\<lambda>x. (key x, val x)) xs))"
    by (rule snoc.IH) (use snoc.prems in auto)
  let ?t = "table_of (map (\<lambda>x. (key x, val x)) xs)"
  have new: "map_of (map (\<lambda>x. (key x, val x)) xs) (key x) = None"
    using snoc.prems(2) by (auto simp: map_of_eq_None_iff comp_def)
  have "map_of (table_put (key x) (val x) ?t) = map_of (map (\<lambda>x. (key x, val x)) (xs @ [x]))"
    using new by (auto simp: fun_eq_iff map_add_def split: option.splits)
  then have "table_put (key x) (val x) ?t = table_of (map (\<lambda>x. (key x, val x)) (xs @ [x]))"
    by (intro table_ext) (simp_all only: is_table_put is_table_table_of map_of_table_of)
  then show ?case
    unfolding for_each_append IH using snoc.prems(1) [of x] new by (simp add: table_insert_def)
qed (simp add: table_of_def)

lemma table_of_set:
  assumes "is_table t" "set kvs = set t" "distinct (map fst kvs)"
  shows "table_of kvs = t"
  by (rule table_ext) (use assms map_of_inject_set [of kvs t] is_table_distinct in auto)

lemma table_of_table: "is_table t \<Longrightarrow> table_of t = t"
  by (rule table_of_set) (simp_all add: is_table_distinct)

lemma set_table_of: "distinct (map fst kvs) \<Longrightarrow> set (table_of kvs) = set kvs"
  using map_of_inject_set [of "table_of kvs" kvs] is_table_distinct [OF is_table_table_of] by auto

lemma is_table_map [simp]: "is_table (map (\<lambda>(k, v). (k, g v)) t) = is_table t"
  unfolding is_table_def by (simp add: comp_def case_prod_unfold)

lemma for_each_collects:
  assumes "is_table t" "\<And>k v. (k, v) \<in> set t \<Longrightarrow> read (h v) = Some (g v)"
  shows "for_each (\<lambda>(k, j) m. do { x \<leftarrow> read j; table_insert k x m }) (map (\<lambda>(k, v). (k, h v)) t) [] =
    Some (map (\<lambda>(k, v). (k, g v)) t)"
proof -
  let ?val = "\<lambda>x. the (read (snd x))"
  have "for_each (\<lambda>(k, j) m. do { x \<leftarrow> read j; table_insert k x m }) (map (\<lambda>(k, v). (k, h v)) t) [] =
      Some (table_of (map (\<lambda>x. (fst x, ?val x)) (map (\<lambda>(k, v). (k, h v)) t)))"
    by (rule for_each_inserts_all)
      (use assms is_table_distinct [of "map (\<lambda>(k, v). (k, h v)) t"] in auto)
  also have "map (\<lambda>x. (fst x, ?val x)) (map (\<lambda>(k, v). (k, h v)) t) = map (\<lambda>(k, v). (k, g v)) t"
    using assms(2) by auto
  finally show ?thesis using assms(1) by (simp add: table_of_table)
qed

lemma for_each_checks:
  "for_each (\<lambda>x s. if ok x then Some s else None) xs s = (if \<forall>x \<in> set xs. ok x then Some s else None)"
  by (induction xs) auto

lemma those_Some: "those (map (\<lambda>x. Some (f x)) xs) = Some (map f xs)"
  by (induction xs) auto

subsection \<open>The JSON library\<close>

type_synonym 'j json_object = "(string, 'j) table"

record 'j json_api =
  as_object :: "'j \<Rightarrow> 'j json_object option"
  as_list :: "'j \<Rightarrow> 'j list option"
  as_string :: "'j \<Rightarrow> string option"
  as_bool :: "'j \<Rightarrow> bool option"
  as_uint8 :: "'j \<Rightarrow> u8 option"
  as_uint16 :: "'j \<Rightarrow> u16 option"
  as_uint32 :: "'j \<Rightarrow> u32 option"
  as_uint64 :: "'j \<Rightarrow> u64 option"
  as_int32 :: "'j \<Rightarrow> int option"
  as_int64 :: "'j \<Rightarrow> int option"
  of_object :: "'j json_object \<Rightarrow> 'j"
  of_list :: "'j list \<Rightarrow> 'j"
  of_string :: "string \<Rightarrow> 'j"
  of_bool_value :: "bool \<Rightarrow> 'j"
  of_uint8 :: "u8 \<Rightarrow> 'j"
  of_uint16 :: "u16 \<Rightarrow> 'j"
  of_uint32 :: "u32 \<Rightarrow> 'j"
  of_uint64 :: "u64 \<Rightarrow> 'j"

definition json_laws :: "('j, 'm) json_api_scheme \<Rightarrow> bool" where
  "json_laws J \<longleftrightarrow>
     (\<forall>t. is_table t \<longrightarrow> as_object J (of_object J t) = Some t) \<and>
     (\<forall>xs. as_list J (of_list J xs) = Some xs) \<and>
     (\<forall>s. as_string J (of_string J s) = Some s) \<and>
     (\<forall>b. as_bool J (of_bool_value J b) = Some b) \<and>
     (\<forall>n. as_uint8 J (of_uint8 J n) = Some n) \<and>
     (\<forall>n. as_uint16 J (of_uint16 J n) = Some n) \<and>
     (\<forall>n. as_uint32 J (of_uint32 J n) = Some n) \<and>
     (\<forall>n. as_uint64 J (of_uint64 J n) = Some n) \<and>
     (\<forall>n. unat n < 2 ^ 63 \<longrightarrow> as_int64 J (of_uint64 J n) = Some (uint n))"

named_theorems json_simps \<open>what comes back out of an \<open>Any\<close>\<close>

lemma json_laws_simps [json_simps]:
  assumes "json_laws J"
  shows "is_table t \<Longrightarrow> as_object J (of_object J t) = Some t"
    "as_list J (of_list J xs) = Some xs"
    "as_string J (of_string J s) = Some s"
    "as_bool J (of_bool_value J b) = Some b"
    "as_uint8 J (of_uint8 J n8) = Some n8"
    "as_uint16 J (of_uint16 J n16) = Some n16"
    "as_uint32 J (of_uint32 J n32) = Some n32"
    "as_uint64 J (of_uint64 J n64) = Some n64"
    "unat n64 < 2 ^ 63 \<Longrightarrow> as_int64 J (of_uint64 J n64) = Some (uint n64)"
  using assms unfolding json_laws_def by simp_all

subsection \<open>Common resources of the configuration\<close>

definition GetValueFromJson :: "('j \<Rightarrow> 'a option) \<Rightarrow> 'j json_object \<Rightarrow> string \<Rightarrow> 'a run" where
  "GetValueFromJson as json_object key = do {
     it \<leftarrow> map_of json_object key;
     as it }"

definition ConstructVariant ::
    "('j, 'm) json_api_scheme \<Rightarrow> ('j json_object \<Rightarrow> 'a run) \<Rightarrow> 'j json_object \<Rightarrow> string \<Rightarrow> 'a run" where
  "ConstructVariant J constructor json_object json_variant_key = do {
     binding_info_json_object \<leftarrow> GetValueFromJson (as_object J) json_object json_variant_key;
     constructor binding_info_json_object }"

text \<open>The alternatives of the variant, from \<open>VariantIndex\<close> on.\<close>

fun DeserializeVariant ::
    "('j json_object \<Rightarrow> string \<Rightarrow> 'v run) list \<Rightarrow> int \<Rightarrow> 'j json_object \<Rightarrow> int \<Rightarrow> string \<Rightarrow> 'v run" where
  "DeserializeVariant [] VariantIndex json_object variant_index json_variant_key = None"
| "DeserializeVariant (construct # alternatives) VariantIndex json_object variant_index json_variant_key =
     (if variant_index = VariantIndex then construct json_object json_variant_key
      else DeserializeVariant alternatives (VariantIndex + 1) json_object variant_index json_variant_key)"

definition ConvertServiceElementMapToJson ::
    "('j, 'm) json_api_scheme \<Rightarrow> ('e \<Rightarrow> 'j json_object) \<Rightarrow> (string, 'e) table \<Rightarrow> 'j json_object run" where
  "ConvertServiceElementMapToJson J serialize input_map =
     for_each (\<lambda>(name, element) mapping_object.
       table_insert name (of_object J (serialize element)) mapping_object) input_map []"

definition ConvertJsonToServiceElementMap ::
    "('j, 'm) json_api_scheme \<Rightarrow> ('j json_object \<Rightarrow> 'e run) \<Rightarrow> 'j json_object \<Rightarrow> string \<Rightarrow> (string, 'e) table run" where
  "ConvertJsonToServiceElementMap J constructor json_object key = do {
     service_element_json \<leftarrow> GetValueFromJson (as_object J) json_object key;
     for_each (\<lambda>(event_name, json) service_element_map. do {
         event_instance_deployment_json \<leftarrow> as_object J json;
         event_instance_deployment \<leftarrow> constructor event_instance_deployment_json;
         table_insert event_name event_instance_deployment service_element_map })
       service_element_json [] }"

lemma ConvertServiceElementMapToJson_eq:
  assumes "is_table t"
  shows "ConvertServiceElementMapToJson J serialize t = Some (map (\<lambda>(k, e). (k, of_object J (serialize e))) t)"
  unfolding ConvertServiceElementMapToJson_def
  using for_each_collects [OF assms, of "\<lambda>e. Some (of_object J (serialize e))" "\<lambda>e. e"] by simp

lemma element_map_round_trip:
  assumes laws: "json_laws J" and t: "is_table t"
    and elements: "\<And>k e. (k, e) \<in> set t \<Longrightarrow> is_table (serialize e) \<and> constructor (serialize e) = Some (g e)"
    and key: "map_of json_object key = Some (of_object J (map (\<lambda>(k, e). (k, of_object J (serialize e))) t))"
  shows "ConvertJsonToServiceElementMap J constructor json_object key = Some (map (\<lambda>(k, e). (k, g e)) t)"
proof -
  have "for_each (\<lambda>(k, j) m. do { x \<leftarrow> as_object J j \<bind> constructor; table_insert k x m })
      (map (\<lambda>(k, e). (k, of_object J (serialize e))) t) [] = Some (map (\<lambda>(k, e). (k, g e)) t)"
    by (rule for_each_collects [OF t]) (use elements laws in \<open>simp add: json_simps\<close>)
  then show ?thesis
    using t laws unfolding ConvertJsonToServiceElementMap_def GetValueFromJson_def
    by (simp add: key json_simps)
qed

end
