(* ===== verification/Instance_Specifiers.thy ===== *)
theory Instance_Specifiers
  imports Decimal_Text Element_Messages "HOL-Library.Sublist"
begin

text \<open>
  \<open>InstanceSpecifier\<close> (impl/instance_specifier.h/.cpp): the name of a service instance, a text that
  \<open>Create\<close> has checked. The three regular expressions of \<open>IsShortNameValid\<close> are written out as what
  they match. The code hands them the pointer of a view, so they see the text up to the first NUL;
  that there is one is a duty of the caller.
\<close>

type_synonym instance_specifier = string

definition c_str :: "string \<Rightarrow> string" where
  "c_str s = takeWhile (\<lambda>c. c \<noteq> CHR 0x00) s"

definition is_letter :: "char \<Rightarrow> bool" where
  "is_letter c \<longleftrightarrow> (65 \<le> (of_char c :: nat) \<and> (of_char c :: nat) \<le> 90) \<or> (97 \<le> (of_char c :: nat) \<and> (of_char c :: nat) \<le> 122)"

definition IsShortNameValid :: "string \<Rightarrow> bool" where
  "IsShortNameValid shortname =
     (let s = c_str shortname;
          all_characters_valid = (case s of [] \<Rightarrow> False | c # cs \<Rightarrow>
            (is_letter c \<or> c = CHR ''_'' \<or> c = CHR ''/'') \<and>
            list_all (\<lambda>c. is_letter c \<or> c = CHR ''_'' \<or> c = CHR ''/'' \<or> is_digit c) cs);
          duplicate_slashes_found = (s \<noteq> [] \<and> last s = CHR ''/'');
          trailing_slash_found = sublist ''//'' s
      in all_characters_valid \<and> \<not> duplicate_slashes_found \<and> \<not> trailing_slash_found)"

definition InstanceSpecifier_Create :: "string \<Rightarrow> instance_specifier result" where
  "InstanceSpecifier_Create shortname_path =
     (if \<not> IsShortNameValid shortname_path then Inl kInvalidMetaModelShortname else Inr shortname_path)"

subsection \<open>The components of a name\<close>

fun split_slash :: "string \<Rightarrow> string list" where
  "split_slash [] = [[]]"
| "split_slash (x # xs) =
     (if x = CHR ''/'' then [] # split_slash xs
      else (case split_slash xs of [] \<Rightarrow> [[x]] | c # cs \<Rightarrow> (x # c) # cs))"

definition is_word :: "string \<Rightarrow> bool" where
  "is_word c \<longleftrightarrow> c \<noteq> [] \<and> list_all (\<lambda>x. is_letter x \<or> x = CHR ''_'' \<or> is_digit x) c"

text \<open>A path of words; it may start with a slash, and a word that starts the path has no digit in front.\<close>

definition word_path :: "string \<Rightarrow> bool" where
  "word_path s =
     (case split_slash s of
        [] \<Rightarrow> False
      | first # rest \<Rightarrow>
          (if first = [] then rest \<noteq> [] else is_word first \<and> \<not> is_digit (hd first)) \<and> list_all is_word rest)"

lemma split_slash_Cons: "\<exists>c cs. split_slash s = c # cs"
  by (cases s) (auto split: list.split)

lemma slash_is_no_char [simp]: "\<not> is_letter CHR ''/''" "\<not> is_digit CHR ''/''" "\<not> is_digit CHR ''_''"
  by (simp_all add: is_letter_def is_digit_def)

lemma split_slash_first: "hd (split_slash s) = [] \<longleftrightarrow> s = [] \<or> hd s = CHR ''/''"
  using split_slash_Cons [of "tl s"] by (cases s) auto

lemma sublist_slashes: "sublist ''//'' (x # xs) \<longleftrightarrow> x = CHR ''/'' \<and> xs \<noteq> [] \<and> hd xs = CHR ''/'' \<or> sublist ''//'' xs"
  by (cases xs) (auto simp: sublist_Cons_right)

lemma split_slash_rest:
  "list_all (\<lambda>c. c \<noteq> []) (tl (split_slash s)) \<longleftrightarrow> \<not> (s \<noteq> [] \<and> last s = CHR ''/'') \<and> \<not> sublist ''//'' s"
proof (induction s)
  case Nil
  then show ?case by simp
next
  case (Cons x xs)
  obtain c cs where split: "split_slash xs = c # cs" using split_slash_Cons by blast
  have first: "c = [] \<longleftrightarrow> xs = [] \<or> hd xs = CHR ''/''" using split_slash_first [of xs] by (simp add: split)
  show ?case
  proof (cases "x = CHR ''/''")
    case True
    with Cons.IH split first show ?thesis by (auto simp: sublist_slashes)
  next
    case False
    with Cons.IH split show ?thesis by (auto simp: sublist_slashes)
  qed
qed

lemma split_slash_chars:
  "list_all (list_all P) (split_slash s) \<longleftrightarrow> list_all (\<lambda>c. c = CHR ''/'' \<or> P c) s"
proof (induction s)
  case Nil
  then show ?case by simp
next
  case (Cons x xs)
  obtain c cs where "split_slash xs = c # cs" using split_slash_Cons by blast
  with Cons.IH show ?case by auto
qed

lemma is_letter_not_digit: "is_letter y \<Longrightarrow> \<not> is_digit y"
  by (auto simp: is_letter_def is_digit_def)

abbreviation word_char :: "char \<Rightarrow> bool" where
  "word_char x \<equiv> is_letter x \<or> x = CHR ''_'' \<or> is_digit x"

lemma word_path_split:
  assumes "split_slash s = c # cs"
  shows "word_path s \<longleftrightarrow> (if c = [] then cs \<noteq> [] else \<not> is_digit (hd c)) \<and>
    list_all (list_all word_char) (c # cs) \<and> list_all (\<lambda>c. c \<noteq> []) cs"
  unfolding word_path_def assms list.case is_word_def list_all_iff by (cases "c = []") auto

lemma valid_text_is_word_path:
  "((case s of [] \<Rightarrow> False | c # cs \<Rightarrow> (is_letter c \<or> c = CHR ''_'' \<or> c = CHR ''/'') \<and>
        list_all (\<lambda>c. is_letter c \<or> c = CHR ''_'' \<or> c = CHR ''/'' \<or> is_digit c) cs) \<and>
     \<not> (s \<noteq> [] \<and> last s = CHR ''/'') \<and> \<not> sublist ''//'' s) = word_path s"
proof (cases s)
  case Nil
  then show ?thesis by (simp add: word_path_def)
next
  case (Cons x xs)
  obtain c cs where split: "split_slash s = c # cs" using split_slash_Cons by blast
  have first: "c = [] \<longleftrightarrow> x = CHR ''/''"
    using split_slash_first [of s] unfolding split by (simp add: Cons)
  have hd: "hd c = x" if "c \<noteq> []"
    using that split split_slash_Cons [of xs] first unfolding Cons by auto
  have chars: "list_all (list_all word_char) (c # cs) \<longleftrightarrow> list_all (\<lambda>c. c = CHR ''/'' \<or> word_char c) s"
    using split_slash_chars [of word_char s] unfolding split .
  have words: "list_all (\<lambda>c. c \<noteq> []) cs \<longleftrightarrow> \<not> (s \<noteq> [] \<and> last s = CHR ''/'') \<and> \<not> sublist ''//'' s"
    using split_slash_rest [of s] unfolding split list.sel .
  have rest: "cs \<noteq> []" if "x = CHR ''/''"
    using that split split_slash_Cons [of xs] unfolding Cons by auto
  have start: "(if c = [] then cs \<noteq> [] else \<not> is_digit (hd c)) \<longleftrightarrow> x = CHR ''/'' \<or> \<not> is_digit x"
    using first hd rest by auto
  have all: "(case s of [] \<Rightarrow> False | c # cs \<Rightarrow> (is_letter c \<or> c = CHR ''_'' \<or> c = CHR ''/'') \<and>
        list_all (\<lambda>c. is_letter c \<or> c = CHR ''_'' \<or> c = CHR ''/'' \<or> is_digit c) cs) \<longleftrightarrow>
      (x = CHR ''/'' \<or> \<not> is_digit x) \<and> list_all (\<lambda>c. c = CHR ''/'' \<or> word_char c) s"
    unfolding Cons list.case list.pred_inject using is_letter_not_digit [of x] by (auto simp: list_all_iff)
  show ?thesis unfolding word_path_split [OF split] start chars words all by blast
qed

text \<open>
  Property C36: the instance specifiers that are accepted. \<open>IsShortNameValid\<close> accepts exactly the
  paths of words, a reference that splits the text at the slashes: every word is not empty and
  consists of letters, digits and underscores, the path may start with a slash, and otherwise it
  does not start with a digit.
\<close>

theorem short_names_are_word_paths:
  "IsShortNameValid s = word_path (c_str s)"
  unfolding IsShortNameValid_def Let_def by (rule valid_text_is_word_path)

end
