(* ===== verification/Deployments.thy ===== *)
theory Deployments
  imports Json_Objects Instance_Specifiers
begin

text \<open>
  The deployment of services (impl/configuration): what is configured of a service type and of a
  service instance, with the constructors from JSON, \<open>Serialize\<close>, the texts for hashing and the
  comparisons. A variant is a datatype with one constructor for each alternative, in the order of the
  variant; \<open>index\<close> is the position. Members that only cache what the other members determine (the
  hash texts) are functions of them. The event and field deployments of a binding have one type.

  \<open>None\<close> stands for \<open>std::terminate\<close>, for \<open>value()\<close> of an empty optional and for a failed assertion.
\<close>

subsection \<open>Texts for hashing\<close>

definition hex_digit :: "nat \<Rightarrow> char" where
  "hex_digit d = (if d < 10 then char_of (48 + d) else char_of (87 + d))"

fun show_hex :: "nat \<Rightarrow> string" where
  "show_hex n = (if n < 16 then [hex_digit n] else show_hex (n div 16) @ [hex_digit (n mod 16)])"

declare show_hex.simps [simp del]

definition ToHashStringImpl :: "u16 \<Rightarrow> nat \<Rightarrow> string" where
  "ToHashStringImpl number hash_string_size =
     (let digits = show_hex (unat number) in replicate (hash_string_size - length digits) CHR ''0'' @ digits)"

lemma of_char_hex_digit: "d < 16 \<Longrightarrow> of_char (hex_digit d) = (if d < 10 then 48 + d else 87 + d :: nat)"
  by (simp add: hex_digit_def)

definition read_hex :: "string \<Rightarrow> nat" where
  "read_hex s = foldl (\<lambda>n c. 16 * n + (let k = of_char c in if k < 58 then k - 48 else k - 87)) 0 s"

lemma read_show_hex: "read_hex (replicate k CHR ''0'' @ show_hex n) = n"
proof (induction n rule: show_hex.induct)
  case (1 n)
  have zeros: "read_hex (replicate k CHR ''0'') = 0"
    by (induction k) (auto simp: read_hex_def)
  show ?case
  proof (cases "n < 16")
    case True
    then show ?thesis
      using zeros by (simp add: show_hex.simps [of n] read_hex_def of_char_hex_digit)
  next
    case False
    then have "read_hex (replicate k CHR ''0'' @ show_hex (n div 16)) = n div 16" using 1 by blast
    with False show ?thesis
      by (subst show_hex.simps) (auto simp: read_hex_def of_char_hex_digit Let_def)
  qed
qed

lemma length_show_hex: "0 < m \<Longrightarrow> n < 16 ^ m \<Longrightarrow> length (show_hex n) \<le> m"
proof (induction n arbitrary: m rule: show_hex.induct)
  case (1 n)
  show ?case
  proof (cases "n < 16")
    case True
    with 1 show ?thesis by (simp add: show_hex.simps [of n])
  next
    case False
    obtain l where l: "m = Suc l" using 1 by (cases m) auto
    with False 1 have "0 < l" by (cases l) auto
    moreover have "n div 16 < 16 ^ l" using 1 l by (simp add: less_mult_imp_div_less)
    ultimately show ?thesis using False 1 l by (simp add: show_hex.simps [of n])
  qed
qed

lemma ToHashStringImpl_inject: "ToHashStringImpl i k = ToHashStringImpl j k \<longleftrightarrow> i = j"
  using read_show_hex [of "k - length (show_hex (unat i))" "unat i"]
    read_show_hex [of "k - length (show_hex (unat j))" "unat j"]
  unfolding ToHashStringImpl_def Let_def by (metis unsigned_word_eqI)

lemma length_ToHashStringImpl: "length (ToHashStringImpl i 4) = 4"
  using length_show_hex [of 4 "unat i"] u16_less [of i] by (simp add: ToHashStringImpl_def Let_def)

subsection \<open>Instance ids\<close>

definition serializationVersion :: u32 where
  "serializationVersion = 1"

definition hashStringSize_id :: nat where
  "hashStringSize_id = 4"

definition LolaServiceInstanceId_Serialize :: "('j, 'm) json_api_scheme \<Rightarrow> u16 \<Rightarrow> 'j json_object" where
  "LolaServiceInstanceId_Serialize J i =
     table_of [(''instanceId'', of_uint16 J i), (''serializationVersion'', of_uint32 J serializationVersion)]"

definition LolaServiceInstanceId_of_json :: "('j, 'm) json_api_scheme \<Rightarrow> 'j json_object \<Rightarrow> u16 run" where
  "LolaServiceInstanceId_of_json J json_object = do {
     i \<leftarrow> GetValueFromJson (as_uint16 J) json_object ''instanceId'';
     serialization_version \<leftarrow> GetValueFromJson (as_uint32 J) json_object ''serializationVersion'';
     amp_require (serialization_version = serializationVersion);
     Some i }"

definition LolaServiceInstanceId_ToHashString :: "u16 \<Rightarrow> string" where
  "LolaServiceInstanceId_ToHashString i = ToHashStringImpl i hashStringSize_id"

definition SomeIpServiceInstanceId_Serialize :: "('j, 'm) json_api_scheme \<Rightarrow> u16 \<Rightarrow> 'j json_object" where
  "SomeIpServiceInstanceId_Serialize J i =
     table_of [(''instanceId'', of_uint16 J i), (''serializationVersion'', of_uint32 J serializationVersion)]"

definition SomeIpServiceInstanceId_of_json :: "('j, 'm) json_api_scheme \<Rightarrow> 'j json_object \<Rightarrow> u16 run" where
  "SomeIpServiceInstanceId_of_json J json_object = do {
     i \<leftarrow> GetValueFromJson (as_uint16 J) json_object ''instanceId'';
     serialization_version \<leftarrow> GetValueFromJson (as_uint32 J) json_object ''serializationVersion'';
     amp_require (serialization_version = serializationVersion);
     Some i }"

definition SomeIpServiceInstanceId_ToHashString :: "u16 \<Rightarrow> string" where
  "SomeIpServiceInstanceId_ToHashString i = ToHashStringImpl i hashStringSize_id"

datatype ServiceInstanceId = LolaServiceInstanceId u16 | SomeIpServiceInstanceId u16 | BlankInstanceId

definition ServiceInstanceId_index :: "ServiceInstanceId \<Rightarrow> nat" where
  "ServiceInstanceId_index binding_info =
     (case binding_info of LolaServiceInstanceId _ \<Rightarrow> 0 | SomeIpServiceInstanceId _ \<Rightarrow> 1 | BlankInstanceId \<Rightarrow> 2)"

definition ServiceInstanceId_Serialize :: "('j, 'm) json_api_scheme \<Rightarrow> ServiceInstanceId \<Rightarrow> 'j json_object" where
  "ServiceInstanceId_Serialize J binding_info =
     (let json_object = table_of [(''bindingInfoIndex'', of_uint64 J (of_nat (ServiceInstanceId_index binding_info))),
            (''serializationVersion'', of_uint32 J serializationVersion)]
      in case binding_info of
           LolaServiceInstanceId i \<Rightarrow> table_put ''bindingInfo'' (of_object J (LolaServiceInstanceId_Serialize J i)) json_object
         | SomeIpServiceInstanceId i \<Rightarrow> table_put ''bindingInfo'' (of_object J (SomeIpServiceInstanceId_Serialize J i)) json_object
         | BlankInstanceId \<Rightarrow> json_object)"

definition ServiceInstanceId_binding_of_json :: "('j, 'm) json_api_scheme \<Rightarrow> 'j json_object \<Rightarrow> ServiceInstanceId run" where
  "ServiceInstanceId_binding_of_json J json_object = do {
     variant_index \<leftarrow> GetValueFromJson (as_int64 J) json_object ''bindingInfoIndex'';
     DeserializeVariant
       [\<lambda>object key. map_option LolaServiceInstanceId (ConstructVariant J (LolaServiceInstanceId_of_json J) object key),
        \<lambda>object key. map_option SomeIpServiceInstanceId (ConstructVariant J (SomeIpServiceInstanceId_of_json J) object key),
        \<lambda>object key. Some BlankInstanceId]
       0 json_object variant_index ''bindingInfo'' }"

definition ServiceInstanceId_of_json :: "('j, 'm) json_api_scheme \<Rightarrow> 'j json_object \<Rightarrow> ServiceInstanceId run" where
  "ServiceInstanceId_of_json J json_object = do {
     binding_info \<leftarrow> ServiceInstanceId_binding_of_json J json_object;
     serialization_version \<leftarrow> GetValueFromJson (as_uint32 J) json_object ''serializationVersion'';
     amp_require (serialization_version = serializationVersion);
     Some binding_info }"

definition ServiceInstanceId_ToHashString :: "ServiceInstanceId \<Rightarrow> string" where
  "ServiceInstanceId_ToHashString binding_info =
     show_hex (ServiceInstanceId_index binding_info) @
     (case binding_info of
        LolaServiceInstanceId i \<Rightarrow> LolaServiceInstanceId_ToHashString i
      | SomeIpServiceInstanceId i \<Rightarrow> SomeIpServiceInstanceId_ToHashString i
      | BlankInstanceId \<Rightarrow> '''')"

definition ServiceInstanceId_eq :: "ServiceInstanceId \<Rightarrow> ServiceInstanceId \<Rightarrow> bool" where
  "ServiceInstanceId_eq lhs rhs =
     (case lhs of
        LolaServiceInstanceId i \<Rightarrow> (case rhs of LolaServiceInstanceId j \<Rightarrow> i = j | _ \<Rightarrow> False)
      | SomeIpServiceInstanceId i \<Rightarrow> (case rhs of SomeIpServiceInstanceId j \<Rightarrow> i = j | _ \<Rightarrow> False)
      | BlankInstanceId \<Rightarrow> True)"

definition ServiceInstanceId_less :: "ServiceInstanceId \<Rightarrow> ServiceInstanceId \<Rightarrow> bool" where
  "ServiceInstanceId_less lhs rhs =
     (case lhs of
        LolaServiceInstanceId i \<Rightarrow> (case rhs of LolaServiceInstanceId j \<Rightarrow> i < j | _ \<Rightarrow> False)
      | SomeIpServiceInstanceId i \<Rightarrow> (case rhs of SomeIpServiceInstanceId j \<Rightarrow> i < j | _ \<Rightarrow> False)
      | BlankInstanceId \<Rightarrow> True)"

subsection \<open>Orders of the keys\<close>

text \<open>The operators \<open><\<close> of the code are the orders of the classes, which shows that they are linear.\<close>

definition quality_type_value :: "QualityType \<Rightarrow> nat" where
  "quality_type_value q = (case q of kInvalid \<Rightarrow> 0 | kASIL_QM \<Rightarrow> 1 | kASIL_B \<Rightarrow> 2)"

lemma quality_type_value_inject: "quality_type_value p = quality_type_value q \<longleftrightarrow> p = q"
  by (cases p; cases q) (simp_all add: quality_type_value_def)

instantiation QualityType :: linorder
begin

definition less_QualityType :: "QualityType \<Rightarrow> QualityType \<Rightarrow> bool" where
  "less_QualityType p q \<longleftrightarrow> quality_type_value p < quality_type_value q"

definition less_eq_QualityType :: "QualityType \<Rightarrow> QualityType \<Rightarrow> bool" where
  "less_eq_QualityType p q \<longleftrightarrow> quality_type_value p \<le> quality_type_value q"

instance
  by standard (auto simp: less_QualityType_def less_eq_QualityType_def quality_type_value_inject)

end

datatype ServiceVersionType = ServiceVersionType (version_major: u32) (version_minor: u32)

definition ServiceVersionType_less :: "ServiceVersionType \<Rightarrow> ServiceVersionType \<Rightarrow> bool" where
  "ServiceVersionType_less lhs rhs =
     (if version_major lhs = version_major rhs then version_minor lhs < version_minor rhs
      else version_major lhs < version_major rhs)"

instantiation ServiceVersionType :: linorder
begin

definition less_ServiceVersionType :: "ServiceVersionType \<Rightarrow> ServiceVersionType \<Rightarrow> bool" where
  "less_ServiceVersionType = ServiceVersionType_less"

definition less_eq_ServiceVersionType :: "ServiceVersionType \<Rightarrow> ServiceVersionType \<Rightarrow> bool" where
  "less_eq_ServiceVersionType v w \<longleftrightarrow> v = w \<or> ServiceVersionType_less v w"

instance
  by standard (auto simp: less_ServiceVersionType_def less_eq_ServiceVersionType_def ServiceVersionType_less_def
      ServiceVersionType.expand split: if_splits)

end

datatype ServiceIdentifierType = ServiceIdentifierType (serviceTypeName: string) (version: ServiceVersionType)

definition ServiceIdentifierType_less :: "ServiceIdentifierType \<Rightarrow> ServiceIdentifierType \<Rightarrow> bool" where
  "ServiceIdentifierType_less lhs rhs =
     (if serviceTypeName lhs = serviceTypeName rhs then version lhs < version rhs
      else serviceTypeName lhs < serviceTypeName rhs)"

instantiation ServiceIdentifierType :: linorder
begin

definition less_ServiceIdentifierType :: "ServiceIdentifierType \<Rightarrow> ServiceIdentifierType \<Rightarrow> bool" where
  "less_ServiceIdentifierType = ServiceIdentifierType_less"

definition less_eq_ServiceIdentifierType :: "ServiceIdentifierType \<Rightarrow> ServiceIdentifierType \<Rightarrow> bool" where
  "less_eq_ServiceIdentifierType s t \<longleftrightarrow> s = t \<or> ServiceIdentifierType_less s t"

instance
  by standard (auto simp: less_ServiceIdentifierType_def less_eq_ServiceIdentifierType_def
      ServiceIdentifierType_less_def ServiceIdentifierType.expand split: if_splits)

end

subsection \<open>Versions and service types\<close>

definition make_ServiceVersionType :: "u32 \<Rightarrow> u32 \<Rightarrow> ServiceVersionType" where
  "make_ServiceVersionType major_version_number minor_version_number =
     ServiceVersionType major_version_number minor_version_number"

definition ServiceVersionType_Serialize :: "('j, 'm) json_api_scheme \<Rightarrow> ServiceVersionType \<Rightarrow> 'j json_object" where
  "ServiceVersionType_Serialize J v =
     table_of [(''serializationVersion'', of_uint32 J serializationVersion),
       (''majorVersion'', of_uint32 J (version_major v)), (''minorVersion'', of_uint32 J (version_minor v))]"

definition ServiceVersionType_of_json :: "('j, 'm) json_api_scheme \<Rightarrow> 'j json_object \<Rightarrow> ServiceVersionType run" where
  "ServiceVersionType_of_json J json_object = do {
     major_version \<leftarrow> GetValueFromJson (as_uint32 J) json_object ''majorVersion'';
     minor_version \<leftarrow> GetValueFromJson (as_uint32 J) json_object ''minorVersion'';
     serialization_version \<leftarrow> GetValueFromJson (as_uint32 J) json_object ''serializationVersion'';
     amp_require (serialization_version = serializationVersion);
     Some (ServiceVersionType major_version minor_version) }"

definition make_ServiceIdentifierType :: "string \<Rightarrow> u32 \<Rightarrow> u32 \<Rightarrow> ServiceIdentifierType" where
  "make_ServiceIdentifierType type_name major_version_number minor_version_number =
     ServiceIdentifierType type_name (make_ServiceVersionType major_version_number minor_version_number)"

definition ServiceIdentifierType_Serialize ::
    "('j, 'm) json_api_scheme \<Rightarrow> ServiceIdentifierType \<Rightarrow> 'j json_object" where
  "ServiceIdentifierType_Serialize J s =
     table_of [(''serviceType'', of_string J (serviceTypeName s)),
       (''version'', of_object J (ServiceVersionType_Serialize J (version s))),
       (''serializationVersion'', of_uint32 J serializationVersion)]"

text \<open>The name goes through the pointer of a view, so it ends at the first NUL.\<close>

definition ServiceIdentifierType_of_json ::
    "('j, 'm) json_api_scheme \<Rightarrow> 'j json_object \<Rightarrow> ServiceIdentifierType run" where
  "ServiceIdentifierType_of_json J json_object = do {
     type_name \<leftarrow> GetValueFromJson (as_string J) json_object ''serviceType'';
     version_object \<leftarrow> GetValueFromJson (as_object J) json_object ''version'';
     v \<leftarrow> ServiceVersionType_of_json J version_object;
     serialization_version \<leftarrow> GetValueFromJson (as_uint32 J) json_object ''serializationVersion'';
     amp_require (serialization_version = serializationVersion);
     Some (ServiceIdentifierType (c_str type_name) v) }"

end
