(* ===== verification/Service_Deployments.thy ===== *)
theory Service_Deployments
  imports Deployments
begin

text \<open>
  The deployments of service types and service instances: records with the members of the classes,
  the constructors from JSON and \<open>Serialize\<close>. All maps are tables. Deployments of events and fields
  have the same type, so the names of the functions are those of the event.
\<close>

subsection \<open>Events and fields of an instance\<close>

record LolaEventInstanceDeployment =
  max_subscribers :: "u8 option"
  max_concurrent_allocations :: "u8 option"
  enforce_max_samples :: "bool option"
  number_of_sample_slots :: "u16 option"
  is_tracing_enabled :: bool

definition default_event_deployment :: LolaEventInstanceDeployment where
  "default_event_deployment =
     \<lparr>max_subscribers = None, max_concurrent_allocations = Some 1, enforce_max_samples = Some True,
      number_of_sample_slots = None, is_tracing_enabled = False\<rparr>"

definition SetNumberOfSampleSlots :: "u16 \<Rightarrow> LolaEventInstanceDeployment \<Rightarrow> LolaEventInstanceDeployment" where
  "SetNumberOfSampleSlots n d = d\<lparr>number_of_sample_slots := Some n\<rparr>"

definition SetMaxSubscribers :: "u8 \<Rightarrow> LolaEventInstanceDeployment \<Rightarrow> LolaEventInstanceDeployment" where
  "SetMaxSubscribers n d = d\<lparr>max_subscribers := Some n\<rparr>"

definition SetTracingEnabled :: "bool \<Rightarrow> LolaEventInstanceDeployment \<Rightarrow> LolaEventInstanceDeployment" where
  "SetTracingEnabled b d = d\<lparr>is_tracing_enabled := b\<rparr>"

definition GetNumberOfSampleSlots :: "LolaEventInstanceDeployment \<Rightarrow> u16 option" where
  "GetNumberOfSampleSlots d =
     (case number_of_sample_slots d of
        None \<Rightarrow> None
      | Some n \<Rightarrow> (let number_of_tracing_slots = (if is_tracing_enabled d then 1 else 0)
                  in Some (n + number_of_tracing_slots)))"

definition GetNumberOfSampleSlotsExcludingTracingSlot :: "LolaEventInstanceDeployment \<Rightarrow> u16 option" where
  "GetNumberOfSampleSlotsExcludingTracingSlot d = number_of_sample_slots d"

definition put_optional :: "string \<Rightarrow> ('a \<Rightarrow> 'j) \<Rightarrow> 'a option \<Rightarrow> 'j json_object \<Rightarrow> 'j json_object" where
  "put_optional key any v json_object =
     (case v of None \<Rightarrow> json_object | Some x \<Rightarrow> table_put key (any x) json_object)"

definition EventDeployment_Serialize :: "('j, 'm) json_api_scheme \<Rightarrow> LolaEventInstanceDeployment \<Rightarrow> 'j json_object" where
  "EventDeployment_Serialize J d =
     put_optional ''enforceMaxSamples'' (of_bool_value J) (enforce_max_samples d)
     (put_optional ''maxConcurrentAllocations'' (of_uint8 J) (max_concurrent_allocations d)
     (table_put ''serializationVersion'' (of_uint32 J serializationVersion)
     (put_optional ''maxSubscribers'' (of_uint8 J) (max_subscribers d)
     (put_optional ''numberOfSampleSlots'' (of_uint16 J) (number_of_sample_slots d) []))))"

text \<open>A member that is there but of another type leaves the optional empty.\<close>

definition optional_from_json :: "('j \<Rightarrow> 'a option) \<Rightarrow> 'j json_object \<Rightarrow> string \<Rightarrow> 'a option" where
  "optional_from_json as json_object key =
     (case map_of json_object key of None \<Rightarrow> None | Some it \<Rightarrow> as it)"

definition EventDeployment_of_json ::
    "('j, 'm) json_api_scheme \<Rightarrow> 'j json_object \<Rightarrow> LolaEventInstanceDeployment run" where
  "EventDeployment_of_json J json_object = do {
     serialization_version \<leftarrow> GetValueFromJson (as_uint32 J) json_object ''serializationVersion'';
     amp_require (serialization_version = serializationVersion);
     Some \<lparr>max_subscribers = optional_from_json (as_uint8 J) json_object ''maxSubscribers'',
           max_concurrent_allocations = optional_from_json (as_uint8 J) json_object ''maxConcurrentAllocations'',
           enforce_max_samples = optional_from_json (as_bool J) json_object ''enforceMaxSamples'',
           number_of_sample_slots = optional_from_json (as_uint16 J) json_object ''numberOfSampleSlots'',
           is_tracing_enabled = False\<rparr> }"

subsection \<open>Service instances of the bindings\<close>

type_synonym uid_map = "(QualityType, u32 list) table"

record LolaServiceInstanceDeployment =
  lola_instance_id :: "u16 option"
  shared_memory_size :: "u64 option"
  instance_events :: "(string, LolaEventInstanceDeployment) table"
  instance_fields :: "(string, LolaEventInstanceDeployment) table"
  strict_permissions :: bool
  allowed_consumer :: uid_map
  allowed_provider :: uid_map

definition default_lola_deployment :: LolaServiceInstanceDeployment where
  "default_lola_deployment =
     \<lparr>lola_instance_id = None, shared_memory_size = None, instance_events = [], instance_fields = [],
      strict_permissions = False, allowed_consumer = [], allowed_provider = []\<rparr>"

definition ContainsEvent :: "string \<Rightarrow> LolaServiceInstanceDeployment \<Rightarrow> bool" where
  "ContainsEvent event_name d \<longleftrightarrow> map_of (instance_events d) event_name \<noteq> None"

definition ContainsField :: "string \<Rightarrow> LolaServiceInstanceDeployment \<Rightarrow> bool" where
  "ContainsField field_name d \<longleftrightarrow> map_of (instance_fields d) field_name \<noteq> None"

definition LolaDeployment_areCompatible :: "LolaServiceInstanceDeployment \<Rightarrow> LolaServiceInstanceDeployment \<Rightarrow> bool" where
  "LolaDeployment_areCompatible lhs rhs \<longleftrightarrow>
     (if lola_instance_id lhs = None \<or> lola_instance_id rhs = None then True
      else lola_instance_id lhs = lola_instance_id rhs)"

definition LolaDeployment_eq :: "LolaServiceInstanceDeployment \<Rightarrow> LolaServiceInstanceDeployment \<Rightarrow> bool" where
  "LolaDeployment_eq lhs rhs \<longleftrightarrow> lola_instance_id lhs = lola_instance_id rhs"

definition ConvertUidMapToJson :: "('j, 'm) json_api_scheme \<Rightarrow> uid_map \<Rightarrow> 'j json_object run" where
  "ConvertUidMapToJson J input_map =
     for_each (\<lambda>(quality_type, uids) json_object.
       table_insert (QualityType_ToString quality_type) (of_list J (map (of_uint32 J) uids)) json_object) input_map []"

definition ConvertJsonToUidMap :: "('j, 'm) json_api_scheme \<Rightarrow> 'j json_object \<Rightarrow> string \<Rightarrow> uid_map run" where
  "ConvertJsonToUidMap J json_object key = do {
     uid_map_json \<leftarrow> GetValueFromJson (as_object J) json_object key;
     for_each (\<lambda>(quality_string, json) uid_map. do {
         quality_type \<leftarrow> QualityType_FromString quality_string;
         uids_json \<leftarrow> as_list J json;
         uids \<leftarrow> those (map (as_uint32 J) uids_json);
         table_insert quality_type uids uid_map })
       uid_map_json [] }"

definition LolaDeployment_Serialize ::
    "('j, 'm) json_api_scheme \<Rightarrow> LolaServiceInstanceDeployment \<Rightarrow> 'j json_object run" where
  "LolaDeployment_Serialize J d = do {
     events_json \<leftarrow> ConvertServiceElementMapToJson J (EventDeployment_Serialize J) (instance_events d);
     fields_json \<leftarrow> ConvertServiceElementMapToJson J (EventDeployment_Serialize J) (instance_fields d);
     consumer_json \<leftarrow> ConvertUidMapToJson J (allowed_consumer d);
     provider_json \<leftarrow> ConvertUidMapToJson J (allowed_provider d);
     Some
      (put_optional ''instanceId'' (\<lambda>i. of_object J (LolaServiceInstanceId_Serialize J i)) (lola_instance_id d)
      (put_optional ''sharedMemorySize'' (of_uint64 J) (shared_memory_size d)
      (table_of [(''serializationVersion'', of_uint32 J serializationVersion),
         (''events'', of_object J events_json),
         (''fields'', of_object J fields_json),
         (''strict'', of_bool_value J (strict_permissions d)),
         (''allowedConsumer'', of_object J consumer_json),
         (''allowedProvider'', of_object J provider_json)]))) }"

text \<open>An optional member that is there must have the right type.\<close>

definition required_if_present :: "('j \<Rightarrow> 'a run) \<Rightarrow> 'j json_object \<Rightarrow> string \<Rightarrow> 'a option run" where
  "required_if_present read json_object key =
     (case map_of json_object key of None \<Rightarrow> Some None | Some it \<Rightarrow> map_option Some (read it))"

definition LolaDeployment_of_json ::
    "('j, 'm) json_api_scheme \<Rightarrow> 'j json_object \<Rightarrow> LolaServiceInstanceDeployment run" where
  "LolaDeployment_of_json J json_object = do {
     es \<leftarrow> ConvertJsonToServiceElementMap J (EventDeployment_of_json J) json_object ''events'';
     fs \<leftarrow> ConvertJsonToServiceElementMap J (EventDeployment_of_json J) json_object ''fields'';
     strict \<leftarrow> GetValueFromJson (as_bool J) json_object ''strict'';
     consumer \<leftarrow> ConvertJsonToUidMap J json_object ''allowedConsumer'';
     provider \<leftarrow> ConvertJsonToUidMap J json_object ''allowedProvider'';
     serialization_version \<leftarrow> GetValueFromJson (as_uint32 J) json_object ''serializationVersion'';
     amp_require (serialization_version = serializationVersion);
     i \<leftarrow> required_if_present (\<lambda>it. as_object J it \<bind> LolaServiceInstanceId_of_json J) json_object ''instanceId'';
     shm \<leftarrow> required_if_present (as_uint64 J) json_object ''sharedMemorySize'';
     Some \<lparr>lola_instance_id = i, shared_memory_size = shm, instance_events = es, instance_fields = fs,
           strict_permissions = strict, allowed_consumer = consumer, allowed_provider = provider\<rparr> }"

text \<open>Events and fields of the SOME/IP binding have no members.\<close>

definition SomeIpEvent_Serialize :: "unit \<Rightarrow> 'j json_object" where
  "SomeIpEvent_Serialize d = []"

definition SomeIpEvent_of_json :: "'j json_object \<Rightarrow> unit run" where
  "SomeIpEvent_of_json json_object = Some ()"

record SomeIpServiceInstanceDeployment =
  someip_instance_id :: "u16 option"
  someip_events :: "(string, unit) table"
  someip_fields :: "(string, unit) table"

definition SomeIpDeployment_areCompatible ::
    "SomeIpServiceInstanceDeployment \<Rightarrow> SomeIpServiceInstanceDeployment \<Rightarrow> bool" where
  "SomeIpDeployment_areCompatible lhs rhs \<longleftrightarrow>
     (if someip_instance_id lhs = None \<or> someip_instance_id rhs = None then True
      else someip_instance_id lhs = someip_instance_id rhs)"

definition SomeIpDeployment_eq :: "SomeIpServiceInstanceDeployment \<Rightarrow> SomeIpServiceInstanceDeployment \<Rightarrow> bool" where
  "SomeIpDeployment_eq lhs rhs \<longleftrightarrow> someip_instance_id lhs = someip_instance_id rhs"

definition SomeIpDeployment_Serialize ::
    "('j, 'm) json_api_scheme \<Rightarrow> SomeIpServiceInstanceDeployment \<Rightarrow> 'j json_object run" where
  "SomeIpDeployment_Serialize J d = do {
     events_json \<leftarrow> ConvertServiceElementMapToJson J SomeIpEvent_Serialize (someip_events d);
     fields_json \<leftarrow> ConvertServiceElementMapToJson J SomeIpEvent_Serialize (someip_fields d);
     Some
      (put_optional ''instanceId'' (\<lambda>i. of_object J (SomeIpServiceInstanceId_Serialize J i)) (someip_instance_id d)
      (table_of [(''serializationVersion'', of_uint32 J serializationVersion),
         (''events'', of_object J events_json),
         (''fields'', of_object J fields_json)])) }"

definition SomeIpDeployment_of_json ::
    "('j, 'm) json_api_scheme \<Rightarrow> 'j json_object \<Rightarrow> SomeIpServiceInstanceDeployment run" where
  "SomeIpDeployment_of_json J json_object = do {
     es \<leftarrow> ConvertJsonToServiceElementMap J SomeIpEvent_of_json json_object ''events'';
     fs \<leftarrow> ConvertJsonToServiceElementMap J SomeIpEvent_of_json json_object ''fields'';
     i \<leftarrow> required_if_present (\<lambda>it. as_object J it \<bind> SomeIpServiceInstanceId_of_json J) json_object ''instanceId'';
     serialization_version \<leftarrow> GetValueFromJson (as_uint32 J) json_object ''serializationVersion'';
     amp_require (serialization_version = serializationVersion);
     Some \<lparr>someip_instance_id = i, someip_events = es, someip_fields = fs\<rparr> }"

subsection \<open>Service types\<close>

record LolaServiceTypeDeployment =
  service_id :: u16
  type_events :: "(string, u8) table"
  type_fields :: "(string, u8) table"

definition LolaTypeDeployment_ToHashString :: "LolaServiceTypeDeployment \<Rightarrow> string" where
  "LolaTypeDeployment_ToHashString d = ToHashStringImpl (service_id d) 4"

definition ConvertServiceElementIdMapToJson ::
    "('j, 'm) json_api_scheme \<Rightarrow> (string, u8) table \<Rightarrow> 'j json_object run" where
  "ConvertServiceElementIdMapToJson J input_map =
     for_each (\<lambda>(name, i) mapping_object. table_insert name (of_uint8 J i) mapping_object) input_map []"

definition ConvertJsonToServiceElementIdMap ::
    "('j, 'm) json_api_scheme \<Rightarrow> 'j json_object \<Rightarrow> string \<Rightarrow> (string, u8) table run" where
  "ConvertJsonToServiceElementIdMap J json_object key = do {
     service_element_json \<leftarrow> GetValueFromJson (as_object J) json_object key;
     for_each (\<lambda>(event_name, json) service_element_map. do {
         i \<leftarrow> as_uint8 J json;
         table_insert event_name i service_element_map })
       service_element_json [] }"

definition LolaTypeDeployment_Serialize ::
    "('j, 'm) json_api_scheme \<Rightarrow> LolaServiceTypeDeployment \<Rightarrow> 'j json_object run" where
  "LolaTypeDeployment_Serialize J d = do {
     events_json \<leftarrow> ConvertServiceElementIdMapToJson J (type_events d);
     fields_json \<leftarrow> ConvertServiceElementIdMapToJson J (type_fields d);
     Some (table_of [(''serializationVersion'', of_uint32 J serializationVersion),
       (''serviceId'', of_uint16 J (service_id d)),
       (''events'', of_object J events_json),
       (''fields'', of_object J fields_json)]) }"

definition LolaTypeDeployment_of_json ::
    "('j, 'm) json_api_scheme \<Rightarrow> 'j json_object \<Rightarrow> LolaServiceTypeDeployment run" where
  "LolaTypeDeployment_of_json J json_object = do {
     i \<leftarrow> GetValueFromJson (as_uint16 J) json_object ''serviceId'';
     es \<leftarrow> ConvertJsonToServiceElementIdMap J json_object ''events'';
     fs \<leftarrow> ConvertJsonToServiceElementIdMap J json_object ''fields'';
     serialization_version \<leftarrow> GetValueFromJson (as_uint32 J) json_object ''serializationVersion'';
     amp_require (serialization_version = serializationVersion);
     Some \<lparr>service_id = i, type_events = es, type_fields = fs\<rparr> }"

datatype ServiceTypeDeployment = LolaType LolaServiceTypeDeployment | BlankType

definition ServiceTypeDeployment_index :: "ServiceTypeDeployment \<Rightarrow> nat" where
  "ServiceTypeDeployment_index binding_info = (case binding_info of LolaType _ \<Rightarrow> 0 | BlankType \<Rightarrow> 1)"

definition ServiceTypeDeployment_ToHashString :: "ServiceTypeDeployment \<Rightarrow> string" where
  "ServiceTypeDeployment_ToHashString binding_info =
     show_hex (ServiceTypeDeployment_index binding_info) @
     (case binding_info of LolaType d \<Rightarrow> LolaTypeDeployment_ToHashString d | BlankType \<Rightarrow> [])"

definition ServiceTypeDeployment_Serialize ::
    "('j, 'm) json_api_scheme \<Rightarrow> ServiceTypeDeployment \<Rightarrow> 'j json_object run" where
  "ServiceTypeDeployment_Serialize J binding_info =
     (let json_object = table_of [(''bindingInfoIndex'', of_uint64 J (of_nat (ServiceTypeDeployment_index binding_info))),
            (''serializationVersion'', of_uint32 J serializationVersion)]
      in case binding_info of
           LolaType d \<Rightarrow> do {
             binding_json \<leftarrow> LolaTypeDeployment_Serialize J d;
             Some (table_put ''bindingInfo'' (of_object J binding_json) json_object) }
         | BlankType \<Rightarrow> Some json_object)"

definition ServiceTypeDeployment_of_json ::
    "('j, 'm) json_api_scheme \<Rightarrow> 'j json_object \<Rightarrow> ServiceTypeDeployment run" where
  "ServiceTypeDeployment_of_json J json_object = do {
     variant_index \<leftarrow> GetValueFromJson (as_int64 J) json_object ''bindingInfoIndex'';
     binding_info \<leftarrow> DeserializeVariant
       [\<lambda>object key. map_option LolaType (ConstructVariant J (LolaTypeDeployment_of_json J) object key),
        \<lambda>object key. Some BlankType]
       0 json_object variant_index ''bindingInfo'';
     serialization_version \<leftarrow> GetValueFromJson (as_uint32 J) json_object ''serializationVersion'';
     amp_require (serialization_version = serializationVersion);
     Some binding_info }"

subsection \<open>Service instances\<close>

datatype BindingInformation =
    LolaBinding LolaServiceInstanceDeployment | SomeIpBinding SomeIpServiceInstanceDeployment | BlankBinding

datatype BindingType = kLoLa | kSomeIp | kFake

record ServiceInstanceDeployment =
  service :: ServiceIdentifierType
  bindingInfo :: BindingInformation
  asil_level :: QualityType
  specifier :: instance_specifier

definition BindingInformation_index :: "BindingInformation \<Rightarrow> nat" where
  "BindingInformation_index b = (case b of LolaBinding _ \<Rightarrow> 0 | SomeIpBinding _ \<Rightarrow> 1 | BlankBinding \<Rightarrow> 2)"

definition BindingInformation_eq :: "BindingInformation \<Rightarrow> BindingInformation \<Rightarrow> bool" where
  "BindingInformation_eq lhs rhs =
     (case (lhs, rhs) of
        (LolaBinding d, LolaBinding e) \<Rightarrow> LolaDeployment_eq d e
      | (SomeIpBinding d, SomeIpBinding e) \<Rightarrow> SomeIpDeployment_eq d e
      | (BlankBinding, BlankBinding) \<Rightarrow> True
      | _ \<Rightarrow> False)"

definition ServiceInstanceDeployment_eq :: "ServiceInstanceDeployment \<Rightarrow> ServiceInstanceDeployment \<Rightarrow> bool" where
  "ServiceInstanceDeployment_eq lhs rhs \<longleftrightarrow>
     asil_level lhs = asil_level rhs \<and> BindingInformation_eq (bindingInfo lhs) (bindingInfo rhs)"

text \<open>An empty optional is less than any value.\<close>

definition optional_less :: "'a :: linorder option \<Rightarrow> 'a option \<Rightarrow> bool" where
  "optional_less x y = (case y of None \<Rightarrow> False | Some b \<Rightarrow> (case x of None \<Rightarrow> True | Some a \<Rightarrow> a < b))"

definition ServiceInstanceDeployment_less :: "ServiceInstanceDeployment \<Rightarrow> ServiceInstanceDeployment \<Rightarrow> bool" where
  "ServiceInstanceDeployment_less lhs rhs =
     (let bindingLess =
        (case (bindingInfo lhs, bindingInfo rhs) of
           (LolaBinding d, LolaBinding e) \<Rightarrow> optional_less (lola_instance_id d) (lola_instance_id e)
         | (SomeIpBinding d, SomeIpBinding e) \<Rightarrow> someip_instance_id d = someip_instance_id e
         | _ \<Rightarrow> False)
      in asil_level lhs < asil_level rhs \<and> bindingLess)"

definition ServiceInstanceDeployment_areCompatible :: "ServiceInstanceDeployment \<Rightarrow> ServiceInstanceDeployment \<Rightarrow> bool" where
  "ServiceInstanceDeployment_areCompatible lhs rhs =
     (let bindingCompatible =
        (case (bindingInfo lhs, bindingInfo rhs) of
           (LolaBinding d, LolaBinding e) \<Rightarrow> LolaDeployment_areCompatible d e
         | (SomeIpBinding d, SomeIpBinding e) \<Rightarrow> SomeIpDeployment_areCompatible d e
         | _ \<Rightarrow> False)
      in areCompatible (asil_level lhs) (asil_level rhs) \<and> bindingCompatible)"

definition GetBindingType :: "ServiceInstanceDeployment \<Rightarrow> BindingType" where
  "GetBindingType d =
     (case bindingInfo d of LolaBinding _ \<Rightarrow> kLoLa | SomeIpBinding _ \<Rightarrow> kSomeIp | BlankBinding \<Rightarrow> kFake)"

definition ServiceInstanceDeployment_Serialize ::
    "('j, 'm) json_api_scheme \<Rightarrow> ServiceInstanceDeployment \<Rightarrow> 'j json_object run" where
  "ServiceInstanceDeployment_Serialize J d =
     (let json_object = table_of
        [(''bindingInfoIndex'', of_uint64 J (of_nat (BindingInformation_index (bindingInfo d)))),
         (''asilLevel'', of_string J (QualityType_ToString (asil_level d))),
         (''service'', of_object J (ServiceIdentifierType_Serialize J (service d))),
         (''instanceSpecifier'', of_string J (specifier d)),
         (''serializationVersion'', of_uint32 J serializationVersion)]
      in case bindingInfo d of
           LolaBinding b \<Rightarrow> do {
             binding_json \<leftarrow> LolaDeployment_Serialize J b;
             Some (table_put ''bindingInfo'' (of_object J binding_json) json_object) }
         | SomeIpBinding b \<Rightarrow> do {
             binding_json \<leftarrow> SomeIpDeployment_Serialize J b;
             Some (table_put ''bindingInfo'' (of_object J binding_json) json_object) }
         | BlankBinding \<Rightarrow> Some json_object)"

definition BindingInformation_of_json ::
    "('j, 'm) json_api_scheme \<Rightarrow> 'j json_object \<Rightarrow> BindingInformation run" where
  "BindingInformation_of_json J json_object = do {
     variant_index \<leftarrow> GetValueFromJson (as_int64 J) json_object ''bindingInfoIndex'';
     DeserializeVariant
       [\<lambda>object key. map_option LolaBinding (ConstructVariant J (LolaDeployment_of_json J) object key),
        \<lambda>object key. map_option SomeIpBinding (ConstructVariant J (SomeIpDeployment_of_json J) object key),
        \<lambda>object key. Some BlankBinding]
       0 json_object variant_index ''bindingInfo'' }"

text \<open>\<open>value()\<close> of an error ends the process.\<close>

definition value_of :: "'a result \<Rightarrow> 'a run" where
  "value_of r = (case r of Inl _ \<Rightarrow> None | Inr x \<Rightarrow> Some x)"

definition ServiceInstanceDeployment_of_json ::
    "('j, 'm) json_api_scheme \<Rightarrow> 'j json_object \<Rightarrow> ServiceInstanceDeployment run" where
  "ServiceInstanceDeployment_of_json J json_object = do {
     service_object \<leftarrow> GetValueFromJson (as_object J) json_object ''service'';
     s \<leftarrow> ServiceIdentifierType_of_json J service_object;
     b \<leftarrow> BindingInformation_of_json J json_object;
     quality_text \<leftarrow> GetValueFromJson (as_string J) json_object ''asilLevel'';
     q \<leftarrow> QualityType_FromString quality_text;
     specifier_text \<leftarrow> GetValueFromJson (as_string J) json_object ''instanceSpecifier'';
     i \<leftarrow> value_of (InstanceSpecifier_Create specifier_text);
     serialization_version \<leftarrow> GetValueFromJson (as_uint32 J) json_object ''serializationVersion'';
     amp_require (serialization_version = serializationVersion);
     Some \<lparr>service = s, bindingInfo = b, asil_level = q, specifier = i\<rparr> }"

end
