(* ===== verification/Deployment_Round_Trips.thy ===== *)
theory Deployment_Round_Trips
  imports Service_Deployments
begin

text \<open>
  What the constructors from JSON make of a serialized deployment: the deployment itself, with the
  tracing of its events and fields switched off, because \<open>is_tracing_enabled_\<close> is not serialized.
\<close>

lemmas read_simps = GetValueFromJson_def ConstructVariant_def optional_from_json_def required_if_present_def

subsection \<open>Ids, versions and service types\<close>

lemma instance_id_round_trip:
  assumes "json_laws J"
  shows "LolaServiceInstanceId_of_json J (LolaServiceInstanceId_Serialize J i) = Some i"
    "SomeIpServiceInstanceId_of_json J (SomeIpServiceInstanceId_Serialize J i) = Some i"
  using assms
  by (simp_all add: LolaServiceInstanceId_of_json_def LolaServiceInstanceId_Serialize_def
      SomeIpServiceInstanceId_of_json_def SomeIpServiceInstanceId_Serialize_def read_simps json_simps contract_simps)

lemma is_table_ids [simp]:
  "is_table (LolaServiceInstanceId_Serialize J i)" "is_table (SomeIpServiceInstanceId_Serialize J i)"
  "is_table (ServiceVersionType_Serialize J v)" "is_table (ServiceIdentifierType_Serialize J s)"
  by (simp_all add: LolaServiceInstanceId_Serialize_def SomeIpServiceInstanceId_Serialize_def
      ServiceVersionType_Serialize_def ServiceIdentifierType_Serialize_def)

lemma service_instance_id_round_trip:
  assumes laws: "json_laws J"
  shows "ServiceInstanceId_of_json J (ServiceInstanceId_Serialize J i) = Some i"
proof (cases i)
  case (LolaServiceInstanceId n)
  with laws show ?thesis
    by (simp add: ServiceInstanceId_of_json_def ServiceInstanceId_binding_of_json_def ServiceInstanceId_Serialize_def
        ServiceInstanceId_index_def read_simps json_simps contract_simps instance_id_round_trip)
next
  case (SomeIpServiceInstanceId n)
  with laws show ?thesis
    by (simp add: ServiceInstanceId_of_json_def ServiceInstanceId_binding_of_json_def ServiceInstanceId_Serialize_def
        ServiceInstanceId_index_def read_simps json_simps contract_simps instance_id_round_trip)
next
  case BlankInstanceId
  with laws show ?thesis
    by (simp add: ServiceInstanceId_of_json_def ServiceInstanceId_binding_of_json_def ServiceInstanceId_Serialize_def
        ServiceInstanceId_index_def read_simps json_simps contract_simps)
qed

lemma service_identifier_round_trip:
  assumes laws: "json_laws J" and name: "c_str (serviceTypeName s) = serviceTypeName s"
  shows "ServiceIdentifierType_of_json J (ServiceIdentifierType_Serialize J s) = Some s"
proof -
  have "ServiceVersionType_of_json J (ServiceVersionType_Serialize J (version s)) = Some (version s)"
    using laws by (simp add: ServiceVersionType_of_json_def ServiceVersionType_Serialize_def
        read_simps json_simps contract_simps)
  with laws name show ?thesis
    by (simp add: ServiceIdentifierType_of_json_def ServiceIdentifierType_Serialize_def
        read_simps json_simps contract_simps)
qed

subsection \<open>Events, fields and user ids\<close>

definition without_tracing :: "LolaEventInstanceDeployment \<Rightarrow> LolaEventInstanceDeployment" where
  "without_tracing d = d\<lparr>is_tracing_enabled := False\<rparr>"

lemma is_table_put_optional [simp]: "is_table t \<Longrightarrow> is_table (put_optional key any v t)"
  by (simp add: put_optional_def split: option.splits)

lemma map_of_put_optional [simp]:
  "is_table t \<Longrightarrow> map_of (put_optional key any v t) =
     (case v of None \<Rightarrow> map_of t | Some x \<Rightarrow> (map_of t)(key \<mapsto> any x))"
  by (simp add: put_optional_def split: option.splits)

lemma event_round_trip:
  assumes laws: "json_laws J"
  shows "is_table (EventDeployment_Serialize J d) \<and>
    EventDeployment_of_json J (EventDeployment_Serialize J d) = Some (without_tracing d)"
  using laws
  by (cases "number_of_sample_slots d"; cases "max_subscribers d"; cases "max_concurrent_allocations d";
      cases "enforce_max_samples d")
    (simp_all add: EventDeployment_of_json_def EventDeployment_Serialize_def read_simps json_simps contract_simps
      without_tracing_def)

lemma QualityType_round_trip: "QualityType_FromString (QualityType_ToString q) = Some q"
  by (cases q) (simp_all add: QualityType_FromString_def QualityType_ToString_def)

lemma distinct_quality_names:
  assumes "is_table t"
  shows "distinct (map (\<lambda>x. QualityType_ToString (fst x)) t)"
proof -
  have "inj QualityType_ToString"
    by (rule injI) (metis QualityType_round_trip option.inject)
  then have "distinct (map QualityType_ToString (map fst t))"
    unfolding distinct_map [of QualityType_ToString] using is_table_distinct [OF assms] inj_on_subset by blast
  then show ?thesis by (simp add: comp_def)
qed

lemma uid_map_to_json:
  assumes t: "is_table t"
  shows "ConvertUidMapToJson J t =
    Some (table_of (map (\<lambda>x. (QualityType_ToString (fst x), of_list J (map (of_uint32 J) (snd x)))) t))"
  unfolding ConvertUidMapToJson_def
  by (rule for_each_inserts_all) (simp_all add: case_prod_unfold distinct_quality_names [OF t])

lemma uid_map_round_trip:
  assumes laws: "json_laws J" and t: "is_table t"
    and key: "map_of json_object key = Some (of_object J
      (table_of (map (\<lambda>x. (QualityType_ToString (fst x), of_list J (map (of_uint32 J) (snd x)))) t)))"
  shows "ConvertJsonToUidMap J json_object key = Some t"
proof -
  let ?out = "\<lambda>x. (QualityType_ToString (fst x), of_list J (map (of_uint32 J) (snd x)))"
  let ?o = "table_of (map ?out t)"
  let ?key = "\<lambda>x. the (QualityType_FromString (fst x))"
  let ?val = "\<lambda>x. the (those (map (as_uint32 J) (the (as_list J (snd x)))))"
  have distinct: "distinct (map fst (map ?out t))"
    using distinct_quality_names [OF t] by (simp add: comp_def)
  have set: "set ?o = ?out ` set t"
    using set_table_of [OF distinct] by simp
  have uids: "those (map (as_uint32 J) (map (of_uint32 J) us)) = Some us" for us
    using those_Some [of "\<lambda>x. x" us] laws by (simp add: json_simps comp_def)
  have undo: "(?key (?out x), ?val (?out x)) = x" for x
    using uids laws by (cases x) (simp add: json_simps QualityType_round_trip)
  have keys: "distinct (map ?key ?o)"
  proof -
    have "inj_on ?key (set ?o)"
    proof (rule inj_onI)
      fix x x'
      assume "x \<in> set ?o" "x' \<in> set ?o" and eq: "?key x = ?key x'"
      then obtain y y' where y: "x = ?out y" "y \<in> set t" and y': "x' = ?out y'" "y' \<in> set t"
        unfolding set by blast
      with eq have "fst y = fst y'" by (simp add: QualityType_round_trip)
      with y(2) y'(2) is_table_distinct [OF t] have "y = y'" by (metis distinct_map inj_onD)
      with y y' show "x = x'" by simp
    qed
    moreover have "distinct ?o" using is_table_distinct [of ?o] by (simp add: distinct_map)
    ultimately show ?thesis by (simp add: distinct_map)
  qed
  have "for_each (\<lambda>(quality_string, json) uid_map. do {
         quality_type \<leftarrow> QualityType_FromString quality_string;
         uids_json \<leftarrow> as_list J json;
         uids \<leftarrow> those (map (as_uint32 J) uids_json);
         table_insert quality_type uids uid_map }) ?o [] =
       Some (table_of (map (\<lambda>x. (?key x, ?val x)) ?o))"
  proof (rule for_each_inserts_all)
    fix x and m :: uid_map
    assume "x \<in> set ?o"
    then obtain y where "x = ?out y" unfolding set by blast
    then show "(case x of (quality_string, json) \<Rightarrow> \<lambda>uid_map. do {
         quality_type \<leftarrow> QualityType_FromString quality_string;
         uids_json \<leftarrow> as_list J json;
         uids \<leftarrow> those (map (as_uint32 J) uids_json);
         table_insert quality_type uids uid_map }) m = table_insert (?key x) (?val x) m"
      using uids laws by (simp add: json_simps QualityType_round_trip)
  next
    show "distinct (map ?key ?o)" by (rule keys)
  qed
  moreover have "table_of (map (\<lambda>x. (?key x, ?val x)) ?o) = t"
  proof (rule table_of_set [OF t])
    show "set (map (\<lambda>x. (?key x, ?val x)) ?o) = set t"
      unfolding set_map set image_image undo by simp
    show "distinct (map fst (map (\<lambda>x. (?key x, ?val x)) ?o))" using keys by (simp add: comp_def)
  qed
  ultimately show ?thesis
    using laws unfolding ConvertJsonToUidMap_def GetValueFromJson_def by (simp add: key json_simps case_prod_unfold)
qed

subsection \<open>Deployments of the bindings\<close>

definition lola_deployment_ok :: "LolaServiceInstanceDeployment \<Rightarrow> bool" where
  "lola_deployment_ok d \<longleftrightarrow> is_table (instance_events d) \<and> is_table (instance_fields d) \<and>
     is_table (allowed_consumer d) \<and> is_table (allowed_provider d)"

definition untraced :: "LolaServiceInstanceDeployment \<Rightarrow> LolaServiceInstanceDeployment" where
  "untraced d = d\<lparr>instance_events := map (\<lambda>(k, e). (k, without_tracing e)) (instance_events d),
     instance_fields := map (\<lambda>(k, e). (k, without_tracing e)) (instance_fields d)\<rparr>"

abbreviation uid_json :: "('j, 'm) json_api_scheme \<Rightarrow> uid_map \<Rightarrow> 'j json_object" where
  "uid_json J t \<equiv> table_of (map (\<lambda>x. (QualityType_ToString (fst x), of_list J (map (of_uint32 J) (snd x)))) t)"

abbreviation event_json :: "('j, 'm) json_api_scheme \<Rightarrow> (string, LolaEventInstanceDeployment) table \<Rightarrow> 'j json_object" where
  "event_json J t \<equiv> map (\<lambda>(k, e). (k, of_object J (EventDeployment_Serialize J e))) t"

definition lola_json :: "('j, 'm) json_api_scheme \<Rightarrow> LolaServiceInstanceDeployment \<Rightarrow> 'j json_object" where
  "lola_json J d =
     put_optional ''instanceId'' (\<lambda>i. of_object J (LolaServiceInstanceId_Serialize J i)) (lola_instance_id d)
      (put_optional ''sharedMemorySize'' (of_uint64 J) (shared_memory_size d)
      (table_of [(''serializationVersion'', of_uint32 J serializationVersion),
         (''events'', of_object J (event_json J (instance_events d))),
         (''fields'', of_object J (event_json J (instance_fields d))),
         (''strict'', of_bool_value J (strict_permissions d)),
         (''allowedConsumer'', of_object J (uid_json J (allowed_consumer d))),
         (''allowedProvider'', of_object J (uid_json J (allowed_provider d)))]))"

lemma is_table_lola_json [simp]: "is_table (lola_json J d)"
  by (simp add: lola_json_def)

lemma lola_serialize:
  assumes "lola_deployment_ok d"
  shows "LolaDeployment_Serialize J d = Some (lola_json J d)"
  using assms
  by (simp add: lola_deployment_ok_def LolaDeployment_Serialize_def ConvertServiceElementMapToJson_eq
      uid_map_to_json lola_json_def)

lemma lola_json_lookup:
  "map_of (lola_json J d) ''serializationVersion'' = Some (of_uint32 J serializationVersion)"
  "map_of (lola_json J d) ''events'' = Some (of_object J (event_json J (instance_events d)))"
  "map_of (lola_json J d) ''fields'' = Some (of_object J (event_json J (instance_fields d)))"
  "map_of (lola_json J d) ''strict'' = Some (of_bool_value J (strict_permissions d))"
  "map_of (lola_json J d) ''allowedConsumer'' = Some (of_object J (uid_json J (allowed_consumer d)))"
  "map_of (lola_json J d) ''allowedProvider'' = Some (of_object J (uid_json J (allowed_provider d)))"
  "map_of (lola_json J d) ''instanceId'' =
     map_option (\<lambda>i. of_object J (LolaServiceInstanceId_Serialize J i)) (lola_instance_id d)"
  "map_of (lola_json J d) ''sharedMemorySize'' = map_option (of_uint64 J) (shared_memory_size d)"
  by (simp_all add: lola_json_def split: option.splits)

lemma lola_round_trip:
  assumes laws: "json_laws J" and d: "lola_deployment_ok d"
  shows "LolaDeployment_of_json J (lola_json J d) = Some (untraced d)"
proof -
  have es: "ConvertJsonToServiceElementMap J (EventDeployment_of_json J) (lola_json J d) ''events'' =
      Some (map (\<lambda>(k, e). (k, without_tracing e)) (instance_events d))"
    by (rule element_map_round_trip [OF laws]) (use d event_round_trip [OF laws] in \<open>auto simp: lola_deployment_ok_def lola_json_lookup\<close>)
  have fs: "ConvertJsonToServiceElementMap J (EventDeployment_of_json J) (lola_json J d) ''fields'' =
      Some (map (\<lambda>(k, e). (k, without_tracing e)) (instance_fields d))"
    by (rule element_map_round_trip [OF laws]) (use d event_round_trip [OF laws] in \<open>auto simp: lola_deployment_ok_def lola_json_lookup\<close>)
  have consumer: "ConvertJsonToUidMap J (lola_json J d) ''allowedConsumer'' = Some (allowed_consumer d)"
    by (rule uid_map_round_trip [OF laws]) (use d in \<open>simp_all add: lola_deployment_ok_def lola_json_lookup\<close>)
  have provider: "ConvertJsonToUidMap J (lola_json J d) ''allowedProvider'' = Some (allowed_provider d)"
    by (rule uid_map_round_trip [OF laws]) (use d in \<open>simp_all add: lola_deployment_ok_def lola_json_lookup\<close>)
  have i: "required_if_present (\<lambda>it. as_object J it \<bind> LolaServiceInstanceId_of_json J) (lola_json J d) ''instanceId'' =
      Some (lola_instance_id d)"
    using laws by (cases "lola_instance_id d")
      (simp_all add: required_if_present_def lola_json_lookup json_simps instance_id_round_trip)
  have shm: "required_if_present (as_uint64 J) (lola_json J d) ''sharedMemorySize'' = Some (shared_memory_size d)"
    using laws by (cases "shared_memory_size d") (simp_all add: required_if_present_def lola_json_lookup json_simps)
  show ?thesis
    using laws unfolding LolaDeployment_of_json_def es fs consumer provider i shm
    by (simp add: GetValueFromJson_def lola_json_lookup json_simps contract_simps untraced_def)
qed

definition someip_deployment_ok :: "SomeIpServiceInstanceDeployment \<Rightarrow> bool" where
  "someip_deployment_ok d \<longleftrightarrow> is_table (someip_events d) \<and> is_table (someip_fields d)"

definition someip_json :: "('j, 'm) json_api_scheme \<Rightarrow> SomeIpServiceInstanceDeployment \<Rightarrow> 'j json_object" where
  "someip_json J d =
     put_optional ''instanceId'' (\<lambda>i. of_object J (SomeIpServiceInstanceId_Serialize J i)) (someip_instance_id d)
      (table_of [(''serializationVersion'', of_uint32 J serializationVersion),
         (''events'', of_object J (map (\<lambda>(k, e). (k, of_object J (SomeIpEvent_Serialize e))) (someip_events d))),
         (''fields'', of_object J (map (\<lambda>(k, e). (k, of_object J (SomeIpEvent_Serialize e))) (someip_fields d)))])"

lemma is_table_someip_json [simp]: "is_table (someip_json J d)"
  by (simp add: someip_json_def)

lemma someip_serialize:
  assumes "someip_deployment_ok d"
  shows "SomeIpDeployment_Serialize J d = Some (someip_json J d)"
  using assms
  by (simp add: someip_deployment_ok_def SomeIpDeployment_Serialize_def ConvertServiceElementMapToJson_eq someip_json_def)

lemma someip_json_lookup:
  "map_of (someip_json J d) ''serializationVersion'' = Some (of_uint32 J serializationVersion)"
  "map_of (someip_json J d) ''events'' =
     Some (of_object J (map (\<lambda>(k, e). (k, of_object J (SomeIpEvent_Serialize e))) (someip_events d)))"
  "map_of (someip_json J d) ''fields'' =
     Some (of_object J (map (\<lambda>(k, e). (k, of_object J (SomeIpEvent_Serialize e))) (someip_fields d)))"
  "map_of (someip_json J d) ''instanceId'' =
     map_option (\<lambda>i. of_object J (SomeIpServiceInstanceId_Serialize J i)) (someip_instance_id d)"
  by (simp_all add: someip_json_def split: option.splits)

lemma someip_round_trip:
  assumes laws: "json_laws J" and d: "someip_deployment_ok d"
  shows "SomeIpDeployment_of_json J (someip_json J d) = Some d"
proof -
  have es: "ConvertJsonToServiceElementMap J SomeIpEvent_of_json (someip_json J d) ''events'' =
      Some (map (\<lambda>(k, e). (k, ())) (someip_events d))"
    by (rule element_map_round_trip [OF laws])
      (use d in \<open>auto simp: someip_deployment_ok_def someip_json_lookup SomeIpEvent_of_json_def SomeIpEvent_Serialize_def\<close>)
  have fs: "ConvertJsonToServiceElementMap J SomeIpEvent_of_json (someip_json J d) ''fields'' =
      Some (map (\<lambda>(k, e). (k, ())) (someip_fields d))"
    by (rule element_map_round_trip [OF laws])
      (use d in \<open>auto simp: someip_deployment_ok_def someip_json_lookup SomeIpEvent_of_json_def SomeIpEvent_Serialize_def\<close>)
  have i: "required_if_present (\<lambda>it. as_object J it \<bind> SomeIpServiceInstanceId_of_json J) (someip_json J d) ''instanceId'' =
      Some (someip_instance_id d)"
    using laws by (cases "someip_instance_id d")
      (simp_all add: required_if_present_def someip_json_lookup json_simps instance_id_round_trip)
  show ?thesis
    using laws unfolding SomeIpDeployment_of_json_def es fs i
    by (simp add: GetValueFromJson_def someip_json_lookup json_simps contract_simps)
qed

subsection \<open>Service types and service instances\<close>

definition type_deployment_ok :: "ServiceTypeDeployment \<Rightarrow> bool" where
  "type_deployment_ok d = (case d of LolaType b \<Rightarrow> is_table (type_events b) \<and> is_table (type_fields b) | BlankType \<Rightarrow> True)"

lemma id_map_to_json:
  assumes "is_table t"
  shows "ConvertServiceElementIdMapToJson J t = Some (map (\<lambda>(k, i). (k, of_uint8 J i)) t)"
  unfolding ConvertServiceElementIdMapToJson_def
  using for_each_collects [OF assms, of "\<lambda>i. Some (of_uint8 J i)" "\<lambda>i. i"] by simp

lemma id_map_round_trip:
  assumes laws: "json_laws J" and t: "is_table t"
    and key: "map_of json_object key = Some (of_object J (map (\<lambda>(k, i). (k, of_uint8 J i)) t))"
  shows "ConvertJsonToServiceElementIdMap J json_object key = Some t"
  using laws t for_each_collects [OF t, of "as_uint8 J" "of_uint8 J" "\<lambda>i. i"]
  unfolding ConvertJsonToServiceElementIdMap_def GetValueFromJson_def key
  by (simp add: json_simps)

lemma lola_type_round_trip:
  assumes laws: "json_laws J" and tables: "is_table (type_events b)" "is_table (type_fields b)"
  shows "\<exists>o'. LolaTypeDeployment_Serialize J b = Some o' \<and> is_table o' \<and> LolaTypeDeployment_of_json J o' = Some b"
proof -
  let ?o = "table_of [(''serializationVersion'', of_uint32 J serializationVersion),
       (''serviceId'', of_uint16 J (service_id b)),
       (''events'', of_object J (map (\<lambda>(k, i). (k, of_uint8 J i)) (type_events b))),
       (''fields'', of_object J (map (\<lambda>(k, i). (k, of_uint8 J i)) (type_fields b)))]"
  have "LolaTypeDeployment_Serialize J b = Some ?o"
    by (simp add: LolaTypeDeployment_Serialize_def id_map_to_json tables)
  moreover have "ConvertJsonToServiceElementIdMap J ?o ''events'' = Some (type_events b)"
    "ConvertJsonToServiceElementIdMap J ?o ''fields'' = Some (type_fields b)"
    by (rule id_map_round_trip [OF laws]; simp add: tables)+
  then have "LolaTypeDeployment_of_json J ?o = Some b"
    using laws by (simp add: LolaTypeDeployment_of_json_def GetValueFromJson_def json_simps contract_simps)
  ultimately show ?thesis using is_table_table_of by blast
qed

lemma type_round_trip:
  assumes laws: "json_laws J" and d: "type_deployment_ok d"
  shows "\<exists>o'. ServiceTypeDeployment_Serialize J d = Some o' \<and> is_table o' \<and> ServiceTypeDeployment_of_json J o' = Some d"
proof (cases d)
  case (LolaType b)
  with d laws obtain o' where "LolaTypeDeployment_Serialize J b = Some o'" "is_table o'"
    "LolaTypeDeployment_of_json J o' = Some b"
    using lola_type_round_trip unfolding type_deployment_ok_def by fastforce
  with laws LolaType show ?thesis
    by (simp add: ServiceTypeDeployment_Serialize_def ServiceTypeDeployment_of_json_def ServiceTypeDeployment_index_def
        read_simps json_simps contract_simps)
next
  case BlankType
  with laws show ?thesis
    by (simp add: ServiceTypeDeployment_Serialize_def ServiceTypeDeployment_of_json_def ServiceTypeDeployment_index_def
        read_simps json_simps contract_simps)
qed

definition binding_ok :: "BindingInformation \<Rightarrow> bool" where
  "binding_ok b = (case b of LolaBinding d \<Rightarrow> lola_deployment_ok d | SomeIpBinding d \<Rightarrow> someip_deployment_ok d | BlankBinding \<Rightarrow> True)"

definition instance_deployment_ok :: "ServiceInstanceDeployment \<Rightarrow> bool" where
  "instance_deployment_ok d \<longleftrightarrow> binding_ok (bindingInfo d) \<and> IsShortNameValid (specifier d) \<and>
     c_str (serviceTypeName (service d)) = serviceTypeName (service d)"

definition untraced_binding :: "BindingInformation \<Rightarrow> BindingInformation" where
  "untraced_binding b = (case b of LolaBinding d \<Rightarrow> LolaBinding (untraced d) | _ \<Rightarrow> b)"

lemma instance_round_trip:
  assumes laws: "json_laws J" and d: "instance_deployment_ok d"
  shows "\<exists>o'. ServiceInstanceDeployment_Serialize J d = Some o' \<and> is_table o' \<and>
    ServiceInstanceDeployment_of_json J o' = Some (d\<lparr>bindingInfo := untraced_binding (bindingInfo d)\<rparr>)"
proof -
  let ?o = "table_of
        [(''bindingInfoIndex'', of_uint64 J (of_nat (BindingInformation_index (bindingInfo d)))),
         (''asilLevel'', of_string J (QualityType_ToString (asil_level d))),
         (''service'', of_object J (ServiceIdentifierType_Serialize J (service d))),
         (''instanceSpecifier'', of_string J (specifier d)),
         (''serializationVersion'', of_uint32 J serializationVersion)]"
  have rest: "ServiceInstanceDeployment_of_json J o' = Some (d\<lparr>bindingInfo := b\<rparr>)"
    if "map_of o' ''service'' = map_of ?o ''service''" "map_of o' ''asilLevel'' = map_of ?o ''asilLevel''"
      "map_of o' ''instanceSpecifier'' = map_of ?o ''instanceSpecifier''"
      "map_of o' ''serializationVersion'' = map_of ?o ''serializationVersion''"
      "BindingInformation_of_json J o' = Some b" for o' b
    using that laws d service_identifier_round_trip [OF laws, of "service d"]
    by (simp add: ServiceInstanceDeployment_of_json_def GetValueFromJson_def json_simps contract_simps
        QualityType_round_trip instance_deployment_ok_def InstanceSpecifier_Create_def value_of_def)
  show ?thesis
  proof (cases "bindingInfo d")
    case (LolaBinding b)
    let ?o' = "table_put ''bindingInfo'' (of_object J (lola_json J b)) ?o"
    have ok: "lola_deployment_ok b" using d LolaBinding by (simp add: instance_deployment_ok_def binding_ok_def)
    have "BindingInformation_of_json J ?o' = Some (LolaBinding (untraced b))"
      using laws lola_round_trip [OF laws ok]
      by (simp add: BindingInformation_of_json_def read_simps json_simps LolaBinding BindingInformation_index_def)
    then have "ServiceInstanceDeployment_of_json J ?o' = Some (d\<lparr>bindingInfo := LolaBinding (untraced b)\<rparr>)"
      by (intro rest) simp_all
    moreover have "ServiceInstanceDeployment_Serialize J d = Some ?o'"
      by (simp add: ServiceInstanceDeployment_Serialize_def LolaBinding lola_serialize [OF ok])
    moreover have "is_table ?o'" by simp
    ultimately show ?thesis unfolding LolaBinding untraced_binding_def BindingInformation.case by blast
  next
    case (SomeIpBinding b)
    let ?o' = "table_put ''bindingInfo'' (of_object J (someip_json J b)) ?o"
    have ok: "someip_deployment_ok b" using d SomeIpBinding by (simp add: instance_deployment_ok_def binding_ok_def)
    have "BindingInformation_of_json J ?o' = Some (SomeIpBinding b)"
      using laws someip_round_trip [OF laws ok]
      by (simp add: BindingInformation_of_json_def read_simps json_simps SomeIpBinding BindingInformation_index_def)
    then have "ServiceInstanceDeployment_of_json J ?o' = Some (d\<lparr>bindingInfo := SomeIpBinding b\<rparr>)"
      by (intro rest) simp_all
    moreover have "ServiceInstanceDeployment_Serialize J d = Some ?o'"
      by (simp add: ServiceInstanceDeployment_Serialize_def SomeIpBinding someip_serialize [OF ok])
    moreover have "is_table ?o'" by simp
    ultimately show ?thesis unfolding SomeIpBinding untraced_binding_def BindingInformation.case by blast
  next
    case BlankBinding
    have "BindingInformation_of_json J ?o = Some BlankBinding"
      using laws
      by (simp add: BindingInformation_of_json_def read_simps json_simps BlankBinding BindingInformation_index_def)
    then have "ServiceInstanceDeployment_of_json J ?o = Some (d\<lparr>bindingInfo := BlankBinding\<rparr>)"
      by (intro rest) simp_all
    moreover have "ServiceInstanceDeployment_Serialize J d = Some ?o"
      by (simp add: ServiceInstanceDeployment_Serialize_def BlankBinding)
    moreover have "is_table ?o" by simp
    ultimately show ?thesis unfolding BlankBinding untraced_binding_def BindingInformation.case by blast
  qed
qed

subsection \<open>Hash texts\<close>

lemma hash_text_inject:
  "ServiceInstanceId_ToHashString i = ServiceInstanceId_ToHashString j \<longleftrightarrow> i = j"
  by (cases i; cases j)
    (simp_all add: ServiceInstanceId_ToHashString_def ServiceInstanceId_index_def show_hex.simps hex_digit_def
      LolaServiceInstanceId_ToHashString_def SomeIpServiceInstanceId_ToHashString_def ToHashStringImpl_inject)

lemma hash_text_length:
  "length (ServiceInstanceId_ToHashString i) = (if i = BlankInstanceId then 1 else 5)"
  by (cases i)
    (simp_all add: ServiceInstanceId_ToHashString_def ServiceInstanceId_index_def show_hex.simps
      LolaServiceInstanceId_ToHashString_def SomeIpServiceInstanceId_ToHashString_def
      hashStringSize_id_def length_ToHashStringImpl)

subsection \<open>A concrete type of JSON values\<close>

datatype json =
    JObject "(string \<times> json) list" | JList "json list" | JString string | JBool bool | JNumber int

definition number_in :: "int \<Rightarrow> int \<Rightarrow> (int \<Rightarrow> 'a) \<Rightarrow> json \<Rightarrow> 'a option" where
  "number_in low high f j = (case j of JNumber n \<Rightarrow> if low \<le> n \<and> n < high then Some (f n) else None | _ \<Rightarrow> None)"

definition json_values :: "json json_api" where
  "json_values = \<lparr>
     as_object = (\<lambda>j. case j of JObject t \<Rightarrow> Some t | _ \<Rightarrow> None),
     as_list = (\<lambda>j. case j of JList xs \<Rightarrow> Some xs | _ \<Rightarrow> None),
     as_string = (\<lambda>j. case j of JString s \<Rightarrow> Some s | _ \<Rightarrow> None),
     as_bool = (\<lambda>j. case j of JBool b \<Rightarrow> Some b | _ \<Rightarrow> None),
     as_uint8 = number_in 0 (2 ^ 8) word_of_int, as_uint16 = number_in 0 (2 ^ 16) word_of_int,
     as_uint32 = number_in 0 (2 ^ 32) word_of_int, as_uint64 = number_in 0 (2 ^ 64) word_of_int,
     as_int32 = number_in (- (2 ^ 31)) (2 ^ 31) (\<lambda>n. n), as_int64 = number_in (- (2 ^ 63)) (2 ^ 63) (\<lambda>n. n),
     of_object = JObject, of_list = JList, of_string = JString, of_bool_value = JBool,
     of_uint8 = (\<lambda>n. JNumber (uint n)), of_uint16 = (\<lambda>n. JNumber (uint n)),
     of_uint32 = (\<lambda>n. JNumber (uint n)), of_uint64 = (\<lambda>n. JNumber (uint n))\<rparr>"

lemma json_values_laws: "json_laws json_values"
proof -
  have "- (2 ^ 63) \<le> uint n \<and> uint n < 2 ^ 63" if "unat n < 2 ^ 63" for n :: u64
    using that order_trans [of "- (2 ^ 63)" 0 "uint n"]
    by (metis uint_nat of_nat_less_iff of_nat_numeral of_nat_power neg_le_0_iff_le uint_ge_0 zero_le_numeral zero_le_power)
  then show ?thesis
    unfolding json_laws_def json_values_def number_in_def
    using uint_bounded [of "_ :: u8"] uint_bounded [of "_ :: u16"] uint_bounded [of "_ :: u32"] uint_bounded [of "_ :: u64"]
    by auto
qed

end
