(* ===== verification/Configurations.thy ===== *)
theory Configurations
  imports Deployment_Round_Trips
begin

text \<open>
  The configuration of a process (impl/configuration): the global properties, the tracing of service
  elements, the maps of service types and service instances, and \<open>InstanceIdentifier\<close>
  (impl/instance_identifier.h/.cpp), which is serialized in one process and created from the text in
  another. An identifier points into the maps of the configuration; entries are never changed or
  removed, so the model holds the values. \<open>FromBuffer\<close> of the JSON library is a parameter.
\<close>

subsection \<open>Global properties\<close>

datatype ShmSizeCalculationMode = kEstimation | kSimulation

record GlobalConfiguration =
  process_asil_level :: QualityType
  message_rx_queue_size_qm :: int
  message_rx_queue_size_b :: int
  message_tx_queue_size_b :: int
  shm_size_calc_mode :: ShmSizeCalculationMode

definition GlobalConfiguration_default :: GlobalConfiguration where
  "GlobalConfiguration_default =
     \<lparr>process_asil_level = kASIL_QM, message_rx_queue_size_qm = 10, message_rx_queue_size_b = 10,
      message_tx_queue_size_b = 20, shm_size_calc_mode = kSimulation\<rparr>"

definition SetReceiverMessageQueueSize :: "QualityType \<Rightarrow> int \<Rightarrow> GlobalConfiguration \<Rightarrow> GlobalConfiguration run" where
  "SetReceiverMessageQueueSize quality_type queue_size g =
     (case quality_type of
        kInvalid \<Rightarrow> None
      | kASIL_QM \<Rightarrow> Some (g\<lparr>message_rx_queue_size_qm := queue_size\<rparr>)
      | kASIL_B \<Rightarrow> Some (g\<lparr>message_rx_queue_size_b := queue_size\<rparr>))"

definition GetReceiverMessageQueueSize :: "QualityType \<Rightarrow> GlobalConfiguration \<Rightarrow> int run" where
  "GetReceiverMessageQueueSize quality_type g =
     (case quality_type of
        kInvalid \<Rightarrow> None
      | kASIL_QM \<Rightarrow> Some (message_rx_queue_size_qm g)
      | kASIL_B \<Rightarrow> Some (message_rx_queue_size_b g))"

subsection \<open>Tracing of service elements\<close>

datatype ServiceElementType = INVALID_SERVICE_ELEMENT | EVENT_SERVICE_ELEMENT | FIELD_SERVICE_ELEMENT | METHOD_SERVICE_ELEMENT

definition service_element_value :: "ServiceElementType \<Rightarrow> nat" where
  "service_element_value t =
     (case t of INVALID_SERVICE_ELEMENT \<Rightarrow> 0 | EVENT_SERVICE_ELEMENT \<Rightarrow> 1
      | FIELD_SERVICE_ELEMENT \<Rightarrow> 2 | METHOD_SERVICE_ELEMENT \<Rightarrow> 3)"

lemma service_element_value_inject: "service_element_value s = service_element_value t \<longleftrightarrow> s = t"
  by (cases s; cases t) (simp_all add: service_element_value_def)

datatype ServiceElementIdentifier =
  ServiceElementIdentifier (service_type_name: string) (service_element_name: string)
    (service_element_type: ServiceElementType)

definition ServiceElementIdentifier_less :: "ServiceElementIdentifier \<Rightarrow> ServiceElementIdentifier \<Rightarrow> bool" where
  "ServiceElementIdentifier_less lhs rhs =
     (if service_type_name lhs \<noteq> service_type_name rhs then service_type_name lhs < service_type_name rhs
      else if service_element_name lhs \<noteq> service_element_name rhs then service_element_name lhs < service_element_name rhs
      else service_element_value (service_element_type lhs) < service_element_value (service_element_type rhs))"

instantiation ServiceElementIdentifier :: linorder
begin

definition less_ServiceElementIdentifier :: "ServiceElementIdentifier \<Rightarrow> ServiceElementIdentifier \<Rightarrow> bool" where
  "less_ServiceElementIdentifier = ServiceElementIdentifier_less"

definition less_eq_ServiceElementIdentifier :: "ServiceElementIdentifier \<Rightarrow> ServiceElementIdentifier \<Rightarrow> bool" where
  "less_eq_ServiceElementIdentifier s t \<longleftrightarrow> s = t \<or> ServiceElementIdentifier_less s t"

instance
proof
  fix x y z :: ServiceElementIdentifier
  show "x < y \<longleftrightarrow> x \<le> y \<and> \<not> y \<le> x"
    by (auto simp: less_ServiceElementIdentifier_def less_eq_ServiceElementIdentifier_def
        ServiceElementIdentifier_less_def split: if_splits)
  show "x \<le> x" by (simp add: less_eq_ServiceElementIdentifier_def)
  show "x \<le> z" if "x \<le> y" "y \<le> z"
    using that by (auto simp: less_eq_ServiceElementIdentifier_def ServiceElementIdentifier_less_def split: if_splits)
  show "x = y" if "x \<le> y" "y \<le> x"
    using that by (auto simp: less_eq_ServiceElementIdentifier_def ServiceElementIdentifier_less_def split: if_splits)
  show "x \<le> y \<or> y \<le> x"
    using less_linear [of "service_type_name x" "service_type_name y"]
      less_linear [of "service_element_name x" "service_element_name y"]
      less_linear [of "service_element_value (service_element_type x)" "service_element_value (service_element_type y)"]
    by (auto simp: less_eq_ServiceElementIdentifier_def ServiceElementIdentifier_less_def
        service_element_value_inject ServiceElementIdentifier.expand)
qed

end

record TracingConfiguration =
  service_element_tracing_enabled_map :: "(ServiceElementIdentifier, (instance_specifier, unit) table) table"
  tracing_enabled :: bool
  application_instance_id :: string
  trace_filter_config_path :: string

definition TracingConfiguration_default :: TracingConfiguration where
  "TracingConfiguration_default =
     \<lparr>service_element_tracing_enabled_map = [], tracing_enabled = False, application_instance_id = [],
      trace_filter_config_path = []\<rparr>"

definition SetServiceElementTracingEnabled ::
    "ServiceElementIdentifier \<Rightarrow> instance_specifier \<Rightarrow> TracingConfiguration \<Rightarrow> TracingConfiguration run" where
  "SetServiceElementTracingEnabled service_element_identifier port t =
     (let m = service_element_tracing_enabled_map t
      in case map_of m service_element_identifier of
           None \<Rightarrow> Some (t\<lparr>service_element_tracing_enabled_map :=
             table_put service_element_identifier [(port, ())] m\<rparr>)
         | Some specifiers \<Rightarrow> do {
             specifiers \<leftarrow> table_insert port () specifiers;
             Some (t\<lparr>service_element_tracing_enabled_map := table_put service_element_identifier specifiers m\<rparr>) })"

definition IsServiceElementTracingEnabled ::
    "ServiceElementIdentifier \<Rightarrow> string \<Rightarrow> TracingConfiguration \<Rightarrow> bool run" where
  "IsServiceElementTracingEnabled service_element_identifier specifier_view t =
     (case map_of (service_element_tracing_enabled_map t) service_element_identifier of
        None \<Rightarrow> Some False
      | Some specifiers \<Rightarrow> do {
          port \<leftarrow> value_of (InstanceSpecifier_Create specifier_view);
          Some (map_of specifiers port \<noteq> None) })"

subsection \<open>The configuration\<close>

record Configuration =
  service_types :: "(ServiceIdentifierType, ServiceTypeDeployment) table"
  service_instances :: "(instance_specifier, ServiceInstanceDeployment) table"
  global_configuration :: GlobalConfiguration
  tracing_configuration :: TracingConfiguration

definition AddServiceTypeDeployment ::
    "ServiceIdentifierType \<Rightarrow> ServiceTypeDeployment \<Rightarrow> Configuration \<Rightarrow> Configuration run" where
  "AddServiceTypeDeployment service_identifier_type service_type_deployment c = do {
     types \<leftarrow> table_insert service_identifier_type service_type_deployment (service_types c);
     Some (c\<lparr>service_types := types\<rparr>) }"

definition AddServiceInstanceDeployments ::
    "instance_specifier \<Rightarrow> ServiceInstanceDeployment \<Rightarrow> Configuration \<Rightarrow> Configuration run" where
  "AddServiceInstanceDeployments port service_instance_deployment c = do {
     instances \<leftarrow> table_insert port service_instance_deployment (service_instances c);
     Some (c\<lparr>service_instances := instances\<rparr>) }"

subsection \<open>Instance identifiers\<close>

record InstanceIdentifier =
  instance_deployment :: ServiceInstanceDeployment
  type_deployment :: ServiceTypeDeployment
  serialized_string :: string

definition InstanceIdentifier_Serialize :: "('j, 'm) json_api_scheme \<Rightarrow> InstanceIdentifier \<Rightarrow> 'j json_object run" where
  "InstanceIdentifier_Serialize J i = do {
     instance_json \<leftarrow> ServiceInstanceDeployment_Serialize J (instance_deployment i);
     type_json \<leftarrow> ServiceTypeDeployment_Serialize J (type_deployment i);
     Some (table_of [(''serializationVersion'', of_uint32 J serializationVersion),
       (''serviceInstanceDeployment'', of_object J instance_json),
       (''serviceTypeDeployment'', of_object J type_json)]) }"

definition InstanceIdentifier_of_json ::
    "('j, 'm) json_api_scheme \<Rightarrow> 'j json_object \<Rightarrow> string \<Rightarrow> Configuration \<Rightarrow> (InstanceIdentifier \<times> Configuration) run" where
  "InstanceIdentifier_of_json J json_object serialized c = do {
     serialization_version \<leftarrow> GetValueFromJson (as_uint32 J) json_object ''serializationVersion'';
     amp_require (serialization_version = serializationVersion);
     instance_object \<leftarrow> GetValueFromJson (as_object J) json_object ''serviceInstanceDeployment'';
     d \<leftarrow> ServiceInstanceDeployment_of_json J instance_object;
     type_object \<leftarrow> GetValueFromJson (as_object J) json_object ''serviceTypeDeployment'';
     t \<leftarrow> ServiceTypeDeployment_of_json J type_object;
     c \<leftarrow> AddServiceTypeDeployment (service d) t c;
     c \<leftarrow> AddServiceInstanceDeployments (specifier d) d c;
     Some (\<lparr>instance_deployment = d, type_deployment = t, serialized_string = serialized\<rparr>, c) }"

text \<open>\<open>FromBuffer\<close> gets the pointer of the view; \<open>None\<close> is its error.\<close>

definition InstanceIdentifier_Create ::
    "('j, 'm) json_api_scheme \<Rightarrow> (string \<Rightarrow> 'j option) \<Rightarrow> string \<Rightarrow> Configuration option \<Rightarrow>
       (InstanceIdentifier result \<times> Configuration option) run" where
  "InstanceIdentifier_Create J FromBuffer serialized_format configuration =
     (case configuration of
        None \<Rightarrow> Some (Inl kInvalidConfiguration, configuration)
      | Some c \<Rightarrow>
          (case FromBuffer (c_str serialized_format) of
             None \<Rightarrow> Some (Inl kInvalidInstanceIdentifierString, configuration)
           | Some json \<Rightarrow> do {
               json_object \<leftarrow> as_object J json;
               (i, c) \<leftarrow> InstanceIdentifier_of_json J json_object serialized_format c;
               Some (Inr i, Some c) }))"

definition InstanceIdentifier_eq :: "InstanceIdentifier \<Rightarrow> InstanceIdentifier \<Rightarrow> bool" where
  "InstanceIdentifier_eq lhs rhs \<longleftrightarrow>
     service (instance_deployment lhs) = service (instance_deployment rhs) \<and>
     ServiceInstanceDeployment_eq (instance_deployment lhs) (instance_deployment rhs)"

definition InstanceIdentifier_less :: "InstanceIdentifier \<Rightarrow> InstanceIdentifier \<Rightarrow> bool" where
  "InstanceIdentifier_less lhs rhs \<longleftrightarrow>
     service (instance_deployment lhs) < service (instance_deployment rhs) \<or>
     ServiceInstanceDeployment_less (instance_deployment lhs) (instance_deployment rhs)"

definition View_GetServiceInstanceId :: "InstanceIdentifier \<Rightarrow> ServiceInstanceId option" where
  "View_GetServiceInstanceId i =
     (case bindingInfo (instance_deployment i) of
        LolaBinding d \<Rightarrow> (case lola_instance_id d of None \<Rightarrow> None | Some n \<Rightarrow> Some (LolaServiceInstanceId n))
      | SomeIpBinding d \<Rightarrow> (case someip_instance_id d of None \<Rightarrow> None | Some n \<Rightarrow> Some (SomeIpServiceInstanceId n))
      | BlankBinding \<Rightarrow> None)"

definition View_isCompatibleWith :: "InstanceIdentifier \<Rightarrow> InstanceIdentifier \<Rightarrow> bool" where
  "View_isCompatibleWith lhs rhs =
     ServiceInstanceDeployment_areCompatible (instance_deployment lhs) (instance_deployment rhs)"

subsection \<open>Identifiers between processes\<close>

lemma identifier_of_json:
  assumes laws: "json_laws J" and d: "instance_deployment_ok (instance_deployment i)"
    and t: "type_deployment_ok (type_deployment i)"
  shows "\<exists>o'. InstanceIdentifier_Serialize J i = Some o' \<and> is_table o' \<and>
    InstanceIdentifier_of_json J o' text c =
      (let d' = (instance_deployment i)\<lparr>bindingInfo := untraced_binding (bindingInfo (instance_deployment i))\<rparr>
       in do { c \<leftarrow> AddServiceTypeDeployment (service d') (type_deployment i) c;
               c \<leftarrow> AddServiceInstanceDeployments (specifier d') d' c;
               Some (\<lparr>instance_deployment = d', type_deployment = type_deployment i, serialized_string = text\<rparr>, c) })"
proof -
  obtain od where od: "ServiceInstanceDeployment_Serialize J (instance_deployment i) = Some od" "is_table od"
    "ServiceInstanceDeployment_of_json J od =
       Some ((instance_deployment i)\<lparr>bindingInfo := untraced_binding (bindingInfo (instance_deployment i))\<rparr>)"
    using instance_round_trip [OF laws d] by blast
  obtain ot where ot: "ServiceTypeDeployment_Serialize J (type_deployment i) = Some ot" "is_table ot"
    "ServiceTypeDeployment_of_json J ot = Some (type_deployment i)"
    using type_round_trip [OF laws t] by blast
  let ?o = "table_of [(''serializationVersion'', of_uint32 J serializationVersion),
       (''serviceInstanceDeployment'', of_object J od), (''serviceTypeDeployment'', of_object J ot)]"
  have "InstanceIdentifier_Serialize J i = Some ?o"
    by (simp add: InstanceIdentifier_Serialize_def od ot)
  moreover have "InstanceIdentifier_of_json J ?o text c =
      (let d' = (instance_deployment i)\<lparr>bindingInfo := untraced_binding (bindingInfo (instance_deployment i))\<rparr>
       in do { c \<leftarrow> AddServiceTypeDeployment (service d') (type_deployment i) c;
               c \<leftarrow> AddServiceInstanceDeployments (specifier d') d' c;
               Some (\<lparr>instance_deployment = d', type_deployment = type_deployment i, serialized_string = text\<rparr>, c) })"
    using laws by (simp add: InstanceIdentifier_of_json_def GetValueFromJson_def json_simps contract_simps od ot Let_def)
  ultimately show ?thesis using is_table_table_of by blast
qed

lemma untraced_eq: "ServiceInstanceDeployment_eq d (d\<lparr>bindingInfo := untraced_binding (bindingInfo d)\<rparr>)"
  by (cases "bindingInfo d")
    (simp_all add: ServiceInstanceDeployment_eq_def BindingInformation_eq_def untraced_binding_def
      LolaDeployment_eq_def SomeIpDeployment_eq_def untraced_def)

text \<open>
  Property C37: an instance identifier between processes. A process that gets the text of an
  identifier of another process creates an identifier that is equal to it under the operators of the
  code, with the same deployment of the type and the same deployment of the instance but for the
  tracing of the elements, and it adds both deployments to its configuration. That works only once
  for a service: when the configuration already has the type of the service or the instance
  specifier, the process ends.
\<close>

theorem identifier_crosses_processes:
  assumes laws: "json_laws J" and i: "instance_deployment_ok (instance_deployment i)" "type_deployment_ok (type_deployment i)"
    and sent: "InstanceIdentifier_Serialize J i = Some json_object"
    and received: "FromBuffer (c_str text) = Some (of_object J json_object)"
  shows "if map_of (service_types c) (service (instance_deployment i)) = None \<and>
      map_of (service_instances c) (specifier (instance_deployment i)) = None
    then \<exists>i' c'. InstanceIdentifier_Create J FromBuffer text (Some c) = Some (Inr i', Some c') \<and>
      InstanceIdentifier_eq i i' \<and> type_deployment i' = type_deployment i \<and> serialized_string i' = text \<and>
      instance_deployment i' =
        (instance_deployment i)\<lparr>bindingInfo := untraced_binding (bindingInfo (instance_deployment i))\<rparr> \<and>
      c' = c\<lparr>service_types := table_put (service (instance_deployment i)) (type_deployment i) (service_types c),
        service_instances := table_put (specifier (instance_deployment i)) (instance_deployment i') (service_instances c)\<rparr>
    else InstanceIdentifier_Create J FromBuffer text (Some c) = None"
proof -
  obtain o' where o': "InstanceIdentifier_Serialize J i = Some o'" "is_table o'"
    "InstanceIdentifier_of_json J o' text c =
      (let d' = (instance_deployment i)\<lparr>bindingInfo := untraced_binding (bindingInfo (instance_deployment i))\<rparr>
       in do { c \<leftarrow> AddServiceTypeDeployment (service d') (type_deployment i) c;
               c \<leftarrow> AddServiceInstanceDeployments (specifier d') d' c;
               Some (\<lparr>instance_deployment = d', type_deployment = type_deployment i, serialized_string = text\<rparr>, c) })"
    using identifier_of_json [OF laws i] by blast
  have "json_object = o'" using sent o'(1) by simp
  then show ?thesis
    using laws untraced_eq [of "instance_deployment i"] unfolding InstanceIdentifier_Create_def received
    by (auto simp: json_simps o' Let_def AddServiceTypeDeployment_def AddServiceInstanceDeployments_def
        table_insert_def InstanceIdentifier_eq_def split: option.splits)
qed

definition example_event_deployment :: LolaEventInstanceDeployment where
  "example_event_deployment = default_event_deployment\<lparr>number_of_sample_slots := Some 5, is_tracing_enabled := True\<rparr>"

definition example_identifier :: InstanceIdentifier where
  "example_identifier =
     \<lparr>instance_deployment =
        \<lparr>service = ServiceIdentifierType ''/score/Camera'' (ServiceVersionType 1 2),
         bindingInfo = LolaBinding (default_lola_deployment
           \<lparr>lola_instance_id := Some 7, instance_events := [(''frame'', example_event_deployment)],
            allowed_consumer := [(kASIL_QM, [1000, 1001]), (kASIL_B, [2000])]\<rparr>),
         asil_level = kASIL_B, specifier = ''/app/camera''\<rparr>,
      type_deployment = LolaType \<lparr>service_id = 4660, type_events = [(''frame'', 20)], type_fields = []\<rparr>,
      serialized_string = ''{}''\<rparr>"

definition example_json :: "json json_object" where
  "example_json = the (InstanceIdentifier_Serialize json_values example_identifier)"

definition empty_configuration :: Configuration where
  "empty_configuration = \<lparr>service_types = [], service_instances = [],
     global_configuration = GlobalConfiguration_default, tracing_configuration = TracingConfiguration_default\<rparr>"

lemma example_identifier_ok:
  "instance_deployment_ok (instance_deployment example_identifier)"
  "type_deployment_ok (type_deployment example_identifier)"
  "InstanceIdentifier_Serialize json_values example_identifier = Some example_json"
proof -
  show i: "instance_deployment_ok (instance_deployment example_identifier)" by code_simp
  show t: "type_deployment_ok (type_deployment example_identifier)" by code_simp
  obtain o' where "InstanceIdentifier_Serialize json_values example_identifier = Some o'"
    using identifier_of_json [OF json_values_laws i t] by blast
  then show "InstanceIdentifier_Serialize json_values example_identifier = Some example_json"
    unfolding example_json_def by simp
qed

theorem identifier_crosses_processes_witness:
  "\<exists>i c. InstanceIdentifier_Create json_values (\<lambda>_. Some (JObject example_json)) ''text'' (Some empty_configuration) =
       Some (Inr i, Some c) \<and> InstanceIdentifier_eq example_identifier i \<and>
     InstanceIdentifier_Create json_values (\<lambda>_. Some (JObject example_json)) ''text'' (Some c) = None"
proof -
  have received: "Some (JObject example_json) = Some (of_object json_values example_json)"
    by (simp add: json_values_def)
  note here = identifier_crosses_processes [OF json_values_laws example_identifier_ok, of "\<lambda>_. Some (JObject example_json)" "''text''", OF received]
  obtain i c where first: "InstanceIdentifier_Create json_values (\<lambda>_. Some (JObject example_json)) ''text'' (Some empty_configuration) =
      Some (Inr i, Some c)" "InstanceIdentifier_eq example_identifier i"
    and c: "service_types c = table_put (service (instance_deployment example_identifier))
      (type_deployment example_identifier) (service_types empty_configuration)"
    using here [of empty_configuration] by (auto simp: empty_configuration_def)
  have "InstanceIdentifier_Create json_values (\<lambda>_. Some (JObject example_json)) ''text'' (Some c) = None"
    using here [of c] by (simp add: c empty_configuration_def)
  with first show ?thesis by blast
qed

end
