(* ===== verification/Configuration_Parser.thy ===== *)
theory Configuration_Parser
  imports Configurations
begin

text \<open>
  The parser of the configuration (impl/configuration/config_parser.cpp): every function of the file,
  over the conversions of the JSON library. \<open>None\<close> is the end of the process: the parser ends it at
  every value that is missing or of the wrong type, and so does \<open>value()\<close> of an empty result. (A
  service type without \<open>bindings\<close> makes the code use the end of the object, which is undefined; the
  model has \<open>None\<close> there, too.) What it writes to the log is left out.
\<close>

definition find_member :: "('j, 'm) json_api_scheme \<Rightarrow> 'j \<Rightarrow> string \<Rightarrow> 'j option run" where
  "find_member J json key = do { json_object \<leftarrow> as_object J json; Some (map_of json_object key) }"

definition error_if_found :: "'j option \<Rightarrow> unit run" where
  "error_if_found iterator_to_element = amp_require (iterator_to_element = None)"

subsection \<open>Names, versions and qualities\<close>

definition ParseInstanceSpecifier :: "('j, 'm) json_api_scheme \<Rightarrow> 'j \<Rightarrow> instance_specifier run" where
  "ParseInstanceSpecifier J json = do {
     instanceSpecifierJson \<leftarrow> find_member J json ''instanceSpecifier'';
     it \<leftarrow> instanceSpecifierJson;
     string_view \<leftarrow> as_string J it;
     value_of (InstanceSpecifier_Create string_view) }"

definition ParseServiceTypeName :: "('j, 'm) json_api_scheme \<Rightarrow> 'j \<Rightarrow> string run" where
  "ParseServiceTypeName J json = do {
     type_name \<leftarrow> find_member J json ''serviceTypeName'';
     it \<leftarrow> type_name;
     as_string J it }"

definition ParseVersion :: "('j, 'm) json_api_scheme \<Rightarrow> 'j \<Rightarrow> (u32 \<times> u32) run" where
  "ParseVersion J json = do {
     version_json \<leftarrow> find_member J json ''version'';
     it \<leftarrow> version_json;
     version_object \<leftarrow> as_object J it;
     (case (map_of version_object ''major'', map_of version_object ''minor'') of
        (Some major_version, Some minor_version) \<Rightarrow> do {
          major_version_number \<leftarrow> as_uint32 J major_version;
          minor_version_number \<leftarrow> as_uint32 J minor_version;
          Some (major_version_number, minor_version_number) }
      | _ \<Rightarrow> None) }"

definition ParseServiceTypeIdentifier :: "('j, 'm) json_api_scheme \<Rightarrow> 'j \<Rightarrow> ServiceIdentifierType run" where
  "ParseServiceTypeIdentifier J json = do {
     type_name \<leftarrow> ParseServiceTypeName J json;
     (major_version_number, minor_version_number) \<leftarrow> ParseVersion J json;
     Some (make_ServiceIdentifierType (c_str type_name) major_version_number minor_version_number) }"

definition ParseAsilLevel :: "('j, 'm) json_api_scheme \<Rightarrow> 'j \<Rightarrow> QualityType option run" where
  "ParseAsilLevel J json = do {
     quality \<leftarrow> find_member J json ''asil-level'';
     (case quality of
        None \<Rightarrow> Some None
      | Some it \<Rightarrow> do {
          qualityValue \<leftarrow> as_string J it;
          Some (Some (if qualityValue = ''QM'' then kASIL_QM else if qualityValue = ''B'' then kASIL_B else kInvalid)) }) }"

definition ParseShmSizeCalcMode :: "('j, 'm) json_api_scheme \<Rightarrow> 'j \<Rightarrow> ShmSizeCalculationMode option run" where
  "ParseShmSizeCalcMode J json = do {
     shm_size_calc_mode_json \<leftarrow> find_member J json ''shm-size-calc-mode'';
     (case shm_size_calc_mode_json of
        None \<Rightarrow> Some None
      | Some it \<Rightarrow> do {
          shm_size_calc_mode_value \<leftarrow> as_string J it;
          (if shm_size_calc_mode_value = ''ESTIMATION'' then Some (Some kEstimation)
           else if shm_size_calc_mode_value = ''SIMULATION'' then Some (Some kSimulation)
           else None) }) }"

definition ParseAllowedUser :: "('j, 'm) json_api_scheme \<Rightarrow> 'j \<Rightarrow> string \<Rightarrow> uid_map run" where
  "ParseAllowedUser J json key = do {
     allowed_user \<leftarrow> find_member J json key;
     (case allowed_user of
        None \<Rightarrow> Some []
      | Some it \<Rightarrow> do {
          users \<leftarrow> as_object J it;
          for_each (\<lambda>(user, ids_json) user_map. do {
              ids \<leftarrow> as_list J ids_json;
              user_ids \<leftarrow> those (map (as_uint32 J) ids);
              (if user = ''QM'' then Some (table_put kASIL_QM user_ids user_map)
               else if user = ''B'' then Some (table_put kASIL_B user_ids user_map)
               else None) })
            users [] }) }"

definition ParseAllowedConsumer :: "('j, 'm) json_api_scheme \<Rightarrow> 'j \<Rightarrow> uid_map run" where
  "ParseAllowedConsumer J json = ParseAllowedUser J json ''allowedConsumer''"

definition ParseAllowedProvider :: "('j, 'm) json_api_scheme \<Rightarrow> 'j \<Rightarrow> uid_map run" where
  "ParseAllowedProvider J json = ParseAllowedUser J json ''allowedProvider''"

subsection \<open>Events and fields of an instance\<close>

definition Parser_GetName :: "('j, 'm) json_api_scheme \<Rightarrow> 'j option \<Rightarrow> string run" where
  "Parser_GetName J name_json = do { it \<leftarrow> name_json; as_string J it }"

definition CheckContainsEvent :: "string \<Rightarrow> LolaServiceInstanceDeployment \<Rightarrow> unit run" where
  "CheckContainsEvent event_name d = amp_require (\<not> ContainsEvent event_name d)"

definition CheckContainsField :: "string \<Rightarrow> LolaServiceInstanceDeployment \<Rightarrow> unit run" where
  "CheckContainsField field_name d = amp_require (\<not> ContainsField field_name d)"

definition fill :: "('j \<Rightarrow> 'a option) \<Rightarrow> ('a \<Rightarrow> 'd \<Rightarrow> 'd) \<Rightarrow> 'j option \<Rightarrow> 'd \<Rightarrow> 'd run" where
  "fill as set_member member_json d =
     (case member_json of None \<Rightarrow> Some d | Some it \<Rightarrow> do { x \<leftarrow> as it; Some (set_member x d) })"

definition FillNumberOfSampleSlots where
  "FillNumberOfSampleSlots J = fill (as_uint16 J) SetNumberOfSampleSlots"

definition FillMaxSubscribers where
  "FillMaxSubscribers J = fill (as_uint8 J) (\<lambda>n d :: LolaEventInstanceDeployment. d\<lparr>max_subscribers := Some n\<rparr>)"

definition FillMaxConcurrentAllocations where
  "FillMaxConcurrentAllocations J =
     fill (as_uint8 J) (\<lambda>n d :: LolaEventInstanceDeployment. d\<lparr>max_concurrent_allocations := Some n\<rparr>)"

definition FillEnforceMaxSamples where
  "FillEnforceMaxSamples J = fill (as_bool J) (\<lambda>b d :: LolaEventInstanceDeployment. d\<lparr>enforce_max_samples := Some b\<rparr>)"

definition parse_event_deployment ::
    "('j, 'm) json_api_scheme \<Rightarrow> 'j \<Rightarrow> LolaServiceInstanceDeployment \<Rightarrow> LolaServiceInstanceDeployment run" where
  "parse_event_deployment J event d = do {
     event_object \<leftarrow> as_object J event;
     let max_samples = map_of event_object ''maxSamples'';
     let sample_slots = map_of event_object ''numberOfSampleSlots'';
     let max_allocations = map_of event_object ''maxConcurrentAllocations'';
     error_if_found max_allocations;
     event_name_value \<leftarrow> Parser_GetName J (map_of event_object ''eventName'');
     CheckContainsEvent event_name_value d;
     let e = default_event_deployment;
     e \<leftarrow> (if max_samples \<noteq> None then do {
             amp_require (sample_slots = None);
             FillNumberOfSampleSlots J max_samples e }
           else Some e);
     e \<leftarrow> FillNumberOfSampleSlots J sample_slots e;
     e \<leftarrow> FillMaxSubscribers J (map_of event_object ''maxSubscribers'') e;
     e \<leftarrow> FillMaxConcurrentAllocations J max_allocations e;
     e \<leftarrow> FillEnforceMaxSamples J (map_of event_object ''enforceMaxSamples'') e;
     es \<leftarrow> table_insert event_name_value e (instance_events d);
     Some (d\<lparr>instance_events := es\<rparr>) }"

definition ParseLolaEventInstanceDeployment ::
    "('j, 'm) json_api_scheme \<Rightarrow> 'j \<Rightarrow> LolaServiceInstanceDeployment \<Rightarrow> LolaServiceInstanceDeployment run" where
  "ParseLolaEventInstanceDeployment J json d = do {
     events_json \<leftarrow> find_member J json ''events'';
     (case events_json of
        None \<Rightarrow> Some d
      | Some it \<Rightarrow> do { es \<leftarrow> as_list J it; for_each (parse_event_deployment J) es d }) }"

definition parse_field_deployment ::
    "('j, 'm) json_api_scheme \<Rightarrow> 'j \<Rightarrow> LolaServiceInstanceDeployment \<Rightarrow> LolaServiceInstanceDeployment run" where
  "parse_field_deployment J field d = do {
     field_object \<leftarrow> as_object J field;
     let max_allocations = map_of field_object ''maxConcurrentAllocations'';
     error_if_found max_allocations;
     field_name_value \<leftarrow> Parser_GetName J (map_of field_object ''fieldName'');
     CheckContainsField field_name_value d;
     let f = default_event_deployment;
     f \<leftarrow> FillNumberOfSampleSlots J (map_of field_object ''numberOfSampleSlots'') f;
     f \<leftarrow> FillMaxSubscribers J (map_of field_object ''maxSubscribers'') f;
     f \<leftarrow> FillMaxConcurrentAllocations J max_allocations f;
     f \<leftarrow> FillEnforceMaxSamples J (map_of field_object ''enforceMaxSamples'') f;
     fs \<leftarrow> table_insert field_name_value f (instance_fields d);
     Some (d\<lparr>instance_fields := fs\<rparr>) }"

definition ParseLolaFieldInstanceDeployment ::
    "('j, 'm) json_api_scheme \<Rightarrow> 'j \<Rightarrow> LolaServiceInstanceDeployment \<Rightarrow> LolaServiceInstanceDeployment run" where
  "ParseLolaFieldInstanceDeployment J json d = do {
     fields_json \<leftarrow> find_member J json ''fields'';
     (case fields_json of
        None \<Rightarrow> Some d
      | Some it \<Rightarrow> do { fs \<leftarrow> as_list J it; for_each (parse_field_deployment J) fs d }) }"

text \<open>
  \<open>parse_element_tracing\<close> is the body of the loops of \<open>ParseEventTracingEnabled\<close> and
  \<open>ParseFieldTracingEnabled\<close>, which differ in the key of the name and in the type of the element.
\<close>

definition parse_element_tracing ::
    "('j, 'm) json_api_scheme \<Rightarrow> string \<Rightarrow> ServiceElementType \<Rightarrow> string \<Rightarrow> instance_specifier \<Rightarrow> 'j \<Rightarrow>
       TracingConfiguration \<Rightarrow> TracingConfiguration run" where
  "parse_element_tracing J name_key kind type_name port element t = do {
     element_object \<leftarrow> as_object J element;
     element_name \<leftarrow> map_of element_object name_key;
     element_name_value \<leftarrow> as_string J element_name;
     (case map_of element_object ''enableIpcTracing'' of
        None \<Rightarrow> Some t
      | Some enable_tracing \<Rightarrow> do {
          enable_tracing_value \<leftarrow> as_bool J enable_tracing;
          (if enable_tracing_value then
             SetServiceElementTracingEnabled (ServiceElementIdentifier type_name element_name_value kind) port t
           else Some t) }) }"

definition ParseEventTracingEnabled ::
    "('j, 'm) json_api_scheme \<Rightarrow> 'j \<Rightarrow> string \<Rightarrow> instance_specifier \<Rightarrow> TracingConfiguration \<Rightarrow> TracingConfiguration run" where
  "ParseEventTracingEnabled J json type_name port t = do {
     events_json \<leftarrow> find_member J json ''events'';
     (case events_json of
        None \<Rightarrow> Some t
      | Some it \<Rightarrow> do {
          es \<leftarrow> as_list J it;
          for_each (parse_element_tracing J ''eventName'' EVENT_SERVICE_ELEMENT type_name port) es t }) }"

definition ParseFieldTracingEnabled ::
    "('j, 'm) json_api_scheme \<Rightarrow> 'j \<Rightarrow> string \<Rightarrow> instance_specifier \<Rightarrow> TracingConfiguration \<Rightarrow> TracingConfiguration run" where
  "ParseFieldTracingEnabled J json type_name port t = do {
     fields_json \<leftarrow> find_member J json ''fields'';
     (case fields_json of
        None \<Rightarrow> Some t
      | Some it \<Rightarrow> do {
          fs \<leftarrow> as_list J it;
          for_each (parse_element_tracing J ''fieldName'' FIELD_SERVICE_ELEMENT type_name port) fs t }) }"

subsection \<open>Service instances\<close>

definition ParsePermissionChecks :: "('j, 'm) json_api_scheme \<Rightarrow> 'j \<Rightarrow> string run" where
  "ParsePermissionChecks J json = do {
     permission_checks \<leftarrow> find_member J json ''permission-checks'';
     (case permission_checks of
        None \<Rightarrow> Some ''file-permissions-on-empty''
      | Some it \<Rightarrow> do {
          perm_result \<leftarrow> as_string J it;
          amp_require (perm_result = ''file-permissions-on-empty'' \<or> perm_result = ''strict'');
          Some perm_result }) }"

definition ParseLolaServiceInstanceDeployment ::
    "('j, 'm) json_api_scheme \<Rightarrow> 'j \<Rightarrow> LolaServiceInstanceDeployment run" where
  "ParseLolaServiceInstanceDeployment J json = do {
     let d = default_lola_deployment;
     found_shm_size \<leftarrow> find_member J json ''shm-size'';
     d \<leftarrow> fill (as_uint64 J) (\<lambda>n d. d\<lparr>shared_memory_size := Some n\<rparr>) found_shm_size d;
     instance_id_json \<leftarrow> find_member J json ''instanceId'';
     d \<leftarrow> fill (as_uint16 J) (\<lambda>n d. d\<lparr>lola_instance_id := Some n\<rparr>) instance_id_json d;
     d \<leftarrow> ParseLolaEventInstanceDeployment J json d;
     d \<leftarrow> ParseLolaFieldInstanceDeployment J json d;
     permission \<leftarrow> ParsePermissionChecks J json;
     consumer \<leftarrow> ParseAllowedConsumer J json;
     provider \<leftarrow> ParseAllowedProvider J json;
     Some (d\<lparr>strict_permissions := (permission = ''strict''), allowed_consumer := consumer, allowed_provider := provider\<rparr>) }"

definition parse_instance_deployment ::
    "('j, 'm) json_api_scheme \<Rightarrow> ServiceIdentifierType \<Rightarrow> instance_specifier \<Rightarrow> 'j \<Rightarrow>
       ServiceInstanceDeployment list \<times> TracingConfiguration \<Rightarrow> (ServiceInstanceDeployment list \<times> TracingConfiguration) run" where
  "parse_instance_deployment J s port json = (\<lambda>(deployments, t). do {
     asil \<leftarrow> ParseAsilLevel J json;
     asil_level_value \<leftarrow> asil;
     amp_require (asil_level_value \<noteq> kInvalid);
     binding \<leftarrow> find_member J json ''binding'';
     it \<leftarrow> binding;
     bindingValue \<leftarrow> as_string J it;
     deployments \<leftarrow> (if bindingValue = ''SOME/IP'' then None
        else if bindingValue = ''SHM'' then do {
          d \<leftarrow> ParseLolaServiceInstanceDeployment J json;
          Some (deployments @ [\<lparr>service = s, bindingInfo = LolaBinding d, asil_level = asil_level_value, specifier = port\<rparr>]) }
        else None);
     (if tracing_enabled t then do {
        t \<leftarrow> ParseEventTracingEnabled J json (serviceTypeName s) port t;
        t \<leftarrow> ParseFieldTracingEnabled J json (serviceTypeName s) port t;
        Some (deployments, t) }
      else Some (deployments, t)) })"

definition ParseServiceInstanceDeployments ::
    "('j, 'm) json_api_scheme \<Rightarrow> 'j \<Rightarrow> ServiceIdentifierType \<Rightarrow> instance_specifier \<Rightarrow> TracingConfiguration \<Rightarrow>
       (ServiceInstanceDeployment list \<times> TracingConfiguration) run" where
  "ParseServiceInstanceDeployments J json s port t = do {
     deploymentInstances \<leftarrow> find_member J json ''instances'';
     it \<leftarrow> deploymentInstances;
     instances \<leftarrow> as_list J it;
     for_each (parse_instance_deployment J s port) instances ([], t) }"

type_synonym instance_table = "(instance_specifier, ServiceInstanceDeployment) table"

definition parse_service_instance ::
    "('j, 'm) json_api_scheme \<Rightarrow> 'j \<Rightarrow> instance_table \<times> TracingConfiguration \<Rightarrow> (instance_table \<times> TracingConfiguration) run" where
  "parse_service_instance J json = (\<lambda>(instances, t). do {
     port \<leftarrow> ParseInstanceSpecifier J json;
     s \<leftarrow> ParseServiceTypeIdentifier J json;
     (deployments, t) \<leftarrow> ParseServiceInstanceDeployments J json s port t;
     amp_require (length deployments = 1);
     instances \<leftarrow> table_insert port (deployments ! 0) instances;
     Some (instances, t) })"

definition ParseServiceInstances ::
    "('j, 'm) json_api_scheme \<Rightarrow> 'j \<Rightarrow> TracingConfiguration \<Rightarrow> (instance_table \<times> TracingConfiguration) run" where
  "ParseServiceInstances J json t = do {
     servicesInstances \<leftarrow> find_member J json ''serviceInstances'';
     it \<leftarrow> servicesInstances;
     xs \<leftarrow> as_list J it;
     for_each (parse_service_instance J) xs ([], t) }"

subsection \<open>Service types\<close>

text \<open>The ids are read with 16 bits and kept with the 8 bits of a \<open>LolaEventId\<close>.\<close>

definition parse_event_id :: "('j, 'm) json_api_scheme \<Rightarrow> 'j \<Rightarrow> LolaServiceTypeDeployment \<Rightarrow> LolaServiceTypeDeployment run" where
  "parse_event_id J event d = do {
     event_object \<leftarrow> as_object J event;
     (case (map_of event_object ''eventName'', map_of event_object ''eventId'') of
        (Some event_name, Some event_id) \<Rightarrow> do {
          event_name_value \<leftarrow> as_string J event_name;
          event_id_value \<leftarrow> as_uint16 J event_id;
          es \<leftarrow> table_insert event_name_value (ucast event_id_value) (type_events d);
          Some (d\<lparr>type_events := es\<rparr>) }
      | _ \<Rightarrow> None) }"

definition ParseLolaEventTypeDeployments ::
    "('j, 'm) json_api_scheme \<Rightarrow> 'j \<Rightarrow> LolaServiceTypeDeployment \<Rightarrow> (bool \<times> LolaServiceTypeDeployment) run" where
  "ParseLolaEventTypeDeployments J json d = do {
     events_json \<leftarrow> find_member J json ''events'';
     (case events_json of
        None \<Rightarrow> Some (False, d)
      | Some it \<Rightarrow> do {
          es \<leftarrow> as_list J it;
          d \<leftarrow> for_each (parse_event_id J) es d;
          Some (True, d) }) }"

definition parse_field_id :: "('j, 'm) json_api_scheme \<Rightarrow> 'j \<Rightarrow> LolaServiceTypeDeployment \<Rightarrow> LolaServiceTypeDeployment run" where
  "parse_field_id J field d = do {
     field_object \<leftarrow> as_object J field;
     (case (map_of field_object ''fieldName'', map_of field_object ''fieldId'') of
        (Some field_name, Some field_id) \<Rightarrow> do {
          field_name_value \<leftarrow> as_string J field_name;
          field_id_value \<leftarrow> as_uint16 J field_id;
          fs \<leftarrow> table_insert field_name_value (ucast field_id_value) (type_fields d);
          Some (d\<lparr>type_fields := fs\<rparr>) }
      | _ \<Rightarrow> None) }"

definition ParseLolaFieldTypeDeployments ::
    "('j, 'm) json_api_scheme \<Rightarrow> 'j \<Rightarrow> LolaServiceTypeDeployment \<Rightarrow> (bool \<times> LolaServiceTypeDeployment) run" where
  "ParseLolaFieldTypeDeployments J json d = do {
     fields_json \<leftarrow> find_member J json ''fields'';
     (case fields_json of
        None \<Rightarrow> Some (False, d)
      | Some it \<Rightarrow> do {
          fs \<leftarrow> as_list J it;
          d \<leftarrow> for_each (parse_field_id J) fs d;
          Some (True, d) }) }"

text \<open>Each id is inserted into a set; the first insertion that fails ends the loops.\<close>

primrec insert_ids :: "u8 list \<Rightarrow> u8 list \<Rightarrow> u8 list option" where
  "insert_ids [] ids = Some ids"
| "insert_ids (x # xs) ids = (if x \<in> set ids then None else insert_ids xs (x # ids))"

definition AreEventAndFieldIdsUnique :: "LolaServiceTypeDeployment \<Rightarrow> bool" where
  "AreEventAndFieldIdsUnique d =
     (case insert_ids (map snd (type_events d)) [] of
        None \<Rightarrow> False
      | Some ids \<Rightarrow> insert_ids (map snd (type_fields d)) ids \<noteq> None)"

definition ParseLoLaServiceTypeDeployments :: "('j, 'm) json_api_scheme \<Rightarrow> 'j \<Rightarrow> LolaServiceTypeDeployment run" where
  "ParseLoLaServiceTypeDeployments J json = do {
     service_id_json \<leftarrow> find_member J json ''serviceId'';
     it \<leftarrow> service_id_json;
     i \<leftarrow> as_uint16 J it;
     let lola = \<lparr>service_id = i, type_events = [], type_fields = []\<rparr>;
     (events_exist, lola) \<leftarrow> ParseLolaEventTypeDeployments J json lola;
     (fields_exist, lola) \<leftarrow> ParseLolaFieldTypeDeployments J json lola;
     amp_require (events_exist \<or> fields_exist);
     amp_require (AreEventAndFieldIdsUnique lola);
     Some lola }"

primrec ParseServiceTypeDeployment_loop :: "('j, 'm) json_api_scheme \<Rightarrow> 'j list \<Rightarrow> ServiceTypeDeployment run" where
  "ParseServiceTypeDeployment_loop J [] = Some BlankType"
| "ParseServiceTypeDeployment_loop J (binding # bindings) = do {
     binding_type \<leftarrow> find_member J binding ''binding'';
     it \<leftarrow> binding_type;
     binding_value \<leftarrow> as_string J it;
     (if binding_value = ''SHM'' then map_option LolaType (ParseLoLaServiceTypeDeployments J binding)
      else if binding_value = ''SOME/IP'' then ParseServiceTypeDeployment_loop J bindings
      else None) }"

definition ParseServiceTypeDeployment :: "('j, 'm) json_api_scheme \<Rightarrow> 'j \<Rightarrow> ServiceTypeDeployment run" where
  "ParseServiceTypeDeployment J json = do {
     bindings \<leftarrow> find_member J json ''bindings'';
     it \<leftarrow> bindings;
     xs \<leftarrow> as_list J it;
     ParseServiceTypeDeployment_loop J xs }"

type_synonym type_table = "(ServiceIdentifierType, ServiceTypeDeployment) table"

definition parse_service_type :: "('j, 'm) json_api_scheme \<Rightarrow> 'j \<Rightarrow> type_table \<Rightarrow> type_table run" where
  "parse_service_type J json types = do {
     s \<leftarrow> ParseServiceTypeIdentifier J json;
     d \<leftarrow> ParseServiceTypeDeployment J json;
     table_insert s d types }"

definition ParseServiceTypes :: "('j, 'm) json_api_scheme \<Rightarrow> 'j \<Rightarrow> type_table run" where
  "ParseServiceTypes J json = do {
     types_json \<leftarrow> find_member J json ''serviceTypes'';
     it \<leftarrow> types_json;
     xs \<leftarrow> as_list J it;
     for_each (parse_service_type J) xs [] }"

subsection \<open>Global and tracing properties\<close>

definition ParseReceiverQueueSize :: "('j, 'm) json_api_scheme \<Rightarrow> 'j \<Rightarrow> QualityType \<Rightarrow> int option run" where
  "ParseReceiverQueueSize J global_config quality_type = do {
     queue_size \<leftarrow> find_member J global_config ''queue-size'';
     (case queue_size of
        None \<Rightarrow> Some None
      | Some it \<Rightarrow> do {
          queue_type_str \<leftarrow> (case quality_type of
            kASIL_QM \<Rightarrow> Some ''QM-receiver'' | kASIL_B \<Rightarrow> Some ''B-receiver'' | kInvalid \<Rightarrow> None);
          asil_queue_size \<leftarrow> find_member J it queue_type_str;
          (case asil_queue_size of
             None \<Rightarrow> Some None
           | Some n \<Rightarrow> map_option Some (as_int32 J n)) }) }"

definition ParseSenderQueueSize :: "('j, 'm) json_api_scheme \<Rightarrow> 'j \<Rightarrow> int option run" where
  "ParseSenderQueueSize J global_config = do {
     queue_size \<leftarrow> find_member J global_config ''queue-size'';
     (case queue_size of
        None \<Rightarrow> Some None
      | Some it \<Rightarrow> do {
          asil_tx_queue_size \<leftarrow> find_member J it ''B-sender'';
          (case asil_tx_queue_size of
             None \<Rightarrow> Some None
           | Some n \<Rightarrow> map_option Some (as_int32 J n)) }) }"

definition ParseGlobalProperties :: "('j, 'm) json_api_scheme \<Rightarrow> 'j \<Rightarrow> GlobalConfiguration run" where
  "ParseGlobalProperties J json = do {
     let g = GlobalConfiguration_default;
     process_properties \<leftarrow> find_member J json ''global'';
     (case process_properties of
        None \<Rightarrow> Some (g\<lparr>process_asil_level := kASIL_QM\<rparr>)
      | Some properties \<Rightarrow> do {
          asil \<leftarrow> ParseAsilLevel J properties;
          g \<leftarrow> (case asil of
             None \<Rightarrow> Some (g\<lparr>process_asil_level := kASIL_QM\<rparr>)
           | Some kInvalid \<Rightarrow> None
           | Some q \<Rightarrow> Some (g\<lparr>process_asil_level := q\<rparr>));
          qm_rx_message_size \<leftarrow> ParseReceiverQueueSize J properties kASIL_QM;
          g \<leftarrow> (case qm_rx_message_size of None \<Rightarrow> Some g | Some n \<Rightarrow> SetReceiverMessageQueueSize kASIL_QM n g);
          b_rx_message_size \<leftarrow> ParseReceiverQueueSize J properties kASIL_B;
          g \<leftarrow> (case b_rx_message_size of None \<Rightarrow> Some g | Some n \<Rightarrow> SetReceiverMessageQueueSize kASIL_B n g);
          b_tx_message_size \<leftarrow> ParseSenderQueueSize J properties;
          g \<leftarrow> (case b_tx_message_size of None \<Rightarrow> Some g | Some n \<Rightarrow> Some (g\<lparr>message_tx_queue_size_b := n\<rparr>));
          mode \<leftarrow> ParseShmSizeCalcMode J properties;
          (case mode of None \<Rightarrow> Some g | Some m \<Rightarrow> Some (g\<lparr>shm_size_calc_mode := m\<rparr>)) }) }"

definition ParseTracingEnabled :: "('j, 'm) json_api_scheme \<Rightarrow> 'j \<Rightarrow> bool run" where
  "ParseTracingEnabled J tracing_config = do {
     enabled_json \<leftarrow> find_member J tracing_config ''enable'';
     (case enabled_json of None \<Rightarrow> Some False | Some it \<Rightarrow> as_bool J it) }"

definition ParseTracingApplicationInstanceId :: "('j, 'm) json_api_scheme \<Rightarrow> 'j \<Rightarrow> string run" where
  "ParseTracingApplicationInstanceId J tracing_config = do {
     id_json \<leftarrow> find_member J tracing_config ''applicationInstanceID'';
     it \<leftarrow> id_json;
     as_string J it }"

definition ParseTracingTraceFilterConfigPath :: "('j, 'm) json_api_scheme \<Rightarrow> 'j \<Rightarrow> string run" where
  "ParseTracingTraceFilterConfigPath J tracing_config = do {
     path_json \<leftarrow> find_member J tracing_config ''traceFilterConfigPath'';
     (case path_json of None \<Rightarrow> Some ''./etc/mw_com_trace_filter.json'' | Some it \<Rightarrow> as_string J it) }"

definition ParseTracingProperties :: "('j, 'm) json_api_scheme \<Rightarrow> 'j \<Rightarrow> TracingConfiguration run" where
  "ParseTracingProperties J json = do {
     let t = TracingConfiguration_default;
     tracing_properties \<leftarrow> find_member J json ''tracing'';
     (case tracing_properties of
        None \<Rightarrow> Some t
      | Some properties \<Rightarrow> do {
          enabled \<leftarrow> ParseTracingEnabled J properties;
          i \<leftarrow> ParseTracingApplicationInstanceId J properties;
          path \<leftarrow> ParseTracingTraceFilterConfigPath J properties;
          Some (t\<lparr>tracing_enabled := enabled, application_instance_id := i, trace_filter_config_path := path\<rparr>) }) }"

subsection \<open>Checks of the whole configuration\<close>

definition CrosscheckAsilLevels :: "Configuration \<Rightarrow> unit run" where
  "CrosscheckAsilLevels config =
     for_each (\<lambda>(port, d) _. amp_require (\<not> (asil_level d = kASIL_B \<and>
       process_asil_level (global_configuration config) \<noteq> kASIL_B))) (service_instances config) ()"

definition crosscheck_instance :: "Configuration \<Rightarrow> ServiceInstanceDeployment \<Rightarrow> unit run" where
  "crosscheck_instance config d = do {
     foundServiceType \<leftarrow> map_of (service_types config) (service d);
     serviceInstanceDeployment \<leftarrow> (case bindingInfo d of LolaBinding b \<Rightarrow> Some b | _ \<Rightarrow> None);
     serviceTypeDeployment \<leftarrow> (case foundServiceType of LolaType b \<Rightarrow> Some b | _ \<Rightarrow> None);
     _ \<leftarrow> for_each (\<lambda>(event_name, e) _. amp_require (map_of (type_events serviceTypeDeployment) event_name \<noteq> None))
       (instance_events serviceInstanceDeployment) ();
     for_each (\<lambda>(field_name, f) _. amp_require (map_of (type_fields serviceTypeDeployment) field_name \<noteq> None))
       (instance_fields serviceInstanceDeployment) () }"

definition CrosscheckServiceInstancesToTypes :: "Configuration \<Rightarrow> unit run" where
  "CrosscheckServiceInstancesToTypes config =
     for_each (\<lambda>(port, d) _. crosscheck_instance config d) (service_instances config) ()"

definition Parse :: "('j, 'm) json_api_scheme \<Rightarrow> 'j \<Rightarrow> Configuration run" where
  "Parse J json = do {
     t \<leftarrow> ParseTracingProperties J json;
     types \<leftarrow> ParseServiceTypes J json;
     (instances, t) \<leftarrow> ParseServiceInstances J json t;
     g \<leftarrow> ParseGlobalProperties J json;
     let config = \<lparr>service_types = types, service_instances = instances, global_configuration = g, tracing_configuration = t\<rparr>;
     CrosscheckAsilLevels config;
     CrosscheckServiceInstancesToTypes config;
     Some config }"

text \<open>\<open>FromFile\<close> of the JSON library is a parameter; \<open>None\<close> is its error.\<close>

definition Parse_file :: "('j, 'm) json_api_scheme \<Rightarrow> (string \<Rightarrow> 'j option) \<Rightarrow> string \<Rightarrow> Configuration run" where
  "Parse_file J FromFile path = do { json \<leftarrow> FromFile path; Parse J json }"

end
