(* ===== verification/Parsed_Configuration.thy ===== *)
theory Parsed_Configuration
  imports Configuration_Parser "HOL-Library.Multiset"
begin

text \<open>What holds of every configuration that the parser returns, and what it makes of the ids of a service type.\<close>

lemmas run_simps = bind_eq_Some_conv Let_def table_insert_Some contract_simps

definition type_ok :: "ServiceIdentifierType \<Rightarrow> ServiceTypeDeployment \<Rightarrow> bool" where
  "type_ok s t \<longleftrightarrow> c_str (serviceTypeName s) = serviceTypeName s \<and> type_deployment_ok t \<and>
     (case t of LolaType b \<Rightarrow> distinct (map snd (type_events b) @ map snd (type_fields b)) | BlankType \<Rightarrow> True)"

definition parsed_instance_ok :: "instance_specifier \<Rightarrow> ServiceInstanceDeployment \<Rightarrow> bool" where
  "parsed_instance_ok port d \<longleftrightarrow> specifier d = port \<and> asil_level d \<noteq> kInvalid \<and> instance_deployment_ok d \<and>
     GetBindingType d = kLoLa"

definition realises :: "type_table \<Rightarrow> ServiceInstanceDeployment \<Rightarrow> bool" where
  "realises types d \<longleftrightarrow>
     (case (bindingInfo d, map_of types (service d)) of
        (LolaBinding b, Some (LolaType t)) \<Rightarrow>
          fst ` set (instance_events b) \<subseteq> fst ` set (type_events t) \<and>
          fst ` set (instance_fields b) \<subseteq> fst ` set (type_fields t)
      | _ \<Rightarrow> False)"

definition configuration_ok :: "Configuration \<Rightarrow> bool" where
  "configuration_ok c \<longleftrightarrow>
     is_table (service_types c) \<and> is_table (service_instances c) \<and>
     process_asil_level (global_configuration c) \<noteq> kInvalid \<and>
     (\<forall>(s, t) \<in> set (service_types c). type_ok s t) \<and>
     (\<forall>(port, d) \<in> set (service_instances c). parsed_instance_ok port d \<and> realises (service_types c) d \<and>
        (asil_level d = kASIL_B \<longrightarrow> process_asil_level (global_configuration c) = kASIL_B))"

lemma c_str_idem: "c_str (c_str s) = c_str s"
  by (simp add: c_str_def)

subsection \<open>Instances\<close>

lemma parse_event_deployment_outcome:
  "parse_event_deployment J event d = Some d' \<Longrightarrow>
     \<exists>n e. map_of (instance_events d) n = None \<and> d' = d\<lparr>instance_events := table_put n e (instance_events d)\<rparr>"
  unfolding parse_event_deployment_def by (auto simp: run_simps)

lemma parse_field_deployment_outcome:
  "parse_field_deployment J field d = Some d' \<Longrightarrow>
     \<exists>n e. map_of (instance_fields d) n = None \<and> d' = d\<lparr>instance_fields := table_put n e (instance_fields d)\<rparr>"
  unfolding parse_field_deployment_def by (auto simp: run_simps)

lemma parse_events_ok:
  assumes "ParseLolaEventInstanceDeployment J json d = Some d'" "lola_deployment_ok d"
  shows "lola_deployment_ok d'"
proof -
  have "lola_deployment_ok d'" if "for_each (parse_event_deployment J) es d = Some d'" for es
    using that assms(2)
    by (rule for_each_invariant) (auto simp: lola_deployment_ok_def dest: parse_event_deployment_outcome)
  with assms show ?thesis
    unfolding ParseLolaEventInstanceDeployment_def by (auto simp: run_simps split: option.splits)
qed

lemma parse_fields_ok:
  assumes "ParseLolaFieldInstanceDeployment J json d = Some d'" "lola_deployment_ok d"
  shows "lola_deployment_ok d'"
proof -
  have "lola_deployment_ok d'" if "for_each (parse_field_deployment J) fs d = Some d'" for fs
    using that assms(2)
    by (rule for_each_invariant) (auto simp: lola_deployment_ok_def dest: parse_field_deployment_outcome)
  with assms show ?thesis
    unfolding ParseLolaFieldInstanceDeployment_def by (auto simp: run_simps split: option.splits)
qed

lemma ParseAllowedUser_table:
  assumes "ParseAllowedUser J json key = Some m"
  shows "is_table m"
proof -
  let ?body = "\<lambda>(user, ids_json) user_map. do {
              ids \<leftarrow> as_list J ids_json;
              user_ids \<leftarrow> those (map (as_uint32 J) ids);
              (if user = ''QM'' then Some (table_put kASIL_QM user_ids user_map)
               else if user = ''B'' then Some (table_put kASIL_B user_ids user_map)
               else None) }"
  have "is_table m" if "for_each ?body users [] = Some m" for users
    using that is_table_Nil
    by (rule for_each_invariant) (auto simp: run_simps split: if_splits)
  with assms show ?thesis
    unfolding ParseAllowedUser_def by (auto simp: run_simps split: option.splits)
qed

lemma fill_keeps: "fill as set_member j d = Some d' \<Longrightarrow> P d \<Longrightarrow> (\<And>x. P d \<Longrightarrow> P (set_member x d)) \<Longrightarrow> P d'"
  by (auto simp: fill_def bind_eq_Some_conv split: option.splits)

lemma default_lola_deployment_ok: "lola_deployment_ok default_lola_deployment"
  by (simp add: lola_deployment_ok_def default_lola_deployment_def)

lemma ParseLolaServiceInstanceDeployment_ok:
  assumes "ParseLolaServiceInstanceDeployment J json = Some d"
  shows "lola_deployment_ok d"
proof -
  obtain shm d' i d0 d1 d2 permission consumer provider where
    members: "fill (as_uint64 J) (\<lambda>n d. d\<lparr>shared_memory_size := Some n\<rparr>) shm default_lola_deployment = Some d'"
      "fill (as_uint16 J) (\<lambda>n d. d\<lparr>lola_instance_id := Some n\<rparr>) i d' = Some d0" and
    d1: "ParseLolaEventInstanceDeployment J json d0 = Some d1" and
    d2: "ParseLolaFieldInstanceDeployment J json d1 = Some d2" and
    users: "ParseAllowedConsumer J json = Some consumer" "ParseAllowedProvider J json = Some provider" and
    d: "Some (d2\<lparr>strict_permissions := (permission = ''strict''), allowed_consumer := consumer, allowed_provider := provider\<rparr>) = Some d"
    using assms unfolding ParseLolaServiceInstanceDeployment_def Let_def bind_eq_Some_conv by blast
  have "lola_deployment_ok d'"
    by (rule fill_keeps [where P = lola_deployment_ok, OF members(1)])
      (use default_lola_deployment_ok in \<open>simp_all add: lola_deployment_ok_def\<close>)
  then have d0: "lola_deployment_ok d0"
    by (rule fill_keeps [where P = lola_deployment_ok, OF members(2)]) (simp add: lola_deployment_ok_def)
  have "lola_deployment_ok d2" by (rule parse_fields_ok [OF d2 parse_events_ok [OF d1 d0]])
  then show ?thesis
    using users d ParseAllowedUser_table unfolding ParseAllowedConsumer_def ParseAllowedProvider_def
    by (auto simp: lola_deployment_ok_def)
qed

lemma InstanceSpecifier_Create_valid: "value_of (InstanceSpecifier_Create s) = Some port \<Longrightarrow> IsShortNameValid port"
  by (auto simp: value_of_def InstanceSpecifier_Create_def split: if_splits)

lemma ParseInstanceSpecifier_valid: "ParseInstanceSpecifier J json = Some port \<Longrightarrow> IsShortNameValid port"
  unfolding ParseInstanceSpecifier_def by (auto simp: bind_eq_Some_conv dest: InstanceSpecifier_Create_valid)

lemma ParseServiceTypeIdentifier_name:
  "ParseServiceTypeIdentifier J json = Some s \<Longrightarrow> c_str (serviceTypeName s) = serviceTypeName s"
  unfolding ParseServiceTypeIdentifier_def
  by (auto simp: bind_eq_Some_conv make_ServiceIdentifierType_def c_str_idem)

lemma parse_instance_deployment_ok:
  assumes body: "parse_instance_deployment J s port json (ds, t) = Some (ds', t')"
    and port: "IsShortNameValid port" and s: "c_str (serviceTypeName s) = serviceTypeName s"
    and ds: "\<forall>d \<in> set ds. parsed_instance_ok port d"
  shows "\<forall>d \<in> set ds'. parsed_instance_ok port d"
proof -
  obtain q b where "q \<noteq> kInvalid" "ParseLolaServiceInstanceDeployment J json = Some b"
    "ds' = ds @ [\<lparr>service = s, bindingInfo = LolaBinding b, asil_level = q, specifier = port\<rparr>]"
    using body unfolding parse_instance_deployment_def by (auto simp: run_simps split: if_splits)
  with ds port s show ?thesis
    using ParseLolaServiceInstanceDeployment_ok [of J json b]
    by (auto simp: parsed_instance_ok_def instance_deployment_ok_def binding_ok_def GetBindingType_def)
qed

lemma ParseServiceInstanceDeployments_ok:
  assumes "ParseServiceInstanceDeployments J json s port t = Some (ds, t')"
    and port: "IsShortNameValid port" and s: "c_str (serviceTypeName s) = serviceTypeName s"
  shows "\<forall>d \<in> set ds. parsed_instance_ok port d"
proof -
  obtain instances where loop: "for_each (parse_instance_deployment J s port) instances ([], t) = Some (ds, t')"
    using assms(1) unfolding ParseServiceInstanceDeployments_def by (auto simp: bind_eq_Some_conv)
  have "\<forall>d \<in> set (fst (ds, t')). parsed_instance_ok port d"
  proof (rule for_each_invariant [OF loop])
    show "\<forall>d \<in> set (fst ([], t)). parsed_instance_ok port d" by simp
  next
    fix x and st st' :: "ServiceInstanceDeployment list \<times> TracingConfiguration"
    assume "\<forall>d \<in> set (fst st). parsed_instance_ok port d" "parse_instance_deployment J s port x st = Some st'"
    then show "\<forall>d \<in> set (fst st'). parsed_instance_ok port d"
      using parse_instance_deployment_ok [OF _ port s, of J x "fst st" "snd st" "fst st'" "snd st'"] by simp
  qed
  then show ?thesis by simp
qed

definition instances_ok :: "instance_table \<Rightarrow> bool" where
  "instances_ok instances \<longleftrightarrow> is_table instances \<and> (\<forall>(port, d) \<in> set instances. parsed_instance_ok port d)"

lemma set_table_put_subset: "set (table_put k v t) \<subseteq> insert (k, v) (set t)"
  by (induction k v t rule: table_put.induct) auto

lemma parse_service_instance_ok:
  assumes "parse_service_instance J json (instances, t) = Some (instances', t')" "instances_ok instances"
  shows "instances_ok instances'"
proof -
  obtain port s ds where parsed: "ParseInstanceSpecifier J json = Some port" "ParseServiceTypeIdentifier J json = Some s"
      "ParseServiceInstanceDeployments J json s port t = Some (ds, t')" "length ds = 1"
    and put: "instances' = table_put port (ds ! 0) instances"
    using assms(1) unfolding parse_service_instance_def by (auto simp: run_simps split: if_splits)
  have "parsed_instance_ok port (ds ! 0)"
    using ParseServiceInstanceDeployments_ok [OF parsed(3)] ParseInstanceSpecifier_valid [OF parsed(1)]
      ParseServiceTypeIdentifier_name [OF parsed(2)] parsed(4) by (metis nth_mem less_numeral_extra(1))
  with assms(2) show ?thesis
    using set_table_put_subset [of port "ds ! 0" instances] unfolding instances_ok_def put by auto
qed

lemma ParseServiceInstances_ok:
  assumes "ParseServiceInstances J json t = Some (instances, t')"
  shows "instances_ok instances"
proof -
  obtain xs where loop: "for_each (parse_service_instance J) xs ([], t) = Some (instances, t')"
    using assms unfolding ParseServiceInstances_def by (auto simp: bind_eq_Some_conv)
  have "instances_ok (fst (instances, t'))"
  proof (rule for_each_invariant [OF loop])
    show "instances_ok (fst ([], t))" by (simp add: instances_ok_def)
  next
    fix x and st st' :: "instance_table \<times> TracingConfiguration"
    assume "instances_ok (fst st)" "parse_service_instance J x st = Some st'"
    then show "instances_ok (fst st')"
      using parse_service_instance_ok [of J x "fst st" "snd st" "fst st'" "snd st'"] by simp
  qed
  then show ?thesis by simp
qed

subsection \<open>Types\<close>

lemma insert_ids_Some:
  "insert_ids xs ids = Some ids' \<Longrightarrow> ids' = rev xs @ ids \<and> distinct xs \<and> set xs \<inter> set ids = {}"
proof (induction xs arbitrary: ids)
  case (Cons x xs)
  then have "x \<notin> set ids" "insert_ids xs (x # ids) = Some ids'" by (auto split: if_splits)
  with Cons.IH [of "x # ids"] show ?case by auto
qed simp

lemma AreEventAndFieldIdsUnique_distinct:
  assumes "AreEventAndFieldIdsUnique d"
  shows "distinct (map snd (type_events d) @ map snd (type_fields d))"
proof -
  obtain ids ids' where "insert_ids (map snd (type_events d)) [] = Some ids"
    "insert_ids (map snd (type_fields d)) ids = Some ids'"
    using assms unfolding AreEventAndFieldIdsUnique_def by (auto split: option.splits)
  then have "ids = rev (map snd (type_events d))" "distinct (map snd (type_events d))"
    "distinct (map snd (type_fields d))" "set (map snd (type_fields d)) \<inter> set ids = {}"
    using insert_ids_Some by (metis append_Nil2)+
  then show ?thesis unfolding distinct_append by (metis inf_commute set_rev)
qed

definition type_tables :: "LolaServiceTypeDeployment \<Rightarrow> bool" where
  "type_tables d \<longleftrightarrow> is_table (type_events d) \<and> is_table (type_fields d)"

lemma parse_event_id_tables:
  assumes "parse_event_id J json d = Some d'" "type_tables d"
  shows "type_tables d'"
proof -
  obtain object where "as_object J json = Some object" using assms unfolding parse_event_id_def by (auto simp: bind_eq_Some_conv)
  with assms show ?thesis
    unfolding parse_event_id_def
    by (cases "map_of object ''eventName''"; cases "map_of object ''eventId''") (auto simp: run_simps type_tables_def)
qed

lemma parse_field_id_tables:
  assumes "parse_field_id J json d = Some d'" "type_tables d"
  shows "type_tables d'"
proof -
  obtain object where "as_object J json = Some object" using assms unfolding parse_field_id_def by (auto simp: bind_eq_Some_conv)
  with assms show ?thesis
    unfolding parse_field_id_def
    by (cases "map_of object ''fieldName''"; cases "map_of object ''fieldId''") (auto simp: run_simps type_tables_def)
qed

lemma for_each_tables:
  "for_each (parse_event_id J) es d = Some d' \<Longrightarrow> type_tables d \<Longrightarrow> type_tables d'"
  "for_each (parse_field_id J) es d = Some d' \<Longrightarrow> type_tables d \<Longrightarrow> type_tables d'"
  by (rule for_each_invariant [of "parse_event_id J" es d], assumption+, rule parse_event_id_tables, assumption+)
    (rule for_each_invariant [of "parse_field_id J" es d], assumption+, rule parse_field_id_tables, assumption+)

lemma ParseLolaEventTypeDeployments_tables:
  "ParseLolaEventTypeDeployments J json d = Some (b, d') \<Longrightarrow> type_tables d \<Longrightarrow> type_tables d'"
  unfolding ParseLolaEventTypeDeployments_def
  by (auto simp: bind_eq_Some_conv split: option.splits dest: for_each_tables(1))

lemma ParseLolaFieldTypeDeployments_tables:
  "ParseLolaFieldTypeDeployments J json d = Some (b, d') \<Longrightarrow> type_tables d \<Longrightarrow> type_tables d'"
  unfolding ParseLolaFieldTypeDeployments_def
  by (auto simp: bind_eq_Some_conv split: option.splits dest: for_each_tables(2))

lemma ParseLoLaServiceTypeDeployments_ok:
  assumes "ParseLoLaServiceTypeDeployments J json = Some d"
  shows "type_tables d \<and> distinct (map snd (type_events d) @ map snd (type_fields d))"
proof -
  obtain i b d1 b' where "ParseLolaEventTypeDeployments J json \<lparr>service_id = i, type_events = [], type_fields = []\<rparr> = Some (b, d1)"
    "ParseLolaFieldTypeDeployments J json d1 = Some (b', d)" "AreEventAndFieldIdsUnique d"
    using assms unfolding ParseLoLaServiceTypeDeployments_def by (auto simp: run_simps split: if_splits)
  then show ?thesis
    using ParseLolaEventTypeDeployments_tables ParseLolaFieldTypeDeployments_tables AreEventAndFieldIdsUnique_distinct
    by (metis type_tables_def is_table_Nil LolaServiceTypeDeployment.select_convs(2,3))
qed

lemma ParseServiceTypeDeployment_ok:
  assumes "ParseServiceTypeDeployment J json = Some t" and s: "c_str (serviceTypeName s) = serviceTypeName s"
  shows "type_ok s t"
proof -
  have "type_ok s t" if "ParseServiceTypeDeployment_loop J bs = Some t" for bs
    using that
  proof (induction bs)
    case Nil
    with s show ?case by (auto simp: type_ok_def type_deployment_ok_def)
  next
    case (Cons b bs)
    with s show ?case
      using ParseLoLaServiceTypeDeployments_ok
      by (fastforce simp: run_simps type_ok_def type_deployment_ok_def type_tables_def split: if_splits)
  qed
  with assms show ?thesis unfolding ParseServiceTypeDeployment_def by (auto simp: bind_eq_Some_conv)
qed

definition types_ok :: "type_table \<Rightarrow> bool" where
  "types_ok types \<longleftrightarrow> is_table types \<and> (\<forall>(s, t) \<in> set types. type_ok s t)"

lemma ParseServiceTypes_ok:
  assumes "ParseServiceTypes J json = Some types"
  shows "types_ok types"
proof -
  obtain xs where loop: "for_each (parse_service_type J) xs [] = Some types"
    using assms unfolding ParseServiceTypes_def by (auto simp: bind_eq_Some_conv)
  show ?thesis
  proof (rule for_each_invariant [OF loop])
    show "types_ok []" by (simp add: types_ok_def)
  next
    fix x ts ts'
    assume ts: "types_ok ts" and "parse_service_type J x ts = Some ts'"
    then obtain s t where "ParseServiceTypeIdentifier J x = Some s" "ParseServiceTypeDeployment J x = Some t"
      "ts' = table_put s t ts"
      unfolding parse_service_type_def by (auto simp: run_simps)
    with ts show "types_ok ts'"
      using ParseServiceTypeDeployment_ok ParseServiceTypeIdentifier_name set_table_put_subset [of s t ts]
      unfolding types_ok_def by fastforce
  qed
qed

subsection \<open>The whole configuration\<close>

lemma for_each_unit: "for_each (\<lambda>x _. f x) xs () = Some u \<longleftrightarrow> (\<forall>x \<in> set xs. f x = Some ())"
  by (induction xs) (auto simp: bind_eq_Some_conv)

lemma CrosscheckAsilLevels_iff:
  "CrosscheckAsilLevels c = Some u \<longleftrightarrow>
     (\<forall>(port, d) \<in> set (service_instances c). asil_level d = kASIL_B \<longrightarrow>
        process_asil_level (global_configuration c) = kASIL_B)"
  using for_each_unit [of "\<lambda>(port, d). amp_require (\<not> (asil_level d = kASIL_B \<and>
       process_asil_level (global_configuration c) \<noteq> kASIL_B))" "service_instances c"]
  unfolding CrosscheckAsilLevels_def by (simp add: case_prod_unfold)

lemma names_known:
  "for_each (\<lambda>(name, e) _. amp_require (map_of t name \<noteq> None)) xs () = Some u \<longleftrightarrow> fst ` set xs \<subseteq> fst ` set t"
  using for_each_unit [of "\<lambda>(name, e). amp_require (map_of t name \<noteq> None)" xs]
  by (auto simp: case_prod_unfold map_of_eq_None_iff)

lemma crosscheck_instance_iff: "crosscheck_instance c d = Some u \<longleftrightarrow> realises (service_types c) d"
proof (cases "map_of (service_types c) (service d)")
  case None
  then show ?thesis by (simp add: crosscheck_instance_def realises_def split: BindingInformation.splits)
next
  case (Some t)
  then show ?thesis
    unfolding crosscheck_instance_def realises_def
    by (cases "bindingInfo d"; cases t) (simp_all add: bind_eq_Some_conv names_known del: not_None_eq)
qed

lemma CrosscheckServiceInstancesToTypes_iff:
  "CrosscheckServiceInstancesToTypes c = Some u \<longleftrightarrow>
     (\<forall>(port, d) \<in> set (service_instances c). realises (service_types c) d)"
  using for_each_unit [of "\<lambda>(port, d). crosscheck_instance c d" "service_instances c"]
  unfolding CrosscheckServiceInstancesToTypes_def by (simp add: case_prod_unfold crosscheck_instance_iff)

lemma SetReceiverMessageQueueSize_quality:
  "(case n of None \<Rightarrow> Some g | Some n \<Rightarrow> SetReceiverMessageQueueSize q n g) = Some g' \<Longrightarrow>
     process_asil_level g' = process_asil_level g"
  by (cases q) (auto simp: SetReceiverMessageQueueSize_def split: option.splits)

lemma ParseGlobalProperties_quality:
  assumes "ParseGlobalProperties J json = Some g"
  shows "process_asil_level g \<noteq> kInvalid"
proof -
  let ?default = "GlobalConfiguration_default"
  obtain properties where found: "find_member J json ''global'' = Some properties"
    using assms unfolding ParseGlobalProperties_def Let_def by (auto simp: bind_eq_Some_conv)
  show ?thesis
  proof (cases properties)
    case None
    with assms found show ?thesis unfolding ParseGlobalProperties_def Let_def by auto
  next
    case (Some p)
    obtain asil g1 qm g2 b g3 tx g4 mode where
      g1: "(case asil of None \<Rightarrow> Some (?default\<lparr>process_asil_level := kASIL_QM\<rparr>) | Some kInvalid \<Rightarrow> None
            | Some q \<Rightarrow> Some (?default\<lparr>process_asil_level := q\<rparr>)) = Some g1" and
      g2: "(case qm of None \<Rightarrow> Some g1 | Some n \<Rightarrow> SetReceiverMessageQueueSize kASIL_QM n g1) = Some g2" and
      g3: "(case b of None \<Rightarrow> Some g2 | Some n \<Rightarrow> SetReceiverMessageQueueSize kASIL_B n g2) = Some g3" and
      g4: "(case tx of None \<Rightarrow> Some g3 | Some n \<Rightarrow> Some (g3\<lparr>message_tx_queue_size_b := n\<rparr>)) = Some g4" and
      g: "(case mode of None \<Rightarrow> Some g4 | Some m \<Rightarrow> Some (g4\<lparr>shm_size_calc_mode := m\<rparr>)) = Some g"
      using assms unfolding ParseGlobalProperties_def Let_def found Some by (simp add: bind_eq_Some_conv) blast
    have "process_asil_level g1 \<noteq> kInvalid" using g1 by (auto split: option.split_asm QualityType.split_asm)
    with SetReceiverMessageQueueSize_quality [OF g2] SetReceiverMessageQueueSize_quality [OF g3] g4 g
    show ?thesis by (auto split: option.split_asm)
  qed
qed

text \<open>
  Property C38: what a parsed configuration is. Whatever the JSON value, a configuration that \<open>Parse\<close>
  returns is consistent: the process has a quality, every service type has ids that are unique among
  its events and fields, and every service instance is kept under its valid instance specifier, is of
  the shared memory binding, has a quality that the process has, too, when it is ASIL B, and refers to
  a configured service type that has all its events and fields. So every configured instance can be
  sent to another process.
\<close>

theorem parsed_configuration_is_consistent:
  assumes "Parse J json = Some c"
  shows "configuration_ok c"
proof -
  obtain t0 types instances t g where
    parsed: "ParseServiceTypes J json = Some types" "ParseServiceInstances J json t0 = Some (instances, t)"
      "ParseGlobalProperties J json = Some g" and
    c: "c = \<lparr>service_types = types, service_instances = instances, global_configuration = g, tracing_configuration = t\<rparr>" and
    checks: "CrosscheckAsilLevels c = Some ()" "CrosscheckServiceInstancesToTypes c = Some ()"
    using assms unfolding Parse_def by (auto simp: bind_eq_Some_conv Let_def)
  have "types_ok types" by (rule ParseServiceTypes_ok [OF parsed(1)])
  moreover have "instances_ok instances" by (rule ParseServiceInstances_ok [OF parsed(2)])
  ultimately show ?thesis
    using checks ParseGlobalProperties_quality [OF parsed(3)]
    unfolding configuration_ok_def types_ok_def instances_ok_def CrosscheckAsilLevels_iff
      CrosscheckServiceInstancesToTypes_iff c
    by (auto simp: case_prod_unfold)
qed

definition example_configuration :: json where
  "example_configuration = JObject (table_of
     [(''serviceTypes'', JList [JObject (table_of
        [(''serviceTypeName'', JString ''/score/Camera''),
         (''version'', JObject (table_of [(''major'', JNumber 1), (''minor'', JNumber 2)])),
         (''bindings'', JList [JObject (table_of
            [(''binding'', JString ''SHM''), (''serviceId'', JNumber 4660),
             (''events'', JList [JObject (table_of [(''eventName'', JString ''frame''), (''eventId'', JNumber 20)])]),
             (''fields'', JList [JObject (table_of [(''fieldName'', JString ''rate''), (''fieldId'', JNumber 30)])])])])])]),
      (''serviceInstances'', JList [JObject (table_of
        [(''instanceSpecifier'', JString ''/app/camera''), (''serviceTypeName'', JString ''/score/Camera''),
         (''version'', JObject (table_of [(''major'', JNumber 1), (''minor'', JNumber 2)])),
         (''instances'', JList [JObject (table_of
            [(''instanceId'', JNumber 7), (''asil-level'', JString ''B''), (''binding'', JString ''SHM''),
             (''events'', JList [JObject (table_of
               [(''eventName'', JString ''frame''), (''numberOfSampleSlots'', JNumber 5),
                (''enableIpcTracing'', JBool True)])]),
             (''allowedConsumer'', JObject (table_of [(''QM'', JList [JNumber 1000])]))])])])]),
      (''global'', JObject (table_of [(''asil-level'', JString ''B'')])),
      (''tracing'', JObject (table_of [(''enable'', JBool True), (''applicationInstanceID'', JString ''app'')]))])"

lemma example_configuration_parses: "Parse json_values example_configuration \<noteq> None"
  by code_simp

theorem parsed_configuration_is_consistent_witness:
  "configuration_ok (the (Parse json_values example_configuration))"
  by (rule parsed_configuration_is_consistent) (use example_configuration_parses in simp)

definition shm_type :: "(string \<times> int) list \<Rightarrow> json" where
  "shm_type ids = JObject (table_of
     [(''binding'', JString ''SHM''), (''serviceId'', JNumber 4660),
      (''events'', JList (map (\<lambda>(name, i). JObject (table_of [(''eventName'', JString name), (''eventId'', JNumber i)])) ids))])"

subsection \<open>The ids of a service type\<close>

text \<open>
  What a service type lists, read off its JSON value: the names and 16 bit ids of its events or fields,
  none where it has no such member, \<open>None\<close> where anything has the wrong shape.
\<close>

definition named_id :: "('j, 'm) json_api_scheme \<Rightarrow> string \<Rightarrow> string \<Rightarrow> 'j \<Rightarrow> (string \<times> u16) option" where
  "named_id J name_key id_key e = do {
     members \<leftarrow> as_object J e;
     name \<leftarrow> map_of members name_key \<bind> as_string J;
     number \<leftarrow> map_of members id_key \<bind> as_uint16 J;
     Some (name, number) }"

definition listed_ids :: "('j, 'm) json_api_scheme \<Rightarrow> 'j \<Rightarrow> string \<Rightarrow> string \<Rightarrow> string \<Rightarrow> (string \<times> u16) list option" where
  "listed_ids J json key name_key id_key =
     find_member J json key \<bind> (\<lambda>m. case m of None \<Rightarrow> Some [] |
       Some it \<Rightarrow> as_list J it \<bind> (\<lambda>es. those (map (named_id J name_key id_key) es)))"

definition cut_id :: "string \<times> u16 \<Rightarrow> string \<times> u8" where
  "cut_id = (\<lambda>(name, number). (name, of_nat (unat number mod 256)))"

definition ids_fit :: "(string \<times> u16) list \<Rightarrow> (string \<times> u16) list \<Rightarrow> bool" where
  "ids_fit evs fls \<longleftrightarrow> distinct (map fst evs) \<and> distinct (map fst fls) \<and>
     distinct (map (\<lambda>(_, number). unat number mod 256) (evs @ fls))"

lemma cut_id_ucast: "cut_id (name, number) = (name, ucast number)"
proof -
  have "unsigned number mod 2 ^ 8 = (unat number mod 256)" by simp
  then have "unat (of_nat (unat number mod 256) :: u8) = unat (ucast number :: u8)"
    by (simp add: unat_of_nat unsigned_ucast_eq take_bit_eq_mod)
  then show ?thesis unfolding cut_id_def by (simp add: word_unat_eq_iff)
qed

definition put_id :: "string \<times> u16 \<Rightarrow> (string, u8) table \<Rightarrow> (string, u8) table" where
  "put_id x = table_put (fst (cut_id x)) (snd (cut_id x))"

lemma names_put_id: "fst ` set (put_id x t) = insert (fst x) (fst ` set t)"
  by (simp add: put_id_def set_table_put cut_id_def case_prod_unfold)

lemma table_insert_if: "table_insert k v t = (if k \<in> fst ` set t then None else Some (table_put k v t))"
proof (cases "map_of t k")
  case None
  then show ?thesis using map_of_eq_None_iff [of t k] by (simp add: table_insert_def)
next
  case (Some x)
  then have "k \<in> fst ` set t" using map_of_eq_None_iff [of t k] by simp
  with Some show ?thesis by (simp add: table_insert_def)
qed

lemma parse_event_id_named:
  "parse_event_id J e d = named_id J ''eventName'' ''eventId'' e \<bind>
     (\<lambda>x. if fst x \<in> fst ` set (type_events d) then None else Some (d\<lparr>type_events := put_id x (type_events d)\<rparr>))"
  unfolding parse_event_id_def named_id_def put_id_def table_insert_if
  by (simp add: cut_id_ucast split: option.split Option.bind_split)

lemma parse_field_id_named:
  "parse_field_id J e d = named_id J ''fieldName'' ''fieldId'' e \<bind>
     (\<lambda>x. if fst x \<in> fst ` set (type_fields d) then None else Some (d\<lparr>type_fields := put_id x (type_fields d)\<rparr>))"
  unfolding parse_field_id_def named_id_def put_id_def table_insert_if
  by (simp add: cut_id_ucast split: option.split Option.bind_split)

definition new_names :: "(string \<times> u16) list \<Rightarrow> (string, u8) table \<Rightarrow> bool" where
  "new_names xs t \<longleftrightarrow> distinct (map fst xs) \<and> fst ` set xs \<inter> fst ` set t = {}"

lemma new_names_Cons: "new_names (x # xs) t \<longleftrightarrow> fst x \<notin> fst ` set t \<and> new_names xs (put_id x t)"
  unfolding new_names_def names_put_id by auto

lemma for_each_event_ids:
  "for_each (parse_event_id J) es d = those (map (named_id J ''eventName'' ''eventId'') es) \<bind>
     (\<lambda>xs. if new_names xs (type_events d) then Some (d\<lparr>type_events := fold put_id xs (type_events d)\<rparr>) else None)"
proof (induction es arbitrary: d)
  case (Cons e es)
  then show ?case
    by (cases "named_id J ''eventName'' ''eventId'' e"; cases "those (map (named_id J ''eventName'' ''eventId'') es)")
      (simp_all add: parse_event_id_named new_names_Cons)
qed (simp add: new_names_def)

lemma for_each_field_ids:
  "for_each (parse_field_id J) es d = those (map (named_id J ''fieldName'' ''fieldId'') es) \<bind>
     (\<lambda>xs. if new_names xs (type_fields d) then Some (d\<lparr>type_fields := fold put_id xs (type_fields d)\<rparr>) else None)"
proof (induction es arbitrary: d)
  case (Cons e es)
  then show ?case
    by (cases "named_id J ''fieldName'' ''fieldId'' e"; cases "those (map (named_id J ''fieldName'' ''fieldId'') es)")
      (simp_all add: parse_field_id_named new_names_Cons)
qed (simp add: new_names_def)

text \<open>The loops start with an empty table, and what they fill is the table of the entries.\<close>

lemma fold_put_id:
  "fold put_id xs [] = table_of (rev (map cut_id xs))"
proof -
  have "foldr (\<lambda>(k, v). table_put k v) (rev (map cut_id xs)) [] = fold put_id xs []"
    by (simp add: foldr_conv_fold fold_map comp_def put_id_def [abs_def] case_prod_unfold)
  then show ?thesis by (simp add: table_of_def)
qed

lemma names_cut_id: "map fst (map cut_id xs) = map fst xs"
  by (simp add: cut_id_def case_prod_unfold)

lemma table_of_rev: "distinct (map fst kvs) \<Longrightarrow> table_of (rev kvs) = table_of kvs"
  by (rule table_of_set) (simp_all add: set_table_of rev_map [symmetric])

lemma table_of_cut_ids: "distinct (map fst xs) \<Longrightarrow> table_of (rev (map cut_id xs)) = table_of (map cut_id xs)"
  by (rule table_of_rev) (simp only: names_cut_id)

lemma ids_of_table: "distinct (map fst kvs) \<Longrightarrow> mset (map snd (table_of kvs)) = mset (map snd kvs)"
  using set_table_of [of kvs] is_table_distinct [OF is_table_table_of [of kvs]]
  by (metis distinct_map mset_map set_eq_iff_mset_eq_distinct)

lemma insert_ids_iff: "insert_ids xs ids \<noteq> None \<longleftrightarrow> distinct xs \<and> set xs \<inter> set ids = {}"
  by (induction xs arbitrary: ids) auto

lemma AreEventAndFieldIdsUnique_iff:
  "AreEventAndFieldIdsUnique d \<longleftrightarrow> distinct (map snd (type_events d) @ map snd (type_fields d))"
proof
  assume unique: "distinct (map snd (type_events d) @ map snd (type_fields d))"
  then have "insert_ids (map snd (type_events d)) [] \<noteq> None" unfolding insert_ids_iff by simp
  then obtain ids where ids: "insert_ids (map snd (type_events d)) [] = Some ids" by blast
  then show "AreEventAndFieldIdsUnique d"
    using unique insert_ids_Some [OF ids] insert_ids_iff [of "map snd (type_fields d)" ids]
    unfolding AreEventAndFieldIdsUnique_def by auto
qed (rule AreEventAndFieldIdsUnique_distinct)

lemma cut_id_eq: "snd (cut_id x) = snd (cut_id y) \<longleftrightarrow> unat (snd x) mod 256 = unat (snd y) mod 256"
  by (simp add: cut_id_def case_prod_unfold word_unat_eq_iff unat_of_nat)

lemma unique_cut_ids:
  "distinct (map (snd \<circ> cut_id) xs) \<longleftrightarrow> distinct (map (\<lambda>(_, number). unat number mod 256) xs)"
  by (simp add: distinct_map case_prod_unfold inj_on_def cut_id_eq)

lemma AreEventAndFieldIdsUnique_cut:
  assumes "distinct (map fst evs)" "distinct (map fst fls)"
    "type_events d = table_of (map cut_id evs)" "type_fields d = table_of (map cut_id fls)"
  shows "AreEventAndFieldIdsUnique d \<longleftrightarrow> ids_fit evs fls"
proof -
  have "mset (map snd (type_events d) @ map snd (type_fields d)) = mset (map (snd \<circ> cut_id) (evs @ fls))"
    using ids_of_table [of "map cut_id evs"] ids_of_table [of "map cut_id fls"] assms names_cut_id
    by (simp only: map_append mset_append map_map [symmetric])
  then show ?thesis
    using assms(1,2) unfolding AreEventAndFieldIdsUnique_iff ids_fit_def
    by (metis mset_eq_imp_distinct_iff unique_cut_ids)
qed

lemma ParseLolaEventTypeDeployments_listed:
  "ParseLolaEventTypeDeployments J json \<lparr>service_id = i, type_events = [], type_fields = []\<rparr> =
     listed_ids J json ''events'' ''eventName'' ''eventId'' \<bind>
     (\<lambda>evs. if distinct (map fst evs)
        then Some (find_member J json ''events'' \<noteq> Some None,
               \<lparr>service_id = i, type_events = table_of (map cut_id evs), type_fields = []\<rparr>)
        else None)"
  unfolding ParseLolaEventTypeDeployments_def listed_ids_def for_each_event_ids
  by (cases "find_member J json ''events''")
    (auto simp: new_names_def fold_put_id table_of_cut_ids table_of_def [of "[]"]
       split: option.splits Option.bind_splits)

lemma ParseLolaFieldTypeDeployments_listed:
  "ParseLolaFieldTypeDeployments J json \<lparr>service_id = i, type_events = t, type_fields = []\<rparr> =
     listed_ids J json ''fields'' ''fieldName'' ''fieldId'' \<bind>
     (\<lambda>fls. if distinct (map fst fls)
        then Some (find_member J json ''fields'' \<noteq> Some None,
               \<lparr>service_id = i, type_events = t, type_fields = table_of (map cut_id fls)\<rparr>)
        else None)"
  unfolding ParseLolaFieldTypeDeployments_def listed_ids_def for_each_field_ids
  by (cases "find_member J json ''fields''")
    (auto simp: new_names_def fold_put_id table_of_cut_ids table_of_def [of "[]"]
       split: option.splits Option.bind_splits)

text \<open>The service type deployment that a JSON value describes, read off what it lists.\<close>

definition described_type :: "('j, 'm) json_api_scheme \<Rightarrow> 'j \<Rightarrow> LolaServiceTypeDeployment option" where
  "described_type J json = do {
     number \<leftarrow> find_member J json ''serviceId'' \<bind> (\<lambda>m. m \<bind> as_uint16 J);
     evs \<leftarrow> listed_ids J json ''events'' ''eventName'' ''eventId'';
     fls \<leftarrow> listed_ids J json ''fields'' ''fieldName'' ''fieldId'';
     if ids_fit evs fls \<and> (find_member J json ''events'' \<noteq> Some None \<or> find_member J json ''fields'' \<noteq> Some None)
     then Some \<lparr>service_id = number, type_events = table_of (map cut_id evs), type_fields = table_of (map cut_id fls)\<rparr>
     else None }"

text \<open>
  Property C39: the ids of events and fields are cut to 8 bits. For every JSON value and JSON library,
  parsing a service type gives exactly the deployment that the value describes: each event and field is
  configured under its name with its 16 bit id modulo 256 (\<open>cut_id\<close>), without an error for an id
  above 255. The parser ends the process exactly when the value has the wrong shape, lists neither
  events nor fields, has two events or two fields of one name, or two elements whose ids agree modulo
  256, even when the ids themselves differ (\<open>ids_fit\<close>).
\<close>

theorem event_ids_are_cut: "ParseLoLaServiceTypeDeployments J json = described_type J json"
proof -
  have unique: "AreEventAndFieldIdsUnique
      \<lparr>service_id = i, type_events = table_of (map cut_id evs), type_fields = table_of (map cut_id fls)\<rparr> \<longleftrightarrow>
      ids_fit evs fls" if "distinct (map fst evs)" "distinct (map fst fls)" for i evs fls
    by (rule AreEventAndFieldIdsUnique_cut [OF that]) simp_all
  show ?thesis
    unfolding ParseLoLaServiceTypeDeployments_def described_type_def Let_def ParseLolaEventTypeDeployments_listed
    by (auto simp: ParseLolaFieldTypeDeployments_listed unique contract_simps ids_fit_def
        split: option.split Option.bind_split)
qed

theorem event_ids_are_cut_witness:
  "ParseLoLaServiceTypeDeployments json_values (shm_type [(''frame'', 300)]) =
     Some \<lparr>service_id = 4660, type_events = [(''frame'', 44)], type_fields = []\<rparr> \<and>
   ParseLoLaServiceTypeDeployments json_values (shm_type [(''frame'', 300), (''rate'', 44)]) = None"
  unfolding event_ids_are_cut by code_simp

end
