(* ===== verification/Path_Names.thy ===== *)
theory Path_Names
  imports Lola_Prelude Decimal_Text Element_Messages
begin

text \<open>
  The names of the shared memory objects and of the marker files of a service instance: the helpers of
  path_builder.h/.cpp, \<open>ShmPathBuilder\<close> (shm_path_builder.cpp), \<open>PartialRestartPathBuilder\<close>
  (partial_restart_path_builder.cpp) and the resource ids that skeleton.cpp computes for its trial run.

  A name is written to a string stream. The stream keeps its text and its fill character, which stays
  in force until it is set again: \<open>AppendInstanceId\<close> relies on the one that \<open>AppendService\<close> has set.
  The prefixes are those of the build that is not for QNX. An emitter that meets an invalid quality
  ends the process.

  The lemmas show that a padded number can be read back, so that two different instances, qualities or
  kinds of memory never share a name, a marker file or a resource id.
\<close>

subsection \<open>Streams\<close>

record ostream =
  written :: string
  fill_char :: char

definition stringstream :: ostream where
  "stringstream = \<lparr>written = [], fill_char = CHR '' ''\<rparr>"

definition put :: "string \<Rightarrow> ostream \<Rightarrow> ostream" where
  "put s out = out\<lparr>written := written out @ s\<rparr>"

definition setfill :: "char \<Rightarrow> ostream \<Rightarrow> ostream" where
  "setfill c out = out\<lparr>fill_char := c\<rparr>"

definition put_setw :: "nat \<Rightarrow> string \<Rightarrow> ostream \<Rightarrow> ostream" where
  "put_setw n s out = put (replicate (n - length s) (fill_char out) @ s) out"

definition AppendService :: "u16 \<Rightarrow> ostream \<Rightarrow> ostream" where
  "AppendService s out = put ''-'' (put_setw 16 (show_nat (unat s)) (setfill (CHR ''0'') out))"

definition AppendInstanceId :: "u16 \<Rightarrow> ostream \<Rightarrow> ostream" where
  "AppendInstanceId i out = put_setw 5 (show_nat (unat i)) out"

definition AppendServiceAndInstance :: "u16 \<Rightarrow> u16 \<Rightarrow> ostream \<Rightarrow> ostream" where
  "AppendServiceAndInstance s i out = AppendInstanceId i (AppendService s out)"

definition OptionalEmitWithPrefix :: "string \<Rightarrow> (ostream \<Rightarrow> bool \<times> ostream) \<Rightarrow> string option" where
  "OptionalEmitWithPrefix prefix_text emitter =
     (case emitter (put prefix_text stringstream) of (ok, out) \<Rightarrow> if ok then Some (written out) else None)"

definition EmitWithPrefix :: "string \<Rightarrow> (ostream \<Rightarrow> ostream run) \<Rightarrow> string run" where
  "EmitWithPrefix prefix_text emitter = do {
     out \<leftarrow> emitter (put prefix_text stringstream);
     Some (written out) }"

subsection \<open>Shared memory objects\<close>

definition kDataChannelPrefix :: string where "kDataChannelPrefix = ''lola-data-''"
definition kControlChannelPrefix :: string where "kControlChannelPrefix = ''lola-ctl-''"
definition kAsilBControlChannelSuffix :: string where "kAsilBControlChannelSuffix = ''-b''"
definition kSharedMemoryPathPrefix :: string where "kSharedMemoryPathPrefix = ''/dev/shm/''"

definition EmitControlFileName :: "QualityType \<Rightarrow> u16 \<Rightarrow> u16 \<Rightarrow> ostream \<Rightarrow> ostream run" where
  "EmitControlFileName channel_type s i out =
     (let out = AppendServiceAndInstance s i (put kControlChannelPrefix out)
      in case channel_type of
           kASIL_QM \<Rightarrow> Some out
         | kASIL_B \<Rightarrow> Some (put kAsilBControlChannelSuffix out)
         | kInvalid \<Rightarrow> None)"

definition EmitDataFileName :: "u16 \<Rightarrow> u16 \<Rightarrow> ostream \<Rightarrow> ostream run" where
  "EmitDataFileName s i out = Some (AppendServiceAndInstance s i (put kDataChannelPrefix out))"

definition GetControlChannelFileName :: "u16 \<Rightarrow> u16 \<Rightarrow> QualityType \<Rightarrow> string run" where
  "GetControlChannelFileName s i channel_type = EmitWithPrefix [] (EmitControlFileName channel_type s i)"

definition GetDataChannelFileName :: "u16 \<Rightarrow> u16 \<Rightarrow> string run" where
  "GetDataChannelFileName s i = EmitWithPrefix [] (EmitDataFileName s i)"

definition GetControlChannelPath :: "u16 \<Rightarrow> u16 \<Rightarrow> QualityType \<Rightarrow> string run" where
  "GetControlChannelPath s i channel_type =
     EmitWithPrefix kSharedMemoryPathPrefix (EmitControlFileName channel_type s i)"

definition GetDataChannelPath :: "u16 \<Rightarrow> u16 \<Rightarrow> string run" where
  "GetDataChannelPath s i = EmitWithPrefix kSharedMemoryPathPrefix (EmitDataFileName s i)"

definition GetDataChannelShmName :: "u16 \<Rightarrow> u16 \<Rightarrow> string run" where
  "GetDataChannelShmName s i = EmitWithPrefix ''/'' (EmitDataFileName s i)"

definition GetControlChannelShmName :: "u16 \<Rightarrow> u16 \<Rightarrow> QualityType \<Rightarrow> string run" where
  "GetControlChannelShmName s i channel_type = EmitWithPrefix ''/'' (EmitControlFileName channel_type s i)"

definition GetPrefixContainingControlChannelAndServiceId :: "u16 \<Rightarrow> string" where
  "GetPrefixContainingControlChannelAndServiceId s =
     written (AppendService s (put kControlChannelPrefix stringstream))"

definition GetAsilBSuffix :: string where "GetAsilBSuffix = kAsilBControlChannelSuffix"
definition GetSharedMemoryPrefix :: string where "GetSharedMemoryPrefix = kSharedMemoryPathPrefix"

subsection \<open>Marker files\<close>

definition kLoLaDir :: string where "kLoLaDir = ''mw_com_lola/''"
definition kPartialRestartDir :: string where "kPartialRestartDir = ''partial_restart/''"
definition kTmpPathPrefix :: string where "kTmpPathPrefix = ''/tmp/''"
definition kServiceUsageMarkerFileTag :: string where "kServiceUsageMarkerFileTag = ''usage-''"
definition kServiceExistenceMarkerFileTag :: string where "kServiceExistenceMarkerFileTag = ''existence-''"

definition EmitServiceInstanceExistenceMarkerFileName :: "u16 \<Rightarrow> u16 \<Rightarrow> ostream \<Rightarrow> ostream run" where
  "EmitServiceInstanceExistenceMarkerFileName s i out =
     Some (AppendServiceAndInstance s i (put kServiceExistenceMarkerFileTag out))"

definition EmitServiceInstanceUsageMarkerFileName :: "u16 \<Rightarrow> u16 \<Rightarrow> ostream \<Rightarrow> ostream run" where
  "EmitServiceInstanceUsageMarkerFileName s i out =
     Some (AppendServiceAndInstance s i (put kServiceUsageMarkerFileTag out))"

definition GetLolaPartialRestartDirectoryPath :: string where
  "GetLolaPartialRestartDirectoryPath = kTmpPathPrefix @ kLoLaDir @ kPartialRestartDir"

definition GetServiceInstanceExistenceMarkerFilePath :: "u16 \<Rightarrow> u16 \<Rightarrow> string run" where
  "GetServiceInstanceExistenceMarkerFilePath s i =
     EmitWithPrefix (kTmpPathPrefix @ kLoLaDir @ kPartialRestartDir) (EmitServiceInstanceExistenceMarkerFileName s i)"

definition GetServiceInstanceUsageMarkerFilePath :: "u16 \<Rightarrow> u16 \<Rightarrow> string run" where
  "GetServiceInstanceUsageMarkerFilePath s i =
     EmitWithPrefix (kTmpPathPrefix @ kLoLaDir @ kPartialRestartDir) (EmitServiceInstanceUsageMarkerFileName s i)"

subsection \<open>Resource ids\<close>

datatype ShmObjectType = kControl_QM | kControl_ASIL_B | kData

definition ShmObjectType_value :: "ShmObjectType \<Rightarrow> u8" where
  "ShmObjectType_value t = (case t of kControl_QM \<Rightarrow> 0 | kControl_ASIL_B \<Rightarrow> 1 | kData \<Rightarrow> 2)"

definition CalculateMemoryResourceId :: "u16 \<Rightarrow> u16 \<Rightarrow> ShmObjectType \<Rightarrow> u64" where
  "CalculateMemoryResourceId s i t =
     push_bit 24 (ucast s) + push_bit 8 (ucast i) + ucast (ShmObjectType_value t)"

subsection \<open>Reading a name back\<close>

definition padded :: "nat \<Rightarrow> nat \<Rightarrow> string" where
  "padded n k = replicate (n - length (show_nat k)) (CHR ''0'') @ show_nat k"

lemma read_nat_zeros [simp]: "read_nat (replicate n (CHR ''0'') @ s) = read_nat s"
  by (induction n) (simp_all add: read_nat_def)

lemma padded_inject [simp]: "padded n j = padded n k \<longleftrightarrow> j = k"
proof
  assume "padded n j = padded n k"
  then have "read_nat (padded n j) = read_nat (padded n k)" by simp
  then show "j = k" by (simp add: padded_def)
qed simp

lemma padded_digits: "c \<in> set (padded n k) \<Longrightarrow> is_digit c"
  using show_nat_digits [of k] by (auto simp: padded_def is_digit_def)

definition instance_text :: "u16 \<Rightarrow> u16 \<Rightarrow> string" where
  "instance_text s i = padded 16 (unat s) @ ''-'' @ padded 5 (unat i)"

lemma written_append [simp]:
  "written (AppendServiceAndInstance s i out) = written out @ instance_text s i"
  by (simp add: AppendServiceAndInstance_def AppendInstanceId_def AppendService_def put_setw_def put_def setfill_def
      instance_text_def padded_def)

lemma written_put [simp]: "written (put s out) = written out @ s"
  by (simp add: put_def)

lemma written_stringstream [simp]: "written stringstream = []"
  by (simp add: stringstream_def)

lemma before_minus:
  assumes "\<forall>c \<in> set a. is_digit c" and "\<forall>c \<in> set b. is_digit c"
    and "a @ CHR ''-'' # x = b @ CHR ''-'' # y"
  shows "a = b \<and> x = y"
proof -
  have "takeWhile is_digit (d @ CHR ''-'' # z) = d" if "\<forall>c \<in> set d. is_digit c" for d z
    using that by (subst takeWhile_append2) auto
  from this [OF assms(1), of x] this [OF assms(2), of y] assms(3) have "a = b" by simp
  with assms(3) show ?thesis by simp
qed

lemma instance_text_inject [simp]: "instance_text s i = instance_text s' i' \<longleftrightarrow> s = s' \<and> i = i'"
proof
  assume "instance_text s i = instance_text s' i'"
  with before_minus [of "padded 16 (unat s)" "padded 16 (unat s')" "padded 5 (unat i)" "padded 5 (unat i')"]
  have "padded 16 (unat s) = padded 16 (unat s')" "padded 5 (unat i) = padded 5 (unat i')"
    by (auto simp: instance_text_def padded_digits)
  then show "s = s' \<and> i = i'" by (simp add: word_unat_eq_iff)
qed simp

text \<open>The suffix of the second control channel is not a part of the name of a first one.\<close>

lemma instance_text_suffix: "instance_text s i @ ''-b'' \<noteq> instance_text s' i'"
proof
  assume "instance_text s i @ ''-b'' = instance_text s' i'"
  with before_minus [of "padded 16 (unat s)" "padded 16 (unat s')" "padded 5 (unat i) @ ''-b''" "padded 5 (unat i')"]
  have "padded 5 (unat i) @ ''-b'' = padded 5 (unat i')" by (auto simp: instance_text_def padded_digits)
  then have "CHR ''-'' \<in> set (padded 5 (unat i'))" by (metis in_set_conv_decomp)
  then show False using padded_digits minus_not_digit by blast
qed

lemma GetDataChannelShmName_text:
  "GetDataChannelShmName s i = Some (''/lola-data-'' @ instance_text s i)"
  by (simp add: GetDataChannelShmName_def EmitWithPrefix_def EmitDataFileName_def kDataChannelPrefix_def)

lemma GetControlChannelShmName_text:
  "GetControlChannelShmName s i q =
     (case q of kASIL_QM \<Rightarrow> Some (''/lola-ctl-'' @ instance_text s i)
      | kASIL_B \<Rightarrow> Some (''/lola-ctl-'' @ instance_text s i @ ''-b'')
      | kInvalid \<Rightarrow> None)"
  by (simp add: GetControlChannelShmName_def EmitWithPrefix_def EmitControlFileName_def kControlChannelPrefix_def
      kAsilBControlChannelSuffix_def Let_def split: QualityType.split)

lemma marker_file_texts:
  "GetServiceInstanceExistenceMarkerFilePath s i = Some (''/tmp/mw_com_lola/partial_restart/existence-'' @ instance_text s i)"
  "GetServiceInstanceUsageMarkerFilePath s i = Some (''/tmp/mw_com_lola/partial_restart/usage-'' @ instance_text s i)"
  by (simp_all add: GetServiceInstanceExistenceMarkerFilePath_def GetServiceInstanceUsageMarkerFilePath_def
      EmitWithPrefix_def EmitServiceInstanceExistenceMarkerFileName_def EmitServiceInstanceUsageMarkerFileName_def
      kTmpPathPrefix_def kLoLaDir_def kPartialRestartDir_def kServiceUsageMarkerFileTag_def
      kServiceExistenceMarkerFileTag_def)

lemma shm_names_differ:
  "''/lola-data-'' @ s \<noteq> ''/lola-ctl-'' @ t"
  "GetDataChannelShmName s1 i1 \<noteq> GetControlChannelShmName s2 i2 q"
  "GetControlChannelShmName s1 i1 kASIL_QM \<noteq> GetControlChannelShmName s2 i2 kASIL_B"
  "GetControlChannelShmName s2 i2 kASIL_B \<noteq> GetControlChannelShmName s1 i1 kASIL_QM"
  using instance_text_suffix instance_text_suffix [symmetric]
  by (auto simp: GetDataChannelShmName_text GetControlChannelShmName_text split: QualityType.split)

lemma shm_names_inject:
  "GetDataChannelShmName s1 i1 = GetDataChannelShmName s2 i2 \<longleftrightarrow> s1 = s2 \<and> i1 = i2"
  "q \<noteq> kInvalid \<Longrightarrow> GetControlChannelShmName s1 i1 q = GetControlChannelShmName s2 i2 q' \<longleftrightarrow> s1 = s2 \<and> i1 = i2 \<and> q = q'"
  using instance_text_suffix instance_text_suffix [symmetric]
  by (auto simp: GetDataChannelShmName_text GetControlChannelShmName_text split: QualityType.split)

lemma resource_id_value:
  "uint (CalculateMemoryResourceId s i t) = uint s * 2 ^ 24 + uint i * 2 ^ 8 + uint (ShmObjectType_value t)"
proof -
  have s: "uint s < 2 ^ 16" and i: "uint i < 2 ^ 16" and t: "uint (ShmObjectType_value t) < 2 ^ 8"
    using uint_lt2p [of s] uint_lt2p [of i] uint_lt2p [of "ShmObjectType_value t"] by simp_all
  have "CalculateMemoryResourceId s i t =
      word_of_int (uint s * 2 ^ 24 + uint i * 2 ^ 8 + uint (ShmObjectType_value t))"
    by (simp add: CalculateMemoryResourceId_def push_bit_eq_mult flip: word_of_int_uint [where 'a = 64])
  then have "uint (CalculateMemoryResourceId s i t) =
      (uint s * 2 ^ 24 + uint i * 2 ^ 8 + uint (ShmObjectType_value t)) mod 2 ^ LENGTH(64)"
    by (simp only: uint_word_of_int)
  moreover have "(uint s * 2 ^ 24 + uint i * 2 ^ 8 + uint (ShmObjectType_value t)) mod 2 ^ 64 =
      uint s * 2 ^ 24 + uint i * 2 ^ 8 + uint (ShmObjectType_value t)"
    using s i t by (intro mod_pos_pos_trivial) auto
  ultimately show ?thesis by simp
qed

lemma resource_id_inject:
  "CalculateMemoryResourceId s i t = CalculateMemoryResourceId s' i' t' \<longleftrightarrow> s = s' \<and> i = i' \<and> t = t'"
proof
  assume "CalculateMemoryResourceId s i t = CalculateMemoryResourceId s' i' t'"
  then have same: "uint (CalculateMemoryResourceId s i t) = uint (CalculateMemoryResourceId s' i' t')" by simp
  have i: "uint i < 2 ^ 16" "uint i' < 2 ^ 16" "0 \<le> uint i" "0 \<le> uint i'"
    using uint_lt2p [of i] uint_lt2p [of i'] by simp_all
  have t: "uint (ShmObjectType_value t) < 3" "uint (ShmObjectType_value t') < 3" "0 \<le> uint (ShmObjectType_value t)"
      "0 \<le> uint (ShmObjectType_value t')"
    by (simp_all add: ShmObjectType_value_def split: ShmObjectType.split)
  have parts: "x = x' \<and> y = y' \<and> z = z'"
    if "x * 2 ^ 24 + y * 2 ^ 8 + z = x' * 2 ^ 24 + y' * 2 ^ 8 + z'" "y < 2 ^ 16" "y' < 2 ^ 16" "0 \<le> y" "0 \<le> y'"
      "z < 3" "z' < 3" "0 \<le> z" "0 \<le> z'" for x y z x' y' z' :: int
  proof -
    from that have "x = x'" by simp
    moreover from this that have "y = y'" by simp
    ultimately show ?thesis using that(1) by simp
  qed
  from parts [OF same [unfolded resource_id_value] i t]
  have "uint s = uint s'" "uint i = uint i'" "uint (ShmObjectType_value t) = uint (ShmObjectType_value t')"
    by blast+
  then show "s = s' \<and> i = i' \<and> t = t'"
    by (cases t; cases t') (simp_all add: ShmObjectType_value_def word_uint_eq_iff)
qed simp

text \<open>Property C40: the shared memory of a service instance is its own. Two names of shared memory objects
  (the control channels of both levels and the data channel) are the same only for the same service, the
  same instance and the same kind of memory, and so are the ids of the memory resources; the marker
  files of two instances differ, and no marker file for the existence of an instance is one for its use.\<close>

theorem shared_memory_names_are_unique:
  "\<exists>data_name control_name.
     (\<forall>s i. GetDataChannelShmName s i = Some (data_name s i)) \<and>
     (\<forall>s i b. GetControlChannelShmName s i (if b then kASIL_B else kASIL_QM) = Some (control_name b s i)) \<and>
     (\<forall>s i s' i' b b'.
        (data_name s i = data_name s' i') = (s = s' \<and> i = i') \<and>
        (control_name b s i = control_name b' s' i') = (b = b' \<and> s = s' \<and> i = i') \<and>
        data_name s i \<noteq> control_name b s' i' \<and>
        (GetServiceInstanceUsageMarkerFilePath s i = GetServiceInstanceUsageMarkerFilePath s' i') = (s = s' \<and> i = i') \<and>
        (GetServiceInstanceExistenceMarkerFilePath s i = GetServiceInstanceExistenceMarkerFilePath s' i') =
          (s = s' \<and> i = i') \<and>
        GetServiceInstanceUsageMarkerFilePath s i \<noteq> GetServiceInstanceExistenceMarkerFilePath s' i' \<and>
        (\<forall>t t'. (CalculateMemoryResourceId s i t = CalculateMemoryResourceId s' i' t') = (s = s' \<and> i = i' \<and> t = t')))"
  by (intro exI [of _ "\<lambda>s i. ''/lola-data-'' @ instance_text s i"]
        exI [of _ "\<lambda>b s i. ''/lola-ctl-'' @ instance_text s i @ (if b then ''-b'' else [])"])
    (use instance_text_suffix instance_text_suffix [symmetric] in
      \<open>auto simp: GetDataChannelShmName_text GetControlChannelShmName_text marker_file_texts resource_id_inject\<close>)

end
