(* ===== verification/Shared_Memory.thy ===== *)
theory Shared_Memory
  imports Rollback_Executor Path_Names
begin

text \<open>
  What the life cycle of a service instance uses of the operating system, and the shared memory itself.

  Lock files, file locks and the factory of the shared memory come from a library that is not part of
  the repository. They are the record \<open>restart_os\<close> of the operations that skeleton.cpp and proxy.cpp
  call, over a state \<open>'s\<close>: a \<open>LockFile\<close> is a number that the open file gets, a memory resource is the
  number of the region of memory that it maps. \<open>view\<close> says what the operations have done, in terms
  of paths, open files with their locks and names of regions; \<open>os_laws\<close> is the documented behaviour:
  \<^item> a lock file is opened under a new number; one that owns its path removes the path when it is
    destroyed; the locks of an open file are the ones of \<open>flock\<close>: an exclusive lock excludes every
    other lock of the same file, shared locks go together, and a lock ends with its open file;
  \<^item> a new region is none that has been used before; opening a name gives the region that it denotes;
    \<open>Remove\<close> takes the name away, \<open>RemoveStaleArtefacts\<close> takes it away or leaves it;
  \<^item> when a process ends without running its destructors, its open files are closed and nothing is removed.

  \<open>ServiceDataStorage\<close> (service_data_storage.h) is the data section of an instance, with the samples and
  the meta information of each event (event_meta_info.h, data_type_meta_info.h) and the pid of the
  provider. The control sections and the slots are the ones of \<open>Rollback_Executor\<close>, the address of the
  slots of an event being its region and its key. The maps of the shared memory are sorted by
  \<open>operator<\<close> of the element ids.
\<close>

subsection \<open>The operating system\<close>

type_synonym lock_file = nat
type_synonym region = nat

datatype permissions = WorldReadable | WorldWritable | UserPermissions "u32 list" "u32 list"

record 's restart_os =
  os_create_directories :: "string \<Rightarrow> 's \<Rightarrow> bool \<times> 's"
  os_create_or_open :: "string \<Rightarrow> 's \<Rightarrow> lock_file option \<times> 's"
  os_open :: "string \<Rightarrow> 's \<Rightarrow> lock_file option \<times> 's"
  os_take_ownership :: "lock_file \<Rightarrow> 's \<Rightarrow> 's"
  os_destroy :: "lock_file \<Rightarrow> 's \<Rightarrow> 's"
  os_try_lock :: "lock_file \<Rightarrow> 's \<Rightarrow> bool \<times> 's"
  os_try_lock_shared :: "lock_file \<Rightarrow> 's \<Rightarrow> bool \<times> 's"
  os_unlock :: "lock_file \<Rightarrow> 's \<Rightarrow> 's"
  os_exit :: "lock_file list \<Rightarrow> 's \<Rightarrow> 's"
  shm_create :: "string \<Rightarrow> u64 \<Rightarrow> permissions \<Rightarrow> bool \<Rightarrow> 's \<Rightarrow> region option \<times> 's"
  shm_open :: "string \<Rightarrow> bool \<Rightarrow> u32 list option \<Rightarrow> 's \<Rightarrow> region option \<times> 's"
  shm_remove :: "string \<Rightarrow> 's \<Rightarrow> 's"
  shm_remove_stale_artefacts :: "string \<Rightarrow> 's \<Rightarrow> 's"
  shm_new_delete_resource :: "u64 \<Rightarrow> 's \<Rightarrow> region \<times> 's"
  shm_in_typed_memory :: "region \<Rightarrow> 's \<Rightarrow> bool"

datatype lock_kind = Exclusive | Shared

record open_file =
  file_path :: string
  file_inode :: nat
  file_owned :: bool
  file_lock :: "lock_kind option"

record os_view =
  file_at :: "string \<Rightarrow> nat option"
  open_files :: "lock_file \<Rightarrow> open_file option"
  region_at :: "string \<Rightarrow> region option"
  used_regions :: "region set"

text \<open>Another open file of the same inode holds a lock of one of the kinds.\<close>

definition locked_elsewhere :: "lock_kind set \<Rightarrow> lock_file \<Rightarrow> os_view \<Rightarrow> bool" where
  "locked_elsewhere kinds h v \<longleftrightarrow>
     (\<exists>h' f f'. h' \<noteq> h \<and> open_files v h = Some f \<and> open_files v h' = Some f' \<and>
        file_inode f' = file_inode f \<and> (\<exists>k \<in> kinds. file_lock f' = Some k))"

definition opens_file :: "string \<Rightarrow> bool \<Rightarrow> lock_file option \<Rightarrow> os_view \<Rightarrow> os_view \<Rightarrow> bool" where
  "opens_file p create r v v' \<longleftrightarrow>
     (case r of
        None \<Rightarrow> v' = v
      | Some h \<Rightarrow> open_files v h = None \<and>
          (\<exists>n. (file_at v p = Some n \<or>
                create \<and> file_at v p = None \<and> n \<notin> ran (file_at v) \<and> (\<forall>f \<in> ran (open_files v). file_inode f \<noteq> n)) \<and>
               v' = v\<lparr>file_at := (file_at v)(p \<mapsto> n),
                      open_files := (open_files v)(h \<mapsto>
                        \<lparr>file_path = p, file_inode = n, file_owned = False, file_lock = None\<rparr>)\<rparr>))"

definition set_open_file :: "lock_file \<Rightarrow> (open_file \<Rightarrow> open_file) \<Rightarrow> os_view \<Rightarrow> os_view" where
  "set_open_file h g v = v\<lparr>open_files := (open_files v)(h := map_option g (open_files v h))\<rparr>"

definition locks_file :: "lock_kind set \<Rightarrow> lock_kind \<Rightarrow> lock_file \<Rightarrow> bool \<Rightarrow> os_view \<Rightarrow> os_view \<Rightarrow> bool" where
  "locks_file excluded k h ok v v' \<longleftrightarrow>
     ok = (\<not> locked_elsewhere excluded h v) \<and>
     v' = (if ok then set_open_file h (\<lambda>f. f\<lparr>file_lock := Some k\<rparr>) v else v)"

definition destroys_file :: "lock_file \<Rightarrow> os_view \<Rightarrow> os_view" where
  "destroys_file h v =
     (let v' = v\<lparr>open_files := (open_files v)(h := None)\<rparr>
      in case open_files v h of
           Some f \<Rightarrow> if file_owned f then v'\<lparr>file_at := (file_at v)(file_path f := None)\<rparr> else v'
         | None \<Rightarrow> v')"

definition os_laws :: "'s restart_os \<Rightarrow> ('s \<Rightarrow> os_view) \<Rightarrow> bool" where
  "os_laws os view \<longleftrightarrow>
     (\<forall>p s. view (snd (os_create_directories os p s)) = view s) \<and>
     (\<forall>p s r s'. os_create_or_open os p s = (r, s') \<longrightarrow> opens_file p True r (view s) (view s')) \<and>
     (\<forall>p s r s'. os_open os p s = (r, s') \<longrightarrow> opens_file p False r (view s) (view s')) \<and>
     (\<forall>h s. view (os_take_ownership os h s) = set_open_file h (\<lambda>f. f\<lparr>file_owned := True\<rparr>) (view s)) \<and>
     (\<forall>h s. view (os_destroy os h s) = destroys_file h (view s)) \<and>
     (\<forall>h s ok s'. os_try_lock os h s = (ok, s') \<longrightarrow> locks_file {Exclusive, Shared} Exclusive h ok (view s) (view s')) \<and>
     (\<forall>h s ok s'. os_try_lock_shared os h s = (ok, s') \<longrightarrow> locks_file {Exclusive} Shared h ok (view s) (view s')) \<and>
     (\<forall>h s. view (os_unlock os h s) = set_open_file h (\<lambda>f. f\<lparr>file_lock := None\<rparr>) (view s)) \<and>
     (\<forall>hs s. view (os_exit os hs s) = (view s)\<lparr>open_files := (\<lambda>h. if h \<in> set hs then None else open_files (view s) h)\<rparr>) \<and>
     (\<forall>p n ps t s r s'. shm_create os p n ps t s = (r, s') \<longrightarrow>
        (case r of
           None \<Rightarrow> view s' = view s
         | Some m \<Rightarrow> region_at (view s) p = None \<and> m \<notin> used_regions (view s) \<and>
             view s' = (view s)\<lparr>region_at := (region_at (view s))(p \<mapsto> m), used_regions := insert m (used_regions (view s))\<rparr>)) \<and>
     (\<forall>p rw us s r s'. shm_open os p rw us s = (r, s') \<longrightarrow> (r = None \<or> r = region_at (view s) p) \<and> view s' = view s) \<and>
     (\<forall>p s. view (shm_remove os p s) = (view s)\<lparr>region_at := (region_at (view s))(p := None)\<rparr>) \<and>
     (\<forall>p s. view (shm_remove_stale_artefacts os p s) \<in>
        {view s, (view s)\<lparr>region_at := (region_at (view s))(p := None)\<rparr>}) \<and>
     (\<forall>i s m s'. shm_new_delete_resource os i s = (m, s') \<longrightarrow>
        m \<notin> used_regions (view s) \<and> view s' = (view s)\<lparr>used_regions := insert m (used_regions (view s))\<rparr>)"

subsection \<open>The maps in shared memory\<close>

type_synonym 'v element_map = "(element_fq_id \<times> 'v) list"

fun element_find :: "element_fq_id \<Rightarrow> 'v element_map \<Rightarrow> 'v option" where
  "element_find e [] = None"
| "element_find e ((e', v) # m) = (if ElementFqId_eq e' e then Some v else element_find e m)"

fun element_put :: "element_fq_id \<Rightarrow> 'v \<Rightarrow> 'v element_map \<Rightarrow> 'v element_map" where
  "element_put e v [] = [(e, v)]"
| "element_put e v ((e', v') # m) =
     (if ElementFqId_less e e' then (e, v) # (e', v') # m else (e', v') # element_put e v m)"

definition element_emplace :: "element_fq_id \<Rightarrow> 'v \<Rightarrow> 'v element_map \<Rightarrow> bool \<times> 'v element_map" where
  "element_emplace e v m = (case element_find e m of Some _ \<Rightarrow> (False, m) | None \<Rightarrow> (True, element_put e v m))"

fun element_update :: "element_fq_id \<Rightarrow> ('v \<Rightarrow> 'v) \<Rightarrow> 'v element_map \<Rightarrow> 'v element_map" where
  "element_update e f [] = []"
| "element_update e f ((e', v) # m) = (if ElementFqId_eq e' e then (e', f v) # m else (e', v) # element_update e f m)"

subsection \<open>The memory\<close>

record DataTypeMetaInfo =
  size_of :: u64
  align_of :: u8

record EventMetaInfo =
  data_type_info :: DataTypeMetaInfo
  event_slots_raw_array :: "region \<times> fq_key"

record 'v service_data_storage =
  stored_events :: "'v list element_map"
  stored_metainfo :: "EventMetaInfo element_map"
  skeleton_pid :: pid_t

definition ServiceDataStorage :: "pid_t \<Rightarrow> 'v service_data_storage" where
  "ServiceDataStorage pid = \<lparr>stored_events = [], stored_metainfo = [], skeleton_pid = pid\<rparr>"

type_synonym slot_address = "region \<times> fq_key"

record ('v, 's) shm_world =
  system :: 's
  control_sections :: "region \<Rightarrow> slot_address service_data_control"
  data_sections :: "region \<Rightarrow> 'v service_data_storage"
  slot_sections :: "slot_address edc_world"

definition set_control :: "region \<Rightarrow> slot_address service_data_control \<Rightarrow> ('v, 's) shm_world \<Rightarrow> ('v, 's) shm_world" where
  "set_control r c w = w\<lparr>control_sections := (control_sections w)(r := c)\<rparr>"

definition set_data :: "region \<Rightarrow> 'v service_data_storage \<Rightarrow> ('v, 's) shm_world \<Rightarrow> ('v, 's) shm_world" where
  "set_data r d w = w\<lparr>data_sections := (data_sections w)(r := d)\<rparr>"

definition on_system :: "('s \<Rightarrow> 'r \<times> 's) \<Rightarrow> ('v, 's) shm_world \<Rightarrow> 'r \<times> ('v, 's) shm_world" where
  "on_system f w = (case f (system w) of (r, s) \<Rightarrow> (r, w\<lparr>system := s\<rparr>))"

definition do_system :: "('s \<Rightarrow> 's) \<Rightarrow> ('v, 's) shm_world \<Rightarrow> ('v, 's) shm_world" where
  "do_system f w = w\<lparr>system := f (system w)\<rparr>"

end
