(* ===== verification/Skeleton_Binding.thy ===== *)
theory Skeleton_Binding
  imports Shared_Memory Skeleton_Event Configurations
begin

text \<open>
  The skeleton of the binding (skeleton.h/.cpp), which creates, reopens and removes the shared memory of a
  service instance, and the registration of its events there.

  \<^item> A pointer into a region is the number of the region; a null pointer that is dereferenced, an empty
    optional whose value is taken and a failed assertion end the process.
  \<^item> The existence marker file is locked exclusively as long as the skeleton lives; the usage marker file
    is locked exclusively while the memory is replaced or removed. Proxies lock it shared.
  \<^item> The runtime of the process (\<open>lola_runtime\<close>) is its pid, the mode of the size calculation, the sizes
    of the types of the shared memory and what a heap memory resource says was allocated in it.
  \<^item> An event binding is the one of \<open>Skeleton_Event\<close> with its properties and the type of its samples; the
    maps of events are lists in the order of their names.
  \<^item> Of the tracing, the registration of the transaction log and the flag that \<open>DisableTracing\<close> sets are
    modelled; the callbacks that announce a memory object to the trace library are a Boolean that says
    whether one is there.
\<close>

subsection \<open>The deployment of an instance\<close>

definition GetLolaServiceTypeDeployment :: "InstanceIdentifier \<Rightarrow> LolaServiceTypeDeployment run" where
  "GetLolaServiceTypeDeployment i = (case type_deployment i of LolaType d \<Rightarrow> Some d | BlankType \<Rightarrow> None)"

definition GetLolaServiceInstanceDeployment :: "InstanceIdentifier \<Rightarrow> LolaServiceInstanceDeployment run" where
  "GetLolaServiceInstanceDeployment i =
     (case bindingInfo (instance_deployment i) of LolaBinding d \<Rightarrow> Some d | _ \<Rightarrow> None)"

definition instance_number :: "InstanceIdentifier \<Rightarrow> u16 run" where
  "instance_number i = do { d \<leftarrow> GetLolaServiceInstanceDeployment i; lola_instance_id d }"

definition HasAsilBSupport :: "InstanceIdentifier \<Rightarrow> bool" where
  "HasAsilBSupport i \<longleftrightarrow> asil_level (instance_deployment i) = kASIL_B"

subsection \<open>Events and the runtime\<close>

record SkeletonEventProperties =
  number_of_slots :: u64
  max_subscriber_count :: u64
  enforces_max_samples :: bool

record SkeletonEventTracingData =
  enable_send :: bool
  enable_send_with_allocate :: bool

record 'v bound_event =
  event_state :: "slot_address skeleton_event"
  event_properties :: SkeletonEventProperties
  sample_type :: DataTypeMetaInfo
  default_sample :: 'v
  event_tracing_data :: "SkeletonEventTracingData option"
  event_data_storage :: "slot_address option"

type_synonym 'v bound_events = "(string \<times> 'v bound_event) list"

record shm_sizes =
  sizeof_ServiceDataControl :: u64
  sizeof_UidPidMappingEntry :: u64
  sizeof_event_controls_value :: u64
  sizeof_control_slot :: u64
  sizeof_ServiceDataStorage :: u64
  sizeof_events_value :: u64
  sizeof_metainfo_value :: u64
  sizeof_pointer :: u64

record 'v lola_runtime =
  GetPid :: pid_t
  GetShmSizeCalculationMode :: ShmSizeCalculationMode
  shm_type_sizes :: shm_sizes
  control_bytes :: "slot_address service_data_control \<Rightarrow> u64"
  data_bytes :: "'v service_data_storage \<Rightarrow> u64"

subsection \<open>The size of the shared memory\<close>

definition STL_CONTAINER_STORAGE_NEEDS :: u64 where
  "STL_CONTAINER_STORAGE_NEEDS = 1024"

definition control_element_size :: "shm_sizes \<Rightarrow> u64 \<Rightarrow> u64" where
  "control_element_size z max_samples =
     sizeof_event_controls_value z + sizeof_pointer z + STL_CONTAINER_STORAGE_NEEDS +
     max_samples * sizeof_control_slot z"

definition data_element_size :: "shm_sizes \<Rightarrow> u64 \<Rightarrow> u64 \<Rightarrow> u64" where
  "data_element_size z max_samples max_size =
     (sizeof_events_value z + sizeof_pointer z + STL_CONTAINER_STORAGE_NEEDS + max_samples * max_size) +
     (sizeof_metainfo_value z + sizeof_pointer z)"

definition sample_slots_of :: "(string, LolaEventInstanceDeployment) table \<Rightarrow> string \<Rightarrow> u64 run" where
  "sample_slots_of deployments name = do {
     d \<leftarrow> map_of deployments name;
     n \<leftarrow> GetNumberOfSampleSlots d;
     Some (ucast n) }"

fun add_element_sizes ::
    "(u64 \<Rightarrow> 'v bound_event \<Rightarrow> u64) \<Rightarrow> (string, LolaEventInstanceDeployment) table \<Rightarrow> 'v bound_events \<Rightarrow> u64 \<Rightarrow> u64 run" where
  "add_element_sizes element_size deployments [] bytes = Some bytes"
| "add_element_sizes element_size deployments ((name, ev) # evs) bytes = do {
     max_samples \<leftarrow> sample_slots_of deployments name;
     add_element_sizes element_size deployments evs (bytes + element_size max_samples ev) }"

definition EstimateControlShmResourceSize ::
    "shm_sizes \<Rightarrow> LolaServiceInstanceDeployment \<Rightarrow> 'v bound_events \<Rightarrow> 'v bound_events \<Rightarrow> u64 run" where
  "EstimateControlShmResourceSize z d events field_bindings = do {
     let bytes = sizeof_ServiceDataControl z + STL_CONTAINER_STORAGE_NEEDS +
                 ucast kMaxUidPidMappings * sizeof_UidPidMappingEntry z;
     bytes \<leftarrow> add_element_sizes (\<lambda>n _. control_element_size z n) (instance_events d) events bytes;
     add_element_sizes (\<lambda>n _. control_element_size z n) (instance_fields d) field_bindings bytes }"

definition EstimateDataShmResourceSize ::
    "shm_sizes \<Rightarrow> LolaServiceInstanceDeployment \<Rightarrow> 'v bound_events \<Rightarrow> 'v bound_events \<Rightarrow> u64 run" where
  "EstimateDataShmResourceSize z d events field_bindings = do {
     let bytes = sizeof_ServiceDataStorage z + 2 * STL_CONTAINER_STORAGE_NEEDS;
     bytes \<leftarrow> add_element_sizes (\<lambda>n ev. data_element_size z n (size_of (sample_type ev))) (instance_events d) events bytes;
     add_element_sizes (\<lambda>n ev. data_element_size z n (size_of (sample_type ev))) (instance_fields d) field_bindings bytes }"

record ShmResourceStorageSizes =
  data_size :: u64
  control_qm_size :: u64
  control_asil_b_size :: "u64 option"

subsection \<open>The skeleton\<close>

record skeleton =
  skeleton_identifier :: InstanceIdentifier
  path_service_id :: u16
  data_storage_path :: "string option"
  data_control_qm_path :: "string option"
  data_control_asil_path :: "string option"
  storage_ptr :: "region option"
  control_qm :: "region option"
  control_asil_b :: "region option"
  storage_resource :: "region option"
  control_qm_resource :: "region option"
  control_asil_resource :: "region option"
  existence_marker_file :: lock_file
  usage_marker_file :: "lock_file option"
  was_old_shm_region_reopened :: bool
  tracing_disabled :: bool

definition Skeleton :: "InstanceIdentifier \<Rightarrow> u16 \<Rightarrow> lock_file \<Rightarrow> skeleton" where
  "Skeleton i svc existence =
     \<lparr>skeleton_identifier = i, path_service_id = svc, data_storage_path = None, data_control_qm_path = None,
      data_control_asil_path = None, storage_ptr = None, control_qm = None, control_asil_b = None,
      storage_resource = None, control_qm_resource = None, control_asil_resource = None,
      existence_marker_file = existence, usage_marker_file = None, was_old_shm_region_reopened = False,
      tracing_disabled = False\<rparr>"

definition CreatePartialRestartDirectory :: "'s restart_os \<Rightarrow> ('v, 's) shm_world \<Rightarrow> bool \<times> ('v, 's) shm_world" where
  "CreatePartialRestartDirectory os w = on_system (os_create_directories os GetLolaPartialRestartDirectoryPath) w"

definition CreateOrOpenServiceInstanceExistenceMarkerFile ::
    "'s restart_os \<Rightarrow> InstanceIdentifier \<Rightarrow> u16 \<Rightarrow> ('v, 's) shm_world \<Rightarrow> (lock_file option \<times> ('v, 's) shm_world) run" where
  "CreateOrOpenServiceInstanceExistenceMarkerFile os i svc w = do {
     n \<leftarrow> instance_number i;
     path \<leftarrow> GetServiceInstanceExistenceMarkerFilePath svc n;
     Some (on_system (os_create_or_open os path) w) }"

definition CreateOrOpenServiceInstanceUsageMarkerFile ::
    "'s restart_os \<Rightarrow> InstanceIdentifier \<Rightarrow> u16 \<Rightarrow> ('v, 's) shm_world \<Rightarrow> (lock_file option \<times> ('v, 's) shm_world) run" where
  "CreateOrOpenServiceInstanceUsageMarkerFile os i svc w = do {
     n \<leftarrow> instance_number i;
     path \<leftarrow> GetServiceInstanceUsageMarkerFilePath svc n;
     Some (on_system (os_create_or_open os path) w) }"

definition GetControlChannelShmPath :: "InstanceIdentifier \<Rightarrow> QualityType \<Rightarrow> u16 \<Rightarrow> string run" where
  "GetControlChannelShmPath i quality svc = do {
     n \<leftarrow> instance_number i;
     GetControlChannelShmName svc n quality }"

definition GetDataChannelShmPath :: "InstanceIdentifier \<Rightarrow> u16 \<Rightarrow> string run" where
  "GetDataChannelShmPath i svc = do {
     n \<leftarrow> instance_number i;
     GetDataChannelShmName svc n }"

text \<open>A marker file that is not taken over is closed when the call returns.\<close>

definition Skeleton_Create ::
    "'s restart_os \<Rightarrow> InstanceIdentifier \<Rightarrow> u16 \<Rightarrow> ('v, 's) shm_world \<Rightarrow> (skeleton option \<times> ('v, 's) shm_world) run" where
  "Skeleton_Create os i svc w = do {
     let (ok, w) = CreatePartialRestartDirectory os w;
     if \<not> ok then Some (None, w)
     else do {
       (file, w) \<leftarrow> CreateOrOpenServiceInstanceExistenceMarkerFile os i svc w;
       (case file of
          None \<Rightarrow> Some (None, w)
        | Some h \<Rightarrow>
            (let (locked, w) = on_system (os_try_lock os h) w
             in if \<not> locked then Some (None, do_system (os_destroy os h) w)
                else Some (Some (Skeleton i svc h), do_system (os_take_ownership os h) w))) } }"

text \<open>
  The members are destroyed in the reverse order of their declaration: the lock of the existence marker
  file is released before the file is removed.
\<close>

definition destroy_optional :: "'s restart_os \<Rightarrow> lock_file option \<Rightarrow> ('v, 's) shm_world \<Rightarrow> ('v, 's) shm_world" where
  "destroy_optional os file w = (case file of None \<Rightarrow> w | Some h \<Rightarrow> do_system (os_destroy os h) w)"

definition Skeleton_destroy_unlock :: "'s restart_os \<Rightarrow> skeleton \<Rightarrow> ('v, 's) shm_world \<Rightarrow> ('v, 's) shm_world" where
  "Skeleton_destroy_unlock os sk w = do_system (os_unlock os (existence_marker_file sk)) w"

definition Skeleton_destroy_files :: "'s restart_os \<Rightarrow> skeleton \<Rightarrow> ('v, 's) shm_world \<Rightarrow> ('v, 's) shm_world" where
  "Skeleton_destroy_files os sk w =
     do_system (os_destroy os (existence_marker_file sk)) (destroy_optional os (usage_marker_file sk) w)"

definition Skeleton_destroy :: "'s restart_os \<Rightarrow> skeleton \<Rightarrow> ('v, 's) shm_world \<Rightarrow> ('v, 's) shm_world" where
  "Skeleton_destroy os sk w = Skeleton_destroy_files os sk (Skeleton_destroy_unlock os sk w)"

definition GetInstanceQualityType :: "skeleton \<Rightarrow> QualityType" where
  "GetInstanceQualityType sk = asil_level (instance_deployment (skeleton_identifier sk))"

subsection \<open>The events of the shared memory\<close>

definition RegisterTracingTransactionLog ::
    "SkeletonEventTracingData option \<Rightarrow> transaction_log_set \<Rightarrow> transaction_log_set run" where
  "RegisterTracingTransactionLog tracing t =
     (case tracing of
        None \<Rightarrow> Some t
      | Some d \<Rightarrow> if enable_send d \<or> enable_send_with_allocate d
                  then do { (_, t) \<leftarrow> RegisterSkeletonTracingElement t; Some t } else Some t)"

definition UnRegisterTracingTransactionLog :: "transaction_log_set \<Rightarrow> transaction_log_set run" where
  "UnRegisterTracingTransactionLog t = Unregister kSkeletonIndexSentinel t"

definition set_event_logs ::
    "region \<Rightarrow> element_fq_id \<Rightarrow> transaction_log_set \<Rightarrow> ('v, 's) shm_world \<Rightarrow> ('v, 's) shm_world" where
  "set_event_logs r e t w =
     (let c = control_sections w r
      in set_control r (c\<lparr>event_controls := element_update e (\<lambda>ec. ec\<lparr>ec_logs := t\<rparr>) (event_controls c)\<rparr>) w)"

definition OpenEventDataFromOpenedSharedMemory ::
    "skeleton \<Rightarrow> element_fq_id \<Rightarrow> ('v, 's) shm_world \<Rightarrow> (slot_address \<times> slot_address edc_composite) run" where
  "OpenEventDataFromOpenedSharedMemory sk e w = do {
     s \<leftarrow> storage_ptr sk;
     _ \<leftarrow> element_find e (stored_metainfo (data_sections w s));
     _ \<leftarrow> element_find e (stored_events (data_sections w s));
     qm \<leftarrow> control_qm sk;
     ec_qm \<leftarrow> element_find e (event_controls (control_sections w qm));
     b \<leftarrow> (if HasAsilBSupport (skeleton_identifier sk) then do {
             r \<leftarrow> control_asil_b sk;
             ec_b \<leftarrow> element_find e (event_controls (control_sections w r));
             Some (Some (data_control ec_b)) }
           else Some None);
     cc \<leftarrow> EventDataControlComposite (Some (data_control ec_qm)) b;
     Some ((s, fq_key e), cc) }"

definition new_event_control :: "slot_address \<Rightarrow> SkeletonEventProperties \<Rightarrow> slot_address service_event_control run" where
  "new_event_control c ps = do {
     ec \<leftarrow> EventControl (ucast (number_of_slots ps)) (ucast (max_subscriber_count ps)) (enforces_max_samples ps);
     Some \<lparr>ec_logs = ec_logs ec, ec_subscription = ec_subscription ec, ec_subscribers = ec_subscribers ec,
           data_control = c\<rparr> }"

text \<open>An entry of the map of event controls is only constructed if there is none under its key.\<close>

definition emplace_event_control ::
    "region \<Rightarrow> element_fq_id \<Rightarrow> SkeletonEventProperties \<Rightarrow> ('v, 's) shm_world \<Rightarrow>
     (bool \<times> slot_address \<times> ('v, 's) shm_world) run" where
  "emplace_event_control r e ps w = do {
     let c = control_sections w r;
     ec \<leftarrow> new_event_control (r, fq_key e) ps;
     (case element_find e (event_controls c) of
        Some old \<Rightarrow> Some (False, data_control old, w)
      | None \<Rightarrow>
          (let w = set_control r (c\<lparr>event_controls := element_put e ec (event_controls c)\<rparr>) w;
               slots = slot_sections w
           in Some (True, data_control ec,
                w\<lparr>slot_sections := slots\<lparr>mem := (mem slots)(data_control ec := EventDataControl_slots (ucast (number_of_slots ps)))\<rparr>\<rparr>))) }"

definition CreateEventDataFromOpenedSharedMemory ::
    "skeleton \<Rightarrow> element_fq_id \<Rightarrow> 'v bound_event \<Rightarrow> ('v, 's) shm_world \<Rightarrow>
     (slot_address \<times> slot_address edc_composite \<times> ('v, 's) shm_world) run" where
  "CreateEventDataFromOpenedSharedMemory sk e ev w = do {
     let ps = event_properties ev;
     r \<leftarrow> storage_resource sk;
     s \<leftarrow> storage_ptr sk;
     let d = data_sections w s;
     let (inserted, evs) = element_emplace e (replicate (unat (number_of_slots ps)) (default_sample ev)) (stored_events d);
     amp_require inserted;
     let (inserted, metas) = element_emplace e
           \<lparr>data_type_info = sample_type ev, event_slots_raw_array = (r, fq_key e)\<rparr> (stored_metainfo d);
     amp_require inserted;
     let w = set_data s (d\<lparr>stored_events := evs, stored_metainfo := metas\<rparr>) w;
     qm \<leftarrow> control_qm sk;
     (inserted, qm_control, w) \<leftarrow> emplace_event_control qm e ps w;
     amp_require inserted;
     (b_control, w) \<leftarrow> (if control_asil_resource sk \<noteq> None then do {
                        b \<leftarrow> control_asil_b sk;
                        (_, c, w) \<leftarrow> emplace_event_control b e ps w;
                        Some (Some c, w) }
                      else Some (None, w));
     cc \<leftarrow> EventDataControlComposite (Some qm_control) b_control;
     Some ((r, fq_key e), cc, w) }"

definition trace_dereference :: "slot_address \<Rightarrow> nat \<Rightarrow> slot_address edc_world \<Rightarrow> slot_address edc_world run" where
  "trace_dereference c slot_index sw = Some (DereferenceEventWithoutTransactionLogging c slot_index sw)"

text \<open>The result is the storage, the control and the skeleton, whose process may have lost its tracing.\<close>

definition Register ::
    "skeleton \<Rightarrow> element_fq_id \<Rightarrow> 'v bound_event \<Rightarrow> ('v, 's) shm_world \<Rightarrow>
     (slot_address \<times> slot_address edc_composite \<times> skeleton \<times> ('v, 's) shm_world) run" where
  "Register sk e ev w =
     (if was_old_shm_region_reopened sk then do {
        (ptr, cc) \<leftarrow> OpenEventDataFromOpenedSharedMemory sk e w;
        qm \<leftarrow> control_qm sk;
        ec \<leftarrow> element_find e (event_controls (control_sections w qm));
        (result, t, slots) \<leftarrow>
          RollbackSkeletonTracingTransactions (trace_dereference (data_control ec)) (ec_logs ec) (slot_sections w);
        let w = w\<lparr>slot_sections := slots\<rparr>;
        (case result of
           Inl _ \<Rightarrow> Some (ptr, cc, sk\<lparr>tracing_disabled := True\<rparr>, set_event_logs qm e t w)
         | Inr _ \<Rightarrow> do {
             t \<leftarrow> RegisterTracingTransactionLog (event_tracing_data ev) t;
             Some (ptr, cc, sk, set_event_logs qm e t w) }) }
      else do {
        (ptr, cc, w) \<leftarrow> CreateEventDataFromOpenedSharedMemory sk e ev w;
        qm \<leftarrow> control_qm sk;
        ec \<leftarrow> element_find e (event_controls (control_sections w qm));
        t \<leftarrow> RegisterTracingTransactionLog (event_tracing_data ev) (ec_logs ec);
        Some (ptr, cc, sk, set_event_logs qm e t w) })"

definition Skeleton_GetEventMetaInfo :: "skeleton \<Rightarrow> element_fq_id \<Rightarrow> ('v, 's) shm_world \<Rightarrow> EventMetaInfo option run" where
  "Skeleton_GetEventMetaInfo sk e w = do {
     s \<leftarrow> storage_ptr sk;
     Some (element_find e (stored_metainfo (data_sections w s))) }"

text \<open>\<open>PrepareOffer\<close> and \<open>PrepareStopOffer\<close> of an event: the event registers itself at its parent.\<close>

definition SkeletonEvent_PrepareOffer ::
    "skeleton \<Rightarrow> 'v bound_event \<Rightarrow> ('v, 's) shm_world \<Rightarrow> (result_blank \<times> 'v bound_event \<times> skeleton \<times> ('v, 's) shm_world) run" where
  "SkeletonEvent_PrepareOffer sk ev w = do {
     (ptr, cc, sk, w) \<leftarrow> Register sk (event_fqn (event_state ev)) ev w;
     (result, se, pw) \<leftarrow> PrepareOffer cc (event_state ev)
        (\<lparr>slots = slot_sections w, storage = [], producer_world.service = (), qm_stop_offers = 0\<rparr> :: (slot_address, unit, unit) producer_world);
     Some (result, ev\<lparr>event_state := se, event_data_storage := Some ptr\<rparr>, sk, w\<lparr>slot_sections := slots pw\<rparr>) }"

definition SkeletonEvent_PrepareStopOffer ::
    "skeleton \<Rightarrow> 'v bound_event \<Rightarrow> ('v, 's) shm_world \<Rightarrow> ('v, 's) shm_world run" where
  "SkeletonEvent_PrepareStopOffer sk ev w =
     (case data_control_composite (event_state ev) of
        None \<Rightarrow> Some w
      | Some cc \<Rightarrow> do {
          (r, k) \<leftarrow> asil_qm_control cc;
          let e = event_fqn (event_state ev);
          ec \<leftarrow> element_find e (event_controls (control_sections w r));
          t \<leftarrow> UnRegisterTracingTransactionLog (ec_logs ec);
          Some (set_event_logs r e t w) })"

end
