(* ===== verification/Skeleton_Offer.thy ===== *)
theory Skeleton_Offer
  imports Skeleton_Binding
begin

text \<open>
  Offering a service and stopping the offer in the skeleton of the binding (skeleton.cpp): the sizes of
  the memory objects, their creation with the permissions of the deployment, the reuse of memory that
  proxies still use, and the removal.

  The events and fields of a service are passed in and out: the trial run of the size calculation
  registers them in heap memory. A resource of that run is a region that no name denotes. The factory
  calls the initialisation of a new region exactly when it creates one.
\<close>

subsection \<open>Names that go stale and are removed\<close>

definition RemoveStaleSharedMemoryArtefacts ::
    "'s restart_os \<Rightarrow> skeleton \<Rightarrow> ('v, 's) shm_world \<Rightarrow> ('v, 's) shm_world run" where
  "RemoveStaleSharedMemoryArtefacts os sk w = do {
     let i = skeleton_identifier sk;
     control_qm_path \<leftarrow> GetControlChannelShmPath i kASIL_QM (path_service_id sk);
     control_asil_b_path \<leftarrow> GetControlChannelShmPath i kASIL_B (path_service_id sk);
     data_path \<leftarrow> GetDataChannelShmPath i (path_service_id sk);
     let w = do_system (shm_remove_stale_artefacts os control_qm_path) w;
     let w = do_system (shm_remove_stale_artefacts os control_asil_b_path) w;
     Some (do_system (shm_remove_stale_artefacts os data_path) w) }"

definition remove_memory_if_exists :: "'s restart_os \<Rightarrow> string option \<Rightarrow> ('v, 's) shm_world \<Rightarrow> ('v, 's) shm_world" where
  "remove_memory_if_exists os path w = (case path of None \<Rightarrow> w | Some p \<Rightarrow> do_system (shm_remove os p) w)"

definition RemoveSharedMemory :: "'s restart_os \<Rightarrow> skeleton \<Rightarrow> ('v, 's) shm_world \<Rightarrow> skeleton \<times> ('v, 's) shm_world" where
  "RemoveSharedMemory os sk w =
     (let w = remove_memory_if_exists os (data_control_qm_path sk) w;
          w = remove_memory_if_exists os (data_control_asil_path sk) w;
          w = remove_memory_if_exists os (data_storage_path sk) w
      in (sk\<lparr>storage_resource := None, control_qm_resource := None, control_asil_resource := None\<rparr>, w))"

subsection \<open>New memory\<close>

definition InitializeSharedMemoryForData ::
    "pid_t \<Rightarrow> region \<Rightarrow> skeleton \<Rightarrow> ('v, 's) shm_world \<Rightarrow> skeleton \<times> ('v, 's) shm_world" where
  "InitializeSharedMemoryForData pid memory sk w =
     (sk\<lparr>storage_ptr := Some memory, storage_resource := Some memory\<rparr>, set_data memory (ServiceDataStorage pid) w)"

definition InitializeSharedMemoryForControl ::
    "QualityType \<Rightarrow> region \<Rightarrow> skeleton \<Rightarrow> ('v, 's) shm_world \<Rightarrow> skeleton \<times> ('v, 's) shm_world" where
  "InitializeSharedMemoryForControl level memory sk w =
     ((if level = kASIL_QM then sk\<lparr>control_qm := Some memory\<rparr> else sk\<lparr>control_asil_b := Some memory\<rparr>),
      set_control memory ServiceDataControl w)"

definition set_control_resource :: "QualityType \<Rightarrow> region option \<Rightarrow> skeleton \<Rightarrow> skeleton" where
  "set_control_resource level r sk =
     (if level = kASIL_QM then sk\<lparr>control_qm_resource := r\<rparr> else sk\<lparr>control_asil_resource := r\<rparr>)"

definition set_control_path :: "QualityType \<Rightarrow> string \<Rightarrow> skeleton \<Rightarrow> skeleton" where
  "set_control_path level p sk =
     (if level = kASIL_QM then sk\<lparr>data_control_qm_path := Some p\<rparr> else sk\<lparr>data_control_asil_path := Some p\<rparr>)"

definition control_permissions :: "LolaServiceInstanceDeployment \<Rightarrow> QualityType \<Rightarrow> permissions" where
  "control_permissions d level =
     (let users = (case map_of (allowed_consumer d) level of None \<Rightarrow> [] | Some us \<Rightarrow> us)
      in if users = [] \<and> \<not> strict_permissions d then WorldWritable else UserPermissions users users)"

definition data_permissions :: "LolaServiceInstanceDeployment \<Rightarrow> permissions" where
  "data_permissions d =
     (let users = concat (map snd (allowed_consumer d))
      in if users = [] \<and> \<not> strict_permissions d then WorldReadable else UserPermissions users [])"

definition CreateSharedMemoryForControl ::
    "'s restart_os \<Rightarrow> LolaServiceInstanceDeployment \<Rightarrow> QualityType \<Rightarrow> u64 \<Rightarrow> skeleton \<Rightarrow> ('v, 's) shm_world \<Rightarrow>
     (bool \<times> skeleton \<times> ('v, 's) shm_world) run" where
  "CreateSharedMemoryForControl os d level shm_size sk w = do {
     n \<leftarrow> instance_number (skeleton_identifier sk);
     path \<leftarrow> GetControlChannelShmName (path_service_id sk) n level;
     (case on_system (shm_create os path shm_size (control_permissions d level) False) w of
        (None, w) \<Rightarrow> Some (False, set_control_resource level None sk, w)
      | (Some r, w) \<Rightarrow>
          (let (sk, w) = InitializeSharedMemoryForControl level r sk w
           in Some (True, set_control_path level path (set_control_resource level (Some r) sk), w))) }"

definition CreateSharedMemoryForData ::
    "'s restart_os \<Rightarrow> pid_t \<Rightarrow> LolaServiceInstanceDeployment \<Rightarrow> u64 \<Rightarrow> bool \<Rightarrow> skeleton \<Rightarrow> ('v, 's) shm_world \<Rightarrow>
     (bool \<times> skeleton \<times> ('v, 's) shm_world) run" where
  "CreateSharedMemoryForData os pid d shm_size traced sk w = do {
     n \<leftarrow> instance_number (skeleton_identifier sk);
     path \<leftarrow> GetDataChannelShmName (path_service_id sk) n;
     (case on_system (shm_create os path shm_size (data_permissions d) traced) w of
        (None, w) \<Rightarrow> Some (False, sk, w)
      | (Some r, w) \<Rightarrow> do {
          let (sk, w) = InitializeSharedMemoryForData pid r sk w;
          amp_require (shm_in_typed_memory os r (system w) \<longrightarrow> traced);
          Some (True, sk\<lparr>data_storage_path := Some path\<rparr>, w) }) }"

subsection \<open>The sizes\<close>

fun prepare_trial ::
    "'v bound_events \<Rightarrow> skeleton \<Rightarrow> ('v, 's) shm_world \<Rightarrow> ('v bound_events \<times> skeleton \<times> ('v, 's) shm_world) run" where
  "prepare_trial [] sk w = Some ([], sk, w)"
| "prepare_trial ((name, ev) # evs) sk w = do {
     (_, ev, sk, w) \<leftarrow> SkeletonEvent_PrepareOffer sk ev w;
     (evs, sk, w) \<leftarrow> prepare_trial evs sk w;
     Some ((name, ev) # evs, sk, w) }"

text \<open>The heap resources of the trial run and their initialisation, in the order of the code.\<close>

definition trial_memory_b ::
    "'s restart_os \<Rightarrow> LolaServiceTypeDeployment \<Rightarrow> u16 \<Rightarrow> skeleton \<Rightarrow> ('v, 's) shm_world \<Rightarrow> skeleton \<times> ('v, 's) shm_world" where
  "trial_memory_b os td n sk w =
     (if HasAsilBSupport (skeleton_identifier sk) then
        (let (b, w) = on_system (shm_new_delete_resource os (CalculateMemoryResourceId (service_id td) n kControl_ASIL_B)) w
         in InitializeSharedMemoryForControl kASIL_B b (sk\<lparr>control_asil_resource := Some b\<rparr>) w)
      else (sk, w))"

definition trial_memory ::
    "'s restart_os \<Rightarrow> pid_t \<Rightarrow> LolaServiceTypeDeployment \<Rightarrow> u16 \<Rightarrow> skeleton \<Rightarrow> ('v, 's) shm_world \<Rightarrow>
     skeleton \<times> ('v, 's) shm_world" where
  "trial_memory os pid td n sk w =
     (let (qm, w) = on_system (shm_new_delete_resource os (CalculateMemoryResourceId (service_id td) n kControl_QM)) w;
          sk = sk\<lparr>control_qm_resource := Some qm\<rparr>;
          (data, w) = on_system (shm_new_delete_resource os (CalculateMemoryResourceId (service_id td) n kData)) w;
          sk = sk\<lparr>storage_resource := Some data\<rparr>;
          (sk, w) = InitializeSharedMemoryForControl kASIL_QM qm sk w;
          (sk, w) = trial_memory_b os td n sk w
      in InitializeSharedMemoryForData pid data sk w)"

definition CalculateShmResourceStorageSizesBySimulation ::
    "'s restart_os \<Rightarrow> 'v lola_runtime \<Rightarrow> 'v bound_events \<Rightarrow> 'v bound_events \<Rightarrow> skeleton \<Rightarrow> ('v, 's) shm_world \<Rightarrow>
     (ShmResourceStorageSizes \<times> 'v bound_events \<times> 'v bound_events \<times> skeleton \<times> ('v, 's) shm_world) run" where
  "CalculateShmResourceStorageSizesBySimulation os rt events field_bindings sk w = do {
     let i = skeleton_identifier sk;
     td \<leftarrow> GetLolaServiceTypeDeployment i;
     n \<leftarrow> instance_number i;
     let (sk, w) = trial_memory os (GetPid rt) td n sk w;
     (events, sk, w) \<leftarrow> prepare_trial events sk w;
     (field_bindings, sk, w) \<leftarrow> prepare_trial field_bindings sk w;
     qm \<leftarrow> control_qm_resource sk;
     data \<leftarrow> storage_resource sk;
     b_size \<leftarrow> (if HasAsilBSupport i then do {
                  b \<leftarrow> control_asil_resource sk;
                  Some (Some (control_bytes rt (control_sections w b))) } else Some None);
     Some (\<lparr>data_size = data_bytes rt (data_sections w data), control_qm_size = control_bytes rt (control_sections w qm),
            control_asil_b_size = b_size\<rparr>, events, field_bindings, sk, w) }"

definition CalculateShmResourceStorageSizesByEstimation ::
    "'v lola_runtime \<Rightarrow> 'v bound_events \<Rightarrow> 'v bound_events \<Rightarrow> skeleton \<Rightarrow> ShmResourceStorageSizes run" where
  "CalculateShmResourceStorageSizesByEstimation rt events field_bindings sk = do {
     d \<leftarrow> GetLolaServiceInstanceDeployment (skeleton_identifier sk);
     qm_size \<leftarrow> EstimateControlShmResourceSize (shm_type_sizes rt) d events field_bindings;
     storage_size \<leftarrow> EstimateDataShmResourceSize (shm_type_sizes rt) d events field_bindings;
     Some \<lparr>data_size = storage_size, control_qm_size = qm_size,
           control_asil_b_size = (if HasAsilBSupport (skeleton_identifier sk) then Some qm_size else None)\<rparr> }"

definition CalculateShmResourceStorageSizes ::
    "'s restart_os \<Rightarrow> 'v lola_runtime \<Rightarrow> 'v bound_events \<Rightarrow> 'v bound_events \<Rightarrow> skeleton \<Rightarrow> ('v, 's) shm_world \<Rightarrow>
     (ShmResourceStorageSizes \<times> 'v bound_events \<times> 'v bound_events \<times> skeleton \<times> ('v, 's) shm_world) run" where
  "CalculateShmResourceStorageSizes os rt events field_bindings sk w = do {
     (result, events, field_bindings, sk, w) \<leftarrow>
       (case GetShmSizeCalculationMode rt of
          kSimulation \<Rightarrow> CalculateShmResourceStorageSizesBySimulation os rt events field_bindings sk w
        | kEstimation \<Rightarrow> do {
            sizes \<leftarrow> CalculateShmResourceStorageSizesByEstimation rt events field_bindings sk;
            Some (sizes, events, field_bindings, sk, w) });
     d \<leftarrow> GetLolaServiceInstanceDeployment (skeleton_identifier sk);
     (case shared_memory_size d of
        Some n \<Rightarrow> Some (result\<lparr>data_size := n\<rparr>, events, field_bindings, sk, w)
      | None \<Rightarrow> Some (result, events, field_bindings, sk, w)) }"

definition CreateSharedMemory ::
    "'s restart_os \<Rightarrow> 'v lola_runtime \<Rightarrow> bool \<Rightarrow> 'v bound_events \<Rightarrow> 'v bound_events \<Rightarrow> skeleton \<Rightarrow> ('v, 's) shm_world \<Rightarrow>
     (result_blank \<times> 'v bound_events \<times> 'v bound_events \<times> skeleton \<times> ('v, 's) shm_world) run" where
  "CreateSharedMemory os rt traced events field_bindings sk w = do {
     (sizes, events, field_bindings, sk, w) \<leftarrow> CalculateShmResourceStorageSizes os rt events field_bindings sk w;
     d \<leftarrow> GetLolaServiceInstanceDeployment (skeleton_identifier sk);
     (ok, sk, w) \<leftarrow> CreateSharedMemoryForControl os d kASIL_QM (control_qm_size sizes) sk w;
     if \<not> ok then Some (Inl kErroneousFileHandle, events, field_bindings, sk, w)
     else do {
       (ok, sk, w) \<leftarrow> (if HasAsilBSupport (skeleton_identifier sk) then do {
                        b_size \<leftarrow> control_asil_b_size sizes;
                        CreateSharedMemoryForControl os d kASIL_B b_size sk w }
                      else Some (True, sk, w));
       if \<not> ok then Some (Inl kErroneousFileHandle, events, field_bindings, sk, w)
       else do {
         (ok, sk, w) \<leftarrow> CreateSharedMemoryForData os (GetPid rt) d (data_size sizes) traced sk w;
         Some ((if ok then Inr () else Inl kErroneousFileHandle), events, field_bindings, sk, w) } } }"

subsection \<open>Memory that is still in use\<close>

definition OpenSharedMemoryForControl ::
    "'s restart_os \<Rightarrow> QualityType \<Rightarrow> skeleton \<Rightarrow> ('v, 's) shm_world \<Rightarrow> (bool \<times> skeleton \<times> ('v, 's) shm_world) run" where
  "OpenSharedMemoryForControl os level sk w = do {
     path \<leftarrow> GetControlChannelShmPath (skeleton_identifier sk) level (path_service_id sk);
     (case on_system (shm_open os path True None) w of
        (None, w) \<Rightarrow> Some (False, set_control_resource level None sk, w)
      | (Some r, w) \<Rightarrow>
          (let sk = set_control_path level path (set_control_resource level (Some r) sk)
           in Some (True, (if level = kASIL_QM then sk\<lparr>control_qm := Some r\<rparr> else sk\<lparr>control_asil_b := Some r\<rparr>), w))) }"

definition OpenSharedMemoryForData ::
    "'s restart_os \<Rightarrow> pid_t \<Rightarrow> bool \<Rightarrow> skeleton \<Rightarrow> ('v, 's) shm_world \<Rightarrow> (bool \<times> skeleton \<times> ('v, 's) shm_world) run" where
  "OpenSharedMemoryForData os pid traced sk w = do {
     path \<leftarrow> GetDataChannelShmPath (skeleton_identifier sk) (path_service_id sk);
     (case on_system (shm_open os path True None) w of
        (None, w) \<Rightarrow> Some (False, sk, w)
      | (Some r, w) \<Rightarrow> do {
          let sk = sk\<lparr>data_storage_path := Some path, storage_resource := Some r, storage_ptr := Some r\<rparr>;
          let w = set_data r ((data_sections w r)\<lparr>skeleton_pid := pid\<rparr>) w;
          amp_require (shm_in_typed_memory os r (system w) \<longrightarrow> traced);
          Some (True, sk, w) }) }"

definition OpenExistingSharedMemory ::
    "'s restart_os \<Rightarrow> pid_t \<Rightarrow> bool \<Rightarrow> skeleton \<Rightarrow> ('v, 's) shm_world \<Rightarrow> (result_blank \<times> skeleton \<times> ('v, 's) shm_world) run" where
  "OpenExistingSharedMemory os pid traced sk w = do {
     (ok, sk, w) \<leftarrow> OpenSharedMemoryForControl os kASIL_QM sk w;
     if \<not> ok then Some (Inl kErroneousFileHandle, sk, w)
     else do {
       (ok, sk, w) \<leftarrow> (if HasAsilBSupport (skeleton_identifier sk) then OpenSharedMemoryForControl os kASIL_B sk w
                      else Some (True, sk, w));
       if \<not> ok then Some (Inl kErroneousFileHandle, sk, w)
       else do {
         (ok, sk, w) \<leftarrow> OpenSharedMemoryForData os pid traced sk w;
         Some ((if ok then Inr () else Inl kErroneousFileHandle), sk, w) } } }"

fun remove_allocations ::
    "(element_fq_id \<times> slot_address service_event_control) list \<Rightarrow> slot_address edc_world \<Rightarrow> slot_address edc_world run" where
  "remove_allocations [] sw = Some sw"
| "remove_allocations ((e, ec) # ecs) sw = do {
     sw \<leftarrow> RemoveAllocationsForWriting (data_control ec) sw;
     remove_allocations ecs sw }"

definition CleanupSharedMemoryAfterCrash :: "skeleton \<Rightarrow> ('v, 's) shm_world \<Rightarrow> ('v, 's) shm_world run" where
  "CleanupSharedMemoryAfterCrash sk w = do {
     qm \<leftarrow> control_qm sk;
     sw \<leftarrow> remove_allocations (event_controls (control_sections w qm)) (slot_sections w);
     sw \<leftarrow> (case control_asil_b sk of
              None \<Rightarrow> Some sw
            | Some b \<Rightarrow> remove_allocations (event_controls (control_sections w b)) sw);
     Some (w\<lparr>slot_sections := sw\<rparr>) }"

subsection \<open>Offering and stopping\<close>

text \<open>
  The usage marker file of an earlier call is closed when it is replaced. \<open>Skeleton_PrepareOffer_lock\<close> is
  the first part of the function, up to the decision whether the old memory is used;
  \<open>Skeleton_PrepareOffer_memory\<close> is the rest, which ends with the release of the lock.
\<close>

definition Skeleton_PrepareOffer_lock ::
    "'s restart_os \<Rightarrow> skeleton \<Rightarrow> ('v, 's) shm_world \<Rightarrow> (result_blank \<times> skeleton \<times> ('v, 's) shm_world) run" where
  "Skeleton_PrepareOffer_lock os sk w = do {
     let i = skeleton_identifier sk;
     _ \<leftarrow> GetLolaServiceTypeDeployment i;
     (file, w) \<leftarrow> CreateOrOpenServiceInstanceUsageMarkerFile os i (path_service_id sk) w;
     let w = destroy_optional os (usage_marker_file sk) w;
     let sk = sk\<lparr>usage_marker_file := file\<rparr>;
     (case file of
        None \<Rightarrow> Some (Inl kBindingFailure, sk, w)
      | Some h \<Rightarrow>
          (let (locked, w) = on_system (os_try_lock os h) w
           in Some (Inr (), sk\<lparr>was_old_shm_region_reopened := \<not> locked\<rparr>, w))) }"

definition Skeleton_PrepareOffer_memory ::
    "'s restart_os \<Rightarrow> 'v lola_runtime \<Rightarrow> bool \<Rightarrow> 'v bound_events \<Rightarrow> 'v bound_events \<Rightarrow> skeleton \<Rightarrow> ('v, 's) shm_world \<Rightarrow>
     (result_blank \<times> 'v bound_events \<times> 'v bound_events \<times> skeleton \<times> ('v, 's) shm_world) run" where
  "Skeleton_PrepareOffer_memory os rt traced events field_bindings sk w =
     (if \<not> was_old_shm_region_reopened sk then do {
        w \<leftarrow> RemoveStaleSharedMemoryArtefacts os sk w;
        (result, events, field_bindings, sk, w) \<leftarrow> CreateSharedMemory os rt traced events field_bindings sk w;
        h \<leftarrow> usage_marker_file sk;
        Some (result, events, field_bindings, sk, do_system (os_unlock os h) w) }
      else do {
        (result, sk, w) \<leftarrow> OpenExistingSharedMemory os (GetPid rt) traced sk w;
        (case result of
           Inl e \<Rightarrow> Some (Inl e, events, field_bindings, sk, w)
         | Inr _ \<Rightarrow> do {
             w \<leftarrow> CleanupSharedMemoryAfterCrash sk w;
             Some (Inr (), events, field_bindings, sk, w) }) })"

definition Skeleton_PrepareOffer ::
    "'s restart_os \<Rightarrow> 'v lola_runtime \<Rightarrow> bool \<Rightarrow> 'v bound_events \<Rightarrow> 'v bound_events \<Rightarrow> skeleton \<Rightarrow> ('v, 's) shm_world \<Rightarrow>
     (result_blank \<times> 'v bound_events \<times> 'v bound_events \<times> skeleton \<times> ('v, 's) shm_world) run" where
  "Skeleton_PrepareOffer os rt traced events field_bindings sk w = do {
     (result, sk, w) \<leftarrow> Skeleton_PrepareOffer_lock os sk w;
     (case result of
        Inl e \<Rightarrow> Some (Inl e, events, field_bindings, sk, w)
      | Inr _ \<Rightarrow> Skeleton_PrepareOffer_memory os rt traced events field_bindings sk w) }"

definition Skeleton_FinalizeOffer :: result_blank where
  "Skeleton_FinalizeOffer = Inr ()"

text \<open>
  The two parts of \<open>PrepareStopOffer\<close>: the attempt to lock the usage marker file, and what follows when it
  has been locked. The lock is released after the memory has been removed.
\<close>

definition Skeleton_PrepareStopOffer_lock :: "'s restart_os \<Rightarrow> skeleton \<Rightarrow> ('v, 's) shm_world \<Rightarrow> (bool \<times> ('v, 's) shm_world) run" where
  "Skeleton_PrepareStopOffer_lock os sk w = do {
     h \<leftarrow> usage_marker_file sk;
     Some (on_system (os_try_lock os h) w) }"

definition Skeleton_PrepareStopOffer_remove :: "'s restart_os \<Rightarrow> skeleton \<Rightarrow> ('v, 's) shm_world \<Rightarrow> (skeleton \<times> ('v, 's) shm_world) run" where
  "Skeleton_PrepareStopOffer_remove os sk w = do {
     h \<leftarrow> usage_marker_file sk;
     let (sk, w) = RemoveSharedMemory os sk w;
     let w = do_system (os_destroy os h) (do_system (os_unlock os h) w);
     Some (sk\<lparr>usage_marker_file := None, storage_ptr := None, control_qm := None, control_asil_b := None\<rparr>, w) }"

definition Skeleton_PrepareStopOffer :: "'s restart_os \<Rightarrow> skeleton \<Rightarrow> ('v, 's) shm_world \<Rightarrow> (skeleton \<times> ('v, 's) shm_world) run" where
  "Skeleton_PrepareStopOffer os sk w = do {
     (locked, w) \<leftarrow> Skeleton_PrepareStopOffer_lock os sk w;
     if \<not> locked then Some (sk, w) else Skeleton_PrepareStopOffer_remove os sk w }"

end
