(* ===== verification/Skeleton_Base.thy ===== *)
theory Skeleton_Base
  imports Skeleton_Offer
begin

text \<open>
  The skeleton of the user interface: \<open>SkeletonBase\<close> (skeleton_base.h/.cpp) with its events
  (skeleton_event_base.h, skeleton_event.h) and fields (skeleton_field_base.h, skeleton_field.h) and the
  flags of their offers (flag_owner.h).

  These classes know the binding by its abstract classes (\<open>SkeletonBinding\<close>, \<open>SkeletonEventBinding\<close>,
  \<open>IServiceDiscovery\<close>) only. The virtual functions are the record \<open>offer_interface\<close>, an argument of the
  operations; \<open>'w\<close> is the state of the binding of the skeleton and of what it works on, \<open>'e\<close> the binding of
  an event. \<open>Offered_Service\<close> puts the LoLa binding in. A null pointer that is dereferenced ends the process;
  tracing is a Boolean as in \<open>Skeleton_Offer\<close>.
\<close>

subsection \<open>The interface of a binding\<close>

record ('e, 'p, 'v, 'w) offer_interface =
  binding_PrepareOffer ::
    "(string \<times> 'e) list \<Rightarrow> (string \<times> 'e) list \<Rightarrow> bool \<Rightarrow> 'w \<Rightarrow> (result_blank \<times> (string \<times> 'e) list \<times> (string \<times> 'e) list \<times> 'w) run"
  binding_FinalizeOffer :: "'w \<Rightarrow> (result_blank \<times> 'w) run"
  binding_PrepareStopOffer :: "bool \<Rightarrow> 'w \<Rightarrow> 'w run"
  event_PrepareOffer :: "'e \<Rightarrow> 'w \<Rightarrow> (result_blank \<times> 'e \<times> 'w) run"
  event_PrepareStopOffer :: "'e \<Rightarrow> 'w \<Rightarrow> 'w run"
  event_Send :: "'v \<Rightarrow> 'e \<Rightarrow> 'w \<Rightarrow> (result_blank \<times> 'e \<times> 'w) run"
  event_Send_sample :: "'p option \<Rightarrow> 'e \<Rightarrow> 'w \<Rightarrow> (result_blank \<times> 'e \<times> 'w) run"
  event_Allocate :: "'e \<Rightarrow> 'w \<Rightarrow> ('p result \<times> 'e \<times> 'w) run"
  discovery_OfferService :: "'w \<Rightarrow> (result_blank \<times> 'w) run"
  discovery_StopOfferService :: "'w \<Rightarrow> (result_blank \<times> 'w) run"

definition succeeded :: "'a result \<Rightarrow> bool" where
  "succeeded r = (case r of Inl _ \<Rightarrow> False | Inr _ \<Rightarrow> True)"

lemma succeeded_simps [simp]: "\<not> succeeded (Inl e)" "succeeded (Inr x)"
  by (simp_all add: succeeded_def)

definition or_binding_failure :: "'a result \<Rightarrow> 'a result" where
  "or_binding_failure r = (case r of Inl _ \<Rightarrow> Inl kBindingFailure | Inr x \<Rightarrow> Inr x)"

text \<open>A moved flag: the new one and what is left in the old one.\<close>

definition FlagOwner_move :: "bool \<Rightarrow> bool \<times> bool" where
  "FlagOwner_move flag = (flag, False)"

subsection \<open>Events\<close>

record 'e event_base =
  event_binding :: "'e option"
  event_offered :: bool

definition SkeletonEventBase :: "'e option \<Rightarrow> 'e event_base" where
  "SkeletonEventBase e = \<lparr>event_binding = e, event_offered = False\<rparr>"

definition EventBase_PrepareOffer ::
    "('e, 'p, 'v, 'w) offer_interface \<Rightarrow> 'e event_base \<Rightarrow> 'w \<Rightarrow> (result_blank \<times> 'e event_base \<times> 'w) run" where
  "EventBase_PrepareOffer b eb w = do {
     e \<leftarrow> event_binding eb;
     (result, e, w) \<leftarrow> event_PrepareOffer b e w;
     Some (result, eb\<lparr>event_binding := Some e, event_offered := event_offered eb \<or> succeeded result\<rparr>, w) }"

definition EventBase_PrepareStopOffer ::
    "('e, 'p, 'v, 'w) offer_interface \<Rightarrow> 'e event_base \<Rightarrow> 'w \<Rightarrow> ('e event_base \<times> 'w) run" where
  "EventBase_PrepareStopOffer b eb w =
     (if event_offered eb then do {
        e \<leftarrow> event_binding eb;
        w \<leftarrow> event_PrepareStopOffer b e w;
        Some (eb\<lparr>event_offered := False\<rparr>, w) }
      else Some (eb, w))"

text \<open>The assignment of another event: the new one and what is left of the other.\<close>

definition EventBase_move_assign ::
    "('e, 'p, 'v, 'w) offer_interface \<Rightarrow> 'e event_base \<Rightarrow> 'e event_base \<Rightarrow> 'w \<Rightarrow> ('e event_base \<times> 'e event_base \<times> 'w) run" where
  "EventBase_move_assign b this other w = do {
     (this, w) \<leftarrow> EventBase_PrepareStopOffer b this w;
     let (flag, other_flag) = FlagOwner_move (event_offered other);
     Some (this\<lparr>event_binding := event_binding other, event_offered := flag\<rparr>,
           other\<lparr>event_binding := None, event_offered := other_flag\<rparr>, w) }"

definition Event_Send ::
    "('e, 'p, 'v, 'w) offer_interface \<Rightarrow> 'v \<Rightarrow> 'e event_base \<Rightarrow> 'w \<Rightarrow> (result_blank \<times> 'e event_base \<times> 'w) run" where
  "Event_Send b v eb w =
     (if \<not> event_offered eb then Some (Inl kNotOffered, eb, w)
      else do {
        e \<leftarrow> event_binding eb;
        (send_result, e, w) \<leftarrow> event_Send b v e w;
        Some (or_binding_failure send_result, eb\<lparr>event_binding := Some e\<rparr>, w) })"

definition Event_Send_sample ::
    "('e, 'p, 'v, 'w) offer_interface \<Rightarrow> 'p option \<Rightarrow> 'e event_base \<Rightarrow> 'w \<Rightarrow> (result_blank \<times> 'e event_base \<times> 'w) run" where
  "Event_Send_sample b sample eb w = do {
     e \<leftarrow> event_binding eb;
     (send_result, e, w) \<leftarrow> event_Send_sample b sample e w;
     Some (or_binding_failure send_result, eb\<lparr>event_binding := Some e\<rparr>, w) }"

definition Event_Allocate ::
    "('e, 'p, 'v, 'w) offer_interface \<Rightarrow> 'e event_base \<Rightarrow> 'w \<Rightarrow> ('p result \<times> 'e event_base \<times> 'w) run" where
  "Event_Allocate b eb w =
     (if \<not> event_offered eb then Some (Inl kNotOffered, eb, w)
      else do {
        e \<leftarrow> event_binding eb;
        (allocate_result, e, w) \<leftarrow> event_Allocate b e w;
        Some (or_binding_failure allocate_result, eb\<lparr>event_binding := Some e\<rparr>, w) })"

subsection \<open>Fields\<close>

record ('e, 'v) field_base =
  field_event :: "'e event_base"
  was_prepare_offer_called :: bool
  initial_field_value :: "'v option"

definition SkeletonFieldBase :: "'e option \<Rightarrow> ('e, 'v) field_base" where
  "SkeletonFieldBase e =
     \<lparr>field_event = SkeletonEventBase e, was_prepare_offer_called = False, initial_field_value = None\<rparr>"

definition Field_DoDeferredUpdate ::
    "('e, 'p, 'v, 'w) offer_interface \<Rightarrow> ('e, 'v) field_base \<Rightarrow> 'w \<Rightarrow> (result_blank \<times> ('e, 'v) field_base \<times> 'w) run" where
  "Field_DoDeferredUpdate b fb w = do {
     v \<leftarrow> initial_field_value fb;
     (update_result, eb, w) \<leftarrow> Event_Send b v (field_event fb) w;
     let fb = fb\<lparr>field_event := eb\<rparr>;
     if \<not> succeeded update_result then Some (update_result, fb, w)
     else Some (Inr (), fb\<lparr>initial_field_value := None\<rparr>, w) }"

definition FieldBase_PrepareOffer ::
    "('e, 'p, 'v, 'w) offer_interface \<Rightarrow> ('e, 'v) field_base \<Rightarrow> 'w \<Rightarrow> (result_blank \<times> ('e, 'v) field_base \<times> 'w) run" where
  "FieldBase_PrepareOffer b fb w =
     (if \<not> was_prepare_offer_called fb then
        if Option.is_none (initial_field_value fb) then Some (Inl kFieldValueIsNotValid, fb, w)
        else do {
          (prepare_offer_result, eb, w) \<leftarrow> EventBase_PrepareOffer b (field_event fb) w;
          let fb = fb\<lparr>field_event := eb\<rparr>;
          if \<not> succeeded prepare_offer_result then Some (prepare_offer_result, fb, w)
          else do {
            (update_field_result, fb, w) \<leftarrow> Field_DoDeferredUpdate b fb w;
            Some (update_field_result,
                  (if succeeded update_field_result then fb\<lparr>was_prepare_offer_called := True\<rparr> else fb), w) } }
      else do {
        (result, eb, w) \<leftarrow> EventBase_PrepareOffer b (field_event fb) w;
        Some (result, fb\<lparr>field_event := eb\<rparr>, w) })"

definition FieldBase_PrepareStopOffer ::
    "('e, 'p, 'v, 'w) offer_interface \<Rightarrow> ('e, 'v) field_base \<Rightarrow> 'w \<Rightarrow> (('e, 'v) field_base \<times> 'w) run" where
  "FieldBase_PrepareStopOffer b fb w = do {
     (eb, w) \<leftarrow> EventBase_PrepareStopOffer b (field_event fb) w;
     Some (fb\<lparr>field_event := eb\<rparr>, w) }"

definition Field_Update ::
    "('e, 'p, 'v, 'w) offer_interface \<Rightarrow> 'v \<Rightarrow> ('e, 'v) field_base \<Rightarrow> 'w \<Rightarrow> (result_blank \<times> ('e, 'v) field_base \<times> 'w) run" where
  "Field_Update b v fb w =
     (if \<not> was_prepare_offer_called fb then Some (Inr (), fb\<lparr>initial_field_value := Some v\<rparr>, w)
      else do {
        (result, eb, w) \<leftarrow> Event_Send b v (field_event fb) w;
        Some (result, fb\<lparr>field_event := eb\<rparr>, w) })"

definition Field_Update_sample ::
    "('e, 'p, 'v, 'w) offer_interface \<Rightarrow> 'p option \<Rightarrow> ('e, 'v) field_base \<Rightarrow> 'w \<Rightarrow>
     (result_blank \<times> ('e, 'v) field_base \<times> 'w) run" where
  "Field_Update_sample b sample fb w = do {
     (result, eb, w) \<leftarrow> Event_Send_sample b sample (field_event fb) w;
     Some (result, fb\<lparr>field_event := eb\<rparr>, w) }"

definition Field_Allocate ::
    "('e, 'p, 'v, 'w) offer_interface \<Rightarrow> ('e, 'v) field_base \<Rightarrow> 'w \<Rightarrow> ('p result \<times> ('e, 'v) field_base \<times> 'w) run" where
  "Field_Allocate b fb w =
     (if \<not> was_prepare_offer_called fb then Some (Inl kBindingFailure, fb, w)
      else do {
        (result, eb, w) \<leftarrow> Event_Allocate b (field_event fb) w;
        Some (result, fb\<lparr>field_event := eb\<rparr>, w) })"

subsection \<open>The skeleton\<close>

text \<open>The maps of events and fields are lists in the order of their names.\<close>

record ('e, 'v) skeleton_base =
  has_binding :: bool
  base_events :: "(string \<times> 'e event_base) list"
  base_fields :: "(string \<times> ('e, 'v) field_base) list"
  service_offered :: bool

definition SkeletonBase :: "bool \<Rightarrow> ('e, 'v) skeleton_base" where
  "SkeletonBase binding = \<lparr>has_binding = binding, base_events = [], base_fields = [], service_offered = False\<rparr>"

fun GetSkeletonEventBindingsMap :: "(string \<times> 'e event_base) list \<Rightarrow> (string \<times> 'e) list run" where
  "GetSkeletonEventBindingsMap [] = Some []"
| "GetSkeletonEventBindingsMap ((name, eb) # ebs) = do {
     e \<leftarrow> event_binding eb;
     es \<leftarrow> GetSkeletonEventBindingsMap ebs;
     Some ((name, e) # es) }"

definition GetSkeletonFieldBindingsMap :: "(string \<times> ('e, 'v) field_base) list \<Rightarrow> (string \<times> 'e) list run" where
  "GetSkeletonFieldBindingsMap fbs = GetSkeletonEventBindingsMap (map (\<lambda>(name, fb). (name, field_event fb)) fbs)"

text \<open>The binding gets references to the bindings of the events and may change these.\<close>

definition put_event_bindings :: "(string \<times> 'e) list \<Rightarrow> (string \<times> 'e event_base) list \<Rightarrow> (string \<times> 'e event_base) list" where
  "put_event_bindings es ebs = map2 (\<lambda>(_, e) (name, eb). (name, eb\<lparr>event_binding := Some e\<rparr>)) es ebs"

definition put_field_bindings ::
    "(string \<times> 'e) list \<Rightarrow> (string \<times> ('e, 'v) field_base) list \<Rightarrow> (string \<times> ('e, 'v) field_base) list" where
  "put_field_bindings es fbs =
     map2 (\<lambda>(_, e) (name, fb). (name, fb\<lparr>field_event := (field_event fb)\<lparr>event_binding := Some e\<rparr>\<rparr>)) es fbs"

fun OfferServiceEvents ::
    "('e, 'p, 'v, 'w) offer_interface \<Rightarrow> (string \<times> 'e event_base) list \<Rightarrow> 'w \<Rightarrow>
     (result_blank \<times> (string \<times> 'e event_base) list \<times> 'w) run" where
  "OfferServiceEvents b [] w = Some (Inr (), [], w)"
| "OfferServiceEvents b ((name, eb) # ebs) w = do {
     (offer_result, eb, w) \<leftarrow> EventBase_PrepareOffer b eb w;
     if \<not> succeeded offer_result then Some (Inl kBindingFailure, (name, eb) # ebs, w)
     else do {
       (result, ebs, w) \<leftarrow> OfferServiceEvents b ebs w;
       Some (result, (name, eb) # ebs, w) } }"

fun OfferServiceFields ::
    "('e, 'p, 'v, 'w) offer_interface \<Rightarrow> (string \<times> ('e, 'v) field_base) list \<Rightarrow> 'w \<Rightarrow>
     (result_blank \<times> (string \<times> ('e, 'v) field_base) list \<times> 'w) run" where
  "OfferServiceFields b [] w = Some (Inr (), [], w)"
| "OfferServiceFields b ((name, fb) # fbs) w = do {
     (offer_result, fb, w) \<leftarrow> FieldBase_PrepareOffer b fb w;
     if \<not> succeeded offer_result then
       Some (Inl (if offer_result = Inl kFieldValueIsNotValid then kFieldValueIsNotValid else kBindingFailure),
             (name, fb) # fbs, w)
     else do {
       (result, fbs, w) \<leftarrow> OfferServiceFields b fbs w;
       Some (result, (name, fb) # fbs, w) } }"

text \<open>The last part of \<open>OfferService\<close>, after the events and the fields have been offered.\<close>

definition OfferService_publish ::
    "('e, 'p, 'v, 'w) offer_interface \<Rightarrow> ('e, 'v) skeleton_base \<Rightarrow> 'w \<Rightarrow> (result_blank \<times> ('e, 'v) skeleton_base \<times> 'w) run" where
  "OfferService_publish b sb w = do {
     let sb = sb\<lparr>service_offered := True\<rparr>;
     (finalize_offer_result, w) \<leftarrow> binding_FinalizeOffer b w;
     if \<not> succeeded finalize_offer_result then Some (Inl kBindingFailure, sb, w)
     else do {
       (service_discovery_offer_result, w) \<leftarrow> discovery_OfferService b w;
       Some (or_binding_failure service_discovery_offer_result, sb, w) } }"

definition OfferService_elements ::
    "('e, 'p, 'v, 'w) offer_interface \<Rightarrow> ('e, 'v) skeleton_base \<Rightarrow> 'w \<Rightarrow> (result_blank \<times> ('e, 'v) skeleton_base \<times> 'w) run" where
  "OfferService_elements b sb w = do {
     (event_verification_result, ebs, w) \<leftarrow> OfferServiceEvents b (base_events sb) w;
     let sb = sb\<lparr>base_events := ebs\<rparr>;
     if \<not> succeeded event_verification_result then Some (event_verification_result, sb, w)
     else do {
       (fields_verification_result, fbs, w) \<leftarrow> OfferServiceFields b (base_fields sb) w;
       let sb = sb\<lparr>base_fields := fbs\<rparr>;
       if \<not> succeeded fields_verification_result then Some (fields_verification_result, sb, w)
       else OfferService_publish b sb w } }"

definition SkeletonBase_OfferService ::
    "('e, 'p, 'v, 'w) offer_interface \<Rightarrow> bool \<Rightarrow> ('e, 'v) skeleton_base \<Rightarrow> 'w \<Rightarrow>
     (result_blank \<times> ('e, 'v) skeleton_base \<times> 'w) run" where
  "SkeletonBase_OfferService b traced sb w =
     (if \<not> has_binding sb then None
      else do {
        es \<leftarrow> GetSkeletonEventBindingsMap (base_events sb);
        fs \<leftarrow> GetSkeletonFieldBindingsMap (base_fields sb);
        (result, es, fs, w) \<leftarrow> binding_PrepareOffer b es fs traced w;
        let sb = sb\<lparr>base_events := put_event_bindings es (base_events sb),
                    base_fields := put_field_bindings fs (base_fields sb)\<rparr>;
        if \<not> succeeded result then Some (Inl kBindingFailure, sb, w)
        else OfferService_elements b sb w })"

fun stop_offer_events ::
    "('e, 'p, 'v, 'w) offer_interface \<Rightarrow> (string \<times> 'e event_base) list \<Rightarrow> 'w \<Rightarrow>
     ((string \<times> 'e event_base) list \<times> 'w) run" where
  "stop_offer_events b [] w = Some ([], w)"
| "stop_offer_events b ((name, eb) # ebs) w = do {
     (eb, w) \<leftarrow> EventBase_PrepareStopOffer b eb w;
     (ebs, w) \<leftarrow> stop_offer_events b ebs w;
     Some ((name, eb) # ebs, w) }"

fun stop_offer_fields ::
    "('e, 'p, 'v, 'w) offer_interface \<Rightarrow> (string \<times> ('e, 'v) field_base) list \<Rightarrow> 'w \<Rightarrow>
     ((string \<times> ('e, 'v) field_base) list \<times> 'w) run" where
  "stop_offer_fields b [] w = Some ([], w)"
| "stop_offer_fields b ((name, fb) # fbs) w = do {
     (fb, w) \<leftarrow> FieldBase_PrepareStopOffer b fb w;
     (fbs, w) \<leftarrow> stop_offer_fields b fbs w;
     Some ((name, fb) # fbs, w) }"

definition StopOfferServiceInServiceDiscovery :: "('e, 'p, 'v, 'w) offer_interface \<Rightarrow> 'w \<Rightarrow> 'w run" where
  "StopOfferServiceInServiceDiscovery b w = map_option snd (discovery_StopOfferService b w)"

definition SkeletonBase_StopOfferService ::
    "('e, 'p, 'v, 'w) offer_interface \<Rightarrow> bool \<Rightarrow> ('e, 'v) skeleton_base \<Rightarrow> 'w \<Rightarrow> (('e, 'v) skeleton_base \<times> 'w) run" where
  "SkeletonBase_StopOfferService b traced sb w =
     (if has_binding sb \<and> service_offered sb then do {
        w \<leftarrow> StopOfferServiceInServiceDiscovery b w;
        (ebs, w) \<leftarrow> stop_offer_events b (base_events sb) w;
        (fbs, w) \<leftarrow> stop_offer_fields b (base_fields sb) w;
        w \<leftarrow> binding_PrepareStopOffer b traced w;
        Some (sb\<lparr>base_events := ebs, base_fields := fbs, service_offered := False\<rparr>, w) }
      else Some (sb, w))"

text \<open>The destructor; the events, which the derived class owns, have been destroyed before.\<close>

definition SkeletonBase_Cleanup ::
    "('e, 'p, 'v, 'w) offer_interface \<Rightarrow> bool \<Rightarrow> ('e, 'v) skeleton_base \<Rightarrow> 'w \<Rightarrow> (('e, 'v) skeleton_base \<times> 'w) run" where
  "SkeletonBase_Cleanup b traced sb w =
     (if service_offered sb then do {
        w \<leftarrow> StopOfferServiceInServiceDiscovery b w;
        amp_require (has_binding sb);
        w \<leftarrow> binding_PrepareStopOffer b traced w;
        Some (sb\<lparr>service_offered := False\<rparr>, w) }
      else Some (sb, w))"

text \<open>The new skeleton of a move and what is left of the old one.\<close>

definition SkeletonBase_move :: "('e, 'v) skeleton_base \<Rightarrow> ('e, 'v) skeleton_base \<times> ('e, 'v) skeleton_base" where
  "SkeletonBase_move other =
     (let (flag, other_flag) = FlagOwner_move (service_offered other)
      in (other\<lparr>service_offered := flag\<rparr>,
          other\<lparr>has_binding := False, base_events := [], base_fields := [], service_offered := other_flag\<rparr>))"

definition AreBindingsValid :: "('e, 'v) skeleton_base \<Rightarrow> bool" where
  "AreBindingsValid sb \<longleftrightarrow>
     has_binding sb \<and>
     list_all (\<lambda>(_, eb). \<not> Option.is_none (event_binding eb)) (base_events sb) \<and>
     list_all (\<lambda>(_, fb). \<not> Option.is_none (event_binding (field_event fb))) (base_fields sb)"

end
