(* ===== verification/Proxy_Binding.thy ===== *)
theory Proxy_Binding
  imports Skeleton_Offer
begin

text \<open>
  The proxy of the binding (proxy.h/.cpp): how it finds the shared memory of a service instance and holds
  on to it, and the registration of its events for the changes of the availability of the service.

  \<^item> A handle is the identifier that it was found for and the instance id that was found.
  \<^item> A proxy locks the usage marker file of the instance shared before it opens the memory and keeps the
    lock until it is destroyed. What it opens is the control section of its quality and the data section.
  \<^item> The data that a process keeps for the rollback of its logs (\<open>RollbackData\<close>) and its messaging are
    the ones of \<open>Rollback_Executor\<close>: \<open>local_data\<close>.
  \<^item> The service discovery is used through \<open>StartFindService\<close> and \<open>StopFindService\<close>, which are arguments;
    so is the virtual function of an event that is told about the availability. The mutex of the
    registration makes each of these operations one step.
\<close>

subsection \<open>The shared memory of a proxy\<close>

record proxy_handle =
  handle_for :: InstanceIdentifier
  handle_instance :: ServiceInstanceId

record element_id_converter =
  converter_service_id :: u16
  converter_events :: "(string, u8) table"
  converter_instance_id :: u16

record ('b, 'g) proxy =
  proxy_control :: region
  proxy_data :: region
  proxy_quality :: QualityType
  proxy_converter :: element_id_converter
  proxy_handle_of :: proxy_handle
  event_bindings :: "(string \<times> 'b) list"
  is_service_instance_available :: bool
  find_service_guard :: "'g option"
  proxy_usage_marker_file :: lock_file

record 'm local_data =
  rollback_set :: "region set"
  lola_messaging :: 'm

definition GetLoLaInstanceDeployment :: "proxy_handle \<Rightarrow> LolaServiceInstanceDeployment run" where
  "GetLoLaInstanceDeployment h = GetLolaServiceInstanceDeployment (handle_for h)"

definition GetLoLaServiceTypeDeployment :: "proxy_handle \<Rightarrow> LolaServiceTypeDeployment option" where
  "GetLoLaServiceTypeDeployment h =
     (case type_deployment (handle_for h) of LolaType d \<Rightarrow> Some d | BlankType \<Rightarrow> None)"

definition lola_instance_of :: "proxy_handle \<Rightarrow> u16 run" where
  "lola_instance_of h = (case handle_instance h of LolaServiceInstanceId i \<Rightarrow> Some i | _ \<Rightarrow> None)"

definition Proxy_CreateSharedMemory ::
    "'s restart_os \<Rightarrow> LolaServiceInstanceDeployment \<Rightarrow> QualityType \<Rightarrow> LolaServiceTypeDeployment \<Rightarrow> u16 \<Rightarrow>
     ('v, 's) shm_world \<Rightarrow> ((region \<times> region) option \<times> ('v, 's) shm_world) run" where
  "Proxy_CreateSharedMemory os d quality_type td n w = do {
     let providers = map_of (allowed_provider d) quality_type;
     control_shm \<leftarrow> GetControlChannelShmName (service_id td) n quality_type;
     data_shm \<leftarrow> GetDataChannelShmName (service_id td) n;
     let (control, w) = on_system (shm_open os control_shm True providers) w;
     let (data, w) = on_system (shm_open os data_shm False providers) w;
     Some ((case (control, data) of (Some c, Some d) \<Rightarrow> Some (c, d) | _ \<Rightarrow> None), w) }"

text \<open>The logic of a restart, on the control section of the world and the data of the process.\<close>

definition Proxy_ExecutePartialRestartLogic ::
    "(QualityType \<Rightarrow> pid_t \<Rightarrow> pid_t \<Rightarrow> 'm \<Rightarrow> 'm run) \<Rightarrow> uid_t \<Rightarrow> pid_t \<Rightarrow> QualityType \<Rightarrow> region \<Rightarrow> region \<Rightarrow>
     'm local_data \<Rightarrow> ('v, 's) shm_world \<Rightarrow> (result_blank \<times> 'm local_data \<times> ('v, 's) shm_world) run" where
  "Proxy_ExecutePartialRestartLogic notify uid pid quality_type control data l w = do {
     (result, rw) \<leftarrow> ExecutePartialRestartLogic notify uid pid quality_type control (skeleton_pid (data_sections w data))
        \<lparr>service_controls = control_sections w, slot_world = slot_sections w,
         synchronisation_data_set = rollback_set l, runtime_messaging = lola_messaging l\<rparr>;
     Some (result, \<lparr>rollback_set = synchronisation_data_set rw, lola_messaging = runtime_messaging rw\<rparr>,
           w\<lparr>control_sections := service_controls rw, slot_sections := slot_world rw\<rparr>) }"

text \<open>
  \<open>Proxy::Create\<close> in two parts: \<open>Proxy_lock\<close> opens and locks the usage marker file, \<open>Proxy_open\<close> opens
  the memory and runs the logic of a restart. A proxy that is not created gives its lock back.
\<close>

definition Proxy_lock ::
    "'s restart_os \<Rightarrow> proxy_handle \<Rightarrow> ('v, 's) shm_world \<Rightarrow> (lock_file option \<times> ('v, 's) shm_world) run" where
  "Proxy_lock os handle w = do {
     _ \<leftarrow> GetLoLaInstanceDeployment handle;
     (case GetLoLaServiceTypeDeployment handle of
        None \<Rightarrow> Some (None, w)
      | Some td \<Rightarrow> do {
          n \<leftarrow> lola_instance_of handle;
          path \<leftarrow> GetServiceInstanceUsageMarkerFilePath (service_id td) n;
          (case on_system (os_open os path) w of
             (None, w) \<Rightarrow> Some (None, w)
           | (Some h, w) \<Rightarrow>
               (let (locked, w) = on_system (os_try_lock_shared os h) w
                in if locked then Some (Some h, w) else Some (None, do_system (os_destroy os h) w))) }) }"

definition give_lock_back :: "'s restart_os \<Rightarrow> lock_file \<Rightarrow> ('v, 's) shm_world \<Rightarrow> ('v, 's) shm_world" where
  "give_lock_back os h w = do_system (os_destroy os h) (do_system (os_unlock os h) w)"

definition Proxy_open ::
    "'s restart_os \<Rightarrow> (QualityType \<Rightarrow> pid_t \<Rightarrow> pid_t \<Rightarrow> 'm \<Rightarrow> 'm run) \<Rightarrow> uid_t \<Rightarrow> pid_t \<Rightarrow> proxy_handle \<Rightarrow> lock_file \<Rightarrow>
     'm local_data \<Rightarrow> ('v, 's) shm_world \<Rightarrow> (('b, 'g) proxy option \<times> 'm local_data \<times> ('v, 's) shm_world) run" where
  "Proxy_open os notify uid pid handle h l w = do {
     d \<leftarrow> GetLoLaInstanceDeployment handle;
     td \<leftarrow> GetLoLaServiceTypeDeployment handle;
     n \<leftarrow> lola_instance_of handle;
     let quality_type = asil_level (instance_deployment (handle_for handle));
     (memory, w) \<leftarrow> Proxy_CreateSharedMemory os d quality_type td n w;
     (case memory of
        None \<Rightarrow> Some (None, l, give_lock_back os h w)
      | Some (control, data) \<Rightarrow> do {
          (result, l, w) \<leftarrow> Proxy_ExecutePartialRestartLogic notify uid pid quality_type control data l w;
          (case result of
             Inl _ \<Rightarrow> Some (None, l, give_lock_back os h w)
           | Inr _ \<Rightarrow> Some (Some \<lparr>proxy_control = control, proxy_data = data, proxy_quality = quality_type,
                proxy_converter = \<lparr>converter_service_id = service_id td, converter_events = type_events td,
                                   converter_instance_id = n\<rparr>,
                proxy_handle_of = handle, event_bindings = [], is_service_instance_available = False,
                find_service_guard = None, proxy_usage_marker_file = h\<rparr>, l, w)) }) }"

definition Proxy_Create ::
    "'s restart_os \<Rightarrow> (QualityType \<Rightarrow> pid_t \<Rightarrow> pid_t \<Rightarrow> 'm \<Rightarrow> 'm run) \<Rightarrow> uid_t \<Rightarrow> pid_t \<Rightarrow> proxy_handle \<Rightarrow>
     'm local_data \<Rightarrow> ('v, 's) shm_world \<Rightarrow> (('b, 'g) proxy option \<times> 'm local_data \<times> ('v, 's) shm_world) run" where
  "Proxy_Create os notify uid pid handle l w = do {
     (file, w) \<leftarrow> Proxy_lock os handle w;
     (case file of
        None \<Rightarrow> Some (None, l, w)
      | Some h \<Rightarrow> Proxy_open os notify uid pid handle h l w) }"

definition Proxy_destroy :: "'s restart_os \<Rightarrow> ('b, 'g) proxy \<Rightarrow> ('v, 's) shm_world \<Rightarrow> ('v, 's) shm_world" where
  "Proxy_destroy os p w = give_lock_back os (proxy_usage_marker_file p) w"

subsection \<open>Access to the events\<close>

definition EventNameToElementFqIdConverter_Convert :: "element_id_converter \<Rightarrow> string \<Rightarrow> element_fq_id run" where
  "EventNameToElementFqIdConverter_Convert c event_name = do {
     i \<leftarrow> map_of (converter_events c) event_name;
     ElementFqId (converter_service_id c) i (converter_instance_id c) 1 }"

definition GetEventControl :: "('b, 'g) proxy \<Rightarrow> element_fq_id \<Rightarrow> ('v, 's) shm_world \<Rightarrow> slot_address service_event_control run" where
  "GetEventControl p e w = element_find e (event_controls (control_sections w (proxy_control p)))"

definition GetRawDataStorage :: "('b, 'g) proxy \<Rightarrow> element_fq_id \<Rightarrow> ('v, 's) shm_world \<Rightarrow> 'v list run" where
  "GetRawDataStorage p e w = element_find e (stored_events (data_sections w (proxy_data p)))"

definition Proxy_GetEventMetaInfo :: "('b, 'g) proxy \<Rightarrow> element_fq_id \<Rightarrow> ('v, 's) shm_world \<Rightarrow> EventMetaInfo run" where
  "Proxy_GetEventMetaInfo p e w = element_find e (stored_metainfo (data_sections w (proxy_data p)))"

definition IsEventProvided :: "('b, 'g) proxy \<Rightarrow> string \<Rightarrow> ('v, 's) shm_world \<Rightarrow> bool run" where
  "IsEventProvided p event_name w = do {
     e \<leftarrow> EventNameToElementFqIdConverter_Convert (proxy_converter p) event_name;
     Some (element_find e (event_controls (control_sections w (proxy_control p))) \<noteq> None) }"

definition GetSourcePid :: "('b, 'g) proxy \<Rightarrow> ('v, 's) shm_world \<Rightarrow> pid_t" where
  "GetSourcePid p w = skeleton_pid (data_sections w (proxy_data p))"

subsection \<open>Availability\<close>

fun notify_bindings :: "(bool \<Rightarrow> pid_t \<Rightarrow> 'b \<Rightarrow> 'b run) \<Rightarrow> bool \<Rightarrow> pid_t \<Rightarrow> (string \<times> 'b) list \<Rightarrow> (string \<times> 'b) list run" where
  "notify_bindings changed available pid [] = Some []"
| "notify_bindings changed available pid ((name, b) # bs) = do {
     b \<leftarrow> changed available pid b;
     bs \<leftarrow> notify_bindings changed available pid bs;
     Some ((name, b) # bs) }"

definition ServiceAvailabilityChangeHandler ::
    "(bool \<Rightarrow> pid_t \<Rightarrow> 'b \<Rightarrow> 'b run) \<Rightarrow> bool \<Rightarrow> ('b, 'g) proxy \<Rightarrow> ('v, 's) shm_world \<Rightarrow> ('b, 'g) proxy run" where
  "ServiceAvailabilityChangeHandler changed available p w = do {
     bs \<leftarrow> notify_bindings changed available (GetSourcePid p w) (event_bindings p);
     Some (p\<lparr>event_bindings := bs\<rparr>) }"

text \<open>The handler that the proxy gives to the service discovery, called with the handles that were found.\<close>

definition find_service_handler ::
    "(bool \<Rightarrow> pid_t \<Rightarrow> 'b \<Rightarrow> 'b run) \<Rightarrow> proxy_handle list \<Rightarrow> ('b, 'g) proxy \<Rightarrow> ('v, 's) shm_world \<Rightarrow> ('b, 'g) proxy run" where
  "find_service_handler changed handles p w =
     (let available = handles \<noteq> []
      in ServiceAvailabilityChangeHandler changed available (p\<lparr>is_service_instance_available := available\<rparr>) w)"

definition RegisterEventBinding ::
    "(bool \<Rightarrow> pid_t \<Rightarrow> 'b \<Rightarrow> 'b run) \<Rightarrow> string \<Rightarrow> 'b \<Rightarrow> ('b, 'g) proxy \<Rightarrow> ('v, 's) shm_world \<Rightarrow> ('b, 'g) proxy run" where
  "RegisterEventBinding changed name b p w = do {
     amp_require (map_of (event_bindings p) name = None);
     b \<leftarrow> changed (is_service_instance_available p) (GetSourcePid p w) b;
     Some (p\<lparr>event_bindings := event_bindings p @ [(name, b)]\<rparr>) }"

definition UnregisterEventBinding :: "string \<Rightarrow> ('b, 'g) proxy \<Rightarrow> ('b, 'g) proxy" where
  "UnregisterEventBinding name p = p\<lparr>event_bindings := filter (\<lambda>(n, b). n \<noteq> name) (event_bindings p)\<rparr>"

definition FindServiceGuard ::
    "(InstanceIdentifier \<Rightarrow> 'd \<Rightarrow> 'g result \<times> 'd) \<Rightarrow> InstanceIdentifier \<Rightarrow> ('b, 'g) proxy \<Rightarrow> 'd \<Rightarrow> (('b, 'g) proxy \<times> 'd) run" where
  "FindServiceGuard start_find_service i p sd =
     (case start_find_service i sd of
        (Inl _, sd) \<Rightarrow> None
      | (Inr g, sd) \<Rightarrow> Some (p\<lparr>find_service_guard := Some g\<rparr>, sd))"

definition FindServiceGuard_destroy ::
    "('g \<Rightarrow> 'd \<Rightarrow> result_blank \<times> 'd) \<Rightarrow> ('b, 'g) proxy \<Rightarrow> 'd \<Rightarrow> (('b, 'g) proxy \<times> 'd) run" where
  "FindServiceGuard_destroy stop_find_service p sd = do {
     g \<leftarrow> find_service_guard p;
     Some (p\<lparr>find_service_guard := None\<rparr>, snd (stop_find_service g sd)) }"

end
