(* ===== verification/Partial_Restart.thy ===== *)
theory Partial_Restart
  imports Proxy_Binding
begin

text \<open>
  Histories of providers and consumers that come and go: skeletons are created, offer their service, stop
  the offer, are destroyed or crash, and so do proxies, of any service instances, in any order.

  The calls are cut at the points where other processes can see a difference: opening and locking a
  marker file is one step, what is done under the lock the next. A process that ends within
  \<open>PrepareOffer\<close> has made some of the calls of that function (\<open>Offer_call\<close>) when it crashes. What the
  processes write into the shared memory (\<open>Memory\<close>) is arbitrary.

  The properties: memory that a proxy uses keeps its names, so that a provider that restarts finds it
  again and nobody replaces it.
\<close>

subsection \<open>Histories\<close>

datatype skeleton_phase = Idle | Offering | Stopping

datatype ('b, 'g) proxy_phase = Holding proxy_handle lock_file | Using "('b, 'g) proxy"

record ('v, 's, 'b, 'g) parties =
  shm :: "('v, 's) shm_world"
  skeletons :: "nat \<Rightarrow> (skeleton_phase \<times> skeleton) option"
  proxies :: "nat \<Rightarrow> ('b, 'g) proxy_phase option"

datatype shm_call = Call_remove_stale | Call_create u64 permissions bool | Call_trial u64

datatype shm_name = Data_name | Control_name QualityType

datatype ('v, 'm) party_action =
    Create_skeleton nat InstanceIdentifier u16
  | Offer_lock nat
  | Offer_call nat shm_name shm_call
  | Offer_memory nat "'v lola_runtime" bool "'v bound_events" "'v bound_events"
  | Stop_lock nat
  | Stop_remove nat
  | Unlock_existence nat
  | Destroy_skeleton nat
  | Crash_skeleton nat
  | Lock_proxy nat proxy_handle
  | Open_proxy nat "QualityType \<Rightarrow> pid_t \<Rightarrow> pid_t \<Rightarrow> 'm \<Rightarrow> 'm run" uid_t pid_t "'m local_data"
  | Destroy_proxy nat
  | Crash_proxy nat
  | Memory "region \<Rightarrow> slot_address service_data_control" "region \<Rightarrow> 'v service_data_storage" "slot_address edc_world"

definition lock_files_of :: "skeleton \<Rightarrow> lock_file list" where
  "lock_files_of sk = existence_marker_file sk # (case usage_marker_file sk of None \<Rightarrow> [] | Some h \<Rightarrow> [h])"

definition proxy_file :: "('b, 'g) proxy_phase \<Rightarrow> lock_file" where
  "proxy_file ph = (case ph of Holding _ h \<Rightarrow> h | Using p \<Rightarrow> proxy_usage_marker_file p)"

definition name_of :: "skeleton \<Rightarrow> shm_name \<Rightarrow> string run" where
  "name_of sk nm = do {
     n \<leftarrow> instance_number (skeleton_identifier sk);
     (case nm of Data_name \<Rightarrow> GetDataChannelShmName (path_service_id sk) n
      | Control_name q \<Rightarrow> GetControlChannelShmName (path_service_id sk) n q) }"

definition shm_call_effect :: "'s restart_os \<Rightarrow> string \<Rightarrow> shm_call \<Rightarrow> 's \<Rightarrow> 's" where
  "shm_call_effect os p c s =
     (case c of
        Call_remove_stale \<Rightarrow> shm_remove_stale_artefacts os p s
      | Call_create n ps typed \<Rightarrow> snd (shm_create os p n ps typed s)
      | Call_trial i \<Rightarrow> snd (shm_new_delete_resource os i s))"

definition step_skeleton ::
    "nat \<Rightarrow> skeleton_phase \<Rightarrow> (skeleton \<Rightarrow> ('v, 's) shm_world \<Rightarrow> ((skeleton_phase \<times> skeleton) option \<times> ('v, 's) shm_world) run) \<Rightarrow>
     ('v, 's, 'b, 'g) parties \<Rightarrow> ('v, 's, 'b, 'g) parties run" where
  "step_skeleton k ph f st =
     (case skeletons st k of
        None \<Rightarrow> None
      | Some (ph', sk) \<Rightarrow>
          if ph' \<noteq> ph then None
          else do {
            (r, w) \<leftarrow> f sk (shm st);
            Some (st\<lparr>shm := w, skeletons := (skeletons st)(k := r)\<rparr>) })"

fun run_party :: "'s restart_os \<Rightarrow> ('v, 'm) party_action \<Rightarrow> ('v, 's, 'b, 'g) parties \<Rightarrow> ('v, 's, 'b, 'g) parties run" where
  "run_party os (Create_skeleton k i svc) st =
     (if skeletons st k \<noteq> None then None
      else do {
        (r, w) \<leftarrow> Skeleton_Create os i svc (shm st);
        Some (st\<lparr>shm := w, skeletons := (skeletons st)(k := map_option (Pair Idle) r)\<rparr>) })"
| "run_party os (Offer_lock k) st =
     step_skeleton k Idle (\<lambda>sk w. do {
        (r, sk, w) \<leftarrow> Skeleton_PrepareOffer_lock os sk w;
        Some (Some (case r of Inl _ \<Rightarrow> Idle | Inr _ \<Rightarrow> Offering, sk), w) }) st"
| "run_party os (Offer_call k nm c) st =
     step_skeleton k Offering (\<lambda>sk w.
        if was_old_shm_region_reopened sk then None
        else do {
          p \<leftarrow> name_of sk nm;
          Some (Some (Offering, sk), do_system (shm_call_effect os p c) w) }) st"
| "run_party os (Offer_memory k rt traced evs fs) st =
     step_skeleton k Offering (\<lambda>sk w. do {
        (r, evs, fs, sk, w) \<leftarrow> Skeleton_PrepareOffer_memory os rt traced evs fs sk w;
        Some (Some (Idle, sk), w) }) st"
| "run_party os (Stop_lock k) st =
     step_skeleton k Idle (\<lambda>sk w. do {
        (locked, w) \<leftarrow> Skeleton_PrepareStopOffer_lock os sk w;
        Some (Some (if locked then Stopping else Idle, sk), w) }) st"
| "run_party os (Stop_remove k) st =
     step_skeleton k Stopping (\<lambda>sk w. do {
        (sk, w) \<leftarrow> Skeleton_PrepareStopOffer_remove os sk w;
        Some (Some (Idle, sk), w) }) st"
| "run_party os (Unlock_existence k) st =
     step_skeleton k Idle (\<lambda>sk w. Some (Some (Idle, sk), Skeleton_destroy_unlock os sk w)) st"
| "run_party os (Destroy_skeleton k) st =
     step_skeleton k Idle (\<lambda>sk w. Some (None, Skeleton_destroy_files os sk w)) st"
| "run_party os (Crash_skeleton k) st =
     (case skeletons st k of
        None \<Rightarrow> None
      | Some (_, sk) \<Rightarrow>
          Some (st\<lparr>shm := do_system (os_exit os (lock_files_of sk)) (shm st), skeletons := (skeletons st)(k := None)\<rparr>))"
| "run_party os (Lock_proxy k handle) st =
     (if proxies st k \<noteq> None then None
      else do {
        (r, w) \<leftarrow> Proxy_lock os handle (shm st);
        Some (st\<lparr>shm := w, proxies := (proxies st)(k := map_option (Holding handle) r)\<rparr>) })"
| "run_party os (Open_proxy k notify uid pid l) st =
     (case proxies st k of
        Some (Holding handle h) \<Rightarrow> do {
          (r, l, w) \<leftarrow> Proxy_open os notify uid pid handle h l (shm st);
          Some (st\<lparr>shm := w, proxies := (proxies st)(k := map_option Using r)\<rparr>) }
      | _ \<Rightarrow> None)"
| "run_party os (Destroy_proxy k) st =
     (case proxies st k of
        Some (Using p) \<Rightarrow> Some (st\<lparr>shm := Proxy_destroy os p (shm st), proxies := (proxies st)(k := None)\<rparr>)
      | _ \<Rightarrow> None)"
| "run_party os (Crash_proxy k) st =
     (case proxies st k of
        Some ph \<Rightarrow> Some (st\<lparr>shm := do_system (os_exit os [proxy_file ph]) (shm st), proxies := (proxies st)(k := None)\<rparr>)
      | None \<Rightarrow> None)"
| "run_party os (Memory cs ds sw) st =
     Some (st\<lparr>shm := (shm st)\<lparr>control_sections := cs, data_sections := ds, slot_sections := sw\<rparr>\<rparr>)"

fun run_parties :: "'s restart_os \<Rightarrow> ('v, 'm) party_action list \<Rightarrow> ('v, 's, 'b, 'g) parties \<Rightarrow> ('v, 's, 'b, 'g) parties run" where
  "run_parties os [] st = Some st"
| "run_parties os (a # as) st = do { st \<leftarrow> run_party os a st; run_parties os as st }"

subsection \<open>What the calls do to the names\<close>

lemma os_lawsD:
  assumes "os_laws os view"
  shows "view (snd (os_create_directories os p s)) = view s"
    and "os_create_or_open os p s = (r, s') \<Longrightarrow> opens_file p True r (view s) (view s')"
    and "os_open os p s = (r, s') \<Longrightarrow> opens_file p False r (view s) (view s')"
    and "view (os_take_ownership os h s) = set_open_file h (\<lambda>f. f\<lparr>file_owned := True\<rparr>) (view s)"
    and "view (os_destroy os h s) = destroys_file h (view s)"
    and "os_try_lock os h s = (ok, s') \<Longrightarrow> locks_file {Exclusive, Shared} Exclusive h ok (view s) (view s')"
    and "os_try_lock_shared os h s = (ok, s') \<Longrightarrow> locks_file {Exclusive} Shared h ok (view s) (view s')"
    and "view (os_unlock os h s) = set_open_file h (\<lambda>f. f\<lparr>file_lock := None\<rparr>) (view s)"
    and "view (os_exit os hs s) = (view s)\<lparr>open_files := (\<lambda>h. if h \<in> set hs then None else open_files (view s) h)\<rparr>"
    and "shm_create os p n ps typed s = (None, s') \<Longrightarrow> view s' = view s"
    and "shm_create os p n ps typed s = (Some m, s') \<Longrightarrow> region_at (view s) p = None \<and> m \<notin> used_regions (view s) \<and>
           view s' = (view s)\<lparr>region_at := (region_at (view s))(p \<mapsto> m), used_regions := insert m (used_regions (view s))\<rparr>"
    and "shm_open os p rw us s = (x, s') \<Longrightarrow> (x = None \<or> x = region_at (view s) p) \<and> view s' = view s"
    and "view (shm_remove os p s) = (view s)\<lparr>region_at := (region_at (view s))(p := None)\<rparr>"
    and "view (shm_remove_stale_artefacts os p s) = view s \<or>
         view (shm_remove_stale_artefacts os p s) = (view s)\<lparr>region_at := (region_at (view s))(p := None)\<rparr>"
    and "shm_new_delete_resource os i s = (m, s') \<Longrightarrow>
         m \<notin> used_regions (view s) \<and> view s' = (view s)\<lparr>used_regions := insert m (used_regions (view s))\<rparr>"
proof -
  note laws = assms [unfolded os_laws_def, THEN conjunct1] assms [unfolded os_laws_def, THEN conjunct2]
  note l1 = laws(1) and r1 = laws(2)
  note l2 = conjunct1 [OF r1] and r2 = conjunct2 [OF r1]
  note l3 = conjunct1 [OF r2] and r3 = conjunct2 [OF r2]
  note l4 = conjunct1 [OF r3] and r4 = conjunct2 [OF r3]
  note l5 = conjunct1 [OF r4] and r5 = conjunct2 [OF r4]
  note l6 = conjunct1 [OF r5] and r6 = conjunct2 [OF r5]
  note l7 = conjunct1 [OF r6] and r7 = conjunct2 [OF r6]
  note l8 = conjunct1 [OF r7] and r8 = conjunct2 [OF r7]
  note l9 = conjunct1 [OF r8] and r9 = conjunct2 [OF r8]
  note l10 = conjunct1 [OF r9] and r10 = conjunct2 [OF r9]
  note l11 = conjunct1 [OF r10] and r11 = conjunct2 [OF r10]
  note l12 = conjunct1 [OF r11] and r12 = conjunct2 [OF r11]
  note l13 = conjunct1 [OF r12] and l14 = conjunct2 [OF r12]
  show "view (snd (os_create_directories os p s)) = view s" by (rule l1 [rule_format])
  show "os_create_or_open os p s = (r, s') \<Longrightarrow> opens_file p True r (view s) (view s')" by (rule l2 [rule_format])
  show "os_open os p s = (r, s') \<Longrightarrow> opens_file p False r (view s) (view s')" by (rule l3 [rule_format])
  show "view (os_take_ownership os h s) = set_open_file h (\<lambda>f. f\<lparr>file_owned := True\<rparr>) (view s)" by (rule l4 [rule_format])
  show "view (os_destroy os h s) = destroys_file h (view s)" by (rule l5 [rule_format])
  show "os_try_lock os h s = (ok, s') \<Longrightarrow> locks_file {Exclusive, Shared} Exclusive h ok (view s) (view s')"
    by (rule l6 [rule_format])
  show "os_try_lock_shared os h s = (ok, s') \<Longrightarrow> locks_file {Exclusive} Shared h ok (view s) (view s')"
    by (rule l7 [rule_format])
  show "view (os_unlock os h s) = set_open_file h (\<lambda>f. f\<lparr>file_lock := None\<rparr>) (view s)" by (rule l8 [rule_format])
  show "view (os_exit os hs s) = (view s)\<lparr>open_files := (\<lambda>h. if h \<in> set hs then None else open_files (view s) h)\<rparr>"
    by (rule l9 [rule_format])
  show "shm_create os p n ps typed s = (None, s') \<Longrightarrow> view s' = view s" using l10 [rule_format, of p n ps typed s None s'] by simp
  show "shm_create os p n ps typed s = (Some m, s') \<Longrightarrow> region_at (view s) p = None \<and> m \<notin> used_regions (view s) \<and>
           view s' = (view s)\<lparr>region_at := (region_at (view s))(p \<mapsto> m), used_regions := insert m (used_regions (view s))\<rparr>"
    using l10 [rule_format, of p n ps typed s "Some m" s'] by simp
  show "shm_open os p rw us s = (x, s') \<Longrightarrow> (x = None \<or> x = region_at (view s) p) \<and> view s' = view s"
    by (rule l11 [rule_format])
  show "view (shm_remove os p s) = (view s)\<lparr>region_at := (region_at (view s))(p := None)\<rparr>" by (rule l12 [rule_format])
  show "view (shm_remove_stale_artefacts os p s) = view s \<or>
         view (shm_remove_stale_artefacts os p s) = (view s)\<lparr>region_at := (region_at (view s))(p := None)\<rparr>"
    using l13 [rule_format, of p s] by simp
  show "shm_new_delete_resource os i s = (m, s') \<Longrightarrow>
         m \<notin> used_regions (view s) \<and> view s' = (view s)\<lparr>used_regions := insert m (used_regions (view s))\<rparr>"
    by (rule l14 [rule_format])
qed

definition changes_names :: "string set \<Rightarrow> os_view \<Rightarrow> os_view \<Rightarrow> bool" where
  "changes_names N v v' \<longleftrightarrow>
     file_at v' = file_at v \<and> open_files v' = open_files v \<and> (\<forall>p. p \<notin> N \<longrightarrow> region_at v' p = region_at v p)"

definition own_names :: "u16 \<Rightarrow> u16 \<Rightarrow> string set" where
  "own_names s n = {p. GetDataChannelShmName s n = Some p \<or> (\<exists>q. GetControlChannelShmName s n q = Some p)}"

definition names_of_skeleton :: "skeleton \<Rightarrow> string set" where
  "names_of_skeleton sk =
     {p. \<exists>n. instance_number (skeleton_identifier sk) = Some n \<and> p \<in> own_names (path_service_id sk) n}"

definition saved_paths_ok :: "skeleton \<Rightarrow> bool" where
  "saved_paths_ok sk \<longleftrightarrow>
     set_option (data_storage_path sk) \<union> set_option (data_control_qm_path sk) \<union> set_option (data_control_asil_path sk)
       \<subseteq> names_of_skeleton sk"

text \<open>What the operations on the memory leave of a skeleton.\<close>

definition same_skeleton :: "skeleton \<Rightarrow> skeleton \<Rightarrow> bool" where
  "same_skeleton sk sk' \<longleftrightarrow>
     skeleton_identifier sk' = skeleton_identifier sk \<and> path_service_id sk' = path_service_id sk \<and>
     existence_marker_file sk' = existence_marker_file sk \<and> usage_marker_file sk' = usage_marker_file sk \<and>
     was_old_shm_region_reopened sk' = was_old_shm_region_reopened sk \<and> (saved_paths_ok sk \<longrightarrow> saved_paths_ok sk')"

lemma same_skeleton_refl [simp]: "same_skeleton sk sk"
  by (simp add: same_skeleton_def)

lemma same_skeleton_trans: "same_skeleton a b \<Longrightarrow> same_skeleton b c \<Longrightarrow> same_skeleton a c"
  by (simp add: same_skeleton_def)

lemma same_skeleton_names: "same_skeleton a b \<Longrightarrow> names_of_skeleton b = names_of_skeleton a"
  by (simp add: same_skeleton_def names_of_skeleton_def)

lemma changes_names_refl [simp]: "changes_names N v v"
  by (simp add: changes_names_def)

lemma changes_names_trans: "changes_names N a b \<Longrightarrow> changes_names N b c \<Longrightarrow> changes_names N a c"
  by (simp add: changes_names_def)

lemma on_systemD: "on_system f w = (r, w') \<Longrightarrow> f (system w) = (r, system w') \<and> w' = w\<lparr>system := system w'\<rparr>"
  by (auto simp: on_system_def split: prod.splits)

lemma system_simps [simp]:
  "system (set_control r c w) = system w" "system (set_data r d w) = system w" "system (do_system f w) = f (system w)"
  "system (set_event_logs r e t w) = system w"
  by (simp_all add: set_control_def set_data_def do_system_def set_event_logs_def Let_def)

lemma emplace_event_control_system:
  "emplace_event_control r e ps w = Some x \<Longrightarrow> system (snd (snd x)) = system w"
  by (auto simp: emplace_event_control_def bind_eq_Some_conv Let_def split: option.splits)

lemma Create_event_system:
  "CreateEventDataFromOpenedSharedMemory sk e ev w = Some (p, cc, w') \<Longrightarrow> system w' = system w"
  unfolding CreateEventDataFromOpenedSharedMemory_def
  by (auto simp: bind_eq_Some_conv Let_def case_prod_beta split: if_splits dest!: emplace_event_control_system)

lemma no_third_result: "\<forall>e. r \<noteq> Inl e \<Longrightarrow> r \<noteq> Inr () \<Longrightarrow> False" for r :: "'e + unit"
  by (cases r) auto

lemma Register_system:
  "Register sk e ev w = Some (p, cc, sk', w') \<Longrightarrow>
     system w' = system w \<and> (sk' = sk \<or> sk' = sk\<lparr>tracing_disabled := True\<rparr>)"
  unfolding Register_def
  by (cases "was_old_shm_region_reopened sk")
    (auto simp: bind_eq_Some_conv Let_def split: sum.split_asm dest!: Create_event_system dest: no_third_result)

lemma same_skeleton_fields [simp]:
  "same_skeleton sk (sk\<lparr>tracing_disabled := b\<rparr>)" "same_skeleton sk (sk\<lparr>storage_resource := r\<rparr>)"
  "same_skeleton sk (sk\<lparr>storage_ptr := r\<rparr>)" "same_skeleton sk (sk\<lparr>control_qm := r\<rparr>)"
  "same_skeleton sk (sk\<lparr>control_asil_b := r\<rparr>)" "same_skeleton sk (sk\<lparr>control_qm_resource := r\<rparr>)"
  "same_skeleton sk (sk\<lparr>control_asil_resource := r\<rparr>)" "same_skeleton sk (set_control_resource level r sk)"
  by (simp_all add: same_skeleton_def saved_paths_ok_def names_of_skeleton_def set_control_resource_def)

lemma SkeletonEvent_PrepareOffer_system:
  "SkeletonEvent_PrepareOffer sk ev w = Some (r, ev', sk', w') \<Longrightarrow> system w' = system w \<and> same_skeleton sk sk'"
  unfolding SkeletonEvent_PrepareOffer_def
  by (auto simp: bind_eq_Some_conv dest!: Register_system)

lemma prepare_trial_system:
  "prepare_trial evs sk w = Some (evs', sk', w') \<Longrightarrow> system w' = system w \<and> same_skeleton sk sk'"
proof (induction evs arbitrary: sk w evs')
  case (Cons x evs)
  obtain name ev where x: "x = (name, ev)" by (cases x)
  from Cons.prems x obtain r ev1 sk1 w1 evs1 where
      1: "SkeletonEvent_PrepareOffer sk ev w = Some (r, ev1, sk1, w1)"
    and 2: "prepare_trial evs sk1 w1 = Some (evs1, sk', w')"
    by (auto simp: bind_eq_Some_conv)
  from SkeletonEvent_PrepareOffer_system [OF 1] Cons.IH [OF 2] show ?case
    using same_skeleton_trans by auto
qed simp

lemma Initialize_same:
  "InitializeSharedMemoryForData pid m sk w = (sk', w') \<Longrightarrow> system w' = system w \<and> same_skeleton sk sk'"
  "InitializeSharedMemoryForControl level m sk w = (sk', w') \<Longrightarrow> system w' = system w \<and> same_skeleton sk sk'"
  by (auto simp: InitializeSharedMemoryForData_def InitializeSharedMemoryForControl_def same_skeleton_def
      saved_paths_ok_def names_of_skeleton_def split: if_splits)

text \<open>An operation of a skeleton that changes no name but its own.\<close>

definition acts_on_own_names ::
    "('s \<Rightarrow> os_view) \<Rightarrow> skeleton \<Rightarrow> ('v, 's) shm_world \<Rightarrow> skeleton \<Rightarrow> ('v, 's) shm_world \<Rightarrow> bool" where
  "acts_on_own_names view sk w sk' w' \<longleftrightarrow>
     same_skeleton sk sk' \<and> changes_names (names_of_skeleton sk) (view (system w)) (view (system w'))"

lemma acts_refl: "system w' = system w \<Longrightarrow> same_skeleton sk sk' \<Longrightarrow> acts_on_own_names view sk w sk' w'"
  by (simp add: acts_on_own_names_def)

lemma acts_trans:
  "acts_on_own_names view a w b w1 \<Longrightarrow> acts_on_own_names view b w1 c w2 \<Longrightarrow> acts_on_own_names view a w c w2"
  unfolding acts_on_own_names_def using same_skeleton_trans same_skeleton_names changes_names_trans by metis

lemma acts_do_system:
  assumes "changes_names (names_of_skeleton sk) (view (system w)) (view (f (system w)))"
  shows "acts_on_own_names view sk w sk (do_system f w)"
  using assms by (simp add: acts_on_own_names_def)

lemma acts_on_system:
  assumes "on_system f w = (r, w')" and "changes_names (names_of_skeleton sk) (view (system w)) (view (snd (f (system w))))"
  shows "acts_on_own_names view sk w sk w'"
  using assms(2) on_systemD [OF assms(1)] by (simp add: acts_on_own_names_def)

lemma changes_region: "p \<in> N \<Longrightarrow> changes_names N v (v\<lparr>region_at := (region_at v)(p := r)\<rparr>)"
  by (simp add: changes_names_def)

lemma changes_used: "changes_names N v (v\<lparr>used_regions := u\<rparr>)"
  by (simp add: changes_names_def)

lemma own_path_control:
  assumes "instance_number (skeleton_identifier sk) = Some n" and "GetControlChannelShmName (path_service_id sk) n q = Some p"
  shows "p \<in> names_of_skeleton sk"
  using assms by (auto simp: names_of_skeleton_def own_names_def)

lemma own_path_data:
  assumes "instance_number (skeleton_identifier sk) = Some n" and "GetDataChannelShmName (path_service_id sk) n = Some p"
  shows "p \<in> names_of_skeleton sk"
  using assms by (auto simp: names_of_skeleton_def own_names_def)

lemma own_path_functions:
  "GetControlChannelShmPath (skeleton_identifier sk) q (path_service_id sk) = Some p \<Longrightarrow> p \<in> names_of_skeleton sk"
  "GetDataChannelShmPath (skeleton_identifier sk) (path_service_id sk) = Some p \<Longrightarrow> p \<in> names_of_skeleton sk"
  by (auto simp: GetControlChannelShmPath_def GetDataChannelShmPath_def bind_eq_Some_conv own_path_control own_path_data)


lemma shm_changes:
  assumes "os_laws os view"
  shows "p \<in> N \<Longrightarrow> changes_names N (view s) (view (shm_remove_stale_artefacts os p s))"
    and "p \<in> N \<Longrightarrow> changes_names N (view s) (view (shm_remove os p s))"
    and "p \<in> N \<Longrightarrow> changes_names N (view s) (view (snd (shm_create os p n ps typed s)))"
    and "changes_names N (view s) (view (snd (shm_open os p rw us s)))"
    and "changes_names N (view s) (view (snd (shm_new_delete_resource os i s)))"
proof -
  show "p \<in> N \<Longrightarrow> changes_names N (view s) (view (shm_remove_stale_artefacts os p s))"
    using os_lawsD(14) [OF assms, of p s] by (auto simp: changes_region)
  show "p \<in> N \<Longrightarrow> changes_names N (view s) (view (shm_remove os p s))"
    by (simp add: os_lawsD(13) [OF assms] changes_region)
  show "p \<in> N \<Longrightarrow> changes_names N (view s) (view (snd (shm_create os p n ps typed s)))"
  proof -
    assume "p \<in> N"
    obtain r s' where c: "shm_create os p n ps typed s = (r, s')" by (cases "shm_create os p n ps typed s")
    show ?thesis
      using os_lawsD(10) [OF assms, of p n ps typed s s'] os_lawsD(11) [OF assms, of p n ps typed s _ s'] c \<open>p \<in> N\<close>
      by (cases r) (auto simp: changes_names_def)
  qed
  show "changes_names N (view s) (view (snd (shm_open os p rw us s)))"
    using os_lawsD(12) [OF assms, of p rw us s "fst (shm_open os p rw us s)" "snd (shm_open os p rw us s)"] by simp
  show "changes_names N (view s) (view (snd (shm_new_delete_resource os i s)))"
    using os_lawsD(15) [OF assms, of i s "fst (shm_new_delete_resource os i s)" "snd (shm_new_delete_resource os i s)"]
    by (simp add: changes_used)
qed

lemma RemoveStale_acts:
  assumes "os_laws os view" and "RemoveStaleSharedMemoryArtefacts os sk w = Some w'"
  shows "acts_on_own_names view sk w sk w'"
proof -
  from assms(2) obtain p1 p2 p3 where
      p: "p1 \<in> names_of_skeleton sk" "p2 \<in> names_of_skeleton sk" "p3 \<in> names_of_skeleton sk"
    and w': "w' = do_system (shm_remove_stale_artefacts os p3) (do_system (shm_remove_stale_artefacts os p2)
          (do_system (shm_remove_stale_artefacts os p1) w))"
    by (auto simp: RemoveStaleSharedMemoryArtefacts_def bind_eq_Some_conv Let_def dest: own_path_functions)
  show ?thesis
    unfolding w' by (intro acts_trans [OF acts_do_system acts_trans [OF acts_do_system acts_do_system]]
        shm_changes(1) [OF assms(1)] p)
qed

lemma RemoveSharedMemory_acts:
  fixes w :: "('v, 's) shm_world"
  assumes "os_laws os view" and "RemoveSharedMemory os sk w = (sk', w')" and "saved_paths_ok sk"
  shows "acts_on_own_names view sk w sk' w'"
proof -
  have remove: "acts_on_own_names view sk w1 sk (remove_memory_if_exists os p w1)"
    if "set_option p \<subseteq> names_of_skeleton sk" for p and w1 :: "('v, 's) shm_world"
    using that shm_changes(2) [OF assms(1)]
    by (cases p) (auto simp: remove_memory_if_exists_def acts_refl intro: acts_do_system)
  have paths: "set_option (data_control_qm_path sk) \<subseteq> names_of_skeleton sk"
    "set_option (data_control_asil_path sk) \<subseteq> names_of_skeleton sk" "set_option (data_storage_path sk) \<subseteq> names_of_skeleton sk"
    using assms(3) by (auto simp: saved_paths_ok_def)
  have "acts_on_own_names view sk w sk w'"
    using assms(2) unfolding RemoveSharedMemory_def Let_def
    by (auto intro!: acts_trans [OF remove [OF paths(1)] acts_trans [OF remove [OF paths(2)] remove [OF paths(3)]]])
  moreover have "acts_on_own_names view sk w' sk' w'"
    using assms(2) by (auto simp: RemoveSharedMemory_def Let_def acts_on_own_names_def same_skeleton_def saved_paths_ok_def
        names_of_skeleton_def)
  ultimately show ?thesis by (rule acts_trans)
qed

lemma CreateControl_acts:
  assumes "os_laws os view" and "CreateSharedMemoryForControl os d level n sk w = Some (ok, sk', w')"
  shows "acts_on_own_names view sk w sk' w'"
proof -
  from assms(2) obtain i path where i: "instance_number (skeleton_identifier sk) = Some i"
    and path: "GetControlChannelShmName (path_service_id sk) i level = Some path"
    unfolding CreateSharedMemoryForControl_def by (auto simp: bind_eq_Some_conv)
  have own: "path \<in> names_of_skeleton sk" by (rule own_path_control [OF i path])
  obtain r w1 where c: "on_system (shm_create os path n (control_permissions d level) False) w = (r, w1)"
    by (cases "on_system (shm_create os path n (control_permissions d level) False) w")
  have 1: "acts_on_own_names view sk w sk w1"
    by (rule acts_on_system [OF c]) (rule shm_changes(3) [OF assms(1) own])
  have 2: "acts_on_own_names view sk w1 sk' w'"
  proof (cases r)
    case None
    with assms(2) i path c show ?thesis
      by (auto simp: CreateSharedMemoryForControl_def intro!: acts_refl)
  next
    case (Some m)
    obtain sk2 w2 where init: "InitializeSharedMemoryForControl level m sk w1 = (sk2, w2)"
      by (cases "InitializeSharedMemoryForControl level m sk w1")
    from assms(2) i path c Some init
    have sk': "sk' = set_control_path level path (set_control_resource level (Some m) sk2)" and w': "w' = w2"
      by (auto simp: CreateSharedMemoryForControl_def Let_def)
    have "same_skeleton sk sk2" and sys: "system w2 = system w1" using Initialize_same(2) [OF init] by simp_all
    moreover from this own have "same_skeleton sk2 (set_control_path level path (set_control_resource level (Some m) sk2))"
      by (auto simp: same_skeleton_def saved_paths_ok_def names_of_skeleton_def set_control_path_def set_control_resource_def)
    ultimately show ?thesis unfolding sk' w' by (intro acts_refl) (auto intro: same_skeleton_trans)
  qed
  from acts_trans [OF 1 2] show ?thesis .
qed

lemma CreateData_acts:
  assumes "os_laws os view" and "CreateSharedMemoryForData os pid d n traced sk w = Some (ok, sk', w')"
  shows "acts_on_own_names view sk w sk' w'"
proof -
  from assms(2) obtain i path where i: "instance_number (skeleton_identifier sk) = Some i"
    and path: "GetDataChannelShmName (path_service_id sk) i = Some path"
    unfolding CreateSharedMemoryForData_def by (auto simp: bind_eq_Some_conv)
  have own: "path \<in> names_of_skeleton sk" by (rule own_path_data [OF i path])
  obtain r w1 where c: "on_system (shm_create os path n (data_permissions d) traced) w = (r, w1)"
    by (cases "on_system (shm_create os path n (data_permissions d) traced) w")
  have 1: "acts_on_own_names view sk w sk w1"
    by (rule acts_on_system [OF c]) (rule shm_changes(3) [OF assms(1) own])
  have 2: "acts_on_own_names view sk w1 sk' w'"
  proof (cases r)
    case None
    with assms(2) i path c show ?thesis
      by (auto simp: CreateSharedMemoryForData_def intro!: acts_refl)
  next
    case (Some m)
    obtain sk2 w2 where init: "InitializeSharedMemoryForData pid m sk w1 = (sk2, w2)"
      by (cases "InitializeSharedMemoryForData pid m sk w1")
    from assms(2) i path c Some init have sk': "sk' = sk2\<lparr>data_storage_path := Some path\<rparr>" and w': "w' = w2"
      by (auto simp: CreateSharedMemoryForData_def Let_def bind_eq_Some_conv)
    have "same_skeleton sk sk2" and sys: "system w2 = system w1" using Initialize_same(1) [OF init] by simp_all
    moreover from this own have "same_skeleton sk2 (sk2\<lparr>data_storage_path := Some path\<rparr>)"
      by (auto simp: same_skeleton_def saved_paths_ok_def names_of_skeleton_def)
    ultimately show ?thesis unfolding sk' w' by (intro acts_refl) (auto intro: same_skeleton_trans)
  qed
  from acts_trans [OF 1 2] show ?thesis .
qed

text \<open>The trial run gets heap memory and registers the events there.\<close>

lemma heap_acts:
  assumes "os_laws os view" and "on_system (shm_new_delete_resource os i) w = (m, w')" and "same_skeleton sk sk'"
  shows "acts_on_own_names view sk w sk' w'"
proof -
  have "acts_on_own_names view sk w sk w'"
    by (rule acts_on_system [OF assms(2)]) (rule shm_changes(5) [OF assms(1)])
  with assms(3) show ?thesis by (simp add: acts_on_own_names_def)
qed

lemma init_acts:
  "InitializeSharedMemoryForControl level m sk w = (sk', w') \<Longrightarrow> acts_on_own_names view sk w sk' w'"
  "InitializeSharedMemoryForData pid m sk w = (sk', w') \<Longrightarrow> acts_on_own_names view sk w sk' w'"
  using Initialize_same by (blast intro: acts_refl)+

lemma trial_memory_acts:
  assumes laws: "os_laws os view" and t: "trial_memory os pid td n sk w = (sk', w')"
  shows "acts_on_own_names view sk w sk' w'"
proof -
  obtain qm w1 where 1: "on_system (shm_new_delete_resource os (CalculateMemoryResourceId (service_id td) n kControl_QM)) w = (qm, w1)"
    by fastforce
  let ?sk1 = "sk\<lparr>control_qm_resource := Some qm\<rparr>"
  obtain dt w2 where 2: "on_system (shm_new_delete_resource os (CalculateMemoryResourceId (service_id td) n kData)) w1 = (dt, w2)"
    by fastforce
  let ?sk2 = "?sk1\<lparr>storage_resource := Some dt\<rparr>"
  obtain sk3 w3 where 3: "InitializeSharedMemoryForControl kASIL_QM qm ?sk2 w2 = (sk3, w3)" by fastforce
  obtain sk5 w5 where 5: "trial_memory_b os td n sk3 w3 = (sk5, w5)" by fastforce
  have "acts_on_own_names view sk3 w3 sk5 w5"
  proof (cases "HasAsilBSupport (skeleton_identifier sk3)")
    case True
    obtain b w4 where 4: "on_system (shm_new_delete_resource os (CalculateMemoryResourceId (service_id td) n kControl_ASIL_B)) w3 = (b, w4)"
      by fastforce
    with 5 True have "InitializeSharedMemoryForControl kASIL_B b (sk3\<lparr>control_asil_resource := Some b\<rparr>) w4 = (sk5, w5)"
      by (simp add: trial_memory_b_def)
    from acts_trans [OF heap_acts [OF laws 4] init_acts(1) [OF this]] show ?thesis by simp
  qed (use 5 in \<open>simp add: trial_memory_b_def acts_refl\<close>)
  moreover have "InitializeSharedMemoryForData pid dt sk5 w5 = (sk', w')"
    using t 1 2 3 5 by (simp add: trial_memory_def)
  ultimately have rest: "acts_on_own_names view sk3 w3 sk' w'" by (blast intro: acts_trans init_acts(2))
  have "acts_on_own_names view sk w ?sk1 w1" by (rule heap_acts [OF laws 1]) simp
  moreover have "acts_on_own_names view ?sk1 w1 ?sk2 w2" by (rule heap_acts [OF laws 2]) simp
  moreover have "acts_on_own_names view ?sk2 w2 sk3 w3" by (rule init_acts(1) [OF 3])
  ultimately show ?thesis using rest by (blast intro: acts_trans)
qed

lemma CalculateSizes_acts:
  assumes "os_laws os view" and "CalculateShmResourceStorageSizes os rt evs fs sk w = Some (r, evs', fs', sk', w')"
  shows "acts_on_own_names view sk w sk' w'"
proof (cases "GetShmSizeCalculationMode rt")
  case kEstimation
  with assms(2) show ?thesis
    by (auto simp: CalculateShmResourceStorageSizes_def bind_eq_Some_conv split: option.splits intro: acts_refl)
next
  case kSimulation
  with assms(2) obtain r1 where
      "CalculateShmResourceStorageSizesBySimulation os rt evs fs sk w = Some (r1, evs', fs', sk', w')"
    by (auto simp: CalculateShmResourceStorageSizes_def bind_eq_Some_conv split: option.splits)
  then obtain td n sk1 w1 sk2 w2 where t: "trial_memory os (GetPid rt) td n sk w = (sk1, w1)"
    and e: "prepare_trial evs sk1 w1 = Some (evs', sk2, w2)" and f: "prepare_trial fs sk2 w2 = Some (fs', sk', w')"
    unfolding CalculateShmResourceStorageSizesBySimulation_def
    by (auto simp: bind_eq_Some_conv Let_def case_prod_beta split: if_splits) (metis prod.collapse)+
  show ?thesis
    using trial_memory_acts [OF assms(1) t] prepare_trial_system [OF e] prepare_trial_system [OF f]
    by (blast intro: acts_trans acts_refl)
qed

lemma CreateSharedMemory_acts:
  assumes laws: "os_laws os view" and run: "CreateSharedMemory os rt traced evs fs sk w = Some (r, evs', fs', sk', w')"
  shows "acts_on_own_names view sk w sk' w'"
proof -
  note run' = run [unfolded CreateSharedMemory_def]
  obtain sizes evs1 fs1 sk1 w1 where s: "CalculateShmResourceStorageSizes os rt evs fs sk w = Some (sizes, evs1, fs1, sk1, w1)"
    using run' by (cases "CalculateShmResourceStorageSizes os rt evs fs sk w") auto
  obtain d where d: "GetLolaServiceInstanceDeployment (skeleton_identifier sk1) = Some d"
    using run' s by (cases "GetLolaServiceInstanceDeployment (skeleton_identifier sk1)") auto
  obtain ok1 sk2 w2 where c: "CreateSharedMemoryForControl os d kASIL_QM (control_qm_size sizes) sk1 w1 = Some (ok1, sk2, w2)"
    using run' s d by (cases "CreateSharedMemoryForControl os d kASIL_QM (control_qm_size sizes) sk1 w1") auto
  have 2: "acts_on_own_names view sk w sk2 w2"
    by (rule acts_trans [OF CalculateSizes_acts [OF laws s] CreateControl_acts [OF laws c]])
  show ?thesis
  proof (cases ok1)
    case False
    with run' s d c 2 show ?thesis by simp
  next
    case True
    define b where "b = (if HasAsilBSupport (skeleton_identifier sk2) then do {
                        b_size \<leftarrow> control_asil_b_size sizes;
                        CreateSharedMemoryForControl os d kASIL_B b_size sk2 w2 }
                      else Some (True, sk2, w2))"
    obtain ok3 sk3 w3 where b3: "b = Some (ok3, sk3, w3)"
      using run' s d c True unfolding b_def [symmetric] by (cases b) (auto simp: b_def)
    have "acts_on_own_names view sk2 w2 sk3 w3"
      using b3 unfolding b_def
      by (auto simp: bind_eq_Some_conv acts_refl split: if_splits intro: CreateControl_acts [OF laws])
    from acts_trans [OF 2 this] have 3: "acts_on_own_names view sk w sk3 w3" .
    from run' s d c True b3 have last: "(if \<not> ok3 then Some (Inl kErroneousFileHandle, evs1, fs1, sk3, w3)
        else do {
         (ok, sk, w) \<leftarrow> CreateSharedMemoryForData os (GetPid rt) d (data_size sizes) traced sk3 w3;
         Some ((if ok then Inr () else Inl kErroneousFileHandle), evs1, fs1, sk, w) }) = Some (r, evs', fs', sk', w')"
      by (simp add: b_def)
    show ?thesis
    proof (cases ok3)
      case False
      with last 3 show ?thesis by simp
    next
      case True
      with last obtain ok where "CreateSharedMemoryForData os (GetPid rt) d (data_size sizes) traced sk3 w3 = Some (ok, sk', w')"
        by (auto simp: bind_eq_Some_conv)
      from acts_trans [OF 3 CreateData_acts [OF laws this]] show ?thesis .
    qed
  qed
qed

lemma OpenControl_outcome:
  assumes laws: "os_laws os view" and run: "OpenSharedMemoryForControl os level sk w = Some (ok, sk', w')"
  defines "v \<equiv> view (system w)"
  shows "acts_on_own_names view sk w sk' w'" and "view (system w') = v"
    and "data_sections w' = data_sections w \<and> storage_ptr sk' = storage_ptr sk \<and>
           (level \<noteq> kASIL_QM \<longrightarrow> control_qm sk' = control_qm sk)"
    and "ok \<Longrightarrow> \<exists>p. GetControlChannelShmPath (skeleton_identifier sk) level (path_service_id sk) = Some p \<and>
           region_at v p \<noteq> None \<and>
           (if level = kASIL_QM then control_qm sk' = region_at v p \<and> control_asil_b sk' = control_asil_b sk
            else control_asil_b sk' = region_at v p \<and> control_qm sk' = control_qm sk)"
proof -
  from run obtain p where p: "GetControlChannelShmPath (skeleton_identifier sk) level (path_service_id sk) = Some p"
    unfolding OpenSharedMemoryForControl_def by (auto simp: bind_eq_Some_conv)
  have own: "p \<in> names_of_skeleton sk" by (rule own_path_functions(1) [OF p])
  obtain r w1 where o: "on_system (shm_open os p True None) w = (r, w1)" by fastforce
  from on_systemD [OF o] have open_it: "shm_open os p True None (system w) = (r, system w1)" and w1: "w1 = w\<lparr>system := system w1\<rparr>"
    by simp_all
  from os_lawsD(12) [OF laws open_it] have r: "r = None \<or> r = region_at v p" and same: "view (system w1) = v"
    by (simp_all add: v_def)
  from run p o have w': "w' = w1" by (auto simp: OpenSharedMemoryForControl_def Let_def split: option.splits)
  show "view (system w') = v" using same w' by simp
  have skel: "same_skeleton sk sk'"
    using run p o own
    by (auto simp: OpenSharedMemoryForControl_def Let_def set_control_path_def set_control_resource_def same_skeleton_def
        saved_paths_ok_def names_of_skeleton_def split: option.splits if_splits)
  with same w' show "acts_on_own_names view sk w sk' w'" by (simp add: acts_on_own_names_def v_def)
  show "data_sections w' = data_sections w \<and> storage_ptr sk' = storage_ptr sk \<and>
           (level \<noteq> kASIL_QM \<longrightarrow> control_qm sk' = control_qm sk)"
    using run p o w1
    by (auto simp: OpenSharedMemoryForControl_def Let_def set_control_path_def set_control_resource_def
        split: option.splits if_splits) (metis shm_world.ext_inject shm_world.surjective shm_world.update_convs(1))+
  assume ok
  with run p o r show "\<exists>p. GetControlChannelShmPath (skeleton_identifier sk) level (path_service_id sk) = Some p \<and>
           region_at v p \<noteq> None \<and>
           (if level = kASIL_QM then control_qm sk' = region_at v p \<and> control_asil_b sk' = control_asil_b sk
            else control_asil_b sk' = region_at v p \<and> control_qm sk' = control_qm sk)"
    by (intro exI [of _ p])
      (auto simp: OpenSharedMemoryForControl_def Let_def set_control_path_def set_control_resource_def split: option.splits; metis)
qed

lemma OpenData_outcome:
  assumes laws: "os_laws os view" and run: "OpenSharedMemoryForData os pid traced sk w = Some (ok, sk', w')"
  defines "v \<equiv> view (system w)"
  shows "acts_on_own_names view sk w sk' w'" and "view (system w') = v"
    and "control_qm sk' = control_qm sk \<and> control_asil_b sk' = control_asil_b sk"
    and "ok \<Longrightarrow> \<exists>p. GetDataChannelShmPath (skeleton_identifier sk) (path_service_id sk) = Some p \<and>
           region_at v p \<noteq> None \<and> storage_ptr sk' = region_at v p"
    and "ok \<Longrightarrow> \<exists>r. storage_ptr sk' = Some r \<and> skeleton_pid (data_sections w' r) = pid"
proof -
  from run obtain p where p: "GetDataChannelShmPath (skeleton_identifier sk) (path_service_id sk) = Some p"
    unfolding OpenSharedMemoryForData_def by (auto simp: bind_eq_Some_conv)
  have own: "p \<in> names_of_skeleton sk" by (rule own_path_functions(2) [OF p])
  obtain r w1 where o: "on_system (shm_open os p True None) w = (r, w1)" by fastforce
  from on_systemD [OF o] have open_it: "shm_open os p True None (system w) = (r, system w1)" by simp
  from os_lawsD(12) [OF laws open_it] have r: "r = None \<or> r = region_at v p" and same: "view (system w1) = v"
    by (simp_all add: v_def)
  from run p o have w': "system w' = system w1"
    by (auto simp: OpenSharedMemoryForData_def Let_def bind_eq_Some_conv split: option.splits)
  show "view (system w') = v" using same w' by simp
  have skel: "same_skeleton sk sk'"
    using run p o own
    by (auto simp: OpenSharedMemoryForData_def Let_def bind_eq_Some_conv same_skeleton_def
        saved_paths_ok_def names_of_skeleton_def split: option.splits if_splits)
  with same w' show "acts_on_own_names view sk w sk' w'" by (simp add: acts_on_own_names_def v_def)
  show "control_qm sk' = control_qm sk \<and> control_asil_b sk' = control_asil_b sk"
    using run p o by (auto simp: OpenSharedMemoryForData_def Let_def bind_eq_Some_conv split: option.splits)
  assume ok
  with run p o r show "\<exists>p. GetDataChannelShmPath (skeleton_identifier sk) (path_service_id sk) = Some p \<and>
           region_at v p \<noteq> None \<and> storage_ptr sk' = region_at v p"
    by (intro exI [of _ p])
      (auto simp: OpenSharedMemoryForData_def Let_def bind_eq_Some_conv split: option.splits; metis)
  from \<open>ok\<close> run p o r show "\<exists>r. storage_ptr sk' = Some r \<and> skeleton_pid (data_sections w' r) = pid"
    by (auto simp: OpenSharedMemoryForData_def Let_def bind_eq_Some_conv set_data_def split: option.splits)
qed

text \<open>Memory that is reopened: the pointers of the skeleton are what the names of its instance denote.\<close>

definition points_to_names :: "os_view \<Rightarrow> skeleton \<Rightarrow> bool" where
  "points_to_names v sk \<longleftrightarrow>
     (\<exists>n d c. instance_number (skeleton_identifier sk) = Some n \<and>
        GetDataChannelShmName (path_service_id sk) n = Some d \<and> region_at v d \<noteq> None \<and> storage_ptr sk = region_at v d \<and>
        GetControlChannelShmName (path_service_id sk) n kASIL_QM = Some c \<and> region_at v c \<noteq> None \<and> control_qm sk = region_at v c \<and>
        (HasAsilBSupport (skeleton_identifier sk) \<longrightarrow>
           (\<exists>b. GetControlChannelShmName (path_service_id sk) n kASIL_B = Some b \<and> region_at v b \<noteq> None \<and>
                control_asil_b sk = region_at v b)))"

lemma OpenExisting_outcome:
  assumes laws: "os_laws os view" and run: "OpenExistingSharedMemory os pid traced sk w = Some (r, sk', w')"
  shows "acts_on_own_names view sk w sk' w'" and "view (system w') = view (system w)"
    and "r = Inr () \<Longrightarrow> points_to_names (view (system w)) sk'"
proof -
  let ?v = "view (system w)"
  note run' = run [unfolded OpenExistingSharedMemory_def]
  obtain ok1 sk1 w1 where 1: "OpenSharedMemoryForControl os kASIL_QM sk w = Some (ok1, sk1, w1)"
    using run' by (cases "OpenSharedMemoryForControl os kASIL_QM sk w") auto
  note o1 = OpenControl_outcome [OF laws 1]
  define b where "b = (if HasAsilBSupport (skeleton_identifier sk1) then OpenSharedMemoryForControl os kASIL_B sk1 w1
                      else Some (True, sk1, w1))"
  have "acts_on_own_names view sk w sk' w' \<and> view (system w') = ?v \<and> (r = Inr () \<longrightarrow> points_to_names ?v sk')"
  proof (cases ok1)
    case False
    with run' 1 o1 show ?thesis by auto
  next
    case True
    obtain ok2 sk2 w2 where 2: "b = Some (ok2, sk2, w2)"
      using run' 1 True unfolding b_def [symmetric] by (cases b) (auto simp: b_def)
    have o2: "acts_on_own_names view sk1 w1 sk2 w2 \<and> view (system w2) = view (system w1) \<and>
        storage_ptr sk2 = storage_ptr sk1 \<and> control_qm sk2 = control_qm sk1 \<and>
        (ok2 \<and> HasAsilBSupport (skeleton_identifier sk1) \<longrightarrow>
          (\<exists>p. GetControlChannelShmPath (skeleton_identifier sk1) kASIL_B (path_service_id sk1) = Some p \<and>
             region_at ?v p \<noteq> None \<and> control_asil_b sk2 = region_at ?v p))"
    proof (cases "HasAsilBSupport (skeleton_identifier sk1)")
      case True
      with 2 have c: "OpenSharedMemoryForControl os kASIL_B sk1 w1 = Some (ok2, sk2, w2)" by (simp add: b_def)
      with OpenControl_outcome [OF laws c] o1(2) True show ?thesis by auto
    qed (use 2 o1 in \<open>auto simp: b_def acts_refl\<close>)
    have A: "acts_on_own_names view sk w sk2 w2" using acts_trans [OF o1(1)] o2 by blast
    from run' 1 True 2 have last: "(if \<not> ok2 then Some (Inl kErroneousFileHandle, sk2, w2)
        else do { (ok, sk, w) \<leftarrow> OpenSharedMemoryForData os pid traced sk2 w2;
                  Some ((if ok then Inr () else Inl kErroneousFileHandle), sk, w) }) = Some (r, sk', w')"
      by (simp add: b_def)
    show ?thesis
    proof (cases ok2)
      case False
      with last A o1 o2 show ?thesis by auto
    next
      case ok2: True
      with last obtain ok3 where 3: "OpenSharedMemoryForData os pid traced sk2 w2 = Some (ok3, sk', w')"
          and r: "r = (if ok3 then Inr () else Inl kErroneousFileHandle)"
        by (auto simp: bind_eq_Some_conv)
      note o3 = OpenData_outcome [OF laws 3]
      have same: "same_skeleton sk sk1" "same_skeleton sk sk2" "same_skeleton sk sk'"
        using o1(1) A acts_trans [OF A o3(1)] by (simp_all add: acts_on_own_names_def)
      have "points_to_names ?v sk'" if ok3
      proof -
        from o1(4) [OF True] obtain c where c: "GetControlChannelShmPath (skeleton_identifier sk) kASIL_QM (path_service_id sk) = Some c"
          "region_at ?v c \<noteq> None" "control_qm sk1 = region_at ?v c" by auto
        from o3(4) [OF that] o2 o1(2) obtain d where d: "GetDataChannelShmPath (skeleton_identifier sk2) (path_service_id sk2) = Some d"
          "region_at ?v d \<noteq> None" "storage_ptr sk' = region_at ?v d" by auto
        from c(1) obtain n where n: "instance_number (skeleton_identifier sk) = Some n"
          by (auto simp: GetControlChannelShmPath_def bind_eq_Some_conv)
        have ids: "skeleton_identifier sk' = skeleton_identifier sk" "path_service_id sk' = path_service_id sk"
          "skeleton_identifier sk2 = skeleton_identifier sk" "path_service_id sk2 = path_service_id sk"
          "skeleton_identifier sk1 = skeleton_identifier sk" "path_service_id sk1 = path_service_id sk"
          using same by (simp_all add: same_skeleton_def)
        show ?thesis
          unfolding points_to_names_def ids
          using n c d o2 o3(3) ok2 unfolding ids
          by (intro exI [of _ n] exI [of _ d] exI [of _ c]) (auto simp: GetControlChannelShmPath_def GetDataChannelShmPath_def)
      qed
      with r acts_trans [OF A o3(1)] o3(2) o2 o1(2) show ?thesis by auto
    qed
  qed
  then show "acts_on_own_names view sk w sk' w'" "view (system w') = ?v" "r = Inr () \<Longrightarrow> points_to_names ?v sk'"
    by auto
qed

end
