(* ===== verification/Restart_Safety.thy ===== *)
theory Restart_Safety
  imports Partial_Restart
begin

text \<open>
  The invariant of the histories of \<open>Partial_Restart\<close> and the properties that rest on it.

  \<^item> \<open>files_ok\<close>: an open usage marker file is the file that its path names and will not remove it; an
    exclusive lock of a file is alone.
  \<^item> \<open>skeleton_ok\<close>, \<open>proxy_ok\<close>: what a party holds; a proxy that uses memory uses what the names of its
    instance denote.
  \<^item> No open file belongs to two parties.

  A step of a party is judged by what it does to the view of the system: the other parties keep their
  open files, and a party that changes the names of an instance holds the exclusive lock of its usage
  marker file, so no proxy of that instance is there.
\<close>

subsection \<open>The invariant\<close>

definition usage_path :: "u16 \<Rightarrow> u16 \<Rightarrow> string" where
  "usage_path s n = ''/tmp/mw_com_lola/partial_restart/usage-'' @ instance_text s n"

definition is_usage :: "string \<Rightarrow> bool" where
  "is_usage p \<longleftrightarrow> (\<exists>s n. p = usage_path s n)"

lemma usage_path_inject [simp]: "usage_path s n = usage_path s' n' \<longleftrightarrow> s = s' \<and> n = n'"
  by (simp add: usage_path_def)

lemma usage_path_is_usage [simp]: "is_usage (usage_path s n)"
  by (auto simp: is_usage_def)

lemma usage_path_text: "GetServiceInstanceUsageMarkerFilePath s n = Some (usage_path s n)"
  by (simp add: marker_file_texts usage_path_def)

lemma existence_not_usage: "GetServiceInstanceExistenceMarkerFilePath s n = Some p \<Longrightarrow> \<not> is_usage p"
  by (auto simp: marker_file_texts is_usage_def usage_path_def)

definition files_ok :: "os_view \<Rightarrow> bool" where
  "files_ok v \<longleftrightarrow>
     (\<forall>h f. open_files v h = Some f \<longrightarrow> is_usage (file_path f) \<longrightarrow>
        \<not> file_owned f \<and> file_at v (file_path f) = Some (file_inode f)) \<and>
     (\<forall>h h' f f'. h \<noteq> h' \<longrightarrow> open_files v h = Some f \<longrightarrow> open_files v h' = Some f' \<longrightarrow>
        file_inode f = file_inode f' \<longrightarrow> file_lock f = Some Exclusive \<longrightarrow> file_lock f' = None)"

definition skeleton_ok :: "os_view \<Rightarrow> skeleton_phase \<Rightarrow> skeleton \<Rightarrow> bool" where
  "skeleton_ok v ph sk \<longleftrightarrow>
     saved_paths_ok sk \<and>
     (\<exists>f. open_files v (existence_marker_file sk) = Some f \<and> \<not> is_usage (file_path f)) \<and>
     (\<forall>h. usage_marker_file sk = Some h \<longrightarrow>
        (\<exists>f n. instance_number (skeleton_identifier sk) = Some n \<and> open_files v h = Some f \<and>
               file_path f = usage_path (path_service_id sk) n \<and>
               (ph = Stopping \<or> ph = Offering \<and> \<not> was_old_shm_region_reopened sk \<longrightarrow> file_lock f = Some Exclusive))) \<and>
     (ph \<noteq> Idle \<longrightarrow> usage_marker_file sk \<noteq> None)"

definition handle_of :: "('b, 'g) proxy_phase \<Rightarrow> proxy_handle" where
  "handle_of ph = (case ph of Holding handle _ \<Rightarrow> handle | Using p \<Rightarrow> proxy_handle_of p)"

text \<open>A proxy and the names of its memory.\<close>

definition uses_named_memory :: "os_view \<Rightarrow> ('b, 'g) proxy \<Rightarrow> bool" where
  "uses_named_memory v p \<longleftrightarrow>
     (\<exists>td n c d. GetLoLaServiceTypeDeployment (proxy_handle_of p) = Some td \<and> lola_instance_of (proxy_handle_of p) = Some n \<and>
        GetControlChannelShmName (service_id td) n (asil_level (instance_deployment (handle_for (proxy_handle_of p)))) = Some c \<and>
        GetDataChannelShmName (service_id td) n = Some d \<and>
        region_at v c = Some (proxy_control p) \<and> region_at v d = Some (proxy_data p))"

definition proxy_ok :: "os_view \<Rightarrow> ('b, 'g) proxy_phase \<Rightarrow> bool" where
  "proxy_ok v ph \<longleftrightarrow>
     (\<exists>td n f. GetLoLaServiceTypeDeployment (handle_of ph) = Some td \<and> lola_instance_of (handle_of ph) = Some n \<and>
        open_files v (proxy_file ph) = Some f \<and> file_path f = usage_path (service_id td) n \<and> file_lock f = Some Shared) \<and>
     (\<forall>p. ph = Using p \<longrightarrow> uses_named_memory v p)"

fun party_files :: "('v, 's, 'b, 'g) parties \<Rightarrow> nat + nat \<Rightarrow> lock_file set" where
  "party_files st (Inl k) = (case skeletons st k of None \<Rightarrow> {} | Some (_, sk) \<Rightarrow> set (lock_files_of sk))"
| "party_files st (Inr k) = (case proxies st k of None \<Rightarrow> {} | Some ph \<Rightarrow> {proxy_file ph})"

definition parties_ok :: "('s \<Rightarrow> os_view) \<Rightarrow> ('v, 's, 'b, 'g) parties \<Rightarrow> bool" where
  "parties_ok view st \<longleftrightarrow>
     files_ok (view (system (shm st))) \<and>
     (\<forall>k ph sk. skeletons st k = Some (ph, sk) \<longrightarrow> skeleton_ok (view (system (shm st))) ph sk) \<and>
     (\<forall>k ph. proxies st k = Some ph \<longrightarrow> proxy_ok (view (system (shm st))) ph) \<and>
     (\<forall>a b. a \<noteq> b \<longrightarrow> party_files st a \<inter> party_files st b = {})"

subsection \<open>Changes of the view\<close>

lemma files_okD:
  assumes "files_ok v" and "open_files v h = Some f"
  shows "is_usage (file_path f) \<Longrightarrow> \<not> file_owned f"
    and "is_usage (file_path f) \<Longrightarrow> file_at v (file_path f) = Some (file_inode f)"
    and "open_files v h' = Some f' \<Longrightarrow> h \<noteq> h' \<Longrightarrow> file_inode f = file_inode f' \<Longrightarrow> file_lock f = Some Exclusive \<Longrightarrow>
           file_lock f' = None"
  using assms unfolding files_ok_def by blast+

lemma files_okI:
  assumes "\<And>h f. open_files v h = Some f \<Longrightarrow> is_usage (file_path f) \<Longrightarrow>
             \<not> file_owned f \<and> file_at v (file_path f) = Some (file_inode f)"
    and "\<And>h h' f f'. h \<noteq> h' \<Longrightarrow> open_files v h = Some f \<Longrightarrow> open_files v h' = Some f' \<Longrightarrow>
             file_inode f = file_inode f' \<Longrightarrow> file_lock f = Some Exclusive \<Longrightarrow> file_lock f' = None"
  shows "files_ok v"
  using assms unfolding files_ok_def by blast

lemma files_ok_opens:
  assumes "files_ok v" and "opens_file p create r v v'"
  shows "files_ok v'"
proof (cases r)
  case None
  with assms show ?thesis by (simp add: opens_file_def)
next
  case (Some h)
  with assms(2) obtain n where fresh: "open_files v h = None" and at: "file_at v p = Some n \<or> file_at v p = None"
    and v': "v' = v\<lparr>file_at := (file_at v)(p \<mapsto> n), open_files := (open_files v)(h \<mapsto>
       \<lparr>file_path = p, file_inode = n, file_owned = False, file_lock = None\<rparr>)\<rparr>"
    by (auto simp: opens_file_def)
  show ?thesis
  proof (rule files_okI)
    fix g f
    assume f: "open_files v' g = Some f" "is_usage (file_path f)"
    show "\<not> file_owned f \<and> file_at v' (file_path f) = Some (file_inode f)"
    proof (cases "g = h")
      case True
      with f v' show ?thesis by auto
    next
      case False
      with f v' have old: "open_files v g = Some f" by simp
      from files_okD(1,2) [OF assms(1) old f(2)] at v' show ?thesis by auto
    qed
  next
    fix g g' f f'
    assume a: "g \<noteq> g'" "open_files v' g = Some f" "open_files v' g' = Some f'" "file_inode f = file_inode f'"
      "file_lock f = Some Exclusive"
    then have "g \<noteq> h" using v' by auto
    show "file_lock f' = None"
    proof (cases "g' = h")
      case True
      with a v' show ?thesis by auto
    next
      case False
      with a v' \<open>g \<noteq> h\<close> files_okD(3) [OF assms(1), of g f g' f'] show ?thesis by simp
    qed
  qed
qed

lemma files_ok_changes:
  assumes "files_ok v" and "changes_names N v v'"
  shows "files_ok v'"
proof -
  have same: "open_files v' = open_files v" "file_at v' = file_at v" using assms(2) by (simp_all add: changes_names_def)
  show ?thesis using assms(1) unfolding files_ok_def same .
qed

lemma files_ok_locks:
  assumes ok: "files_ok v" and l: "locks_file ks k h b v v'" and kinds: "ks = {Exclusive, Shared} \<and> k = Exclusive \<or> ks = {Exclusive} \<and> k = Shared"
  shows "files_ok v'"
proof (cases "b \<and> open_files v h \<noteq> None")
  case False
  then have "v' = v" using l by (auto simp: locks_file_def set_open_file_def fun_upd_idem)
  with ok show ?thesis by simp
next
  case True
  then obtain f0 where f0: "open_files v h = Some f0" by blast
  have free: "\<not> locked_elsewhere ks h v" and v': "v' = v\<lparr>open_files := (open_files v)(h \<mapsto> f0\<lparr>file_lock := Some k\<rparr>)\<rparr>"
    using l True f0 by (auto simp: locks_file_def set_open_file_def)
  have others: "x \<notin> ks" if "g \<noteq> h" "open_files v g = Some f" "file_inode f = file_inode f0" "file_lock f = Some x" for g f x
    using free that f0 unfolding locked_elsewhere_def by (metis)
  show ?thesis
  proof (rule files_okI)
    fix g f
    assume "open_files v' g = Some f" "is_usage (file_path f)"
    with v' f0 files_okD(1,2) [OF ok, of g f] files_okD(1,2) [OF ok f0]
    show "\<not> file_owned f \<and> file_at v' (file_path f) = Some (file_inode f)" by (auto split: if_splits)
  next
    fix g g' f f'
    assume a: "g \<noteq> g'" "open_files v' g = Some f" "open_files v' g' = Some f'" "file_inode f = file_inode f'"
      "file_lock f = Some Exclusive"
    consider "g = h" | "g' = h" "g \<noteq> h" | "g \<noteq> h" "g' \<noteq> h" by blast
    then show "file_lock f' = None"
    proof cases
      case 1
      with a v' have f: "f = f0\<lparr>file_lock := Some k\<rparr>" "open_files v g' = Some f'" by auto
      show ?thesis
      proof (rule ccontr)
        assume "file_lock f' \<noteq> None"
        then obtain x where "file_lock f' = Some x" by blast
        with others [of g' f' x] f a 1 kinds show False by (cases x) auto
      qed
    next
      case 2
      with a v' have "open_files v g = Some f" "file_inode f = file_inode f0" by auto
      with others [of g f Exclusive] 2 a(5) kinds show ?thesis by auto
    next
      case 3
      with a v' show ?thesis using files_okD(3) [OF ok, of g f g' f'] by simp
    qed
  qed
qed

lemma files_ok_fewer:
  assumes ok: "files_ok v"
    and files: "\<And>h f. open_files v' h = Some f \<Longrightarrow> \<exists>f0. open_files v h = Some f0 \<and> file_path f0 = file_path f \<and>
        file_inode f0 = file_inode f \<and> (file_owned f \<longrightarrow> file_owned f0 \<or> \<not> is_usage (file_path f)) \<and>
        (file_lock f = file_lock f0 \<or> file_lock f = None)"
    and paths: "\<And>p. is_usage p \<Longrightarrow> file_at v' p = file_at v p"
  shows "files_ok v'"
proof (rule files_okI)
  fix h f
  assume f: "open_files v' h = Some f" "is_usage (file_path f)"
  from files [OF f(1)] obtain f0 where f0: "open_files v h = Some f0" "file_path f0 = file_path f"
    "file_inode f0 = file_inode f" "file_owned f \<longrightarrow> file_owned f0 \<or> \<not> is_usage (file_path f)" by blast
  with files_okD(1,2) [OF ok f0(1)] paths f(2) show "\<not> file_owned f \<and> file_at v' (file_path f) = Some (file_inode f)" by auto
next
  fix h h' f f'
  assume a: "h \<noteq> h'" "open_files v' h = Some f" "open_files v' h' = Some f'" "file_inode f = file_inode f'"
    "file_lock f = Some Exclusive"
  from files [OF a(2)] obtain f0 where f0: "open_files v h = Some f0" "file_inode f0 = file_inode f"
    "file_lock f = file_lock f0 \<or> file_lock f = None" by blast
  from files [OF a(3)] obtain f0' where f0': "open_files v h' = Some f0'" "file_inode f0' = file_inode f'"
    "file_lock f' = file_lock f0' \<or> file_lock f' = None" by blast
  from files_okD(3) [OF ok f0(1) f0'(1) a(1)] a(4,5) f0 f0' show "file_lock f' = None" by auto
qed

lemma files_ok_unlock: "files_ok v \<Longrightarrow> files_ok (set_open_file h (\<lambda>f. f\<lparr>file_lock := None\<rparr>) v)"
  by (erule files_ok_fewer) (auto simp: set_open_file_def split: if_splits)

lemma files_ok_own:
  "files_ok v \<Longrightarrow> (\<And>f. open_files v h = Some f \<Longrightarrow> \<not> is_usage (file_path f)) \<Longrightarrow>
     files_ok (set_open_file h (\<lambda>f. f\<lparr>file_owned := True\<rparr>) v)"
  by (erule files_ok_fewer) (auto simp: set_open_file_def split: if_splits)

lemma files_ok_destroy:
  assumes "files_ok v"
  shows "files_ok (destroys_file h v)"
proof (rule files_ok_fewer [OF assms])
  fix g f
  assume "open_files (destroys_file h v) g = Some f"
  then have "open_files v g = Some f" by (auto simp: destroys_file_def Let_def split: option.splits if_splits)
  then show "\<exists>f0. open_files v g = Some f0 \<and> file_path f0 = file_path f \<and>
        file_inode f0 = file_inode f \<and> (file_owned f \<longrightarrow> file_owned f0 \<or> \<not> is_usage (file_path f)) \<and>
        (file_lock f = file_lock f0 \<or> file_lock f = None)" by blast
next
  fix p
  assume "is_usage p"
  with files_okD(1) [OF assms] show "file_at (destroys_file h v) p = file_at v p"
    by (auto simp: destroys_file_def Let_def split: option.splits)
qed

lemma files_ok_exit: "files_ok v \<Longrightarrow> files_ok (v\<lparr>open_files := (\<lambda>h. if h \<in> A then None else open_files v h)\<rparr>)"
  by (erule files_ok_fewer) (auto split: if_splits)

subsection \<open>Steps of one party\<close>

lemma skeleton_ok_frame:
  assumes "skeleton_ok v ph sk" and "\<And>h. h \<in> set (lock_files_of sk) \<Longrightarrow> open_files v' h = open_files v h"
  shows "skeleton_ok v' ph sk"
proof -
  have e: "open_files v' (existence_marker_file sk) = open_files v (existence_marker_file sk)"
    and u: "\<And>h. usage_marker_file sk = Some h \<Longrightarrow> open_files v' h = open_files v h"
    using assms(2) by (auto simp: lock_files_of_def)
  show ?thesis using assms(1) e u unfolding skeleton_ok_def by auto
qed

lemma proxy_ok_frame:
  assumes "proxy_ok v ph" and "open_files v' (proxy_file ph) = open_files v (proxy_file ph)"
    and "\<And>p. ph = Using p \<Longrightarrow> uses_named_memory v p \<Longrightarrow> uses_named_memory v' p"
  shows "proxy_ok v' ph"
  using assms unfolding proxy_ok_def by simp

lemma parties_okD:
  assumes "parties_ok view st"
  shows "files_ok (view (system (shm st)))"
    and "skeletons st k = Some (ph, sk) \<Longrightarrow> skeleton_ok (view (system (shm st))) ph sk"
    and "proxies st k = Some px \<Longrightarrow> proxy_ok (view (system (shm st))) px"
    and "a \<noteq> b \<Longrightarrow> h \<in> party_files st a \<Longrightarrow> h \<notin> party_files st b"
  using assms unfolding parties_ok_def by blast+

lemma party_files_open:
  assumes "parties_ok view st" and "h \<in> party_files st a"
  shows "open_files (view (system (shm st))) h \<noteq> None"
proof (cases a)
  case (Inl k)
  with assms(2) obtain ph sk where sk: "skeletons st k = Some (ph, sk)" and h: "h \<in> set (lock_files_of sk)"
    by (auto split: option.splits)
  from parties_okD(2) [OF assms(1) sk] h show ?thesis
    by (auto simp: skeleton_ok_def lock_files_of_def split: option.splits dest!: sym [of "Some _"])
next
  case (Inr k)
  with assms(2) obtain px where px: "proxies st k = Some px" and h: "h = proxy_file px" by (auto split: option.splits)
  from parties_okD(3) [OF assms(1) px] h show ?thesis by (auto simp: proxy_ok_def)
qed

lemma parties_ok_step:
  fixes st st' :: "('v, 's, 'b, 'g) parties"
  assumes ok: "parties_ok view st"
  defines "v \<equiv> view (system (shm st))" and "v' \<equiv> view (system (shm st'))"
  assumes others_sk: "\<And>k. Inl k \<noteq> a \<Longrightarrow> skeletons st' k = skeletons st k"
    and others_px: "\<And>k. Inr k \<noteq> a \<Longrightarrow> proxies st' k = proxies st k"
    and files: "files_ok v'"
    and keep: "\<And>h. h \<notin> party_files st a \<Longrightarrow> open_files v h \<noteq> None \<Longrightarrow> open_files v' h = open_files v h"
    and names: "\<And>k p. Inr k \<noteq> a \<Longrightarrow> proxies st k = Some (Using p) \<Longrightarrow> uses_named_memory v p \<Longrightarrow> uses_named_memory v' p"
    and me_sk: "\<And>k ph sk. a = Inl k \<Longrightarrow> skeletons st' k = Some (ph, sk) \<Longrightarrow> skeleton_ok v' ph sk"
    and me_px: "\<And>k px. a = Inr k \<Longrightarrow> proxies st' k = Some px \<Longrightarrow> proxy_ok v' px"
    and new: "\<And>h. h \<in> party_files st' a \<Longrightarrow> h \<in> party_files st a \<or> open_files v h = None"
  shows "parties_ok view st'"
proof -
  have same_files: "party_files st' b = party_files st b" if "b \<noteq> a" for b
    using that others_sk others_px by (cases b) auto
  have keep': "open_files v' h = open_files v h" if "b \<noteq> a" "h \<in> party_files st b" for b h
    using keep parties_okD(4) [OF ok that] party_files_open [OF ok that(2)] unfolding v_def by blast
  have skel: "skeleton_ok v' ph sk" if sk: "skeletons st' k = Some (ph, sk)" for k ph sk
  proof (cases "Inl k = a")
    case True
    with me_sk sk show ?thesis by blast
  next
    case False
    with sk others_sk have old: "skeletons st k = Some (ph, sk)" by simp
    show ?thesis
      by (rule skeleton_ok_frame [OF parties_okD(2) [OF ok old, folded v_def]], rule keep' [OF False])
        (simp add: old)
  qed
  have prox: "proxy_ok v' px" if px: "proxies st' k = Some px" for k px
  proof (cases "Inr k = a")
    case True
    with me_px px show ?thesis by blast
  next
    case False
    with px others_px have old: "proxies st k = Some px" by simp
    show ?thesis
    proof (rule proxy_ok_frame [OF parties_okD(3) [OF ok old, folded v_def]])
      show "open_files v' (proxy_file px) = open_files v (proxy_file px)" by (rule keep' [OF False]) (simp add: old)
      show "\<And>p. px = Using p \<Longrightarrow> uses_named_memory v p \<Longrightarrow> uses_named_memory v' p" using names [OF False] old by blast
    qed
  qed
  have disj: "party_files st' b \<inter> party_files st' c = {}" if "b \<noteq> c" for b c
  proof (rule ccontr)
    assume "party_files st' b \<inter> party_files st' c \<noteq> {}"
    then obtain h where h: "h \<in> party_files st' b" "h \<in> party_files st' c" by blast
    have "h \<in> party_files st x \<or> open_files v h = None" if "h \<in> party_files st' x" for x
      using that new same_files by (cases "x = a") auto
    from this [OF h(1)] this [OF h(2)] have "h \<in> party_files st b \<and> h \<in> party_files st c \<or> open_files v h = None"
      by auto
    moreover have "\<exists>x \<in> {b, c}. x \<noteq> a" using that by auto
    then obtain x where "x \<in> {b, c}" "x \<noteq> a" by blast
    with h same_files party_files_open [OF ok, of h x] have "open_files v h \<noteq> None" unfolding v_def by auto
    ultimately show False using parties_okD(4) [OF ok that] by blast
  qed
  show ?thesis
    unfolding parties_ok_def v'_def [symmetric]
    using files skel prox disj by blast
qed

lemma exclusive_excludes:
  assumes ok: "files_ok v" and f: "open_files v h = Some f" "file_path f = usage_path s n" "file_lock f = Some Exclusive"
    and px: "proxy_ok v px" and td: "GetLoLaServiceTypeDeployment (handle_of px) = Some td" "lola_instance_of (handle_of px) = Some m"
  shows "(service_id td, m) \<noteq> (s, n)"
proof
  assume same: "(service_id td, m) = (s, n)"
  from px td obtain g where g: "open_files v (proxy_file px) = Some g" "file_path g = usage_path s n" "file_lock g = Some Shared"
    using same by (auto simp: proxy_ok_def)
  have "file_inode f = file_inode g"
    using files_okD(2) [OF ok f(1)] files_okD(2) [OF ok g(1)] f(2) g(2) by simp
  moreover have "h \<noteq> proxy_file px" using f g by auto
  ultimately show False using files_okD(3) [OF ok f(1) g(1)] f(3) g(3) by simp
qed

lemma own_names_disjoint:
  assumes "(s, n) \<noteq> (s', n')"
  shows "GetDataChannelShmName s n = Some p \<Longrightarrow> p \<notin> own_names s' n'"
    and "GetControlChannelShmName s n q = Some p \<Longrightarrow> p \<notin> own_names s' n'"
proof -
  {
    assume d: "GetDataChannelShmName s n = Some p"
    have "GetDataChannelShmName s' n' \<noteq> Some p" using shm_names_inject(1) [of s n s' n'] d assms by metis
    moreover have "GetControlChannelShmName s' n' q' \<noteq> Some p" for q'
      using shm_names_differ(2) [of s n s' n' q'] d by metis
    ultimately show "p \<notin> own_names s' n'" by (simp add: own_names_def)
  next
    assume c: "GetControlChannelShmName s n q = Some p"
    then have q: "q \<noteq> kInvalid" by (auto simp: GetControlChannelShmName_text)
    have "GetDataChannelShmName s' n' \<noteq> Some p" using shm_names_differ(2) [of s' n' s n q] c by metis
    moreover have "GetControlChannelShmName s' n' q' \<noteq> Some p" for q'
      using shm_names_inject(2) [OF q, of s n s' n' q'] c assms by metis
    ultimately show "p \<notin> own_names s' n'" by (simp add: own_names_def)
  }
qed

lemma uses_named_memory_changes:
  assumes "changes_names N v v'" and "uses_named_memory v p"
    and "\<And>td m x. GetLoLaServiceTypeDeployment (proxy_handle_of p) = Some td \<Longrightarrow> lola_instance_of (proxy_handle_of p) = Some m \<Longrightarrow>
           x \<in> N \<Longrightarrow> x \<notin> own_names (service_id td) m"
  shows "uses_named_memory v' p"
proof -
  from assms(2) obtain td n c d where td: "GetLoLaServiceTypeDeployment (proxy_handle_of p) = Some td"
      "lola_instance_of (proxy_handle_of p) = Some n"
    and c: "GetControlChannelShmName (service_id td) n (asil_level (instance_deployment (handle_for (proxy_handle_of p)))) = Some c"
    and d: "GetDataChannelShmName (service_id td) n = Some d"
    and at: "region_at v c = Some (proxy_control p)" "region_at v d = Some (proxy_data p)"
    unfolding uses_named_memory_def by blast
  have "c \<in> own_names (service_id td) n" "d \<in> own_names (service_id td) n" using c d by (auto simp: own_names_def)
  with assms(3) [OF td] have "c \<notin> N" "d \<notin> N" by blast+
  with assms(1) at have "region_at v' c = Some (proxy_control p)" "region_at v' d = Some (proxy_data p)"
    by (simp_all add: changes_names_def)
  with td c d show ?thesis unfolding uses_named_memory_def by blast
qed

lemma uses_named_memory_same: "region_at v' = region_at v \<Longrightarrow> uses_named_memory v p \<Longrightarrow> uses_named_memory v' p"
  by (simp add: uses_named_memory_def)

definition touches :: "lock_file set \<Rightarrow> os_view \<Rightarrow> os_view \<Rightarrow> bool" where
  "touches H v v' \<longleftrightarrow> region_at v' = region_at v \<and> (\<forall>g. g \<notin> H \<longrightarrow> open_files v' g = open_files v g)"

lemma touches_refl [simp]: "touches H v v"
  by (simp add: touches_def)

lemma touchesD:
  "touches H v v' \<Longrightarrow> g \<notin> H \<Longrightarrow> open_files v' g = open_files v g"
  "touches H v v' \<Longrightarrow> region_at v' = region_at v"
  by (simp_all add: touches_def)

lemma touches_trans: "touches A u v \<Longrightarrow> touches B v w \<Longrightarrow> A \<union> B \<subseteq> C \<Longrightarrow> touches C u w"
  unfolding touches_def by (metis Un_subset_iff subsetD)

lemma touches_opens: "opens_file p c (Some h) v v' \<Longrightarrow> touches {h} v v' \<and> open_files v h = None"
  by (auto simp: opens_file_def touches_def)

lemma opens_new_file:
  "opens_file p c (Some h) v v' \<Longrightarrow> \<exists>f. open_files v' h = Some f \<and> file_path f = p \<and> file_lock f = None"
  by (auto simp: opens_file_def)

lemma touches_locks: "locks_file ks k h b v v' \<Longrightarrow> touches {h} v v'"
  by (auto simp: locks_file_def touches_def set_open_file_def)

lemma locks_outcome:
  "locks_file ks k h b v v' \<Longrightarrow> open_files v h = Some f \<Longrightarrow>
     open_files v' h = Some (if b then f\<lparr>file_lock := Some k\<rparr> else f)"
  by (auto simp: locks_file_def set_open_file_def)

lemma touches_set: "touches {h} v (set_open_file h g v)"
  by (auto simp: touches_def set_open_file_def)

lemma touches_destroy: "touches {h} v (destroys_file h v)"
  by (auto simp: touches_def destroys_file_def Let_def split: option.split)

lemma skeleton_step_ok:
  fixes st st' :: "('v, 's, 'b, 'g) parties"
  assumes ok: "parties_ok view st" and st': "st' = st\<lparr>shm := w', skeletons := (skeletons st)(k := r)\<rparr>"
    and files: "files_ok (view (system w'))"
    and keep: "\<And>h. h \<notin> party_files st (Inl k) \<Longrightarrow> open_files (view (system (shm st))) h \<noteq> None \<Longrightarrow>
        open_files (view (system w')) h = open_files (view (system (shm st))) h"
    and names: "\<And>j p. proxies st j = Some (Using p) \<Longrightarrow> uses_named_memory (view (system (shm st))) p \<Longrightarrow>
        uses_named_memory (view (system w')) p"
    and me: "\<And>ph sk. r = Some (ph, sk) \<Longrightarrow> skeleton_ok (view (system w')) ph sk"
    and new: "\<And>ph sk h. r = Some (ph, sk) \<Longrightarrow> h \<in> set (lock_files_of sk) \<Longrightarrow>
        h \<in> party_files st (Inl k) \<or> open_files (view (system (shm st))) h = None"
  shows "parties_ok view st'"
proof (rule parties_ok_step [OF ok, where a = "Inl k"])
  fix h
  assume h: "h \<in> party_files st' (Inl k)"
  then obtain ph sk where "r = Some (ph, sk)" "h \<in> set (lock_files_of sk)" by (auto simp: st' split: option.splits)
  from new [OF this] show "h \<in> party_files st (Inl k) \<or> open_files (view (system (shm st))) h = None" .
qed (use files keep names me in \<open>auto simp: st'\<close>)

lemma proxy_step_ok:
  fixes st st' :: "('v, 's, 'b, 'g) parties"
  assumes ok: "parties_ok view st" and st': "st' = st\<lparr>shm := w', proxies := (proxies st)(k := r)\<rparr>"
    and files: "files_ok (view (system w'))"
    and keep: "\<And>h. h \<notin> party_files st (Inr k) \<Longrightarrow> open_files (view (system (shm st))) h \<noteq> None \<Longrightarrow>
        open_files (view (system w')) h = open_files (view (system (shm st))) h"
    and names: "region_at (view (system w')) = region_at (view (system (shm st)))"
    and me: "\<And>px. r = Some px \<Longrightarrow> proxy_ok (view (system w')) px"
    and new: "\<And>px. r = Some px \<Longrightarrow> proxy_file px \<in> party_files st (Inr k) \<or> open_files (view (system (shm st))) (proxy_file px) = None"
  shows "parties_ok view st'"
proof (rule parties_ok_step [OF ok, where a = "Inr k"])
  fix h
  assume h: "h \<in> party_files st' (Inr k)"
  then obtain px where "r = Some px" "h = proxy_file px" by (auto simp: st' split: option.splits)
  with new [of px] show "h \<in> party_files st (Inr k) \<or> open_files (view (system (shm st))) h = None" by simp
next
  show "\<And>j p. Inr j \<noteq> Inr k \<Longrightarrow> proxies st j = Some (Using p) \<Longrightarrow> uses_named_memory (view (system (shm st))) p \<Longrightarrow>
      uses_named_memory (view (system (shm st'))) p"
    unfolding st' by (simp add: uses_named_memory_same [OF names])
qed (use files keep me in \<open>simp_all add: st'\<close>)

lemma step_skeletonD:
  "step_skeleton k ph f st = Some st' \<Longrightarrow>
     \<exists>sk r w'. skeletons st k = Some (ph, sk) \<and> f sk (shm st) = Some (r, w') \<and>
       st' = st\<lparr>shm := w', skeletons := (skeletons st)(k := r)\<rparr>"
  by (auto simp: step_skeleton_def bind_eq_Some_conv split: option.splits if_splits)

lemma exclusive_skeleton_changes:
  fixes st :: "('v, 's, 'b, 'g) parties"
  assumes ok: "parties_ok view st" and sk: "skeletons st k = Some (ph, sk)"
    and ex: "ph = Stopping \<or> ph = Offering \<and> \<not> was_old_shm_region_reopened sk"
    and ch: "changes_names (names_of_skeleton sk) (view (system (shm st))) v'"
    and px: "proxies st j = Some (Using p)" and u: "uses_named_memory (view (system (shm st))) p"
  shows "uses_named_memory v' p"
proof -
  from parties_okD(2) [OF ok sk] ex obtain h f n where n: "instance_number (skeleton_identifier sk) = Some n"
    and f: "open_files (view (system (shm st))) h = Some f" "file_path f = usage_path (path_service_id sk) n"
      "file_lock f = Some Exclusive"
    unfolding skeleton_ok_def by auto
  have own: "names_of_skeleton sk = own_names (path_service_id sk) n" using n by (auto simp: names_of_skeleton_def)
  show ?thesis
  proof (rule uses_named_memory_changes [OF ch u])
    fix td m x
    assume td: "GetLoLaServiceTypeDeployment (proxy_handle_of p) = Some td" "lola_instance_of (proxy_handle_of p) = Some m"
      and x: "x \<in> names_of_skeleton sk"
    have "(service_id td, m) \<noteq> (path_service_id sk, n)"
      using exclusive_excludes [OF parties_okD(1) [OF ok] f parties_okD(3) [OF ok px]] td by (simp add: handle_of_def)
    then have "(path_service_id sk, n) \<noteq> (service_id td, m)" by metis
    from own_names_disjoint [OF this] x own show "x \<notin> own_names (service_id td) m" by (auto simp: own_names_def)
  qed
qed

subsection \<open>Every step keeps the invariant\<close>

lemma system_upd [simp]: "system (w\<lparr>system := s\<rparr>) = s"
  by simp

lemma Create_skeleton_ok:
  fixes st :: "('v, 's, 'b, 'g) parties"
  assumes laws: "os_laws os view" and ok: "parties_ok view st"
    and run: "run_party os (Create_skeleton k i svc) st = Some st'"
  shows "parties_ok view st'"
proof -
  from run obtain r w' where none: "skeletons st k = None" and c: "Skeleton_Create os i svc (shm st) = Some (r, w')"
    and st': "st' = st\<lparr>shm := w', skeletons := (skeletons st)(k := map_option (Pair Idle) r)\<rparr>"
    by (cases "skeletons st k"; cases "Skeleton_Create os i svc (shm st)") auto
  let ?v = "view (system (shm st))"
  note fok = parties_okD(1) [OF ok]
  obtain b w1 where d: "on_system (os_create_directories os GetLolaPartialRestartDirectoryPath) (shm st) = (b, w1)" by fastforce
  have v1: "view (system w1) = ?v" using os_lawsD(1) [OF laws] on_systemD [OF d] by (metis snd_conv)
  have "files_ok (view (system w')) \<and>
     (\<forall>h. open_files ?v h \<noteq> None \<longrightarrow> open_files (view (system w')) h = open_files ?v h) \<and>
     region_at (view (system w')) = region_at ?v \<and>
     (\<forall>sk. r = Some sk \<longrightarrow> skeleton_ok (view (system w')) Idle sk \<and> lock_files_of sk = [existence_marker_file sk] \<and>
        open_files ?v (existence_marker_file sk) = None)"
  proof (cases b)
    case False
    with c d have "r = None" "w' = w1" by (simp_all add: Skeleton_Create_def CreatePartialRestartDirectory_def)
    with v1 fok show ?thesis by simp
  next
    case True
    with c d obtain n path where n: "instance_number i = Some n"
      and path: "GetServiceInstanceExistenceMarkerFilePath svc n = Some path"
      by (auto simp: Skeleton_Create_def CreatePartialRestartDirectory_def
          CreateOrOpenServiceInstanceExistenceMarkerFile_def bind_eq_Some_conv)
    obtain fl w2 where o: "on_system (os_create_or_open os path) w1 = (fl, w2)" by fastforce
    have op: "opens_file path True fl ?v (view (system w2))"
      using os_lawsD(2) [OF laws] on_systemD [OF o] v1 by metis
    show ?thesis
    proof (cases fl)
      case None
      with c d True n path o have "r = None" "w' = w2"
        by (simp_all add: Skeleton_Create_def CreatePartialRestartDirectory_def
            CreateOrOpenServiceInstanceExistenceMarkerFile_def)
      moreover have "view (system w2) = ?v" using op None by (simp add: opens_file_def)
      ultimately show ?thesis using fok by simp
    next
      case (Some h)
      note op = op [unfolded Some]
      obtain locked w3 where l: "on_system (os_try_lock os h) w2 = (locked, w3)" by fastforce
      have lk: "locks_file {Exclusive, Shared} Exclusive h locked (view (system w2)) (view (system w3))"
        using os_lawsD(6) [OF laws] on_systemD [OF l] by metis
      obtain f where f: "open_files (view (system w2)) h = Some f" "file_path f = path" using opens_new_file [OF op] by blast
      have fok3: "files_ok (view (system w3))"
        by (rule files_ok_locks [OF files_ok_opens [OF fok op] lk]) simp
      have t3: "touches {h} ?v (view (system w3))"
        by (rule touches_trans [OF conjunct1 [OF touches_opens [OF op]] touches_locks [OF lk]]) simp
      have fresh: "open_files ?v h = None" using touches_opens [OF op] by simp
      obtain f3 where f3: "open_files (view (system w3)) h = Some f3" "file_path f3 = path"
        using locks_outcome [OF lk f(1)] f(2) by (cases locked) auto
      have nu: "\<not> is_usage path" by (rule existence_not_usage [OF path])
      let ?w4 = "if locked then do_system (os_take_ownership os h) w3 else do_system (os_destroy os h) w3"
      have rw: "r = (if locked then Some (Skeleton i svc h) else None)" "w' = ?w4"
        using c d True n path o Some l
        by (simp_all add: Skeleton_Create_def CreatePartialRestartDirectory_def
            CreateOrOpenServiceInstanceExistenceMarkerFile_def Let_def split: if_splits)
      have fok4: "files_ok (view (system ?w4))"
        using files_ok_own [OF fok3, of h] files_ok_destroy [OF fok3, of h] f3 nu
        by (simp add: os_lawsD(4) [OF laws] os_lawsD(5) [OF laws])
      have t4: "touches {h} ?v (view (system ?w4))"
        using touches_trans [OF t3 touches_set] touches_trans [OF t3 touches_destroy]
        by (simp add: os_lawsD(4) [OF laws] os_lawsD(5) [OF laws])
      have "skeleton_ok (view (system ?w4)) Idle (Skeleton i svc h)" if locked
        using that f3 nu
        by (auto simp: skeleton_ok_def Skeleton_def saved_paths_ok_def os_lawsD(4) [OF laws] set_open_file_def)
      moreover have "\<forall>g. open_files ?v g \<noteq> None \<longrightarrow> open_files (view (system ?w4)) g = open_files ?v g"
      proof (intro allI impI)
        fix g
        assume "open_files ?v g \<noteq> None"
        with fresh have "g \<notin> {h}" by auto
        then show "open_files (view (system ?w4)) g = open_files ?v g" by (rule touchesD(1) [OF t4])
      qed
      moreover have "region_at (view (system ?w4)) = region_at ?v" by (rule touchesD(2) [OF t4])
      ultimately show ?thesis
        unfolding rw using fok4 fresh by (auto simp: lock_files_of_def Skeleton_def)
    qed
  qed
  then show ?thesis
    using uses_named_memory_same
    by (intro skeleton_step_ok [OF ok st']) (blast, blast, blast, auto)
qed

lemma skeleton_okD:
  assumes "skeleton_ok v ph sk"
  shows "saved_paths_ok sk"
    and "\<exists>f. open_files v (existence_marker_file sk) = Some f \<and> \<not> is_usage (file_path f)"
    and "usage_marker_file sk = Some h \<Longrightarrow> \<exists>f n. instance_number (skeleton_identifier sk) = Some n \<and>
           open_files v h = Some f \<and> file_path f = usage_path (path_service_id sk) n"
    and "usage_marker_file sk = Some h \<Longrightarrow> existence_marker_file sk \<noteq> h"
proof -
  show "saved_paths_ok sk" and e: "\<exists>f. open_files v (existence_marker_file sk) = Some f \<and> \<not> is_usage (file_path f)"
    using assms by (simp_all add: skeleton_ok_def)
  assume h: "usage_marker_file sk = Some h"
  with assms show u: "\<exists>f n. instance_number (skeleton_identifier sk) = Some n \<and>
           open_files v h = Some f \<and> file_path f = usage_path (path_service_id sk) n"
    by (auto simp: skeleton_ok_def)
  from e u show "existence_marker_file sk \<noteq> h" by auto
qed

lemma destroy_optional_view:
  assumes "os_laws os view" and "files_ok (view (system w))"
  shows "files_ok (view (system (destroy_optional os fl w)))"
    and "touches (set_option fl) (view (system w)) (view (system (destroy_optional os fl w)))"
  using files_ok_destroy [OF assms(2)] assms(2) touches_destroy
  by (cases fl; simp add: destroy_optional_def os_lawsD(5) [OF assms(1)])+

lemma Offer_lock_ok:
  fixes st :: "('v, 's, 'b, 'g) parties"
  assumes laws: "os_laws os view" and ok: "parties_ok view st"
    and run: "run_party os (Offer_lock k) st = Some st'"
  shows "parties_ok view st'"
proof -
  from run obtain sk res sk' w' where sk: "skeletons st k = Some (Idle, sk)"
    and c: "Skeleton_PrepareOffer_lock os sk (shm st) = Some (res, sk', w')"
    and st': "st' = st\<lparr>shm := w', skeletons := (skeletons st)(k := Some (case res of Inl _ \<Rightarrow> Idle | Inr _ \<Rightarrow> Offering, sk'))\<rparr>"
    by (auto simp: bind_eq_Some_conv dest!: step_skeletonD)
  let ?v = "view (system (shm st))"
  note fok = parties_okD(1) [OF ok] and sok = parties_okD(2) [OF ok sk]
  from c obtain n where n: "instance_number (skeleton_identifier sk) = Some n"
    by (auto simp: Skeleton_PrepareOffer_lock_def CreateOrOpenServiceInstanceUsageMarkerFile_def bind_eq_Some_conv Let_def)
  let ?path = "usage_path (path_service_id sk) n"
  obtain fl w1 where o: "on_system (os_create_or_open os ?path) (shm st) = (fl, w1)" by fastforce
  have op: "opens_file ?path True fl ?v (view (system w1))"
    using os_lawsD(2) [OF laws] on_systemD [OF o] by metis
  define w2 where "w2 = destroy_optional os (usage_marker_file sk) w1"
  have fok1: "files_ok (view (system w1))" by (rule files_ok_opens [OF fok op])
  note d = destroy_optional_view [OF laws fok1, of "usage_marker_file sk", folded w2_def]
  have mine: "set (lock_files_of sk) = party_files st (Inl k)" using sk by simp
  have old: "h \<in> party_files st (Inl k)" "h \<noteq> existence_marker_file sk" if "h \<in> set_option (usage_marker_file sk)" for h
    using that skeleton_okD(4) [OF sok] sk by (auto simp: lock_files_of_def)
  have ne: "usage_marker_file sk \<noteq> Some (existence_marker_file sk)" using old(2) by force
  obtain e where e: "open_files ?v (existence_marker_file sk) = Some e" "\<not> is_usage (file_path e)"
    using skeleton_okD(2) [OF sok] by blast
  have lock_def: "Skeleton_PrepareOffer_lock os sk (shm st) =
     (case fl of None \<Rightarrow> Some (Inl kBindingFailure, sk\<lparr>usage_marker_file := fl\<rparr>, w2)
      | Some h \<Rightarrow> (let (locked, w) = on_system (os_try_lock os h) w2
                  in Some (Inr (), sk\<lparr>usage_marker_file := fl, was_old_shm_region_reopened := \<not> locked\<rparr>, w)))"
    using c n o by (auto simp: Skeleton_PrepareOffer_lock_def CreateOrOpenServiceInstanceUsageMarkerFile_def
        bind_eq_Some_conv Let_def usage_path_text w2_def split: option.splits)
  have same_paths: "saved_paths_ok (sk\<lparr>usage_marker_file := a\<rparr>)" "saved_paths_ok (sk\<lparr>usage_marker_file := a, was_old_shm_region_reopened := b\<rparr>)" for a b
    using skeleton_okD(1) [OF sok] by (simp_all add: saved_paths_ok_def names_of_skeleton_def)
  show ?thesis
  proof (cases fl)
    case None
    then have v1: "view (system w1) = ?v" using op by (simp add: opens_file_def)
    from c lock_def None have r: "sk' = sk\<lparr>usage_marker_file := None\<rparr>" "w' = w2" "res = Inl kBindingFailure"
      by simp_all
    have t: "touches (set_option (usage_marker_file sk)) ?v (view (system w'))" using d(2) v1 r by simp
    have e': "open_files (view (system w')) (existence_marker_file sk) = Some e" using t e ne by (simp add: touches_def)
    show ?thesis
    proof (rule skeleton_step_ok [OF ok st'])
      show "files_ok (view (system w'))" using d(1) r by simp
      show "h \<notin> party_files st (Inl k) \<Longrightarrow> open_files (view (system w')) h = open_files ?v h" for h
        using old(1) [of h] by (intro touchesD(1) [OF t]) blast
      show "uses_named_memory ?v p \<Longrightarrow> uses_named_memory (view (system w')) p" for p :: "('b, 'g) proxy"
        by (rule uses_named_memory_same [OF touchesD(2) [OF t]])
      fix ph a
      assume "Some (case res of Inl _ \<Rightarrow> Idle | Inr _ \<Rightarrow> Offering, sk') = Some (ph, a)"
      then have a: "ph = Idle" "a = sk\<lparr>usage_marker_file := None\<rparr>" using r by simp_all
      show "skeleton_ok (view (system w')) ph a" using e' e(2) same_paths a by (simp add: skeleton_ok_def)
      show "h \<in> set (lock_files_of a) \<Longrightarrow> h \<in> party_files st (Inl k) \<or> open_files ?v h = None" for h
        using a sk by (auto simp: lock_files_of_def)
    qed
  next
    case (Some h)
    note op = op [unfolded Some]
    obtain locked w3 where l: "on_system (os_try_lock os h) w2 = (locked, w3)" by fastforce
    have lk: "locks_file {Exclusive, Shared} Exclusive h locked (view (system w2)) (view (system w3))"
      using os_lawsD(6) [OF laws] on_systemD [OF l] by metis
    from c lock_def Some l have r: "sk' = sk\<lparr>usage_marker_file := Some h, was_old_shm_region_reopened := \<not> locked\<rparr>"
      "w' = w3" "res = Inr ()" by simp_all
    have fresh: "open_files ?v h = None" using touches_opens [OF op] by simp
    have h_new: "h \<notin> set_option (usage_marker_file sk)" "h \<noteq> existence_marker_file sk"
      using fresh e skeleton_okD(3) [OF sok] by auto
    have t: "touches (insert h (set_option (usage_marker_file sk))) ?v (view (system w'))"
      unfolding r(2)
      by (rule touches_trans [OF touches_trans [OF conjunct1 [OF touches_opens [OF op]] d(2) subset_refl] touches_locks [OF lk]]) simp
    have e': "open_files (view (system w')) (existence_marker_file sk) = Some e"
      using t e ne h_new by (simp add: touches_def)
    obtain f where f: "open_files (view (system w1)) h = Some f" "file_path f = ?path" using opens_new_file [OF op] by blast
    have f2: "open_files (view (system w2)) h = Some f" using d(2) f h_new by (auto simp: touches_def)
    from locks_outcome [OF lk f2] f(2) r obtain f3 where f3: "open_files (view (system w')) h = Some f3" "file_path f3 = ?path"
      "locked \<Longrightarrow> file_lock f3 = Some Exclusive" by (cases locked) auto
    show ?thesis
    proof (rule skeleton_step_ok [OF ok st'])
      show "files_ok (view (system w'))" unfolding r(2) by (rule files_ok_locks [OF d(1) lk]) simp
      show "g \<notin> party_files st (Inl k) \<Longrightarrow> open_files ?v g \<noteq> None \<Longrightarrow> open_files (view (system w')) g = open_files ?v g" for g
        using old(1) [of g] fresh by (intro touchesD(1) [OF t]) auto
      show "uses_named_memory ?v p \<Longrightarrow> uses_named_memory (view (system w')) p" for p :: "('b, 'g) proxy"
        by (rule uses_named_memory_same [OF touchesD(2) [OF t]])
      fix ph a
      assume "Some (case res of Inl _ \<Rightarrow> Idle | Inr _ \<Rightarrow> Offering, sk') = Some (ph, a)"
      then have a: "ph = Offering" "a = sk\<lparr>usage_marker_file := Some h, was_old_shm_region_reopened := \<not> locked\<rparr>"
        using r by simp_all
      show "skeleton_ok (view (system w')) ph a" using e' e(2) same_paths a n f3 by (simp add: skeleton_ok_def)
      show "g \<in> set (lock_files_of a) \<Longrightarrow> g \<in> party_files st (Inl k) \<or> open_files ?v g = None" for g
        using a sk fresh by (auto simp: lock_files_of_def)
    qed
  qed
qed

text \<open>A step that changes nothing but names of the own instance, under the exclusive lock.\<close>

lemma names_step_ok:
  fixes st st' :: "('v, 's, 'b, 'g) parties"
  assumes ok: "parties_ok view st" and sk: "skeletons st k = Some (ph, sk)"
    and ex: "ph = Stopping \<or> ph = Offering \<and> \<not> was_old_shm_region_reopened sk"
    and acts: "acts_on_own_names view sk (shm st) sk' w'"
    and st': "st' = st\<lparr>shm := w', skeletons := (skeletons st)(k := Some (ph, sk'))\<rparr>"
  shows "parties_ok view st'"
proof (rule skeleton_step_ok [OF ok st'])
  from acts have same: "same_skeleton sk sk'" and ch: "changes_names (names_of_skeleton sk) (view (system (shm st))) (view (system w'))"
    by (simp_all add: acts_on_own_names_def)
  show "files_ok (view (system w'))" by (rule files_ok_changes [OF parties_okD(1) [OF ok] ch])
  show "open_files (view (system w')) h = open_files (view (system (shm st))) h" for h
    using ch by (simp add: changes_names_def)
  show "uses_named_memory (view (system w')) p"
    if "proxies st j = Some (Using p)" "uses_named_memory (view (system (shm st))) p" for j p
    by (rule exclusive_skeleton_changes [OF ok sk ex ch that])
  fix ph' a
  assume "Some (ph, sk') = Some (ph', a)"
  then have a: "ph' = ph" "a = sk'" by simp_all
  have files: "lock_files_of sk' = lock_files_of sk" using same by (simp add: lock_files_of_def same_skeleton_def)
  have "skeleton_ok (view (system w')) ph sk"
    by (rule skeleton_ok_frame [OF parties_okD(2) [OF ok sk]]) (use ch in \<open>simp add: changes_names_def\<close>)
  with same show "skeleton_ok (view (system w')) ph' a"
    unfolding a skeleton_ok_def same_skeleton_def by simp
  show "h \<in> set (lock_files_of a) \<Longrightarrow> h \<in> party_files st (Inl k) \<or> open_files (view (system (shm st))) h = None" for h
    using sk files a by simp
qed

lemma name_of_own: "name_of sk nm = Some p \<Longrightarrow> p \<in> names_of_skeleton sk"
  by (cases nm) (auto simp: name_of_def bind_eq_Some_conv own_path_control own_path_data)

lemma Offer_call_ok:
  assumes laws: "os_laws os view" and ok: "parties_ok view st" and run: "run_party os (Offer_call k nm c) st = Some st'"
  shows "parties_ok view st'"
proof -
  from run obtain sk p where sk: "skeletons st k = Some (Offering, sk)" and new: "\<not> was_old_shm_region_reopened sk"
    and p: "name_of sk nm = Some p"
    and st': "st' = st\<lparr>shm := do_system (shm_call_effect os p c) (shm st), skeletons := (skeletons st)(k := Some (Offering, sk))\<rparr>"
    by (auto simp: bind_eq_Some_conv split: if_splits dest!: step_skeletonD)
  have "changes_names (names_of_skeleton sk) (view (system (shm st))) (view (shm_call_effect os p c (system (shm st))))"
    using shm_changes [OF laws] name_of_own [OF p] by (cases c) (simp_all add: shm_call_effect_def)
  then have "acts_on_own_names view sk (shm st) sk (do_system (shm_call_effect os p c) (shm st))"
    by (simp add: acts_on_own_names_def)
  from names_step_ok [OF ok sk _ this st'] new show ?thesis by blast
qed

text \<open>An idle skeleton may change its own lock files.\<close>

lemma idle_okI:
  assumes "saved_paths_ok sk" and "\<exists>f. open_files v (existence_marker_file sk) = Some f \<and> \<not> is_usage (file_path f)"
    and "\<And>h. usage_marker_file sk = Some h \<Longrightarrow> \<exists>f n. instance_number (skeleton_identifier sk) = Some n \<and>
           open_files v h = Some f \<and> file_path f = usage_path (path_service_id sk) n"
  shows "skeleton_ok v Idle sk"
  using assms by (auto simp: skeleton_ok_def)

lemma phase_ok:
  assumes "skeleton_ok v ph sk"
  shows "skeleton_ok v Idle sk"
  using assms by (auto simp: skeleton_ok_def)

lemma CleanupSharedMemoryAfterCrash_system:
  "CleanupSharedMemoryAfterCrash sk w = Some w' \<Longrightarrow> system w' = system w"
  by (auto simp: CleanupSharedMemoryAfterCrash_def bind_eq_Some_conv)

lemma unlock_step_ok:
  fixes st st' :: "('v, 's, 'b, 'g) parties"
  assumes laws: "os_laws os view" and ok: "parties_ok view st" and sk: "skeletons st k = Some (ph, sk)"
    and h: "h \<in> set (lock_files_of sk)"
    and st': "st' = st\<lparr>shm := do_system (os_unlock os h) (shm st), skeletons := (skeletons st)(k := Some (Idle, sk))\<rparr>"
  shows "parties_ok view st'"
proof (rule skeleton_step_ok [OF ok st'])
  let ?v = "view (system (shm st))"
  let ?v' = "view (system (do_system (os_unlock os h) (shm st)))"
  have v': "?v' = set_open_file h (\<lambda>f. f\<lparr>file_lock := None\<rparr>) ?v" by (simp add: os_lawsD(8) [OF laws])
  have t: "touches {h} ?v ?v'" unfolding v' by (rule touches_set)
  show "files_ok ?v'" unfolding v' by (rule files_ok_unlock [OF parties_okD(1) [OF ok]])
  show "g \<notin> party_files st (Inl k) \<Longrightarrow> open_files ?v' g = open_files ?v g" for g
    using h sk by (intro touchesD(1) [OF t]) auto
  show "uses_named_memory ?v p \<Longrightarrow> uses_named_memory ?v' p" for p :: "('b, 'g) proxy"
    by (rule uses_named_memory_same [OF touchesD(2) [OF t]])
  fix ph' a
  assume "Some (Idle, sk) = Some (ph', a)"
  then have a: "ph' = Idle" "a = sk" by simp_all
  have "\<exists>f'. open_files ?v' g = Some f' \<and> file_path f' = file_path f" if "open_files ?v g = Some f" for g f
    using that unfolding v' by (cases "g = h") (simp_all add: set_open_file_def)
  then have path: "\<exists>f'. open_files ?v' g = Some f' \<and> file_path f' = file_path f" if "open_files ?v g = Some f" for g f
    using that by blast
  note sok = parties_okD(2) [OF ok sk]
  show "skeleton_ok ?v' ph' a"
    unfolding a
  proof (rule idle_okI [OF skeleton_okD(1) [OF sok]])
    show "\<exists>f. open_files ?v' (existence_marker_file sk) = Some f \<and> \<not> is_usage (file_path f)"
      using skeleton_okD(2) [OF sok] path by metis
    show "\<exists>f n. instance_number (skeleton_identifier sk) = Some n \<and>
           open_files ?v' g = Some f \<and> file_path f = usage_path (path_service_id sk) n"
      if "usage_marker_file sk = Some g" for g
      using skeleton_okD(3) [OF sok that] path by metis
  qed
  show "g \<in> set (lock_files_of a) \<Longrightarrow> g \<in> party_files st (Inl k) \<or> open_files ?v g = None" for g
    using sk a by simp
qed

lemma unlocked_view:
  assumes "os_laws os view" and "view (system w1) = view (system w2)"
  shows "view (system (do_system (os_unlock os h) w1)) = view (system (do_system (os_unlock os h) w2))"
  using assms(2) by (simp add: os_lawsD(8) [OF assms(1)])

text \<open>The invariant looks at the system only through its view, and at the marker files of a skeleton.\<close>

lemma reopened_step_ok:
  fixes st st' :: "('v, 's, 'b, 'g) parties"
  assumes ok: "parties_ok view st" and sk: "skeletons st k = Some (ph, sk)"
    and acts: "acts_on_own_names view sk (shm st) sk' w'" and v: "view (system w') = view (system (shm st))"
    and st': "st' = st\<lparr>shm := w', skeletons := (skeletons st)(k := Some (Idle, sk'))\<rparr>"
  shows "parties_ok view st'"
proof (rule skeleton_step_ok [OF ok st'])
  from acts have same: "same_skeleton sk sk'" by (simp add: acts_on_own_names_def)
  have files: "lock_files_of sk' = lock_files_of sk" using same by (simp add: lock_files_of_def same_skeleton_def)
  fix ph' a
  assume "Some (Idle, sk') = Some (ph', a)"
  then have a: "ph' = Idle" "a = sk'" by simp_all
  from same phase_ok [OF parties_okD(2) [OF ok sk]] show "skeleton_ok (view (system w')) ph' a"
    unfolding a v skeleton_ok_def same_skeleton_def by simp
  show "h \<in> set (lock_files_of a) \<Longrightarrow> h \<in> party_files st (Inl k) \<or> open_files (view (system (shm st))) h = None" for h
    using sk files a by simp
qed (use v parties_okD(1) [OF ok] in simp_all)

lemma Offer_memory_ok:
  fixes st :: "('v, 's, 'b, 'g) parties"
  assumes laws: "os_laws os view" and ok: "parties_ok view st"
    and run: "run_party os (Offer_memory k rt traced evs fs) st = Some st'"
  shows "parties_ok view st'"
proof -
  from run obtain sk r evs' fs' sk' w' where sk: "skeletons st k = Some (Offering, sk)"
    and c: "Skeleton_PrepareOffer_memory os rt traced evs fs sk (shm st) = Some (r, evs', fs', sk', w')"
    and st': "st' = st\<lparr>shm := w', skeletons := (skeletons st)(k := Some (Idle, sk'))\<rparr>"
    by (auto simp: bind_eq_Some_conv dest!: step_skeletonD)
  show ?thesis
  proof (cases "was_old_shm_region_reopened sk")
    case False
    from c False obtain w1 w2 h where 1: "RemoveStaleSharedMemoryArtefacts os sk (shm st) = Some w1"
      and 2: "CreateSharedMemory os rt traced evs fs sk w1 = Some (r, evs', fs', sk', w2)"
      and h: "usage_marker_file sk' = Some h" and w': "w' = do_system (os_unlock os h) w2"
      by (auto simp: Skeleton_PrepareOffer_memory_def bind_eq_Some_conv)
    have acts: "acts_on_own_names view sk (shm st) sk' w2"
      by (rule acts_trans [OF RemoveStale_acts [OF laws 1] CreateSharedMemory_acts [OF laws 2]])
    let ?st = "st\<lparr>shm := w2, skeletons := (skeletons st)(k := Some (Offering, sk'))\<rparr>"
    have "parties_ok view ?st" by (rule names_step_ok [OF ok sk _ acts refl]) (use False in simp)
    then show ?thesis
      by (rule unlock_step_ok [OF laws, where k = k and sk = sk' and h = h])
        (use h st' w' in \<open>simp_all add: lock_files_of_def\<close>)
  next
    case True
    obtain r1 sk1 w1 where o: "OpenExistingSharedMemory os (GetPid rt) traced sk (shm st) = Some (r1, sk1, w1)"
      using c True by (cases "OpenExistingSharedMemory os (GetPid rt) traced sk (shm st)")
        (auto simp: Skeleton_PrepareOffer_memory_def)
    have "sk' = sk1 \<and> system w' = system w1"
      using c True o CleanupSharedMemoryAfterCrash_system
      by (cases r1) (auto simp: Skeleton_PrepareOffer_memory_def bind_eq_Some_conv)
    with OpenExisting_outcome(1,2) [OF laws o] have "acts_on_own_names view sk (shm st) sk' w'"
      "view (system w') = view (system (shm st))" by (simp_all add: acts_on_own_names_def)
    from reopened_step_ok [OF ok sk this st'] show ?thesis .
  qed
qed

lemma Stop_lock_ok:
  fixes st :: "('v, 's, 'b, 'g) parties"
  assumes laws: "os_laws os view" and ok: "parties_ok view st" and run: "run_party os (Stop_lock k) st = Some st'"
  shows "parties_ok view st'"
proof -
  from run obtain sk h where sk: "skeletons st k = Some (Idle, sk)" and h: "usage_marker_file sk = Some h"
    by (auto simp: bind_eq_Some_conv Skeleton_PrepareStopOffer_lock_def dest!: step_skeletonD)
  obtain locked w' where l: "on_system (os_try_lock os h) (shm st) = (locked, w')" by fastforce
  have st': "st' = st\<lparr>shm := w', skeletons := (skeletons st)(k := Some (if locked then Stopping else Idle, sk))\<rparr>"
    using run sk h l by (simp add: step_skeleton_def Skeleton_PrepareStopOffer_lock_def)
  let ?v = "view (system (shm st))"
  have lk: "locks_file {Exclusive, Shared} Exclusive h locked ?v (view (system w'))"
    using os_lawsD(6) [OF laws] on_systemD [OF l] by metis
  note t = touches_locks [OF lk]
  show ?thesis
  proof (rule skeleton_step_ok [OF ok st'])
    show "files_ok (view (system w'))" by (rule files_ok_locks [OF parties_okD(1) [OF ok] lk]) simp
    show "g \<notin> party_files st (Inl k) \<Longrightarrow> open_files (view (system w')) g = open_files ?v g" for g
      using h sk by (intro touchesD(1) [OF t]) (auto simp: lock_files_of_def)
    show "uses_named_memory ?v p \<Longrightarrow> uses_named_memory (view (system w')) p" for p :: "('b, 'g) proxy"
      by (rule uses_named_memory_same [OF touchesD(2) [OF t]])
    fix ph a
    assume "Some (if locked then Stopping else Idle, sk) = Some (ph, a)"
    then have a: "ph = (if locked then Stopping else Idle)" "a = sk" by simp_all
    from skeleton_okD(3) [OF parties_okD(2) [OF ok sk] h] obtain f n where n: "instance_number (skeleton_identifier sk) = Some n"
      and f: "open_files ?v h = Some f" "file_path f = usage_path (path_service_id sk) n" by blast
    have "open_files (view (system w')) (existence_marker_file sk) = open_files ?v (existence_marker_file sk)"
      using skeleton_okD(4) [OF parties_okD(2) [OF ok sk] h] by (intro touchesD(1) [OF t]) simp
    then show "skeleton_ok (view (system w')) ph a"
      using parties_okD(2) [OF ok sk] n f(2) locks_outcome [OF lk f(1)] h unfolding a skeleton_ok_def by auto
    show "g \<in> set (lock_files_of a) \<Longrightarrow> g \<in> party_files st (Inl k) \<or> open_files ?v g = None" for g
      using sk a by simp
  qed
qed

text \<open>A party gives back some of its open files.\<close>

lemma destroy_unlock_view:
  assumes "os_laws os view" and "files_ok (view (system w))"
  shows "files_ok (view (system (give_lock_back os h w)))"
    and "touches {h} (view (system w)) (view (system (give_lock_back os h w)))"
proof -
  have v: "view (system (give_lock_back os h w)) = destroys_file h (set_open_file h (\<lambda>f. f\<lparr>file_lock := None\<rparr>) (view (system w)))"
    by (simp add: give_lock_back_def os_lawsD(5) [OF assms(1)] os_lawsD(8) [OF assms(1)])
  show "files_ok (view (system (give_lock_back os h w)))" unfolding v by (rule files_ok_destroy [OF files_ok_unlock [OF assms(2)]])
  show "touches {h} (view (system w)) (view (system (give_lock_back os h w)))"
    unfolding v by (rule touches_trans [OF touches_set touches_destroy]) simp
qed

lemma Stop_remove_ok:
  fixes st :: "('v, 's, 'b, 'g) parties"
  assumes laws: "os_laws os view" and ok: "parties_ok view st" and run: "run_party os (Stop_remove k) st = Some st'"
  shows "parties_ok view st'"
proof -
  from run obtain sk h where sk: "skeletons st k = Some (Stopping, sk)" and h: "usage_marker_file sk = Some h"
    by (auto simp: bind_eq_Some_conv Skeleton_PrepareStopOffer_remove_def dest!: step_skeletonD)
  obtain sk1 w1 where r: "RemoveSharedMemory os sk (shm st) = (sk1, w1)" by fastforce
  let ?sk' = "sk1\<lparr>usage_marker_file := None, storage_ptr := None, control_qm := None, control_asil_b := None\<rparr>"
  let ?w' = "give_lock_back os h w1"
  have st': "st' = st\<lparr>shm := ?w', skeletons := (skeletons st)(k := Some (Idle, ?sk'))\<rparr>"
    using run sk h r by (simp add: step_skeleton_def Skeleton_PrepareStopOffer_remove_def give_lock_back_def)
  note sok = parties_okD(2) [OF ok sk]
  have acts: "acts_on_own_names view sk (shm st) sk1 w1"
    by (rule RemoveSharedMemory_acts [OF laws r skeleton_okD(1) [OF sok]])
  let ?st = "st\<lparr>shm := w1, skeletons := (skeletons st)(k := Some (Stopping, sk1))\<rparr>"
  have ok1: "parties_ok view ?st" by (rule names_step_ok [OF ok sk _ acts refl]) simp
  have sk1: "skeletons ?st k = Some (Stopping, sk1)" by simp
  note sok1 = parties_okD(2) [OF ok1 sk1]
  have h1: "usage_marker_file sk1 = Some h" using acts h by (simp add: acts_on_own_names_def same_skeleton_def)
  note d = destroy_unlock_view [OF laws parties_okD(1) [OF ok1, simplified], of h]
  show ?thesis
  proof (rule skeleton_step_ok [OF ok1, where k = k])
    show "st' = ?st\<lparr>shm := ?w', skeletons := (skeletons ?st)(k := Some (Idle, ?sk'))\<rparr>" using st' by simp
    show "files_ok (view (system ?w'))" by (rule d(1))
    show "g \<notin> party_files ?st (Inl k) \<Longrightarrow> open_files (view (system ?w')) g = open_files (view (system (shm ?st))) g" for g
      using touchesD(1) [OF d(2), of g] h1 by (auto simp: lock_files_of_def)
    show "uses_named_memory (view (system (shm ?st))) p \<Longrightarrow> uses_named_memory (view (system ?w')) p" for p :: "('b, 'g) proxy"
      by (rule uses_named_memory_same) (use touchesD(2) [OF d(2)] in simp_all)
    fix ph a
    assume "Some (Idle, ?sk') = Some (ph, a)"
    then have a: "ph = Idle" "a = ?sk'" by simp_all
    show "skeleton_ok (view (system ?w')) ph a"
      unfolding a
    proof (rule idle_okI)
      show "saved_paths_ok ?sk'" using skeleton_okD(1) [OF sok1] by (simp add: saved_paths_ok_def names_of_skeleton_def)
      have "existence_marker_file sk1 \<notin> {h}" using skeleton_okD(4) [OF sok1 h1] by simp
      from touchesD(1) [OF d(2) this] skeleton_okD(2) [OF sok1]
      show "\<exists>f. open_files (view (system ?w')) (existence_marker_file ?sk') = Some f \<and> \<not> is_usage (file_path f)" by simp
    qed simp
    show "g \<in> set (lock_files_of a) \<Longrightarrow> g \<in> party_files ?st (Inl k) \<or> open_files (view (system (shm ?st))) g = None" for g
      using a by (auto simp: lock_files_of_def)
  qed
qed

lemma Unlock_existence_ok:
  fixes st :: "('v, 's, 'b, 'g) parties"
  assumes laws: "os_laws os view" and ok: "parties_ok view st" and run: "run_party os (Unlock_existence k) st = Some st'"
  shows "parties_ok view st'"
proof -
  from run obtain sk where sk: "skeletons st k = Some (Idle, sk)"
    and st': "st' = st\<lparr>shm := do_system (os_unlock os (existence_marker_file sk)) (shm st),
                       skeletons := (skeletons st)(k := Some (Idle, sk))\<rparr>"
    by (auto simp: Skeleton_destroy_unlock_def dest!: step_skeletonD)
  show ?thesis by (rule unlock_step_ok [OF laws ok sk _ st']) (simp add: lock_files_of_def)
qed

text \<open>A party that is gone.\<close>

lemma skeleton_gone_ok:
  fixes st st' :: "('v, 's, 'b, 'g) parties"
  assumes ok: "parties_ok view st" and sk: "skeletons st k = Some (ph, sk)"
    and files: "files_ok (view (system w'))" and t: "touches (set (lock_files_of sk)) (view (system (shm st))) (view (system w'))"
    and st': "st' = st\<lparr>shm := w', skeletons := (skeletons st)(k := None)\<rparr>"
  shows "parties_ok view st'"
proof (rule skeleton_step_ok [OF ok st' files])
  show "h \<notin> party_files st (Inl k) \<Longrightarrow> open_files (view (system w')) h = open_files (view (system (shm st))) h" for h
    using sk touchesD(1) [OF t] by simp
  show "uses_named_memory (view (system (shm st))) p \<Longrightarrow> uses_named_memory (view (system w')) p" for p :: "('b, 'g) proxy"
    by (rule uses_named_memory_same [OF touchesD(2) [OF t]])
qed simp_all

lemma Destroy_skeleton_ok:
  fixes st :: "('v, 's, 'b, 'g) parties"
  assumes laws: "os_laws os view" and ok: "parties_ok view st" and run: "run_party os (Destroy_skeleton k) st = Some st'"
  shows "parties_ok view st'"
proof -
  from run obtain sk where sk: "skeletons st k = Some (Idle, sk)"
    and st': "st' = st\<lparr>shm := Skeleton_destroy_files os sk (shm st), skeletons := (skeletons st)(k := None)\<rparr>"
    by (auto dest!: step_skeletonD)
  let ?w1 = "destroy_optional os (usage_marker_file sk) (shm st)"
  note d = destroy_optional_view [OF laws parties_okD(1) [OF ok], of "usage_marker_file sk"]
  have v: "view (system (Skeleton_destroy_files os sk (shm st))) = destroys_file (existence_marker_file sk) (view (system ?w1))"
    by (simp add: Skeleton_destroy_files_def os_lawsD(5) [OF laws])
  show ?thesis
  proof (rule skeleton_gone_ok [OF ok sk _ _ st'])
    show "files_ok (view (system (Skeleton_destroy_files os sk (shm st))))" unfolding v by (rule files_ok_destroy [OF d(1)])
    show "touches (set (lock_files_of sk)) (view (system (shm st))) (view (system (Skeleton_destroy_files os sk (shm st))))"
      unfolding v by (rule touches_trans [OF d(2) touches_destroy]) (auto simp: lock_files_of_def split: option.split)
  qed
qed

lemma exit_view:
  assumes "os_laws os view" and "files_ok (view (system w))"
  shows "files_ok (view (system (do_system (os_exit os hs) w)))"
    and "touches (set hs) (view (system w)) (view (system (do_system (os_exit os hs) w)))"
  using files_ok_exit [OF assms(2)] by (simp_all add: os_lawsD(9) [OF assms(1)] touches_def)

lemma Crash_skeleton_ok:
  fixes st :: "('v, 's, 'b, 'g) parties"
  assumes laws: "os_laws os view" and ok: "parties_ok view st" and run: "run_party os (Crash_skeleton k) st = Some st'"
  shows "parties_ok view st'"
proof -
  from run obtain ph sk where sk: "skeletons st k = Some (ph, sk)"
    and st': "st' = st\<lparr>shm := do_system (os_exit os (lock_files_of sk)) (shm st), skeletons := (skeletons st)(k := None)\<rparr>"
    by (auto split: option.splits)
  note e = exit_view [OF laws parties_okD(1) [OF ok], of "lock_files_of sk"]
  show ?thesis by (rule skeleton_gone_ok [OF ok sk e st'])
qed

lemma proxy_gone_ok:
  fixes st st' :: "('v, 's, 'b, 'g) parties"
  assumes ok: "parties_ok view st" and px: "proxies st k = Some px"
    and files: "files_ok (view (system w'))" and t: "touches {proxy_file px} (view (system (shm st))) (view (system w'))"
    and st': "st' = st\<lparr>shm := w', proxies := (proxies st)(k := None)\<rparr>"
  shows "parties_ok view st'"
proof (rule proxy_step_ok [OF ok st' files])
  show "h \<notin> party_files st (Inr k) \<Longrightarrow> open_files (view (system w')) h = open_files (view (system (shm st))) h" for h
    using px touchesD(1) [OF t] by simp
  show "region_at (view (system w')) = region_at (view (system (shm st)))" by (rule touchesD(2) [OF t])
qed simp_all

lemma Crash_proxy_ok:
  assumes laws: "os_laws os view" and ok: "parties_ok view st" and run: "run_party os (Crash_proxy k) st = Some st'"
  shows "parties_ok view st'"
proof -
  from run obtain px where px: "proxies st k = Some px"
    and st': "st' = st\<lparr>shm := do_system (os_exit os [proxy_file px]) (shm st), proxies := (proxies st)(k := None)\<rparr>"
    by (auto split: option.splits)
  note e = exit_view [OF laws parties_okD(1) [OF ok], of "[proxy_file px]", simplified list.set]
  show ?thesis by (rule proxy_gone_ok [OF ok px e st'])
qed

lemma Destroy_proxy_ok:
  assumes laws: "os_laws os view" and ok: "parties_ok view st" and run: "run_party os (Destroy_proxy k) st = Some st'"
  shows "parties_ok view st'"
proof -
  from run obtain p where px: "proxies st k = Some (Using p)"
    and st': "st' = st\<lparr>shm := give_lock_back os (proxy_usage_marker_file p) (shm st), proxies := (proxies st)(k := None)\<rparr>"
    by (auto simp: Proxy_destroy_def split: option.splits proxy_phase.splits)
  note d = destroy_unlock_view [OF laws parties_okD(1) [OF ok], of "proxy_usage_marker_file p"]
  show ?thesis by (rule proxy_gone_ok [OF ok px d(1) _ st']) (use d(2) in \<open>simp add: proxy_file_def\<close>)
qed

lemma Lock_proxy_ok:
  fixes st :: "('v, 's, 'b, 'g) parties"
  assumes laws: "os_laws os view" and ok: "parties_ok view st" and run: "run_party os (Lock_proxy k handle) st = Some st'"
  shows "parties_ok view st'"
proof -
  let ?v = "view (system (shm st))"
  note fok = parties_okD(1) [OF ok]
  obtain r w' where none: "proxies st k = None" and c: "Proxy_lock os handle (shm st) = Some (r, w')"
    using run by (cases "proxies st k"; cases "Proxy_lock os handle (shm st)") auto
  have st': "st' = st\<lparr>shm := w', proxies := (proxies st)(k := map_option (Holding handle) r)\<rparr>"
    using run none c by simp
  have unchanged: "parties_ok view st'" if "r = None" "w' = shm st"
  proof (rule proxy_step_ok [OF ok st'])
  qed (use that fok in simp_all)
  show ?thesis
  proof (cases "GetLoLaServiceTypeDeployment handle")
    case None
    with c unchanged show ?thesis by (auto simp: Proxy_lock_def bind_eq_Some_conv)
  next
    case (Some td)
    with c obtain n where n: "lola_instance_of handle = Some n" by (auto simp: Proxy_lock_def bind_eq_Some_conv)
    let ?path = "usage_path (service_id td) n"
    obtain fl w1 where o: "on_system (os_open os ?path) (shm st) = (fl, w1)" by fastforce
    have op: "opens_file ?path False fl ?v (view (system w1))" using os_lawsD(3) [OF laws] on_systemD [OF o] by metis
    show ?thesis
    proof (cases fl)
      case None
      with c Some n o have r: "r = None" "w' = w1" by (auto simp: Proxy_lock_def bind_eq_Some_conv usage_path_text)
      have v: "view (system w1) = ?v" using op None by (simp add: opens_file_def)
      show ?thesis
      proof (rule proxy_step_ok [OF ok st'])
      qed (use r v fok in simp_all)
    next
      case h: (Some h)
      note op = op [unfolded h]
      obtain locked w2 where l: "on_system (os_try_lock_shared os h) w1 = (locked, w2)" by fastforce
      have lk: "locks_file {Exclusive} Shared h locked (view (system w1)) (view (system w2))"
        using os_lawsD(7) [OF laws] on_systemD [OF l] by metis
      obtain f where f: "open_files (view (system w1)) h = Some f" "file_path f = ?path" using opens_new_file [OF op] by blast
      have fok2: "files_ok (view (system w2))" by (rule files_ok_locks [OF files_ok_opens [OF fok op] lk]) simp
      have t2: "touches {h} ?v (view (system w2))"
        by (rule touches_trans [OF conjunct1 [OF touches_opens [OF op]] touches_locks [OF lk]]) simp
      have fresh: "open_files ?v h = None" using touches_opens [OF op] by simp
      show ?thesis
      proof (cases locked)
        case True
        with c Some n o h l have r: "r = Some h" "w' = w2" by (auto simp: Proxy_lock_def bind_eq_Some_conv usage_path_text)
        from locks_outcome [OF lk f(1)] True f(2) obtain f2 where f2: "open_files (view (system w2)) h = Some f2"
          "file_path f2 = ?path" "file_lock f2 = Some Shared" by auto
        show ?thesis
        proof (rule proxy_step_ok [OF ok st'])
          show "files_ok (view (system w'))" using fok2 r by simp
          show "region_at (view (system w')) = region_at ?v" using touchesD(2) [OF t2] r by simp
          show "g \<notin> party_files st (Inr k) \<Longrightarrow> open_files ?v g \<noteq> None \<Longrightarrow> open_files (view (system w')) g = open_files ?v g" for g
            unfolding r by (rule touchesD(1) [OF t2]) (use fresh in auto)
          fix px :: "('b, 'g) proxy_phase"
          assume "map_option (Holding handle) r = Some px"
          then have px: "px = Holding handle h" using r by simp
          show "proxy_ok (view (system w')) px"
            using Some n f2 r px by (simp add: proxy_ok_def handle_of_def proxy_file_def)
          show "proxy_file px \<in> party_files st (Inr k) \<or> open_files ?v (proxy_file px) = None"
            using fresh px by (simp add: proxy_file_def)
        qed
      next
        case False
        with c Some n o h l have r: "r = None" "w' = do_system (os_destroy os h) w2"
          by (auto simp: Proxy_lock_def bind_eq_Some_conv usage_path_text)
        have v: "view (system w') = destroys_file h (view (system w2))" using r by (simp add: os_lawsD(5) [OF laws])
        have t: "touches {h} ?v (view (system w'))" unfolding v by (rule touches_trans [OF t2 touches_destroy]) simp
        show ?thesis
        proof (rule proxy_step_ok [OF ok st'])
          show "files_ok (view (system w'))" unfolding v by (rule files_ok_destroy [OF fok2])
          show "region_at (view (system w')) = region_at ?v" by (rule touchesD(2) [OF t])
          show "g \<notin> party_files st (Inr k) \<Longrightarrow> open_files ?v g \<noteq> None \<Longrightarrow> open_files (view (system w')) g = open_files ?v g" for g
            by (rule touchesD(1) [OF t]) (use fresh in auto)
        qed (use r in simp_all)
      qed
    qed
  qed
qed

lemma Restart_logic_system:
  "Proxy_ExecutePartialRestartLogic notify uid pid q c d l w = Some (r, l', w') \<Longrightarrow> system w' = system w"
  by (auto simp: Proxy_ExecutePartialRestartLogic_def bind_eq_Some_conv)

lemma Proxy_open_outcome:
  assumes laws: "os_laws os view" and run: "Proxy_open os notify uid pid handle h l w = Some (r, l', w')"
  shows "r = None \<and> (\<exists>w1. view (system w1) = view (system w) \<and> w' = give_lock_back os h w1) \<or>
     (\<exists>p. r = Some p \<and> view (system w') = view (system w) \<and> proxy_usage_marker_file p = h \<and> proxy_handle_of p = handle \<and>
        uses_named_memory (view (system w)) p)"
proof -
  let ?v = "view (system w)" and ?q = "asil_level (instance_deployment (handle_for handle))"
  note run' = run [unfolded Proxy_open_def]
  obtain d where d: "GetLoLaInstanceDeployment handle = Some d" using run' by (cases "GetLoLaInstanceDeployment handle") auto
  obtain td where td: "GetLoLaServiceTypeDeployment handle = Some td"
    using run' d by (cases "GetLoLaServiceTypeDeployment handle") auto
  obtain n where n: "lola_instance_of handle = Some n" using run' d td by (cases "lola_instance_of handle") auto
  obtain mem w1 where m: "Proxy_CreateSharedMemory os d ?q td n w = Some (mem, w1)"
    using run' d td n by (cases "Proxy_CreateSharedMemory os d ?q td n w") auto
  from m obtain cn dn where cn: "GetControlChannelShmName (service_id td) n ?q = Some cn"
      and dn: "GetDataChannelShmName (service_id td) n = Some dn"
    by (auto simp: Proxy_CreateSharedMemory_def bind_eq_Some_conv Let_def)
  let ?us = "map_of (allowed_provider d) ?q"
  obtain c wa where a: "on_system (shm_open os cn True ?us) w = (c, wa)" by fastforce
  obtain e wb where b: "on_system (shm_open os dn False ?us) wa = (e, wb)" by fastforce
  have ca: "c = None \<or> c = region_at ?v cn" "view (system wa) = ?v"
    using os_lawsD(12) [OF laws] on_systemD [OF a] by metis+
  have eb: "e = None \<or> e = region_at ?v dn" "view (system wb) = ?v"
    using os_lawsD(12) [OF laws] on_systemD [OF b] ca(2) by metis+
  have w1: "w1 = wb" and mem: "mem = (case (c, e) of (Some x, Some y) \<Rightarrow> Some (x, y) | _ \<Rightarrow> None)"
    using m cn dn a b by (simp_all add: Proxy_CreateSharedMemory_def)
  show ?thesis
  proof (cases mem)
    case None
    with run' d td n m have "r = None" "w' = give_lock_back os h w1" by (simp_all add: Let_def)
    with eb(2) w1 show ?thesis by blast
  next
    case (Some x)
    obtain x1 x2 where x: "x = (x1, x2)" by (cases x)
    have at: "region_at ?v cn = Some x1" "region_at ?v dn = Some x2"
      using Some x mem ca(1) eb(1) by (auto split: option.splits)
    obtain res l1 w2 where p: "Proxy_ExecutePartialRestartLogic notify uid pid ?q x1 x2 l w1 = Some (res, l1, w2)"
      using run' d td n m Some x
      by (cases "Proxy_ExecutePartialRestartLogic notify uid pid ?q x1 x2 l w1") (auto simp: Let_def)
    have v2: "view (system w2) = ?v" using Restart_logic_system [OF p] eb(2) w1 by simp
    show ?thesis
    proof (cases res)
      case (Inl err)
      with run' d td n m Some x p have "r = None" "w' = give_lock_back os h w2" by (simp_all add: Let_def)
      with v2 show ?thesis by blast
    next
      case (Inr u)
      with run' d td n m Some x p have rw: "w' = w2" "r = Some \<lparr>proxy_control = x1, proxy_data = x2, proxy_quality = ?q,
                proxy_converter = \<lparr>converter_service_id = service_id td, converter_events = type_events td,
                                   converter_instance_id = n\<rparr>,
                proxy_handle_of = handle, event_bindings = [], is_service_instance_available = False,
                find_service_guard = None, proxy_usage_marker_file = h\<rparr>" by (simp_all add: Let_def)
      have "uses_named_memory ?v (the r)"
        using td n cn dn at rw(2) by (simp add: uses_named_memory_def)
      with v2 rw show ?thesis by simp
    qed
  qed
qed

lemma Open_proxy_ok:
  fixes st :: "('v, 's, 'b, 'g) parties"
  assumes laws: "os_laws os view" and ok: "parties_ok view st" and run: "run_party os (Open_proxy k notify uid pid l) st = Some st'"
  shows "parties_ok view st'"
proof -
  let ?v = "view (system (shm st))"
  obtain handle h where px: "proxies st k = Some (Holding handle h)"
    using run by (cases "proxies st k") (auto split: proxy_phase.splits)
  obtain r l' w' where c: "Proxy_open os notify uid pid handle h l (shm st) = Some (r :: ('b, 'g) proxy option, l', w')"
    using run px by (cases "Proxy_open os notify uid pid handle h l (shm st) :: (('b, 'g) proxy option \<times> _) option") auto
  have st': "st' = st\<lparr>shm := w', proxies := (proxies st)(k := map_option Using r)\<rparr>" using run px c by simp
  from Proxy_open_outcome [OF laws c] show ?thesis
  proof (elim disjE conjE exE)
    fix w1
    assume r: "r = None" and v: "view (system w1) = ?v" and w': "w' = give_lock_back os h w1"
    note d = destroy_unlock_view [OF laws, of w1 h, unfolded v, OF parties_okD(1) [OF ok]]
    show ?thesis
      by (rule proxy_gone_ok [OF ok px]) (use d r w' st' in \<open>simp_all add: proxy_file_def\<close>)
  next
    fix p
    assume r: "r = Some p" and v: "view (system w') = ?v" and p: "proxy_usage_marker_file p = h" "proxy_handle_of p = handle"
      and u: "uses_named_memory ?v p"
    show ?thesis
    proof (rule proxy_step_ok [OF ok st'])
      show "files_ok (view (system w'))" using v parties_okD(1) [OF ok] by simp
      fix qx
      assume "map_option Using r = Some qx"
      then have qx: "qx = Using p" using r by simp
      show "proxy_ok (view (system w')) qx"
        using parties_okD(3) [OF ok px] u p v qx by (simp add: proxy_ok_def handle_of_def proxy_file_def)
      show "proxy_file qx \<in> party_files st (Inr k) \<or> open_files ?v (proxy_file qx) = None"
        using px p qx by (simp add: proxy_file_def)
    qed (use v in simp_all)
  qed
qed

lemma Memory_ok:
  fixes st :: "('v, 's, 'b, 'g) parties"
  assumes ok: "parties_ok view st" and run: "run_party os (Memory cs ds sw) st = Some st'"
  shows "parties_ok view st'"
proof -
  from run have st': "shm st' = (shm st)\<lparr>control_sections := cs, data_sections := ds, slot_sections := sw\<rparr>"
    "skeletons st' = skeletons st" "proxies st' = proxies st" by auto
  have sys: "system (shm st') = system (shm st)" using st'(1) by simp
  have files: "party_files st' = party_files st"
  proof
    show "party_files st' a = party_files st a" for a by (cases a) (simp_all add: st')
  qed
  show ?thesis using ok unfolding parties_ok_def sys st'(2,3) files .
qed

lemma run_party_ok:
  assumes "os_laws os view" and "parties_ok view st" and "run_party os a st = Some st'"
  shows "parties_ok view st'"
  using assms(3)
  by (cases a) (auto intro: Create_skeleton_ok Offer_lock_ok Offer_call_ok Offer_memory_ok Stop_lock_ok Stop_remove_ok
      Unlock_existence_ok Destroy_skeleton_ok Crash_skeleton_ok Lock_proxy_ok Open_proxy_ok Destroy_proxy_ok
      Crash_proxy_ok Memory_ok assms(1,2) simp del: run_party.simps)

lemma run_parties_ok:
  assumes "os_laws os view" and "parties_ok view st" and "run_parties os as st = Some st'"
  shows "parties_ok view st'"
  using assms(2,3)
proof (induction "as" arbitrary: st)
  case (Cons a "as")
  from Cons.prems(2) obtain st1 where 1: "run_party os a st = Some st1" and 2: "run_parties os as st1 = Some st'"
    by (auto simp: bind_eq_Some_conv simp del: run_party.simps)
  from Cons.IH [OF run_party_ok [OF assms(1) Cons.prems(1) 1] 2] show ?case .
qed simp

end
