(* ===== verification/Memory_Marker_Files.thy ===== *)
theory Memory_Marker_Files
  imports Shared_Memory "HOL-Library.AList"
begin

text \<open>
  A system in memory that has the documented behaviour \<open>os_laws\<close> of marker files, file locks and shared
  memory: tables of the files, of the open files and of the named regions. Every call succeeds if it can.
  It shows that the laws can hold and lets histories be evaluated.
\<close>

record marker_memory =
  file_table :: "(string \<times> nat) list"
  open_table :: "(lock_file \<times> open_file) list"
  region_table :: "(string \<times> region) list"
  region_list :: "region list"

definition fresh_number :: "nat list \<Rightarrow> nat" where
  "fresh_number ns = Suc (foldr max ns 0)"

definition memory_open :: "bool \<Rightarrow> string \<Rightarrow> marker_memory \<Rightarrow> lock_file option \<times> marker_memory" where
  "memory_open create p m =
     (let h = fresh_number (map fst (open_table m));
          add = (\<lambda>n m. (Some h, m\<lparr>open_table :=
            (h, \<lparr>file_path = p, file_inode = n, file_owned = False, file_lock = None\<rparr>) # open_table m\<rparr>))
      in case map_of (file_table m) p of
           Some n \<Rightarrow> add n m
         | None \<Rightarrow>
             if create then
               (let n = fresh_number (map snd (file_table m) @ map (\<lambda>(_, f). file_inode f) (open_table m))
                in add n (m\<lparr>file_table := (p, n) # file_table m\<rparr>))
             else (None, m))"

definition memory_conflict :: "lock_kind list \<Rightarrow> lock_file \<Rightarrow> marker_memory \<Rightarrow> bool" where
  "memory_conflict kinds h m =
     (case map_of (open_table m) h of
        None \<Rightarrow> False
      | Some f \<Rightarrow> list_ex (\<lambda>g. g \<noteq> h \<and>
          (case map_of (open_table m) g of
             None \<Rightarrow> False
           | Some f' \<Rightarrow> file_inode f' = file_inode f \<and> list_ex (\<lambda>k. file_lock f' = Some k) kinds)) (map fst (open_table m)))"

definition memory_update :: "lock_file \<Rightarrow> (open_file \<Rightarrow> open_file) \<Rightarrow> marker_memory \<Rightarrow> marker_memory" where
  "memory_update h g m = m\<lparr>open_table := map (\<lambda>(h', f). (h', if h' = h then g f else f)) (open_table m)\<rparr>"

definition memory_lock :: "lock_kind list \<Rightarrow> lock_kind \<Rightarrow> lock_file \<Rightarrow> marker_memory \<Rightarrow> bool \<times> marker_memory" where
  "memory_lock kinds k h m =
     (if memory_conflict kinds h m then (False, m) else (True, memory_update h (\<lambda>f. f\<lparr>file_lock := Some k\<rparr>) m))"

definition memory_destroy :: "lock_file \<Rightarrow> marker_memory \<Rightarrow> marker_memory" where
  "memory_destroy h m =
     (let m' = m\<lparr>open_table := AList.delete h (open_table m)\<rparr>
      in case map_of (open_table m) h of
           Some f \<Rightarrow> if file_owned f then m'\<lparr>file_table := AList.delete (file_path f) (file_table m)\<rparr> else m'
         | None \<Rightarrow> m')"

definition memory_create :: "string \<Rightarrow> marker_memory \<Rightarrow> region option \<times> marker_memory" where
  "memory_create p m =
     (case map_of (region_table m) p of
        Some _ \<Rightarrow> (None, m)
      | None \<Rightarrow> (let r = fresh_number (region_list m)
                 in (Some r, m\<lparr>region_table := (p, r) # region_table m, region_list := r # region_list m\<rparr>)))"

definition memory_remove :: "string \<Rightarrow> marker_memory \<Rightarrow> marker_memory" where
  "memory_remove p m = m\<lparr>region_table := AList.delete p (region_table m)\<rparr>"

definition marker_os :: "marker_memory restart_os" where
  "marker_os =
     \<lparr>os_create_directories = (\<lambda>p m. (True, m)), os_create_or_open = memory_open True, os_open = memory_open False,
      os_take_ownership = (\<lambda>h. memory_update h (\<lambda>f. f\<lparr>file_owned := True\<rparr>)), os_destroy = memory_destroy,
      os_try_lock = memory_lock [Exclusive, Shared] Exclusive, os_try_lock_shared = memory_lock [Exclusive] Shared,
      os_unlock = (\<lambda>h. memory_update h (\<lambda>f. f\<lparr>file_lock := None\<rparr>)),
      os_exit = (\<lambda>hs m. m\<lparr>open_table := filter (\<lambda>(h, f). h \<notin> set hs) (open_table m)\<rparr>),
      shm_create = (\<lambda>p n ps t. memory_create p), shm_open = (\<lambda>p rw us m. (map_of (region_table m) p, m)),
      shm_remove = memory_remove, shm_remove_stale_artefacts = memory_remove,
      shm_new_delete_resource = (\<lambda>i m. (let r = fresh_number (region_list m) in (r, m\<lparr>region_list := r # region_list m\<rparr>))),
      shm_in_typed_memory = (\<lambda>r m. False)\<rparr>"

definition memory_view :: "marker_memory \<Rightarrow> os_view" where
  "memory_view m =
     \<lparr>file_at = map_of (file_table m), open_files = map_of (open_table m), region_at = map_of (region_table m),
      used_regions = set (region_list m)\<rparr>"

definition empty_markers :: marker_memory where
  "empty_markers = \<lparr>file_table = [], open_table = [], region_table = [], region_list = []\<rparr>"

lemma fresh_number_greater: "n \<in> set ns \<Longrightarrow> n < fresh_number ns"
proof -
  have "n \<in> set ns \<Longrightarrow> n \<le> foldr max ns 0" by (induction ns) auto
  then show "n \<in> set ns \<Longrightarrow> n < fresh_number ns" by (simp add: fresh_number_def less_Suc_eq_le)
qed

lemma fresh_number_new: "fresh_number ns \<notin> set ns"
  using fresh_number_greater by blast

lemma open_table_fresh: "map_of t (fresh_number (map fst t)) = None"
  using fresh_number_new [of "map fst t"] by (simp add: map_of_eq_None_iff)

lemma map_of_update: "map_of (map (\<lambda>(h', f). (h', if h' = h then g f else f)) t) = (map_of t)(h := map_option g (map_of t h))"
  by (induction t) (auto simp: fun_eq_iff)

lemma memory_update_view: "memory_view (memory_update h g m) = set_open_file h g (memory_view m)"
  by (simp add: memory_view_def memory_update_def set_open_file_def map_of_update)

lemma memory_conflict_view: "memory_conflict kinds h m \<longleftrightarrow> locked_elsewhere (set kinds) h (memory_view m)"
proof -
  have key: "map_of (open_table m) g = Some f \<Longrightarrow> g \<in> set (map fst (open_table m))" for g f
    using map_of_SomeD by force
  show ?thesis
    unfolding memory_conflict_def locked_elsewhere_def memory_view_def list_ex_iff
    by (auto split: option.splits) (use key in \<open>force+\<close>)
qed

lemma memory_open_view:
  assumes "memory_open create p m = (r, m')"
  shows "opens_file p create r (memory_view m) (memory_view m')"
proof (cases "map_of (file_table m) p")
  case (Some n)
  with assms show ?thesis
    by (auto simp: memory_open_def Let_def opens_file_def memory_view_def open_table_fresh fun_upd_idem)
next
  case None
  let ?n = "fresh_number (map snd (file_table m) @ map (\<lambda>(_, f). file_inode f) (open_table m))"
  have "?n \<notin> ran (map_of (file_table m))"
    using fresh_number_new [of "map snd (file_table m) @ map (\<lambda>(_, f). file_inode f) (open_table m)"]
    by (auto simp: ran_def dest!: map_of_SomeD) (metis image_eqI snd_conv)
  moreover have "\<forall>f \<in> ran (map_of (open_table m)). file_inode f \<noteq> ?n"
    using fresh_number_new [of "map snd (file_table m) @ map (\<lambda>(_, f). file_inode f) (open_table m)"]
    by (auto simp: ran_def dest!: map_of_SomeD) (metis (mono_tags, lifting) case_prod_conv image_eqI)
  ultimately show ?thesis
    using assms None
    by (cases create) (auto simp: memory_open_def Let_def opens_file_def memory_view_def open_table_fresh)
qed

lemma memory_lock_view:
  "memory_lock ks k h m = (ok, m') \<Longrightarrow> locks_file (set ks) k h ok (memory_view m) (memory_view m')"
  by (auto simp: memory_lock_def locks_file_def memory_conflict_view memory_update_view split: if_splits)

lemma memory_destroy_view: "memory_view (memory_destroy h m) = destroys_file h (memory_view m)"
  by (auto simp: memory_destroy_def destroys_file_def memory_view_def Let_def AList.delete_conv' split: option.split)

lemma memory_exit_view:
  "memory_view (m\<lparr>open_table := filter (\<lambda>(h, f). h \<notin> A) (open_table m)\<rparr>) =
     (memory_view m)\<lparr>open_files := (\<lambda>h. if h \<in> A then None else open_files (memory_view m) h)\<rparr>"
proof -
  have "map_of (filter (\<lambda>(h, f). h \<notin> A) t) = (\<lambda>h. if h \<in> A then None else map_of t h)" for t :: "(nat \<times> open_file) list"
    by (induction t) (auto simp: fun_eq_iff)
  then show ?thesis by (auto simp: memory_view_def fun_eq_iff)
qed

lemma memory_remove_view:
  "memory_view (memory_remove p m) = (memory_view m)\<lparr>region_at := (region_at (memory_view m))(p := None)\<rparr>"
  by (simp add: memory_view_def memory_remove_def AList.delete_conv')

lemma memory_create_view:
  "memory_create p m = (r, m') \<Longrightarrow>
     (case r of
        None \<Rightarrow> memory_view m' = memory_view m
      | Some x \<Rightarrow> region_at (memory_view m) p = None \<and> x \<notin> used_regions (memory_view m) \<and>
          memory_view m' = (memory_view m)\<lparr>region_at := (region_at (memory_view m))(p \<mapsto> x),
            used_regions := insert x (used_regions (memory_view m))\<rparr>)"
  by (auto simp: memory_create_def memory_view_def Let_def fresh_number_new split: option.splits)

lemma marker_os_laws: "os_laws marker_os memory_view"
  unfolding os_laws_def
proof (intro conjI allI impI)
  fix h s ok s'
  show "os_try_lock marker_os h s = (ok, s') \<Longrightarrow>
      locks_file {Exclusive, Shared} Exclusive h ok (memory_view s) (memory_view s')"
    using memory_lock_view [of "[Exclusive, Shared]"] by (simp add: marker_os_def)
  show "os_try_lock_shared marker_os h s = (ok, s') \<Longrightarrow> locks_file {Exclusive} Shared h ok (memory_view s) (memory_view s')"
    using memory_lock_view [of "[Exclusive]"] by (simp add: marker_os_def)
next
  fix p rw us s x s'
  assume "shm_open marker_os p rw us s = (x, s')"
  then show "x = None \<or> x = region_at (memory_view s) p" "memory_view s' = memory_view s"
    by (auto simp: marker_os_def memory_view_def)
next
  fix i s m s'
  assume "shm_new_delete_resource marker_os i s = (m, s')"
  then show "m \<notin> used_regions (memory_view s)"
    "memory_view s' = (memory_view s)\<lparr>used_regions := insert m (used_regions (memory_view s))\<rparr>"
    by (auto simp: marker_os_def memory_view_def Let_def fresh_number_new)
qed (simp_all add: marker_os_def memory_open_view memory_update_view memory_destroy_view memory_exit_view
    memory_remove_view memory_create_view)

end
