(* ===== verification/Restart_Properties.thy ===== *)
theory Restart_Properties
  imports Restart_Safety Memory_Marker_Files
begin

text \<open>
  What the marker files and their locks give to the providers and consumers of a service, over all
  histories of \<open>Partial_Restart\<close>, and where they do not give what the comments of the code promise.
  The examples run in the system of \<open>Memory_Marker_Files\<close>.
\<close>

definition nobody :: "('v, 's) shm_world \<Rightarrow> ('v, 's, 'b, 'g) parties" where
  "nobody w = \<lparr>shm = w, skeletons = Map.empty, proxies = Map.empty\<rparr>"

lemma nobody_ok:
  assumes "open_files (view (system w)) = Map.empty"
  shows "parties_ok view (nobody w :: ('v, 's, 'b, 'g) parties)"
proof -
  have "party_files (nobody w :: ('v, 's, 'b, 'g) parties) a = {}" for a by (cases a) (simp_all add: nobody_def)
  with assms show ?thesis by (simp add: parties_ok_def files_ok_def) (simp add: nobody_def)
qed

lemma using_proxy:
  assumes "os_laws os view" and "open_files (view (system w)) = Map.empty" and "run_parties os as (nobody w) = Some st"
    and "proxies st k = Some (Using p)"
  shows "uses_named_memory (view (system (shm st))) p"
proof -
  have "parties_ok view st" by (rule run_parties_ok [OF assms(1) nobody_ok [where view = view] assms(3)]) (rule assms(2))
  from parties_okD(3) [OF this assms(4)] show ?thesis by (simp add: proxy_ok_def)
qed

lemma reopened_for_proxy:
  assumes laws: "os_laws os view" and start: "open_files (view (system w)) = Map.empty"
    and run: "run_parties os as (nobody w) = Some st"
    and px: "proxies st k = Some (Using p)" and sk: "skeletons st j = Some (Offering, sk)"
    and td: "GetLoLaServiceTypeDeployment (proxy_handle_of p) = Some td" and n: "lola_instance_of (proxy_handle_of p) = Some n"
    and same: "path_service_id sk = service_id td" "instance_number (skeleton_identifier sk) = Some n"
  shows "was_old_shm_region_reopened sk"
proof (rule ccontr)
  assume new: "\<not> was_old_shm_region_reopened sk"
  have ok: "parties_ok view st" by (rule run_parties_ok [OF laws nobody_ok [where view = view] run]) (rule start)
  from parties_okD(2) [OF ok sk] new obtain h f m where m: "instance_number (skeleton_identifier sk) = Some m"
    and f: "open_files (view (system (shm st))) h = Some f" "file_path f = usage_path (path_service_id sk) m"
      "file_lock f = Some Exclusive"
    unfolding skeleton_ok_def by auto
  have "handle_of (Using p) = proxy_handle_of p" by (simp add: handle_of_def)
  with exclusive_excludes [OF parties_okD(1) [OF ok] f parties_okD(3) [OF ok px], of td n] td n same m show False by simp
qed

text \<open>Property C4: memory that is in use is neither removed nor replaced. In every history of skeletons and
  proxies of any services that are created, offer, stop, are destroyed or crash at any point, the control
  section and the data section that a proxy has opened are still what the names of its service instance
  denote; and a skeleton of this instance that prepares an offer in that state has not decided to create
  new memory.\<close>

theorem used_memory_is_never_replaced:
  assumes "os_laws os view" and "open_files (view (system w)) = Map.empty"
    and "run_parties os as (nobody w) = Some st" and "proxies st k = Some (Using p)"
    and "GetLoLaServiceTypeDeployment (proxy_handle_of p) = Some td" and "lola_instance_of (proxy_handle_of p) = Some n"
  shows "(\<exists>c d. GetControlChannelShmName (service_id td) n
              (asil_level (instance_deployment (handle_for (proxy_handle_of p)))) = Some c \<and>
            GetDataChannelShmName (service_id td) n = Some d \<and>
            region_at (view (system (shm st))) c = Some (proxy_control p) \<and>
            region_at (view (system (shm st))) d = Some (proxy_data p)) \<and>
         (\<forall>j sk. skeletons st j = Some (Offering, sk) \<longrightarrow> path_service_id sk = service_id td \<longrightarrow>
            instance_number (skeleton_identifier sk) = Some n \<longrightarrow> was_old_shm_region_reopened sk)"
  using using_proxy [OF assms(1-4)] reopened_for_proxy [OF assms(1-4) _ assms(5,6)] assms(5,6)
  unfolding uses_named_memory_def by auto

text \<open>Property C5: a provider that restarts serves the consumers that have stayed. When a skeleton prepares
  its offer while a proxy of the same service instance uses the memory of a provider before it, and
  succeeds, then the skeleton works on the very sections that the proxy has opened.\<close>

theorem restarted_provider_keeps_its_consumers:
  assumes laws: "os_laws os view" and start: "open_files (view (system w)) = Map.empty"
    and run: "run_parties os as (nobody w) = Some st"
    and px: "proxies st k = Some (Using p)" and sk: "skeletons st j = Some (Offering, sk)"
    and td: "GetLoLaServiceTypeDeployment (proxy_handle_of p) = Some td" and n: "lola_instance_of (proxy_handle_of p) = Some n"
    and same: "path_service_id sk = service_id td" "instance_number (skeleton_identifier sk) = Some n"
    and offer: "Skeleton_PrepareOffer_memory os rt traced evs fs sk (shm st) = Some (Inr (), evs', fs', sk', w')"
  shows "storage_ptr sk' = Some (proxy_data p) \<and>
    (asil_level (instance_deployment (handle_for (proxy_handle_of p))) = kASIL_QM \<longrightarrow> control_qm sk' = Some (proxy_control p)) \<and>
    (asil_level (instance_deployment (handle_for (proxy_handle_of p))) = kASIL_B \<longrightarrow>
       HasAsilBSupport (skeleton_identifier sk) \<longrightarrow> control_asil_b sk' = Some (proxy_control p))"
proof -
  let ?v = "view (system (shm st))"
  have old: "was_old_shm_region_reopened sk" by (rule reopened_for_proxy [OF laws start run px sk td n same])
  obtain w1 where o: "OpenExistingSharedMemory os (GetPid rt) traced sk (shm st) = Some (Inr (), sk', w1)"
    using offer old by (cases "OpenExistingSharedMemory os (GetPid rt) traced sk (shm st)")
      (auto simp: Skeleton_PrepareOffer_memory_def bind_eq_Some_conv split: sum.split_asm)
  note out = OpenExisting_outcome [OF laws o]
  have ids: "skeleton_identifier sk' = skeleton_identifier sk" "path_service_id sk' = path_service_id sk"
    using out(1) by (simp_all add: acts_on_own_names_def same_skeleton_def)
  from out(3) obtain d c where d: "GetDataChannelShmName (service_id td) n = Some d" "storage_ptr sk' = region_at ?v d"
    and c: "GetControlChannelShmName (service_id td) n kASIL_QM = Some c" "control_qm sk' = region_at ?v c"
    and b: "HasAsilBSupport (skeleton_identifier sk) \<longrightarrow> (\<exists>b. GetControlChannelShmName (service_id td) n kASIL_B = Some b \<and>
      control_asil_b sk' = region_at ?v b)"
    using same unfolding points_to_names_def ids by auto
  from using_proxy [OF laws start run px] td n obtain c' d' where
      c': "GetControlChannelShmName (service_id td) n (asil_level (instance_deployment (handle_for (proxy_handle_of p)))) = Some c'"
        "region_at ?v c' = Some (proxy_control p)"
    and d': "GetDataChannelShmName (service_id td) n = Some d'" "region_at ?v d' = Some (proxy_data p)"
    by (auto simp: uses_named_memory_def)
  show ?thesis using b c c' d d' by auto
qed

text \<open>A service with one event, its skeleton and a proxy.\<close>

definition radar_deployment :: LolaServiceInstanceDeployment where
  "radar_deployment = default_lola_deployment\<lparr>lola_instance_id := Some 5,
     instance_events := [(''speed'', default_event_deployment\<lparr>number_of_sample_slots := Some 2, max_subscribers := Some 3\<rparr>)]\<rparr>"

definition radar :: InstanceIdentifier where
  "radar = \<lparr>instance_deployment =
       \<lparr>service = ServiceIdentifierType ''Radar'' (ServiceVersionType 1 0), bindingInfo = LolaBinding radar_deployment,
        asil_level = kASIL_QM, specifier = ''radar''\<rparr>,
     type_deployment = LolaType \<lparr>service_id = 7, type_events = [(''speed'', 1)], type_fields = []\<rparr>, serialized_string = []\<rparr>"

definition radar_speed :: "nat bound_event" where
  "radar_speed =
     \<lparr>event_state = SkeletonEvent \<lparr>element_fq_id.service_id = 7, element_id = 1, instance_id = 5, element_type = EVENT\<rparr> kASIL_QM,
      event_properties = \<lparr>number_of_slots = 2, max_subscriber_count = 3, enforces_max_samples = True\<rparr>,
      sample_type = \<lparr>size_of = 8, align_of = 8\<rparr>, default_sample = 0, event_tracing_data = None, event_data_storage = None\<rparr>"

definition radar_runtime :: "pid_t \<Rightarrow> nat lola_runtime" where
  "radar_runtime pid =
     \<lparr>GetPid = pid, GetShmSizeCalculationMode = kSimulation,
      shm_type_sizes = \<lparr>sizeof_ServiceDataControl = 64, sizeof_UidPidMappingEntry = 8, sizeof_event_controls_value = 64,
        sizeof_control_slot = 8, sizeof_ServiceDataStorage = 64, sizeof_events_value = 16, sizeof_metainfo_value = 32,
        sizeof_pointer = 8\<rparr>,
      control_bytes = (\<lambda>c. 1000), data_bytes = (\<lambda>d. 1000)\<rparr>"

definition empty_world :: "(nat, marker_memory) shm_world" where
  "empty_world = \<lparr>system = empty_markers, control_sections = (\<lambda>r. ServiceDataControl),
     data_sections = (\<lambda>r. ServiceDataStorage 0),
     slot_sections = \<lparr>mem = (\<lambda>c. []), sched = [], num_alloc_misses = 0, num_ref_misses = 0, num_alloc_retries = 0,
       num_ref_retries = 0\<rparr>\<rparr>"

definition radar_handle :: proxy_handle where
  "radar_handle = \<lparr>handle_for = radar, handle_instance = LolaServiceInstanceId 5\<rparr>"

definition run_radar :: "(nat, unit) party_action list \<Rightarrow> (nat, marker_memory, unit, unit) parties run" where
  "run_radar as = run_parties marker_os as (nobody empty_world)"

definition no_data :: "unit local_data" where
  "no_data = \<lparr>rollback_set = {}, lola_messaging = ()\<rparr>"

text \<open>The provider offers, a consumer comes, the provider crashes and starts again.\<close>

definition provider_restart :: "(nat, unit) party_action list" where
  "provider_restart =
     [Create_skeleton 0 radar 7, Offer_lock 0, Offer_memory 0 (radar_runtime 100) False [(''speed'', radar_speed)] [],
      Lock_proxy 0 radar_handle, Open_proxy 0 (\<lambda>_ _ _ m. Some m) 1000 200 no_data, Crash_skeleton 0,
      Create_skeleton 1 radar 7, Offer_lock 1]"

lemma provider_restart_runs:
  "case run_radar provider_restart of
     None \<Rightarrow> False
   | Some st \<Rightarrow> (case (proxies st 0, skeletons st 1) of
        (Some (Using p), Some (Offering, sk)) \<Rightarrow> proxy_handle_of p = radar_handle \<and> path_service_id sk = 7 \<and>
          skeleton_identifier sk = radar \<and>
          (case Skeleton_PrepareOffer_memory marker_os (radar_runtime 101) False [(''speed'', radar_speed)] [] sk (shm st) of
             Some (Inr _, _, _, sk', _) \<Rightarrow> True | _ \<Rightarrow> False)
      | _ \<Rightarrow> False)"
  by code_simp

lemma provider_restart_state:
  obtains st p sk evs fs sk' w where "run_radar provider_restart = Some st"
    and "proxies st 0 = Some (Using p)" and "proxy_handle_of p = radar_handle" and "skeletons st 1 = Some (Offering, sk)"
    and "path_service_id sk = 7" and "skeleton_identifier sk = radar"
    and "Skeleton_PrepareOffer_memory marker_os (radar_runtime 101) False [(''speed'', radar_speed)] [] sk (shm st) =
           Some (Inr (), evs, fs, sk', w)"
proof (cases "run_radar provider_restart")
  case None
  then show thesis using provider_restart_runs by simp
next
  case (Some st)
  note runs = provider_restart_runs [unfolded Some, simplified]
  from runs obtain ph where "proxies st 0 = Some ph" by (cases "proxies st 0") auto
  with runs obtain p where px: "proxies st 0 = Some (Using p)" by (cases ph) auto
  from runs px obtain y where "skeletons st 1 = Some y" by (cases "skeletons st 1") auto
  moreover obtain ph' sk where "y = (ph', sk)" by (cases y)
  ultimately have sk: "skeletons st 1 = Some (ph', sk)" by simp
  with runs px have "ph' = Offering" by (cases ph') auto
  with runs px sk Some that show thesis by (auto split: option.split_asm prod.split_asm sum.split_asm)
qed

lemma empty_world_closed: "open_files (memory_view (system empty_world)) = Map.empty"
  by (simp add: empty_world_def empty_markers_def memory_view_def)

lemma radar_handle_names:
  "GetLoLaServiceTypeDeployment radar_handle = Some \<lparr>service_id = 7, type_events = [(''speed'', 1)], type_fields = []\<rparr>"
  "lola_instance_of radar_handle = Some 5"
  "asil_level (instance_deployment (handle_for radar_handle)) = kASIL_QM"
  "instance_number radar = Some 5"
  by code_simp+

theorem used_memory_is_never_replaced_witness:
  "\<exists>st p. run_radar provider_restart = Some st \<and> proxies st 0 = Some (Using p) \<and>
     region_at (memory_view (system (shm st))) ''/lola-data-0000000000000007-00005'' = Some (proxy_data p)"
proof -
  obtain st p where run: "run_radar provider_restart = Some st"
    and px: "proxies st 0 = Some (Using p)" and h: "proxy_handle_of p = radar_handle"
    by (rule provider_restart_state)
  have "GetDataChannelShmName 7 5 = Some ''/lola-data-0000000000000007-00005''" by code_simp
  with used_memory_is_never_replaced [OF marker_os_laws empty_world_closed run [unfolded run_radar_def] px
      radar_handle_names(1,2) [folded h]]
  have "region_at (memory_view (system (shm st))) ''/lola-data-0000000000000007-00005'' = Some (proxy_data p)"
    by auto
  with run px show ?thesis by blast
qed

theorem restarted_provider_keeps_its_consumers_witness:
  "\<exists>st p sk evs fs sk' w. run_radar provider_restart = Some st \<and> proxies st 0 = Some (Using p) \<and>
     skeletons st 1 = Some (Offering, sk) \<and>
     Skeleton_PrepareOffer_memory marker_os (radar_runtime 101) False [(''speed'', radar_speed)] [] sk (shm st) =
       Some (Inr (), evs, fs, sk', w) \<and>
     storage_ptr sk' = Some (proxy_data p) \<and> control_qm sk' = Some (proxy_control p)"
proof -
  obtain st p sk evs fs sk' w where run: "run_radar provider_restart = Some st"
    and px: "proxies st 0 = Some (Using p)" and h: "proxy_handle_of p = radar_handle"
    and sk: "skeletons st 1 = Some (Offering, sk)" "path_service_id sk = 7" "skeleton_identifier sk = radar"
    and offer: "Skeleton_PrepareOffer_memory marker_os (radar_runtime 101) False [(''speed'', radar_speed)] [] sk (shm st) =
           Some (Inr (), evs, fs, sk', w)"
    by (rule provider_restart_state)
  have "storage_ptr sk' = Some (proxy_data p)" "control_qm sk' = Some (proxy_control p)"
    using restarted_provider_keeps_its_consumers
        [OF marker_os_laws empty_world_closed run [unfolded run_radar_def] px sk(1) radar_handle_names(1,2) [folded h] _ _ offer]
    by (auto simp: h radar_handle_names sk)
  with run px sk(1) offer show ?thesis by blast
qed

subsection \<open>What the marker files do not give\<close>

text \<open>
  The comment in \<open>PrepareOffer\<close> that memory in use "must have been properly created and OfferService
  finished" is not ensured. In the history \<open>provider_restart\<close> the first provider ends between the
  \<open>PrepareOffer\<close> of its binding and those of its events, and a consumer that has found the service before
  opens the memory. The provider that starts again reuses it, and its event is not there: the process ends.
\<close>

lemma reused_memory_may_lack_events:
  "case run_radar provider_restart of
     None \<Rightarrow> False
   | Some st \<Rightarrow> (case skeletons st 1 of
        Some (Offering, sk) \<Rightarrow>
          (case Skeleton_PrepareOffer_memory marker_os (radar_runtime 101) False [(''speed'', radar_speed)] [] sk (shm st) of
             Some (Inr _, _, _, sk', w) \<Rightarrow> (case SkeletonEvent_PrepareOffer sk' radar_speed w of None \<Rightarrow> True | Some _ \<Rightarrow> False)
           | _ \<Rightarrow> False)
      | _ \<Rightarrow> False)"
  by code_simp

text \<open>
  The existence marker is to keep a second skeleton of the same instance out. A skeleton that is destroyed
  gives up its lock before it removes the marker file (the order of the members in skeleton.h). Skeleton 1
  locks the file between the two, the file goes away under it, and skeleton 2 creates and locks a new one:
  two skeletons of one instance are alive.
\<close>

definition existence_marker_race :: "(nat, unit) party_action list" where
  "existence_marker_race =
     [Create_skeleton 0 radar 7, Unlock_existence 0, Create_skeleton 1 radar 7, Destroy_skeleton 0, Create_skeleton 2 radar 7]"

lemma two_skeletons_of_one_instance:
  "case run_radar existence_marker_race of
     None \<Rightarrow> False
   | Some st \<Rightarrow> (case (skeletons st 1, skeletons st 2) of
        (Some (_, sk), Some (_, sk')) \<Rightarrow> skeleton_identifier sk = radar \<and> skeleton_identifier sk' = radar
      | _ \<Rightarrow> False)"
  by code_simp

end
