(* ===== verification/Offered_Service.thy ===== *)
theory Offered_Service
  imports Skeleton_Base Restart_Properties
begin

text \<open>
  The offer of a service from the user's call down to the shared memory: \<open>lola_binding\<close> is the LoLa binding
  behind the interface of \<open>Skeleton_Base\<close>. The service discovery and the sending of notifications are
  arguments (\<open>IServiceDiscovery\<close> and \<open>IMessagePassingService\<close> are abstract).

  The locale \<open>offering\<close> states what the offer protocol expects of a binding. Under it, a service whose offer
  has succeeded provides every event and field; the interpretation shows that LoLa keeps this contract, so
  that a consumer finds the control block and the samples of every element of an offered service.
\<close>

subsection \<open>The contract of a binding\<close>

locale offering =
  fixes b :: "('e, 'p, 'v, 'w) offer_interface"
    and ready :: "'w \<Rightarrow> bool"
    and provided :: "'e \<Rightarrow> 'w \<Rightarrow> bool"
  assumes binding_offer: "binding_PrepareOffer b es fs traced w = Some (Inr (), es', fs', w') \<Longrightarrow> ready w'"
    and event_offer: "event_PrepareOffer b e w = Some (Inr (), e', w') \<Longrightarrow> ready w \<Longrightarrow> provided e' w'"
    and event_ready: "event_PrepareOffer b e w = Some (r, e', w') \<Longrightarrow> ready w \<Longrightarrow> ready w'"
    and event_keeps: "event_PrepareOffer b e w = Some (r, e', w') \<Longrightarrow> provided x w \<Longrightarrow> provided x w'"
    and send_ready: "event_Send b v e w = Some (r, e', w') \<Longrightarrow> ready w \<Longrightarrow> ready w'"
    and send_own: "event_Send b v e w = Some (r, e', w') \<Longrightarrow> provided e w \<Longrightarrow> provided e' w'"
    and send_keeps: "event_Send b v e w = Some (r, e', w') \<Longrightarrow> provided x w \<Longrightarrow> provided x w'"
    and finalize_keeps: "binding_FinalizeOffer b w = Some (r, w') \<Longrightarrow> provided x w \<Longrightarrow> provided x w'"
    and discovery_keeps: "discovery_OfferService b w = Some (r, w') \<Longrightarrow> provided x w \<Longrightarrow> provided x w'"
begin

definition offered :: "'e event_base \<Rightarrow> 'w \<Rightarrow> bool" where
  "offered eb w \<longleftrightarrow> event_offered eb \<and> (\<exists>e. event_binding eb = Some e \<and> provided e w)"

lemma offered_keeps: "offered eb w \<Longrightarrow> (\<And>x. provided x w \<Longrightarrow> provided x w') \<Longrightarrow> offered eb w'"
  by (auto simp: offered_def)

lemma event_base_offer:
  assumes "EventBase_PrepareOffer b eb w = Some (r, eb', w')" and "ready w"
  shows "ready w'" and "provided x w \<Longrightarrow> provided x w'" and "succeeded r \<Longrightarrow> offered eb' w'"
  using assms event_offer event_ready event_keeps
  by (auto simp: EventBase_PrepareOffer_def bind_eq_Some_conv offered_def succeeded_def split: sum.split_asm)

lemma event_base_send:
  assumes "Event_Send b v eb w = Some (r, eb', w')"
  shows "ready w \<Longrightarrow> ready w'" and "provided x w \<Longrightarrow> provided x w'" and "offered eb w \<Longrightarrow> offered eb' w'"
  using assms send_ready send_own send_keeps
  by (auto simp: Event_Send_def bind_eq_Some_conv offered_def split: if_splits)

lemma field_base_offer:
  assumes run: "FieldBase_PrepareOffer b fb w = Some (r, fb', w')" and ready: "ready w"
  shows "ready w' \<and> (\<forall>x. provided x w \<longrightarrow> provided x w') \<and> (succeeded r \<longrightarrow> offered (field_event fb') w')"
proof (cases "was_prepare_offer_called fb")
  case True
  with run obtain eb where "EventBase_PrepareOffer b (field_event fb) w = Some (r, eb, w')" "field_event fb' = eb"
    by (auto simp: FieldBase_PrepareOffer_def bind_eq_Some_conv)
  with event_base_offer [OF this(1) ready] show ?thesis by auto
next
  case first: False
  show ?thesis
  proof (cases "initial_field_value fb")
    case None
    with run first ready show ?thesis by (auto simp: FieldBase_PrepareOffer_def succeeded_def)
  next
    case (Some v)
    with run first obtain r1 eb w1 where 1: "EventBase_PrepareOffer b (field_event fb) w = Some (r1, eb, w1)"
      by (auto simp: FieldBase_PrepareOffer_def bind_eq_Some_conv)
    note e = event_base_offer [OF 1 ready]
    show ?thesis
    proof (cases "succeeded r1")
      case False
      with run first Some 1 e show ?thesis by (auto simp: FieldBase_PrepareOffer_def)
    next
      case True
      with run first Some 1 obtain r2 fb2 where 2: "Field_DoDeferredUpdate b (fb\<lparr>field_event := eb\<rparr>) w1 = Some (r2, fb2, w')"
        and r: "r = r2" and f: "field_event fb' = field_event fb2"
        by (auto simp: FieldBase_PrepareOffer_def bind_eq_Some_conv)
      from 2 Some obtain r3 eb3 where 3: "Event_Send b v eb w1 = Some (r3, eb3, w')" and g: "field_event fb2 = eb3"
        by (auto simp: Field_DoDeferredUpdate_def bind_eq_Some_conv Let_def split: if_splits)
      show ?thesis using event_base_send [OF 3] e True f g by auto
    qed
  qed
qed

lemma events_offer:
  "OfferServiceEvents b ebs w = Some (r, ebs', w') \<Longrightarrow> ready w \<Longrightarrow>
     ready w' \<and> (\<forall>x. provided x w \<longrightarrow> provided x w') \<and> (succeeded r \<longrightarrow> (\<forall>(n, eb) \<in> set ebs'. offered eb w'))"
proof (induction ebs arbitrary: w r ebs' w')
  case (Cons x ebs)
  obtain n eb where x: "x = (n, eb)" by (cases x)
  from Cons.prems(1) x obtain r1 eb1 w1 where 1: "EventBase_PrepareOffer b eb w = Some (r1, eb1, w1)"
    by (auto simp: bind_eq_Some_conv)
  note e = event_base_offer [OF 1 Cons.prems(2)]
  show ?case
  proof (cases "succeeded r1")
    case False
    with Cons.prems x 1 e show ?thesis by (auto simp: succeeded_def)
  next
    case True
    with Cons.prems x 1 obtain ebs2 where 2: "OfferServiceEvents b ebs w1 = Some (r, ebs2, w')" and ebs': "ebs' = (n, eb1) # ebs2"
      by (auto simp: bind_eq_Some_conv)
    from Cons.IH [OF 2 e(1)] e True show ?thesis unfolding ebs' using offered_keeps by fastforce
  qed
qed (auto simp: succeeded_def)

lemma fields_offer:
  "OfferServiceFields b fbs w = Some (r, fbs', w') \<Longrightarrow> ready w \<Longrightarrow>
     ready w' \<and> (\<forall>x. provided x w \<longrightarrow> provided x w') \<and>
     (succeeded r \<longrightarrow> (\<forall>(n, fb) \<in> set fbs'. offered (field_event fb) w'))"
proof (induction fbs arbitrary: w r fbs' w')
  case (Cons x fbs)
  obtain n fb where x: "x = (n, fb)" by (cases x)
  from Cons.prems(1) x obtain r1 fb1 w1 where 1: "FieldBase_PrepareOffer b fb w = Some (r1, fb1, w1)"
    by (auto simp: bind_eq_Some_conv)
  note e = field_base_offer [OF 1 Cons.prems(2)]
  show ?case
  proof (cases "succeeded r1")
    case False
    with Cons.prems x 1 e show ?thesis by (auto simp: succeeded_def)
  next
    case True
    with Cons.prems x 1 obtain fbs2 where 2: "OfferServiceFields b fbs w1 = Some (r, fbs2, w')" and fbs': "fbs' = (n, fb1) # fbs2"
      by (auto simp: bind_eq_Some_conv)
    from Cons.IH [OF 2] e True show ?thesis unfolding fbs' using offered_keeps by fastforce
  qed
qed (auto simp: succeeded_def)

lemma offered_service:
  assumes run: "SkeletonBase_OfferService b traced sb w = Some (Inr (), sb', w')"
  shows "service_offered sb' \<and> (\<forall>(n, eb) \<in> set (base_events sb'). offered eb w') \<and>
    (\<forall>(n, fb) \<in> set (base_fields sb'). offered (field_event fb) w')"
proof -
  note run' = run [unfolded SkeletonBase_OfferService_def]
  from run' obtain es fs r1 es1 fs1 w1 where 1: "binding_PrepareOffer b es fs traced w = Some (r1, es1, fs1, w1)"
    and rest: "(let sb = sb\<lparr>base_events := put_event_bindings es1 (base_events sb), base_fields := put_field_bindings fs1 (base_fields sb)\<rparr>
      in if \<not> succeeded r1 then Some (Inl kBindingFailure, sb, w1) else OfferService_elements b sb w1) = Some (Inr (), sb', w')"
    by (auto simp: bind_eq_Some_conv split: if_split_asm)
  define sb1 where "sb1 = sb\<lparr>base_events := put_event_bindings es1 (base_events sb), base_fields := put_field_bindings fs1 (base_fields sb)\<rparr>"
  from rest have s1: "succeeded r1" and el: "OfferService_elements b sb1 w1 = Some (Inr (), sb', w')"
    by (auto simp: sb1_def Let_def split: if_splits)
  from s1 have "r1 = Inr ()" by (simp add: succeeded_def split: sum.split_asm)
  with binding_offer 1 have ready1: "ready w1" by blast
  from el obtain r2 ebs w2 where 2: "OfferServiceEvents b (base_events sb1) w1 = Some (r2, ebs, w2)" and s2: "succeeded r2"
    by (auto simp: OfferService_elements_def bind_eq_Some_conv Let_def split: if_splits)
  from el 2 s2 obtain r3 fbs w3 where 3: "OfferServiceFields b (base_fields sb1) w2 = Some (r3, fbs, w3)" and s3: "succeeded r3"
    by (auto simp: OfferService_elements_def bind_eq_Some_conv Let_def split: if_splits)
  from el 2 s2 3 s3 have pub: "OfferService_publish b (sb1\<lparr>base_events := ebs, base_fields := fbs\<rparr>) w3 = Some (Inr (), sb', w')"
    by (auto simp: OfferService_elements_def bind_eq_Some_conv Let_def)
  then obtain r4 w4 r5 where 4: "binding_FinalizeOffer b w3 = Some (r4, w4)" and 5: "discovery_OfferService b w4 = Some (r5, w')"
    and sb': "sb' = sb1\<lparr>base_events := ebs, base_fields := fbs, service_offered := True\<rparr>"
    by (auto simp: OfferService_publish_def bind_eq_Some_conv Let_def split: if_splits)
  have keep: "provided x w3 \<Longrightarrow> provided x w'" for x using finalize_keeps [OF 4] discovery_keeps [OF 5] by blast
  from events_offer [OF 2 ready1] s2 have E: "ready w2" "\<And>x. provided x w1 \<Longrightarrow> provided x w2" "\<forall>(n, eb) \<in> set ebs. offered eb w2"
    by blast+
  from fields_offer [OF 3 E(1)] s3 have F: "\<And>x. provided x w2 \<Longrightarrow> provided x w3" "\<forall>(n, fb) \<in> set fbs. offered (field_event fb) w3"
    by blast+
  have "\<forall>(n, eb) \<in> set ebs. offered eb w'" using E(3) F(1) keep offered_keeps by fastforce
  moreover have "\<forall>(n, fb) \<in> set fbs. offered (field_event fb) w'" using F(2) keep offered_keeps by fastforce
  ultimately show ?thesis by (simp add: sb')
qed

end

subsection \<open>The LoLa binding\<close>

record ('v, 's, 'm, 'd) lola_service =
  own_skeleton :: skeleton
  own_shm :: "('v, 's) shm_world"
  own_messaging :: 'm
  own_discovery :: 'd

record 'd discovery_calls =
  offer_call :: "'d \<Rightarrow> (result_blank \<times> 'd) run"
  stop_call :: "'d \<Rightarrow> (result_blank \<times> 'd) run"
  stop_qm_call :: "'d \<Rightarrow> (result_blank \<times> 'd) run"

text \<open>An operation of an event works on the slots and the samples of its element; it may stop the offer for QM.\<close>

definition stop_qm_offer :: "'d discovery_calls \<Rightarrow> nat \<Rightarrow> 'd \<Rightarrow> 'd run" where
  "stop_qm_offer sd n d = (if n = 0 then Some d else map_option snd (stop_qm_call sd d))"

definition on_producer ::
    "'d discovery_calls \<Rightarrow>
     (slot_address skeleton_event \<Rightarrow> (slot_address, 'v, 'm) producer_world \<Rightarrow>
        ('r \<times> slot_address skeleton_event \<times> (slot_address, 'v, 'm) producer_world) run) \<Rightarrow>
     'v bound_event \<Rightarrow> ('v, 's, 'm, 'd) lola_service \<Rightarrow> ('r \<times> 'v bound_event \<times> ('v, 's, 'm, 'd) lola_service) run" where
  "on_producer sd f ev w = do {
     (s, k) \<leftarrow> event_data_storage ev;
     let e = event_fqn (event_state ev);
     let d = data_sections (own_shm w) s;
     samples \<leftarrow> element_find e (stored_events d);
     (result, se, pw) \<leftarrow> f (event_state ev)
        \<lparr>slots = slot_sections (own_shm w), storage = samples, producer_world.service = own_messaging w, qm_stop_offers = 0\<rparr>;
     discovery \<leftarrow> stop_qm_offer sd (qm_stop_offers pw) (own_discovery w);
     Some (result, ev\<lparr>event_state := se\<rparr>,
           w\<lparr>own_shm := (set_data s (d\<lparr>stored_events := element_update e (\<lambda>_. storage pw) (stored_events d)\<rparr>) (own_shm w))
               \<lparr>slot_sections := slots pw\<rparr>,
             own_messaging := producer_world.service pw, own_discovery := discovery\<rparr>) }"

definition lola_binding ::
    "'s restart_os \<Rightarrow> 'v lola_runtime \<Rightarrow> (QualityType \<Rightarrow> element_fq_id \<Rightarrow> 'm \<Rightarrow> 'm run) \<Rightarrow> 'd discovery_calls \<Rightarrow>
     ('v bound_event, slot_address sample_allocatee_ptr, 'v, ('v, 's, 'm, 'd) lola_service) offer_interface" where
  "lola_binding os rt notify sd =
     \<lparr>binding_PrepareOffer = (\<lambda>es fs traced w. do {
        (result, es, fs, sk, shm_w) \<leftarrow> Skeleton_PrepareOffer os rt traced es fs (own_skeleton w) (own_shm w);
        Some (result, es, fs, w\<lparr>own_skeleton := sk, own_shm := shm_w\<rparr>) }),
      binding_FinalizeOffer = (\<lambda>w. Some (Skeleton_FinalizeOffer, w)),
      binding_PrepareStopOffer = (\<lambda>traced w. do {
        (sk, shm_w) \<leftarrow> Skeleton_PrepareStopOffer os (own_skeleton w) (own_shm w);
        Some (w\<lparr>own_skeleton := sk, own_shm := shm_w\<rparr>) }),
      event_PrepareOffer = (\<lambda>ev w. do {
        (result, ev, sk, shm_w) \<leftarrow> SkeletonEvent_PrepareOffer (own_skeleton w) ev (own_shm w);
        Some (result, ev, w\<lparr>own_skeleton := sk, own_shm := shm_w\<rparr>) }),
      event_PrepareStopOffer = (\<lambda>ev w. do {
        shm_w \<leftarrow> SkeletonEvent_PrepareStopOffer (own_skeleton w) ev (own_shm w);
        Some (w\<lparr>own_shm := shm_w\<rparr>) }),
      event_Send = (\<lambda>v. on_producer sd (Send_value notify v)),
      event_Send_sample = (\<lambda>p. on_producer sd (Send_sample notify p)),
      event_Allocate = on_producer sd Allocate,
      discovery_OfferService = (\<lambda>w. do {
        (result, d) \<leftarrow> offer_call sd (own_discovery w);
        Some (result, w\<lparr>own_discovery := d\<rparr>) }),
      discovery_StopOfferService = (\<lambda>w. do {
        (result, d) \<leftarrow> stop_call sd (own_discovery w);
        Some (result, w\<lparr>own_discovery := d\<rparr>) })\<rparr>"

subsection \<open>What an event finds in the memory\<close>

definition in_map :: "element_fq_id \<Rightarrow> 'a element_map \<Rightarrow> bool" where
  "in_map e m \<longleftrightarrow> element_find e m \<noteq> None"

lemma in_map_put [simp]: "in_map e (element_put e v m)"
  unfolding in_map_def by (induction m) (auto simp: ElementFqId_eq_def)

lemma in_map_put_other: "in_map e m \<Longrightarrow> in_map e (element_put e' v m)"
  unfolding in_map_def by (induction m) (auto split: if_splits)

lemma in_map_update [simp]: "in_map e (element_update e' f m) \<longleftrightarrow> in_map e m"
  unfolding in_map_def by (induction m) (auto split: if_splits)

text \<open>Maps of a section only gain entries.\<close>

definition gains :: "('v, 's) shm_world \<Rightarrow> ('v, 's) shm_world \<Rightarrow> bool" where
  "gains w w' \<longleftrightarrow> (\<forall>r e.
     (in_map e (event_controls (control_sections w r)) \<longrightarrow> in_map e (event_controls (control_sections w' r))) \<and>
     (in_map e (stored_events (data_sections w r)) \<longrightarrow> in_map e (stored_events (data_sections w' r))) \<and>
     (in_map e (stored_metainfo (data_sections w r)) \<longrightarrow> in_map e (stored_metainfo (data_sections w' r))))"

lemma gains_refl [simp]: "gains w w"
  by (simp add: gains_def)

lemma gains_trans: "gains a b \<Longrightarrow> gains b c \<Longrightarrow> gains a c"
  by (simp add: gains_def)

lemma gains_slots [simp]: "gains w (w\<lparr>slot_sections := sw\<rparr>)"
  by (simp add: gains_def)

lemma gains_event_logs [simp]: "gains w (set_event_logs r e t w)"
  by (simp add: gains_def set_event_logs_def set_control_def Let_def)

definition provides :: "skeleton \<Rightarrow> element_fq_id \<Rightarrow> ('v, 's) shm_world \<Rightarrow> bool" where
  "provides sk e w \<longleftrightarrow>
     (\<exists>s qm. storage_ptr sk = Some s \<and> control_qm sk = Some qm \<and> in_map e (stored_events (data_sections w s)) \<and>
        in_map e (stored_metainfo (data_sections w s)) \<and> in_map e (event_controls (control_sections w qm))) \<and>
     (HasAsilBSupport (skeleton_identifier sk) \<longrightarrow>
        (\<exists>b. control_asil_b sk = Some b \<and> in_map e (event_controls (control_sections w b))))"

lemma provides_gains: "provides sk e w \<Longrightarrow> gains w w' \<Longrightarrow> provides sk e w'"
  unfolding provides_def gains_def by blast

lemma provides_tracing [simp]: "provides (sk\<lparr>tracing_disabled := t\<rparr>) e w = provides sk e w"
  by (simp add: provides_def)

definition memory_complete :: "skeleton \<Rightarrow> bool" where
  "memory_complete sk \<longleftrightarrow>
     (HasAsilBSupport (skeleton_identifier sk) \<longrightarrow> was_old_shm_region_reopened sk \<or> control_asil_resource sk \<noteq> None)"

lemma emplace_event_control_gains:
  assumes "emplace_event_control r e ps w = Some (i, a, w')"
  shows "gains w w'" and "in_map e (event_controls (control_sections w' r))"
    and "data_sections w' = data_sections w"
proof -
  let ?m = "event_controls (control_sections w r)"
  obtain ec where ec: "new_event_control (r, fq_key e) ps = Some ec"
    using assms by (auto simp: emplace_event_control_def bind_eq_Some_conv Let_def)
  have *: "gains w w' \<and> in_map e (event_controls (control_sections w' r)) \<and> data_sections w' = data_sections w"
  proof (cases "element_find e ?m")
    case (Some old)
    with assms ec have "w' = w" by (simp add: emplace_event_control_def Let_def)
    with Some show ?thesis by (simp add: in_map_def)
  next
    case None
    with assms ec show ?thesis
      by (auto simp: emplace_event_control_def Let_def gains_def set_control_def in_map_put_other)
  qed
  then show "gains w w'" "in_map e (event_controls (control_sections w' r))" "data_sections w' = data_sections w"
    by blast+
qed

lemma element_emplace_new:
  "element_emplace e v m = (True, m') \<Longrightarrow> m' = element_put e v m"
  by (auto simp: element_emplace_def split: option.splits)

lemma Create_event_provides:
  assumes run: "CreateEventDataFromOpenedSharedMemory sk e ev w = Some (p, cc, w')"
  shows "gains w w'" and "memory_complete sk \<Longrightarrow> \<not> was_old_shm_region_reopened sk \<Longrightarrow> provides sk e w'"
proof -
  let ?ps = "event_properties ev"
  note run' = run [unfolded CreateEventDataFromOpenedSharedMemory_def Let_def]
  obtain r where r: "storage_resource sk = Some r" using run' by (cases "storage_resource sk") auto
  obtain s where s: "storage_ptr sk = Some s" using run' r by (cases "storage_ptr sk") auto
  define d where "d = data_sections w s"
  obtain ok evs where e1: "element_emplace e (replicate (unat (number_of_slots ?ps)) (default_sample ev)) (stored_events d) = (ok, evs)"
    by (cases "element_emplace e (replicate (unat (number_of_slots ?ps)) (default_sample ev)) (stored_events d)")
  have ok: ok using run' r s e1 by (auto simp: d_def [symmetric] bind_eq_Some_conv)
  obtain ok2 metas where e2: "element_emplace e \<lparr>data_type_info = sample_type ev, event_slots_raw_array = (r, fq_key e)\<rparr> (stored_metainfo d) = (ok2, metas)"
    by (cases "element_emplace e \<lparr>data_type_info = sample_type ev, event_slots_raw_array = (r, fq_key e)\<rparr> (stored_metainfo d)")
  have ok2: ok2 using run' r s e1 ok e2 by (auto simp: d_def [symmetric] bind_eq_Some_conv)
  define w1 where "w1 = set_data s (d\<lparr>stored_events := evs, stored_metainfo := metas\<rparr>) w"
  have evs: "evs = element_put e (replicate (unat (number_of_slots ?ps)) (default_sample ev)) (stored_events d)"
    and metas: "metas = element_put e \<lparr>data_type_info = sample_type ev, event_slots_raw_array = (r, fq_key e)\<rparr> (stored_metainfo d)"
    by (rule element_emplace_new, use e1 ok in simp) (rule element_emplace_new, use e2 ok2 in simp)
  have g1: "gains w w1" and has1: "in_map e (stored_events (data_sections w1 s))" "in_map e (stored_metainfo (data_sections w1 s))"
    by (auto simp: gains_def w1_def set_data_def evs metas d_def in_map_put_other)
  obtain qm where qm: "control_qm sk = Some qm" using run' r s e1 ok e2 ok2 by (cases "control_qm sk") (auto simp: d_def [symmetric])
  obtain i c w2 where em: "emplace_event_control qm e ?ps w1 = Some (i, c, w2)"
    using run' r s e1 ok e2 ok2 qm by (auto simp: d_def [symmetric] w1_def [symmetric] bind_eq_Some_conv)
  note q = emplace_event_control_gains [OF em]
  have g2: "gains w w2" using g1 q(1) by (rule gains_trans)
  show "gains w w'"
  proof (cases "control_asil_resource sk")
    case None
    with run' r s e1 ok e2 ok2 qm em g2 show ?thesis by (auto simp: d_def [symmetric] w1_def [symmetric] bind_eq_Some_conv)
  next
    case (Some br)
    with run' r s e1 ok e2 ok2 qm em obtain b j cb where "control_asil_b sk = Some b" "emplace_event_control b e ?ps w2 = Some (j, cb, w')"
      by (auto simp: d_def [symmetric] w1_def [symmetric] bind_eq_Some_conv)
    from gains_trans [OF g2 emplace_event_control_gains(1) [OF this(2)]] show ?thesis .
  qed
  show "provides sk e w'" if complete: "memory_complete sk" and new: "\<not> was_old_shm_region_reopened sk"
  proof (cases "control_asil_resource sk")
    case None
    with complete new have "\<not> HasAsilBSupport (skeleton_identifier sk)" by (simp add: memory_complete_def)
    moreover from None run' r s e1 ok e2 ok2 qm em have "w' = w2"
      by (auto simp: d_def [symmetric] w1_def [symmetric] bind_eq_Some_conv)
    ultimately show ?thesis using s qm has1 q by (simp add: provides_def)
  next
    case (Some br)
    with run' r s e1 ok e2 ok2 qm em obtain b j cb where b: "control_asil_b sk = Some b" "emplace_event_control b e ?ps w2 = Some (j, cb, w')"
      by (auto simp: d_def [symmetric] w1_def [symmetric] bind_eq_Some_conv)
    note q' = emplace_event_control_gains [OF b(2)]
    have "in_map e (event_controls (control_sections w' qm))" using q(2) q'(1) by (simp add: gains_def)
    then show ?thesis using s qm b(1) has1 q(3) q' by (simp add: provides_def)
  qed
qed

lemma Open_event_provides:
  assumes "OpenEventDataFromOpenedSharedMemory sk e w = Some (p, cc)"
  shows "provides sk e w"
  using assms
  by (auto simp: OpenEventDataFromOpenedSharedMemory_def bind_eq_Some_conv provides_def in_map_def split: if_splits)

lemma Register_provides:
  assumes "Register sk e ev w = Some (p, cc, sk', w')"
  shows "sk' = sk \<or> sk' = sk\<lparr>tracing_disabled := True\<rparr>" and "gains w w'" and "memory_complete sk \<Longrightarrow> provides sk e w'"
proof -
  show "sk' = sk \<or> sk' = sk\<lparr>tracing_disabled := True\<rparr>" using Register_system [OF assms] by blast
  have "gains w w' \<and> (memory_complete sk \<longrightarrow> provides sk e w')"
  proof (cases "was_old_shm_region_reopened sk")
    case True
    with assms obtain qm t slots where o: "OpenEventDataFromOpenedSharedMemory sk e w = Some (p, cc)"
      and w': "w' = set_event_logs qm e t (w\<lparr>slot_sections := slots\<rparr>)"
      by (auto simp: Register_def bind_eq_Some_conv Let_def split: sum.split_asm dest: no_third_result)
    have "gains w w'" unfolding w' by (rule gains_trans [OF gains_slots gains_event_logs])
    with provides_gains [OF Open_event_provides [OF o]] show ?thesis by blast
  next
    case False
    with assms obtain w1 qm t where c: "CreateEventDataFromOpenedSharedMemory sk e ev w = Some (p, cc, w1)"
      and w': "w' = set_event_logs qm e t w1"
      by (auto simp: Register_def bind_eq_Some_conv)
    have "gains w w'" unfolding w' by (rule gains_trans [OF Create_event_provides(1) [OF c] gains_event_logs])
    moreover have "memory_complete sk \<Longrightarrow> provides sk e w'"
      unfolding w' by (rule provides_gains [OF Create_event_provides(2) [OF c _ False] gains_event_logs])
    ultimately show ?thesis by blast
  qed
  then show "gains w w'" "memory_complete sk \<Longrightarrow> provides sk e w'" by blast+
qed

lemma PrepareOffer_fqn: "Skeleton_Event.PrepareOffer cc se w = Some (r, se', w') \<Longrightarrow> event_fqn se' = event_fqn se"
  by (auto simp: PrepareOffer_def bind_eq_Some_conv)

lemma event_offer_provides:
  assumes "SkeletonEvent_PrepareOffer sk ev w = Some (r, ev', sk', w')"
  shows "sk' = sk \<or> sk' = sk\<lparr>tracing_disabled := True\<rparr>" and "gains w w'"
    and "memory_complete sk \<Longrightarrow> provides sk' (event_fqn (event_state ev')) w'"
proof -
  from assms obtain p cc w1 se sw where r: "Register sk (event_fqn (event_state ev)) ev w = Some (p, cc, sk', w1)"
    and w': "w' = w1\<lparr>slot_sections := sw\<rparr>" and e: "event_fqn (event_state ev') = event_fqn (event_state ev)"
    by (auto simp: SkeletonEvent_PrepareOffer_def bind_eq_Some_conv dest!: PrepareOffer_fqn)
  note p = Register_provides [OF r]
  show "sk' = sk \<or> sk' = sk\<lparr>tracing_disabled := True\<rparr>" by (rule p(1))
  show "gains w w'" unfolding w' by (rule gains_trans [OF p(2) gains_slots])
  assume "memory_complete sk"
  from provides_gains [OF p(3) [OF this] gains_slots] p(1)
  show "provides sk' (event_fqn (event_state ev')) w'" unfolding w' e by auto
qed

lemma Allocate_fqn: "Allocate se w = Some (r, se', w') \<Longrightarrow> event_fqn se' = event_fqn se"
  by (auto simp: Allocate_def bind_eq_Some_conv Let_def split: option.split_asm if_split_asm)

lemma Send_sample_fqn: "Send_sample notify p se w = Some (r, se', w') \<Longrightarrow> event_fqn se' = event_fqn se"
  by (auto simp: Send_sample_def bind_eq_Some_conv Let_def)

lemma Send_value_fqn: "Send_value notify v se w = Some (r, se', w') \<Longrightarrow> event_fqn se' = event_fqn se"
proof -
  assume run: "Send_value notify v se w = Some (r, se', w')"
  then obtain a se1 w1 where a: "Allocate se w = Some (a, se1, w1)" by (auto simp: Send_value_def bind_eq_Some_conv)
  show ?thesis
    using run a Allocate_fqn [OF a]
    by (cases a) (auto simp: Send_value_def bind_eq_Some_conv dest!: Send_sample_fqn)
qed

lemma on_producer_provides:
  assumes f: "\<And>se pw r se' pw'. f se pw = Some (r, se', pw') \<Longrightarrow> event_fqn se' = event_fqn se"
    and run: "on_producer sd f ev w = Some (r, ev', w')"
  shows "own_skeleton w' = own_skeleton w" and "gains (own_shm w) (own_shm w')"
    and "event_fqn (event_state ev') = event_fqn (event_state ev)"
  using run
  by (auto simp: on_producer_def bind_eq_Some_conv Let_def gains_def set_data_def dest: f)

lemma Open_complete:
  fixes w :: "('v, 's) shm_world"
  assumes "OpenExistingSharedMemory os pid traced sk w = Some (r, sk', w')"
  shows "was_old_shm_region_reopened sk' = was_old_shm_region_reopened sk"
proof -
  have c: "was_old_shm_region_reopened sk2 = was_old_shm_region_reopened sk1"
    if o: "OpenSharedMemoryForControl os level sk1 w1 = Some (ok, sk2, w2)" for level sk1 and w1 w2 :: "('v, 's) shm_world" and ok sk2
  proof -
    from o obtain path where p: "GetControlChannelShmPath (skeleton_identifier sk1) level (path_service_id sk1) = Some path"
      by (auto simp: OpenSharedMemoryForControl_def bind_eq_Some_conv)
    obtain m w3 where "on_system (shm_open os path True None) w1 = (m, w3)" by fastforce
    with o p show ?thesis
      by (cases m; cases "level = kASIL_QM") (auto simp: OpenSharedMemoryForControl_def Let_def set_control_resource_def set_control_path_def)
  qed
  have d: "was_old_shm_region_reopened sk2 = was_old_shm_region_reopened sk1"
    if o: "OpenSharedMemoryForData os pid traced sk1 w1 = Some (ok, sk2, w2)" for sk1 and w1 w2 :: "('v, 's) shm_world" and ok sk2
  proof -
    from o obtain path where p: "GetDataChannelShmPath (skeleton_identifier sk1) (path_service_id sk1) = Some path"
      by (auto simp: OpenSharedMemoryForData_def bind_eq_Some_conv)
    obtain m w3 where "on_system (shm_open os path True None) w1 = (m, w3)" by fastforce
    with o p show ?thesis
      by (cases m) (auto simp: OpenSharedMemoryForData_def bind_eq_Some_conv Let_def)
  qed
  from assms show ?thesis
    by (auto simp: OpenExistingSharedMemory_def bind_eq_Some_conv split: if_split_asm dest!: c d)
qed

lemma CreateControl_resource:
  assumes "CreateSharedMemoryForControl os d level n sk w = Some (ok, sk', w')"
  shows "skeleton_identifier sk' = skeleton_identifier sk"
    and "level = kASIL_B \<Longrightarrow> ok \<Longrightarrow> control_asil_resource sk' \<noteq> None"
proof -
  from assms obtain i path where i: "instance_number (skeleton_identifier sk) = Some i"
    "GetControlChannelShmName (path_service_id sk) i level = Some path"
    by (auto simp: CreateSharedMemoryForControl_def bind_eq_Some_conv)
  obtain m w1 where m: "on_system (shm_create os path n (control_permissions d level) False) w = (m, w1)" by fastforce
  note defs = CreateSharedMemoryForControl_def Let_def set_control_resource_def set_control_path_def
    InitializeSharedMemoryForControl_def
  from assms i m show "skeleton_identifier sk' = skeleton_identifier sk"
    by (cases m; cases "level = kASIL_QM") (auto simp: defs)
  show "level = kASIL_B \<Longrightarrow> ok \<Longrightarrow> control_asil_resource sk' \<noteq> None"
    using assms i m by (cases m) (auto simp: defs)
qed

lemma CreateData_resource:
  assumes "CreateSharedMemoryForData os pid d n traced sk w = Some (ok, sk', w')"
  shows "skeleton_identifier sk' = skeleton_identifier sk" and "control_asil_resource sk' = control_asil_resource sk"
proof -
  from assms obtain i path where i: "instance_number (skeleton_identifier sk) = Some i"
    "GetDataChannelShmName (path_service_id sk) i = Some path"
    by (auto simp: CreateSharedMemoryForData_def bind_eq_Some_conv)
  obtain m w1 where m: "on_system (shm_create os path n (data_permissions d) traced) w = (m, w1)" by fastforce
  from assms i m have "skeleton_identifier sk' = skeleton_identifier sk \<and> control_asil_resource sk' = control_asil_resource sk"
    by (cases m) (auto simp: CreateSharedMemoryForData_def bind_eq_Some_conv Let_def InitializeSharedMemoryForData_def)
  then show "skeleton_identifier sk' = skeleton_identifier sk" "control_asil_resource sk' = control_asil_resource sk" by simp_all
qed

lemma Create_complete:
  fixes w :: "('v, 's) shm_world"
  assumes run: "CreateSharedMemory os rt traced evs fs sk w = Some (Inr (), evs', fs', sk', w')"
  shows "HasAsilBSupport (skeleton_identifier sk') \<longrightarrow> control_asil_resource sk' \<noteq> None"
proof -
  have c: "skeleton_identifier sk2 = skeleton_identifier sk1 \<and> control_asil_resource sk2 \<noteq> None"
    if "CreateSharedMemoryForControl os d kASIL_B n sk1 w1 = Some (True, sk2, w2)" for d n sk1 and w1 w2 :: "('v, 's) shm_world" and sk2
    using CreateControl_resource [OF that] by simp
  have d: "skeleton_identifier sk2 = skeleton_identifier sk1 \<and> control_asil_resource sk2 = control_asil_resource sk1"
    if "CreateSharedMemoryForData os (GetPid rt) d n traced sk1 w1 = Some (ok, sk2, w2)" for d n sk1 and w1 w2 :: "('v, 's) shm_world" and ok sk2
    using CreateData_resource [OF that] by simp
  from run show ?thesis
    unfolding CreateSharedMemory_def by (auto simp: bind_eq_Some_conv split: if_split_asm dest!: c d)
qed

lemma PrepareOffer_complete:
  assumes "Skeleton_PrepareOffer os rt traced evs fs sk w = Some (Inr (), evs', fs', sk', w')"
  shows "memory_complete sk'"
proof -
  from assms obtain sk1 w1 where m: "Skeleton_PrepareOffer_memory os rt traced evs fs sk1 w1 = Some (Inr (), evs', fs', sk', w')"
    by (auto simp: Skeleton_PrepareOffer_def bind_eq_Some_conv split: sum.split_asm dest: no_third_result)
  show ?thesis
  proof (cases "was_old_shm_region_reopened sk1")
    case True
    with m obtain w2 where "OpenExistingSharedMemory os (GetPid rt) traced sk1 w1 = Some (Inr (), sk', w2)"
      by (auto simp: Skeleton_PrepareOffer_memory_def bind_eq_Some_conv split: sum.split_asm dest: no_third_result)
    with True show ?thesis by (auto simp: memory_complete_def dest: Open_complete)
  next
    case False
    with m show ?thesis
      by (auto simp: Skeleton_PrepareOffer_memory_def bind_eq_Some_conv memory_complete_def dest: Create_complete)
  qed
qed

subsection \<open>LoLa keeps the contract\<close>

definition lola_ready :: "('v, 's, 'm, 'd) lola_service \<Rightarrow> bool" where
  "lola_ready w \<longleftrightarrow> memory_complete (own_skeleton w)"

definition lola_provided :: "'v bound_event \<Rightarrow> ('v, 's, 'm, 'd) lola_service \<Rightarrow> bool" where
  "lola_provided ev w \<longleftrightarrow> provides (own_skeleton w) (event_fqn (event_state ev)) (own_shm w)"

lemma memory_complete_tracing [simp]: "memory_complete (sk\<lparr>tracing_disabled := t\<rparr>) = memory_complete sk"
  by (simp add: memory_complete_def)

lemma lola_event_offer:
  assumes "event_PrepareOffer (lola_binding os rt notify sd) e w = Some (r, e', w')"
  shows "lola_ready w \<Longrightarrow> lola_provided e' w'" and "lola_ready w \<Longrightarrow> lola_ready w'"
    and "lola_provided x w \<Longrightarrow> lola_provided x w'"
proof -
  from assms obtain sk shm_w where run: "SkeletonEvent_PrepareOffer (own_skeleton w) e (own_shm w) = Some (r, e', sk, shm_w)"
    and w': "w' = w\<lparr>own_skeleton := sk, own_shm := shm_w\<rparr>"
    by (auto simp: lola_binding_def bind_eq_Some_conv)
  note p = event_offer_provides [OF run]
  show "lola_ready w \<Longrightarrow> lola_provided e' w'" using p(3) by (simp add: w' lola_ready_def lola_provided_def)
  show "lola_ready w \<Longrightarrow> lola_ready w'" using p(1) by (auto simp: w' lola_ready_def)
  show "lola_provided x w \<Longrightarrow> lola_provided x w'"
    using p(1) provides_gains [OF _ p(2)] by (auto simp: w' lola_provided_def)
qed

lemma lola_event_send:
  assumes "event_Send (lola_binding os rt notify sd) v e w = Some (r, e', w')"
  shows "lola_ready w \<Longrightarrow> lola_ready w'" and "lola_provided e w \<Longrightarrow> lola_provided e' w'"
    and "lola_provided x w \<Longrightarrow> lola_provided x w'"
proof -
  from assms have run: "on_producer sd (Send_value notify v) e w = Some (r, e', w')" by (simp add: lola_binding_def)
  note p = on_producer_provides [OF Send_value_fqn run]
  show "lola_ready w \<Longrightarrow> lola_ready w'" by (simp add: lola_ready_def p(1))
  show "lola_provided e w \<Longrightarrow> lola_provided e' w'"
    using provides_gains [OF _ p(2)] by (simp add: lola_provided_def p(1,3))
  show "lola_provided x w \<Longrightarrow> lola_provided x w'"
    using provides_gains [OF _ p(2)] by (simp add: lola_provided_def p(1))
qed

lemma lola_binding_offer:
  "binding_PrepareOffer (lola_binding os rt notify sd) es fs traced w = Some (Inr (), es', fs', w') \<Longrightarrow> lola_ready w'"
  by (auto simp: lola_binding_def bind_eq_Some_conv lola_ready_def dest: PrepareOffer_complete)

lemma lola_publish:
  "binding_FinalizeOffer (lola_binding os rt notify sd) w = Some (r, w') \<Longrightarrow> lola_provided x w \<Longrightarrow> lola_provided x w'"
  "discovery_OfferService (lola_binding os rt notify sd) w = Some (r, w') \<Longrightarrow> lola_provided x w \<Longrightarrow> lola_provided x w'"
  by (auto simp: lola_binding_def bind_eq_Some_conv lola_provided_def)

lemmas lola_contract = lola_binding_offer lola_event_offer lola_event_send lola_publish

interpretation lola: offering "lola_binding os rt notify sd" lola_ready lola_provided for os rt notify sd
  by unfold_locales (rule lola_contract; assumption)+

subsection \<open>An offered service is complete\<close>

definition elements_of :: "('e, 'v) skeleton_base \<Rightarrow> (string \<times> 'e event_base) list" where
  "elements_of sb = base_events sb @ map (\<lambda>(name, fb). (name, field_event fb)) (base_fields sb)"

text \<open>A proxy whose sections are those that a skeleton works on.\<close>

definition opens_memory_of :: "skeleton \<Rightarrow> ('b, 'g) proxy \<Rightarrow> bool" where
  "opens_memory_of sk p \<longleftrightarrow>
     storage_ptr sk = Some (proxy_data p) \<and>
     (control_qm sk = Some (proxy_control p) \<or>
      HasAsilBSupport (skeleton_identifier sk) \<and> control_asil_b sk = Some (proxy_control p))"

lemma provides_to_proxy:
  assumes "provides sk e w" and "opens_memory_of sk p"
  shows "GetEventControl p e w \<noteq> None" and "GetRawDataStorage p e w \<noteq> None" and "Proxy_GetEventMetaInfo p e w \<noteq> None"
  using assms
  by (auto simp: provides_def opens_memory_of_def GetEventControl_def GetRawDataStorage_def Proxy_GetEventMetaInfo_def
      in_map_def)

text \<open>Property C6: a service that is offered is complete. When \<open>OfferService\<close> of a skeleton with the LoLa
  binding has succeeded, then each of its events and fields is offered, and every proxy that has opened the
  memory of the skeleton, of either quality, finds the control block, the samples and the meta information
  of each of them, whether the memory is new or that of a provider before.\<close>

theorem offered_service_is_complete:
  assumes "SkeletonBase_OfferService (lola_binding os rt notify sd) traced sb w = Some (Inr (), sb', w')"
  shows "service_offered sb' \<and>
    (\<forall>(name, eb) \<in> set (elements_of sb'). event_offered eb \<and>
       (\<exists>ev. event_binding eb = Some ev \<and>
          (\<forall>p :: ('b, 'g) proxy. opens_memory_of (own_skeleton w') p \<longrightarrow>
             GetEventControl p (event_fqn (event_state ev)) (own_shm w') \<noteq> None \<and>
             GetRawDataStorage p (event_fqn (event_state ev)) (own_shm w') \<noteq> None \<and>
             Proxy_GetEventMetaInfo p (event_fqn (event_state ev)) (own_shm w') \<noteq> None)))"
  using lola.offered_service [OF assms] provides_to_proxy
  unfolding lola.offered_def elements_of_def lola_provided_def by fastforce

text \<open>A service with one event.\<close>

definition radar_binding :: "(nat bound_event, slot_address sample_allocatee_ptr, nat, (nat, marker_memory, unit, unit) lola_service) offer_interface" where
  "radar_binding = lola_binding marker_os (radar_runtime 100) (\<lambda>_ _ m. Some m)
     \<lparr>offer_call = (\<lambda>d. Some (Inr (), d)), stop_call = (\<lambda>d. Some (Inr (), d)), stop_qm_call = (\<lambda>d. Some (Inr (), d))\<rparr>"

definition radar_base :: "(nat bound_event, nat) skeleton_base" where
  "radar_base = \<lparr>has_binding = True, base_events = [(''speed'', SkeletonEventBase (Some radar_speed))],
     base_fields = [], service_offered = False\<rparr>"

definition radar_service :: "skeleton \<Rightarrow> (nat, marker_memory) shm_world \<Rightarrow> (nat, marker_memory, unit, unit) lola_service" where
  "radar_service sk w = \<lparr>own_skeleton = sk, own_shm = w, own_messaging = (), own_discovery = ()\<rparr>"

lemma radar_offer_runs:
  "case run_radar [Create_skeleton 0 radar 7, Offer_lock 0] of
     None \<Rightarrow> False
   | Some st \<Rightarrow> (case skeletons st 0 of
        Some (Offering, sk) \<Rightarrow>
          (case Skeleton_PrepareOffer_memory marker_os (radar_runtime 100) False [(''speed'', radar_speed)] [] sk (shm st) of
             Some (Inr _, [(n, ev)], [], sk, w) \<Rightarrow>
               (case SkeletonEvent_PrepareOffer sk ev w of Some (Inr _, _, _, _) \<Rightarrow> True | _ \<Rightarrow> False)
           | _ \<Rightarrow> False)
      | _ \<Rightarrow> False)"
  by code_simp

lemma radar_prepare_offer:
  obtains sk0 w0 n ev0 sk1 w1 ev sk2 w2 where
    "Skeleton_PrepareOffer marker_os (radar_runtime 100) False [(''speed'', radar_speed)] [] sk0 w0 = Some (Inr (), [(n, ev0)], [], sk1, w1)"
    and "SkeletonEvent_PrepareOffer sk1 ev0 w1 = Some (Inr (), ev, sk2, w2)"
proof -
  note runs = radar_offer_runs
  obtain st where st: "run_radar [Create_skeleton 0 radar 7, Offer_lock 0] = Some st"
    using runs by (cases "run_radar [Create_skeleton 0 radar 7, Offer_lock 0]") auto
  note runs = runs [unfolded st, simplified]
  obtain ph sk where "skeletons st 0 = Some (ph, sk)" using runs by (cases "skeletons st 0") auto
  with runs have sk: "skeletons st 0 = Some (Offering, sk)" by (cases ph) auto
  note runs = runs [unfolded sk, simplified]
  let ?m = "Skeleton_PrepareOffer_memory marker_os (radar_runtime 100) False [(''speed'', radar_speed)] [] sk (shm st)"
  obtain r es fs sk1 w1 where m: "?m = Some (r, es, fs, sk1, w1)" using runs by (cases ?m) auto
  note runs = runs [unfolded m, simplified]
  have r: "r = Inr ()" using runs by (cases r) auto
  obtain n ev0 es2 where "es = (n, ev0) # es2" using runs r by (cases es) auto
  moreover from this have "es2 = []" using runs r by (cases es2) auto
  ultimately have es: "es = [(n, ev0)]" by simp
  have fs: "fs = []" using runs r es by (cases fs) auto
  obtain r2 ev sk2 w2 where e: "SkeletonEvent_PrepareOffer sk1 ev0 w1 = Some (r2, ev, sk2, w2)"
    using runs r es fs by (cases "SkeletonEvent_PrepareOffer sk1 ev0 w1") auto
  have r2: "r2 = Inr ()" using runs r es fs e by (cases r2) auto
  from st obtain st0 where "run_party marker_os (Offer_lock 0) st0 = Some st"
    by (auto simp: run_radar_def bind_eq_Some_conv)
  with sk obtain sk0 r0 where "Skeleton_PrepareOffer_lock marker_os sk0 (shm st0) = Some (r0, sk, shm st)" "succeeded r0"
    by (auto simp: step_skeleton_def bind_eq_Some_conv split: option.split_asm prod.split_asm if_split_asm sum.split_asm dest: no_third_result)
  moreover from this(2) have "r0 = Inr ()" by (cases r0) auto
  ultimately have "Skeleton_PrepareOffer marker_os (radar_runtime 100) False [(''speed'', radar_speed)] [] sk0 (shm st0) =
      Some (Inr (), [(n, ev0)], [], sk1, w1)"
    using m by (simp add: Skeleton_PrepareOffer_def r es fs)
  from that [OF this] e r2 show thesis by simp
qed

lemma offer_radar:
  obtains w sb w' ev where "SkeletonBase_OfferService radar_binding False radar_base w = Some (Inr (), sb, w')"
    and "elements_of sb = [(''speed'', \<lparr>event_binding = Some ev, event_offered = True\<rparr>)]"
proof -
  obtain sk0 w0 n ev0 sk1 w1 ev sk2 w2 where
      p: "Skeleton_PrepareOffer marker_os (radar_runtime 100) False [(''speed'', radar_speed)] [] sk0 w0 = Some (Inr (), [(n, ev0)], [], sk1, w1)"
    and e: "SkeletonEvent_PrepareOffer sk1 ev0 w1 = Some (Inr (), ev, sk2, w2)"
    by (rule radar_prepare_offer)
  have "SkeletonBase_OfferService radar_binding False radar_base (radar_service sk0 w0) =
      Some (Inr (), radar_base\<lparr>base_events := [(''speed'', \<lparr>event_binding = Some ev, event_offered = True\<rparr>)], service_offered := True\<rparr>,
        radar_service sk2 w2)"
    using p e
    by (simp add: SkeletonBase_OfferService_def radar_base_def SkeletonEventBase_def radar_binding_def lola_binding_def
        radar_service_def GetSkeletonFieldBindingsMap_def put_event_bindings_def put_field_bindings_def
        OfferService_elements_def EventBase_PrepareOffer_def OfferService_publish_def Skeleton_FinalizeOffer_def
        or_binding_failure_def)
  then show thesis by (rule that) (simp add: elements_of_def radar_base_def)
qed

theorem offered_service_is_complete_witness:
  "\<exists>w sb w' ev. SkeletonBase_OfferService radar_binding False radar_base w = Some (Inr (), sb, w') \<and>
     elements_of sb = [(''speed'', \<lparr>event_binding = Some ev, event_offered = True\<rparr>)] \<and>
     (\<forall>p :: (unit, unit) proxy. opens_memory_of (own_skeleton w') p \<longrightarrow>
        GetEventControl p (event_fqn (event_state ev)) (own_shm w') \<noteq> None)"
proof -
  obtain w sb w' ev where run: "SkeletonBase_OfferService radar_binding False radar_base w = Some (Inr (), sb, w')"
    and e: "elements_of sb = [(''speed'', \<lparr>event_binding = Some ev, event_offered = True\<rparr>)]"
    by (rule offer_radar)
  from offered_service_is_complete [OF run [unfolded radar_binding_def], where ?'b = unit and ?'g = unit] e
  have "\<forall>p :: (unit, unit) proxy. opens_memory_of (own_skeleton w') p \<longrightarrow>
      GetEventControl p (event_fqn (event_state ev)) (own_shm w') \<noteq> None"
    by simp
  with run e show ?thesis by blast
qed

end
