(* ===== verification/Spec2Isabelle.thy ===== *)
theory Spec2Isabelle
  imports Slot_Protocol Event_Data_Control_Composite Event_Subscription_Control Uid_Pid_Mapping
    Slot_Collector Sample_Reference_Tracker Subscription_Protocol Producer_Safety
    Consumer_Safety End_To_End
    Rollback_Executor Service_Offers Parsed_Configuration Offered_Service
begin

text \<open>
  A verification library for the LoLa binding of the communication library mw::com. Paths are below
  src/mw/com/impl; "lola" is bindings/lola.

  \<^bold>\<open>The program\<close>

  A provider owns a skeleton and offers a service instance; consumers own proxies. The samples of an event
  lie in slots of shared memory that the provider creates. Each slot has a 64-bit status word; providers
  and consumers change it by atomic operations only, without locks. What a consumer does is written to a
  transaction log in the same memory, so that it can be undone when the consumer has crashed and starts
  again. Consumers find service instances by flag files; processes tell each other of new samples by short
  messages; lock files tell a provider that starts again whether its memory is still in use. What is
  offered and how is read from a JSON configuration.

  \<^bold>\<open>Theories and sources\<close>

  Shared vocabulary
  \<^item> \<open>Lola_Prelude\<close>: words, error codes (com_error.h), \<open>'a run\<close> (\<open>None\<close> is the end of the process), bounded
    retries, words that pack fields (locales \<open>bounded_retry\<close>, \<open>packed_word\<close>, \<open>packed_bijection\<close>).
  \<^item> \<open>Atomic_World\<close>: shared memory whose atomic operations are preceded by a step of the other participants
    (\<open>sched\<close>); "quiet" means that these steps change nothing, a "rely" bounds what they may change
    (locale \<open>memory_protocol\<close>).

  Slots and logs (lola)
  \<^item> \<open>Event_Slot_Status\<close>: event_slot_status; \<open>Transaction_Log\<close>: transaction_log, transaction_log_slot;
    \<open>Transaction_Log_Set\<close>: transaction_log_set, transaction_log_registration_guard.
  \<^item> \<open>Event_Data_Control\<close>: event_data_control; \<open>Slot_Allocation\<close> and \<open>Slot_Reference\<close> have its lemmas for
    writers and readers, \<open>Slot_Protocol\<close> an abstract protocol of one writer and \<open>N\<close> readers that both refine.
  \<^item> \<open>Event_Data_Control_Composite\<close>: event_data_control_composite (QM and ASIL-B together).
  \<^item> \<open>Event_Subscription_Control\<close>, \<open>Uid_Pid_Mapping\<close>: the sources of these names.
  \<^item> \<open>Slot_Collector\<close>: slot_collector, slot_decrementer; \<open>Sample_Reference_Tracker\<close>: sample_reference_tracker.

  Messages (lola/messaging)
  \<^item> \<open>Element_Messages\<close>: element_fq_id, messages and their serialization; \<open>Message_Passing_Control\<close>;
    \<open>Notify_Event_Handler\<close>; \<open>Messaging_Service\<close>: the interface and the facade (locale \<open>event_messaging\<close>).
  \<^item> \<open>Event_Notification\<close> and \<open>Notification_Protocol\<close>: what notifications guarantee within a process and
    between two.

  Producers and consumers
  \<^item> \<open>Skeleton_Event\<close>: lola/skeleton_event.h, sample_allocatee_ptr.h; \<open>Producer_Safety\<close>: histories of a
    producer.
  \<^item> \<open>Subscription_State_Machine\<close>: subscription_state_machine with its states, subscription_helpers,
    event_control, proxy_event_common; \<open>Subscription_Protocol\<close>: histories of user calls.
  \<^item> \<open>Proxy_Event\<close>: lola/proxy_event.h, sample_ptr.h, plumbing/sample_ptr.h, proxy_event_base, proxy_event.h;
    \<open>Consumer_Safety\<close>: histories of a consumer; \<open>End_To_End\<close>: from \<open>Send\<close> to \<open>GetNewSamples\<close>.

  Life cycle of the shared memory
  \<^item> \<open>Rollback_Executor\<close>: transaction_log_rollback_executor, service_data_control.h, rollback_data.h and the
    restart logic of lola/proxy.cpp.
  \<^item> \<open>Path_Names\<close>: path_builder, shm_path_builder, partial_restart_path_builder.
  \<^item> \<open>Shared_Memory\<close>: the data section (service_data_storage.h and the aggregates in it) and the operating
    system as the record \<open>restart_os\<close> with its documented behaviour \<open>os_laws\<close>; \<open>Memory_Marker_Files\<close> is a
    system in memory that has this behaviour.
  \<^item> \<open>Skeleton_Binding\<close> and \<open>Skeleton_Offer\<close>: lola/skeleton.h and skeleton.cpp; \<open>Proxy_Binding\<close>:
    lola/proxy.h and proxy.cpp.
  \<^item> \<open>Partial_Restart\<close>: histories of skeletons and proxies that come, go and crash; \<open>Restart_Safety\<close>: their
    invariant; \<open>Restart_Properties\<close>: what it gives, and two histories in which the marker files give less.
  \<^item> \<open>Skeleton_Base\<close>: skeleton_base, skeleton_event_base.h, skeleton_event.h, skeleton_field_base.h,
    skeleton_field.h, flag_owner.h on the abstract interface of a binding; \<open>Offered_Service\<close>: the contract of
    a binding (locale \<open>offering\<close>) and LoLa as an instance of it.

  Service discovery (lola/service_discovery, lola/service_discovery_client)
  \<^item> \<open>Service_Instances\<close>: identifiers, handles and known_instances_container; \<open>Flag_Files\<close>: flag_file,
    flag_file_crawler; \<open>Service_Discovery_Client\<close>: the client; \<open>Memory_File_System\<close>: a file system in memory.
  \<^item> \<open>Service_Discovery_Links\<close>, \<open>Service_Discovery_Safety\<close>, \<open>Service_Discovery_History\<close>, \<open>Service_Offers\<close>:
    its invariant, what an operation does, histories, and offers that are found.

  Configuration (configuration)
  \<^item> \<open>Json_Objects\<close>: configuration_common_resources.h over the JSON library; \<open>Instance_Specifiers\<close>;
    \<open>Deployments\<close> and \<open>Service_Deployments\<close>: the deployment classes; \<open>Deployment_Round_Trips\<close>;
    \<open>Configurations\<close>: configuration, global and tracing configuration, instance_identifier;
    \<open>Configuration_Parser\<close>: config_parser; \<open>Parsed_Configuration\<close>: what holds of its results;
    \<open>Decimal_Text\<close>: numbers as text.

  \<^bold>\<open>How state and operations correspond\<close>

  A class is a record with its members, a method a definition with its name that takes and returns the
  records it changes. An assertion that fails, \<open>std::terminate\<close>, a null pointer that is dereferenced and an
  empty optional whose value is taken are \<open>None\<close>; an error that is returned is \<open>Inl\<close>. Integers are words of
  their width. Loops over containers are recursions over lists; ordered maps are lists in the order of
  their keys, hash maps lists in the order of insertion or ascending order where the order is visible.
  Pointers into shared memory are addresses of control blocks or numbers of regions.

  \<^bold>\<open>What the lemmas show\<close>

  \<^item> Slots: no interleaving makes a slot that somebody holds writable; reference counts are exact;
    allocation takes unused slots and, undisturbed, succeeds when there are more slots than the quotas and the
    slots in writing add up to; the detailed operations refine the abstract protocol.
  \<^item> Producers and consumers: no history of either, under interference of the others, ends the process,
    overwrites a held sample, hands a sample out twice or out of order; undisturbed, what is sent is received.
    What consumers hold is a function of the memory (\<open>claims\<close>), so samples they take while the producer is
    at work are covered; the value of a sample is kept while the control block of its consumer is in use.
  \<^item> Logs: a restarted consumer gives back, with each proxy it creates, what one log per event of its
    predecessor recorded, and nothing of others; failed rollbacks stay failed.
  \<^item> Subscription and notification: no history ends the process; the provider notifies a process exactly
    while it has handlers, although registrations are counted to save messages; a re-registration at an
    unchanged node breaks the counting.
  \<^item> Memory: names are unique; memory that a proxy uses is not replaced, whoever crashes when; a provider that
    restarts works on the memory its consumers have; an offered service has all its elements.
  \<^item> Discovery: consistent links, silent after a stop, exactly the searches concerned are told the handles
    known; offers are found and withdrawn.
  \<^item> Configuration: what the parser accepts is consistent, ids above 255 are cut; identifiers survive being
    sent as text.

  Properties that fail in the code are stated as they are: as theorems about the histories that show it, and
  as findings of the manifest.

  \<^bold>\<open>Bounds\<close>

  No fuel of our own is used: the loops are those of the code. The code bounds its retries: 100 (or
  101 passes) of the slot operations, 50 of the pid mapping, twice the number of subscribers for
  subscriptions, three attempts at the search path. A local notification makes at most 255 rounds and so
  at most 5100 messages go to other nodes; at most 65535 calls of handlers are made. A consumer holds at
  most 255 samples. Loops over containers end with the container.

  \<^bold>\<open>Assumptions\<close>

  \<^item> Atomic operations are sequentially consistent; \<open>compare_exchange_weak\<close> may fail by interference only
    where a theorem says so.
  \<^item> The counter that tells flag files apart, 64 bits in the code, is unbounded here.
  \<^item> A section under a mutex is one step; a handler of the discovery may only stop searches.
  \<^item> In \<open>Consumer_Safety\<close> the readers that belong to others are kept in a ghost control block that no
    operation of the code reads.
  \<^item> Operating system, JSON library, shared memory factory and lock files are arguments with laws
    (\<open>file_system_laws\<close>, \<open>os_laws\<close>), which the two systems in memory satisfy. The names are those of the
    build that is not for QNX.
  \<^item> Histories of restarts are cut where another process can see a difference: at the locks. A provider
    that ends within \<open>PrepareOffer\<close> has made some of the calls on its memory before it crashes. What
    processes write into memory is arbitrary there.
  \<^item> Reading an absent "bindings" object is undefined behaviour in the code and \<open>None\<close> here.

  \<^bold>\<open>Not modelled\<close>

  \<^item> Tracing: the runtime, the trace points, the filter and its parser hand samples to a trace library that is
    not part of the repository. Only the transaction log of tracing and the flag that disables it are here.
  \<^item> Message passing: senders, receivers and the transports over message queues and QNX resource managers
    (mw/com/message_passing) are input and output below the messages.
  \<^item> The runtime, the factories, the dispatcher of the service discovery, the generic proxy and the templates
    that generated code derives from: they construct and forward to the objects that are modelled.
  \<^item> Log messages, texts of errors, tests, mocks and examples.
\<close>

end
